(* ===== verification/Prelude.thy ===== *)
theory Prelude
  imports Main "HOL-Library.Word" "HOL-Library.Monad_Syntax"
begin

text \<open>
  What the component theories share: names for the C integer types, fixed-size memory with
  faulting access, wrapping clocks, an interface for machines driven by a sequence of calls, simulation of an abstract machine,
  and an interface for byte-wise check codes.

  C conventions of the whole development.
  \<^item> \<open>uint8_t\<close>, \<open>uint16_t\<close> and \<open>uint32_t\<close> are words where the code relies on the wrap-around,
    the bits or the modular order; lengths, offsets and indices are \<open>nat\<close>, truncated with
    \<open>u8\<close>, \<open>u16\<close> or \<open>u32\<close> where the code stores them in a narrower object.
  \<^item> An array is a list. A read or write outside it is undefined behaviour in C, so an
    operation that computes its own indices returns an \<open>option\<close>, \<open>None\<close> being the fault.
    That an operation never faults is a theorem, not an assumption.
  \<^item> A pointer the code compares with \<open>NULL\<close> is an \<open>option\<close> where \<open>NULL\<close> is a meaningful
    argument. The object an operation works on is passed and returned as a value.
\<close>

section \<open>Names and collections\<close>

type_synonym byte = "8 word"
type_synonym u16w = "16 word"
type_synonym u32w = "32 word"

named_theorems model_defs \<open>definitions a proof may unfold without thinking\<close>

unbundle bit_operations_syntax

abbreviation u8 :: "nat \<Rightarrow> nat" where
  "u8 n \<equiv> n mod 256"

abbreviation u16 :: "nat \<Rightarrow> nat" where
  "u16 n \<equiv> n mod 65536"

abbreviation u32 :: "nat \<Rightarrow> nat" where
  "u32 n \<equiv> n mod 4294967296"

text \<open>Subtraction of two \<open>unsigned\<close> values, and what it is when it does not wrap.\<close>

definition sub32 :: "nat \<Rightarrow> nat \<Rightarrow> nat" where
  "sub32 a b = u32 (a + 4294967296 - b)"

lemma sub32_eq [simp]:
  assumes "b \<le> a" "a < 4294967296"
  shows "sub32 a b = a - b"
proof -
  have "a + 4294967296 - b = (a - b) + 4294967296" using assms by arith
  moreover have "a - b < 4294967296" using assms by arith
  ultimately show ?thesis unfolding sub32_def by (metis mod_add_self2 mod_less)
qed

lemma unat_byte_less: "unat (b :: byte) < 256"
  using unsigned_less [of b] by simp

text \<open>A byte property can be checked on all 256 values.\<close>

lemma byte_cases: "list_all (\<lambda>n. P (of_nat n :: byte)) [0..<256] \<Longrightarrow> P x"
  using unat_byte_less [of x] by (auto simp: list_all_iff dest!: bspec [of _ _ "unat x"])

text \<open>Masking with \<open>2 ^ n - 1\<close> is a remainder.\<close>

lemma unat_and_mask: "unat (x AND mask n :: 'a::len word) = unat x mod 2 ^ n"
proof -
  have "unat (x AND mask n) = take_bit n (unat x)"
    by (simp only: take_bit_eq_mask [symmetric] unsigned_take_bit_eq)
  then show ?thesis by (simp only: take_bit_eq_mod)
qed

lemma unat_masks:
  "unat (x AND 0x0f :: 'a::len word) = unat x mod 16"
  "unat (x AND 0x3f :: 'a word) = unat x mod 64"
  "unat (x AND 0x7f :: 'a word) = unat x mod 128"
  "unat (x AND 0xff :: 'a word) = unat x mod 256"
  using unat_and_mask [of x 4] unat_and_mask [of x 6] unat_and_mask [of x 7] unat_and_mask [of x 8]
  by (simp_all add: mask_eq_exp_minus_1)

section \<open>Fixed-size memory\<close>

text \<open>\<open>memcpy\<close> into and out of an array, faulting when the range leaves it.\<close>

definition store_at :: "'a list \<Rightarrow> nat \<Rightarrow> 'a list \<Rightarrow> 'a list option" where
  "store_at buf off bs =
     (if off + length bs \<le> length buf
      then Some (take off buf @ bs @ drop (off + length bs) buf) else None)"

definition load_at :: "'a list \<Rightarrow> nat \<Rightarrow> nat \<Rightarrow> 'a list option" where
  "load_at buf off n = (if off + n \<le> length buf then Some (take n (drop off buf)) else None)"

text \<open>One element, \<open>buf[i]\<close>.\<close>

definition get_at :: "'a list \<Rightarrow> nat \<Rightarrow> 'a option" where
  "get_at buf i = (if i < length buf then Some (buf ! i) else None)"

definition set_at :: "'a list \<Rightarrow> nat \<Rightarrow> 'a \<Rightarrow> 'a list option" where
  "set_at buf i v = (if i < length buf then Some (buf[i := v]) else None)"

lemma store_at_Some [simp]:
  "off + length bs \<le> length buf \<Longrightarrow>
   store_at buf off bs = Some (take off buf @ bs @ drop (off + length bs) buf)"
  by (simp add: store_at_def)

lemma store_at_length: "store_at buf off bs = Some buf' \<Longrightarrow> length buf' = length buf"
  by (auto simp: store_at_def split: if_splits)

lemma store_at_take:
  "store_at buf off bs = Some buf' \<Longrightarrow> take (off + length bs) buf' = take off buf @ bs"
  by (auto simp: store_at_def split: if_splits)

lemma load_at_Some [simp]: "off + n \<le> length buf \<Longrightarrow> load_at buf off n = Some (take n (drop off buf))"
  by (simp add: load_at_def)

lemma load_at_length: "load_at buf off n = Some bs \<Longrightarrow> length bs = n"
  by (auto simp: load_at_def split: if_splits)

lemma get_at_Some [simp]: "i < length buf \<Longrightarrow> get_at buf i = Some (buf ! i)"
  by (simp add: get_at_def)

lemma set_at_Some [simp]: "i < length buf \<Longrightarrow> set_at buf i v = Some (buf[i := v])"
  by (simp add: set_at_def)

lemma set_at_length: "set_at buf i v = Some buf' \<Longrightarrow> length buf' = length buf"
  by (auto simp: set_at_def split: if_splits)

lemma take_append_chunk:
  "off + n \<le> length xs \<Longrightarrow> take off xs @ take n (drop off xs) = take (off + n) xs"
  by (simp add: take_add)

lemma bind_eq_SomeE:
  assumes "Option.bind x f = Some y"
  obtains z where "x = Some z" "f z = Some y"
  using assms by (cases x) auto

section \<open>Loops that may fault\<close>

text \<open>A \<open>for\<close> loop over the list of its index values.\<close>

fun fold_opt :: "('s \<Rightarrow> 'a \<Rightarrow> 's option) \<Rightarrow> 's \<Rightarrow> 'a list \<Rightarrow> 's option" where
  "fold_opt f s [] = Some s"
| "fold_opt f s (x # xs) = Option.bind (f s x) (\<lambda>s'. fold_opt f s' xs)"

lemma fold_opt_append:
  "fold_opt f s (xs @ ys) = Option.bind (fold_opt f s xs) (\<lambda>s'. fold_opt f s' ys)"
  by (induction xs arbitrary: s) simp_all

text \<open>An invariant of the loop, indexed by the number of iterations done.\<close>

lemma fold_opt_inv:
  assumes "I 0 s"
    and "\<And>j s. j < length xs \<Longrightarrow> I j s \<Longrightarrow> \<exists>s'. f s (xs ! j) = Some s' \<and> I (Suc j) s'"
  shows "\<exists>s'. fold_opt f s xs = Some s' \<and> I (length xs) s'"
  using assms
proof (induction xs arbitrary: I s)
  case Nil
  then show ?case by simp
next
  case (Cons x xs)
  from Cons.prems(2) [of 0 s] Cons.prems(1) obtain s' where s': "f s x = Some s'" "I (Suc 0) s'" by auto
  have "\<exists>t. fold_opt f s' xs = Some t \<and> I (Suc (length xs)) t"
  proof (rule Cons.IH [of "\<lambda>j. I (Suc j)"])
    show "I (Suc 0) s'" by (rule s'(2))
    show "\<exists>t. f u (xs ! j) = Some t \<and> I (Suc (Suc j)) t" if "j < length xs" "I (Suc j) u" for j u
      using Cons.prems(2) [of "Suc j" u] that by simp
  qed
  with s' show ?case by simp
qed

section \<open>Wrapping clocks\<close>

text \<open>
  The firmware compares 32-bit microsecond stamps by the sign of their difference,
  \<open>(int32_t)(now - deadline) >= 0\<close>.
\<close>

definition time_reached :: "u32w \<Rightarrow> u32w \<Rightarrow> bool" where
  "time_reached now deadline \<longleftrightarrow> 0 \<le> sint (now - deadline)"

lemma sint_nonneg_iff_bit: "0 \<le> sint (x :: u32w) \<longleftrightarrow> \<not> bit (uint x) 31"
  by (simp add: sint_uint signed_take_bit_nonnegative_iff)

lemma sint_nonneg_iff: "0 \<le> sint (x :: u32w) \<longleftrightarrow> unat x < 2147483648"
proof -
  have u: "0 \<le> uint x" "uint x < 4294967296" using uint_lt2p [of x] by simp_all
  have "odd (uint x div 2147483648) \<longleftrightarrow> \<not> uint x < 2147483648"
  proof (cases "uint x < 2147483648")
    case True
    with u show ?thesis by (simp add: div_pos_pos_trivial)
  next
    case False
    with u have "uint x div 2147483648 = 1"
      by (intro int_div_pos_eq [where r = "uint x - 2147483648"]) auto
    with False show ?thesis by simp
  qed
  moreover have "bit (uint x) 31 \<longleftrightarrow> odd (uint x div 2147483648)"
    by (simp add: bit_iff_odd)
  moreover have "uint x = int (unat x)" by simp
  then have "uint x < 2147483648 \<longleftrightarrow> unat x < 2147483648" by linarith
  ultimately show ?thesis unfolding sint_nonneg_iff_bit by (simp only: not_not)
qed

lemma time_reached_iff: "time_reached now d \<longleftrightarrow> unat (now - d) < 2147483648"
  by (simp add: time_reached_def sint_nonneg_iff)

lemma time_reached_refl [simp]: "time_reached t t"
  by (simp add: time_reached_iff)

text \<open>A deadline set in the future, less than half the counter away, is not yet reached.\<close>

lemma time_reached_before:
  assumes "0 < d" "d \<le> 2147483647"
  shows "\<not> time_reached t (t + d)"
proof -
  have "unat (- d) = 4294967296 - unat d"
  proof -
    have "- d = (0 - d)" by simp
    moreover have "unat (0 - d) = 4294967296 - unat d"
      using assms(1) unat_sub_if' [of 0 d] by (auto simp: word_less_nat_alt)
    ultimately show ?thesis by simp
  qed
  moreover have "unat d \<le> 2147483647" using assms(2) by (simp add: word_le_nat_alt)
  ultimately show ?thesis by (simp add: time_reached_iff)
qed

lemma time_reached_after:
  assumes "unat d < 2147483648"
  shows "time_reached (t + d) t"
  using assms by (simp add: time_reached_iff)

text \<open>The comparison only sees the difference, so it survives the wrap of the counter.\<close>

lemma time_reached_shift [simp]: "time_reached (t + k) (d + k) = time_reached t d"
  by (simp add: time_reached_def)

section \<open>Machines driven by calls\<close>

text \<open>
  A component with state is a step function from a state and a call to the next state and
  what the call returned, \<open>None\<close> being a fault. \<open>run_calls\<close> is a client's sequence of calls.
\<close>

fun run_calls :: "('s \<Rightarrow> 'c \<Rightarrow> ('s \<times> 'o) option) \<Rightarrow> 's \<Rightarrow> 'c list \<Rightarrow> ('s \<times> 'o list) option" where
  "run_calls step s [] = Some (s, [])"
| "run_calls step s (c # cs) = do {
     (s', r) \<leftarrow> step s c;
     (s'', rs) \<leftarrow> run_calls step s' cs;
     Some (s'', r # rs)
   }"

lemma run_calls_append:
  "run_calls step s (cs @ ds) = do {
     (s', rs) \<leftarrow> run_calls step s cs;
     (s'', qs) \<leftarrow> run_calls step s' ds;
     Some (s'', rs @ qs)
   }"
  by (induction cs arbitrary: s) (auto split: Option.bind_splits)

text \<open>
  The contract of such a component: from a state that satisfies the invariant, an admissible
  call neither faults nor leaves the invariant. What a client may then rely on, over any
  sequence of calls, is proved once.
\<close>

locale safe_machine =
  fixes step :: "'s \<Rightarrow> 'c \<Rightarrow> ('s \<times> 'o) option"
    and inv :: "'s \<Rightarrow> bool"
    and admissible :: "'c \<Rightarrow> bool"
  assumes step_safe: "inv s \<Longrightarrow> admissible c \<Longrightarrow> \<exists>s' r. step s c = Some (s', r) \<and> inv s'"
begin

lemma run_safe:
  "inv s \<Longrightarrow> list_all admissible cs \<Longrightarrow>
   \<exists>s' rs. run_calls step s cs = Some (s', rs) \<and> inv s' \<and> length rs = length cs"
proof (induction cs arbitrary: s)
  case Nil
  then show ?case by simp
next
  case (Cons c cs)
  then obtain s' r where s': "step s c = Some (s', r)" "inv s'"
    using step_safe [of s c] by auto
  with Cons obtain s'' rs where "run_calls step s' cs = Some (s'', rs)" "inv s''"
    "length rs = length cs" by fastforce
  with s' show ?case by simp
qed

lemma run_inv:
  "inv s \<Longrightarrow> list_all admissible cs \<Longrightarrow> run_calls step s cs = Some (s', rs) \<Longrightarrow> inv s'"
  using run_safe by fastforce

end

text \<open>Forward simulation: a component implements an abstract machine if each of its steps can be
  matched; then any sequence of calls gets the same answers.\<close>

fun run_spec :: "('a \<Rightarrow> 'i \<Rightarrow> 'a \<times> 'o) \<Rightarrow> 'a \<Rightarrow> 'i list \<Rightarrow> 'a \<times> 'o list" where
  "run_spec step a [] = (a, [])"
| "run_spec step a (i # is) =
     (let (a', r) = step a i; (a'', rs) = run_spec step a' is in (a'', r # rs))"

locale simulation =
  fixes cstep :: "'c \<Rightarrow> 'i \<Rightarrow> ('c \<times> 'o) option"
    and astep :: "'a \<Rightarrow> 'i \<Rightarrow> 'a \<times> 'o"
    and rel :: "'c \<Rightarrow> 'a \<Rightarrow> bool"
    and admissible :: "'i \<Rightarrow> bool"
  assumes step_simulates: "rel c a \<Longrightarrow> admissible i \<Longrightarrow>
    \<exists>c'. cstep c i = Some (c', snd (astep a i)) \<and> rel c' (fst (astep a i))"
begin

lemma run_simulates:
  "rel c a \<Longrightarrow> list_all admissible is \<Longrightarrow>
   \<exists>c'. run_calls cstep c is = Some (c', snd (run_spec astep a is)) \<and> rel c' (fst (run_spec astep a is))"
proof (induction "is" arbitrary: c a)
  case Nil
  then show ?case by simp
next
  case (Cons i "is")
  then obtain c1 where c1: "cstep c i = Some (c1, snd (astep a i))" "rel c1 (fst (astep a i))"
    using step_simulates [of c a i] by auto
  with Cons obtain c2 where "run_calls cstep c1 is = Some (c2, snd (run_spec astep (fst (astep a i)) is))"
    "rel c2 (fst (run_spec astep (fst (astep a i)) is))" by fastforce
  with c1 show ?case by (simp add: case_prod_beta)
qed

end

section \<open>Byte-wise check codes\<close>

text \<open>
  A check code keeps a register and folds the bytes of a message into it. When one step is
  injective in the register and in the byte, no change of a single byte goes unnoticed.
\<close>

locale check_code =
  fixes upd :: "'r \<Rightarrow> byte \<Rightarrow> 'r"
  assumes upd_inj_reg: "upd r a = upd r' a \<Longrightarrow> r = r'"
    and upd_inj_byte: "upd r a = upd r b \<Longrightarrow> a = b"
begin

lemma fold_inj_reg: "foldl upd r xs = foldl upd r' xs \<Longrightarrow> r = r'"
  by (induction xs arbitrary: r r') (auto dest: upd_inj_reg)

lemma single_byte_detected:
  "a \<noteq> b \<Longrightarrow> foldl upd r (xs @ a # ys) \<noteq> foldl upd r (xs @ b # ys)"
  by (auto dest!: fold_inj_reg upd_inj_byte)

end

end
