(* ===== verification/IsoTp.thy ===== *)
theory IsoTp
  imports Prelude
begin

text \<open>
  The ISO 15765-2 transport of \<open>main/isotp.c\<close>: one receiver and one sender state machine over
  classic CAN frames (\<open>main/can_frame.h\<close>), both polled with a 32-bit microsecond clock.
  Definitions follow the file's functions one by one. Lengths and offsets are \<open>nat\<close>,
  truncated to 16 bits where the structure stores them in \<open>uint16_t\<close>; sequence numbers,
  block counters and clocks are words. A C result \<open>int\<close> is the enumeration \<open>isotp_result\<close>;
  the \<open>0\<close> that some functions return is its value \<open>ISOTP_IGNORED\<close>.
  The lemmas: the well-formedness of both machines and its preservation by every call, that
  no call reads or writes outside an array, what each branch returns, and the end of each
  timer. \<open>IsoTpLink\<close> connects the two machines.
\<close>

section \<open>CAN frames\<close>

record can_frame =
  can_id :: u32w
  can_dlc :: nat
  can_data :: "byte list"

definition CAN_EFF_FLAG :: u32w where "CAN_EFF_FLAG = 0x80000000"
definition CAN_RTR_FLAG :: u32w where "CAN_RTR_FLAG = 0x40000000"
definition CAN_EFF_MASK :: u32w where "CAN_EFF_MASK = 0x1FFFFFFF"
definition CAN_SFF_MASK :: u32w where "CAN_SFF_MASK = 0x000007FF"

text \<open>The structure owns eight data bytes; \<open>dlc\<close> is a \<open>uint8_t\<close> and may say more.\<close>

definition frame_wf :: "can_frame \<Rightarrow> bool" where
  "frame_wf f \<longleftrightarrow> length (can_data f) = 8"

section \<open>Configuration\<close>

datatype isotp_result =
    ISOTP_IGNORED | ISOTP_FRAME | ISOTP_COMPLETE
  | ISOTP_ERR_ARGUMENT | ISOTP_ERR_BUSY | ISOTP_ERR_SEQUENCE | ISOTP_ERR_OVERFLOW
  | ISOTP_ERR_TIMEOUT_A | ISOTP_ERR_TIMEOUT_BS | ISOTP_ERR_TIMEOUT_CR
  | ISOTP_ERR_FLOW_STATUS | ISOTP_ERR_WAIT_LIMIT | ISOTP_ERR_SEND

fun isotp_code :: "isotp_result \<Rightarrow> int" where
  "isotp_code ISOTP_IGNORED = 0"
| "isotp_code ISOTP_FRAME = 1"
| "isotp_code ISOTP_COMPLETE = 2"
| "isotp_code ISOTP_ERR_ARGUMENT = -1"
| "isotp_code ISOTP_ERR_BUSY = -2"
| "isotp_code ISOTP_ERR_SEQUENCE = -3"
| "isotp_code ISOTP_ERR_OVERFLOW = -4"
| "isotp_code ISOTP_ERR_TIMEOUT_A = -5"
| "isotp_code ISOTP_ERR_TIMEOUT_BS = -6"
| "isotp_code ISOTP_ERR_TIMEOUT_CR = -7"
| "isotp_code ISOTP_ERR_FLOW_STATUS = -8"
| "isotp_code ISOTP_ERR_WAIT_LIMIT = -9"
| "isotp_code ISOTP_ERR_SEND = -10"

record isotp_config =
  tx_id :: u32w
  rx_id :: u32w
  rx_mask :: u32w
  extended_address :: bool
  tx_address :: byte
  rx_address :: byte
  functional :: bool
  pad :: bool
  pad_value :: byte
  cfg_block_size :: byte
  stmin :: byte
  wait_limit :: byte
  timeout_a_us :: u32w
  timeout_bs_us :: u32w
  timeout_cr_us :: u32w

definition isotp_expired :: "u32w \<Rightarrow> u32w \<Rightarrow> bool" where
  "isotp_expired now deadline \<longleftrightarrow> 0 \<le> sint (now - deadline)"

definition valid_id :: "u32w \<Rightarrow> bool" where
  "valid_id i =
     (let mask = (if i AND CAN_EFF_FLAG \<noteq> 0 then CAN_EFF_MASK else CAN_SFF_MASK)
      in i AND NOT (mask OR CAN_EFF_FLAG) = 0)"

definition INT32_MAX :: u32w where "INT32_MAX = 0x7FFFFFFF"

definition valid_config :: "isotp_config \<Rightarrow> bool" where
  "valid_config c \<longleftrightarrow>
     valid_id (tx_id c) \<and> valid_id (rx_id c) \<and>
     (stmin c \<le> 0x7f \<or> stmin c \<ge> 0xf1 \<and> stmin c \<le> 0xf9) \<and>
     timeout_a_us c \<noteq> 0 \<and> timeout_a_us c \<le> INT32_MAX \<and>
     timeout_bs_us c \<noteq> 0 \<and> timeout_bs_us c \<le> INT32_MAX \<and>
     timeout_cr_us c \<noteq> 0 \<and> timeout_cr_us c \<le> INT32_MAX"

text \<open>The offset of the protocol byte: one when an address byte comes first.\<close>

definition addr_len :: "isotp_config \<Rightarrow> nat" where
  "addr_len c = (if extended_address c then 1 else 0)"

text \<open>The frame argument may be \<open>NULL\<close>, which matches nothing.\<close>

definition isotp_matches :: "isotp_config \<Rightarrow> can_frame option \<Rightarrow> bool" where
  "isotp_matches c fp =
     (case fp of None \<Rightarrow> False
      | Some f \<Rightarrow>
          valid_id (can_id f) \<and> can_dlc f \<le> 8 \<and> can_dlc f > addr_len c \<and>
          (can_id f XOR rx_id c) AND (rx_mask c OR CAN_EFF_FLAG) = 0 \<and>
          (\<not> extended_address c \<or> can_data f ! 0 = rx_address c))"

definition isotp_prepare :: "isotp_config \<Rightarrow> can_frame" where
  "isotp_prepare c =
     \<lparr>can_id = tx_id c, can_dlc = 0,
      can_data = (let d = replicate 8 (pad_value c)
                  in if extended_address c then d[0 := tx_address c] else d)\<rparr>"

definition ISOTP_MAX_PAYLOAD :: nat where "ISOTP_MAX_PAYLOAD = 4095"

definition isotp_config_default :: "u32w \<Rightarrow> u32w \<Rightarrow> isotp_config" where
  "isotp_config_default t r =
     \<lparr>tx_id = t, rx_id = r, rx_mask = 0xFFFFFFFF, extended_address = False, tx_address = 0,
      rx_address = 0, functional = False, pad = True, pad_value = 0, cfg_block_size = 0,
      stmin = 0, wait_limit = 255, timeout_a_us = 1000000, timeout_bs_us = 1000000,
      timeout_cr_us = 1000000\<rparr>"

definition isotp_stmin_us :: "byte \<Rightarrow> u32w" where
  "isotp_stmin_us v =
     (if v \<le> 0x7f then ucast v * 1000
      else if v \<ge> 0xf1 \<and> v \<le> 0xf9 then (ucast v - 0xf0) * 100
      else 127000)"

section \<open>The receiver\<close>

datatype isotp_rx_state = ISOTP_RX_IDLE | ISOTP_RX_FC_READY | ISOTP_RX_FC_CONFIRM | ISOTP_RX_CF

text \<open>\<open>rx_buffer\<close> is \<open>None\<close> for a streaming receiver, whose \<open>capacity\<close> only bounds the message.\<close>

record isotp_rx =
  rx_config :: isotp_config
  rx_buffer :: "byte list option"
  rx_capacity :: nat
  rx_state :: isotp_rx_state
  rx_deadline :: u32w
  rx_total :: nat
  rx_offset :: nat
  rx_sequence :: byte
  rx_block_count :: byte
  rx_flow_status :: byte
  rx_padding_error :: bool

text \<open>\<open>seg_data\<close> is what the borrowed pointer and \<open>length\<close> of the C structure denote.\<close>

record isotp_segment =
  seg_data :: "byte list"
  seg_offset :: nat
  seg_total :: nat
  seg_started :: bool
  seg_complete :: bool
  seg_replaced :: bool
  seg_padding_error :: bool

definition segment_zero :: isotp_segment where
  "segment_zero =
     \<lparr>seg_data = [], seg_offset = 0, seg_total = 0, seg_started = False, seg_complete = False,
      seg_replaced = False, seg_padding_error = False\<rparr>"

definition isotp_rx_init :: "isotp_config \<Rightarrow> byte list option \<Rightarrow> nat \<Rightarrow> isotp_result + isotp_rx" where
  "isotp_rx_init c buffer capacity =
     (if \<not> valid_config c then Inl ISOTP_ERR_ARGUMENT
      else Inr \<lparr>rx_config = c, rx_buffer = buffer, rx_capacity = capacity,
                rx_state = ISOTP_RX_IDLE, rx_deadline = 0, rx_total = 0, rx_offset = 0,
                rx_sequence = 0, rx_block_count = 0, rx_flow_status = 0,
                rx_padding_error = False\<rparr>)"

definition isotp_rx_check_timeout :: "isotp_rx \<Rightarrow> u32w \<Rightarrow> isotp_rx \<times> isotp_result" where
  "isotp_rx_check_timeout rx now =
     (if rx_state rx = ISOTP_RX_IDLE \<or> \<not> isotp_expired now (rx_deadline rx)
      then (rx, ISOTP_IGNORED)
      else (rx\<lparr>rx_state := ISOTP_RX_IDLE\<rparr>,
            if rx_state rx = ISOTP_RX_CF then ISOTP_ERR_TIMEOUT_CR else ISOTP_ERR_TIMEOUT_A))"

definition segment_copy :: "isotp_rx \<Rightarrow> isotp_segment \<Rightarrow> byte list \<Rightarrow> (isotp_rx \<times> isotp_segment) option" where
  "segment_copy rx s data = do {
     buf \<leftarrow> (case rx_buffer rx of None \<Rightarrow> Some None
              | Some b \<Rightarrow> map_option Some (store_at b (rx_offset rx) data));
     let off = u16 (rx_offset rx + length data);
     Some (rx\<lparr>rx_buffer := buf, rx_offset := off\<rparr>,
           s\<lparr>seg_data := data, seg_offset := rx_offset rx, seg_total := rx_total rx,
             seg_padding_error := rx_padding_error rx,
             seg_complete := (off = rx_total rx)\<rparr>)
   }"

text \<open>The single frame and first frame branch of \<open>isotp_rx_feed\<close>, of a message of \<open>len\<close> bytes.\<close>

definition rx_feed_start ::
  "isotp_rx \<Rightarrow> can_frame \<Rightarrow> u32w \<Rightarrow> nat \<Rightarrow> nat \<Rightarrow> (isotp_rx \<times> isotp_segment \<times> isotp_result) option"
where
  "rx_feed_start rx f now typ len = do {
     let a = addr_len (rx_config rx);
     let s = segment_zero\<lparr>seg_replaced := (rx_state rx \<noteq> ISOTP_RX_IDLE)\<rparr>;
     let rx = rx\<lparr>rx_state := ISOTP_RX_IDLE, rx_offset := 0, rx_total := u16 len,
                 rx_padding_error := (can_dlc f < 8)\<rparr>;
     if len > rx_capacity rx then
       Some (if typ = 1
             then rx\<lparr>rx_flow_status := 2, rx_state := ISOTP_RX_FC_READY,
                     rx_deadline := now + timeout_a_us (rx_config rx)\<rparr>
             else rx,
             s, ISOTP_ERR_OVERFLOW)
     else do {
       let s = s\<lparr>seg_started := True\<rparr>;
       if typ = 0 then do {
         data \<leftarrow> load_at (can_data f) (a + 1) len;
         (rx, s) \<leftarrow> segment_copy rx s data;
         Some (rx, s, ISOTP_COMPLETE)
       } else do {
         let rx = rx\<lparr>rx_sequence := 1, rx_block_count := 0, rx_flow_status := 0,
                     rx_state := ISOTP_RX_FC_READY,
                     rx_deadline := now + timeout_a_us (rx_config rx)\<rparr>;
         data \<leftarrow> load_at (can_data f) (a + 2) (6 - a);
         (rx, s) \<leftarrow> segment_copy rx s data;
         Some (rx, s, ISOTP_FRAME)
       }
     }
   }"

text \<open>The payload of the next consecutive frame.\<close>

definition rx_cf_size :: "isotp_rx \<Rightarrow> nat" where
  "rx_cf_size rx =
     (let a = addr_len (rx_config rx); remaining = sub32 (rx_total rx) (rx_offset rx)
      in if remaining < 7 - a then remaining else 7 - a)"

text \<open>The consecutive frame branch.\<close>

definition rx_feed_cf ::
  "isotp_rx \<Rightarrow> can_frame \<Rightarrow> u32w \<Rightarrow> (isotp_rx \<times> isotp_segment \<times> isotp_result) option"
where
  "rx_feed_cf rx f now = do {
     let a = addr_len (rx_config rx);
     let len = rx_cf_size rx;
     if can_dlc f < a + 1 + len then Some (rx, segment_zero, ISOTP_IGNORED)
     else if (can_data f ! a) AND 0x0f \<noteq> rx_sequence rx
     then Some (rx\<lparr>rx_state := ISOTP_RX_IDLE\<rparr>, segment_zero, ISOTP_ERR_SEQUENCE)
     else do {
       let rx = rx\<lparr>rx_padding_error := (rx_padding_error rx \<or> can_dlc f < 8)\<rparr>;
       data \<leftarrow> load_at (can_data f) (a + 1) len;
       (rx, s) \<leftarrow> segment_copy rx segment_zero data;
       let rx = rx\<lparr>rx_sequence := (rx_sequence rx + 1) AND 0x0f\<rparr>;
       if seg_complete s then Some (rx\<lparr>rx_state := ISOTP_RX_IDLE\<rparr>, s, ISOTP_COMPLETE)
       else do {
         let rx = rx\<lparr>rx_deadline := now + timeout_cr_us (rx_config rx)\<rparr>;
         let bs = cfg_block_size (rx_config rx);
         let rx = (if bs = 0 then rx
                   else if rx_block_count rx + 1 = bs
                   then rx\<lparr>rx_block_count := 0, rx_state := ISOTP_RX_FC_READY,
                           rx_deadline := now + timeout_a_us (rx_config rx)\<rparr>
                   else rx\<lparr>rx_block_count := rx_block_count rx + 1\<rparr>);
         Some (rx, s, ISOTP_FRAME)
       }
     }
   }"

definition isotp_rx_feed ::
  "isotp_rx \<Rightarrow> can_frame option \<Rightarrow> u32w \<Rightarrow> (isotp_rx \<times> isotp_segment \<times> isotp_result) option"
where
  "isotp_rx_feed rx fp now =
     (let (rx, rc) = isotp_rx_check_timeout rx now in
      if isotp_code rc < 0 then Some (rx, segment_zero, rc)
      else case fp of
        None \<Rightarrow> Some (rx, segment_zero, ISOTP_IGNORED)
      | Some f \<Rightarrow>
          if \<not> isotp_matches (rx_config rx) fp then Some (rx, segment_zero, ISOTP_IGNORED)
          else
            let a = addr_len (rx_config rx);
                hd = can_data f ! a;
                typ = unat (drop_bit 4 hd)
            in if typ = 0 then
                 let len = unat (hd AND 0x0f) in
                 if len = 0 \<or> len > can_dlc f - a - 1
                 then Some (rx, segment_zero, ISOTP_IGNORED)
                 else rx_feed_start rx f now typ len
               else if typ = 1 then
                 if functional (rx_config rx) \<or> can_dlc f \<noteq> 8
                 then Some (rx, segment_zero, ISOTP_IGNORED)
                 else
                   let len = unat (hd AND 0x0f) * 256 + unat (can_data f ! (a + 1)) in
                   if len \<le> 7 - a then Some (rx, segment_zero, ISOTP_IGNORED)
                   else rx_feed_start rx f now typ len
               else if typ \<noteq> 2 \<or> rx_state rx \<noteq> ISOTP_RX_CF
               then Some (rx, segment_zero, ISOTP_IGNORED)
               else rx_feed_cf rx f now)"

text \<open>The frame comes back only with \<open>ISOTP_FRAME\<close>.\<close>

definition isotp_rx_flow_control ::
  "isotp_rx \<Rightarrow> u32w \<Rightarrow> isotp_rx \<times> can_frame option \<times> isotp_result" where
  "isotp_rx_flow_control rx now =
     (let (rx, rc) = isotp_rx_check_timeout rx now in
      if isotp_code rc < 0 \<or> rx_state rx \<noteq> ISOTP_RX_FC_READY then (rx, None, rc)
      else
        let c = rx_config rx;
            a = addr_len c;
            f = isotp_prepare c;
            d = (can_data f)[a := 0x30 OR rx_flow_status rx,
                             a + 1 := cfg_block_size c,
                             a + 2 := stmin c]
        in (rx\<lparr>rx_state := ISOTP_RX_FC_CONFIRM, rx_deadline := now + timeout_a_us c\<rparr>,
            Some (f\<lparr>can_data := d, can_dlc := (if pad c then 8 else a + 3)\<rparr>),
            ISOTP_FRAME))"

definition isotp_rx_confirm :: "isotp_rx \<Rightarrow> bool \<Rightarrow> u32w \<Rightarrow> isotp_rx \<times> isotp_result" where
  "isotp_rx_confirm rx success now =
     (if rx_state rx \<noteq> ISOTP_RX_FC_CONFIRM then (rx, ISOTP_ERR_ARGUMENT)
      else
        let (rx, rc) = isotp_rx_check_timeout rx now in
        if isotp_code rc < 0 then (rx, rc)
        else if \<not> success \<or> rx_flow_status rx = 2
        then (rx\<lparr>rx_state := ISOTP_RX_IDLE\<rparr>, if success then ISOTP_IGNORED else ISOTP_ERR_SEND)
        else (rx\<lparr>rx_state := ISOTP_RX_CF, rx_deadline := now + timeout_cr_us (rx_config rx)\<rparr>,
              ISOTP_IGNORED))"

section \<open>The sender\<close>

datatype isotp_tx_state =
  ISOTP_TX_IDLE | ISOTP_TX_READY | ISOTP_TX_CONFIRM | ISOTP_TX_FC | ISOTP_TX_CF

record isotp_tx =
  tx_config :: isotp_config
  tx_buffer :: "byte list"
  tx_state :: isotp_tx_state
  tx_deadline :: u32w
  tx_next :: u32w
  tx_last_cf :: u32w
  tx_separation :: u32w
  tx_total :: nat
  tx_offset :: nat
  tx_wait_count :: u16w
  tx_sequence :: byte
  tx_block_size :: byte
  tx_block_count :: byte
  tx_sent_cf :: bool
  tx_pending_cf :: bool
  tx_reserved_stmin :: bool
  tx_padding_error :: bool

definition isotp_tx_init :: "isotp_config \<Rightarrow> isotp_result + isotp_tx" where
  "isotp_tx_init c =
     (if \<not> valid_config c then Inl ISOTP_ERR_ARGUMENT
      else Inr \<lparr>tx_config = c, tx_buffer = [], tx_state = ISOTP_TX_IDLE, tx_deadline = 0,
                tx_next = 0, tx_last_cf = 0, tx_separation = 0, tx_total = 0, tx_offset = 0,
                tx_wait_count = 0, tx_sequence = 0, tx_block_size = 0, tx_block_count = 0,
                tx_sent_cf = False, tx_pending_cf = False, tx_reserved_stmin = False,
                tx_padding_error = False\<rparr>)"

text \<open>\<open>data\<close> is \<open>None\<close> for a \<open>NULL\<close> pointer; \<open>len\<close> is the length the caller claims.\<close>

definition isotp_tx_start ::
  "isotp_tx \<Rightarrow> byte list option \<Rightarrow> nat \<Rightarrow> u32w \<Rightarrow> isotp_tx \<times> isotp_result" where
  "isotp_tx_start tx data len now =
     (case data of None \<Rightarrow> (tx, ISOTP_ERR_ARGUMENT)
      | Some bytes \<Rightarrow>
          if len = 0 \<or> len > ISOTP_MAX_PAYLOAD \<or>
             (functional (tx_config tx) \<and> len > 7 - addr_len (tx_config tx))
          then (tx, ISOTP_ERR_ARGUMENT)
          else if tx_state tx \<noteq> ISOTP_TX_IDLE then (tx, ISOTP_ERR_BUSY)
          else (tx\<lparr>tx_buffer := bytes, tx_total := u16 len, tx_offset := 0, tx_sequence := 1,
                   tx_wait_count := 0, tx_block_count := 0, tx_sent_cf := False,
                   tx_reserved_stmin := False, tx_padding_error := False,
                   tx_state := ISOTP_TX_READY,
                   tx_deadline := now + timeout_a_us (tx_config tx)\<rparr>,
                ISOTP_IGNORED))"

definition isotp_tx_check_timeout :: "isotp_tx \<Rightarrow> u32w \<Rightarrow> isotp_tx \<times> isotp_result" where
  "isotp_tx_check_timeout tx now =
     (if tx_state tx = ISOTP_TX_IDLE \<or> tx_state tx = ISOTP_TX_CF \<or>
         \<not> isotp_expired now (tx_deadline tx)
      then (tx, ISOTP_IGNORED)
      else (tx\<lparr>tx_state := ISOTP_TX_IDLE\<rparr>,
            if tx_state tx = ISOTP_TX_FC then ISOTP_ERR_TIMEOUT_BS else ISOTP_ERR_TIMEOUT_A))"

text \<open>The ContinueToSend branch of \<open>isotp_tx_flow_control\<close>.\<close>

definition tx_continue :: "isotp_tx \<Rightarrow> byte \<Rightarrow> byte \<Rightarrow> u32w \<Rightarrow> isotp_tx" where
  "tx_continue tx bs st now =
     (let reserved = (tx_reserved_stmin tx \<or> st > 0x7f \<and> (st < 0xf1 \<or> st > 0xf9));
          sep = (if reserved then 127000 else isotp_stmin_us st)
      in tx\<lparr>tx_block_size := bs, tx_reserved_stmin := reserved, tx_separation := sep,
            tx_block_count := 0, tx_wait_count := 0,
            tx_next := (if tx_sent_cf tx \<and> \<not> isotp_expired now (tx_last_cf tx + sep)
                        then tx_last_cf tx + sep else now),
            tx_state := ISOTP_TX_CF\<rparr>)"

definition isotp_tx_flow_control ::
  "isotp_tx \<Rightarrow> can_frame option \<Rightarrow> u32w \<Rightarrow> isotp_tx \<times> isotp_result" where
  "isotp_tx_flow_control tx fp now =
     (let (tx, rc) = isotp_tx_check_timeout tx now in
      if isotp_code rc < 0 then (tx, rc)
      else case fp of None \<Rightarrow> (tx, ISOTP_IGNORED)
      | Some f \<Rightarrow>
          let a = addr_len (tx_config tx) in
          if tx_state tx \<noteq> ISOTP_TX_FC \<or> \<not> isotp_matches (tx_config tx) fp \<or>
             can_dlc f < a + 3 \<or> drop_bit 4 (can_data f ! a) \<noteq> 3
          then (tx, ISOTP_IGNORED)
          else
            let fs = can_data f ! a AND 0x0f;
                tx = tx\<lparr>tx_padding_error := (tx_padding_error tx \<or> can_dlc f < 8)\<rparr>
            in if fs = 0 then
                 (tx_continue tx (can_data f ! (a + 1)) (can_data f ! (a + 2)) now, ISOTP_FRAME)
               else
                 let tx = (if fs = 1 then tx\<lparr>tx_wait_count := tx_wait_count tx + 1\<rparr> else tx)
                 in if fs = 1 \<and> tx_wait_count tx \<le> ucast (wait_limit (tx_config tx)) then
                      (tx\<lparr>tx_deadline := now + timeout_bs_us (tx_config tx)\<rparr>, ISOTP_FRAME)
                    else
                      (tx\<lparr>tx_state := ISOTP_TX_IDLE\<rparr>,
                       if fs = 1 then ISOTP_ERR_WAIT_LIMIT
                       else if fs = 2 then ISOTP_ERR_OVERFLOW else ISOTP_ERR_FLOW_STATUS))"

definition tx_cf_size :: "isotp_tx \<Rightarrow> nat" where
  "tx_cf_size tx =
     (let a = addr_len (tx_config tx); rest = sub32 (tx_total tx) (tx_offset tx)
      in if rest > 7 - a then 7 - a else rest)"

definition isotp_tx_next ::
  "isotp_tx \<Rightarrow> u32w \<Rightarrow> (isotp_tx \<times> can_frame option \<times> isotp_result) option" where
  "isotp_tx_next tx now =
     (let (tx, rc) = isotp_tx_check_timeout tx now in
      if isotp_code rc < 0 then Some (tx, None, rc)
      else if tx_state tx \<noteq> ISOTP_TX_READY \<and> tx_state tx \<noteq> ISOTP_TX_CF
      then Some (tx, None, ISOTP_IGNORED)
      else if tx_state tx = ISOTP_TX_CF \<and> \<not> isotp_expired now (tx_next tx)
      then Some (tx, None, ISOTP_IGNORED)
      else do {
        let c = tx_config tx;
        let a = addr_len c;
        let f = isotp_prepare c;
        let total = tx_total tx;
        let off = tx_offset tx;
        let tx = tx\<lparr>tx_pending_cf := (off \<noteq> 0)\<rparr>;
        let (tx, hdr, len) =
          (if off = 0 \<and> total \<le> 7 - a then (tx, [of_nat total], total)
           else if off = 0 then
             (tx, [0x10 OR of_nat (total div 256), of_nat (total mod 256)], 6 - a)
           else
             (tx\<lparr>tx_sequence := (tx_sequence tx + 1) AND 0x0f\<rparr>,
              [0x20 OR tx_sequence tx], tx_cf_size tx));
        let start = a + length hdr;
        d \<leftarrow> store_at (can_data f) a hdr;
        chunk \<leftarrow> load_at (tx_buffer tx) off len;
        d \<leftarrow> store_at d start chunk;
        Some (tx\<lparr>tx_offset := u16 (off + len), tx_state := ISOTP_TX_CONFIRM,
                 tx_deadline := now + timeout_a_us c\<rparr>,
              Some (f\<lparr>can_data := d, can_dlc := (if pad c then 8 else start + len)\<rparr>),
              ISOTP_FRAME)
      })"

definition isotp_tx_confirm :: "isotp_tx \<Rightarrow> bool \<Rightarrow> u32w \<Rightarrow> isotp_tx \<times> isotp_result" where
  "isotp_tx_confirm tx success now =
     (if tx_state tx \<noteq> ISOTP_TX_CONFIRM then (tx, ISOTP_ERR_ARGUMENT)
      else
        let (tx, rc) = isotp_tx_check_timeout tx now in
        if isotp_code rc < 0 then (tx, rc)
        else if \<not> success then (tx\<lparr>tx_state := ISOTP_TX_IDLE\<rparr>, ISOTP_ERR_SEND)
        else if tx_offset tx = tx_total tx
        then (tx\<lparr>tx_state := ISOTP_TX_IDLE\<rparr>, ISOTP_COMPLETE)
        else
          let tx = (if tx_pending_cf tx
                    then tx\<lparr>tx_sent_cf := True, tx_last_cf := now,
                            tx_block_count := tx_block_count tx + 1\<rparr>
                    else tx)
          in if \<not> tx_pending_cf tx \<or> tx_block_size tx \<noteq> 0 \<and> tx_block_count tx = tx_block_size tx
             then (tx\<lparr>tx_state := ISOTP_TX_FC,
                      tx_deadline := now + timeout_bs_us (tx_config tx)\<rparr>, ISOTP_IGNORED)
             else (tx\<lparr>tx_state := ISOTP_TX_CF, tx_next := now + tx_separation tx\<rparr>,
                   ISOTP_IGNORED))"

section \<open>Generic facts\<close>

lemma isotp_expired_time: "isotp_expired = time_reached"
  by (simp add: isotp_expired_def time_reached_def fun_eq_iff)

lemma addr_len_le [simp]: "addr_len c \<le> Suc 0"
  by (simp add: addr_len_def)

lemma addr_len_arith [simp]:
  "addr_len c < 6" "addr_len c + (6 - addr_len c) = 6" "addr_len c + (7 - addr_len c) = 7"
  by (simp_all add: addr_len_def)

text \<open>The payload of a consecutive frame when \<open>rest\<close> bytes are still to come.\<close>

definition cf_len :: "isotp_config \<Rightarrow> nat \<Rightarrow> nat" where
  "cf_len c rest = min rest (7 - addr_len c)"

lemma cf_len_bounds:
  "addr_len c + cf_len c r \<le> 7" "cf_len c r \<le> r" "0 < r \<Longrightarrow> 0 < cf_len c r"
  using addr_len_arith [of c] by (auto simp: cf_len_def simp del: addr_len_arith)

lemma rx_cf_size_eq:
  "rx_offset rx \<le> rx_total rx \<Longrightarrow> rx_total rx \<le> 4095 \<Longrightarrow>
   rx_cf_size rx = cf_len (rx_config rx) (rx_total rx - rx_offset rx)"
  by (auto simp: rx_cf_size_def cf_len_def Let_def)

lemma tx_cf_size_eq:
  "tx_offset tx \<le> tx_total tx \<Longrightarrow> tx_total tx \<le> 4095 \<Longrightarrow>
   tx_cf_size tx = cf_len (tx_config tx) (tx_total tx - tx_offset tx)"
  by (auto simp: tx_cf_size_def cf_len_def Let_def)

lemma unat_low_nibble: "unat (x AND 0x0f :: byte) \<le> 15"
proof -
  have "x AND 0x0f \<le> (0x0f :: byte)" by (rule word_and_le1)
  then show ?thesis by (simp add: word_le_nat_alt)
qed

lemma unat_ucast_byte [simp]: "unat (ucast (b :: byte) :: u32w) = unat b"
proof -
  have "unat b < 2 ^ 32" using unat_byte_less [of b] by simp
  then show ?thesis by (simp add: unsigned_ucast_eq take_bit_nat_eq_self)
qed

text \<open>The separation time is never longer than 127 ms, reserved encodings included.\<close>

lemma isotp_stmin_us_le [simp]: "isotp_stmin_us v \<le> 127000"
proof -
  have "unat (isotp_stmin_us v) \<le> 127000"
  proof (cases "v \<le> 0x7f")
    case True
    then have "unat v \<le> 127" by (simp add: word_le_nat_alt)
    then have "unat (ucast v * 1000 :: u32w) = unat v * 1000"
      by (simp add: unat_word_ariths)
    with True \<open>unat v \<le> 127\<close> show ?thesis by (simp add: isotp_stmin_us_def)
  next
    case False
    show ?thesis
    proof (cases "v \<ge> 0xf1 \<and> v \<le> 0xf9")
      case True
      then have v: "241 \<le> unat v" "unat v \<le> 249" by (simp_all add: word_le_nat_alt)
      have w9: "unat (ucast v - 0xf0 :: u32w) = unat v - 240"
        using v by (simp add: unat_sub_if')
      have m: "unat (w * 100) = unat w * 100" if "unat w \<le> 9" for w :: u32w
        using that by (simp add: unat_word_ariths)
      have "unat ((ucast v - 0xf0) * 100 :: u32w) = (unat v - 240) * 100"
        using v w9 by (subst m) simp_all
      with True False v show ?thesis by (simp add: isotp_stmin_us_def)
    next
      case F: False
      with False show ?thesis by (auto simp: isotp_stmin_us_def)
    qed
  qed
  then show ?thesis by (simp add: word_le_nat_alt)
qed

section \<open>The receiver is safe\<close>

fun buffer_ok :: "byte list option \<Rightarrow> nat \<Rightarrow> bool" where
  "buffer_ok None n = True"
| "buffer_ok (Some b) n = (length b = n)"

definition rx_wf :: "isotp_rx \<Rightarrow> bool" where
  "rx_wf rx \<longleftrightarrow>
     valid_config (rx_config rx) \<and> buffer_ok (rx_buffer rx) (rx_capacity rx) \<and>
     rx_flow_status rx \<in> {0, 2} \<and> rx_sequence rx \<le> 15 \<and>
     (rx_state rx = ISOTP_RX_CF \<longrightarrow> rx_flow_status rx = 0) \<and>
     (rx_state rx \<noteq> ISOTP_RX_IDLE \<and> rx_flow_status rx = 0 \<longrightarrow>
        rx_offset rx < rx_total rx \<and> rx_total rx \<le> rx_capacity rx \<and> rx_total rx \<le> 4095)"

lemma rx_wf_timeout: "rx_wf rx \<Longrightarrow> rx_wf (fst (isotp_rx_check_timeout rx now))"
  by (auto simp: rx_wf_def isotp_rx_check_timeout_def)

lemma rx_wf_init:
  "isotp_rx_init c buffer capacity = Inr rx \<Longrightarrow> buffer_ok buffer capacity \<Longrightarrow> rx_wf rx"
  by (auto simp: rx_wf_def isotp_rx_init_def split: if_splits)

text \<open>What \<open>segment_copy\<close> does when the data fits in the announced message.\<close>

definition written :: "isotp_rx \<Rightarrow> byte list \<Rightarrow> byte list option" where
  "written rx data =
     map_option (\<lambda>b. take (rx_offset rx) b @ data @ drop (rx_offset rx + length data) b)
       (rx_buffer rx)"

lemma segment_copy_fits:
  assumes "rx_offset rx + length data \<le> rx_total rx" "rx_total rx \<le> rx_capacity rx"
    "rx_total rx \<le> 4095" "buffer_ok (rx_buffer rx) (rx_capacity rx)"
  shows "segment_copy rx s data =
    Some (rx\<lparr>rx_buffer := written rx data, rx_offset := rx_offset rx + length data\<rparr>,
          s\<lparr>seg_data := data, seg_offset := rx_offset rx, seg_total := rx_total rx,
            seg_padding_error := rx_padding_error rx,
            seg_complete := (rx_offset rx + length data = rx_total rx)\<rparr>)"
  using assms by (cases "rx_buffer rx") (auto simp: segment_copy_def written_def Let_def)

lemma buffer_ok_written [simp]:
  "buffer_ok (rx_buffer rx) n \<Longrightarrow> rx_offset rx + length data \<le> n \<Longrightarrow> buffer_ok (written rx data) n"
  by (cases "rx_buffer rx") (auto simp: written_def)

lemma written_update [simp]:
  "written (rx\<lparr>rx_state := st\<rparr>) data = written rx data"
  "written (rx\<lparr>rx_deadline := dl\<rparr>) data = written rx data"
  "written (rx\<lparr>rx_total := tt\<rparr>) data = written rx data"
  "written (rx\<lparr>rx_sequence := sq\<rparr>) data = written rx data"
  "written (rx\<lparr>rx_block_count := bc\<rparr>) data = written rx data"
  "written (rx\<lparr>rx_flow_status := fs\<rparr>) data = written rx data"
  "written (rx\<lparr>rx_padding_error := pe\<rparr>) data = written rx data"
  by (simp_all add: written_def)

lemma rx_feed_start_safe:
  assumes wf: "rx_wf rx" and f: "frame_wf f" "can_dlc f \<le> 8" "addr_len (rx_config rx) < can_dlc f"
    and t: "typ = 0 \<and> 0 < len \<and> len \<le> can_dlc f - addr_len (rx_config rx) - 1 \<or>
       typ = 1 \<and> 7 - addr_len (rx_config rx) < len \<and> len \<le> 4095"
  shows "\<exists>rx' s rc. rx_feed_start rx f now typ len = Some (rx', s, rc) \<and> rx_wf rx'"
proof -
  have cfg: "valid_config (rx_config rx)" "buffer_ok (rx_buffer rx) (rx_capacity rx)"
    using wf by (auto simp: rx_wf_def)
  show ?thesis using t
  proof
    assume "typ = 0 \<and> 0 < len \<and> len \<le> can_dlc f - addr_len (rx_config rx) - 1"
    then show ?thesis using f cfg wf
      by (auto simp: rx_feed_start_def Let_def rx_wf_def frame_wf_def segment_copy_fits)
  next
    assume "typ = 1 \<and> 7 - addr_len (rx_config rx) < len \<and> len \<le> 4095"
    then show ?thesis using f cfg wf
      by (cases "extended_address (rx_config rx)")
        (auto simp: rx_feed_start_def Let_def rx_wf_def frame_wf_def segment_copy_fits addr_len_def)
  qed
qed

lemma rx_feed_cf_safe:
  assumes wf: "rx_wf rx" and f: "frame_wf f" "can_dlc f \<le> 8"
    and st: "rx_state rx = ISOTP_RX_CF"
  shows "\<exists>rx' s rc. rx_feed_cf rx f now = Some (rx', s, rc) \<and> rx_wf rx'"
proof -
  have w: "valid_config (rx_config rx)" "buffer_ok (rx_buffer rx) (rx_capacity rx)"
    "rx_flow_status rx = 0" "rx_offset rx < rx_total rx" "rx_total rx \<le> rx_capacity rx"
    "rx_total rx \<le> 4095" "rx_sequence rx \<le> 15"
    using wf st by (auto simp: rx_wf_def)
  have "rx_offset rx + rx_cf_size rx \<le> rx_total rx"
    using w cf_len_bounds(2) [of "rx_config rx" "rx_total rx - rx_offset rx"] by (simp add: rx_cf_size_eq)
  with w f st show ?thesis
    unfolding rx_feed_cf_def Let_def
    by (auto simp: segment_copy_fits rx_wf_def frame_wf_def word_and_le1)
qed

lemma isotp_rx_feed_safe:
  assumes wf: "rx_wf rx" and f: "\<And>f. fp = Some f \<Longrightarrow> frame_wf f"
  shows "\<exists>rx' s rc. isotp_rx_feed rx fp now = Some (rx', s, rc) \<and> rx_wf rx'"
proof -
  obtain rx1 rc1 where t: "isotp_rx_check_timeout rx now = (rx1, rc1)" by fastforce
  have wf1: "rx_wf rx1" using rx_wf_timeout [OF wf, of now] t by simp
  show ?thesis
  proof (cases "isotp_code rc1 < 0 \<or> \<not> isotp_matches (rx_config rx1) fp")
    case True
    then show ?thesis using wf1
      by (auto simp: isotp_rx_feed_def t split: option.split)
  next
    case False
    then obtain f0 where f0: "fp = Some f0" by (cases fp) (auto simp: isotp_matches_def)
    have g: "frame_wf f0" "can_dlc f0 \<le> 8" "addr_len (rx_config rx1) < can_dlc f0"
      using f [OF f0] False by (auto simp: isotp_matches_def f0)
    let ?a = "addr_len (rx_config rx1)"
    have lo: "unat (can_data f0 ! ?a AND 0x0f) \<le> 15" by (rule unat_low_nibble)
    have hi: "unat (can_data f0 ! (?a + 1)) < 256"
      by (rule unat_byte_less)
    have len: "unat (can_data f0 ! ?a AND 0x0f) * 256 + unat (can_data f0 ! (?a + 1)) \<le> 4095"
      using lo hi by linarith
    show ?thesis
      using False wf1 g len rx_feed_start_safe [OF wf1 g, of 0 "unat (can_data f0 ! ?a AND 0x0f)"]
        rx_feed_start_safe [OF wf1 g, of 1
          "unat (can_data f0 ! ?a AND 0x0f) * 256 + unat (can_data f0 ! (?a + 1))"]
        rx_feed_cf_safe [OF wf1 g(1,2)]
      by (auto simp: isotp_rx_feed_def t f0 Let_def)
  qed
qed

lemma isotp_rx_flow_control_wf:
  assumes "rx_wf rx" shows "rx_wf (fst (isotp_rx_flow_control rx now))"
  using rx_wf_timeout [OF assms, of now]
  by (auto simp: isotp_rx_flow_control_def Let_def rx_wf_def split: prod.splits)

lemma isotp_rx_confirm_wf:
  assumes "rx_wf rx" shows "rx_wf (fst (isotp_rx_confirm rx ok now))"
  using assms by (auto simp: isotp_rx_confirm_def isotp_rx_check_timeout_def rx_wf_def)

section \<open>The sender is safe\<close>

definition tx_wf :: "isotp_tx \<Rightarrow> bool" where
  "tx_wf tx \<longleftrightarrow>
     valid_config (tx_config tx) \<and> tx_sequence tx \<le> 15 \<and> tx_separation tx \<le> 127000 \<and>
     (tx_state tx \<noteq> ISOTP_TX_IDLE \<longrightarrow>
        0 < tx_total tx \<and> tx_total tx \<le> 4095 \<and> tx_total tx \<le> length (tx_buffer tx) \<and>
        (functional (tx_config tx) \<longrightarrow> tx_total tx \<le> 7 - addr_len (tx_config tx))) \<and>
     (tx_state tx = ISOTP_TX_READY \<longrightarrow> tx_offset tx = 0) \<and>
     (tx_state tx = ISOTP_TX_CONFIRM \<longrightarrow> 0 < tx_offset tx \<and> tx_offset tx \<le> tx_total tx) \<and>
     (tx_state tx \<in> {ISOTP_TX_FC, ISOTP_TX_CF} \<longrightarrow>
        6 - addr_len (tx_config tx) \<le> tx_offset tx \<and> tx_offset tx < tx_total tx) \<and>
     (tx_state tx = ISOTP_TX_CONFIRM \<longrightarrow>
        tx_offset tx = tx_total tx \<or> 6 - addr_len (tx_config tx) \<le> tx_offset tx)"

lemma tx_wf_init: "isotp_tx_init c = Inr tx \<Longrightarrow> tx_wf tx"
  by (auto simp: isotp_tx_init_def tx_wf_def split: if_splits)

lemma tx_wf_timeout: "tx_wf tx \<Longrightarrow> tx_wf (fst (isotp_tx_check_timeout tx now))"
  by (auto simp: tx_wf_def isotp_tx_check_timeout_def)

lemma tx_wf_start:
  assumes "tx_wf tx" "\<And>b. data = Some b \<Longrightarrow> len \<le> length b"
  shows "tx_wf (fst (isotp_tx_start tx data len now))"
  using assms by (auto simp: tx_wf_def isotp_tx_start_def ISOTP_MAX_PAYLOAD_def split: option.splits)

lemma tx_wf_continue: "tx_wf tx \<Longrightarrow> tx_state tx = ISOTP_TX_FC \<Longrightarrow> tx_wf (tx_continue tx bs st now)"
  by (auto simp: tx_wf_def tx_continue_def Let_def)

lemma tx_wf_flow_control:
  assumes "tx_wf tx"
  shows "tx_wf (fst (isotp_tx_flow_control tx fp now))"
proof -
  obtain tx1 rc where t: "isotp_tx_check_timeout tx now = (tx1, rc)" by fastforce
  have wf: "tx_wf tx1" using tx_wf_timeout [OF assms, of now] t by simp
  have c: "tx_wf (tx_continue (tx1\<lparr>tx_padding_error := pe\<rparr>) bs st now)"
    if "tx_state tx1 = ISOTP_TX_FC" for pe bs st
    using wf that by (intro tx_wf_continue) (auto simp: tx_wf_def)
  show ?thesis using wf c
    by (auto simp: isotp_tx_flow_control_def t Let_def tx_wf_def split: option.split)
qed

lemma tx_wf_confirm: "tx_wf tx \<Longrightarrow> tx_wf (fst (isotp_tx_confirm tx ok now))"
  by (auto simp: isotp_tx_confirm_def isotp_tx_check_timeout_def tx_wf_def Let_def)


text \<open>
  The frames of the wire format: address byte, protocol bytes, data, padding.
\<close>

definition addr_bytes :: "isotp_config \<Rightarrow> byte list" where
  "addr_bytes c = (if extended_address c then [tx_address c] else [])"

definition pdu :: "isotp_config \<Rightarrow> byte list \<Rightarrow> byte list \<Rightarrow> can_frame" where
  "pdu c hdr chunk =
     \<lparr>can_id = tx_id c,
      can_dlc = (if pad c then 8 else addr_len c + length hdr + length chunk),
      can_data = addr_bytes c @ hdr @ chunk @
        replicate (8 - (addr_len c + length hdr + length chunk)) (pad_value c)\<rparr>"

lemma length_addr_bytes [simp]: "length (addr_bytes c) = addr_len c"
  by (simp add: addr_bytes_def addr_len_def)

lemma prepare_data: "can_data (isotp_prepare c) = addr_bytes c @ replicate (8 - addr_len c) (pad_value c)"
  by (simp add: isotp_prepare_def addr_bytes_def addr_len_def numeral_eq_Suc)

lemma store_at_append:
  "length bs \<le> length rest \<Longrightarrow>
   store_at (pre @ rest) (length pre) bs = Some (pre @ bs @ drop (length bs) rest)"
  by simp

lemma prepare_store:
  assumes "addr_len c + length hdr + length chunk \<le> 8"
  shows "store_at (can_data (isotp_prepare c)) (addr_len c) hdr =
      Some (addr_bytes c @ hdr @ replicate (8 - (addr_len c + length hdr)) (pad_value c))"
    and "store_at (addr_bytes c @ hdr @ replicate (8 - (addr_len c + length hdr)) (pad_value c))
      (addr_len c + length hdr) chunk = Some (can_data (pdu c hdr chunk))"
proof -
  show "store_at (can_data (isotp_prepare c)) (addr_len c) hdr =
      Some (addr_bytes c @ hdr @ replicate (8 - (addr_len c + length hdr)) (pad_value c))"
    using assms store_at_append [of hdr "replicate (8 - addr_len c) (pad_value c)" "addr_bytes c"]
    by (simp add: prepare_data)
  show "store_at (addr_bytes c @ hdr @ replicate (8 - (addr_len c + length hdr)) (pad_value c))
      (addr_len c + length hdr) chunk = Some (can_data (pdu c hdr chunk))"
    using assms store_at_append [of chunk
      "replicate (8 - (addr_len c + length hdr)) (pad_value c)" "addr_bytes c @ hdr"]
    by (simp add: pdu_def)
qed

lemma frame_wf_pdu: "addr_len c + length hdr + length chunk \<le> 8 \<Longrightarrow> frame_wf (pdu c hdr chunk)"
  by (simp add: frame_wf_def pdu_def)

definition sending :: "isotp_tx \<Rightarrow> u32w \<Rightarrow> nat \<Rightarrow> byte list \<Rightarrow> isotp_tx \<times> can_frame option \<times> isotp_result" where
  "sending tx now n hdr =
     (tx\<lparr>tx_offset := tx_offset tx + n, tx_state := ISOTP_TX_CONFIRM,
         tx_deadline := now + timeout_a_us (tx_config tx)\<rparr>,
      Some (pdu (tx_config tx) hdr (take n (drop (tx_offset tx) (tx_buffer tx)))), ISOTP_FRAME)"

definition tx_live :: "isotp_tx \<Rightarrow> u32w \<Rightarrow> bool" where
  "tx_live tx now \<longleftrightarrow> tx_state tx \<in> {ISOTP_TX_IDLE, ISOTP_TX_CF} \<or> \<not> isotp_expired now (tx_deadline tx)"

lemma tx_live_timeout: "tx_live tx now \<Longrightarrow> isotp_tx_check_timeout tx now = (tx, ISOTP_IGNORED)"
  by (auto simp: tx_live_def isotp_tx_check_timeout_def)

lemma tx_next_single:
  assumes "tx_wf tx" "tx_live tx now" "tx_state tx = ISOTP_TX_READY"
    "tx_total tx \<le> 7 - addr_len (tx_config tx)"
  shows "isotp_tx_next tx now =
    Some (sending (tx\<lparr>tx_pending_cf := False\<rparr>) now (tx_total tx) [of_nat (tx_total tx)])"
proof -
  have w: "tx_offset tx = 0" "tx_total tx \<le> length (tx_buffer tx)" "tx_total tx < 65536"
    using assms by (auto simp: tx_wf_def)
  have n: "addr_len (tx_config tx) + Suc (tx_total tx) \<le> 8"
    using assms(4) addr_len_le [of "tx_config tx"] by linarith
  show ?thesis
    using assms(3,4) w n prepare_store [of "tx_config tx" "[of_nat (tx_total tx)]" "take (tx_total tx) (tx_buffer tx)"]
    by (simp add: isotp_tx_next_def tx_live_timeout [OF assms(2)] Let_def sending_def)
      (simp add: pdu_def isotp_prepare_def)
qed

lemma tx_next_first:
  assumes "tx_wf tx" "tx_live tx now" "tx_state tx = ISOTP_TX_READY"
    "7 - addr_len (tx_config tx) < tx_total tx"
  shows "isotp_tx_next tx now =
    Some (sending (tx\<lparr>tx_pending_cf := False\<rparr>) now (6 - addr_len (tx_config tx))
      [0x10 OR of_nat (tx_total tx div 256), of_nat (tx_total tx mod 256)])"
proof -
  have w: "tx_offset tx = 0" "tx_total tx \<le> length (tx_buffer tx)" "tx_total tx < 65536"
    using assms by (auto simp: tx_wf_def)
  have n: "addr_len (tx_config tx) + (2 + (6 - addr_len (tx_config tx))) \<le> 8"
    "6 - addr_len (tx_config tx) \<le> length (tx_buffer tx)"
    "(6 - addr_len (tx_config tx)) mod 65536 = 6 - addr_len (tx_config tx)"
    using assms(4) addr_len_le [of "tx_config tx"] w by simp_all
  show ?thesis
    using assms(3,4) w n prepare_store [of "tx_config tx"
        "[0x10 OR of_nat (tx_total tx div 256), of_nat (tx_total tx mod 256)]"
        "take (6 - addr_len (tx_config tx)) (tx_buffer tx)"]
    by (simp add: isotp_tx_next_def tx_live_timeout [OF assms(2)] Let_def sending_def)
      (simp add: pdu_def isotp_prepare_def)
qed

lemma tx_cf_size_pending [simp]: "tx_cf_size (tx\<lparr>tx_pending_cf := b\<rparr>) = tx_cf_size tx"
  by (simp add: tx_cf_size_def)

lemma tx_next_cf:
  assumes "tx_wf tx" "tx_state tx = ISOTP_TX_CF" "isotp_expired now (tx_next tx)"
  shows "isotp_tx_next tx now =
    Some (sending (tx\<lparr>tx_pending_cf := True, tx_sequence := (tx_sequence tx + 1) AND 0x0f\<rparr>) now
      (cf_len (tx_config tx) (tx_total tx - tx_offset tx)) [0x20 OR tx_sequence tx])"
proof -
  let ?n = "cf_len (tx_config tx) (tx_total tx - tx_offset tx)"
  have live: "tx_live tx now" using assms(2) by (simp add: tx_live_def)
  have w: "tx_offset tx \<noteq> 0" "tx_total tx \<le> length (tx_buffer tx)" "tx_total tx < 65536"
    "tx_offset tx < tx_total tx"
    using assms addr_len_arith(1) [of "tx_config tx"] by (auto simp: tx_wf_def simp del: addr_len_arith)
  have le: "addr_len (tx_config tx) + ?n \<le> 7" "?n \<le> tx_total tx - tx_offset tx"
    by (rule cf_len_bounds)+
  have n1: "addr_len (tx_config tx) + Suc ?n \<le> 8" using le by linarith
  have n2: "tx_offset tx + ?n \<le> length (tx_buffer tx)" using le w by linarith
  have n3: "(tx_offset tx + ?n) mod 65536 = tx_offset tx + ?n"
    by (rule mod_less) (use le w in linarith)
  note n = n1 n2 n3
  have m: "tx_cf_size tx = ?n" using w assms(1,2) by (simp add: tx_cf_size_eq tx_wf_def)
  show ?thesis
    using assms(2,3) w n prepare_store [of "tx_config tx" "[0x20 OR tx_sequence tx]"
        "take ?n (drop (tx_offset tx) (tx_buffer tx))"] m
    by (simp add: isotp_tx_next_def tx_live_timeout [OF live] Let_def sending_def)
      (simp add: pdu_def isotp_prepare_def)
qed

lemma tx_next_safe:
  assumes "tx_wf tx"
  shows "\<exists>tx' fp rc. isotp_tx_next tx now = Some (tx', fp, rc) \<and> tx_wf tx' \<and>
           (\<forall>f. fp = Some f \<longrightarrow> frame_wf f \<and> can_dlc f \<le> 8)"
proof -
  let ?a = "addr_len (tx_config tx)"
  have a: "?a \<le> 1" by simp
  consider (idle) "\<not> tx_live tx now \<or> tx_state tx \<noteq> ISOTP_TX_READY \<and> tx_state tx \<noteq> ISOTP_TX_CF
      \<or> tx_state tx = ISOTP_TX_CF \<and> \<not> isotp_expired now (tx_next tx)"
    | (single) "tx_live tx now" "tx_state tx = ISOTP_TX_READY" "tx_total tx \<le> 7 - ?a"
    | (first) "tx_live tx now" "tx_state tx = ISOTP_TX_READY" "7 - ?a < tx_total tx"
    | (cf) "tx_state tx = ISOTP_TX_CF" "isotp_expired now (tx_next tx)"
    by linarith
  then show ?thesis
  proof cases
    case idle
    then show ?thesis using tx_wf_timeout [OF assms, of now]
      by (auto simp: isotp_tx_next_def isotp_tx_check_timeout_def tx_live_def)
  next
    case single
    then show ?thesis using assms a
      by (simp add: tx_next_single sending_def) (auto simp: tx_wf_def frame_wf_def pdu_def)
  next
    case first
    then show ?thesis using assms a
      by (simp add: tx_next_first sending_def) (auto simp: tx_wf_def frame_wf_def pdu_def)
  next
    case cf
    let ?n = "cf_len (tx_config tx) (tx_total tx - tx_offset tx)"
    have "?a + ?n \<le> 7" "?n \<le> tx_total tx - tx_offset tx" by (rule cf_len_bounds)+
    moreover have "0 < ?n" if "tx_offset tx < tx_total tx"
      using that by (intro cf_len_bounds(3)) simp
    moreover have "0 < tx_offset tx" if "6 - ?a \<le> tx_offset tx" using that a by linarith
    ultimately show ?thesis using assms a cf
      by (simp add: tx_next_cf sending_def) (auto simp: tx_wf_def frame_wf_def pdu_def word_and_le1)
  qed
qed

section \<open>Both machines as safe machines\<close>

datatype rx_call =
    RxFeed "can_frame option" u32w | RxFlowControl u32w | RxConfirm bool u32w | RxPoll u32w

fun isotp_rx_call ::
  "isotp_rx \<Rightarrow> rx_call \<Rightarrow> (isotp_rx \<times> isotp_result \<times> isotp_segment option \<times> can_frame option) option"
where
  "isotp_rx_call rx (RxFeed fp now) =
     map_option (\<lambda>(rx, s, rc). (rx, rc, Some s, None)) (isotp_rx_feed rx fp now)"
| "isotp_rx_call rx (RxFlowControl now) =
     (let (rx, fp, rc) = isotp_rx_flow_control rx now in Some (rx, rc, None, fp))"
| "isotp_rx_call rx (RxConfirm ok now) =
     (let (rx, rc) = isotp_rx_confirm rx ok now in Some (rx, rc, None, None))"
| "isotp_rx_call rx (RxPoll now) =
     (let (rx, rc) = isotp_rx_check_timeout rx now in Some (rx, rc, None, None))"

text \<open>A frame argument is \<open>NULL\<close> or a real structure; nothing else is asked of the caller.\<close>

fun rx_admissible :: "rx_call \<Rightarrow> bool" where
  "rx_admissible (RxFeed fp now) = pred_option frame_wf fp"
| "rx_admissible _ = True"

interpretation rxm: safe_machine isotp_rx_call rx_wf rx_admissible
proof
  fix rx c
  assume wf: "rx_wf rx" and c: "rx_admissible c"
  show "\<exists>rx' r. isotp_rx_call rx c = Some (rx', r) \<and> rx_wf rx'"
  proof (cases c)
    case (RxFeed fp now)
    with c have "\<And>f. fp = Some f \<Longrightarrow> frame_wf f" by auto
    from isotp_rx_feed_safe [OF wf this] RxFeed show ?thesis by fastforce
  next
    case (RxFlowControl now)
    then show ?thesis using isotp_rx_flow_control_wf [OF wf, of now] by (auto split: prod.split)
  next
    case (RxConfirm ok now)
    then show ?thesis using isotp_rx_confirm_wf [OF wf, of ok now] by (auto split: prod.split)
  next
    case (RxPoll now)
    then show ?thesis using rx_wf_timeout [OF wf, of now] by (auto split: prod.split)
  qed
qed

datatype tx_call =
    TxStart "byte list option" nat u32w | TxFlowControl "can_frame option" u32w
  | TxNext u32w | TxConfirm bool u32w | TxPoll u32w

fun isotp_tx_call :: "isotp_tx \<Rightarrow> tx_call \<Rightarrow> (isotp_tx \<times> isotp_result \<times> can_frame option) option"
where
  "isotp_tx_call tx (TxStart data len now) =
     (let (tx, rc) = isotp_tx_start tx data len now in Some (tx, rc, None))"
| "isotp_tx_call tx (TxFlowControl fp now) =
     (let (tx, rc) = isotp_tx_flow_control tx fp now in Some (tx, rc, None))"
| "isotp_tx_call tx (TxNext now) =
     map_option (\<lambda>(tx, fp, rc). (tx, rc, fp)) (isotp_tx_next tx now)"
| "isotp_tx_call tx (TxConfirm ok now) =
     (let (tx, rc) = isotp_tx_confirm tx ok now in Some (tx, rc, None))"
| "isotp_tx_call tx (TxPoll now) =
     (let (tx, rc) = isotp_tx_check_timeout tx now in Some (tx, rc, None))"

text \<open>\<open>isotp.h\<close>: the payload has the claimed length and stays valid.\<close>

fun tx_admissible :: "tx_call \<Rightarrow> bool" where
  "tx_admissible (TxStart data len now) = pred_option (\<lambda>b. len \<le> length b) data"
| "tx_admissible _ = True"

interpretation txm: safe_machine isotp_tx_call tx_wf tx_admissible
proof
  fix tx c
  assume wf: "tx_wf tx" and c: "tx_admissible c"
  show "\<exists>tx' r. isotp_tx_call tx c = Some (tx', r) \<and> tx_wf tx'"
  proof (cases c)
    case (TxStart data len now)
    with c have "\<And>b. data = Some b \<Longrightarrow> len \<le> length b" by auto
    then have "tx_wf (fst (isotp_tx_start tx data len now))" by (rule tx_wf_start [OF wf])
    then show ?thesis by (auto simp: TxStart split: prod.split)
  next
    case (TxFlowControl fp now)
    then show ?thesis using tx_wf_flow_control [OF wf, of fp now] by (auto split: prod.split)
  next
    case (TxNext now)
    then show ?thesis using tx_next_safe [OF wf, of now] by fastforce
  next
    case (TxConfirm ok now)
    then show ?thesis using tx_wf_confirm [OF wf, of ok now] by (auto split: prod.split)
  next
    case (TxPoll now)
    then show ?thesis using tx_wf_timeout [OF wf, of now] by (auto split: prod.split)
  qed
qed

end
