(* ===== verification/IsoTpLink.thy ===== *)
theory IsoTpLink
  imports IsoTp
begin

text \<open>
  The sender and the receiver of \<open>main/isotp.c\<close> connected by a bus that delivers every frame:
  what the receiver does with each kind of frame the sender emits, what the sender does with
  the receiver's flow control, and the round \<open>link_round\<close> in which the two are polled once.
  The outcome is that a started transfer delivers its payload (\<open>link_delivers\<close> and its
  instances): segment numbers, block counts and separation times of both machines stay in step.
\<close>

section \<open>Bytes of a frame\<close>

lemma nibble_and_self: "x \<le> 15 \<Longrightarrow> x AND 0x0f = (x :: byte)"
proof -
  assume "x \<le> 15"
  then have "x < 2 ^ 4" by (simp add: word_le_nat_alt word_less_nat_alt)
  then have "take_bit 4 x = x" by (simp only: take_bit_eq_mod mod_word_less)
  then show ?thesis by (simp add: take_bit_eq_mask mask_eq_exp_minus_1)
qed

lemma nibble_drop: "x \<le> 15 \<Longrightarrow> drop_bit 4 x = (0 :: byte)"
  by (simp add: drop_bit_eq_div word_le_nat_alt word_arith_nat_div)

lemma header_nibbles:
  assumes "x \<le> (15 :: byte)"
  shows "drop_bit 4 (0x10 OR x) = (1 :: byte)" "drop_bit 4 (0x20 OR x) = (2 :: byte)"
    "drop_bit 4 (0x30 OR x) = (3 :: byte)"
    "(0x10 OR x) AND 0x0f = x" "(0x20 OR x) AND 0x0f = x" "(0x30 OR x) AND 0x0f = x"
proof -
  have d: "drop_bit 4 (h OR x) = drop_bit 4 h" for h
    using nibble_drop [OF assms] by (simp add: drop_bit_or)
  show "drop_bit 4 (0x10 OR x) = (1 :: byte)" "drop_bit 4 (0x20 OR x) = (2 :: byte)"
    "drop_bit 4 (0x30 OR x) = (3 :: byte)" by (simp_all only: d) (simp_all add: drop_bit_eq_div)
  have a: "(h OR x) AND 0x0f = x" if "h AND 0x0f = 0" for h
    using nibble_and_self [OF assms] that by (simp add: bit.conj_disj_distrib2)
  show "(0x10 OR x) AND 0x0f = x" "(0x20 OR x) AND 0x0f = x" "(0x30 OR x) AND 0x0f = x"
    by (rule a, simp)+
qed

lemma of_nat_nibble: "n \<le> 15 \<Longrightarrow> of_nat n \<le> (15 :: byte)"
  by (simp add: word_le_nat_alt unat_of_nat)


section \<open>Two configurations that talk to each other\<close>

text \<open>The receiver configured with \<open>cr\<close> takes the frames a sender configured with \<open>ct\<close> emits.\<close>

definition hears :: "isotp_config \<Rightarrow> isotp_config \<Rightarrow> bool" where
  "hears cr ct \<longleftrightarrow>
     (tx_id ct XOR rx_id cr) AND (rx_mask cr OR CAN_EFF_FLAG) = 0 \<and>
     extended_address ct = extended_address cr \<and>
     (extended_address cr \<longrightarrow> tx_address ct = rx_address cr)"

lemma hears_addr: "hears cr ct \<Longrightarrow> addr_len cr = addr_len ct"
  by (simp add: hears_def addr_len_def)

lemma pdu_at:
  "can_data (pdu c hdr chunk) ! (addr_len c + i) =
     (hdr @ chunk @ replicate (8 - (addr_len c + length hdr + length chunk)) (pad_value c)) ! i"
  using nth_append_length_plus [of "addr_bytes c"
    "hdr @ chunk @ replicate (8 - (addr_len c + length hdr + length chunk)) (pad_value c)" i]
  by (simp add: pdu_def)

lemma pdu_hd [simp]: "can_data (pdu c (h # hdr) chunk) ! addr_len c = h"
  using pdu_at [of c "h # hdr" chunk 0] by simp

lemma pdu_load:
  "load_at (can_data (pdu c hdr chunk)) (addr_len c + length hdr) (length chunk) = Some chunk"
  by (simp add: pdu_def load_at_def)

lemma pdu_dlc: "can_dlc (pdu c hdr chunk) =
    (if pad c then 8 else addr_len c + length hdr + length chunk)"
  by (simp add: pdu_def)

lemma matches_pdu:
  assumes "valid_config ct" "hears cr ct" "0 < length hdr" "addr_len ct + length hdr + length chunk \<le> 8"
  shows "isotp_matches cr (Some (pdu ct hdr chunk))"
proof -
  have "addr_len cr < can_dlc (pdu ct hdr chunk)"
    using assms less_trans [OF addr_len_arith(1) [of ct], of 8] by (auto simp: pdu_dlc hears_addr)
  moreover have "can_data (pdu ct hdr chunk) ! 0 = tx_address ct" if "extended_address ct"
    using that by (simp add: pdu_def addr_bytes_def)
  ultimately show ?thesis
    using assms by (auto simp: isotp_matches_def hears_def valid_config_def pdu_def)
qed

definition rx_live :: "isotp_rx \<Rightarrow> u32w \<Rightarrow> bool" where
  "rx_live rx now \<longleftrightarrow> rx_state rx = ISOTP_RX_IDLE \<or> \<not> isotp_expired now (rx_deadline rx)"

lemma rx_live_timeout: "rx_live rx now \<Longrightarrow> isotp_rx_check_timeout rx now = (rx, ISOTP_IGNORED)"
  by (auto simp: rx_live_def isotp_rx_check_timeout_def)

section \<open>The receiver on the frames of the sender\<close>

lemma feed_single:
  assumes "rx_wf rx" "rx_live rx now" "valid_config ct" "hears (rx_config rx) ct"
    "data \<noteq> []" "length data \<le> 7 - addr_len ct" "length data \<le> rx_capacity rx"
  shows "isotp_rx_feed rx (Some (pdu ct [of_nat (length data)] data)) now =
    Some (rx\<lparr>rx_state := ISOTP_RX_IDLE, rx_offset := length data, rx_total := length data,
             rx_padding_error := (can_dlc (pdu ct [of_nat (length data)] data) < 8),
             rx_buffer := written (rx\<lparr>rx_offset := 0\<rparr>) data\<rparr>,
          segment_zero\<lparr>seg_replaced := (rx_state rx \<noteq> ISOTP_RX_IDLE), seg_started := True,
             seg_data := data, seg_total := length data,
             seg_padding_error := (can_dlc (pdu ct [of_nat (length data)] data) < 8),
             seg_complete := True\<rparr>,
          ISOTP_COMPLETE)"
proof -
  let ?f = "pdu ct [of_nat (length data)] data"
  have a: "addr_len (rx_config rx) = addr_len ct" using assms(4) by (rule hears_addr)
  have n: "addr_len ct + Suc (length data) \<le> 8" "length data \<le> 7"
    using assms(6) addr_len_arith [of ct] by linarith+
  have m: "isotp_matches (rx_config rx) (Some ?f)"
    using assms n by (intro matches_pdu) auto
  have le: "of_nat (length data) \<le> (15 :: byte)" using n by (intro of_nat_nibble) simp
  have d: "drop_bit 4 (of_nat (length data) :: byte) = 0" by (rule nibble_drop [OF le])
  have u: "unat (of_nat (length data) AND 0x0f :: byte) = length data"
    using n by (simp add: nibble_and_self [OF le] unat_of_nat)
  have l: "load_at (can_data ?f) (Suc (addr_len ct)) (length data) = Some data"
    using pdu_load [of ct "[of_nat (length data)]" data] by simp
  have dl: "length data \<le> can_dlc ?f - addr_len ct - 1"
    using n by (auto simp: pdu_dlc)
  have b: "buffer_ok (rx_buffer rx) (rx_capacity rx)" using assms(1) by (simp add: rx_wf_def)
  show ?thesis
    using assms(5,7) n m dl b
    by (simp add: isotp_rx_feed_def rx_live_timeout [OF assms(2)] a d u Let_def rx_feed_start_def l
        segment_copy_fits)
      (auto intro!: isotp_rx.equality isotp_segment.equality simp: written_def segment_zero_def)
qed

lemma feed_first:
  assumes "rx_wf rx" "rx_live rx now" "valid_config ct" "hears (rx_config rx) ct"
    "\<not> functional (rx_config rx)" "7 - addr_len ct < tot" "tot \<le> 4095" "tot \<le> rx_capacity rx"
    "length chunk = 6 - addr_len ct"
    and f: "f = pdu ct [0x10 OR of_nat (tot div 256), of_nat (tot mod 256)] chunk"
  shows "isotp_rx_feed rx (Some f) now =
    Some (rx\<lparr>rx_state := ISOTP_RX_FC_READY, rx_offset := 6 - addr_len ct, rx_total := tot,
             rx_padding_error := False, rx_sequence := 1, rx_block_count := 0, rx_flow_status := 0,
             rx_deadline := now + timeout_a_us (rx_config rx),
             rx_buffer := written (rx\<lparr>rx_offset := 0\<rparr>) chunk\<rparr>,
          segment_zero\<lparr>seg_replaced := (rx_state rx \<noteq> ISOTP_RX_IDLE), seg_started := True,
             seg_data := chunk, seg_total := tot\<rparr>,
          ISOTP_FRAME)"
proof -
  define h where "h = (0x10 OR of_nat (tot div 256) :: byte)"
  have a: "addr_len (rx_config rx) = addr_len ct" using assms(4) by (rule hears_addr)
  have n: "addr_len ct + 2 + (6 - addr_len ct) = 8" by (simp add: addr_len_def)
  have m: "isotp_matches (rx_config rx) (Some f)"
    unfolding f using assms n by (intro matches_pdu) auto
  have le: "of_nat (tot div 256) \<le> (15 :: byte)" using assms(7) by (intro of_nat_nibble) simp
  have d: "drop_bit 4 h = 1" unfolding h_def by (rule header_nibbles(1) [OF le])
  have u: "unat (h AND 0x0f) = tot div 256"
    using assms(7) unfolding h_def header_nibbles(4) [OF le] by (simp add: unat_of_nat)
  have hs: "can_data f ! addr_len ct = h" "can_data f ! Suc (addr_len ct) = of_nat (tot mod 256)"
    using pdu_at [of ct "[h, of_nat (tot mod 256)]" chunk 0]
      pdu_at [of ct "[h, of_nat (tot mod 256)]" chunk 1] by (simp_all add: f h_def)
  have t: "tot div 256 * 256 + unat (of_nat (tot mod 256) :: byte) = tot"
    by (simp add: unat_of_nat)
  have l: "load_at (can_data f) (Suc (Suc (addr_len ct))) (6 - addr_len ct) = Some chunk"
    using pdu_load [of ct "[h, of_nat (tot mod 256)]" chunk] assms(9) by (simp add: f h_def)
  have dl: "can_dlc f = 8" using assms(9) n by (simp add: f pdu_dlc)
  have b: "buffer_ok (rx_buffer rx) (rx_capacity rx)" using assms(1) by (simp add: rx_wf_def)
  have c: "6 - addr_len ct \<le> tot" "6 - addr_len ct \<noteq> tot" using assms(6) by linarith+
  show ?thesis
    using assms(5-9) m dl b c
    by (simp add: isotp_rx_feed_def rx_live_timeout [OF assms(2)] a hs d u t Let_def rx_feed_start_def l
        segment_copy_fits)
      (auto intro!: isotp_rx.equality isotp_segment.equality simp: written_def segment_zero_def)
qed

lemma feed_cf:
  assumes wf: "rx_wf rx" and live: "rx_live rx now" and ct: "valid_config ct" "hears (rx_config rx) ct"
    and st: "rx_state rx = ISOTP_RX_CF"
    and len: "length chunk = cf_len ct (rx_total rx - rx_offset rx)"
    and f: "f = pdu ct [0x20 OR rx_sequence rx] chunk"
    and off: "off = rx_offset rx + length chunk"
    and bs: "bs = cfg_block_size (rx_config rx)"
  shows "isotp_rx_feed rx (Some f) now =
    (let rx' = rx\<lparr>rx_offset := off, rx_sequence := (rx_sequence rx + 1) AND 0x0f,
                  rx_padding_error := (rx_padding_error rx \<or> can_dlc f < 8),
                  rx_buffer := written rx chunk\<rparr>;
         s = segment_zero\<lparr>seg_data := chunk, seg_offset := rx_offset rx, seg_total := rx_total rx,
               seg_padding_error := (rx_padding_error rx \<or> can_dlc f < 8),
               seg_complete := (off = rx_total rx)\<rparr>
     in if off = rx_total rx then Some (rx'\<lparr>rx_state := ISOTP_RX_IDLE\<rparr>, s, ISOTP_COMPLETE)
        else if bs = 0
        then Some (rx'\<lparr>rx_deadline := now + timeout_cr_us (rx_config rx)\<rparr>, s, ISOTP_FRAME)
        else if rx_block_count rx + 1 = bs
        then Some (rx'\<lparr>rx_block_count := 0, rx_state := ISOTP_RX_FC_READY,
                       rx_deadline := now + timeout_a_us (rx_config rx)\<rparr>, s, ISOTP_FRAME)
        else Some (rx'\<lparr>rx_deadline := now + timeout_cr_us (rx_config rx),
                       rx_block_count := rx_block_count rx + 1\<rparr>, s, ISOTP_FRAME))"
proof -
  have w: "rx_offset rx < rx_total rx" "rx_total rx \<le> rx_capacity rx" "rx_total rx \<le> 4095"
    "rx_sequence rx \<le> 15" "buffer_ok (rx_buffer rx) (rx_capacity rx)"
    using wf st by (auto simp: rx_wf_def)
  have a: "addr_len (rx_config rx) = addr_len ct" using ct(2) by (rule hears_addr)
  have n: "addr_len ct + length chunk \<le> 7" "length chunk \<le> rx_total rx - rx_offset rx"
    unfolding len by (rule cf_len_bounds)+
  have sz: "rx_cf_size rx = length chunk"
    using w by (simp add: rx_cf_size_eq len cf_len_def a)
  have m: "isotp_matches (rx_config rx) (Some f)"
    unfolding f using ct n by (intro matches_pdu) auto
  have dl: "\<not> can_dlc f < Suc (addr_len ct + length chunk)" using n by (auto simp: f pdu_dlc)
  define h where "h = (0x20 OR rx_sequence rx)"
  have hs: "can_data f ! addr_len ct = h" by (simp add: f h_def)
  have d: "drop_bit 4 h = 2" "h AND 0x0f = rx_sequence rx"
    unfolding h_def by (rule header_nibbles [OF w(4)])+
  have l: "load_at (can_data f) (Suc (addr_len ct)) (length chunk) = Some chunk"
    using pdu_load [of ct "[0x20 OR rx_sequence rx]" chunk] by (simp add: f)
  have c: "rx_offset rx + length chunk \<le> rx_total rx" using n w by linarith
  show ?thesis
    using w m dl c st
    by (simp add: isotp_rx_feed_def rx_live_timeout [OF live] a hs d Let_def rx_feed_cf_def l sz
        segment_copy_fits off bs)
qed

section \<open>Flow control\<close>

lemma time_reached_sum_before:
  assumes "a < b" "b \<le> 2147483647"
  shows "\<not> time_reached (t + a) (t + b)"
proof -
  have "b - a \<le> b" using assms(1) by (simp add: word_sub_le)
  then have "\<not> time_reached (t + a) ((t + a) + (b - a))"
    using assms by (intro time_reached_before) (auto simp: word_greater_zero_iff)
  then show ?thesis by simp
qed

lemma flow_control_pdu:
  assumes "rx_live rx now" "rx_state rx = ISOTP_RX_FC_READY"
  shows "isotp_rx_flow_control rx now =
    (rx\<lparr>rx_state := ISOTP_RX_FC_CONFIRM, rx_deadline := now + timeout_a_us (rx_config rx)\<rparr>,
     Some (pdu (rx_config rx)
       [0x30 OR rx_flow_status rx, cfg_block_size (rx_config rx), stmin (rx_config rx)] []),
     ISOTP_FRAME)"
  using assms(2)
  by (simp add: isotp_rx_flow_control_def rx_live_timeout [OF assms(1)] Let_def)
    (simp add: pdu_def isotp_prepare_def addr_bytes_def addr_len_def numeral_eq_Suc)

lemma fc_continue:
  assumes "tx_live tx now" "tx_state tx = ISOTP_TX_FC" "valid_config cr" "hears (tx_config tx) cr"
    and f: "f = pdu cr [0x30, bs, st] []"
  shows "isotp_tx_flow_control tx (Some f) now =
    (tx_continue (tx\<lparr>tx_padding_error := (tx_padding_error tx \<or> can_dlc f < 8)\<rparr>) bs st now, ISOTP_FRAME)"
proof -
  have a: "addr_len (tx_config tx) = addr_len cr" using assms(4) by (rule hears_addr)
  have n: "addr_len cr + 3 \<le> 8" by (simp add: addr_len_def)
  have m: "isotp_matches (tx_config tx) (Some f)"
    unfolding f using assms n by (intro matches_pdu) auto
  have hs: "can_data f ! addr_len cr = 0x30" "can_data f ! Suc (addr_len cr) = bs"
    "can_data f ! Suc (Suc (addr_len cr)) = st"
    using pdu_at [of cr "[0x30, bs, st]" "[]" 0] pdu_at [of cr "[0x30, bs, st]" "[]" 1]
      pdu_at [of cr "[0x30, bs, st]" "[]" 2] by (simp_all add: f)
  have dl: "addr_len cr + 3 \<le> can_dlc f" using n by (simp add: f pdu_dlc)
  show ?thesis using assms(2) m dl
    by (simp add: isotp_tx_flow_control_def tx_live_timeout [OF assms(1)] a hs Let_def drop_bit_eq_div)
qed

lemma valid_config_timeouts:
  assumes "valid_config c"
  shows "\<not> isotp_expired t (t + timeout_a_us c)" "\<not> isotp_expired t (t + timeout_bs_us c)"
    "\<not> isotp_expired t (t + timeout_cr_us c)"
proof -
  have n: "\<not> isotp_expired t (t + d)" if "d \<noteq> 0" "d \<le> INT32_MAX" for d
    using that unfolding isotp_expired_time
    by (intro time_reached_before) (simp_all add: INT32_MAX_def word_greater_zero_iff)
  show "\<not> isotp_expired t (t + timeout_a_us c)" "\<not> isotp_expired t (t + timeout_bs_us c)"
    "\<not> isotp_expired t (t + timeout_cr_us c)"
    using assms by (simp_all add: n valid_config_def)
qed

section \<open>One round on the bus\<close>

text \<open>
  The sender is polled at \<open>now\<close>, its frame is acknowledged and reaches the receiver, whose
  flow control, if it has one to send, is acknowledged and reaches the sender.
\<close>

definition link_round ::
  "isotp_tx \<Rightarrow> isotp_rx \<Rightarrow> u32w \<Rightarrow> (isotp_tx \<times> isotp_rx \<times> byte list) option" where
  "link_round tx rx now = do {
     (tx, fp, rc) \<leftarrow> isotp_tx_next tx now;
     let (tx, rc) = isotp_tx_confirm tx True now;
     (rx, s, rc) \<leftarrow> isotp_rx_feed rx fp now;
     let (rx, fc, rc) = isotp_rx_flow_control rx now;
     let (rx, rc) = (if fc = None then (rx, ISOTP_IGNORED) else isotp_rx_confirm rx True now);
     let (tx, rc) = isotp_tx_flow_control tx fc now;
     Some (tx, rx, seg_data s)
   }"

text \<open>At most \<open>n\<close> rounds, each consecutive frame at the earliest time the sender allows.\<close>

fun link_run ::
  "nat \<Rightarrow> isotp_tx \<Rightarrow> isotp_rx \<Rightarrow> u32w \<Rightarrow> (isotp_tx \<times> isotp_rx \<times> byte list) option" where
  "link_run 0 tx rx now = Some (tx, rx, [])"
| "link_run (Suc n) tx rx now =
     (if tx_state tx = ISOTP_TX_IDLE then Some (tx, rx, [])
      else do {
        let t = (if tx_state tx = ISOTP_TX_CF then tx_next tx else now);
        (tx, rx, d) \<leftarrow> link_round tx rx t;
        (tx, rx, ds) \<leftarrow> link_run n tx rx t;
        Some (tx, rx, d @ ds)
      })"

text \<open>The two machines between two consecutive frames of the same message.\<close>

definition in_step :: "byte list \<Rightarrow> isotp_tx \<Rightarrow> isotp_rx \<Rightarrow> bool" where
  "in_step payload tx rx \<longleftrightarrow>
     tx_wf tx \<and> rx_wf rx \<and> tx_state tx = ISOTP_TX_CF \<and> rx_state rx = ISOTP_RX_CF \<and>
     hears (rx_config rx) (tx_config tx) \<and> hears (tx_config tx) (rx_config rx) \<and>
     take (length payload) (tx_buffer tx) = payload \<and>
     tx_total tx = length payload \<and> rx_total rx = length payload \<and>
     tx_offset tx = rx_offset rx \<and> tx_sequence tx = rx_sequence rx \<and>
     tx_block_size tx = cfg_block_size (rx_config rx) \<and>
     (tx_block_size tx \<noteq> 0 \<longrightarrow> tx_block_count tx = rx_block_count rx) \<and>
     \<not> tx_reserved_stmin tx \<and> tx_separation tx = isotp_stmin_us (stmin (rx_config rx)) \<and>
     isotp_stmin_us (stmin (rx_config rx)) < timeout_cr_us (rx_config rx) \<and>
     rx_live rx (tx_next tx) \<and>
     pred_option (\<lambda>b. take (rx_offset rx) b = take (rx_offset rx) payload) (rx_buffer rx)"


lemma take_written:
  assumes "pred_option (\<lambda>b. take (rx_offset rx) b = take (rx_offset rx) p) (rx_buffer rx)"
    "buffer_ok (rx_buffer rx) c" "rx_offset rx + n \<le> c" "rx_offset rx + n \<le> length p"
  shows "pred_option (\<lambda>b. take (rx_offset rx + n) b = take (rx_offset rx + n) p)
    (written rx (take n (drop (rx_offset rx) p)))"
proof (cases "rx_buffer rx")
  case (Some b)
  with assms have "take (rx_offset rx) b = take (rx_offset rx) p" "length b = c" by auto
  with assms(3,4) show ?thesis
    by (simp add: Some written_def take_append_chunk [symmetric])
qed (simp add: written_def)

lemma stmin_not_reserved:
  "valid_config c \<Longrightarrow> \<not> (stmin c > 0x7f \<and> (stmin c < 0xf1 \<or> stmin c > 0xf9))"
  by (auto simp: valid_config_def)

lemma stmin_lt: "isotp_stmin_us v \<le> 2147483647"
  using isotp_stmin_us_le [of v] by (rule order_trans) simp

text \<open>When a consecutive frame has been sent, the next one is due one separation time later.\<close>

lemma continue_after_cf:
  assumes "valid_config c" "tx_sent_cf tx" "tx_last_cf tx = t" "\<not> tx_reserved_stmin tx"
  shows "tx_continue tx bs (stmin c) t =
    tx\<lparr>tx_block_size := bs, tx_reserved_stmin := False, tx_separation := isotp_stmin_us (stmin c),
       tx_block_count := 0, tx_wait_count := 0, tx_next := t + isotp_stmin_us (stmin c),
       tx_state := ISOTP_TX_CF\<rparr>"
proof -
  have "t + isotp_stmin_us (stmin c) = t"
    if "isotp_expired t (t + isotp_stmin_us (stmin c))"
    using that time_reached_before [of "isotp_stmin_us (stmin c)" t] stmin_lt
    by (auto simp: isotp_expired_time word_greater_zero_iff)
  then show ?thesis
    using assms stmin_not_reserved [OF assms(1)] by (auto simp: tx_continue_def Let_def)
qed

lemma in_step_round:
  assumes s: "in_step p tx rx"
  defines "n \<equiv> cf_len (tx_config tx) (length p - rx_offset rx)"
  shows "\<exists>tx' rx'. link_round tx rx (tx_next tx) = Some (tx', rx', take n (drop (rx_offset rx) p)) \<and>
    rx_offset rx' = rx_offset rx + n \<and> rx_capacity rx' = rx_capacity rx \<and>
    (if rx_offset rx + n = length p
     then tx_state tx' = ISOTP_TX_IDLE \<and> rx_state rx' = ISOTP_RX_IDLE \<and>
          pred_option (\<lambda>b. take (length p) b = p) (rx_buffer rx')
     else in_step p tx' rx')"
proof -
  let ?t = "tx_next tx" and ?c = "rx_config rx" and ?bs = "cfg_block_size (rx_config rx)"
  define chunk where "chunk = take n (drop (rx_offset rx) p)"
  define f where "f = pdu (tx_config tx) [0x20 OR rx_sequence rx] chunk"
  have wf: "tx_wf tx" "rx_wf rx" and st: "tx_state tx = ISOTP_TX_CF" "rx_state rx = ISOTP_RX_CF"
    and h: "hears ?c (tx_config tx)" "hears (tx_config tx) ?c"
    and buf: "take (length p) (tx_buffer tx) = p"
    and eqs: "tx_total tx = length p" "rx_total rx = length p" "tx_offset tx = rx_offset rx"
      "tx_sequence tx = rx_sequence rx" "tx_block_size tx = ?bs"
      "\<not> tx_reserved_stmin tx" "tx_separation tx = isotp_stmin_us (stmin ?c)"
    and bc: "?bs \<noteq> 0 \<Longrightarrow> tx_block_count tx = rx_block_count rx"
    and sep: "isotp_stmin_us (stmin ?c) < timeout_cr_us ?c"
    and live: "rx_live rx ?t"
    and rb: "pred_option (\<lambda>b. take (rx_offset rx) b = take (rx_offset rx) p) (rx_buffer rx)"
    using s by (auto simp: in_step_def)
  have v: "valid_config ?c" "valid_config (tx_config tx)" "buffer_ok (rx_buffer rx) (rx_capacity rx)"
    "length p \<le> rx_capacity rx" "rx_offset rx < length p" "length p \<le> 4095" "rx_sequence rx \<le> 15"
    "rx_flow_status rx = 0" "length p \<le> length (tx_buffer tx)" "6 - addr_len (tx_config tx) \<le> rx_offset rx"
    "functional (tx_config tx) \<Longrightarrow> length p \<le> 7 - addr_len (tx_config tx)"
    using wf st eqs by (auto simp: rx_wf_def tx_wf_def)
  have n: "n \<le> length p - rx_offset rx" "0 < n"
    unfolding n_def using v by (intro cf_len_bounds; simp)+
  have lc: "length chunk = n" using n by (simp add: chunk_def)
  have ch: "take n (drop (rx_offset rx) (tx_buffer tx)) = chunk"
  proof -
    have "take n (drop (rx_offset rx) (tx_buffer tx)) =
      take n (drop (rx_offset rx) (take (length p) (tx_buffer tx)))"
      using n by (simp add: drop_take)
    then show ?thesis by (simp add: buf chunk_def)
  qed
  have w: "pred_option (\<lambda>b. take (rx_offset rx + n) b = take (rx_offset rx + n) p) (written rx chunk)"
    unfolding chunk_def using rb v n by (intro take_written) auto
  have exp: "isotp_expired ?t ?t" by (simp add: isotp_expired_time)
  define tx1 where "tx1 = tx\<lparr>tx_pending_cf := True, tx_sequence := (rx_sequence rx + 1) AND 0x0f,
    tx_offset := rx_offset rx + n, tx_state := ISOTP_TX_CONFIRM, tx_deadline := ?t + timeout_a_us (tx_config tx)\<rparr>"
  have nx: "isotp_tx_next tx ?t = Some (tx1, Some f, ISOTP_FRAME)"
    using tx_next_cf [OF wf(1) st(1) exp] ch
    by (simp add: sending_def eqs n_def [symmetric] tx1_def f_def)
  have live1: "tx_live tx1 ?t" using valid_config_timeouts(1) [OF v(2)] by (simp add: tx_live_def tx1_def)
  have tmo: "\<not> isotp_expired ?t (?t + timeout_a_us ?c)" "\<not> isotp_expired ?t (?t + timeout_cr_us ?c)"
    "\<not> isotp_expired ?t (?t + timeout_a_us (tx_config tx))"
    "\<not> isotp_expired ?t (?t + timeout_bs_us (tx_config tx))"
    using valid_config_timeouts v(1,2) by auto
  have sepl: "\<not> isotp_expired (?t + isotp_stmin_us (stmin ?c)) (?t + timeout_cr_us ?c)"
    unfolding isotp_expired_time using sep v(1)
    by (intro time_reached_sum_before) (simp_all add: valid_config_def INT32_MAX_def)
  have fd: "isotp_rx_feed rx (Some f) ?t =
    (let rx' = rx\<lparr>rx_offset := rx_offset rx + n, rx_sequence := (rx_sequence rx + 1) AND 0x0f,
                  rx_padding_error := (rx_padding_error rx \<or> can_dlc f < 8),
                  rx_buffer := written rx chunk\<rparr>;
         s = segment_zero\<lparr>seg_data := chunk, seg_offset := rx_offset rx, seg_total := length p,
               seg_padding_error := (rx_padding_error rx \<or> can_dlc f < 8),
               seg_complete := (rx_offset rx + n = length p)\<rparr>
     in if rx_offset rx + n = length p then Some (rx'\<lparr>rx_state := ISOTP_RX_IDLE\<rparr>, s, ISOTP_COMPLETE)
        else if ?bs = 0
        then Some (rx'\<lparr>rx_deadline := ?t + timeout_cr_us ?c\<rparr>, s, ISOTP_FRAME)
        else if rx_block_count rx + 1 = ?bs
        then Some (rx'\<lparr>rx_block_count := 0, rx_state := ISOTP_RX_FC_READY,
                       rx_deadline := ?t + timeout_a_us ?c\<rparr>, s, ISOTP_FRAME)
        else Some (rx'\<lparr>rx_deadline := ?t + timeout_cr_us ?c,
                       rx_block_count := rx_block_count rx + 1\<rparr>, s, ISOTP_FRAME))"
    using feed_cf [OF wf(2) live v(2) h(1) st(2), of chunk f "rx_offset rx + n" ?bs]
    by (simp only: lc n_def [symmetric] eqs f_def refl simp_thms)
  have nfull: "ISOTP_RX_CF \<noteq> ISOTP_RX_FC_READY" by simp
  have goal: "\<exists>tx' rx'. link_round tx rx ?t = Some (tx', rx', chunk) \<and>
    rx_offset rx' = rx_offset rx + n \<and> rx_capacity rx' = rx_capacity rx \<and>
    (if rx_offset rx + n = length p
     then tx_state tx' = ISOTP_TX_IDLE \<and> rx_state rx' = ISOTP_RX_IDLE \<and>
          pred_option (\<lambda>b. take (length p) b = p) (rx_buffer rx')
     else in_step p tx' rx')"
  proof (cases "rx_offset rx + n = length p")
    case True
    then show ?thesis using w tmo
      by (simp add: link_round_def nx fd isotp_tx_confirm_def tx_live_timeout [OF live1] tx1_def eqs Let_def
          isotp_rx_flow_control_def isotp_rx_check_timeout_def isotp_tx_flow_control_def
          isotp_tx_check_timeout_def)
  next
    case False
    have off: "rx_offset rx + n < length p" using False n v(5) by linarith
    have step: "in_step p tx' rx'"
      if "tx_config tx' = tx_config tx" "tx_buffer tx' = tx_buffer tx" "tx_total tx' = length p"
        "tx_offset tx' = rx_offset rx + n" "tx_sequence tx' = (rx_sequence rx + 1) AND 0x0f"
        "tx_state tx' = ISOTP_TX_CF" "tx_block_size tx' = ?bs" "\<not> tx_reserved_stmin tx'"
        "tx_separation tx' = isotp_stmin_us (stmin ?c)" "tx_next tx' = ?t + isotp_stmin_us (stmin ?c)"
        "rx_config rx' = ?c" "rx_buffer rx' = written rx chunk" "rx_capacity rx' = rx_capacity rx"
        "rx_state rx' = ISOTP_RX_CF" "rx_deadline rx' = ?t + timeout_cr_us ?c" "rx_total rx' = length p"
        "rx_offset rx' = rx_offset rx + n" "rx_sequence rx' = (rx_sequence rx + 1) AND 0x0f"
        "rx_flow_status rx' = 0" "?bs \<noteq> 0 \<Longrightarrow> tx_block_count tx' = rx_block_count rx'"
      for tx' rx'
      using that v h buf off w sepl sep lc
      by (auto simp: in_step_def tx_wf_def rx_wf_def rx_live_def word_and_le1)
    consider "?bs = 0" | "?bs \<noteq> 0" "rx_block_count rx + 1 = ?bs" | "?bs \<noteq> 0" "rx_block_count rx + 1 \<noteq> ?bs"
      by blast
    then show ?thesis
    proof cases
      case 1
      then show ?thesis using False tmo
        by (simp add: link_round_def nx fd isotp_tx_confirm_def tx_live_timeout [OF live1] tx1_def eqs Let_def
            isotp_rx_flow_control_def isotp_rx_check_timeout_def isotp_tx_flow_control_def
            isotp_tx_check_timeout_def st)
          (intro step; simp add: eqs st v)
    next
      case 2
      define tx2 where "tx2 = tx1\<lparr>tx_sent_cf := True, tx_last_cf := ?t, tx_block_count := ?bs,
        tx_state := ISOTP_TX_FC, tx_deadline := ?t + timeout_bs_us (tx_config tx)\<rparr>"
      have cf: "isotp_tx_confirm tx1 True ?t = (tx2, ISOTP_IGNORED)"
        using 2 False bc
        by (simp add: isotp_tx_confirm_def tx_live_timeout [OF live1])
          (simp add: tx1_def tx2_def eqs Let_def)
      define rx2 where "rx2 = rx\<lparr>rx_offset := rx_offset rx + n,
        rx_sequence := (rx_sequence rx + 1) AND 0x0f,
        rx_padding_error := (rx_padding_error rx \<or> can_dlc f < 8),
        rx_buffer := written rx chunk, rx_block_count := 0, rx_state := ISOTP_RX_FC_READY,
        rx_deadline := ?t + timeout_a_us ?c\<rparr>"
      have live2: "rx_live rx2 ?t" "tx_live tx2 ?t" using tmo
        by (simp_all add: rx_live_def rx2_def tx_live_def tx2_def tx1_def)
      define fc where "fc = pdu ?c [0x30, ?bs, stmin ?c] []"
      have rfc: "isotp_rx_flow_control rx2 ?t =
        (rx2\<lparr>rx_state := ISOTP_RX_FC_CONFIRM, rx_deadline := ?t + timeout_a_us ?c\<rparr>, Some fc, ISOTP_FRAME)"
        using flow_control_pdu [OF live2(1)] v(8) by (simp add: rx2_def fc_def)
      have tfc: "isotp_tx_flow_control tx2 (Some fc) ?t =
        (tx_continue (tx2\<lparr>tx_padding_error := (tx_padding_error tx2 \<or> can_dlc fc < 8)\<rparr>) ?bs (stmin ?c) ?t,
         ISOTP_FRAME)"
        by (rule fc_continue [OF live2(2) _ v(1) _ fc_def]) (simp_all add: tx2_def tx1_def h)
      have cont: "tx_continue (tx2\<lparr>tx_padding_error := pe\<rparr>) ?bs (stmin ?c) ?t = tx2\<lparr>tx_padding_error := pe,
        tx_block_size := ?bs, tx_reserved_stmin := False, tx_separation := isotp_stmin_us (stmin ?c),
        tx_block_count := 0, tx_wait_count := 0, tx_next := ?t + isotp_stmin_us (stmin ?c),
        tx_state := ISOTP_TX_CF\<rparr>" for pe
        by (subst continue_after_cf [OF v(1)]) (simp_all add: tx2_def tx1_def eqs)
      show ?thesis using 2 False tmo
        by (simp add: link_round_def nx fd cf rx2_def [symmetric] Let_def)
          (simp add: rfc isotp_rx_confirm_def isotp_rx_check_timeout_def tfc cont
            , simp add: rx2_def v, intro step; simp add: tx2_def tx1_def eqs v)
    next
      case 3
      then show ?thesis using False tmo bc
        by (simp add: link_round_def nx fd isotp_tx_confirm_def tx_live_timeout [OF live1] tx1_def eqs Let_def
            isotp_rx_flow_control_def isotp_rx_check_timeout_def isotp_tx_flow_control_def
            isotp_tx_check_timeout_def st)
          (intro step; simp add: eqs st v)
    qed
  qed
  then show ?thesis by (simp only: chunk_def)
qed


section \<open>A whole transfer\<close>

lemma link_run_idle [simp]: "tx_state tx = ISOTP_TX_IDLE \<Longrightarrow> link_run n tx rx now = Some (tx, rx, [])"
  by (cases n) simp_all

definition delivered :: "byte list \<Rightarrow> isotp_tx \<Rightarrow> isotp_rx \<Rightarrow> bool" where
  "delivered p tx rx \<longleftrightarrow> tx_state tx = ISOTP_TX_IDLE \<and> rx_state rx = ISOTP_RX_IDLE \<and>
     pred_option (\<lambda>b. take (length p) b = p) (rx_buffer rx)"

lemma link_run_in_step:
  "in_step p tx rx \<Longrightarrow> length p - rx_offset rx \<le> k \<Longrightarrow>
   \<exists>tx' rx'. link_run k tx rx now = Some (tx', rx', drop (rx_offset rx) p) \<and> delivered p tx' rx'"
proof (induction k arbitrary: tx rx now)
  case 0
  then show ?case by (auto simp: in_step_def rx_wf_def)
next
  case (Suc k)
  let ?n = "cf_len (tx_config tx) (length p - rx_offset rx)"
  have st: "tx_state tx = ISOTP_TX_CF" "rx_offset rx < length p"
    using Suc.prems(1) by (auto simp: in_step_def rx_wf_def)
  have n: "?n \<le> length p - rx_offset rx" "0 < ?n" using st(2) by (intro cf_len_bounds; simp)+
  from in_step_round [OF Suc.prems(1)] obtain tx' rx' where
    r: "link_round tx rx (tx_next tx) = Some (tx', rx', take ?n (drop (rx_offset rx) p))"
    "rx_offset rx' = rx_offset rx + ?n"
    "if rx_offset rx + ?n = length p
     then tx_state tx' = ISOTP_TX_IDLE \<and> rx_state rx' = ISOTP_RX_IDLE \<and>
          pred_option (\<lambda>b. take (length p) b = p) (rx_buffer rx')
     else in_step p tx' rx'" by blast
  show ?case
  proof (cases "rx_offset rx + ?n = length p")
    case True
    then have "?n = length p - rx_offset rx" by linarith
    with True r show ?thesis by (simp add: st delivered_def)
  next
    case False
    with r have "in_step p tx' rx'" by simp
    moreover have "length p - rx_offset rx' \<le> k" using n r(2) Suc.prems(2) by linarith
    ultimately obtain tx2 rx2 where
      "link_run k tx' rx' (tx_next tx) = Some (tx2, rx2, drop (rx_offset rx') p)" "delivered p tx2 rx2"
      using Suc.IH by blast
    moreover have "take ?n (drop (rx_offset rx) p) @ drop (rx_offset rx + ?n) p = drop (rx_offset rx) p"
      by (metis append_take_drop_id drop_drop add.commute)
    ultimately show ?thesis using r(1,2) st by simp
  qed
qed

text \<open>The sender has accepted \<open>p\<close>; what it needs of the receiver and of the two configurations.\<close>

definition link_ready :: "byte list \<Rightarrow> isotp_tx \<Rightarrow> isotp_rx \<Rightarrow> u32w \<Rightarrow> bool" where
  "link_ready p tx rx now \<longleftrightarrow>
     tx_wf tx \<and> rx_wf rx \<and> tx_state tx = ISOTP_TX_READY \<and> tx_live tx now \<and> rx_live rx now \<and>
     hears (rx_config rx) (tx_config tx) \<and> hears (tx_config tx) (rx_config rx) \<and>
     take (length p) (tx_buffer tx) = p \<and> tx_total tx = length p \<and> length p \<le> rx_capacity rx \<and>
     \<not> tx_sent_cf tx \<and> \<not> tx_reserved_stmin tx \<and> tx_sequence tx = 1 \<and>
     \<not> functional (rx_config rx) \<and>
     isotp_stmin_us (stmin (rx_config rx)) < timeout_cr_us (rx_config rx)"

lemma link_round_single:
  assumes s: "link_ready p tx rx now" and l: "length p \<le> 7 - addr_len (tx_config tx)"
  shows "\<exists>tx' rx'. link_round tx rx now = Some (tx', rx', p) \<and> delivered p tx' rx'"
proof -
  have a: "tx_wf tx" "rx_wf rx" "tx_state tx = ISOTP_TX_READY" "tx_live tx now" "rx_live rx now"
    "hears (rx_config rx) (tx_config tx)" "take (length p) (tx_buffer tx) = p" "tx_total tx = length p"
    "length p \<le> rx_capacity rx" using s by (auto simp: link_ready_def)
  have v: "valid_config (tx_config tx)" "p \<noteq> []" "tx_offset tx = 0" "buffer_ok (rx_buffer rx) (rx_capacity rx)"
    using a by (auto simp: tx_wf_def rx_wf_def)
  define tx1 where "tx1 = tx\<lparr>tx_pending_cf := False, tx_offset := length p,
    tx_state := ISOTP_TX_CONFIRM, tx_deadline := now + timeout_a_us (tx_config tx)\<rparr>"
  define f where "f = pdu (tx_config tx) [of_nat (length p)] p"
  have nx: "isotp_tx_next tx now = Some (tx1, Some f, ISOTP_FRAME)"
    using tx_next_single [OF a(1,4,3)] l a v by (simp add: sending_def tx1_def f_def)
  have live1: "tx_live tx1 now" using valid_config_timeouts(1) [OF v(1)] by (simp add: tx_live_def tx1_def)
  have b: "pred_option (\<lambda>b. take (length p) b = p) (written (rx\<lparr>rx_offset := 0\<rparr>) p)"
    using a v by (cases "rx_buffer rx") (auto simp: written_def)
  show ?thesis
    using b feed_single [OF a(2,5) v(1) a(6) v(2) l a(9)]
    by (simp add: link_round_def nx f_def isotp_tx_confirm_def tx_live_timeout [OF live1])
      (simp add: tx1_def a Let_def isotp_rx_flow_control_def isotp_rx_check_timeout_def
        isotp_tx_flow_control_def isotp_tx_check_timeout_def delivered_def)
qed

lemma link_round_first:
  assumes s: "link_ready p tx rx now" and l: "7 - addr_len (tx_config tx) < length p"
  shows "\<exists>tx' rx'. link_round tx rx now = Some (tx', rx', take (6 - addr_len (tx_config tx)) p) \<and>
    rx_offset rx' = 6 - addr_len (tx_config tx) \<and> in_step p tx' rx'"
proof -
  let ?c = "rx_config rx" and ?n = "6 - addr_len (tx_config tx)" and ?bs = "cfg_block_size (rx_config rx)"
  have a: "tx_wf tx" "rx_wf rx" "tx_state tx = ISOTP_TX_READY" "tx_live tx now" "rx_live rx now"
    "hears ?c (tx_config tx)" "hears (tx_config tx) ?c"
    "take (length p) (tx_buffer tx) = p" "tx_total tx = length p"
    "length p \<le> rx_capacity rx" "\<not> functional ?c" "\<not> tx_sent_cf tx" "\<not> tx_reserved_stmin tx"
    "tx_sequence tx = 1" "isotp_stmin_us (stmin ?c) < timeout_cr_us ?c"
    using s by (auto simp: link_ready_def)
  have v: "valid_config (tx_config tx)" "valid_config ?c" "tx_offset tx = 0" "length p \<le> 4095"
    "buffer_ok (rx_buffer rx) (rx_capacity rx)"
    "functional (tx_config tx) \<Longrightarrow> length p \<le> 7 - addr_len (tx_config tx)"
    "length p \<le> length (tx_buffer tx)"
    using a by (auto simp: tx_wf_def rx_wf_def)
  define chunk where "chunk = take ?n p"
  have lc: "length chunk = ?n" "?n < length p" using l by (auto simp: chunk_def)
  have ch: "take ?n (tx_buffer tx) = chunk"
  proof -
    have "take ?n (tx_buffer tx) = take ?n (take (length p) (tx_buffer tx))" using lc by simp
    then show ?thesis by (simp only: a chunk_def)
  qed
  define f where "f = pdu (tx_config tx) [0x10 OR of_nat (length p div 256), of_nat (length p mod 256)] chunk"
  define tx1 where "tx1 = tx\<lparr>tx_pending_cf := False, tx_offset := ?n,
    tx_state := ISOTP_TX_CONFIRM, tx_deadline := now + timeout_a_us (tx_config tx)\<rparr>"
  have nx: "isotp_tx_next tx now = Some (tx1, Some f, ISOTP_FRAME)"
    using tx_next_first [OF a(1,4,3)] l a v ch by (simp add: sending_def tx1_def f_def)
  have tmo: "\<not> isotp_expired now (now + timeout_a_us ?c)" "\<not> isotp_expired now (now + timeout_cr_us ?c)"
    "\<not> isotp_expired now (now + timeout_a_us (tx_config tx))"
    "\<not> isotp_expired now (now + timeout_bs_us (tx_config tx))"
    using valid_config_timeouts v(1,2) by auto
  have live1: "tx_live tx1 now" using tmo by (simp add: tx_live_def tx1_def)
  define tx2 where "tx2 = tx1\<lparr>tx_state := ISOTP_TX_FC, tx_deadline := now + timeout_bs_us (tx_config tx)\<rparr>"
  have cf: "isotp_tx_confirm tx1 True now = (tx2, ISOTP_IGNORED)"
    using lc by (simp add: isotp_tx_confirm_def tx_live_timeout [OF live1])
      (simp add: tx1_def tx2_def a Let_def)
  define rx2 where "rx2 = rx\<lparr>rx_state := ISOTP_RX_FC_READY, rx_offset := ?n, rx_total := length p,
    rx_padding_error := False, rx_sequence := 1, rx_block_count := 0, rx_flow_status := 0,
    rx_deadline := now + timeout_a_us ?c, rx_buffer := written (rx\<lparr>rx_offset := 0\<rparr>) chunk\<rparr>"
  obtain sg where fd: "isotp_rx_feed rx (Some f) now = Some (rx2, sg, ISOTP_FRAME)" "seg_data sg = chunk"
    using feed_first [OF a(2,5) v(1) a(6) a(11) l v(4) a(10) lc(1) f_def] by (simp add: rx2_def)
  have live2: "rx_live rx2 now" "tx_live tx2 now" using tmo
    by (simp_all add: rx_live_def rx2_def tx_live_def tx2_def tx1_def)
  define fc where "fc = pdu ?c [0x30, ?bs, stmin ?c] []"
  have rfc: "isotp_rx_flow_control rx2 now =
    (rx2\<lparr>rx_state := ISOTP_RX_FC_CONFIRM, rx_deadline := now + timeout_a_us ?c\<rparr>, Some fc, ISOTP_FRAME)"
    using flow_control_pdu [OF live2(1)] by (simp add: rx2_def fc_def)
  have tfc: "isotp_tx_flow_control tx2 (Some fc) now =
    (tx_continue (tx2\<lparr>tx_padding_error := (tx_padding_error tx2 \<or> can_dlc fc < 8)\<rparr>) ?bs (stmin ?c) now,
     ISOTP_FRAME)"
    by (rule fc_continue [OF live2(2) _ v(2) _ fc_def]) (simp_all add: tx2_def tx1_def a)
  have cont: "tx_continue (tx2\<lparr>tx_padding_error := pe\<rparr>) ?bs (stmin ?c) now = tx2\<lparr>tx_padding_error := pe,
    tx_block_size := ?bs, tx_reserved_stmin := False, tx_separation := isotp_stmin_us (stmin ?c),
    tx_block_count := 0, tx_wait_count := 0, tx_next := now, tx_state := ISOTP_TX_CF\<rparr>" for pe
    using stmin_not_reserved [OF v(2)] by (auto simp: tx_continue_def tx2_def tx1_def a Let_def)
  have b: "pred_option (\<lambda>b. take ?n b = take ?n p) (written (rx\<lparr>rx_offset := 0\<rparr>) chunk)"
    using a(10) v lc by (cases "rx_buffer rx") (auto simp: written_def chunk_def)
  have step: "in_step p tx' rx'"
    if "tx_config tx' = tx_config tx" "tx_buffer tx' = tx_buffer tx" "tx_total tx' = length p"
      "tx_offset tx' = ?n" "tx_sequence tx' = 1"
      "tx_state tx' = ISOTP_TX_CF" "tx_block_size tx' = ?bs" "\<not> tx_reserved_stmin tx'"
      "tx_separation tx' = isotp_stmin_us (stmin ?c)" "tx_next tx' = now"
      "rx_config rx' = ?c" "rx_buffer rx' = written (rx\<lparr>rx_offset := 0\<rparr>) chunk"
      "rx_capacity rx' = rx_capacity rx"
      "rx_state rx' = ISOTP_RX_CF" "rx_deadline rx' = now + timeout_cr_us ?c" "rx_total rx' = length p"
      "rx_offset rx' = ?n" "rx_sequence rx' = 1"
      "rx_flow_status rx' = 0" "tx_block_count tx' = rx_block_count rx'"
    for tx' rx'
    using that v a b lc tmo by (auto simp: in_step_def tx_wf_def rx_wf_def rx_live_def)
  show ?thesis
    by (simp add: link_round_def nx fd cf Let_def rfc isotp_rx_confirm_def isotp_rx_check_timeout_def
        tfc cont tmo, simp add: rx2_def chunk_def [symmetric], intro step; simp add: tx2_def tx1_def a)
qed

lemma link_run_ready:
  assumes s: "link_ready p tx rx now"
  shows "\<exists>tx' rx'. link_run (length p) tx rx now = Some (tx', rx', p) \<and> delivered p tx' rx'"
proof -
  have st: "tx_state tx = ISOTP_TX_READY" "0 < length p"
    using s by (auto simp: link_ready_def tx_wf_def)
  obtain k where k: "length p = Suc k" using st(2) by (metis gr0_implies_Suc)
  show ?thesis
  proof (cases "length p \<le> 7 - addr_len (tx_config tx)")
    case True
    from link_round_single [OF s True] obtain tx' rx' where
      "link_round tx rx now = Some (tx', rx', p)" "delivered p tx' rx'" by blast
    then show ?thesis by (simp add: k st delivered_def)
  next
    case False
    let ?n = "6 - addr_len (tx_config tx)"
    from False link_round_first [OF s] obtain tx' rx' where
      r: "link_round tx rx now = Some (tx', rx', take ?n p)" "rx_offset rx' = ?n" "in_step p tx' rx'"
      by fastforce
    have "length p - rx_offset rx' \<le> k" using r(2) k by (simp add: addr_len_def)
    from link_run_in_step [OF r(3) this] obtain tx2 rx2 where
      "link_run k tx' rx' now = Some (tx2, rx2, drop (rx_offset rx') p)" "delivered p tx2 rx2" by blast
    then show ?thesis using r by (simp add: k st)
  qed
qed

section \<open>Properties\<close>

lemma link_ready_init:
  assumes "isotp_tx_init ct = Inr tx0" "isotp_rx_init cr buffer capacity = Inr rx"
    "buffer_ok buffer capacity" "hears cr ct" "hears ct cr" "\<not> functional cr" "\<not> functional ct"
    "isotp_stmin_us (stmin cr) < timeout_cr_us cr"
    "p \<noteq> []" "length p \<le> 4095" "length p \<le> capacity"
    "isotp_tx_start tx0 (Some (p @ slack)) (length p) now = (tx, rc)"
  shows "rc = ISOTP_IGNORED" "link_ready p tx rx now"
proof -
  have v: "valid_config ct" "tx_state tx0 = ISOTP_TX_IDLE" "tx_config tx0 = ct" "rx_config rx = cr"
    "rx_capacity rx = capacity" "rx_state rx = ISOTP_RX_IDLE"
    using assms(1,2) by (auto simp: isotp_tx_init_def isotp_rx_init_def split: if_splits)
  have wf0: "tx_wf tx0" by (rule tx_wf_init [OF assms(1)])
  have wf: "tx_wf (fst (isotp_tx_start tx0 (Some (p @ slack)) (length p) now))"
    by (rule tx_wf_start [OF wf0]) simp
  have rwf: "rx_wf rx" by (rule rx_wf_init [OF assms(2,3)])
  have e: "isotp_tx_start tx0 (Some (p @ slack)) (length p) now =
    (tx0\<lparr>tx_buffer := p @ slack, tx_total := length p, tx_offset := 0, tx_sequence := 1,
         tx_wait_count := 0, tx_block_count := 0, tx_sent_cf := False,
         tx_reserved_stmin := False, tx_padding_error := False,
         tx_state := ISOTP_TX_READY, tx_deadline := now + timeout_a_us ct\<rparr>, ISOTP_IGNORED)"
    using assms(7,9,10) v by (simp add: isotp_tx_start_def ISOTP_MAX_PAYLOAD_def)
  show "rc = ISOTP_IGNORED" using e assms(12) by simp
  show "link_ready p tx rx now"
    using e assms wf rwf v valid_config_timeouts(1) [OF v(1)]
    by (auto simp: link_ready_def tx_live_def rx_live_def)
qed

text \<open>C1: A message handed to the sender arrives: with both machines initialised on valid,
  matching, physically addressed configurations, a receiver whose separation time is shorter
  than its own timeout, and a payload of 1 to 4095 bytes that fits its capacity, the start is
  accepted and at most as many rounds as there are bytes (single frame; or first frame, flow
  control and consecutive frames of every block) hand over exactly the payload, leave it in
  the receive buffer, and return both machines to idle.\<close>

theorem isotp_delivers:
  assumes "isotp_tx_init ct = Inr tx0" "isotp_rx_init cr buffer capacity = Inr rx"
    "buffer_ok buffer capacity" "hears cr ct" "hears ct cr" "\<not> functional cr" "\<not> functional ct"
    "isotp_stmin_us (stmin cr) < timeout_cr_us cr"
    "p \<noteq> []" "length p \<le> 4095" "length p \<le> capacity"
  shows "snd (isotp_tx_start tx0 (Some (p @ slack)) (length p) now) = ISOTP_IGNORED \<and>
    (\<exists>tx' rx'. link_run (length p) (fst (isotp_tx_start tx0 (Some (p @ slack)) (length p) now)) rx now =
        Some (tx', rx', p) \<and>
      tx_state tx' = ISOTP_TX_IDLE \<and> rx_state rx' = ISOTP_RX_IDLE \<and>
      pred_option (\<lambda>b. take (length p) b = p) (rx_buffer rx'))"
  using link_ready_init [OF assms, of slack now] link_run_ready [of p _ rx now]
  by (simp add: prod_eq_iff delivered_def)

definition cfg_a :: isotp_config where "cfg_a = isotp_config_default 0x7E0 0x7E8"
definition cfg_b :: isotp_config where
  "cfg_b = (isotp_config_default 0x7E8 0x7E0)\<lparr>cfg_block_size := 2, stmin := 5\<rparr>"

lemma valid_examples: "valid_config cfg_a" "valid_config cfg_b"
  by (simp_all add: cfg_a_def cfg_b_def valid_config_def isotp_config_default_def valid_id_def
      CAN_EFF_FLAG_def CAN_SFF_MASK_def INT32_MAX_def)

lemma isotp_delivers_witness:
  "\<exists>tx0 rx. isotp_tx_init cfg_a = Inr tx0 \<and> isotp_rx_init cfg_b (Some (replicate 64 0)) 64 = Inr rx \<and>
    (\<exists>tx' rx'. link_run 40 (fst (isotp_tx_start tx0 (Some (map of_nat [0..<40])) 40 0xFFFFFF00)) rx 0xFFFFFF00
       = Some (tx', rx', map of_nat [0..<40]))"
proof -
  obtain tx0 rx where i: "isotp_tx_init cfg_a = Inr tx0" "isotp_rx_init cfg_b (Some (replicate 64 0)) 64 = Inr rx"
    by (simp add: isotp_tx_init_def isotp_rx_init_def valid_examples)
  have h: "hears cfg_b cfg_a" "hears cfg_a cfg_b"
    by (simp_all add: hears_def cfg_a_def cfg_b_def isotp_config_default_def)
  have c: "\<not> functional cfg_b" "\<not> functional cfg_a" "isotp_stmin_us (stmin cfg_b) < timeout_cr_us cfg_b"
    by (simp_all add: cfg_a_def cfg_b_def isotp_config_default_def isotp_stmin_us_def)
  from isotp_delivers [OF i _ h c, of "map of_nat [0..<40]" "[]" "0xFFFFFF00"] i show ?thesis
    by auto
qed

text \<open>C18: No sequence of calls to the receiver, with any frames, any payload sizes and any clock
  values, makes it read outside a frame or write outside its buffer; the invariant holds after.\<close>

theorem isotp_rx_never_faults:
  assumes "isotp_rx_init c buffer capacity = Inr rx" "buffer_ok buffer capacity"
    "list_all rx_admissible calls"
  shows "\<exists>rx' rs. run_calls isotp_rx_call rx calls = Some (rx', rs) \<and> rx_wf rx' \<and> length rs = length calls"
  using rxm.run_safe [OF rx_wf_init [OF assms(1,2)] assms(3)] .

lemma isotp_rx_never_faults_witness:
  "\<exists>rx rx' rs. isotp_rx_init cfg_b (Some (replicate 20 0)) 20 = Inr rx \<and>
    run_calls isotp_rx_call rx
      [RxFeed (Some \<lparr>can_id = 0x7E0, can_dlc = 8, can_data = [0x10, 20, 1, 2, 3, 4, 5, 6]\<rparr>) 0,
       RxFlowControl 1, RxConfirm True 2, RxFeed None 7,
       RxFeed (Some \<lparr>can_id = 0x7E0, can_dlc = 200, can_data = replicate 8 0xff\<rparr>) 9] = Some (rx', rs)"
proof -
  obtain rx where i: "isotp_rx_init cfg_b (Some (replicate 20 0)) 20 = Inr rx"
    by (simp add: isotp_rx_init_def valid_examples)
  from isotp_rx_never_faults [OF i, of "[RxFeed (Some \<lparr>can_id = 0x7E0, can_dlc = 8, can_data = [0x10, 20, 1, 2, 3, 4, 5, 6]\<rparr>) 0,
       RxFlowControl 1, RxConfirm True 2, RxFeed None 7,
       RxFeed (Some \<lparr>can_id = 0x7E0, can_dlc = 200, can_data = replicate 8 0xff\<rparr>) 9]"] i
  show ?thesis by (fastforce simp: frame_wf_def)
qed

text \<open>C19: The same for the sender: whatever the peer answers and whenever it is polled, it
  neither reads beyond the payload it was given nor writes outside a frame.\<close>

theorem isotp_tx_never_faults:
  assumes "isotp_tx_init c = Inr tx" "list_all tx_admissible calls"
  shows "\<exists>tx' rs. run_calls isotp_tx_call tx calls = Some (tx', rs) \<and> tx_wf tx' \<and> length rs = length calls"
  using txm.run_safe [OF tx_wf_init [OF assms(1)] assms(2)] .

lemma isotp_tx_never_faults_witness:
  "\<exists>tx tx' rs. isotp_tx_init cfg_a = Inr tx \<and>
    run_calls isotp_tx_call tx [TxStart (Some (replicate 9 7)) 9 0, TxNext 1, TxConfirm True 2,
      TxFlowControl (Some \<lparr>can_id = 0x7E8, can_dlc = 3, can_data = 0x30 # replicate 7 0\<rparr>) 3, TxNext 4]
    = Some (tx', rs)"
proof -
  obtain tx where i: "isotp_tx_init cfg_a = Inr tx" by (simp add: isotp_tx_init_def valid_examples)
  from isotp_tx_never_faults [OF i, of "[TxStart (Some (replicate 9 7)) 9 0, TxNext 1, TxConfirm True 2,
      TxFlowControl (Some \<lparr>can_id = 0x7E8, can_dlc = 3, can_data = 0x30 # replicate 7 0\<rparr>) 3, TxNext 4]"] i
  show ?thesis by fastforce
qed

text \<open>A run of frames while the sender waits for flow control.\<close>

fun tx_waits :: "isotp_tx \<Rightarrow> (can_frame \<times> u32w) list \<Rightarrow> isotp_tx \<times> isotp_result list" where
  "tx_waits tx [] = (tx, [])"
| "tx_waits tx ((f, now) # fs) =
     (let (tx, rc) = isotp_tx_flow_control tx (Some f) now; (tx, rcs) = tx_waits tx fs
      in (tx, rc # rcs))"

definition is_wait :: "isotp_config \<Rightarrow> can_frame \<Rightarrow> bool" where
  "is_wait c f \<longleftrightarrow> isotp_matches c (Some f) \<and> addr_len c + 3 \<le> can_dlc f \<and> can_data f ! addr_len c = 0x31"

text \<open>Each frame comes before the deadline that the one before it set.\<close>

fun in_time :: "isotp_config \<Rightarrow> u32w \<Rightarrow> u32w list \<Rightarrow> bool" where
  "in_time c d [] = True"
| "in_time c d (t # ts) = (\<not> isotp_expired t d \<and> in_time c (t + timeout_bs_us c) ts)"


lemma wait_step:
  assumes "tx_state tx = ISOTP_TX_FC" "\<not> isotp_expired now (tx_deadline tx)" "is_wait (tx_config tx) f"
  shows "isotp_tx_flow_control tx (Some f) now =
    (let tx' = tx\<lparr>tx_padding_error := (tx_padding_error tx \<or> can_dlc f < 8),
                  tx_wait_count := tx_wait_count tx + 1\<rparr>
     in if tx_wait_count tx + 1 \<le> ucast (wait_limit (tx_config tx))
        then (tx'\<lparr>tx_deadline := now + timeout_bs_us (tx_config tx)\<rparr>, ISOTP_FRAME)
        else (tx'\<lparr>tx_state := ISOTP_TX_IDLE\<rparr>, ISOTP_ERR_WAIT_LIMIT))"
proof -
  have live: "tx_live tx now" using assms by (simp add: tx_live_def)
  have "drop_bit 4 (0x31 :: byte) = 3" "(0x31 :: byte) AND 0x0f = 1" by (simp_all add: drop_bit_eq_div)
  then show ?thesis using assms
    by (auto simp: isotp_tx_flow_control_def tx_live_timeout [OF live] is_wait_def Let_def)
qed

lemma waits_run:
  assumes "tx_state tx = ISOTP_TX_FC" "unat (tx_wait_count tx) + k = unat (wait_limit (tx_config tx))"
    "length fs = Suc k" "list_all (is_wait (tx_config tx) \<circ> fst) fs"
    "in_time (tx_config tx) (tx_deadline tx) (map snd fs)"
  shows "snd (tx_waits tx fs) = replicate k ISOTP_FRAME @ [ISOTP_ERR_WAIT_LIMIT] \<and>
    tx_state (fst (tx_waits tx fs)) = ISOTP_TX_IDLE"
  using assms
proof (induction k arbitrary: tx fs)
  case 0
  have lim: "unat (ucast (wait_limit (tx_config tx)) :: u16w) = unat (wait_limit (tx_config tx))"
    using unat_byte_less [of "wait_limit (tx_config tx)"]
    by (simp add: unsigned_ucast_eq take_bit_nat_eq_self)
  have b: "unat (tx_wait_count tx) < 256"
    using 0(2) unat_byte_less [of "wait_limit (tx_config tx)"] by simp
  from 0 obtain f t where fs: "fs = [(f, t)]" by (cases fs) auto
  have "unat (tx_wait_count tx + 1) = unat (tx_wait_count tx) + 1"
    using b by (simp add: unat_word_ariths)
  then have "\<not> tx_wait_count tx + 1 \<le> ucast (wait_limit (tx_config tx))"
    using 0(2) lim by (simp add: word_le_nat_alt)
  with 0 fs show ?case by (simp add: wait_step Let_def)
next
  case (Suc k)
  have lim: "unat (ucast (wait_limit (tx_config tx)) :: u16w) = unat (wait_limit (tx_config tx))"
    using unat_byte_less [of "wait_limit (tx_config tx)"]
    by (simp add: unsigned_ucast_eq take_bit_nat_eq_self)
  have b: "unat (tx_wait_count tx) < 256"
    using Suc.prems(2) unat_byte_less [of "wait_limit (tx_config tx)"] by simp
  from Suc.prems obtain f t gs where fs: "fs = (f, t) # gs" by (cases fs) auto
  have u: "unat (tx_wait_count tx + 1) = unat (tx_wait_count tx) + 1"
    using b by (simp add: unat_word_ariths)
  then have le: "tx_wait_count tx + 1 \<le> ucast (wait_limit (tx_config tx))"
    using Suc.prems(2) lim by (simp add: word_le_nat_alt)
  define tx1 where "tx1 = tx\<lparr>tx_padding_error := (tx_padding_error tx \<or> can_dlc f < 8),
    tx_wait_count := tx_wait_count tx + 1, tx_deadline := t + timeout_bs_us (tx_config tx)\<rparr>"
  have "snd (tx_waits tx1 gs) = replicate k ISOTP_FRAME @ [ISOTP_ERR_WAIT_LIMIT] \<and>
    tx_state (fst (tx_waits tx1 gs)) = ISOTP_TX_IDLE"
    using Suc.prems u by (intro Suc.IH) (simp_all add: tx1_def fs)
  moreover have "isotp_tx_flow_control tx (Some f) t = (tx1, ISOTP_FRAME)"
    using Suc.prems le by (simp add: wait_step Let_def fs tx1_def)
  ultimately show ?case by (auto simp: fs split: prod.split)
qed

text \<open>C20: A peer cannot hold the sender with Wait frames: while it waits for flow control, the
  configured number of Wait frames is accepted, and the next one ends the transfer.\<close>

theorem isotp_wait_limit:
  assumes "tx_state tx = ISOTP_TX_FC" "tx_wait_count tx = 0"
    "length fs = Suc (unat (wait_limit (tx_config tx)))"
    "list_all (is_wait (tx_config tx) \<circ> fst) fs"
    "in_time (tx_config tx) (tx_deadline tx) (map snd fs)"
  shows "snd (tx_waits tx fs) =
      replicate (unat (wait_limit (tx_config tx))) ISOTP_FRAME @ [ISOTP_ERR_WAIT_LIMIT] \<and>
    tx_state (fst (tx_waits tx fs)) = ISOTP_TX_IDLE"
  using assms by (intro waits_run) simp_all

definition tx_waiting :: isotp_tx where
  "tx_waiting = \<lparr>tx_config = cfg_a\<lparr>wait_limit := 2\<rparr>, tx_buffer = replicate 9 1, tx_state = ISOTP_TX_FC,
     tx_deadline = 100, tx_next = 0, tx_last_cf = 0, tx_separation = 0, tx_total = 9, tx_offset = 6,
     tx_wait_count = 0, tx_sequence = 1, tx_block_size = 0, tx_block_count = 0, tx_sent_cf = False,
     tx_pending_cf = False, tx_reserved_stmin = False, tx_padding_error = False\<rparr>"

definition wait_frame :: can_frame where
  "wait_frame = \<lparr>can_id = 0x7E8, can_dlc = 3, can_data = 0x31 # replicate 7 0\<rparr>"

lemma isotp_wait_limit_witness:
  "snd (tx_waits tx_waiting [(wait_frame, 10), (wait_frame, 20), (wait_frame, 30)]) =
     [ISOTP_FRAME, ISOTP_FRAME, ISOTP_ERR_WAIT_LIMIT]"
proof -
  let ?fs = "[(wait_frame, 10), (wait_frame, 20), (wait_frame, 30 :: u32w)]"
  have "list_all (is_wait (tx_config tx_waiting) \<circ> fst) ?fs"
    "in_time (tx_config tx_waiting) (tx_deadline tx_waiting) (map snd ?fs)"
    by (simp_all add: is_wait_def wait_frame_def tx_waiting_def cfg_a_def isotp_config_default_def
        isotp_matches_def valid_id_def CAN_EFF_FLAG_def CAN_SFF_MASK_def addr_len_def
        isotp_expired_time time_reached_iff)
  moreover have "unat (wait_limit (tx_config tx_waiting)) = 2" by (simp add: tx_waiting_def)
  moreover have "tx_state tx_waiting = ISOTP_TX_FC" "tx_wait_count tx_waiting = 0"
    by (simp_all add: tx_waiting_def)
  ultimately show ?thesis
    using isotp_wait_limit [of tx_waiting ?fs] by (simp add: numeral_eq_Suc)
qed

text \<open>Flow control frames that come while the sender waits, each with its time.\<close>

definition tx_waited :: "isotp_tx \<Rightarrow> (can_frame option \<times> u32w) list \<Rightarrow> isotp_tx" where
  "tx_waited = foldl (\<lambda>tx (f, t). fst (isotp_tx_flow_control tx f t))"

lemma flow_control_keeps:
  "tx_sent_cf (fst (isotp_tx_flow_control tx fp t)) = tx_sent_cf tx"
  "tx_last_cf (fst (isotp_tx_flow_control tx fp t)) = tx_last_cf tx"
  by (simp_all add: isotp_tx_flow_control_def isotp_tx_check_timeout_def tx_continue_def Let_def split: option.split)

lemma waited_keeps:
  "tx_sent_cf (tx_waited tx fs) = tx_sent_cf tx" "tx_last_cf (tx_waited tx fs) = tx_last_cf tx"
  "tx_wf tx \<Longrightarrow> tx_wf (tx_waited tx fs)"
  by (induction fs arbitrary: tx) (simp_all add: tx_waited_def case_prod_beta flow_control_keeps tx_wf_flow_control)

text \<open>A clear-to-send takes the time of the last consecutive frame into account.\<close>

lemma flow_control_continues:
  assumes "tx_state tx = ISOTP_TX_FC" "isotp_tx_flow_control tx fp now = (tx', rc)" "tx_state tx' = ISOTP_TX_CF"
  shows "tx_next tx' = (if tx_sent_cf tx \<and> \<not> isotp_expired now (tx_last_cf tx + tx_separation tx')
    then tx_last_cf tx + tx_separation tx' else now)"
  using assms by (auto simp: isotp_tx_flow_control_def isotp_tx_check_timeout_def tx_continue_def Let_def
      split: option.splits if_splits)

text \<open>C17: Consecutive frames keep the separation time, within a block and across block boundaries. When a
  consecutive frame has been confirmed and the sender goes on, either at once or because a flow
  control frame that lets it comes \<open>e\<close> microseconds later, after any other flow control frames: every
  poll earlier than the separation time after that confirmation emits nothing, and the poll at the
  separation time, or at \<open>e\<close> when the flow control came later, emits the next frame.\<close>

theorem isotp_separation_kept:
  assumes "tx_wf tx" "tx_pending_cf tx" "isotp_tx_confirm tx True sent = (tx1, ISOTP_IGNORED)"
    and "tx_state tx1 = ISOTP_TX_CF \<and> tx' = tx1 \<and> e = 0 \<or>
      tx_state (tx_waited tx1 fs) = ISOTP_TX_FC \<and> e \<le> 0x7FFFFFFF \<and>
        tx' = fst (isotp_tx_flow_control (tx_waited tx1 fs) fc (sent + e))"
    and "tx_state tx' = ISOTP_TX_CF"
  shows "(\<forall>e'. e \<le> e' \<and> e' < tx_separation tx' \<longrightarrow> isotp_tx_next tx' (sent + e') = Some (tx', None, ISOTP_IGNORED)) \<and>
    (\<exists>tx2 f. isotp_tx_next tx' (sent + (if e < tx_separation tx' then tx_separation tx' else e)) = Some (tx2, Some f, ISOTP_FRAME))"
proof -
  have w1: "tx_wf tx1" using tx_wf_confirm [OF assms(1), of True sent] assms(3) by simp
  have "tx_state tx1 = ISOTP_TX_CF \<or> tx_state (tx_waited tx1 fs) = ISOTP_TX_FC" using assms(4) by blast
  then have c1: "tx_sent_cf tx1" "tx_last_cf tx1 = sent" "tx_state tx1 = ISOTP_TX_CF \<Longrightarrow> tx_next tx1 = sent + tx_separation tx1"
    using assms(2,3) by (auto simp: isotp_tx_confirm_def isotp_tx_check_timeout_def Let_def split: if_splits)
  have half: "tx_separation tx' \<le> 2147483647" if "tx_wf tx'"
    using that by (auto simp: tx_wf_def intro: order_trans)
  obtain wf: "tx_wf tx'" and n: "tx_next tx' = (if e < tx_separation tx' then sent + tx_separation tx' else sent + e)"
    using assms(4)
  proof
    assume "tx_state tx1 = ISOTP_TX_CF \<and> tx' = tx1 \<and> e = 0"
    then show thesis using that w1 c1 by (auto simp: word_gt_0 split: if_splits)
  next
    assume a: "tx_state (tx_waited tx1 fs) = ISOTP_TX_FC \<and> e \<le> 0x7FFFFFFF \<and>
        tx' = fst (isotp_tx_flow_control (tx_waited tx1 fs) fc (sent + e))"
    let ?w = "tx_waited tx1 fs"
    have wf: "tx_wf tx'" using a tx_wf_flow_control [OF waited_keeps(3) [OF w1]] by simp
    obtain rc where r: "isotp_tx_flow_control ?w fc (sent + e) = (tx', rc)" using a by (metis prod.collapse)
    have "tx_next tx' = (if \<not> isotp_expired (sent + e) (sent + tx_separation tx') then sent + tx_separation tx' else sent + e)"
      using flow_control_continues [OF _ r assms(5)] a waited_keeps(1,2) [of tx1 fs] c1 by simp
    moreover have "isotp_expired (sent + e) (sent + tx_separation tx') = (\<not> e < tx_separation tx')"
    proof (cases "e < tx_separation tx'")
      case True
      with half [OF wf] show ?thesis unfolding isotp_expired_time by (simp add: time_reached_sum_before)
    next
      case False
      then have "unat (e - tx_separation tx') = unat e - unat (tx_separation tx')" by (simp add: unat_sub not_less)
      moreover have "unat e < 2147483648" using a by (simp add: word_le_nat_alt)
      ultimately show ?thesis using False by (simp add: isotp_expired_time time_reached_iff)
    qed
    ultimately show thesis using that wf by simp
  qed
  have "isotp_tx_next tx' (sent + e') = Some (tx', None, ISOTP_IGNORED)" if "e \<le> e'" "e' < tx_separation tx'" for e'
  proof -
    have "\<not> isotp_expired (sent + e') (sent + tx_separation tx')"
      unfolding isotp_expired_time using that(2) half [OF wf] by (rule time_reached_sum_before)
    moreover have "e < tx_separation tx'" using that by (rule order.strict_trans1)
    ultimately show ?thesis using assms(5) n by (simp add: isotp_tx_next_def isotp_tx_check_timeout_def)
  qed
  moreover have "isotp_expired (sent + (if e < tx_separation tx' then tx_separation tx' else e)) (tx_next tx')"
    by (simp add: isotp_expired_time n)
  ultimately show ?thesis using tx_next_cf [OF wf assms(5)] by (auto simp: sending_def)
qed

definition tx_pacing :: isotp_tx where
  "tx_pacing = tx_waiting\<lparr>tx_state := ISOTP_TX_CONFIRM, tx_block_size := 1, tx_pending_cf := True,
     tx_total := 40, tx_offset := 13, tx_buffer := replicate 40 1\<rparr>"

text \<open>Clear to send, with a separation time of five milliseconds.\<close>

definition clear_frame :: can_frame where
  "clear_frame = \<lparr>can_id = 0x7E8, can_dlc = 3, can_data = [0x30, 0, 5, 0, 0, 0, 0, 0]\<rparr>"

lemma isotp_separation_kept_witness:
  "\<exists>tx'. tx' = fst (isotp_tx_flow_control (fst (isotp_tx_confirm tx_pacing True 50)) (Some clear_frame) (50 + 100)) \<and>
     isotp_tx_next tx' (50 + 4999) = Some (tx', None, ISOTP_IGNORED)"
proof -
  obtain tx1 rc where c: "isotp_tx_confirm tx_pacing True 50 = (tx1, rc)" by fastforce
  have wf: "tx_wf tx_pacing" using valid_examples
    by (simp add: tx_wf_def tx_pacing_def tx_waiting_def valid_config_def addr_len_def cfg_a_def
        isotp_config_default_def)
  have st: "rc = ISOTP_IGNORED" "tx_state tx1 = ISOTP_TX_FC" "tx_config tx1 = tx_config tx_waiting" "tx_deadline tx1 = 50 + timeout_bs_us (tx_config tx_waiting)"
    "tx_reserved_stmin tx1 = False" using c
    by (simp_all add: isotp_tx_confirm_def isotp_tx_check_timeout_def tx_pacing_def tx_waiting_def
        isotp_expired_time time_reached_iff Let_def prod_eq_iff) auto
  define tx' where "tx' = fst (isotp_tx_flow_control tx1 (Some clear_frame) (50 + 100))"
  have f: "tx_state tx' = ISOTP_TX_CF" "tx_separation tx' = 5000"
    by (simp_all add: tx'_def isotp_tx_flow_control_def isotp_tx_check_timeout_def tx_continue_def st clear_frame_def
        tx_waiting_def cfg_a_def isotp_config_default_def isotp_matches_def valid_id_def CAN_EFF_FLAG_def CAN_SFF_MASK_def
        addr_len_def isotp_expired_time time_reached_iff isotp_stmin_us_def Let_def)
  have p: "tx_pending_cf tx_pacing" by (simp add: tx_pacing_def)
  have "tx_state (tx_waited tx1 []) = ISOTP_TX_FC" "tx_waited tx1 [] = tx1" using st by (simp_all add: tx_waited_def)
  then have g: "tx_state tx1 = ISOTP_TX_CF \<and> tx' = tx1 \<and> (100 :: u32w) = 0 \<or>
      tx_state (tx_waited tx1 []) = ISOTP_TX_FC \<and> (100 :: u32w) \<le> 0x7FFFFFFF \<and>
        tx' = fst (isotp_tx_flow_control (tx_waited tx1 []) (Some clear_frame) (50 + 100))" by (simp add: tx'_def)
  have "(100 :: u32w) \<le> 4999 \<and> 4999 < tx_separation tx'" by (simp add: f(2))
  then have "isotp_tx_next tx' (50 + 4999) = Some (tx', None, ISOTP_IGNORED)"
    using isotp_separation_kept [OF wf p c [unfolded st(1)] g f(1)] by blast
  then show ?thesis by (simp add: c tx'_def)
qed

text \<open>C21: A transfer whose peer falls silent ends: from the deadline on, for the next half of the
  clock's range, any poll of either machine in a state that waits reports the timeout of that
  state and returns the machine to idle, whatever frame comes with the poll.\<close>

theorem isotp_timeouts_end:
  assumes "unat d < 2147483648"
  shows "(rx_state rx \<noteq> ISOTP_RX_IDLE \<longrightarrow>
      isotp_rx_feed rx fp (rx_deadline rx + d) = Some (rx\<lparr>rx_state := ISOTP_RX_IDLE\<rparr>, segment_zero,
        if rx_state rx = ISOTP_RX_CF then ISOTP_ERR_TIMEOUT_CR else ISOTP_ERR_TIMEOUT_A)) \<and>
    (tx_state tx \<notin> {ISOTP_TX_IDLE, ISOTP_TX_CF} \<longrightarrow>
      isotp_tx_next tx (tx_deadline tx + d) = Some (tx\<lparr>tx_state := ISOTP_TX_IDLE\<rparr>, None,
        if tx_state tx = ISOTP_TX_FC then ISOTP_ERR_TIMEOUT_BS else ISOTP_ERR_TIMEOUT_A) \<and>
      isotp_tx_flow_control tx fp (tx_deadline tx + d) = (tx\<lparr>tx_state := ISOTP_TX_IDLE\<rparr>,
        if tx_state tx = ISOTP_TX_FC then ISOTP_ERR_TIMEOUT_BS else ISOTP_ERR_TIMEOUT_A))"
proof -
  have e: "isotp_expired (t + d) t" for t
    unfolding isotp_expired_time by (rule time_reached_after [OF assms])
  show ?thesis
    by (simp add: isotp_rx_feed_def isotp_rx_check_timeout_def isotp_tx_next_def
        isotp_tx_flow_control_def isotp_tx_check_timeout_def e)
qed

lemma isotp_timeouts_end_witness:
  "isotp_tx_next tx_waiting 150 = Some (tx_waiting\<lparr>tx_state := ISOTP_TX_IDLE\<rparr>, None, ISOTP_ERR_TIMEOUT_BS)"
  using isotp_timeouts_end [of 50 undefined undefined tx_waiting] by (simp add: tx_waiting_def)

end
