(* ===== verification/KlineCodec.thy ===== *)
theory KlineCodec
  imports Prelude
begin

text \<open>
The ISO 9141-2 and ISO 14230 message grammar of \<open>main/kline_codec.c\<close>: message length,
  checksum, key bytes, timing parameters and the rate of the synchronisation byte. A pointer
  with its length is a list, \<open>None\<close> when the pointer is \<open>NULL\<close>. Times are in milliseconds,
  results of unsigned type are \<open>nat\<close>, and the 32-bit time stamps of the edges are words.
  The lemmas: the checksum as an instance of \<open>check_code\<close>, the length as a function of the
  first bytes only, the verdict on key bytes in either order, and the rate estimate.
\<close>

section \<open>Format byte and message length\<close>

datatype kline_addr_mode_t = KLINE_ADDR_NONE | KLINE_ADDR_CARB | KLINE_ADDR_PHYSICAL | KLINE_ADDR_FUNCTIONAL

definition kline_addr_mode :: "byte \<Rightarrow> kline_addr_mode_t" where
  "kline_addr_mode fmt =
     (let m = unat (drop_bit 6 fmt AND 0x03)
      in if m = 0 then KLINE_ADDR_NONE else if m = 1 then KLINE_ADDR_CARB
         else if m = 2 then KLINE_ADDR_PHYSICAL else KLINE_ADDR_FUNCTIONAL)"

definition kline_is_carb_fmt :: "byte \<Rightarrow> bool" where
  "kline_is_carb_fmt fmt \<longleftrightarrow> kline_addr_mode fmt = KLINE_ADDR_CARB"

fun kline_header_len :: "byte \<Rightarrow> nat" where
  "kline_header_len fmt =
     (case kline_addr_mode fmt of
        KLINE_ADDR_PHYSICAL \<Rightarrow> 3 | KLINE_ADDR_FUNCTIONAL \<Rightarrow> 3 | KLINE_ADDR_CARB \<Rightarrow> 3
      | KLINE_ADDR_NONE \<Rightarrow> 1)"

definition KLINE_MAX_MSG :: nat where "KLINE_MAX_MSG = 260"
definition KLINE_MIN_MSG :: nat where "KLINE_MIN_MSG = 3"

fun kline_msg_len :: "byte list option \<Rightarrow> nat" where
  "kline_msg_len None = 0"
| "kline_msg_len (Some buf) =
     (if length buf < 1 then 0
      else if kline_is_carb_fmt (buf ! 0) then 0
      else
        let hdr = (if kline_addr_mode (buf ! 0) = KLINE_ADDR_NONE then 1 else 3);
            data = unat (buf ! 0 AND 0x3f)
        in if data = 0 then
             if length buf < hdr + 1 then 0
             else if buf ! hdr = 0 then 0
             else hdr + 1 + unat (buf ! hdr) + 1
           else hdr + data + 1)"

section \<open>Checksum\<close>

text \<open>The loop's body: the 8-bit accumulator takes the next byte.\<close>

definition kline_sum_step :: "byte \<Rightarrow> byte \<Rightarrow> byte" where
  "kline_sum_step s b = s + b"

definition kline_checksum :: "byte list \<Rightarrow> byte" where
  "kline_checksum data = foldl kline_sum_step 0 data"

fun kline_frame_ok :: "byte list option \<Rightarrow> bool" where
  "kline_frame_ok None = False"
| "kline_frame_ok (Some buf) =
     (if length buf < KLINE_MIN_MSG \<or> length buf > KLINE_MAX_MSG then False
      else kline_checksum (take (length buf - 1) buf) = buf ! (length buf - 1))"

section \<open>Key bytes\<close>

definition kline_odd_parity :: "byte \<Rightarrow> bool" where
  "kline_odd_parity b =
     (foldl (\<lambda>ones i. ones + (drop_bit i b AND 1)) (0 :: byte) [0..<8] AND 1 \<noteq> 0)"

datatype kline_variant_t = KLINE_VARIANT_UNKNOWN | KLINE_VARIANT_ISO9141 | KLINE_VARIANT_KWP

definition kline_variant_name :: "kline_variant_t \<Rightarrow> string" where
  "kline_variant_name v =
     (case v of KLINE_VARIANT_ISO9141 \<Rightarrow> ''ISO 9141-2'' | KLINE_VARIANT_KWP \<Rightarrow> ''ISO 14230-4''
      | KLINE_VARIANT_UNKNOWN \<Rightarrow> ''unknown'')"

record kline_keybytes_t =
  variant :: kline_variant_t
  kb1 :: byte
  kb2 :: byte
  len_in_format :: bool
  extra_len_byte :: bool
  hdr_1byte :: bool
  hdr_address :: bool
  extended_timing :: bool
  kb_code :: u16w
  parity_ok :: bool

definition KLINE_KB_KWP :: byte where "KLINE_KB_KWP = 0x8f"

definition keybytes_raw :: "byte \<Rightarrow> byte \<Rightarrow> kline_keybytes_t" where
  "keybytes_raw b1 b2 =
     \<lparr>variant = KLINE_VARIANT_UNKNOWN, kb1 = b1, kb2 = b2, len_in_format = False,
      extra_len_byte = False, hdr_1byte = False, hdr_address = False, extended_timing = False,
      kb_code = 0, parity_ok = (kline_odd_parity b1 \<and> kline_odd_parity b2)\<rparr>"

text \<open>The result and what \<open>*out\<close> holds afterwards (the caller's pointer is not \<open>NULL\<close>).\<close>

definition kline_decode_keybytes :: "byte \<Rightarrow> byte \<Rightarrow> bool \<times> kline_keybytes_t" where
  "kline_decode_keybytes b1 b2 =
     (let k = keybytes_raw b1 b2 in
      if b1 = 0x08 \<and> b2 = 0x08 \<or> b1 = 0x94 \<and> b2 = 0x94
      then (True, k\<lparr>variant := KLINE_VARIANT_ISO9141, hdr_address := True\<rparr>)
      else if b2 \<noteq> KLINE_KB_KWP \<and> b1 \<noteq> KLINE_KB_KWP then (False, k)
      else
        let cap = (if b2 = KLINE_KB_KWP then b1 else b2)
        in (True, k\<lparr>variant := KLINE_VARIANT_KWP,
              len_in_format := (cap AND 0x01 \<noteq> 0),
              extra_len_byte := (cap AND 0x02 \<noteq> 0),
              hdr_1byte := (cap AND 0x04 \<noteq> 0),
              hdr_address := (cap AND 0x08 \<noteq> 0),
              extended_timing := (cap AND 0x10 \<noteq> 0 \<and> cap AND 0x20 = 0),
              kb_code := (push_bit 7 (ucast (KLINE_KB_KWP AND 0x7f)) OR ucast (cap AND 0x7f))\<rparr>))"

section \<open>Timing\<close>

record kline_timing_t =
  p1_max :: nat
  p2_min :: nat
  p2_max :: nat
  p3_min :: nat
  p3_max :: nat
  p4_min :: nat

definition kline_timing_normal :: kline_timing_t where
  "kline_timing_normal =
     \<lparr>p1_max = 20, p2_min = 25, p2_max = 50, p3_min = 55, p3_max = 5000, p4_min = 5\<rparr>"

definition kline_timing_extended :: kline_timing_t where
  "kline_timing_extended =
     \<lparr>p1_max = 20, p2_min = 0, p2_max = 1000, p3_min = 0, p3_max = 5000, p4_min = 5\<rparr>"

definition kline_p2max_from_byte :: "byte \<Rightarrow> nat" where
  "kline_p2max_from_byte v =
     (if v = 0 then 0 else if v \<le> 0xf0 then unat v * 25 else unat (v AND 0x0f) * 256 * 25)"

section \<open>Initialisation\<close>

definition KLINE_SYNC_EDGE_COUNT :: nat where "KLINE_SYNC_EDGE_COUNT = 10"
definition KLINE_BAUD_MIN :: nat where "KLINE_BAUD_MIN = 1200"
definition KLINE_BAUD_MAX :: nat where "KLINE_BAUD_MAX = 10400"
definition KLINE_BAUD_HW_MAX :: nat where "KLINE_BAUD_HW_MAX = 15625"
definition KLINE_INIT_ADDR_OBD :: byte where "KLINE_INIT_ADDR_OBD = 0x33"
definition KLINE_BAUD_DEFAULT :: nat where "KLINE_BAUD_DEFAULT = 10400"
definition KLINE_CARB_TESTER_ADDR :: byte where "KLINE_CARB_TESTER_ADDR = 0x6B"
definition KLINE_SVC_START_COMM :: byte where "KLINE_SVC_START_COMM = 0x81"
definition SYNC_RATE_MARGIN_PCT :: nat where "SYNC_RATE_MARGIN_PCT = 6"
definition SYNC_INTERVAL_TOLERANCE_PCT :: nat where "SYNC_INTERVAL_TOLERANCE_PCT = 20"

text \<open>One iteration of the interval loop: whether the interval before edge \<open>i\<close> is credible.\<close>

definition sync_interval_ok :: "u32w list \<Rightarrow> nat \<Rightarrow> nat \<Rightarrow> bool" where
  "sync_interval_ok edges mean i =
     (let scaled = unat (edges ! i - edges ! (i - 1)) * 100
      in mean * (100 - SYNC_INTERVAL_TOLERANCE_PCT) \<le> scaled \<and>
         scaled \<le> mean * (100 + SYNC_INTERVAL_TOLERANCE_PCT))"

fun kline_sync_baud_from_edges :: "u32w list option \<Rightarrow> nat" where
  "kline_sync_baud_from_edges None = 0"
| "kline_sync_baud_from_edges (Some edges) =
     (let min_baud = KLINE_BAUD_MIN * (100 - SYNC_RATE_MARGIN_PCT) div 100;
          max_baud = KLINE_BAUD_MAX * (100 + SYNC_RATE_MARGIN_PCT) div 100
      in if length edges < KLINE_SYNC_EDGE_COUNT then 0
         else
           let span = unat (edges ! (KLINE_SYNC_EDGE_COUNT - 1) - edges ! 0) in
           if span = 0 then 0
           else
             let mean = u32 (span + (KLINE_SYNC_EDGE_COUNT - 1) div 2) div (KLINE_SYNC_EDGE_COUNT - 1)
             in if mean = 0 then 0
                else if \<not> list_all (sync_interval_ok edges mean) [1..<KLINE_SYNC_EDGE_COUNT] then 0
                else
                  let baud = u32 ((9000000 + span div 2) div span)
                  in if min_baud \<le> baud \<and> baud \<le> max_baud then baud else 0)"

fun kline_is_response_pending :: "byte list option \<Rightarrow> bool" where
  "kline_is_response_pending None = False"
| "kline_is_response_pending (Some buf) =
     (if length buf < KLINE_MIN_MSG then False
      else
        let hdr = kline_header_len (buf ! 0);
            hdr = (if kline_addr_mode (buf ! 0) \<noteq> KLINE_ADDR_CARB \<and> buf ! 0 AND 0x3f = 0 \<and>
                      length buf > hdr then hdr + 1 else hdr)
        in if length buf < hdr + 3 + 1 then False
           else buf ! hdr = 0x7f \<and> buf ! (hdr + 2) = 0x78)"

text \<open>The bytes written to \<open>out\<close> and their number, \<open>None\<close> and 0 when they do not fit.\<close>

definition kline_default_wakeup :: "kline_variant_t \<Rightarrow> nat \<Rightarrow> byte list option \<times> nat" where
  "kline_default_wakeup v cap =
     (let src = (if v = KLINE_VARIANT_KWP then [0xc1, 0x33, 0xf1, 0x3e]
                 else [0x68, 0x6a, 0xf1, 0x01, 0x00])
      in if cap < length src then (None, 0) else (Some src, length src))"

section \<open>Messages\<close>

interpretation ks: check_code kline_sum_step
  by unfold_locales (simp_all add: kline_sum_step_def)

lemma kline_frame_ok_snoc:
  "2 \<le> length m \<Longrightarrow> length m \<le> 259 \<Longrightarrow> kline_frame_ok (Some (m @ [c])) \<longleftrightarrow> c = kline_checksum m"
  by (auto simp: KLINE_MIN_MSG_def KLINE_MAX_MSG_def)

lemma kline_frame_okE:
  assumes "kline_frame_ok (Some buf)"
  obtains m where "buf = m @ [kline_checksum m]" "2 \<le> length m" "length m \<le> 259"
proof -
  have b: "3 \<le> length buf" "length buf \<le> 260"
    "kline_checksum (take (length buf - 1) buf) = buf ! (length buf - 1)"
    using assms by (auto simp: KLINE_MIN_MSG_def KLINE_MAX_MSG_def split: if_splits)
  then have ne: "buf \<noteq> []" by auto
  then have "butlast buf @ [last buf] = buf" by simp
  moreover have "last buf = buf ! (length buf - 1)" using ne by (rule last_conv_nth)
  ultimately show ?thesis
    using that [of "butlast buf"] b by (simp add: butlast_conv_take)
qed

lemma kline_checksum_change:
  assumes "i < length m" "b \<noteq> m ! i"
  shows "kline_checksum (m[i := b]) \<noteq> kline_checksum m"
proof -
  have "m = take i m @ m ! i # drop (Suc i) m" using assms(1) by (rule id_take_nth_drop)
  moreover have "m[i := b] = take i m @ b # drop (Suc i) m"
    using assms(1) by (rule upd_conv_take_nth_drop)
  ultimately show ?thesis
    using ks.single_byte_detected [OF assms(2), of 0 "take i m" "drop (Suc i) m"]
    unfolding kline_checksum_def by metis
qed

text \<open>C22: A message closed with its checksum is accepted, and an accepted message no longer is
  once any one of its bytes, the checksum included, has changed.\<close>

theorem kline_checksum_protects:
  "(2 \<le> length m \<longrightarrow> length m \<le> 259 \<longrightarrow> kline_frame_ok (Some (m @ [kline_checksum m]))) \<and>
   (kline_frame_ok (Some buf) \<longrightarrow> i < length buf \<longrightarrow> b \<noteq> buf ! i \<longrightarrow>
      \<not> kline_frame_ok (Some (buf[i := b])))"
proof (intro conjI impI)
  show "2 \<le> length m \<Longrightarrow> length m \<le> 259 \<Longrightarrow> kline_frame_ok (Some (m @ [kline_checksum m]))"
    by (simp only: kline_frame_ok_snoc)
next
  assume ok: "kline_frame_ok (Some buf)" and i: "i < length buf" and b: "b \<noteq> buf ! i"
  from ok obtain m where m: "buf = m @ [kline_checksum m]" "2 \<le> length m" "length m \<le> 259"
    by (rule kline_frame_okE)
  show "\<not> kline_frame_ok (Some (buf[i := b]))"
  proof (cases "i < length m")
    case True
    then have "b \<noteq> m ! i" using b m by (simp add: nth_append)
    from kline_checksum_change [OF True this] True m show ?thesis
      by (simp add: list_update_append kline_frame_ok_snoc del: kline_frame_ok.simps)
  next
    case False
    with i m have "i = length m" by simp
    with b m show ?thesis
      by (simp add: list_update_append kline_frame_ok_snoc del: kline_frame_ok.simps)
  qed
qed

lemma kline_checksum_protects_witness:
  "kline_frame_ok (Some [0xc1, 0x33, 0xf1, 0x81, 0x66]) \<and>
   \<not> kline_frame_ok (Some ([0xc1, 0x33, 0xf1, 0x81, 0x66][1 := 0x34]))"
proof -
  have "kline_checksum [0xc1, 0x33, 0xf1, 0x81] = 0x66"
    by (simp add: kline_checksum_def kline_sum_step_def)
  then have ok: "kline_frame_ok (Some [0xc1, 0x33, 0xf1, 0x81, 0x66])"
    using kline_checksum_protects [of "[0xc1, 0x33, 0xf1, 0x81]" "[]" 0 0] by simp
  then show ?thesis
    using kline_checksum_protects [of "[]" "[0xc1, 0x33, 0xf1, 0x81, 0x66]" 1 "0x34"] by simp
qed

lemma unat_pos: "(b :: byte) \<noteq> 0 \<Longrightarrow> 0 < unat b"
  by (metis neq0_conv unat_eq_zero)

text \<open>The announced length is never more than the standard's 260 nor less than 3 bytes, and
  once known it does not change as further bytes arrive.\<close>

theorem kline_msg_len_stable:
  assumes "kline_msg_len (Some buf) \<noteq> 0"
  shows "KLINE_MIN_MSG \<le> kline_msg_len (Some buf) \<and> kline_msg_len (Some buf) \<le> KLINE_MAX_MSG \<and>
    kline_msg_len (Some (buf @ tail)) = kline_msg_len (Some buf)"
proof (cases buf)
  case Nil
  with assms show ?thesis by simp
next
  case (Cons f rest)
  have c: "\<not> kline_is_carb_fmt f" using assms by (auto simp: Cons)
  have l: "unat (f AND 0x3f) \<le> 63" by (simp add: unat_masks)
  define hdr where "hdr = (if kline_addr_mode f = KLINE_ADDR_NONE then 1 else 3 :: nat)"
  have h: "1 \<le> hdr" "hdr \<le> 3" by (simp_all add: hdr_def)
  show ?thesis
  proof (cases "unat (f AND 0x3f) = 0")
    case False
    then have "kline_msg_len (Some (buf @ xs)) = hdr + unat (f AND 0x3f) + 1" for xs
      using c by (simp add: Cons Let_def hdr_def)
    from this [of "[]"] this [of tail] False l h show ?thesis
      by (simp add: KLINE_MIN_MSG_def KLINE_MAX_MSG_def)
  next
    case True
    have a: "hdr < length buf" "buf ! hdr \<noteq> 0"
      using assms True c by (auto simp: Cons Let_def hdr_def split: if_splits)
    then have "kline_msg_len (Some (buf @ xs)) = hdr + 1 + unat (buf ! hdr) + 1" for xs
      using c True by (auto simp: Cons Let_def hdr_def nth_append split: if_splits)
    from this [of "[]"] this [of tail] h unat_byte_less [of "buf ! hdr"] unat_pos [OF a(2)]
    show ?thesis by (simp add: KLINE_MIN_MSG_def KLINE_MAX_MSG_def)
  qed
qed

lemma kline_msg_len_stable_witness:
  "kline_msg_len (Some ([0x80, 0x10, 0xf1, 0xff] @ [1, 2, 3])) = 260"
proof -
  have "kline_msg_len (Some [0x80, 0x10, 0xf1, 0xff]) = 260"
    by (simp add: kline_is_carb_fmt_def kline_addr_mode_def drop_bit_eq_div)
  then show ?thesis using kline_msg_len_stable [of "[0x80, 0x10, 0xf1, 0xff]" "[1, 2, 3]"] by simp
qed


section \<open>Key bytes\<close>

text \<open>What a decode says beyond the raw bytes themselves.\<close>

definition keybytes_verdict :: "byte \<Rightarrow> byte \<Rightarrow> bool \<times> kline_keybytes_t" where
  "keybytes_verdict b1 b2 =
     (let (ok, k) = kline_decode_keybytes b1 b2 in (ok, k\<lparr>kb1 := 0, kb2 := 0\<rparr>))"

text \<open>Which key byte came first does not matter: both orders give the same verdict, and a
  pair names ISO 9141-2 exactly when it is 08 08 or 94 94, KWP exactly when one byte is 8F.\<close>

theorem kline_keybytes_symmetric:
  "keybytes_verdict b1 b2 = keybytes_verdict b2 b1 \<and>
   (variant (snd (kline_decode_keybytes b1 b2)) = KLINE_VARIANT_ISO9141 \<longleftrightarrow>
      (b1, b2) \<in> {(0x08, 0x08), (0x94, 0x94)}) \<and>
   (variant (snd (kline_decode_keybytes b1 b2)) = KLINE_VARIANT_KWP \<longleftrightarrow> b1 = 0x8f \<or> b2 = 0x8f) \<and>
   (fst (kline_decode_keybytes b1 b2) \<longleftrightarrow>
      variant (snd (kline_decode_keybytes b1 b2)) \<noteq> KLINE_VARIANT_UNKNOWN)"
  by (auto simp: keybytes_verdict_def kline_decode_keybytes_def keybytes_raw_def KLINE_KB_KWP_def Let_def)

section \<open>Timing and synchronisation\<close>

text \<open>A larger P2max byte never means a shorter wait: the decoded time is strictly monotone
  over the whole coded range, the change of unit after F0 included, and at most 96 s.\<close>

theorem kline_p2max_monotone:
  assumes "0 < v" "v < w"
  shows "kline_p2max_from_byte v < kline_p2max_from_byte w \<and> kline_p2max_from_byte w \<le> 96000"
proof -
  have n: "kline_p2max_from_byte x = (if unat x \<le> 240 then unat x * 25 else (unat x - 240) * 6400)"
    if "0 < x" for x :: byte
  proof -
    have "unat x mod 16 = unat x - 240" if "\<not> unat x \<le> 240"
    proof -
      have "unat x = (unat x - 240) + 16 * 15" using that by simp
      then have "unat x mod 16 = (unat x - 240) mod 16" by (metis mod_mult_self2)
      then show ?thesis using unat_byte_less [of x] by simp
    qed
    then show ?thesis using that
      by (auto simp: kline_p2max_from_byte_def unat_masks word_le_nat_alt word_greater_zero_iff)
  qed
  have "unat v < unat w" "0 < w" using assms by (auto simp: word_less_nat_alt)
  then show ?thesis using unat_byte_less [of w] assms(1) by (auto simp: n)
qed

lemma kline_p2max_monotone_witness:
  "kline_p2max_from_byte 0xf0 < kline_p2max_from_byte 0xf1"
  using kline_p2max_monotone [of "0xf0" "0xf1"] by simp

lemma kline_sync_baud_shift:
  assumes "10 \<le> length edges"
  shows "kline_sync_baud_from_edges (Some (map (\<lambda>e. e + k) edges)) = kline_sync_baud_from_edges (Some edges)"
proof -
  have "sync_interval_ok (map (\<lambda>e. e + k) edges) m i = sync_interval_ok edges m i" if "i < 10" for m i
    using that assms by (simp add: sync_interval_ok_def)
  then have "list_all (sync_interval_ok (map (\<lambda>e. e + k) edges) m) [1..<10] =
    list_all (sync_interval_ok edges m) [1..<10]" for m
    by (auto simp: list_all_iff)
  moreover have "map (\<lambda>e. e + k) edges ! 9 = edges ! 9 + k" "map (\<lambda>e. e + k) edges ! 0 = edges ! 0 + k"
  proof -
    have "0 < length edges" "9 < length edges" using assms by linarith+
    then show "map (\<lambda>e. e + k) edges ! 9 = edges ! 9 + k" "map (\<lambda>e. e + k) edges ! 0 = edges ! 0 + k"
      by simp_all
  qed
  ultimately show ?thesis
    by (simp add: KLINE_SYNC_EDGE_COUNT_def Let_def)
qed

lemma kline_sync_baud_exact:
  assumes "91 \<le> T" "T \<le> 886"
  shows "kline_sync_baud_from_edges (Some (map (\<lambda>i. of_nat (i * T)) [0..<10])) =
    (9000000 + 9 * T div 2) div (9 * T)"
proof -
  let ?e = "map (\<lambda>i. of_nat (i * T) :: u32w) [0..<10]"
  have d: "?e ! i - ?e ! (i - 1) = of_nat T" if i: "0 < i" "i < 10" for i
  proof -
    obtain j where "i = Suc j" using i(1) by (cases i) auto
    then show ?thesis using i by (simp add: algebra_simps)
  qed
  have s: "?e ! 9 - ?e ! 0 = of_nat (9 * T)" by simp
  have u: "unat (of_nat T :: u32w) = T" "unat (of_nat (9 * T) :: u32w) = 9 * T"
    using assms by (simp_all add: unat_of_nat unat_word_ariths)
  have mean: "u32 (9 * T + 4) div 9 = T" using assms by simp
  have l: "list_all (sync_interval_ok ?e T) [1..<10]"
    using d u by (auto simp: list_all_iff sync_interval_ok_def SYNC_INTERVAL_TOLERANCE_PCT_def Let_def
        simp del: upt_rec_numeral)
  define b where "b = (9000000 + 9 * T div 2) div (9 * T)"
  have b: "1128 \<le> b" "b \<le> 11024"
  proof -
    have "1128 * (9 * T) \<le> 9000000 + 9 * T div 2" using assms by simp
    then show "1128 \<le> b" unfolding b_def using assms by (simp add: less_eq_div_iff_mult_less_eq)
    have "9000000 + 9 * T div 2 < 11025 * (9 * T)" using assms by simp
    then show "b \<le> 11024" unfolding b_def using assms
      by (simp add: less_Suc_eq_le [symmetric] div_less_iff_less_mult)
  qed
  then have "u32 b = b" by simp
  with b l s u mean assms show ?thesis
    by (simp add: KLINE_SYNC_EDGE_COUNT_def KLINE_BAUD_MIN_def KLINE_BAUD_MAX_def
        SYNC_RATE_MARGIN_PCT_def Let_def b_def [symmetric] del: upt_rec_numeral)
qed


text \<open>C23: The rate read off the synchronisation byte. Whatever the ten time stamps are, the result
  is 0 or in the accepted 1128 to 11024 baud, and it does not depend on where the 32-bit
  counter stands, a wrap among the edges included; for edges exactly \<open>T\<close> microseconds apart,
  \<open>T\<close> from 91 to 886, it is \<open>1000000 / T\<close> rounded to the nearest integer.\<close>

theorem kline_sync_baud_correct:
  assumes "10 \<le> length edges" "91 \<le> T" "T \<le> 886"
  shows "(kline_sync_baud_from_edges (Some edges) = 0 \<or>
      kline_sync_baud_from_edges (Some edges) \<in> {1128..11024}) \<and>
    kline_sync_baud_from_edges (Some (map (\<lambda>e. e + k) edges)) = kline_sync_baud_from_edges (Some edges) \<and>
    kline_sync_baud_from_edges (Some (map (\<lambda>i. k + of_nat (i * T)) [0..<10])) =
      (9000000 + 9 * T div 2) div (9 * T)"
proof (intro conjI)
  show "kline_sync_baud_from_edges (Some edges) = 0 \<or>
      kline_sync_baud_from_edges (Some edges) \<in> {1128..11024}"
    by (auto simp: Let_def KLINE_BAUD_MIN_def KLINE_BAUD_MAX_def SYNC_RATE_MARGIN_PCT_def)
  show "kline_sync_baud_from_edges (Some (map (\<lambda>e. e + k) edges)) = kline_sync_baud_from_edges (Some edges)"
    by (rule kline_sync_baud_shift [OF assms(1)])
  have "map (\<lambda>i. k + of_nat (i * T)) [0..<10] = map (\<lambda>e. e + k) (map (\<lambda>i. of_nat (i * T)) [0..<10])"
    by (simp add: add.commute del: upt_rec_numeral)
  then show "kline_sync_baud_from_edges (Some (map (\<lambda>i. k + of_nat (i * T)) [0..<10])) =
      (9000000 + 9 * T div 2) div (9 * T)"
    using kline_sync_baud_shift [of "map (\<lambda>i. of_nat (i * T)) [0..<10]" k]
      kline_sync_baud_exact [OF assms(2,3)]
    by (simp only:) (simp del: kline_sync_baud_from_edges.simps upt_rec_numeral)
qed

lemma kline_sync_baud_correct_witness:
  "kline_sync_baud_from_edges (Some (map (\<lambda>i. 0xFFFFFF00 + of_nat (i * 96)) [0..<10])) = 10417"
  using kline_sync_baud_correct [of "map (\<lambda>i. of_nat i) [0..<10]" 96 "0xFFFFFF00"]
  by (simp del: kline_sync_baud_from_edges.simps upt_rec_numeral)

end
