(* ===== verification/J1850Common.thy ===== *)
theory J1850Common
  imports Prelude
begin

text \<open>
What the two SAE J1850 modulations share, \<open>main/j1850_common.c\<close>: the CRC byte of a frame
  and the two header bits the drivers read. The lemmas make the CRC an instance of
  \<open>check_code\<close> (its register is reversible) and state what a checked frame guarantees.
\<close>

section \<open>The check byte\<close>

definition J1850_MAX_FRAME :: nat where "J1850_MAX_FRAME = 12"

definition J1850_CRC_RESIDUE :: byte where "J1850_CRC_RESIDUE = 0xC4"

definition crc_shift :: "byte \<Rightarrow> byte" where
  "crc_shift crc = (if crc AND 0x80 \<noteq> 0 then push_bit 1 crc XOR 0x1D else push_bit 1 crc)"

text \<open>One byte of the outer loop: eight shifts.\<close>

definition crc_step :: "byte \<Rightarrow> byte \<Rightarrow> byte" where
  "crc_step crc d = (crc_shift ^^ 8) (crc XOR d)"

fun j1850_crc :: "byte list option \<Rightarrow> byte" where
  "j1850_crc None = 0xFF XOR 0xFF"
| "j1850_crc (Some data) = NOT (foldl crc_step 0xFF data)"

fun j1850_crc_check :: "byte list option \<Rightarrow> bool" where
  "j1850_crc_check None = False"
| "j1850_crc_check (Some data) =
     (if length data < 2 then False
      else data ! (length data - 1) = j1850_crc (Some (take (length data - 1) data)))"

definition J1850_HDR_H_BIT :: byte where "J1850_HDR_H_BIT = 0x10"
definition J1850_HDR_K_BIT :: byte where "J1850_HDR_K_BIT = 0x08"

definition j1850_hdr_is_three_byte :: "byte \<Rightarrow> bool" where
  "j1850_hdr_is_three_byte hdr \<longleftrightarrow> hdr AND J1850_HDR_H_BIT = 0"

definition j1850_hdr_wants_ifr :: "byte \<Rightarrow> bool" where
  "j1850_hdr_wants_ifr hdr \<longleftrightarrow> hdr AND J1850_HDR_K_BIT = 0"

section \<open>The register is reversible\<close>

definition crc_unshift :: "byte \<Rightarrow> byte" where
  "crc_unshift crc = (if crc AND 1 \<noteq> 0 then drop_bit 1 (crc XOR 0x1D) OR 0x80 else drop_bit 1 crc)"

lemma crc_unshift_shift: "crc_unshift (crc_shift x) = x"
  by (rule byte_cases [of _ x]) code_simp

lemma crc_shift_inj: "crc_shift x = crc_shift y \<longleftrightarrow> x = y"
  by (metis crc_unshift_shift)

lemma crc_shifts_inj: "(crc_shift ^^ n) x = (crc_shift ^^ n) y \<longleftrightarrow> x = y"
  by (induction n) (simp_all add: crc_shift_inj)

lemma xor_left_inj: "a XOR c = b XOR c \<longleftrightarrow> a = (b :: byte)"
  by (metis xor.assoc xor.right_neutral xor_self_eq)

interpretation crc: check_code crc_step
proof
  show "crc_step r a = crc_step r' a \<Longrightarrow> r = r'" for r r' a
    by (simp add: crc_step_def crc_shifts_inj xor_left_inj)
  show "crc_step r a = crc_step r b \<Longrightarrow> a = b" for r a b
    by (simp add: crc_step_def crc_shifts_inj xor.commute [of r] xor_left_inj)
qed

section \<open>Frames\<close>

lemma crc_check_snoc: "m \<noteq> [] \<Longrightarrow> j1850_crc_check (Some (m @ [c])) \<longleftrightarrow> c = j1850_crc (Some m)"
  by (cases m) auto

lemma crc_checkE:
  assumes "j1850_crc_check (Some f)"
  obtains m where "f = m @ [j1850_crc (Some m)]" "m \<noteq> []"
proof -
  have l: "2 \<le> length f" "f ! (length f - 1) = j1850_crc (Some (take (length f - 1) f))"
    using assms by (auto split: if_splits)
  then have "f \<noteq> []" by auto
  then have "f = butlast f @ [last f]" by (rule append_butlast_last_id [symmetric])
  moreover have "last f = f ! (length f - 1)" using \<open>f \<noteq> []\<close> by (rule last_conv_nth)
  moreover have "butlast f \<noteq> []" using l(1) by (cases f rule: rev_cases) auto
  ultimately show ?thesis using that [of "butlast f"] l(2) by (simp add: butlast_conv_take)
qed

lemma crc_residue: "foldl crc_step 0xFF (m @ [j1850_crc (Some m)]) = J1850_CRC_RESIDUE"
proof -
  define r where "r = foldl crc_step 0xFF m"
  have "r XOR NOT r = (0xFF :: byte)"
    by (rule byte_cases [of "\<lambda>r. r XOR NOT r = 0xFF"]) code_simp
  moreover have "(crc_shift ^^ 8) (- 1) = J1850_CRC_RESIDUE" by code_simp
  ultimately show ?thesis by (simp add: crc_step_def r_def [symmetric])
qed

lemma crc_change:
  assumes "i < length m" "b \<noteq> m ! i"
  shows "j1850_crc (Some (m[i := b])) \<noteq> j1850_crc (Some m)"
proof -
  have "m = take i m @ m ! i # drop (Suc i) m" using assms(1) by (rule id_take_nth_drop)
  moreover have "m[i := b] = take i m @ b # drop (Suc i) m"
    using assms(1) by (rule upd_conv_take_nth_drop)
  ultimately have "foldl crc_step 0xFF (m[i := b]) \<noteq> foldl crc_step 0xFF m"
    using crc.single_byte_detected [OF assms(2), of "0xFF" "take i m" "drop (Suc i) m"] by metis
  then show ?thesis by (simp add: bit.compl_eq_compl_iff)
qed

text \<open>C24: The check byte does its work: closing a message with it makes the frame check and
  leaves the residue that \<open>J1850_CRC_RESIDUE\<close> names, for every message; and a frame that checks
  no longer does once any one of its bytes, hence any burst inside a byte, has changed.\<close>

theorem j1850_crc_protects:
  "(m \<noteq> [] \<longrightarrow> j1850_crc_check (Some (m @ [j1850_crc (Some m)])) \<and>
      foldl crc_step 0xFF (m @ [j1850_crc (Some m)]) = J1850_CRC_RESIDUE) \<and>
   (j1850_crc_check (Some f) \<longrightarrow> i < length f \<longrightarrow> b \<noteq> f ! i \<longrightarrow>
      \<not> j1850_crc_check (Some (f[i := b])))"
proof (intro conjI impI)
  show "m \<noteq> [] \<Longrightarrow> j1850_crc_check (Some (m @ [j1850_crc (Some m)]))"
    by (simp add: crc_check_snoc del: j1850_crc_check.simps j1850_crc.simps)
  show "foldl crc_step 0xFF (m @ [j1850_crc (Some m)]) = J1850_CRC_RESIDUE" by (rule crc_residue)
next
  assume ok: "j1850_crc_check (Some f)" and i: "i < length f" and b: "b \<noteq> f ! i"
  from ok obtain m where m: "f = m @ [j1850_crc (Some m)]" "m \<noteq> []" by (rule crc_checkE)
  show "\<not> j1850_crc_check (Some (f[i := b]))"
  proof (cases "i < length m")
    case True
    then have "b \<noteq> m ! i" using b m by (simp add: nth_append)
    from crc_change [OF True this] True m show ?thesis
      by (simp add: list_update_append crc_check_snoc del: j1850_crc_check.simps j1850_crc.simps)
  next
    case False
    with i m have "i = length m" by simp
    with b m show ?thesis
      by (simp add: list_update_append crc_check_snoc del: j1850_crc_check.simps j1850_crc.simps)
  qed
qed

lemma j1850_crc_protects_witness:
  "j1850_crc_check (Some [0x68, 0x6A, 0xF1, 0x01, 0x00, 0x17]) \<and>
   \<not> j1850_crc_check (Some ([0x68, 0x6A, 0xF1, 0x01, 0x00, 0x17][3 := 0x03]))"
proof -
  have "j1850_crc (Some [0x68, 0x6A, 0xF1, 0x01, 0x00]) = 0x17" by code_simp
  then have ok: "j1850_crc_check (Some [0x68, 0x6A, 0xF1, 0x01, 0x00, 0x17])"
    using j1850_crc_protects [of "[0x68, 0x6A, 0xF1, 0x01, 0x00]" "[]" 0 0] by simp
  then show ?thesis
    using j1850_crc_protects [of "[]" "[0x68, 0x6A, 0xF1, 0x01, 0x00, 0x17]" 3 3]
    by (simp del: j1850_crc_check.simps j1850_crc.simps)
qed

text \<open>From here on a check is a fact about a frame and not a computation.\<close>

lemma crc_check_length: "j1850_crc_check (Some f) \<Longrightarrow> 2 \<le> length f"
  by (simp split: if_splits)

declare j1850_crc.simps [simp del] j1850_crc_check.simps [simp del]

end
