(* ===== verification/VpwCodec.thy ===== *)
theory VpwCodec
  imports J1850Common
begin

text \<open>
The variable pulse width symbols of SAE J1850, \<open>main/j1850_vpw_codec.c\<close>: a frame is a start
  pulse, one pulse per bit and an end pulse, alternately active and passive. Modelled are the
  encoder into the peripheral's symbol words, the pulse model and the sampling instants of the
  contention check, and the decoder of a capture with its in-frame response. Durations are
  microseconds as \<open>nat\<close>; the arrays are lists of their C size and every write is checked.
  The lemmas: what the encoder has written after each bit, what the decoder does with one bit,
  one byte and a whole frame, and an invariant of the decoder over arbitrary captures.
\<close>

section \<open>Symbols and their timing\<close>

text \<open>
  What the codec uses of the peripheral's symbol word: two levels, \<open>True\<close> being
  \<open>J1850_VPW_ACTIVE\<close>, and two durations in microseconds.
\<close>

record rmt_symbol =
  level0 :: bool
  duration0 :: nat
  level1 :: bool
  duration1 :: nat

definition J1850_VPW_TV1_NOM :: nat where "J1850_VPW_TV1_NOM = 64"
definition J1850_VPW_TV2_NOM :: nat where "J1850_VPW_TV2_NOM = 128"
definition J1850_VPW_TV3_NOM :: nat where "J1850_VPW_TV3_NOM = 200"
definition J1850_VPW_TX_TRIM_US :: nat where "J1850_VPW_TX_TRIM_US = 0"
definition J1850_VPW_MAX_FRAME :: nat where "J1850_VPW_MAX_FRAME = J1850_MAX_FRAME"

text \<open>The widths emitted for a short pulse, a long pulse, and SOF or EOD.\<close>

definition tx_tv1 :: "bool \<Rightarrow> nat" where
  "tx_tv1 active = (if active then J1850_VPW_TV1_NOM - J1850_VPW_TX_TRIM_US
                    else J1850_VPW_TV1_NOM + J1850_VPW_TX_TRIM_US)"

definition tx_tv2 :: "bool \<Rightarrow> nat" where
  "tx_tv2 active = (if active then J1850_VPW_TV2_NOM - J1850_VPW_TX_TRIM_US
                    else J1850_VPW_TV2_NOM + J1850_VPW_TX_TRIM_US)"

definition tx_tv3 :: "bool \<Rightarrow> nat" where
  "tx_tv3 active = (if active then J1850_VPW_TV3_NOM - J1850_VPW_TX_TRIM_US
                    else J1850_VPW_TV3_NOM + J1850_VPW_TX_TRIM_US)"

definition J1850_VPW_PULSE_COUNT :: "nat \<Rightarrow> nat" where
  "J1850_VPW_PULSE_COUNT len = 2 + 8 * len"

section \<open>Encoding\<close>

definition put_pulse :: "rmt_symbol list \<Rightarrow> nat \<Rightarrow> nat \<Rightarrow> rmt_symbol list option" where
  "put_pulse out i us = do {
     s \<leftarrow> get_at out (i div 2);
     set_at out (i div 2)
       (if odd i then s\<lparr>level1 := False, duration1 := us\<rparr>
        else s\<lparr>level0 := True, duration0 := us\<rparr>)
   }"

text \<open>The body of the two nested loops for bit \<open>b\<close> of a byte, at pulse \<open>i\<close>.\<close>

definition vpw_put_bit :: "rmt_symbol list \<times> nat \<Rightarrow> byte \<times> nat \<Rightarrow> (rmt_symbol list \<times> nat) option" where
  "vpw_put_bit = (\<lambda>(out, i) (d, b). do {
     let one = bit d b;
     let active = even i;
     let us = (if active then if one then tx_tv1 True else tx_tv2 True
               else if one then tx_tv2 False else tx_tv1 False);
     out \<leftarrow> put_pulse out i us;
     Some (out, i + 1)
   })"

text \<open>The bytes in order, each with its bits 7 down to 0.\<close>

definition msb_first :: "byte list \<Rightarrow> (byte \<times> nat) list" where
  "msb_first data = concat (map (\<lambda>d. map (Pair d) (rev [0..<8])) data)"

text \<open>The written array and the number of symbols; an array that is not there stays \<open>None\<close>.\<close>

definition j1850_vpw_encode ::
  "byte list option \<Rightarrow> rmt_symbol list option \<Rightarrow> (rmt_symbol list option \<times> nat) option" where
  "j1850_vpw_encode data out =
     (case (data, out) of
        (Some data, Some out) \<Rightarrow>
          let need = 4 * length data + 1 in
          if length data = 0 \<or> length data > J1850_VPW_MAX_FRAME \<or> length out < need
          then Some (Some out, 0)
          else do {
            out \<leftarrow> put_pulse out 0 (tx_tv3 True);
            (out, i) \<leftarrow> fold_opt vpw_put_bit (out, 1) (msb_first data);
            out \<leftarrow> put_pulse out i (tx_tv3 False);
            Some (Some out, (i + 1) div 2)
          }
      | _ \<Rightarrow> Some (out, 0))"

section \<open>Contention\<close>

type_synonym pulse = "bool \<times> nat"

text \<open>\<open>None\<close> stands for the result \<open>false\<close>, and no pulse is written then.\<close>

definition j1850_vpw_pulse_at :: "byte list \<Rightarrow> nat \<Rightarrow> pulse option" where
  "j1850_vpw_pulse_at data k =
     (let len = length data in
      if len = 0 \<or> len > J1850_VPW_MAX_FRAME \<or> k \<ge> J1850_VPW_PULSE_COUNT len then None
      else if k = 0 then Some (True, tx_tv3 True)
      else if k = J1850_VPW_PULSE_COUNT len - 1 then Some (False, tx_tv3 False)
      else
        let b = k - 1;
            one = bit (data ! (b div 8)) (7 - b mod 8)
        in if even k then Some (True, if one then tx_tv1 True else tx_tv2 True)
           else Some (False, if one then tx_tv2 False else tx_tv1 False))"

definition j1850_vpw_watch_offsets :: "pulse \<Rightarrow> nat \<Rightarrow> nat \<Rightarrow> nat \<Rightarrow> nat list" where
  "j1850_vpw_watch_offsets p head_us tail_us cap =
     (if fst p then []
      else if snd p \<le> tail_us then []
      else
        let last = snd p - tail_us;
            out = (if 0 < cap \<and> head_us < last then [head_us] else [])
        in if length out < cap \<and> J1850_VPW_TV1_NOM + head_us < last
           then out @ [u16 (J1850_VPW_TV1_NOM + head_us)] else out)"

section \<open>Decoding\<close>

datatype j1850_vpw_rx_status =
    J1850_VPW_RX_OK | J1850_VPW_RX_IFR_ONLY | J1850_VPW_RX_BREAK | J1850_VPW_RX_EMPTY
  | J1850_VPW_RX_NO_SOF | J1850_VPW_RX_BAD_SYMBOL | J1850_VPW_RX_FRAMING
  | J1850_VPW_RX_TOO_LONG | J1850_VPW_RX_SHORT | J1850_VPW_RX_BAD_CRC

definition j1850_vpw_rx_status_str :: "j1850_vpw_rx_status \<Rightarrow> string" where
  "j1850_vpw_rx_status_str st =
     (case st of
        J1850_VPW_RX_OK \<Rightarrow> ''ok'' | J1850_VPW_RX_IFR_ONLY \<Rightarrow> ''ifr''
      | J1850_VPW_RX_BREAK \<Rightarrow> ''break'' | J1850_VPW_RX_EMPTY \<Rightarrow> ''empty''
      | J1850_VPW_RX_NO_SOF \<Rightarrow> ''no-sof'' | J1850_VPW_RX_BAD_SYMBOL \<Rightarrow> ''bad-symbol''
      | J1850_VPW_RX_FRAMING \<Rightarrow> ''framing'' | J1850_VPW_RX_TOO_LONG \<Rightarrow> ''too-long''
      | J1850_VPW_RX_SHORT \<Rightarrow> ''short'' | J1850_VPW_RX_BAD_CRC \<Rightarrow> ''bad-crc'')"

record j1850_vpw_rx =
  vpw_status :: j1850_vpw_rx_status
  vpw_data :: "byte list"
  vpw_len :: nat
  vpw_ifr :: "byte list"
  vpw_ifr_len :: nat
  vpw_eod :: bool
  vpw_nb :: bool
  vpw_nb_long :: bool

definition vpw_rx_zero :: j1850_vpw_rx where
  "vpw_rx_zero =
     \<lparr>vpw_status = J1850_VPW_RX_EMPTY, vpw_data = replicate J1850_VPW_MAX_FRAME 0, vpw_len = 0,
      vpw_ifr = replicate J1850_VPW_MAX_FRAME 0, vpw_ifr_len = 0, vpw_eod = False, vpw_nb = False,
      vpw_nb_long = False\<rparr>"

text \<open>
  The pulses an iterator over the capture delivers: two per symbol word, up to the first zero
  duration, which is the peripheral's end marker.
\<close>

definition pulse_train :: "rmt_symbol list \<Rightarrow> pulse list" where
  "pulse_train syms =
     takeWhile (\<lambda>p. snd p \<noteq> 0)
       (concat (map (\<lambda>s. [(level0 s, duration0 s), (level1 s, duration1 s)]) syms))"

datatype vpw_width = W_INVALID | W_SHORT | W_LONG | W_TV3 | W_TV4

definition J1850_VPW_TV1_RX_MIN :: nat where "J1850_VPW_TV1_RX_MIN = 35"
definition J1850_VPW_TV1_RX_MAX :: nat where "J1850_VPW_TV1_RX_MAX = 96"
definition J1850_VPW_TV2_RX_MAX :: nat where "J1850_VPW_TV2_RX_MAX = 163"
definition J1850_VPW_TV3_RX_MAX :: nat where "J1850_VPW_TV3_RX_MAX = 239"

definition vpw_classify :: "nat \<Rightarrow> vpw_width" where
  "vpw_classify us =
     (if us < J1850_VPW_TV1_RX_MIN then W_INVALID
      else if us \<le> J1850_VPW_TV1_RX_MAX then W_SHORT
      else if us \<le> J1850_VPW_TV2_RX_MAX then W_LONG
      else if us \<le> J1850_VPW_TV3_RX_MAX then W_TV3 else W_TV4)"

definition vpw_bit_value :: "bool \<Rightarrow> vpw_width \<Rightarrow> bool" where
  "vpw_bit_value level w = (if level then w = W_SHORT else w = W_LONG)"

text \<open>The array, its length counter and the bit counter after one more bit, and the result.\<close>

definition vpw_push :: "byte list \<Rightarrow> nat \<Rightarrow> nat \<Rightarrow> bool \<Rightarrow> (byte list \<times> nat \<times> nat \<times> bool) option" where
  "vpw_push buf len nbits one =
     (if nbits = 0 \<and> len \<ge> J1850_VPW_MAX_FRAME then Some (buf, len, nbits, False)
      else do {
        buf \<leftarrow> (if nbits = 0 then set_at buf len 0 else Some buf);
        buf \<leftarrow> (if one then do { v \<leftarrow> get_at buf len; set_at buf len (v OR push_bit (7 - nbits) 1) }
               else Some buf);
        Some (if nbits + 1 = 8 then (buf, len + 1, 0, True) else (buf, len, nbits + 1, True))
      })"

definition vpw_push_bit ::
  "j1850_vpw_rx \<Rightarrow> bool \<Rightarrow> bool \<Rightarrow> nat \<Rightarrow> (j1850_vpw_rx \<times> nat \<times> bool) option" where
  "vpw_push_bit out in_ifr one nbits =
     (if in_ifr then do {
        (b, l, n, ok) \<leftarrow> vpw_push (vpw_ifr out) (vpw_ifr_len out) nbits one;
        Some (out\<lparr>vpw_ifr := b, vpw_ifr_len := l\<rparr>, n, ok)
      } else do {
        (b, l, n, ok) \<leftarrow> vpw_push (vpw_data out) (vpw_len out) nbits one;
        Some (out\<lparr>vpw_data := b, vpw_len := l\<rparr>, n, ok)
      })"

record vpw_loop_state =
  vl_out :: j1850_vpw_rx
  vl_nbits :: nat
  vl_expect :: bool
  vl_in_ifr :: bool
  vl_need_nb :: bool

text \<open>One round of the loop returns from the function, leaves the loop, or goes on.\<close>

datatype vpw_step = VReturn j1850_vpw_rx_status j1850_vpw_rx | VEnded vpw_loop_state | VNext vpw_loop_state

definition vpw_step :: "vpw_loop_state \<Rightarrow> pulse \<Rightarrow> vpw_step option" where
  "vpw_step s p =
     (let (level, dur) = p; out = vl_out s in
      if level \<noteq> vl_expect s then Some (VReturn J1850_VPW_RX_BAD_SYMBOL out)
      else
        let s = s\<lparr>vl_expect := \<not> vl_expect s\<rparr>; w = vpw_classify dur in
        if w = W_INVALID then Some (VReturn J1850_VPW_RX_BAD_SYMBOL out)
        else if w = W_TV4 then
          Some (if level then VReturn J1850_VPW_RX_BREAK out else VEnded s)
        else if w = W_TV3 then
          Some (if level then VReturn J1850_VPW_RX_BAD_SYMBOL out
                else if vl_in_ifr s then VEnded s
                else if vl_nbits s \<noteq> 0 then VReturn J1850_VPW_RX_FRAMING out
                else VNext (s\<lparr>vl_in_ifr := True, vl_need_nb := True, vl_out := out\<lparr>vpw_eod := True\<rparr>\<rparr>))
        else if vl_need_nb s then
          Some (VNext (s\<lparr>vl_need_nb := False, vl_out := out\<lparr>vpw_nb := True, vpw_nb_long := (w = W_LONG)\<rparr>\<rparr>))
        else do {
          (out, n, ok) \<leftarrow> vpw_push_bit out (vl_in_ifr s) (vpw_bit_value level w) (vl_nbits s);
          Some (if ok then VNext (s\<lparr>vl_out := out, vl_nbits := n\<rparr>)
                else VReturn J1850_VPW_RX_TOO_LONG out)
        })"

text \<open>The end of the decoder, behind the label \<open>ended\<close>.\<close>

definition vpw_finish :: "vpw_loop_state \<Rightarrow> j1850_vpw_rx" where
  "vpw_finish s =
     (let out = vl_out s in
      if vl_nbits s \<noteq> 0 then out\<lparr>vpw_status := J1850_VPW_RX_FRAMING\<rparr>
      else if vpw_status out = J1850_VPW_RX_IFR_ONLY then
        if vpw_ifr_len out = 0 then out\<lparr>vpw_status := J1850_VPW_RX_EMPTY\<rparr> else out
      else if vpw_len out < 2 then out\<lparr>vpw_status := J1850_VPW_RX_SHORT\<rparr>
      else if \<not> j1850_crc_check (Some (take (vpw_len out) (vpw_data out)))
      then out\<lparr>vpw_status := J1850_VPW_RX_BAD_CRC\<rparr>
      else out)"

fun vpw_loop :: "vpw_loop_state \<Rightarrow> pulse list \<Rightarrow> j1850_vpw_rx option" where
  "vpw_loop s [] = Some (vpw_finish s)"
| "vpw_loop s (p # ps) = do {
     r \<leftarrow> vpw_step s p;
     (case r of
        VReturn st out \<Rightarrow> Some (out\<lparr>vpw_status := st\<rparr>)
      | VEnded s \<Rightarrow> Some (vpw_finish s)
      | VNext s \<Rightarrow> vpw_loop s ps)
   }"

text \<open>The result \<open>*out\<close>; the C function also returns its status.\<close>

definition j1850_vpw_decode :: "rmt_symbol list option \<Rightarrow> j1850_vpw_rx option" where
  "j1850_vpw_decode syms =
     (case syms of None \<Rightarrow> Some vpw_rx_zero
      | Some syms \<Rightarrow>
          (case dropWhile (\<lambda>p. \<not> fst p) (pulse_train syms) of
             [] \<Rightarrow> Some vpw_rx_zero
           | (level, dur) # ps \<Rightarrow>
               let out = vpw_rx_zero;
                   start = (\<lambda>out ifr. vpw_loop
                     \<lparr>vl_out = out, vl_nbits = 0, vl_expect = False, vl_in_ifr = ifr,
                      vl_need_nb = False\<rparr> ps)
               in case vpw_classify dur of
                    W_TV3 \<Rightarrow> start (out\<lparr>vpw_status := J1850_VPW_RX_OK\<rparr>) False
                  | W_TV4 \<Rightarrow> Some (out\<lparr>vpw_status := J1850_VPW_RX_BREAK\<rparr>)
                  | W_INVALID \<Rightarrow> Some (out\<lparr>vpw_status := J1850_VPW_RX_NO_SOF\<rparr>)
                  | _ \<Rightarrow> start (out\<lparr>vpw_status := J1850_VPW_RX_IFR_ONLY, vpw_nb := True,
                             vpw_nb_long := (vpw_classify dur = W_LONG)\<rparr>) True))"


section \<open>What the encoder writes\<close>

text \<open>Pulse \<open>k\<close> of a symbol array, and all of them.\<close>

definition sym_pulse :: "rmt_symbol list \<Rightarrow> nat \<Rightarrow> pulse" where
  "sym_pulse out k =
     (let s = out ! (k div 2) in
      if even k then (level0 s, duration0 s) else (level1 s, duration1 s))"

lemma sym_pulses: "concat (map (\<lambda>s. [(level0 s, duration0 s), (level1 s, duration1 s)]) out) =
    map (sym_pulse out) [0..<2 * length out]"
proof (induction out rule: rev_induct)
  case (snoc s out)
  have "map (sym_pulse (out @ [s])) [0..<2 * length out] = map (sym_pulse out) [0..<2 * length out]"
    by (auto simp: sym_pulse_def nth_append Let_def)
  then show ?case using snoc by (simp add: sym_pulse_def Let_def)
qed simp

definition with_pulse :: "rmt_symbol list \<Rightarrow> nat \<Rightarrow> nat \<Rightarrow> rmt_symbol list" where
  "with_pulse out i us = out[i div 2 :=
     (let s = out ! (i div 2) in
      if odd i then s\<lparr>level1 := False, duration1 := us\<rparr> else s\<lparr>level0 := True, duration0 := us\<rparr>)]"

lemma put_pulse_Some: "i div 2 < length out \<Longrightarrow> put_pulse out i us = Some (with_pulse out i us)"
  by (simp add: put_pulse_def with_pulse_def Let_def)

lemma with_pulse_length [simp]: "length (with_pulse out i us) = length out"
  by (simp add: with_pulse_def)

lemma with_pulse_drop: "i div 2 < n \<Longrightarrow> drop n (with_pulse out i us) = drop n out"
  by (simp add: with_pulse_def)

lemma with_pulse_sym:
  assumes "i div 2 < length out"
  shows "sym_pulse (with_pulse out i us) k = (if k = i then (even i, us) else sym_pulse out k)"
proof -
  have "k div 2 \<noteq> i div 2 \<or> even k \<noteq> even i" if "k \<noteq> i"
    using that by (metis div_mult_mod_eq parity_cases)
  then show ?thesis using assms
    by (cases "k div 2 = i div 2") (auto simp: sym_pulse_def with_pulse_def Let_def)
qed

lemma msb_first_nth:
  "length (msb_first data) = 8 * length data \<and>
   (\<forall>j < 8 * length data. msb_first data ! j = (data ! (j div 8), 7 - j mod 8))"
proof (induction data)
  case (Cons d data)
  have e: "msb_first (d # data) = map (Pair d) (rev [0..<8]) @ msb_first data"
    by (simp add: msb_first_def)
  have "msb_first (d # data) ! j = ((d # data) ! (j div 8), 7 - j mod 8)" if j: "j < 8 * length (d # data)" for j
  proof (cases "j < 8")
    case True
    then show ?thesis by (simp add: e nth_append rev_nth del: upt_rec_numeral)
  next
    case False
    then obtain i where i: "j = i + 8" by (metis add.commute le_Suc_ex not_less)
    then have "i < 8 * length data" using j by simp
    moreover have "(i + 8) div 8 = Suc (i div 8)" "(i + 8) mod 8 = i mod 8" by simp_all
    ultimately show ?thesis using Cons unfolding i by (simp add: e nth_append del: upt_rec_numeral)
  qed
  with Cons show ?case by (simp add: e del: upt_rec_numeral)
qed (simp add: msb_first_def)

lemma vpw_put_bit_at:
  assumes j: "j < 8 * length data" "length data \<le> J1850_VPW_MAX_FRAME" and l: "4 * length data + 1 \<le> length o'"
    and before: "\<And>k. k \<le> j \<Longrightarrow> Some (sym_pulse o' k) = j1850_vpw_pulse_at data k"
  shows "\<exists>o2. vpw_put_bit (o', j + 1) (msb_first data ! j) = Some (o2, j + 2) \<and> length o2 = length o' \<and>
    (\<forall>k \<le> Suc j. Some (sym_pulse o2 k) = j1850_vpw_pulse_at data k) \<and>
    drop (4 * length data + 1) o2 = drop (4 * length data + 1) o'"
proof -
  let ?one = "bit (data ! (j div 8)) (7 - j mod 8)" and ?i = "j + 1"
  define us where "us = (if even ?i then if ?one then tx_tv1 True else tx_tv2 True
             else if ?one then tx_tv2 False else tx_tv1 False)"
  have m: "msb_first data ! j = (data ! (j div 8), 7 - j mod 8)" using msb_first_nth j(1) by blast
  have i: "?i div 2 < length o'" "?i div 2 < 4 * length data + 1" using j l by linarith+
  have "vpw_put_bit (o', ?i) (msb_first data ! j) = Some (with_pulse o' ?i us, ?i + 1)"
    unfolding m vpw_put_bit_def us_def using i(1) by (simp add: put_pulse_Some)
  moreover have "Some (sym_pulse (with_pulse o' ?i us) k) = j1850_vpw_pulse_at data k" if "k \<le> Suc j" for k
  proof (cases "k = ?i")
    case True
    moreover have "data \<noteq> []" using j(1) by auto
    ultimately show ?thesis using j unfolding with_pulse_sym [OF i(1)]
      by (simp add: us_def j1850_vpw_pulse_at_def J1850_VPW_PULSE_COUNT_def Let_def)
  next
    case False
    then show ?thesis using that before unfolding with_pulse_sym [OF i(1)] by simp
  qed
  moreover have "drop (4 * length data + 1) (with_pulse o' ?i us) = drop (4 * length data + 1) o'"
    by (rule with_pulse_drop [OF i(2)])
  ultimately show ?thesis by auto
qed

lemma vpw_encode_pulses:
  assumes len: "0 < length data" "length data \<le> J1850_VPW_MAX_FRAME" "4 * length data + 1 \<le> length out"
  shows "\<exists>out'. j1850_vpw_encode (Some data) (Some out) = Some (Some out', 4 * length data + 1) \<and>
    length out' = length out \<and>
    (\<forall>k < J1850_VPW_PULSE_COUNT (length data). Some (sym_pulse out' k) = j1850_vpw_pulse_at data k) \<and>
    drop (4 * length data + 1) out' = drop (4 * length data + 1) out"
proof -
  let ?n = "length data"
  define I where "I = (\<lambda>j s. snd s = j + 1 \<and> length (fst s) = length out \<and>
    (\<forall>k \<le> j. Some (sym_pulse (fst s) k) = j1850_vpw_pulse_at data k) \<and>
    drop (4 * ?n + 1) (fst s) = drop (4 * ?n + 1) out)"
  define o1 where "o1 = with_pulse out 0 (tx_tv3 True)"
  have p0: "0 div 2 < length out" "0 div 2 < 4 * ?n + 1" using len(3) by linarith+
  have o1: "put_pulse out 0 (tx_tv3 True) = Some o1" unfolding o1_def using p0(1) by (rule put_pulse_Some)
  have "drop (4 * ?n + 1) o1 = drop (4 * ?n + 1) out" "sym_pulse o1 0 = (True, tx_tv3 True)"
    unfolding o1_def with_pulse_drop [OF p0(2)] with_pulse_sym [OF p0(1)] by simp_all
  then have I0: "I 0 (o1, 1)" using len
    by (simp add: I_def j1850_vpw_pulse_at_def J1850_VPW_PULSE_COUNT_def) (simp add: o1_def)
  have "\<exists>s'. vpw_put_bit s (msb_first data ! j) = Some s' \<and> I (Suc j) s'"
    if j: "j < length (msb_first data)" and Ij: "I j s" for j s
  proof -
    obtain o' where s: "s = (o', j + 1)" using Ij by (cases s) (simp add: I_def)
    have "j < 8 * ?n" using j msb_first_nth [of data] by simp
    moreover have "4 * ?n + 1 \<le> length o'" "\<And>k. k \<le> j \<Longrightarrow> Some (sym_pulse o' k) = j1850_vpw_pulse_at data k"
      using Ij len(3) by (auto simp: I_def s)
    ultimately obtain o2 where "vpw_put_bit (o', j + 1) (msb_first data ! j) = Some (o2, j + 2)"
      "length o2 = length o'" "\<forall>k \<le> Suc j. Some (sym_pulse o2 k) = j1850_vpw_pulse_at data k"
      "drop (4 * ?n + 1) o2 = drop (4 * ?n + 1) o'"
      using vpw_put_bit_at [of j data o'] len(2) by blast
    with Ij show ?thesis by (simp add: I_def s)
  qed
  from fold_opt_inv [of I "(o1, 1)" "msb_first data" vpw_put_bit, OF I0 this] obtain s3 where
    s3: "fold_opt vpw_put_bit (o1, 1) (msb_first data) = Some s3" "I (8 * ?n) s3"
    using msb_first_nth [of data] by auto
  then obtain o3 where o3: "fold_opt vpw_put_bit (o1, 1) (msb_first data) = Some (o3, 8 * ?n + 1)"
    "I (8 * ?n) (o3, 8 * ?n + 1)"
    by (cases s3) (simp add: I_def)
  let ?i = "8 * ?n + 1"
  have l3: "length o3 = length out" "drop (4 * ?n + 1) o3 = drop (4 * ?n + 1) out"
    "\<And>k. k \<le> 8 * ?n \<Longrightarrow> Some (sym_pulse o3 k) = j1850_vpw_pulse_at data k" using o3(2) by (auto simp: I_def)
  define o4 where "o4 = with_pulse o3 ?i (tx_tv3 False)"
  have i: "?i div 2 < length o3" "?i div 2 < 4 * ?n + 1" using len(3) l3(1) by linarith+
  have o4: "put_pulse o3 ?i (tx_tv3 False) = Some o4" unfolding o4_def using i(1) by (rule put_pulse_Some)
  have "j1850_vpw_encode (Some data) (Some out) = Some (Some o4, 4 * ?n + 1)"
    using len o1 o3(1) o4 by (auto simp: j1850_vpw_encode_def Let_def)
  moreover have "Some (sym_pulse o4 k) = j1850_vpw_pulse_at data k" if "k < J1850_VPW_PULSE_COUNT ?n" for k
  proof (cases "k = ?i")
    case True
    then show ?thesis using len unfolding o4_def with_pulse_sym [OF i(1)]
      by (simp add: j1850_vpw_pulse_at_def J1850_VPW_PULSE_COUNT_def Let_def)
  next
    case False
    then show ?thesis using that l3(3) unfolding o4_def with_pulse_sym [OF i(1)]
      by (simp add: J1850_VPW_PULSE_COUNT_def)
  qed
  moreover have "drop (4 * ?n + 1) o4 = drop (4 * ?n + 1) out" "length o4 = length out"
    using l3 unfolding o4_def with_pulse_drop [OF i(2)] by simp_all
  ultimately show ?thesis by blast
qed


section \<open>What the decoder makes of it\<close>

text \<open>A captured pulse stands for an emitted one: same level, width in the same window of Table 5.\<close>

definition heard :: "pulse \<Rightarrow> pulse \<Rightarrow> bool" where
  "heard p q \<longleftrightarrow> fst p = fst q \<and> vpw_classify (snd p) = vpw_classify (snd q)"

definition vpw_pulses :: "byte list \<Rightarrow> pulse list" where
  "vpw_pulses data = map (\<lambda>k. the (j1850_vpw_pulse_at data k)) [0..<J1850_VPW_PULSE_COUNT (length data)]"

text \<open>The pulse of bit \<open>b\<close> of a byte, bytes starting on a passive pulse.\<close>

definition bit_pulse :: "byte \<Rightarrow> nat \<Rightarrow> pulse" where
  "bit_pulse d b =
     (if even b then (True, if bit d b then tx_tv1 True else tx_tv2 True)
      else (False, if bit d b then tx_tv2 False else tx_tv1 False))"

definition byte_pulses :: "byte \<Rightarrow> pulse list" where
  "byte_pulses d = map (bit_pulse d) [7, 6, 5, 4, 3, 2, 1, 0]"

lemma byte_pulses_nth: "i < 8 \<Longrightarrow> byte_pulses d ! i = bit_pulse d (7 - i)"
proof -
  have "[7, 6, 5, 4, 3, 2, 1, 0] = rev [0..<8]" by (simp add: upt_rec)
  then show "i < 8 \<Longrightarrow> byte_pulses d ! i = bit_pulse d (7 - i)"
    by (simp add: byte_pulses_def rev_nth del: upt_rec_numeral)
qed

lemma bytes_pulses_nth:
  "length (concat (map byte_pulses data)) = 8 * length data \<and>
   (\<forall>j < 8 * length data. concat (map byte_pulses data) ! j = bit_pulse (data ! (j div 8)) (7 - j mod 8))"
proof (induction data)
  case (Cons d data)
  have l: "length (byte_pulses d) = 8" by (simp add: byte_pulses_def)
  have "concat (map byte_pulses (d # data)) ! j = bit_pulse ((d # data) ! (j div 8)) (7 - j mod 8)"
    if j: "j < 8 * length (d # data)" for j
  proof (cases "j < 8")
    case True
    then show ?thesis by (simp add: l nth_append byte_pulses_nth)
  next
    case False
    then obtain i where i: "j = i + 8" by (metis add.commute le_Suc_ex not_less)
    then have "i < 8 * length data" using j by simp
    moreover have "(i + 8) div 8 = Suc (i div 8)" "(i + 8) mod 8 = i mod 8" by simp_all
    ultimately show ?thesis using Cons unfolding i by (simp add: l nth_append)
  qed
  with Cons l show ?case by simp
qed simp

lemma vpw_pulses_eq:
  assumes "0 < length data" "length data \<le> J1850_VPW_MAX_FRAME"
  shows "vpw_pulses data = (True, tx_tv3 True) # concat (map byte_pulses data) @ [(False, tx_tv3 False)]"
    (is "_ = ?r")
proof (rule nth_equalityI)
  show l: "length (vpw_pulses data) = length ?r"
    using bytes_pulses_nth [of data] by (simp add: vpw_pulses_def J1850_VPW_PULSE_COUNT_def)
  fix k assume "k < length (vpw_pulses data)"
  then have k: "k < 2 + 8 * length data" by (simp add: vpw_pulses_def J1850_VPW_PULSE_COUNT_def)
  then have p: "vpw_pulses data ! k = the (j1850_vpw_pulse_at data k)"
    by (simp add: vpw_pulses_def J1850_VPW_PULSE_COUNT_def del: upt_Suc)
  consider "k = 0" | "k = 8 * length data + 1" | j where "k = Suc j" "j < 8 * length data"
    using k by (cases k) force+
  then show "vpw_pulses data ! k = ?r ! k"
  proof cases
    case 1
    then show ?thesis using p assms by (simp add: j1850_vpw_pulse_at_def J1850_VPW_PULSE_COUNT_def)
  next
    case 2
    then show ?thesis using p assms bytes_pulses_nth [of data]
      by (simp add: j1850_vpw_pulse_at_def J1850_VPW_PULSE_COUNT_def nth_append Let_def)
  next
    case 3
    have "even (7 - j mod 8) \<longleftrightarrow> odd j"
    proof -
      have "j mod 8 \<le> 7" by (simp add: less_Suc_eq_le [symmetric])
      then have "even (7 - j mod 8) \<longleftrightarrow> odd (j mod 8)" by auto
      then show ?thesis by (simp add: dvd_mod_iff)
    qed
    moreover have "data \<noteq> []" using assms by auto
    ultimately show ?thesis using p assms 3 bytes_pulses_nth [of data]
      by (auto simp: j1850_vpw_pulse_at_def J1850_VPW_PULSE_COUNT_def nth_append Let_def bit_pulse_def)
  qed
qed

lemma classify_tx [simp]:
  "vpw_classify (tx_tv1 a) = W_SHORT" "vpw_classify (tx_tv2 a) = W_LONG" "vpw_classify (tx_tv3 a) = W_TV3"
  by (simp_all add: vpw_classify_def tx_tv1_def tx_tv2_def tx_tv3_def J1850_VPW_TV1_NOM_def
      J1850_VPW_TV2_NOM_def J1850_VPW_TV3_NOM_def J1850_VPW_TX_TRIM_US_def J1850_VPW_TV1_RX_MIN_def
      J1850_VPW_TV1_RX_MAX_def J1850_VPW_TV2_RX_MAX_def J1850_VPW_TV3_RX_MAX_def)

text \<open>One more bit of the byte at \<open>len\<close>.\<close>

lemma vpw_push_bit_eq:
  assumes "n < 8" "len < J1850_VPW_MAX_FRAME" "length buf = J1850_VPW_MAX_FRAME"
  shows "vpw_push buf len n one =
    (let buf' = buf[len := (if n = 0 then 0 else buf ! len) OR (if one then push_bit (7 - n) 1 else 0)]
     in Some (if n = 7 then (buf', len + 1, 0, True) else (buf', len, n + 1, True)))"
  using assms by (auto simp: vpw_push_def Let_def)

definition loop_at :: "j1850_vpw_rx \<Rightarrow> nat \<Rightarrow> bool \<Rightarrow> vpw_loop_state" where
  "loop_at out n e = \<lparr>vl_out = out, vl_nbits = n, vl_expect = e, vl_in_ifr = False, vl_need_nb = False\<rparr>"

lemma vpw_step_bit:
  assumes "heard p (bit_pulse d b)" "n < 8" "b = 7 - n" "vpw_len out < J1850_VPW_MAX_FRAME"
    "length (vpw_data out) = J1850_VPW_MAX_FRAME"
  shows "vpw_step (loop_at out n (even b)) p =
    Some (VNext (loop_at
      (out\<lparr>vpw_data := (vpw_data out)[vpw_len out :=
              (if n = 0 then 0 else vpw_data out ! vpw_len out) OR (if bit d b then push_bit b 1 else 0)],
           vpw_len := (if n = 7 then vpw_len out + 1 else vpw_len out)\<rparr>)
      (if n = 7 then 0 else Suc n) (odd b)))"
proof -
  have v: "vpw_bit_value (even b) (vpw_classify (snd p)) = bit d b" "fst p = even b"
    "vpw_classify (snd p) = W_SHORT \<or> vpw_classify (snd p) = W_LONG"
    using assms(1) by (auto simp: heard_def bit_pulse_def vpw_bit_value_def split: if_splits)
  obtain level dur where p: "p = (level, dur)" by fastforce
  have w: "vpw_classify dur \<noteq> W_INVALID" "vpw_classify dur \<noteq> W_TV4" "vpw_classify dur \<noteq> W_TV3"
    using v(3) by (auto simp: p)
  have l: "level = even b" "vpw_bit_value (even b) (vpw_classify dur) = bit d b" using v by (simp_all add: p)
  have q: "vpw_push (vpw_data out) (vpw_len out) n (bit d b) =
    (let buf' = (vpw_data out)[vpw_len out :=
       (if n = 0 then 0 else vpw_data out ! vpw_len out) OR (if bit d b then push_bit b 1 else 0)]
     in Some (if n = 7 then (buf', vpw_len out + 1, 0, True) else (buf', vpw_len out, n + 1, True)))"
    using vpw_push_bit_eq [OF assms(2,4,5), of "bit d b"] by (simp add: assms(3))
  show ?thesis
    by (cases "n = 7")
      (use q in \<open>simp_all add: vpw_step_def p loop_at_def vpw_push_bit_def w l Let_def split del: if_split\<close>)
qed

lemma byte_of_bits:
  "0 OR (if bit d 7 then push_bit 7 1 else 0) OR (if bit d 6 then push_bit 6 1 else 0)
     OR (if bit d 5 then push_bit 5 1 else 0) OR (if bit d 4 then push_bit 4 1 else 0)
     OR (if bit d 3 then push_bit 3 1 else 0) OR (if bit d 2 then push_bit 2 1 else 0)
     OR (if bit d 1 then push_bit 1 1 else 0) OR (if bit d 0 then push_bit 0 1 else 0) = (d :: byte)"
  by (rule byte_cases [of _ d]) code_simp

lemma vpw_loop_byte:
  assumes "list_all2 heard ps (byte_pulses d)" "vpw_len out < J1850_VPW_MAX_FRAME"
    "length (vpw_data out) = J1850_VPW_MAX_FRAME"
  shows "vpw_loop (loop_at out 0 False) (ps @ qs) =
    vpw_loop (loop_at (out\<lparr>vpw_data := (vpw_data out)[vpw_len out := d], vpw_len := vpw_len out + 1\<rparr>) 0 False) qs"
proof -
  obtain p7 p6 p5 p4 p3 p2 p1 p0 where ps: "ps = [p7, p6, p5, p4, p3, p2, p1, p0]"
    and h: "heard p7 (bit_pulse d 7)" "heard p6 (bit_pulse d 6)" "heard p5 (bit_pulse d 5)"
      "heard p4 (bit_pulse d 4)" "heard p3 (bit_pulse d 3)" "heard p2 (bit_pulse d 2)"
      "heard p1 (bit_pulse d 1)" "heard p0 (bit_pulse d 0)"
    using assms(1) by (auto simp: byte_pulses_def list_all2_Cons2)
  note st = vpw_step_bit [OF h(1), of "0"]
    vpw_step_bit [OF h(2), of "Suc 0"]
    vpw_step_bit [OF h(3), of "Suc (Suc 0)"]
    vpw_step_bit [OF h(4), of "Suc (Suc (Suc 0))"]
    vpw_step_bit [OF h(5), of "Suc (Suc (Suc (Suc 0)))"]
    vpw_step_bit [OF h(6), of "Suc (Suc (Suc (Suc (Suc 0))))"]
    vpw_step_bit [OF h(7), of "Suc (Suc (Suc (Suc (Suc (Suc 0)))))"]
    vpw_step_bit [OF h(8), of "Suc (Suc (Suc (Suc (Suc (Suc (Suc 0))))))"]
  show ?thesis
    using assms(2,3)
    by (simp add: ps st [simplified] del: push_bit_of_1 split del: if_split)
      (simp add: byte_of_bits [simplified, of d] or.assoc del: push_bit_of_1)
qed


lemma vpw_loop_bytes:
  assumes "list_all2 heard ps (concat (map byte_pulses ds))"
    "vpw_len out + length ds \<le> J1850_VPW_MAX_FRAME" "length (vpw_data out) = J1850_VPW_MAX_FRAME"
  shows "vpw_loop (loop_at out 0 False) (ps @ qs) =
    vpw_loop (loop_at (out\<lparr>vpw_data := take (vpw_len out) (vpw_data out) @ ds @
        drop (vpw_len out + length ds) (vpw_data out), vpw_len := vpw_len out + length ds\<rparr>) 0 False) qs"
  using assms
proof (induction ds arbitrary: ps out)
  case Nil
  then show ?case by simp
next
  case (Cons d ds)
  then obtain p1 p2 where p: "ps = p1 @ p2" "list_all2 heard p1 (byte_pulses d)"
    "list_all2 heard p2 (concat (map byte_pulses ds))"
    by (auto simp: list_all2_append2)
  let ?o = "out\<lparr>vpw_data := (vpw_data out)[vpw_len out := d], vpw_len := vpw_len out + 1\<rparr>"
  have l: "vpw_len out < length (vpw_data out)" using Cons.prems by simp
  have "vpw_loop (loop_at out 0 False) (ps @ qs) = vpw_loop (loop_at ?o 0 False) (p2 @ qs)"
    using vpw_loop_byte [OF p(2), of out "p2 @ qs"] Cons.prems by (simp add: p(1))
  also have "\<dots> = vpw_loop (loop_at (?o\<lparr>vpw_data := take (vpw_len ?o) (vpw_data ?o) @ ds @
        drop (vpw_len ?o + length ds) (vpw_data ?o), vpw_len := vpw_len ?o + length ds\<rparr>) 0 False) qs"
    by (rule Cons.IH [OF p(3)]) (use Cons.prems in simp_all)
  also have "take (vpw_len ?o) (vpw_data ?o) @ ds @ drop (vpw_len ?o + length ds) (vpw_data ?o) =
      take (vpw_len out) (vpw_data out) @ (d # ds) @ drop (vpw_len out + length (d # ds)) (vpw_data out)"
    using l by (simp add: take_Suc_conv_app_nth)
  finally show ?case by simp
qed

text \<open>How a capture of a frame may go on after its last bit: not at all, or passive until EOD or longer.\<close>

definition frame_tail :: "pulse list \<Rightarrow> bool" where
  "frame_tail ps \<longleftrightarrow> ps = [] \<or> (\<exists>us. ps = [(False, us)] \<and> vpw_classify us \<in> {W_TV3, W_TV4})"

lemma vpw_decode_frame:
  assumes frame: "j1850_crc_check (Some f)" "length f \<le> J1850_VPW_MAX_FRAME"
    and train: "pulse_train syms = idle @ sof # ps @ tail" "list_all (\<lambda>p. \<not> fst p) idle"
    and sof: "heard sof (True, tx_tv3 True)"
    and ps: "list_all2 heard ps (concat (map byte_pulses f))" and tail: "frame_tail tail"
  shows "\<exists>rx. j1850_vpw_decode (Some syms) = Some rx \<and> vpw_status rx = J1850_VPW_RX_OK \<and>
    vpw_len rx = length f \<and> take (vpw_len rx) (vpw_data rx) = f \<and> vpw_ifr_len rx = 0"
proof -
  let ?z = "vpw_rx_zero\<lparr>vpw_status := J1850_VPW_RX_OK\<rparr>"
  let ?o = "?z\<lparr>vpw_data := f @ replicate (12 - length f) 0, vpw_len := length f\<rparr>"
  have two: "2 \<le> length f" using frame(1) by (rule crc_check_length)
  have m: "J1850_VPW_MAX_FRAME = 12" by (simp add: J1850_VPW_MAX_FRAME_def J1850_MAX_FRAME_def)
  obtain us where sof: "sof = (True, us)" "vpw_classify us = W_TV3"
    using sof by (cases sof) (simp add: heard_def)
  have "dropWhile (\<lambda>p. \<not> fst p) (pulse_train syms) = sof # ps @ tail"
    using train by (induction idle arbitrary: syms) (auto simp: sof list_all_iff dropWhile_append)
  then have "j1850_vpw_decode (Some syms) = vpw_loop (loop_at ?z 0 False) (ps @ tail)"
    by (simp add: j1850_vpw_decode_def sof loop_at_def)
  also have "\<dots> = vpw_loop (loop_at ?o 0 False) tail"
    using vpw_loop_bytes [OF ps, of ?z tail] frame(2) by (simp add: vpw_rx_zero_def m)
  finally have d: "j1850_vpw_decode (Some syms) = vpw_loop (loop_at ?o 0 False) tail" .
  have fin: "vpw_finish (loop_at (?o\<lparr>vpw_eod := e\<rparr>) 0 False\<lparr>vl_expect := x, vl_in_ifr := i, vl_need_nb := n\<rparr>)
      = ?o\<lparr>vpw_eod := e\<rparr>" for e x i n
    using two frame(1) by (simp add: vpw_finish_def loop_at_def Let_def)
  from tail consider "tail = []" | us where "tail = [(False, us)]" "vpw_classify us = W_TV3"
    | us where "tail = [(False, us)]" "vpw_classify us = W_TV4" by (auto simp: frame_tail_def)
  then show ?thesis
  proof cases
    case 1
    then show ?thesis using fin [of False False False False]
      by (simp add: d loop_at_def vpw_rx_zero_def)
  next
    case 2
    then show ?thesis using fin [of True True True True]
      by (simp add: d loop_at_def vpw_rx_zero_def vpw_step_def)
  next
    case 3
    then show ?thesis using fin [of False False True False]
      by (simp add: d loop_at_def vpw_rx_zero_def vpw_step_def)
  qed
qed

lemma pulse_at_nonzero: "j1850_vpw_pulse_at data k = Some p \<Longrightarrow> snd p \<noteq> 0"
  by (auto simp: j1850_vpw_pulse_at_def Let_def tx_tv1_def tx_tv2_def tx_tv3_def J1850_VPW_TV1_NOM_def
      J1850_VPW_TV2_NOM_def J1850_VPW_TV3_NOM_def J1850_VPW_TX_TRIM_US_def split: if_splits)

lemma pulse_train_encoded:
  assumes "\<And>k. k < J1850_VPW_PULSE_COUNT (length data) \<Longrightarrow> Some (sym_pulse out k) = j1850_vpw_pulse_at data k"
    "4 * length data + 1 \<le> length out"
  shows "pulse_train (take (4 * length data + 1) out) = vpw_pulses data"
proof -
  let ?n = "4 * length data + 1"
  have c: "J1850_VPW_PULSE_COUNT (length data) = 2 * ?n" by (simp add: J1850_VPW_PULSE_COUNT_def)
  have "sym_pulse (take ?n out) k = the (j1850_vpw_pulse_at data k)" if "k < 2 * ?n" for k
  proof -
    have "sym_pulse (take ?n out) k = sym_pulse out k" using that by (simp add: sym_pulse_def)
    then show ?thesis using assms(1) that unfolding c by (metis option.sel)
  qed
  then have "map (sym_pulse (take ?n out)) [0..<2 * length (take ?n out)] = vpw_pulses data"
    unfolding vpw_pulses_def c using assms(2) by (simp add: min_absorb2 del: upt_Suc)
  moreover have "snd p \<noteq> 0" if "p \<in> set (vpw_pulses data)" for p
  proof -
    from that obtain k where k: "k < J1850_VPW_PULSE_COUNT (length data)" "p = the (j1850_vpw_pulse_at data k)"
      unfolding vpw_pulses_def by auto
    then have "j1850_vpw_pulse_at data k = Some p" using assms(1) [OF k(1)] by (metis option.sel)
    then show ?thesis by (rule pulse_at_nonzero)
  qed
  ultimately show ?thesis
    unfolding pulse_train_def sym_pulses by (simp add: takeWhile_eq_all_conv)
qed

text \<open>C25: What the encoder lays out, the decoder reads back: for every frame of up to 12 bytes with
  a valid check byte, the encoder fills 4 symbols per byte plus one and no more of the array, and
  the decoder returns that frame, status OK and no in-frame response, from these symbols.\<close>

theorem vpw_roundtrip:
  assumes "j1850_crc_check (Some f)" "length f \<le> J1850_VPW_MAX_FRAME" "4 * length f + 1 \<le> length out"
  shows "\<exists>out' rx. j1850_vpw_encode (Some f) (Some out) = Some (Some out', 4 * length f + 1) \<and>
    length out' = length out \<and> drop (4 * length f + 1) out' = drop (4 * length f + 1) out \<and>
    j1850_vpw_decode (Some (take (4 * length f + 1) out')) = Some rx \<and>
    vpw_status rx = J1850_VPW_RX_OK \<and> take (vpw_len rx) (vpw_data rx) = f \<and> vpw_ifr_len rx = 0"
proof -
  have l: "0 < length f" using crc_check_length [OF assms(1)] by linarith
  obtain out' where o: "j1850_vpw_encode (Some f) (Some out) = Some (Some out', 4 * length f + 1)"
    "length out' = length out" "drop (4 * length f + 1) out' = drop (4 * length f + 1) out"
    "\<forall>k < J1850_VPW_PULSE_COUNT (length f). Some (sym_pulse out' k) = j1850_vpw_pulse_at f k"
    using vpw_encode_pulses [OF l assms(2,3)] by blast
  have "pulse_train (take (4 * length f + 1) out') = [] @ (True, tx_tv3 True) #
      concat (map byte_pulses f) @ [(False, tx_tv3 False)]"
    using pulse_train_encoded [of f out'] o assms(3) vpw_pulses_eq [OF l assms(2)] by simp
  then have "\<exists>rx. j1850_vpw_decode (Some (take (4 * length f + 1) out')) = Some rx \<and>
      vpw_status rx = J1850_VPW_RX_OK \<and> vpw_len rx = length f \<and> take (vpw_len rx) (vpw_data rx) = f \<and> vpw_ifr_len rx = 0"
    by (rule vpw_decode_frame [OF assms(1,2)])
      (auto simp: heard_def frame_tail_def intro: list_all2_refl)
  with o show ?thesis by blast
qed

definition symbol_zero :: rmt_symbol where
  "symbol_zero = \<lparr>level0 = False, duration0 = 0, level1 = False, duration1 = 0\<rparr>"

lemma vpw_roundtrip_witness:
  "\<exists>out' rx. j1850_vpw_encode (Some [0x68, 0x6A, 0xF1, 0x01, 0x00, 0x17]) (Some (replicate 30 symbol_zero)) =
     Some (Some out', 25) \<and> j1850_vpw_decode (Some (take 25 out')) = Some rx \<and>
     take (vpw_len rx) (vpw_data rx) = [0x68, 0x6A, 0xF1, 0x01, 0x00, 0x17]"
proof -
  have "j1850_crc_check (Some [0x68, 0x6A, 0xF1, 0x01, 0x00, 0x17])" by code_simp
  from vpw_roundtrip [OF this, of "replicate 30 symbol_zero"] show ?thesis
    by (fastforce simp: J1850_VPW_MAX_FRAME_def J1850_MAX_FRAME_def)
qed

text \<open>
  The receive windows of SAE J1850 Table 5, in microseconds and as numbers: above 34 up to 96 for
  a short pulse, above 96 up to 163 for a long one, above 163 up to 239 for the start of a frame.
  A bit is short when it is one on an active pulse or zero on a passive one; a byte is sent most
  significant bit first and starts on a passive pulse.
\<close>

definition bit_window :: "byte \<times> nat \<Rightarrow> bool \<times> nat \<times> nat" where
  "bit_window db = (case db of (d, b) \<Rightarrow>
     if even b = bit d b then (even b, 35, 96) else (even b, 97, 163))"

definition table5 :: "byte list \<Rightarrow> (bool \<times> nat \<times> nat) list" where
  "table5 f = (True, 164, 239) # map bit_window (concat (map (\<lambda>d. map (Pair d) [7, 6, 5, 4, 3, 2, 1, 0]) f))"

definition within :: "pulse \<Rightarrow> bool \<times> nat \<times> nat \<Rightarrow> bool" where
  "within p w \<longleftrightarrow> fst p = fst w \<and> fst (snd w) \<le> snd p \<and> snd p \<le> snd (snd w)"

lemma within_heard: "within p (bit_window (d, b)) \<Longrightarrow> heard p (bit_pulse d b)"
  unfolding within_def bit_window_def heard_def bit_pulse_def
  by (cases "even b"; cases "bit d b")
    (auto simp: vpw_classify_def tx_tv1_def tx_tv2_def J1850_VPW_TV1_NOM_def
      J1850_VPW_TV2_NOM_def J1850_VPW_TX_TRIM_US_def J1850_VPW_TV1_RX_MIN_def
      J1850_VPW_TV1_RX_MAX_def J1850_VPW_TV2_RX_MAX_def J1850_VPW_TV3_RX_MAX_def)

lemma within_sof: "within p (True, 164, 239) \<Longrightarrow> heard p (True, tx_tv3 True)"
  by (auto simp: within_def heard_def vpw_classify_def tx_tv3_def J1850_VPW_TV3_NOM_def
      J1850_VPW_TX_TRIM_US_def J1850_VPW_TV1_RX_MIN_def J1850_VPW_TV1_RX_MAX_def
      J1850_VPW_TV2_RX_MAX_def J1850_VPW_TV3_RX_MAX_def)

lemma long_pause_tail: "164 \<le> us \<Longrightarrow> frame_tail [(False, us)]"
  by (auto simp: frame_tail_def vpw_classify_def J1850_VPW_TV1_RX_MIN_def J1850_VPW_TV1_RX_MAX_def
      J1850_VPW_TV2_RX_MAX_def J1850_VPW_TV3_RX_MAX_def)

text \<open>Reception tolerates every distortion Table 5 allows: a capture whose pulses have the
  levels of a valid frame and any widths inside the receive windows of the standard (35 to 96, 97
  to 163 and, for the start, 164 to 239 microseconds), after any amount of idle and closed by
  nothing or by a passive pulse of at least 164 microseconds, decodes to that frame.\<close>

theorem vpw_decode_tolerant:
  assumes "j1850_crc_check (Some f)" "length f \<le> J1850_VPW_MAX_FRAME"
    "pulse_train syms = idle @ ps @ tail" "list_all (\<lambda>p. \<not> fst p) idle"
    "list_all2 within ps (table5 f)" "tail = [] \<or> tail = [(False, us)] \<and> 164 \<le> us"
  shows "\<exists>rx. j1850_vpw_decode (Some syms) = Some rx \<and> vpw_status rx = J1850_VPW_RX_OK \<and>
    take (vpw_len rx) (vpw_data rx) = f \<and> vpw_ifr_len rx = 0"
proof -
  let ?bits = "concat (map (\<lambda>d. map (Pair d) [7, 6, 5, 4, 3, 2, 1, 0]) f)"
  obtain sof qs where ps: "ps = sof # qs" "within sof (True, 164, 239)"
    "list_all2 within qs (map bit_window ?bits)"
    using assms(5) by (auto simp: table5_def list_all2_Cons2)
  have "list_all2 heard qs (map (\<lambda>(d, b). bit_pulse d b) ?bits)"
    using ps(3) unfolding list_all2_map2
    by (rule list_all2_mono) (auto dest: within_heard)
  moreover have "map (\<lambda>(d, b). bit_pulse d b) ?bits = concat (map byte_pulses f)"
    by (induction f) (simp_all add: byte_pulses_def)
  ultimately have "list_all2 heard qs (concat (map byte_pulses f))" by simp
  moreover have "frame_tail tail" using assms(6) long_pause_tail by (auto simp: frame_tail_def)
  ultimately show ?thesis
    using vpw_decode_frame [OF assms(1,2), of syms idle sof qs tail] assms(3,4) ps(1)
      within_sof [OF ps(2)] by auto
qed

lemma vpw_decode_tolerant_witness:
  "\<exists>rx. j1850_vpw_decode (Some (map (\<lambda>k. \<lparr>level0 = fst (vpw_pulses [0x48, 0xC0] ! (2 * k)),
        duration0 = snd (vpw_pulses [0x48, 0xC0] ! (2 * k)) + 30, level1 = False,
        duration1 = (if k = 8 then 0 else snd (vpw_pulses [0x48, 0xC0] ! (2 * k + 1)) - 29)\<rparr>) [0..<9]))
     = Some rx \<and> take (vpw_len rx) (vpw_data rx) = [0x48, 0xC0]"
proof -
  let ?s = "map (\<lambda>k. \<lparr>level0 = fst (vpw_pulses [0x48, 0xC0] ! (2 * k)),
        duration0 = snd (vpw_pulses [0x48, 0xC0] ! (2 * k)) + 30, level1 = False,
        duration1 = (if k = 8 then 0 else snd (vpw_pulses [0x48, 0xC0] ! (2 * k + 1)) - 29)\<rparr>) [0..<9]"
  have c: "j1850_crc_check (Some [0x48, 0xC0])" by code_simp
  have h: "list_all2 within (pulse_train ?s) (table5 [0x48, 0xC0])" by code_simp
  show ?thesis
    using vpw_decode_tolerant [OF c, of ?s "[]" "pulse_train ?s" "[]"] h
    by (auto simp: J1850_VPW_MAX_FRAME_def J1850_MAX_FRAME_def)
qed

section \<open>Every input\<close>

definition vpw_rx_wf :: "j1850_vpw_rx \<Rightarrow> bool" where
  "vpw_rx_wf rx \<longleftrightarrow> length (vpw_data rx) = J1850_VPW_MAX_FRAME \<and> length (vpw_ifr rx) = J1850_VPW_MAX_FRAME \<and>
     vpw_len rx \<le> J1850_VPW_MAX_FRAME \<and> vpw_ifr_len rx \<le> J1850_VPW_MAX_FRAME"

definition vl_wf :: "vpw_loop_state \<Rightarrow> bool" where
  "vl_wf s \<longleftrightarrow> vpw_rx_wf (vl_out s) \<and> vl_nbits s < 8 \<and>
     (vl_nbits s \<noteq> 0 \<longrightarrow> (if vl_in_ifr s then vpw_ifr_len (vl_out s) else vpw_len (vl_out s)) < J1850_VPW_MAX_FRAME)"

fun vpw_step_wf :: "vpw_step \<Rightarrow> bool" where
  "vpw_step_wf (VReturn st out) = (vpw_rx_wf out \<and> st \<noteq> J1850_VPW_RX_OK)"
| "vpw_step_wf (VEnded s) = vl_wf s"
| "vpw_step_wf (VNext s) = vl_wf s"

lemma vpw_push_safe:
  assumes "n < 8" "length buf = J1850_VPW_MAX_FRAME" "len \<le> J1850_VPW_MAX_FRAME"
    "n \<noteq> 0 \<Longrightarrow> len < J1850_VPW_MAX_FRAME"
  shows "\<exists>b l m ok. vpw_push buf len n one = Some (b, l, m, ok) \<and> length b = J1850_VPW_MAX_FRAME \<and>
    l \<le> J1850_VPW_MAX_FRAME \<and> m < 8 \<and> (m \<noteq> 0 \<longrightarrow> l < J1850_VPW_MAX_FRAME)"
proof (cases "n = 0 \<and> J1850_VPW_MAX_FRAME \<le> len")
  case True
  then show ?thesis using assms by (auto simp: vpw_push_def)
next
  case False
  then show ?thesis using vpw_push_bit_eq [of n len buf one] assms by (auto simp: Let_def)
qed

lemma vpw_step_safe: "vl_wf s \<Longrightarrow> \<exists>r. vpw_step s p = Some r \<and> vpw_step_wf r"
proof -
  assume wf: "vl_wf s"
  have data: "\<exists>b l m ok. vpw_push (vpw_data (vl_out s)) (vpw_len (vl_out s)) (vl_nbits s) one = Some (b, l, m, ok) \<and>
      length b = J1850_VPW_MAX_FRAME \<and> l \<le> J1850_VPW_MAX_FRAME \<and> m < 8 \<and> (m \<noteq> 0 \<longrightarrow> l < J1850_VPW_MAX_FRAME)"
    if "\<not> vl_in_ifr s" for one
    using wf that by (intro vpw_push_safe) (auto simp: vl_wf_def vpw_rx_wf_def)
  have ifr: "\<exists>b l m ok. vpw_push (vpw_ifr (vl_out s)) (vpw_ifr_len (vl_out s)) (vl_nbits s) one = Some (b, l, m, ok) \<and>
      length b = J1850_VPW_MAX_FRAME \<and> l \<le> J1850_VPW_MAX_FRAME \<and> m < 8 \<and> (m \<noteq> 0 \<longrightarrow> l < J1850_VPW_MAX_FRAME)"
    if "vl_in_ifr s" for one
    using wf that by (intro vpw_push_safe) (auto simp: vl_wf_def vpw_rx_wf_def)
  obtain level dur where p: "p = (level, dur)" by fastforce
  consider "level \<noteq> vl_expect s" | "level = vl_expect s" "vpw_classify dur \<in> {W_INVALID, W_TV4, W_TV3}"
    | "level = vl_expect s" "vpw_classify dur \<in> {W_SHORT, W_LONG}"
    by (cases "vpw_classify dur") auto
  then show ?thesis
  proof cases
    case 1
    then show ?thesis using wf by (simp add: vpw_step_def p vl_wf_def)
  next
    case 2
    then show ?thesis using wf by (auto simp: vpw_step_def p vl_wf_def vpw_rx_wf_def Let_def)
  next
    case 3
    then have w: "vpw_classify dur \<noteq> W_INVALID" "vpw_classify dur \<noteq> W_TV4" "vpw_classify dur \<noteq> W_TV3" by auto
    show ?thesis
    proof (cases "vl_need_nb s")
      case True
      then show ?thesis using wf 3(1) by (auto simp: vpw_step_def p vl_wf_def vpw_rx_wf_def w)
    next
      case False
      then show ?thesis
        using data [of "vpw_bit_value level (vpw_classify dur)"] ifr [of "vpw_bit_value level (vpw_classify dur)"] wf 3(1)
        by (cases "vl_in_ifr s") (auto simp: vpw_step_def p w vpw_push_bit_def vl_wf_def vpw_rx_wf_def Let_def)
    qed
  qed
qed

lemma vpw_finish_wf: "vl_wf s \<Longrightarrow> vpw_rx_wf (vpw_finish s) \<and>
    (vpw_status (vpw_finish s) = J1850_VPW_RX_OK \<longrightarrow>
       j1850_crc_check (Some (take (vpw_len (vpw_finish s)) (vpw_data (vpw_finish s)))))"
  by (auto simp: vpw_finish_def vl_wf_def vpw_rx_wf_def Let_def)

lemma vpw_loop_safe:
  "vl_wf s \<Longrightarrow> \<exists>rx. vpw_loop s ps = Some rx \<and> vpw_rx_wf rx \<and>
    (vpw_status rx = J1850_VPW_RX_OK \<longrightarrow> j1850_crc_check (Some (take (vpw_len rx) (vpw_data rx))))"
proof (induction ps arbitrary: s)
  case Nil
  then show ?case using vpw_finish_wf by simp
next
  case (Cons p ps)
  from vpw_step_safe [OF Cons.prems, of p] obtain r where r: "vpw_step s p = Some r" "vpw_step_wf r" by blast
  then show ?case using Cons.IH vpw_finish_wf
    by (cases r) (auto simp: vpw_rx_wf_def)
qed

text \<open>C26: The decoder may be run on whatever the peripheral hands over: for every symbol array it
  stays inside the two 12-byte fields, and it reports a good frame only with a valid check byte.\<close>

theorem vpw_decode_total:
  "\<exists>rx. j1850_vpw_decode syms = Some rx \<and> vpw_rx_wf rx \<and>
    (vpw_status rx = J1850_VPW_RX_OK \<longrightarrow> j1850_crc_check (Some (take (vpw_len rx) (vpw_data rx))))"
proof -
  have z: "vpw_rx_wf (vpw_rx_zero\<lparr>vpw_status := st\<rparr>)" "vpw_rx_wf (vpw_rx_zero\<lparr>vpw_status := st, vpw_nb := a, vpw_nb_long := b\<rparr>)" "vpw_rx_wf vpw_rx_zero" for st a b
    by (simp_all add: vpw_rx_wf_def vpw_rx_zero_def)
  have zs: "vpw_status vpw_rx_zero = J1850_VPW_RX_EMPTY" by (simp add: vpw_rx_zero_def)
  show ?thesis
    using vpw_loop_safe z zs
    by (auto simp: j1850_vpw_decode_def vl_wf_def
        split: option.split list.split vpw_width.split)
qed

lemma vpw_decode_total_witness:
  "\<exists>rx. j1850_vpw_decode (Some (replicate 40 symbol_zero)) = Some rx \<and> vpw_rx_wf rx"
  using vpw_decode_total [of "Some (replicate 40 symbol_zero)"] by blast

text \<open>A contention check never looks while this node may itself be driving: every offset lies
  after the head margin and before the tail margin of a passive pulse, the offsets ascend, there
  are at most two, and an active pulse has none.\<close>

lemma vpw_watch_offsets_safe:
  assumes "us < 65536"
  shows "(\<forall>t \<in> set (j1850_vpw_watch_offsets (level, us) head_us tail_us cap).
      \<not> level \<and> head_us \<le> t \<and> t + tail_us < us) \<and>
    sorted_wrt (<) (j1850_vpw_watch_offsets (level, us) head_us tail_us cap) \<and>
    length (j1850_vpw_watch_offsets (level, us) head_us tail_us cap) \<le> min cap 2"
  using assms by (auto simp: j1850_vpw_watch_offsets_def Let_def J1850_VPW_TV1_NOM_def)

end
