(* ===== verification/PwmCodec.thy ===== *)
theory PwmCodec
  imports VpwCodec
begin

text \<open>
The pulse width symbols of SAE J1850, \<open>main/j1850_pwm_codec.c\<close>: every bit is a cell of an
  active and a passive part, timed from rising edge to rising edge. Modelled are the encoder,
  the decoder of a capture with its in-frame response, the echo decoder, the streaming decoder
  that decides about an acknowledgement, and the acknowledgement rule. The symbol words, the
  walk over a capture and \<open>push_bit\<close> are those of \<open>VpwCodec\<close>, whose C text is the same.
  The lemmas: what each decoder does with one bit, one byte and a whole frame, invariants of the
  decoders over arbitrary input, and the streaming decoder as an instance of \<open>safe_machine\<close>.
\<close>

section \<open>Timing\<close>

definition J1850_PWM_TP1_NOM :: nat where "J1850_PWM_TP1_NOM = 7"
definition J1850_PWM_TP2_NOM :: nat where "J1850_PWM_TP2_NOM = 15"
definition J1850_PWM_TP3_NOM :: nat where "J1850_PWM_TP3_NOM = 24"
definition J1850_PWM_TP4_NOM :: nat where "J1850_PWM_TP4_NOM = 48"
definition J1850_PWM_TP7_NOM :: nat where "J1850_PWM_TP7_NOM = 31"
definition J1850_PWM_TP1_RX_MIN :: nat where "J1850_PWM_TP1_RX_MIN = 4"
definition J1850_PWM_TP2_RX_MAX :: nat where "J1850_PWM_TP2_RX_MAX = 18"
definition J1850_PWM_TP3_RX_MIN :: nat where "J1850_PWM_TP3_RX_MIN = 21"
definition J1850_PWM_TP3_RX_MAX :: nat where "J1850_PWM_TP3_RX_MAX = 27"
definition J1850_PWM_TP4_RX_MIN :: nat where "J1850_PWM_TP4_RX_MIN = 42"
definition J1850_PWM_TP4_RX_MAX :: nat where "J1850_PWM_TP4_RX_MAX = 54"
definition J1850_PWM_TP5_RX_MIN :: nat where "J1850_PWM_TP5_RX_MIN = 63"
definition J1850_PWM_TP7_RX_MIN :: nat where "J1850_PWM_TP7_RX_MIN = 27"
definition J1850_PWM_TP7_RX_MAX :: nat where "J1850_PWM_TP7_RX_MAX = 34"
definition J1850_PWM_TP8_RX_MIN :: nat where "J1850_PWM_TP8_RX_MIN = 35"
definition J1850_PWM_TP8_RX_MAX :: nat where "J1850_PWM_TP8_RX_MAX = 43"
definition J1850_PWM_TX_TRIM_US :: nat where "J1850_PWM_TX_TRIM_US = 0"
definition J1850_PWM_BIT_SPLIT :: nat where "J1850_PWM_BIT_SPLIT = (J1850_PWM_TP1_NOM + J1850_PWM_TP2_NOM) div 2"
definition J1850_PWM_TX_TP1 :: nat where "J1850_PWM_TX_TP1 = J1850_PWM_TP1_NOM - J1850_PWM_TX_TRIM_US"
definition J1850_PWM_TX_TP2 :: nat where "J1850_PWM_TX_TP2 = J1850_PWM_TP2_NOM - J1850_PWM_TX_TRIM_US"
definition J1850_PWM_TX_TP7 :: nat where "J1850_PWM_TX_TP7 = J1850_PWM_TP7_NOM - J1850_PWM_TX_TRIM_US"
definition J1850_PWM_MAX_FRAME :: nat where "J1850_PWM_MAX_FRAME = J1850_MAX_FRAME"

lemmas pwm_timing = J1850_PWM_TP1_NOM_def J1850_PWM_TP2_NOM_def J1850_PWM_TP3_NOM_def
  J1850_PWM_TP4_NOM_def J1850_PWM_TP7_NOM_def J1850_PWM_TP1_RX_MIN_def J1850_PWM_TP2_RX_MAX_def
  J1850_PWM_TP3_RX_MIN_def J1850_PWM_TP3_RX_MAX_def J1850_PWM_TP4_RX_MIN_def
  J1850_PWM_TP4_RX_MAX_def J1850_PWM_TP5_RX_MIN_def J1850_PWM_TP7_RX_MIN_def
  J1850_PWM_TP7_RX_MAX_def J1850_PWM_TP8_RX_MIN_def J1850_PWM_TP8_RX_MAX_def
  J1850_PWM_TX_TRIM_US_def J1850_PWM_BIT_SPLIT_def J1850_PWM_TX_TP1_def J1850_PWM_TX_TP2_def
  J1850_PWM_TX_TP7_def

section \<open>Encoding\<close>

definition pwm_cell :: "nat \<Rightarrow> nat \<Rightarrow> rmt_symbol" where
  "pwm_cell active_us cell_us =
     \<lparr>level0 = True, duration0 = active_us, level1 = False, duration1 = cell_us - active_us\<rparr>"

definition put_cell :: "rmt_symbol list \<times> nat \<Rightarrow> nat \<Rightarrow> nat \<Rightarrow> (rmt_symbol list \<times> nat) option" where
  "put_cell = (\<lambda>(out, n) active_us cell_us. do {
     out \<leftarrow> set_at out n (pwm_cell active_us cell_us);
     Some (out, n + 1)
   })"

definition pwm_put_bit :: "rmt_symbol list \<times> nat \<Rightarrow> byte \<times> nat \<Rightarrow> (rmt_symbol list \<times> nat) option" where
  "pwm_put_bit s = (\<lambda>(d, b).
     put_cell s (if bit d b then J1850_PWM_TX_TP1 else J1850_PWM_TX_TP2) J1850_PWM_TP3_NOM)"

definition j1850_pwm_encode ::
  "byte list option \<Rightarrow> bool \<Rightarrow> rmt_symbol list option \<Rightarrow> (rmt_symbol list option \<times> nat) option" where
  "j1850_pwm_encode data with_sof out =
     (case (data, out) of
        (Some data, Some out) \<Rightarrow>
          let need = length data * 8 + (if with_sof then 1 else 0) in
          if length data = 0 \<or> length data > J1850_PWM_MAX_FRAME \<or> length out < need
          then Some (Some out, 0)
          else do {
            s \<leftarrow> (if with_sof then put_cell (out, 0) J1850_PWM_TX_TP7 J1850_PWM_TP4_NOM
                  else Some (out, 0));
            (out, n) \<leftarrow> fold_opt pwm_put_bit s (msb_first data);
            Some (Some out, n)
          }
      | _ \<Rightarrow> Some (out, 0))"

section \<open>Decoding\<close>

datatype j1850_pwm_rx_status =
    J1850_PWM_RX_OK | J1850_PWM_RX_IFR_ONLY | J1850_PWM_RX_BREAK | J1850_PWM_RX_EMPTY
  | J1850_PWM_RX_NO_SOF | J1850_PWM_RX_BAD_SYMBOL | J1850_PWM_RX_BAD_TIMING
  | J1850_PWM_RX_FRAMING | J1850_PWM_RX_TOO_LONG | J1850_PWM_RX_SHORT | J1850_PWM_RX_BAD_CRC

definition j1850_pwm_rx_status_str :: "j1850_pwm_rx_status \<Rightarrow> string" where
  "j1850_pwm_rx_status_str st =
     (case st of
        J1850_PWM_RX_OK \<Rightarrow> ''ok'' | J1850_PWM_RX_IFR_ONLY \<Rightarrow> ''ifr''
      | J1850_PWM_RX_BREAK \<Rightarrow> ''break'' | J1850_PWM_RX_EMPTY \<Rightarrow> ''empty''
      | J1850_PWM_RX_NO_SOF \<Rightarrow> ''no-sof'' | J1850_PWM_RX_BAD_SYMBOL \<Rightarrow> ''bad-symbol''
      | J1850_PWM_RX_BAD_TIMING \<Rightarrow> ''bad-timing'' | J1850_PWM_RX_FRAMING \<Rightarrow> ''framing''
      | J1850_PWM_RX_TOO_LONG \<Rightarrow> ''too-long'' | J1850_PWM_RX_SHORT \<Rightarrow> ''short''
      | J1850_PWM_RX_BAD_CRC \<Rightarrow> ''bad-crc'')"

record j1850_pwm_rx =
  pwm_status :: j1850_pwm_rx_status
  pwm_data :: "byte list"
  pwm_len :: nat
  pwm_ifr :: "byte list"
  pwm_ifr_len :: nat
  ifr_one_min_us :: nat
  ifr_one_max_us :: nat
  ifr_zero_min_us :: nat
  ifr_zero_max_us :: nat
  pwm_eod :: bool
  eod_gap_us :: nat
  last_active_us :: nat

definition pwm_rx_zero :: j1850_pwm_rx where
  "pwm_rx_zero =
     \<lparr>pwm_status = J1850_PWM_RX_EMPTY, pwm_data = replicate J1850_PWM_MAX_FRAME 0, pwm_len = 0,
      pwm_ifr = replicate J1850_PWM_MAX_FRAME 0, pwm_ifr_len = 0, ifr_one_min_us = 0,
      ifr_one_max_us = 0, ifr_zero_min_us = 0, ifr_zero_max_us = 0, pwm_eod = False,
      eod_gap_us = 0, last_active_us = 0\<rparr>"

datatype active_sym = SYM_ONE | SYM_ZERO | SYM_SOF | SYM_BRK | SYM_INVALID

definition classify_active :: "nat \<Rightarrow> active_sym" where
  "classify_active us =
     (if us \<ge> J1850_PWM_TP1_RX_MIN \<and> us \<le> J1850_PWM_TP2_RX_MAX
      then if us < J1850_PWM_BIT_SPLIT then SYM_ONE else SYM_ZERO
      else if us \<ge> J1850_PWM_TP7_RX_MIN \<and> us \<le> J1850_PWM_TP7_RX_MAX then SYM_SOF
      else if us \<ge> J1850_PWM_TP8_RX_MIN \<and> us \<le> J1850_PWM_TP8_RX_MAX then SYM_BRK
      else SYM_INVALID)"

text \<open>\<open>push_bit\<close> is the text of its namesake in the VPW codec, with the same limit.\<close>

definition pwm_push_bit ::
  "j1850_pwm_rx \<Rightarrow> bool \<Rightarrow> bool \<Rightarrow> nat \<Rightarrow> (j1850_pwm_rx \<times> nat \<times> bool) option" where
  "pwm_push_bit out in_ifr one nbits =
     (if in_ifr then do {
        (b, l, n, ok) \<leftarrow> vpw_push (pwm_ifr out) (pwm_ifr_len out) nbits one;
        Some (out\<lparr>pwm_ifr := b, pwm_ifr_len := l\<rparr>, n, ok)
      } else do {
        (b, l, n, ok) \<leftarrow> vpw_push (pwm_data out) (pwm_len out) nbits one;
        Some (out\<lparr>pwm_data := b, pwm_len := l\<rparr>, n, ok)
      })"

text \<open>The statistics of the response's pulse widths.\<close>

definition pwm_ifr_widths :: "j1850_pwm_rx \<Rightarrow> active_sym \<Rightarrow> nat \<Rightarrow> j1850_pwm_rx" where
  "pwm_ifr_widths out s dur =
     (let mn = (\<lambda>m. if m = 0 \<or> dur < m then u16 dur else m); mx = (\<lambda>m. if dur > m then u16 dur else m)
      in if s = SYM_ONE
         then out\<lparr>ifr_one_min_us := mn (ifr_one_min_us out), ifr_one_max_us := mx (ifr_one_max_us out)\<rparr>
         else out\<lparr>ifr_zero_min_us := mn (ifr_zero_min_us out), ifr_zero_max_us := mx (ifr_zero_max_us out)\<rparr>)"

record pwm_loop_state =
  pl_out :: j1850_pwm_rx
  pl_prev_active :: nat
  pl_nbits :: nat
  pl_in_ifr :: bool
  pl_after_sof :: bool

datatype pwm_step = PReturn j1850_pwm_rx_status j1850_pwm_rx | PEnded pwm_loop_state | PNext pwm_loop_state

text \<open>The part of the loop's body that judges the gap before the edge.\<close>

definition pwm_gap :: "pwm_loop_state \<Rightarrow> nat \<Rightarrow> pwm_step" where
  "pwm_gap s edge_gap =
     (let out = pl_out s in
      if edge_gap \<ge> J1850_PWM_TP5_RX_MIN then PEnded s
      else if pl_after_sof s then
        if edge_gap < J1850_PWM_TP4_RX_MIN \<or> edge_gap > J1850_PWM_TP4_RX_MAX
        then PReturn J1850_PWM_RX_BAD_TIMING out
        else PNext (s\<lparr>pl_after_sof := False\<rparr>)
      else if edge_gap \<ge> J1850_PWM_TP4_RX_MIN then
        if pl_in_ifr s then PEnded s
        else if pl_nbits s \<noteq> 0 then PReturn J1850_PWM_RX_FRAMING out
        else PNext (s\<lparr>pl_in_ifr := True, pl_out := out\<lparr>pwm_eod := True, eod_gap_us := u16 edge_gap\<rparr>\<rparr>)
      else if edge_gap < J1850_PWM_TP3_RX_MIN \<or> edge_gap > J1850_PWM_TP3_RX_MAX
      then PReturn J1850_PWM_RX_BAD_TIMING out
      else PNext s)"

text \<open>The rest of the body, for the active pulse that follows.\<close>

definition pwm_active :: "pwm_loop_state \<Rightarrow> nat \<Rightarrow> pwm_step option" where
  "pwm_active s dur =
     (let sy = classify_active dur; out = pl_out s in
      if sy \<noteq> SYM_ONE \<and> sy \<noteq> SYM_ZERO
      then Some (PReturn (if sy = SYM_INVALID then J1850_PWM_RX_BAD_SYMBOL else J1850_PWM_RX_BAD_TIMING) out)
      else do {
        let out = (if pl_in_ifr s then pwm_ifr_widths out sy dur else out);
        (out, n, ok) \<leftarrow> pwm_push_bit out (pl_in_ifr s) (sy = SYM_ONE) (pl_nbits s);
        Some (if \<not> ok then PReturn J1850_PWM_RX_TOO_LONG out
              else PNext (s\<lparr>pl_out := out\<lparr>last_active_us := u16 dur\<rparr>, pl_nbits := n,
                            pl_prev_active := dur\<rparr>))
      })"

definition pwm_finish :: "pwm_loop_state \<Rightarrow> j1850_pwm_rx" where
  "pwm_finish s =
     (let out = pl_out s in
      if pl_nbits s \<noteq> 0 then out\<lparr>pwm_status := J1850_PWM_RX_FRAMING\<rparr>
      else if pwm_status out = J1850_PWM_RX_IFR_ONLY then
        if pwm_ifr_len out = 0 then out\<lparr>pwm_status := J1850_PWM_RX_EMPTY\<rparr> else out
      else if pwm_len out < 2 then out\<lparr>pwm_status := J1850_PWM_RX_SHORT\<rparr>
      else if \<not> j1850_crc_check (Some (take (pwm_len out) (pwm_data out)))
      then out\<lparr>pwm_status := J1850_PWM_RX_BAD_CRC\<rparr>
      else out)"

fun pwm_loop :: "pwm_loop_state \<Rightarrow> pulse list \<Rightarrow> j1850_pwm_rx option" where
  "pwm_loop s [] = Some (pwm_finish s)"
| "pwm_loop s [p] =
     Some (if fst p then (pl_out s)\<lparr>pwm_status := J1850_PWM_RX_BAD_SYMBOL\<rparr> else pwm_finish s)"
| "pwm_loop s (p # q # ps) =
     (if fst p then Some ((pl_out s)\<lparr>pwm_status := J1850_PWM_RX_BAD_SYMBOL\<rparr>)
      else case pwm_gap s (pl_prev_active s + snd p) of
        PReturn st out \<Rightarrow> Some (out\<lparr>pwm_status := st\<rparr>)
      | PEnded s \<Rightarrow> Some (pwm_finish s)
      | PNext s \<Rightarrow> do {
          r \<leftarrow> pwm_active s (snd q);
          (case r of
             PReturn st out \<Rightarrow> Some (out\<lparr>pwm_status := st\<rparr>)
           | PEnded s \<Rightarrow> Some (pwm_finish s)
           | PNext s \<Rightarrow> pwm_loop s ps)
        })"

declare pwm_loop.simps(3) [simp del]

definition j1850_pwm_decode :: "rmt_symbol list option \<Rightarrow> j1850_pwm_rx option" where
  "j1850_pwm_decode syms =
     (case syms of None \<Rightarrow> Some pwm_rx_zero
      | Some syms \<Rightarrow>
          (case dropWhile (\<lambda>p. \<not> fst p) (pulse_train syms) of
             [] \<Rightarrow> Some pwm_rx_zero
           | (level, dur) # ps \<Rightarrow>
               let out = pwm_rx_zero;
                   start = (\<lambda>out n ifr sof. pwm_loop
                     \<lparr>pl_out = out\<lparr>last_active_us := u16 dur\<rparr>, pl_prev_active = dur, pl_nbits = n,
                      pl_in_ifr = ifr, pl_after_sof = sof\<rparr> ps)
               in case classify_active dur of
                    SYM_SOF \<Rightarrow> start (out\<lparr>pwm_status := J1850_PWM_RX_OK\<rparr>) 0 False True
                  | SYM_BRK \<Rightarrow> Some (out\<lparr>pwm_status := J1850_PWM_RX_BREAK\<rparr>)
                  | SYM_INVALID \<Rightarrow> Some (out\<lparr>pwm_status := J1850_PWM_RX_NO_SOF\<rparr>)
                  | _ \<Rightarrow> do {
                      (out, n, ok) \<leftarrow> pwm_push_bit (out\<lparr>pwm_status := J1850_PWM_RX_IFR_ONLY\<rparr>) True
                        (classify_active dur = SYM_ONE) 0;
                      start out n True False
                    }))"

section \<open>The echo decoder\<close>

text \<open>\<open>(acc << 1) | bit\<close> in eight bits.\<close>

definition shift_in :: "byte \<Rightarrow> bool \<Rightarrow> byte" where
  "shift_in acc b = push_bit 1 acc OR (if b then 1 else 0)"

text \<open>The loop after the SOF: symbols left, \<open>acc\<close>, \<open>nbits\<close>, the bytes in \<open>out\<close>; \<open>None\<close> when they are too many.\<close>

fun quick_loop :: "rmt_symbol list \<Rightarrow> nat \<Rightarrow> byte \<Rightarrow> nat \<Rightarrow> byte list \<Rightarrow> (nat \<times> byte list) option" where
  "quick_loop [] cap acc nbits out = Some (nbits, out)"
| "quick_loop (s # syms) cap acc nbits out =
     (if duration0 s = 0 then Some (nbits, out)
      else
        let acc = shift_in acc (duration0 s < J1850_PWM_BIT_SPLIT);
            full = (nbits + 1 = 8)
        in if full \<and> length out \<ge> cap then None
           else
             let (out, nbits, acc) = (if full then (out @ [acc], 0, 0) else (out, nbits + 1, acc))
             in if duration0 s + duration1 s \<ge> J1850_PWM_TP4_RX_MIN then Some (nbits, out)
                else quick_loop syms cap acc nbits out)"

text \<open>The bytes written, the empty list standing for the result 0.\<close>

definition j1850_pwm_quick_decode :: "rmt_symbol list option \<Rightarrow> nat \<Rightarrow> byte list" where
  "j1850_pwm_quick_decode syms cap =
     (case syms of None \<Rightarrow> []
      | Some syms \<Rightarrow>
          if cap = 0 then []
          else case dropWhile (\<lambda>s. \<not> level0 s \<and> duration0 s \<noteq> 0) syms of
            [] \<Rightarrow> []
          | s # syms \<Rightarrow>
              if classify_active (duration0 s) \<noteq> SYM_SOF then []
              else case quick_loop syms cap 0 0 [] of
                None \<Rightarrow> []
              | Some (nbits, out) \<Rightarrow> if nbits \<noteq> 0 then [] else out)"

section \<open>The streaming decoder and the in-frame response\<close>

record j1850_pwm_stream =
  st_data :: "byte list"
  st_len :: nat
  st_bits :: nat
  st_byte :: byte
  st_crc :: byte
  st_valid :: bool
  st_first :: bool

definition j1850_pwm_stream_pulse ::
  "j1850_pwm_stream \<Rightarrow> nat \<Rightarrow> nat \<Rightarrow> (j1850_pwm_stream \<times> bool) option" where
  "j1850_pwm_stream_pulse s active_us edge_us =
     (if active_us \<ge> J1850_PWM_TP7_RX_MIN \<and> active_us \<le> J1850_PWM_TP7_RX_MAX
      then Some (s\<lparr>st_len := 0, st_bits := 0, st_byte := 0, st_crc := 0xFF, st_valid := True,
                   st_first := True\<rparr>, False)
      else if \<not> st_valid s then Some (s, False)
      else if active_us < J1850_PWM_TP1_RX_MIN \<or> active_us > J1850_PWM_TP2_RX_MAX \<or>
        edge_us < (if st_first s then J1850_PWM_TP4_RX_MIN else J1850_PWM_TP3_RX_MIN) \<or>
        edge_us > (if st_first s then J1850_PWM_TP4_RX_MAX else J1850_PWM_TP3_RX_MAX) \<or>
        st_len s \<ge> J1850_PWM_MAX_FRAME
      then Some (s\<lparr>st_valid := False\<rparr>, False)
      else
        let v = shift_in (st_byte s) (active_us < J1850_PWM_BIT_SPLIT);
            s = s\<lparr>st_first := False, st_byte := v, st_bits := st_bits s + 1\<rparr>
        in if st_bits s \<noteq> 8 then Some (s, False)
           else do {
             data \<leftarrow> set_at (st_data s) (st_len s) v;
             let s = s\<lparr>st_data := data, st_len := st_len s + 1, st_crc := crc_step (st_crc s) v,
                       st_byte := 0, st_bits := 0\<rparr>;
             Some (s, st_len s \<ge> 4 \<and> st_len s < J1850_PWM_MAX_FRAME \<and> st_crc s = J1850_CRC_RESIDUE)
           })"

definition J1850_PWM_MAX_IFR_TARGETS :: nat where "J1850_PWM_MAX_IFR_TARGETS = 4"
definition J1850_HDR_Y_BIT :: byte where "J1850_HDR_Y_BIT = 0x04"

record j1850_pwm_ifr_cfg =
  ifr_enabled :: bool
  node_address :: byte
  ifr_targets :: "byte list"
  target_count :: nat

definition j1850_pwm_ifr_cfg_default :: j1850_pwm_ifr_cfg where
  "j1850_pwm_ifr_cfg_default =
     \<lparr>ifr_enabled = True, node_address = 0xF1, ifr_targets = [0x6B, 0xF1, 0, 0], target_count = 2\<rparr>"

definition j1850_pwm_ifr_wanted :: "byte list option \<Rightarrow> j1850_pwm_ifr_cfg option \<Rightarrow> bool" where
  "j1850_pwm_ifr_wanted frame cfg =
     (case (frame, cfg) of
        (Some f, Some c) \<Rightarrow>
          if \<not> ifr_enabled c then False
          else if length f < 3 then False
          else if \<not> j1850_hdr_wants_ifr (f ! 0) then False
          else if \<not> j1850_hdr_is_three_byte (f ! 0) then False
          else if f ! 0 AND J1850_HDR_Y_BIT \<noteq> 0 \<and> f ! 1 = node_address c then True
          else list_ex (\<lambda>i. f ! 1 = ifr_targets c ! i)
                 [0..<min (target_count c) J1850_PWM_MAX_IFR_TARGETS]
      | _ \<Rightarrow> False)"


section \<open>What the encoder writes\<close>

definition bit_cell :: "byte \<times> nat \<Rightarrow> rmt_symbol" where
  "bit_cell = (\<lambda>(d, b). pwm_cell (if bit d b then J1850_PWM_TX_TP1 else J1850_PWM_TX_TP2) J1850_PWM_TP3_NOM)"

definition sof_cell :: rmt_symbol where
  "sof_cell = pwm_cell J1850_PWM_TX_TP7 J1850_PWM_TP4_NOM"

lemma pwm_put_bits:
  "length bs \<le> length rest \<Longrightarrow>
   fold_opt pwm_put_bit (pre @ rest, length pre) bs =
     Some (pre @ map bit_cell bs @ drop (length bs) rest, length pre + length bs)"
proof (induction bs arbitrary: pre rest)
  case (Cons b bs)
  then obtain r rest' where r: "rest = r # rest'" by (cases rest) auto
  have "pwm_put_bit (pre @ rest, length pre) b = Some ((pre @ [bit_cell b]) @ rest', length (pre @ [bit_cell b]))"
    by (simp add: pwm_put_bit_def put_cell_def bit_cell_def r set_at_def list_update_append split: prod.split)
  then show ?case using Cons.IH [of rest' "pre @ [bit_cell b]"] Cons.prems by (simp add: r)
qed simp

lemma pwm_encode_symbols:
  assumes "0 < length f" "length f \<le> J1850_PWM_MAX_FRAME"
    "length f * 8 + (if with_sof then 1 else 0) \<le> length out"
  shows "j1850_pwm_encode (Some f) with_sof (Some out) =
    (let cells = (if with_sof then [sof_cell] else []) @ map bit_cell (msb_first f)
     in Some (Some (cells @ drop (length cells) out), length cells))"
proof (cases with_sof)
  case True
  then obtain r rest where r: "out = r # rest" using assms(3) by (cases out) auto
  have "put_cell (out, 0) J1850_PWM_TX_TP7 J1850_PWM_TP4_NOM = Some ([sof_cell] @ rest, length [sof_cell])"
    by (simp add: put_cell_def sof_cell_def r)
  then show ?thesis
    using assms True pwm_put_bits [of "msb_first f" rest "[sof_cell]"] msb_first_nth [of f]
    by (auto simp: j1850_pwm_encode_def Let_def r)
next
  case False
  then show ?thesis
    using assms pwm_put_bits [of "msb_first f" out "[]"] msb_first_nth [of f]
    by (auto simp: j1850_pwm_encode_def Let_def)
qed

section \<open>What the decoder makes of it\<close>

text \<open>
  A capture after its first active pulse, as the pairs of a passive and the following active
  duration, and the conditions under which the pairs stand for given bits: every edge in its
  window (the first one after a SOF in that of SOF), every active pulse in that of its bit.
\<close>

definition edge_pulses :: "(nat \<times> nat) list \<Rightarrow> pulse list" where
  "edge_pulses es = concat (map (\<lambda>(p, a). [(False, p), (True, a)]) es)"

fun timed :: "bool \<Rightarrow> nat \<Rightarrow> (nat \<times> nat) list \<Rightarrow> bool list \<Rightarrow> bool" where
  "timed sof prev [] bs = (bs = [])"
| "timed sof prev ((p, a) # es) bs =
     (case bs of [] \<Rightarrow> False
      | b # bs \<Rightarrow>
          (if sof then J1850_PWM_TP4_RX_MIN \<le> prev + p \<and> prev + p \<le> J1850_PWM_TP4_RX_MAX
           else J1850_PWM_TP3_RX_MIN \<le> prev + p \<and> prev + p \<le> J1850_PWM_TP3_RX_MAX) \<and>
          classify_active a = (if b then SYM_ONE else SYM_ZERO) \<and> timed False a es bs)"

definition frame_bits :: "byte list \<Rightarrow> bool list" where
  "frame_bits f = map (\<lambda>(d, b). bit d b) (msb_first f)"

definition byte_bits :: "byte \<Rightarrow> bool list" where
  "byte_bits d = [bit d 7, bit d 6, bit d 5, bit d 4, bit d 3, bit d 2, bit d 1, bit d 0]"

lemma frame_bits_Cons [simp]: "frame_bits (d # f) = byte_bits d @ frame_bits f"
proof -
  have "rev [0..<8] = [7, 6, 5, 4, 3, 2, 1, 0]" by (simp add: upt_rec)
  then show ?thesis by (simp add: frame_bits_def msb_first_def byte_bits_def del: upt_rec_numeral)
qed

lemma frame_bits_Nil [simp]: "frame_bits [] = []"
  by (simp add: frame_bits_def msb_first_def)

lemma timed_append:
  "timed sof prev es (bs @ cs) \<Longrightarrow> bs \<noteq> [] \<Longrightarrow>
   \<exists>e1 e2. es = e1 @ e2 \<and> e1 \<noteq> [] \<and> timed sof prev e1 bs \<and> timed False (snd (last e1)) e2 cs"
proof (induction bs arbitrary: sof prev es)
  case (Cons b bs)
  then obtain p a es' where es: "es = (p, a) # es'" by (cases es) auto
  show ?case
  proof (cases "bs = []")
    case True
    with Cons.prems es show ?thesis
      by (intro exI [of _ "[(p, a)]"] exI [of _ es']) auto
  next
    case False
    have "timed False a es' (bs @ cs)" using Cons.prems(1) by (simp add: es)
    from Cons.IH [OF this False] obtain e1 e2 where
      "es' = e1 @ e2" "e1 \<noteq> []" "timed False a e1 bs" "timed False (snd (last e1)) e2 cs" by blast
    then show ?thesis using Cons.prems es
      by (intro exI [of _ "(p, a) # e1"] exI [of _ e2]) auto
  qed
qed simp

definition pl_at :: "j1850_pwm_rx \<Rightarrow> nat \<Rightarrow> nat \<Rightarrow> bool \<Rightarrow> pwm_loop_state" where
  "pl_at out prev n sof =
     \<lparr>pl_out = out, pl_prev_active = prev, pl_nbits = n, pl_in_ifr = False, pl_after_sof = sof\<rparr>"

lemma pwm_loop_bit:
  assumes "timed sof prev ((p, a) # es) (b # bs)" "n < 8" and k: "k = 7 - n"
    and "pwm_len out < J1850_PWM_MAX_FRAME" "length (pwm_data out) = J1850_PWM_MAX_FRAME"
  shows "pwm_loop (pl_at out prev n sof) ((False, p) # (True, a) # ps) =
    pwm_loop (pl_at
      (out\<lparr>pwm_data := (pwm_data out)[pwm_len out :=
              (if n = 0 then 0 else pwm_data out ! pwm_len out) OR (if b then push_bit k 1 else 0)],
           pwm_len := (if n = 7 then pwm_len out + 1 else pwm_len out), last_active_us := u16 a\<rparr>)
      a (if n = 7 then 0 else Suc n) False) ps"
proof -
  have g: "pwm_gap (pl_at out prev n sof) (prev + p) = PNext (pl_at out prev n False)"
    using assms(1) by (cases sof) (auto simp: pwm_gap_def pl_at_def pwm_timing Let_def)
  have s: "classify_active a = (if b then SYM_ONE else SYM_ZERO)" using assms(1) by simp
  have m: "J1850_PWM_MAX_FRAME = J1850_VPW_MAX_FRAME"
    by (simp add: J1850_PWM_MAX_FRAME_def J1850_VPW_MAX_FRAME_def)
  have q: "vpw_push (pwm_data out) (pwm_len out) n b =
    (let buf' = (pwm_data out)[pwm_len out :=
       (if n = 0 then 0 else pwm_data out ! pwm_len out) OR (if b then push_bit k 1 else 0)]
     in Some (if n = 7 then (buf', pwm_len out + 1, 0, True) else (buf', pwm_len out, n + 1, True)))"
    using vpw_push_bit_eq [OF assms(2), of "pwm_len out" "pwm_data out" b] assms(4,5) unfolding m k by simp
  have "pwm_active (pl_at out prev n False) a = Some (PNext (pl_at
      (out\<lparr>pwm_data := (pwm_data out)[pwm_len out :=
              (if n = 0 then 0 else pwm_data out ! pwm_len out) OR (if b then push_bit k 1 else 0)],
           pwm_len := (if n = 7 then pwm_len out + 1 else pwm_len out), last_active_us := u16 a\<rparr>)
      a (if n = 7 then 0 else Suc n) False))"
    using s q
    by (cases b; cases "n = 7") (simp_all add: pwm_active_def pl_at_def pwm_push_bit_def Let_def split del: if_split)
  moreover have "pl_prev_active (pl_at out prev n sof) = prev" by (simp add: pl_at_def)
  ultimately show ?thesis by (simp add: g pwm_loop.simps(3))
qed

lemma pwm_loop_byte:
  assumes "timed sof prev es (byte_bits d)" "pwm_len out < J1850_PWM_MAX_FRAME"
    "length (pwm_data out) = J1850_PWM_MAX_FRAME"
  shows "pwm_loop (pl_at out prev 0 sof) (edge_pulses es @ qs) =
    pwm_loop (pl_at (out\<lparr>pwm_data := (pwm_data out)[pwm_len out := d], pwm_len := pwm_len out + 1,
      last_active_us := u16 (snd (last es))\<rparr>) (snd (last es)) 0 False) qs"
proof -
  obtain p7 a7 p6 a6 p5 a5 p4 a4 p3 a3 p2 a2 p1 a1 p0 a0 where
    es: "es = [(p7, a7), (p6, a6), (p5, a5), (p4, a4), (p3, a3), (p2, a2), (p1, a1), (p0, a0)]"
  proof -
    have "length bs = length es" if "timed sof prev es bs" for sof prev es bs
      using that by (induction sof prev es bs rule: timed.induct) (auto split: list.splits)
    from this [OF assms(1)] have "length es = 8" by (simp add: byte_bits_def)
    then show ?thesis using that by (auto simp: numeral_eq_Suc length_Suc_conv)
  qed
  have h: "timed sof prev [(p7, a7), (p6, a6), (p5, a5), (p4, a4), (p3, a3), (p2, a2), (p1, a1), (p0, a0)] (byte_bits d)"
    "timed False a7 [(p6, a6), (p5, a5), (p4, a4), (p3, a3), (p2, a2), (p1, a1), (p0, a0)] (tl (byte_bits d))"
    "timed False a6 [(p5, a5), (p4, a4), (p3, a3), (p2, a2), (p1, a1), (p0, a0)] (tl (tl (byte_bits d)))"
    "timed False a5 [(p4, a4), (p3, a3), (p2, a2), (p1, a1), (p0, a0)] (tl (tl (tl (byte_bits d))))"
    "timed False a4 [(p3, a3), (p2, a2), (p1, a1), (p0, a0)] [bit d 3, bit d 2, bit d 1, bit d 0]"
    "timed False a3 [(p2, a2), (p1, a1), (p0, a0)] [bit d 2, bit d 1, bit d 0]"
    "timed False a2 [(p1, a1), (p0, a0)] [bit d 1, bit d 0]"
    "timed False a1 [(p0, a0)] [bit d 0]"
    using assms(1) by (simp_all add: es byte_bits_def)
  note st = pwm_loop_bit [OF h(1) [unfolded byte_bits_def], of 0 7]
    pwm_loop_bit [OF h(2) [unfolded byte_bits_def list.sel], of "Suc 0" 6]
    pwm_loop_bit [OF h(3) [unfolded byte_bits_def list.sel], of "Suc (Suc 0)" 5]
    pwm_loop_bit [OF h(4) [unfolded byte_bits_def list.sel], of "Suc (Suc (Suc 0))" 4]
    pwm_loop_bit [OF h(5), of "Suc (Suc (Suc (Suc 0)))" 3]
    pwm_loop_bit [OF h(6), of "Suc (Suc (Suc (Suc (Suc 0))))" 2]
    pwm_loop_bit [OF h(7), of "Suc (Suc (Suc (Suc (Suc (Suc 0)))))" 1]
    pwm_loop_bit [OF h(8), of "Suc (Suc (Suc (Suc (Suc (Suc (Suc 0))))))" 0]
  show ?thesis
    using assms(2,3)
    by (simp add: es edge_pulses_def st [simplified] del: push_bit_of_1 split del: if_split)
      (simp add: byte_of_bits [simplified, of d] or.assoc del: push_bit_of_1)
qed


lemma pwm_loop_bytes:
  assumes "timed sof prev es (frame_bits ds)" "pwm_len out + length ds \<le> J1850_PWM_MAX_FRAME"
    "length (pwm_data out) = J1850_PWM_MAX_FRAME"
  shows "\<exists>out' prev' sof'. (\<forall>qs. pwm_loop (pl_at out prev 0 sof) (edge_pulses es @ qs) =
      pwm_loop (pl_at out' prev' 0 sof') qs) \<and> (ds \<noteq> [] \<longrightarrow> \<not> sof') \<and>
    pwm_data out' = take (pwm_len out) (pwm_data out) @ ds @ drop (pwm_len out + length ds) (pwm_data out) \<and>
    pwm_len out' = pwm_len out + length ds \<and> pwm_status out' = pwm_status out \<and>
    pwm_ifr_len out' = pwm_ifr_len out"
  using assms
proof (induction ds arbitrary: es prev sof out)
  case Nil
  then have "es = []" by (cases es) auto
  then show ?case by (intro exI [of _ out] exI [of _ prev] exI [of _ sof]) (simp add: edge_pulses_def)
next
  case (Cons d ds)
  have "timed sof prev es (byte_bits d @ frame_bits ds)" using Cons.prems(1) by simp
  from timed_append [OF this] obtain e1 e2 where e: "es = e1 @ e2" "timed sof prev e1 (byte_bits d)"
    "timed False (snd (last e1)) e2 (frame_bits ds)" by (auto simp: byte_bits_def)
  let ?a = "snd (last e1)"
  let ?o = "out\<lparr>pwm_data := (pwm_data out)[pwm_len out := d], pwm_len := pwm_len out + 1, last_active_us := u16 ?a\<rparr>"
  have l: "pwm_len out < length (pwm_data out)" using Cons.prems by simp
  have "\<exists>out' prev' sof'. (\<forall>qs. pwm_loop (pl_at ?o ?a 0 False) (edge_pulses e2 @ qs) =
      pwm_loop (pl_at out' prev' 0 sof') qs) \<and> (ds \<noteq> [] \<longrightarrow> \<not> sof') \<and>
    pwm_data out' = take (pwm_len ?o) (pwm_data ?o) @ ds @ drop (pwm_len ?o + length ds) (pwm_data ?o) \<and>
    pwm_len out' = pwm_len ?o + length ds \<and> pwm_status out' = pwm_status ?o \<and>
    pwm_ifr_len out' = pwm_ifr_len ?o"
    by (rule Cons.IH [OF e(3)]) (use Cons.prems in simp_all)
  then obtain out' prev' sof' where o': "\<And>qs. pwm_loop (pl_at ?o ?a 0 False) (edge_pulses e2 @ qs) =
      pwm_loop (pl_at out' prev' 0 sof') qs" "ds \<noteq> [] \<longrightarrow> \<not> sof'"
    "pwm_data out' = take (pwm_len ?o) (pwm_data ?o) @ ds @ drop (pwm_len ?o + length ds) (pwm_data ?o)"
    "pwm_len out' = pwm_len ?o + length ds" "pwm_status out' = pwm_status ?o" "pwm_ifr_len out' = pwm_ifr_len ?o"
    by blast
  have st: "pwm_loop (pl_at out prev 0 sof) (edge_pulses es @ qs) = pwm_loop (pl_at out' prev' 0 sof') qs" for qs
    using pwm_loop_byte [OF e(2), of out "edge_pulses e2 @ qs"] Cons.prems o'(1) [of qs]
    by (simp add: e(1) edge_pulses_def)
  show ?case
  proof (cases "ds = []")
    case True
    then have "e2 = []" using e(3) by (cases e2) auto
    then have "pwm_loop (pl_at out prev 0 sof) (edge_pulses es @ qs) = pwm_loop (pl_at ?o ?a 0 False) qs" for qs
      using pwm_loop_byte [OF e(2), of out qs] Cons.prems by (simp add: e(1))
    then show ?thesis using l True
      by (intro exI [of _ ?o] exI [of _ ?a] exI [of _ False]) (simp add: upd_conv_take_nth_drop)
  next
    case False
    then show ?thesis using o' st l
      by (intro exI [of _ out'] exI [of _ prev'] exI [of _ sof']) (simp add: take_Suc_conv_app_nth)
  qed
qed

text \<open>How a capture may go on after the last bit: silence, or the next edge only after an EOF.\<close>

fun pwm_tail :: "pulse list \<Rightarrow> bool" where
  "pwm_tail [] = True"
| "pwm_tail [p] = (\<not> fst p)"
| "pwm_tail (p # q # ps) = (\<not> fst p \<and> J1850_PWM_TP5_RX_MIN \<le> snd p)"

text \<open>A capture of a start pulse and the timed bits of a valid frame decodes to that frame.\<close>

lemma pwm_decode_frame:
  assumes "j1850_crc_check (Some f)" "length f \<le> J1850_PWM_MAX_FRAME"
    "pulse_train syms = idle @ (True, s) # edge_pulses es @ tail" "list_all (\<lambda>p. \<not> fst p) idle"
    "classify_active s = SYM_SOF" "timed True s es (frame_bits f)" "pwm_tail tail"
  shows "\<exists>rx. j1850_pwm_decode (Some syms) = Some rx \<and> pwm_status rx = J1850_PWM_RX_OK \<and>
    take (pwm_len rx) (pwm_data rx) = f \<and> pwm_ifr_len rx = 0"
proof -
  let ?z = "pwm_rx_zero\<lparr>pwm_status := J1850_PWM_RX_OK, last_active_us := u16 s\<rparr>"
  have two: "2 \<le> length f" using assms(1) by (rule crc_check_length)
  have ne: "f \<noteq> []" using two by auto
  have "dropWhile (\<lambda>p. \<not> fst p) (pulse_train syms) = (True, s) # edge_pulses es @ tail"
    using assms(3,4) by (simp add: dropWhile_append3 list_all_iff)
  then have d: "j1850_pwm_decode (Some syms) = pwm_loop (pl_at ?z s 0 True) (edge_pulses es @ tail)"
    by (simp add: j1850_pwm_decode_def assms(5) pl_at_def)
  have zl: "pwm_len ?z + length f \<le> J1850_PWM_MAX_FRAME" "length (pwm_data ?z) = J1850_PWM_MAX_FRAME"
    using assms(2) by (simp_all add: pwm_rx_zero_def)
  obtain out prev sof where o: "\<And>qs. pwm_loop (pl_at ?z s 0 True) (edge_pulses es @ qs) =
      pwm_loop (pl_at out prev 0 sof) qs" "\<not> sof" "pwm_data out = f @ drop (length f) (pwm_data ?z)"
    "pwm_len out = length f" "pwm_status out = J1850_PWM_RX_OK" "pwm_ifr_len out = 0"
    using pwm_loop_bytes [OF assms(6) zl] ne by (auto simp: pwm_rx_zero_def)
  have fin: "pwm_finish (pl_at out prev 0 sof) = out"
    using o two assms(1) by (simp add: pwm_finish_def pl_at_def Let_def)
  have "pwm_loop (pl_at out prev 0 sof) tail = Some out"
    using assms(7) fin by (cases tail rule: pwm_tail.cases)
      (auto simp: pwm_loop.simps(3) pwm_gap_def Let_def pl_at_def)
  then show ?thesis using o by (simp add: d)
qed

definition cell_pulses :: "rmt_symbol list \<Rightarrow> pulse list" where
  "cell_pulses syms = concat (map (\<lambda>s. [(level0 s, duration0 s), (level1 s, duration1 s)]) syms)"

lemma bit_cell_pulses:
  assumes "a \<le> c" "if sof then J1850_PWM_TP4_RX_MIN \<le> c \<and> c \<le> J1850_PWM_TP4_RX_MAX
      else J1850_PWM_TP3_RX_MIN \<le> c \<and> c \<le> J1850_PWM_TP3_RX_MAX"
  shows "\<exists>es q. cell_pulses (pwm_cell a c # map bit_cell bs) = (True, a) # edge_pulses es @ [(False, q)] \<and>
    timed sof a es (map (\<lambda>(d, b). bit d b) bs)"
  using assms
proof (induction bs arbitrary: a c sof)
  case Nil
  then show ?case
    by (intro exI [of _ "[]"]) (simp add: cell_pulses_def pwm_cell_def edge_pulses_def)
next
  case (Cons db bs)
  obtain d b where db: "db = (d, b)" by fastforce
  let ?a = "if bit d b then J1850_PWM_TX_TP1 else J1850_PWM_TX_TP2"
  have "\<exists>es q. cell_pulses (pwm_cell ?a J1850_PWM_TP3_NOM # map bit_cell bs) = (True, ?a) # edge_pulses es @ [(False, q)] \<and>
    timed False ?a es (map (\<lambda>(d, b). bit d b) bs)"
    by (rule Cons.IH) (simp_all add: pwm_timing)
  then obtain es q where e: "cell_pulses (pwm_cell ?a J1850_PWM_TP3_NOM # map bit_cell bs) =
      (True, ?a) # edge_pulses es @ [(False, q)]" "timed False ?a es (map (\<lambda>(d, b). bit d b) bs)" by blast
  have "cell_pulses (pwm_cell a c # map bit_cell (db # bs)) =
      (True, a) # edge_pulses ((c - a, ?a) # es) @ [(False, q)]"
    using e(1) by (simp add: cell_pulses_def db bit_cell_def edge_pulses_def) (simp add: pwm_cell_def)
  moreover have "timed sof a ((c - a, ?a) # es) (map (\<lambda>(d, b). bit d b) (db # bs))"
    using e(2) Cons.prems by (cases sof) (simp_all add: db classify_active_def pwm_timing)
  ultimately show ?case by blast
qed

lemma cell_pulses_nonzero: "p \<in> set (cell_pulses (sof_cell # map bit_cell bs)) \<Longrightarrow> snd p \<noteq> 0"
  by (auto simp: cell_pulses_def sof_cell_def bit_cell_def pwm_cell_def pwm_timing)

lemma bit_cell_durations: "duration0 (bit_cell db) = (if bit (fst db) (snd db) then J1850_PWM_TX_TP1 else J1850_PWM_TX_TP2)"
  "duration0 (bit_cell db) + duration1 (bit_cell db) = J1850_PWM_TP3_NOM"
  by (auto simp: bit_cell_def pwm_cell_def pwm_timing split: prod.split)

lemma quick_cell:
  "quick_loop (bit_cell (d, b) # syms) cap acc n out =
    (let acc = shift_in acc (bit d b)
     in if n + 1 = 8 then if length out \<ge> cap then None else quick_loop syms cap 0 0 (out @ [acc])
        else quick_loop syms cap acc (n + 1) out)"
  by (auto simp: bit_cell_durations Let_def) (auto simp: pwm_timing bit_cell_def pwm_cell_def)

lemma acc_of_bits:
  "shift_in (shift_in (shift_in (shift_in (shift_in (shift_in (shift_in (shift_in 0 (bit d 7)) (bit d 6))
     (bit d 5)) (bit d 4)) (bit d 3)) (bit d 2)) (bit d (Suc 0))) (bit d 0) = d"
  by (rule byte_cases [of _ d]) code_simp

lemma quick_loop_bytes:
  "length out + length f \<le> cap \<Longrightarrow> quick_loop (map bit_cell (msb_first f)) cap 0 0 out = Some (0, out @ f)"
proof (induction f arbitrary: out)
  case (Cons d f)
  have e: "msb_first (d # f) = map (Pair d) [7, 6, 5, 4, 3, 2, 1, 0] @ msb_first f"
  proof -
    have "rev [0..<8] = [7, 6, 5, 4, 3, 2, 1, 0]" by (simp add: upt_rec)
    then show ?thesis by (simp add: msb_first_def del: upt_rec_numeral)
  qed
  have "quick_loop (map bit_cell (msb_first (d # f))) cap 0 0 out = quick_loop (map bit_cell (msb_first f)) cap 0 0 (out @ [d])"
    unfolding e using Cons.prems acc_of_bits [of d]
    by (simp add: quick_cell Let_def del: quick_loop.simps split del: if_split)
  then show ?case using Cons.IH [of "out @ [d]"] Cons.prems by simp
qed (simp add: msb_first_def)


text \<open>C27: What the encoder lays out, both decoders read back: for every frame of 2 to 12 bytes with a
  valid check byte the encoder fills exactly one symbol for the start and one per bit, the full
  decoder returns the frame with status OK, and the echo decoder returns it too, whatever the
  array held before.\<close>

theorem pwm_roundtrip:
  assumes "j1850_crc_check (Some f)" "length f \<le> J1850_PWM_MAX_FRAME" "8 * length f + 1 \<le> length out"
  shows "\<exists>out' rx. j1850_pwm_encode (Some f) True (Some out) = Some (Some out', 8 * length f + 1) \<and>
    drop (8 * length f + 1) out' = drop (8 * length f + 1) out \<and>
    j1850_pwm_decode (Some (take (8 * length f + 1) out')) = Some rx \<and>
    pwm_status rx = J1850_PWM_RX_OK \<and> take (pwm_len rx) (pwm_data rx) = f \<and>
    j1850_pwm_quick_decode (Some (take (8 * length f + 1) out')) J1850_PWM_MAX_FRAME = f"
proof -
  let ?c = "sof_cell # map bit_cell (msb_first f)"
  have l: "0 < length f" "length f * 8 + 1 \<le> length out" using crc_check_length [OF assms(1)] assms(3) by linarith+
  have n: "length ?c = 8 * length f + 1" using msb_first_nth [of f] by simp
  have e: "j1850_pwm_encode (Some f) True (Some out) =
      Some (Some (?c @ drop (8 * length f + 1) out), 8 * length f + 1)"
    using pwm_encode_symbols [of f True out] l assms(2) n by (simp add: Let_def)
  have t: "take (8 * length f + 1) (?c @ drop (8 * length f + 1) out) = ?c"
    "drop (8 * length f + 1) (?c @ drop (8 * length f + 1) out) = drop (8 * length f + 1) out"
    unfolding n [symmetric] by simp_all
  obtain es q where es: "cell_pulses ?c = (True, J1850_PWM_TX_TP7) # edge_pulses es @ [(False, q)]"
    "timed True J1850_PWM_TX_TP7 es (frame_bits f)"
    using bit_cell_pulses [of J1850_PWM_TX_TP7 J1850_PWM_TP4_NOM True "msb_first f"]
    unfolding sof_cell_def frame_bits_def by (fastforce simp: pwm_timing)
  have "pulse_train ?c = cell_pulses ?c"
    unfolding pulse_train_def cell_pulses_def [symmetric] takeWhile_eq_all_conv
    using cell_pulses_nonzero by blast
  then have "\<exists>rx. j1850_pwm_decode (Some ?c) = Some rx \<and> pwm_status rx = J1850_PWM_RX_OK \<and>
      take (pwm_len rx) (pwm_data rx) = f \<and> pwm_ifr_len rx = 0"
    using es by (intro pwm_decode_frame [OF assms(1,2), of _ "[]" J1850_PWM_TX_TP7 es "[(False, q)]"])
      (simp_all add: classify_active_def pwm_timing)
  moreover have "j1850_pwm_quick_decode (Some ?c) J1850_PWM_MAX_FRAME = f"
    using quick_loop_bytes [of "[]" f J1850_PWM_MAX_FRAME] assms(2) l
    by (simp add: j1850_pwm_quick_decode_def sof_cell_def pwm_cell_def classify_active_def pwm_timing)
      (auto simp: J1850_PWM_MAX_FRAME_def J1850_MAX_FRAME_def)
  ultimately show ?thesis using e t by (intro exI [of _ "?c @ drop (8 * length f + 1) out"]) auto
qed

lemma pwm_roundtrip_witness:
  "\<exists>out' rx. j1850_pwm_encode (Some [0x48, 0xC0]) True (Some (replicate 20 symbol_zero)) = Some (Some out', 17) \<and>
     j1850_pwm_decode (Some (take 17 out')) = Some rx \<and> take (pwm_len rx) (pwm_data rx) = [0x48, 0xC0]"
proof -
  have "j1850_crc_check (Some [0x48, 0xC0])" by code_simp
  from pwm_roundtrip [OF this, of "replicate 20 symbol_zero"] show ?thesis
    by (fastforce simp: J1850_PWM_MAX_FRAME_def J1850_MAX_FRAME_def)
qed

text \<open>
  The receive windows of SAE J1850 Table 3, as numbers: the first rising edge 42 to 54
  microseconds after that of the start, every later one 21 to 27 after the one before, an active
  width of 4 to 10 for a one and of 12 to 18 for a zero.
\<close>

fun table3 :: "nat \<Rightarrow> nat \<Rightarrow> nat \<Rightarrow> (nat \<times> nat) list \<Rightarrow> bool list \<Rightarrow> bool" where
  "table3 lo hi prev [] bs = (bs = [])"
| "table3 lo hi prev ((p, a) # es) [] = False"
| "table3 lo hi prev ((p, a) # es) (b # bs) =
     (lo \<le> prev + p \<and> prev + p \<le> hi \<and> (if b then 4 \<le> a \<and> a \<le> 10 else 12 \<le> a \<and> a \<le> 18) \<and>
      table3 21 27 a es bs)"

lemma table3_timed:
  "table3 (if sof then 42 else 21) (if sof then 54 else 27) prev es bs \<Longrightarrow> timed sof prev es bs"
proof (induction es arbitrary: sof prev bs)
  case (Cons e es)
  obtain p a b bs' where e: "e = (p, a)" "bs = b # bs'"
    using Cons.prems by (cases e; cases bs) auto
  have "timed False a es bs'" using Cons.IH [of False] Cons.prems by (simp add: e)
  then show ?case using Cons.prems
    by (cases sof; cases b) (simp_all add: e classify_active_def pwm_timing)
qed simp

text \<open>Reception tolerates every distortion Table 3 allows: after a start pulse of 27 to 34
  microseconds and, for every bit of a frame with a valid check byte, a rising edge and an active
  width inside the windows of the standard (edges 42 to 54 after the start and 21 to 27
  afterwards, 4 to 10 active for a one, 12 to 18 for a zero), and whatever follows a pause of at
  least 63 microseconds, the decoder returns exactly that frame.\<close>

theorem pwm_decode_tolerant:
  assumes "j1850_crc_check (Some f)" "length f \<le> J1850_PWM_MAX_FRAME"
    "pulse_train syms = idle @ (True, s) # edge_pulses es @ tail" "list_all (\<lambda>p. \<not> fst p) idle"
    "27 \<le> s" "s \<le> 34" "table3 42 54 s es (frame_bits f)"
    "tail = [] \<or> tail = [(False, us)] \<or> tail = (False, us) # rest \<and> 63 \<le> us"
  shows "\<exists>rx. j1850_pwm_decode (Some syms) = Some rx \<and> pwm_status rx = J1850_PWM_RX_OK \<and>
    take (pwm_len rx) (pwm_data rx) = f \<and> pwm_ifr_len rx = 0"
proof -
  have s: "classify_active s = SYM_SOF" using assms(5,6) by (simp add: classify_active_def pwm_timing)
  have t: "timed True s es (frame_bits f)" using assms(7) by (intro table3_timed) simp
  have "pwm_tail tail" using assms(8) by (cases rest) (auto simp: pwm_timing)
  with s t show ?thesis by (intro pwm_decode_frame [OF assms(1-4)])
qed

lemma pwm_decode_tolerant_witness:
  "\<exists>rx. j1850_pwm_decode (Some (\<lparr>level0 = True, duration0 = 34, level1 = False, duration1 = 19\<rparr> #
      map (\<lambda>(d, b). \<lparr>level0 = True, duration0 = (if bit d b then 10 else 17), level1 = False,
             duration1 = (if bit d b then 12 else 9)\<rparr>) (msb_first [0x48, 0xC0])))
     = Some rx \<and> take (pwm_len rx) (pwm_data rx) = [0x48, 0xC0]"
proof -
  let ?b = "map (\<lambda>(d, b). \<lparr>level0 = True, duration0 = (if bit d b then 10 else 17), level1 = False,
             duration1 = (if bit d b then 12 else 9)\<rparr>) (msb_first [0x48, 0xC0])"
  let ?s = "\<lparr>level0 = True, duration0 = 34, level1 = False, duration1 = 19\<rparr> # ?b"
  let ?es = "zip (19 # map duration1 (butlast ?b)) (map duration0 ?b)"
  have c: "j1850_crc_check (Some [0x48, 0xC0])" by code_simp
  have t: "pulse_train ?s = [] @ (True, 34) # edge_pulses ?es @ [(False, 9)]" by code_simp
  have w: "table3 42 54 34 ?es (frame_bits [0x48, 0xC0])" by code_simp
  show ?thesis
    using pwm_decode_tolerant [OF c _ t _ _ _ w, of 9 "[]"] by (auto simp: J1850_PWM_MAX_FRAME_def J1850_MAX_FRAME_def)
qed

section \<open>Every input\<close>

lemma pwm_max [simp]: "J1850_PWM_MAX_FRAME = J1850_VPW_MAX_FRAME"
  by (simp add: J1850_PWM_MAX_FRAME_def J1850_VPW_MAX_FRAME_def)

definition pwm_rx_wf :: "j1850_pwm_rx \<Rightarrow> bool" where
  "pwm_rx_wf rx \<longleftrightarrow> length (pwm_data rx) = J1850_PWM_MAX_FRAME \<and> length (pwm_ifr rx) = J1850_PWM_MAX_FRAME \<and>
     pwm_len rx \<le> J1850_PWM_MAX_FRAME \<and> pwm_ifr_len rx \<le> J1850_PWM_MAX_FRAME"

definition pl_wf :: "pwm_loop_state \<Rightarrow> bool" where
  "pl_wf s \<longleftrightarrow> pwm_rx_wf (pl_out s) \<and> pl_nbits s < 8 \<and>
     (pl_nbits s \<noteq> 0 \<longrightarrow> (if pl_in_ifr s then pwm_ifr_len (pl_out s) else pwm_len (pl_out s)) < J1850_PWM_MAX_FRAME)"

fun pwm_step_wf :: "pwm_step \<Rightarrow> bool" where
  "pwm_step_wf (PReturn st out) = (pwm_rx_wf out \<and> st \<noteq> J1850_PWM_RX_OK)"
| "pwm_step_wf (PEnded s) = pl_wf s"
| "pwm_step_wf (PNext s) = pl_wf s"

lemma pwm_gap_wf: "pl_wf s \<Longrightarrow> pwm_step_wf (pwm_gap s g)"
  by (auto simp: pwm_gap_def pl_wf_def pwm_rx_wf_def Let_def)

lemma pwm_push_bit_safe:
  assumes "pwm_rx_wf out" "n < 8"
    "n \<noteq> 0 \<Longrightarrow> (if ifr then pwm_ifr_len out else pwm_len out) < J1850_PWM_MAX_FRAME"
  shows "\<exists>out' m ok. pwm_push_bit out ifr one n = Some (out', m, ok) \<and> pwm_rx_wf out' \<and> m < 8 \<and>
    (m \<noteq> 0 \<longrightarrow> (if ifr then pwm_ifr_len out' else pwm_len out') < J1850_PWM_MAX_FRAME) \<and>
    pwm_status out' = pwm_status out"
proof (cases ifr)
  case True
  then show ?thesis using assms vpw_push_safe [of n "pwm_ifr out" "pwm_ifr_len out" one]
    by (auto simp: pwm_push_bit_def pwm_rx_wf_def)
next
  case False
  then show ?thesis using assms vpw_push_safe [of n "pwm_data out" "pwm_len out" one]
    by (auto simp: pwm_push_bit_def pwm_rx_wf_def)
qed

lemma pwm_widths_wf [simp]: "pwm_rx_wf (pwm_ifr_widths out s d) = pwm_rx_wf out"
  "pwm_ifr_len (pwm_ifr_widths out s d) = pwm_ifr_len out" "pwm_len (pwm_ifr_widths out s d) = pwm_len out"
  by (simp_all add: pwm_ifr_widths_def pwm_rx_wf_def Let_def)

lemma pwm_active_safe: "pl_wf s \<Longrightarrow> \<exists>r. pwm_active s d = Some r \<and> pwm_step_wf r"
proof -
  assume wf: "pl_wf s"
  define out where "out = (if pl_in_ifr s then pwm_ifr_widths (pl_out s) (classify_active d) d else pl_out s)"
  have o: "pwm_rx_wf out" "pl_nbits s < 8"
    "pl_nbits s \<noteq> 0 \<Longrightarrow> (if pl_in_ifr s then pwm_ifr_len out else pwm_len out) < J1850_PWM_MAX_FRAME"
    using wf by (auto simp: pl_wf_def out_def)
  obtain o' m ok where p: "pwm_push_bit out (pl_in_ifr s) (classify_active d = SYM_ONE) (pl_nbits s) = Some (o', m, ok)"
    "pwm_rx_wf o'" "m < 8" "m \<noteq> 0 \<longrightarrow> (if pl_in_ifr s then pwm_ifr_len o' else pwm_len o') < J1850_PWM_MAX_FRAME"
    using pwm_push_bit_safe [OF o] by blast
  show ?thesis
  proof (cases "classify_active d \<noteq> SYM_ONE \<and> classify_active d \<noteq> SYM_ZERO")
    case True
    then show ?thesis using wf by (auto simp: pwm_active_def pl_wf_def Let_def)
  next
    case False
    then show ?thesis
      using p by (auto simp: pwm_active_def out_def [symmetric] Let_def pl_wf_def pwm_rx_wf_def)
  qed
qed

lemma pwm_finish_wf: "pl_wf s \<Longrightarrow> pwm_rx_wf (pwm_finish s) \<and>
    (pwm_status (pwm_finish s) = J1850_PWM_RX_OK \<longrightarrow>
       j1850_crc_check (Some (take (pwm_len (pwm_finish s)) (pwm_data (pwm_finish s)))))"
  by (auto simp: pwm_finish_def pl_wf_def pwm_rx_wf_def Let_def)

definition pwm_good :: "j1850_pwm_rx option \<Rightarrow> bool" where
  "pwm_good r \<longleftrightarrow> (\<exists>rx. r = Some rx \<and> pwm_rx_wf rx \<and>
    (pwm_status rx = J1850_PWM_RX_OK \<longrightarrow> j1850_crc_check (Some (take (pwm_len rx) (pwm_data rx)))))"

lemma pwm_loop_safe: "pl_wf s \<Longrightarrow> pwm_good (pwm_loop s ps)"
proof (induction s ps rule: pwm_loop.induct)
  case (1 s)
  then show ?case using pwm_finish_wf by (simp add: pwm_good_def)
next
  case (2 s p)
  then show ?case using pwm_finish_wf by (auto simp: pwm_good_def pl_wf_def pwm_rx_wf_def)
next
  case (3 s p q ps)
  have bad: "pwm_good (Some (out\<lparr>pwm_status := st\<rparr>))" if "pwm_rx_wf out" "st \<noteq> J1850_PWM_RX_OK" for out st
    using that by (simp add: pwm_good_def pwm_rx_wf_def)
  have fin: "pwm_good (Some (pwm_finish s))" if "pl_wf s" for s
    using that pwm_finish_wf by (simp add: pwm_good_def)
  show ?case
  proof (cases "fst p")
    case True
    then show ?thesis using 3(2) bad by (simp add: pwm_loop.simps(3) pl_wf_def)
  next
    case False
    have g: "pwm_step_wf (pwm_gap s (pl_prev_active s + snd p))" using 3(2) by (rule pwm_gap_wf)
    show ?thesis
    proof (cases "pwm_gap s (pl_prev_active s + snd p)")
      case (PNext s1)
      with g have "pl_wf s1" by simp
      then obtain r where r: "pwm_active s1 (snd q) = Some r" "pwm_step_wf r" using pwm_active_safe by blast
      show ?thesis
      proof (cases r)
        case (PNext s2)
        then show ?thesis using 3(1) [OF False \<open>pwm_gap s _ = PNext s1\<close> r(1) PNext] r False \<open>pwm_gap s _ = PNext s1\<close>
          by (simp add: pwm_loop.simps(3))
      qed (use r False PNext bad fin in \<open>simp_all add: pwm_loop.simps(3)\<close>)
    qed (use g False bad fin in \<open>simp_all add: pwm_loop.simps(3)\<close>)
  qed
qed


text \<open>C28: The decoder may be run on whatever the peripheral hands over: for every symbol array it
  stays inside the two 12-byte fields, and it reports a good frame only with a valid check byte.\<close>

theorem pwm_decode_total:
  "\<exists>rx. j1850_pwm_decode syms = Some rx \<and> pwm_rx_wf rx \<and>
    (pwm_status rx = J1850_PWM_RX_OK \<longrightarrow> j1850_crc_check (Some (take (pwm_len rx) (pwm_data rx))))"
proof -
  have z: "pwm_rx_wf pwm_rx_zero" "pwm_rx_wf (pwm_rx_zero\<lparr>pwm_status := st\<rparr>)"
    "pwm_rx_wf (out\<lparr>last_active_us := d\<rparr>) = pwm_rx_wf out" for st d out
    by (simp_all add: pwm_rx_wf_def pwm_rx_zero_def)
  have zs: "pwm_good (Some pwm_rx_zero)" "st \<noteq> J1850_PWM_RX_OK \<Longrightarrow> pwm_good (Some (pwm_rx_zero\<lparr>pwm_status := st\<rparr>))" for st
    using z by (auto simp: pwm_good_def) (simp_all add: pwm_rx_zero_def)
  have "pwm_good (j1850_pwm_decode syms)"
  proof (cases syms)
    case None
    then show ?thesis using zs by (simp add: j1850_pwm_decode_def)
  next
    case (Some ss)
    show ?thesis
    proof (cases "dropWhile (\<lambda>p. \<not> fst p) (pulse_train ss)")
      case Nil
      show ?thesis using zs(1) by (simp add: j1850_pwm_decode_def Some Nil)
    next
      case (Cons p ps)
      obtain level dur where p: "p = (level, dur)" by fastforce
      have ifr: "\<exists>out m ok. pwm_push_bit (pwm_rx_zero\<lparr>pwm_status := J1850_PWM_RX_IFR_ONLY\<rparr>) True one 0 = Some (out, m, ok) \<and>
          pwm_rx_wf out \<and> m < 8 \<and> (m \<noteq> 0 \<longrightarrow> pwm_ifr_len out < J1850_PWM_MAX_FRAME)" for one
        using pwm_push_bit_safe [of "pwm_rx_zero\<lparr>pwm_status := J1850_PWM_RX_IFR_ONLY\<rparr>" 0 True one] z by fastforce
      show ?thesis
        using zs z ifr [of True] ifr [of False]
        by (cases "classify_active dur")
          (auto simp: j1850_pwm_decode_def Some Cons p intro!: pwm_loop_safe simp: pl_wf_def)
    qed
  qed
  then show ?thesis by (simp add: pwm_good_def)
qed

lemma pwm_decode_total_witness:
  "\<exists>rx. j1850_pwm_decode (Some (replicate 40 symbol_zero)) = Some rx \<and> pwm_rx_wf rx"
  using pwm_decode_total [of "Some (replicate 40 symbol_zero)"] by blast

section \<open>The streaming decoder\<close>

definition stream_wf :: "j1850_pwm_stream \<Rightarrow> bool" where
  "stream_wf s \<longleftrightarrow> length (st_data s) = J1850_PWM_MAX_FRAME \<and>
     (st_valid s \<longrightarrow> st_len s \<le> J1850_PWM_MAX_FRAME \<and> st_bits s < 8 \<and>
        st_crc s = foldl crc_step 0xFF (take (st_len s) (st_data s)))"

lemma residue_check:
  assumes "foldl crc_step 0xFF m = J1850_CRC_RESIDUE" "2 \<le> length m"
  shows "j1850_crc_check (Some m)"
proof -
  have ne: "m \<noteq> []" using assms(2) by auto
  have m: "m = butlast m @ [last m]" using ne by (rule append_butlast_last_id [symmetric])
  let ?r = "foldl crc_step 0xFF (butlast m)"
  have "crc_step ?r (last m) = foldl crc_step 0xFF (butlast m @ [last m])" by simp
  also have "\<dots> = foldl crc_step 0xFF (butlast m @ [j1850_crc (Some (butlast m))])"
    using assms(1) crc_residue [of "butlast m"] by (simp only: m [symmetric])
  also have "\<dots> = crc_step ?r (j1850_crc (Some (butlast m)))" by simp
  finally have "last m = j1850_crc (Some (butlast m))" by (rule crc.upd_inj_byte)
  moreover have "butlast m \<noteq> []" using assms(2) by (cases m rule: rev_cases) auto
  ultimately have "j1850_crc_check (Some (butlast m @ [last m]))" by (simp add: crc_check_snoc)
  then show ?thesis by (simp only: m [symmetric])
qed

lemma stream_pulse_safe:
  assumes "stream_wf s"
  shows "\<exists>s' ok. j1850_pwm_stream_pulse s a e = Some (s', ok) \<and> stream_wf s' \<and>
    (ok \<longrightarrow> 4 \<le> st_len s' \<and> st_len s' < J1850_PWM_MAX_FRAME \<and>
       j1850_crc_check (Some (take (st_len s') (st_data s'))))"
proof -
  let ?bad = "a < J1850_PWM_TP1_RX_MIN \<or> a > J1850_PWM_TP2_RX_MAX \<or>
        e < (if st_first s then J1850_PWM_TP4_RX_MIN else J1850_PWM_TP3_RX_MIN) \<or>
        e > (if st_first s then J1850_PWM_TP4_RX_MAX else J1850_PWM_TP3_RX_MAX) \<or>
        st_len s \<ge> J1850_PWM_MAX_FRAME"
  consider (sof) "a \<ge> J1850_PWM_TP7_RX_MIN \<and> a \<le> J1850_PWM_TP7_RX_MAX"
    | (skip) "\<not> (a \<ge> J1850_PWM_TP7_RX_MIN \<and> a \<le> J1850_PWM_TP7_RX_MAX)" "\<not> st_valid s \<or> ?bad"
    | (bit) "\<not> (a \<ge> J1850_PWM_TP7_RX_MIN \<and> a \<le> J1850_PWM_TP7_RX_MAX)" "st_valid s" "\<not> ?bad" by blast
  then show ?thesis
  proof cases
    case sof
    then show ?thesis using assms by (auto simp: j1850_pwm_stream_pulse_def stream_wf_def)
  next
    case skip
    then show ?thesis using assms by (auto simp: j1850_pwm_stream_pulse_def stream_wf_def)
  next
    case bit
    define v where "v = shift_in (st_byte s) (a < J1850_PWM_BIT_SPLIT)"
    have l: "st_len s < length (st_data s)" "length (st_data s) = J1850_PWM_MAX_FRAME" "st_bits s < 8"
      "st_crc s = foldl crc_step 0xFF (take (st_len s) (st_data s))"
      using assms bit by (auto simp: stream_wf_def)
    have st: "j1850_pwm_stream_pulse s a e =
      (let s = s\<lparr>st_first := False, st_byte := v, st_bits := st_bits s + 1\<rparr>
        in if st_bits s \<noteq> 8 then Some (s, False)
           else do {
             data \<leftarrow> set_at (st_data s) (st_len s) v;
             let s = s\<lparr>st_data := data, st_len := st_len s + 1, st_crc := crc_step (st_crc s) v,
                       st_byte := 0, st_bits := 0\<rparr>;
             Some (s, st_len s \<ge> 4 \<and> st_len s < J1850_PWM_MAX_FRAME \<and> st_crc s = J1850_CRC_RESIDUE)
           })"
      unfolding j1850_pwm_stream_pulse_def if_not_P [OF bit(1)] if_not_P [OF bit(3)] v_def Let_def
      using bit(2) by simp
    show ?thesis
    proof (cases "st_bits s = 7")
      case False
      then show ?thesis using l by (auto simp: st stream_wf_def)
    next
      case True
      have t: "take (Suc (st_len s)) ((st_data s)[st_len s := v]) = take (st_len s) (st_data s) @ [v]"
        using l(1) by (simp add: take_Suc_conv_app_nth)
      show ?thesis using True l residue_check [of "take (st_len s) (st_data s) @ [v]"]
        by (auto simp: st stream_wf_def t)
    qed
  qed
qed

definition stream_call :: "j1850_pwm_stream \<Rightarrow> nat \<times> nat \<Rightarrow> (j1850_pwm_stream \<times> bool) option" where
  "stream_call s = (\<lambda>(a, e). j1850_pwm_stream_pulse s a e)"

interpretation stm: safe_machine stream_call stream_wf "\<lambda>_. True"
  using stream_pulse_safe by unfold_locales (fastforce simp: stream_call_def split: prod.split)

text \<open>C29: The acknowledgement of a frame is safe: however the pulses of the bus look, the streaming
  decoder stays inside its 12 bytes, and it says yes after a pulse only when it then holds 4 to
  11 bytes that end in their valid check byte.\<close>

theorem pwm_stream_acknowledges_checked:
  assumes "stream_wf s"
  shows "\<exists>s' oks. run_calls stream_call s pulses = Some (s', oks) \<and> stream_wf s' \<and>
    (oks \<noteq> [] \<and> last oks \<longrightarrow> 4 \<le> st_len s' \<and> st_len s' < J1850_PWM_MAX_FRAME \<and>
       j1850_crc_check (Some (take (st_len s') (st_data s'))))"
proof (cases pulses rule: rev_cases)
  case Nil
  then show ?thesis using assms by simp
next
  case (snoc ps p)
  have adm: "list_all (\<lambda>_. True) ps" by (simp add: list_all_iff)
  obtain s1 oks where r: "run_calls stream_call s ps = Some (s1, oks)" "stream_wf s1"
    using stm.run_safe [OF assms adm] by blast
  obtain s2 ok where q: "j1850_pwm_stream_pulse s1 (fst p) (snd p) = Some (s2, ok)" "stream_wf s2"
    "ok \<longrightarrow> 4 \<le> st_len s2 \<and> st_len s2 < J1850_PWM_MAX_FRAME \<and> j1850_crc_check (Some (take (st_len s2) (st_data s2)))"
    using stream_pulse_safe [OF r(2)] by blast
  then show ?thesis by (simp add: snoc run_calls_append r stream_call_def split_beta)
qed

definition stream_zero :: j1850_pwm_stream where
  "stream_zero = \<lparr>st_data = replicate 12 0, st_len = 0, st_bits = 0, st_byte = 0, st_crc = 0,
     st_valid = False, st_first = False\<rparr>"

lemma pwm_stream_acknowledges_checked_witness:
  "\<exists>s' oks. run_calls stream_call stream_zero [(31, 0), (7, 48), (15, 24)] = Some (s', oks) \<and> stream_wf s'"
proof -
  have "stream_wf stream_zero"
    by (simp add: stream_wf_def stream_zero_def J1850_VPW_MAX_FRAME_def J1850_MAX_FRAME_def)
  from pwm_stream_acknowledges_checked [OF this] show ?thesis by blast
qed


text \<open>The calls for a capture: each active width with the distance from the edge before.\<close>

fun stream_calls :: "nat \<Rightarrow> (nat \<times> nat) list \<Rightarrow> (nat \<times> nat) list" where
  "stream_calls prev [] = []"
| "stream_calls prev ((p, a) # es) = (a, prev + p) # stream_calls a es"

lemma stream_calls_append:
  "e1 \<noteq> [] \<Longrightarrow> stream_calls prev (e1 @ e2) = stream_calls prev e1 @ stream_calls (snd (last e1)) e2"
  by (induction prev e1 rule: stream_calls.induct) (auto split: if_splits)

lemma stream_bit:
  assumes t: "timed sof prev ((p, a) # es) (b # bs)" and s: "st_valid s" "st_first s = sof" "st_len s < J1850_PWM_MAX_FRAME"
    and l: "length (st_data s) = J1850_PWM_MAX_FRAME"
  shows "stream_call s (a, prev + p) =
    (if st_bits s = 7
     then let v = shift_in (st_byte s) b; c = crc_step (st_crc s) v; n = st_len s + 1 in
       Some (s\<lparr>st_data := (st_data s)[st_len s := v], st_len := n, st_crc := c, st_byte := 0, st_bits := 0,
               st_first := False\<rparr>, 4 \<le> n \<and> n < J1850_PWM_MAX_FRAME \<and> c = J1850_CRC_RESIDUE)
     else Some (s\<lparr>st_first := False, st_byte := shift_in (st_byte s) b, st_bits := Suc (st_bits s)\<rparr>, False))"
proof -
  have k: "classify_active a = (if b then SYM_ONE else SYM_ZERO)" using t by simp
  have a: "\<not> (a \<ge> J1850_PWM_TP7_RX_MIN \<and> a \<le> J1850_PWM_TP7_RX_MAX)" "a \<ge> J1850_PWM_TP1_RX_MIN"
    "a \<le> J1850_PWM_TP2_RX_MAX" "(a < J1850_PWM_BIT_SPLIT) = b"
    using k by (auto simp: classify_active_def pwm_timing split: if_splits)
  have g: "\<not> prev + p < (if st_first s then J1850_PWM_TP4_RX_MIN else J1850_PWM_TP3_RX_MIN)"
    "\<not> prev + p > (if st_first s then J1850_PWM_TP4_RX_MAX else J1850_PWM_TP3_RX_MAX)"
    using t s(2) by (auto split: if_splits)
  have nb: "\<not> (a < J1850_PWM_TP1_RX_MIN \<or> a > J1850_PWM_TP2_RX_MAX \<or>
        prev + p < (if st_first s then J1850_PWM_TP4_RX_MIN else J1850_PWM_TP3_RX_MIN) \<or>
        prev + p > (if st_first s then J1850_PWM_TP4_RX_MAX else J1850_PWM_TP3_RX_MAX) \<or>
        st_len s \<ge> J1850_PWM_MAX_FRAME)"
    using a g s(3) by linarith
  show ?thesis
    unfolding stream_call_def prod.case j1850_pwm_stream_pulse_def if_not_P [OF a(1)] if_not_P [OF nb] a(4)
    using s l by (cases "st_bits s = 7") (simp_all add: Let_def)
qed

lemma stream_byte:
  assumes t: "timed sof prev es (byte_bits d)" and s: "st_valid s" "st_first s = sof" "st_len s < J1850_PWM_MAX_FRAME"
    "length (st_data s) = J1850_PWM_MAX_FRAME" "st_bits s = 0" "st_byte s = 0"
  shows "run_calls stream_call s (stream_calls prev es) =
    Some (s\<lparr>st_data := (st_data s)[st_len s := d], st_len := st_len s + 1, st_crc := crc_step (st_crc s) d,
             st_first := False\<rparr>,
          [False, False, False, False, False, False, False,
           4 \<le> st_len s + 1 \<and> st_len s + 1 < J1850_PWM_MAX_FRAME \<and> crc_step (st_crc s) d = J1850_CRC_RESIDUE])"
proof -
  have len: "length bs = length es" if "timed sof prev es bs" for sof prev es bs
    using that by (induction sof prev es bs rule: timed.induct) (auto split: list.splits)
  have "length es = 8" using len [OF t] by (simp add: byte_bits_def)
  then obtain p7 a7 p6 a6 p5 a5 p4 a4 p3 a3 p2 a2 p1 a1 p0 a0 where
    es: "es = [(p7, a7), (p6, a6), (p5, a5), (p4, a4), (p3, a3), (p2, a2), (p1, a1), (p0, a0)]"
    by (auto simp: numeral_eq_Suc length_Suc_conv)
  note h = t [unfolded es byte_bits_def]
  have h7: "timed False a7 [(p6, a6), (p5, a5), (p4, a4), (p3, a3), (p2, a2), (p1, a1), (p0, a0)]
      [bit d 6, bit d 5, bit d 4, bit d 3, bit d 2, bit d 1, bit d 0]" using h by simp
  have h6: "timed False a6 [(p5, a5), (p4, a4), (p3, a3), (p2, a2), (p1, a1), (p0, a0)]
      [bit d 5, bit d 4, bit d 3, bit d 2, bit d 1, bit d 0]" using h7 by simp
  have h5: "timed False a5 [(p4, a4), (p3, a3), (p2, a2), (p1, a1), (p0, a0)]
      [bit d 4, bit d 3, bit d 2, bit d 1, bit d 0]" using h6 by simp
  have h4: "timed False a4 [(p3, a3), (p2, a2), (p1, a1), (p0, a0)] [bit d 3, bit d 2, bit d 1, bit d 0]" using h5 by simp
  have h3: "timed False a3 [(p2, a2), (p1, a1), (p0, a0)] [bit d 2, bit d 1, bit d 0]" using h4 by simp
  have h2: "timed False a2 [(p1, a1), (p0, a0)] [bit d 1, bit d 0]" using h3 by simp
  have h1: "timed False a1 [(p0, a0)] [bit d 0]" using h2 by simp
  have acc: "shift_in (shift_in (shift_in (shift_in (shift_in (shift_in (shift_in (shift_in 0 (bit d 7)) (bit d 6))
     (bit d 5)) (bit d 4)) (bit d 3)) (bit d 2)) (bit d 1)) (bit d 0) = d"
    using acc_of_bits [of d] by simp
  show ?thesis
    using s acc by (simp add: es stream_bit [OF h] stream_bit [OF h7] stream_bit [OF h6] stream_bit [OF h5]
        stream_bit [OF h4] stream_bit [OF h3] stream_bit [OF h2] stream_bit [OF h1] Let_def)
qed

lemma stream_bytes:
  assumes "timed sof prev es (frame_bits f)" "f \<noteq> []" "st_valid s" "st_first s = sof"
    "st_len s + length f \<le> J1850_PWM_MAX_FRAME" "length (st_data s) = J1850_PWM_MAX_FRAME" "st_bits s = 0" "st_byte s = 0"
  shows "\<exists>s' oks. run_calls stream_call s (stream_calls prev es) = Some (s', oks) \<and> oks \<noteq> [] \<and>
    st_len s' = st_len s + length f \<and>
    take (st_len s') (st_data s') = take (st_len s) (st_data s) @ f \<and>
    (last oks \<longleftrightarrow> 4 \<le> st_len s' \<and> st_len s' < J1850_PWM_MAX_FRAME \<and>
       foldl crc_step (st_crc s) f = J1850_CRC_RESIDUE)"
  using assms
proof (induction f arbitrary: sof prev es s)
  case (Cons d f)
  have "timed sof prev es (byte_bits d @ frame_bits f)" using Cons.prems(1) by simp
  from timed_append [OF this] obtain e1 e2 where e: "es = e1 @ e2" "e1 \<noteq> []" "timed sof prev e1 (byte_bits d)"
    "timed False (snd (last e1)) e2 (frame_bits f)" by (auto simp: byte_bits_def)
  let ?s = "s\<lparr>st_data := (st_data s)[st_len s := d], st_len := st_len s + 1, st_crc := crc_step (st_crc s) d,
             st_first := False\<rparr>"
  have l: "st_len s < length (st_data s)" using Cons.prems by simp
  obtain oks1 where r1: "run_calls stream_call s (stream_calls prev e1) = Some (?s, oks1)" "oks1 \<noteq> []"
    "last oks1 \<longleftrightarrow> 4 \<le> st_len ?s \<and> st_len ?s < J1850_PWM_MAX_FRAME \<and> crc_step (st_crc s) d = J1850_CRC_RESIDUE"
    using stream_byte [OF e(3), of s] Cons.prems by auto
  show ?case
  proof (cases "f = []")
    case True
    then have "e2 = []" using e(4) by (cases e2) auto
    then show ?thesis using r1 True l by (simp add: e(1) take_Suc_conv_app_nth)
  next
    case False
    have p: "st_valid ?s" "st_first ?s = False" "st_len ?s + length f \<le> J1850_PWM_MAX_FRAME"
      "length (st_data ?s) = J1850_PWM_MAX_FRAME" "st_bits ?s = 0" "st_byte ?s = 0"
      using Cons.prems by simp_all
    obtain s' oks where r2: "run_calls stream_call ?s (stream_calls (snd (last e1)) e2) = Some (s', oks)" "oks \<noteq> []"
      "st_len s' = st_len ?s + length f" "take (st_len s') (st_data s') = take (st_len ?s) (st_data ?s) @ f"
      "last oks \<longleftrightarrow> 4 \<le> st_len s' \<and> st_len s' < J1850_PWM_MAX_FRAME \<and> foldl crc_step (st_crc ?s) f = J1850_CRC_RESIDUE"
      using Cons.IH [OF e(4) False p] by blast
    have "run_calls stream_call s (stream_calls prev es) = Some (s', oks1 @ oks)"
      unfolding e(1) stream_calls_append [OF e(2)] run_calls_append r1(1) using r2(1) by simp
    then show ?thesis using r2 l by (simp add: take_Suc_conv_app_nth)
  qed
qed simp

text \<open>A frame that is due an acknowledgement gets it: after a start pulse and the correctly timed
  bits of a frame of 4 to 11 bytes with a valid check byte, the last pulse is answered with yes
  and the decoder holds exactly the frame.\<close>

theorem pwm_stream_recognises:
  assumes "stream_wf s0" "classify_active sof = SYM_SOF" "timed True sof es (frame_bits f)"
    "j1850_crc_check (Some f)" "4 \<le> length f" "length f < J1850_PWM_MAX_FRAME"
  shows "\<exists>s oks. run_calls stream_call s0 ((sof, gap) # stream_calls sof es) = Some (s, oks) \<and> last oks \<and>
    take (st_len s) (st_data s) = f"
proof -
  let ?s = "s0\<lparr>st_len := 0, st_bits := 0, st_byte := 0, st_crc := 0xFF, st_valid := True, st_first := True\<rparr>"
  have c: "stream_call s0 (sof, gap) = Some (?s, False)"
    using assms(2) by (auto simp: stream_call_def j1850_pwm_stream_pulse_def classify_active_def split: if_splits)
  have ne: "f \<noteq> []" using assms(5) by auto
  obtain m where m: "f = m @ [j1850_crc (Some m)]" using assms(4) by (rule crc_checkE)
  have "foldl crc_step 0xFF f = J1850_CRC_RESIDUE" unfolding m by (rule crc_residue)
  moreover have p: "st_valid ?s" "st_first ?s = True" "st_len ?s + length f \<le> J1850_PWM_MAX_FRAME"
      "length (st_data ?s) = J1850_PWM_MAX_FRAME" "st_bits ?s = 0" "st_byte ?s = 0"
    using assms(1,6) by (simp_all add: stream_wf_def)
  obtain s oks where r: "run_calls stream_call ?s (stream_calls sof es) = Some (s, oks)" "oks \<noteq> []"
    "st_len s = st_len ?s + length f" "take (st_len s) (st_data s) = take (st_len ?s) (st_data ?s) @ f"
    "last oks \<longleftrightarrow> 4 \<le> st_len s \<and> st_len s < J1850_PWM_MAX_FRAME \<and> foldl crc_step (st_crc ?s) f = J1850_CRC_RESIDUE"
    using stream_bytes [OF assms(3) ne p] by blast
  ultimately have "last oks" "take (st_len s) (st_data s) = f" using assms(5,6) by simp_all
  then show ?thesis using c r(1,2) by auto
qed

lemma pwm_stream_recognises_witness:
  "\<exists>s oks. run_calls stream_call stream_zero
      ((31, 0) # stream_calls 31 (zip (17 # map (\<lambda>(d, b). if bit d b then 17 else 9) (butlast (msb_first [0xC4, 0x6B, 0x10, 0x8b])))
         (map (\<lambda>(d, b). if bit d b then 7 else 15) (msb_first [0xC4, 0x6B, 0x10, 0x8b])))) = Some (s, oks) \<and> last oks"
proof -
  let ?f = "[0xC4, 0x6B, 0x10, 0x8b]"
  let ?es = "zip (17 # map (\<lambda>(d, b). if bit d b then 17 else 9) (butlast (msb_first ?f)))
         (map (\<lambda>(d, b). if bit d b then 7 else 15) (msb_first ?f))"
  have w: "stream_wf stream_zero"
    by (simp add: stream_wf_def stream_zero_def J1850_VPW_MAX_FRAME_def J1850_MAX_FRAME_def)
  have k: "classify_active 31 = SYM_SOF" by code_simp
  have t: "timed True 31 ?es (frame_bits ?f)" by code_simp
  have c: "j1850_crc_check (Some ?f)" by code_simp
  have l: "4 \<le> length ?f" "length ?f < J1850_PWM_MAX_FRAME"
    by (simp_all add: J1850_VPW_MAX_FRAME_def J1850_MAX_FRAME_def)
  show ?thesis using pwm_stream_recognises [OF w k t c l, of 0] by blast
qed

end
