(* ===== verification/BusTx.thy ===== *)
theory BusTx
  imports Prelude
begin

text \<open>
What every bus driver shares: the parameter names of \<open>main/bus.c\<close>, and from
  \<open>main/bus_tx.c\<close> the control block through which one task may cancel what another is about to
  transmit, and the receive epochs with their record of losses. Atomic accesses of the C code
  are the atomic steps of the model; \<open>ctl_call\<close> interleaves them in any order.
  The lemmas: the table as a dictionary, what one step does to the control block, the mutual
  exclusion of cancellation and admission, and the order of sequence numbers across the wrap.
\<close>

section \<open>Parameters\<close>

datatype bus_param =
    BUS_P_DATA_RATE | BUS_P_NODE_ADDRESS | BUS_P_NETWORK_LINE | BUS_P_P1_MAX | BUS_P_P2_MAX
  | BUS_P_P3_MIN | BUS_P_P4_MIN | BUS_P_W1_MAX | BUS_P_W2_MAX | BUS_P_W3_MAX | BUS_P_W4_MIN
  | BUS_P_W5_MIN | BUS_P_TIDLE | BUS_P_TINIL | BUS_P_TWUP | BUS_P_PARITY | BUS_P_W0_MIN
  | BUS_P_DATA_BITS | BUS_P_FIVE_BAUD_MOD | BUS_P_W4_MAX | BUS_P_LOOPBACK | BUS_P_CHECKSUM_RX
  | BUS_P_CHECKSUM_TX | BUS_P_TX_RETRIES | BUS_P_DUPLICATE_MS | BUS_P_PERIODIC_MS
  | BUS_P_PERIODIC_QUIET | BUS_P_TIMING_FROM_KEYBYTES | BUS_P_IFR_ENABLED | BUS_P_IFR_BYTE
  | BUS_P_ARBITRATION | BUS_P_K_LINE_ONLY | BUS_P_KLINE_FRAME_MODE

text \<open>The numbers of the enumeration, J2534's below \<open>BUS_P_VENDOR_BASE\<close>.\<close>

definition BUS_P_VENDOR_BASE :: u32w where "BUS_P_VENDOR_BASE = 0x10000"

fun bus_param_num :: "bus_param \<Rightarrow> u32w" where
  "bus_param_num BUS_P_DATA_RATE = 0x01"
| "bus_param_num BUS_P_NODE_ADDRESS = 0x04"
| "bus_param_num BUS_P_NETWORK_LINE = 0x05"
| "bus_param_num BUS_P_P1_MAX = 0x07"
| "bus_param_num BUS_P_P2_MAX = 0x09"
| "bus_param_num BUS_P_P3_MIN = 0x0A"
| "bus_param_num BUS_P_P4_MIN = 0x0C"
| "bus_param_num BUS_P_W1_MAX = 0x0E"
| "bus_param_num BUS_P_W2_MAX = 0x0F"
| "bus_param_num BUS_P_W3_MAX = 0x10"
| "bus_param_num BUS_P_W4_MIN = 0x11"
| "bus_param_num BUS_P_W5_MIN = 0x12"
| "bus_param_num BUS_P_TIDLE = 0x13"
| "bus_param_num BUS_P_TINIL = 0x14"
| "bus_param_num BUS_P_TWUP = 0x15"
| "bus_param_num BUS_P_PARITY = 0x16"
| "bus_param_num BUS_P_W0_MIN = 0x19"
| "bus_param_num BUS_P_DATA_BITS = 0x20"
| "bus_param_num BUS_P_FIVE_BAUD_MOD = 0x21"
| "bus_param_num BUS_P_W4_MAX = 0x29"
| "bus_param_num BUS_P_LOOPBACK = 0x31"
| "bus_param_num BUS_P_CHECKSUM_RX = 0x10000"
| "bus_param_num BUS_P_CHECKSUM_TX = 0x10001"
| "bus_param_num BUS_P_TX_RETRIES = 0x10002"
| "bus_param_num BUS_P_DUPLICATE_MS = 0x10003"
| "bus_param_num BUS_P_PERIODIC_MS = 0x10004"
| "bus_param_num BUS_P_PERIODIC_QUIET = 0x10005"
| "bus_param_num BUS_P_TIMING_FROM_KEYBYTES = 0x10006"
| "bus_param_num BUS_P_IFR_ENABLED = 0x10007"
| "bus_param_num BUS_P_IFR_BYTE = 0x10008"
| "bus_param_num BUS_P_ARBITRATION = 0x10009"
| "bus_param_num BUS_P_K_LINE_ONLY = 0x1000A"
| "bus_param_num BUS_P_KLINE_FRAME_MODE = 0x1000B"

definition g_params :: "(bus_param \<times> string) list" where
  "g_params =
     [(BUS_P_DATA_RATE, ''data-rate''), (BUS_P_NODE_ADDRESS, ''node-address''),
      (BUS_P_NETWORK_LINE, ''network-line''), (BUS_P_P1_MAX, ''p1-max''),
      (BUS_P_P2_MAX, ''p2-max''), (BUS_P_P3_MIN, ''p3-min''), (BUS_P_P4_MIN, ''p4-min''),
      (BUS_P_W0_MIN, ''w0-min''), (BUS_P_W1_MAX, ''w1-max''), (BUS_P_W2_MAX, ''w2-max''),
      (BUS_P_W3_MAX, ''w3-max''), (BUS_P_W4_MIN, ''w4-min''), (BUS_P_W4_MAX, ''w4-max''),
      (BUS_P_W5_MIN, ''w5-min''), (BUS_P_TIDLE, ''tidle''), (BUS_P_TINIL, ''tinil''),
      (BUS_P_TWUP, ''twup''), (BUS_P_PARITY, ''parity''), (BUS_P_DATA_BITS, ''data-bits''),
      (BUS_P_FIVE_BAUD_MOD, ''five-baud-mod''), (BUS_P_LOOPBACK, ''loopback''),
      (BUS_P_CHECKSUM_RX, ''checksum-rx''), (BUS_P_CHECKSUM_TX, ''checksum-tx''),
      (BUS_P_TX_RETRIES, ''tx-retries''), (BUS_P_DUPLICATE_MS, ''duplicate-ms''),
      (BUS_P_PERIODIC_MS, ''periodic-ms''), (BUS_P_PERIODIC_QUIET, ''periodic-quiet''),
      (BUS_P_TIMING_FROM_KEYBYTES, ''timing-from-keybytes''), (BUS_P_IFR_ENABLED, ''ifr-enabled''),
      (BUS_P_IFR_BYTE, ''ifr-byte''), (BUS_P_ARBITRATION, ''arbitration''),
      (BUS_P_K_LINE_ONLY, ''k-line-only'')]"

definition bus_param_name :: "bus_param \<Rightarrow> string option" where
  "bus_param_name p = map_option snd (find (\<lambda>e. fst e = p) g_params)"

text \<open>\<open>strcasecmp\<close> in the C locale: ASCII letters compare without their case.\<close>

definition to_lower :: "char \<Rightarrow> char" where
  "to_lower c = (let n = (of_char c :: nat) in if 65 \<le> n \<and> n \<le> 90 then char_of (n + 32) else c)"

definition strcasecmp_eq :: "string \<Rightarrow> string \<Rightarrow> bool" where
  "strcasecmp_eq s t \<longleftrightarrow> map to_lower s = map to_lower t"

definition bus_param_from_name :: "string \<Rightarrow> bus_param option" where
  "bus_param_from_name name = map_option fst (find (\<lambda>e. strcasecmp_eq name (snd e)) g_params)"

definition bus_param_at :: "nat \<Rightarrow> (bus_param \<times> string) option" where
  "bus_param_at idx = (if idx \<ge> length g_params then None else Some (g_params ! idx))"

lemma find_distinct:
  "distinct (map f xs) \<Longrightarrow> i < length xs \<Longrightarrow> find (\<lambda>e. f e = f (xs ! i)) xs = Some (xs ! i)"
proof (induction xs arbitrary: i)
  case (Cons x xs)
  then show ?case by (cases i) (auto simp: image_iff)
qed simp

lemma find_NoneI: "(\<And>x. x \<in> set xs \<Longrightarrow> \<not> P x) \<Longrightarrow> find P xs = None"
  by (induction xs) auto

lemma params_distinct: "distinct (map fst g_params)" "distinct (map (map to_lower \<circ> snd) g_params)"
  by code_simp+

lemma from_name_nth:
  assumes "i < length g_params" "strcasecmp_eq name (snd (g_params ! i))"
  shows "bus_param_from_name name = Some (fst (g_params ! i))"
proof -
  have eq: "(\<lambda>e. strcasecmp_eq name (snd e)) =
      (\<lambda>e. (map to_lower \<circ> snd) e = (map to_lower \<circ> snd) (g_params ! i))"
    using assms(2) by (auto simp: strcasecmp_eq_def)
  have "find (\<lambda>e. strcasecmp_eq name (snd e)) g_params = Some (g_params ! i)"
    by (subst eq) (rule find_distinct [OF params_distinct(2) assms(1)])
  then show ?thesis by (simp add: bus_param_from_name_def)
qed

text \<open>The parameter table is a two-way dictionary: every parameter the walk reaches has the
  name it shows there, and that name in any mixture of cases leads back to the parameter. The one
  parameter without a name is \<open>BUS_P_KLINE_FRAME_MODE\<close>, which the walk never reaches.\<close>

theorem bus_params_dictionary:
  "(\<forall>idx p n. bus_param_at idx = Some (p, n) \<longrightarrow>
      bus_param_name p = Some n \<and> (\<forall>name. strcasecmp_eq name n \<longrightarrow> bus_param_from_name name = Some p)) \<and>
   (\<forall>p. bus_param_name p = None \<longleftrightarrow> p = BUS_P_KLINE_FRAME_MODE) \<and>
   (\<forall>name. bus_param_from_name name \<noteq> Some BUS_P_KLINE_FRAME_MODE)"
proof (intro conjI allI impI)
  fix idx p n assume a: "bus_param_at idx = Some (p, n)"
  then have i: "idx < length g_params" "g_params ! idx = (p, n)"
    by (auto simp: bus_param_at_def split: if_splits)
  then show "bus_param_name p = Some n"
    using find_distinct [OF params_distinct(1) i(1)] by (simp add: bus_param_name_def)
  show "bus_param_from_name name = Some p" if "strcasecmp_eq name n" for name
    using from_name_nth [OF i(1)] that i(2) by simp
next
  fix p show "bus_param_name p = None \<longleftrightarrow> p = BUS_P_KLINE_FRAME_MODE"
    by (cases p) (simp_all add: bus_param_name_def g_params_def)
next
  fix name show "bus_param_from_name name \<noteq> Some BUS_P_KLINE_FRAME_MODE"
  proof
    assume "bus_param_from_name name = Some BUS_P_KLINE_FRAME_MODE"
    then obtain e where e: "find (\<lambda>e. strcasecmp_eq name (snd e)) g_params = Some e" "fst e = BUS_P_KLINE_FRAME_MODE"
      by (auto simp: bus_param_from_name_def)
    then have "BUS_P_KLINE_FRAME_MODE \<in> fst ` set g_params"
      by (metis find_Some_iff image_eqI nth_mem)
    then show False by (simp add: g_params_def)
  qed
qed

lemma bus_params_dictionary_witness: "bus_param_from_name ''W5-Min'' = Some BUS_P_W5_MIN"
proof -
  have "bus_param_at 13 = Some (BUS_P_W5_MIN, ''w5-min'')" "strcasecmp_eq ''W5-Min'' ''w5-min''"
    by code_simp+
  then show ?thesis using bus_params_dictionary by blast
qed

section \<open>Admission of one transmission\<close>

definition BUS_ERR_TIMEOUT :: int where "BUS_ERR_TIMEOUT = -1"
definition BUS_ERR_NO_SPACE :: int where "BUS_ERR_NO_SPACE = -2"
definition BUS_ERR_NOT_READY :: int where "BUS_ERR_NOT_READY = -3"
definition BUS_ERR_TOO_LONG :: int where "BUS_ERR_TOO_LONG = -4"
definition BUS_ERR_INIT :: int where "BUS_ERR_INIT = -7"
definition BUS_ERR_BAD_ARG :: int where "BUS_ERR_BAD_ARG = -8"
definition BUS_ERR_CANCELLED :: int where "BUS_ERR_CANCELLED = -13"
definition BUS_ERR_RX_PENDING :: int where "BUS_ERR_RX_PENDING = -14"
definition BUS_TX_WAIT_P3_MIN_ONLY :: u32w where "BUS_TX_WAIT_P3_MIN_ONLY = 2"
definition BUS_TX_WAIT_DONE :: u32w where "BUS_TX_WAIT_DONE = 4"
definition BUS_TX_CLEAR_RX_QUEUE :: u32w where "BUS_TX_CLEAR_RX_QUEUE = 8"
definition BUS_TX_CHECK_RX :: u32w where "BUS_TX_CHECK_RX = 16"

datatype bus_tx_state = BUS_TX_QUEUED | BUS_TX_ACTIVE | BUS_TX_CANCELLED

record bus_tx_control =
  ct_state :: bus_tx_state
  ct_check_rx :: bool
  ct_rx_sequence :: u32w
  ct_started_us :: u32w
  ct_ended_us :: u32w
  ct_ended :: bool

definition bus_tx_prepare :: "u32w \<Rightarrow> bus_tx_control" where
  "bus_tx_prepare rx_sequence =
     \<lparr>ct_state = BUS_TX_QUEUED, ct_check_rx = False, ct_rx_sequence = rx_sequence,
      ct_started_us = 0, ct_ended_us = 0, ct_ended = False\<rparr>"

text \<open>A compare-and-exchange of the state is one atomic step.\<close>

definition ct_cas :: "bus_tx_control \<Rightarrow> bus_tx_state \<Rightarrow> bus_tx_state \<Rightarrow> bus_tx_control \<times> bool" where
  "ct_cas c expected desired =
     (if ct_state c = expected then (c\<lparr>ct_state := desired\<rparr>, True) else (c, False))"

definition bus_tx_cancel :: "bus_tx_control \<Rightarrow> bus_tx_control \<times> bool" where
  "bus_tx_cancel c = ct_cas c BUS_TX_QUEUED BUS_TX_CANCELLED"

definition bus_tx_cancelled :: "bus_tx_control option \<Rightarrow> bool" where
  "bus_tx_cancelled c = (case c of None \<Rightarrow> False | Some c \<Rightarrow> ct_state c = BUS_TX_CANCELLED)"

text \<open>
  \<open>bus_tx_admit\<close> loads the state, decides, stores the time stamp, and exchanges the state. The
  other task may cancel between the load and the exchange, so the function has two halves: what
  the load decides (\<open>Inl\<close> a result, \<open>Inr\<close> go on), and the store with the exchange.
\<close>

definition admit_load :: "bus_tx_control \<Rightarrow> u32w \<Rightarrow> int + bus_tx_state" where
  "admit_load c rx_sequence =
     (let state = ct_state c in
      if state = BUS_TX_CANCELLED then Inl BUS_ERR_CANCELLED
      else if state = BUS_TX_ACTIVE then Inl 0
      else if ct_check_rx c \<and> ct_rx_sequence c \<noteq> rx_sequence then Inl BUS_ERR_RX_PENDING
      else Inr state)"

definition admit_exchange :: "bus_tx_control \<Rightarrow> bus_tx_state \<Rightarrow> u32w \<Rightarrow> bus_tx_control \<times> int" where
  "admit_exchange c state timestamp_us =
     (let (c, ok) = ct_cas (c\<lparr>ct_started_us := timestamp_us\<rparr>) state BUS_TX_ACTIVE
      in (c, if ok then 0 else BUS_ERR_CANCELLED))"

definition bus_tx_admit :: "bus_tx_control option \<Rightarrow> u32w \<Rightarrow> u32w \<Rightarrow> bus_tx_control option \<times> int" where
  "bus_tx_admit cp rx_sequence timestamp_us =
     (case cp of None \<Rightarrow> (None, 0)
      | Some c \<Rightarrow>
          (case admit_load c rx_sequence of
             Inl r \<Rightarrow> (Some c, r)
           | Inr state \<Rightarrow> let (c, r) = admit_exchange c state timestamp_us in (Some c, r)))"

definition bus_tx_end :: "bus_tx_control \<Rightarrow> u32w \<Rightarrow> bus_tx_control" where
  "bus_tx_end c timestamp_us = c\<lparr>ct_ended_us := timestamp_us, ct_ended := True\<rparr>"

section \<open>Receive epochs\<close>

record bus_rx_epoch =
  ep_sequence :: u32w
  ep_lost :: u32w

definition bus_rx_next :: "bus_rx_epoch \<Rightarrow> bus_rx_epoch \<times> u32w" where
  "bus_rx_next e =
     (let s = ep_sequence e + 1; s = (if s = 0 then s + 1 else s)
      in (e\<lparr>ep_sequence := s\<rparr>, s))"

definition bus_rx_sequence :: "bus_rx_epoch \<Rightarrow> u32w" where
  "bus_rx_sequence e = ep_sequence e"

text \<open>The exchange succeeds at once when no other writer interferes; a retry sees its value.\<close>

definition bus_rx_lost :: "bus_rx_epoch \<Rightarrow> u32w \<Rightarrow> bus_rx_epoch" where
  "bus_rx_lost e s =
     (let previous = ep_lost e
      in if previous = 0 \<or> 0 < sint (s - previous) then e\<lparr>ep_lost := s\<rparr> else e)"

definition BUS_RX_TX_MSG_TYPE :: u32w where "BUS_RX_TX_MSG_TYPE = 1"
definition BUS_RX_BREAK :: u32w where "BUS_RX_BREAK = 2"
definition BUS_RX_START_OF_MSG :: u32w where "BUS_RX_START_OF_MSG = 4"
definition BUS_RX_BAD_CHECKSUM :: u32w where "BUS_RX_BAD_CHECKSUM = 16"
definition BUS_RX_LINK_DOWN :: u32w where "BUS_RX_LINK_DOWN = 128"
definition BUS_RX_BUFFER_OVERFLOW :: u32w where "BUS_RX_BUFFER_OVERFLOW = 8"
definition BUS_RX_PERIODIC_REPLY :: u32w where "BUS_RX_PERIODIC_REPLY = 32"
definition BUS_RX_DUPLICATE :: u32w where "BUS_RX_DUPLICATE = 64"

record bus_msg =
  bm_data :: "byte list"
  bm_len :: nat
  bm_status :: u32w
  bm_timestamp_us :: u32w
  bm_sequence :: u32w
  bm_id :: u32w

definition bus_msg_tx :: "byte list \<Rightarrow> nat \<Rightarrow> u32w \<Rightarrow> bus_msg" where
  "bus_msg_tx data len i =
     \<lparr>bm_data = data, bm_len = u16 len, bm_status = 0, bm_timestamp_us = 0, bm_sequence = 0, bm_id = i\<rparr>"

definition bus_rx_take_loss :: "bus_rx_epoch \<Rightarrow> bus_msg \<Rightarrow> bus_rx_epoch \<times> bus_msg \<times> bool" where
  "bus_rx_take_loss e msg =
     (let s = ep_lost e; e = e\<lparr>ep_lost := 0\<rparr>
      in if s = 0 then (e, msg, False)
         else (e, msg\<lparr>bm_len := 0, bm_status := BUS_RX_BUFFER_OVERFLOW, bm_sequence := s\<rparr>, True))"


section \<open>One admission against any number of cancellations\<close>

text \<open>
  The atomic steps of the two tasks on one prepared control block. The driver may ask for
  admission again after a refusal or a retransmission, the client may cancel at any time.
\<close>

datatype ctl_step = CtlCancel | CtlLoad u32w | CtlExchange u32w | CtlEnd u32w

text \<open>What a step lets its task see: the answer to a cancellation, or the result of an admission.\<close>

datatype ctl_answer = Cancelled bool | Admitted int | Nothing

text \<open>\<open>pending\<close> is the driver between its load and its exchange.\<close>

record ctl_system =
  sy_control :: bus_tx_control
  sy_pending :: "bus_tx_state option"

fun ctl_call :: "ctl_system \<Rightarrow> ctl_step \<Rightarrow> (ctl_system \<times> ctl_answer) option" where
  "ctl_call s CtlCancel =
     (let (c, ok) = bus_tx_cancel (sy_control s) in Some (s\<lparr>sy_control := c\<rparr>, Cancelled ok))"
| "ctl_call s (CtlLoad seq) =
     (case admit_load (sy_control s) seq of
        Inl r \<Rightarrow> Some (s\<lparr>sy_pending := None\<rparr>, Admitted r)
      | Inr st \<Rightarrow> Some (s\<lparr>sy_pending := Some st\<rparr>, Nothing))"
| "ctl_call s (CtlExchange ts) =
     (case sy_pending s of
        None \<Rightarrow> Some (s, Nothing)
      | Some st \<Rightarrow>
          let (c, r) = admit_exchange (sy_control s) st ts
          in Some (s\<lparr>sy_control := c, sy_pending := None\<rparr>, Admitted r))"
| "ctl_call s (CtlEnd ts) = Some (s\<lparr>sy_control := bus_tx_end (sy_control s) ts\<rparr>, Nothing)"

definition ctl_inv :: "ctl_system \<Rightarrow> bool" where
  "ctl_inv s \<longleftrightarrow> sy_pending s \<in> {None, Some BUS_TX_QUEUED}"

lemma admit_load_cases:
  "admit_load c q = Inr st \<Longrightarrow> st = BUS_TX_QUEUED \<and> ct_state c = BUS_TX_QUEUED"
  "admit_load c q = Inl 0 \<Longrightarrow> ct_state c = BUS_TX_ACTIVE"
  "ct_state c = BUS_TX_ACTIVE \<Longrightarrow> admit_load c q = Inl 0"
  "ct_state c = BUS_TX_CANCELLED \<Longrightarrow> admit_load c q = Inl BUS_ERR_CANCELLED"
  by (cases "ct_state c"; auto simp: admit_load_def BUS_ERR_CANCELLED_def BUS_ERR_RX_PENDING_def split: if_splits)+

lemma admit_exchange_eq:
  "admit_exchange c st ts =
     (if ct_state c = st then (c\<lparr>ct_started_us := ts, ct_state := BUS_TX_ACTIVE\<rparr>, 0)
      else (c\<lparr>ct_started_us := ts\<rparr>, BUS_ERR_CANCELLED))"
  by (simp add: admit_exchange_def ct_cas_def)

lemma ctl_step_all:
  assumes "ctl_inv s" "ctl_call s c = Some (s', a)"
  shows "ctl_inv s' \<and>
    (ct_state (sy_control s) = BUS_TX_CANCELLED \<longrightarrow>
      ct_state (sy_control s') = BUS_TX_CANCELLED \<and> a \<noteq> Admitted 0 \<and> a \<noteq> Cancelled True) \<and>
    (ct_state (sy_control s) = BUS_TX_ACTIVE \<longrightarrow>
      ct_state (sy_control s') = BUS_TX_ACTIVE \<and> a \<noteq> Cancelled True) \<and>
    (a = Cancelled True \<longrightarrow> ct_state (sy_control s') = BUS_TX_CANCELLED) \<and>
    (a = Admitted 0 \<longrightarrow> ct_state (sy_control s') = BUS_TX_ACTIVE)"
proof (cases c)
  case CtlCancel
  with assms show ?thesis
    by (cases "ct_state (sy_control s)") (auto simp: ctl_inv_def bus_tx_cancel_def ct_cas_def)
next
  case (CtlLoad q)
  note l = admit_load_cases [of "sy_control s" q]
  show ?thesis
  proof (cases "admit_load (sy_control s) q")
    case (Inl r)
    then have "s' = s\<lparr>sy_pending := None\<rparr>" "a = Admitted r" using assms CtlLoad by simp_all
    moreover have "ct_state (sy_control s) = BUS_TX_CANCELLED \<Longrightarrow> r \<noteq> 0"
      using l(4) Inl by (auto simp: BUS_ERR_CANCELLED_def)
    moreover have "r = 0 \<Longrightarrow> ct_state (sy_control s) = BUS_TX_ACTIVE" using l(2) Inl by blast
    ultimately show ?thesis by (simp add: ctl_inv_def)
  next
    case (Inr st)
    then have "s' = s\<lparr>sy_pending := Some st\<rparr>" "a = Nothing" using assms CtlLoad by simp_all
    then show ?thesis using l(1) [OF Inr] assms(1) by (simp add: ctl_inv_def)
  qed
next
  case (CtlExchange ts)
  show ?thesis
  proof (cases "sy_pending s")
    case None
    then have "s' = s" "a = Nothing" using assms CtlExchange by simp_all
    then show ?thesis using assms(1) by simp
  next
    case (Some st)
    then have st: "st = BUS_TX_QUEUED" using assms(1) by (simp add: ctl_inv_def)
    show ?thesis using assms Some CtlExchange
      by (cases "ct_state (sy_control s)")
        (auto simp: ctl_inv_def admit_exchange_eq st BUS_ERR_CANCELLED_def)
  qed
next
  case (CtlEnd ts)
  then have "s' = s\<lparr>sy_control := bus_tx_end (sy_control s) ts\<rparr>" "a = Nothing" using assms by simp_all
  then show ?thesis using assms(1) by (simp add: ctl_inv_def bus_tx_end_def)
qed

lemma ctl_step_state:
  assumes "ctl_inv s" "ctl_call s c = Some (s', a)"
  shows "ctl_inv s'"
    and "ct_state (sy_control s) = BUS_TX_CANCELLED \<Longrightarrow>
      ct_state (sy_control s') = BUS_TX_CANCELLED \<and> a \<noteq> Admitted 0 \<and> a \<noteq> Cancelled True"
    and "ct_state (sy_control s) = BUS_TX_ACTIVE \<Longrightarrow>
      ct_state (sy_control s') = BUS_TX_ACTIVE \<and> a \<noteq> Cancelled True"
    and "a = Cancelled True \<Longrightarrow> ct_state (sy_control s') = BUS_TX_CANCELLED"
    and "a = Admitted 0 \<Longrightarrow> ct_state (sy_control s') = BUS_TX_ACTIVE"
  using ctl_step_all [OF assms] by blast+

lemma ctl_total: "\<exists>s' a. ctl_call s c = Some (s', a)"
  by (cases c; cases "sy_pending s"; auto simp: split_beta Let_def split: sum.split)

interpretation ctlm: safe_machine ctl_call ctl_inv "\<lambda>_. True"
proof
  fix s c assume i: "ctl_inv s"
  obtain s' a where "ctl_call s c = Some (s', a)"
    using ctl_total by blast
  with ctl_step_state(1) [OF i this] show "\<exists>s' r. ctl_call s c = Some (s', r) \<and> ctl_inv s'" by blast
qed

text \<open>From a decided control block the other side never gets its answer any more.\<close>

lemma ctl_decided:
  assumes "ctl_inv s" "run_calls ctl_call s steps = Some (s', as)"
  shows "ct_state (sy_control s) = BUS_TX_CANCELLED \<Longrightarrow> Admitted 0 \<notin> set as \<and> Cancelled True \<notin> set as"
    and "ct_state (sy_control s) = BUS_TX_ACTIVE \<Longrightarrow> Cancelled True \<notin> set as"
  using assms
proof (induction steps arbitrary: s as)
  case (Cons c cs)
  {
    case 1
    then obtain s1 a as' where r: "ctl_call s c = Some (s1, a)" "run_calls ctl_call s1 cs = Some (s', as')" "as = a # as'"
      by (auto split: Option.bind_splits)
    note st = ctl_step_state [OF 1(2) r(1)]
    show ?case using Cons(1) [OF _ st(1) r(2)] st(2) 1(1) r(3) by auto
  next
    case 2
    then obtain s1 a as' where r: "ctl_call s c = Some (s1, a)" "run_calls ctl_call s1 cs = Some (s', as')" "as = a # as'"
      by (auto split: Option.bind_splits)
    note st = ctl_step_state [OF 2(2) r(1)]
    show ?case using Cons(2) [OF _ st(1) r(2)] st(3) 2(1) r(3) by auto
  }
qed auto

lemma ctl_exclusive:
  assumes "ctl_inv s" "run_calls ctl_call s steps = Some (s', as)"
  shows "\<not> (Cancelled True \<in> set as \<and> Admitted 0 \<in> set as) \<and> count_list as (Cancelled True) \<le> 1"
  using assms
proof (induction steps arbitrary: s as)
  case (Cons c cs)
  then obtain s1 a as' where r: "ctl_call s c = Some (s1, a)" "run_calls ctl_call s1 cs = Some (s', as')" "as = a # as'"
    by (auto split: Option.bind_splits)
  note st = ctl_step_state [OF Cons.prems(1) r(1)]
  have ih: "\<not> (Cancelled True \<in> set as' \<and> Admitted 0 \<in> set as') \<and> count_list as' (Cancelled True) \<le> 1"
    by (rule Cons.IH [OF st(1) r(2)])
  have "Admitted 0 \<notin> set as' \<and> Cancelled True \<notin> set as'" if "a = Cancelled True"
    using ctl_decided(1) [OF st(1) r(2)] st(4) that by blast
  moreover have "Cancelled True \<notin> set as'" if "a = Admitted 0"
    using ctl_decided(2) [OF st(1) r(2)] st(5) that by blast
  ultimately show ?case using ih by (auto simp: r(3))
qed simp

text \<open>C9: Cancellation and admission exclude each other: whatever the interleaving of the atomic steps
  of a driver that asks for admission, possibly repeatedly, and a client that cancels, possibly
  repeatedly, no step is undefined, at most one cancellation is told it won, and if one is, no
  admission is ever granted: the bytes of a cancelled message never reach the bus.\<close>

theorem bus_tx_cancel_excludes_admit:
  assumes "s = \<lparr>sy_control = (bus_tx_prepare seq)\<lparr>ct_check_rx := chk\<rparr>, sy_pending = None\<rparr>"
  shows "\<exists>s' as. run_calls ctl_call s steps = Some (s', as) \<and>
    count_list as (Cancelled True) \<le> 1 \<and>
    (Cancelled True \<in> set as \<longrightarrow> Admitted 0 \<notin> set as \<and> ct_state (sy_control s') \<noteq> BUS_TX_ACTIVE)"
proof -
  have i: "ctl_inv s" by (simp add: assms ctl_inv_def)
  have "list_all (\<lambda>_. True) steps" by (simp add: list_all_iff)
  from ctlm.run_safe [OF i this] obtain s' as where r: "run_calls ctl_call s steps = Some (s', as)" by blast
  have "Cancelled True \<notin> set bs"
    if "ctl_inv u" "run_calls ctl_call u cs = Some (u', bs)" "ct_state (sy_control u') = BUS_TX_ACTIVE" for u cs u' bs
    using that
  proof (induction cs arbitrary: u bs)
    case (Cons c cs)
    then obtain u1 a bs' where q: "ctl_call u c = Some (u1, a)" "run_calls ctl_call u1 cs = Some (u', bs')" "bs = a # bs'"
      by (auto split: Option.bind_splits)
    note st = ctl_step_state [OF Cons.prems(1) q(1)]
    have "ct_state (sy_control w') = BUS_TX_CANCELLED"
      if "ctl_inv w" "run_calls ctl_call w ds = Some (w', es)" "ct_state (sy_control w) = BUS_TX_CANCELLED" for w ds w' es
      using that
    proof (induction ds arbitrary: w es)
      case (Cons d ds)
      then obtain w1 e es' where "ctl_call w d = Some (w1, e)" "run_calls ctl_call w1 ds = Some (w', es')"
        by (auto split: Option.bind_splits)
      then show ?case using Cons.IH [of w1 es'] ctl_step_state [OF Cons.prems(1)] Cons.prems(3) by blast
    qed simp
    from this [OF st(1) q(2)] have "a \<noteq> Cancelled True" using st(4) Cons.prems(3) by auto
    then show ?case using Cons.IH [OF st(1) q(2) Cons.prems(3)] q(3) by simp
  qed simp
  from this [OF i r] ctl_exclusive [OF i r] r show ?thesis by blast
qed

lemma bus_tx_cancel_excludes_admit_witness:
  "\<exists>s' as. run_calls ctl_call \<lparr>sy_control = bus_tx_prepare 7, sy_pending = None\<rparr>
      [CtlLoad 7, CtlCancel, CtlExchange 100, CtlLoad 7, CtlCancel] = Some (s', as) \<and>
    as = [Nothing, Cancelled True, Admitted (-13), Admitted (-13), Cancelled False] \<and> Admitted 0 \<notin> set as"
proof -
  let ?s = "\<lparr>sy_control = bus_tx_prepare 7, sy_pending = None\<rparr>"
  let ?c = "[CtlLoad 7, CtlCancel, CtlExchange 100, CtlLoad 7, CtlCancel]"
  have e: "?s = \<lparr>sy_control = (bus_tx_prepare 7)\<lparr>ct_check_rx := False\<rparr>, sy_pending = None\<rparr>"
    by (simp add: bus_tx_prepare_def)
  have "map_option snd (run_calls ctl_call ?s ?c) =
      Some [Nothing, Cancelled True, Admitted (-13), Admitted (-13), Cancelled False]" by code_simp
  then show ?thesis using bus_tx_cancel_excludes_admit [OF e, of ?c] by auto
qed


section \<open>The record of losses\<close>

lemma sint_order:
  assumes "a < 2147483648" "b < 2147483648"
  shows "0 < sint ((base + of_nat a) - (base + of_nat b) :: u32w) \<longleftrightarrow> b < a"
proof -
  let ?x = "(base + of_nat a) - (base + of_nat b) :: u32w"
  have x: "?x = of_nat a - of_nat b" by simp
  have ua: "unat (of_nat a :: u32w) = a" "unat (of_nat b :: u32w) = b" using assms by (simp_all add: unat_of_nat)
  have "unat ?x = (if b \<le> a then a - b else a + 4294967296 - b)"
    unfolding x using ua by (simp add: unat_sub_if')
  then have "unat ?x < 2147483648 \<longleftrightarrow> b \<le> a" "?x = 0 \<longleftrightarrow> a = b"
    using assms by (auto simp: unat_eq_zero [symmetric] simp del: unat_eq_zero)
  moreover have "0 < sint ?x \<longleftrightarrow> 0 \<le> sint ?x \<and> ?x \<noteq> 0"
    by (metis order_less_le signed_eq_0_iff)
  ultimately show ?thesis unfolding sint_nonneg_iff by auto
qed

lemma lost_max:
  assumes "\<forall>k \<in> set ks. k < 2147483648 \<and> base + of_nat k \<noteq> 0" "m < 2147483648" "base + of_nat m \<noteq> 0"
  shows "ep_lost (foldl bus_rx_lost (e\<lparr>ep_lost := base + of_nat m\<rparr>) (map (\<lambda>k. base + of_nat k) ks)) =
    base + of_nat (Max (insert m (set ks)))"
  using assms
proof (induction ks arbitrary: e m)
  case (Cons k ks)
  have k: "k < 2147483648" "base + of_nat k \<noteq> 0" using Cons.prems by auto
  have "bus_rx_lost (e\<lparr>ep_lost := base + of_nat m\<rparr>) (base + of_nat k) = e\<lparr>ep_lost := base + of_nat (max m k)\<rparr>"
    using sint_order [OF k(1) Cons.prems(2), of base] Cons.prems(3)
    by (auto simp: bus_rx_lost_def Let_def max_def)
  moreover have "max m k < 2147483648" "base + of_nat (max m k) \<noteq> 0"
    using k Cons.prems by (auto simp: max_def)
  moreover have "Max (insert m (insert k (set ks))) = Max (insert (max m k) (set ks))"
    by (cases "ks = []") (simp_all add: Max_insert max.assoc)
  ultimately show ?case using Cons.IH [of "max m k" e] Cons.prems(1) by simp
qed simp

text \<open>A stream of receive losses is reported once, with the newest position: sequence numbers are
  never 0 and always move forward; after losses at any positions of one half of the counter's
  range, in any order and across its wrap, the next report names the newest of them, and the
  report after it is empty.\<close>

theorem bus_rx_loss_newest:
  assumes "ep_lost e = 0" "ks \<noteq> []" "\<forall>k \<in> set ks. k < 2147483648 \<and> base + of_nat k \<noteq> 0"
  shows "(let (e1, m1, ok1) = bus_rx_take_loss (foldl bus_rx_lost e (map (\<lambda>k. base + of_nat k) ks)) msg
          in ok1 \<and> bm_sequence m1 = base + of_nat (Max (set ks)) \<and> bm_len m1 = 0 \<and>
             bus_rx_take_loss e1 msg = (e1, msg, False)) \<and>
    snd (bus_rx_next e) \<noteq> 0 \<and> snd (bus_rx_next e) = bus_rx_sequence (fst (bus_rx_next e)) \<and>
    snd (bus_rx_next e) - bus_rx_sequence e \<in> {1, 2}"
proof -
  obtain k ks' where ks: "ks = k # ks'" using assms(2) by (cases ks) auto
  have k: "k < 2147483648" "base + of_nat k \<noteq> 0" "\<forall>k \<in> set ks'. k < 2147483648 \<and> base + of_nat k \<noteq> 0"
    using assms(3) ks by auto
  have "bus_rx_lost e (base + of_nat k) = e\<lparr>ep_lost := base + of_nat k\<rparr>"
    using assms(1) by (simp add: bus_rx_lost_def)
  then have l: "ep_lost (foldl bus_rx_lost e (map (\<lambda>k. base + of_nat k) ks)) = base + of_nat (Max (set ks))"
    using lost_max [OF k(3,1,2), of e] by (simp add: ks)
  have "Max (set ks) \<in> set ks" using assms(2) by simp
  then have nz: "base + of_nat (Max (set ks)) \<noteq> 0" using assms(3) by blast
  have n: "(let s = x + 1; s = (if s = 0 then s + 1 else s) in s) - x \<in> {1, 2 :: u32w}" for x :: u32w
    by (auto simp: Let_def algebra_simps)
  show ?thesis using l nz n [of "ep_sequence e"]
    by (auto simp: bus_rx_take_loss_def bus_rx_next_def bus_rx_sequence_def Let_def)
qed

lemma bus_rx_loss_newest_witness:
  "let (e1, m1, ok1) = bus_rx_take_loss (foldl bus_rx_lost \<lparr>ep_sequence = 5, ep_lost = 0\<rparr>
       (map (\<lambda>k. 0xFFFFFFFE + of_nat k) [1, 4, 3])) \<lparr>bm_data = [], bm_len = 9, bm_status = 0, bm_timestamp_us = 0, bm_sequence = 0, bm_id = 0\<rparr>
   in ok1 \<and> bm_sequence m1 = 0xFFFFFFFE + of_nat 4"
proof -
  have "\<forall>k \<in> set [1, 4, 3]. k < 2147483648 \<and> (0xFFFFFFFE :: u32w) + of_nat k \<noteq> 0" by simp
  from bus_rx_loss_newest [OF _ _ this, of "\<lparr>ep_sequence = 5, ep_lost = 0\<rparr>"
      "\<lparr>bm_data = [], bm_len = 9, bm_status = 0, bm_timestamp_us = 0, bm_sequence = 0, bm_id = 0\<rparr>"]
  show ?thesis by (auto simp: Let_def split: prod.splits)
qed

end
