(* ===== verification/BusWorker.thy ===== *)
theory BusWorker
  imports BusTx
begin

text \<open>
  The joined transmit worker of \<open>main/bus_tx_worker.c\<close>: a client submits one message at a time,
  polls for its end and may cancel it, and a task takes it, gives it to the bus driver and
  leaves the result. Every operation is a function of its own, and the same operation is a sequence of
  steps, one per access to what the two tasks share; \<open>client_alone\<close> says that they agree when
  nothing comes in between, and \<open>worker_step\<close> interleaves the steps of the client with those of
  the task. What the driver does between the task's call and its return is arbitrary. The message
  carries its bytes as a list, and one whose data pointer is \<open>NULL\<close> counts as no message.
  \<open>bus_tx_worker_wait\<close> only blocks and is not a step. The lemmas are the invariant: the books of
  accepted, transmitted, refused and reported messages, and the wake-up of the task.
\<close>

section \<open>State\<close>

definition TX_DATA_MAX :: nat where "TX_DATA_MAX = 260"

datatype worker_state = WORKER_IDLE | WORKER_PENDING | WORKER_DONE

text \<open>
  The three binary semaphores are flags. \<open>message\<close> stands for the copied structure together
  with \<open>data\<close>, the bytes it points to.
\<close>

record bus_tx_worker =
  wk_wake :: bool
  wk_done :: bool
  wk_exited :: bool
  wk_stopping :: bool
  wk_state :: worker_state
  wk_control :: bus_tx_control
  wk_message :: bus_msg
  wk_flags :: u32w
  wk_result :: int
  wk_timing_reported :: bool
  wk_data :: "byte list"

record bus_tx_result =
  rs_status :: int
  rs_complete :: bool
  rs_started :: bool
  rs_started_us :: u32w
  rs_ended_us :: u32w

definition bus_msg_zero :: bus_msg where
  "bus_msg_zero = \<lparr>bm_data = [], bm_len = 0, bm_status = 0, bm_timestamp_us = 0, bm_sequence = 0, bm_id = 0\<rparr>"

text \<open>\<open>calloc\<close> and three empty semaphores, when no allocation fails.\<close>

definition worker_zero :: bus_tx_worker where
  "worker_zero =
     \<lparr>wk_wake = False, wk_done = False, wk_exited = False, wk_stopping = False,
      wk_state = WORKER_IDLE, wk_control = bus_tx_prepare 0, wk_message = bus_msg_zero,
      wk_flags = 0, wk_result = 0, wk_timing_reported = False, wk_data = replicate TX_DATA_MAX 0\<rparr>"

text \<open>\<open>allocs\<close> says which of the memory, the three semaphores and the task could be had.\<close>

definition bus_tx_worker_create :: "bool \<Rightarrow> bool \<Rightarrow> bus_tx_worker option" where
  "bus_tx_worker_create has_send_controlled allocs =
     (if \<not> has_send_controlled then None
      else if \<not> allocs then None
      else Some worker_zero)"

section \<open>The client's side\<close>

text \<open>What a submission writes before it publishes the message: nothing of it is seen by the task yet.\<close>

definition submit_copy :: "bus_tx_worker \<Rightarrow> bus_msg \<Rightarrow> u32w \<Rightarrow> u32w \<Rightarrow> bus_tx_worker option" where
  "submit_copy w m flags rx_sequence = do {
     bytes \<leftarrow> load_at (bm_data m) 0 (bm_len m);
     data \<leftarrow> store_at (wk_data w) 0 bytes;
     Some (w\<lparr>wk_done := False, wk_data := data, wk_message := m\<lparr>bm_data := data\<rparr>,
             wk_flags := flags, wk_timing_reported := False,
             wk_control := (bus_tx_prepare rx_sequence)\<lparr>ct_check_rx := (flags AND BUS_TX_CHECK_RX \<noteq> 0)\<rparr>\<rparr>)
   }"

definition bus_tx_worker_submit ::
  "bus_tx_worker \<Rightarrow> bus_msg option \<Rightarrow> u32w \<Rightarrow> u32w \<Rightarrow> (bus_tx_worker \<times> int) option" where
  "bus_tx_worker_submit w msg flags rx_sequence =
     (case msg of None \<Rightarrow> Some (w, BUS_ERR_BAD_ARG)
      | Some m \<Rightarrow>
          if bm_len m > TX_DATA_MAX then Some (w, BUS_ERR_BAD_ARG)
          else if wk_stopping w then Some (w, BUS_ERR_NOT_READY)
          else if wk_state w \<noteq> WORKER_IDLE then Some (w, BUS_ERR_NO_SPACE)
          else do {
            w \<leftarrow> submit_copy w m flags rx_sequence;
            Some (w\<lparr>wk_state := WORKER_PENDING, wk_wake := True\<rparr>, 0)
          })"

text \<open>There is nothing to report; what is reported otherwise.\<close>

definition poll_quiet :: "worker_state \<Rightarrow> bool \<Rightarrow> bus_tx_worker \<Rightarrow> bool" where
  "poll_quiet state ended w \<longleftrightarrow>
     state = WORKER_IDLE \<or> (state \<noteq> WORKER_DONE \<and> (\<not> ended \<or> wk_timing_reported w))"

definition poll_result :: "bool \<Rightarrow> bus_tx_worker \<Rightarrow> bus_tx_result" where
  "poll_result complete w =
     \<lparr>rs_status = (if complete then wk_result w else 0), rs_complete = complete,
      rs_started = (ct_state (wk_control w) = BUS_TX_ACTIVE), rs_started_us = ct_started_us (wk_control w),
      rs_ended_us = ct_ended_us (wk_control w)\<rparr>"

definition bus_tx_worker_poll :: "bus_tx_worker \<Rightarrow> bus_tx_worker \<times> bus_tx_result option" where
  "bus_tx_worker_poll w =
     (let state = wk_state w; complete = (state = WORKER_DONE) in
      if poll_quiet state (ct_ended (wk_control w)) w then (w, None)
      else
        let res = poll_result complete w; w = w\<lparr>wk_timing_reported := True\<rparr>
        in (if complete then w\<lparr>wk_state := WORKER_IDLE\<rparr> else w, Some res))"

definition bus_tx_worker_cancel :: "bus_tx_worker \<Rightarrow> bus_tx_worker" where
  "bus_tx_worker_cancel w =
     (if wk_state w = WORKER_PENDING
      then w\<lparr>wk_control := fst (bus_tx_cancel (wk_control w))\<rparr> else w)"

text \<open>\<open>bus_tx_worker_close\<close> up to the point where it waits for the task.\<close>

definition worker_stop :: "bus_tx_worker \<Rightarrow> bus_tx_worker" where
  "worker_stop w = (bus_tx_worker_cancel (w\<lparr>wk_stopping := True\<rparr>))\<lparr>wk_wake := True\<rparr>"

text \<open>Its wait, when the task has exited in time; otherwise the worker is kept.\<close>

definition worker_join :: "bus_tx_worker \<Rightarrow> bus_tx_worker option" where
  "worker_join w = (if wk_exited w then None else Some w)"

section \<open>The client, access by access\<close>

text \<open>
  Where the client is inside a call: before the load of the state in \<open>submit\<close>, before its store and
  before the wake-up; before the load of \<open>ended\<close> in \<open>poll\<close>, with the state it has loaded, and
  before it stores that the worker is idle; before the exchange in \<open>cancel\<close>, called by itself or by
  \<open>close\<close>; before the load of the state in \<open>close\<close> and before its wake-up.
\<close>

datatype client_pc =
    CReady | CSubmitState bus_msg u32w u32w | CSubmitStore bus_msg | CSubmitWake
  | CPollEnded worker_state | CPollIdle bus_tx_result | CCancel bool | CStopState | CStopWake

datatype worker_call = Submit "bus_msg option" u32w u32w | Poll | Cancel | Stop

datatype worker_reply = Code int | Polled "bus_tx_result option" | NoReply

fun client_begin :: "worker_call \<Rightarrow> bus_tx_worker \<Rightarrow> bus_tx_worker \<times> client_pc \<times> worker_reply option" where
  "client_begin (Submit None flags seq) w = (w, CReady, Some (Code BUS_ERR_BAD_ARG))"
| "client_begin (Submit (Some m) flags seq) w =
     (if bm_len m > TX_DATA_MAX then (w, CReady, Some (Code BUS_ERR_BAD_ARG))
      else if wk_stopping w then (w, CReady, Some (Code BUS_ERR_NOT_READY))
      else (w, CSubmitState m flags seq, None))"
| "client_begin Poll w = (w, CPollEnded (wk_state w), None)"
| "client_begin Cancel w =
     (if wk_state w = WORKER_PENDING then (w, CCancel False, None) else (w, CReady, Some NoReply))"
| "client_begin Stop w = (w\<lparr>wk_stopping := True\<rparr>, CStopState, None)"

text \<open>\<open>None\<close>: the client is in no call, or an access of it lies outside an array.\<close>

fun client_next :: "client_pc \<Rightarrow> bus_tx_worker \<Rightarrow> (bus_tx_worker \<times> client_pc \<times> worker_reply option) option" where
  "client_next CReady w = None"
| "client_next (CSubmitState m flags seq) w =
     (if wk_state w \<noteq> WORKER_IDLE then Some (w, CReady, Some (Code BUS_ERR_NO_SPACE))
      else do { w \<leftarrow> submit_copy w m flags seq; Some (w, CSubmitStore m, None) })"
| "client_next (CSubmitStore m) w = Some (w\<lparr>wk_state := WORKER_PENDING\<rparr>, CSubmitWake, None)"
| "client_next CSubmitWake w = Some (w\<lparr>wk_wake := True\<rparr>, CReady, Some (Code 0))"
| "client_next (CPollEnded st) w =
     (if poll_quiet st (ct_ended (wk_control w)) w then Some (w, CReady, Some (Polled None))
      else
        let res = poll_result (st = WORKER_DONE) w; w = w\<lparr>wk_timing_reported := True\<rparr>
        in Some (if st = WORKER_DONE then (w, CPollIdle res, None) else (w, CReady, Some (Polled (Some res)))))"
| "client_next (CPollIdle res) w = Some (w\<lparr>wk_state := WORKER_IDLE\<rparr>, CReady, Some (Polled (Some res)))"
| "client_next (CCancel closing) w =
     Some (w\<lparr>wk_control := fst (bus_tx_cancel (wk_control w))\<rparr>,
       if closing then CStopWake else CReady, if closing then None else Some NoReply)"
| "client_next CStopState w = Some (w, if wk_state w = WORKER_PENDING then CCancel True else CStopWake, None)"
| "client_next CStopWake w = Some (w\<lparr>wk_wake := True\<rparr>, CReady, Some NoReply)"

text \<open>The client goes on without the task; a call has at most four accesses.\<close>

fun client_run :: "nat \<Rightarrow> bus_tx_worker \<times> client_pc \<times> worker_reply option \<Rightarrow> (bus_tx_worker \<times> worker_reply) option" where
  "client_run n (w, pc, Some r) = Some (w, r)"
| "client_run 0 (w, pc, None) = None"
| "client_run (Suc n) (w, pc, None) = Option.bind (client_next pc w) (client_run n)"

text \<open>The steps of a call, one after the other, are the call.\<close>

lemma client_alone:
  "client_run 4 (client_begin (Submit m flags seq) w) = map_option (apsnd Code) (bus_tx_worker_submit w m flags seq)"
  "client_run 4 (client_begin Poll w) = Some (apsnd Polled (bus_tx_worker_poll w))"
  "client_run 4 (client_begin Cancel w) = Some (bus_tx_worker_cancel w, NoReply)"
  "client_run 4 (client_begin Stop w) = Some (worker_stop w, NoReply)"
proof -
  have four: "4 = Suc (Suc (Suc (Suc 0)))" by simp
  show "client_run 4 (client_begin (Submit m flags seq) w) = map_option (apsnd Code) (bus_tx_worker_submit w m flags seq)"
  proof (cases m)
    case (Some x)
    show ?thesis
    proof (cases "submit_copy w x flags seq")
      case None
      then show ?thesis by (simp add: Some four bus_tx_worker_submit_def)
    next
      case (Some w')
      then show ?thesis using \<open>m = Some x\<close> by (simp add: four bus_tx_worker_submit_def)
    qed
  qed (simp add: four bus_tx_worker_submit_def)
  show "client_run 4 (client_begin Poll w) = Some (apsnd Polled (bus_tx_worker_poll w))"
    by (simp add: four bus_tx_worker_poll_def Let_def)
  show "client_run 4 (client_begin Cancel w) = Some (bus_tx_worker_cancel w, NoReply)"
    by (simp add: four bus_tx_worker_cancel_def)
  show "client_run 4 (client_begin Stop w) = Some (worker_stop w, NoReply)"
    by (simp add: four worker_stop_def bus_tx_worker_cancel_def)
qed

section \<open>The task\<close>

text \<open>
  \<open>transmit_task\<close>, one access per step: \<open>TWait\<close> waits for the wake-up, \<open>TWoken\<close> loads the state, \<open>TCheck\<close>
  asks whether the message is cancelled, \<open>TStore\<close> stores that it is done, after the driver was
  called or not, \<open>TGive\<close> gives the \<open>done\<close> semaphore, \<open>TLoop\<close> loads \<open>stopping\<close>, \<open>TLeave\<close> gives \<open>exited\<close>.
  In \<open>TSending\<close> the driver's \<open>send_controlled\<close> runs: its code is behind the operations table,
  so it may do any sequence of admissions and end marks on the control block and return any
  result. \<open>TAdmit\<close> is an admission between its load and its exchange.
\<close>

datatype task_pc =
    TWait | TWoken | TCheck | TSending | TAdmit bus_tx_state | TStore bool | TGive | TLoop | TLeave | TExited

fun task_next :: "task_pc \<Rightarrow> bus_tx_worker \<Rightarrow> (bus_tx_worker \<times> task_pc) option" where
  "task_next TWait w = (if wk_wake w then Some (w\<lparr>wk_wake := False\<rparr>, TWoken) else None)"
| "task_next TWoken w = Some (w, if wk_state w = WORKER_PENDING then TCheck else TLoop)"
| "task_next TCheck w =
     Some (if bus_tx_cancelled (Some (wk_control w)) then (w\<lparr>wk_result := BUS_ERR_CANCELLED\<rparr>, TStore False) else (w, TSending))"
| "task_next (TStore driven) w = Some (w\<lparr>wk_state := WORKER_DONE\<rparr>, TGive)"
| "task_next TGive w = Some (w\<lparr>wk_done := True\<rparr>, TLoop)"
| "task_next TLoop w = Some (w, if wk_stopping w then TLeave else TWait)"
| "task_next TLeave w = Some (w\<lparr>wk_exited := True\<rparr>, TExited)"
| "task_next _ w = None"

text \<open>What the driver does on the task, until it returns.\<close>

datatype driver_event = DriverLoad u32w | DriverExchange u32w | DriverEnd u32w | DriverReturn int

fun driver_next :: "driver_event \<Rightarrow> task_pc \<Rightarrow> bus_tx_worker \<Rightarrow> (bus_tx_worker \<times> task_pc) option" where
  "driver_next (DriverLoad seq) TSending w =
     Some (w, case admit_load (wk_control w) seq of Inl r \<Rightarrow> TSending | Inr st \<Rightarrow> TAdmit st)"
| "driver_next (DriverExchange ts) (TAdmit st) w =
     Some (w\<lparr>wk_control := fst (admit_exchange (wk_control w) st ts)\<rparr>, TSending)"
| "driver_next (DriverEnd ts) TSending w = Some (w\<lparr>wk_control := bus_tx_end (wk_control w) ts\<rparr>, TSending)"
| "driver_next (DriverReturn r) TSending w = Some (w\<lparr>wk_result := r\<rparr>, TStore True)"
| "driver_next _ _ w = None"

section \<open>Both\<close>

text \<open>
  The history: the messages published to the task, those whose transmission the driver was called
  for, those finished, and the results handed out. A finished message says whether the driver was
  called, whether its cancellation had won by then, and its result.
\<close>

record finished =
  fi_bytes :: "byte list"
  fi_driven :: bool
  fi_cancelled :: bool
  fi_result :: int

record worker_system =
  ws_worker :: bus_tx_worker
  ws_client :: client_pc
  ws_pc :: task_pc
  ws_accepted :: "byte list list"
  ws_driven :: "byte list list"
  ws_finished :: "finished list"
  ws_results :: "int list"

definition payload :: "bus_tx_worker \<Rightarrow> byte list" where
  "payload w = take (bm_len (wk_message w)) (bm_data (wk_message w))"

definition msg_bytes :: "bus_msg \<Rightarrow> byte list" where
  "msg_bytes m = take (bm_len m) (bm_data m)"

definition client_moves :: "worker_system \<Rightarrow> bus_tx_worker \<times> client_pc \<times> worker_reply option \<Rightarrow> worker_system" where
  "client_moves s x =
     (case x of (w, pc, r) \<Rightarrow>
        s\<lparr>ws_worker := w, ws_client := pc,
          ws_accepted := ws_accepted s @ (case ws_client s of CSubmitStore m \<Rightarrow> [msg_bytes m] | _ \<Rightarrow> []),
          ws_results := ws_results s @ (case r of Some (Polled (Some res)) \<Rightarrow> if rs_complete res then [rs_status res] else [] | _ \<Rightarrow> [])\<rparr>)"

definition task_moves :: "worker_system \<Rightarrow> bus_tx_worker \<times> task_pc \<Rightarrow> worker_system" where
  "task_moves s x =
     (case x of (w, pc) \<Rightarrow>
        s\<lparr>ws_worker := w, ws_pc := pc,
          ws_driven := ws_driven s @ (if ws_pc s = TCheck \<and> pc = TSending then [payload w] else []),
          ws_finished := ws_finished s @ (case ws_pc s of
              TStore driven \<Rightarrow> [\<lparr>fi_bytes = payload w, fi_driven = driven,
                fi_cancelled = bus_tx_cancelled (Some (wk_control w)), fi_result = wk_result w\<rparr>] | _ \<Rightarrow> [])\<rparr>)"

datatype worker_event = Call worker_call | ClientNext | TaskNext | Driver driver_event

text \<open>\<open>None\<close>: the event cannot happen now.\<close>

fun worker_step :: "worker_system \<Rightarrow> worker_event \<Rightarrow> worker_system option" where
  "worker_step s (Call c) =
     (if ws_client s = CReady then Some (client_moves s (client_begin c (ws_worker s))) else None)"
| "worker_step s ClientNext = map_option (client_moves s) (client_next (ws_client s) (ws_worker s))"
| "worker_step s TaskNext = map_option (task_moves s) (task_next (ws_pc s) (ws_worker s))"
| "worker_step s (Driver e) = map_option (task_moves s) (driver_next e (ws_pc s) (ws_worker s))"

definition worker_init :: worker_system where
  "worker_init = \<lparr>ws_worker = worker_zero, ws_client = CReady, ws_pc = TWait, ws_accepted = [], ws_driven = [],
     ws_finished = [], ws_results = []\<rparr>"

text \<open>Messages whose structure is honest about its length; nothing else is asked of the client.\<close>

fun honest :: "worker_event \<Rightarrow> bool" where
  "honest (Call (Submit m flags seq)) = pred_option (\<lambda>m. bm_len m \<le> length (bm_data m)) m"
| "honest _ = True"

inductive worker_reach :: "worker_system \<Rightarrow> bool" where
  start: "worker_reach worker_init"
| step: "worker_reach s \<Longrightarrow> honest e \<Longrightarrow> worker_step s e = Some s' \<Longrightarrow> worker_reach s'"

section \<open>Invariant\<close>

text \<open>What the client knows at each place of a call, and the task at each place of its loop.\<close>

fun client_ok :: "client_pc \<Rightarrow> bus_tx_worker \<Rightarrow> bool" where
  "client_ok CReady w = True"
| "client_ok (CSubmitState m flags seq) w = (\<not> wk_stopping w \<and> bm_len m \<le> TX_DATA_MAX \<and> bm_len m \<le> length (bm_data m))"
| "client_ok (CSubmitStore m) w = (\<not> wk_stopping w \<and> wk_state w = WORKER_IDLE \<and> payload w = msg_bytes m)"
| "client_ok CSubmitWake w = (\<not> wk_stopping w \<and> wk_state w = WORKER_PENDING)"
| "client_ok (CPollEnded st) w = (st = WORKER_DONE \<longrightarrow> wk_state w = WORKER_DONE)"
| "client_ok (CPollIdle res) w = (wk_state w = WORKER_DONE \<and> rs_complete res \<and> rs_status res = wk_result w)"
| "client_ok (CCancel closing) w = (closing \<longrightarrow> wk_stopping w)"
| "client_ok CStopState w = wk_stopping w"
| "client_ok CStopWake w = wk_stopping w"

text \<open>Unless the worker is stopping, the wake-up is given exactly when a message is published and its client is past \<open>CSubmitWake\<close>;
  a task at work has a message and no wake-up waiting.\<close>

definition woken_for :: "client_pc \<Rightarrow> bus_tx_worker \<Rightarrow> bool" where
  "woken_for c w \<longleftrightarrow> (\<not> wk_stopping w \<longrightarrow> wk_wake w = (wk_state w = WORKER_PENDING \<and> c \<noteq> CSubmitWake))"

definition working :: "client_pc \<Rightarrow> bus_tx_worker \<Rightarrow> bool" where
  "working c w \<longleftrightarrow> wk_state w = WORKER_PENDING \<and> (\<not> wk_stopping w \<longrightarrow> \<not> wk_wake w \<and> c \<noteq> CSubmitWake)"

fun task_ok :: "task_pc \<Rightarrow> client_pc \<Rightarrow> bus_tx_worker \<Rightarrow> bool" where
  "task_ok TWait c w = (woken_for c w \<and> (wk_state w = WORKER_PENDING \<longrightarrow> wk_wake w \<or> c = CSubmitWake))"
| "task_ok TWoken c w = (\<not> wk_stopping w \<longrightarrow> working c w)"
| "task_ok TCheck c w = working c w"
| "task_ok TSending c w = working c w"
| "task_ok (TAdmit q) c w = (q = BUS_TX_QUEUED \<and> working c w)"
| "task_ok (TStore driven) c w = (working c w \<and>
     (\<not> driven \<longrightarrow> ct_state (wk_control w) = BUS_TX_CANCELLED \<and> wk_result w = BUS_ERR_CANCELLED))"
| "task_ok TGive c w = woken_for c w"
| "task_ok TLoop c w = woken_for c w"
| "task_ok TLeave c w = wk_stopping w"
| "task_ok TExited c w = wk_stopping w"

text \<open>The driver has been called for the message and its result is not stored yet.\<close>

fun driving :: "task_pc \<Rightarrow> bool" where
  "driving TSending = True"
| "driving (TAdmit q) = True"
| "driving (TStore driven) = driven"
| "driving _ = False"

definition books :: "worker_system \<Rightarrow> bool" where
  "books s \<longleftrightarrow>
     ws_accepted s = map fi_bytes (ws_finished s) @
       (if wk_state (ws_worker s) = WORKER_PENDING then [payload (ws_worker s)] else []) \<and>
     map fi_result (ws_finished s) = ws_results s @
       (if wk_state (ws_worker s) = WORKER_DONE then [wk_result (ws_worker s)] else []) \<and>
     ws_driven s = map fi_bytes (filter fi_driven (ws_finished s)) @
       (if driving (ws_pc s) then [payload (ws_worker s)] else []) \<and>
     list_all (\<lambda>f. fi_driven f \<or> fi_cancelled f \<and> fi_result f = BUS_ERR_CANCELLED) (ws_finished s)"

definition worker_inv :: "worker_system \<Rightarrow> bool" where
  "worker_inv s \<longleftrightarrow> books s \<and> client_ok (ws_client s) (ws_worker s) \<and> task_ok (ws_pc s) (ws_client s) (ws_worker s) \<and>
     length (wk_data (ws_worker s)) = TX_DATA_MAX"

lemmas task_defs = woken_for_def working_def

lemma worker_inv_init: "worker_inv worker_init"
  by (simp add: worker_inv_def books_def task_defs worker_init_def worker_zero_def)

text \<open>A copy of an honest message succeeds and holds exactly its bytes.\<close>

lemma submit_copy_bytes:
  assumes "length (wk_data w) = TX_DATA_MAX" "bm_len m \<le> TX_DATA_MAX" "bm_len m \<le> length (bm_data m)"
  shows "\<exists>w'. submit_copy w m flags seq = Some w' \<and> payload w' = msg_bytes m \<and> length (wk_data w') = TX_DATA_MAX \<and>
    (wk_state w', wk_wake w', wk_stopping w', wk_result w') = (wk_state w, wk_wake w, wk_stopping w, wk_result w)"
  using assms by (auto simp: submit_copy_def payload_def msg_bytes_def min_absorb2)

lemma payload_same [simp]:
  "payload (w\<lparr>wk_state := st\<rparr>) = payload w" "payload (w\<lparr>wk_wake := a\<rparr>) = payload w" "payload (w\<lparr>wk_stopping := a\<rparr>) = payload w"
  "payload (w\<lparr>wk_timing_reported := a\<rparr>) = payload w" "payload (w\<lparr>wk_control := c\<rparr>) = payload w"
  "payload (w\<lparr>wk_result := r\<rparr>) = payload w" "payload (w\<lparr>wk_done := a\<rparr>) = payload w" "payload (w\<lparr>wk_exited := a\<rparr>) = payload w"
  by (simp_all add: payload_def)

lemma cancel_keeps: "ct_state c = BUS_TX_CANCELLED \<Longrightarrow> ct_state (fst (bus_tx_cancel c)) = BUS_TX_CANCELLED"
  by (simp add: bus_tx_cancel_def ct_cas_def)

lemma driving_pending: "task_ok pc c w \<Longrightarrow> driving pc \<Longrightarrow> wk_state w = WORKER_PENDING"
  by (cases pc) (simp_all add: working_def)

lemma moves_fields [simp]:
  "ws_worker (client_moves s (w, pc, r)) = w" "ws_client (client_moves s (w, pc, r)) = pc" "ws_pc (client_moves s (w, pc, r)) = ws_pc s"
  "ws_finished (client_moves s (w, pc, r)) = ws_finished s" "ws_driven (client_moves s (w, pc, r)) = ws_driven s"
  "ws_worker (task_moves s (w, k)) = w" "ws_client (task_moves s (w, k)) = ws_client s" "ws_pc (task_moves s (w, k)) = k"
  "ws_accepted (task_moves s (w, k)) = ws_accepted s" "ws_results (task_moves s (w, k)) = ws_results s"
  by (simp_all add: client_moves_def task_moves_def)

text \<open>A step of the client that neither publishes a message nor hands out a result keeps the books.\<close>

lemma books_quiet:
  assumes "books s" "wk_state w = wk_state (ws_worker s)" "wk_result w = wk_result (ws_worker s)"
    "payload w = payload (ws_worker s) \<or> wk_state w = WORKER_IDLE \<and> \<not> driving (ws_pc s)"
    "\<And>m. ws_client s \<noteq> CSubmitStore m" "\<And>res. r = Some (Polled (Some res)) \<Longrightarrow> \<not> rs_complete res"
  shows "books (client_moves s (w, pc, r))"
proof -
  have "ws_accepted (client_moves s (w, pc, r)) = ws_accepted s" "ws_results (client_moves s (w, pc, r)) = ws_results s"
    using assms(5,6) by (auto simp: client_moves_def split: client_pc.split option.split worker_reply.split)
  then show ?thesis using assms(1-4) by (auto simp: books_def)
qed

lemma worker_inv_call:
  assumes "worker_inv s" "honest (Call c)" "worker_step s (Call c) = Some s'"
  shows "worker_inv s'"
proof -
  note i = assms(1) [unfolded worker_inv_def]
  have r: "ws_client s = CReady" "s' = client_moves s (client_begin c (ws_worker s))" using assms(3) by (auto split: if_splits)
  obtain w pc rep where b: "client_begin c (ws_worker s) = (w, pc, rep)" by (cases "client_begin c (ws_worker s)")
  have w: "w = ws_worker s \<or> c = Stop \<and> w = (ws_worker s)\<lparr>wk_stopping := True\<rparr>" "pc \<noteq> CSubmitWake"
      "\<And>res. rep \<noteq> Some (Polled (Some res))"
    using b by (cases "(c, ws_worker s)" rule: client_begin.cases; auto split: if_splits)+
  have "client_ok pc w"
    using b assms(2) by (cases "(c, ws_worker s)" rule: client_begin.cases) (auto split: if_splits)
  moreover have "task_ok (ws_pc s) pc w"
    using i r(1) w(1,2) by (cases "ws_pc s") (auto simp: task_defs)
  moreover have "books (client_moves s (w, pc, rep))"
    using i w r(1) by (intro books_quiet) auto
  moreover have "length (wk_data w) = TX_DATA_MAX" using i w(1) by auto
  ultimately show ?thesis by (simp add: worker_inv_def r(2) b)
qed

lemma worker_inv_client:
  assumes "worker_inv s" "worker_step s ClientNext = Some s'"
  shows "worker_inv s'"
proof -
  note i = assms(1) [unfolded worker_inv_def]
  have k: "client_ok (ws_client s) (ws_worker s)" and t: "task_ok (ws_pc s) (ws_client s) (ws_worker s)" and b: "books s"
    and l: "length (wk_data (ws_worker s)) = TX_DATA_MAX" using i by simp_all
  obtain w pc rep where n: "client_next (ws_client s) (ws_worker s) = Some (w, pc, rep)" "s' = client_moves s (w, pc, rep)"
    using assms(2) by (cases "client_next (ws_client s) (ws_worker s)") auto
  have "client_ok pc w \<and> task_ok (ws_pc s) pc w \<and> books (client_moves s (w, pc, rep)) \<and> length (wk_data w) = TX_DATA_MAX"
  proof (cases "ws_client s")
    case CReady
    then show ?thesis using n by simp
  next
    case (CSubmitState m flags seq)
    show ?thesis
    proof (cases "wk_state (ws_worker s) = WORKER_IDLE")
      case True
      have c: "submit_copy (ws_worker s) m flags seq = Some w" "pc = CSubmitStore m" "rep = None"
        using n CSubmitState True by (auto simp: bind_eq_Some_conv)
      have w: "payload w = msg_bytes m" "length (wk_data w) = TX_DATA_MAX" "wk_state w = wk_state (ws_worker s)"
          "wk_wake w = wk_wake (ws_worker s)" "wk_stopping w = wk_stopping (ws_worker s)" "wk_result w = wk_result (ws_worker s)"
        using submit_copy_bytes [OF l, of m flags seq] k CSubmitState c(1) by auto
      have d: "\<not> driving (ws_pc s)" using driving_pending [OF t] True by auto
      have "task_ok (ws_pc s) pc w" using t w True c(2) CSubmitState by (cases "ws_pc s") (auto simp: task_defs)
      then show ?thesis using w c k True CSubmitState d b by (auto intro!: books_quiet)
    next
      case False
      then have "w = ws_worker s" "pc = CReady" "rep = Some (Code BUS_ERR_NO_SPACE)" using n CSubmitState by auto
      moreover have "task_ok (ws_pc s) CReady (ws_worker s)" using t CSubmitState by (cases "ws_pc s") (auto simp: task_defs)
      ultimately show ?thesis using l b CSubmitState by (auto intro!: books_quiet)
    qed
  next
    case (CSubmitStore m)
    then have w: "w = (ws_worker s)\<lparr>wk_state := WORKER_PENDING\<rparr>" "pc = CSubmitWake" "rep = None" using n by auto
    have "task_ok (ws_pc s) pc w" using t k w CSubmitStore by (cases "ws_pc s") (auto simp: task_defs)
    moreover have "books (client_moves s (w, pc, rep))"
      using b k w driving_pending [OF t] CSubmitStore by (auto simp: books_def client_moves_def)
    ultimately show ?thesis using w k l CSubmitStore by simp
  next
    case CSubmitWake
    then have w: "w = (ws_worker s)\<lparr>wk_wake := True\<rparr>" "pc = CReady" "rep = Some (Code 0)" using n by auto
    have "task_ok (ws_pc s) pc w" using t k w CSubmitWake by (cases "ws_pc s") (auto simp: task_defs)
    then show ?thesis using w l b CSubmitWake by (auto intro!: books_quiet)
  next
    case (CPollEnded st)
    let ?quiet = "poll_quiet st (ct_ended (wk_control (ws_worker s))) (ws_worker s)"
    have t': "task_ok (ws_pc s) p w'" if "p \<noteq> CSubmitWake" "w' = ws_worker s \<or> w' = (ws_worker s)\<lparr>wk_timing_reported := True\<rparr>" for p w'
      using t that CPollEnded by (cases "ws_pc s") (auto simp: task_defs)
    have w: "w = ws_worker s \<or> w = (ws_worker s)\<lparr>wk_timing_reported := True\<rparr>"
      "pc = CReady \<or> pc = CPollIdle (poll_result True (ws_worker s)) \<and> st = WORKER_DONE"
      "\<And>res. rep = Some (Polled (Some res)) \<Longrightarrow> \<not> rs_complete res"
      using n CPollEnded by (auto simp: Let_def poll_result_def split: if_splits)
    have "client_ok pc w" using w(1,2) k CPollEnded by (auto simp: poll_result_def)
    moreover have "task_ok (ws_pc s) pc w" using t' w(1,2) by auto
    moreover have "books (client_moves s (w, pc, rep))" using b w(1,3) CPollEnded by (intro books_quiet) auto
    ultimately show ?thesis using w(1) l by auto
  next
    case (CPollIdle res)
    then have w: "w = (ws_worker s)\<lparr>wk_state := WORKER_IDLE\<rparr>" "pc = CReady" "rep = Some (Polled (Some res))" using n by auto
    have "task_ok (ws_pc s) pc w" using t k w CPollIdle by (cases "ws_pc s") (auto simp: task_defs)
    moreover have "books (client_moves s (w, pc, rep))"
      using b k w CPollIdle by (auto simp: books_def client_moves_def)
    ultimately show ?thesis using w l by simp
  next
    case (CCancel closing)
    then have w: "w = (ws_worker s)\<lparr>wk_control := fst (bus_tx_cancel (wk_control (ws_worker s)))\<rparr>"
      "pc = (if closing then CStopWake else CReady)" "rep = (if closing then None else Some NoReply)" using n by auto
    have "task_ok (ws_pc s) pc w" using t w CCancel cancel_keeps by (cases "ws_pc s") (auto simp: task_defs)
    then show ?thesis using w k l b CCancel by (auto intro!: books_quiet)
  next
    case CStopState
    then have w: "w = ws_worker s" "pc = CCancel True \<or> pc = CStopWake" "rep = None" using n by (auto split: if_splits)
    have "task_ok (ws_pc s) pc w" using t w CStopState by (cases "ws_pc s") (auto simp: task_defs)
    then show ?thesis using w k l b CStopState by (auto intro!: books_quiet)
  next
    case CStopWake
    then have w: "w = (ws_worker s)\<lparr>wk_wake := True\<rparr>" "pc = CReady" "rep = Some NoReply" using n by auto
    have "task_ok (ws_pc s) pc w" using t k w CStopWake by (cases "ws_pc s") (auto simp: task_defs)
    then show ?thesis using w l b CStopWake by (auto intro!: books_quiet)
  qed
  then show ?thesis by (simp add: worker_inv_def n(2))
qed

text \<open>The steps of the task leave what the client knows alone, as long as they do not finish a message.\<close>

lemma client_ok_same:
  assumes "client_ok k w" "wk_stopping w' = wk_stopping w" "payload w' = payload w"
    "wk_state w' = wk_state w" "wk_result w' = wk_result w \<or> wk_state w = WORKER_PENDING"
  shows "client_ok k w'"
  using assms by (cases k) auto

lemma worker_inv_task:
  assumes "worker_inv s" "worker_step s TaskNext = Some s'"
  shows "worker_inv s'"
proof -
  note i = assms(1) [unfolded worker_inv_def]
  have k: "client_ok (ws_client s) (ws_worker s)" and t: "task_ok (ws_pc s) (ws_client s) (ws_worker s)" and b: "books s"
    and l: "length (wk_data (ws_worker s)) = TX_DATA_MAX" using i by simp_all
  obtain w pc where n: "task_next (ws_pc s) (ws_worker s) = Some (w, pc)" "s' = task_moves s (w, pc)" using assms(2) by auto
  have "length (wk_data w) = TX_DATA_MAX" using n(1) l by (cases "ws_pc s") (auto split: if_splits)
  moreover have "task_ok pc (ws_client s) w"
    using n(1) t k by (cases "ws_pc s") (auto simp: task_defs bus_tx_cancelled_def split: if_splits)
  moreover have "client_ok (ws_client s) w"
  proof (cases "\<exists>d. ws_pc s = TStore d")
    case True
    then have "w = (ws_worker s)\<lparr>wk_state := WORKER_DONE\<rparr>" "wk_state (ws_worker s) = WORKER_PENDING" "working (ws_client s) (ws_worker s)"
      using n(1) t by (auto simp: working_def)
    then show ?thesis using k by (cases "ws_client s") (auto simp: working_def)
  next
    case False
    show ?thesis by (rule client_ok_same [OF k]) (use n(1) t False in \<open>cases "ws_pc s"; auto simp: working_def split: if_splits\<close>)+
  qed
  moreover have "books (task_moves s (w, pc))"
  proof (cases "ws_pc s")
    case (TStore d)
    then have w: "w = (ws_worker s)\<lparr>wk_state := WORKER_DONE\<rparr>" "pc = TGive" "wk_state (ws_worker s) = WORKER_PENDING"
        "d \<or> bus_tx_cancelled (Some (wk_control (ws_worker s))) \<and> wk_result (ws_worker s) = BUS_ERR_CANCELLED"
      using n(1) t by (auto simp: working_def bus_tx_cancelled_def)
    show ?thesis using b w TStore by (auto simp: books_def task_moves_def)
  qed (use n(1) b t in \<open>auto simp: books_def task_moves_def working_def split: if_splits\<close>)
  ultimately show ?thesis by (simp add: worker_inv_def n(2))
qed

lemma worker_inv_driver:
  assumes "worker_inv s" "worker_step s (Driver e) = Some s'"
  shows "worker_inv s'"
proof -
  note i = assms(1) [unfolded worker_inv_def]
  obtain w pc where n: "driver_next e (ws_pc s) (ws_worker s) = Some (w, pc)" "s' = task_moves s (w, pc)" using assms(2) by auto
  consider (load) seq where "e = DriverLoad seq" "ws_pc s = TSending" | (exchange) ts st where "e = DriverExchange ts" "ws_pc s = TAdmit st"
    | (ended) ts where "e = DriverEnd ts" "ws_pc s = TSending" | (result) r where "e = DriverReturn r" "ws_pc s = TSending"
    using n(1) by (cases e; cases "ws_pc s") auto
  then have "(wk_state w, wk_wake w, wk_stopping w, payload w, wk_data w) =
        (wk_state (ws_worker s), wk_wake (ws_worker s), wk_stopping (ws_worker s), payload (ws_worker s), wk_data (ws_worker s)) \<and>
      (pc = TSending \<or> pc = TAdmit BUS_TX_QUEUED \<or> pc = TStore True) \<and> (ws_pc s = TSending \<or> (\<exists>q. ws_pc s = TAdmit q))"
  proof cases
    case load
    show ?thesis
    proof (cases "admit_load (wk_control (ws_worker s)) seq")
      case (Inr st)
      then show ?thesis using n(1) load admit_load_cases(1) [OF Inr] by simp
    qed (use n(1) load in simp)
  qed (use n(1) in auto)
  note w = this [THEN conjunct1] and p = this [THEN conjunct2]
  have k: "client_ok (ws_client s) (ws_worker s)" and b: "books s" and g: "working (ws_client s) (ws_worker s)" using i p by auto
  have "client_ok (ws_client s) w" by (rule client_ok_same [OF k]) (use w g in \<open>simp_all add: working_def\<close>)
  moreover have "task_ok pc (ws_client s) w"
  proof -
    have "working (ws_client s) w" using g w by (simp add: working_def)
    with p show ?thesis by auto
  qed
  moreover have "books (task_moves s (w, pc))"
  proof -
    have "wk_state w = WORKER_PENDING" "wk_state (ws_worker s) = WORKER_PENDING" "payload w = payload (ws_worker s)"
      "driving pc" "driving (ws_pc s)" "ws_pc s \<noteq> TCheck" "\<And>d. ws_pc s \<noteq> TStore d" using g w p by (auto simp: working_def)
    with b show ?thesis by (cases "ws_pc s") (auto simp: books_def task_moves_def)
  qed
  moreover have "length (wk_data w) = TX_DATA_MAX" using i w by simp
  ultimately show ?thesis by (simp add: worker_inv_def n(2))
qed

lemma worker_inv_step: "worker_inv s \<Longrightarrow> honest e \<Longrightarrow> worker_step s e = Some s' \<Longrightarrow> worker_inv s'"
  by (cases e) (blast intro: worker_inv_call worker_inv_client worker_inv_task worker_inv_driver)+

lemma worker_reach_inv: "worker_reach s \<Longrightarrow> worker_inv s"
  by (induction rule: worker_reach.induct) (auto intro: worker_inv_init worker_inv_step)

text \<open>C8: A message accepted by the worker is finished once and its result handed out once. In every
  interleaving of a client that submits, polls, cancels and stops with the task, access by access,
  and with any behaviour of the driver: the accepted messages are the finished ones in their order
  and at most one that is still open; the results handed out are those of the finished messages in
  order, but for one that waits; the driver was called once for every finished message, except those
  whose cancellation had won and whose result is that they are cancelled, and for the open one while
  it is being sent. An open message is left behind only by a task that has exited after a stop:
  otherwise the task, or the driver on it, has a next step, or the client is about to wake it.
\<close>
theorem bus_tx_worker_exactly_once:
  assumes "worker_reach s"
  shows "ws_accepted s = map fi_bytes (ws_finished s) @
      (if wk_state (ws_worker s) = WORKER_PENDING then [payload (ws_worker s)] else []) \<and>
    map fi_result (ws_finished s) = ws_results s @
      (if wk_state (ws_worker s) = WORKER_DONE then [wk_result (ws_worker s)] else []) \<and>
    ws_driven s = map fi_bytes (filter fi_driven (ws_finished s)) @
      (if driving (ws_pc s) then [payload (ws_worker s)] else []) \<and>
    (\<forall>f \<in> set (ws_finished s). fi_driven f \<or> fi_cancelled f \<and> fi_result f = BUS_ERR_CANCELLED) \<and>
    (wk_state (ws_worker s) = WORKER_PENDING \<longrightarrow>
      (\<exists>e \<in> {TaskNext, Driver (DriverExchange 0), Driver (DriverReturn 0)}. worker_step s e \<noteq> None) \<or>
      ws_client s = CSubmitWake \<or> wk_stopping (ws_worker s) \<and> ws_pc s = TExited)"
proof -
  have i: "worker_inv s" by (rule worker_reach_inv [OF assms])
  then have b: "books s" and t: "task_ok (ws_pc s) (ws_client s) (ws_worker s)" by (simp_all add: worker_inv_def)
  have "wk_state (ws_worker s) = WORKER_PENDING \<longrightarrow>
      (\<exists>e \<in> {TaskNext, Driver (DriverExchange 0), Driver (DriverReturn 0)}. worker_step s e \<noteq> None) \<or>
      ws_client s = CSubmitWake \<or> wk_stopping (ws_worker s) \<and> ws_pc s = TExited"
    using t by (cases "ws_pc s") auto
  with b show ?thesis by (simp add: books_def list_all_iff)
qed

text \<open>A run of the system.\<close>

definition worker_run :: "worker_event list \<Rightarrow> worker_system option" where
  "worker_run es = fold (\<lambda>e s. Option.bind s (\<lambda>s. worker_step s e)) es (Some worker_init)"

lemma worker_run_reach:
  assumes "worker_run es = Some v" "list_all honest es"
  shows "worker_reach v"
proof -
  have n: "fold (\<lambda>e s. Option.bind s (\<lambda>s. worker_step s e)) es None = None" for es by (induction es) simp_all
  have "worker_reach u \<Longrightarrow> fold (\<lambda>e s. Option.bind s (\<lambda>s. worker_step s e)) es (Some u) = Some v \<Longrightarrow> list_all honest es \<Longrightarrow> worker_reach v"
    for es u v
  proof (induction es arbitrary: u)
    case (Cons e es)
    then show ?case using worker_reach.step [OF Cons.prems(1)] by (cases "worker_step u e") (auto simp: n)
  qed simp
  then show ?thesis using assms worker_reach.start by (auto simp: worker_run_def)
qed

definition example_msg :: bus_msg where
  "example_msg = bus_msg_zero\<lparr>bm_data := [0x68, 0x6A, 0xF1, 0x01, 0x00], bm_len := 5\<rparr>"

text \<open>
  A message sent, its result fetched while the task is still in its loop, a second one accepted and
  the worker stopped: the task leaves, and the second message is not sent.
\<close>

definition example_run :: "worker_event list" where
  "example_run = [Call (Submit (Some example_msg) 0 3), ClientNext, ClientNext, ClientNext, TaskNext, TaskNext, TaskNext,
     Driver (DriverLoad 3), Driver (DriverExchange 50), Driver (DriverEnd 90), Driver (DriverReturn 0), TaskNext,
     Call Poll, ClientNext, ClientNext, Call (Submit (Some example_msg) 0 3), ClientNext, ClientNext, ClientNext,
     Call Stop, TaskNext, TaskNext, TaskNext, ClientNext, ClientNext, ClientNext]"

lemma bus_tx_worker_exactly_once_witness:
  "\<exists>s. worker_reach s \<and> wk_state (ws_worker s) = WORKER_PENDING \<and> ws_pc s = TExited \<and>
     ws_accepted s = [[0x68, 0x6A, 0xF1, 0x01, 0x00], [0x68, 0x6A, 0xF1, 0x01, 0x00]] \<and> ws_results s = [0] \<and>
     length (ws_finished s) = 1"
proof -
  have v: "map_option (\<lambda>v. (wk_state (ws_worker v), ws_pc v, ws_accepted v, ws_results v)) (worker_run example_run) =
      Some (WORKER_PENDING, TExited, [[0x68, 0x6A, 0xF1, 0x01, 0x00], [0x68, 0x6A, 0xF1, 0x01, 0x00]], [0])" by code_simp
  then obtain v where r: "worker_run example_run = Some v" "wk_state (ws_worker v) = WORKER_PENDING" "ws_pc v = TExited"
      "ws_accepted v = [[0x68, 0x6A, 0xF1, 0x01, 0x00], [0x68, 0x6A, 0xF1, 0x01, 0x00]]" "ws_results v = [0]" by auto
  have "list_all honest example_run" by (simp add: example_run_def example_msg_def)
  from worker_run_reach [OF r(1) this] have w: "worker_reach v" .
  have "map fi_result (ws_finished v) = [0]" using bus_tx_worker_exactly_once [OF w] r by simp
  then have "length (ws_finished v) = 1" using length_map [of fi_result "ws_finished v"] by simp
  with w r show ?thesis by blast
qed

end
