(* ===== verification/J2534Scheduler.thy ===== *)
theory J2534Scheduler
  imports Prelude
begin

text \<open>
The schedule of a J2534 channel, \<open>main/j2534_scheduler.c\<close>: twenty job slots, ten for periodic
  messages and ten for repeat messages, each a record with the fields of
  \<open>j2534_schedule_job_t\<close>. A pointer to a job is the index of its slot. Operations on one job are
  functions on the record, operations that walk the slots return \<open>None\<close> if they would leave an
  array.
  The lemmas: which slots an operation changes, the order of service across the wrap of the
  clock, what keeps a repeat message alive, the irrelevance of the order in which a reply and
  the end of a transmission are reported, and the slots as a store of identifiers.
\<close>

section \<open>Jobs\<close>

definition J2534_SCHEDULE_SLOTS :: nat where "J2534_SCHEDULE_SLOTS = 10"
definition J2534_SCHEDULE_DATA_MAX :: nat where "J2534_SCHEDULE_DATA_MAX = 12"

datatype schedule_kind = J2534_SCHEDULE_PERIODIC | J2534_SCHEDULE_UNTIL | J2534_SCHEDULE_WHILE

record scheduled_message =
  sm_flags :: u32w
  sm_handle :: u32w
  sm_len :: nat
  sm_data :: "byte list"

record schedule_job =
  sj_id :: u32w
  sj_kind :: schedule_kind
  sj_interval_us :: u32w
  sj_due_us :: u32w
  sj_ended_us :: u32w
  sj_created_us :: u32w
  sj_match_us :: u32w
  sj_active :: bool
  sj_pending :: bool
  sj_transmission_ended :: bool
  sj_sent :: bool
  sj_matched :: bool
  sj_have_match :: bool
  sj_message :: scheduled_message
  sj_match_flags :: u32w
  sj_match_len :: nat
  sj_mask :: "byte list"
  sj_pattern :: "byte list"

type_synonym scheduler = "schedule_job list"

definition at_or_after :: "u32w \<Rightarrow> u32w \<Rightarrow> bool" where
  "at_or_after t boundary \<longleftrightarrow> 0 \<le> sint (t - boundary)"

lemma at_or_after_iff: "at_or_after t b \<longleftrightarrow> unat (t - b) < 2147483648"
  by (simp add: at_or_after_def sint_nonneg_iff)

section \<open>Slots\<close>

text \<open>A job is named by its slot, the pointer the C code returns; \<open>None\<close> is \<open>NULL\<close>.\<close>

definition j2534_schedule_find :: "scheduler \<Rightarrow> u32w \<Rightarrow> nat option" where
  "j2534_schedule_find jobs k =
     find (\<lambda>i. k \<noteq> 0 \<and> sj_id (jobs ! i) = k) [0..<2 * J2534_SCHEDULE_SLOTS]"

definition j2534_schedule_allocate :: "scheduler \<Rightarrow> bool \<Rightarrow> nat option" where
  "j2534_schedule_allocate jobs rep =
     (let first = (if rep then J2534_SCHEDULE_SLOTS else 0) in
      find (\<lambda>i. sj_id (jobs ! i) = 0) [first..<first + J2534_SCHEDULE_SLOTS])"

definition schedule_ready :: "schedule_job \<Rightarrow> u32w \<Rightarrow> bool \<Rightarrow> bool" where
  "schedule_ready job now allow_repeat \<longleftrightarrow>
     \<not> (\<not> sj_active job \<or> sj_pending job \<or> \<not> at_or_after now (sj_due_us job) \<or>
        (\<not> allow_repeat \<and> sj_kind job \<noteq> J2534_SCHEDULE_PERIODIC))"

definition schedule_before :: "schedule_job \<Rightarrow> schedule_job \<Rightarrow> bool" where
  "schedule_before job next \<longleftrightarrow>
     sint (sj_due_us job - sj_due_us next) < 0 \<or>
     (sj_due_us job = sj_due_us next \<and> sint (sj_id job - sj_id next) < 0)"

definition schedule_next_step ::
  "scheduler \<Rightarrow> u32w \<Rightarrow> bool \<Rightarrow> nat option \<Rightarrow> nat \<Rightarrow> nat option" where
  "schedule_next_step jobs now allow_repeat next i =
     (if \<not> schedule_ready (jobs ! i) now allow_repeat then next
      else case next of
          None \<Rightarrow> Some i
        | Some n \<Rightarrow> if schedule_before (jobs ! i) (jobs ! n) then Some i else next)"

definition j2534_schedule_next :: "scheduler \<Rightarrow> u32w \<Rightarrow> bool \<Rightarrow> nat option" where
  "j2534_schedule_next jobs now allow_repeat =
     foldl (schedule_next_step jobs now allow_repeat) None [0..<2 * J2534_SCHEDULE_SLOTS]"

section \<open>Matching, and what a received message does\<close>

fun matches_from :: "schedule_job \<Rightarrow> byte list \<Rightarrow> nat list \<Rightarrow> bool option" where
  "matches_from job data [] = Some True"
| "matches_from job data (i # is) = do {
     d \<leftarrow> get_at data i;
     m \<leftarrow> get_at (sj_mask job) i;
     p \<leftarrow> get_at (sj_pattern job) i;
     if d AND m \<noteq> p then Some False else matches_from job data is
   }"

definition matches :: "schedule_job \<Rightarrow> byte list \<Rightarrow> u32w \<Rightarrow> bool option" where
  "matches job data flags =
     (if length data < sj_match_len job \<or> flags \<noteq> sj_match_flags job then Some False
      else matches_from job data [0..<sj_match_len job])"

definition schedule_receive_job ::
  "schedule_job \<Rightarrow> byte list \<Rightarrow> u32w \<Rightarrow> u32w \<Rightarrow> schedule_job option" where
  "schedule_receive_job job data flags ts =
     (if \<not> sj_active job \<or> \<not> at_or_after ts (sj_created_us job) then Some job
      else do {
        m \<leftarrow> matches job data flags;
        Some (if (sj_kind job = J2534_SCHEDULE_UNTIL \<and> m) \<or>
                 (sj_kind job = J2534_SCHEDULE_WHILE \<and> \<not> m)
              then job\<lparr>sj_active := False\<rparr>
              else if m
              then (let job = job\<lparr>sj_have_match := True, sj_match_us := ts\<rparr> in
                    if sj_sent job \<and> at_or_after ts (sj_ended_us job) \<and>
                       at_or_after (sj_due_us job) ts
                    then job\<lparr>sj_matched := True\<rparr> else job)
              else job)
      })"

definition repeat_slots :: "nat list" where
  "repeat_slots = [J2534_SCHEDULE_SLOTS..<2 * J2534_SCHEDULE_SLOTS]"

definition j2534_schedule_receive ::
  "scheduler \<Rightarrow> byte list \<Rightarrow> u32w \<Rightarrow> u32w \<Rightarrow> scheduler option" where
  "j2534_schedule_receive jobs data flags ts =
     fold_opt (\<lambda>jobs i. do {
         job \<leftarrow> get_at jobs i;
         job' \<leftarrow> schedule_receive_job job data flags ts;
         set_at jobs i job'
       }) jobs repeat_slots"

section \<open>Expiry and the end of a transmission\<close>

definition schedule_expire_job :: "schedule_job \<Rightarrow> u32w \<Rightarrow> schedule_job" where
  "schedule_expire_job job now =
     (if sj_active job \<and> sj_kind job = J2534_SCHEDULE_WHILE \<and> sj_sent job \<and>
         (\<not> sj_pending job \<or> sj_transmission_ended job) \<and> \<not> sj_matched job \<and>
         at_or_after now (sj_due_us job)
      then job\<lparr>sj_active := False\<rparr> else job)"

definition j2534_schedule_expire :: "scheduler \<Rightarrow> u32w \<Rightarrow> scheduler option" where
  "j2534_schedule_expire jobs now =
     fold_opt (\<lambda>jobs i. do {
         job \<leftarrow> get_at jobs i;
         set_at jobs i (schedule_expire_job job now)
       }) jobs repeat_slots"

definition j2534_schedule_transmitted :: "schedule_job \<Rightarrow> u32w \<Rightarrow> u32w \<Rightarrow> schedule_job" where
  "j2534_schedule_transmitted job started ended =
     (if sj_transmission_ended job \<and> sj_ended_us job = ended then job
      else
        let job = job\<lparr>sj_transmission_ended := True, sj_sent := True, sj_ended_us := ended,
              sj_due_us := (if sj_kind job = J2534_SCHEDULE_PERIODIC then started else ended) +
                sj_interval_us job\<rparr>
        in job\<lparr>sj_matched := sj_have_match job \<and> at_or_after (sj_match_us job) ended \<and>
                at_or_after (sj_due_us job) (sj_match_us job)\<rparr>)"

definition j2534_schedule_defer :: "schedule_job \<Rightarrow> schedule_job" where
  "j2534_schedule_defer job = job\<lparr>sj_pending := False\<rparr>"

definition j2534_schedule_complete ::
  "schedule_job \<Rightarrow> bool \<Rightarrow> u32w \<Rightarrow> u32w \<Rightarrow> schedule_job" where
  "j2534_schedule_complete job success started ended =
     (let job = job\<lparr>sj_pending := False\<rparr> in
      if \<not> success \<and> sj_kind job \<noteq> J2534_SCHEDULE_PERIODIC then job\<lparr>sj_active := False\<rparr>
      else j2534_schedule_transmitted job started ended)"

definition j2534_schedule_receive_lost :: "scheduler \<Rightarrow> scheduler option" where
  "j2534_schedule_receive_lost jobs =
     fold_opt (\<lambda>jobs i. do {
         job \<leftarrow> get_at jobs i;
         set_at jobs i (job\<lparr>sj_active := False\<rparr>)
       }) jobs repeat_slots"

section \<open>Loops over slots\<close>

lemma update_slots:
  assumes "distinct is" "\<And>i. i \<in> set is \<Longrightarrow> i < length xs \<and> (\<exists>y. f (xs ! i) = Some y)"
  shows "\<exists>ys. fold_opt (\<lambda>xs i. do { x \<leftarrow> get_at xs i; y \<leftarrow> f x; set_at xs i y }) xs is = Some ys \<and>
    length ys = length xs \<and> (\<forall>i. ys ! i = (if i \<in> set is then the (f (xs ! i)) else xs ! i))"
  using assms
proof (induction "is" arbitrary: xs)
  case Nil
  then show ?case by simp
next
  case (Cons i "is")
  from Cons.prems(2) [of i] obtain y where y: "i < length xs" "f (xs ! i) = Some y" by auto
  let ?xs = "xs[i := y]"
  have other: "?xs ! j = xs ! j" if "j \<in> set is" for j
    using that Cons.prems(1) by (metis distinct.simps(2) nth_list_update_neq)
  have "\<exists>ys. fold_opt (\<lambda>xs i. do { x \<leftarrow> get_at xs i; y \<leftarrow> f x; set_at xs i y }) ?xs is = Some ys \<and>
    length ys = length ?xs \<and> (\<forall>k. ys ! k = (if k \<in> set is then the (f (?xs ! k)) else ?xs ! k))"
    using Cons.prems other by (intro Cons.IH) auto
  with y other Cons.prems(1) show ?case by (auto simp: nth_list_update)
qed

lemma update_slots_total:
  assumes "distinct is" "\<And>i. i \<in> set is \<Longrightarrow> i < length xs"
  shows "\<exists>ys. fold_opt (\<lambda>xs i. do { x \<leftarrow> get_at xs i; set_at xs i (f x) }) xs is = Some ys \<and>
    length ys = length xs \<and> (\<forall>i. ys ! i = (if i \<in> set is then f (xs ! i) else xs ! i))"
  using update_slots [of "is" xs "\<lambda>x. Some (f x)"] assms by (simp only: option.sel bind.bind_lunit) blast

lemma set_repeat_slots: "set repeat_slots = {10..<20}" "distinct repeat_slots"
  by (simp_all only: repeat_slots_def J2534_SCHEDULE_SLOTS_def set_upt distinct_upt)
    (simp only: mult_numeral_1 numeral_times_numeral semiring_norm)

section \<open>Well-formed schedulers\<close>

definition job_wf :: "schedule_job \<Rightarrow> bool" where
  "job_wf job \<longleftrightarrow> length (sj_mask job) = J2534_SCHEDULE_DATA_MAX \<and>
     length (sj_pattern job) = J2534_SCHEDULE_DATA_MAX \<and> sj_match_len job \<le> J2534_SCHEDULE_DATA_MAX"

definition schedule_wf :: "scheduler \<Rightarrow> bool" where
  "schedule_wf jobs \<longleftrightarrow> length jobs = 2 * J2534_SCHEDULE_SLOTS \<and> list_all job_wf jobs"

lemma schedule_wf_length: "schedule_wf jobs \<Longrightarrow> length jobs = 20"
  by (simp add: schedule_wf_def J2534_SCHEDULE_SLOTS_def)

lemma schedule_wf_job: "schedule_wf jobs \<Longrightarrow> i < 20 \<Longrightarrow> job_wf (jobs ! i)"
  by (simp add: schedule_wf_def J2534_SCHEDULE_SLOTS_def list_all_length)

text \<open>What it means for a message to satisfy the pattern of a job.\<close>

definition accepts :: "schedule_job \<Rightarrow> byte list \<Rightarrow> u32w \<Rightarrow> bool" where
  "accepts job data flags \<longleftrightarrow> sj_match_len job \<le> length data \<and> flags = sj_match_flags job \<and>
     (\<forall>i< sj_match_len job. data ! i AND sj_mask job ! i = sj_pattern job ! i)"

lemma matches_from_eq:
  assumes "\<And>i. i \<in> set is \<Longrightarrow> i < length data \<and> i < length (sj_mask job) \<and> i < length (sj_pattern job)"
  shows "matches_from job data is =
    Some (\<forall>i\<in>set is. data ! i AND sj_mask job ! i = sj_pattern job ! i)"
  using assms by (induction "is") auto

lemma matches_eq: "job_wf job \<Longrightarrow> matches job data flags = Some (accepts job data flags)"
  using matches_from_eq [of "[0..<sj_match_len job]" data job]
  by (auto simp: matches_def accepts_def job_wf_def)

lemma receive_job_wf:
  "job_wf job \<Longrightarrow> \<exists>job'. schedule_receive_job job data flags ts = Some job' \<and> job_wf job'"
  by (simp add: schedule_receive_job_def matches_eq Let_def) (simp add: job_wf_def)

lemma schedule_receive_slots:
  assumes "schedule_wf jobs"
  shows "\<exists>jobs'. j2534_schedule_receive jobs data flags ts = Some jobs' \<and> schedule_wf jobs' \<and>
    (\<forall>i<10. jobs' ! i = jobs ! i) \<and>
    (\<forall>i. 10 \<le> i \<longrightarrow> i < 20 \<longrightarrow> schedule_receive_job (jobs ! i) data flags ts = Some (jobs' ! i))"
proof -
  let ?f = "\<lambda>job. schedule_receive_job job data flags ts"
  have f: "\<exists>y. ?f (jobs ! i) = Some y \<and> job_wf y" if "i < 20" for i
    using receive_job_wf [OF schedule_wf_job [OF assms that]] .
  have "\<exists>ys. j2534_schedule_receive jobs data flags ts = Some ys \<and> length ys = length jobs \<and>
      (\<forall>i. ys ! i = (if i \<in> set repeat_slots then the (?f (jobs ! i)) else jobs ! i))"
    unfolding j2534_schedule_receive_def
    using f schedule_wf_length [OF assms]
    by (intro update_slots) (fastforce simp: set_repeat_slots)+
  then obtain ys where ys: "j2534_schedule_receive jobs data flags ts = Some ys"
    "length ys = length jobs" "\<And>i. ys ! i = (if i \<in> {10..<20} then the (?f (jobs ! i)) else jobs ! i)"
    by (auto simp: set_repeat_slots)
  have "job_wf (ys ! i)" if "i < 20" for i
    using f [OF that] schedule_wf_job [OF assms that] by (auto simp: ys(3))
  then have "schedule_wf ys"
    using ys(2) assms by (simp add: schedule_wf_def J2534_SCHEDULE_SLOTS_def list_all_length)
  moreover have "?f (jobs ! i) = Some (ys ! i)" if "10 \<le> i" "i < 20" for i
    using f [OF that(2)] that by (auto simp: ys(3))
  ultimately show ?thesis using ys by simp
qed

lemma expire_job_wf: "job_wf job \<Longrightarrow> job_wf (schedule_expire_job job now)"
  by (simp add: schedule_expire_job_def job_wf_def)

lemma schedule_expire_slots:
  assumes "schedule_wf jobs"
  shows "\<exists>jobs'. j2534_schedule_expire jobs now = Some jobs' \<and> schedule_wf jobs' \<and>
    (\<forall>i<10. jobs' ! i = jobs ! i) \<and>
    (\<forall>i. 10 \<le> i \<longrightarrow> i < 20 \<longrightarrow> jobs' ! i = schedule_expire_job (jobs ! i) now)"
proof -
  have "\<exists>ys. j2534_schedule_expire jobs now = Some ys \<and> length ys = length jobs \<and>
      (\<forall>i. ys ! i = (if i \<in> set repeat_slots then schedule_expire_job (jobs ! i) now else jobs ! i))"
    unfolding j2534_schedule_expire_def using schedule_wf_length [OF assms]
    by (intro update_slots_total) (auto simp: set_repeat_slots)
  then obtain ys where ys: "j2534_schedule_expire jobs now = Some ys" "length ys = length jobs"
    "\<And>i. ys ! i = (if i \<in> {10..<20} then schedule_expire_job (jobs ! i) now else jobs ! i)"
    by (auto simp: set_repeat_slots)
  then have "schedule_wf ys"
    using assms by (auto simp: schedule_wf_def J2534_SCHEDULE_SLOTS_def list_all_length expire_job_wf)
  with ys show ?thesis by simp
qed

lemma schedule_lost_slots:
  assumes "schedule_wf jobs"
  shows "\<exists>jobs'. j2534_schedule_receive_lost jobs = Some jobs' \<and> schedule_wf jobs' \<and>
    (\<forall>i<10. jobs' ! i = jobs ! i) \<and>
    (\<forall>i. 10 \<le> i \<longrightarrow> i < 20 \<longrightarrow> jobs' ! i = (jobs ! i)\<lparr>sj_active := False\<rparr>)"
proof -
  have "\<exists>ys. j2534_schedule_receive_lost jobs = Some ys \<and> length ys = length jobs \<and>
      (\<forall>i. ys ! i = (if i \<in> set repeat_slots then (jobs ! i)\<lparr>sj_active := False\<rparr> else jobs ! i))"
    unfolding j2534_schedule_receive_lost_def using schedule_wf_length [OF assms]
    by (intro update_slots_total) (auto simp: set_repeat_slots)
  then obtain ys where ys: "j2534_schedule_receive_lost jobs = Some ys" "length ys = length jobs"
    "\<And>i. ys ! i = (if i \<in> {10..<20} then (jobs ! i)\<lparr>sj_active := False\<rparr> else jobs ! i)"
    by (auto simp: set_repeat_slots)
  then have "schedule_wf ys"
    using assms by (auto simp: schedule_wf_def J2534_SCHEDULE_SLOTS_def list_all_length job_wf_def)
  with ys show ?thesis by simp
qed

section \<open>The order of service\<close>

text \<open>How long a ready job has been due, whatever the clock has wrapped to.\<close>

definition waited :: "u32w \<Rightarrow> schedule_job \<Rightarrow> nat" where
  "waited now job = unat (now - sj_due_us job)"

lemma sint_less_age:
  assumes "unat (b - x) < 2147483648" "unat (b - y) < 2147483648"
  shows "sint (x - y :: u32w) < 0 \<longleftrightarrow> unat (b - y) < unat (b - x)"
proof -
  have "x - y = (b - y) - (b - x)" by simp
  then have "unat (x - y) = (if unat (b - x) \<le> unat (b - y) then unat (b - y) - unat (b - x)
      else unat (b - y) + 4294967296 - unat (b - x))"
    using unat_sub_if' [of "b - y" "b - x"] by simp
  moreover have "sint (x - y) < 0 \<longleftrightarrow> \<not> unat (x - y) < 2147483648"
    using sint_nonneg_iff [of "x - y"] by linarith
  ultimately show ?thesis using assms by (simp split: if_splits)
qed

lemma sint_less_from:
  assumes "unat (x - b) < 2147483648" "unat (y - b) < 2147483648"
  shows "sint (x - y :: u32w) < 0 \<longleftrightarrow> unat (x - b) < unat (y - b)"
proof -
  have "x - y = (x - b) - (y - b)" by simp
  then have "unat (x - y) = (if unat (y - b) \<le> unat (x - b) then unat (x - b) - unat (y - b)
      else unat (x - b) + 4294967296 - unat (y - b))"
    using unat_sub_if' [of "x - b" "y - b"] by simp
  moreover have "sint (x - y) < 0 \<longleftrightarrow> \<not> unat (x - y) < 2147483648"
    using sint_nonneg_iff [of "x - y"] by linarith
  ultimately show ?thesis using assms by (simp split: if_splits)
qed

text \<open>\<open>serves_first a b\<close>: \<open>a\<close> has waited longer, or as long and its identifier is not later.\<close>

definition serves_first :: "u32w \<Rightarrow> u32w \<Rightarrow> schedule_job \<Rightarrow> schedule_job \<Rightarrow> bool" where
  "serves_first base now a b \<longleftrightarrow> waited now b < waited now a \<or>
     (waited now b = waited now a \<and> unat (sj_id a - base) \<le> unat (sj_id b - base))"

lemma ready_due: "schedule_ready job now rep \<Longrightarrow> unat (now - sj_due_us job) < 2147483648"
  by (simp add: schedule_ready_def at_or_after_iff)

lemma due_waited: "sj_due_us a = sj_due_us b \<longleftrightarrow> waited now a = waited now b"
  by (simp add: waited_def word_unat_eq_iff [symmetric])

lemma schedule_before_rank:
  assumes "schedule_ready a now rep" "schedule_ready b now rep"
    and "unat (sj_id a - base) < 2147483648" "unat (sj_id b - base) < 2147483648"
  shows "schedule_before a b \<longleftrightarrow> \<not> serves_first base now b a"
  unfolding schedule_before_def serves_first_def
  using sint_less_age [OF ready_due [OF assms(1)] ready_due [OF assms(2)]] sint_less_from [OF assms(3,4)]
  by (auto simp: due_waited [of a b now]) (auto simp: waited_def)

lemma serves_first_trans:
  "serves_first base now a b \<Longrightarrow> serves_first base now b c \<Longrightarrow> serves_first base now a c"
  by (auto simp: serves_first_def)

lemma serves_first_total: "\<not> serves_first base now a b \<Longrightarrow> serves_first base now b a"
  by (auto simp: serves_first_def)

definition next_ok :: "scheduler \<Rightarrow> u32w \<Rightarrow> u32w \<Rightarrow> bool \<Rightarrow> nat \<Rightarrow> nat option \<Rightarrow> bool" where
  "next_ok jobs base now rep k next = (case next of
       None \<Rightarrow> \<forall>i<k. \<not> schedule_ready (jobs ! i) now rep
     | Some n \<Rightarrow> n < k \<and> schedule_ready (jobs ! n) now rep \<and>
         (\<forall>i<k. schedule_ready (jobs ! i) now rep \<longrightarrow> serves_first base now (jobs ! n) (jobs ! i)))"

lemma next_ok_step:
  assumes "\<And>i. i \<le> k \<Longrightarrow> unat (sj_id (jobs ! i) - base) < 2147483648"
    and "next_ok jobs base now rep k next"
  shows "next_ok jobs base now rep (Suc k) (schedule_next_step jobs now rep next k)"
proof (cases "schedule_ready (jobs ! k) now rep")
  case False
  with assms(2) show ?thesis
    by (auto simp: next_ok_def schedule_next_step_def less_Suc_eq split: option.splits)
next
  case True
  show ?thesis
  proof (cases "next")
    case None
    with True assms(2) show ?thesis
      by (auto simp: next_ok_def schedule_next_step_def less_Suc_eq serves_first_def)
  next
    case (Some n)
    with assms(2) have n: "n < k" "schedule_ready (jobs ! n) now rep"
      "\<And>i. i < k \<Longrightarrow> schedule_ready (jobs ! i) now rep \<Longrightarrow> serves_first base now (jobs ! n) (jobs ! i)"
      by (auto simp: next_ok_def)
    have before: "schedule_before (jobs ! k) (jobs ! n) \<longleftrightarrow> \<not> serves_first base now (jobs ! n) (jobs ! k)"
      using True n(1,2) assms(1) [of k] assms(1) [of n] by (intro schedule_before_rank) auto
    show ?thesis
    proof (cases "serves_first base now (jobs ! n) (jobs ! k)")
      case True
      with Some before n show ?thesis
        by (auto simp: next_ok_def schedule_next_step_def less_Suc_eq)
    next
      case False
      have "serves_first base now (jobs ! k) (jobs ! i)"
        if "i < Suc k" "schedule_ready (jobs ! i) now rep" for i
        using that n(3) serves_first_total [OF False] serves_first_trans
        by (cases "i = k") (auto simp: serves_first_def less_Suc_eq)
      with Some before False True show ?thesis
        by (simp add: next_ok_def schedule_next_step_def)
    qed
  qed
qed

lemma next_ok_fold:
  assumes "\<And>i. i < n \<Longrightarrow> unat (sj_id (jobs ! i) - base) < 2147483648"
  shows "next_ok jobs base now rep n (foldl (schedule_next_step jobs now rep) None [0..<n])"
  using assms
proof (induction n)
  case 0
  then show ?case by (simp add: next_ok_def)
next
  case (Suc n)
  then show ?case using next_ok_step [of n jobs base now rep] by simp
qed
text \<open>C30: The job served next is the one longest overdue: among all slots that are active, not in
  transmission, due and allowed, \<open>j2534_schedule_next\<close> returns one that has waited longest, with
  the earliest identifier among equals, and it returns nothing only when no slot is ready. This
  holds across the wrap of the microsecond clock and, for identifiers spanning less than half
  their range, across the wrap of the identifiers.\<close>

theorem j2534_schedule_next_earliest:
  assumes "\<forall>i<20. unat (sj_id (jobs ! i) - base) < 2147483648"
  shows "case j2534_schedule_next jobs now rep of
      None \<Rightarrow> \<forall>i<20. \<not> schedule_ready (jobs ! i) now rep
    | Some n \<Rightarrow> n < 20 \<and> schedule_ready (jobs ! n) now rep \<and>
        (\<forall>i<20. schedule_ready (jobs ! i) now rep \<longrightarrow>
          waited now (jobs ! i) < waited now (jobs ! n) \<or>
          (waited now (jobs ! i) = waited now (jobs ! n) \<and>
           unat (sj_id (jobs ! n) - base) \<le> unat (sj_id (jobs ! i) - base)))"
  using next_ok_fold [of 20 jobs base now rep] assms
  unfolding j2534_schedule_next_def next_ok_def serves_first_def J2534_SCHEDULE_SLOTS_def
  by (simp cong: option.case_cong)

definition blank_job :: schedule_job where
  "blank_job = \<lparr>sj_id = 0, sj_kind = J2534_SCHEDULE_PERIODIC, sj_interval_us = 0, sj_due_us = 0,
     sj_ended_us = 0, sj_created_us = 0, sj_match_us = 0, sj_active = False, sj_pending = False,
     sj_transmission_ended = False, sj_sent = False, sj_matched = False, sj_have_match = False,
     sj_message = \<lparr>sm_flags = 0, sm_handle = 0, sm_len = 0, sm_data = replicate 12 0\<rparr>,
     sj_match_flags = 0, sj_match_len = 0, sj_mask = replicate 12 0, sj_pattern = replicate 12 0\<rparr>"

text \<open>Two jobs due on either side of the wrap of the clock.\<close>

definition sample_jobs :: scheduler where
  "sample_jobs = (replicate 20 blank_job)
     [3 := blank_job\<lparr>sj_id := 7, sj_active := True, sj_due_us := 5\<rparr>,
      12 := blank_job\<lparr>sj_id := 8, sj_kind := J2534_SCHEDULE_WHILE, sj_active := True,
        sj_sent := True, sj_due_us := 0xfffffff0, sj_ended_us := 0xffffff00, sj_created_us := 0xfffffe00,
        sj_match_len := 1, sj_mask := 0xff # replicate 11 0, sj_pattern := 0x42 # replicate 11 0\<rparr>]"

lemma sample_ids: "\<forall>i<20. unat (sj_id (sample_jobs ! i) - 0) < 2147483648"
  by (simp add: sample_jobs_def nth_list_update blank_job_def)

lemma sample_wf: "schedule_wf sample_jobs"
  by (simp add: sample_jobs_def schedule_wf_def job_wf_def blank_job_def list_all_length
      nth_list_update J2534_SCHEDULE_SLOTS_def J2534_SCHEDULE_DATA_MAX_def)

lemma j2534_schedule_next_earliest_witness:
  "j2534_schedule_next sample_jobs 16 True = Some 12 \<and> schedule_ready (sample_jobs ! 3) 16 True \<and>
   (waited 16 (sample_jobs ! 3) < waited 16 (sample_jobs ! 12) \<or>
    waited 16 (sample_jobs ! 3) = waited 16 (sample_jobs ! 12))"
proof -
  have n: "j2534_schedule_next sample_jobs 16 True = Some 12" by code_simp
  have r: "schedule_ready (sample_jobs ! 3) 16 True" by code_simp
  have "\<forall>i<20. schedule_ready (sample_jobs ! i) 16 True \<longrightarrow>
      waited 16 (sample_jobs ! i) < waited 16 (sample_jobs ! 12) \<or>
      (waited 16 (sample_jobs ! i) = waited 16 (sample_jobs ! 12) \<and>
       unat (sj_id (sample_jobs ! 12) - 0) \<le> unat (sj_id (sample_jobs ! i) - 0))"
    using j2534_schedule_next_earliest [of sample_jobs 0 16 True, OF sample_ids]
    unfolding n option.case by (elim conjE)
  from this [rule_format, of 3] n r show ?thesis by auto
qed

section \<open>A repeat message between two transmissions\<close>

definition receive_all :: "scheduler \<Rightarrow> (byte list \<times> u32w \<times> u32w) list \<Rightarrow> scheduler option" where
  "receive_all jobs frames =
     fold_opt (\<lambda>jobs (data, flags, ts). j2534_schedule_receive jobs data flags ts) jobs frames"

text \<open>Whether a job counts a frame, and whether the frame answers its last transmission.\<close>

definition counts :: "schedule_job \<Rightarrow> byte list \<times> u32w \<times> u32w \<Rightarrow> bool" where
  "counts job = (\<lambda>(data, flags, ts). at_or_after ts (sj_created_us job))"

definition taken :: "schedule_job \<Rightarrow> byte list \<times> u32w \<times> u32w \<Rightarrow> bool" where
  "taken job = (\<lambda>(data, flags, ts). accepts job data flags)"

definition in_window :: "schedule_job \<Rightarrow> byte list \<times> u32w \<times> u32w \<Rightarrow> bool" where
  "in_window job = (\<lambda>(data, flags, ts). at_or_after ts (sj_ended_us job) \<and> at_or_after (sj_due_us job) ts)"

definition survives :: "schedule_job \<Rightarrow> byte list \<times> u32w \<times> u32w \<Rightarrow> bool" where
  "survives job fr \<longleftrightarrow> (counts job fr \<longrightarrow>
     (sj_kind job = J2534_SCHEDULE_UNTIL \<longrightarrow> \<not> taken job fr) \<and>
     (sj_kind job = J2534_SCHEDULE_WHILE \<longrightarrow> taken job fr))"

definition answers :: "schedule_job \<Rightarrow> byte list \<times> u32w \<times> u32w \<Rightarrow> bool" where
  "answers job fr \<longleftrightarrow> counts job fr \<and> taken job fr \<and> in_window job fr"

text \<open>What receiving leaves alone.\<close>

definition same_plan :: "schedule_job \<Rightarrow> schedule_job \<Rightarrow> bool" where
  "same_plan a b \<longleftrightarrow> sj_kind a = sj_kind b \<and> sj_created_us a = sj_created_us b \<and>
     sj_ended_us a = sj_ended_us b \<and> sj_due_us a = sj_due_us b \<and> sj_sent a = sj_sent b \<and>
     sj_pending a = sj_pending b \<and> sj_transmission_ended a = sj_transmission_ended b \<and>
     sj_match_len a = sj_match_len b \<and> sj_match_flags a = sj_match_flags b \<and>
     sj_mask a = sj_mask b \<and> sj_pattern a = sj_pattern b"

lemma same_plan_survives: "same_plan a b \<Longrightarrow> survives a fr = survives b fr"
  and same_plan_answers: "same_plan a b \<Longrightarrow> answers a fr = answers b fr"
  by (auto simp: same_plan_def survives_def answers_def counts_def taken_def in_window_def accepts_def
      split: prod.splits)

lemma receive_job_effect:
  assumes "job_wf job" "schedule_receive_job job data flags ts = Some job'"
  shows "same_plan job' job \<and>
    (sj_active job' \<longleftrightarrow> sj_active job \<and> survives job (data, flags, ts)) \<and>
    (sj_active job' \<longrightarrow> sj_sent job \<longrightarrow>
      (sj_matched job' \<longleftrightarrow> sj_matched job \<or> answers job (data, flags, ts)))"
  using assms
  by (auto simp: schedule_receive_job_def matches_eq Let_def same_plan_def survives_def answers_def
      counts_def taken_def in_window_def split: if_splits)

lemma receive_all_slots:
  assumes "schedule_wf jobs"
  shows "\<exists>jobs'. receive_all jobs frames = Some jobs' \<and> schedule_wf jobs' \<and>
    (\<forall>i<10. jobs' ! i = jobs ! i) \<and>
    (\<forall>i. 10 \<le> i \<longrightarrow> i < 20 \<longrightarrow> same_plan (jobs' ! i) (jobs ! i) \<and>
      (sj_active (jobs' ! i) \<longleftrightarrow> sj_active (jobs ! i) \<and> (\<forall>fr\<in>set frames. survives (jobs ! i) fr)) \<and>
      (sj_active (jobs' ! i) \<longrightarrow> sj_sent (jobs ! i) \<longrightarrow>
        (sj_matched (jobs' ! i) \<longleftrightarrow>
          sj_matched (jobs ! i) \<or> (\<exists>fr\<in>set frames. answers (jobs ! i) fr))))"
  using assms
proof (induction frames arbitrary: jobs)
  case Nil
  then show ?case by (simp add: receive_all_def same_plan_def)
next
  case (Cons fr frames)
  obtain data flags ts where fr: "fr = (data, flags, ts)" by (cases fr) auto
  obtain jobs1 where 1: "j2534_schedule_receive jobs data flags ts = Some jobs1" "schedule_wf jobs1"
    "\<And>i. i < 10 \<Longrightarrow> jobs1 ! i = jobs ! i"
    "\<And>i. 10 \<le> i \<Longrightarrow> i < 20 \<Longrightarrow> schedule_receive_job (jobs ! i) data flags ts = Some (jobs1 ! i)"
    using schedule_receive_slots [OF Cons.prems] by metis
  obtain jobs2 where 2: "receive_all jobs1 frames = Some jobs2" "schedule_wf jobs2"
    "\<And>i. i < 10 \<Longrightarrow> jobs2 ! i = jobs1 ! i"
    "\<And>i. 10 \<le> i \<Longrightarrow> i < 20 \<Longrightarrow> same_plan (jobs2 ! i) (jobs1 ! i) \<and>
      (sj_active (jobs2 ! i) \<longleftrightarrow> sj_active (jobs1 ! i) \<and> (\<forall>fr\<in>set frames. survives (jobs1 ! i) fr)) \<and>
      (sj_active (jobs2 ! i) \<longrightarrow> sj_sent (jobs1 ! i) \<longrightarrow>
        (sj_matched (jobs2 ! i) \<longleftrightarrow>
          sj_matched (jobs1 ! i) \<or> (\<exists>fr\<in>set frames. answers (jobs1 ! i) fr)))"
    using Cons.IH [OF 1(2)] by blast
  have "receive_all jobs (fr # frames) = Some jobs2"
    using 1(1) 2(1) by (simp add: receive_all_def fr)
  moreover have "same_plan (jobs2 ! i) (jobs ! i) \<and>
      (sj_active (jobs2 ! i) \<longleftrightarrow> sj_active (jobs ! i) \<and> (\<forall>fr\<in>set (fr # frames). survives (jobs ! i) fr)) \<and>
      (sj_active (jobs2 ! i) \<longrightarrow> sj_sent (jobs ! i) \<longrightarrow>
        (sj_matched (jobs2 ! i) \<longleftrightarrow>
          sj_matched (jobs ! i) \<or> (\<exists>fr\<in>set (fr # frames). answers (jobs ! i) fr)))"
    if i: "10 \<le> i" "i < 20" for i
  proof -
    note eff = receive_job_effect [OF schedule_wf_job [OF Cons.prems i(2)] 1(4) [OF i]]
    have plan: "same_plan (jobs1 ! i) (jobs ! i)" using eff by simp
    have "sj_sent (jobs1 ! i) = sj_sent (jobs ! i)" using plan by (simp add: same_plan_def)
    moreover have "same_plan (jobs2 ! i) (jobs ! i)"
      using 2(4) [OF i] plan by (simp add: same_plan_def)
    ultimately show ?thesis
      using 2(4) [OF i] eff same_plan_survives [OF plan] same_plan_answers [OF plan] fr by auto
  qed
  ultimately show ?case using 1(3) 2(2,3) by (intro exI [of _ jobs2]) simp
qed

text \<open>C31: What keeps a repeat message alive. Take a repeat job that has been sent and not yet
  answered, any sequence of received messages, and the expiry check when the job is due again:
  an UNTIL job is still active exactly when no message accepted since it was created matched its
  pattern; a WHILE job exactly when every such message matched and one of the matches came
  between the end of the transmission and the due time. Periodic slots are not touched.\<close>

theorem j2534_schedule_repeat_rule:
  assumes "schedule_wf jobs" "10 \<le> i" "i < 20" "at_or_after now (sj_due_us (jobs ! i))"
    and "sj_active (jobs ! i)" "sj_sent (jobs ! i)" "\<not> sj_matched (jobs ! i)"
    and "\<not> sj_pending (jobs ! i) \<or> sj_transmission_ended (jobs ! i)"
  shows "\<exists>jobs' jobs''. receive_all jobs frames = Some jobs' \<and>
    j2534_schedule_expire jobs' now = Some jobs'' \<and> (\<forall>k<10. jobs'' ! k = jobs ! k) \<and>
    (sj_kind (jobs ! i) = J2534_SCHEDULE_UNTIL \<longrightarrow>
      (sj_active (jobs'' ! i) \<longleftrightarrow> (\<forall>(data, flags, ts)\<in>set frames.
        at_or_after ts (sj_created_us (jobs ! i)) \<longrightarrow> \<not> accepts (jobs ! i) data flags))) \<and>
    (sj_kind (jobs ! i) = J2534_SCHEDULE_WHILE \<longrightarrow>
      (sj_active (jobs'' ! i) \<longleftrightarrow> (\<forall>(data, flags, ts)\<in>set frames.
          at_or_after ts (sj_created_us (jobs ! i)) \<longrightarrow> accepts (jobs ! i) data flags) \<and>
        (\<exists>(data, flags, ts)\<in>set frames. at_or_after ts (sj_created_us (jobs ! i)) \<and>
          accepts (jobs ! i) data flags \<and> at_or_after ts (sj_ended_us (jobs ! i)) \<and>
          at_or_after (sj_due_us (jobs ! i)) ts)))"
proof -
  obtain jobs' where 1: "receive_all jobs frames = Some jobs'" "schedule_wf jobs'"
    "\<forall>k<10. jobs' ! k = jobs ! k" "same_plan (jobs' ! i) (jobs ! i)"
    "sj_active (jobs' ! i) \<longleftrightarrow> (\<forall>fr\<in>set frames. survives (jobs ! i) fr)"
    "sj_active (jobs' ! i) \<longrightarrow> (sj_matched (jobs' ! i) \<longleftrightarrow> (\<exists>fr\<in>set frames. answers (jobs ! i) fr))"
    using receive_all_slots [OF assms(1), of frames] assms(2,3,5,6,7) by blast
  obtain jobs'' where 2: "j2534_schedule_expire jobs' now = Some jobs''"
    "\<forall>k<10. jobs'' ! k = jobs' ! k" "jobs'' ! i = schedule_expire_job (jobs' ! i) now"
    using schedule_expire_slots [OF 1(2), of now] assms(2,3) by blast
  have "sj_active (jobs'' ! i) \<longleftrightarrow> sj_active (jobs' ! i) \<and>
      (sj_kind (jobs ! i) = J2534_SCHEDULE_WHILE \<longrightarrow> sj_matched (jobs' ! i))"
    using assms(4,6,8) 1(4) unfolding 2(3) by (auto simp: schedule_expire_job_def same_plan_def)
  then show ?thesis
    using 1 2 by (auto simp: survives_def answers_def counts_def taken_def in_window_def)
qed

lemma j2534_schedule_repeat_rule_witness:
  "\<exists>jobs' jobs''. receive_all sample_jobs [([0x42], 0, 0xffffff80)] = Some jobs' \<and>
    j2534_schedule_expire jobs' 16 = Some jobs'' \<and> sj_active (jobs'' ! 12)"
proof -
  let ?job = "sample_jobs ! 12"
  have job: "sj_kind ?job = J2534_SCHEDULE_WHILE" "sj_active ?job" "sj_sent ?job" "\<not> sj_matched ?job"
    "\<not> sj_pending ?job \<or> sj_transmission_ended ?job" "at_or_after 16 (sj_due_us ?job)"
    by code_simp+
  have frame: "accepts ?job [0x42] 0"
    by (simp add: accepts_def sample_jobs_def blank_job_def)
  have times: "at_or_after 0xffffff80 (sj_created_us ?job)" "at_or_after 0xffffff80 (sj_ended_us ?job)"
    "at_or_after (sj_due_us ?job) 0xffffff80"
    by code_simp+
  show ?thesis
    using j2534_schedule_repeat_rule [OF sample_wf _ _ job(6,2,3,4,5), of "[([0x42], 0, 0xffffff80)]"]
      job frame times by auto
qed

lemma transmitted_plan:
  "sj_active (j2534_schedule_transmitted job started ended) = sj_active job"
  "sj_created_us (j2534_schedule_transmitted job started ended) = sj_created_us job"
  "sj_kind (j2534_schedule_transmitted job started ended) = sj_kind job"
  "accepts (j2534_schedule_transmitted job started ended) = accepts job"
  "job_wf (j2534_schedule_transmitted job started ended) = job_wf job"
  by (auto simp: j2534_schedule_transmitted_def Let_def accepts_def job_wf_def fun_eq_iff)

lemma transmitted_inactive:
  "j2534_schedule_transmitted (job\<lparr>sj_active := False\<rparr>) started ended =
   (j2534_schedule_transmitted job started ended)\<lparr>sj_active := False\<rparr>"
  by (simp add: j2534_schedule_transmitted_def Let_def)

lemma receive_taken:
  assumes "job_wf job" "sj_active job" "at_or_after ts (sj_created_us job)" "accepts job data flags"
    "sj_kind job \<noteq> J2534_SCHEDULE_UNTIL"
  shows "schedule_receive_job job data flags ts =
    Some (job\<lparr>sj_have_match := True, sj_match_us := ts,
      sj_matched := sj_matched job \<or>
        (sj_sent job \<and> at_or_after ts (sj_ended_us job) \<and> at_or_after (sj_due_us job) ts)\<rparr>)"
  using assms matches_eq [OF assms(1)]
  by (auto simp: schedule_receive_job_def Let_def intro!: schedule_job.equality)

lemma transmitted_taken:
  assumes "\<not> (sj_transmission_ended job \<and> sj_ended_us job = ended)"
  shows "j2534_schedule_transmitted (job\<lparr>sj_have_match := True, sj_match_us := ts, sj_matched := m\<rparr>)
      started ended =
    (j2534_schedule_transmitted job started ended)\<lparr>sj_have_match := True, sj_match_us := ts,
      sj_matched := at_or_after ts ended \<and>
        at_or_after (sj_due_us (j2534_schedule_transmitted job started ended)) ts\<rparr>"
  using assms by (cases job) (auto simp: j2534_schedule_transmitted_def Let_def)

lemma receive_stops:
  assumes "job_wf job" "\<not> (sj_active job \<and> at_or_after ts (sj_created_us job) \<and>
    accepts job data flags \<and> sj_kind job \<noteq> J2534_SCHEDULE_UNTIL)"
  shows "schedule_receive_job job data flags ts =
    Some (if sj_active job \<and> at_or_after ts (sj_created_us job) \<and>
        (accepts job data flags \<or> sj_kind job = J2534_SCHEDULE_WHILE)
      then job\<lparr>sj_active := False\<rparr> else job)"
  using assms by (auto simp: schedule_receive_job_def matches_eq)

text \<open>C32: A reply and the report of the transmission it answers may reach the scheduler in either
  order: recording the reply first and the end of the transmission second leaves the job exactly
  as the other order does, whatever the earlier cycle left behind.\<close>

theorem j2534_schedule_report_order:
  assumes "job_wf job" "\<not> (sj_transmission_ended job \<and> sj_ended_us job = ended)"
    and "sj_have_match job \<Longrightarrow> \<not> at_or_after (sj_match_us job) ended"
  shows "schedule_receive_job (j2534_schedule_transmitted job started ended) data flags ts =
    map_option (\<lambda>j. j2534_schedule_transmitted j started ended)
      (schedule_receive_job job data flags ts)"
proof (cases "sj_active job \<and> at_or_after ts (sj_created_us job) \<and> accepts job data flags \<and>
    sj_kind job \<noteq> J2534_SCHEDULE_UNTIL")
  case True
  let ?t = "j2534_schedule_transmitted job started ended"
  have t: "sj_sent ?t" "sj_ended_us ?t = ended" "\<not> sj_matched ?t"
    using assms(2,3) by (auto simp: j2534_schedule_transmitted_def Let_def)
  show ?thesis
    using True assms(1) t by (simp add: receive_taken transmitted_plan transmitted_taken [OF assms(2)])
next
  case False
  then show ?thesis using assms(1)
    by (simp add: receive_stops transmitted_plan transmitted_inactive)
qed

lemma j2534_schedule_report_order_witness:
  "\<exists>j. schedule_receive_job (j2534_schedule_transmitted (sample_jobs ! 12) 1 2) [0x42] 0 3 = Some j \<and>
    sj_matched j = sj_matched (j2534_schedule_transmitted
      (the (schedule_receive_job (sample_jobs ! 12) [0x42] 0 3)) 1 2)"
proof -
  have w: "job_wf (sample_jobs ! 12)" using sample_wf by (rule schedule_wf_job) simp
  obtain j where "schedule_receive_job (sample_jobs ! 12) [0x42] 0 3 = Some j"
    using receive_job_wf [OF w] by blast
  moreover have "\<not> (sj_transmission_ended (sample_jobs ! 12) \<and> sj_ended_us (sample_jobs ! 12) = 2)"
    "\<not> sj_have_match (sample_jobs ! 12)"
    by code_simp+
  ultimately show ?thesis
    using j2534_schedule_report_order [OF w, of 2 1 "[0x42]" 0 3] by simp
qed

section \<open>Slots as a store of identifiers\<close>

lemma find_upt_Some:
  "find P [a..<b] = Some i \<longleftrightarrow> a \<le> i \<and> i < b \<and> P i \<and> (\<forall>j. a \<le> j \<longrightarrow> j < i \<longrightarrow> \<not> P j)"
proof
  assume "find P [a..<b] = Some i"
  then show "a \<le> i \<and> i < b \<and> P i \<and> (\<forall>j. a \<le> j \<longrightarrow> j < i \<longrightarrow> \<not> P j)"
    by (auto simp: find_Some_iff) (metis add_diff_inverse_nat less_diff_conv2 linorder_not_less add.commute)
next
  assume "a \<le> i \<and> i < b \<and> P i \<and> (\<forall>j. a \<le> j \<longrightarrow> j < i \<longrightarrow> \<not> P j)"
  then show "find P [a..<b] = Some i"
    unfolding find_Some_iff by (intro exI [of _ "i - a"]) auto
qed

lemma find_upt_None: "find P [a..<b] = None \<longleftrightarrow> (\<forall>i. a \<le> i \<longrightarrow> i < b \<longrightarrow> \<not> P i)"
  by (auto simp: find_None_iff)

lemma find_upt_cong:
  "(\<And>i. a \<le> i \<Longrightarrow> i < b \<Longrightarrow> P i = Q i) \<Longrightarrow> find P [a..<b] = find Q [a..<b]"
  by (rule find_cong) auto

text \<open>The slots are a store of jobs by identifier with two separate quotas: a free slot is found
  in the half asked for, unless all ten of it are taken; a job stored there is found by its
  identifier and by no other, every other identifier finds what it found before, and the other
  half's free slot is unaffected. Identifier 0 finds nothing.\<close>

theorem j2534_schedule_slots:
  assumes "length jobs = 20" "j2534_schedule_allocate jobs rep = Some i"
    and "sj_id job \<noteq> 0" "j2534_schedule_find jobs (sj_id job) = None"
  shows "(if rep then 10 \<le> i \<and> i < 20 else i < 10) \<and> sj_id (jobs ! i) = 0 \<and>
    j2534_schedule_find (jobs[i := job]) (sj_id job) = Some i \<and>
    (\<forall>k. k \<noteq> sj_id job \<longrightarrow> j2534_schedule_find (jobs[i := job]) k = j2534_schedule_find jobs k) \<and>
    j2534_schedule_allocate (jobs[i := job]) (\<not> rep) = j2534_schedule_allocate jobs (\<not> rep) \<and>
    j2534_schedule_find jobs 0 = None"
proof -
  have i: "(if rep then 10 \<le> i \<and> i < 20 else i < 10)" "sj_id (jobs ! i) = 0" "i < 20"
    using assms(2)
    by (auto simp: j2534_schedule_allocate_def Let_def find_upt_Some J2534_SCHEDULE_SLOTS_def
        simp del: upt.simps split: if_splits)
  have at: "(jobs[i := job]) ! k = (if k = i then job else jobs ! k)" if "k < 20" for k
    using that assms(1) by (simp add: nth_list_update)
  have "j2534_schedule_find (jobs[i := job]) (sj_id job) = Some i"
    using assms(3,4) i(3) at
    by (auto simp: j2534_schedule_find_def find_upt_Some find_upt_None J2534_SCHEDULE_SLOTS_def
        simp del: upt.simps)
  moreover have "j2534_schedule_find (jobs[i := job]) k = j2534_schedule_find jobs k"
    if "k \<noteq> sj_id job" for k
    unfolding j2534_schedule_find_def J2534_SCHEDULE_SLOTS_def
    using at i(2) that by (intro find_upt_cong) auto
  moreover have "j2534_schedule_allocate (jobs[i := job]) (\<not> rep) = j2534_schedule_allocate jobs (\<not> rep)"
    unfolding j2534_schedule_allocate_def J2534_SCHEDULE_SLOTS_def Let_def
    using at i(1) by (intro find_upt_cong) (auto split: if_splits)
  moreover have "j2534_schedule_find jobs 0 = None"
    by (simp add: j2534_schedule_find_def find_upt_None del: upt.simps)
  ultimately show ?thesis using i(1,2) by blast
qed

lemma j2534_schedule_slots_witness:
  "j2534_schedule_allocate sample_jobs True = Some 10 \<and>
   j2534_schedule_find (sample_jobs[10 := blank_job\<lparr>sj_id := 9\<rparr>]) 9 = Some 10"
proof -
  have "length sample_jobs = 20" "j2534_schedule_allocate sample_jobs True = Some 10"
    "j2534_schedule_find sample_jobs 9 = None"
    by code_simp+
  then show ?thesis
    using j2534_schedule_slots [of sample_jobs True 10 "blank_job\<lparr>sj_id := 9\<rparr>"]
    by (simp add: blank_job_def)
qed

section \<open>The scheduler as a machine\<close>

text \<open>The calls \<open>main/j2534.c\<close> makes on a scheduler, a job being named by its slot.\<close>

datatype schedule_call =
    SReceive "byte list" u32w u32w
  | SExpire u32w
  | SReceiveLost
  | STransmitted nat u32w u32w
  | SDefer nat
  | SComplete nat bool u32w u32w

definition on_job :: "scheduler \<Rightarrow> nat \<Rightarrow> (schedule_job \<Rightarrow> schedule_job) \<Rightarrow> scheduler option" where
  "on_job jobs i f = Option.bind (get_at jobs i) (\<lambda>job. set_at jobs i (f job))"

fun do_schedule :: "scheduler \<Rightarrow> schedule_call \<Rightarrow> (scheduler \<times> unit) option" where
  "do_schedule jobs (SReceive data flags ts) =
     map_option (\<lambda>s. (s, ())) (j2534_schedule_receive jobs data flags ts)"
| "do_schedule jobs (SExpire now) = map_option (\<lambda>s. (s, ())) (j2534_schedule_expire jobs now)"
| "do_schedule jobs SReceiveLost = map_option (\<lambda>s. (s, ())) (j2534_schedule_receive_lost jobs)"
| "do_schedule jobs (STransmitted i started ended) = map_option (\<lambda>s. (s, ()))
     (on_job jobs i (\<lambda>job. j2534_schedule_transmitted job started ended))"
| "do_schedule jobs (SDefer i) = map_option (\<lambda>s. (s, ())) (on_job jobs i j2534_schedule_defer)"
| "do_schedule jobs (SComplete i success started ended) = map_option (\<lambda>s. (s, ()))
     (on_job jobs i (\<lambda>job. j2534_schedule_complete job success started ended))"

fun schedule_admissible :: "schedule_call \<Rightarrow> bool" where
  "schedule_admissible (STransmitted i _ _) = (i < 20)"
| "schedule_admissible (SDefer i) = (i < 20)"
| "schedule_admissible (SComplete i _ _ _) = (i < 20)"
| "schedule_admissible _ = True"

lemma on_job_wf:
  assumes "schedule_wf jobs" "i < 20" "\<And>job. job_wf job \<Longrightarrow> job_wf (f job)"
  shows "\<exists>jobs'. on_job jobs i f = Some jobs' \<and> schedule_wf jobs'"
proof -
  have "on_job jobs i f = Some (jobs[i := f (jobs ! i)])"
    using assms(2) schedule_wf_length [OF assms(1)] by (simp add: on_job_def)
  moreover have "schedule_wf (jobs[i := f (jobs ! i)])"
    using assms schedule_wf_length [OF assms(1)]
    by (auto simp: schedule_wf_def list_all_length nth_list_update)
  ultimately show ?thesis by blast
qed

lemma complete_wf: "job_wf job \<Longrightarrow> job_wf (j2534_schedule_complete job success started ended)"
  by (auto simp: j2534_schedule_complete_def Let_def transmitted_plan) (auto simp: job_wf_def)

lemma defer_wf: "job_wf job \<Longrightarrow> job_wf (j2534_schedule_defer job)"
  by (simp add: j2534_schedule_defer_def job_wf_def)

interpretation schedm: safe_machine do_schedule schedule_wf schedule_admissible
proof
  fix jobs c
  assume wf: "schedule_wf jobs" and adm: "schedule_admissible c"
  show "\<exists>jobs' r. do_schedule jobs c = Some (jobs', r) \<and> schedule_wf jobs'"
  proof (cases c)
    case (SReceive data flags ts)
    then show ?thesis using schedule_receive_slots [OF wf] by fastforce
  next
    case (SExpire now)
    then show ?thesis using schedule_expire_slots [OF wf] by fastforce
  next
    case SReceiveLost
    then show ?thesis using schedule_lost_slots [OF wf] by fastforce
  next
    case (STransmitted i started ended)
    then show ?thesis
      using on_job_wf [OF wf, of i "\<lambda>job. j2534_schedule_transmitted job started ended"] adm
      by (auto simp: transmitted_plan)
  next
    case (SDefer i)
    then show ?thesis using on_job_wf [OF wf, of i j2534_schedule_defer] adm by (auto simp: defer_wf)
  next
    case (SComplete i success started ended)
    then show ?thesis
      using on_job_wf [OF wf, of i "\<lambda>job. j2534_schedule_complete job success started ended"] adm
      by (auto simp: complete_wf)
  qed
qed
end
