(* ===== verification/J2534Common.thy ===== *)
theory J2534Common
  imports Prelude
begin

text \<open>
What the J2534 files share, \<open>main/j2534.h\<close>: the limits, the status codes, the protocol numbers,
  the flags of messages and channels, and the two little-endian accessors, which fault outside
  their buffer. The lemmas: the accessors are inverse to each other on any buffer.
\<close>

section \<open>Limits, status codes and flags\<close>

definition J2534_FRAGMENT_MAX :: nat where "J2534_FRAGMENT_MAX = 192"
definition J2534_RPC_MAX :: nat where "J2534_RPC_MAX = 4608"
definition J2534_DATA_MAX :: nat where "J2534_DATA_MAX = 4128"
definition J2534_PHYSICAL_MAX :: nat where "J2534_PHYSICAL_MAX = 3"
definition J2534_LOGICAL_MAX :: nat where "J2534_LOGICAL_MAX = 2"
definition J2534_FILTER_MAX :: nat where "J2534_FILTER_MAX = 10"
definition J2534_PERIODIC_MAX :: nat where "J2534_PERIODIC_MAX = 10"
definition J2534_REPEAT_MAX :: nat where "J2534_REPEAT_MAX = 10"

datatype j2534_status =
   J2534_OK | J2534_NOT_SUPPORTED | J2534_CHANNEL | J2534_PROTOCOL | J2534_VALUE | J2534_FLAGS
    | J2534_FAILED | J2534_TIMEOUT | J2534_MSG | J2534_INTERVAL | J2534_LIMIT | J2534_MSG_ID
    | J2534_IN_USE | J2534_IOCTL | J2534_EMPTY | J2534_FULL | J2534_OVERFLOW | J2534_PIN
    | J2534_CONFLICT | J2534_MSG_PROTOCOL | J2534_FILTER_ID | J2534_MSG_NOT_ALLOWED
    | J2534_NOT_UNIQUE | J2534_BAUD | J2534_DEVICE | J2534_NOT_OPEN | J2534_FILTER_TYPE
    | J2534_PARAM | J2534_VOLTAGE_IN_USE | J2534_PIN_IN_USE | J2534_INIT | J2534_SMALL
    | J2534_LOGICAL | J2534_SELECT | J2534_DESCRIPTOR

fun j2534_code :: "j2534_status \<Rightarrow> u32w" where
  "j2534_code J2534_OK = 0"
| "j2534_code J2534_NOT_SUPPORTED = 1"
| "j2534_code J2534_CHANNEL = 2"
| "j2534_code J2534_PROTOCOL = 3"
| "j2534_code J2534_VALUE = 5"
| "j2534_code J2534_FLAGS = 6"
| "j2534_code J2534_FAILED = 7"
| "j2534_code J2534_TIMEOUT = 9"
| "j2534_code J2534_MSG = 10"
| "j2534_code J2534_INTERVAL = 11"
| "j2534_code J2534_LIMIT = 12"
| "j2534_code J2534_MSG_ID = 13"
| "j2534_code J2534_IN_USE = 14"
| "j2534_code J2534_IOCTL = 15"
| "j2534_code J2534_EMPTY = 16"
| "j2534_code J2534_FULL = 17"
| "j2534_code J2534_OVERFLOW = 18"
| "j2534_code J2534_PIN = 19"
| "j2534_code J2534_CONFLICT = 20"
| "j2534_code J2534_MSG_PROTOCOL = 21"
| "j2534_code J2534_FILTER_ID = 22"
| "j2534_code J2534_MSG_NOT_ALLOWED = 23"
| "j2534_code J2534_NOT_UNIQUE = 24"
| "j2534_code J2534_BAUD = 25"
| "j2534_code J2534_DEVICE = 26"
| "j2534_code J2534_NOT_OPEN = 27"
| "j2534_code J2534_FILTER_TYPE = 29"
| "j2534_code J2534_PARAM = 30"
| "j2534_code J2534_VOLTAGE_IN_USE = 31"
| "j2534_code J2534_PIN_IN_USE = 32"
| "j2534_code J2534_INIT = 33"
| "j2534_code J2534_SMALL = 35"
| "j2534_code J2534_LOGICAL = 36"
| "j2534_code J2534_SELECT = 37"
| "j2534_code J2534_DESCRIPTOR = 39"

definition J2534_VPW :: u32w where "J2534_VPW = 1"
definition J2534_PWM :: u32w where "J2534_PWM = 2"
definition J2534_ISO9141 :: u32w where "J2534_ISO9141 = 3"
definition J2534_ISO14230 :: u32w where "J2534_ISO14230 = 4"
definition J2534_CAN :: u32w where "J2534_CAN = 5"
definition J2534_ISOTP :: u32w where "J2534_ISOTP = 0x200"

definition J2534_TX_MSG :: u32w where "J2534_TX_MSG = 1"
definition J2534_START :: u32w where "J2534_START = 2"
definition J2534_BREAK :: u32w where "J2534_BREAK = 4"
definition J2534_TX_SUCCESS :: u32w where "J2534_TX_SUCCESS = 8"
definition J2534_PADDING :: u32w where "J2534_PADDING = 16"
definition J2534_ERROR :: u32w where "J2534_ERROR = 32"
definition J2534_RX_OVERFLOW :: u32w where "J2534_RX_OVERFLOW = 64"
definition J2534_ADDR :: u32w where "J2534_ADDR = 128"
definition J2534_29BIT :: u32w where "J2534_29BIT = 256"
definition J2534_TX_FAILED :: u32w where "J2534_TX_FAILED = 512"
definition J2534_PAD :: u32w where "J2534_PAD = 64"
definition J2534_WAIT_P3 :: u32w where "J2534_WAIT_P3 = 512"
definition J2534_CHECKSUM_DISABLED :: u32w where "J2534_CHECKSUM_DISABLED = 512"
definition J2534_CAN_BOTH :: u32w where "J2534_CAN_BOTH = 2048"
definition J2534_K_ONLY :: u32w where "J2534_K_ONLY = 4096"

lemmas j2534_limits = J2534_DATA_MAX_def J2534_PHYSICAL_MAX_def J2534_LOGICAL_MAX_def J2534_FILTER_MAX_def
  J2534_PERIODIC_MAX_def J2534_REPEAT_MAX_def

lemmas j2534_protocols = J2534_VPW_def J2534_PWM_def J2534_ISO9141_def J2534_ISO14230_def J2534_CAN_def
  J2534_ISOTP_def

section \<open>Little-endian fields\<close>

definition j2534_u32 :: "byte list \<Rightarrow> nat \<Rightarrow> u32w option" where
  "j2534_u32 buf off = do {
     a \<leftarrow> get_at buf off;
     b \<leftarrow> get_at buf (off + 1);
     c \<leftarrow> get_at buf (off + 2);
     d \<leftarrow> get_at buf (off + 3);
     Some (ucast a OR push_bit 8 (ucast b) OR push_bit 16 (ucast c) OR push_bit 24 (ucast d))
   }"

definition j2534_put32 :: "byte list \<Rightarrow> nat \<Rightarrow> u32w \<Rightarrow> byte list option" where
  "j2534_put32 buf off v =
     fold_opt (\<lambda>buf i. set_at buf (off + i) (ucast (drop_bit (8 * i) v))) buf [0..<4]"

definition le32 :: "u32w \<Rightarrow> byte list" where
  "le32 v = [ucast v, ucast (drop_bit 8 v), ucast (drop_bit 16 v), ucast (drop_bit 24 v)]"

lemma length_le32 [simp]: "length (le32 v) = 4"
  by (simp add: le32_def)

lemma put32_store:
  assumes "off + 4 \<le> length buf"
  shows "j2534_put32 buf off v = Some (take off buf @ le32 v @ drop (off + 4) buf)"
proof -
  have "[0..<4] = [0, 1, 2, 3 :: nat]" by (simp add: upt_rec)
  then have "j2534_put32 buf off v = Some (buf[off := ucast v, off + 1 := ucast (drop_bit 8 v),
      off + 2 := ucast (drop_bit 16 v), off + 3 := ucast (drop_bit 24 v)])"
    using assms by (simp add: j2534_put32_def set_at_def)
  also have "\<dots> = Some (take off buf @ le32 v @ drop (off + 4) buf)"
    using assms by (auto simp: le32_def list_eq_iff_nth_eq nth_append nth_list_update nth_Cons' less_Suc_eq
        intro!: arg_cong [where f = "nth buf"])
  finally show ?thesis .
qed

lemma join_le32:
  "ucast (ucast v :: byte) OR push_bit 8 (ucast (ucast (drop_bit 8 v) :: byte)) OR
   push_bit 16 (ucast (ucast (drop_bit 16 v) :: byte)) OR
   push_bit 24 (ucast (ucast (drop_bit 24 v) :: byte)) = (v :: u32w)"
proof (rule bit_word_eqI)
  show "bit (ucast (ucast v :: byte) OR push_bit 8 (ucast (ucast (drop_bit 8 v) :: byte)) OR
      push_bit 16 (ucast (ucast (drop_bit 16 v) :: byte)) OR
      push_bit 24 (ucast (ucast (drop_bit 24 v) :: byte)) :: u32w) n = bit v n"
    if "n < LENGTH(32)" for n
    using that by (cases "n < 8"; cases "n < 16"; cases "n < 24") (auto simp: bit_simps)
qed

lemma j2534_u32_at: "length xs = off \<Longrightarrow> j2534_u32 (xs @ le32 v @ ys) off = Some v"
  using join_le32 [of v] by (simp add: j2534_u32_def get_at_def le32_def nth_append)

lemma j2534_u32_ok: "off + 3 < length buf \<Longrightarrow> \<exists>v. j2534_u32 buf off = Some v"
  by (simp add: j2534_u32_def)

end
