(* ===== verification/J2534Wire.thy ===== *)
theory J2534Wire
  imports J2534Common
begin

text \<open>
The J2534 link protocol of \<open>main/j2534_wire.c\<close>: frames with a magic, a header of little-endian
  fields, up to 192 payload bytes and a CRC-32, collected byte by byte from the link; requests
  reassembled from fragments, handed to the core, and answered in fragments the host fetches.
  The static \<open>wire\<close> object is the record passed along, with its three buffers as lists of their
  C sizes; \<open>None\<close> is an access outside one of them. What is written to the link is the list of
  frames a call returns. The core behind \<open>j2534_core_request\<close> is a parameter.
  The lemmas: CRC-32 is an instance of \<open>check_code\<close>; a sent frame is \<open>wire_encode\<close> of its
  fields; no input makes any buffer overrun; a frame fed byte by byte is processed once; and
  the exchange of a request and its response over any number of fragments.
\<close>

section \<open>Constants and state\<close>

definition WIRE_MAGIC :: "byte list" where "WIRE_MAGIC = [0x4a, 0x32, 0x35, 0x33]"
definition WIRE_MAGIC_SIZE :: nat where "WIRE_MAGIC_SIZE = 4"
definition WIRE_VERSION :: byte where "WIRE_VERSION = 1"
definition WIRE_HEADER_SIZE :: nat where "WIRE_HEADER_SIZE = 16"
definition WIRE_CRC_SIZE :: nat where "WIRE_CRC_SIZE = 4"
definition WIRE_FRAME_MAX :: nat where
  "WIRE_FRAME_MAX = WIRE_HEADER_SIZE + J2534_FRAGMENT_MAX + WIRE_CRC_SIZE"
definition WIRE_TIMEOUT_US :: u32w where "WIRE_TIMEOUT_US = 2000000"

definition WIRE_VERSION_OFFSET :: nat where "WIRE_VERSION_OFFSET = 4"
definition WIRE_OPERATION_OFFSET :: nat where "WIRE_OPERATION_OFFSET = 5"
definition WIRE_FLAGS_OFFSET :: nat where "WIRE_FLAGS_OFFSET = 6"
definition WIRE_SEQUENCE_OFFSET :: nat where "WIRE_SEQUENCE_OFFSET = 8"
definition WIRE_FRAGMENT_OFFSET :: nat where "WIRE_FRAGMENT_OFFSET = 12"
definition WIRE_LENGTH_OFFSET :: nat where "WIRE_LENGTH_OFFSET = 14"

definition WIRE_MORE :: nat where "WIRE_MORE = 1"
definition WIRE_FETCH :: nat where "WIRE_FETCH = 2"
definition WIRE_ACK :: nat where "WIRE_ACK = 4"
definition WIRE_RESPONSE :: nat where "WIRE_RESPONSE = 128"

lemmas wire_consts = J2534_FRAGMENT_MAX_def J2534_RPC_MAX_def WIRE_MAGIC_SIZE_def
  WIRE_HEADER_SIZE_def WIRE_CRC_SIZE_def WIRE_FRAME_MAX_def WIRE_VERSION_OFFSET_def
  WIRE_OPERATION_OFFSET_def WIRE_FLAGS_OFFSET_def WIRE_SEQUENCE_OFFSET_def
  WIRE_FRAGMENT_OFFSET_def WIRE_LENGTH_OFFSET_def WIRE_MORE_def WIRE_FETCH_def WIRE_ACK_def
  WIRE_RESPONSE_def

record wire =
  w_frame :: "byte list"
  w_request :: "byte list"
  w_response :: "byte list"
  w_frame_used :: nat
  w_request_len :: nat
  w_response_len :: nat
  w_sequence :: u32w
  w_last_input_us :: u32w
  w_operation :: byte
  w_assembling_request :: bool
  w_response_ready :: bool

definition wire_zero :: wire where
  "wire_zero = \<lparr>w_frame = replicate WIRE_FRAME_MAX 0, w_request = replicate J2534_RPC_MAX 0,
     w_response = replicate J2534_RPC_MAX 0, w_frame_used = 0, w_request_len = 0,
     w_response_len = 0, w_sequence = 0, w_last_input_us = 0, w_operation = 0,
     w_assembling_request = False, w_response_ready = False\<rparr>"

section \<open>Little-endian fields and the frame check\<close>

definition get_le16 :: "byte list \<Rightarrow> nat \<Rightarrow> nat option" where
  "get_le16 buf off = do {
     a \<leftarrow> get_at buf off;
     b \<leftarrow> get_at buf (off + 1);
     Some (unat a + 256 * unat b)
   }"

definition put_le16 :: "byte list \<Rightarrow> nat \<Rightarrow> nat \<Rightarrow> byte list option" where
  "put_le16 buf off v = do {
     buf \<leftarrow> set_at buf off (of_nat v);
     set_at buf (off + 1) (of_nat (v div 256))
   }"

definition crc32_shift :: "u32w \<Rightarrow> u32w" where
  "crc32_shift crc = drop_bit 1 crc XOR (0xedb88320 AND (0 - (crc AND 1)))"

definition crc32_step :: "u32w \<Rightarrow> byte \<Rightarrow> u32w" where
  "crc32_step crc d = (crc32_shift ^^ 8) (crc XOR ucast d)"

definition crc32 :: "byte list \<Rightarrow> u32w" where
  "crc32 data = NOT (foldl crc32_step 0xffffffff data)"

definition frame_crc :: "byte list \<Rightarrow> nat \<Rightarrow> u32w option" where
  "frame_crc frame payload_len =
     map_option crc32 (load_at frame WIRE_MAGIC_SIZE (WIRE_HEADER_SIZE - WIRE_MAGIC_SIZE + payload_len))"

section \<open>Sending\<close>

text \<open>The frame one call passes to \<open>vif_link_write\<close>.\<close>

definition send_fragment :: "wire \<Rightarrow> nat \<Rightarrow> nat \<Rightarrow> byte list \<Rightarrow> byte list option" where
  "send_fragment w flags offset data = do {
     let frame = WIRE_MAGIC @ [WIRE_VERSION, w_operation w] @ replicate (WIRE_FRAME_MAX - 6) 0;
     frame \<leftarrow> put_le16 frame WIRE_FLAGS_OFFSET (or WIRE_RESPONSE flags);
     frame \<leftarrow> j2534_put32 frame WIRE_SEQUENCE_OFFSET (w_sequence w);
     frame \<leftarrow> put_le16 frame WIRE_FRAGMENT_OFFSET offset;
     frame \<leftarrow> put_le16 frame WIRE_LENGTH_OFFSET (length data);
     frame \<leftarrow> store_at frame WIRE_HEADER_SIZE data;
     crc \<leftarrow> frame_crc frame (length data);
     frame \<leftarrow> j2534_put32 frame (WIRE_HEADER_SIZE + length data) crc;
     load_at frame 0 (WIRE_HEADER_SIZE + length data + WIRE_CRC_SIZE)
   }"

definition send_response_fragment :: "wire \<Rightarrow> nat \<Rightarrow> byte list list option" where
  "send_response_fragment w offset =
     (if offset > w_response_len w then Some []
      else do {
        let len = min (w_response_len w - offset) J2534_FRAGMENT_MAX;
        let flags = (if offset + len < w_response_len w then WIRE_MORE else 0);
        data \<leftarrow> load_at (w_response w) offset len;
        frame \<leftarrow> send_fragment w flags offset data;
        Some [frame]
      })"

definition reject_request :: "wire \<Rightarrow> (wire \<times> byte list list) option" where
  "reject_request w = do {
     response \<leftarrow> set_at (w_response w) 0 8;
     response \<leftarrow> set_at response 1 (ucast (j2534_code J2534_MSG));
     let w = w\<lparr>w_assembling_request := False, w_response := response, w_response_len := 2,
       w_response_ready := True\<rparr>;
     out \<leftarrow> send_response_fragment w 0;
     Some (w, out)
   }"

section \<open>Receiving\<close>

text \<open>
  \<open>j2534_core_request\<close> as a function of the core's state, the operation, the request bytes and
  the response buffer: the next state, the buffer as it left it and the length it returned.
\<close>

type_synonym 'c core = "'c \<Rightarrow> byte \<Rightarrow> byte list \<Rightarrow> byte list \<Rightarrow> 'c \<times> byte list \<times> nat"

definition process_request ::
  "'c core \<Rightarrow> 'c \<Rightarrow> wire \<Rightarrow> nat \<Rightarrow> nat \<Rightarrow> nat \<Rightarrow> ('c \<times> wire \<times> byte list list) option" where
  "process_request core c w flags offset len =
     (if len > J2534_RPC_MAX - w_request_len w \<or> (and flags WIRE_MORE \<noteq> 0 \<and> len = 0)
      then map_option (\<lambda>(w, out). (c, w, out)) (reject_request w)
      else do {
        data \<leftarrow> load_at (w_frame w) WIRE_HEADER_SIZE len;
        request \<leftarrow> store_at (w_request w) offset data;
        let w = w\<lparr>w_request := request, w_request_len := w_request_len w + len\<rparr>;
        if and flags WIRE_MORE \<noteq> 0
        then do {
          frame \<leftarrow> send_fragment w WIRE_ACK (w_request_len w) [];
          Some (c, w, [frame])
        }
        else do {
          input \<leftarrow> load_at (w_request w) 0 (w_request_len w);
          let (c, response, n) = core c (w_operation w) input (w_response w);
          let w = w\<lparr>w_assembling_request := False, w_response := response, w_response_len := n,
            w_response_ready := True\<rparr>;
          out \<leftarrow> send_response_fragment w 0;
          Some (c, w, out)
        }
      })"

text \<open>What \<open>process_frame\<close> does with a frame whose check is right.\<close>

definition accept_request ::
  "'c core \<Rightarrow> 'c \<Rightarrow> wire \<Rightarrow> nat \<Rightarrow> nat \<Rightarrow> nat \<Rightarrow> u32w \<Rightarrow> byte \<Rightarrow> ('c \<times> wire \<times> byte list list) option" where
  "accept_request core c w flags offset len sequence operation =
     (let w = (if offset = 0
        then w\<lparr>w_request_len := 0, w_sequence := sequence, w_operation := operation,
          w_assembling_request := True, w_response_ready := False\<rparr>
        else w)
      in if \<not> w_assembling_request w \<or> sequence \<noteq> w_sequence w \<or> operation \<noteq> w_operation w \<or>
            offset \<noteq> w_request_len w
         then Some (c, w, [])
         else process_request core c w flags offset len)"

definition accept_frame ::
  "'c core \<Rightarrow> 'c \<Rightarrow> wire \<Rightarrow> nat \<Rightarrow> nat \<Rightarrow> nat \<Rightarrow> u32w \<Rightarrow> byte \<Rightarrow> ('c \<times> wire \<times> byte list list) option" where
  "accept_frame core c w flags offset len sequence operation =
     (if flags = WIRE_FETCH
      then if len = 0 \<and> w_response_ready w \<and> sequence = w_sequence w \<and> operation = w_operation w
        then map_option (\<lambda>out. (c, w, out)) (send_response_fragment w offset)
        else Some (c, w, [])
      else if flags - and flags WIRE_MORE \<noteq> 0 then Some (c, w, [])
      else accept_request core c w flags offset len sequence operation)"

definition process_frame :: "'c core \<Rightarrow> 'c \<Rightarrow> wire \<Rightarrow> ('c \<times> wire \<times> byte list list) option" where
  "process_frame core c w = do {
     let frame = w_frame w;
     flags \<leftarrow> get_le16 frame WIRE_FLAGS_OFFSET;
     offset \<leftarrow> get_le16 frame WIRE_FRAGMENT_OFFSET;
     len \<leftarrow> get_le16 frame WIRE_LENGTH_OFFSET;
     sequence \<leftarrow> j2534_u32 frame WIRE_SEQUENCE_OFFSET;
     operation \<leftarrow> get_at frame WIRE_OPERATION_OFFSET;
     check \<leftarrow> j2534_u32 frame (WIRE_HEADER_SIZE + len);
     crc \<leftarrow> frame_crc frame len;
     if check \<noteq> crc then Some (c, w, [])
     else accept_frame core c w flags offset len sequence operation
   }"

text \<open>Dropping bytes from the front until what is left starts like a frame.\<close>

function resync :: "byte list \<Rightarrow> nat \<Rightarrow> byte list \<times> nat" where
  "resync frame used =
     (if used \<noteq> 0 \<and> take (min used WIRE_MAGIC_SIZE) frame \<noteq> take (min used WIRE_MAGIC_SIZE) WIRE_MAGIC
      then resync (take (used - 1) (drop 1 frame) @ drop (used - 1) frame) (used - 1)
      else (frame, used))"
  by pat_completeness auto
termination by (relation "measure snd") auto

definition feed_byte :: "'c core \<Rightarrow> 'c \<times> wire \<times> byte list list \<Rightarrow> byte \<Rightarrow> ('c \<times> wire \<times> byte list list) option" where
  "feed_byte core = (\<lambda>(c, w, out) b. do {
     frame \<leftarrow> set_at (w_frame w) (w_frame_used w) b;
     let (frame, used) = resync frame (w_frame_used w + 1);
     let w = w\<lparr>w_frame := frame, w_frame_used := used\<rparr>;
     if used < WIRE_HEADER_SIZE then Some (c, w, out)
     else do {
       payload_len \<leftarrow> get_le16 frame WIRE_LENGTH_OFFSET;
       version \<leftarrow> get_at frame WIRE_VERSION_OFFSET;
       if version \<noteq> WIRE_VERSION \<or> payload_len > J2534_FRAGMENT_MAX
       then Some (c, w\<lparr>w_frame_used := 0\<rparr>, out)
       else if used = WIRE_HEADER_SIZE + payload_len + WIRE_CRC_SIZE
       then do {
         (c, w, sent) \<leftarrow> process_frame core c w;
         Some (c, w\<lparr>w_frame_used := 0\<rparr>, out @ sent)
       }
       else Some (c, w, out)
     }
   })"

definition wire_feed ::
  "'c core \<Rightarrow> 'c \<Rightarrow> wire \<Rightarrow> u32w \<Rightarrow> byte list \<Rightarrow> ('c \<times> wire \<times> byte list list) option" where
  "wire_feed core c w now data =
     (let w = (if now - w_last_input_us w > WIRE_TIMEOUT_US
        then w\<lparr>w_frame_used := 0, w_assembling_request := False\<rparr> else w)
      in fold_opt (feed_byte core) (c, w\<lparr>w_last_input_us := now\<rparr>, []) data)"

section \<open>The check code\<close>

lemma neg_low_bit: "- (x AND 1) = (if bit x 0 then - 1 else 0 :: u32w)"
  by (simp add: and_one_eq bit_0 odd_iff_mod_2_eq_one even_iff_mod_2_eq_zero)

lemma crc32_shift_eq:
  "crc32_shift x = (if bit x 0 then drop_bit 1 x XOR 0xedb88320 else drop_bit 1 x)"
  by (simp add: crc32_shift_def neg_low_bit)

lemma poly_top: "bit (0xedb88320 :: u32w) 31"
  by code_simp

lemma crc32_shift_top: "bit (crc32_shift x) 31 = bit x 0"
  using poly_top by (auto simp: crc32_shift_eq bit_xor_iff bit_drop_bit_eq dest: bit_imp_le_length)

lemma drop_low_inj:
  fixes x y :: u32w
  assumes "bit x 0 = bit y 0" "drop_bit 1 x = drop_bit 1 y"
  shows "x = y"
proof (rule bit_eqI)
  show "bit x n = bit y n" for n
  proof (cases n)
    case 0
    with assms(1) show ?thesis by simp
  next
    case (Suc m)
    have "bit (drop_bit 1 x) m = bit (drop_bit 1 y) m" using assms(2) by simp
    with Suc show ?thesis by (simp add: bit_drop_bit_eq)
  qed
qed

lemma xor_right_inj: "a XOR c = b XOR c \<longleftrightarrow> a = (b :: u32w)"
  by (metis xor.assoc xor.right_neutral xor_self_eq)

lemma crc32_shift_inj: "crc32_shift x = crc32_shift y \<longleftrightarrow> x = y"
proof
  assume eq: "crc32_shift x = crc32_shift y"
  then have "bit x 0 = bit y 0" by (metis crc32_shift_top)
  moreover from this have "drop_bit 1 x = drop_bit 1 y"
    using eq by (simp add: crc32_shift_eq xor_right_inj split: if_splits)
  ultimately show "x = y" by (rule drop_low_inj)
qed simp

lemma crc32_shifts_inj: "(crc32_shift ^^ n) x = (crc32_shift ^^ n) y \<longleftrightarrow> x = y"
  by (induction n) (simp_all add: crc32_shift_inj)

lemma ucast_byte_inj: "ucast a = (ucast b :: u32w) \<longleftrightarrow> a = (b :: byte)"
proof
  assume eq: "ucast a = (ucast b :: u32w)"
  have "unat (ucast x :: u32w) = unat x" for x :: byte
    using unat_byte_less [of x] by (simp add: unsigned_ucast_eq take_bit_eq_mod)
  then show "a = b" using eq by (metis unsigned_word_eqI)
qed simp

interpretation crc32: check_code crc32_step
proof
  show "crc32_step r a = crc32_step r' a \<Longrightarrow> r = r'" for r r' a
    by (simp add: crc32_step_def crc32_shifts_inj xor_right_inj)
  show "crc32_step r a = crc32_step r b \<Longrightarrow> a = b" for r a b
    by (simp add: crc32_step_def crc32_shifts_inj xor.commute [of r] xor_right_inj ucast_byte_inj)
qed

section \<open>Frames as byte strings\<close>

definition le16 :: "nat \<Rightarrow> byte list" where
  "le16 v = [of_nat v, of_nat (v div 256)]"

definition wire_body :: "nat \<Rightarrow> u32w \<Rightarrow> byte \<Rightarrow> nat \<Rightarrow> byte list \<Rightarrow> byte list" where
  "wire_body flags sq op offset payload =
     [WIRE_VERSION, op] @ le16 flags @ le32 sq @ le16 offset @ le16 (length payload) @ payload"

text \<open>A frame as the host and the firmware put it on the link.\<close>

definition wire_encode :: "nat \<Rightarrow> u32w \<Rightarrow> byte \<Rightarrow> nat \<Rightarrow> byte list \<Rightarrow> byte list" where
  "wire_encode flags sq op offset payload =
     WIRE_MAGIC @ wire_body flags sq op offset payload @ le32 (crc32 (wire_body flags sq op offset payload))"

lemma length_le [simp]: "length (le16 v) = 2" "length WIRE_MAGIC = 4"
  by (simp_all add: le16_def WIRE_MAGIC_def)

lemma length_body [simp]: "length (wire_body flags sq op offset payload) = 12 + length payload"
  by (simp add: wire_body_def)

lemma length_encode [simp]: "length (wire_encode flags sq op offset payload) = 20 + length payload"
  by (simp add: wire_encode_def)

lemma put_le16_store:
  "off + 2 \<le> length buf \<Longrightarrow> put_le16 buf off v = Some (take off buf @ le16 v @ drop (off + 2) buf)"
  by (simp add: put_le16_def le16_def list_eq_iff_nth_eq nth_append nth_list_update)
    (auto simp: nth_Cons' less_Suc_eq intro!: arg_cong [where f = "nth buf"])

lemma get_le16_at:
  assumes "v < 65536" "length xs = off"
  shows "get_le16 (xs @ le16 v @ ys) off = Some v"
proof -
  have "unat (of_nat v :: byte) = v mod 256" "unat (of_nat (v div 256) :: byte) = v div 256"
    using assms(1) by (simp_all add: unat_of_nat)
  then show ?thesis using assms(2) by (simp add: get_le16_def get_at_def le16_def nth_append)
qed

lemma store_zeros:
  "length pre = off \<Longrightarrow> length data \<le> k \<Longrightarrow>
   store_at (pre @ replicate k 0) off data = Some (pre @ data @ replicate (k - length data) 0)"
  by simp

lemma send_fragment_eq:
  assumes "length data \<le> 192" "offset < 65536" "flags < 128"
  shows "send_fragment w flags offset data =
    Some (wire_encode (or 128 flags) (w_sequence w) (w_operation w) offset data)"
proof -
  let ?n = "length data" and ?fl = "or 128 flags"
  let ?body = "wire_body ?fl (w_sequence w) (w_operation w) offset data"
  let ?h = "WIRE_MAGIC @ [WIRE_VERSION, w_operation w]"
  have 1: "put_le16 (?h @ replicate 206 0) 6 ?fl = Some (?h @ le16 ?fl @ replicate 204 0)"
    by (simp add: put_le16_store)
  have 2: "j2534_put32 (?h @ le16 ?fl @ replicate 204 0) 8 (w_sequence w) =
      Some (?h @ le16 ?fl @ le32 (w_sequence w) @ replicate 200 0)"
    by (simp add: put32_store)
  have 3: "put_le16 (?h @ le16 ?fl @ le32 (w_sequence w) @ replicate 200 0) 12 offset =
      Some (?h @ le16 ?fl @ le32 (w_sequence w) @ le16 offset @ replicate 198 0)"
    by (simp add: put_le16_store)
  have 4: "put_le16 (?h @ le16 ?fl @ le32 (w_sequence w) @ le16 offset @ replicate 198 0) 14 ?n =
      Some (?h @ le16 ?fl @ le32 (w_sequence w) @ le16 offset @ le16 ?n @ replicate 196 0)"
    by (simp add: put_le16_store)
  have 5: "store_at (?h @ le16 ?fl @ le32 (w_sequence w) @ le16 offset @ le16 ?n @ replicate 196 0) 16 data =
      Some (WIRE_MAGIC @ ?body @ replicate (196 - ?n) 0)"
    using store_zeros [of "WIRE_MAGIC @ [WIRE_VERSION, w_operation w] @ le16 ?fl @ le32 (w_sequence w) @
      le16 offset @ le16 ?n" 16 data 196] assms(1)
    by (simp add: wire_body_def del: store_at_Some)
  have 6: "frame_crc (WIRE_MAGIC @ ?body @ replicate (196 - ?n) 0) ?n = Some (crc32 ?body)"
    using assms(1) by (simp add: frame_crc_def wire_consts)
  have 7: "j2534_put32 (WIRE_MAGIC @ ?body @ replicate (196 - ?n) 0) (16 + ?n) (crc32 ?body) =
      Some (WIRE_MAGIC @ ?body @ le32 (crc32 ?body) @ replicate (192 - ?n) 0)"
    using assms(1) by (simp add: put32_store)
  have 8: "load_at (WIRE_MAGIC @ ?body @ le32 (crc32 ?body) @ replicate (192 - ?n) 0) 0 (16 + ?n + 4) =
      Some (wire_encode ?fl (w_sequence w) (w_operation w) offset data)"
    using assms(1) by (simp add: wire_encode_def)
  have c: "WIRE_FRAME_MAX - 6 = 206" "WIRE_FLAGS_OFFSET = 6" "WIRE_SEQUENCE_OFFSET = 8"
    "WIRE_FRAGMENT_OFFSET = 12" "WIRE_LENGTH_OFFSET = 14" "WIRE_HEADER_SIZE = 16" "WIRE_CRC_SIZE = 4"
    "WIRE_RESPONSE = 128"
    by (simp_all add: wire_consts)
  show ?thesis
    unfolding send_fragment_def c Let_def append.assoc [symmetric]
    unfolding append.assoc 1 [unfolded append.assoc]
    by (simp only: bind.bind_lunit 1 [unfolded append.assoc] 2 [unfolded append.assoc]
        3 [unfolded append.assoc] 4 [unfolded append.assoc] 5 [unfolded append.assoc] 6 7 8)
qed

section \<open>Nothing leaves its buffer\<close>

definition magic_prefix :: "byte list \<Rightarrow> nat \<Rightarrow> bool" where
  "magic_prefix frame used \<longleftrightarrow> take (min used 4) frame = take (min used 4) WIRE_MAGIC"

definition buffers_wf :: "wire \<Rightarrow> bool" where
  "buffers_wf w \<longleftrightarrow> length (w_frame w) = 212 \<and> length (w_request w) = 4608 \<and>
     length (w_response w) = 4608 \<and> w_request_len w \<le> 4608 \<and> w_response_len w \<le> 4608"

text \<open>Once a header is complete, its length is one the buffer can hold and not yet reached.\<close>

definition wire_wf :: "wire \<Rightarrow> bool" where
  "wire_wf w \<longleftrightarrow> buffers_wf w \<and> magic_prefix (w_frame w) (w_frame_used w) \<and>
     (16 \<le> w_frame_used w \<longrightarrow> (\<exists>n\<le>192. get_le16 (w_frame w) 14 = Some n \<and> w_frame_used w < 20 + n))"

definition core_ok :: "'c core \<Rightarrow> bool" where
  "core_ok core \<longleftrightarrow> (\<forall>c op input buf. length buf = 4608 \<longrightarrow>
     length (fst (snd (core c op input buf))) = 4608 \<and> snd (snd (core c op input buf)) \<le> 4608)"

lemma wire_used: "wire_wf w \<Longrightarrow> w_frame_used w < 212"
  by (auto simp: wire_wf_def)

lemma response_fragment_ok:
  assumes "buffers_wf w" "offset < 65536"
  shows "\<exists>out. send_response_fragment w offset = Some out"
proof (cases "offset > w_response_len w")
  case True
  then show ?thesis by (simp add: send_response_fragment_def)
next
  case False
  let ?len = "min (w_response_len w - offset) 192"
  have "load_at (w_response w) offset ?len = Some (take ?len (drop offset (w_response w)))"
    using assms(1) False by (intro load_at_Some) (auto simp: buffers_wf_def)
  moreover have "length (take ?len (drop offset (w_response w))) \<le> 192" by simp
  ultimately show ?thesis
    using False assms(2)
    by (simp add: send_response_fragment_def Let_def J2534_FRAGMENT_MAX_def WIRE_MORE_def send_fragment_eq)
qed

lemma reject_request_ok:
  assumes "buffers_wf w"
  shows "\<exists>w' out. reject_request w = Some (w', out) \<and> buffers_wf w'"
proof -
  let ?w = "w\<lparr>w_assembling_request := False, w_response := (w_response w)[0 := 8, 1 := ucast (j2534_code J2534_MSG)],
    w_response_len := 2, w_response_ready := True\<rparr>"
  have wf: "buffers_wf ?w" using assms by (simp add: buffers_wf_def)
  obtain out where "send_response_fragment ?w 0 = Some out"
    using response_fragment_ok [OF wf, of 0] by auto
  then show ?thesis using assms wf by (simp add: reject_request_def buffers_wf_def set_at_def Let_def)
qed

lemma process_request_ok:
  assumes "core_ok core" "buffers_wf w" "len \<le> 192" "offset = w_request_len w"
  shows "\<exists>c' w' out. process_request core c w flags offset len = Some (c', w', out) \<and> buffers_wf w'"
proof (cases "len > 4608 - w_request_len w \<or> (and flags WIRE_MORE \<noteq> 0 \<and> len = 0)")
  case True
  then show ?thesis using reject_request_ok [OF assms(2)]
    by (auto simp: process_request_def J2534_RPC_MAX_def)
next
  case False
  have b: "length (w_frame w) = 212" "length (w_request w) = 4608" "w_request_len w + len \<le> 4608"
    using assms(2) False by (auto simp: buffers_wf_def)
  obtain data where load: "load_at (w_frame w) 16 len = Some data" "length data = len"
    using load_at_length load_at_Some [of 16 len "w_frame w"] assms(3) b(1) by fastforce
  obtain req where store: "store_at (w_request w) offset data = Some req" "length req = 4608"
    using store_at_length store_at_Some [of offset data "w_request w"] assms(4) b load(2) by fastforce
  let ?w = "w\<lparr>w_request := req, w_request_len := w_request_len w + len\<rparr>"
  have wf: "buffers_wf ?w" using assms(2) b(3) store(2) by (simp add: buffers_wf_def)
  show ?thesis
  proof (cases "and flags WIRE_MORE \<noteq> 0")
    case True
    have "\<exists>f. send_fragment ?w WIRE_ACK (w_request_len w + len) [] = Some f"
      using b by (simp add: send_fragment_eq WIRE_ACK_def)
    then show ?thesis using True False load store wf
      by (auto simp: process_request_def J2534_RPC_MAX_def WIRE_HEADER_SIZE_def Let_def)
  next
    case more: False
    obtain c' response n where core: "core c (w_operation w) (take (w_request_len w + len) req) (w_response w) =
        (c', response, n)" by (cases "core c (w_operation w) (take (w_request_len w + len) req) (w_response w)")
    then have "length response = 4608" "n \<le> 4608"
      using assms(1,2) unfolding core_ok_def buffers_wf_def by (metis fst_conv snd_conv)+
    then have wf': "buffers_wf (?w\<lparr>w_assembling_request := False, w_response := response,
        w_response_len := n, w_response_ready := True\<rparr>)"
      using wf by (simp add: buffers_wf_def)
    have load': "load_at req 0 (w_request_len w + len) = Some (take (w_request_len w + len) req)"
      using b(3) store(2) by simp
    obtain out where "send_response_fragment (?w\<lparr>w_assembling_request := False, w_response := response,
        w_response_len := n, w_response_ready := True\<rparr>) 0 = Some out"
      using response_fragment_ok [OF wf', of 0] by auto
    then show ?thesis using more False load store load' core wf'
      by (simp add: process_request_def J2534_RPC_MAX_def WIRE_HEADER_SIZE_def Let_def)
  qed
qed

lemma get_le16_ok:
  "off + 1 < length buf \<Longrightarrow> \<exists>v. get_le16 buf off = Some v \<and> v < 65536"
  using unat_byte_less [of "buf ! off"] unat_byte_less [of "buf ! (off + 1)"]
  by (simp add: get_le16_def)

lemma accept_request_ok:
  assumes "core_ok core" "buffers_wf w" "n \<le> 192"
  shows "\<exists>c' w' out. accept_request core c w flags offset n sq op = Some (c', w', out) \<and> buffers_wf w'"
proof -
  define v where "v = (if offset = 0 then w\<lparr>w_request_len := 0, w_sequence := sq, w_operation := op,
    w_assembling_request := True, w_response_ready := False\<rparr> else w)"
  have wf: "buffers_wf v" using assms(2) by (simp add: buffers_wf_def v_def)
  show ?thesis
    unfolding accept_request_def v_def [symmetric] Let_def
    using process_request_ok [OF assms(1) wf assms(3), of offset c flags] wf by auto
qed

lemma accept_frame_ok:
  assumes "core_ok core" "buffers_wf w" "n \<le> 192" "offset < 65536"
  shows "\<exists>c' w' out. accept_frame core c w flags offset n sq op = Some (c', w', out) \<and> buffers_wf w'"
  using accept_request_ok [OF assms(1-3)] response_fragment_ok [OF assms(2,4)] assms(2)
  by (auto simp: accept_frame_def)

lemma process_frame_ok:
  assumes "core_ok core" "buffers_wf w" "get_le16 (w_frame w) 14 = Some n" "n \<le> 192"
  shows "\<exists>c' w' out. process_frame core c w = Some (c', w', out) \<and> buffers_wf w'"
proof -
  have l: "length (w_frame w) = 212" using assms(2) by (simp add: buffers_wf_def)
  obtain flags where flags: "get_le16 (w_frame w) 6 = Some flags"
    using get_le16_ok [of 6 "w_frame w"] l by auto
  obtain offset where offset: "get_le16 (w_frame w) 12 = Some offset" "offset < 65536"
    using get_le16_ok [of 12 "w_frame w"] l by auto
  obtain sq where sq: "j2534_u32 (w_frame w) 8 = Some sq"
    using j2534_u32_ok [of 8 "w_frame w"] l by auto
  obtain check where check: "j2534_u32 (w_frame w) (16 + n) = Some check"
    using j2534_u32_ok [of "16 + n" "w_frame w"] l assms(4) by auto
  obtain crc where crc: "frame_crc (w_frame w) n = Some crc"
    using l assms(4) by (simp add: frame_crc_def wire_consts)
  have op: "get_at (w_frame w) 5 = Some (w_frame w ! 5)" using l by simp
  have "process_frame core c w = (if check \<noteq> crc then Some (c, w, [])
     else accept_frame core c w flags offset n sq (w_frame w ! 5))"
    by (simp add: process_frame_def wire_consts flags offset(1) sq assms(3) check crc op Let_def
        del: get_at_Some)
  then show ?thesis
    using accept_frame_ok [OF assms(1,2,4) offset(2)] assms(2) by (cases "check = crc") auto
qed

declare resync.simps [simp del]

lemma resync_ok:
  "used \<le> length frame \<Longrightarrow> resync frame used = (frame', used') \<Longrightarrow>
   length frame' = length frame \<and> used' \<le> used \<and> magic_prefix frame' used'"
proof (induction frame used arbitrary: frame' used' rule: resync.induct)
  case (1 frame used)
  show ?case
  proof (cases "used \<noteq> 0 \<and> take (min used WIRE_MAGIC_SIZE) frame \<noteq> take (min used WIRE_MAGIC_SIZE) WIRE_MAGIC")
    case True
    let ?f = "take (used - 1) (drop 1 frame) @ drop (used - 1) frame"
    have "resync ?f (used - 1) = (frame', used')"
      using 1(3) True by (simp only: resync.simps [of frame used] if_True simp_thms)
    moreover have l: "length ?f = length frame" using 1(2) True by simp
    moreover have "used - 1 \<le> length ?f" unfolding l using 1(2) by simp
    ultimately show ?thesis using 1(1) [OF True, of frame' used'] by (metis diff_le_self le_trans)
  next
    case False
    then have "resync frame used = (frame, used)" by (subst resync.simps) auto
    with False 1(3) show ?thesis by (auto simp: magic_prefix_def WIRE_MAGIC_SIZE_def)
  qed
qed

lemma resync_id: "magic_prefix frame used \<Longrightarrow> resync frame used = (frame, used)"
  by (subst resync.simps) (simp add: magic_prefix_def WIRE_MAGIC_SIZE_def)

lemma wire_wf_reset: "buffers_wf w \<Longrightarrow> wire_wf (w\<lparr>w_frame_used := 0\<rparr>)"
  by (simp add: wire_wf_def buffers_wf_def magic_prefix_def)

lemma get_le16_update: "i \<noteq> off \<Longrightarrow> i \<noteq> off + 1 \<Longrightarrow> get_le16 (buf[i := b]) off = get_le16 buf off"
  by (simp add: get_le16_def get_at_def)

lemma magic_prefix_update: "magic_prefix frame used \<Longrightarrow> 4 \<le> used \<Longrightarrow> magic_prefix (frame[used := b]) (used + 1)"
  by (simp add: magic_prefix_def)

text \<open>Writing the byte and finding the start of a frame again.\<close>

lemma feed_byte_front:
  assumes "wire_wf w"
  shows "\<exists>frame used. set_at (w_frame w) (w_frame_used w) b = Some ((w_frame w)[w_frame_used w := b]) \<and>
    resync ((w_frame w)[w_frame_used w := b]) (w_frame_used w + 1) = (frame, used) \<and>
    length frame = 212 \<and> magic_prefix frame used \<and> used \<le> w_frame_used w + 1 \<and>
    (16 \<le> used \<longrightarrow> (\<exists>n. get_le16 frame 14 = Some n \<and> (17 \<le> used \<longrightarrow> n \<le> 192 \<and> used \<le> 20 + n)))"
proof -
  let ?f = "(w_frame w)[w_frame_used w := b]" and ?u = "w_frame_used w + 1"
  have u: "w_frame_used w < 212" "length (w_frame w) = 212"
    using wire_used [OF assms] assms by (auto simp: wire_wf_def buffers_wf_def)
  obtain frame used where r: "resync ?f ?u = (frame, used)" by (cases "resync ?f ?u")
  have ok: "length frame = 212" "used \<le> ?u" "magic_prefix frame used"
    using resync_ok [OF _ r] u by auto
  moreover have "\<exists>n. get_le16 frame 14 = Some n \<and> (17 \<le> used \<longrightarrow> n \<le> 192 \<and> used \<le> 20 + n)"
    if "16 \<le> used"
  proof (cases "17 \<le> used")
    case True
    then have used16: "16 \<le> w_frame_used w" using ok(2) by simp
    then have "magic_prefix ?f ?u"
      using assms by (intro magic_prefix_update) (auto simp: wire_wf_def)
    then have "frame = ?f" "used = ?u" using r resync_id by force+
    moreover obtain n where "n \<le> 192" "get_le16 (w_frame w) 14 = Some n" "w_frame_used w < 20 + n"
      using assms used16 by (auto simp: wire_wf_def)
    ultimately show ?thesis using used16 by (auto simp: get_le16_update)
  next
    case False
    then show ?thesis using get_le16_ok [of 14 frame] ok(1) by auto
  qed
  ultimately show ?thesis using u r by simp
qed

lemma feed_byte_ok:
  assumes "core_ok core" "wire_wf w"
  shows "\<exists>c' w' out'. feed_byte core (c, w, out) b = Some (c', w', out') \<and> wire_wf w'"
proof -
  obtain frame used where f: "set_at (w_frame w) (w_frame_used w) b = Some ((w_frame w)[w_frame_used w := b])"
    "resync ((w_frame w)[w_frame_used w := b]) (w_frame_used w + 1) = (frame, used)"
    "length frame = 212" "magic_prefix frame used" "used \<le> w_frame_used w + 1"
    "16 \<le> used \<longrightarrow> (\<exists>n. get_le16 frame 14 = Some n \<and> (17 \<le> used \<longrightarrow> n \<le> 192 \<and> used \<le> 20 + n))"
    using feed_byte_front [OF assms(2), of b] by blast
  let ?w = "w\<lparr>w_frame := frame, w_frame_used := used\<rparr>"
  have wf: "buffers_wf ?w" using assms(2) f(3) by (simp add: wire_wf_def buffers_wf_def)
  show ?thesis
  proof (cases "used < 16")
    case True
    have "wire_wf ?w" using wf f(4) True by (simp add: wire_wf_def)
    with f(1,2) True show ?thesis by (simp add: feed_byte_def WIRE_HEADER_SIZE_def Let_def)
  next
    case False
    then obtain n where n: "get_le16 frame 14 = Some n" "17 \<le> used \<Longrightarrow> n \<le> 192 \<and> used \<le> 20 + n"
      using f(6) by auto
    have v: "get_at frame 4 = Some (frame ! 4)" using f(3) by simp
    have eq: "feed_byte core (c, w, out) b =
      (if frame ! 4 \<noteq> WIRE_VERSION \<or> n > 192 then Some (c, ?w\<lparr>w_frame_used := 0\<rparr>, out)
       else if used = 20 + n then map_option (\<lambda>(c, w, sent). (c, w\<lparr>w_frame_used := 0\<rparr>, out @ sent))
         (process_frame core c ?w)
       else Some (c, ?w, out))"
      using False f(1,2) n(1) v
      by (simp add: feed_byte_def wire_consts Let_def del: get_at_Some)
        (auto simp: map_option_case Option.bind_eq_None_conv split: option.splits)
    show ?thesis
    proof (cases "n \<le> 192 \<and> frame ! 4 = WIRE_VERSION")
      case True
      show ?thesis
      proof (cases "used = 20 + n")
        case full: True
        obtain c' w' sent where "process_frame core c ?w = Some (c', w', sent)" "buffers_wf w'"
          using process_frame_ok [OF assms(1) wf, of n c] n(1) True by auto
        with eq full True show ?thesis by (simp add: wire_wf_reset)
      next
        case more: False
        have "used < 20 + n" using more n(2) False by (cases "17 \<le> used") auto
        then have "wire_wf ?w" using wf f(4) n(1) True by (simp add: wire_wf_def)
        with eq more True show ?thesis by simp
      qed
    next
      case bad: False
      have "wire_wf (w\<lparr>w_frame := frame, w_frame_used := 0\<rparr>)" using wire_wf_reset [OF wf] by simp
      with eq bad show ?thesis by auto
    qed
  qed
qed

lemma feed_bytes_ok:
  assumes "core_ok core" "wire_wf w"
  shows "\<exists>c' w' out'. fold_opt (feed_byte core) (c, w, out) data = Some (c', w', out') \<and> wire_wf w'"
  using assms(2)
proof (induction data arbitrary: c w out)
  case (Cons b data)
  obtain c' w' out' where "feed_byte core (c, w, out) b = Some (c', w', out')" "wire_wf w'"
    using feed_byte_ok [OF assms(1) Cons.prems] by blast
  with Cons.IH [of w' c' out'] show ?case by simp
qed simp

lemma wire_feed_ok:
  assumes "core_ok core" "wire_wf w"
  shows "\<exists>c' w' out. wire_feed core c w now data = Some (c', w', out) \<and> wire_wf w'"
proof -
  have "wire_wf (w\<lparr>w_frame_used := 0, w_assembling_request := False, w_last_input_us := now\<rparr>)"
    "wire_wf (w\<lparr>w_last_input_us := now\<rparr>)"
    using assms(2) by (auto simp: wire_wf_def buffers_wf_def magic_prefix_def)
  then show ?thesis using feed_bytes_ok [OF assms(1)] by (simp add: wire_feed_def Let_def)
qed

lemma wire_zero_wf: "wire_wf wire_zero"
  by (simp add: wire_zero_def wire_wf_def buffers_wf_def magic_prefix_def wire_consts)

section \<open>The front end as a machine\<close>

definition wire_call ::
  "'c core \<Rightarrow> 'c \<times> wire \<Rightarrow> u32w \<times> byte list \<Rightarrow> (('c \<times> wire) \<times> byte list list) option" where
  "wire_call core = (\<lambda>(c, w) (now, data).
     map_option (\<lambda>(c, w, out). ((c, w), out)) (wire_feed core c w now data))"

interpretation wirem: safe_machine "wire_call core" "\<lambda>(c, w). core_ok core \<and> wire_wf w" "\<lambda>_. True"
  for core :: "'c core"
proof
  fix s :: "'c \<times> wire" and call
  assume "case s of (c, w) \<Rightarrow> core_ok core \<and> wire_wf w"
  then show "\<exists>s' r. wire_call core s call = Some (s', r) \<and> (case s' of (c, w) \<Rightarrow> core_ok core \<and> wire_wf w)"
    using wire_feed_ok [of core "snd s" "fst s" "fst call" "snd call"]
    by (auto simp: wire_call_def split: prod.splits)
qed

section \<open>A frame fed byte by byte\<close>

text \<open>What the receiver looks at before a frame is complete: the magic, the version, the length.\<close>

definition shaped :: "byte list \<Rightarrow> nat \<Rightarrow> bool" where
  "shaped e n \<longleftrightarrow> length e = 20 + n \<and> n \<le> 192 \<and> take 4 e = WIRE_MAGIC \<and> e ! 4 = WIRE_VERSION \<and>
     get_le16 e 14 = Some n"

lemma shaped_encode:
  assumes "length payload \<le> 192"
  shows "shaped (wire_encode flags sq op offset payload) (length payload)"
proof -
  let ?pre = "WIRE_MAGIC @ [WIRE_VERSION, op] @ le16 flags @ le32 sq @ le16 offset"
  have "wire_encode flags sq op offset payload = ?pre @ le16 (length payload) @ payload @
      le32 (crc32 (wire_body flags sq op offset payload))"
    by (simp add: wire_encode_def wire_body_def)
  then show ?thesis
    using get_le16_at [of "length payload" ?pre 14] assms by (simp add: shaped_def nth_append)
qed

lemma shaped_magic:
  assumes "shaped e n" "k \<le> 20 + n"
  shows "magic_prefix (take k e @ ys) k"
proof -
  have "length e = 20 + n" using assms(1) by (simp add: shaped_def)
  then have "take (min k 4) (take k e @ ys) = take (min k 4) (take 4 e)"
    using assms(2) by (simp add: min_def)
  also have "\<dots> = take (min k 4) WIRE_MAGIC" using assms by (simp add: shaped_def)
  finally show ?thesis by (simp add: magic_prefix_def)
qed

lemma shaped_length_field:
  assumes "shaped e n" "16 \<le> k" "k \<le> 20 + n"
  shows "get_le16 (take k e @ ys) 14 = Some n"
proof -
  have "get_le16 (take k e @ ys) 14 = get_le16 e 14"
    using assms by (simp add: shaped_def get_le16_def get_at_def nth_append)
  with assms show ?thesis by (simp add: shaped_def)
qed

lemma shaped_version:
  "shaped e n \<Longrightarrow> 16 \<le> k \<Longrightarrow> k \<le> 20 + n \<Longrightarrow> get_at (take k e @ ys) 4 = Some WIRE_VERSION"
  by (simp add: shaped_def get_at_def nth_append)

text \<open>The state while the first \<open>k\<close> bytes of a frame have arrived.\<close>

abbreviation partial :: "wire \<Rightarrow> byte list \<Rightarrow> nat \<Rightarrow> wire" where
  "partial w e k \<equiv> w\<lparr>w_frame := take k e @ drop k (w_frame w), w_frame_used := k\<rparr>"

lemma partial_store:
  assumes "k < length e" "length e \<le> length f"
  shows "(take k e @ drop k f)[k := e ! k] = take (Suc k) e @ drop (Suc k) f"
  using assms Cons_nth_drop_Suc [of k f, symmetric]
  by (simp add: list_update_append take_Suc_conv_app_nth)

lemma feed_byte_partial:
  assumes "shaped e n" "buffers_wf w" "k < 20 + n"
  shows "feed_byte core (c, partial w e k, out) (e ! k) =
    (if Suc k = 20 + n
     then map_option (\<lambda>(c, w, sent). (c, w\<lparr>w_frame_used := 0\<rparr>, out @ sent))
       (process_frame core c (partial w e (Suc k)))
     else Some (c, partial w e (Suc k), out))"
proof -
  have l: "length (w_frame w) = 212" "length e = 20 + n" "n \<le> 192"
    using assms(1,2) by (simp_all add: buffers_wf_def shaped_def)
  have set: "set_at (take k e @ drop k (w_frame w)) k (e ! k) = Some (take (Suc k) e @ drop (Suc k) (w_frame w))"
    using partial_store [of k e "w_frame w"] l assms(3) by (simp add: set_at_def min_def)
  have res: "resync (take (Suc k) e @ drop (Suc k) (w_frame w)) (Suc k) =
      (take (Suc k) e @ drop (Suc k) (w_frame w), Suc k)"
    using assms(3) by (intro resync_id shaped_magic [OF assms(1)]) simp
  show ?thesis
  proof (cases "Suc k < 16")
    case True
    then show ?thesis using set res by (simp add: feed_byte_def WIRE_HEADER_SIZE_def Let_def)
  next
    case False
    have len: "get_le16 (take (Suc k) e @ drop (Suc k) (w_frame w)) 14 = Some n"
      using shaped_length_field [OF assms(1), of "Suc k"] False assms(3) by simp
    have v: "get_at (take (Suc k) e @ drop (Suc k) (w_frame w)) 4 = Some WIRE_VERSION"
      using shaped_version [OF assms(1), of "Suc k"] False assms(3) by simp
    show ?thesis
      using False set res len v l(3)
      by (simp add: feed_byte_def wire_consts Let_def del: get_at_Some)
        (auto simp: map_option_case split: option.splits)
  qed
qed

lemma feed_partial:
  assumes "shaped e n" "buffers_wf w" "k < 20 + n"
  shows "fold_opt (feed_byte core) (c, partial w e 0, out) (take k e) = Some (c, partial w e k, out)"
  using assms(3)
proof (induction k)
  case 0
  then show ?case by simp
next
  case (Suc k)
  have "take (Suc k) e = take k e @ [e ! k]"
    using Suc.prems assms(1) by (simp add: take_Suc_conv_app_nth shaped_def)
  moreover have "feed_byte core (c, partial w e k, out) (e ! k) = Some (c, partial w e (Suc k), out)"
    using feed_byte_partial [OF assms(1,2), of k core c out] Suc.prems by simp
  ultimately show ?case using Suc by (simp add: fold_opt_append)
qed

lemma feed_shaped:
  assumes "shaped e n" "buffers_wf w" "w_frame_used w = 0"
  shows "fold_opt (feed_byte core) (c, w, out) e =
    map_option (\<lambda>(c, w, sent). (c, w\<lparr>w_frame_used := 0\<rparr>, out @ sent))
      (process_frame core c (partial w e (length e)))"
proof -
  let ?k = "19 + n"
  have e: "e = take ?k e @ [e ! ?k]" "length e = Suc ?k"
    using assms(1) by (simp_all add: shaped_def take_Suc_conv_app_nth [symmetric])
  have w: "partial w e 0 = w" using assms(3) by simp
  have "fold_opt (feed_byte core) (c, w, out) e =
      fold_opt (feed_byte core) (c, partial w e ?k, out) [e ! ?k]"
    using feed_partial [OF assms(1,2), of ?k core c out] unfolding w
    by (subst e(1), subst fold_opt_append) simp
  also have "\<dots> = feed_byte core (c, partial w e ?k, out) (e ! ?k)" by (simp add: option.case_eq_if)
  also have "\<dots> = map_option (\<lambda>(c, w, sent). (c, w\<lparr>w_frame_used := 0\<rparr>, out @ sent))
      (process_frame core c (partial w e (Suc ?k)))"
    using feed_byte_partial [OF assms(1,2), of ?k core c out] by simp
  finally show ?thesis using e(2) by simp
qed

lemma process_partial:
  assumes "e = wire_encode flags sq op offset payload" "buffers_wf w" "length payload \<le> 192" "flags < 65536" "offset < 65536"
  shows "process_frame core c (partial w e (length e)) =
    accept_frame core c (partial w e (length e)) flags offset (length payload) sq op"
proof -
  let ?n = "length payload" and ?rest = "drop (length e) (w_frame w)"
  let ?body = "wire_body flags sq op offset payload"
  let ?f = "e @ ?rest"
  have f: "?f = WIRE_MAGIC @ ?body @ le32 (crc32 ?body) @ ?rest" by (simp add: assms(1) wire_encode_def)
  have t: "take (length e) e @ ?rest = ?f" by simp
  have 1: "get_le16 ?f 6 = Some flags"
    using get_le16_at [of flags "WIRE_MAGIC @ [WIRE_VERSION, op]" 6] assms(4)
    by (simp add: f wire_body_def)
  have 2: "get_le16 ?f 12 = Some offset"
    using get_le16_at [of offset "WIRE_MAGIC @ [WIRE_VERSION, op] @ le16 flags @ le32 sq" 12] assms(5)
    by (simp add: f wire_body_def)
  have 3: "get_le16 ?f 14 = Some ?n"
    using get_le16_at [of ?n "WIRE_MAGIC @ [WIRE_VERSION, op] @ le16 flags @ le32 sq @ le16 offset" 14] assms(3)
    by (simp add: f wire_body_def)
  have 4: "j2534_u32 ?f 8 = Some sq"
    using j2534_u32_at [of "WIRE_MAGIC @ [WIRE_VERSION, op] @ le16 flags" 8]
    by (simp add: f wire_body_def)
  have 5: "get_at ?f 5 = Some op"
    by (simp add: f wire_body_def WIRE_MAGIC_def get_at_def)
  have 6: "j2534_u32 ?f (16 + ?n) = Some (crc32 ?body)"
    using j2534_u32_at [of "WIRE_MAGIC @ ?body" "16 + ?n"] by (simp add: f)
  have 7: "frame_crc ?f ?n = Some (crc32 ?body)"
    by (simp add: frame_crc_def wire_consts f)
  show ?thesis
    using 1 2 3 4 5 6 7
    by (simp only: process_frame_def Let_def wire.simps wire_consts bind.bind_lunit) simp
qed

lemma feed_frame:
  assumes "e = wire_encode flags sq op offset payload"
    "buffers_wf w" "w_frame_used w = 0" "length payload \<le> 192" "flags < 65536" "offset < 65536"
  shows "fold_opt (feed_byte core) (c, w, out) e =
    map_option (\<lambda>(c, w, sent). (c, w\<lparr>w_frame_used := 0\<rparr>, out @ sent))
      (accept_frame core c (partial w e (length e)) flags offset (length payload) sq op)"
  using feed_shaped [OF shaped_encode [OF assms(4)] assms(2,3), of core c out flags sq op offset]
    process_partial [OF assms(1,2,4-6), of core c]
  by (simp only: assms(1))

section \<open>The exchange of a request and its response\<close>

text \<open>Collecting a request: \<open>sofar\<close> is what earlier fragments brought.\<close>

definition collecting :: "wire \<Rightarrow> u32w \<Rightarrow> byte \<Rightarrow> byte list \<Rightarrow> bool" where
  "collecting w sq op sofar \<longleftrightarrow> buffers_wf w \<and> w_frame_used w = 0 \<and>
     (sofar \<noteq> [] \<longrightarrow> w_assembling_request w \<and> w_sequence w = sq \<and> w_operation w = op \<and>
        w_request_len w = length sofar \<and> take (length sofar) (w_request w) = sofar)"

text \<open>Answering fetches of a response \<open>resp\<close>.\<close>

definition answering :: "wire \<Rightarrow> u32w \<Rightarrow> byte \<Rightarrow> byte list \<Rightarrow> bool" where
  "answering w sq op resp \<longleftrightarrow> buffers_wf w \<and> w_frame_used w = 0 \<and> w_response_ready w \<and>
     w_sequence w = sq \<and> w_operation w = op \<and> w_response_len w = length resp \<and>
     take (length resp) (w_response w) = resp"

text \<open>The fragment of a response at an offset.\<close>

definition response_frame :: "u32w \<Rightarrow> byte \<Rightarrow> byte list \<Rightarrow> nat \<Rightarrow> byte list" where
  "response_frame sq op resp offset =
     wire_encode (if offset + 192 < length resp then 129 else 128) sq op offset (take 192 (drop offset resp))"

definition ack_frame :: "u32w \<Rightarrow> byte \<Rightarrow> nat \<Rightarrow> byte list" where
  "ack_frame sq op offset = wire_encode 132 sq op offset []"

lemma send_response_eq:
  assumes "buffers_wf w" "w_response_len w = length resp" "take (length resp) (w_response w) = resp"
    and "offset \<le> length resp"
  shows "send_response_fragment w offset = Some [response_frame (w_sequence w) (w_operation w) resp offset]"
proof -
  let ?len = "min (length resp - offset) 192"
  have r: "length resp \<le> 4608" "length (w_response w) = 4608"
    using assms(1,2) by (auto simp: buffers_wf_def)
  have "take ?len (drop offset (w_response w)) = take ?len (drop offset (take (length resp) (w_response w)))"
    by (simp add: drop_take min.commute)
  also have "\<dots> = take 192 (drop offset resp)" by (simp add: assms(3) take_all_iff min_def)
  finally have data: "load_at (w_response w) offset ?len = Some (take 192 (drop offset resp))"
    using assms(4) r by (subst load_at_Some) auto
  have more: "offset + ?len < length resp \<longleftrightarrow> offset + 192 < length resp" using assms(4) by auto
  have fl: "or 128 (if offset + 192 < length resp then WIRE_MORE else 0) =
      (if offset + 192 < length resp then 129 else 128 :: nat)"
    by (simp add: WIRE_MORE_def)
  have "send_fragment w (if offset + 192 < length resp then WIRE_MORE else 0) offset (take 192 (drop offset resp)) =
      Some (response_frame (w_sequence w) (w_operation w) resp offset)"
    using assms(4) r by (subst send_fragment_eq) (auto simp: response_frame_def fl WIRE_MORE_def)
  then show ?thesis
    using assms(2,4) data more
    by (simp add: send_response_fragment_def Let_def J2534_FRAGMENT_MAX_def del: load_at_Some)
qed

lemma accept_request_eq:
  assumes "collecting w sq op sofar" "length sofar + length p \<le> 4608" "length p \<le> 192"
    and "load_at f 16 (length p) = Some p" "length f = 212"
    and "mr \<longrightarrow> p \<noteq> []"
    and v_def: "v = (if sofar = [] then w\<lparr>w_frame := f, w_frame_used := k, w_request_len := 0,
    w_sequence := sq, w_operation := op, w_assembling_request := True, w_response_ready := False\<rparr>
    else w\<lparr>w_frame := f, w_frame_used := k\<rparr>)\<lparr>w_request := take (length sofar) (w_request w) @ p @
       drop (length sofar + length p) (w_request w), w_request_len := length sofar + length p\<rparr>"
  shows "accept_frame core c (w\<lparr>w_frame := f, w_frame_used := k\<rparr>) (if mr then WIRE_MORE else 0)
      (length sofar) (length p) sq op =
    (if mr then Some (c, v, [ack_frame sq op (length sofar + length p)])
     else case core c op (sofar @ p) (w_response w) of (c', resp, n) \<Rightarrow>
       let v = v\<lparr>w_assembling_request := False, w_response := resp, w_response_len := n,
         w_response_ready := True\<rparr>
       in map_option (\<lambda>out. (c', v, out)) (send_response_fragment v 0))"
proof -
  define u where "u = (if sofar = [] then w\<lparr>w_frame := f, w_frame_used := k, w_request_len := 0,
    w_sequence := sq, w_operation := op, w_assembling_request := True, w_response_ready := False\<rparr>
    else w\<lparr>w_frame := f, w_frame_used := k\<rparr>)"
  have u: "w_assembling_request u" "w_sequence u = sq" "w_operation u = op" "w_request_len u = length sofar"
    "w_frame u = f" "w_request u = w_request w" "w_response u = w_response w"
    using assms(1) by (auto simp: u_def collecting_def)
  have lw: "length (w_request w) = 4608" using assms(1) by (simp add: collecting_def buffers_wf_def)
  have sofar: "take (length sofar) (w_request w) = sofar"
    using assms(1) by (cases "sofar = []") (auto simp: collecting_def)
  have v: "v = u\<lparr>w_request := take (length sofar) (w_request w) @ p @
      drop (length sofar + length p) (w_request w), w_request_len := length sofar + length p\<rparr>"
    by (simp add: v_def u_def)
  have store: "store_at (w_request w) (length sofar) p = Some (w_request v)"
    using lw assms(2) by (simp add: v)
  have input: "load_at (w_request v) 0 (length sofar + length p) = Some (sofar @ p)"
    using lw assms(2) sofar by (simp add: v)
  have vv: "v = u\<lparr>w_request := w_request v, w_request_len := length sofar + length p\<rparr>" by (simp add: v)
  have ack: "send_fragment v WIRE_ACK (length sofar + length p) [] = Some (ack_frame sq op (length sofar + length p))"
    using assms(2) u by (simp add: send_fragment_eq WIRE_ACK_def ack_frame_def v)
  have fits: "\<not> 4608 - length sofar < length p" using assms(2) by simp
  have vf: "w_operation v = op" "w_response v = w_response w" "w_request_len v = length sofar + length p"
    using u by (simp_all add: v)
  have "accept_frame core c (w\<lparr>w_frame := f, w_frame_used := k\<rparr>) (if mr then WIRE_MORE else 0)
      (length sofar) (length p) sq op =
    accept_request core c (w\<lparr>w_frame := f, w_frame_used := k\<rparr>) (if mr then WIRE_MORE else 0)
      (length sofar) (length p) sq op"
    by (simp add: accept_frame_def WIRE_FETCH_def WIRE_MORE_def)
  also have "\<dots> = process_request core c u (if mr then WIRE_MORE else 0) (length sofar) (length p)"
    using u by (simp add: accept_request_def Let_def u_def split: if_splits)
  also have "\<dots> = (if mr then Some (c, v, [ack_frame sq op (length sofar + length p)])
     else case core c op (sofar @ p) (w_response w) of (c', resp, n) \<Rightarrow>
       let v = v\<lparr>w_assembling_request := False, w_response := resp, w_response_len := n,
         w_response_ready := True\<rparr>
       in map_option (\<lambda>out. (c', v, out)) (send_response_fragment v 0))"
    using fits assms(4,6) u store input ack vf
    by (cases mr; cases "core c op (sofar @ p) (w_response w)")
      (simp_all add: process_request_def WIRE_MORE_def WIRE_HEADER_SIZE_def J2534_RPC_MAX_def Let_def
        vv [symmetric] map_conv_bind_option comp_def del: load_at_Some store_at_Some)
  finally show ?thesis .
qed


lemma encode_payload:
  assumes "e = wire_encode flags sq op offset p" "length e \<le> length g"
  shows "load_at (take (length e) e @ drop (length e) g) 16 (length p) = Some p"
proof -
  have "e = (WIRE_MAGIC @ [WIRE_VERSION, op] @ le16 flags @ le32 sq @ le16 offset @ le16 (length p)) @ p @
      le32 (crc32 (wire_body flags sq op offset p))"
    by (simp add: assms(1) wire_encode_def wire_body_def)
  moreover have "load_at (take (length (xs @ p @ ys)) (xs @ p @ ys) @ zs) 16 (length p) = Some p"
    if "length xs = 16" for xs ys zs :: "byte list"
    using that by simp
  ultimately show ?thesis by simp
qed

text \<open>The clock at the start of a call: a request that paused too long is given up.\<close>

definition clocked :: "wire \<Rightarrow> u32w \<Rightarrow> wire" where
  "clocked w now = (if now - w_last_input_us w > WIRE_TIMEOUT_US
     then w\<lparr>w_frame_used := 0, w_assembling_request := False\<rparr> else w)\<lparr>w_last_input_us := now\<rparr>"

lemma wire_call_frame:
  assumes "e = wire_encode flags sq op offset p" "buffers_wf w"
    "w_frame_used (clocked w now) = 0" "length p \<le> 192" "flags < 65536" "offset < 65536"
  shows "wire_call core (c, w) (now, e) =
    map_option (\<lambda>(c, w, sent). ((c, w\<lparr>w_frame_used := 0\<rparr>), sent))
      (accept_frame core c (partial (clocked w now) e (length e)) flags offset (length p) sq op)"
proof -
  have "buffers_wf (clocked w now)" using assms(2) by (simp add: clocked_def buffers_wf_def)
  from feed_frame [OF assms(1) this assms(3-6), of core c "[]"]
  have "wire_feed core c w now e = map_option (\<lambda>(c, w, sent). (c, w\<lparr>w_frame_used := 0\<rparr>, sent))
      (accept_frame core c (partial (clocked w now) e (length e)) flags offset (length p) sq op)"
    by (simp add: wire_feed_def clocked_def Let_def)
  then show ?thesis by (simp add: wire_call_def option.map_comp comp_def case_prod_unfold)
qed

lemma collecting_clocked:
  assumes "collecting w sq op sofar" "sofar \<noteq> [] \<Longrightarrow> now - w_last_input_us w \<le> WIRE_TIMEOUT_US"
  shows "collecting (clocked w now) sq op sofar" "w_response (clocked w now) = w_response w"
    "w_last_input_us (clocked w now) = now" "w_frame_used (clocked w now) = 0"
  using assms by (cases "sofar = []"; auto simp: collecting_def clocked_def buffers_wf_def)+

lemma request_call:
  assumes "collecting w sq op sofar" "sofar \<noteq> [] \<Longrightarrow> now - w_last_input_us w \<le> WIRE_TIMEOUT_US"
    and "length sofar + length p \<le> 4608" "length p \<le> 192" "mr \<longrightarrow> p \<noteq> []" "core_ok core"
    and "core c op (sofar @ p) (w_response w) = (c', resp, n)"
  shows "\<exists>w'. wire_call core (c, w) (now, wire_encode (if mr then 1 else 0) sq op (length sofar) p) =
    (if mr then Some ((c, w'), [ack_frame sq op (length sofar + length p)])
     else Some ((c', w'), [response_frame sq op (take n resp) 0])) \<and>
    (if mr then collecting w' sq op (sofar @ p) \<and> w_response w' = w_response w \<and> w_last_input_us w' = now
     else answering w' sq op (take n resp))"
proof -
  define e where "e = wire_encode (if mr then WIRE_MORE else 0) sq op (length sofar) p"
  let ?cw = "clocked w now"
  let ?f = "take (length e) e @ drop (length e) (w_frame ?cw)"
  note cw = collecting_clocked [OF assms(1,2)]
  define v where "v = (if sofar = [] then ?cw\<lparr>w_frame := ?f, w_frame_used := length e, w_request_len := 0,
    w_sequence := sq, w_operation := op, w_assembling_request := True, w_response_ready := False\<rparr>
    else ?cw\<lparr>w_frame := ?f, w_frame_used := length e\<rparr>)\<lparr>w_request := take (length sofar) (w_request ?cw) @ p @
       drop (length sofar + length p) (w_request ?cw), w_request_len := length sofar + length p\<rparr>"
  have l: "length (w_frame ?cw) = 212" "length (w_request ?cw) = 4608" "length e \<le> 212"
    using cw(1) assms(4) by (auto simp: collecting_def buffers_wf_def e_def)
  have b: "buffers_wf w" "buffers_wf ?cw" using assms(1) cw(1) by (auto simp: collecting_def)
  have load: "load_at ?f 16 (length p) = Some p" using l by (intro encode_payload [OF e_def]) simp
  have lf: "length ?f = 212" using l by simp
  have sofar: "take (length sofar) (w_request ?cw) = sofar"
    using cw(1) by (cases "sofar = []") (auto simp: collecting_def)
  have v: "buffers_wf v" "w_sequence v = sq" "w_operation v = op" "w_assembling_request v"
    "w_request_len v = length sofar + length p" "take (length sofar + length p) (w_request v) = sofar @ p"
    "w_response v = w_response w" "w_last_input_us v = now"
    using b(2) lf l cw assms(3) sofar by (auto simp: v_def buffers_wf_def collecting_def)
  note eq = accept_request_eq [OF cw(1) assms(3,4) load lf assms(5) v_def, of core c]
  note call = wire_call_frame [OF e_def b(1) cw(4) assms(4), of core c]
  show ?thesis
  proof (cases mr)
    case True
    with eq call assms(3) have "wire_call core (c, w) (now, e) =
        Some ((c, v\<lparr>w_frame_used := 0\<rparr>), [ack_frame sq op (length sofar + length p)])"
      by (simp add: WIRE_MORE_def)
    moreover have "collecting (v\<lparr>w_frame_used := 0\<rparr>) sq op (sofar @ p)"
      using v by (simp add: collecting_def buffers_wf_def)
    ultimately show ?thesis using True v by (auto simp: e_def WIRE_MORE_def)
  next
    case False
    let ?v = "v\<lparr>w_assembling_request := False, w_response := resp, w_response_len := n,
      w_response_ready := True\<rparr>"
    have lr: "length resp = 4608" "n \<le> 4608"
      using assms(6,7) b(1) unfolding core_ok_def buffers_wf_def by (metis fst_conv snd_conv)+
    have wf: "buffers_wf ?v" using v(1) lr by (simp add: buffers_wf_def)
    have out: "send_response_fragment ?v 0 = Some [response_frame sq op (take n resp) 0]"
      using send_response_eq [OF wf, of "take n resp" 0] lr v by simp
    have "wire_call core (c, w) (now, e) =
        Some ((c', ?v\<lparr>w_frame_used := 0\<rparr>), [response_frame sq op (take n resp) 0])"
      using False eq call assms(3,7) cw(2) out by simp
    moreover have "answering (?v\<lparr>w_frame_used := 0\<rparr>) sq op (take n resp)"
      using v lr by (simp add: answering_def buffers_wf_def)
    ultimately show ?thesis using False by (auto simp: e_def)
  qed
qed

lemma fetch_call:
  assumes "answering w sq op resp" "offset \<le> length resp"
  shows "\<exists>w'. wire_call core (c, w) (now, wire_encode 2 sq op offset []) =
    Some ((c, w'), [response_frame sq op resp offset]) \<and> answering w' sq op resp"
proof -
  define e where "e = wire_encode 2 sq op offset []"
  let ?cw = "clocked w now"
  let ?p = "partial ?cw e (length e)"
  have b: "buffers_wf w" "w_frame_used ?cw = 0" "buffers_wf ?cw" "offset < 65536"
    using assms by (auto simp: answering_def clocked_def buffers_wf_def)
  have "length (w_frame ?cw) = 212" "length e = 20" using b(3) by (simp_all add: buffers_wf_def e_def)
  then have p: "answering (?p\<lparr>w_frame_used := 0\<rparr>) sq op resp" "buffers_wf ?p"
    using assms(1) b(3) by (auto simp: answering_def clocked_def buffers_wf_def)
  have "send_response_fragment ?p offset = Some [response_frame sq op resp offset]"
    using send_response_eq [OF p(2) _ _ assms(2)] assms(1) by (simp add: answering_def clocked_def)
  then have "accept_frame core c ?p 2 offset 0 sq op = Some (c, ?p, [response_frame sq op resp offset])"
    using assms(1) by (simp add: accept_frame_def WIRE_FETCH_def answering_def clocked_def)
  then have "wire_call core (c, w) (now, e) =
      Some ((c, ?p\<lparr>w_frame_used := 0\<rparr>), [response_frame sq op resp offset])"
    using wire_call_frame [OF e_def b(1,2), of core c] b(4) by simp
  with p show ?thesis unfolding e_def by blast
qed


text \<open>The calls of a host that sends a request in fragments, and the answers it expects.\<close>

fun request_calls :: "u32w \<Rightarrow> byte \<Rightarrow> nat \<Rightarrow> (u32w \<times> byte list) list \<Rightarrow> (u32w \<times> byte list) list" where
  "request_calls sq op off [] = []"
| "request_calls sq op off ((t, p) # ps) =
     (t, wire_encode (if ps \<noteq> [] then 1 else 0) sq op off p) # request_calls sq op (off + length p) ps"

fun acks :: "u32w \<Rightarrow> byte \<Rightarrow> nat \<Rightarrow> (u32w \<times> byte list) list \<Rightarrow> byte list list list" where
  "acks sq op off [] = []"
| "acks sq op off ((t, p) # ps) =
     (if ps \<noteq> [] then [ack_frame sq op (off + length p)] # acks sq op (off + length p) ps else [])"

definition fetch_calls :: "u32w \<Rightarrow> byte \<Rightarrow> (u32w \<times> nat) list \<Rightarrow> (u32w \<times> byte list) list" where
  "fetch_calls sq op fs = map (\<lambda>(t, offset). (t, wire_encode 2 sq op offset [])) fs"

text \<open>Each fragment but the last carries something, and none comes two seconds after the one before.\<close>

fun fragments_ok :: "u32w \<Rightarrow> (u32w \<times> byte list) list \<Rightarrow> bool" where
  "fragments_ok t [] \<longleftrightarrow> True"
| "fragments_ok t ((t', p) # ps) \<longleftrightarrow>
     t' - t \<le> WIRE_TIMEOUT_US \<and> length p \<le> 192 \<and> (ps \<noteq> [] \<longrightarrow> p \<noteq> []) \<and> fragments_ok t' ps"

lemma request_run:
  assumes "core_ok core" "collecting w sq op sofar" "ps \<noteq> []"
    "length sofar + length (concat (map snd ps)) \<le> 4608"
    "fragments_ok (if sofar = [] then fst (hd ps) else w_last_input_us w) ps"
    "core c op (sofar @ concat (map snd ps)) (w_response w) = (c', resp, n)"
  shows "\<exists>w'. run_calls (wire_call core) (c, w) (request_calls sq op (length sofar) ps) =
      Some ((c', w'), acks sq op (length sofar) ps @ [[response_frame sq op (take n resp) 0]]) \<and>
    answering w' sq op (take n resp)"
  using assms(2-6)
proof (induction ps arbitrary: w sofar)
  case Nil
  then show ?case by simp
next
  case (Cons a ps)
  obtain t p where a: "a = (t, p)" by (cases a)
  have pace: "sofar \<noteq> [] \<Longrightarrow> t - w_last_input_us w \<le> WIRE_TIMEOUT_US"
    using Cons.prems(4) a by simp
  have p: "length sofar + length p \<le> 4608" "length p \<le> 192" "ps \<noteq> [] \<longrightarrow> p \<noteq> []" "fragments_ok t ps"
    using Cons.prems(3,4) a by auto
  obtain d r m where core: "core c op (sofar @ p) (w_response w) = (d, r, m)"
    by (cases "core c op (sofar @ p) (w_response w)")
  obtain w1 where w1: "wire_call core (c, w) (t, wire_encode (if ps \<noteq> [] then 1 else 0) sq op (length sofar) p) =
      (if ps \<noteq> [] then Some ((c, w1), [ack_frame sq op (length sofar + length p)])
       else Some ((d, w1), [response_frame sq op (take m r) 0]))"
    "if ps \<noteq> [] then collecting w1 sq op (sofar @ p) \<and> w_response w1 = w_response w \<and> w_last_input_us w1 = t
     else answering w1 sq op (take m r)"
    using request_call [OF Cons.prems(1) pace p(1,2,3) assms(1) core] by blast
  show ?case
  proof (cases "ps = []")
    case True
    with Cons.prems(5) a core have "d = c'" "r = resp" "m = n" by auto
    with True w1 a show ?thesis by simp
  next
    case False
    with p(3) have "sofar @ p \<noteq> []" by simp
    then have "\<exists>w'. run_calls (wire_call core) (c, w1) (request_calls sq op (length (sofar @ p)) ps) =
        Some ((c', w'), acks sq op (length (sofar @ p)) ps @ [[response_frame sq op (take n resp) 0]]) \<and>
      answering w' sq op (take n resp)"
      using Cons.prems(3,5) False w1(2) a p(4) by (intro Cons.IH) auto
    with w1(1) False a show ?thesis by auto
  qed
qed

lemma fetch_run:
  assumes "answering w sq op resp" "list_all (\<lambda>(t, offset). offset \<le> length resp) fs"
  shows "\<exists>w'. run_calls (wire_call core) (c, w) (fetch_calls sq op fs) =
    Some ((c, w'), map (\<lambda>(t, offset). [response_frame sq op resp offset]) fs)"
  using assms
proof (induction fs arbitrary: w)
  case Nil
  then show ?case by (simp add: fetch_calls_def)
next
  case (Cons f fs)
  obtain t offset where f: "f = (t, offset)" by (cases f)
  obtain w1 where "wire_call core (c, w) (t, wire_encode 2 sq op offset []) =
      Some ((c, w1), [response_frame sq op resp offset])" "answering w1 sq op resp"
    using fetch_call [OF Cons.prems(1), of offset core c t] Cons.prems(2) f by auto
  with Cons.IH [of w1] Cons.prems(2) f show ?case by (auto simp: fetch_calls_def)
qed

text \<open>C7: The exchange of a request and its response. A host sends a request of up to 4608 bytes in
  fragments of up to 192, each within two seconds of the one before, then fetches any parts of
  the response, as often and in whatever order it likes. If no earlier frame is half received,
  or the link was quiet for two seconds, then every fragment but the last is acknowledged with
  the bytes received so far, the core is called exactly once and with exactly the bytes of the
  request, and every answer is the fragment of the core's response that starts at the offset
  asked for.\<close>

theorem j2534_wire_exchange:
  assumes "core_ok core" "wire_wf w" "core c op (concat (map snd ps)) (w_response w) = (c', resp, n)"
    and "w_frame_used w = 0 \<or> fst (hd ps) - w_last_input_us w > WIRE_TIMEOUT_US"
    and "ps \<noteq> []" "length (concat (map snd ps)) \<le> 4608" "fragments_ok (fst (hd ps)) ps"
    and "list_all (\<lambda>(t, offset). offset \<le> n) fs"
  shows "\<exists>w'. run_calls (wire_call core) (c, w) (request_calls sq op 0 ps @ fetch_calls sq op fs) =
    Some ((c', w'), acks sq op 0 ps @ [[response_frame sq op (take n resp) 0]] @
      map (\<lambda>(t, offset). [response_frame sq op (take n resp) offset]) fs)"
proof -
  have b: "buffers_wf w" using assms(2) by (simp add: wire_wf_def)
  obtain t p qs where ps: "ps = (t, p) # qs" using assms(5) by (cases ps) auto
  let ?w = "w\<lparr>w_frame_used := 0\<rparr>"
  have n: "length (take n resp) = n"
    using assms(1,3) b unfolding core_ok_def buffers_wf_def
    by (metis fst_conv snd_conv length_take min.absorb2)
  have same: "clocked w t = clocked ?w t \<or> w_frame_used w = 0" using assms(4) ps by (auto simp: clocked_def)
  have "wire_call core (c, w) (t, e) = wire_call core (c, ?w) (t, e)" for e
  proof (cases "w_frame_used w = 0")
    case True
    then have "?w = w" by simp
    then show ?thesis by simp
  next
    case False
    with assms(4) ps show ?thesis by (simp add: wire_call_def wire_feed_def Let_def)
  qed
  then have run: "run_calls (wire_call core) (c, w) (request_calls sq op 0 ps) =
      run_calls (wire_call core) (c, ?w) (request_calls sq op 0 ps)"
    by (simp add: ps)
  have "collecting ?w sq op []" using b by (simp add: collecting_def buffers_wf_def)
  then obtain w' where "run_calls (wire_call core) (c, ?w) (request_calls sq op 0 ps) =
      Some ((c', w'), acks sq op 0 ps @ [[response_frame sq op (take n resp) 0]])"
    "answering w' sq op (take n resp)"
    using request_run [OF assms(1) _ assms(5), of ?w sq op "[]" c c' resp n] assms(3,6,7) by auto
  moreover from this(2) obtain w'' where "run_calls (wire_call core) (c', w') (fetch_calls sq op fs) =
      Some ((c', w''), map (\<lambda>(t, offset). [response_frame sq op (take n resp) offset]) fs)"
    using fetch_run [of w' sq op "take n resp" fs core c'] assms(8) unfolding n by blast
  ultimately show ?thesis by (simp add: run_calls_append run)
qed

text \<open>A core that answers with the request's bytes reversed and counts its calls.\<close>

definition echo_core :: "nat core" where
  "echo_core c op input buf =
     (if length input \<le> length buf
      then (Suc c, rev input @ drop (length input) buf, length input) else (c, buf, 0))"

lemma echo_core_ok: "core_ok echo_core"
  by (auto simp: core_ok_def echo_core_def)

lemma j2534_wire_exchange_witness:
  "\<exists>w'. run_calls (wire_call echo_core) (0, wire_zero)
      (request_calls 7 3 0 [(10, [1, 2]), (20, [3])] @ fetch_calls 7 3 [(30, 1)]) =
    Some ((1, w'), [[wire_encode 132 7 3 2 []], [wire_encode 128 7 3 0 [3, 2, 1]],
      [wire_encode 128 7 3 1 [2, 1]]])"
proof -
  let ?resp = "[3, 2, 1] @ replicate 4605 0 :: byte list"
  let ?ps = "[(10, [1, 2]), (20, [3])] :: (u32w \<times> byte list) list"
  have core: "echo_core 0 3 (concat (map snd ?ps)) (w_response wire_zero) = (1, ?resp, 3)"
    by (simp add: echo_core_def wire_zero_def J2534_RPC_MAX_def)
  have pace: "fragments_ok (fst (hd ?ps)) ?ps" by (simp add: WIRE_TIMEOUT_US_def)
  have used: "w_frame_used wire_zero = 0" by (simp add: wire_zero_def)
  have "\<exists>w'. run_calls (wire_call echo_core) (0, wire_zero) (request_calls 7 3 0 ?ps @ fetch_calls 7 3 [(30, 1)]) =
    Some ((1, w'), acks 7 3 0 ?ps @ [[response_frame 7 3 (take 3 ?resp) 0]] @
      map (\<lambda>(t, offset). [response_frame 7 3 (take 3 ?resp) offset]) [(30 :: u32w, 1)])"
    by (rule j2534_wire_exchange [OF echo_core_ok wire_zero_wf core _ _ _ pace])
      (use used in simp_all)
  moreover have "acks 7 3 0 ?ps @ [[response_frame 7 3 (take 3 ?resp) 0]] @
      map (\<lambda>(t, offset). [response_frame 7 3 (take 3 ?resp) offset]) [(30 :: u32w, 1)] =
    [[wire_encode 132 7 3 2 []], [wire_encode 128 7 3 0 [3, 2, 1]], [wire_encode 128 7 3 1 [2, 1]]]"
    by (simp add: ack_frame_def response_frame_def numeral_2_eq_2)
  ultimately show ?thesis by (simp only:)
qed


text \<open>C35: No input can make the link protocol leave a buffer: from the zeroed state, for every core that
  fills at most its 4608 byte response buffer, every sequence of feeds of any bytes at any times
  is handled without an access outside an array, and the lengths kept in the state stay within
  the buffers.\<close>

theorem j2534_wire_never_overruns:
  assumes "core_ok core"
  shows "\<exists>c' w' outs. run_calls (wire_call core) (c, wire_zero) feeds = Some ((c', w'), outs) \<and>
    length outs = length feeds \<and> w_frame_used w' < WIRE_FRAME_MAX \<and>
    w_request_len w' \<le> J2534_RPC_MAX \<and> w_response_len w' \<le> J2534_RPC_MAX"
proof -
  have "list_all (\<lambda>_. True) feeds" by (simp add: list_all_iff)
  then obtain s' outs where "run_calls (wire_call core) (c, wire_zero) feeds = Some (s', outs)"
    "case s' of (c, w) \<Rightarrow> core_ok core \<and> wire_wf w" "length outs = length feeds"
    using wirem.run_safe [of core "(c, wire_zero)" feeds] assms wire_zero_wf by auto
  then show ?thesis
    using wire_used by (auto simp: wire_wf_def buffers_wf_def wire_consts split: prod.splits)
qed

lemma j2534_wire_never_overruns_witness:
  "\<exists>c' w' outs. run_calls (wire_call echo_core) (0, wire_zero) [(5, replicate 300 0x4a)] =
    Some ((c', w'), outs) \<and> length outs = 1"
  using j2534_wire_never_overruns [OF echo_core_ok, of 0 "[(5, replicate 300 0x4a)]"] by auto

section \<open>Damaged frames\<close>

lemma u32_le32:
  "le32 (ucast a OR push_bit 8 (ucast b) OR push_bit 16 (ucast c) OR push_bit 24 (ucast d)) =
   [a, b, c, d :: byte]"
proof -
  let ?v = "ucast a OR push_bit 8 (ucast b) OR push_bit 16 (ucast c) OR push_bit 24 (ucast d) :: u32w"
  have "ucast ?v = a" "ucast (drop_bit 8 ?v) = b" "ucast (drop_bit 16 ?v) = c" "ucast (drop_bit 24 ?v) = d"
    by (rule bit_word_eqI; auto simp: bit_simps dest: bit_imp_le_length)+
  then show ?thesis by (simp add: le32_def)
qed

lemma j2534_u32_le32:
  assumes "length bs = 4" "j2534_u32 (xs @ bs @ ys) (length xs) = Some v"
  shows "bs = le32 v"
proof -
  obtain a b c d where bs: "bs = [a, b, c, d]"
    using assms(1) by (auto simp: numeral_eq_Suc length_Suc_conv)
  with assms(2) have "v = ucast a OR push_bit 8 (ucast b) OR push_bit 16 (ucast c) OR push_bit 24 (ucast d)"
    by (simp add: j2534_u32_def get_at_def nth_append)
  then show ?thesis using u32_le32 [of a b c d] bs by simp
qed

lemma le32_inj: "le32 x = le32 y \<Longrightarrow> x = y"
  using j2534_u32_at [of "[]" 0 x "[]"] j2534_u32_at [of "[]" 0 y "[]"] by simp

lemma crc32_change:
  assumes "i < length m" "b \<noteq> m ! i"
  shows "crc32 (m[i := b]) \<noteq> crc32 m"
proof -
  have "m = take i m @ m ! i # drop (Suc i) m" using assms(1) by (rule id_take_nth_drop)
  moreover have "m[i := b] = take i m @ b # drop (Suc i) m"
    using assms(1) by (rule upd_conv_take_nth_drop)
  ultimately have "foldl crc32_step 0xffffffff (m[i := b]) \<noteq> foldl crc32_step 0xffffffff m"
    using crc32.single_byte_detected [OF assms(2), of "0xffffffff" "take i m" "drop (Suc i) m"] by metis
  then show ?thesis by (simp add: crc32_def bit.compl_eq_compl_iff)
qed

text \<open>A complete frame whose check does not fit its body changes nothing.\<close>

lemma process_rejects:
  assumes "length body = 12 + n" "length chk = 4" "chk \<noteq> le32 (crc32 body)" "n \<le> 192"
    and "get_le16 (WIRE_MAGIC @ body @ chk) 14 = Some n" "buffers_wf w"
  shows "process_frame core c (partial w (WIRE_MAGIC @ body @ chk) (20 + n)) =
    Some (c, partial w (WIRE_MAGIC @ body @ chk) (20 + n), [])"
proof -
  let ?f = "WIRE_MAGIC @ body @ chk @ drop (20 + n) (w_frame w)"
  have t: "take (20 + n) (WIRE_MAGIC @ body @ chk) @ drop (20 + n) (w_frame w) = ?f"
    using assms(1,2) by simp
  obtain flags offset where 1: "get_le16 ?f 6 = Some flags" "get_le16 ?f 12 = Some offset"
    using get_le16_ok [of 6 ?f] get_le16_ok [of 12 ?f] assms(1,2) by auto
  have 2: "get_le16 ?f 14 = Some n"
    using assms(1,2,5) by (simp add: get_le16_def get_at_def nth_append split: if_splits)
  obtain sq where 3: "j2534_u32 ?f 8 = Some sq" using j2534_u32_ok [of 8 ?f] assms(1,2) by auto
  obtain chk' where 4: "j2534_u32 ?f (16 + n) = Some chk'"
    using j2534_u32_ok [of "16 + n" ?f] assms(1,2) by auto
  then have "chk = le32 chk'"
    using j2534_u32_le32 [OF assms(2), of "WIRE_MAGIC @ body" _ chk'] assms(1) by simp
  with assms(3) have ne: "chk' \<noteq> crc32 body" by auto
  have 5: "frame_crc ?f n = Some (crc32 body)" using assms(1) by (simp add: frame_crc_def wire_consts)
  have 6: "\<exists>op. get_at ?f 5 = Some op" using assms(1) by (simp add: get_at_def)
  then obtain op where op: "get_at ?f 5 = Some op" by blast
  show ?thesis
    using 1 2 3 4 5 op ne
    by (simp only: process_frame_def Let_def wire.simps wire_consts t bind.bind_lunit) simp
qed

text \<open>Damage does not get through: a well-formed frame in which one byte of the operation, the
  flags, the sequence, the offset, the payload or the check was replaced is received without any
  effect: no answer, no call of the core, and apart from the receive buffer and the clock the
  state is the one before. The bytes that frame the rest are not among these: magic and version
  (bytes 0 to 4) and the two length bytes (14 and 15), where a larger length makes the receiver
  wait for more bytes, so that the frames after it are taken for the rest of this one until the
  timeout.\<close>

theorem j2534_wire_damage_ignored:
  fixes flags offset :: nat and sq :: u32w and op :: byte and payload :: "byte list"
  defines "e \<equiv> wire_encode flags sq op offset payload"
  assumes "length payload \<le> 192" "5 \<le> i" "i < 20 + length payload" "i \<noteq> 14" "i \<noteq> 15" "b \<noteq> e ! i"
    and "buffers_wf w" "w_frame_used w = 0" "now - w_last_input_us w \<le> WIRE_TIMEOUT_US"
  shows "\<exists>f. wire_call core (c, w) (now, e[i := b]) =
    Some ((c, w\<lparr>w_last_input_us := now, w_frame := f\<rparr>), [])"
proof -
  let ?n = "length payload" and ?body = "wire_body flags sq op offset payload"
  let ?chk = "le32 (crc32 ?body)" and ?w = "w\<lparr>w_last_input_us := now\<rparr>"
  have sh: "shaped (e[i := b]) ?n"
    using shaped_encode [OF assms(2), of flags sq op offset] assms(3,5,6)
    by (simp add: shaped_def e_def get_le16_update)
  have e: "e = WIRE_MAGIC @ ?body @ ?chk" by (simp add: e_def wire_encode_def)
  have "\<exists>body chk. e[i := b] = WIRE_MAGIC @ body @ chk \<and> length body = 12 + ?n \<and> length chk = 4 \<and>
      chk \<noteq> le32 (crc32 body)"
  proof (cases "i < 16 + ?n")
    case True
    have lt: "i - 4 < 12 + ?n" using assms(3) True by simp
    have b: "b \<noteq> ?body ! (i - 4)" using assms(3,7) True by (auto simp: e nth_append split: if_splits)
    have "e[i := b] = WIRE_MAGIC @ ?body[i - 4 := b] @ ?chk"
      using assms(3) lt by (simp add: e list_update_append)
    moreover have "crc32 (?body[i - 4 := b]) \<noteq> crc32 ?body"
      using assms(3) True b by (intro crc32_change) auto
    then have "?chk \<noteq> le32 (crc32 (?body[i - 4 := b]))"
      using le32_inj by metis
    ultimately show ?thesis
      by (intro exI [of _ "?body[i - 4 := b]"] exI [of _ ?chk]) simp
  next
    case False
    have ge: "\<not> i - 4 < 12 + ?n" using False by simp
    have "e[i := b] = WIRE_MAGIC @ ?body @ ?chk[i - 16 - ?n := b]"
      using assms(3) ge by (simp add: e list_update_append)
    moreover have small: "i - 16 - ?n < 4" using assms(4) False by simp
    have "b \<noteq> ?chk ! (i - 16 - ?n)" using assms(3,7) ge by (simp add: e nth_append)
    then have "?chk[i - 16 - ?n := b] \<noteq> ?chk"
      using assms(4) False by (metis nth_list_update_eq length_le32 small)
    ultimately show ?thesis
      by (intro exI [of _ ?body] exI [of _ "?chk[i - 16 - ?n := b]"]) simp
  qed
  then obtain body chk where bc: "e[i := b] = WIRE_MAGIC @ body @ chk" "length body = 12 + ?n"
    "length chk = 4" "chk \<noteq> le32 (crc32 body)" by blast
  have wf: "buffers_wf ?w" using assms(8) by (simp add: buffers_wf_def)
  have "fold_opt (feed_byte core) (c, ?w, []) (e[i := b]) =
      map_option (\<lambda>(c, w, sent). (c, w\<lparr>w_frame_used := 0\<rparr>, [] @ sent))
        (process_frame core c (partial ?w (e[i := b]) (length (e[i := b]))))"
    using assms(9) by (intro feed_shaped [OF sh wf]) simp
  also have "\<dots> = Some (c, ?w\<lparr>w_frame := take (20 + ?n) (e[i := b]) @ drop (20 + ?n) (w_frame w)\<rparr>, [])"
    using process_rejects [OF bc(2-4) assms(2) _ wf, of core c] sh assms(9) unfolding bc(1)
    by (simp add: shaped_def)
  finally show ?thesis
    using assms(10) by (auto simp: wire_call_def wire_feed_def Let_def not_less)
qed

lemma j2534_wire_damage_ignored_witness:
  "\<exists>f. wire_call echo_core (0, wire_zero) (9, (wire_encode 0 7 3 0 [1, 2])[16 := 0x81]) =
    Some ((0, wire_zero\<lparr>w_last_input_us := 9, w_frame := f\<rparr>), [])"
proof -
  have "(wire_encode 0 7 3 0 [1, 2]) ! 16 = 1"
    by (simp add: wire_encode_def wire_body_def le16_def le32_def WIRE_MAGIC_def)
  moreover have "buffers_wf wire_zero" using wire_zero_wf by (simp add: wire_wf_def)
  ultimately show ?thesis
    using j2534_wire_damage_ignored [of "[1, 2]" 16 "0x81" 0 7 3 0 wire_zero 9 echo_core 0]
    by (simp add: wire_zero_def WIRE_TIMEOUT_US_def)
qed

end
