(* ===== verification/Vif.thy ===== *)
theory Vif
  imports BusWorker
begin

text \<open>
The vehicle interface of \<open>main/vif.c\<close>: which owner, the data link or the shell, holds which
  group of wiring, the two connector pin drivers with their owners, and the requests to let go.
  The static object \<open>g\<close> is the record \<open>vif\<close>; its lock is not a field, because every part of an
  operation that holds the lock is one function and what happens between two of them is left
  open. \<open>me\<close> is the calling task. The bus drivers and transmit workers are a parameter, a record
  of functions on a state of their own. Of \<open>main/board.c\<close> the pin drivers are kept as booleans per
  OBD pin; the duty cycle the board computes from a voltage is not modelled.
  The lemmas: what opening does to the claims on every path, and that a request to release is
  carried out or kept.
\<close>

section \<open>Names, errors and the state\<close>

type_synonym esp_err = int

definition ESP_OK :: esp_err where "ESP_OK = 0"
definition ESP_FAIL :: esp_err where "ESP_FAIL = -1"
definition ESP_ERR_NO_MEM :: esp_err where "ESP_ERR_NO_MEM = 0x101"
definition ESP_ERR_INVALID_ARG :: esp_err where "ESP_ERR_INVALID_ARG = 0x102"
definition ESP_ERR_INVALID_STATE :: esp_err where "ESP_ERR_INVALID_STATE = 0x103"

definition VIF_ERR_NO_CLAIM :: int where "VIF_ERR_NO_CLAIM = -3"
definition BUS_ERR_UNSUPPORTED :: int where "BUS_ERR_UNSUPPORTED = -9"
definition BUS_ERR_BUS_BUSY :: int where "BUS_ERR_BUS_BUSY = -10"

datatype vif_bus = VIF_BUS_NONE | VIF_BUS_CAN | VIF_BUS_KLINE | VIF_BUS_J1850_PWM | VIF_BUS_J1850_VPW

datatype vif_owner = VIF_OWNER_LINK | VIF_OWNER_SHELL

datatype vif_pin_mode = VIF_PIN_OFF | VIF_PIN_VOLTAGE | VIF_PIN_GROUND

text \<open>\<open>VIF_RES_COUNT\<close>, no wiring at all, is \<open>None\<close>.\<close>

datatype vif_res = VIF_RES_CAN | VIF_RES_KLINE | VIF_RES_J1850

definition bus_group :: "vif_bus \<Rightarrow> vif_res option" where
  "bus_group bus = (case bus of
       VIF_BUS_CAN \<Rightarrow> Some VIF_RES_CAN
     | VIF_BUS_KLINE \<Rightarrow> Some VIF_RES_KLINE
     | VIF_BUS_J1850_PWM \<Rightarrow> Some VIF_RES_J1850
     | VIF_BUS_J1850_VPW \<Rightarrow> Some VIF_RES_J1850
     | VIF_BUS_NONE \<Rightarrow> None)"

definition vif_bus_name :: "vif_bus \<Rightarrow> string" where
  "vif_bus_name bus = (case bus of
       VIF_BUS_CAN \<Rightarrow> ''CAN'' | VIF_BUS_KLINE \<Rightarrow> ''K-Line'' | VIF_BUS_J1850_PWM \<Rightarrow> ''J1850 PWM''
     | VIF_BUS_J1850_VPW \<Rightarrow> ''J1850 VPW'' | VIF_BUS_NONE \<Rightarrow> ''none'')"

definition vif_owner_name :: "vif_owner \<Rightarrow> string" where
  "vif_owner_name owner = (case owner of VIF_OWNER_LINK \<Rightarrow> ''link'' | VIF_OWNER_SHELL \<Rightarrow> ''shell'')"

record claim =
  cl_bus :: vif_bus
  cl_open :: bool
  cl_l_line_reserved :: bool
  cl_bitrate :: nat
  cl_owner :: vif_owner
  cl_tx_worker :: bool

text \<open>\<open>memset(&g.claim[i], 0, ...)\<close>.\<close>

definition claim_zero :: claim where
  "claim_zero = \<lparr>cl_bus = VIF_BUS_NONE, cl_open = False, cl_l_line_reserved = False, cl_bitrate = 0,
     cl_owner = VIF_OWNER_LINK, cl_tx_worker = False\<rparr>"

text \<open>What the connector sees: the drivers of \<open>main/board.c\<close> by OBD pin, the boost converter and
  the voltage asked of it, and the status LED.\<close>

record board =
  bd_hs :: "int \<Rightarrow> bool"
  bd_ls :: "int \<Rightarrow> bool"
  bd_boost :: bool
  bd_mv :: nat
  bd_led_live :: bool

definition board_set_hs_state :: "int \<Rightarrow> bool \<Rightarrow> board \<Rightarrow> board" where
  "board_set_hs_state pin on b = b\<lparr>bd_hs := (bd_hs b)(pin := on)\<rparr>"

definition board_set_ls_state :: "int \<Rightarrow> bool \<Rightarrow> board \<Rightarrow> board" where
  "board_set_ls_state pin on b = b\<lparr>bd_ls := (bd_ls b)(pin := on)\<rparr>"

definition board_set_hs_boost_en :: "bool \<Rightarrow> board \<Rightarrow> board" where
  "board_set_hs_boost_en on b = b\<lparr>bd_boost := on\<rparr>"

definition board_set_hs_voltage :: "nat \<Rightarrow> board \<Rightarrow> board" where
  "board_set_hs_voltage mv b = b\<lparr>bd_mv := (if mv = 0 then 0 else min 20000 (max 5000 mv))\<rparr>"

definition board_hs_ls_reset_state :: "board \<Rightarrow> board" where
  "board_hs_ls_reset_state b = b\<lparr>bd_boost := False, bd_mv := 0,
     bd_hs := (bd_hs b)(6 := False, 9 := False, 11 := False, 12 := False, 13 := False, 14 := False),
     bd_ls := (bd_ls b)(15 := False)\<rparr>"

record vif =
  v_task :: "vif_owner \<Rightarrow> nat option"
  v_recover_req :: "vif_owner \<Rightarrow> bool"
  v_release_req :: "vif_owner \<Rightarrow> bool"
  v_claim :: "vif_res \<Rightarrow> claim"
  v_hs_pin :: int
  v_ls_pin :: int
  v_hs_owner :: vif_owner
  v_ls_owner :: vif_owner
  v_pins_calibrating :: bool
  v_board :: board

definition vif_init :: "vif \<Rightarrow> vif" where
  "vif_init g =
     (let g = g\<lparr>v_task := (\<lambda>_. None), v_recover_req := (\<lambda>_. False), v_release_req := (\<lambda>_. False),
        v_claim := (\<lambda>_. claim_zero), v_hs_pin := -1, v_ls_pin := -1, v_pins_calibrating := False\<rparr>
      in g\<lparr>v_board := board_hs_ls_reset_state (v_board g)\<rparr>)"

abbreviation upd_claim :: "vif_res \<Rightarrow> (claim \<Rightarrow> claim) \<Rightarrow> vif \<Rightarrow> vif" where
  "upd_claim r f g \<equiv> g\<lparr>v_claim := (v_claim g)(r := f (v_claim g r))\<rparr>"

definition on_owner_thread :: "nat \<Rightarrow> vif_owner \<Rightarrow> vif \<Rightarrow> bool" where
  "on_owner_thread me owner g \<longleftrightarrow> v_task g owner = Some me"

definition vif_shell_bind :: "nat \<Rightarrow> vif \<Rightarrow> vif" where
  "vif_shell_bind me g = g\<lparr>v_task := (v_task g)(VIF_OWNER_SHELL := Some me)\<rparr>"

section \<open>Pins\<close>

definition led_refresh_locked :: "vif \<Rightarrow> vif" where
  "led_refresh_locked g =
     g\<lparr>v_board := (v_board g)\<lparr>bd_led_live := v_hs_pin g \<noteq> -1 \<or> v_ls_pin g \<noteq> -1\<rparr>\<rparr>"

definition hs_release_locked :: "vif \<Rightarrow> vif" where
  "hs_release_locked g =
     (if v_hs_pin g = -1 then g
      else g\<lparr>v_board := board_set_hs_voltage 0 (board_set_hs_boost_en False
          (board_set_hs_state (v_hs_pin g) False (v_board g))), v_hs_pin := -1\<rparr>)"

definition ls_release_locked :: "vif \<Rightarrow> vif" where
  "ls_release_locked g =
     (if v_ls_pin g = -1 then g
      else g\<lparr>v_board := board_set_ls_state (v_ls_pin g) False (v_board g), v_ls_pin := -1\<rparr>)"

definition high_side :: "int \<Rightarrow> bool" where
  "high_side pin \<longleftrightarrow> pin = 6 \<or> pin = 9 \<or> pin = 11 \<or> pin = 12 \<or> pin = 13 \<or> pin = 14"

text \<open>The stock board: no low side driver on pin 9.\<close>

definition low_side :: "int \<Rightarrow> bool" where "low_side pin \<longleftrightarrow> pin = 15"

definition vif_pin_set :: "vif_owner \<Rightarrow> int \<Rightarrow> vif_pin_mode \<Rightarrow> nat \<Rightarrow> vif \<Rightarrow> vif \<times> esp_err" where
  "vif_pin_set owner pin m mv g =
     (if \<not> high_side pin \<and> \<not> low_side pin then (g, ESP_ERR_INVALID_ARG)
      else if (m = VIF_PIN_VOLTAGE \<and> \<not> high_side pin) \<or> (m = VIF_PIN_GROUND \<and> \<not> low_side pin)
      then (g, ESP_ERR_INVALID_ARG)
      else case m of
          VIF_PIN_OFF \<Rightarrow>
            if (v_hs_pin g = pin \<and> v_hs_owner g \<noteq> owner) \<or> (v_ls_pin g = pin \<and> v_ls_owner g \<noteq> owner)
            then (g, ESP_ERR_INVALID_STATE)
            else
              let g = (if v_hs_pin g = pin then hs_release_locked g else g);
                  g = (if v_ls_pin g = pin then ls_release_locked g else g)
              in (led_refresh_locked g, ESP_OK)
        | VIF_PIN_VOLTAGE \<Rightarrow>
            if v_ls_pin g = pin then (g, ESP_ERR_INVALID_STATE)
            else if v_hs_pin g \<noteq> -1 \<and> (v_hs_pin g \<noteq> pin \<or> v_hs_owner g \<noteq> owner)
            then (g, ESP_ERR_INVALID_STATE)
            else
              (led_refresh_locked (g\<lparr>v_board := board_set_hs_state pin True (board_set_hs_boost_en True
                 (board_set_hs_voltage mv (v_board g))), v_hs_pin := pin, v_hs_owner := owner\<rparr>), ESP_OK)
        | VIF_PIN_GROUND \<Rightarrow>
            if pin = 15 \<and> cl_l_line_reserved (v_claim g VIF_RES_KLINE) then (g, ESP_ERR_INVALID_STATE)
            else if v_hs_pin g = pin then (g, ESP_ERR_INVALID_STATE)
            else if v_ls_pin g \<noteq> -1 \<and> (v_ls_pin g \<noteq> pin \<or> v_ls_owner g \<noteq> owner)
            then (g, ESP_ERR_INVALID_STATE)
            else
              (led_refresh_locked (g\<lparr>v_board := board_set_ls_state pin True (v_board g),
                 v_ls_pin := pin, v_ls_owner := owner\<rparr>), ESP_OK))"

definition vif_pin_release_all :: "vif_owner \<Rightarrow> vif \<Rightarrow> vif" where
  "vif_pin_release_all owner g =
     (let g = (if v_hs_pin g \<noteq> -1 \<and> v_hs_owner g = owner then hs_release_locked g else g);
          g = (if v_ls_pin g \<noteq> -1 \<and> v_ls_owner g = owner then ls_release_locked g else g)
      in led_refresh_locked g)"

definition vif_any_pin_active :: "vif \<Rightarrow> bool" where
  "vif_any_pin_active g \<longleftrightarrow> v_hs_pin g \<noteq> -1 \<or> v_ls_pin g \<noteq> -1"

definition pins_claim_for_calibration :: "vif_owner \<Rightarrow> vif \<Rightarrow> vif \<times> esp_err" where
  "pins_claim_for_calibration owner g =
     (if cl_l_line_reserved (v_claim g VIF_RES_KLINE) \<or> v_pins_calibrating g then (g, ESP_ERR_INVALID_STATE)
      else if (v_hs_pin g \<noteq> -1 \<and> v_hs_owner g \<noteq> owner) \<or> (v_ls_pin g \<noteq> -1 \<and> v_ls_owner g \<noteq> owner)
      then (g, ESP_ERR_INVALID_STATE)
      else
        let g = ls_release_locked (hs_release_locked g)
        in (led_refresh_locked (g\<lparr>v_hs_owner := owner, v_hs_pin := 12, v_pins_calibrating := True\<rparr>), ESP_OK))"

definition pins_drop_after_calibration :: "vif_owner \<Rightarrow> vif \<Rightarrow> vif" where
  "pins_drop_after_calibration owner g =
     (let g = g\<lparr>v_pins_calibrating := False\<rparr>;
          g = (if v_hs_pin g \<noteq> -1 \<and> v_hs_owner g = owner then g\<lparr>v_hs_pin := -1\<rparr> else g)
      in led_refresh_locked g)"

text \<open>The two ends of \<open>board_calibrate_hs\<close>, between which it waits for a person.\<close>

definition board_calibrate_begin :: "board \<Rightarrow> board" where
  "board_calibrate_begin b =
     board_set_hs_state 12 True (board_set_hs_boost_en True (board_hs_ls_reset_state b))"

definition board_calibrate_end :: "board \<Rightarrow> board" where
  "board_calibrate_end b = board_hs_ls_reset_state b"

section \<open>The critical sections of the bus operations\<close>

text \<open>
  Each part of an operation that runs under the claim lock is one function. A driver call stands
  between two of them and is made with the lock released.
\<close>

text \<open>\<open>vif_bus_open\<close>, up to the first release of the lock: the bus to take down first.\<close>

definition open_reserve :: "nat \<Rightarrow> vif_owner \<Rightarrow> vif_bus \<Rightarrow> vif \<Rightarrow> vif \<times> (esp_err + vif_bus)" where
  "open_reserve me owner bus g = (case bus_group bus of
       None \<Rightarrow> (g, Inl ESP_ERR_INVALID_ARG)
     | Some grp \<Rightarrow>
         if \<not> on_owner_thread me owner g then (g, Inl ESP_ERR_INVALID_STATE)
         else if cl_bus (v_claim g grp) \<noteq> VIF_BUS_NONE \<and> cl_owner (v_claim g grp) \<noteq> owner
         then (g, Inl ESP_ERR_INVALID_STATE)
         else
           let old = cl_bus (v_claim g grp);
               g = upd_claim grp (\<lambda>c. c\<lparr>cl_open := False\<rparr>) g
           in if old = VIF_BUS_NONE
              then (upd_claim grp (\<lambda>c. c\<lparr>cl_bus := bus, cl_owner := owner\<rparr>) g, Inr old)
              else (g, Inr old))"

definition open_claim :: "vif_owner \<Rightarrow> vif_bus \<Rightarrow> nat \<Rightarrow> vif_res \<Rightarrow> vif \<Rightarrow> vif" where
  "open_claim owner bus bitrate grp = upd_claim grp (\<lambda>c.
     c\<lparr>cl_bus := bus, cl_l_line_reserved := False, cl_bitrate := bitrate, cl_owner := owner\<rparr>)"

definition open_finish :: "vif_res \<Rightarrow> esp_err \<Rightarrow> esp_err \<Rightarrow> vif \<Rightarrow> vif" where
  "open_finish grp err cleanup =
     (if err = ESP_OK then upd_claim grp (\<lambda>c. c\<lparr>cl_open := True\<rparr>)
      else if cleanup = ESP_OK then upd_claim grp (\<lambda>_. claim_zero)
      else (\<lambda>g. g))"

text \<open>\<open>vif_bus_close\<close>: done already, or the bus to take down.\<close>

definition close_begin :: "nat \<Rightarrow> vif_owner \<Rightarrow> vif_bus \<Rightarrow> vif \<Rightarrow> vif \<times> (esp_err + vif_bus)" where
  "close_begin me owner bus g = (case bus_group bus of
       None \<Rightarrow> (g, Inl ESP_ERR_INVALID_ARG)
     | Some grp \<Rightarrow>
         if \<not> on_owner_thread me owner g then (g, Inl ESP_ERR_INVALID_STATE)
         else if cl_bus (v_claim g grp) = VIF_BUS_NONE then (g, Inl ESP_OK)
         else if cl_owner (v_claim g grp) \<noteq> owner then (g, Inl ESP_ERR_INVALID_STATE)
         else (upd_claim grp (\<lambda>c. c\<lparr>cl_open := False\<rparr>) g, Inr (cl_bus (v_claim g grp))))"

definition close_finish :: "vif_res \<Rightarrow> esp_err \<Rightarrow> vif \<Rightarrow> vif" where
  "close_finish grp err = (if err = ESP_OK then upd_claim grp (\<lambda>_. claim_zero) else (\<lambda>g. g))"

text \<open>One round of the loop of \<open>vif_bus_release_all\<close>: nothing to do, or the bus to take down.\<close>

definition release_begin :: "vif_owner \<Rightarrow> vif_res \<Rightarrow> vif \<Rightarrow> vif \<times> vif_bus option" where
  "release_begin owner grp g =
     (if cl_bus (v_claim g grp) = VIF_BUS_NONE \<or> cl_owner (v_claim g grp) \<noteq> owner then (g, None)
      else (upd_claim grp (\<lambda>c. c\<lparr>cl_open := False\<rparr>) g, Some (cl_bus (v_claim g grp))))"

definition vif_bus_current :: "vif_owner \<Rightarrow> vif_bus \<Rightarrow> vif \<Rightarrow> vif_bus" where
  "vif_bus_current owner bus g = (case bus_group bus of
       None \<Rightarrow> VIF_BUS_NONE
     | Some grp \<Rightarrow> if cl_owner (v_claim g grp) = owner then cl_bus (v_claim g grp) else VIF_BUS_NONE)"

definition vif_bus_is_open :: "vif_owner \<Rightarrow> vif_bus \<Rightarrow> vif \<Rightarrow> bool" where
  "vif_bus_is_open owner bus g = (case bus_group bus of
       None \<Rightarrow> False
     | Some grp \<Rightarrow> cl_owner (v_claim g grp) = owner \<and> cl_bus (v_claim g grp) = bus \<and> cl_open (v_claim g grp))"

definition bus_owned_by :: "nat \<Rightarrow> vif_owner \<Rightarrow> vif_bus \<Rightarrow> vif \<Rightarrow> bool" where
  "bus_owned_by me owner bus g = (case bus_group bus of
       None \<Rightarrow> False
     | Some grp \<Rightarrow> on_owner_thread me owner g \<and> cl_bus (v_claim g grp) = bus \<and>
         cl_owner (v_claim g grp) = owner \<and> cl_open (v_claim g grp))"

definition vif_bus_info :: "vif \<Rightarrow> (vif_bus \<times> nat \<times> vif_owner) list" where
  "vif_bus_info g = map (\<lambda>r. (cl_bus (v_claim g r), cl_bitrate (v_claim g r), cl_owner (v_claim g r)))
     [VIF_RES_CAN, VIF_RES_KLINE, VIF_RES_J1850]"

text \<open>\<open>kline_set_only_with_pin_claim\<close>: refused, or what was reserved before; and after the driver.\<close>

definition set_only_reserve :: "bool \<Rightarrow> vif \<Rightarrow> vif \<times> bool option" where
  "set_only_reserve enable_l_line g =
     (let was = cl_l_line_reserved (v_claim g VIF_RES_KLINE) in
      if enable_l_line \<and> (v_ls_pin g = 15 \<or> v_pins_calibrating g) then (g, None)
      else (upd_claim VIF_RES_KLINE (\<lambda>c. c\<lparr>cl_l_line_reserved := was \<or> enable_l_line\<rparr>) g, Some was))"

definition set_only_finish :: "bool \<Rightarrow> bool \<Rightarrow> int \<Rightarrow> vif \<Rightarrow> vif" where
  "set_only_finish enable_l_line was rc = upd_claim VIF_RES_KLINE (\<lambda>c.
     c\<lparr>cl_l_line_reserved := (if rc = 0 then enable_l_line else was)\<rparr>)"

section \<open>Requests\<close>

definition vif_recover_all :: "vif \<Rightarrow> vif" where
  "vif_recover_all g = g\<lparr>v_recover_req := (\<lambda>_. True)\<rparr>"

text \<open>The flags \<open>vif_owner_service\<close> takes: recover and release, if there is anything to do.\<close>

definition service_take :: "nat \<Rightarrow> vif_owner \<Rightarrow> vif \<Rightarrow> vif \<times> (bool \<times> bool) option" where
  "service_take me owner g =
     (if \<not> on_owner_thread me owner g then (g, None)
      else if \<not> v_recover_req g owner \<and> \<not> v_release_req g owner then (g, None)
      else (g\<lparr>v_recover_req := (v_recover_req g)(owner := False),
              v_release_req := (v_release_req g)(owner := False)\<rparr>,
            Some (v_recover_req g owner, v_release_req g owner)))"

definition service_put_back :: "vif_owner \<Rightarrow> bool \<Rightarrow> vif \<Rightarrow> vif" where
  "service_put_back owner recover g =
     g\<lparr>v_release_req := (v_release_req g)(owner := True),
       v_recover_req := (v_recover_req g)(owner := v_recover_req g owner \<or> recover)\<rparr>"

section \<open>The operations\<close>

text \<open>
  The drivers and the transmit workers as functions on a state of their own. \<open>None\<close> for a
  parameter operation is a \<open>NULL\<close> entry of the driver's table.
\<close>

record bus_cfg =
  bc_bitrate :: nat
  bc_manual_recovery :: bool

text \<open>The structure of the two initialisation requests, filled in by the driver, and what a session
  negotiated. A request of a driver takes nothing, one byte, a message or such a structure, and gives
  back the object it was given or the one it filled in.\<close>

definition BUS_IOCTL_FIVE_BAUD_INIT :: u32w where "BUS_IOCTL_FIVE_BAUD_INIT = 0x04"
definition BUS_IOCTL_FAST_INIT :: u32w where "BUS_IOCTL_FAST_INIT = 0x05"
definition BUS_IOCTL_CLEAR_TX_QUEUE :: u32w where "BUS_IOCTL_CLEAR_TX_QUEUE = 0x07"
definition BUS_IOCTL_CLEAR_RX_QUEUE :: u32w where "BUS_IOCTL_CLEAR_RX_QUEUE = 0x08"
definition BUS_IOCTL_CLEAR_PERIODIC :: u32w where "BUS_IOCTL_CLEAR_PERIODIC = 0x09"
definition BUS_IOCTL_CLEAR_FUNCT_TABLE :: u32w where "BUS_IOCTL_CLEAR_FUNCT_TABLE = 0x0B"
definition BUS_IOCTL_ADD_FUNCT_ADDR :: u32w where "BUS_IOCTL_ADD_FUNCT_ADDR = 0x0C"
definition BUS_IOCTL_DEL_FUNCT_ADDR :: u32w where "BUS_IOCTL_DEL_FUNCT_ADDR = 0x0D"
definition BUS_IOCTL_BUS_ON :: u32w where "BUS_IOCTL_BUS_ON = 0x0F"
definition BUS_IOCTL_SET_PERIODIC :: u32w where "BUS_IOCTL_SET_PERIODIC = 0x10000"
definition BUS_IOCTL_STOP_COMM :: u32w where "BUS_IOCTL_STOP_COMM = 0x10001"
definition BUS_IOCTL_GET_LINK :: u32w where "BUS_IOCTL_GET_LINK = 0x10002"
definition BUS_IOCTL_ASSUME_LINK :: u32w where "BUS_IOCTL_ASSUME_LINK = 0x10003"
definition BUS_PERIODIC_MAX :: nat where "BUS_PERIODIC_MAX = 6"
definition BUS_INIT_MSG_MAX :: nat where "BUS_INIT_MSG_MAX = 260"

record bus_init =
  bi_address :: byte
  bi_msg :: "byte list"
  bi_msg_len :: nat
  bi_raw_response :: bool
  bi_no_response :: bool
  bi_tx_flags :: u32w
  bi_key :: "byte list"
  bi_reply :: "byte list"
  bi_reply_len :: nat
  bi_reply_timestamp_us :: u32w

record bus_link =
  bl_connected :: bool
  bl_variant :: byte
  bl_key :: "byte list"
  bl_key_code :: nat
  bl_address :: byte
  bl_baud :: nat
  bl_w1_us :: u32w
  bl_w2_us :: u32w
  bl_w3_us :: u32w
  bl_w4_us :: u32w

datatype ioctl_arg = NoArg | ByteArg byte | InitArg bus_init | MsgArg bus_msg | LinkArg bus_link

record 'd vif_env =
  ev_open :: "vif_bus \<Rightarrow> bus_cfg option \<Rightarrow> 'd \<Rightarrow> 'd \<times> esp_err"
  ev_close :: "vif_bus \<Rightarrow> 'd \<Rightarrow> 'd \<times> esp_err"
  ev_send :: "vif_bus \<Rightarrow> bus_msg \<Rightarrow> u32w \<Rightarrow> 'd \<Rightarrow> 'd \<times> int"
  ev_recv :: "vif_bus \<Rightarrow> nat \<Rightarrow> nat \<Rightarrow> 'd \<Rightarrow> 'd \<times> int \<times> bus_msg"
  ev_set_param :: "vif_bus \<Rightarrow> (u32w \<Rightarrow> u32w \<Rightarrow> 'd \<Rightarrow> 'd \<times> int) option"
  ev_get_param :: "vif_bus \<Rightarrow> (u32w \<Rightarrow> 'd \<Rightarrow> 'd \<times> int \<times> u32w) option"
  ev_worker_create :: "vif_bus \<Rightarrow> 'd \<Rightarrow> 'd \<times> bool"
  ev_worker_submit :: "vif_res \<Rightarrow> bus_msg \<Rightarrow> u32w \<Rightarrow> u32w \<Rightarrow> 'd \<Rightarrow> 'd \<times> int"
  ev_worker_wait :: "vif_res \<Rightarrow> 'd \<Rightarrow> 'd \<times> int"
  ev_worker_close :: "vif_res \<Rightarrow> 'd \<Rightarrow> 'd \<times> esp_err"
  ev_worker_poll :: "vif_res \<Rightarrow> 'd \<Rightarrow> 'd \<times> bus_tx_result option"
  ev_worker_cancel :: "vif_res \<Rightarrow> 'd \<Rightarrow> 'd"
  ev_ioctl :: "vif_bus \<Rightarrow> (nat \<Rightarrow> ioctl_arg \<Rightarrow> 'd \<Rightarrow> 'd \<times> int \<times> ioctl_arg) option"

definition bus_driver_up :: "'d vif_env \<Rightarrow> vif_bus \<Rightarrow> bus_cfg option \<Rightarrow> vif \<times> 'd \<Rightarrow> (vif \<times> 'd) \<times> esp_err" where
  "bus_driver_up ev bus cfg = (\<lambda>(g, d). case bus_group bus of
       None \<Rightarrow> ((g, d), ESP_ERR_INVALID_ARG)
     | Some _ \<Rightarrow> (let (d, err) = ev_open ev bus cfg d in ((g, d), err)))"

text \<open>A worker that was never made closes at once.\<close>

definition bus_driver_down :: "'d vif_env \<Rightarrow> vif_bus \<Rightarrow> vif \<times> 'd \<Rightarrow> (vif \<times> 'd) \<times> esp_err" where
  "bus_driver_down ev bus = (\<lambda>(g, d). case bus_group bus of
       None \<Rightarrow> ((g, d), ESP_ERR_INVALID_ARG)
     | Some grp \<Rightarrow>
         let (d, rc) = (if cl_tx_worker (v_claim g grp) then ev_worker_close ev grp d else (d, ESP_OK))
         in if rc \<noteq> ESP_OK then ((g, d), rc)
            else
              let g = upd_claim grp (\<lambda>c. c\<lparr>cl_tx_worker := False\<rparr>) g;
                  (d, err) = ev_close ev bus d
              in ((g, d), err))"

definition vif_bus_open ::
  "'d vif_env \<Rightarrow> nat \<Rightarrow> vif_owner \<Rightarrow> vif_bus \<Rightarrow> bus_cfg option \<Rightarrow> vif \<times> 'd \<Rightarrow> (vif \<times> 'd) \<times> esp_err" where
  "vif_bus_open ev me owner bus cfg = (\<lambda>(g, d). case bus_group bus of
       None \<Rightarrow> ((g, d), ESP_ERR_INVALID_ARG)
     | Some grp \<Rightarrow> (case open_reserve me owner bus g of
         (g, Inl err) \<Rightarrow> ((g, d), err)
       | (g, Inr old) \<Rightarrow>
           let ((g, d), err) =
             (if old \<noteq> VIF_BUS_NONE then bus_driver_down ev old (g, d) else ((g, d), ESP_OK))
           in if err \<noteq> ESP_OK then ((g, d), err)
              else
                let g = open_claim owner bus (case cfg of None \<Rightarrow> 0 | Some c \<Rightarrow> bc_bitrate c) grp g;
                    ((g, d), err) = bus_driver_up ev bus cfg (g, d);
                    ((g, d), cleanup) = (if err = ESP_OK then ((g, d), ESP_OK) else bus_driver_down ev bus (g, d))
                in ((open_finish grp err cleanup g, d), err)))"

definition vif_bus_close ::
  "'d vif_env \<Rightarrow> nat \<Rightarrow> vif_owner \<Rightarrow> vif_bus \<Rightarrow> vif \<times> 'd \<Rightarrow> (vif \<times> 'd) \<times> esp_err" where
  "vif_bus_close ev me owner bus = (\<lambda>(g, d). case bus_group bus of
       None \<Rightarrow> ((g, d), ESP_ERR_INVALID_ARG)
     | Some grp \<Rightarrow> (case close_begin me owner bus g of
         (g, Inl err) \<Rightarrow> ((g, d), err)
       | (g, Inr held) \<Rightarrow>
           let ((g, d), err) = bus_driver_down ev held (g, d)
           in ((close_finish grp err g, d), err)))"

fun release_loop ::
  "'d vif_env \<Rightarrow> vif_owner \<Rightarrow> vif_res list \<Rightarrow> vif \<times> 'd \<Rightarrow> esp_err \<Rightarrow> (vif \<times> 'd) \<times> esp_err" where
  "release_loop ev owner [] gd result = (gd, result)"
| "release_loop ev owner (grp # grps) (g, d) result = (case release_begin owner grp g of
       (g, None) \<Rightarrow> release_loop ev owner grps (g, d) result
     | (g, Some held) \<Rightarrow>
         let ((g, d), err) = bus_driver_down ev held (g, d)
         in release_loop ev owner grps (close_finish grp err g, d) (if err = ESP_OK then result else err))"

definition all_res :: "vif_res list" where "all_res = [VIF_RES_CAN, VIF_RES_KLINE, VIF_RES_J1850]"

definition vif_bus_release_all ::
  "'d vif_env \<Rightarrow> nat \<Rightarrow> vif_owner \<Rightarrow> vif \<times> 'd \<Rightarrow> (vif \<times> 'd) \<times> esp_err" where
  "vif_bus_release_all ev me owner = (\<lambda>(g, d).
     if \<not> on_owner_thread me owner g
     then ((g\<lparr>v_release_req := (v_release_req g)(owner := True)\<rparr>, d), ESP_OK)
     else release_loop ev owner all_res (g, d) ESP_OK)"

text \<open>\<open>vif_owner_service\<close>: whether anything was done, and whether the link's grammar goes back.\<close>

definition vif_owner_service ::
  "'d vif_env \<Rightarrow> nat \<Rightarrow> vif_owner \<Rightarrow> vif \<times> 'd \<Rightarrow> (vif \<times> 'd) \<times> bool \<times> bool" where
  "vif_owner_service ev me owner = (\<lambda>(g, d). case service_take me owner g of
       (g, None) \<Rightarrow> ((g, d), False, False)
     | (g, Some (recover, release)) \<Rightarrow>
         let ((g, d), err) = vif_bus_release_all ev me owner (g, d);
             g = vif_pin_release_all owner g
         in if err \<noteq> ESP_OK then ((service_put_back owner recover g, d), True, False)
            else ((g, d), True, recover \<and> owner = VIF_OWNER_LINK))"

text \<open>Transfers. \<open>None\<close> stands for a message without data.\<close>

definition vif_bus_send ::
  "'d vif_env \<Rightarrow> nat \<Rightarrow> vif_owner \<Rightarrow> vif_bus \<Rightarrow> bus_msg option \<Rightarrow> u32w \<Rightarrow> vif \<times> 'd \<Rightarrow> (vif \<times> 'd) \<times> int" where
  "vif_bus_send ev me owner bus msg flags = (\<lambda>(g, d). case (msg, bus_group bus) of
       (Some m, Some grp) \<Rightarrow>
         if \<not> bus_owned_by me owner bus g then ((g, d), VIF_ERR_NO_CLAIM)
         else
           let (d, rc) = (if cl_tx_worker (v_claim g grp) then ev_worker_wait ev grp d else (d, 0))
           in if rc \<noteq> 0 then ((g, d), rc)
              else (let (d, rc) = ev_send ev bus m flags d in ((g, d), rc))
     | _ \<Rightarrow> ((g, d), VIF_ERR_NO_CLAIM))"

definition vif_bus_submit ::
  "'d vif_env \<Rightarrow> nat \<Rightarrow> vif_owner \<Rightarrow> vif_bus \<Rightarrow> bus_msg \<Rightarrow> u32w \<Rightarrow> u32w \<Rightarrow> vif \<times> 'd \<Rightarrow> (vif \<times> 'd) \<times> int" where
  "vif_bus_submit ev me owner bus msg flags rx_sequence = (\<lambda>(g, d). case bus_group bus of
       None \<Rightarrow> ((g, d), VIF_ERR_NO_CLAIM)
     | Some grp \<Rightarrow>
         if \<not> bus_owned_by me owner bus g then ((g, d), VIF_ERR_NO_CLAIM)
         else
           let (d, ok) = (if cl_tx_worker (v_claim g grp) then (d, True) else ev_worker_create ev bus d)
           in if \<not> ok then ((g, d), BUS_ERR_NO_SPACE)
              else
                let (d, rc) = ev_worker_submit ev grp msg flags rx_sequence d
                in ((upd_claim grp (\<lambda>c. c\<lparr>cl_tx_worker := True\<rparr>) g, d), rc))"

definition vif_bus_recv ::
  "'d vif_env \<Rightarrow> nat \<Rightarrow> vif_owner \<Rightarrow> vif_bus \<Rightarrow> nat \<Rightarrow> nat \<Rightarrow> vif \<times> 'd \<Rightarrow> (vif \<times> 'd) \<times> int \<times> bus_msg option" where
  "vif_bus_recv ev me owner bus cap wait = (\<lambda>(g, d).
     if bus_group bus = None \<or> \<not> bus_owned_by me owner bus g then ((g, d), VIF_ERR_NO_CLAIM, None)
     else if cap = 0 then ((g, d), BUS_ERR_BAD_ARG, None)
     else (let (d, rc, m) = ev_recv ev bus cap wait d in ((g, d), rc, Some m)))"

definition vif_bus_param_set ::
  "'d vif_env \<Rightarrow> nat \<Rightarrow> vif_owner \<Rightarrow> vif_bus \<Rightarrow> u32w \<Rightarrow> u32w \<Rightarrow> vif \<times> 'd \<Rightarrow> (vif \<times> 'd) \<times> int" where
  "vif_bus_param_set ev me owner bus p value = (\<lambda>(g, d). case bus_group bus of
       None \<Rightarrow> ((g, d), VIF_ERR_NO_CLAIM)
     | Some grp \<Rightarrow>
         if \<not> bus_owned_by me owner bus g then ((g, d), VIF_ERR_NO_CLAIM)
         else
           let (d, pending) = (if cl_tx_worker (v_claim g grp) then ev_worker_wait ev grp d else (d, 0))
           in if pending \<noteq> 0 then ((g, d), pending)
              else case ev_set_param ev bus of
                  None \<Rightarrow> ((g, d), BUS_ERR_UNSUPPORTED)
                | Some setter \<Rightarrow>
                    if bus = VIF_BUS_KLINE \<and> p = bus_param_num BUS_P_K_LINE_ONLY
                    then (case set_only_reserve (value = 0) g of
                        (g, None) \<Rightarrow> ((g, d), BUS_ERR_BUS_BUSY)
                      | (g, Some was) \<Rightarrow>
                          let (d, rc) = setter p value d in ((set_only_finish (value = 0) was rc g, d), rc))
                    else (let (d, rc) = setter p value d in ((g, d), rc)))"

definition vif_bus_param_get ::
  "'d vif_env \<Rightarrow> nat \<Rightarrow> vif_owner \<Rightarrow> vif_bus \<Rightarrow> u32w \<Rightarrow> vif \<times> 'd \<Rightarrow> (vif \<times> 'd) \<times> int \<times> u32w option" where
  "vif_bus_param_get ev me owner bus p = (\<lambda>(g, d). case bus_group bus of
       None \<Rightarrow> ((g, d), VIF_ERR_NO_CLAIM, None)
     | Some grp \<Rightarrow>
         if \<not> bus_owned_by me owner bus g then ((g, d), VIF_ERR_NO_CLAIM, None)
         else
           let (d, pending) = (if cl_tx_worker (v_claim g grp) then ev_worker_wait ev grp d else (d, 0))
           in if pending \<noteq> 0 then ((g, d), pending, None)
              else case ev_get_param ev bus of
                  None \<Rightarrow> ((g, d), BUS_ERR_UNSUPPORTED, None)
                | Some getter \<Rightarrow> (let (d, rc, x) = getter p d in ((g, d), rc, Some x)))"

text \<open>A worker that was never made has no result, nothing to wait for and nothing to cancel.\<close>

definition vif_bus_tx_poll ::
  "'d vif_env \<Rightarrow> nat \<Rightarrow> vif_owner \<Rightarrow> vif_bus \<Rightarrow> vif \<times> 'd \<Rightarrow> (vif \<times> 'd) \<times> bus_tx_result option" where
  "vif_bus_tx_poll ev me owner bus = (\<lambda>(g, d). case bus_group bus of
       None \<Rightarrow> ((g, d), None)
     | Some grp \<Rightarrow>
         if bus_owned_by me owner bus g \<and> cl_tx_worker (v_claim g grp)
         then (let (d, r) = ev_worker_poll ev grp d in ((g, d), r)) else ((g, d), None))"

definition vif_bus_tx_wait ::
  "'d vif_env \<Rightarrow> nat \<Rightarrow> vif_owner \<Rightarrow> vif_bus \<Rightarrow> vif \<times> 'd \<Rightarrow> (vif \<times> 'd) \<times> int" where
  "vif_bus_tx_wait ev me owner bus = (\<lambda>(g, d). case bus_group bus of
       None \<Rightarrow> ((g, d), VIF_ERR_NO_CLAIM)
     | Some grp \<Rightarrow>
         if \<not> bus_owned_by me owner bus g then ((g, d), VIF_ERR_NO_CLAIM)
         else (let (d, rc) = (if cl_tx_worker (v_claim g grp) then ev_worker_wait ev grp d else (d, 0))
               in ((g, d), rc)))"

definition vif_bus_tx_cancel ::
  "'d vif_env \<Rightarrow> nat \<Rightarrow> vif_owner \<Rightarrow> vif_bus \<Rightarrow> vif \<times> 'd \<Rightarrow> vif \<times> 'd" where
  "vif_bus_tx_cancel ev me owner bus = (\<lambda>(g, d). case bus_group bus of
       None \<Rightarrow> (g, d)
     | Some grp \<Rightarrow>
         if bus_owned_by me owner bus g \<and> cl_tx_worker (v_claim g grp)
         then (g, ev_worker_cancel ev grp d) else (g, d))"

definition vif_bus_ioctl ::
  "'d vif_env \<Rightarrow> nat \<Rightarrow> vif_owner \<Rightarrow> vif_bus \<Rightarrow> nat \<Rightarrow> ioctl_arg \<Rightarrow> vif \<times> 'd \<Rightarrow>
   (vif \<times> 'd) \<times> int \<times> ioctl_arg" where
  "vif_bus_ioctl ev me owner bus i arg = (\<lambda>(g, d). case bus_group bus of
       None \<Rightarrow> ((g, d), VIF_ERR_NO_CLAIM, arg)
     | Some grp \<Rightarrow>
         if \<not> bus_owned_by me owner bus g then ((g, d), VIF_ERR_NO_CLAIM, arg)
         else
           let (d, pending) = (if cl_tx_worker (v_claim g grp) then ev_worker_wait ev grp d else (d, 0))
           in if pending \<noteq> 0 then ((g, d), pending, arg)
              else case ev_ioctl ev bus of
                  None \<Rightarrow> ((g, d), BUS_ERR_UNSUPPORTED, arg)
                | Some f \<Rightarrow> (let (d, rc, arg) = f i arg d in ((g, d), rc, arg)))"

text \<open>
  \<open>vif_bus_stats\<close> and \<open>vif_bus_reset_stats\<close> ask for no claim and no thread: the counters of a driver
  may be read by anybody, at any time. The operations table has the two pointers, which may be
  \<open>NULL\<close>; \<open>out\<close> is whether the caller gives room for the counters.
\<close>

record ('d, 'st) stats_ops =
  so_get_stats :: "('d \<Rightarrow> 'd \<times> 'st) option"
  so_reset_stats :: "('d \<Rightarrow> 'd) option"

definition vif_bus_stats ::
  "(vif_bus \<Rightarrow> ('d, 'st) stats_ops option) \<Rightarrow> vif_bus \<Rightarrow> bool \<Rightarrow> 'd \<Rightarrow> 'd \<times> 'st option \<times> int" where
  "vif_bus_stats ops bus out d = (case ops bus of
       None \<Rightarrow> (d, None, BUS_ERR_BAD_ARG)
     | Some t \<Rightarrow>
         if \<not> out then (d, None, BUS_ERR_BAD_ARG)
         else case so_get_stats t of
             None \<Rightarrow> (d, None, BUS_ERR_UNSUPPORTED)
           | Some f \<Rightarrow> (let (d, st) = f d in (d, Some st, 0)))"

definition vif_bus_reset_stats :: "(vif_bus \<Rightarrow> ('d, 'st) stats_ops option) \<Rightarrow> vif_bus \<Rightarrow> 'd \<Rightarrow> 'd \<times> int" where
  "vif_bus_reset_stats ops bus d = (case ops bus of
       None \<Rightarrow> (d, BUS_ERR_BAD_ARG)
     | Some t \<Rightarrow> (case so_reset_stats t of
           None \<Rightarrow> (d, BUS_ERR_UNSUPPORTED)
         | Some f \<Rightarrow> (f d, 0)))"

text \<open>\<open>vif_calibrate_hs\<close> without its wait for a person.\<close>

definition vif_calibrate_hs :: "vif_owner \<Rightarrow> vif \<Rightarrow> vif \<times> esp_err" where
  "vif_calibrate_hs owner g = (case pins_claim_for_calibration owner g of (g, err) \<Rightarrow>
     if err \<noteq> ESP_OK then (g, err)
     else (pins_drop_after_calibration owner
       (g\<lparr>v_board := board_calibrate_end (board_calibrate_begin (v_board g))\<rparr>), ESP_OK))"

section \<open>What an operation leaves alone\<close>

definition holds :: "vif_owner \<Rightarrow> vif_res \<Rightarrow> vif \<Rightarrow> bool" where
  "holds owner grp g \<longleftrightarrow> cl_bus (v_claim g grp) \<noteq> VIF_BUS_NONE \<and> cl_owner (v_claim g grp) = owner"

lemma claim_zero_free [simp]: "cl_bus claim_zero = VIF_BUS_NONE"
  by (simp add: claim_zero_def)

lemma driver_down_claims:
  assumes "bus_driver_down ev bus (g, d) = ((g', d'), err)"
  shows "cl_bus (v_claim g' r) = cl_bus (v_claim g r) \<and> cl_owner (v_claim g' r) = cl_owner (v_claim g r) \<and>
    cl_open (v_claim g' r) = cl_open (v_claim g r) \<and>
    v_task g' = v_task g \<and> v_release_req g' = v_release_req g \<and> v_recover_req g' = v_recover_req g"
  using assms by (auto simp: bus_driver_down_def Let_def split: option.splits prod.splits if_splits)

lemma release_loop_effect:
  assumes "release_loop ev owner grps (g, d) res = ((g', d'), err)" "distinct grps"
  shows "(res = ESP_OK \<longrightarrow> err = ESP_OK \<longrightarrow> (\<forall>r \<in> set grps. \<not> holds owner r g')) \<and>
    (\<forall>r. r \<notin> set grps \<longrightarrow> holds owner r g' = holds owner r g) \<and> (res \<noteq> ESP_OK \<longrightarrow> err \<noteq> ESP_OK) \<and>
    (\<forall>r o'. o' \<noteq> owner \<longrightarrow> holds o' r g' = holds o' r g) \<and>
    v_task g' = v_task g \<and> v_release_req g' = v_release_req g \<and> v_recover_req g' = v_recover_req g"
  using assms
proof (induction grps arbitrary: g d res)
  case Nil
  then show ?case by auto
next
  case (Cons grp grps)
  show ?case
  proof (cases "holds owner grp g")
    case False
    then have "release_begin owner grp g = (g, None)" by (auto simp: release_begin_def holds_def)
    with Cons.prems have "release_loop ev owner grps (g, d) res = ((g', d'), err)" by simp
    from Cons.IH [OF this] Cons.prems(2) False show ?thesis by auto
  next
    case True
    let ?g = "upd_claim grp (\<lambda>c. c\<lparr>cl_open := False\<rparr>) g" and ?held = "cl_bus (v_claim g grp)"
    have rb: "release_begin owner grp g = (?g, Some ?held)" using True by (auto simp: release_begin_def holds_def)
    obtain g1 d1 e where down: "bus_driver_down ev ?held (?g, d) = ((g1, d1), e)"
      by (metis prod.exhaust)
    let ?g2 = "close_finish grp e g1"
    have loop: "release_loop ev owner grps (?g2, d1) (if e = ESP_OK then res else e) = ((g', d'), err)"
      using Cons.prems(1) by (simp add: rb down)
    note ih = Cons.IH [OF loop]
    note keep = driver_down_claims [OF down]
    have h1: "holds o' r g1 = holds o' r g" for o' r using keep [of r] by (auto simp: holds_def)
    have h2: "holds o' r ?g2 = (if e = ESP_OK \<and> r = grp then False else holds o' r g)" for o' r
      using h1 by (auto simp: close_finish_def holds_def)
    have f: "v_task ?g2 = v_task g \<and> v_release_req ?g2 = v_release_req g \<and> v_recover_req ?g2 = v_recover_req g"
      using keep by (auto simp: close_finish_def)
    have other: "\<not> holds o' grp g" if "o' \<noteq> owner" for o' using True that by (simp add: holds_def)
    show ?thesis using ih Cons.prems(2) h2 f other True by (cases "e = ESP_OK") auto
  qed
qed

lemma release_all_effect:
  assumes "vif_bus_release_all ev me owner (g, d) = ((g', d'), ESP_OK)" "on_owner_thread me owner g"
  shows "\<not> holds owner r g'"
  using assms release_loop_effect [of ev owner all_res g d ESP_OK g' d' ESP_OK]
  by (cases r) (auto simp: vif_bus_release_all_def all_res_def)

lemma pin_release_claims [simp]:
  "v_claim (vif_pin_release_all owner g) = v_claim g" "v_task (vif_pin_release_all owner g) = v_task g"
  "v_recover_req (vif_pin_release_all owner g) = v_recover_req g"
  "v_release_req (vif_pin_release_all owner g) = v_release_req g"
  by (simp_all add: vif_pin_release_all_def led_refresh_locked_def hs_release_locked_def
      ls_release_locked_def Let_def)

lemma pin_release_pins:
  "v_hs_pin (vif_pin_release_all owner g) = -1 \<or> v_hs_owner (vif_pin_release_all owner g) \<noteq> owner"
  "v_ls_pin (vif_pin_release_all owner g) = -1 \<or> v_ls_owner (vif_pin_release_all owner g) \<noteq> owner"
  by (auto simp: vif_pin_release_all_def led_refresh_locked_def hs_release_locked_def
      ls_release_locked_def Let_def)

text \<open>The bus of a claim is one of the claim's wiring.\<close>

definition claims_wf :: "vif \<Rightarrow> bool" where
  "claims_wf g \<longleftrightarrow> (\<forall>r. cl_bus (v_claim g r) \<noteq> VIF_BUS_NONE \<longrightarrow> bus_group (cl_bus (v_claim g r)) = Some r)"

lemma driver_down_others:
  assumes "bus_driver_down ev bus (g, d) = ((g', d'), err)" "bus_group bus = Some grp" "r \<noteq> grp"
  shows "v_claim g' r = v_claim g r"
  using assms by (auto simp: bus_driver_down_def Let_def split: prod.splits if_splits)

text \<open>Taking drivers down leaves the pins, and the claims the owner does not hold, wholly alone.\<close>

definition pins_of :: "vif \<Rightarrow> _" where
  "pins_of g = (v_hs_pin g, v_ls_pin g, v_hs_owner g, v_ls_owner g, v_pins_calibrating g, v_board g)"

lemma release_loop_frame:
  assumes "release_loop ev owner grps (g, d) res = ((g', d'), err)" "claims_wf g"
  shows "pins_of g' = pins_of g \<and> (\<forall>r. \<not> holds owner r g \<longrightarrow> v_claim g' r = v_claim g r)"
  using assms
proof (induction grps arbitrary: g d res)
  case (Cons grp grps)
  show ?case
  proof (cases "holds owner grp g")
    case False
    then have "release_begin owner grp g = (g, None)" by (auto simp: release_begin_def holds_def)
    with Cons show ?thesis by simp
  next
    case True
    let ?g = "upd_claim grp (\<lambda>c. c\<lparr>cl_open := False\<rparr>) g" and ?held = "cl_bus (v_claim g grp)"
    have grp: "bus_group ?held = Some grp" using Cons.prems(2) True by (simp add: claims_wf_def holds_def)
    have rb: "release_begin owner grp g = (?g, Some ?held)" using True by (auto simp: release_begin_def holds_def)
    obtain g1 d1 e where down: "bus_driver_down ev ?held (?g, d) = ((g1, d1), e)"
      by (metis prod.exhaust)
    let ?g2 = "close_finish grp e g1"
    have loop: "release_loop ev owner grps (?g2, d1) (if e = ESP_OK then res else e) = ((g', d'), err)"
      using Cons.prems(1) by (simp add: rb down)
    have p1: "pins_of g1 = pins_of ?g"
      using down by (auto simp: bus_driver_down_def grp pins_of_def Let_def split: prod.splits if_splits)
    have c1: "v_claim g1 r = v_claim g r" if "r \<noteq> grp" for r
      using driver_down_others [OF down grp that] that by simp
    have b1: "cl_bus (v_claim g1 r) = cl_bus (v_claim g r) \<and> cl_owner (v_claim g1 r) = cl_owner (v_claim g r)" for r
      using driver_down_claims [OF down, of r] by (cases "r = grp") simp_all
    have h2: "\<not> holds owner r ?g2" if "\<not> holds owner r g" for r
      using that b1 [of r] by (cases "r = grp") (auto simp: close_finish_def holds_def)
    have wf: "claims_wf ?g2"
      using Cons.prems(2) b1 by (auto simp: claims_wf_def close_finish_def)
    have k: "pins_of ?g2 = pins_of g" "\<And>r. r \<noteq> grp \<Longrightarrow> v_claim ?g2 r = v_claim g r"
      using p1 c1 by (simp_all add: close_finish_def pins_of_def)
    show ?thesis using Cons.IH [OF loop wf] k h2 True by metis
  qed
qed simp

text \<open>One side of the pin drivers, with what drives it.\<close>

definition hs_side :: "vif \<Rightarrow> _" where
  "hs_side g = (v_hs_pin g, v_hs_owner g, bd_hs (v_board g), bd_boost (v_board g), bd_mv (v_board g))"

definition ls_side :: "vif \<Rightarrow> _" where
  "ls_side g = (v_ls_pin g, v_ls_owner g, bd_ls (v_board g))"

lemma pin_release_sides:
  "v_hs_pin g = -1 \<or> v_hs_owner g \<noteq> owner \<Longrightarrow> hs_side (vif_pin_release_all owner g) = hs_side g"
  "v_ls_pin g = -1 \<or> v_ls_owner g \<noteq> owner \<Longrightarrow> ls_side (vif_pin_release_all owner g) = ls_side g"
  "v_pins_calibrating (vif_pin_release_all owner g) = v_pins_calibrating g"
  by (auto simp: hs_side_def ls_side_def vif_pin_release_all_def led_refresh_locked_def hs_release_locked_def
      ls_release_locked_def board_set_ls_state_def board_set_hs_state_def board_set_hs_boost_en_def board_set_hs_voltage_def Let_def)

text \<open>C13: A recovery or release request is carried out or kept: when an owner's thread services a
  pending request, all its pins are released, and either every bus it held is released and the
  request is gone (with the link's default grammar put back after a recovery), or a driver refused
  to close and the request, recovery included, is pending again. What it does not own is wholly
  untouched: every claim it does not hold, a high-side or low-side pin of the other owner with the
  drivers, boost and voltage behind it, a calibration, and the other owner's requests. A thread that
  is not the owner's changes nothing.\<close>

theorem vif_recovery_kept:
  assumes "vif_owner_service ev me owner (g, d) = ((g', d'), did, defl)"
    and "v_recover_req g owner \<or> v_release_req g owner" and "claims_wf g"
  shows "(if on_owner_thread me owner g
     then did \<and> (v_hs_pin g' = -1 \<or> v_hs_owner g' \<noteq> owner) \<and> (v_ls_pin g' = -1 \<or> v_ls_owner g' \<noteq> owner) \<and>
       (\<forall>r. \<not> holds owner r g \<longrightarrow> v_claim g' r = v_claim g r) \<and>
       (v_hs_pin g = -1 \<or> v_hs_owner g \<noteq> owner \<longrightarrow> hs_side g' = hs_side g) \<and>
       (v_ls_pin g = -1 \<or> v_ls_owner g \<noteq> owner \<longrightarrow> ls_side g' = ls_side g) \<and>
       v_pins_calibrating g' = v_pins_calibrating g \<and> v_task g' = v_task g \<and>
       (\<forall>o'. o' \<noteq> owner \<longrightarrow> v_recover_req g' o' = v_recover_req g o' \<and> v_release_req g' o' = v_release_req g o') \<and>
       ((\<forall>r. \<not> holds owner r g') \<and> \<not> v_recover_req g' owner \<and> \<not> v_release_req g' owner \<and>
          defl = (v_recover_req g owner \<and> owner = VIF_OWNER_LINK) \<or>
        v_release_req g' owner \<and> v_recover_req g' owner = v_recover_req g owner \<and> \<not> defl)
     else g' = g \<and> d' = d \<and> \<not> did \<and> \<not> defl)"
proof (cases "on_owner_thread me owner g")
  case False
  then show ?thesis using assms(1) by (simp add: vif_owner_service_def service_take_def)
next
  case True
  let ?g = "g\<lparr>v_recover_req := (v_recover_req g)(owner := False),
    v_release_req := (v_release_req g)(owner := False)\<rparr>"
  have t: "on_owner_thread me owner ?g" using True by (simp add: on_owner_thread_def)
  obtain g1 d1 err where r: "vif_bus_release_all ev me owner (?g, d) = ((g1, d1), err)"
    by (metis prod.exhaust)
  then have loop: "release_loop ev owner all_res (?g, d) ESP_OK = ((g1, d1), err)"
    using t by (simp add: vif_bus_release_all_def)
  have "distinct all_res" by (simp add: all_res_def)
  from release_loop_effect [OF loop this]
  have eff: "err = ESP_OK \<Longrightarrow> \<not> holds owner r g1" "v_task g1 = v_task g"
    "v_release_req g1 = (v_release_req g)(owner := False)" "v_recover_req g1 = (v_recover_req g)(owner := False)" for r
    by (cases r; auto simp: all_res_def holds_def)+
  have "claims_wf ?g" using assms(3) by (simp add: claims_wf_def)
  from release_loop_frame [OF loop this]
  have frame: "pins_of g1 = pins_of g" "\<And>r. \<not> holds owner r g \<Longrightarrow> v_claim g1 r = v_claim g r"
    by (auto simp: pins_of_def holds_def)
  let ?p = "vif_pin_release_all owner g1"
  have out: "((g', d'), did, defl) = (if err \<noteq> ESP_OK
      then ((service_put_back owner (v_recover_req g owner) ?p, d1), True, False)
      else ((?p, d1), True, v_recover_req g owner \<and> owner = VIF_OWNER_LINK))"
    using assms True r by (auto simp: vif_owner_service_def service_take_def Let_def)
  have same: "hs_side g1 = hs_side g" "ls_side g1 = ls_side g" "v_hs_pin g1 = v_hs_pin g" "v_ls_pin g1 = v_ls_pin g"
    "v_hs_owner g1 = v_hs_owner g" "v_ls_owner g1 = v_ls_owner g" "v_pins_calibrating g1 = v_pins_calibrating g"
    using frame(1) by (simp_all add: pins_of_def hs_side_def ls_side_def)
  have sides: "v_hs_pin g = -1 \<or> v_hs_owner g \<noteq> owner \<Longrightarrow> hs_side ?p = hs_side g"
    "v_ls_pin g = -1 \<or> v_ls_owner g \<noteq> owner \<Longrightarrow> ls_side ?p = ls_side g" "v_pins_calibrating ?p = v_pins_calibrating g"
    using pin_release_sides [where g = g1 and owner = owner] same by simp_all
  have putback: "hs_side (service_put_back owner x y) = hs_side y" "ls_side (service_put_back owner x y) = ls_side y"
    "v_pins_calibrating (service_put_back owner x y) = v_pins_calibrating y" "v_claim (service_put_back owner x y) = v_claim y"
    "v_task (service_put_back owner x y) = v_task y" "v_hs_pin (service_put_back owner x y) = v_hs_pin y"
    "v_ls_pin (service_put_back owner x y) = v_ls_pin y" "v_hs_owner (service_put_back owner x y) = v_hs_owner y"
    "v_ls_owner (service_put_back owner x y) = v_ls_owner y" for x y
    by (simp_all add: service_put_back_def hs_side_def ls_side_def)
  have h: "holds o' r ?p = holds o' r g1" for o' r by (simp add: holds_def)
  show ?thesis
  proof (cases "err = ESP_OK")
    case ok: True
    then have "g' = ?p" "did" "defl = (v_recover_req g owner \<and> owner = VIF_OWNER_LINK)" using out by simp_all
    then show ?thesis using True eff(1) [OF ok] eff(2-4) pin_release_pins [of owner g1] frame(2) sides h by simp
  next
    case bad: False
    then have g: "g' = service_put_back owner (v_recover_req g owner) ?p" "did" "\<not> defl" using out by simp_all
    have "v_release_req g' owner \<and> v_recover_req g' owner = v_recover_req g owner"
      "\<forall>o'. o' \<noteq> owner \<longrightarrow> v_recover_req g' o' = v_recover_req g o' \<and> v_release_req g' o' = v_release_req g o'"
      using g(1) eff(3,4) by (simp_all add: service_put_back_def)
    then show ?thesis using True g eff(2) pin_release_pins [of owner g1] frame(2) sides by (simp add: putback)
  qed
qed

definition no_message :: bus_msg where
  "no_message = \<lparr>bm_data = [], bm_len = 0, bm_status = 0, bm_timestamp_us = 0, bm_sequence = 0, bm_id = 0\<rparr>"

text \<open>Drivers that do nothing, of which CAN refuses to close.\<close>

definition quiet_env :: "nat vif_env" where
  "quiet_env = \<lparr>ev_open = (\<lambda>_ _ d. (d + 1, ESP_OK)),
     ev_close = (\<lambda>b d. (d, if b = VIF_BUS_CAN then -1 else ESP_OK)),
     ev_send = (\<lambda>_ _ _ d. (d, 0)), ev_recv = (\<lambda>_ _ _ d. (d, -1, no_message)),
     ev_set_param = (\<lambda>_. None), ev_get_param = (\<lambda>_. None),
     ev_worker_create = (\<lambda>_ d. (d, True)), ev_worker_submit = (\<lambda>_ _ _ _ d. (d, 0)),
     ev_worker_wait = (\<lambda>_ d. (d, 0)), ev_worker_close = (\<lambda>_ d. (d, ESP_OK)),
     ev_worker_poll = (\<lambda>_ d. (d, None)), ev_worker_cancel = (\<lambda>_ d. d), ev_ioctl = (\<lambda>_. None)\<rparr>"

definition board_off :: board where
  "board_off = \<lparr>bd_hs = (\<lambda>_. False), bd_ls = (\<lambda>_. False), bd_boost = False, bd_mv = 0, bd_led_live = False\<rparr>"

definition vif_start :: vif where
  "vif_start = \<lparr>v_task = (\<lambda>_. None), v_recover_req = (\<lambda>_. False), v_release_req = (\<lambda>_. False),
     v_claim = (\<lambda>_. claim_zero), v_hs_pin = -1, v_ls_pin = -1, v_hs_owner = VIF_OWNER_LINK,
     v_ls_owner = VIF_OWNER_LINK, v_pins_calibrating = False, v_board = board_off\<rparr>"

text \<open>A link holding CAN, which refuses to close, and the L line pin, with a recovery pending.\<close>

definition vif_stuck :: vif where
  "vif_stuck = vif_start\<lparr>v_task := (\<lambda>_. Some 1), v_recover_req := (\<lambda>_. True),
     v_claim := (\<lambda>r. if r = VIF_RES_CAN then claim_zero\<lparr>cl_bus := VIF_BUS_CAN, cl_open := True\<rparr>
       else claim_zero),
     v_ls_pin := 15\<rparr>"

lemma vif_recovery_kept_witness:
  "\<exists>g' d' did defl. vif_owner_service quiet_env 1 VIF_OWNER_LINK (vif_stuck, 0) = ((g', d'), did, defl) \<and>
    did \<and> (v_ls_pin g' = -1 \<or> v_ls_owner g' \<noteq> VIF_OWNER_LINK)"
proof -
  obtain g' d' did defl where r: "vif_owner_service quiet_env 1 VIF_OWNER_LINK (vif_stuck, 0) = ((g', d'), did, defl)"
    by (metis prod.exhaust)
  moreover have "v_recover_req vif_stuck VIF_OWNER_LINK" "on_owner_thread 1 VIF_OWNER_LINK vif_stuck" "claims_wf vif_stuck"
    by (auto simp: vif_stuck_def on_owner_thread_def claims_wf_def bus_group_def claim_zero_def)
  ultimately show ?thesis using vif_recovery_kept [OF r] by auto
qed

lemma driver_up_same: "bus_driver_up ev bus cfg (g, d) = ((g', d'), err) \<Longrightarrow> g' = g"
  by (auto simp: bus_driver_up_def split: option.splits prod.splits)

text \<open>How taking a driver down ends: with its close, or with a worker that does not end.\<close>

lemma driver_down_end:
  assumes "bus_driver_down ev bus (g, d) = ((g', d'), err)" "bus_group bus = Some grp"
  shows "(err = ESP_OK \<longrightarrow> (\<exists>d2. ev_close ev bus d2 = (d', ESP_OK))) \<and>
    (err \<noteq> ESP_OK \<longrightarrow> (\<exists>d2. ev_close ev bus d2 = (d', err) \<or> ev_worker_close ev grp d2 = (d', err))) \<and>
    cl_bus (v_claim g' grp) = cl_bus (v_claim g grp)"
  using assms driver_down_claims [OF assms(1), of grp]
  by (auto simp: bus_driver_down_def Let_def split: prod.splits if_splits)

text \<open>C36: Opening a bus is all or nothing for its claim. From its own thread an owner that meets no
  foreign claim either gets the bus, open, at the bit rate asked for, with the L line unreserved; or
  an error, and then the bus is open for nobody: the group is free only when the driver that was
  asked to come up was closed again without an error, and otherwise still held by this owner, closed,
  under the name of the bus whose driver refused to go down as the last thing that happened. A
  group held by the other owner is refused without a driver being called or anything changed. In
  every case other groups keep their claims.\<close>

theorem vif_bus_open_claims:
  assumes "vif_bus_open ev me owner bus cfg (g, d) = ((g', d'), err)" "bus_group bus = Some grp"
    and "claims_wf g"
  shows "(\<forall>r. r \<noteq> grp \<longrightarrow> v_claim g' r = v_claim g r) \<and>
    (if \<not> on_owner_thread me owner g \<or> (cl_bus (v_claim g grp) \<noteq> VIF_BUS_NONE \<and> cl_owner (v_claim g grp) \<noteq> owner)
     then err = ESP_ERR_INVALID_STATE \<and> g' = g \<and> d' = d
     else if err = ESP_OK
       then vif_bus_is_open owner bus g' \<and> cl_bitrate (v_claim g' grp) = (case cfg of None \<Rightarrow> 0 | Some c \<Rightarrow> bc_bitrate c) \<and>
         \<not> cl_l_line_reserved (v_claim g' grp)
       else \<not> cl_open (v_claim g' grp) \<and>
         (if v_claim g' grp = claim_zero then \<exists>d2. ev_close ev bus d2 = (d', ESP_OK)
          else holds owner grp g' \<and> cl_bus (v_claim g' grp) \<in> {cl_bus (v_claim g grp), bus} \<and>
            (\<exists>d2 e. e \<noteq> ESP_OK \<and> (ev_close ev (cl_bus (v_claim g' grp)) d2 = (d', e) \<or> ev_worker_close ev grp d2 = (d', e)))))"
proof (cases "\<not> on_owner_thread me owner g \<or> (cl_bus (v_claim g grp) \<noteq> VIF_BUS_NONE \<and> cl_owner (v_claim g grp) \<noteq> owner)")
  case True
  then have "open_reserve me owner bus g = (g, Inl ESP_ERR_INVALID_STATE)"
    using assms(2) by (simp add: open_reserve_def)
  then show ?thesis using True assms(1,2) by (simp add: vif_bus_open_def)
next
  case free: False
  define old where "old = cl_bus (v_claim g grp)"
  define g0 where "g0 = (if old = VIF_BUS_NONE
    then upd_claim grp (\<lambda>c. c\<lparr>cl_bus := bus, cl_owner := owner\<rparr>) (upd_claim grp (\<lambda>c. c\<lparr>cl_open := False\<rparr>) g)
    else upd_claim grp (\<lambda>c. c\<lparr>cl_open := False\<rparr>) g)"
  have res: "open_reserve me owner bus g = (g0, Inr old)"
    using free assms(2) by (auto simp: open_reserve_def g0_def old_def Let_def)
  have bus: "bus \<noteq> VIF_BUS_NONE" using assms(2) by (auto simp: bus_group_def)
  have g0: "\<not> cl_open (v_claim g0 grp)" "\<And>r. r \<noteq> grp \<Longrightarrow> v_claim g0 r = v_claim g r" "holds owner grp g0"
    using free bus by (auto simp: g0_def holds_def old_def)
  have old: "old \<noteq> VIF_BUS_NONE \<Longrightarrow> bus_group old = Some grp"
    using assms(3) by (simp add: claims_wf_def old_def)
  obtain g1 d1 e1 where down: "(if old \<noteq> VIF_BUS_NONE then bus_driver_down ev old (g0, d) else ((g0, d), ESP_OK)) =
      ((g1, d1), e1)" by (metis prod.exhaust)
  have g1: "\<not> cl_open (v_claim g1 grp)" "\<And>r. r \<noteq> grp \<Longrightarrow> v_claim g1 r = v_claim g r" "holds owner grp g1"
    using g0 down old driver_down_claims [of ev old g0 d g1 d1 e1 grp]
      driver_down_others [of ev old g0 d g1 d1 e1 grp]
    by (auto simp: holds_def split: if_splits)
  show ?thesis
  proof (cases "e1 = ESP_OK")
    case False
    then have o: "g' = g1" "err = e1" "d' = d1" "old \<noteq> VIF_BUS_NONE" using assms(1,2) res down by (auto simp: vif_bus_open_def)
    have dn: "bus_driver_down ev old (g0, d) = ((g1, d1), e1)" using down o(4) by simp
    have "cl_bus (v_claim g0 grp) = old" using o(4) by (simp add: g0_def old_def)
    then have e: "cl_bus (v_claim g1 grp) = old" "\<exists>d2. ev_close ev old d2 = (d1, e1) \<or> ev_worker_close ev grp d2 = (d1, e1)"
      using driver_down_end [OF dn old [OF o(4)]] False by auto
    then have "v_claim g1 grp \<noteq> claim_zero" using o(4) by auto
    with free False g1 o e show ?thesis by (auto simp: old_def)
  next
    case True
    let ?g2 = "open_claim owner bus (case cfg of None \<Rightarrow> 0 | Some c \<Rightarrow> bc_bitrate c) grp g1"
    obtain d3 e2 where up: "bus_driver_up ev bus cfg (?g2, d1) = ((?g2, d3), e2)"
      using driver_up_same by (metis prod.exhaust)
    obtain g4 d4 e3 where clean: "(if e2 = ESP_OK then ((?g2, d3), ESP_OK) else bus_driver_down ev bus (?g2, d3)) =
        ((g4, d4), e3)" by (metis prod.exhaust)
    have out: "g' = open_finish grp e2 e3 g4" "err = e2" "d' = d4"
      using assms(1,2) res down True up clean by (auto simp: vif_bus_open_def Let_def)
    have g2: "\<And>r. r \<noteq> grp \<Longrightarrow> v_claim ?g2 r = v_claim g r" "holds owner grp ?g2" "\<not> cl_open (v_claim ?g2 grp)"
      using g1 bus by (auto simp: open_claim_def holds_def)
    have g4: "\<And>r. r \<noteq> grp \<Longrightarrow> v_claim g4 r = v_claim g r" "holds owner grp g4" "\<not> cl_open (v_claim g4 grp)"
      using g2 clean driver_down_claims [of ev bus ?g2 d3 g4 d4 e3 grp]
        driver_down_others [of ev bus ?g2 d3 g4 d4 e3 grp] assms(2)
      by (auto simp: holds_def split: if_splits)
    show ?thesis
    proof (cases "e2 = ESP_OK")
      case True
      with clean have "g4 = ?g2" by simp
      with True out free g2 assms(2) show ?thesis
        by (auto simp: open_finish_def vif_bus_is_open_def open_claim_def)
    next
      case False
      then have dn: "bus_driver_down ev bus (?g2, d3) = ((g4, d4), e3)" using clean by simp
      have "cl_bus (v_claim ?g2 grp) = bus" by (simp add: open_claim_def)
      with driver_down_end [OF dn assms(2)]
      have e: "cl_bus (v_claim g4 grp) = bus" "e3 = ESP_OK \<Longrightarrow> \<exists>d2. ev_close ev bus d2 = (d4, ESP_OK)"
        "e3 \<noteq> ESP_OK \<Longrightarrow> \<exists>d2. ev_close ev bus d2 = (d4, e3) \<or> ev_worker_close ev grp d2 = (d4, e3)" by auto
      have nz: "v_claim g4 grp \<noteq> claim_zero" using e(1) bus by auto
      show ?thesis
      proof (cases "e3 = ESP_OK")
        case True
        have "v_claim g' grp = claim_zero" using out False True by (simp add: open_finish_def)
        with False out free g4 e(2) [OF True] True show ?thesis by (auto simp: open_finish_def claim_zero_def)
      next
        case bad: False
        then have "g' = g4" using out False by (simp add: open_finish_def)
        with False out free g4 e(1) e(3) [OF bad] bad nz show ?thesis by auto
      qed
    qed
  qed
qed

lemma vif_bus_open_claims_witness:
  "\<exists>g' d'. vif_bus_open quiet_env 1 VIF_OWNER_LINK VIF_BUS_KLINE (Some \<lparr>bc_bitrate = 10400, bc_manual_recovery = False\<rparr>) (vif_stuck, 0) =
      ((g', d'), ESP_OK) \<and> vif_bus_is_open VIF_OWNER_LINK VIF_BUS_KLINE g' \<and>
    cl_bus (v_claim g' VIF_RES_CAN) = VIF_BUS_CAN"
proof -
  have wf: "bus_group VIF_BUS_KLINE = Some VIF_RES_KLINE" "claims_wf vif_stuck"
    by (auto simp: bus_group_def claims_wf_def vif_stuck_def claim_zero_def)
  obtain g' d' err where r: "vif_bus_open quiet_env 1 VIF_OWNER_LINK VIF_BUS_KLINE (Some \<lparr>bc_bitrate = 10400, bc_manual_recovery = False\<rparr>) (vif_stuck, 0) =
      ((g', d'), err)" by (metis prod.exhaust)
  have thread: "on_owner_thread 1 VIF_OWNER_LINK vif_stuck" and free: "v_claim vif_stuck VIF_RES_KLINE = claim_zero"
    by (simp_all add: vif_stuck_def on_owner_thread_def)
  then have "err = ESP_OK"
    using r by (simp add: vif_bus_open_def bus_group_def open_reserve_def bus_driver_up_def quiet_env_def Let_def
        claim_zero_def)
  moreover have "v_claim g' VIF_RES_CAN = v_claim vif_stuck VIF_RES_CAN"
    "vif_bus_is_open VIF_OWNER_LINK VIF_BUS_KLINE g'"
    using vif_bus_open_claims [OF r wf] thread free \<open>err = ESP_OK\<close> by simp_all
  ultimately show ?thesis using r by (simp add: vif_stuck_def)
qed

end
