(* ===== verification/J2534Channel.thy ===== *)
theory J2534Channel
  imports J2534Common IsoTp J2534Scheduler Vif
begin

text \<open>
One channel of the J2534 core of \<open>main/j2534.c\<close>: the structure \<open>channel_t\<close> as a record, its
  receive ring of 8192 bytes, and its filters. A read or write outside a buffer is \<open>None\<close>.
  The lemmas: the ring refines a bounded queue of messages that remembers a loss, and which
  messages the filters accept.
\<close>

section \<open>The data of a channel\<close>

definition RX_BYTES :: nat where "RX_BYTES = 8192"
definition MSG_HEADER :: nat where "MSG_HEADER = 28"
definition TX_BYTES :: nat where "TX_BYTES = J2534_DATA_MAX + MSG_HEADER"
definition CHANNELS :: nat where "CHANNELS = J2534_PHYSICAL_MAX + J2534_LOGICAL_MAX"

lemmas ring_sizes = RX_BYTES_def MSG_HEADER_def TX_BYTES_def J2534_DATA_MAX_def

definition FILTER_PASS :: u32w where "FILTER_PASS = 1"
definition FILTER_BLOCK :: u32w where "FILTER_BLOCK = 2"
definition LOGICAL_FULL_DUPLEX :: u32w where "LOGICAL_FULL_DUPLEX = 1"

record filter_t =
  ft_id :: u32w
  ft_type :: u32w
  ft_flags :: u32w
  ft_len :: nat
  ft_mask :: "byte list"
  ft_pattern :: "byte list"

definition filter_zero :: filter_t where
  "filter_zero = \<lparr>ft_id = 0, ft_type = 0, ft_flags = 0, ft_len = 0, ft_mask = replicate 12 0,
     ft_pattern = replicate 12 0\<rparr>"

datatype tx_kind = TX_NONE | TX_MESSAGE | TX_ISOTP | TX_FLOW_CONTROL | TX_SCHEDULED

record pending_tx =
  pt_kind :: tx_kind
  pt_channel :: u32w
  pt_job :: u32w
  pt_handle :: u32w
  pt_discard :: bool
  pt_confirmed :: bool
  pt_rx_generation :: u32w
  pt_frame :: can_frame

definition frame_zero :: can_frame where
  "frame_zero = \<lparr>can_id = 0, can_dlc = 0, can_data = replicate 8 0\<rparr>"

definition pending_zero :: pending_tx where
  "pending_zero = \<lparr>pt_kind = TX_NONE, pt_channel = 0, pt_job = 0, pt_handle = 0, pt_discard = False,
     pt_confirmed = False, pt_rx_generation = 0, pt_frame = frame_zero\<rparr>"

text \<open>
  \<open>channel_t\<close>. The buffers are the blocks \<open>malloc\<close> gave, empty lists while the pointers are
  \<open>NULL\<close>. The block \<open>assembly\<close> of a logical channel is kept in two pieces: \<open>ch_assembly\<close>, its
  first four or five bytes, and the rest, to which \<open>iso_rx\<close> has the pointer, in that machine's
  \<open>rx_buffer\<close>.
\<close>

record channel =
  ch_id :: u32w
  ch_parent :: u32w
  ch_protocol :: u32w
  ch_flags :: u32w
  ch_rate :: u32w
  ch_echo :: u32w
  ch_bus :: vif_bus
  ch_rx :: "byte list"
  ch_tx :: "byte list"
  ch_assembly :: "byte list"
  ch_rx_head :: nat
  ch_rx_used :: nat
  ch_tx_len :: nat
  ch_overflow :: bool
  ch_tx_active :: bool
  ch_link_down :: bool
  ch_filters :: "filter_t list"
  ch_scheduler :: scheduler
  ch_pending :: pending_tx
  ch_rx_sequence :: u32w
  ch_tx_cursor :: nat
  ch_rx_drained :: bool
  ch_flow_control_pending :: bool
  ch_rx_generation :: u32w
  ch_flow_control :: can_frame
  ch_config :: isotp_config
  ch_iso_rx :: isotp_rx
  ch_iso_tx :: isotp_tx
  ch_local_flags :: u32w
  ch_remote_flags :: u32w
  ch_legacy_channel :: bool
  ch_tx_timeout_a_us :: u32w
  ch_local :: "byte list"
  ch_remote :: "byte list"

definition job_zero :: schedule_job where
  "job_zero = \<lparr>sj_id = 0, sj_kind = J2534_SCHEDULE_PERIODIC, sj_interval_us = 0, sj_due_us = 0,
     sj_ended_us = 0, sj_created_us = 0, sj_match_us = 0, sj_active = False, sj_pending = False,
     sj_transmission_ended = False, sj_sent = False, sj_matched = False, sj_have_match = False,
     sj_message = \<lparr>sm_flags = 0, sm_handle = 0, sm_len = 0, sm_data = replicate J2534_SCHEDULE_DATA_MAX 0\<rparr>,
     sj_match_flags = 0, sj_match_len = 0, sj_mask = replicate J2534_SCHEDULE_DATA_MAX 0,
     sj_pattern = replicate J2534_SCHEDULE_DATA_MAX 0\<rparr>"

definition config_zero :: isotp_config where
  "config_zero = \<lparr>tx_id = 0, rx_id = 0, rx_mask = 0, extended_address = False, tx_address = 0,
     rx_address = 0, functional = False, pad = False, pad_value = 0, cfg_block_size = 0, stmin = 0,
     wait_limit = 0, timeout_a_us = 0, timeout_bs_us = 0, timeout_cr_us = 0\<rparr>"

definition iso_rx_zero :: isotp_rx where
  "iso_rx_zero = \<lparr>rx_config = config_zero, rx_buffer = None, rx_capacity = 0, rx_state = ISOTP_RX_IDLE,
     rx_deadline = 0, rx_total = 0, rx_offset = 0, rx_sequence = 0, rx_block_count = 0,
     rx_flow_status = 0, rx_padding_error = False\<rparr>"

definition iso_tx_zero :: isotp_tx where
  "iso_tx_zero = \<lparr>tx_config = config_zero, tx_buffer = [], tx_state = ISOTP_TX_IDLE, tx_deadline = 0,
     tx_next = 0, tx_last_cf = 0, tx_separation = 0, tx_total = 0, tx_offset = 0, tx_wait_count = 0,
     tx_sequence = 0, tx_block_size = 0, tx_block_count = 0, tx_sent_cf = False,
     tx_pending_cf = False, tx_reserved_stmin = False, tx_padding_error = False\<rparr>"

text \<open>\<open>memset(channel, 0, sizeof(*channel))\<close>, after the buffers have been freed.\<close>

definition channel_zero :: channel where
  "channel_zero = \<lparr>ch_id = 0, ch_parent = 0, ch_protocol = 0, ch_flags = 0, ch_rate = 0, ch_echo = 0,
     ch_bus = VIF_BUS_NONE, ch_rx = [], ch_tx = [], ch_assembly = [], ch_rx_head = 0, ch_rx_used = 0,
     ch_tx_len = 0, ch_overflow = False, ch_tx_active = False, ch_link_down = False,
     ch_filters = replicate J2534_FILTER_MAX filter_zero,
     ch_scheduler = replicate (2 * J2534_SCHEDULE_SLOTS) job_zero, ch_pending = pending_zero,
     ch_rx_sequence = 0, ch_tx_cursor = 0, ch_rx_drained = False, ch_flow_control_pending = False,
     ch_rx_generation = 0, ch_flow_control = frame_zero, ch_config = config_zero,
     ch_iso_rx = iso_rx_zero, ch_iso_tx = iso_tx_zero, ch_local_flags = 0, ch_remote_flags = 0,
     ch_legacy_channel = False, ch_tx_timeout_a_us = 0, ch_local = replicate 5 0,
     ch_remote = replicate 5 0\<rparr>"

section \<open>Messages\<close>

text \<open>\<open>PB_BYTES_ARRAY_T\<close>: a count and an array. \<open>opendiag_Message\<close> has room for \<open>J2534_DATA_MAX\<close> bytes.\<close>

record pb_array =
  pb_size :: nat
  pb_bytes :: "byte list"

record message =
  om_protocol :: u32w
  om_handle :: u32w
  om_rx_status :: u32w
  om_tx_flags :: u32w
  om_timestamp_us :: u32w
  om_extra_data_index :: u32w
  om_data :: pb_array

definition pb_zero :: "nat \<Rightarrow> pb_array" where
  "pb_zero n = \<lparr>pb_size = 0, pb_bytes = replicate n 0\<rparr>"

definition message_zero :: message where
  "message_zero = \<lparr>om_protocol = 0, om_handle = 0, om_rx_status = 0, om_tx_flags = 0,
     om_timestamp_us = 0, om_extra_data_index = 0, om_data = pb_zero J2534_DATA_MAX\<rparr>"

section \<open>The receive ring\<close>

text \<open>\<open>ring_copy\<close>, in its two directions, from position \<open>pos\<close> on.\<close>

fun ring_store :: "byte list \<Rightarrow> nat \<Rightarrow> byte list \<Rightarrow> byte list option" where
  "ring_store rx pos [] = Some rx"
| "ring_store rx pos (b # bs) = do {
     rx \<leftarrow> set_at rx pos b;
     ring_store rx ((pos + 1) mod RX_BYTES) bs
   }"

fun ring_load :: "byte list \<Rightarrow> nat \<Rightarrow> nat \<Rightarrow> byte list option" where
  "ring_load rx pos 0 = Some []"
| "ring_load rx pos (Suc n) = do {
     b \<leftarrow> get_at rx pos;
     bs \<leftarrow> ring_load rx ((pos + 1) mod RX_BYTES) n;
     Some (b # bs)
   }"

definition ring_write :: "channel \<Rightarrow> nat \<Rightarrow> byte list \<Rightarrow> channel option" where
  "ring_write c offset data = do {
     rx \<leftarrow> ring_store (ch_rx c) ((ch_rx_head c + offset) mod RX_BYTES) data;
     Some (c\<lparr>ch_rx := rx\<rparr>)
   }"

definition ring_read :: "channel \<Rightarrow> nat \<Rightarrow> nat \<Rightarrow> byte list option" where
  "ring_read c offset len = ring_load (ch_rx c) ((ch_rx_head c + offset) mod RX_BYTES) len"

text \<open>The header \<open>enqueue_rx\<close> builds; \<open>data\<close> is \<open>len\<close> bytes, none for a \<open>NULL\<close> pointer.\<close>

definition rx_header :: "u32w \<Rightarrow> u32w \<Rightarrow> u32w \<Rightarrow> u32w \<Rightarrow> nat \<Rightarrow> bool \<Rightarrow> byte list option" where
  "rx_header protocol handle status timestamp len indication = do {
     h \<leftarrow> j2534_put32 (replicate MSG_HEADER 0) 0 protocol;
     h \<leftarrow> j2534_put32 h 4 handle;
     h \<leftarrow> j2534_put32 h 8 status;
     h \<leftarrow> j2534_put32 h 12 0;
     h \<leftarrow> j2534_put32 h 16 timestamp;
     h \<leftarrow> j2534_put32 h 20 (of_nat len);
     j2534_put32 h 24 (if indication then 0 else of_nat len)
   }"

definition enqueue_rx ::
  "u32w \<Rightarrow> u32w \<Rightarrow> u32w \<Rightarrow> byte list \<Rightarrow> bool \<Rightarrow> channel \<Rightarrow> channel option" where
  "enqueue_rx handle status timestamp data indication c =
     (let total = MSG_HEADER + length data in
      if total > sub32 RX_BYTES (ch_rx_used c) then Some (c\<lparr>ch_overflow := True\<rparr>)
      else do {
        h \<leftarrow> rx_header (ch_protocol c) handle
               (status OR (if ch_overflow c then J2534_RX_OVERFLOW else 0)) timestamp (length data) indication;
        c \<leftarrow> ring_write c (ch_rx_used c) h;
        c \<leftarrow> ring_write c (ch_rx_used c + MSG_HEADER) data;
        Some (c\<lparr>ch_rx_used := ch_rx_used c + total, ch_overflow := False\<rparr>)
      })"

text \<open>\<open>read_message\<close>: the status, and the message when there is one.\<close>

definition ring_take :: "channel \<Rightarrow> (channel \<times> j2534_status \<times> message option) option" where
  "ring_take c =
     (if ch_rx_used c = 0
      then if ch_overflow c then Some (c\<lparr>ch_overflow := False\<rparr>, J2534_OVERFLOW, None)
           else Some (c, J2534_EMPTY, None)
      else do {
        h \<leftarrow> ring_read c 0 MSG_HEADER;
        protocol \<leftarrow> j2534_u32 h 0;
        handle \<leftarrow> j2534_u32 h 4;
        status \<leftarrow> j2534_u32 h 8;
        flags \<leftarrow> j2534_u32 h 12;
        timestamp \<leftarrow> j2534_u32 h 16;
        size \<leftarrow> j2534_u32 h 20;
        extra \<leftarrow> j2534_u32 h 24;
        data \<leftarrow> ring_read c MSG_HEADER (unat size);
        bytes \<leftarrow> store_at (pb_bytes (om_data message_zero)) 0 data;
        let total = MSG_HEADER + unat size;
        Some (c\<lparr>ch_rx_head := (ch_rx_head c + total) mod RX_BYTES, ch_rx_used := sub32 (ch_rx_used c) total\<rparr>,
              J2534_OK,
              Some \<lparr>om_protocol = protocol, om_handle = handle, om_rx_status = status, om_tx_flags = flags,
                    om_timestamp_us = timestamp, om_extra_data_index = extra,
                    om_data = \<lparr>pb_size = unat size, pb_bytes = bytes\<rparr>\<rparr>)
      })"

section \<open>Filters\<close>

text \<open>The comparison of one filter; the loop reads every byte, also after a difference.\<close>

fun filter_bytes :: "filter_t \<Rightarrow> byte list \<Rightarrow> nat list \<Rightarrow> bool \<Rightarrow> bool option" where
  "filter_bytes f data [] same = Some same"
| "filter_bytes f data (j # js) same = do {
     d \<leftarrow> get_at data j;
     m \<leftarrow> get_at (ft_mask f) j;
     p \<leftarrow> get_at (ft_pattern f) j;
     filter_bytes f data js (same \<and> d AND m = p AND m)
   }"

definition filter_applies :: "filter_t \<Rightarrow> byte list \<Rightarrow> u32w \<Rightarrow> bool" where
  "filter_applies f data flags \<longleftrightarrow>
     \<not> (ft_id f = 0 \<or> ft_len f > length data \<or> (ft_flags f XOR flags) AND J2534_29BIT \<noteq> 0)"

fun filters_accept :: "filter_t list \<Rightarrow> byte list \<Rightarrow> u32w \<Rightarrow> bool \<Rightarrow> bool option" where
  "filters_accept [] data flags pass = Some pass"
| "filters_accept (f # fs) data flags pass =
     (if \<not> filter_applies f data flags then filters_accept fs data flags pass
      else do {
        same \<leftarrow> filter_bytes f data [0..<ft_len f] True;
        if \<not> same then filters_accept fs data flags pass
        else if ft_type f = FILTER_BLOCK then Some False
        else filters_accept fs data flags True
      })"

definition filter_accepts :: "channel \<Rightarrow> byte list \<Rightarrow> u32w \<Rightarrow> bool option" where
  "filter_accepts c data flags = filters_accept (ch_filters c) data flags False"

section \<open>Identifiers and flags\<close>

definition put_be32 :: "u32w \<Rightarrow> byte list" where
  "put_be32 v = map (\<lambda>i. ucast (drop_bit (24 - 8 * i) v)) [0..<4]"

definition be32 :: "byte list \<Rightarrow> u32w option" where
  "be32 data = do {
     a \<leftarrow> get_at data 0;
     b \<leftarrow> get_at data 1;
     c \<leftarrow> get_at data 2;
     d \<leftarrow> get_at data 3;
     Some (push_bit 24 (ucast a) OR push_bit 16 (ucast b) OR push_bit 8 (ucast c) OR ucast d)
   }"

definition can_flags_match :: "channel \<Rightarrow> u32w \<Rightarrow> bool" where
  "can_flags_match c flags \<longleftrightarrow>
     ch_flags c AND J2534_CAN_BOTH \<noteq> 0 \<or> (ch_flags c XOR flags) AND J2534_29BIT = 0"

definition can_id_valid :: "byte list \<Rightarrow> u32w \<Rightarrow> bool option" where
  "can_id_valid data flags = do {
     i \<leftarrow> be32 data;
     Some (i \<le> (if flags AND J2534_29BIT \<noteq> 0 then CAN_EFF_MASK else CAN_SFF_MASK))
   }"

section \<open>Lemmas: the ring is a queue of messages\<close>

definition ring_view :: "byte list \<Rightarrow> nat \<Rightarrow> nat \<Rightarrow> byte list" where
  "ring_view rx pos n = map (\<lambda>i. rx ! ((pos + i) mod RX_BYTES)) [0..<n]"

lemma length_ring_view [simp]: "length (ring_view rx pos n) = n"
  by (simp add: ring_view_def)

lemma RX_BYTES_pos [simp]: "0 < RX_BYTES" "RX_BYTES \<noteq> 0"
  by (simp_all add: RX_BYTES_def)

lemma ring_view_Suc:
  "pos < RX_BYTES \<Longrightarrow> ring_view rx pos (Suc n) = rx ! pos # ring_view rx (Suc pos mod RX_BYTES) n"
  by (simp add: ring_view_def upt_rec [of 0] map_Suc_upt [symmetric] o_def mod_add_left_eq
      del: upt_Suc)

lemma ring_view_add:
  "ring_view rx pos (n + k) = ring_view rx pos n @ ring_view rx ((pos + n) mod RX_BYTES) k"
  by (rule nth_equalityI) (auto simp: ring_view_def nth_append mod_add_left_eq add.assoc)

lemma ring_load_view:
  "length rx = RX_BYTES \<Longrightarrow> pos < RX_BYTES \<Longrightarrow> ring_load rx pos n = Some (ring_view rx pos n)"
proof (induction n arbitrary: pos)
  case 0
  then show ?case by (simp add: ring_view_def)
next
  case (Suc n)
  then show ?case by (simp add: ring_view_Suc)
qed

lemma ring_distinct:
  assumes "pos < RX_BYTES" "0 < i" "i < RX_BYTES"
  shows "(pos + i) mod RX_BYTES \<noteq> pos"
proof
  assume "(pos + i) mod RX_BYTES = pos"
  then have "RX_BYTES dvd i" using assms(1) by (metis add_diff_cancel_left' mod_eq_dvd_iff_nat le_add1 mod_less)
  with assms(2,3) show False by (auto dest: dvd_imp_le)
qed

lemma ring_store_effect:
  assumes "length rx = RX_BYTES" "pos < RX_BYTES" "length data \<le> RX_BYTES"
  shows "\<exists>rx'. ring_store rx pos data = Some rx' \<and> length rx' = RX_BYTES \<and>
    (\<forall>i<length data. rx' ! ((pos + i) mod RX_BYTES) = data ! i) \<and>
    (\<forall>k<RX_BYTES. (\<forall>i<length data. k \<noteq> (pos + i) mod RX_BYTES) \<longrightarrow> rx' ! k = rx ! k)"
  using assms
proof (induction data arbitrary: rx pos)
  case Nil
  then show ?case by simp
next
  case (Cons b bs)
  let ?rx = "rx[pos := b]" and ?pos = "Suc pos mod RX_BYTES"
  have "length ?rx = RX_BYTES" "?pos < RX_BYTES" "length bs \<le> RX_BYTES" using Cons.prems by simp_all
  from Cons.IH [OF this] obtain rx' where
    rx': "ring_store ?rx ?pos bs = Some rx'" "length rx' = RX_BYTES"
      "\<forall>i<length bs. rx' ! ((?pos + i) mod RX_BYTES) = bs ! i"
      "\<forall>k<RX_BYTES. (\<forall>i<length bs. k \<noteq> (?pos + i) mod RX_BYTES) \<longrightarrow> rx' ! k = ?rx ! k" by blast
  have step: "(?pos + i) mod RX_BYTES = (pos + Suc i) mod RX_BYTES" for i
    by (simp add: mod_add_left_eq)
  have "pos \<noteq> (pos + Suc i) mod RX_BYTES" if "i < length bs" for i
    using ring_distinct [of pos "Suc i"] Cons.prems that by auto
  then have "rx' ! pos = b" using rx'(4) Cons.prems by (simp add: step)
  then have 1: "rx' ! ((pos + i) mod RX_BYTES) = (b # bs) ! i" if "i < length (b # bs)" for i
    using rx'(3) that Cons.prems(2) by (cases i) (auto simp: step)
  have 2: "rx' ! k = rx ! k" if "k < RX_BYTES" "\<forall>i<length (b # bs). k \<noteq> (pos + i) mod RX_BYTES" for k
  proof -
    have "k \<noteq> pos" using that(2) Cons.prems(2) by (auto dest: spec [of _ 0])
    moreover have "\<forall>i<length bs. k \<noteq> (?pos + i) mod RX_BYTES" using that(2) by (auto simp only: step length_Cons)
    ultimately show ?thesis using rx'(4) that(1) by simp
  qed
  show ?case using rx'(1,2) 1 2 Cons.prems by simp
qed

lemma ring_store_view:
  assumes "length rx = RX_BYTES" "head < RX_BYTES" "used + length data \<le> RX_BYTES"
  shows "\<exists>rx'. ring_store rx ((head + used) mod RX_BYTES) data = Some rx' \<and> length rx' = RX_BYTES \<and>
    ring_view rx' head (used + length data) = ring_view rx head used @ data"
proof -
  let ?pos = "(head + used) mod RX_BYTES"
  have "?pos < RX_BYTES" "length data \<le> RX_BYTES" using assms(3) by simp_all
  from ring_store_effect [OF assms(1) this] obtain rx' where
    rx': "ring_store rx ?pos data = Some rx'" "length rx' = RX_BYTES"
      "\<forall>i<length data. rx' ! ((?pos + i) mod RX_BYTES) = data ! i"
      "\<forall>k<RX_BYTES. (\<forall>i<length data. k \<noteq> (?pos + i) mod RX_BYTES) \<longrightarrow> rx' ! k = rx ! k" by blast
  have "rx' ! ((head + j) mod RX_BYTES) = rx ! ((head + j) mod RX_BYTES)" if j: "j < used" for j
  proof -
    have "(head + j) mod RX_BYTES \<noteq> (?pos + i) mod RX_BYTES" if i: "i < length data" for i
    proof -
      have "((head + j) mod RX_BYTES + (used + i - j)) mod RX_BYTES \<noteq> (head + j) mod RX_BYTES"
        using j i assms(3) by (intro ring_distinct) auto
      moreover have "((head + j) mod RX_BYTES + (used + i - j)) mod RX_BYTES = (?pos + i) mod RX_BYTES"
      proof -
        have e: "head + j + (used + i - j) = head + used + i" using j by simp
        show ?thesis by (simp only: mod_add_left_eq e)
      qed
      ultimately show ?thesis by simp
    qed
    then show ?thesis by (intro rx'(4) [rule_format]) simp_all
  qed
  then have "ring_view rx' head used = ring_view rx head used" by (simp add: ring_view_def)
  moreover have "ring_view rx' ?pos (length data) = data"
    using rx'(3) by (intro nth_equalityI) (simp_all add: ring_view_def del: mod_add_left_eq)
  ultimately have "ring_view rx' head (used + length data) = ring_view rx head used @ data"
    by (simp only: ring_view_add)
  with rx'(1,2) show ?thesis by blast
qed

text \<open>The message an entry stands for, and the bytes that represent it.\<close>

definition rx_message :: "u32w \<Rightarrow> u32w \<Rightarrow> u32w \<Rightarrow> u32w \<Rightarrow> byte list \<Rightarrow> bool \<Rightarrow> message" where
  "rx_message protocol handle status timestamp data indication =
     \<lparr>om_protocol = protocol, om_handle = handle, om_rx_status = status, om_tx_flags = 0,
      om_timestamp_us = timestamp, om_extra_data_index = (if indication then 0 else of_nat (length data)),
      om_data = \<lparr>pb_size = length data, pb_bytes = data @ replicate (J2534_DATA_MAX - length data) 0\<rparr>\<rparr>"

definition fits_message :: "message \<Rightarrow> bool" where
  "fits_message m \<longleftrightarrow> (\<exists>p h st ts data ind. length data \<le> J2534_DATA_MAX \<and> m = rx_message p h st ts data ind)"

definition ring_bytes :: "message \<Rightarrow> byte list" where
  "ring_bytes m = le32 (om_protocol m) @ le32 (om_handle m) @ le32 (om_rx_status m) @ le32 (om_tx_flags m) @
     le32 (om_timestamp_us m) @ le32 (of_nat (pb_size (om_data m))) @ le32 (om_extra_data_index m) @
     take (pb_size (om_data m)) (pb_bytes (om_data m))"

definition message_room :: "message \<Rightarrow> nat" where
  "message_room m = MSG_HEADER + pb_size (om_data m)"

lemma length_ring_bytes: "fits_message m \<Longrightarrow> length (ring_bytes m) = message_room m"
  by (auto simp: fits_message_def ring_bytes_def message_room_def rx_message_def MSG_HEADER_def)

lemma rx_header_bytes:
  "rx_header protocol handle status timestamp (length data) indication = Some (le32 protocol @ le32 handle @
     le32 status @ le32 0 @ le32 timestamp @ le32 (of_nat (length data)) @
     le32 (if indication then 0 else of_nat (length data)))"
  by (simp add: rx_header_def put32_store MSG_HEADER_def)

lemma ring_view_sub:
  assumes "n + k \<le> used"
  shows "ring_view rx ((pos + n) mod RX_BYTES) k = take k (drop n (ring_view rx pos used))"
proof -
  obtain r where r: "used = n + k + r" using assms le_Suc_ex by blast
  show ?thesis by (simp add: r ring_view_add)
qed

definition ring_holds :: "channel \<Rightarrow> message list \<Rightarrow> bool" where
  "ring_holds c q \<longleftrightarrow>
     length (ch_rx c) = RX_BYTES \<and> ch_rx_head c < RX_BYTES \<and> ch_rx_used c \<le> RX_BYTES \<and>
     ring_view (ch_rx c) (ch_rx_head c) (ch_rx_used c) = concat (map ring_bytes q) \<and>
     list_all fits_message q"

lemma ring_used: "ring_holds c q \<Longrightarrow> ch_rx_used c = sum_list (map message_room q)"
proof -
  assume r: "ring_holds c q"
  then have "ch_rx_used c = length (concat (map ring_bytes q))" by (metis ring_holds_def length_ring_view)
  also have "\<dots> = sum_list (map (\<lambda>m. length (ring_bytes m)) q)" by (simp add: length_concat o_def)
  also have "\<dots> = sum_list (map message_room q)"
    using r by (intro arg_cong [where f = sum_list] map_cong) (auto simp: ring_holds_def list_all_iff length_ring_bytes)
  finally show ?thesis .
qed

text \<open>What the ring promises: a bounded queue that remembers that it dropped something.\<close>

definition queue_put :: "message \<Rightarrow> message list \<times> bool \<Rightarrow> message list \<times> bool" where
  "queue_put m = (\<lambda>(q, lost).
     if sum_list (map message_room q) + message_room m > RX_BYTES then (q, True)
     else (q @ [m\<lparr>om_rx_status := om_rx_status m OR (if lost then J2534_RX_OVERFLOW else 0)\<rparr>], False))"

definition queue_get :: "message list \<times> bool \<Rightarrow> (message list \<times> bool) \<times> j2534_status \<times> message option" where
  "queue_get = (\<lambda>(q, lost). case q of
       [] \<Rightarrow> (([], False), if lost then J2534_OVERFLOW else J2534_EMPTY, None)
     | m # q \<Rightarrow> ((q, lost), J2534_OK, Some m))"

definition ring_abs :: "channel \<Rightarrow> message list \<times> bool \<Rightarrow> bool" where
  "ring_abs c a \<longleftrightarrow> ring_holds c (fst a) \<and> ch_overflow c = snd a"

lemma sub32_used: "used \<le> RX_BYTES \<Longrightarrow> sub32 RX_BYTES used = RX_BYTES - used"
  by (simp add: RX_BYTES_def)

lemma enqueue_rx_abs:
  assumes "ring_abs c (q, lost)" "length data \<le> J2534_DATA_MAX"
  shows "\<exists>c'. enqueue_rx handle status ts data ind c = Some c' \<and>
    ring_abs c' (queue_put (rx_message (ch_protocol c) handle status ts data ind) (q, lost))"
proof -
  let ?m = "rx_message (ch_protocol c) handle status ts data ind"
  let ?st = "status OR (if ch_overflow c then J2534_RX_OVERFLOW else 0)"
  let ?m' = "rx_message (ch_protocol c) handle ?st ts data ind"
  note r = assms(1) [unfolded ring_abs_def, simplified, THEN conjunct1]
  have lost: "ch_overflow c = lost" using assms(1) by (simp add: ring_abs_def)
  have room: "message_room ?m = MSG_HEADER + length data" by (simp add: message_room_def rx_message_def)
  have used: "ch_rx_used c \<le> RX_BYTES" using r by (simp add: ring_holds_def)
  have eq: "MSG_HEADER + length data > sub32 RX_BYTES (ch_rx_used c) \<longleftrightarrow>
      sum_list (map message_room q) + message_room ?m > RX_BYTES"
    unfolding sub32_used [OF used] room ring_used [OF r, symmetric] using used by linarith
  show ?thesis
  proof (cases "MSG_HEADER + length data > sub32 RX_BYTES (ch_rx_used c)")
    case True
    have "enqueue_rx handle status ts data ind c = Some (c\<lparr>ch_overflow := True\<rparr>)"
      unfolding enqueue_rx_def Let_def if_P [OF True] ..
    moreover have "queue_put ?m (q, lost) = (q, True)" using True eq by (simp add: queue_put_def)
    ultimately show ?thesis using r by (simp add: ring_abs_def ring_holds_def)
  next
    case False
    let ?h = "le32 (ch_protocol c) @ le32 handle @ le32 ?st @ le32 0 @ le32 ts @ le32 (of_nat (length data)) @
      le32 (if ind then 0 else of_nat (length data))"
    have lh: "length ?h = MSG_HEADER" by (simp add: MSG_HEADER_def)
    have fit: "ch_rx_used c + MSG_HEADER + length data \<le> RX_BYTES"
      using False used by (simp add: sub32_used)
    let ?R = RX_BYTES and ?hd = "ch_rx_head c" and ?u = "ch_rx_used c"
    have hd: "?hd < ?R" "length (ch_rx c) = ?R" using r by (simp_all add: ring_holds_def)
    have "?u + length ?h \<le> ?R" using fit lh by simp
    from ring_store_view [OF hd(2,1) this] obtain rx1 where
      s1: "ring_store (ch_rx c) ((?hd + ?u) mod ?R) ?h = Some rx1" "length rx1 = ?R"
        "ring_view rx1 ?hd (?u + MSG_HEADER) = ring_view (ch_rx c) ?hd ?u @ ?h" unfolding lh by blast
    from ring_store_view [OF s1(2) hd(1) fit] obtain rx2 where
      s2: "ring_store rx1 ((?hd + (?u + MSG_HEADER)) mod ?R) data = Some rx2" "length rx2 = ?R"
        "ring_view rx2 ?hd (?u + MSG_HEADER + length data) = ring_view rx1 ?hd (?u + MSG_HEADER) @ data" by blast
    let ?c = "c\<lparr>ch_rx := rx2, ch_rx_used := ?u + (MSG_HEADER + length data), ch_overflow := False\<rparr>"
    have "enqueue_rx handle status ts data ind c = Some ?c"
      unfolding enqueue_rx_def Let_def if_not_P [OF False] rx_header_bytes Option.bind.bind_lunit ring_write_def s1(1)
      by (simp add: s2(1))
    moreover have "ring_holds ?c (q @ [?m'])"
    proof -
      have "ring_bytes ?m' = ?h @ data" by (simp add: ring_bytes_def rx_message_def)
      moreover have "ring_view rx2 ?hd (?u + (MSG_HEADER + length data)) = concat (map ring_bytes q) @ ?h @ data"
        using s2(3) s1(3) r by (simp add: ring_holds_def add.assoc)
      moreover have "fits_message ?m'" using assms(2) unfolding fits_message_def by blast
      ultimately show ?thesis using s2(2) hd(1) r fit by (simp add: ring_holds_def)
    qed
    moreover have "?m\<lparr>om_rx_status := om_rx_status ?m OR (if lost then J2534_RX_OVERFLOW else 0)\<rparr> = ?m'"
      by (simp add: rx_message_def lost)
    then have "queue_put ?m (q, lost) = (q @ [?m'], False)" using False eq by (simp add: queue_put_def)
    ultimately show ?thesis by (simp add: ring_abs_def)
  qed
qed

lemma header_fields:
  fixes a b c d e f g :: u32w
  defines "h \<equiv> le32 a @ le32 b @ le32 c @ le32 d @ le32 e @ le32 f @ le32 g"
  shows "j2534_u32 h 0 = Some a" "j2534_u32 h 4 = Some b" "j2534_u32 h 8 = Some c"
    "j2534_u32 h 12 = Some d" "j2534_u32 h 16 = Some e" "j2534_u32 h 20 = Some f" "j2534_u32 h 24 = Some g"
  unfolding h_def
  using j2534_u32_at [of "[]" 0 a] j2534_u32_at [of "le32 a" 4 b] j2534_u32_at [of "le32 a @ le32 b" 8 c]
    j2534_u32_at [of "le32 a @ le32 b @ le32 c" 12 d] j2534_u32_at [of "le32 a @ le32 b @ le32 c @ le32 d" 16 e]
    j2534_u32_at [of "le32 a @ le32 b @ le32 c @ le32 d @ le32 e" 20 f]
    j2534_u32_at [of "le32 a @ le32 b @ le32 c @ le32 d @ le32 e @ le32 f" 24 g "[]"]
  by simp_all

lemma ring_take_abs:
  assumes "ring_abs c a"
  shows "\<exists>c'. ring_take c = Some (c', snd (queue_get a)) \<and> ring_abs c' (fst (queue_get a)) \<and>
    ch_protocol c' = ch_protocol c"
proof -
  obtain q lost where a: "a = (q, lost)" by (cases a)
  have r: "ring_holds c q" and lost: "ch_overflow c = lost" using assms by (simp_all add: a ring_abs_def)
  show ?thesis
  proof (cases q)
    case Nil
    then have "ch_rx_used c = 0" using ring_used [OF r] by simp
    then show ?thesis using r lost Nil by (simp add: ring_take_def queue_get_def a ring_abs_def ring_holds_def)
  next
    case (Cons m q')
    let ?hd = "ch_rx_head c" and ?u = "ch_rx_used c" and ?R = RX_BYTES
    let ?v = "ring_view (ch_rx c) ?hd ?u"
    have hd: "?hd < ?R" "length (ch_rx c) = ?R" and v: "?v = ring_bytes m @ concat (map ring_bytes q')"
      and m: "fits_message m" and q': "list_all fits_message q'"
      using r Cons by (simp_all add: ring_holds_def)
    obtain p h st ts data ind where data: "length data \<le> J2534_DATA_MAX" and
      me: "m = rx_message p h st ts data ind" using m unfolding fits_message_def by blast
    let ?n = "length data"
    let ?h = "le32 p @ le32 h @ le32 st @ le32 0 @ le32 ts @ le32 (of_nat ?n) @ le32 (if ind then 0 else of_nat ?n)"
    have bytes: "ring_bytes m = ?h @ data" by (simp add: ring_bytes_def rx_message_def me)
    have n: "unat (of_nat ?n :: u32w) = ?n" using data by (simp add: unat_of_nat J2534_DATA_MAX_def)
    have room: "message_room m = MSG_HEADER + ?n" by (simp add: message_room_def me rx_message_def)
    have u: "?u = MSG_HEADER + ?n + sum_list (map message_room q')" using ring_used [OF r] Cons room by simp
    have lh: "length ?h = MSG_HEADER" by (simp add: MSG_HEADER_def)
    have "ring_view (ch_rx c) ((?hd + 0) mod ?R) MSG_HEADER = take MSG_HEADER (drop 0 ?v)"
      using u by (intro ring_view_sub) simp
    then have head: "ring_read c 0 MSG_HEADER = Some ?h"
      using hd lh by (simp add: ring_read_def ring_load_view v bytes)
    have "ring_view (ch_rx c) ((?hd + MSG_HEADER) mod ?R) ?n = take ?n (drop MSG_HEADER ?v)"
      using u by (intro ring_view_sub) simp
    then have body: "ring_read c MSG_HEADER ?n = Some data"
      using hd lh by (simp add: ring_read_def ring_load_view v bytes)
    have fields: "j2534_u32 ?h 0 = Some p" "j2534_u32 ?h 4 = Some h" "j2534_u32 ?h 8 = Some st"
      "j2534_u32 ?h 12 = Some 0" "j2534_u32 ?h 16 = Some ts" "j2534_u32 ?h 20 = Some (of_nat ?n)"
      "j2534_u32 ?h 24 = Some (if ind then 0 else of_nat ?n)"
      by (rule header_fields)+
    have store: "store_at (pb_bytes (om_data message_zero)) 0 data =
        Some (data @ replicate (J2534_DATA_MAX - ?n) 0)"
      using data by (simp add: message_zero_def pb_zero_def)
    have used: "?u \<noteq> 0" using u by (simp add: MSG_HEADER_def)
    have uR: "?u \<le> ?R" using r by (simp add: ring_holds_def)
    then have sub: "sub32 ?u (MSG_HEADER + ?n) = sum_list (map message_room q')"
      using u by (simp add: RX_BYTES_def)
    let ?c = "c\<lparr>ch_rx_head := (?hd + (MSG_HEADER + ?n)) mod ?R, ch_rx_used := sum_list (map message_room q')\<rparr>"
    have eq: "ring_take c = Some (?c, J2534_OK, Some m)"
      unfolding ring_take_def if_not_P [OF used] head Option.bind.bind_lunit fields n body store Let_def sub
      by (simp add: me rx_message_def)
    have "ring_view (ch_rx c) ((?hd + (MSG_HEADER + ?n)) mod ?R) (sum_list (map message_room q')) =
        take (sum_list (map message_room q')) (drop (MSG_HEADER + ?n) ?v)"
      using u by (intro ring_view_sub) simp
    also have "\<dots> = concat (map ring_bytes q')"
    proof -
      have "drop (MSG_HEADER + ?n) ?v = concat (map ring_bytes q')" using lh by (simp add: v bytes)
      moreover have "?u = length (ring_bytes m @ concat (map ring_bytes q'))"
        by (simp only: v [symmetric] length_ring_view)
      then have "length (concat (map ring_bytes q')) = sum_list (map message_room q')"
        using u lh by (simp add: bytes)
      ultimately show ?thesis by simp
    qed
    finally have "ring_holds ?c q'" using hd q' u uR by (simp add: ring_holds_def)
    then show ?thesis using eq lost by (simp add: a Cons queue_get_def ring_abs_def)
  qed
qed

section \<open>The ring refines a bounded queue\<close>

datatype ring_call = RingPut u32w u32w u32w "byte list" bool | RingGet

fun ring_step :: "channel \<Rightarrow> ring_call \<Rightarrow> (channel \<times> j2534_status \<times> message option) option" where
  "ring_step c (RingPut handle status ts data ind) =
     map_option (\<lambda>c. (c, J2534_OK, None)) (enqueue_rx handle status ts data ind c)"
| "ring_step c RingGet = ring_take c"

fun queue_step :: "u32w \<Rightarrow> message list \<times> bool \<Rightarrow> ring_call \<Rightarrow> (message list \<times> bool) \<times> j2534_status \<times> message option" where
  "queue_step p a (RingPut handle status ts data ind) =
     (queue_put (rx_message p handle status ts data ind) a, J2534_OK, None)"
| "queue_step p a RingGet = queue_get a"

definition ring_call_ok :: "ring_call \<Rightarrow> bool" where
  "ring_call_ok i \<longleftrightarrow> (case i of RingPut _ _ _ data _ \<Rightarrow> length data \<le> J2534_DATA_MAX | RingGet \<Rightarrow> True)"

lemma enqueue_rx_protocol: "enqueue_rx h st ts data ind c = Some c' \<Longrightarrow> ch_protocol c' = ch_protocol c"
  by (auto simp: enqueue_rx_def ring_write_def Let_def split: if_splits Option.bind_splits)

interpretation ringm: simulation ring_step "queue_step p" "\<lambda>c a. ring_abs c a \<and> ch_protocol c = p" ring_call_ok for p
proof
  fix c a i assume r: "ring_abs c a \<and> ch_protocol c = p" and "ring_call_ok i"
  then show "\<exists>c'. ring_step c i = Some (c', snd (queue_step p a i)) \<and>
      (ring_abs c' (fst (queue_step p a i)) \<and> ch_protocol c' = p)"
  proof (cases i)
    case RingGet
    then show ?thesis using ring_take_abs [of c a] r by auto
  next
    case (RingPut h st ts data ind)
    then obtain c' where "enqueue_rx h st ts data ind c = Some c'"
      "ring_abs c' (queue_put (rx_message (ch_protocol c) h st ts data ind) a)"
      using enqueue_rx_abs [of c "fst a" "snd a" data h st ts ind] r \<open>ring_call_ok i\<close> by (auto simp: ring_call_ok_def)
    then show ?thesis using r RingPut enqueue_rx_protocol by auto
  qed
qed

text \<open>C33: The 8 KiB receive ring of a channel, into which headers and data are copied byte by byte
  across the wrap, behaves as a bounded queue of messages for every sequence of arrivals and reads:
  no access leaves the ring or a message buffer, messages come out whole, unchanged and in order
  of arrival; one that does not fit is dropped, and that is reported once, by the overflow bit of
  the next message that fits or, if the queue runs empty first, by the overflow status.\<close>

theorem j2534_ring_queue:
  assumes "ring_abs c ([], False)" "list_all ring_call_ok calls"
  shows "\<exists>c'. run_calls ring_step c calls = Some (c', snd (run_spec (queue_step (ch_protocol c)) ([], False) calls)) \<and>
    ring_abs c' (fst (run_spec (queue_step (ch_protocol c)) ([], False) calls))"
  using ringm.run_simulates [of c "([], False)" "ch_protocol c" calls] assms by auto

definition channel_fresh :: channel where
  "channel_fresh = channel_zero\<lparr>ch_id := 2, ch_protocol := J2534_CAN, ch_rx := replicate RX_BYTES 0,
     ch_tx := replicate TX_BYTES 0\<rparr>"

lemma channel_fresh_ring: "ring_abs channel_fresh ([], False)"
  by (simp add: ring_abs_def ring_holds_def channel_fresh_def channel_zero_def ring_view_def)

lemma j2534_ring_queue_witness:
  "\<exists>c'. run_calls ring_step channel_fresh [RingPut 0 0 77 [1, 2, 3, 4, 5] False, RingPut 9 8 78 [] True, RingGet, RingGet, RingGet] =
     Some (c', [(J2534_OK, None), (J2534_OK, None),
       (J2534_OK, Some (rx_message 5 0 0 77 [1, 2, 3, 4, 5] False)), (J2534_OK, Some (rx_message 5 9 8 78 [] True)),
       (J2534_EMPTY, None)])"
proof -
  let ?calls = "[RingPut 0 0 77 [1, 2, 3, 4, 5] False, RingPut 9 8 78 [] True, RingGet, RingGet, RingGet]"
  have ok: "list_all ring_call_ok ?calls" by (simp add: ring_call_ok_def J2534_DATA_MAX_def)
  have "snd (run_spec (queue_step (ch_protocol channel_fresh)) ([], False) ?calls) =
      [(J2534_OK, None), (J2534_OK, None), (J2534_OK, Some (rx_message 5 0 0 77 [1, 2, 3, 4, 5] False)),
       (J2534_OK, Some (rx_message 5 9 8 78 [] True)), (J2534_EMPTY, None)]"
    by (simp add: queue_put_def queue_get_def rx_message_def message_room_def MSG_HEADER_def RX_BYTES_def
        channel_fresh_def channel_zero_def J2534_CAN_def)
  then show ?thesis using j2534_ring_queue [OF channel_fresh_ring ok] by auto
qed

section \<open>What the filters accept\<close>

definition filter_ok :: "filter_t \<Rightarrow> bool" where
  "filter_ok f \<longleftrightarrow> length (ft_mask f) = 12 \<and> length (ft_pattern f) = 12 \<and> ft_len f \<le> 12 \<and>
     (ft_id f \<noteq> 0 \<longrightarrow> ft_type f \<in> {FILTER_PASS, FILTER_BLOCK})"

text \<open>A registered filter hits a message with its address format that agrees with the pattern
  wherever the mask has a bit.\<close>

definition filter_hits :: "filter_t \<Rightarrow> byte list \<Rightarrow> u32w \<Rightarrow> bool" where
  "filter_hits f data flags \<longleftrightarrow> filter_applies f data flags \<and>
     (\<forall>j<ft_len f. data ! j AND ft_mask f ! j = ft_pattern f ! j AND ft_mask f ! j)"

lemma filter_bytes_eq:
  "\<forall>j \<in> set js. j < length data \<and> j < length (ft_mask f) \<and> j < length (ft_pattern f) \<Longrightarrow>
   filter_bytes f data js same =
     Some (same \<and> (\<forall>j \<in> set js. data ! j AND ft_mask f ! j = ft_pattern f ! j AND ft_mask f ! j))"
  by (induction js arbitrary: same) auto

lemma filters_accept_eq:
  "list_all filter_ok fs \<Longrightarrow> filters_accept fs data flags pass =
     Some ((pass \<or> (\<exists>f \<in> set fs. filter_hits f data flags)) \<and>
       \<not> (\<exists>f \<in> set fs. filter_hits f data flags \<and> ft_type f = FILTER_BLOCK))"
proof (induction fs arbitrary: pass)
  case Nil
  then show ?case by simp
next
  case (Cons f fs)
  from Cons.prems have f: "filter_ok f" and fs: "list_all filter_ok fs" by simp_all
  show ?case
  proof (cases "filter_applies f data flags")
    case False
    then have "\<not> filter_hits f data flags" by (simp add: filter_hits_def)
    with False show ?thesis using Cons.IH [OF fs, of pass] by auto
  next
    case True
    then have "filter_bytes f data [0..<ft_len f] True = Some (filter_hits f data flags)"
      using f by (subst filter_bytes_eq) (auto simp: filter_applies_def filter_ok_def filter_hits_def)
    with True show ?thesis using Cons.IH [OF fs, of pass] Cons.IH [OF fs, of True] by auto
  qed
qed

text \<open>C34: A channel passes a message to its queue exactly if one of its registered PASS filters hits
  it and none of its registered BLOCK filters does, whatever the order of the slots; with no
  filter nothing passes.\<close>

theorem j2534_filter_rule:
  assumes "list_all filter_ok (ch_filters c)"
  shows "filter_accepts c data flags = Some
    ((\<exists>f \<in> set (ch_filters c). filter_hits f data flags \<and> ft_type f = FILTER_PASS) \<and>
     \<not> (\<exists>f \<in> set (ch_filters c). filter_hits f data flags \<and> ft_type f = FILTER_BLOCK))"
proof -
  have "ft_type f = FILTER_PASS \<or> ft_type f = FILTER_BLOCK" if "f \<in> set (ch_filters c)" "filter_hits f data flags" for f
    using that assms by (auto simp: list_all_iff filter_ok_def filter_hits_def filter_applies_def)
  then show ?thesis
    by (auto simp: filter_accepts_def filters_accept_eq [OF assms] FILTER_PASS_def FILTER_BLOCK_def)
qed

lemma filter_ok_zero [simp]: "filter_ok filter_zero"
  by (simp add: filter_ok_def filter_zero_def)

lemma j2534_filter_rule_witness:
  "filter_accepts (channel_fresh\<lparr>ch_filters :=
      [filter_zero\<lparr>ft_id := 7, ft_type := FILTER_PASS, ft_len := 1, ft_mask := 0xF0 # replicate 11 0,
         ft_pattern := 0x70 # replicate 11 0\<rparr>,
       filter_zero\<lparr>ft_id := 8, ft_type := FILTER_BLOCK, ft_len := 1, ft_mask := 0xFF # replicate 11 0,
         ft_pattern := 0x7F # replicate 11 0\<rparr>]\<rparr>) [0x75, 1] 0 = Some True"
  (is "filter_accepts ?c _ _ = _")
proof -
  have "list_all filter_ok (ch_filters ?c)"
    by (simp add: filter_ok_def filter_zero_def FILTER_PASS_def FILTER_BLOCK_def)
  from j2534_filter_rule [OF this, of "[0x75, 1]" 0] show ?thesis
    by (simp add: filter_hits_def filter_applies_def filter_zero_def FILTER_PASS_def FILTER_BLOCK_def)
qed

end
