(* ===== verification/J2534Core.thy ===== *)
theory J2534Core
  imports J2534Channel
begin

text \<open>
The core of the J2534 pass-through of \<open>main/j2534.c\<close>, up to its requests: the table of three
  physical and two logical channels, and the service of a bus: results of transmissions,
  received records, timers, flow control, scheduled and queued messages. A pointer to a channel
  is its index. \<open>None\<close> is an access outside an array or through a null pointer.
\<close>

section \<open>The state of the core\<close>

text \<open>
  The environment: the bus drivers and workers as in \<open>Vif\<close>, the task of the link, the clock,
  \<open>malloc\<close>, the two voltage readings and the version text. \<open>'d\<close> is the state of all of these.
\<close>

record 'd core_env =
  ce_vif :: "'d vif_env"
  ce_me :: nat
  ce_now :: "'d \<Rightarrow> 'd \<times> u32w"
  ce_alloc :: "nat \<Rightarrow> 'd \<Rightarrow> 'd \<times> byte list option"
  ce_vbatt_mv :: "'d \<Rightarrow> 'd \<times> int"
  ce_hs_vsense_mv :: "'d \<Rightarrow> 'd \<times> int"
  ce_version :: string

record capabilities =
  cb_wire_version :: u32w
  cb_api_version :: u32w
  cb_physical_channels :: nat
  cb_logical_channels :: nat
  cb_filters_per_channel :: nat
  cb_periodic_per_channel :: nat
  cb_fragment_bytes :: nat
  cb_rpc_bytes :: nat
  cb_rx_queue_bytes :: nat
  cb_tx_queue_messages :: nat
  cb_protocols :: "(u32w \<times> nat \<times> nat \<times> nat) list"
  cb_fast_init_max_data :: nat
  cb_repeat_per_channel :: nat

text \<open>\<open>opendiag_Response\<close>. A member with its \<open>has_\<close> flag is an option, a counted array a list.\<close>

record response =
  rp_status :: u32w
  rp_id :: u32w
  rp_count :: nat
  rp_message :: "message option"
  rp_config :: "(u32w \<times> u32w) list"
  rp_data :: pb_array
  rp_channels :: "u32w list"
  rp_text :: string
  rp_capabilities :: "capabilities option"
  rp_millivolts :: nat
  rp_repeat_active :: bool

definition response_zero :: response where
  "response_zero = \<lparr>rp_status = 0, rp_id = 0, rp_count = 0, rp_message = None, rp_config = [],
     rp_data = pb_zero 255, rp_channels = [], rp_text = [], rp_capabilities = None, rp_millivolts = 0,
     rp_repeat_active = False\<rparr>"

record 'd j2534 =
  jc_channels :: "channel list"
  jc_device :: u32w
  jc_next_id :: u32w
  jc_last_error :: u32w
  jc_voltage_pin :: int
  jc_response :: response
  jc_vif :: "vif \<times> 'd"

section \<open>Channels by index\<close>

text \<open>A \<open>channel_t *\<close> is the index of its element. \<open>upd\<close> and \<open>upd_opt\<close> change one element.\<close>

definition chan :: "'d j2534 \<Rightarrow> nat \<Rightarrow> channel option" where
  "chan s k = get_at (jc_channels s) k"

definition upd_opt :: "nat \<Rightarrow> (channel \<Rightarrow> channel option) \<Rightarrow> 'd j2534 \<Rightarrow> 'd j2534 option" where
  "upd_opt k f s = do {
     c \<leftarrow> chan s k;
     c \<leftarrow> f c;
     Some (s\<lparr>jc_channels := (jc_channels s)[k := c]\<rparr>)
   }"

definition upd :: "nat \<Rightarrow> (channel \<Rightarrow> channel) \<Rightarrow> 'd j2534 \<Rightarrow> 'd j2534 option" where
  "upd k f = upd_opt k (\<lambda>c. Some (f c))"

definition now_us :: "'d core_env \<Rightarrow> 'd j2534 \<Rightarrow> 'd j2534 \<times> u32w" where
  "now_us ce s = (let (d, t) = ce_now ce (snd (jc_vif s)) in (s\<lparr>jc_vif := (fst (jc_vif s), d)\<rparr>, t))"

definition vif_do :: "(vif \<times> 'd \<Rightarrow> (vif \<times> 'd) \<times> 'a) \<Rightarrow> 'd j2534 \<Rightarrow> 'd j2534 \<times> 'a" where
  "vif_do f s = (let (gd, a) = f (jc_vif s) in (s\<lparr>jc_vif := gd\<rparr>, a))"

definition vif_upd :: "(vif \<times> 'd \<Rightarrow> vif \<times> 'd) \<Rightarrow> 'd j2534 \<Rightarrow> 'd j2534" where
  "vif_upd f s = s\<lparr>jc_vif := f (jc_vif s)\<rparr>"

definition vif_get :: "(vif \<Rightarrow> 'a) \<Rightarrow> 'd j2534 \<Rightarrow> 'a" where
  "vif_get f s = f (fst (jc_vif s))"

definition new_id :: "'d j2534 \<Rightarrow> 'd j2534 \<times> u32w" where
  "new_id s = (let n = jc_next_id s + 1; n = (if n = 0 then n + 1 else n) in (s\<lparr>jc_next_id := n\<rparr>, n))"

definition find_channel :: "'d j2534 \<Rightarrow> u32w \<Rightarrow> nat option" where
  "find_channel s i = find (\<lambda>k. i \<noteq> 0 \<and> ch_id (jc_channels s ! k) = i) [0..<CHANNELS]"

definition physical_channel :: "'d j2534 \<Rightarrow> nat \<Rightarrow> nat option" where
  "physical_channel s k =
     (let c = jc_channels s ! k in if ch_parent c \<noteq> 0 then find_channel s (ch_parent c) else Some k)"

definition channel_is_live :: "'d j2534 \<Rightarrow> nat option \<Rightarrow> bool" where
  "channel_is_live s kp = (case kp of
       None \<Rightarrow> False
     | Some k \<Rightarrow> physical_channel s k \<noteq> None \<and>
         vif_get (vif_bus_is_open VIF_OWNER_LINK (ch_bus (jc_channels s ! k))) s)"

definition bus_error :: "int \<Rightarrow> j2534_status" where
  "bus_error rc =
     (if rc = 0 then J2534_OK
      else if rc = BUS_ERR_TIMEOUT then J2534_TIMEOUT
      else if rc = BUS_ERR_NO_SPACE then J2534_FULL
      else if rc = BUS_ERR_TOO_LONG \<or> rc = BUS_ERR_BAD_ARG then J2534_MSG
      else if rc = BUS_ERR_UNSUPPORTED then J2534_NOT_SUPPORTED
      else if rc = BUS_ERR_INIT then J2534_INIT
      else if rc = BUS_ERR_NOT_READY then J2534_CHANNEL
      else J2534_FAILED)"

section \<open>Cancelling and finishing a transmission\<close>

definition enqueue ::
  "nat \<Rightarrow> u32w \<Rightarrow> u32w \<Rightarrow> u32w \<Rightarrow> byte list \<Rightarrow> bool \<Rightarrow> 'd j2534 \<Rightarrow> 'd j2534 option" where
  "enqueue k handle status timestamp data indication =
     upd_opt k (enqueue_rx handle status timestamp data indication)"

definition bus_cancel :: "'d core_env \<Rightarrow> vif_bus \<Rightarrow> 'd j2534 \<Rightarrow> 'd j2534" where
  "bus_cancel ce bus = vif_upd (vif_bus_tx_cancel (ce_vif ce) (ce_me ce) VIF_OWNER_LINK bus)"

text \<open>\<open>pending.discard = true\<close> and the request to the worker.\<close>

definition discard_pending :: "'d core_env \<Rightarrow> nat \<Rightarrow> 'd j2534 \<Rightarrow> 'd j2534 option" where
  "discard_pending ce p s = do {
     ph \<leftarrow> chan s p;
     s \<leftarrow> upd p (\<lambda>c. c\<lparr>ch_pending := (ch_pending c)\<lparr>pt_discard := True\<rparr>\<rparr>) s;
     Some (bus_cancel ce (ch_bus ph) s)
   }"

definition cancel_channel_tx :: "'d core_env \<Rightarrow> nat \<Rightarrow> 'd j2534 \<Rightarrow> 'd j2534 option" where
  "cancel_channel_tx ce k s = do {
     c \<leftarrow> chan s k;
     case physical_channel s k of
       None \<Rightarrow> Some s
     | Some p \<Rightarrow> do {
         ph \<leftarrow> chan s p;
         if pt_channel (ch_pending ph) \<noteq> ch_id c then Some s else discard_pending ce p s
       }
   }"

definition echo_can :: "nat \<Rightarrow> can_frame \<Rightarrow> u32w \<Rightarrow> 'd j2534 \<Rightarrow> 'd j2534 option" where
  "echo_can p frame timestamp s = do {
     ph \<leftarrow> chan s p;
     if ch_echo ph = 0 then Some s
     else do {
       payload \<leftarrow> load_at (can_data frame) 0 (can_dlc frame);
       data \<leftarrow> store_at (replicate 12 0) 0 (put_be32 (can_id frame AND CAN_EFF_MASK));
       data \<leftarrow> store_at data 4 payload;
       data \<leftarrow> load_at data 0 (can_dlc frame + 4);
       let flags = (if can_id frame AND CAN_EFF_FLAG \<noteq> 0 then J2534_29BIT else 0);
       pass \<leftarrow> filter_accepts ph data flags;
       if pass then enqueue p 0 (flags OR J2534_TX_MSG) timestamp data False s else Some s
     }
   }"

definition tx_done :: "'d core_env \<Rightarrow> nat \<Rightarrow> bool \<Rightarrow> 'd j2534 \<Rightarrow> 'd j2534 option" where
  "tx_done ce k success s = do {
     c \<leftarrow> chan s k;
     handle \<leftarrow> j2534_u32 (ch_tx c) 4;
     s \<leftarrow> (if handle = 0 then Some s
          else let (s, now) = now_us ce s in
            enqueue k handle (if success then J2534_TX_SUCCESS else J2534_TX_FAILED) now [] True s);
     upd k (\<lambda>c. c\<lparr>ch_tx_len := 0, ch_tx_active := False\<rparr>) s
   }"

definition send_byte_message :: "'d core_env \<Rightarrow> nat \<Rightarrow> 'd j2534 \<Rightarrow> ('d j2534 \<times> int) option" where
  "send_byte_message ce k s = do {
     c \<leftarrow> chan s k;
     flags \<leftarrow> j2534_u32 (ch_tx c) 12;
     let msg = bus_msg_tx (drop MSG_HEADER (ch_tx c)) (sub32 (ch_tx_len c) MSG_HEADER) 0;
     Some (vif_do (vif_bus_send (ce_vif ce) (ce_me ce) VIF_OWNER_LINK (ch_bus c) (Some msg)
       (if flags AND J2534_WAIT_P3 \<noteq> 0 then BUS_TX_WAIT_P3_MIN_ONLY else 0)) s)
   }"

definition confirm_protocol_tx ::
  "'d core_env \<Rightarrow> nat \<Rightarrow> pending_tx \<Rightarrow> bool \<Rightarrow> u32w \<Rightarrow> 'd j2534 \<Rightarrow> 'd j2534 option" where
  "confirm_protocol_tx ce k pending success timestamp s = do {
     c \<leftarrow> chan s k;
     if pt_kind pending = TX_FLOW_CONTROL then
       (if pt_rx_generation pending = ch_rx_generation c
        then upd k (\<lambda>c. c\<lparr>ch_iso_rx := fst (isotp_rx_confirm (ch_iso_rx c) success timestamp)\<rparr>) s
        else Some s)
     else if pt_kind pending = TX_ISOTP then do {
       let (tx, rc) = isotp_tx_confirm (ch_iso_tx c) success timestamp;
       s \<leftarrow> upd k (\<lambda>c. c\<lparr>ch_iso_tx := tx\<rparr>) s;
       if isotp_code rc < 0 \<or> tx_state tx = ISOTP_TX_IDLE then tx_done ce k (0 \<le> isotp_code rc) s
       else Some s
     }
     else tx_done ce k success s
   }"

text \<open>One element of the schedule, through the pointer \<open>job\<close>.\<close>

definition upd_job :: "nat \<Rightarrow> nat \<Rightarrow> (schedule_job \<Rightarrow> schedule_job) \<Rightarrow> 'd j2534 \<Rightarrow> 'd j2534 option" where
  "upd_job k j f = upd_opt k (\<lambda>c. do {
     job \<leftarrow> get_at (ch_scheduler c) j;
     Some (c\<lparr>ch_scheduler := (ch_scheduler c)[j := f job]\<rparr>)
   })"

definition finish_scheduled ::
  "'d core_env \<Rightarrow> nat \<Rightarrow> pending_tx \<Rightarrow> bus_tx_result \<Rightarrow> 'd j2534 \<Rightarrow> 'd j2534 option" where
  "finish_scheduled ce k pending result s = do {
     c \<leftarrow> chan s k;
     let success = (rs_status result = 0);
     let deferred = (rs_status result = BUS_ERR_RX_PENDING \<or>
       (rs_status result = BUS_ERR_CANCELLED \<and> pt_discard pending));
     s \<leftarrow> (case j2534_schedule_find (ch_scheduler c) (pt_job pending) of
         None \<Rightarrow> Some s
       | Some j \<Rightarrow>
           let (s, start) = (if success then (s, rs_started_us result) else now_us ce s);
               end_us = (if success then rs_ended_us result else start)
           in if deferred then upd_job k j j2534_schedule_defer s
              else upd_job k j (\<lambda>job. j2534_schedule_complete job success start end_us) s);
     if \<not> pt_discard pending \<and> \<not> deferred \<and> rs_status result \<noteq> BUS_ERR_CANCELLED \<and> pt_handle pending \<noteq> 0
     then enqueue k (pt_handle pending) (if success then J2534_TX_SUCCESS else J2534_TX_FAILED)
       (rs_ended_us result) [] True s
     else Some s
   }"

definition finish_bus_tx :: "'d core_env \<Rightarrow> nat \<Rightarrow> bus_tx_result \<Rightarrow> 'd j2534 \<Rightarrow> 'd j2534 option" where
  "finish_bus_tx ce p result s = do {
     ph \<leftarrow> chan s p;
     let pending = ch_pending ph;
     s \<leftarrow> upd p (\<lambda>c. c\<lparr>ch_pending := pending_zero\<rparr>) s;
     let channel = find_channel s (pt_channel pending);
     s \<leftarrow> (if rs_status result = 0 \<and> ch_bus ph = VIF_BUS_CAN
          then echo_can p (pt_frame pending) (rs_ended_us result) s else Some s);
     case channel of
       None \<Rightarrow> Some s
     | Some k \<Rightarrow>
         if pt_kind pending = TX_SCHEDULED then finish_scheduled ce k pending result s
         else if pt_discard pending \<or> pt_confirmed pending then Some s
         else let (s, now) = now_us ce s in
           confirm_protocol_tx ce k pending (rs_status result = 0) now s
   }"

definition collect_bus_tx :: "'d core_env \<Rightarrow> nat \<Rightarrow> 'd j2534 \<Rightarrow> 'd j2534 option" where
  "collect_bus_tx ce p s = do {
     ph \<leftarrow> chan s p;
     let pending = ch_pending ph;
     if pt_kind pending = TX_NONE then Some s
     else case vif_do (vif_bus_tx_poll (ce_vif ce) (ce_me ce) VIF_OWNER_LINK (ch_bus ph)) s of
         (s, None) \<Rightarrow> Some s
       | (s, Some result) \<Rightarrow>
           if rs_complete result then finish_bus_tx ce p result s
           else if \<not> pt_discard pending \<and> (pt_kind pending = TX_ISOTP \<or> pt_kind pending = TX_FLOW_CONTROL)
           then (case find_channel s (pt_channel pending) of
               None \<Rightarrow> Some s
             | Some k \<Rightarrow>
                 if pt_confirmed pending then Some s
                 else do {
                   s \<leftarrow> confirm_protocol_tx ce k pending True (rs_ended_us result) s;
                   upd p (\<lambda>c. c\<lparr>ch_pending := (ch_pending c)\<lparr>pt_confirmed := True\<rparr>\<rparr>) s
                 })
           else if pt_kind pending = TX_SCHEDULED
           then (case find_channel s (pt_channel pending) of
               None \<Rightarrow> Some s
             | Some k \<Rightarrow> do {
                 c \<leftarrow> chan s k;
                 case j2534_schedule_find (ch_scheduler c) (pt_job pending) of
                   None \<Rightarrow> Some s
                 | Some j \<Rightarrow>
                     upd_job k j (\<lambda>job. j2534_schedule_transmitted job (rs_started_us result) (rs_ended_us result)) s
               })
           else Some s
   }"

section \<open>Submitting\<close>

text \<open>\<open>physical\<close> is dereferenced unchecked: a channel without one is a fault.\<close>

definition submit_bus_tx ::
  "'d core_env \<Rightarrow> nat \<Rightarrow> tx_kind \<Rightarrow> u32w \<Rightarrow> u32w \<Rightarrow> bus_msg \<Rightarrow> u32w \<Rightarrow> 'd j2534 \<Rightarrow> 'd j2534 option" where
  "submit_bus_tx ce k kind job handle msg bus_flags s = do {
     c \<leftarrow> chan s k;
     p \<leftarrow> physical_channel s k;
     ph \<leftarrow> chan s p;
     let pending = pending_zero\<lparr>pt_kind := kind, pt_channel := ch_id c, pt_job := job, pt_handle := handle,
       pt_rx_generation := ch_rx_generation c\<rparr>;
     (pending, bus_flags) \<leftarrow>
       (if ch_bus ph = VIF_BUS_CAN then do {
          payload \<leftarrow> load_at (bm_data msg) 0 (bm_len msg);
          data \<leftarrow> store_at (can_data frame_zero) 0 payload;
          Some (pending\<lparr>pt_frame := \<lparr>can_id = bm_id msg, can_dlc = u8 (bm_len msg), can_data = data\<rparr>\<rparr>,
                bus_flags OR BUS_TX_WAIT_DONE)
        } else Some (pending, bus_flags));
     s \<leftarrow> upd p (\<lambda>c. c\<lparr>ch_pending := pending\<rparr>) s;
     let (s, rc) = vif_do (vif_bus_submit (ce_vif ce) (ce_me ce) VIF_OWNER_LINK (ch_bus ph) msg bus_flags
       (ch_rx_sequence ph)) s;
     if rc = 0 then Some s
     else
       let (s, started) = now_us ce s; (s, ended) = now_us ce s
       in finish_bus_tx ce p \<lparr>rs_status = rc, rs_complete = True, rs_started = False,
            rs_started_us = started, rs_ended_us = ended\<rparr> s
   }"

definition submit_can :: "'d core_env \<Rightarrow> nat \<Rightarrow> tx_kind \<Rightarrow> can_frame \<Rightarrow> 'd j2534 \<Rightarrow> 'd j2534 option" where
  "submit_can ce k kind frame =
     submit_bus_tx ce k kind 0 0 (bus_msg_tx (can_data frame) (can_dlc frame) (can_id frame)) 0"

text \<open>\<open>isotp_tx_init\<close> and \<open>isotp_rx_init\<close> leave the machine alone when they refuse.\<close>

definition iso_tx_reset :: "isotp_config \<Rightarrow> isotp_tx \<Rightarrow> isotp_tx" where
  "iso_tx_reset cfg tx = (case isotp_tx_init cfg of Inl _ \<Rightarrow> tx | Inr tx \<Rightarrow> tx)"

definition iso_rx_reset :: "isotp_config \<Rightarrow> isotp_rx \<Rightarrow> isotp_rx" where
  "iso_rx_reset cfg rx = (case isotp_rx_init cfg (rx_buffer rx) ISOTP_MAX_PAYLOAD of Inl _ \<Rightarrow> rx | Inr rx \<Rightarrow> rx)"

definition address_len :: "channel \<Rightarrow> nat" where
  "address_len c = 4 + addr_len (ch_config c)"

definition frame_id :: "u32w \<Rightarrow> u32w \<Rightarrow> u32w" where
  "frame_id i flags = i OR (if flags AND J2534_29BIT \<noteq> 0 then CAN_EFF_FLAG else 0)"

text \<open>The configuration of one transmission: identifier, address byte and padding of the message.\<close>

definition tx_config_of :: "channel \<Rightarrow> byte list \<Rightarrow> u32w \<Rightarrow> isotp_config option" where
  "tx_config_of c data flags = do {
     i \<leftarrow> be32 data;
     address \<leftarrow> (if flags AND J2534_ADDR \<noteq> 0 then get_at data 4 else Some 0);
     Some ((ch_config c)\<lparr>tx_id := frame_id i flags, tx_address := address, pad := (flags AND J2534_PAD \<noteq> 0)\<rparr>)
   }"

definition start_iso_tx :: "'d core_env \<Rightarrow> nat \<Rightarrow> 'd j2534 \<Rightarrow> ('d j2534 \<times> bool) option" where
  "start_iso_tx ce k s = do {
     c \<leftarrow> chan s k;
     let data = drop MSG_HEADER (ch_tx c);
     flags \<leftarrow> j2534_u32 (ch_tx c) 12;
     cfg \<leftarrow> tx_config_of c data flags;
     head \<leftarrow> load_at data 0 (address_len c);
     remote \<leftarrow> load_at (ch_remote c) 0 (address_len c);
     let cfg = cfg\<lparr>timeout_a_us := ch_tx_timeout_a_us c, functional := (head \<noteq> remote)\<rparr>;
     let (s, now) = now_us ce s;
     let (tx, rc) = isotp_tx_start (iso_tx_reset cfg (ch_iso_tx c)) (Some (drop (address_len c) data))
       (sub32 (sub32 (ch_tx_len c) MSG_HEADER) (address_len c)) now;
     s \<leftarrow> upd k (\<lambda>c. c\<lparr>ch_iso_tx := tx\<rparr>) s;
     if isotp_code rc < 0 then do { s \<leftarrow> tx_done ce k False s; Some (s, False) }
     else do { s \<leftarrow> upd k (\<lambda>c. c\<lparr>ch_tx_active := True\<rparr>) s; Some (s, True) }
   }"

definition poll_iso_tx :: "'d core_env \<Rightarrow> nat \<Rightarrow> 'd j2534 \<Rightarrow> 'd j2534 option" where
  "poll_iso_tx ce k s = do {
     let (s, now) = now_us ce s;
     c \<leftarrow> chan s k;
     (tx, frame, rc) \<leftarrow> isotp_tx_next (ch_iso_tx c) now;
     s \<leftarrow> upd k (\<lambda>c. c\<lparr>ch_iso_tx := tx\<rparr>) s;
     if rc = ISOTP_FRAME then do { frame \<leftarrow> frame; submit_can ce k TX_ISOTP frame s }
     else if isotp_code rc < 0 then tx_done ce k False s
     else Some s
   }"

text \<open>The message of a raw channel: on CAN its first four bytes are the identifier.\<close>

definition raw_message :: "vif_bus \<Rightarrow> byte list \<Rightarrow> nat \<Rightarrow> u32w \<Rightarrow> bus_msg option" where
  "raw_message bus data len flags =
     (if bus = VIF_BUS_CAN then do {
        i \<leftarrow> be32 data;
        Some (bus_msg_tx (drop 4 data) (sub32 len 4) (frame_id i flags))
      } else Some (bus_msg_tx data len 0))"

definition poll_tx :: "'d core_env \<Rightarrow> nat \<Rightarrow> 'd j2534 \<Rightarrow> 'd j2534 option" where
  "poll_tx ce k s = do {
     c \<leftarrow> chan s k;
     if ch_tx_len c = 0 then Some s
     else do {
       flags \<leftarrow> j2534_u32 (ch_tx c) 12;
       if ch_parent c \<noteq> 0 then
         (if ch_tx_active c then poll_iso_tx ce k s
          else if ch_flags c AND LOGICAL_FULL_DUPLEX = 0 \<and> rx_state (ch_iso_rx c) \<noteq> ISOTP_RX_IDLE then Some s
          else do {
            (s, started) \<leftarrow> start_iso_tx ce k s;
            if started then poll_iso_tx ce k s else Some s
          })
       else do {
         msg \<leftarrow> raw_message (ch_bus c) (drop MSG_HEADER (ch_tx c)) (sub32 (ch_tx_len c) MSG_HEADER) flags;
         submit_bus_tx ce k TX_MESSAGE 0 0 msg
           (if flags AND J2534_WAIT_P3 \<noteq> 0 then BUS_TX_WAIT_P3_MIN_ONLY else 0) s
       }
     }
   }"

text \<open>The frame of a scheduled message of a logical channel, \<open>None\<close> when the transport refuses it.
  The transmitter is a local variable, uninitialised if the configuration is refused.\<close>

definition scheduled_frame ::
  "'d core_env \<Rightarrow> channel \<Rightarrow> scheduled_message \<Rightarrow> 'd j2534 \<Rightarrow> ('d j2534 \<times> can_frame option) option" where
  "scheduled_frame ce c message s = do {
     cfg \<leftarrow> tx_config_of c (sm_data message) (sm_flags message);
     tx \<leftarrow> (case isotp_tx_init cfg of Inl _ \<Rightarrow> None | Inr tx \<Rightarrow> Some tx);
     let (s, now) = now_us ce s;
     let (tx, rc) = isotp_tx_start tx (Some (drop (address_len c) (sm_data message)))
       (sub32 (sm_len message) (address_len c)) now;
     if isotp_code rc < 0 then Some (s, None)
     else do {
       let (s, now) = now_us ce s;
       (tx, frame, rc) \<leftarrow> isotp_tx_next tx now;
       if rc = ISOTP_FRAME then map_option (\<lambda>f. (s, Some f)) frame else Some (s, None)
     }
   }"

definition submit_scheduled :: "'d core_env \<Rightarrow> nat \<Rightarrow> nat \<Rightarrow> 'd j2534 \<Rightarrow> 'd j2534 option" where
  "submit_scheduled ce k j s = do {
     c \<leftarrow> chan s k;
     job \<leftarrow> get_at (ch_scheduler c) j;
     let message = sj_message job;
     let flags = sm_flags message;
     (s, msg) \<leftarrow>
       (if ch_parent c \<noteq> 0 then do {
          (s, frame) \<leftarrow> scheduled_frame ce c message s;
          Some (s, map_option (\<lambda>f. bus_msg_tx (can_data f) (can_dlc f) (can_id f)) frame)
        } else do {
          msg \<leftarrow> raw_message (ch_bus c) (sm_data message) (sm_len message) flags;
          Some (s, Some msg)
        });
     case msg of
       None \<Rightarrow> upd_job k j (\<lambda>job. job\<lparr>sj_active := False\<rparr>) s
     | Some msg \<Rightarrow> do {
         let bus_flags = (if flags AND J2534_WAIT_P3 \<noteq> 0 then BUS_TX_WAIT_P3_MIN_ONLY else 0);
         let bus_flags = (if sj_kind job \<noteq> J2534_SCHEDULE_PERIODIC then bus_flags OR BUS_TX_CHECK_RX else bus_flags);
         s \<leftarrow> upd_job k j (\<lambda>job. job\<lparr>sj_pending := True, sj_transmission_ended := False\<rparr>) s;
         submit_bus_tx ce k TX_SCHEDULED (sj_id job) (sm_handle message) msg bus_flags s
       }
   }"

section \<open>Receiving\<close>

definition schedule_received ::
  "nat \<Rightarrow> byte list \<Rightarrow> u32w \<Rightarrow> u32w \<Rightarrow> 'd j2534 \<Rightarrow> 'd j2534 option" where
  "schedule_received k data flags timestamp = upd_opt k (\<lambda>c. do {
     jobs \<leftarrow> j2534_schedule_receive (ch_scheduler c) data flags timestamp;
     Some (c\<lparr>ch_scheduler := jobs\<rparr>)
   })"

definition schedule_lost :: "nat \<Rightarrow> 'd j2534 \<Rightarrow> 'd j2534 option" where
  "schedule_lost k = upd_opt k (\<lambda>c. do {
     jobs \<leftarrow> j2534_schedule_receive_lost (ch_scheduler c);
     Some (c\<lparr>ch_scheduler := jobs\<rparr>)
   })"

text \<open>The first \<open>n\<close> bytes of the block \<open>assembly\<close>.\<close>

definition assembled :: "channel \<Rightarrow> nat \<Rightarrow> byte list option" where
  "assembled c n = do {
     buffer \<leftarrow> rx_buffer (ch_iso_rx c);
     load_at (ch_assembly c @ buffer) 0 n
   }"

definition logical_indices :: "nat list" where
  "logical_indices = [J2534_PHYSICAL_MAX..<CHANNELS]"

definition legacy_peer :: "'d j2534 \<Rightarrow> nat \<Rightarrow> nat \<Rightarrow> bool" where
  "legacy_peer s k i \<longleftrightarrow>
     (let c = jc_channels s ! k; peer = jc_channels s ! i in
      i \<noteq> k \<and> ch_id peer \<noteq> 0 \<and> ch_legacy_channel peer \<and> ch_parent peer = ch_parent c)"

text \<open>What \<open>logical_receive\<close> does with an accepted segment.\<close>

definition logical_segment ::
  "nat \<Rightarrow> can_frame \<Rightarrow> isotp_segment \<Rightarrow> u32w \<Rightarrow> 'd j2534 \<Rightarrow> 'd j2534 option" where
  "logical_segment k frame segment timestamp s = do {
     s \<leftarrow> upd_opt k (\<lambda>c. do {
       a \<leftarrow> store_at (ch_assembly c) 0 (put_be32 (can_id frame AND CAN_EFF_MASK));
       a \<leftarrow> (if extended_address (ch_config c) then do { b \<leftarrow> get_at (can_data frame) 0; set_at a 4 b } else Some a);
       Some (c\<lparr>ch_assembly := a,
         ch_rx_generation := (if seg_started segment then ch_rx_generation c + 1 else ch_rx_generation c)\<rparr>)
     }) s;
     c \<leftarrow> chan s k;
     let address = address_len c;
     let flags = ch_local_flags c;
     s \<leftarrow> (if seg_started segment \<and> \<not> seg_complete segment then do {
            start \<leftarrow> assembled c address;
            enqueue k 0 (flags OR J2534_START) timestamp start True s
          } else Some s);
     if \<not> seg_complete segment then Some s
     else do {
       data \<leftarrow> assembled c (address + seg_total segment);
       s \<leftarrow> schedule_received k data flags timestamp s;
       s \<leftarrow> (if \<not> ch_legacy_channel c then Some s
            else fold_opt (\<lambda>s i. if legacy_peer s k i then schedule_received i data flags timestamp s else Some s)
              s logical_indices);
       enqueue k 0 (flags OR (if seg_padding_error segment then J2534_PADDING else 0)) timestamp data False s
     }
   }"

definition logical_receive ::
  "'d core_env \<Rightarrow> nat \<Rightarrow> can_frame \<Rightarrow> u32w \<Rightarrow> 'd j2534 \<Rightarrow> 'd j2534 option" where
  "logical_receive ce k frame timestamp s = do {
     c \<leftarrow> chan s k;
     (s, stop) \<leftarrow>
       (if \<not> ch_tx_active c then Some (s, False)
        else do {
          let (s, now) = now_us ce s;
          let (tx, rc) = isotp_tx_flow_control (ch_iso_tx c) (Some frame) now;
          s \<leftarrow> upd k (\<lambda>c. c\<lparr>ch_iso_tx := tx\<rparr>) s;
          s \<leftarrow> (if isotp_code rc < 0 then tx_done ce k False s else Some s);
          Some (s, ch_flags c AND LOGICAL_FULL_DUPLEX = 0)
        });
     if stop then Some s
     else do {
       let (s, now) = now_us ce s;
       c \<leftarrow> chan s k;
       (rx, segment, rc) \<leftarrow> isotp_rx_feed (ch_iso_rx c) (Some frame) now;
       s \<leftarrow> upd k (\<lambda>c. c\<lparr>ch_iso_rx := rx\<rparr>) s;
       if isotp_code rc \<le> 0 then Some s
       else do {
         s \<leftarrow> logical_segment k frame segment timestamp s;
         let (s, now) = now_us ce s;
         c \<leftarrow> chan s k;
         let (rx, fc, rc) = isotp_rx_flow_control (ch_iso_rx c) now;
         s \<leftarrow> upd k (\<lambda>c. c\<lparr>ch_iso_rx := rx\<rparr>) s;
         if rc = ISOTP_FRAME then do {
           fc \<leftarrow> fc;
           upd k (\<lambda>c. c\<lparr>ch_flow_control := fc, ch_flow_control_pending := True\<rparr>) s
         } else Some s
       }
     }
   }"

text \<open>The branch for a bus that went down, for one channel of it.\<close>

definition link_down_channel ::
  "'d core_env \<Rightarrow> nat \<Rightarrow> bus_msg \<Rightarrow> 'd j2534 \<Rightarrow> nat \<Rightarrow> 'd j2534 option" where
  "link_down_channel ce p msg s i = do {
     ph \<leftarrow> chan s p;
     a \<leftarrow> chan s i;
     if i \<noteq> p \<and> ch_parent a \<noteq> ch_id ph then Some s
     else do {
       s \<leftarrow> schedule_lost i s;
       s \<leftarrow> cancel_channel_tx ce i s;
       s \<leftarrow> (if ch_tx_len a \<noteq> 0 then tx_done ce i False s else Some s);
       s \<leftarrow> (if ch_parent a = 0 then Some s
            else upd i (\<lambda>c. c\<lparr>ch_iso_tx := iso_tx_reset (ch_config c) (ch_iso_tx c),
              ch_iso_rx := (ch_iso_rx c)\<lparr>rx_state := ISOTP_RX_IDLE\<rparr>\<rparr>) s);
       enqueue i 0 J2534_ERROR (bm_timestamp_us msg) [1, 0, 0, 0] True s
     }
   }"

definition rx_overflow :: "nat \<Rightarrow> 'd j2534 \<Rightarrow> 'd j2534 option" where
  "rx_overflow p s = do {
     ph \<leftarrow> chan s p;
     s \<leftarrow> upd p (\<lambda>c. c\<lparr>ch_overflow := True\<rparr>) s;
     s \<leftarrow> schedule_lost p s;
     fold_opt (\<lambda>s i. do {
         c \<leftarrow> chan s i;
         if ch_parent c \<noteq> ch_id ph then Some s
         else do { s \<leftarrow> upd i (\<lambda>c. c\<lparr>ch_overflow := True\<rparr>) s; schedule_lost i s }
       }) s logical_indices
   }"

text \<open>The message for the channel's own queue: flags and bytes, or none.\<close>

definition can_receive ::
  "'d core_env \<Rightarrow> nat \<Rightarrow> bus_msg \<Rightarrow> byte list \<Rightarrow> 'd j2534 \<Rightarrow> ('d j2534 \<times> (u32w \<times> byte list) option) option" where
  "can_receive ce p msg data s = do {
     ph \<leftarrow> chan s p;
     let flags = (if bm_id msg AND CAN_EFF_FLAG \<noteq> 0 then J2534_29BIT else 0);
     if bm_id msg AND CAN_RTR_FLAG \<noteq> 0 \<or> bm_len msg > 8 then Some (s, None)
     else if \<not> can_flags_match ph flags then Some (s, None)
     else do {
       payload \<leftarrow> store_at (can_data frame_zero) 0 data;
       let frame = \<lparr>can_id = bm_id msg, can_dlc = u8 (bm_len msg), can_data = payload\<rparr>;
       s \<leftarrow> fold_opt (\<lambda>s i. do {
           c \<leftarrow> chan s i;
           if ch_parent c = ch_id ph then logical_receive ce i frame (bm_timestamp_us msg) s else Some s
         }) s logical_indices;
       Some (s, Some (flags, put_be32 (bm_id msg AND CAN_EFF_MASK) @ data))
     }
   }"

definition byte_receive :: "channel \<Rightarrow> bus_msg \<Rightarrow> byte list \<Rightarrow> (u32w \<times> byte list) option" where
  "byte_receive ph msg data =
     (if ch_flags ph AND J2534_CHECKSUM_DISABLED = 0
      then if bm_len msg = 0 \<or> bm_status msg AND BUS_RX_BAD_CHECKSUM \<noteq> 0 then None
           else if bm_len msg = 1 then None
           else Some (0, take (bm_len msg - 1) data)
      else if bm_len msg = 0 then None else Some (0, data))"

definition rx_data :: "'d core_env \<Rightarrow> nat \<Rightarrow> bus_msg \<Rightarrow> 'd j2534 \<Rightarrow> 'd j2534 option" where
  "rx_data ce p msg s = do {
     ph \<leftarrow> chan s p;
     data \<leftarrow> load_at (bm_data msg) 0 (bm_len msg);
     (s, accepted) \<leftarrow> (if ch_protocol ph = J2534_CAN then can_receive ce p msg data s
                      else Some (s, byte_receive ph msg data));
     case accepted of
       None \<Rightarrow> Some s
     | Some (flags, data) \<Rightarrow> do {
         let own = (bm_status msg AND BUS_RX_TX_MSG_TYPE \<noteq> 0);
         let flags = (if own then flags OR J2534_TX_MSG else flags);
         s \<leftarrow> (if own then Some s else schedule_received p data flags (bm_timestamp_us msg) s);
         ph \<leftarrow> chan s p;
         pass \<leftarrow> filter_accepts ph data flags;
         if pass then enqueue p 0 flags (bm_timestamp_us msg) data False s else Some s
       }
   }"

text \<open>One received record, after \<open>collect_bus_tx\<close>.\<close>

definition rx_record :: "'d core_env \<Rightarrow> nat \<Rightarrow> bus_msg \<Rightarrow> 'd j2534 \<Rightarrow> 'd j2534 option" where
  "rx_record ce p msg s = do {
     s \<leftarrow> upd p (\<lambda>c. if 0 < sint (bm_sequence msg - ch_rx_sequence c) then c\<lparr>ch_rx_sequence := bm_sequence msg\<rparr> else c) s;
     if bm_status msg AND BUS_RX_LINK_DOWN \<noteq> 0 then do {
       s \<leftarrow> upd p (\<lambda>c. c\<lparr>ch_link_down := True\<rparr>) s;
       fold_opt (link_down_channel ce p msg) s [0..<CHANNELS]
     }
     else do {
       s \<leftarrow> (if bm_status msg AND BUS_RX_BUFFER_OVERFLOW \<noteq> 0 then rx_overflow p s else Some s);
       if bm_len msg = 0 \<and> bm_status msg AND BUS_RX_BUFFER_OVERFLOW \<noteq> 0 then Some s
       else if bm_status msg AND BUS_RX_BREAK \<noteq> 0
       then enqueue p 0 J2534_BREAK (bm_timestamp_us msg) [] True s
       else if bm_status msg AND BUS_RX_START_OF_MSG \<noteq> 0
       then enqueue p 0 J2534_START (bm_timestamp_us msg) [] True s
       else rx_data ce p msg s
     }
   }"

text \<open>The loop of \<open>poll_rx\<close>, at most \<open>burst\<close> records.\<close>

fun poll_rx_loop :: "'d core_env \<Rightarrow> nat \<Rightarrow> nat \<Rightarrow> 'd j2534 \<Rightarrow> 'd j2534 option" where
  "poll_rx_loop ce p 0 s = Some s"
| "poll_rx_loop ce p (Suc burst) s = do {
     ph \<leftarrow> chan s p;
     let (s, received, msg) = vif_do (vif_bus_recv (ce_vif ce) (ce_me ce) VIF_OWNER_LINK (ch_bus ph) J2534_DATA_MAX 0) s;
     if received < 0 then upd p (\<lambda>c. c\<lparr>ch_rx_drained := True\<rparr>) s
     else do {
       s \<leftarrow> collect_bus_tx ce p s;
       msg \<leftarrow> msg;
       s \<leftarrow> rx_record ce p msg s;
       poll_rx_loop ce p burst s
     }
   }"

definition RX_BURST :: nat where "RX_BURST = 32"

definition poll_rx :: "'d core_env \<Rightarrow> nat \<Rightarrow> 'd j2534 \<Rightarrow> 'd j2534 option" where
  "poll_rx ce p s = do {
     s \<leftarrow> upd p (\<lambda>c. c\<lparr>ch_rx_drained := False\<rparr>) s;
     poll_rx_loop ce p RX_BURST s
   }"

section \<open>Serving a bus\<close>

text \<open>\<open>next\<close> with its channel \<open>selected\<close>: the job that is due first among those seen so far.\<close>

definition select_job ::
  "'d core_env \<Rightarrow> nat \<Rightarrow> u32w \<Rightarrow> 'd j2534 \<times> (nat \<times> nat) option \<Rightarrow> nat \<Rightarrow> ('d j2534 \<times> (nat \<times> nat) option) option" where
  "select_job ce p now = (\<lambda>(s, sel) k. do {
     c \<leftarrow> chan s k;
     if ch_id c = 0 \<or> physical_channel s k \<noteq> Some p then Some (s, sel)
     else do {
       s \<leftarrow> (if ch_parent c = 0 then Some s
            else upd k (\<lambda>c. c\<lparr>ch_iso_rx := fst (isotp_rx_check_timeout (ch_iso_rx c) now)\<rparr>) s);
       ph \<leftarrow> chan s p;
       s \<leftarrow> (if \<not> ch_rx_drained ph then Some s
            else upd_opt k (\<lambda>c. do {
              jobs \<leftarrow> j2534_schedule_expire (ch_scheduler c) now;
              Some (c\<lparr>ch_scheduler := jobs\<rparr>)
            }) s);
       c \<leftarrow> chan s k;
       case j2534_schedule_next (ch_scheduler c) now (ch_rx_drained ph) of
         None \<Rightarrow> Some (s, sel)
       | Some j \<Rightarrow> (case sel of
             None \<Rightarrow> Some (s, Some (k, j))
           | Some (k', j') \<Rightarrow>
               if schedule_before (ch_scheduler c ! j) (ch_scheduler (jc_channels s ! k') ! j')
               then Some (s, Some (k, j)) else Some (s, sel))
     }
   })"

text \<open>A scheduled transmission whose job is gone or ended is cancelled.\<close>

definition drop_orphan :: "'d core_env \<Rightarrow> nat \<Rightarrow> 'd j2534 \<Rightarrow> 'd j2534 option" where
  "drop_orphan ce p s = do {
     ph \<leftarrow> chan s p;
     if pt_kind (ch_pending ph) \<noteq> TX_SCHEDULED then Some s
     else case find_channel s (pt_channel (ch_pending ph)) of
         None \<Rightarrow> Some (bus_cancel ce (ch_bus ph) s)
       | Some k \<Rightarrow> (case j2534_schedule_find (ch_scheduler (jc_channels s ! k)) (pt_job (ch_pending ph)) of
             None \<Rightarrow> Some (bus_cancel ce (ch_bus ph) s)
           | Some j \<Rightarrow>
               if sj_active (ch_scheduler (jc_channels s ! k) ! j) then Some s
               else Some (bus_cancel ce (ch_bus ph) s))
   }"

definition flow_step :: "'d j2534 \<Rightarrow> nat \<Rightarrow> nat option \<Rightarrow> nat \<Rightarrow> nat option" where
  "flow_step s p best i =
     (let c = jc_channels s ! i in
      if ch_parent c = ch_id (jc_channels s ! p) \<and> ch_flow_control_pending c \<and>
         (case best of None \<Rightarrow> True
          | Some f \<Rightarrow> sint (rx_deadline (ch_iso_rx c) - rx_deadline (ch_iso_rx (jc_channels s ! f))) < 0)
      then Some i else best)"

definition next_flow :: "'d j2534 \<Rightarrow> nat \<Rightarrow> nat option" where
  "next_flow s p = foldl (flow_step s p) None logical_indices"

text \<open>Pending flow control frames; the flag says that the bus is still busy with one.\<close>

fun send_flow :: "'d core_env \<Rightarrow> nat \<Rightarrow> nat \<Rightarrow> 'd j2534 \<Rightarrow> ('d j2534 \<times> bool) option" where
  "send_flow ce p 0 s = Some (s, False)"
| "send_flow ce p (Suc left) s = (case next_flow s p of
       None \<Rightarrow> Some (s, False)
     | Some k \<Rightarrow> do {
         s \<leftarrow> upd k (\<lambda>c. c\<lparr>ch_flow_control_pending := False\<rparr>) s;
         c \<leftarrow> chan s k;
         s \<leftarrow> submit_can ce k TX_FLOW_CONTROL (ch_flow_control c) s;
         s \<leftarrow> collect_bus_tx ce p s;
         ph \<leftarrow> chan s p;
         if pt_kind (ch_pending ph) \<noteq> TX_NONE then Some (s, True) else send_flow ce p left s
       })"

text \<open>The round robin over the channels of the bus.\<close>

fun serve_tx :: "'d core_env \<Rightarrow> nat \<Rightarrow> nat list \<Rightarrow> 'd j2534 \<Rightarrow> 'd j2534 option" where
  "serve_tx ce p [] s = Some s"
| "serve_tx ce p (offset # offsets) s = do {
     ph \<leftarrow> chan s p;
     let i = (ch_tx_cursor ph + offset) mod CHANNELS;
     c \<leftarrow> chan s i;
     if ch_id c = 0 \<or> physical_channel s i \<noteq> Some p then serve_tx ce p offsets s
     else do {
       s \<leftarrow> poll_tx ce i s;
       ph \<leftarrow> chan s p;
       if pt_kind (ch_pending ph) \<noteq> TX_NONE then upd p (\<lambda>c. c\<lparr>ch_tx_cursor := (i + 1) mod CHANNELS\<rparr>) s
       else serve_tx ce p offsets s
     }
   }"

definition service_bus :: "'d core_env \<Rightarrow> nat \<Rightarrow> 'd j2534 \<Rightarrow> 'd j2534 option" where
  "service_bus ce p s = do {
     s \<leftarrow> collect_bus_tx ce p s;
     s \<leftarrow> poll_rx ce p s;
     let (s, now) = now_us ce s;
     (s, sel) \<leftarrow> fold_opt (select_job ce p now) (s, None) [0..<CHANNELS];
     s \<leftarrow> drop_orphan ce p s;
     ph \<leftarrow> chan s p;
     if pt_kind (ch_pending ph) \<noteq> TX_NONE \<or> ch_link_down ph then Some s
     else do {
       (s, busy) \<leftarrow> send_flow ce p J2534_LOGICAL_MAX s;
       if busy then Some s
       else do {
         s \<leftarrow> (case sel of Some (k, j) \<Rightarrow> submit_scheduled ce k j s
              | None \<Rightarrow> serve_tx ce p [0..<CHANNELS] s);
         collect_bus_tx ce p s
       }
     }
   }"

definition physical_indices :: "nat list" where
  "physical_indices = [0..<J2534_PHYSICAL_MAX]"

definition j2534_core_poll :: "'d core_env \<Rightarrow> 'd j2534 \<Rightarrow> 'd j2534 option" where
  "j2534_core_poll ce s =
     (if jc_device s = 0 then Some s
      else fold_opt (\<lambda>s p. do {
          c \<leftarrow> chan s p;
          if ch_id c \<noteq> 0 \<and> channel_is_live s (Some p) then service_bus ce p s else Some s
        }) s physical_indices)"

end
