(* ===== verification/J2534Requests.thy ===== *)
theory J2534Requests
  imports J2534Core KlineCodec
begin

text \<open>
The requests of the J2534 core of \<open>main/j2534.c\<close>: opening and closing the device, connecting
  physical and logical channels, parameters and initialisation sequences, programming voltage,
  reading and queueing messages, periodic and repeat messages, filters, and the dispatch of a
  decoded request. The protocol buffer library is a parameter: decoding gives a \<open>command\<close>, the
  union of \<open>opendiag_Request\<close>. What a request answers is collected in the record \<open>response\<close>.
\<close>

section \<open>Requests\<close>

record req_connect =
  cn_device :: u32w
  cn_protocol :: u32w
  cn_flags :: u32w
  cn_baudrate :: u32w
  cn_connector :: u32w
  cn_pins :: "u32w list"

record req_logical_connect =
  lc_physical :: u32w
  lc_protocol :: u32w
  lc_flags :: u32w
  lc_local_flags :: u32w
  lc_remote_flags :: u32w
  lc_local_address :: pb_array
  lc_remote_address :: pb_array
  lc_legacy_channel :: bool

record req_queue =
  qu_channel :: u32w
  qu_message :: "message option"

record req_periodic =
  pr_channel :: u32w
  pr_interval_ms :: u32w
  pr_message :: "message option"

record repeat_wire_message =
  rw_protocol :: u32w
  rw_handle :: u32w
  rw_tx_flags :: u32w
  rw_data :: pb_array

record req_repeat =
  re_channel :: u32w
  re_interval_ms :: u32w
  re_condition :: u32w
  re_message :: "repeat_wire_message option"
  re_mask :: "repeat_wire_message option"
  re_pattern :: "repeat_wire_message option"

record req_filter =
  fi_channel :: u32w
  fi_type :: u32w
  fi_flags :: u32w
  fi_mask :: pb_array
  fi_pattern :: pb_array

record req_voltage =
  vo_device :: u32w
  vo_connector :: u32w
  vo_pin :: u32w
  vo_millivolts :: u32w

record req_ioctl =
  io_target :: u32w
  io_id :: u32w
  io_config :: "(u32w \<times> u32w) list"
  io_data :: pb_array
  io_connector :: u32w
  io_pin :: u32w

record req_fast_init =
  fa_channel :: u32w
  fa_tx_flags :: u32w
  fa_data :: pb_array
  fa_no_response :: bool

record req_select =
  se_type :: u32w
  se_channels :: "u32w list"

text \<open>The union of \<open>opendiag_Request\<close> with the tag of its member, none for a message without one.\<close>

datatype command =
    CmdNone | CmdCapabilities | CmdOpen | CmdClose u32w | CmdConnect req_connect | CmdDisconnect u32w
  | CmdRead u32w | CmdStartPeriodic req_periodic | CmdStopPeriodic u32w u32w | CmdStartFilter req_filter
  | CmdStopFilter u32w u32w | CmdVoltage req_voltage | CmdVersion u32w | CmdLastError | CmdIoctl req_ioctl
  | CmdQueue req_queue | CmdLogicalConnect req_logical_connect | CmdLogicalDisconnect u32w
  | CmdSelect req_select | CmdFastInit req_fast_init | CmdStartRepeat req_repeat
  | CmdQueryRepeat u32w u32w | CmdStopRepeat u32w u32w

fun command_tag :: "command \<Rightarrow> nat" where
  "command_tag CmdNone = 0"
| "command_tag CmdCapabilities = 1"
| "command_tag CmdOpen = 2"
| "command_tag (CmdClose _) = 3"
| "command_tag (CmdConnect _) = 4"
| "command_tag (CmdDisconnect _) = 5"
| "command_tag (CmdRead _) = 6"
| "command_tag (CmdStartPeriodic _) = 8"
| "command_tag (CmdStopPeriodic _ _) = 9"
| "command_tag (CmdStartFilter _) = 10"
| "command_tag (CmdStopFilter _ _) = 11"
| "command_tag (CmdVoltage _) = 12"
| "command_tag (CmdVersion _) = 13"
| "command_tag CmdLastError = 14"
| "command_tag (CmdIoctl _) = 15"
| "command_tag (CmdQueue _) = 16"
| "command_tag (CmdLogicalConnect _) = 19"
| "command_tag (CmdLogicalDisconnect _) = 20"
| "command_tag (CmdSelect _) = 21"
| "command_tag (CmdFastInit _) = 22"
| "command_tag (CmdStartRepeat _) = 23"
| "command_tag (CmdQueryRepeat _ _) = 24"
| "command_tag (CmdStopRepeat _ _) = 25"

definition respond :: "(response \<Rightarrow> response) \<Rightarrow> 'd j2534 \<Rightarrow> 'd j2534" where
  "respond f s = s\<lparr>jc_response := f (jc_response s)\<rparr>"

section \<open>Checking a message\<close>

definition validate_can ::
  "channel \<Rightarrow> channel option \<Rightarrow> u32w \<Rightarrow> byte list \<Rightarrow> nat \<Rightarrow> bool \<Rightarrow> j2534_status option" where
  "validate_can c physical flags data len periodic = do {
     let logical = (ch_parent c \<noteq> 0);
     let allowed = J2534_29BIT OR (if logical then J2534_ADDR OR J2534_PAD else 0);
     let address = (if logical \<and> flags AND J2534_ADDR \<noteq> 0 then 5 else 4);
     if len < address + (if logical then 1 else 0) \<or> flags AND NOT allowed \<noteq> 0 then Some J2534_MSG
     else do {
       valid \<leftarrow> can_id_valid data flags;
       if \<not> valid then Some J2534_MSG
       else do {
         ph \<leftarrow> physical;
         if \<not> can_flags_match ph flags then Some J2534_MSG
         else if \<not> logical then Some (if len \<le> 12 then J2534_OK else J2534_MSG)
         else if len - address > ISOTP_MAX_PAYLOAD \<or> (periodic \<and> len > 11) then Some J2534_MSG
         else do {
           let sf = 7 - (address - 4);
           elsewhere \<leftarrow>
             (if len - address \<le> sf then Some False
              else if flags \<noteq> ch_remote_flags c then Some True
              else do {
                head \<leftarrow> load_at data 0 address;
                remote \<leftarrow> load_at (ch_remote c) 0 address;
                Some (head \<noteq> remote)
              });
           if elsewhere then Some J2534_MSG_NOT_ALLOWED
           else if (flags XOR ch_remote_flags c) AND (J2534_ADDR OR J2534_29BIT) \<noteq> 0
           then Some J2534_MSG_NOT_ALLOWED
           else Some J2534_OK
         }
       }
     }
   }"

definition validate_j1850 ::
  "'d core_env \<Rightarrow> channel \<Rightarrow> u32w \<Rightarrow> byte list \<Rightarrow> nat \<Rightarrow> 'd j2534 \<Rightarrow> ('d j2534 \<times> j2534_status) option" where
  "validate_j1850 ce c flags data len s =
     (let pwm = (ch_protocol c = J2534_PWM) in
      if flags \<noteq> 0 \<or> len > (if pwm then 10 else 11) \<or> (pwm \<and> len < 3) then Some (s, J2534_MSG)
      else if \<not> pwm then Some (s, J2534_OK)
      else
        let (s, rc, node) = vif_do (vif_bus_param_get (ce_vif ce) (ce_me ce) VIF_OWNER_LINK (ch_bus c)
              (bus_param_num BUS_P_NODE_ADDRESS)) s
        in if rc \<noteq> 0 then Some (s, J2534_MSG)
           else do {
             node \<leftarrow> node;
             d \<leftarrow> get_at data 2;
             Some (s, if ucast d \<noteq> node then J2534_MSG else J2534_OK)
           })"

text \<open>The length an ISO 14230 message states must be the one it has.\<close>

definition validate_iso14230 :: "channel \<Rightarrow> byte list \<Rightarrow> nat \<Rightarrow> j2534_status option" where
  "validate_iso14230 c data len = do {
     d \<leftarrow> get_at data 0;
     let header = (if d AND 0xc0 \<noteq> 0 then 3 else 1);
     let body = unat (d AND 63);
     if d AND 0xc0 = 0x40 \<and> d \<noteq> 0x48 \<and> d \<noteq> 0x68 then Some J2534_MSG
     else if body = 0 \<and> len \<le> header then Some J2534_MSG
     else do {
       (header, body) \<leftarrow>
         (if body \<noteq> 0 then Some (header, body)
          else do { b \<leftarrow> get_at data header; Some (header + 1, unat b) });
       Some (if body = 0 \<or>
                len \<noteq> header + body + (if ch_flags c AND J2534_CHECKSUM_DISABLED \<noteq> 0 then 1 else 0)
             then J2534_MSG else J2534_OK)
     }
   }"

definition validate_kline :: "channel \<Rightarrow> u32w \<Rightarrow> byte list \<Rightarrow> nat \<Rightarrow> bool \<Rightarrow> j2534_status option" where
  "validate_kline c flags data len periodic =
     (if flags AND NOT J2534_WAIT_P3 \<noteq> 0 \<or>
         len > (if ch_flags c AND J2534_CHECKSUM_DISABLED = 0 then 259 else 260) \<or> (periodic \<and> len > 12)
      then Some J2534_MSG
      else if ch_protocol c = J2534_ISO14230 then validate_iso14230 c data len
      else Some J2534_OK)"

definition validate_message ::
  "'d core_env \<Rightarrow> nat \<Rightarrow> u32w \<Rightarrow> u32w \<Rightarrow> byte list \<Rightarrow> nat \<Rightarrow> bool \<Rightarrow> 'd j2534 \<Rightarrow> ('d j2534 \<times> j2534_status) option" where
  "validate_message ce k protocol flags data len periodic s = do {
     c \<leftarrow> chan s k;
     if protocol \<noteq> ch_protocol c then Some (s, J2534_MSG_PROTOCOL)
     else if len = 0 \<or> len > J2534_DATA_MAX then Some (s, J2534_MSG)
     else if ch_protocol c = J2534_CAN \<or> ch_parent c \<noteq> 0 then do {
       rc \<leftarrow> validate_can c (Option.bind (physical_channel s k) (chan s)) flags data len periodic;
       Some (s, rc)
     }
     else if ch_protocol c = J2534_PWM \<or> ch_protocol c = J2534_VPW then validate_j1850 ce c flags data len s
     else do { rc \<leftarrow> validate_kline c flags data len periodic; Some (s, rc) }
   }"

section \<open>Allocating and releasing channels\<close>

definition release_channel :: "nat \<Rightarrow> 'd j2534 \<Rightarrow> 'd j2534 option" where
  "release_channel k = upd k (\<lambda>_. channel_zero)"

definition all_indices :: "nat list" where
  "all_indices = [0..<CHANNELS]"

definition disconnect_channel :: "'d core_env \<Rightarrow> nat \<Rightarrow> 'd j2534 \<Rightarrow> ('d j2534 \<times> j2534_status) option" where
  "disconnect_channel ce k s = do {
     s \<leftarrow> cancel_channel_tx ce k s;
     c \<leftarrow> chan s k;
     if ch_parent c \<noteq> 0 then do { s \<leftarrow> release_channel k s; Some (s, J2534_OK) }
     else
       let (s, err) = vif_do (vif_bus_close (ce_vif ce) (ce_me ce) VIF_OWNER_LINK (ch_bus c)) s
       in if err \<noteq> ESP_OK then Some (s, J2534_FAILED)
          else do {
            s \<leftarrow> fold_opt (\<lambda>s i. do {
                o' \<leftarrow> chan s i;
                if ch_parent o' = ch_id c then release_channel i s else Some s
              }) s all_indices;
            s \<leftarrow> release_channel k s;
            Some (s, J2534_OK)
          }
   }"

definition alloc_block :: "'d core_env \<Rightarrow> nat \<Rightarrow> 'd j2534 \<Rightarrow> 'd j2534 \<times> byte list option" where
  "alloc_block ce n s =
     (let (d, b) = ce_alloc ce n (snd (jc_vif s)) in (s\<lparr>jc_vif := (fst (jc_vif s), d)\<rparr>, b))"

text \<open>All blocks are asked for before the first failure is looked at.\<close>

definition allocate_channel :: "'d core_env \<Rightarrow> bool \<Rightarrow> 'd j2534 \<Rightarrow> ('d j2534 \<times> nat option) option" where
  "allocate_channel ce logical s =
     (case find (\<lambda>i. ch_id (jc_channels s ! i) = 0) (if logical then logical_indices else physical_indices) of
        None \<Rightarrow> Some (s, None)
      | Some k \<Rightarrow>
          let (s, rx) = alloc_block ce RX_BYTES s;
              (s, tx) = alloc_block ce TX_BYTES s;
              (s, assembly) = (if logical then alloc_block ce (ISOTP_MAX_PAYLOAD + 5) s else (s, Some []))
          in case (rx, tx, assembly) of
              (Some rx, Some tx, Some assembly) \<Rightarrow> do {
                let (s, n) = new_id s;
                s \<leftarrow> upd k (\<lambda>c. c\<lparr>ch_rx := rx, ch_tx := tx, ch_assembly := assembly, ch_id := n\<rparr>) s;
                Some (s, Some k)
              }
            | _ \<Rightarrow> do { s \<leftarrow> release_channel k s; Some (s, None) })"

section \<open>Connecting\<close>

text \<open>What a protocol asks for: bus, flags it allows, pins, and whether the rate is one of its own.\<close>

definition connect_plan ::
  "u32w \<Rightarrow> u32w \<Rightarrow> u32w \<Rightarrow> j2534_status + vif_bus \<times> u32w \<times> u32w list" where
  "connect_plan proto flags rate =
     (if proto = J2534_CAN then
        (if rate \<noteq> 50000 \<and> rate \<noteq> 125000 \<and> rate \<noteq> 250000 \<and> rate \<noteq> 500000 \<and> rate \<noteq> 1000000
         then Inl J2534_BAUD
         else Inr (VIF_BUS_CAN, J2534_29BIT OR J2534_CAN_BOTH, [6, 14]))
      else if proto = J2534_PWM then
        (if rate \<noteq> 41600 then Inl J2534_BAUD else Inr (VIF_BUS_J1850_PWM, 0, [2, 10]))
      else if proto = J2534_VPW then
        (if rate \<noteq> 10400 then Inl J2534_BAUD else Inr (VIF_BUS_J1850_VPW, 0, [2]))
      else if proto = J2534_ISO9141 \<or> proto = J2534_ISO14230 then
        (if unat rate < KLINE_BAUD_MIN \<or> unat rate > KLINE_BAUD_HW_MAX then Inl J2534_BAUD
         else Inr (VIF_BUS_KLINE, J2534_CHECKSUM_DISABLED OR J2534_K_ONLY,
           if flags AND J2534_K_ONLY = 0 then [7, 15] else [7]))
      else Inl J2534_PROTOCOL)"

definition param_set :: "'d core_env \<Rightarrow> vif_bus \<Rightarrow> u32w \<Rightarrow> u32w \<Rightarrow> 'd j2534 \<Rightarrow> 'd j2534 \<times> int" where
  "param_set ce bus p v = vif_do (vif_bus_param_set (ce_vif ce) (ce_me ce) VIF_OWNER_LINK bus p v)"

text \<open>The chain \<open>if (!rc) rc = vif_bus_param_set(...)\<close>.\<close>

fun param_chain :: "'d core_env \<Rightarrow> vif_bus \<Rightarrow> (bus_param \<times> u32w) list \<Rightarrow> 'd j2534 \<Rightarrow> 'd j2534 \<times> int" where
  "param_chain ce bus [] s = (s, 0)"
| "param_chain ce bus ((p, v) # ps) s =
     (let (s, rc) = param_set ce bus (bus_param_num p) v s in if rc \<noteq> 0 then (s, rc) else param_chain ce bus ps s)"

definition kline_params :: "u32w \<Rightarrow> u32w \<Rightarrow> u32w \<Rightarrow> (bus_param \<times> u32w) list" where
  "kline_params proto flags rate =
     (let checksum = (if flags AND J2534_CHECKSUM_DISABLED = 0 then 1 else 0) in
      [(BUS_P_K_LINE_ONLY, if flags AND J2534_K_ONLY \<noteq> 0 then 1 else 0), (BUS_P_DATA_RATE, rate),
       (BUS_P_CHECKSUM_RX, checksum), (BUS_P_CHECKSUM_TX, checksum),
       (BUS_P_KLINE_FRAME_MODE, if proto = J2534_ISO9141 then 1 else 2),
       (BUS_P_PERIODIC_MS, 0), (BUS_P_PERIODIC_QUIET, 0)])"

definition open_channel :: "'d core_env \<Rightarrow> nat \<Rightarrow> 'd j2534 \<Rightarrow> ('d j2534 \<times> j2534_status) option" where
  "open_channel ce k s = do {
     c \<leftarrow> chan s k;
     let bus = ch_bus c;
     let (s, err) = vif_do (vif_bus_open (ce_vif ce) (ce_me ce) VIF_OWNER_LINK bus
       (Some \<lparr>bc_bitrate = unat (ch_rate c), bc_manual_recovery = True\<rparr>)) s;
     if err \<noteq> ESP_OK then do {
       let (s, _) = vif_do (vif_bus_close (ce_vif ce) (ce_me ce) VIF_OWNER_LINK bus) s;
       s \<leftarrow> release_channel k s;
       Some (s, J2534_CONFLICT)
     }
     else do {
       let (s, rc) = (if bus = VIF_BUS_KLINE
                      then param_chain ce bus (kline_params (ch_protocol c) (ch_flags c) (ch_rate c)) s else (s, 0));
       let (s, _) = (if bus \<noteq> VIF_BUS_CAN then param_set ce bus (bus_param_num BUS_P_DUPLICATE_MS) 0 s else (s, 0));
       if rc \<noteq> 0 then do { (s, _) \<leftarrow> disconnect_channel ce k s; Some (s, J2534_VALUE) }
       else Some (respond (\<lambda>r. r\<lparr>rp_id := ch_id c\<rparr>) s, J2534_OK)
     }
   }"

definition connect_channel :: "'d core_env \<Rightarrow> req_connect \<Rightarrow> 'd j2534 \<Rightarrow> ('d j2534 \<times> j2534_status) option" where
  "connect_channel ce req s =
     (if cn_device req \<noteq> jc_device s then Some (s, J2534_DEVICE)
      else if cn_connector req \<noteq> 1 then Some (s, J2534_PIN)
      else case connect_plan (cn_protocol req) (cn_flags req) (cn_baudrate req) of
          Inl err \<Rightarrow> Some (s, err)
        | Inr (bus, allowed, pins) \<Rightarrow>
            if cn_flags req AND NOT allowed \<noteq> 0 then Some (s, J2534_FLAGS)
            else if cn_pins req \<noteq> pins then Some (s, J2534_PIN)
            else if vif_get vif_any_pin_active s \<or>
              vif_get (vif_bus_current VIF_OWNER_LINK bus) s \<noteq> VIF_BUS_NONE \<or>
              vif_get (vif_bus_current VIF_OWNER_SHELL bus) s \<noteq> VIF_BUS_NONE
            then Some (s, J2534_CONFLICT)
            else do {
              (s, k) \<leftarrow> allocate_channel ce False s;
              case k of
                None \<Rightarrow> Some (s, J2534_LIMIT)
              | Some k \<Rightarrow> do {
                  s \<leftarrow> upd k (\<lambda>c. c\<lparr>ch_bus := bus, ch_protocol := cn_protocol req, ch_flags := cn_flags req,
                    ch_rate := cn_baudrate req\<rparr>) s;
                  open_channel ce k s
                }
            })"

definition logical_descriptor_ok :: "channel \<Rightarrow> req_logical_connect \<Rightarrow> bool option" where
  "logical_descriptor_ok parent req = do {
     let lf = lc_local_flags req;
     let rf = lc_remote_flags req;
     if pb_size (lc_local_address req) \<noteq> 4 + (if lf AND J2534_ADDR \<noteq> 0 then 1 else 0) \<or>
        pb_size (lc_remote_address req) \<noteq> 4 + (if rf AND J2534_ADDR \<noteq> 0 then 1 else 0) \<or>
        lf AND NOT (J2534_29BIT OR J2534_ADDR) \<noteq> 0 \<or>
        rf AND NOT (J2534_29BIT OR J2534_ADDR OR J2534_PAD) \<noteq> 0
     then Some False
     else do {
       l \<leftarrow> can_id_valid (pb_bytes (lc_local_address req)) lf;
       r \<leftarrow> can_id_valid (pb_bytes (lc_remote_address req)) rf;
       Some (l \<and> r \<and> can_flags_match parent lf \<and> can_flags_match parent rf \<and>
         (lf XOR rf) AND (J2534_ADDR OR J2534_29BIT) = 0)
     }
   }"

text \<open>Another logical channel of the same bus listens to the same address.\<close>

fun address_taken :: "'d j2534 \<Rightarrow> u32w \<Rightarrow> req_logical_connect \<Rightarrow> nat list \<Rightarrow> bool option" where
  "address_taken s parent req [] = Some False"
| "address_taken s parent req (i # is) = do {
     c \<leftarrow> chan s i;
     if ch_parent c = parent \<and> ch_local_flags c = lc_local_flags req then do {
       let n = 4 + (if lc_local_flags req AND J2534_ADDR \<noteq> 0 then 1 else 0);
       mine \<leftarrow> load_at (ch_local c) 0 n;
       wanted \<leftarrow> load_at (pb_bytes (lc_local_address req)) 0 n;
       if mine = wanted then Some True else address_taken s parent req is
     }
     else address_taken s parent req is
   }"

text \<open>The members \<open>logical_connect\<close> sets; the receiver gets the tail of the block \<open>assembly\<close>.\<close>

definition logical_setup :: "channel \<Rightarrow> req_logical_connect \<Rightarrow> channel \<Rightarrow> channel option" where
  "logical_setup parent req c = do {
     let lf = lc_local_flags req;
     let rf = lc_remote_flags req;
     local \<leftarrow> load_at (pb_bytes (lc_local_address req)) 0 5;
     remote \<leftarrow> load_at (pb_bytes (lc_remote_address req)) 0 5;
     r \<leftarrow> be32 remote;
     l \<leftarrow> be32 local;
     l4 \<leftarrow> get_at local 4;
     r4 \<leftarrow> get_at remote 4;
     let cfg = (isotp_config_default (frame_id r rf) (frame_id l lf))\<lparr>
       extended_address := (lf AND J2534_ADDR \<noteq> 0), rx_address := l4, tx_address := r4,
       pad := (rf AND J2534_PAD \<noteq> 0)\<rparr>;
     let c = c\<lparr>ch_parent := ch_id parent, ch_bus := ch_bus parent, ch_protocol := J2534_ISOTP,
       ch_flags := lc_flags req, ch_local_flags := lf, ch_remote_flags := rf,
       ch_tx_timeout_a_us := 1000000, ch_local := local, ch_remote := remote, ch_config := cfg,
       ch_legacy_channel := lc_legacy_channel req\<rparr>;
     Some (c\<lparr>ch_iso_rx := (case isotp_rx_init cfg
                  (Some (take ISOTP_MAX_PAYLOAD (drop (address_len c) (ch_assembly c)))) ISOTP_MAX_PAYLOAD of
                Inl _ \<Rightarrow> ch_iso_rx c | Inr rx \<Rightarrow> rx),
             ch_assembly := take (address_len c) (ch_assembly c),
             ch_iso_tx := iso_tx_reset cfg (ch_iso_tx c)\<rparr>)
   }"

definition logical_connect ::
  "'d core_env \<Rightarrow> nat \<Rightarrow> req_logical_connect \<Rightarrow> 'd j2534 \<Rightarrow> ('d j2534 \<times> j2534_status) option" where
  "logical_connect ce p req s = do {
     parent \<leftarrow> chan s p;
     if ch_protocol parent \<noteq> J2534_CAN then Some (s, J2534_LOGICAL)
     else if lc_protocol req \<noteq> J2534_ISOTP then Some (s, J2534_PROTOCOL)
     else if lc_flags req AND NOT LOGICAL_FULL_DUPLEX \<noteq> 0 then Some (s, J2534_FLAGS)
     else do {
       descriptor \<leftarrow> logical_descriptor_ok parent req;
       if \<not> descriptor then Some (s, J2534_DESCRIPTOR)
       else do {
         taken \<leftarrow> address_taken s (ch_id parent) req logical_indices;
         if taken then Some (s, J2534_NOT_UNIQUE)
         else do {
           (s, k) \<leftarrow> allocate_channel ce True s;
           case k of
             None \<Rightarrow> Some (s, J2534_LIMIT)
           | Some k \<Rightarrow> do {
               s \<leftarrow> upd_opt k (logical_setup parent req) s;
               c \<leftarrow> chan s k;
               Some (respond (\<lambda>r. r\<lparr>rp_id := ch_id c\<rparr>) s, J2534_OK)
             }
         }
       }
     }
   }"

section \<open>Configuration\<close>

definition CONFIG_ISOTP_BLOCK_SIZE :: u32w where "CONFIG_ISOTP_BLOCK_SIZE = 0x1e"
definition CONFIG_ISOTP_STMIN :: u32w where "CONFIG_ISOTP_STMIN = 0x1f"
definition CONFIG_ISOTP_WAIT_LIMIT :: u32w where "CONFIG_ISOTP_WAIT_LIMIT = 0x25"
definition CONFIG_ISOTP_PAD_VALUE :: u32w where "CONFIG_ISOTP_PAD_VALUE = 0x2b"
definition CONFIG_N_AS_MAX :: u32w where "CONFIG_N_AS_MAX = 0x2c"
definition CONFIG_N_AR_MAX :: u32w where "CONFIG_N_AR_MAX = 0x2d"
definition CONFIG_N_BS_MAX :: u32w where "CONFIG_N_BS_MAX = 0x2e"
definition CONFIG_N_CR_MAX :: u32w where "CONFIG_N_CR_MAX = 0x2f"

lemmas logical_params = CONFIG_ISOTP_BLOCK_SIZE_def CONFIG_ISOTP_STMIN_def CONFIG_ISOTP_WAIT_LIMIT_def
  CONFIG_ISOTP_PAD_VALUE_def CONFIG_N_AS_MAX_def CONFIG_N_AR_MAX_def CONFIG_N_BS_MAX_def CONFIG_N_CR_MAX_def

definition logical_param_get :: "channel \<Rightarrow> u32w \<Rightarrow> u32w option" where
  "logical_param_get c param =
     (let cfg = ch_config c in
      if param = CONFIG_ISOTP_BLOCK_SIZE then Some (ucast (cfg_block_size cfg))
      else if param = CONFIG_ISOTP_STMIN then Some (ucast (stmin cfg))
      else if param = CONFIG_ISOTP_WAIT_LIMIT then Some (ucast (wait_limit cfg))
      else if param = CONFIG_ISOTP_PAD_VALUE then Some (ucast (pad_value cfg))
      else if param = CONFIG_N_AS_MAX then Some (ch_tx_timeout_a_us c div 1000)
      else if param = CONFIG_N_AR_MAX then Some (timeout_a_us cfg div 1000)
      else if param = CONFIG_N_BS_MAX then Some (timeout_bs_us cfg div 1000)
      else if param = CONFIG_N_CR_MAX then Some (timeout_cr_us cfg div 1000)
      else None)"

definition logical_param_refused :: "u32w \<Rightarrow> u32w \<Rightarrow> bool" where
  "logical_param_refused param value \<longleftrightarrow>
     (param \<le> CONFIG_ISOTP_PAD_VALUE \<and> value > 255) \<or>
     (param = CONFIG_ISOTP_STMIN \<and> value > 0x7f \<and> (value < 0xf1 \<or> value > 0xf9)) \<or>
     (param \<ge> CONFIG_N_AS_MAX \<and> (value = 0 \<or> value > 60000))"

definition logical_param_set :: "channel \<Rightarrow> u32w \<Rightarrow> u32w \<Rightarrow> channel" where
  "logical_param_set c param value =
     (let cfg = ch_config c in
      if param = CONFIG_ISOTP_BLOCK_SIZE then c\<lparr>ch_config := cfg\<lparr>cfg_block_size := ucast value\<rparr>\<rparr>
      else if param = CONFIG_ISOTP_STMIN then c\<lparr>ch_config := cfg\<lparr>stmin := ucast value\<rparr>\<rparr>
      else if param = CONFIG_ISOTP_WAIT_LIMIT then c\<lparr>ch_config := cfg\<lparr>wait_limit := ucast value\<rparr>\<rparr>
      else if param = CONFIG_ISOTP_PAD_VALUE then c\<lparr>ch_config := cfg\<lparr>pad_value := ucast value\<rparr>\<rparr>
      else if param = CONFIG_N_AS_MAX then c\<lparr>ch_tx_timeout_a_us := value * 1000\<rparr>
      else if param = CONFIG_N_AR_MAX then c\<lparr>ch_config := cfg\<lparr>timeout_a_us := value * 1000\<rparr>\<rparr>
      else if param = CONFIG_N_BS_MAX then c\<lparr>ch_config := cfg\<lparr>timeout_bs_us := value * 1000\<rparr>\<rparr>
      else if param = CONFIG_N_CR_MAX then c\<lparr>ch_config := cfg\<lparr>timeout_cr_us := value * 1000\<rparr>\<rparr>
      else c)"

text \<open>The value comes back changed only by a successful read.\<close>

definition configure_logical ::
  "nat \<Rightarrow> bool \<Rightarrow> u32w \<Rightarrow> u32w \<Rightarrow> 'd j2534 \<Rightarrow> ('d j2534 \<times> j2534_status \<times> u32w) option" where
  "configure_logical k write param value s = do {
     c \<leftarrow> chan s k;
     if write \<and> (ch_tx_len c \<noteq> 0 \<or> rx_state (ch_iso_rx c) \<noteq> ISOTP_RX_IDLE) then Some (s, J2534_CONFLICT, value)
     else case logical_param_get c param of
         None \<Rightarrow> Some (s, J2534_PARAM, value)
       | Some current_value \<Rightarrow>
           if \<not> write then Some (s, J2534_OK, current_value)
           else if logical_param_refused param value then Some (s, J2534_VALUE, value)
           else do {
             s \<leftarrow> upd k (\<lambda>c. let c = logical_param_set c param value
                             in c\<lparr>ch_iso_rx := iso_rx_reset (ch_config c) (ch_iso_rx c)\<rparr>) s;
             Some (s, J2534_OK, value)
           }
   }"

definition configure_channel ::
  "'d core_env \<Rightarrow> nat \<Rightarrow> bool \<Rightarrow> u32w \<Rightarrow> u32w \<Rightarrow> 'd j2534 \<Rightarrow> ('d j2534 \<times> j2534_status \<times> u32w) option" where
  "configure_channel ce k write param value s = do {
     c \<leftarrow> chan s k;
     if ch_parent c \<noteq> 0 then configure_logical k write param value s
     else if param = bus_param_num BUS_P_LOOPBACK then
       (if \<not> write then Some (s, J2534_OK, ch_echo c)
        else if value > 1 then Some (s, J2534_VALUE, value)
        else do {
          let (s, rc) = (if ch_bus c \<noteq> VIF_BUS_CAN then param_set ce (ch_bus c) param value s else (s, 0));
          if rc \<noteq> 0 then Some (s, J2534_VALUE, value)
          else do { s \<leftarrow> upd k (\<lambda>c. c\<lparr>ch_echo := value\<rparr>) s; Some (s, J2534_OK, value) }
        })
     else if param \<ge> BUS_P_VENDOR_BASE then Some (s, J2534_PARAM, value)
     else if param = bus_param_num BUS_P_DATA_RATE \<and> ch_bus c = VIF_BUS_CAN then
       (if \<not> write then Some (s, J2534_OK, ch_rate c)
        else Some (s, if value = ch_rate c then J2534_OK else J2534_VALUE, value))
     else do {
       let (s, rc, out) =
         (if write then (let (s, rc) = param_set ce (ch_bus c) param value s in (s, rc, None))
          else vif_do (vif_bus_param_get (ce_vif ce) (ce_me ce) VIF_OWNER_LINK (ch_bus c) param) s);
       if rc \<noteq> 0 then Some (s, if rc = BUS_ERR_UNSUPPORTED then J2534_PARAM else J2534_VALUE, value)
       else if \<not> write then do { out \<leftarrow> out; Some (s, J2534_OK, out) }
       else if param = bus_param_num BUS_P_DATA_RATE
       then do { s \<leftarrow> upd k (\<lambda>c. c\<lparr>ch_rate := value\<rparr>) s; Some (s, J2534_OK, value) }
       else Some (s, J2534_OK, value)
     }
   }"

text \<open>The response has room for 32 parameters.\<close>

fun configure_all ::
  "'d core_env \<Rightarrow> nat \<Rightarrow> bool \<Rightarrow> (u32w \<times> u32w) list \<Rightarrow> 'd j2534 \<Rightarrow> ('d j2534 \<times> j2534_status) option" where
  "configure_all ce k write [] s = Some (s, J2534_OK)"
| "configure_all ce k write ((param, value) # vs) s = do {
     (s, rc, value) \<leftarrow> configure_channel ce k write param value s;
     if rc \<noteq> J2534_OK then Some (s, rc)
     else if length (rp_config (jc_response s)) \<ge> 32 then None
     else configure_all ce k write vs (respond (\<lambda>r. r\<lparr>rp_config := rp_config r @ [(param, value)]\<rparr>) s)
   }"

section \<open>Initialisation sequences\<close>


definition init_zero :: bus_init where
  "init_zero = \<lparr>bi_address = 0, bi_msg = replicate BUS_INIT_MSG_MAX 0, bi_msg_len = 0, bi_raw_response = False,
     bi_no_response = False, bi_tx_flags = 0, bi_key = [0, 0], bi_reply = replicate BUS_INIT_MSG_MAX 0,
     bi_reply_len = 0, bi_reply_timestamp_us = 0\<rparr>"

definition bus_ioctl ::
  "'d core_env \<Rightarrow> vif_bus \<Rightarrow> u32w \<Rightarrow> ioctl_arg \<Rightarrow> 'd j2534 \<Rightarrow> 'd j2534 \<times> int \<times> ioctl_arg" where
  "bus_ioctl ce bus i arg = vif_do (vif_bus_ioctl (ce_vif ce) (ce_me ce) VIF_OWNER_LINK bus (unat i) arg)"

definition IOCTL_GET_CONFIG :: u32w where "IOCTL_GET_CONFIG = 1"
definition IOCTL_SET_CONFIG :: u32w where "IOCTL_SET_CONFIG = 2"
definition IOCTL_READ_VBATT :: u32w where "IOCTL_READ_VBATT = 3"
definition IOCTL_CLEAR_FILTERS :: u32w where "IOCTL_CLEAR_FILTERS = 10"
definition IOCTL_READ_PROG_VOLTAGE :: u32w where "IOCTL_READ_PROG_VOLTAGE = 14"

text \<open>The structure for the driver, or the status of a request that is not made.\<close>

definition init_request ::
  "'d core_env \<Rightarrow> nat \<Rightarrow> req_ioctl \<Rightarrow> 'd j2534 \<Rightarrow> ('d j2534 \<times> (j2534_status + bus_init)) option" where
  "init_request ce k req s = do {
     c \<leftarrow> chan s k;
     let len = pb_size (io_data req);
     let data = pb_bytes (io_data req);
     if io_id req = BUS_IOCTL_FIVE_BAUD_INIT then
       (if len \<noteq> 1 then Some (s, Inl J2534_MSG)
        else do { d \<leftarrow> get_at data 0; Some (s, Inr (init_zero\<lparr>bi_address := d\<rparr>)) })
     else if ch_protocol c \<noteq> J2534_ISO14230 then Some (s, Inl J2534_IOCTL)
     else if len = 0 \<or> len > 8 then Some (s, Inl J2534_MSG)
     else if ch_flags c AND J2534_CHECKSUM_DISABLED \<noteq> 0 then Some (s, Inl J2534_NOT_SUPPORTED)
     else do {
       (s, rc) \<leftarrow> validate_message ce k (ch_protocol c) 0 data len False s;
       if rc \<noteq> J2534_OK then Some (s, Inl rc)
       else do {
         bytes \<leftarrow> load_at data 0 len;
         msg \<leftarrow> store_at (bi_msg init_zero) 0 bytes;
         Some (s, Inr (init_zero\<lparr>bi_msg_len := len, bi_msg := msg\<rparr>))
       }
     }
   }"

definition init_reply :: "u32w \<Rightarrow> bus_init \<Rightarrow> 'd j2534 \<Rightarrow> ('d j2534 \<times> j2534_status) option" where
  "init_reply i init s =
     (let put = (\<lambda>n bytes. do {
          out \<leftarrow> store_at (pb_bytes (rp_data (jc_response s))) 0 bytes;
          Some (respond (\<lambda>r. r\<lparr>rp_data := \<lparr>pb_size = n, pb_bytes = out\<rparr>\<rparr>) s, J2534_OK)
        }) in
      if i = BUS_IOCTL_FIVE_BAUD_INIT then do { key \<leftarrow> load_at (bi_key init) 0 2; put 2 key }
      else
        let n = (if bi_reply_len init \<noteq> 0 then bi_reply_len init - 1 else 0)
        in if n > 255 then Some (respond (\<lambda>r. r\<lparr>rp_data := (rp_data r)\<lparr>pb_size := n\<rparr>\<rparr>) s, J2534_FULL)
           else do { reply \<leftarrow> load_at (bi_reply init) 0 n; put n reply })"

definition ioctl_init :: "'d core_env \<Rightarrow> nat \<Rightarrow> req_ioctl \<Rightarrow> 'd j2534 \<Rightarrow> ('d j2534 \<times> j2534_status) option" where
  "ioctl_init ce k req s = do {
     c \<leftarrow> chan s k;
     if ch_bus c \<noteq> VIF_BUS_KLINE \<or> ch_parent c \<noteq> 0 then Some (s, J2534_IOCTL)
     else if ch_tx_len c \<noteq> 0 then Some (s, J2534_CONFLICT)
     else do {
       (s, request) \<leftarrow> init_request ce k req s;
       case request of
         Inl err \<Rightarrow> Some (s, err)
       | Inr init \<Rightarrow> do {
           let (s, rc, arg) = bus_ioctl ce (ch_bus c) (io_id req) (InitArg init) s;
           let (s, _) = param_set ce (ch_bus c) (bus_param_num BUS_P_PERIODIC_MS) 0 s;
           if rc \<noteq> 0 then Some (s, J2534_INIT)
           else case arg of InitArg init \<Rightarrow> init_reply (io_id req) init s | _ \<Rightarrow> None
         }
     }
   }"

fun funct_addresses :: "'d core_env \<Rightarrow> vif_bus \<Rightarrow> u32w \<Rightarrow> byte list \<Rightarrow> 'd j2534 \<Rightarrow> 'd j2534 \<times> j2534_status" where
  "funct_addresses ce bus i [] s = (s, J2534_OK)"
| "funct_addresses ce bus i (b # bs) s =
     (let (s, rc, _) = bus_ioctl ce bus i (ByteArg b) s
      in if rc \<noteq> 0 then (s, bus_error rc) else funct_addresses ce bus i bs s)"

text \<open>Both queues.\<close>

definition clear_tx_queue :: "'d core_env \<Rightarrow> nat \<Rightarrow> 'd j2534 \<Rightarrow> 'd j2534 option" where
  "clear_tx_queue ce k s = do {
     s \<leftarrow> cancel_channel_tx ce k s;
     upd k (\<lambda>c. let c = c\<lparr>ch_tx_len := 0, ch_tx_active := False\<rparr>
       in if ch_parent c = 0 then c else c\<lparr>ch_iso_tx := iso_tx_reset (ch_config c) (ch_iso_tx c)\<rparr>) s
   }"

definition clear_rx_queue :: "'d core_env \<Rightarrow> nat \<Rightarrow> 'd j2534 \<Rightarrow> 'd j2534 option" where
  "clear_rx_queue ce k s = do {
     p \<leftarrow> physical_channel s k;
     s \<leftarrow> poll_rx ce p s;
     ph \<leftarrow> chan s p;
     s \<leftarrow> (if ch_rx_drained ph then Some s else poll_rx ce p s);
     upd k (\<lambda>c. let c = c\<lparr>ch_rx_head := 0, ch_rx_used := 0, ch_overflow := False\<rparr>
       in if ch_parent c = 0 then c
          else c\<lparr>ch_rx_generation := ch_rx_generation c + 1, ch_flow_control_pending := False,
                 ch_iso_rx := iso_rx_reset (ch_config c) (ch_iso_rx c)\<rparr>) s
   }"

text \<open>A job that is being transmitted is cancelled before its slot is cleared.\<close>

definition drop_job :: "'d core_env \<Rightarrow> nat \<Rightarrow> nat \<Rightarrow> 'd j2534 \<Rightarrow> 'd j2534 option" where
  "drop_job ce k j s = do {
     c \<leftarrow> chan s k;
     job \<leftarrow> get_at (ch_scheduler c) j;
     p \<leftarrow> physical_channel s k;
     ph \<leftarrow> chan s p;
     s \<leftarrow> (if pt_kind (ch_pending ph) = TX_SCHEDULED \<and> pt_job (ch_pending ph) = sj_id job
          then discard_pending ce p s else Some s);
     upd_job k j (\<lambda>_. job_zero) s
   }"

definition clear_periodic :: "'d core_env \<Rightarrow> nat \<Rightarrow> 'd j2534 \<Rightarrow> 'd j2534 option" where
  "clear_periodic ce k s = fold_opt (\<lambda>s j. do {
       c \<leftarrow> chan s k;
       job \<leftarrow> get_at (ch_scheduler c) j;
       if sj_id job = 0 then Some s else drop_job ce k j s
     }) s [0..<J2534_SCHEDULE_SLOTS]"

definition bus_on :: "'d core_env \<Rightarrow> nat \<Rightarrow> 'd j2534 \<Rightarrow> ('d j2534 \<times> j2534_status) option" where
  "bus_on ce k s = do {
     c \<leftarrow> chan s k;
     if ch_protocol c \<noteq> J2534_CAN then Some (s, J2534_IOCTL)
     else do {
       s \<leftarrow> poll_rx ce k s;
       let (s, rc, _) = bus_ioctl ce (ch_bus c) BUS_IOCTL_BUS_ON NoArg s;
       if rc \<noteq> 0 then Some (s, J2534_INIT)
       else do { s \<leftarrow> upd k (\<lambda>c. c\<lparr>ch_link_down := False\<rparr>) s; Some (s, J2534_OK) }
     }
   }"

definition ioctl_request :: "'d core_env \<Rightarrow> nat \<Rightarrow> req_ioctl \<Rightarrow> 'd j2534 \<Rightarrow> ('d j2534 \<times> j2534_status) option" where
  "ioctl_request ce k req s = do {
     c \<leftarrow> chan s k;
     let i = io_id req;
     let len = pb_size (io_data req);
     let done_with = (\<lambda>r. map_option (\<lambda>s. (s, J2534_OK)) r);
     if i = IOCTL_GET_CONFIG \<or> i = IOCTL_SET_CONFIG then
       (if len \<noteq> 0 \<or> io_connector req \<noteq> 0 \<or> io_pin req \<noteq> 0 then Some (s, J2534_VALUE)
        else configure_all ce k (i = IOCTL_SET_CONFIG) (io_config req) s)
     else if io_config req \<noteq> [] \<or> io_connector req \<noteq> 0 \<or> io_pin req \<noteq> 0 then Some (s, J2534_VALUE)
     else if i = BUS_IOCTL_FIVE_BAUD_INIT \<or> i = BUS_IOCTL_FAST_INIT then ioctl_init ce k req s
     else if i = BUS_IOCTL_ADD_FUNCT_ADDR \<or> i = BUS_IOCTL_DEL_FUNCT_ADDR then
       (if ch_protocol c \<noteq> J2534_PWM then Some (s, J2534_IOCTL)
        else do { bytes \<leftarrow> load_at (pb_bytes (io_data req)) 0 len; Some (funct_addresses ce (ch_bus c) i bytes s) })
     else if len \<noteq> 0 then Some (s, J2534_MSG)
     else if i = BUS_IOCTL_CLEAR_TX_QUEUE then done_with (clear_tx_queue ce k s)
     else if i = BUS_IOCTL_CLEAR_RX_QUEUE then done_with (clear_rx_queue ce k s)
     else if i = BUS_IOCTL_CLEAR_PERIODIC then done_with (clear_periodic ce k s)
     else if i = IOCTL_CLEAR_FILTERS then
       (if ch_parent c \<noteq> 0 then Some (s, J2534_IOCTL)
        else done_with (upd k (\<lambda>c. c\<lparr>ch_filters := replicate J2534_FILTER_MAX filter_zero\<rparr>) s))
     else if i = BUS_IOCTL_BUS_ON then bus_on ce k s
     else if i = BUS_IOCTL_CLEAR_FUNCT_TABLE then
       (if ch_protocol c \<noteq> J2534_PWM then Some (s, J2534_IOCTL)
        else let (s, rc, _) = bus_ioctl ce (ch_bus c) i NoArg s in Some (s, bus_error rc))
     else Some (s, J2534_IOCTL)
   }"

section \<open>Voltages\<close>

definition vif_pin :: "int \<Rightarrow> vif_pin_mode \<Rightarrow> nat \<Rightarrow> 'd j2534 \<Rightarrow> 'd j2534 \<times> esp_err" where
  "vif_pin pin m mv = vif_do (\<lambda>(g, d). let (g, err) = vif_pin_set VIF_OWNER_LINK pin m mv g in ((g, d), err))"

definition UINT32_MAX :: u32w where "UINT32_MAX = 0xFFFFFFFF"

text \<open>The stock board, with no low side driver on pin 9.\<close>

definition set_programming_voltage :: "req_voltage \<Rightarrow> 'd j2534 \<Rightarrow> 'd j2534 \<times> j2534_status" where
  "set_programming_voltage req s =
     (let pin = vo_pin req; mv = vo_millivolts req in
      if vo_device req \<noteq> jc_device s then (s, J2534_DEVICE)
      else if vo_connector req \<noteq> 1 then (s, J2534_PIN)
      else if pin \<noteq> 6 \<and> pin \<noteq> 9 \<and> pin \<noteq> 11 \<and> pin \<noteq> 12 \<and> pin \<noteq> 13 \<and> pin \<noteq> 14 \<and> pin \<noteq> 15
      then (s, J2534_PIN)
      else if mv = UINT32_MAX then
        (let (s, err) = vif_pin (uint pin) VIF_PIN_OFF 0 s in
         if err \<noteq> ESP_OK then (s, J2534_PIN_IN_USE)
         else (if uint pin = jc_voltage_pin s then s\<lparr>jc_voltage_pin := -1\<rparr> else s, J2534_OK))
      else if list_ex (\<lambda>(bus, _). (bus = VIF_BUS_CAN \<and> (pin = 6 \<or> pin = 14)) \<or> (bus = VIF_BUS_KLINE \<and> pin = 15))
        (vif_get vif_bus_info s)
      then (s, J2534_PIN_IN_USE)
      else
        let plan = (if mv = UINT32_MAX - 1
                    then if pin \<noteq> 15 then Inl J2534_VALUE else Inr (VIF_PIN_GROUND, 0)
                    else if pin = 15 \<or> mv < 5000 \<or> mv > 20000 then Inl J2534_VALUE
                    else if 0 \<le> jc_voltage_pin s \<and> jc_voltage_pin s \<noteq> uint pin then Inl J2534_VOLTAGE_IN_USE
                    else Inr (VIF_PIN_VOLTAGE, unat mv))
        in case plan of
            Inl err \<Rightarrow> (s, err)
          | Inr (m, mv) \<Rightarrow>
              let (s, err) = vif_pin (uint pin) m mv s in
              if err \<noteq> ESP_OK then (s, J2534_PIN_IN_USE)
              else (if m = VIF_PIN_VOLTAGE then s\<lparr>jc_voltage_pin := uint pin\<rparr> else s, J2534_OK))"

definition read_voltage :: "'d core_env \<Rightarrow> req_ioctl \<Rightarrow> 'd j2534 \<Rightarrow> 'd j2534 \<times> j2534_status" where
  "read_voltage ce io s =
     (if io_target io \<noteq> jc_device s then (s, J2534_DEVICE)
      else if pb_size (io_data io) \<noteq> 0 \<or> io_config io \<noteq> [] then (s, J2534_VALUE)
      else if (io_id io = IOCTL_READ_VBATT \<and> (io_connector io \<noteq> 1 \<or> io_pin io \<noteq> 16)) \<or>
        (io_id io = IOCTL_READ_PROG_VOLTAGE \<and> (io_connector io \<noteq> 0 \<or> io_pin io \<noteq> 0))
      then (s, J2534_PIN)
      else
        let (s, mv) = vif_do (\<lambda>(g, d). let (d, mv) =
              (if io_id io = IOCTL_READ_VBATT then ce_vbatt_mv ce else ce_hs_vsense_mv ce) d in ((g, d), mv)) s
        in if mv < 0 then (s, J2534_FAILED) else (respond (\<lambda>r. r\<lparr>rp_millivolts := nat mv\<rparr>) s, J2534_OK))"

section \<open>Messages\<close>

definition store_tx :: "message \<Rightarrow> channel \<Rightarrow> channel option" where
  "store_tx m c = do {
     tx \<leftarrow> store_at (ch_tx c) 0 (replicate MSG_HEADER 0);
     tx \<leftarrow> j2534_put32 tx 0 (om_protocol m);
     tx \<leftarrow> j2534_put32 tx 4 (om_handle m);
     tx \<leftarrow> j2534_put32 tx 12 (om_tx_flags m);
     data \<leftarrow> load_at (pb_bytes (om_data m)) 0 (pb_size (om_data m));
     tx \<leftarrow> store_at tx MSG_HEADER data;
     Some (c\<lparr>ch_tx := tx, ch_tx_len := MSG_HEADER + pb_size (om_data m)\<rparr>)
   }"

definition read_message :: "nat \<Rightarrow> 'd j2534 \<Rightarrow> ('d j2534 \<times> j2534_status) option" where
  "read_message k s = do {
     c \<leftarrow> chan s k;
     (c, rc, m) \<leftarrow> ring_take c;
     s \<leftarrow> upd k (\<lambda>_. c) s;
     Some (case m of None \<Rightarrow> s | Some _ \<Rightarrow> respond (\<lambda>r. r\<lparr>rp_message := m, rp_count := 1\<rparr>) s, rc)
   }"

definition queue_message :: "'d core_env \<Rightarrow> nat \<Rightarrow> req_queue \<Rightarrow> 'd j2534 \<Rightarrow> ('d j2534 \<times> j2534_status) option" where
  "queue_message ce k req s = (case qu_message req of
       None \<Rightarrow> Some (s, J2534_MSG)
     | Some m \<Rightarrow> do {
         (s, rc) \<leftarrow> validate_message ce k (om_protocol m) (om_tx_flags m) (pb_bytes (om_data m))
           (pb_size (om_data m)) False s;
         if rc \<noteq> J2534_OK then Some (s, rc)
         else do {
           c \<leftarrow> chan s k;
           if ch_tx_len c \<noteq> 0 then Some (s, J2534_FULL)
           else do {
             s \<leftarrow> upd_opt k (store_tx m) s;
             Some (respond (\<lambda>r. r\<lparr>rp_count := 1\<rparr>) s, J2534_OK)
           }
         }
       })"

text \<open>The bus was busy: wait for it, then send what is queued, before an initialisation.\<close>

definition fast_init_settle :: "'d core_env \<Rightarrow> nat \<Rightarrow> 'd j2534 \<Rightarrow> ('d j2534 \<times> j2534_status) option" where
  "fast_init_settle ce k s = do {
     c \<leftarrow> chan s k;
     (s, rc) \<leftarrow>
       (if pt_kind (ch_pending c) = TX_NONE then Some (s, 0)
        else do {
          let (s, rc) = vif_do (vif_bus_tx_wait (ce_vif ce) (ce_me ce) VIF_OWNER_LINK (ch_bus c)) s;
          if rc \<noteq> 0 then Some (s, rc) else do { s \<leftarrow> collect_bus_tx ce k s; Some (s, 0) }
        });
     if rc \<noteq> 0 then Some (s, bus_error rc)
     else do {
       c \<leftarrow> chan s k;
       if ch_tx_len c = 0 then Some (s, J2534_OK)
       else do {
         (s, rc) \<leftarrow> send_byte_message ce k s;
         s \<leftarrow> tx_done ce k (rc = 0) s;
         Some (s, bus_error rc)
       }
     }
   }"

definition fast_init :: "'d core_env \<Rightarrow> nat \<Rightarrow> req_fast_init \<Rightarrow> 'd j2534 \<Rightarrow> ('d j2534 \<times> j2534_status) option" where
  "fast_init ce k req s = do {
     c \<leftarrow> chan s k;
     let checksum = (if ch_flags c AND J2534_CHECKSUM_DISABLED = 0 then 1 else 0);
     if ch_bus c \<noteq> VIF_BUS_KLINE \<or> ch_parent c \<noteq> 0 then Some (s, J2534_IOCTL)
     else if fa_tx_flags req AND NOT J2534_WAIT_P3 \<noteq> 0 \<or> pb_size (fa_data req) > BUS_INIT_MSG_MAX - checksum
     then Some (s, J2534_MSG)
     else do {
       (s, rc) \<leftarrow> fast_init_settle ce k s;
       if rc \<noteq> J2534_OK then Some (s, rc)
       else do {
         data \<leftarrow> load_at (pb_bytes (fa_data req)) 0 (pb_size (fa_data req));
         msg \<leftarrow> store_at (bi_msg init_zero) 0 data;
         let init = init_zero\<lparr>bi_raw_response := True, bi_no_response := fa_no_response req,
           bi_msg_len := pb_size (fa_data req), bi_msg := msg,
           bi_tx_flags := (if fa_tx_flags req AND J2534_WAIT_P3 \<noteq> 0 then BUS_TX_WAIT_P3_MIN_ONLY else 0)\<rparr>;
         let (s, rc, arg) = bus_ioctl ce (ch_bus c) BUS_IOCTL_FAST_INIT (InitArg init) s;
         if rc \<noteq> 0 then Some (s, bus_error rc)
         else if fa_no_response req then Some (s, J2534_OK)
         else case arg of
             InitArg init \<Rightarrow>
               if bi_reply_len init \<le> checksum \<or> bi_reply_len init > BUS_INIT_MSG_MAX then Some (s, J2534_INIT)
               else do {
                 c \<leftarrow> chan s k;
                 let n = bi_reply_len init - checksum;
                 reply \<leftarrow> load_at (bi_reply init) 0 n;
                 bytes \<leftarrow> store_at (pb_bytes (om_data message_zero)) 0 reply;
                 Some (respond (\<lambda>r. r\<lparr>rp_message := Some (message_zero\<lparr>om_protocol := ch_protocol c,
                   om_timestamp_us := bi_reply_timestamp_us init, om_extra_data_index := of_nat n,
                   om_data := \<lparr>pb_size = n, pb_bytes = bytes\<rparr>\<rparr>)\<rparr>) s, J2534_OK)
               }
           | _ \<Rightarrow> None
       }
     }
   }"

definition read_capabilities :: "'d j2534 \<Rightarrow> 'd j2534 \<times> j2534_status" where
  "read_capabilities s =
     (respond (\<lambda>r. r\<lparr>rp_capabilities := Some
        \<lparr>cb_wire_version = 1, cb_api_version = 0x0500, cb_physical_channels = J2534_PHYSICAL_MAX,
         cb_logical_channels = J2534_LOGICAL_MAX, cb_filters_per_channel = J2534_FILTER_MAX,
         cb_periodic_per_channel = J2534_PERIODIC_MAX, cb_fragment_bytes = J2534_FRAGMENT_MAX,
         cb_rpc_bytes = J2534_RPC_MAX, cb_rx_queue_bytes = RX_BYTES, cb_tx_queue_messages = 1,
         cb_protocols = [(J2534_CAN, 12, 12, 12), (J2534_PWM, 10, 11, 10), (J2534_VPW, 11, 11, 11),
           (J2534_ISO9141, 259, 259, 12), (J2534_ISO14230, 259, 259, 12), (J2534_ISOTP, 4100, 4100, 11)],
         cb_fast_init_max_data = BUS_INIT_MSG_MAX, cb_repeat_per_channel = J2534_REPEAT_MAX\<rparr>\<rparr>) s, J2534_OK)"

definition SELECT_READABLE :: u32w where "SELECT_READABLE = 1"

text \<open>The response has room for five channels.\<close>

fun readable_channels :: "'d j2534 \<Rightarrow> u32w list \<Rightarrow> u32w list \<Rightarrow> u32w list option" where
  "readable_channels s [] out = Some out"
| "readable_channels s (i # is) out = do {
     k \<leftarrow> find_channel s i;
     c \<leftarrow> chan s k;
     if ch_rx_used c = 0 then readable_channels s is out
     else if length out \<ge> CHANNELS then None
     else readable_channels s is (out @ [ch_id c])
   }"

definition select_channels :: "req_select \<Rightarrow> 'd j2534 \<Rightarrow> ('d j2534 \<times> j2534_status) option" where
  "select_channels req s =
     (if se_type req \<noteq> SELECT_READABLE then Some (s, J2534_SELECT)
      else if \<not> list_all (\<lambda>i. channel_is_live s (find_channel s i)) (se_channels req) then Some (s, J2534_CHANNEL)
      else do {
        out \<leftarrow> readable_channels s (se_channels req) (rp_channels (jc_response s));
        Some (respond (\<lambda>r. r\<lparr>rp_channels := out\<rparr>) s, J2534_OK)
      })"

section \<open>Periodic and repeat messages\<close>

text \<open>\<open>*job = (j2534_schedule_job_t){...}\<close> through the pointer \<open>j2534_schedule_allocate\<close> gave.\<close>

definition put_job :: "nat \<Rightarrow> nat \<Rightarrow> schedule_job \<Rightarrow> 'd j2534 \<Rightarrow> 'd j2534 option" where
  "put_job k j job = upd_job k j (\<lambda>_. job)"

definition start_periodic :: "'d core_env \<Rightarrow> nat \<Rightarrow> req_periodic \<Rightarrow> 'd j2534 \<Rightarrow> ('d j2534 \<times> j2534_status) option" where
  "start_periodic ce k req s = (case pr_message req of
       None \<Rightarrow> Some (s, J2534_MSG)
     | Some m \<Rightarrow>
         if pr_interval_ms req < 5 \<or> pr_interval_ms req > 65535 then Some (s, J2534_INTERVAL)
         else do {
           let len = pb_size (om_data m);
           (s, rc) \<leftarrow> validate_message ce k (om_protocol m) (om_tx_flags m) (pb_bytes (om_data m)) len True s;
           if rc \<noteq> J2534_OK then Some (s, rc)
           else do {
             c \<leftarrow> chan s k;
             case j2534_schedule_allocate (ch_scheduler c) False of
               None \<Rightarrow> Some (s, J2534_LIMIT)
             | Some j \<Rightarrow> do {
                 let (s, i) = new_id s;
                 let (s, now) = now_us ce s;
                 bytes \<leftarrow> load_at (pb_bytes (om_data m)) 0 len;
                 data \<leftarrow> store_at (sm_data (sj_message job_zero)) 0 bytes;
                 s \<leftarrow> put_job k j (job_zero\<lparr>sj_id := i, sj_kind := J2534_SCHEDULE_PERIODIC,
                   sj_interval_us := pr_interval_ms req * 1000, sj_due_us := now, sj_active := True,
                   sj_message := \<lparr>sm_flags = om_tx_flags m, sm_handle = om_handle m, sm_len = len,
                     sm_data = data\<rparr>\<rparr>) s;
                 Some (respond (\<lambda>r. r\<lparr>rp_id := i\<rparr>) s, J2534_OK)
               }
           }
         })"

record repeat_message =
  rm_protocol :: u32w
  rm_flags :: u32w
  rm_handle :: u32w
  rm_len :: nat
  rm_data :: "byte list"

record repeat_setup =
  su_interval_ms :: u32w
  su_condition :: u32w
  su_message :: repeat_message
  su_mask :: repeat_message
  su_pattern :: repeat_message

definition repeat_match_flags :: "channel \<Rightarrow> u32w" where
  "repeat_match_flags c =
     (if ch_parent c \<noteq> 0 then J2534_ADDR OR J2534_29BIT OR J2534_PAD
      else if ch_bus c = VIF_BUS_CAN then J2534_29BIT
      else if ch_bus c = VIF_BUS_KLINE then J2534_WAIT_P3 else 0)"

definition repeat_max_match :: "channel \<Rightarrow> nat" where
  "repeat_max_match c =
     (if ch_parent c \<noteq> 0 then 11
      else if ch_protocol c = J2534_PWM then 10
      else if ch_protocol c = J2534_VPW then 11 else 12)"

definition repeat_job :: "repeat_setup \<Rightarrow> u32w \<Rightarrow> u32w \<Rightarrow> schedule_job option" where
  "repeat_job su i now = do {
     let m = su_message su;
     bytes \<leftarrow> load_at (rm_data m) 0 (rm_len m);
     data \<leftarrow> store_at (sm_data (sj_message job_zero)) 0 bytes;
     mask \<leftarrow> load_at (rm_data (su_mask su)) 0 (rm_len (su_mask su));
     mask \<leftarrow> store_at (sj_mask job_zero) 0 mask;
     pattern \<leftarrow> load_at (rm_data (su_pattern su)) 0 (rm_len (su_mask su));
     pattern \<leftarrow> store_at (sj_pattern job_zero) 0 pattern;
     Some (job_zero\<lparr>sj_id := i,
       sj_kind := (if su_condition su \<noteq> 0 then J2534_SCHEDULE_WHILE else J2534_SCHEDULE_UNTIL),
       sj_interval_us := su_interval_ms su * 1000, sj_due_us := now, sj_created_us := now, sj_active := True,
       sj_message := \<lparr>sm_flags = rm_flags m, sm_handle = rm_handle m, sm_len = rm_len m, sm_data = data\<rparr>,
       sj_match_flags := rm_flags (su_mask su) AND (J2534_ADDR OR J2534_29BIT), sj_match_len := rm_len (su_mask su),
       sj_mask := mask, sj_pattern := pattern\<rparr>)
   }"

text \<open>The checks of \<open>j2534_core_repeat_start\<close> around \<open>validate_message\<close>.\<close>

definition repeat_setup_check :: "channel \<Rightarrow> repeat_setup \<Rightarrow> j2534_status" where
  "repeat_setup_check c su =
     (let mask = su_mask su; pattern = su_pattern su in
      if su_interval_ms su < 5 \<or> su_interval_ms su > 65535 then J2534_INTERVAL
      else if su_condition su > 1 then J2534_VALUE
      else if rm_len (su_message su) > 12 \<or> rm_len mask > 12 \<or> rm_len mask = 0 \<or>
        rm_len mask \<noteq> rm_len pattern \<or> rm_flags mask \<noteq> rm_flags pattern then J2534_MSG
      else if rm_protocol mask \<noteq> ch_protocol c \<or> rm_protocol pattern \<noteq> ch_protocol c then J2534_MSG_PROTOCOL
      else J2534_OK)"

definition repeat_match_check :: "channel \<Rightarrow> channel option \<Rightarrow> repeat_setup \<Rightarrow> j2534_status option" where
  "repeat_match_check c physical su = do {
     let mask = su_mask su;
     if rm_flags mask AND NOT (repeat_match_flags c) \<noteq> 0 then Some J2534_FLAGS
     else do {
       bad \<leftarrow> (if ch_bus c = VIF_BUS_CAN then map_option (\<lambda>ph. \<not> can_flags_match ph (rm_flags mask)) physical
              else Some False);
       Some (if bad then J2534_FLAGS
             else if ch_parent c \<noteq> 0 \<and> (rm_flags mask AND J2534_ADDR \<noteq> 0) \<noteq> extended_address (ch_config c)
             then J2534_FLAGS
             else if rm_len mask > repeat_max_match c then J2534_MSG
             else J2534_OK)
     }
   }"

text \<open>The third component is what is stored through the pointer \<open>repeat_id\<close>.\<close>

definition j2534_core_repeat_start ::
  "'d core_env \<Rightarrow> u32w \<Rightarrow> repeat_setup \<Rightarrow> 'd j2534 \<Rightarrow> ('d j2534 \<times> j2534_status \<times> u32w option) option" where
  "j2534_core_repeat_start ce i su s =
     (if \<not> channel_is_live s (find_channel s i) then Some (s, J2534_CHANNEL, None)
      else do {
        k \<leftarrow> find_channel s i;
        c \<leftarrow> chan s k;
        let rc = repeat_setup_check c su;
        if rc \<noteq> J2534_OK then Some (s, rc, None)
        else do {
          let m = su_message su;
          (s, rc) \<leftarrow> validate_message ce k (rm_protocol m) (rm_flags m) (rm_data m) (rm_len m) True s;
          if rc \<noteq> J2534_OK then Some (s, rc, None)
          else do {
            c \<leftarrow> chan s k;
            rc \<leftarrow> repeat_match_check c (Option.bind (physical_channel s k) (chan s)) su;
            if rc \<noteq> J2534_OK then Some (s, rc, None)
            else case j2534_schedule_allocate (ch_scheduler c) True of
                None \<Rightarrow> Some (s, J2534_LIMIT, None)
              | Some j \<Rightarrow> do {
                  let (s, now) = now_us ce s;
                  let (s, n) = new_id s;
                  job \<leftarrow> repeat_job su n now;
                  s \<leftarrow> put_job k j job s;
                  Some (s, J2534_OK, Some n)
                }
          }
        }
      })"

definition j2534_core_repeat_query :: "u32w \<Rightarrow> u32w \<Rightarrow> 'd j2534 \<Rightarrow> (j2534_status \<times> bool option) option" where
  "j2534_core_repeat_query channel_id i s =
     (if \<not> channel_is_live s (find_channel s channel_id) then Some (J2534_CHANNEL, None)
      else do {
        k \<leftarrow> find_channel s channel_id;
        c \<leftarrow> chan s k;
        Some (case j2534_schedule_find (ch_scheduler c) i of
            None \<Rightarrow> (J2534_MSG_ID, None)
          | Some j \<Rightarrow>
              if sj_kind (ch_scheduler c ! j) = J2534_SCHEDULE_PERIODIC then (J2534_MSG_ID, None)
              else (J2534_OK, Some (sj_active (ch_scheduler c ! j))))
      })"

definition stop_scheduled ::
  "'d core_env \<Rightarrow> nat \<Rightarrow> u32w \<Rightarrow> bool \<Rightarrow> 'd j2534 \<Rightarrow> ('d j2534 \<times> j2534_status) option" where
  "stop_scheduled ce k i rep s = do {
     c \<leftarrow> chan s k;
     case j2534_schedule_find (ch_scheduler c) i of
       None \<Rightarrow> Some (s, J2534_MSG_ID)
     | Some j \<Rightarrow>
         if (sj_kind (ch_scheduler c ! j) \<noteq> J2534_SCHEDULE_PERIODIC) \<noteq> rep then Some (s, J2534_MSG_ID)
         else do { s \<leftarrow> drop_job ce k j s; Some (s, J2534_OK) }
   }"

definition j2534_core_repeat_stop ::
  "'d core_env \<Rightarrow> u32w \<Rightarrow> u32w \<Rightarrow> 'd j2534 \<Rightarrow> ('d j2534 \<times> j2534_status) option" where
  "j2534_core_repeat_stop ce channel_id i s =
     (if \<not> channel_is_live s (find_channel s channel_id) then Some (s, J2534_CHANNEL)
      else do { k \<leftarrow> find_channel s channel_id; stop_scheduled ce k i True s })"

definition decode_repeat_message :: "repeat_wire_message \<Rightarrow> repeat_message option" where
  "decode_repeat_message m = do {
     bytes \<leftarrow> load_at (pb_bytes (rw_data m)) 0 (pb_size (rw_data m));
     data \<leftarrow> store_at (replicate 12 0) 0 bytes;
     Some \<lparr>rm_protocol = rw_protocol m, rm_flags = rw_tx_flags m, rm_handle = rw_handle m,
           rm_len = pb_size (rw_data m), rm_data = data\<rparr>
   }"

definition start_repeat :: "'d core_env \<Rightarrow> req_repeat \<Rightarrow> 'd j2534 \<Rightarrow> ('d j2534 \<times> j2534_status) option" where
  "start_repeat ce req s = (case (re_message req, re_mask req, re_pattern req) of
       (Some m, Some mk, Some pat) \<Rightarrow> do {
         m \<leftarrow> decode_repeat_message m;
         mk \<leftarrow> decode_repeat_message mk;
         pat \<leftarrow> decode_repeat_message pat;
         (s, rc, i) \<leftarrow> j2534_core_repeat_start ce (re_channel req)
           \<lparr>su_interval_ms = re_interval_ms req, su_condition = re_condition req, su_message = m,
            su_mask = mk, su_pattern = pat\<rparr> s;
         Some (case i of None \<Rightarrow> s | Some i \<Rightarrow> respond (\<lambda>r. r\<lparr>rp_id := i\<rparr>) s, rc)
       }
     | _ \<Rightarrow> Some (s, J2534_MSG))"

section \<open>Filters\<close>

definition new_filter :: "u32w \<Rightarrow> req_filter \<Rightarrow> filter_t option" where
  "new_filter i req = do {
     mask \<leftarrow> load_at (pb_bytes (fi_mask req)) 0 (pb_size (fi_mask req));
     pattern \<leftarrow> load_at (pb_bytes (fi_pattern req)) 0 (pb_size (fi_mask req));
     mask \<leftarrow> store_at (ft_mask filter_zero) 0 mask;
     pattern \<leftarrow> store_at (ft_pattern filter_zero) 0 pattern;
     Some \<lparr>ft_id = i, ft_type = fi_type req, ft_flags = fi_flags req, ft_len = pb_size (fi_mask req),
           ft_mask = mask, ft_pattern = pattern\<rparr>
   }"

definition start_filter :: "nat \<Rightarrow> req_filter \<Rightarrow> 'd j2534 \<Rightarrow> ('d j2534 \<times> j2534_status) option" where
  "start_filter k req s = do {
     c \<leftarrow> chan s k;
     let len = pb_size (fi_mask req);
     if ch_parent c \<noteq> 0 then Some (s, J2534_FILTER_TYPE)
     else if fi_type req \<noteq> FILTER_PASS \<and> fi_type req \<noteq> FILTER_BLOCK then Some (s, J2534_FILTER_TYPE)
     else if len = 0 \<or> len > (if ch_protocol c = J2534_PWM then 10 else 12) \<or> pb_size (fi_pattern req) \<noteq> len
     then Some (s, J2534_MSG)
     else if fi_flags req AND NOT (if ch_protocol c = J2534_CAN then J2534_29BIT else 0) \<noteq> 0 \<or>
       (ch_protocol c = J2534_CAN \<and> \<not> can_flags_match c (fi_flags req))
     then Some (s, J2534_MSG)
     else case find (\<lambda>i. ft_id (ch_filters c ! i) = 0) [0..<J2534_FILTER_MAX] of
         None \<Rightarrow> Some (s, J2534_LIMIT)
       | Some i \<Rightarrow> do {
           let (s, n) = new_id s;
           f \<leftarrow> new_filter n req;
           s \<leftarrow> upd_opt k (\<lambda>c. do { fs \<leftarrow> set_at (ch_filters c) i f; Some (c\<lparr>ch_filters := fs\<rparr>) }) s;
           Some (respond (\<lambda>r. r\<lparr>rp_id := n\<rparr>) s, J2534_OK)
         }
   }"

definition stop_filter :: "nat \<Rightarrow> u32w \<Rightarrow> 'd j2534 \<Rightarrow> ('d j2534 \<times> j2534_status) option" where
  "stop_filter k n s = do {
     c \<leftarrow> chan s k;
     case find (\<lambda>i. ft_id (ch_filters c ! i) \<noteq> 0 \<and> ft_id (ch_filters c ! i) = n) [0..<J2534_FILTER_MAX] of
       None \<Rightarrow> Some (s, J2534_FILTER_ID)
     | Some i \<Rightarrow> do {
         s \<leftarrow> upd_opt k (\<lambda>c. do { fs \<leftarrow> set_at (ch_filters c) i filter_zero; Some (c\<lparr>ch_filters := fs\<rparr>) }) s;
         Some (s, J2534_OK)
       }
   }"

section \<open>Dispatch\<close>

text \<open>The channel a request names.\<close>

fun command_channel :: "command \<Rightarrow> u32w option" where
  "command_channel (CmdDisconnect i) = Some i"
| "command_channel (CmdLogicalDisconnect i) = Some i"
| "command_channel (CmdRead i) = Some i"
| "command_channel (CmdQueue r) = Some (qu_channel r)"
| "command_channel (CmdStartPeriodic r) = Some (pr_channel r)"
| "command_channel (CmdStopPeriodic i _) = Some i"
| "command_channel (CmdStartRepeat r) = Some (re_channel r)"
| "command_channel (CmdQueryRepeat i _) = Some i"
| "command_channel (CmdStopRepeat i _) = Some i"
| "command_channel (CmdStartFilter r) = Some (fi_channel r)"
| "command_channel (CmdStopFilter i _) = Some i"
| "command_channel (CmdFastInit r) = Some (fa_channel r)"
| "command_channel (CmdIoctl r) = Some (io_target r)"
| "command_channel (CmdLogicalConnect r) = Some (lc_physical r)"
| "command_channel _ = None"

definition query_repeat :: "u32w \<Rightarrow> u32w \<Rightarrow> 'd j2534 \<Rightarrow> ('d j2534 \<times> j2534_status) option" where
  "query_repeat i n s = do {
     (rc, active) \<leftarrow> j2534_core_repeat_query i n s;
     Some (case active of None \<Rightarrow> s | Some a \<Rightarrow> respond (\<lambda>r. r\<lparr>rp_repeat_active := a\<rparr>) s, rc)
   }"

definition dispatch_disconnect ::
  "'d core_env \<Rightarrow> nat \<Rightarrow> bool \<Rightarrow> 'd j2534 \<Rightarrow> ('d j2534 \<times> j2534_status) option" where
  "dispatch_disconnect ce k logical s = do {
     c \<leftarrow> chan s k;
     if logical \<noteq> (ch_parent c \<noteq> 0) then Some (s, J2534_CHANNEL) else disconnect_channel ce k s
   }"

fun dispatch_live :: "'d core_env \<Rightarrow> nat \<Rightarrow> command \<Rightarrow> 'd j2534 \<Rightarrow> ('d j2534 \<times> j2534_status) option" where
  "dispatch_live ce k (CmdRead _) s = read_message k s"
| "dispatch_live ce k (CmdQueue r) s = queue_message ce k r s"
| "dispatch_live ce k (CmdStartPeriodic r) s = start_periodic ce k r s"
| "dispatch_live ce k (CmdStopPeriodic _ n) s = stop_scheduled ce k n False s"
| "dispatch_live ce k (CmdStartRepeat r) s = start_repeat ce r s"
| "dispatch_live ce k (CmdQueryRepeat i n) s = query_repeat i n s"
| "dispatch_live ce k (CmdStopRepeat i n) s = j2534_core_repeat_stop ce i n s"
| "dispatch_live ce k (CmdStartFilter r) s = start_filter k r s"
| "dispatch_live ce k (CmdStopFilter _ n) s = stop_filter k n s"
| "dispatch_live ce k (CmdFastInit r) s = fast_init ce k r s"
| "dispatch_live ce k (CmdIoctl r) s = ioctl_request ce k r s"
| "dispatch_live ce k (CmdLogicalConnect r) s = logical_connect ce k r s"
| "dispatch_live ce k _ s = Some (s, J2534_NOT_SUPPORTED)"

definition dispatch_channel_request ::
  "'d core_env \<Rightarrow> command \<Rightarrow> 'd j2534 \<Rightarrow> ('d j2534 \<times> j2534_status) option" where
  "dispatch_channel_request ce cmd s = (case command_channel cmd of
       None \<Rightarrow> Some (s, J2534_NOT_SUPPORTED)
     | Some i \<Rightarrow> (case find_channel s i of
           None \<Rightarrow> Some (s, J2534_CHANNEL)
         | Some k \<Rightarrow> (case cmd of
               CmdDisconnect _ \<Rightarrow> dispatch_disconnect ce k False s
             | CmdLogicalDisconnect _ \<Rightarrow> dispatch_disconnect ce k True s
             | _ \<Rightarrow> if \<not> channel_is_live s (Some k) then Some (s, J2534_CHANNEL)
                   else dispatch_live ce k cmd s)))"

definition release_all_buses :: "'d core_env \<Rightarrow> 'd j2534 \<Rightarrow> 'd j2534 \<times> esp_err" where
  "release_all_buses ce = vif_do (vif_bus_release_all (ce_vif ce) (ce_me ce) VIF_OWNER_LINK)"

text \<open>\<open>vif_pin_release_all\<close> cannot fail.\<close>

definition close_device :: "'d core_env \<Rightarrow> u32w \<Rightarrow> 'd j2534 \<Rightarrow> ('d j2534 \<times> j2534_status) option" where
  "close_device ce i s =
     (if i \<noteq> jc_device s then Some (s, J2534_DEVICE)
      else
        let s = (vif_upd (\<lambda>(g, d). (vif_pin_release_all VIF_OWNER_LINK g, d)) s)\<lparr>jc_voltage_pin := -1\<rparr>;
            (s, err) = release_all_buses ce s
        in if err \<noteq> ESP_OK then Some (s, J2534_FAILED)
           else do {
             s \<leftarrow> fold_opt (\<lambda>s k. release_channel k s) s all_indices;
             Some (s\<lparr>jc_device := 0\<rparr>, J2534_OK)
           })"

definition open_device :: "'d core_env \<Rightarrow> 'd j2534 \<Rightarrow> 'd j2534 \<times> j2534_status" where
  "open_device ce s =
     (if jc_device s \<noteq> 0 then (s, J2534_IN_USE)
      else
        let (s, err) = release_all_buses ce s
        in if err \<noteq> ESP_OK then (s, J2534_FAILED)
           else let (s, n) = new_id s in (respond (\<lambda>r. r\<lparr>rp_id := n\<rparr>) (s\<lparr>jc_device := n\<rparr>), J2534_OK))"

text \<open>\<open>%02lx\<close>, and a text cut to the 128 bytes of its array.\<close>

fun hex_digits :: "nat \<Rightarrow> string" where
  "hex_digits n = (if n < 16 then [''0123456789abcdef'' ! n]
     else hex_digits (n div 16) @ [''0123456789abcdef'' ! (n mod 16)])"

definition hex02 :: "u32w \<Rightarrow> string" where
  "hex02 v = (let t = hex_digits (unat v) in if length t < 2 then CHR ''0'' # t else t)"

definition reply_text :: "string \<Rightarrow> 'd j2534 \<Rightarrow> 'd j2534 \<times> j2534_status" where
  "reply_text t s = (respond (\<lambda>r. r\<lparr>rp_text := take 127 t\<rparr>) s, J2534_OK)"

definition dispatch_request :: "'d core_env \<Rightarrow> command \<Rightarrow> 'd j2534 \<Rightarrow> ('d j2534 \<times> j2534_status) option" where
  "dispatch_request ce cmd s = (case cmd of
       CmdCapabilities \<Rightarrow> Some (read_capabilities s)
     | CmdLastError \<Rightarrow> Some (reply_text (''J2534 status 0x'' @ hex02 (jc_last_error s)) s)
     | CmdOpen \<Rightarrow> Some (open_device ce s)
     | _ \<Rightarrow>
         if jc_device s = 0 then Some (s, J2534_NOT_OPEN)
         else case cmd of
             CmdClose i \<Rightarrow> close_device ce i s
           | CmdConnect r \<Rightarrow> connect_channel ce r s
           | CmdVoltage r \<Rightarrow> Some (set_programming_voltage r s)
           | CmdVersion i \<Rightarrow>
               if i \<noteq> jc_device s then Some (s, J2534_DEVICE)
               else Some (reply_text (''OpenDIAG '' @ ce_version ce @ ''; protobuf wire 1; J2534 05.00 subset'') s)
           | CmdSelect r \<Rightarrow> select_channels r s
           | CmdIoctl r \<Rightarrow>
               if io_id r = IOCTL_READ_VBATT \<or> io_id r = IOCTL_READ_PROG_VOLTAGE then Some (read_voltage ce r s)
               else dispatch_channel_request ce cmd s
           | _ \<Rightarrow> dispatch_channel_request ce cmd s)"

text \<open>The protocol buffer library decodes and encodes; its output fits \<open>J2534_RPC_MAX\<close>.\<close>

record codec =
  cd_decode :: "byte list \<Rightarrow> command option"
  cd_encode :: "response \<Rightarrow> byte list option"

definition run_command :: "'d core_env \<Rightarrow> command option \<Rightarrow> byte \<Rightarrow> 'd j2534 \<Rightarrow> 'd j2534 option" where
  "run_command ce cmd op s = do {
     let s = s\<lparr>jc_response := response_zero\<rparr>;
     (s, rc) \<leftarrow> (case cmd of
         None \<Rightarrow> Some (s, J2534_MSG)
       | Some c \<Rightarrow> if command_tag c \<noteq> unat op + 1 then Some (s, J2534_MSG) else dispatch_request ce c s);
     let s = respond (\<lambda>r. r\<lparr>rp_status := j2534_code rc\<rparr>) s;
     Some (if rc \<noteq> J2534_OK then s\<lparr>jc_last_error := j2534_code rc\<rparr> else s)
   }"

definition j2534_core_request ::
  "'d core_env \<Rightarrow> codec \<Rightarrow> byte \<Rightarrow> byte list \<Rightarrow> 'd j2534 \<Rightarrow> ('d j2534 \<times> byte list) option" where
  "j2534_core_request ce cd op input s = do {
     s \<leftarrow> run_command ce (cd_decode cd input) op s;
     Some (s, case cd_encode cd (jc_response s) of
         None \<Rightarrow> [8, ucast (j2534_code J2534_FAILED)]
       | Some out \<Rightarrow> out)
   }"

definition j2534_core_stop :: "'d core_env \<Rightarrow> 'd j2534 \<Rightarrow> 'd j2534 option" where
  "j2534_core_stop ce s = do {
     s \<leftarrow> fold_opt (\<lambda>s p. do {
         c \<leftarrow> chan s p;
         Some (if ch_id c = 0 then s else bus_cancel ce (ch_bus c) s)
       }) s physical_indices;
     s \<leftarrow> fold_opt (\<lambda>s k. release_channel k s) s all_indices;
     Some (s\<lparr>jc_device := 0, jc_voltage_pin := -1\<rparr>)
   }"

definition j2534_core_start :: "'d core_env \<Rightarrow> 'd j2534 \<Rightarrow> 'd j2534 option" where
  "j2534_core_start ce s = do {
     s \<leftarrow> j2534_core_stop ce s;
     Some (s\<lparr>jc_last_error := 0\<rparr>)
   }"

end
