(* ===== verification/J2534Service.thy ===== *)
theory J2534Service
  imports J2534Core
begin

text \<open>
Why the service of a bus never faults: the well-formedness of a channel, and for every operation
  of \<open>J2534Core\<close> that, from well-formed channels, it gives a state again and leaves identifiers,
  parents, protocols, buses, addresses and the identities of the scheduled messages alone.
\<close>

section \<open>Steps that succeed\<close>

definition okay :: "('a \<Rightarrow> bool) \<Rightarrow> 'a option \<Rightarrow> bool" where
  "okay P x \<longleftrightarrow> (\<exists>y. x = Some y \<and> P y)"

lemma okay_Some [simp]: "okay P (Some y) = P y"
  by (simp add: okay_def)

lemma okay_None [simp]: "\<not> okay P None"
  by (simp add: okay_def)

lemma okay_bind: "okay Q x \<Longrightarrow> (\<And>y. Q y \<Longrightarrow> okay P (f y)) \<Longrightarrow> okay P (Option.bind x f)"
  by (auto simp: okay_def)

lemma okay_mono: "okay Q x \<Longrightarrow> (\<And>y. Q y \<Longrightarrow> P y) \<Longrightarrow> okay P x"
  by (auto simp: okay_def)

lemma okay_map: "okay P (map_option f x) = okay (\<lambda>y. P (f y)) x"
  by (auto simp: okay_def)

lemma okay_fold:
  assumes "I s" "\<And>s x. x \<in> set xs \<Longrightarrow> I s \<Longrightarrow> okay I (f s x)"
  shows "okay I (fold_opt f s xs)"
  using assms
proof (induction xs arbitrary: s)
  case (Cons x xs)
  have "okay I (f s x)" using Cons.prems by simp
  then show ?case using Cons.IH Cons.prems(2) by (auto intro: okay_bind)
qed simp

section \<open>What service does not change\<close>

text \<open>A scheduled message as the host started it: the job without how far it is.\<close>

definition job_setting :: "schedule_job \<Rightarrow> schedule_job" where
  "job_setting job = job\<lparr>sj_due_us := 0, sj_ended_us := 0, sj_match_us := 0, sj_active := False, sj_pending := False,
     sj_transmission_ended := False, sj_sent := False, sj_matched := False, sj_have_match := False\<rparr>"

lemma job_setting_sel [simp]: "sj_id (job_setting job) = sj_id job" "sj_message (job_setting job) = sj_message job"
  by (simp_all add: job_setting_def)

text \<open>
  What the host has set of a channel: its role, the flags and rate it was connected with, its local
  echo, its filters, the parameters and addresses of its transport, and its scheduled messages.
\<close>

record shape =
  sp_id :: u32w
  sp_parent :: u32w
  sp_protocol :: u32w
  sp_bus :: vif_bus
  sp_flags :: u32w
  sp_rate :: u32w
  sp_echo :: u32w
  sp_filters :: "filter_t list"
  sp_config :: isotp_config
  sp_tx_timeout_a_us :: u32w
  sp_local_flags :: u32w
  sp_remote_flags :: u32w
  sp_local :: "byte list"
  sp_remote :: "byte list"
  sp_jobs :: "schedule_job list"

definition shape_of :: "channel \<Rightarrow> shape" where
  "shape_of c = \<lparr>sp_id = ch_id c, sp_parent = ch_parent c, sp_protocol = ch_protocol c, sp_bus = ch_bus c,
     sp_flags = ch_flags c, sp_rate = ch_rate c, sp_echo = ch_echo c, sp_filters = ch_filters c,
     sp_config = ch_config c, sp_tx_timeout_a_us = ch_tx_timeout_a_us c, sp_local_flags = ch_local_flags c,
     sp_remote_flags = ch_remote_flags c, sp_local = ch_local c, sp_remote = ch_remote c,
     sp_jobs = map job_setting (ch_scheduler c)\<rparr>"

lemma shape_sel [simp]:
  "sp_id (shape_of c) = ch_id c" "sp_parent (shape_of c) = ch_parent c" "sp_protocol (shape_of c) = ch_protocol c"
  "sp_bus (shape_of c) = ch_bus c" "sp_config (shape_of c) = ch_config c"
  "sp_local_flags (shape_of c) = ch_local_flags c" "sp_remote_flags (shape_of c) = ch_remote_flags c"
  "sp_local (shape_of c) = ch_local c" "sp_remote (shape_of c) = ch_remote c"
  "sp_jobs (shape_of c) = map job_setting (ch_scheduler c)"
  by (simp_all add: shape_of_def)

type_synonym view = "shape list \<times> u32w \<times> u32w \<times> response"

definition view_of :: "'d j2534 \<Rightarrow> view" where
  "view_of s = (map shape_of (jc_channels s), jc_next_id s, jc_device s, jc_response s)"

section \<open>Well-formed channels\<close>

definition frame_fits :: "can_frame \<Rightarrow> bool" where
  "frame_fits f \<longleftrightarrow> length (can_data f) = 8 \<and> can_dlc f \<le> 8"

definition tx_fits :: "channel \<Rightarrow> bool" where
  "tx_fits c \<longleftrightarrow> ch_tx_len c = 0 \<or>
     MSG_HEADER < ch_tx_len c \<and> ch_tx_len c \<le> TX_BYTES \<and>
     (ch_parent c = 0 \<and> ch_bus c = VIF_BUS_CAN \<longrightarrow> MSG_HEADER + 4 \<le> ch_tx_len c \<and> ch_tx_len c \<le> MSG_HEADER + 12)"

text \<open>\<open>raw\<close>: a raw CAN channel; \<open>logical\<close>: an ISO 15765 one.\<close>

definition job_fits :: "bool \<Rightarrow> bool \<Rightarrow> schedule_job \<Rightarrow> bool" where
  "job_fits raw logical job \<longleftrightarrow> length (sm_data (sj_message job)) = 12 \<and> sm_len (sj_message job) \<le> 12 \<and>
     (sj_active job \<longrightarrow> sj_id job \<noteq> 0) \<and>
     (sj_id job \<noteq> 0 \<longrightarrow>
        (raw \<longrightarrow> 4 \<le> sm_len (sj_message job)) \<and>
        (logical \<longrightarrow> can_id_valid (sm_data (sj_message job)) (sm_flags (sj_message job)) = Some True))"

definition logical_ok :: "channel \<Rightarrow> bool" where
  "logical_ok c \<longleftrightarrow> length (ch_assembly c) = address_len c \<and> valid_config (ch_config c) \<and>
     rx_wf (ch_iso_rx c) \<and> rx_buffer (ch_iso_rx c) \<noteq> None \<and> rx_capacity (ch_iso_rx c) = ISOTP_MAX_PAYLOAD \<and>
     tx_wf (ch_iso_tx c)"

definition live_ok :: "channel \<Rightarrow> bool" where
  "live_ok c \<longleftrightarrow> (\<exists>q. ring_holds c q) \<and> length (ch_tx c) = TX_BYTES \<and> tx_fits c \<and>
     length (ch_filters c) = J2534_FILTER_MAX \<and> list_all filter_ok (ch_filters c) \<and>
     schedule_wf (ch_scheduler c) \<and> list_all (job_fits (ch_parent c = 0 \<and> ch_bus c = VIF_BUS_CAN) (ch_parent c \<noteq> 0)) (ch_scheduler c) \<and>
     frame_fits (pt_frame (ch_pending c)) \<and> frame_fits (ch_flow_control c) \<and>
     length (ch_local c) = 5 \<and> length (ch_remote c) = 5 \<and>
     (ch_parent c \<noteq> 0 \<longrightarrow> logical_ok c)"

text \<open>An unused channel is all zero.\<close>

definition chan_ok :: "channel \<Rightarrow> bool" where
  "chan_ok c \<longleftrightarrow> (if ch_id c = 0 then c = channel_zero else live_ok c)"

definition parents_ok :: "shape list \<Rightarrow> bool" where
  "parents_ok sh \<longleftrightarrow> length sh = CHANNELS \<and>
     (\<forall>k<CHANNELS. sp_parent (sh ! k) \<noteq> 0 \<longrightarrow> (\<exists>j<CHANNELS. sp_id (sh ! j) = sp_parent (sh ! k)))"

definition keeps :: "view \<Rightarrow> 'd j2534 \<Rightarrow> bool" where
  "keeps v s \<longleftrightarrow> view_of s = v \<and> list_all chan_ok (jc_channels s) \<and> parents_ok (fst v)"

definition live :: "view \<Rightarrow> nat \<Rightarrow> bool" where
  "live v k \<longleftrightarrow> k < CHANNELS \<and> sp_id (fst v ! k) \<noteq> 0"

lemma CHANNELS_eq: "CHANNELS = 5"
  by (simp add: CHANNELS_def J2534_PHYSICAL_MAX_def J2534_LOGICAL_MAX_def)

lemma keeps_length: "keeps v s \<Longrightarrow> length (jc_channels s) = CHANNELS"
  by (auto simp: keeps_def view_of_def parents_ok_def)

lemma keeps_shape:
  assumes "keeps v s" "k < CHANNELS" shows "fst v ! k = shape_of (jc_channels s ! k)"
  using assms keeps_length [OF assms(1)] by (auto simp: keeps_def view_of_def)

lemma keeps_chan:
  assumes "keeps v s" "k < CHANNELS"
  shows "chan s k = Some (jc_channels s ! k)" "chan_ok (jc_channels s ! k)"
  using assms keeps_length [OF assms(1)] by (auto simp: keeps_def chan_def list_all_length)

lemma keeps_live:
  assumes "keeps v s" "live v k"
  shows "chan s k = Some (jc_channels s ! k)" "live_ok (jc_channels s ! k)" "ch_id (jc_channels s ! k) \<noteq> 0"
    "fst v ! k = shape_of (jc_channels s ! k)"
  using assms keeps_chan [OF assms(1), of k] keeps_shape [OF assms(1), of k] by (auto simp: live_def chan_ok_def)

text \<open>A step on the environment alone.\<close>

lemma keeps_vif [simp]: "keeps v (s\<lparr>jc_vif := gd\<rparr>) = keeps v s"
  by (simp add: keeps_def view_of_def)

lemma keeps_now [simp]: "keeps v (fst (now_us ce s)) = keeps v s"
  by (simp add: now_us_def case_prod_beta)

lemma now_us_E:
  assumes "keeps v s"
  obtains s' t where "now_us ce s = (s', t)" "keeps v s'"
  using assms keeps_now [of v ce s] by (metis prod.collapse)

lemma keeps_vif_do [simp]: "keeps v (fst (vif_do f s)) = keeps v s"
  by (simp add: vif_do_def case_prod_beta)

lemma keeps_vif_upd [simp]: "keeps v (vif_upd f s) = keeps v s"
  by (simp add: vif_upd_def)

lemma keeps_cancel [simp]: "keeps v (bus_cancel ce bus s) = keeps v s"
  by (simp add: bus_cancel_def)

text \<open>A step on one channel.\<close>

lemma upd_opt_keeps:
  assumes "keeps v s" "live v k"
    "\<And>c. live_ok c \<Longrightarrow> shape_of c = fst v ! k \<Longrightarrow> okay (\<lambda>c'. live_ok c' \<and> shape_of c' = shape_of c) (f c)"
  shows "okay (keeps v) (upd_opt k f s)"
proof -
  let ?c = "jc_channels s ! k"
  note L = keeps_live [OF assms(1,2)]
  obtain c' where c': "f ?c = Some c'" "live_ok c'" "shape_of c' = shape_of ?c"
    using assms(3) [OF L(2)] L(4) by (auto simp: okay_def)
  have k: "k < CHANNELS" using assms(2) by (simp add: live_def)
  have "ch_id c' \<noteq> 0" using c'(3) L(3) by (metis shape_sel(1))
  then have "chan_ok c'" using c'(2) by (simp add: chan_ok_def)
  moreover have "map shape_of ((jc_channels s)[k := c']) = map shape_of (jc_channels s)"
    using c'(3) by (simp add: map_update list_update_same_conv k keeps_length [OF assms(1)])
  ultimately have "keeps v (s\<lparr>jc_channels := (jc_channels s)[k := c']\<rparr>)"
    using assms(1) by (auto simp: keeps_def view_of_def list_all_iff dest: set_update_subset_insert [THEN subsetD])
  then show ?thesis by (simp add: upd_opt_def L(1) c'(1))
qed

lemma upd_keeps:
  assumes "keeps v s" "live v k"
    "\<And>c. live_ok c \<Longrightarrow> shape_of c = fst v ! k \<Longrightarrow> live_ok (f c) \<and> shape_of (f c) = shape_of c"
  shows "okay (keeps v) (upd k f s)"
  unfolding upd_def using assms by (intro upd_opt_keeps) auto

lemma find_channel_live:
  assumes "keeps v s" "find_channel s i = Some k"
  shows "live v k \<and> ch_id (jc_channels s ! k) = i"
  using assms keeps_shape [OF assms(1)]
  by (auto simp: find_channel_def find_Some_iff live_def)

lemma physical_live:
  assumes "keeps v s" "live v k" "physical_channel s k = Some p"
  shows "live v p"
  using assms find_channel_live [OF assms(1)] by (auto simp: physical_channel_def Let_def split: if_splits)

lemma physical_exists:
  assumes "keeps v s" "live v k"
  shows "\<exists>p. physical_channel s k = Some p \<and> live v p"
proof (cases "ch_parent (jc_channels s ! k) = 0")
  case True
  then show ?thesis using assms(2) by (simp add: physical_channel_def Let_def)
next
  case False
  let ?i = "ch_parent (jc_channels s ! k)"
  have k: "k < CHANNELS" using assms(2) by (simp add: live_def)
  have "\<exists>j<CHANNELS. sp_id (fst v ! j) = ?i"
    using False assms(1) keeps_shape [OF assms(1) k] k by (metis keeps_def parents_ok_def shape_sel(2))
  then have "\<exists>j<CHANNELS. ch_id (jc_channels s ! j) = ?i"
    using keeps_shape [OF assms(1)] by auto
  then have "find_channel s ?i \<noteq> None"
    using False by (auto simp: find_channel_def find_None_iff)
  then obtain p where "find_channel s ?i = Some p" by auto
  then show ?thesis using False find_channel_live [OF assms(1)] by (auto simp: physical_channel_def Let_def)
qed

section \<open>Updates that do not matter\<close>

lemma shape_upd [simp]:
  "shape_of (c\<lparr>ch_rx := x1\<rparr>) = shape_of c" "shape_of (c\<lparr>ch_tx := x2\<rparr>) = shape_of c"
  "shape_of (c\<lparr>ch_assembly := x3\<rparr>) = shape_of c" "shape_of (c\<lparr>ch_rx_head := x4\<rparr>) = shape_of c"
  "shape_of (c\<lparr>ch_rx_used := x5\<rparr>) = shape_of c" "shape_of (c\<lparr>ch_tx_len := x6\<rparr>) = shape_of c"
  "shape_of (c\<lparr>ch_overflow := x7\<rparr>) = shape_of c" "shape_of (c\<lparr>ch_tx_active := x8\<rparr>) = shape_of c"
  "shape_of (c\<lparr>ch_link_down := x9\<rparr>) = shape_of c"
  "shape_of (c\<lparr>ch_pending := x11\<rparr>) = shape_of c" "shape_of (c\<lparr>ch_rx_sequence := x12\<rparr>) = shape_of c"
  "shape_of (c\<lparr>ch_tx_cursor := x13\<rparr>) = shape_of c" "shape_of (c\<lparr>ch_rx_drained := x14\<rparr>) = shape_of c"
  "shape_of (c\<lparr>ch_flow_control_pending := x15\<rparr>) = shape_of c"
  "shape_of (c\<lparr>ch_rx_generation := x16\<rparr>) = shape_of c" "shape_of (c\<lparr>ch_flow_control := x17\<rparr>) = shape_of c"
  "shape_of (c\<lparr>ch_iso_rx := x18\<rparr>) = shape_of c" "shape_of (c\<lparr>ch_iso_tx := x19\<rparr>) = shape_of c"
  "map job_setting jobs = map job_setting (ch_scheduler c) \<Longrightarrow> shape_of (c\<lparr>ch_scheduler := jobs\<rparr>) = shape_of c"
  by (simp_all add: shape_of_def)

lemmas live_parts = live_ok_def ring_holds_def tx_fits_def logical_ok_def address_len_def

lemma live_upd [simp]:
  "live_ok (c\<lparr>ch_overflow := x7\<rparr>) = live_ok c" "live_ok (c\<lparr>ch_tx_active := x8\<rparr>) = live_ok c"
  "live_ok (c\<lparr>ch_link_down := x9\<rparr>) = live_ok c" "live_ok (c\<lparr>ch_rx_sequence := x12\<rparr>) = live_ok c"
  "live_ok (c\<lparr>ch_tx_cursor := x13\<rparr>) = live_ok c" "live_ok (c\<lparr>ch_rx_drained := x14\<rparr>) = live_ok c"
  "live_ok (c\<lparr>ch_flow_control_pending := x15\<rparr>) = live_ok c"
  "live_ok (c\<lparr>ch_rx_generation := x16\<rparr>) = live_ok c"
  "live_ok (c\<lparr>ch_echo := x20\<rparr>) = live_ok c" "live_ok (c\<lparr>ch_rate := x21\<rparr>) = live_ok c"
  by (simp_all add: live_parts)

lemma live_pending: "live_ok c \<Longrightarrow> frame_fits (pt_frame p) \<Longrightarrow> live_ok (c\<lparr>ch_pending := p\<rparr>)"
  by (simp add: live_parts)

lemma live_frame: "live_ok c \<Longrightarrow> frame_fits (pt_frame (ch_pending c))"
  by (simp add: live_ok_def)

lemma live_iso_rx:
  "live_ok c \<Longrightarrow> rx_wf rx \<Longrightarrow> rx_buffer rx \<noteq> None \<Longrightarrow> rx_capacity rx = ISOTP_MAX_PAYLOAD \<Longrightarrow>
   live_ok (c\<lparr>ch_iso_rx := rx\<rparr>)"
  by (simp add: live_parts)

lemma live_iso_rx_physical: "live_ok c \<Longrightarrow> ch_parent c = 0 \<Longrightarrow> live_ok (c\<lparr>ch_iso_rx := rx\<rparr>)"
  by (simp add: live_parts)

lemma live_iso_tx: "live_ok c \<Longrightarrow> ch_parent c = 0 \<or> tx_wf tx \<Longrightarrow> live_ok (c\<lparr>ch_iso_tx := tx\<rparr>)"
  by (auto simp: live_parts)

lemma live_no_tx: "live_ok c \<Longrightarrow> live_ok (c\<lparr>ch_tx_len := 0\<rparr>)"
  by (simp add: live_parts)

lemma live_flow_control: "live_ok c \<Longrightarrow> frame_fits f \<Longrightarrow> live_ok (c\<lparr>ch_flow_control := f\<rparr>)"
  by (simp add: live_parts)

lemma live_scheduler:
  "live_ok c \<Longrightarrow> schedule_wf jobs \<Longrightarrow> list_all (job_fits (ch_parent c = 0 \<and> ch_bus c = VIF_BUS_CAN) (ch_parent c \<noteq> 0)) jobs \<Longrightarrow> live_ok (c\<lparr>ch_scheduler := jobs\<rparr>)"
  by (simp add: live_parts)

lemma live_logical: "live_ok c \<Longrightarrow> ch_parent c \<noteq> 0 \<Longrightarrow> logical_ok c"
  by (simp add: live_ok_def)

lemma frame_fits_zero [simp]: "frame_fits frame_zero" "frame_fits (pt_frame pending_zero)"
  by (simp_all add: frame_fits_def frame_zero_def pending_zero_def)

section \<open>The queue of a channel\<close>

lemma enqueue_rx_fields:
  assumes "enqueue_rx h st ts data ind c = Some c'"
  shows "\<exists>rx u x. c' = c\<lparr>ch_rx := rx, ch_rx_used := u, ch_overflow := x\<rparr>"
proof (cases "MSG_HEADER + length data > sub32 RX_BYTES (ch_rx_used c)")
  case True
  then have "c' = c\<lparr>ch_rx := ch_rx c, ch_rx_used := ch_rx_used c, ch_overflow := True\<rparr>"
    using assms by (simp add: enqueue_rx_def)
  then show ?thesis by blast
next
  case False
  then show ?thesis using assms
    by (simp add: enqueue_rx_def ring_write_def split: Option.bind_splits) (auto split: option.splits)
qed

lemma live_ring:
  "live_ok c \<Longrightarrow> ring_holds (c\<lparr>ch_rx := rx, ch_rx_used := u, ch_overflow := x\<rparr>) q \<Longrightarrow>
   live_ok (c\<lparr>ch_rx := rx, ch_rx_used := u, ch_overflow := x\<rparr>)"
  by (auto simp: live_ok_def tx_fits_def logical_ok_def address_len_def)

lemma live_enqueue:
  assumes "live_ok c" "length data \<le> J2534_DATA_MAX"
  shows "okay (\<lambda>c'. live_ok c' \<and> shape_of c' = shape_of c) (enqueue_rx h st ts data ind c)"
proof -
  obtain q where q: "ring_holds c q" using assms(1) by (auto simp: live_ok_def)
  then have "ring_abs c (q, ch_overflow c)" by (simp add: ring_abs_def)
  from enqueue_rx_abs [OF this assms(2)] obtain c' a where
    c': "enqueue_rx h st ts data ind c = Some c'" "ring_abs c' a" by blast
  from enqueue_rx_fields [OF c'(1)] obtain rx u x where
    f: "c' = c\<lparr>ch_rx := rx, ch_rx_used := u, ch_overflow := x\<rparr>" by blast
  have "ring_holds c' (fst a)" using c'(2) by (simp add: ring_abs_def)
  then have "live_ok c'" unfolding f by (rule live_ring [OF assms(1)])
  then show ?thesis using c'(1) f by simp
qed

lemma enqueue_keeps:
  "keeps v s \<Longrightarrow> live v k \<Longrightarrow> length data \<le> J2534_DATA_MAX \<Longrightarrow>
   okay (keeps v) (enqueue k h st ts data ind s)"
  unfolding enqueue_def by (intro upd_opt_keeps live_enqueue)

lemma small_data [simp]: "length data \<le> 12 \<Longrightarrow> length data \<le> J2534_DATA_MAX"
  by (simp add: J2534_DATA_MAX_def)

section \<open>Finishing a transmission\<close>

lemma discard_pending_keeps: "keeps v s \<Longrightarrow> live v p \<Longrightarrow> okay (keeps v) (discard_pending ce p s)"
  unfolding discard_pending_def
  by (simp add: keeps_live(1)) (rule okay_bind [OF upd_keeps], simp_all add: live_pending live_frame)

lemma cancel_channel_keeps: "keeps v s \<Longrightarrow> live v k \<Longrightarrow> okay (keeps v) (cancel_channel_tx ce k s)"
  unfolding cancel_channel_tx_def
  by (auto simp: keeps_live(1) discard_pending_keeps physical_live split: option.split)

lemma tx_done_keeps: "keeps v s \<Longrightarrow> live v k \<Longrightarrow> okay (keeps v) (tx_done ce k success s)"
proof -
  assume s: "keeps v s" and k: "live v k"
  let ?c = "jc_channels s ! k"
  have "4 + 3 < length (ch_tx ?c)" using keeps_live(2) [OF s k] by (simp add: live_ok_def ring_sizes)
  from j2534_u32_ok [OF this] obtain h where h: "j2534_u32 (ch_tx ?c) 4 = Some h" by blast
  obtain s' t where n: "now_us ce s = (s', t)" "keeps v s'" using now_us_E [OF s] .
  show ?thesis unfolding tx_done_def keeps_live(1) [OF s k] Option.bind.bind_lunit h n(1) Let_def
    using s n(2) k by (auto intro!: okay_bind [OF enqueue_keeps] upd_keeps live_no_tx simp: J2534_DATA_MAX_def)
qed

section \<open>The schedule of a channel\<close>

lemma live_iso_rx_if:
  "live_ok c \<Longrightarrow> (ch_parent c \<noteq> 0 \<Longrightarrow> logical_ok c \<Longrightarrow>
     rx_wf rx \<and> rx_buffer rx \<noteq> None \<and> rx_capacity rx = ISOTP_MAX_PAYLOAD) \<Longrightarrow> live_ok (c\<lparr>ch_iso_rx := rx\<rparr>)"
  using live_iso_rx live_iso_rx_physical live_logical by blast

text \<open>A job keeps what the host set, and none becomes active.\<close>

definition job_same :: "schedule_job \<Rightarrow> schedule_job \<Rightarrow> bool" where
  "job_same job job' \<longleftrightarrow> job_setting job' = job_setting job \<and>
     (sj_active job' \<longrightarrow> sj_active job)"

lemma job_same_fields: "job_same job job' \<Longrightarrow> sj_id job' = sj_id job \<and> sj_message job' = sj_message job"
  by (metis job_same_def job_setting_sel)

lemma job_same_fits: "job_same job job' \<Longrightarrow> job_fits r l job \<Longrightarrow> job_fits r l job'"
  using job_same_fields [of job job'] by (auto simp: job_same_def job_fits_def)

lemma job_same_steps:
  "job_same job (j2534_schedule_defer job)"
  "job_same job (j2534_schedule_complete job success a b)"
  "job_same job (j2534_schedule_transmitted job a b)"
  "job_same job (job\<lparr>sj_active := False\<rparr>)"
  "job_same job (job\<lparr>sj_pending := True, sj_transmission_ended := False\<rparr>)"
  "job_same job (schedule_expire_job job now)"
  "schedule_receive_job job data flags ts = Some job' \<Longrightarrow> job_same job job'"
  by (auto simp: job_same_def job_setting_def j2534_schedule_defer_def j2534_schedule_complete_def
      j2534_schedule_transmitted_def schedule_expire_job_def schedule_receive_job_def Let_def split: if_splits
      Option.bind_splits)

lemma job_wf_steps:
  "job_wf job \<Longrightarrow> job_wf (j2534_schedule_defer job)"
  "job_wf job \<Longrightarrow> job_wf (j2534_schedule_complete job success a b)"
  "job_wf job \<Longrightarrow> job_wf (j2534_schedule_transmitted job a b)"
  "job_wf job \<Longrightarrow> job_wf (job\<lparr>sj_active := False\<rparr>)"
  "job_wf job \<Longrightarrow> job_wf (job\<lparr>sj_pending := True, sj_transmission_ended := False\<rparr>)"
  by (simp_all add: job_wf_def j2534_schedule_defer_def j2534_schedule_complete_def
      j2534_schedule_transmitted_def Let_def)

definition slots_ok :: "bool \<Rightarrow> bool \<Rightarrow> scheduler \<Rightarrow> bool" where
  "slots_ok r l jobs \<longleftrightarrow> schedule_wf jobs \<and> list_all (job_fits r l) jobs"

lemma slots_same:
  assumes "slots_ok r l jobs" "schedule_wf jobs'" "\<And>i. i < 20 \<Longrightarrow> job_same (jobs ! i) (jobs' ! i)"
  shows "slots_ok r l jobs' \<and> map job_setting jobs' = map job_setting jobs"
proof -
  have l: "length jobs = 20" "length jobs' = 20"
    using assms(1,2) schedule_wf_length by (auto simp: slots_ok_def)
  have "job_fits r l (jobs' ! i)" if "i < 20" for i
    using assms(1) l that by (intro job_same_fits [OF assms(3) [OF that]]) (simp add: slots_ok_def list_all_length)
  with l have "list_all (job_fits r l) jobs'" by (simp add: list_all_length)
  moreover have "map job_setting jobs' = map job_setting jobs"
    using assms(3) l by (intro nth_equalityI) (auto simp: job_same_def)
  ultimately show ?thesis using assms(2) by (simp add: slots_ok_def)
qed

lemma job_same_refl [simp]: "job_same job job"
  by (simp add: job_same_def)

lemma slots_receive:
  assumes "slots_ok r l jobs"
  shows "okay (\<lambda>jobs'. slots_ok r l jobs' \<and> map job_setting jobs' = map job_setting jobs) (j2534_schedule_receive jobs data flags ts)"
proof -
  have wf: "schedule_wf jobs" using assms by (simp add: slots_ok_def)
  from schedule_receive_slots [OF wf, of data flags ts] obtain jobs' where
    j: "j2534_schedule_receive jobs data flags ts = Some jobs'" "schedule_wf jobs'" "\<forall>i<10. jobs' ! i = jobs ! i"
      "\<forall>i. 10 \<le> i \<longrightarrow> i < 20 \<longrightarrow> schedule_receive_job (jobs ! i) data flags ts = Some (jobs' ! i)" by blast
  have "job_same (jobs ! i) (jobs' ! i)" if "i < 20" for i
  proof (cases "i < 10")
    case False
    then show ?thesis using j(4) that by (intro job_same_steps(7) [of _ data flags ts]) simp
  qed (simp add: j(3))
  from slots_same [OF assms j(2) this] j(1) show ?thesis by simp
qed

lemma slots_expire:
  assumes "slots_ok r l jobs"
  shows "okay (\<lambda>jobs'. slots_ok r l jobs' \<and> map job_setting jobs' = map job_setting jobs) (j2534_schedule_expire jobs now)"
proof -
  have wf: "schedule_wf jobs" using assms by (simp add: slots_ok_def)
  from schedule_expire_slots [OF wf, of now] obtain jobs' where
    j: "j2534_schedule_expire jobs now = Some jobs'" "schedule_wf jobs'" "\<forall>i<10. jobs' ! i = jobs ! i"
      "\<forall>i. 10 \<le> i \<longrightarrow> i < 20 \<longrightarrow> jobs' ! i = schedule_expire_job (jobs ! i) now" by blast
  have "job_same (jobs ! i) (jobs' ! i)" if "i < 20" for i
    using that j(3,4) job_same_steps(6) by (cases "i < 10") auto
  from slots_same [OF assms j(2) this] j(1) show ?thesis by simp
qed

lemma slots_lost:
  assumes "slots_ok r l jobs"
  shows "okay (\<lambda>jobs'. slots_ok r l jobs' \<and> map job_setting jobs' = map job_setting jobs) (j2534_schedule_receive_lost jobs)"
proof -
  have wf: "schedule_wf jobs" using assms by (simp add: slots_ok_def)
  from schedule_lost_slots [OF wf] obtain jobs' where
    j: "j2534_schedule_receive_lost jobs = Some jobs'" "schedule_wf jobs'" "\<forall>i<10. jobs' ! i = jobs ! i"
      "\<forall>i. 10 \<le> i \<longrightarrow> i < 20 \<longrightarrow> jobs' ! i = (jobs ! i)\<lparr>sj_active := False\<rparr>" by blast
  have "job_same (jobs ! i) (jobs' ! i)" if "i < 20" for i
    using that j(3,4) job_same_steps(4) by (cases "i < 10") auto
  from slots_same [OF assms j(2) this] j(1) show ?thesis by simp
qed

lemma live_slots: "live_ok c \<Longrightarrow> slots_ok (ch_parent c = 0 \<and> ch_bus c = VIF_BUS_CAN) (ch_parent c \<noteq> 0) (ch_scheduler c)"
  by (simp add: live_ok_def slots_ok_def)

text \<open>A step on the whole schedule of a channel.\<close>

lemma schedule_keeps:
  assumes "keeps v s" "live v k"
    "\<And>r l jobs. slots_ok r l jobs \<Longrightarrow> okay (\<lambda>jobs'. slots_ok r l jobs' \<and> map job_setting jobs' = map job_setting jobs) (f jobs)"
  shows "okay (keeps v) (upd_opt k (\<lambda>c. do { jobs \<leftarrow> f (ch_scheduler c); Some (c\<lparr>ch_scheduler := jobs\<rparr>) }) s)"
  using assms(1,2)
proof (rule upd_opt_keeps)
  fix c assume c: "live_ok c"
  show "okay (\<lambda>c'. live_ok c' \<and> shape_of c' = shape_of c) (do { jobs \<leftarrow> f (ch_scheduler c); Some (c\<lparr>ch_scheduler := jobs\<rparr>) })"
    by (rule okay_bind [OF assms(3) [OF live_slots [OF c]]]) (simp add: live_scheduler c slots_ok_def)
qed

lemma schedule_received_keeps: "keeps v s \<Longrightarrow> live v k \<Longrightarrow> okay (keeps v) (schedule_received k data flags ts s)"
  unfolding schedule_received_def by (intro schedule_keeps slots_receive)

lemma schedule_lost_keeps: "keeps v s \<Longrightarrow> live v k \<Longrightarrow> okay (keeps v) (schedule_lost k s)"
  unfolding schedule_lost_def by (intro schedule_keeps slots_lost)

text \<open>A step on one job.\<close>

lemma upd_job_keeps:
  assumes "keeps v s" "live v k" "j < 20"
    "\<And>job. job_wf job \<Longrightarrow> job_wf (f job)" "\<And>job. job_same job (f job)"
  shows "okay (keeps v) (upd_job k j f s)"
  unfolding upd_job_def using assms(1,2)
proof (rule upd_opt_keeps)
  fix c assume c: "live_ok c"
  let ?jobs = "ch_scheduler c" and ?jobs' = "(ch_scheduler c)[j := f (ch_scheduler c ! j)]"
  note sl = live_slots [OF c]
  have wf: "schedule_wf ?jobs" using sl by (simp add: slots_ok_def)
  then have l: "length ?jobs = 20" by (rule schedule_wf_length)
  have "job_wf (?jobs' ! i)" if "i < 20" for i
    using schedule_wf_job [OF wf that] schedule_wf_job [OF wf assms(3)] assms(4) l that
    by (cases "i = j") auto
  then have "schedule_wf ?jobs'" using l by (simp add: schedule_wf_def J2534_SCHEDULE_SLOTS_def list_all_length)
  moreover have "job_same (?jobs ! i) (?jobs' ! i)" if "i < 20" for i
    using assms(5) l that by (cases "i = j") auto
  ultimately have "slots_ok (ch_parent c = 0 \<and> ch_bus c = VIF_BUS_CAN) (ch_parent c \<noteq> 0) ?jobs' \<and>
      map job_setting ?jobs' = map job_setting ?jobs"
    by (rule slots_same [OF sl])
  then show "okay (\<lambda>c'. live_ok c' \<and> shape_of c' = shape_of c)
      (do { job \<leftarrow> get_at ?jobs j; Some (c\<lparr>ch_scheduler := ?jobs[j := f job]\<rparr>) })"
    using l assms(3) by (simp add: live_scheduler c slots_ok_def)
qed

lemma schedule_find_less: "j2534_schedule_find jobs n = Some j \<Longrightarrow> j < 20 \<and> sj_id (jobs ! j) = n \<and> n \<noteq> 0"
  by (auto simp: j2534_schedule_find_def find_Some_iff J2534_SCHEDULE_SLOTS_def)

section \<open>Confirmations and results\<close>

lemma rx_confirm_parts:
  "rx_buffer (fst (isotp_rx_confirm rx ok now)) = rx_buffer rx"
  "rx_capacity (fst (isotp_rx_confirm rx ok now)) = rx_capacity rx"
  by (simp_all add: isotp_rx_confirm_def isotp_rx_check_timeout_def)

lemma confirm_keeps:
  assumes "keeps v s" "live v k"
  shows "okay (keeps v) (confirm_protocol_tx ce k pending success ts s)"
proof -
  let ?c = "jc_channels s ! k"
  obtain tx rc where t: "isotp_tx_confirm (ch_iso_tx ?c) success ts = (tx, rc)" by fastforce
  have fc: "okay (keeps v) (upd k (\<lambda>c. c\<lparr>ch_iso_rx := fst (isotp_rx_confirm (ch_iso_rx c) success ts)\<rparr>) s)"
    using assms by (intro upd_keeps) (auto intro!: live_iso_rx_if simp: isotp_rx_confirm_wf rx_confirm_parts logical_ok_def)
  have wf: "ch_parent ?c = 0 \<or> tx_wf tx"
    using keeps_live(2) [OF assms] tx_wf_confirm [of "ch_iso_tx ?c" success ts] t by (auto simp: live_ok_def logical_ok_def)
  have same: "ch_parent c = ch_parent ?c" if "shape_of c = fst v ! k" for c
    using that keeps_live(4) [OF assms] by (metis shape_sel(2))
  have iso: "okay (keeps v) (upd k (\<lambda>c. c\<lparr>ch_iso_tx := tx\<rparr>) s)"
    using assms wf same by (intro upd_keeps) (auto intro!: live_iso_tx)
  show ?thesis
    unfolding confirm_protocol_tx_def keeps_live(1) [OF assms] Option.bind.bind_lunit t Let_def prod.case
    using assms fc by (auto intro!: okay_bind [OF iso] tx_done_keeps)
qed

lemma finish_job_keeps:
  fixes s :: "'d j2534"
  assumes "keeps v s" "live v k" "j < 20"
  shows "okay (keeps v) (let (s, start) = (if success then (s, t) else now_us ce s);
      end_us = (if success then e else start)
    in if deferred then upd_job k j j2534_schedule_defer s
       else upd_job k j (\<lambda>job. j2534_schedule_complete job success start end_us) s)"
proof -
  obtain s' t' where n: "now_us ce s = (s', t')" "keeps v s'" using now_us_E [OF assms(1)] .
  have "okay (keeps v) (upd_job k j j2534_schedule_defer u)" if "keeps v u" for u :: "'d j2534"
    using that assms(2,3) by (intro upd_job_keeps) (simp_all add: job_wf_steps job_same_steps)
  moreover have "okay (keeps v) (upd_job k j (\<lambda>job. j2534_schedule_complete job x a b) u)" if "keeps v u" for u :: "'d j2534" and x a b
    using that assms(2,3) by (intro upd_job_keeps) (simp_all add: job_wf_steps job_same_steps)
  ultimately show ?thesis using assms(1) n by (simp add: Let_def)
qed

lemma finish_scheduled_keeps:
  assumes "keeps v s" "live v k"
  shows "okay (keeps v) (finish_scheduled ce k pending result s)"
  unfolding finish_scheduled_def keeps_live(1) [OF assms] Option.bind.bind_lunit Let_def [of "rs_status result = 0"]
    Let_def [of "_ \<or> _"]
proof (rule okay_bind)
  show "okay (keeps v) (if \<not> pt_discard pending \<and>
      \<not> (rs_status result = BUS_ERR_RX_PENDING \<or> rs_status result = BUS_ERR_CANCELLED \<and> pt_discard pending) \<and>
      rs_status result \<noteq> BUS_ERR_CANCELLED \<and> pt_handle pending \<noteq> 0
    then enqueue k (pt_handle pending) (if rs_status result = 0 then J2534_TX_SUCCESS else J2534_TX_FAILED)
      (rs_ended_us result) [] True s' else Some s')" if "keeps v s'" for s'
    using that assms(2) by (simp add: enqueue_keeps)
qed (cases "j2534_schedule_find (ch_scheduler (jc_channels s ! k)) (pt_job pending)",
  simp_all only: option.case okay_Some assms, intro finish_job_keeps assms, auto dest: schedule_find_less)

lemma put_be32_length [simp]: "length (put_be32 x) = 4"
  by (simp add: put_be32_def)

lemma filter_accepts_okay: "live_ok c \<Longrightarrow> \<exists>b. filter_accepts c data flags = Some b"
  using j2534_filter_rule [of c data flags] by (auto simp: live_ok_def)

lemma echo_keeps:
  assumes "keeps v s" "live v p" "frame_fits f"
  shows "okay (keeps v) (echo_can p f ts s)"
proof (cases "ch_echo (jc_channels s ! p) = 0")
  case True
  then show ?thesis using assms(1) by (simp add: echo_can_def keeps_live(1) [OF assms(1,2)])
next
  case False
  let ?data = "put_be32 (can_id f AND CAN_EFF_MASK) @ take (can_dlc f) (can_data f)"
  have f: "can_dlc f \<le> 8" "length (can_data f) = 8" using assms(3) by (simp_all add: frame_fits_def)
  obtain pass where pass: "filter_accepts (jc_channels s ! p) ?data
      (if can_id f AND CAN_EFF_FLAG \<noteq> 0 then J2534_29BIT else 0) = Some pass"
    using filter_accepts_okay [OF keeps_live(2) [OF assms(1,2)]] by blast
  show ?thesis using f pass assms(1,2) False
    by (auto simp: echo_can_def keeps_live(1) [OF assms(1,2)] Let_def J2534_DATA_MAX_def add.commute intro!: enqueue_keeps)
qed

lemma vif_do_E:
  assumes "keeps v s"
  obtains s' a where "vif_do f s = (s', a)" "keeps v s'"
  using assms keeps_vif_do [of v f s] by (metis prod.collapse)

lemma finish_bus_keeps:
  assumes "keeps v s" "live v p"
  shows "okay (keeps v) (finish_bus_tx ce p result s)"
proof -
  let ?ph = "jc_channels s ! p"
  have clear: "okay (keeps v) (upd p (\<lambda>c. c\<lparr>ch_pending := pending_zero\<rparr>) s)"
    using assms by (intro upd_keeps) (simp_all add: live_pending)
  have rest: "okay (keeps v) (case find_channel s1 (pt_channel (ch_pending ?ph)) of
        None \<Rightarrow> Some s2
      | Some k \<Rightarrow>
          if pt_kind (ch_pending ?ph) = TX_SCHEDULED then finish_scheduled ce k (ch_pending ?ph) result s2
          else if pt_discard (ch_pending ?ph) \<or> pt_confirmed (ch_pending ?ph) then Some s2
          else let (s, now) = now_us ce s2 in
            confirm_protocol_tx ce k (ch_pending ?ph) (rs_status result = 0) now s)"
    if A: "keeps v s1" and B: "keeps v s2" for s1 s2 :: "'a j2534"
  proof (cases "find_channel s1 (pt_channel (ch_pending ?ph))")
    case None
    then show ?thesis using B by simp
  next
    case (Some k)
    have k: "live v k" using find_channel_live [OF A Some] by simp
    obtain s3 t where n: "now_us ce s2 = (s3, t)" "keeps v s3" using now_us_E [OF B] .
    show ?thesis using B k n by (simp add: Some finish_scheduled_keeps confirm_keeps)
  qed
  show ?thesis
    unfolding finish_bus_tx_def keeps_live(1) [OF assms] Option.bind.bind_lunit Let_def [of "ch_pending _"]
    using assms(2) keeps_live(2) [OF assms]
    by (auto intro!: okay_bind [OF clear] okay_bind [OF echo_keeps] rest simp: Let_def live_frame)
qed

lemma collect_keeps:
  assumes "keeps v s" "live v p"
  shows "okay (keeps v) (collect_bus_tx ce p s)"
proof (cases "pt_kind (ch_pending (jc_channels s ! p)) = TX_NONE")
  case True
  then show ?thesis using assms(1) by (simp add: collect_bus_tx_def keeps_live(1) [OF assms])
next
  case False
  let ?pending = "ch_pending (jc_channels s ! p)"
  obtain s1 r where poll: "vif_do (vif_bus_tx_poll (ce_vif ce) (ce_me ce) VIF_OWNER_LINK
      (ch_bus (jc_channels s ! p))) s = (s1, r)" and s1: "keeps v s1"
    using vif_do_E [OF assms(1)] .
  have confirmed: "okay (keeps v) (upd p (\<lambda>c. c\<lparr>ch_pending := (ch_pending c)\<lparr>pt_confirmed := True\<rparr>\<rparr>) s2)"
    if "keeps v s2" for s2 :: "'a j2534"
    using that assms(2) by (intro upd_keeps) (simp_all add: live_pending live_frame)
  have transmitted: "okay (keeps v) (upd_job k j (\<lambda>job. j2534_schedule_transmitted job a b) s1)"
    if "live v k" "j < 20" for k j a b
    using s1 that by (intro upd_job_keeps) (simp_all add: job_wf_steps job_same_steps)
  have found: "live v k" if "find_channel s1 i = Some k" for k i
    using find_channel_live [OF s1 that] by simp
  show ?thesis
  proof (cases r)
    case None
    then show ?thesis using s1 False by (simp add: collect_bus_tx_def keeps_live(1) [OF assms] Let_def poll)
  next
    case (Some result)
    have 1: "okay (keeps v) (case find_channel s1 (pt_channel ?pending) of
               None \<Rightarrow> Some s1
             | Some k \<Rightarrow>
                 if pt_confirmed ?pending then Some s1
                 else do {
                   s \<leftarrow> confirm_protocol_tx ce k ?pending True (rs_ended_us result) s1;
                   upd p (\<lambda>c. c\<lparr>ch_pending := (ch_pending c)\<lparr>pt_confirmed := True\<rparr>\<rparr>) s
                 })"
      using s1 found by (auto split: option.split intro!: okay_bind [OF confirm_keeps] confirmed)
    have 2: "okay (keeps v) (case find_channel s1 (pt_channel ?pending) of
               None \<Rightarrow> Some s1
             | Some k \<Rightarrow> do {
                 c \<leftarrow> chan s1 k;
                 case j2534_schedule_find (ch_scheduler c) (pt_job ?pending) of
                   None \<Rightarrow> Some s1
                 | Some j \<Rightarrow>
                     upd_job k j (\<lambda>job. j2534_schedule_transmitted job (rs_started_us result) (rs_ended_us result)) s1
               })"
      using s1 found keeps_live(1) [OF s1]
      by (auto split: option.split intro!: transmitted dest: schedule_find_less)
    show ?thesis
      unfolding collect_bus_tx_def keeps_live(1) [OF assms] Option.bind.bind_lunit Let_def if_not_P [OF False]
        poll prod.case Some option.case
      using s1 assms(2) 1 2 by (simp add: finish_bus_keeps)
  qed
qed

section \<open>Submitting\<close>

definition msg_fits :: "bus_msg \<Rightarrow> bool" where
  "msg_fits msg \<longleftrightarrow> bm_len msg \<le> 8 \<and> bm_len msg \<le> length (bm_data msg)"

lemma submit_keeps:
  assumes "keeps v s" "live v k"
    "msg_fits msg \<or> sp_parent (fst v ! k) = 0 \<and> sp_bus (fst v ! k) \<noteq> VIF_BUS_CAN"
  shows "okay (keeps v) (submit_bus_tx ce k kind job handle msg bus_flags s)"
proof -
  let ?c = "jc_channels s ! k"
  obtain p where p: "physical_channel s k = Some p" "live v p" using physical_exists [OF assms(1,2)] by blast
  let ?ph = "jc_channels s ! p"
  have fits: "msg_fits msg" if "ch_bus ?ph = VIF_BUS_CAN"
    using assms(3) that p(1) keeps_live(4) [OF assms(1,2)] by (auto simp: physical_channel_def)
  let ?pending = "pending_zero\<lparr>pt_kind := kind, pt_channel := ch_id ?c, pt_job := job, pt_handle := handle,
       pt_rx_generation := ch_rx_generation ?c\<rparr>"
  have prep: "okay (\<lambda>(pending, f). frame_fits (pt_frame pending)) (if ch_bus ?ph = VIF_BUS_CAN then do {
          payload \<leftarrow> load_at (bm_data msg) 0 (bm_len msg);
          data \<leftarrow> store_at (can_data frame_zero) 0 payload;
          Some (?pending\<lparr>pt_frame := \<lparr>can_id = bm_id msg, can_dlc = u8 (bm_len msg), can_data = data\<rparr>\<rparr>,
                bus_flags OR BUS_TX_WAIT_DONE)
        } else Some (?pending, bus_flags))"
    using fits by (auto simp: msg_fits_def frame_zero_def frame_fits_def pending_zero_def)
  have last: "okay (keeps v) (let (s, rc) = vif_do (vif_bus_submit (ce_vif ce) (ce_me ce) VIF_OWNER_LINK (ch_bus ?ph)
         msg f (ch_rx_sequence ?ph)) s1 in
       if rc = 0 then Some s
       else
         let (s, started) = now_us ce s; (s, ended) = now_us ce s
         in finish_bus_tx ce p \<lparr>rs_status = rc, rs_complete = True, rs_started = False,
              rs_started_us = started, rs_ended_us = ended\<rparr> s)"
    if s1: "keeps v s1" for s1 :: "'a j2534" and f
  proof -
    obtain s2 rc where 2: "vif_do (vif_bus_submit (ce_vif ce) (ce_me ce) VIF_OWNER_LINK (ch_bus ?ph) msg f
        (ch_rx_sequence ?ph)) s1 = (s2, rc)" "keeps v s2" using vif_do_E [OF s1] .
    obtain s3 t3 where 3: "now_us ce s2 = (s3, t3)" "keeps v s3" using now_us_E [OF 2(2)] .
    obtain s4 t4 where 4: "now_us ce s3 = (s4, t4)" "keeps v s4" using now_us_E [OF 3(2)] .
    show ?thesis using 2 3 4 p(2) by (simp add: finish_bus_keeps)
  qed
  have set: "okay (keeps v) (upd p (\<lambda>c. c\<lparr>ch_pending := pending\<rparr>) s)" if "frame_fits (pt_frame pending)" for pending
    using assms(1) p(2) that by (intro upd_keeps) (simp_all add: live_pending)
  show ?thesis
    unfolding submit_bus_tx_def keeps_live(1) [OF assms(1,2)] p(1) keeps_live(1) [OF assms(1) p(2)]
      Option.bind.bind_lunit Let_def [of "pt_rx_generation_update _ _"]
    by (rule okay_bind [OF prep], clarify, rule okay_bind [OF set last]) simp_all
qed

lemma fits_frame: "frame_fits f \<Longrightarrow> msg_fits (bus_msg_tx (can_data f) (can_dlc f) i)"
  by (simp add: frame_fits_def msg_fits_def bus_msg_tx_def)

lemma submit_can_keeps:
  "keeps v s \<Longrightarrow> live v k \<Longrightarrow> frame_fits f \<Longrightarrow> okay (keeps v) (submit_can ce k kind f s)"
  unfolding submit_can_def by (simp add: submit_keeps fits_frame)

lemma wf_frame_fits: "frame_wf f \<Longrightarrow> can_dlc f \<le> 8 \<Longrightarrow> frame_fits f"
  by (simp add: frame_wf_def frame_fits_def)

lemma tx_next_frame:
  assumes "isotp_tx_next tx now = Some (tx', fp, rc)" shows "(rc = ISOTP_FRAME) = (fp \<noteq> None)"
  using assms unfolding isotp_tx_next_def isotp_tx_check_timeout_def Let_def
  by (auto split: if_splits Option.bind_splits prod.splits)

lemma tx_next_okay:
  assumes "tx_wf tx"
  shows "okay (\<lambda>(tx', fp, rc). tx_wf tx' \<and> (if rc = ISOTP_FRAME then \<exists>f. fp = Some f \<and> frame_fits f else fp = None))
    (isotp_tx_next tx now)"
proof -
  obtain tx' fp rc where n: "isotp_tx_next tx now = Some (tx', fp, rc)" "tx_wf tx'"
    "\<forall>f. fp = Some f \<longrightarrow> frame_wf f \<and> can_dlc f \<le> 8" using tx_next_safe [OF assms] by blast
  with tx_next_frame [OF n(1)] show ?thesis by (auto intro: wf_frame_fits)
qed

lemma tx_wf_reset: "tx_wf tx \<Longrightarrow> tx_wf (iso_tx_reset cfg tx)"
  by (auto simp: iso_tx_reset_def dest: tx_wf_init split: sum.split)

lemma tx_wf_start_fits:
  "tx_wf tx \<Longrightarrow> (len \<le> 4095 \<Longrightarrow> len \<le> length b) \<Longrightarrow> tx_wf (fst (isotp_tx_start tx (Some b) len now))"
  using tx_wf_start [of tx "Some b" len now]
  by (cases "len \<le> 4095") (simp_all add: isotp_tx_start_def ISOTP_MAX_PAYLOAD_def)

lemma sub32_fits:
  "n \<le> a + m \<Longrightarrow> n < 2 ^ 31 \<Longrightarrow> a \<le> 2 ^ 31 \<Longrightarrow> sub32 n a \<le> 4095 \<Longrightarrow> sub32 n a \<le> m"
proof (cases "a \<le> n")
  case False
  assume "sub32 n a \<le> 4095" "a \<le> 2 ^ 31"
  moreover have "n + 4294967296 - a < 4294967296" "2 ^ 31 \<le> n + 4294967296 - a" using \<open>a \<le> 2 ^ 31\<close> False by simp_all
  ultimately show ?thesis by (simp add: sub32_def)
qed simp

lemma be32_okay: "4 \<le> length data \<Longrightarrow> \<exists>i. be32 data = Some i"
  by (auto simp: be32_def get_at_def)

lemma tx_config_okay: "5 \<le> length data \<Longrightarrow> \<exists>cfg. tx_config_of c data flags = Some cfg"
  using be32_okay [of data] by (auto simp: tx_config_of_def get_at_def)

lemma live_tx_bytes: "live_ok c \<Longrightarrow> length (ch_tx c) = TX_BYTES"
  by (simp add: live_ok_def)

lemma tx_words:
  assumes "live_ok c" "p + 3 < MSG_HEADER" shows "\<exists>x. j2534_u32 (ch_tx c) p = Some x"
  using assms by (intro j2534_u32_ok) (simp add: live_tx_bytes TX_BYTES_def)

lemma address_len_le: "address_len c \<le> 5"
  by (simp add: address_len_def addr_len_def)

lemma tx_len_le: "live_ok c \<Longrightarrow> ch_tx_len c \<noteq> 0 \<Longrightarrow> MSG_HEADER < ch_tx_len c \<and> ch_tx_len c \<le> TX_BYTES"
  by (auto simp: live_ok_def tx_fits_def)

lemma iso_tx_keeps:
  assumes "keeps v s" "live v k" "sp_parent (fst v ! k) = 0 \<or> tx_wf tx"
  shows "okay (keeps v) (upd k (\<lambda>c. c\<lparr>ch_iso_tx := tx\<rparr>) s)"
  using assms by (intro upd_keeps) (auto intro!: live_iso_tx dest: arg_cong [of _ _ sp_parent])

lemma logical_parts:
  assumes "keeps v s" "live v k" "sp_parent (fst v ! k) \<noteq> 0"
  shows "logical_ok (jc_channels s ! k)" "ch_parent (jc_channels s ! k) \<noteq> 0"
  using keeps_live(2,4) [OF assms(1,2)] assms(3) by (auto simp: live_ok_def)

lemma start_fits:
  assumes c: "live_ok c" and len: "ch_tx_len c \<noteq> 0" and tx: "tx_wf tx"
  shows "tx_wf (fst (isotp_tx_start tx (Some (drop (address_len c) (drop MSG_HEADER (ch_tx c))))
    (sub32 (sub32 (ch_tx_len c) MSG_HEADER) (address_len c)) now))"
proof (rule tx_wf_start_fits [OF tx])
  have b: "28 < ch_tx_len c" "ch_tx_len c \<le> 4156" using tx_len_le [OF c len] by (simp_all add: ring_sizes)
  have sub: "sub32 (ch_tx_len c) MSG_HEADER = ch_tx_len c - 28" using b by (simp add: MSG_HEADER_def)
  have l: "length (drop (address_len c) (drop MSG_HEADER (ch_tx c))) = 4128 - address_len c"
    using live_tx_bytes [OF c] by (simp add: ring_sizes)
  assume "sub32 (sub32 (ch_tx_len c) MSG_HEADER) (address_len c) \<le> 4095"
  then show "sub32 (sub32 (ch_tx_len c) MSG_HEADER) (address_len c) \<le> length (drop (address_len c) (drop MSG_HEADER (ch_tx c)))"
    unfolding l sub using b address_len_le [of c] by - (rule sub32_fits, simp_all)
qed

lemma start_iso_keeps:
  assumes s: "keeps v s" and k: "live v k" and p: "sp_parent (fst v ! k) \<noteq> 0"
    and len: "ch_tx_len (jc_channels s ! k) \<noteq> 0"
  shows "okay (\<lambda>(s', _). keeps v s') (start_iso_tx ce k s)"
proof -
  let ?c = "jc_channels s ! k" and ?data = "drop MSG_HEADER (ch_tx (jc_channels s ! k))"
  note c = keeps_live(2) [OF s k] and L = logical_parts [OF s k p]
  have data: "length ?data = J2534_DATA_MAX" using live_tx_bytes [OF c] by (simp add: TX_BYTES_def)
  obtain flags where flags: "j2534_u32 (ch_tx ?c) 12 = Some flags"
    using tx_words [OF c, of 12] by (auto simp: MSG_HEADER_def)
  obtain cfg where cfg: "tx_config_of ?c ?data flags = Some cfg"
    using tx_config_okay [of ?data] data by (auto simp: J2534_DATA_MAX_def)
  have al: "address_len ?c \<le> length ?data" "address_len ?c \<le> length (ch_remote ?c)"
    using address_len_le [of ?c] data c by (simp_all add: J2534_DATA_MAX_def live_ok_def)
  obtain s1 t where n: "now_us ce s = (s1, t)" "keeps v s1" using now_us_E [OF s] .
  let ?cfg = "cfg\<lparr>timeout_a_us := ch_tx_timeout_a_us ?c,
      functional := (take (address_len ?c) ?data \<noteq> take (address_len ?c) (ch_remote ?c))\<rparr>"
  obtain tx rc where st: "isotp_tx_start (iso_tx_reset ?cfg (ch_iso_tx ?c)) (Some (drop (address_len ?c) ?data))
      (sub32 (sub32 (ch_tx_len ?c) MSG_HEADER) (address_len ?c)) t = (tx, rc)" by fastforce
  have "tx_wf (iso_tx_reset ?cfg (ch_iso_tx ?c))" using L(1) by (simp add: tx_wf_reset logical_ok_def)
  from start_fits [OF c len this, of t] have txwf: "tx_wf tx" using st by simp
  have upd: "okay (keeps v) (upd k (\<lambda>c. c\<lparr>ch_iso_tx := tx\<rparr>) s1)"
    using n(2) k txwf by (simp add: iso_tx_keeps)
  have act: "okay (keeps v) (upd k (\<lambda>c. c\<lparr>ch_tx_active := True\<rparr>) s2)" if "keeps v s2" for s2 :: "'a j2534"
    using that k by (intro upd_keeps) simp_all
  have l: "load_at ?data 0 (address_len ?c) = Some (take (address_len ?c) ?data)"
    "load_at (ch_remote ?c) 0 (address_len ?c) = Some (take (address_len ?c) (ch_remote ?c))"
    using al by (simp_all add: load_at_def)
  show ?thesis
    unfolding start_iso_tx_def keeps_live(1) [OF s k] Option.bind.bind_lunit Let_def flags cfg l n(1) prod.case st
    by (rule okay_bind [OF upd]) (auto intro: okay_bind [OF tx_done_keeps] okay_bind [OF act] simp: k)
qed

lemma poll_iso_keeps:
  assumes "keeps v s" "live v k" "sp_parent (fst v ! k) \<noteq> 0"
  shows "okay (keeps v) (poll_iso_tx ce k s)"
proof -
  obtain s1 t where n: "now_us ce s = (s1, t)" "keeps v s1" using now_us_E [OF assms(1)] .
  have "tx_wf (ch_iso_tx (jc_channels s1 ! k))"
    using logical_parts(1) [OF n(2) assms(2,3)] by (simp add: logical_ok_def)
  note next_ok = tx_next_okay [OF this, of t]
  show ?thesis
    unfolding poll_iso_tx_def n(1) Let_def prod.case keeps_live(1) [OF n(2) assms(2)] Option.bind.bind_lunit
  proof (rule okay_bind [OF next_ok], clarify)
    fix tx fp rc
    assume *: "tx_wf tx" "if rc = ISOTP_FRAME then \<exists>f. fp = Some f \<and> frame_fits f else fp = None"
    show "okay (keeps v) (do {
        s \<leftarrow> upd k (\<lambda>c. c\<lparr>ch_iso_tx := tx\<rparr>) s1;
        if rc = ISOTP_FRAME then do { frame \<leftarrow> fp; submit_can ce k TX_ISOTP frame s }
        else if isotp_code rc < 0 then tx_done ce k False s
        else Some s })"
      by (rule okay_bind [OF iso_tx_keeps [OF n(2) assms(2)]])
        (use * assms(2) in \<open>auto simp: submit_can_keeps tx_done_keeps split: if_splits\<close>)
  qed
qed

lemma poll_tx_keeps:
  assumes s: "keeps v s" and k: "live v k"
  shows "okay (keeps v) (poll_tx ce k s)"
proof (cases "ch_tx_len (jc_channels s ! k) = 0")
  case True
  then show ?thesis using s by (simp add: poll_tx_def keeps_live(1) [OF s k])
next
  case False
  let ?c = "jc_channels s ! k" and ?data = "drop MSG_HEADER (ch_tx (jc_channels s ! k))"
  note c = keeps_live(2) [OF s k]
  have data: "length ?data = J2534_DATA_MAX" using live_tx_bytes [OF c] by (simp add: TX_BYTES_def)
  obtain flags where flags: "j2534_u32 (ch_tx ?c) 12 = Some flags"
    using tx_words [OF c, of 12] by (auto simp: MSG_HEADER_def)
  have sub: "sub32 (ch_tx_len ?c) MSG_HEADER = ch_tx_len ?c - MSG_HEADER"
    using tx_len_le [OF c False] by (intro sub32_eq) (simp_all add: ring_sizes)
  show ?thesis
  proof (cases "ch_parent ?c = 0")
    case True
    obtain i where i: "be32 ?data = Some i" using be32_okay [of ?data] data by (auto simp: J2534_DATA_MAX_def)
    obtain msg where msg: "raw_message (ch_bus ?c) ?data (sub32 (ch_tx_len ?c) MSG_HEADER) flags = Some msg"
      using i by (cases "ch_bus ?c = VIF_BUS_CAN") (auto simp: raw_message_def)
    have "msg_fits msg" if can: "ch_bus ?c = VIF_BUS_CAN"
    proof -
      have "MSG_HEADER + 4 \<le> ch_tx_len ?c" "ch_tx_len ?c \<le> MSG_HEADER + 12"
        using c True can False by (auto simp: live_ok_def tx_fits_def)
      then show ?thesis using msg can i data
        by (auto simp: raw_message_def sub msg_fits_def bus_msg_tx_def ring_sizes)
    qed
    then have "msg_fits msg \<or> sp_parent (fst v ! k) = 0 \<and> sp_bus (fst v ! k) \<noteq> VIF_BUS_CAN"
      using True keeps_live(4) [OF s k] by auto
    from submit_keeps [OF s k this] show ?thesis
      using False True by (simp add: poll_tx_def keeps_live(1) [OF s k] flags msg)
  next
    case p: False
    then have p': "sp_parent (fst v ! k) \<noteq> 0" using keeps_live(4) [OF s k] by simp
    have poll: "okay (keeps v) (poll_iso_tx ce k s1)" if "keeps v s1" for s1 :: "'a j2534"
      using that k p' by (rule poll_iso_keeps)
    have "okay (keeps v) (do { (s, started) \<leftarrow> start_iso_tx ce k s; if started then poll_iso_tx ce k s else Some s })"
      by (rule okay_bind [OF start_iso_keeps [OF s k p' False]]) (auto simp: poll)
    then show ?thesis
      using False p s by (simp add: poll_tx_def keeps_live(1) [OF s k] flags poll)
  qed
qed

section \<open>Scheduled messages\<close>

lemma short_id: "i \<le> 0x7FF \<Longrightarrow> i = i AND 0x7FF" for i :: u32w
  using mask_eq_iff [of i 11] by (simp add: mask_eq_exp_minus_1 word_le_def)

lemma long_id: "i \<le> 0x1FFFFFFF \<Longrightarrow> i = i AND 0x1FFFFFFF" for i :: u32w
  using mask_eq_iff [of i 29] by (simp add: mask_eq_exp_minus_1 word_le_def)

lemma and_via: "i = i AND m \<Longrightarrow> m AND n = 0 \<Longrightarrow> i AND n = 0" for i :: u32w
  by (metis and.assoc and_zero_eq)

lemma valid_frame_id:
  assumes "i \<le> (if flags AND J2534_29BIT \<noteq> 0 then CAN_EFF_MASK else CAN_SFF_MASK)"
  shows "valid_id (frame_id i flags)"
proof (cases "flags AND J2534_29BIT = 0")
  case True
  then have m: "i = i AND 0x7FF" using assms by (intro short_id) (simp add: CAN_SFF_MASK_def)
  have "i AND 0x80000000 = 0" "i AND NOT (0x7FF OR 0x80000000) = 0"
    by (rule and_via [OF m], simp)+
  then show ?thesis using True
    unfolding valid_id_def frame_id_def CAN_EFF_FLAG_def CAN_SFF_MASK_def by simp
next
  case False
  then have m: "i = i AND 0x1FFFFFFF" using assms by (intro long_id) (simp add: CAN_EFF_MASK_def)
  have 1: "i AND NOT (0x1FFFFFFF OR 0x80000000) = 0" by (rule and_via [OF m]) simp
  have 2: "(i OR 0x80000000) AND 0x80000000 = (0x80000000 :: u32w)"
    by (simp add: bit.conj_disj_distrib2)
  have "(i OR 0x80000000) AND NOT (0x1FFFFFFF OR 0x80000000) = 0"
    unfolding bit.conj_disj_distrib2 1 by simp
  then show ?thesis using False 2
    unfolding valid_id_def frame_id_def CAN_EFF_FLAG_def CAN_EFF_MASK_def by (simp only: if_True Let_def if_not_P simp_thms) simp
qed

lemma scheduled_frame_keeps:
  assumes s: "keeps v s" and L: "valid_config (ch_config c)" and m: "length (sm_data m) = 12" "sm_len m \<le> 12"
    "can_id_valid (sm_data m) (sm_flags m) = Some True"
  shows "okay (\<lambda>(s', fp). keeps v s' \<and> (\<forall>f. fp = Some f \<longrightarrow> frame_fits f)) (scheduled_frame ce c m s)"
proof -
  let ?a = "address_len c"
  obtain i where i: "be32 (sm_data m) = Some i"
    "i \<le> (if sm_flags m AND J2534_29BIT \<noteq> 0 then CAN_EFF_MASK else CAN_SFF_MASK)"
    using m(3) by (auto simp: can_id_valid_def split: Option.bind_splits)
  obtain cfg where cfg: "tx_config_of c (sm_data m) (sm_flags m) = Some cfg"
    using tx_config_okay [of "sm_data m"] m(1) by auto
  then have "valid_config cfg" using L valid_frame_id [OF i(2)]
    by (auto simp: tx_config_of_def i(1) valid_config_def split: Option.bind_splits if_splits)
  then obtain tx where tx: "isotp_tx_init cfg = Inr tx" by (simp add: isotp_tx_init_def)
  obtain s1 t where n: "now_us ce s = (s1, t)" "keeps v s1" using now_us_E [OF s] .
  obtain tx1 rc where st: "isotp_tx_start tx (Some (drop ?a (sm_data m))) (sub32 (sm_len m) ?a) t = (tx1, rc)"
    by fastforce
  have "sub32 (sm_len m) ?a \<le> 12 - ?a" if "sub32 (sm_len m) ?a \<le> 4095"
    using m(2) address_len_le [of c] that by - (rule sub32_fits, simp_all)
  then have "tx_wf (fst (isotp_tx_start tx (Some (drop ?a (sm_data m))) (sub32 (sm_len m) ?a) t))"
    using m(1) by (intro tx_wf_start_fits tx_wf_init [OF tx]) simp
  then have wf: "tx_wf tx1" using st by simp
  obtain s2 t2 where n2: "now_us ce s1 = (s2, t2)" "keeps v s2" using now_us_E [OF n(2)] .
  show ?thesis
    unfolding scheduled_frame_def cfg tx sum.case Option.bind.bind_lunit n(1) Let_def prod.case st n2(1)
    using n(2) n2(2) by (auto intro!: okay_bind [OF tx_next_okay [OF wf]] split: if_splits)
qed

lemma job_keeps:
  assumes s: "keeps v s" and k: "live v k" and j: "j < 20" "sj_id (sp_jobs (fst v ! k) ! j) \<noteq> 0"
  shows "get_at (ch_scheduler (jc_channels s ! k)) j = Some (ch_scheduler (jc_channels s ! k) ! j)"
    "length (sm_data (sj_message (ch_scheduler (jc_channels s ! k) ! j))) = 12"
    "sm_len (sj_message (ch_scheduler (jc_channels s ! k) ! j)) \<le> 12"
    "sp_parent (fst v ! k) = 0 \<Longrightarrow> sp_bus (fst v ! k) = VIF_BUS_CAN \<Longrightarrow>
       4 \<le> sm_len (sj_message (ch_scheduler (jc_channels s ! k) ! j))"
    "sp_parent (fst v ! k) \<noteq> 0 \<Longrightarrow> can_id_valid (sm_data (sj_message (ch_scheduler (jc_channels s ! k) ! j)))
       (sm_flags (sj_message (ch_scheduler (jc_channels s ! k) ! j))) = Some True"
proof -
  note sl = live_slots [OF keeps_live(2) [OF s k]]
  have l: "length (ch_scheduler (jc_channels s ! k)) = 20" using sl schedule_wf_length by (auto simp: slots_ok_def)
  have fit: "job_fits (sp_parent (fst v ! k) = 0 \<and> sp_bus (fst v ! k) = VIF_BUS_CAN) (sp_parent (fst v ! k) \<noteq> 0)
      (ch_scheduler (jc_channels s ! k) ! j)"
    using sl j(1) l keeps_live(4) [OF s k] by (simp add: slots_ok_def list_all_length)
  have n: "sj_id (ch_scheduler (jc_channels s ! k) ! j) \<noteq> 0"
    using j keeps_live(4) [OF s k] l by simp
  show "get_at (ch_scheduler (jc_channels s ! k)) j = Some (ch_scheduler (jc_channels s ! k) ! j)"
    using l j(1) by simp
  show "length (sm_data (sj_message (ch_scheduler (jc_channels s ! k) ! j))) = 12"
    "sm_len (sj_message (ch_scheduler (jc_channels s ! k) ! j)) \<le> 12"
    using fit by (simp_all add: job_fits_def)
  show "sp_parent (fst v ! k) = 0 \<Longrightarrow> sp_bus (fst v ! k) = VIF_BUS_CAN \<Longrightarrow>
       4 \<le> sm_len (sj_message (ch_scheduler (jc_channels s ! k) ! j))"
    "sp_parent (fst v ! k) \<noteq> 0 \<Longrightarrow> can_id_valid (sm_data (sj_message (ch_scheduler (jc_channels s ! k) ! j)))
       (sm_flags (sj_message (ch_scheduler (jc_channels s ! k) ! j))) = Some True"
    using fit n by (simp_all add: job_fits_def)
qed

lemma submit_scheduled_keeps:
  assumes s: "keeps v s" and k: "live v k" and j: "j < 20" "sj_id (sp_jobs (fst v ! k) ! j) \<noteq> 0"
  shows "okay (keeps v) (submit_scheduled ce k j s)"
proof -
  let ?c = "jc_channels s ! k" and ?job = "ch_scheduler (jc_channels s ! k) ! j"
  let ?m = "sj_message ?job"
  note J = job_keeps [OF s k j]
  have c: "shape_of ?c = fst v ! k" using keeps_live(4) [OF s k] by simp
  have off: "okay (keeps v) (upd_job k j (\<lambda>job. job\<lparr>sj_active := False\<rparr>) s1)" if "keeps v s1" for s1 :: "'a j2534"
    using that k j(1) by (intro upd_job_keeps) (simp_all add: job_wf_steps job_same_steps)
  have on: "okay (keeps v) (upd_job k j (\<lambda>job. job\<lparr>sj_pending := True, sj_transmission_ended := False\<rparr>) s1)"
    if "keeps v s1" for s1 :: "'a j2534"
    using that k j(1) by (intro upd_job_keeps) (simp_all add: job_wf_steps job_same_steps)
  have prep: "okay (\<lambda>(s', mp). keeps v s' \<and> (\<forall>msg. mp = Some msg \<longrightarrow>
      msg_fits msg \<or> sp_parent (fst v ! k) = 0 \<and> sp_bus (fst v ! k) \<noteq> VIF_BUS_CAN))
     (if ch_parent ?c \<noteq> 0 then do {
          (s, frame) \<leftarrow> scheduled_frame ce ?c ?m s;
          Some (s, map_option (\<lambda>f. bus_msg_tx (can_data f) (can_dlc f) (can_id f)) frame)
        } else do {
          msg \<leftarrow> raw_message (ch_bus ?c) (sm_data ?m) (sm_len ?m) (sm_flags ?m);
          Some (s, Some msg)
        })"
  proof (cases "ch_parent ?c = 0")
    case True
    obtain i where i: "be32 (sm_data ?m) = Some i" using be32_okay [of "sm_data ?m"] J(2) by auto
    have p: "sp_parent (fst v ! k) = 0" "sp_bus (fst v ! k) = ch_bus ?c" using True c by (metis shape_sel)+
    have "4 \<le> sm_len ?m" if "ch_bus ?c = VIF_BUS_CAN" using J(4) p that by simp
    then show ?thesis using True i s J(2,3) p
      by (cases "ch_bus ?c = VIF_BUS_CAN") (auto simp: raw_message_def msg_fits_def bus_msg_tx_def)
  next
    case False
    then have p: "sp_parent (fst v ! k) \<noteq> 0" using c by (metis shape_sel(2))
    have "valid_config (ch_config ?c)" using logical_parts(1) [OF s k p] by (simp add: logical_ok_def)
    from scheduled_frame_keeps [OF s this J(2,3) J(5) [OF p]]
    show ?thesis using False by (auto intro!: okay_bind simp: fits_frame)
  qed
  have send: "okay (keeps v) (submit_bus_tx ce k TX_SCHEDULED (sj_id ?job) (sm_handle ?m) msg f s1)"
    if "keeps v s1" "msg_fits msg \<or> sp_parent (fst v ! k) = 0 \<and> sp_bus (fst v ! k) \<noteq> VIF_BUS_CAN" for s1 :: "'a j2534" and msg f
    using that(1) k that(2) by (rule submit_keeps)
  show ?thesis
    unfolding submit_scheduled_def keeps_live(1) [OF s k] J(1) Option.bind.bind_lunit Let_def
    by (rule okay_bind [OF prep]) (auto intro!: off okay_bind [OF on] send split: option.split)
qed

section \<open>Receiving\<close>

lemma segment_copy_parts:
  "segment_copy rx sg data = Some (rx', sg') \<Longrightarrow> seg_total sg' = rx_total rx \<and> rx_capacity rx' = rx_capacity rx \<and>
     (rx_buffer rx' = None) = (rx_buffer rx = None)"
  by (auto simp: segment_copy_def Let_def split: option.splits Option.bind_splits)

lemma feed_start_parts:
  assumes "rx_feed_start rx f now typ len = Some (rx', sg, rc)"
  shows "rx_capacity rx' = rx_capacity rx \<and> (rx_buffer rx' = None) = (rx_buffer rx = None) \<and>
    seg_total sg \<le> rx_capacity rx"
proof (cases "rx_capacity rx < len")
  case True
  then show ?thesis using assms by (auto simp: rx_feed_start_def Let_def segment_zero_def split: if_splits)
next
  case False
  have "u16 len \<le> len" by simp
  then show ?thesis using assms False unfolding rx_feed_start_def Let_def
    by (auto split: if_splits Option.bind_splits dest!: segment_copy_parts)
qed

lemma feed_cf_parts:
  assumes "rx_feed_cf rx f now = Some (rx', sg, rc)" "rx_total rx \<le> rx_capacity rx"
  shows "rx_capacity rx' = rx_capacity rx \<and> (rx_buffer rx' = None) = (rx_buffer rx = None) \<and>
    seg_total sg \<le> rx_capacity rx"
  using assms unfolding rx_feed_cf_def Let_def
  by (auto simp: segment_zero_def split: if_splits Option.bind_splits dest!: segment_copy_parts)

lemma timeout_parts [simp]:
  "rx_capacity (fst (isotp_rx_check_timeout rx now)) = rx_capacity rx"
  "rx_buffer (fst (isotp_rx_check_timeout rx now)) = rx_buffer rx"
  by (simp_all add: isotp_rx_check_timeout_def)

lemma feed_parts:
  assumes "isotp_rx_feed rx fp now = Some (rx', sg, rc)" "rx_wf rx"
  shows "rx_capacity rx' = rx_capacity rx \<and> (rx_buffer rx' = None) = (rx_buffer rx = None) \<and>
    seg_total sg \<le> rx_capacity rx"
proof -
  obtain rx1 rc1 where t: "isotp_rx_check_timeout rx now = (rx1, rc1)" by fastforce
  have wf: "rx_wf rx1" and same: "rx_capacity rx1 = rx_capacity rx" "rx_buffer rx1 = rx_buffer rx"
    using rx_wf_timeout [OF assms(2), of now] timeout_parts [of rx now] t by simp_all
  have z: "seg_total segment_zero \<le> n" for n by (simp add: segment_zero_def)
  have cf: "rx_total rx1 \<le> rx_capacity rx1" if "rx_state rx1 = ISOTP_RX_CF"
    using wf that by (auto simp: rx_wf_def)
  show ?thesis using assms(1) z unfolding isotp_rx_feed_def t Let_def prod.case same [symmetric]
    by (auto split: if_splits option.splits dest: feed_start_parts feed_cf_parts [OF _ cf])
qed

definition rx_fits :: "isotp_rx \<Rightarrow> bool" where
  "rx_fits rx \<longleftrightarrow> rx_wf rx \<and> rx_buffer rx \<noteq> None \<and> rx_capacity rx = ISOTP_MAX_PAYLOAD"

lemma feed_okay:
  assumes "rx_fits rx" "frame_fits f"
  shows "okay (\<lambda>(rx', sg, rc). rx_fits rx' \<and> seg_total sg \<le> ISOTP_MAX_PAYLOAD) (isotp_rx_feed rx (Some f) now)"
proof -
  have "frame_wf f" using assms(2) by (simp add: frame_fits_def frame_wf_def)
  then obtain rx' sg rc where f: "isotp_rx_feed rx (Some f) now = Some (rx', sg, rc)" "rx_wf rx'"
    using isotp_rx_feed_safe [of rx "Some f" now] assms(1) by (auto simp: rx_fits_def)
  with feed_parts [OF f(1)] assms(1) show ?thesis by (auto simp: rx_fits_def)
qed

lemma flow_control_okay:
  assumes "rx_fits rx" "isotp_rx_flow_control rx now = (rx', fp, rc)"
  shows "rx_fits rx' \<and> (rc = ISOTP_FRAME \<longrightarrow> (\<exists>f. fp = Some f \<and> frame_fits f))"
proof -
  have "rx_wf rx'" using isotp_rx_flow_control_wf [of rx now] assms by (simp add: rx_fits_def)
  moreover have "rx_buffer rx' = rx_buffer rx \<and> rx_capacity rx' = rx_capacity rx"
    using assms(2) by (auto simp: isotp_rx_flow_control_def isotp_rx_check_timeout_def Let_def split: if_splits)
  moreover have "\<exists>f. fp = Some f \<and> frame_fits f" if "rc = ISOTP_FRAME"
    using assms(2) that
    by (auto simp: isotp_rx_flow_control_def isotp_rx_check_timeout_def Let_def frame_fits_def isotp_prepare_def
        addr_len_def split: if_splits)
  ultimately show ?thesis using assms(1) by (simp add: rx_fits_def)
qed

lemma keeps_parent:
  assumes "keeps v s" "i < CHANNELS" "ch_parent (jc_channels s ! i) \<noteq> 0"
  shows "live v i \<and> sp_parent (fst v ! i) \<noteq> 0"
  using keeps_chan(2) [OF assms(1,2)] keeps_shape [OF assms(1,2)] assms(2,3)
  by (auto simp: live_def chan_ok_def channel_zero_def)

lemma iso_rx_keeps:
  assumes "keeps v s" "live v k" "sp_parent (fst v ! k) = 0 \<or> rx_fits rx"
  shows "okay (keeps v) (upd k (\<lambda>c. c\<lparr>ch_iso_rx := rx\<rparr>) s)"
  using assms by (intro upd_keeps) (auto intro!: live_iso_rx_if dest: arg_cong [of _ _ sp_parent] simp: rx_fits_def)

lemma logical_rx_fits: "logical_ok c \<Longrightarrow> rx_fits (ch_iso_rx c)"
  by (simp add: logical_ok_def rx_fits_def)

lemma live_assembly:
  "live_ok c \<Longrightarrow> length a = length (ch_assembly c) \<Longrightarrow> live_ok (c\<lparr>ch_assembly := a\<rparr>)"
  by (simp add: live_parts)

lemma assembly_keeps:
  assumes s: "keeps v s" and k: "live v k" and p: "sp_parent (fst v ! k) \<noteq> 0" and f: "frame_fits f"
  shows "okay (keeps v) (upd_opt k (\<lambda>c. do {
       a \<leftarrow> store_at (ch_assembly c) 0 (put_be32 (can_id f AND CAN_EFF_MASK));
       a \<leftarrow> (if extended_address (ch_config c) then do { b \<leftarrow> get_at (can_data f) 0; set_at a 4 b } else Some a);
       Some (c\<lparr>ch_assembly := a, ch_rx_generation := (if started then ch_rx_generation c + 1 else ch_rx_generation c)\<rparr>)
     }) s)"
  using s k
proof (rule upd_opt_keeps)
  fix c assume c: "live_ok c" "shape_of c = fst v ! k"
  then have "ch_parent c \<noteq> 0" using p by (metis shape_sel(2))
  then have "length (ch_assembly c) = address_len c" using live_logical [OF c(1)] by (simp add: logical_ok_def)
  then show "okay (\<lambda>c'. live_ok c' \<and> shape_of c' = shape_of c) (do {
       a \<leftarrow> store_at (ch_assembly c) 0 (put_be32 (can_id f AND CAN_EFF_MASK));
       a \<leftarrow> (if extended_address (ch_config c) then do { b \<leftarrow> get_at (can_data f) 0; set_at a 4 b } else Some a);
       Some (c\<lparr>ch_assembly := a, ch_rx_generation := (if started then ch_rx_generation c + 1 else ch_rx_generation c)\<rparr>)
     })"
    using f c(1) by (auto simp: address_len_def addr_len_def frame_fits_def live_assembly)
qed

lemma assembled_okay:
  assumes "keeps v s" "live v k" "sp_parent (fst v ! k) \<noteq> 0" "n \<le> 4095"
  shows "\<exists>data. assembled (jc_channels s ! k) (address_len (jc_channels s ! k) + n) = Some data \<and>
    length data \<le> J2534_DATA_MAX"
    "\<exists>data. assembled (jc_channels s ! k) (address_len (jc_channels s ! k)) = Some data \<and>
    length data \<le> J2534_DATA_MAX"
proof -
  let ?c = "jc_channels s ! k"
  have L: "logical_ok ?c" by (rule logical_parts(1) [OF assms(1-3)])
  then obtain b where "rx_buffer (ch_iso_rx ?c) = Some b" "length b = 4095" "length (ch_assembly ?c) = address_len ?c"
    by (auto simp: logical_ok_def rx_wf_def ISOTP_MAX_PAYLOAD_def)
  then show "\<exists>data. assembled ?c (address_len ?c + n) = Some data \<and> length data \<le> J2534_DATA_MAX"
    "\<exists>data. assembled ?c (address_len ?c) = Some data \<and> length data \<le> J2534_DATA_MAX"
    using assms(4) address_len_le [of ?c] by (simp_all add: assembled_def load_at_def J2534_DATA_MAX_def)
qed

lemma peers_keep:
  assumes "keeps v s"
  shows "okay (keeps v) (fold_opt (\<lambda>s i. if legacy_peer s k i then schedule_received i data flags ts s else Some s)
    s logical_indices)"
proof (rule okay_fold [where I = "keeps v", OF assms])
  fix s :: "'a j2534" and i assume s: "keeps v s" and "i \<in> set logical_indices"
  then have i: "i < CHANNELS" by (simp add: logical_indices_def)
  have "live v i" if "legacy_peer s k i"
    using that keeps_shape [OF s i] i by (auto simp: legacy_peer_def live_def Let_def)
  then show "okay (keeps v) (if legacy_peer s k i then schedule_received i data flags ts s else Some s)"
    using s by (auto intro: schedule_received_keeps)
qed

lemma logical_segment_keeps:
  assumes s: "keeps v s" and k: "live v k" and p: "sp_parent (fst v ! k) \<noteq> 0" and f: "frame_fits f"
    and n: "seg_total sg \<le> ISOTP_MAX_PAYLOAD"
  shows "okay (keeps v) (logical_segment k f sg ts s)"
  unfolding logical_segment_def
proof (rule okay_bind [OF assembly_keeps [OF s k p f]])
  fix s1 :: "'a j2534" assume s1: "keeps v s1"
  let ?c = "jc_channels s1 ! k"
  from n have n': "seg_total sg \<le> 4095" by (simp add: ISOTP_MAX_PAYLOAD_def)
  obtain d1 where d1: "assembled ?c (address_len ?c + seg_total sg) = Some d1" "length d1 \<le> J2534_DATA_MAX"
    using assembled_okay(1) [OF s1 k p n'] by blast
  obtain d2 where d2: "assembled ?c (address_len ?c) = Some d2" "length d2 \<le> J2534_DATA_MAX"
    using assembled_okay(2) [OF s1 k p n'] by blast
  have fin: "okay (keeps v) (do {
      s \<leftarrow> schedule_received k d1 (ch_local_flags ?c) ts s2;
      s \<leftarrow> (if \<not> ch_legacy_channel ?c then Some s
           else fold_opt (\<lambda>s i. if legacy_peer s k i then schedule_received i d1 (ch_local_flags ?c) ts s else Some s)
             s logical_indices);
      enqueue k 0 fl ts d1 False s })" if "keeps v s2" for s2 :: "'a j2534" and fl
    by (rule okay_bind [OF schedule_received_keeps [OF that k]], rule okay_bind [where Q = "keeps v"])
      (auto simp: peers_keep enqueue_keeps k d1(2))
  have start: "okay (keeps v) (if seg_started sg \<and> \<not> seg_complete sg then do {
        start \<leftarrow> assembled ?c (address_len ?c);
        enqueue k 0 (ch_local_flags ?c OR J2534_START) ts start True s1
      } else Some s1)"
    using s1 k d2 by (simp add: enqueue_keeps)
  show "okay (keeps v) (do {
     c \<leftarrow> chan s1 k;
     let address = address_len c;
     let flags = ch_local_flags c;
     s \<leftarrow> (if seg_started sg \<and> \<not> seg_complete sg then do {
            start \<leftarrow> assembled c address;
            enqueue k 0 (flags OR J2534_START) ts start True s1
          } else Some s1);
     if \<not> seg_complete sg then Some s
     else do {
       data \<leftarrow> assembled c (address + seg_total sg);
       s \<leftarrow> schedule_received k data flags ts s;
       s \<leftarrow> (if \<not> ch_legacy_channel c then Some s
            else fold_opt (\<lambda>s i. if legacy_peer s k i then schedule_received i data flags ts s else Some s)
              s logical_indices);
       enqueue k 0 (flags OR (if seg_padding_error sg then J2534_PADDING else 0)) ts data False s
     }
   })"
    unfolding keeps_live(1) [OF s1 k] Option.bind.bind_lunit Let_def d1(1)
    by (rule okay_bind [OF start]) (simp add: fin del: not_not)
qed

lemma logical_receive_keeps:
  assumes s: "keeps v s" and k: "live v k" and p: "sp_parent (fst v ! k) \<noteq> 0" and f: "frame_fits f"
  shows "okay (keeps v) (logical_receive ce k f ts s)"
proof -
  let ?c = "jc_channels s ! k"
  have first: "okay (\<lambda>(s', _). keeps v s') (if \<not> ch_tx_active ?c then Some (s, False)
        else do {
          let (s, now) = now_us ce s;
          let (tx, rc) = isotp_tx_flow_control (ch_iso_tx ?c) (Some f) now;
          s \<leftarrow> upd k (\<lambda>c. c\<lparr>ch_iso_tx := tx\<rparr>) s;
          s \<leftarrow> (if isotp_code rc < 0 then tx_done ce k False s else Some s);
          Some (s, ch_flags ?c AND LOGICAL_FULL_DUPLEX = 0)
        })"
  proof -
    obtain s1 t where n: "now_us ce s = (s1, t)" "keeps v s1" using now_us_E [OF s] .
    obtain tx rc where tx: "isotp_tx_flow_control (ch_iso_tx ?c) (Some f) t = (tx, rc)" by fastforce
    have "tx_wf tx" using tx_wf_flow_control [of "ch_iso_tx ?c" "Some f" t] tx logical_parts(1) [OF s k p]
      by (simp add: logical_ok_def)
    then have upd: "okay (keeps v) (upd k (\<lambda>c. c\<lparr>ch_iso_tx := tx\<rparr>) s1)"
      using n(2) k by (simp add: iso_tx_keeps)
    show ?thesis
      unfolding n(1) prod.case Let_def tx
      using s k by (auto intro!: okay_bind [OF upd] okay_bind [where Q = "keeps v"] simp: tx_done_keeps)
  qed
  have last: "okay (keeps v) (do {
         let (s, now) = now_us ce s1;
         c \<leftarrow> chan s k;
         let (rx, fc, rc) = isotp_rx_flow_control (ch_iso_rx c) now;
         s \<leftarrow> upd k (\<lambda>c. c\<lparr>ch_iso_rx := rx\<rparr>) s;
         if rc = ISOTP_FRAME then do {
           fc \<leftarrow> fc;
           upd k (\<lambda>c. c\<lparr>ch_flow_control := fc, ch_flow_control_pending := True\<rparr>) s
         } else Some s
       })" if s1: "keeps v s1" for s1 :: "'a j2534"
  proof -
    obtain s2 t where n: "now_us ce s1 = (s2, t)" "keeps v s2" using now_us_E [OF s1] .
    obtain rx fc rc where fc: "isotp_rx_flow_control (ch_iso_rx (jc_channels s2 ! k)) t = (rx, fc, rc)"
      by (metis surj_pair)
    note F = flow_control_okay [OF logical_rx_fits [OF logical_parts(1) [OF n(2) k p]] fc]
    have upd: "okay (keeps v) (upd k (\<lambda>c. c\<lparr>ch_iso_rx := rx\<rparr>) s2)"
      using n(2) k F by (simp add: iso_rx_keeps)
    have put: "okay (keeps v) (upd k (\<lambda>c. c\<lparr>ch_flow_control := g, ch_flow_control_pending := True\<rparr>) s3)"
      if "keeps v s3" "frame_fits g" for s3 :: "'a j2534" and g
      using that k by (intro upd_keeps) (simp_all add: live_flow_control)
    show ?thesis
      unfolding n(1) prod.case Let_def keeps_live(1) [OF n(2) k] Option.bind.bind_lunit fc
      by (rule okay_bind [OF upd]) (use F put in auto)
  qed
  have middle: "okay (keeps v) (do {
       let (s, now) = now_us ce s1;
       c \<leftarrow> chan s k;
       (rx, segment, rc) \<leftarrow> isotp_rx_feed (ch_iso_rx c) (Some f) now;
       s \<leftarrow> upd k (\<lambda>c. c\<lparr>ch_iso_rx := rx\<rparr>) s;
       if isotp_code rc \<le> 0 then Some s
       else do {
         s \<leftarrow> logical_segment k f segment ts s;
         let (s, now) = now_us ce s;
         c \<leftarrow> chan s k;
         let (rx, fc, rc) = isotp_rx_flow_control (ch_iso_rx c) now;
         s \<leftarrow> upd k (\<lambda>c. c\<lparr>ch_iso_rx := rx\<rparr>) s;
         if rc = ISOTP_FRAME then do {
           fc \<leftarrow> fc;
           upd k (\<lambda>c. c\<lparr>ch_flow_control := fc, ch_flow_control_pending := True\<rparr>) s
         } else Some s
       }
     })" if s1: "keeps v s1" for s1 :: "'a j2534"
  proof -
    obtain s2 t where n: "now_us ce s1 = (s2, t)" "keeps v s2" using now_us_E [OF s1] .
    note F = feed_okay [OF logical_rx_fits [OF logical_parts(1) [OF n(2) k p]] f, of t]
    have upd: "okay (keeps v) (upd k (\<lambda>c. c\<lparr>ch_iso_rx := rx\<rparr>) s2)" if "rx_fits rx" for rx
      using n(2) k that by (simp add: iso_rx_keeps)
    show ?thesis
      unfolding n(1) prod.case Let_def keeps_live(1) [OF n(2) k] Option.bind.bind_lunit
      apply (rule okay_bind [OF F])
      apply clarify
      apply (rule okay_bind [OF upd], assumption)
      subgoal for rx sg rc s3
        by (cases "isotp_code rc \<le> 0")
          (simp_all only: if_True if_False okay_Some not_True_eq_False,
           rule okay_bind [OF logical_segment_keeps [OF _ k p f]], simp_all add: last [unfolded Let_def])
      done
  qed
  show ?thesis
    unfolding logical_receive_def keeps_live(1) [OF s k] Option.bind.bind_lunit
    by (rule okay_bind [OF first]) (use middle in auto)
qed

lemma logical_index: "i \<in> set logical_indices \<Longrightarrow> i < CHANNELS"
  by (simp add: logical_indices_def)

lemma live_down:
  "live_ok c \<Longrightarrow> ch_parent c \<noteq> 0 \<Longrightarrow> live_ok (c\<lparr>ch_iso_tx := iso_tx_reset cfg (ch_iso_tx c),
     ch_iso_rx := (ch_iso_rx c)\<lparr>rx_state := ISOTP_RX_IDLE\<rparr>\<rparr>)"
  using tx_wf_reset [of "ch_iso_tx c" cfg] by (simp add: live_parts) (auto simp: rx_wf_def)

lemma link_down_keeps:
  assumes s: "keeps v s" and p: "live v p" and i: "i < CHANNELS"
  shows "okay (keeps v) (link_down_channel ce p msg s i)"
proof (cases "i \<noteq> p \<and> ch_parent (jc_channels s ! i) \<noteq> ch_id (jc_channels s ! p)")
  case True
  then show ?thesis using s by (simp add: link_down_channel_def keeps_live(1) [OF s p] keeps_chan(1) [OF s i])
next
  case False
  let ?a = "jc_channels s ! i"
  have l: "live v i"
  proof (cases "i = p")
    case ne: False
    then have "ch_parent ?a \<noteq> 0" using False keeps_live(3) [OF s p] by simp
    then show ?thesis using keeps_parent [OF s i] by simp
  qed (use p in simp)
  have dn: "okay (keeps v) (tx_done ce i False s1)" "okay (keeps v) (enqueue i 0 st ts [1, 0, 0, 0] True s1)"
    "okay (keeps v) (cancel_channel_tx ce i s1)" if "keeps v s1" for s1 :: "'a j2534" and st ts
    using that l by (simp_all add: tx_done_keeps enqueue_keeps cancel_channel_keeps J2534_DATA_MAX_def)
  have reset: "okay (keeps v) (upd i (\<lambda>c. c\<lparr>ch_iso_tx := iso_tx_reset (ch_config c) (ch_iso_tx c),
      ch_iso_rx := (ch_iso_rx c)\<lparr>rx_state := ISOTP_RX_IDLE\<rparr>\<rparr>) s1)"
    if "keeps v s1" "ch_parent ?a \<noteq> 0" for s1 :: "'a j2534"
    using that(1) l
  proof (rule upd_keeps)
    fix c assume c: "live_ok c" "shape_of c = fst v ! i"
    have "ch_parent c \<noteq> 0" using c(2) keeps_live(4) [OF s l] that(2) by (metis shape_sel(2))
    then show "live_ok (c\<lparr>ch_iso_tx := iso_tx_reset (ch_config c) (ch_iso_tx c),
        ch_iso_rx := (ch_iso_rx c)\<lparr>rx_state := ISOTP_RX_IDLE\<rparr>\<rparr>) \<and> shape_of (c\<lparr>ch_iso_tx := iso_tx_reset (ch_config c) (ch_iso_tx c),
        ch_iso_rx := (ch_iso_rx c)\<lparr>rx_state := ISOTP_RX_IDLE\<rparr>\<rparr>) = shape_of c"
      using c(1) by (simp add: live_down)
  qed
  show ?thesis
    unfolding link_down_channel_def keeps_live(1) [OF s p] keeps_chan(1) [OF s i] Option.bind.bind_lunit
      if_not_P [OF False]
    by (intro okay_bind [OF schedule_lost_keeps [OF s l]] okay_bind [where Q = "keeps v"] dn)
      (auto simp: dn reset)
qed

lemma overflow_keeps:
  assumes s: "keeps v s" and p: "live v p"
  shows "okay (keeps v) (rx_overflow p s)"
proof -
  have over: "okay (keeps v) (do { s \<leftarrow> upd i (\<lambda>c. c\<lparr>ch_overflow := True\<rparr>) s1; schedule_lost i s })"
    if "keeps v s1" "live v i" for s1 :: "'a j2534" and i
  proof (rule okay_bind)
    show "okay (keeps v) (upd i (\<lambda>c. c\<lparr>ch_overflow := True\<rparr>) s1)" using that by (intro upd_keeps) simp_all
  qed (rule schedule_lost_keeps [OF _ that(2)])
  have each: "okay (keeps v) (do {
         c \<leftarrow> chan s1 i;
         if ch_parent c \<noteq> ch_id (jc_channels s ! p) then Some s1
         else do { s \<leftarrow> upd i (\<lambda>c. c\<lparr>ch_overflow := True\<rparr>) s1; schedule_lost i s }
       })" if "i \<in> set logical_indices" "keeps v s1" for s1 :: "'a j2534" and i
    using that keeps_chan(1) [OF that(2) logical_index [OF that(1)]]
      keeps_parent [OF that(2) logical_index [OF that(1)]] keeps_live(3) [OF s p] over
    by (cases "ch_parent (jc_channels s1 ! i) = ch_id (jc_channels s ! p)") simp_all
  have "okay (keeps v) (do {
     s \<leftarrow> do { s \<leftarrow> upd p (\<lambda>c. c\<lparr>ch_overflow := True\<rparr>) s; schedule_lost p s };
     fold_opt (\<lambda>s i. do {
         c \<leftarrow> chan s i;
         if ch_parent c \<noteq> ch_id (jc_channels s0 ! p) then Some s
         else do { s \<leftarrow> upd i (\<lambda>c. c\<lparr>ch_overflow := True\<rparr>) s; schedule_lost i s }
       }) s logical_indices })" if "s0 = s" for s0
    unfolding that by (rule okay_bind [OF over [OF s p]], rule okay_fold, assumption, rule each)
  then show ?thesis unfolding rx_overflow_def keeps_live(1) [OF s p] by simp
qed

definition msg_ok :: "bus_msg \<Rightarrow> bool" where
  "msg_ok msg \<longleftrightarrow> bm_len msg \<le> J2534_DATA_MAX \<and> bm_len msg \<le> length (bm_data msg)"

lemma can_receive_keeps:
  assumes s: "keeps v s" and p: "live v p" and m: "length data = bm_len msg"
  shows "okay (\<lambda>(s', acc). keeps v s' \<and> (\<forall>fl d. acc = Some (fl, d) \<longrightarrow> length d \<le> J2534_DATA_MAX))
    (can_receive ce p msg data s)"
proof (cases "bm_len msg \<le> 8")
  case False
  then show ?thesis using s by (simp add: can_receive_def keeps_live(1) [OF s p] Let_def)
next
  case True
  let ?f = "\<lparr>can_id = bm_id msg, can_dlc = u8 (bm_len msg), can_data = data @ drop (bm_len msg) (replicate 8 0)\<rparr>"
  have f: "frame_fits ?f" using True m by (simp add: frame_fits_def)
  have each: "okay (keeps v) (do {
           c \<leftarrow> chan s1 i;
           if ch_parent c = ch_id (jc_channels s ! p) then logical_receive ce i g (bm_timestamp_us msg) s1 else Some s1
         })" if "i \<in> set logical_indices" "keeps v s1" "frame_fits g" for s1 :: "'a j2534" and i g
    using that keeps_chan(1) [OF that(2) logical_index [OF that(1)]]
      keeps_parent [OF that(2) logical_index [OF that(1)]] keeps_live(3) [OF s p]
    by (cases "ch_parent (jc_channels s1 ! i) = ch_id (jc_channels s ! p)") (simp_all add: logical_receive_keeps)
  have loop: "okay (keeps v) (fold_opt (\<lambda>s1 i. do {
           c \<leftarrow> chan s1 i;
           if ch_parent c = ch_id (jc_channels s ! p) then logical_receive ce i ?f (bm_timestamp_us msg) s1 else Some s1
         }) s logical_indices)"
    by (rule okay_fold [where I = "keeps v", OF s each [OF _ _ f]])
  have st: "store_at (can_data frame_zero) 0 data = Some (data @ drop (bm_len msg) (replicate 8 0))"
    using True m by (simp add: frame_zero_def store_at_def)
  show ?thesis
    unfolding can_receive_def keeps_live(1) [OF s p] Option.bind.bind_lunit Let_def st
    using s True m by (auto intro!: okay_bind [OF loop] simp: J2534_DATA_MAX_def)
qed

lemma byte_receive_length:
  "byte_receive c msg data = Some (fl, d) \<Longrightarrow> length d \<le> length data"
  by (auto simp: byte_receive_def split: if_splits)

lemma rx_data_keeps:
  assumes s: "keeps v s" and p: "live v p" and m: "msg_ok msg"
  shows "okay (keeps v) (rx_data ce p msg s)"
proof -
  have ld: "load_at (bm_data msg) 0 (bm_len msg) = Some (take (bm_len msg) (bm_data msg))"
    using m by (simp add: msg_ok_def load_at_def)
  let ?d = "take (bm_len msg) (bm_data msg)"
  have l: "length ?d = bm_len msg" using m by (simp add: msg_ok_def)
  have first: "okay (\<lambda>(s', acc). keeps v s' \<and> (\<forall>fl d. acc = Some (fl, d) \<longrightarrow> length d \<le> J2534_DATA_MAX))
     (if ch_protocol (jc_channels s ! p) = J2534_CAN then can_receive ce p msg ?d s
      else Some (s, byte_receive (jc_channels s ! p) msg ?d))"
    using s can_receive_keeps [OF s p l, of ce] m l by (auto simp: msg_ok_def dest!: byte_receive_length)
  have next_ok: "okay (keeps v) (do {
         s \<leftarrow> (if own then Some s1 else schedule_received p d fl ts s1);
         ph \<leftarrow> chan s p;
         pass \<leftarrow> filter_accepts ph d fl;
         if pass then enqueue p 0 fl ts d False s else Some s
       })" if "keeps v s1" "length d \<le> J2534_DATA_MAX" for s1 :: "'a j2534" and d fl own ts
  proof (rule okay_bind)
    show "okay (keeps v) (if own then Some s1 else schedule_received p d fl ts s1)"
      using that p by (simp add: schedule_received_keeps)
    fix s2 :: "'a j2534" assume s2: "keeps v s2"
    obtain pass where pass: "filter_accepts (jc_channels s2 ! p) d fl = Some pass"
      using filter_accepts_okay [OF keeps_live(2) [OF s2 p]] by blast
    show "okay (keeps v) (do {
         ph \<leftarrow> chan s2 p;
         pass \<leftarrow> filter_accepts ph d fl;
         if pass then enqueue p 0 fl ts d False s2 else Some s2
       })" using s2 p that(2) by (simp add: keeps_live(1) [OF s2 p] pass enqueue_keeps)
  qed
  show ?thesis
    unfolding rx_data_def keeps_live(1) [OF s p] Option.bind.bind_lunit ld
    by (rule okay_bind [OF first]) (auto split: option.split simp: Let_def
      intro!: next_ok [where own = True, simplified] next_ok [where own = False, simplified])
qed

lemma rx_record_keeps:
  assumes s: "keeps v s" and p: "live v p" and m: "msg_ok msg"
  shows "okay (keeps v) (rx_record ce p msg s)"
proof -
  have seq: "okay (keeps v) (upd p (\<lambda>c. if 0 < sint (bm_sequence msg - ch_rx_sequence c)
      then c\<lparr>ch_rx_sequence := bm_sequence msg\<rparr> else c) s)"
    using s p by (intro upd_keeps) simp_all
  have down: "okay (keeps v) (do {
       s \<leftarrow> upd p (\<lambda>c. c\<lparr>ch_link_down := True\<rparr>) s1;
       fold_opt (link_down_channel ce p msg) s [0..<CHANNELS]
     })" if "keeps v s1" for s1 :: "'a j2534"
  proof (rule okay_bind)
    show "okay (keeps v) (upd p (\<lambda>c. c\<lparr>ch_link_down := True\<rparr>) s1)" using that p by (intro upd_keeps) simp_all
    fix s2 :: "'a j2534" assume "keeps v s2"
    then show "okay (keeps v) (fold_opt (link_down_channel ce p msg) s2 [0..<CHANNELS])"
      by (rule okay_fold [where I = "keeps v"]) (simp add: link_down_keeps p)
  qed
  have up: "okay (keeps v) (do {
       s \<leftarrow> (if over then rx_overflow p s1 else Some s1);
       if b1 then Some s
       else if b2 then enqueue p 0 J2534_BREAK (bm_timestamp_us msg) [] True s
       else if b3 then enqueue p 0 J2534_START (bm_timestamp_us msg) [] True s
       else rx_data ce p msg s
     })" if "keeps v s1" for s1 :: "'a j2534" and over b1 b2 b3
    using that by (intro okay_bind [where Q = "keeps v"]) (simp_all add: overflow_keeps p enqueue_keeps rx_data_keeps m)
  show ?thesis
    unfolding rx_record_def
  proof (rule okay_bind [OF seq])
    fix s1 :: "'a j2534" assume "keeps v s1"
    from down [OF this] up [OF this]
    show "okay (keeps v) (if bm_status msg AND BUS_RX_LINK_DOWN \<noteq> 0 then do {
         s \<leftarrow> upd p (\<lambda>c. c\<lparr>ch_link_down := True\<rparr>) s1;
         fold_opt (link_down_channel ce p msg) s [0..<CHANNELS]
       }
       else do {
         s \<leftarrow> (if bm_status msg AND BUS_RX_BUFFER_OVERFLOW \<noteq> 0 then rx_overflow p s1 else Some s1);
         if bm_len msg = 0 \<and> bm_status msg AND BUS_RX_BUFFER_OVERFLOW \<noteq> 0 then Some s
         else if bm_status msg AND BUS_RX_BREAK \<noteq> 0
         then enqueue p 0 J2534_BREAK (bm_timestamp_us msg) [] True s
         else if bm_status msg AND BUS_RX_START_OF_MSG \<noteq> 0
         then enqueue p 0 J2534_START (bm_timestamp_us msg) [] True s
         else rx_data ce p msg s
       })"
      by (simp only: if_split simp_thms)
  qed
qed

text \<open>What the drivers promise: a record they report fits the buffer they were given.\<close>

definition drivers_ok :: "'d core_env \<Rightarrow> bool" where
  "drivers_ok ce \<longleftrightarrow> (\<forall>bus cap wait d. case ev_recv (ce_vif ce) bus cap wait d of (d', rc, msg) \<Rightarrow>
     0 \<le> rc \<longrightarrow> bm_len msg \<le> cap \<and> bm_len msg \<le> length (bm_data msg))"

lemma recv_ok:
  assumes "drivers_ok ce" "keeps v s"
    "vif_do (vif_bus_recv (ce_vif ce) (ce_me ce) VIF_OWNER_LINK bus J2534_DATA_MAX 0) s = (s', rc, msg)"
  shows "keeps v s' \<and> (0 \<le> rc \<longrightarrow> (\<exists>m. msg = Some m \<and> msg_ok m))"
proof -
  have "keeps v s'" using keeps_vif_do [of v "vif_bus_recv (ce_vif ce) (ce_me ce) VIF_OWNER_LINK bus J2534_DATA_MAX 0" s]
    assms(2,3) by simp
  moreover have "\<exists>m. msg = Some m \<and> msg_ok m" if rc: "0 \<le> rc"
  proof -
    obtain g d where gd: "jc_vif s = (g, d)" by fastforce
    obtain d' rc' m where r: "ev_recv (ce_vif ce) bus J2534_DATA_MAX 0 d = (d', rc', m)" by (metis surj_pair)
    have "0 \<le> rc' \<longrightarrow> msg_ok m"
      using assms(1) [unfolded drivers_ok_def, THEN spec, of bus, THEN spec, of J2534_DATA_MAX, THEN spec, of 0, THEN spec, of d] by (simp add: r msg_ok_def)
    then show ?thesis using assms(3) rc gd r
      by (auto simp: vif_do_def vif_bus_recv_def VIF_ERR_NO_CLAIM_def BUS_ERR_BAD_ARG_def split: if_splits)
  qed
  ultimately show ?thesis by simp
qed

lemma rx_loop_keeps:
  "drivers_ok ce \<Longrightarrow> keeps v s \<Longrightarrow> live v p \<Longrightarrow> okay (keeps v) (poll_rx_loop ce p n s)"
proof (induction n arbitrary: s)
  case (Suc n)
  note s = Suc.prems(2) and p = Suc.prems(3)
  obtain s1 rc msg where r: "vif_do (vif_bus_recv (ce_vif ce) (ce_me ce) VIF_OWNER_LINK (ch_bus (jc_channels s ! p))
      J2534_DATA_MAX 0) s = (s1, rc, msg)" by (metis surj_pair)
  note R = recv_ok [OF Suc.prems(1) s r]
  show ?case
  proof (cases "rc < 0")
    case True
    have "okay (keeps v) (upd p (\<lambda>c. c\<lparr>ch_rx_drained := True\<rparr>) s1)" using R p by (intro upd_keeps) simp_all
    then show ?thesis using True by (simp add: keeps_live(1) [OF s p] r)
  next
    case False
    then obtain m where m: "msg = Some m" "msg_ok m" using R by auto
    have "okay (keeps v) (do { s \<leftarrow> collect_bus_tx ce p s1; s \<leftarrow> rx_record ce p m s; poll_rx_loop ce p n s })"
      by (rule okay_bind [OF collect_keeps [OF conjunct1 [OF R] p]], rule okay_bind [OF rx_record_keeps [OF _ p m(2)]])
        (simp_all add: Suc.IH [OF Suc.prems(1) _ p])
    then show ?thesis using False m(1) by (simp add: keeps_live(1) [OF s p] r)
  qed
qed simp

lemma poll_rx_keeps:
  assumes "drivers_ok ce" "keeps v s" "live v p"
  shows "okay (keeps v) (poll_rx ce p s)"
  unfolding poll_rx_def
proof (rule okay_bind)
  show "okay (keeps v) (upd p (\<lambda>c. c\<lparr>ch_rx_drained := False\<rparr>) s)" using assms(2,3) by (intro upd_keeps) simp_all
qed (rule rx_loop_keeps [OF assms(1) _ assms(3)])

section \<open>Serving a bus\<close>

lemma next_active: "j2534_schedule_next jobs now rep = Some j \<Longrightarrow> j < 20 \<and> sj_active (jobs ! j)"
proof -
  have "foldl (schedule_next_step jobs now rep) sel js = Some j \<Longrightarrow>
      (\<forall>n. sel = Some n \<longrightarrow> n < 20 \<and> sj_active (jobs ! n)) \<Longrightarrow> set js \<subseteq> {..<20} \<Longrightarrow> j < 20 \<and> sj_active (jobs ! j)"
    for sel js
  proof (induction js arbitrary: sel)
    case (Cons i js)
    show ?case
      by (rule Cons.IH [OF Cons.prems(1) [simplified]])
        (use Cons.prems(2,3) in \<open>auto simp: schedule_next_step_def schedule_ready_def split: if_splits option.splits\<close>)
  qed simp
  from this [of None "[0..<20]"] show "j2534_schedule_next jobs now rep = Some j \<Longrightarrow> j < 20 \<and> sj_active (jobs ! j)"
    by (simp add: j2534_schedule_next_def J2534_SCHEDULE_SLOTS_def subset_iff)
qed

definition sel_ok :: "view \<Rightarrow> (nat \<times> nat) option \<Rightarrow> bool" where
  "sel_ok v sel \<longleftrightarrow> (\<forall>k j. sel = Some (k, j) \<longrightarrow> live v k \<and> j < 20 \<and> sj_id (sp_jobs (fst v ! k) ! j) \<noteq> 0)"

lemma next_job_ok:
  assumes "keeps v s" "live v k" "j2534_schedule_next (ch_scheduler (jc_channels s ! k)) now rep = Some j"
  shows "sel_ok v (Some (k, j))"
proof -
  have j: "j < 20" "sj_active (ch_scheduler (jc_channels s ! k) ! j)" using next_active [OF assms(3)] by simp_all
  have sl: "slots_ok (ch_parent (jc_channels s ! k) = 0 \<and> ch_bus (jc_channels s ! k) = VIF_BUS_CAN)
     (ch_parent (jc_channels s ! k) \<noteq> 0) (ch_scheduler (jc_channels s ! k))"
    by (rule live_slots [OF keeps_live(2) [OF assms(1,2)]])
  then have l: "length (ch_scheduler (jc_channels s ! k)) = 20" using schedule_wf_length by (auto simp: slots_ok_def)
  then have "sj_id (ch_scheduler (jc_channels s ! k) ! j) \<noteq> 0"
    using sl j by (auto simp: slots_ok_def list_all_length job_fits_def)
  then show ?thesis using j(1) assms(2) l keeps_live(4) [OF assms(1,2)] by (simp add: sel_ok_def)
qed

lemma select_keeps:
  assumes s: "keeps v s" and sel: "sel_ok v sel" and p: "live v p" and k: "k < CHANNELS"
  shows "okay (\<lambda>(s', sel'). keeps v s' \<and> sel_ok v sel') (select_job ce p now (s, sel) k)"
proof (cases "ch_id (jc_channels s ! k) = 0 \<or> physical_channel s k \<noteq> Some p")
  case True
  then show ?thesis using s sel by (simp add: select_job_def keeps_chan(1) [OF s k])
next
  case False
  then have l: "live v k" using keeps_shape [OF s k] k by (simp add: live_def)
  have one: "okay (keeps v) (if ch_parent (jc_channels s ! k) = 0 then Some s
      else upd k (\<lambda>c. c\<lparr>ch_iso_rx := fst (isotp_rx_check_timeout (ch_iso_rx c) now)\<rparr>) s)"
    using s l by (auto intro!: upd_keeps live_iso_rx_if simp: rx_wf_timeout logical_ok_def)
  have two: "okay (keeps v) (if \<not> d then Some s1
      else upd_opt k (\<lambda>c. do { jobs \<leftarrow> j2534_schedule_expire (ch_scheduler c) now; Some (c\<lparr>ch_scheduler := jobs\<rparr>) }) s1)"
    if "keeps v s1" for s1 :: "'a j2534" and d
    using that l schedule_keeps [OF that l, of "\<lambda>jobs. j2534_schedule_expire jobs now"] by (simp add: slots_expire)
  have three: "okay (\<lambda>(s', sel'). keeps v s' \<and> sel_ok v sel')
      (do { c \<leftarrow> chan s2 k;
       case j2534_schedule_next (ch_scheduler c) now d of
         None \<Rightarrow> Some (s2, sel)
       | Some j \<Rightarrow> (case sel of
             None \<Rightarrow> Some (s2, Some (k, j))
           | Some (k', j') \<Rightarrow>
               if schedule_before (ch_scheduler c ! j) (ch_scheduler (jc_channels s2 ! k') ! j')
               then Some (s2, Some (k, j)) else Some (s2, sel)) })"
    if "keeps v s2" for s2 :: "'a j2534" and d
    using that sel next_job_ok [OF that l] by (auto simp: keeps_live(1) [OF that l] split: option.split)
  show ?thesis
    unfolding select_job_def prod.case keeps_chan(1) [OF s k] Option.bind.bind_lunit if_not_P [OF False]
    apply (rule okay_bind [OF one])
    subgoal for s1
      apply (simp only: keeps_live(1) [OF _ p] Option.bind.bind_lunit)
      apply (rule okay_bind [OF two], assumption)
      apply (rule three, assumption)
      done
    done
qed

lemma orphan_keeps: "keeps v s \<Longrightarrow> live v p \<Longrightarrow> okay (keeps v) (drop_orphan ce p s)"
  by (auto simp: drop_orphan_def keeps_live(1) split: option.split)

lemma flow_live:
  assumes s: "keeps v s" and p: "live v p" and f: "next_flow s p = Some k"
  shows "live v k"
proof -
  have "foldl (flow_step s p) best is = Some k \<Longrightarrow> (\<forall>n. best = Some n \<longrightarrow> live v n) \<Longrightarrow>
      set is \<subseteq> set logical_indices \<Longrightarrow> live v k" for best "is"
  proof (induction "is" arbitrary: best)
    case (Cons i "is")
    have "live v i" if "ch_parent (jc_channels s ! i) = ch_id (jc_channels s ! p)"
      using keeps_parent [OF s, of i] logical_index [of i] Cons.prems(3) that keeps_live(3) [OF s p] by simp
    then show ?case
      using Cons.IH [OF Cons.prems(1) [simplified]] Cons.prems(2,3) by (auto simp: flow_step_def Let_def split: if_splits)
  qed simp
  from this [OF f [unfolded next_flow_def]] show ?thesis by simp
qed

lemma send_flow_keeps:
  "keeps v s \<Longrightarrow> live v p \<Longrightarrow> okay (\<lambda>(s', _). keeps v s') (send_flow ce p n s)"
proof (induction n arbitrary: s)
  case (Suc n)
  note s = Suc.prems(1) and p = Suc.prems(2)
  show ?case
  proof (cases "next_flow s p")
    case (Some k)
    have k: "live v k" by (rule flow_live [OF s p Some])
    have off: "okay (keeps v) (upd k (\<lambda>c. c\<lparr>ch_flow_control_pending := False\<rparr>) s)"
      using s k by (intro upd_keeps) simp_all
    have tx: "okay (keeps v) (do { c \<leftarrow> chan s1 k; submit_can ce k TX_FLOW_CONTROL (ch_flow_control c) s1 })"
      if "keeps v s1" for s1 :: "'a j2534"
      using that k keeps_live(2) [OF that k] by (simp add: keeps_live(1) [OF that k] submit_can_keeps live_ok_def)
    have rest: "okay (\<lambda>(s', _). keeps v s') (do {
         s \<leftarrow> collect_bus_tx ce p s2;
         ph \<leftarrow> chan s p;
         if pt_kind (ch_pending ph) \<noteq> TX_NONE then Some (s, True) else send_flow ce p n s
       })" if "keeps v s2" for s2 :: "'a j2534"
      by (rule okay_bind [OF collect_keeps [OF that p]]) (simp add: keeps_live(1) [OF _ p] Suc.IH [OF _ p])
    have "okay (\<lambda>(s', _). keeps v s') (do {
        s \<leftarrow> upd k (\<lambda>c. c\<lparr>ch_flow_control_pending := False\<rparr>) s;
        s \<leftarrow> do { c \<leftarrow> chan s k; submit_can ce k TX_FLOW_CONTROL (ch_flow_control c) s };
        s \<leftarrow> collect_bus_tx ce p s;
        ph \<leftarrow> chan s p;
        if pt_kind (ch_pending ph) \<noteq> TX_NONE then Some (s, True) else send_flow ce p n s })"
      by (rule okay_bind [OF off], rule okay_bind [OF tx], assumption, rule rest)
    then show ?thesis by (simp add: Some)
  qed (simp add: s)
qed simp

lemma serve_keeps: "keeps v s \<Longrightarrow> live v p \<Longrightarrow> okay (keeps v) (serve_tx ce p offsets s)"
proof (induction offsets arbitrary: s)
  case (Cons offset offsets)
  note s = Cons.prems(1) and p = Cons.prems(2)
  let ?i = "(ch_tx_cursor (jc_channels s ! p) + offset) mod CHANNELS"
  have i: "?i < CHANNELS" by (simp add: CHANNELS_eq)
  show ?case
  proof (cases "ch_id (jc_channels s ! ?i) = 0 \<or> physical_channel s ?i \<noteq> Some p")
    case True
    then show ?thesis using Cons by (auto simp: keeps_live(1) [OF s p] keeps_chan(1) [OF s i])
  next
    case False
    then have l: "live v ?i" using keeps_shape [OF s i] i by (simp add: live_def)
    have "okay (keeps v) (do {
        s \<leftarrow> poll_tx ce ?i s;
        ph \<leftarrow> chan s p;
        if pt_kind (ch_pending ph) \<noteq> TX_NONE then upd p (\<lambda>c. c\<lparr>ch_tx_cursor := (?i + 1) mod CHANNELS\<rparr>) s
        else serve_tx ce p offsets s })"
    proof (rule okay_bind [OF poll_tx_keeps [OF s l]])
      fix s1 :: "'a j2534" assume s1: "keeps v s1"
      have "okay (keeps v) (upd p (\<lambda>c. c\<lparr>ch_tx_cursor := (?i + 1) mod CHANNELS\<rparr>) s1)"
        using s1 p by (intro upd_keeps) simp_all
      then show "okay (keeps v) (do {
        ph \<leftarrow> chan s1 p;
        if pt_kind (ch_pending ph) \<noteq> TX_NONE then upd p (\<lambda>c. c\<lparr>ch_tx_cursor := (?i + 1) mod CHANNELS\<rparr>) s1
        else serve_tx ce p offsets s1 })"
        using Cons.IH [OF s1 p] by (simp add: keeps_live(1) [OF s1 p])
    qed
    then show ?thesis using False by (simp add: keeps_live(1) [OF s p] keeps_chan(1) [OF s i] Let_def)
  qed
qed simp

lemma service_keeps:
  assumes d: "drivers_ok ce" and s: "keeps v s" and p: "live v p"
  shows "okay (keeps v) (service_bus ce p s)"
proof -
  have tail: "okay (keeps v) (do {
         s \<leftarrow> (case sel of Some (k, j) \<Rightarrow> submit_scheduled ce k j s1
              | None \<Rightarrow> serve_tx ce p [0..<CHANNELS] s1);
         collect_bus_tx ce p s
       })" if "keeps v s1" "sel_ok v sel" for s1 :: "'a j2534" and sel
  proof (rule okay_bind)
    show "okay (keeps v) (case sel of Some (k, j) \<Rightarrow> submit_scheduled ce k j s1
              | None \<Rightarrow> serve_tx ce p [0..<CHANNELS] s1)"
      using that by (auto simp: sel_ok_def serve_keeps p submit_scheduled_keeps split: option.split)
  qed (rule collect_keeps [OF _ p])
  have send: "okay (keeps v) (do {
       (s, busy) \<leftarrow> send_flow ce p J2534_LOGICAL_MAX s1;
       if busy then Some s
       else do {
         s \<leftarrow> (case sel of Some (k, j) \<Rightarrow> submit_scheduled ce k j s
              | None \<Rightarrow> serve_tx ce p [0..<CHANNELS] s);
         collect_bus_tx ce p s
       }
     })" if "keeps v s1" "sel_ok v sel" for s1 :: "'a j2534" and sel
    by (rule okay_bind [OF send_flow_keeps [OF that(1) p]]) (auto intro: tail [OF _ that(2)])
  have chosen: "okay (\<lambda>(s', sel). keeps v s' \<and> sel_ok v sel) (fold_opt (select_job ce p now) (s1, None) [0..<CHANNELS])"
    if "keeps v s1" for s1 :: "'a j2534" and now
  proof (rule okay_fold)
    show "case (s1, None) of (s', sel) \<Rightarrow> keeps v s' \<and> sel_ok v sel" using that by (simp add: sel_ok_def)
  qed (auto intro: select_keeps [OF _ _ p])
  have rest: "okay (keeps v) (do {
     (s, sel) \<leftarrow> fold_opt (select_job ce p now) (s1, None) [0..<CHANNELS];
     s \<leftarrow> drop_orphan ce p s;
     ph \<leftarrow> chan s p;
     if pt_kind (ch_pending ph) \<noteq> TX_NONE \<or> ch_link_down ph then Some s
     else do {
       (s, busy) \<leftarrow> send_flow ce p J2534_LOGICAL_MAX s;
       if busy then Some s
       else do {
         s \<leftarrow> (case sel of Some (k, j) \<Rightarrow> submit_scheduled ce k j s
              | None \<Rightarrow> serve_tx ce p [0..<CHANNELS] s);
         collect_bus_tx ce p s
       }
     }
   })" if "keeps v s1" for s1 :: "'a j2534" and now
    apply (rule okay_bind [OF chosen [OF that]])
    apply clarify
    apply (rule okay_bind [OF orphan_keeps [OF _ p]], assumption)
    apply (simp only: keeps_live(1) [OF _ p] Option.bind.bind_lunit)
    apply (simp only: if_split okay_Some simp_thms send)
    done
  show ?thesis
    unfolding service_bus_def
    apply (rule okay_bind [OF collect_keeps [OF s p]])
    apply (rule okay_bind [OF poll_rx_keeps [OF d _ p]], assumption)
    subgoal for s1 s2
      using rest [of "fst (now_us ce s2)" "snd (now_us ce s2)"] by (simp add: case_prod_beta Let_def)
    done
qed

lemma poll_keeps:
  assumes d: "drivers_ok ce" and s: "keeps v s"
  shows "okay (keeps v) (j2534_core_poll ce s)"
proof (cases "jc_device s = 0")
  case False
  have "okay (keeps v) (fold_opt (\<lambda>s p. do {
          c \<leftarrow> chan s p;
          if ch_id c \<noteq> 0 \<and> channel_is_live s (Some p) then service_bus ce p s else Some s
        }) s physical_indices)"
  proof (rule okay_fold [where I = "keeps v", OF s])
    fix s1 :: "'a j2534" and p assume "p \<in> set physical_indices" and s1: "keeps v s1"
    then have p: "p < CHANNELS" by (simp add: physical_indices_def CHANNELS_eq J2534_PHYSICAL_MAX_def)
    have "live v p" if "ch_id (jc_channels s1 ! p) \<noteq> 0"
      using that keeps_shape [OF s1 p] p by (simp add: live_def)
    then show "okay (keeps v) (do {
          c \<leftarrow> chan s1 p;
          if ch_id c \<noteq> 0 \<and> channel_is_live s1 (Some p) then service_bus ce p s1 else Some s1
        })"
      using s1 service_keeps [OF d s1] by (simp add: keeps_chan(1) [OF s1 p])
  qed
  then show ?thesis using False by (simp add: j2534_core_poll_def)
qed (simp add: j2534_core_poll_def s)

end
