(* ===== verification/J2534Table.thy ===== *)
theory J2534Table
  imports J2534Requests J2534Service
begin

text \<open>
Every request on one channel of the J2534 core answers: the consistency of the table of channels,
  what a checked message guarantees, and for reading, queueing, filters, parameters,
  initialisation sequences, periodic and repeat messages and voltages that from a consistent
  table no access leaves a buffer and the table stays consistent.
\<close>

section \<open>The table of channels\<close>

text \<open>
  Slots below \<open>J2534_PHYSICAL_MAX\<close> are physical: no parent, and the protocol is CAN exactly on a
  CAN bus. The others are logical: ISO 15765 on the CAN channel their parent identifier names.
\<close>

definition physical_role :: "channel \<Rightarrow> bool" where
  "physical_role c \<longleftrightarrow> ch_parent c = 0 \<and> (ch_bus c = VIF_BUS_CAN) = (ch_protocol c = J2534_CAN)"

definition logical_role :: "channel list \<Rightarrow> channel \<Rightarrow> bool" where
  "logical_role cs c \<longleftrightarrow> ch_parent c \<noteq> 0 \<and> ch_protocol c = J2534_ISOTP \<and> ch_bus c = VIF_BUS_CAN \<and>
     list_ex (\<lambda>ph. ch_id ph = ch_parent c \<and> ch_protocol ph = J2534_CAN) (take J2534_PHYSICAL_MAX cs)"

definition roles_ok :: "channel list \<Rightarrow> bool" where
  "roles_ok cs \<longleftrightarrow> length cs = CHANNELS \<and>
     list_all physical_role (take J2534_PHYSICAL_MAX cs) \<and>
     list_all (\<lambda>c. ch_id c \<noteq> 0 \<longrightarrow> logical_role cs c) (drop J2534_PHYSICAL_MAX cs)"

definition table_ok :: "channel list \<Rightarrow> bool" where
  "table_ok cs \<longleftrightarrow> list_all chan_ok cs \<and> roles_ok cs"

definition sound :: "'d j2534 \<Rightarrow> bool" where
  "sound s \<longleftrightarrow> table_ok (jc_channels s)"

definition active :: "nat \<Rightarrow> 'd j2534 \<Rightarrow> bool" where
  "active k s \<longleftrightarrow> k < CHANNELS \<and> ch_id (jc_channels s ! k) \<noteq> 0"

text \<open>What the roles depend on.\<close>

definition role_of :: "channel \<Rightarrow> u32w \<times> u32w \<times> u32w \<times> vif_bus" where
  "role_of c = (ch_id c, ch_parent c, ch_protocol c, ch_bus c)"

lemma list_ex_take: "n \<le> length xs \<Longrightarrow> list_ex P (take n xs) = (\<exists>j<n. P (xs ! j))"
  by (auto simp: list_ex_length)

lemma list_all_take: "n \<le> length xs \<Longrightarrow> list_all P (take n xs) = (\<forall>j<n. P (xs ! j))"
  by (auto simp: list_all_length)

lemma list_all_drop: "n \<le> length xs \<Longrightarrow> list_all P (drop n xs) = (\<forall>j. n \<le> j \<longrightarrow> j < length xs \<longrightarrow> P (xs ! j))"
  by (auto simp: list_all_length) (metis add_diff_inverse_nat diff_less_mono not_le)

lemma roles_iff:
  "roles_ok cs \<longleftrightarrow> length cs = 5 \<and> (\<forall>k<3. physical_role (cs ! k)) \<and>
     (\<forall>k. 3 \<le> k \<longrightarrow> k < 5 \<longrightarrow> ch_id (cs ! k) \<noteq> 0 \<longrightarrow> ch_parent (cs ! k) \<noteq> 0 \<and>
       ch_protocol (cs ! k) = J2534_ISOTP \<and> ch_bus (cs ! k) = VIF_BUS_CAN \<and>
       (\<exists>j<3. ch_id (cs ! j) = ch_parent (cs ! k) \<and> ch_protocol (cs ! j) = J2534_CAN))"
  unfolding roles_ok_def CHANNELS_eq J2534_PHYSICAL_MAX_def logical_role_def
  by (cases "length cs = 5") (simp_all add: list_all_take list_all_drop list_ex_take)

lemma roles_same:
  assumes m: "map role_of cs' = map role_of cs" and r: "roles_ok cs" shows "roles_ok cs'"
proof -
  have l: "length cs = 5" "length cs' = 5" using r m by (auto simp: roles_iff dest: map_eq_imp_length_eq)
  have "role_of (cs' ! k) = role_of (cs ! k)" if "k < 5" for k
    using m l that by (metis nth_map)
  then have same: "ch_id (cs' ! k) = ch_id (cs ! k)" "ch_parent (cs' ! k) = ch_parent (cs ! k)"
      "ch_protocol (cs' ! k) = ch_protocol (cs ! k)" "ch_bus (cs' ! k) = ch_bus (cs ! k)" if "k < 5" for k
    using that by (auto simp: role_of_def)
  have phys: "\<exists>j<3. ch_id (cs' ! j) = p \<and> ch_protocol (cs' ! j) = J2534_CAN"
    if "\<exists>j<3. ch_id (cs ! j) = p \<and> ch_protocol (cs ! j) = J2534_CAN" for p
    using that same by auto
  show ?thesis using r l phys by (simp add: roles_iff physical_role_def same)
qed

lemma roles_at:
  assumes "roles_ok cs"
  shows "length cs = CHANNELS"
    "k < 3 \<Longrightarrow> physical_role (cs ! k)"
    "3 \<le> k \<Longrightarrow> k < CHANNELS \<Longrightarrow> ch_id (cs ! k) \<noteq> 0 \<Longrightarrow> ch_parent (cs ! k) \<noteq> 0 \<and> ch_protocol (cs ! k) = J2534_ISOTP \<and>
       ch_bus (cs ! k) = VIF_BUS_CAN \<and> (\<exists>j<3. ch_id (cs ! j) = ch_parent (cs ! k) \<and> ch_protocol (cs ! j) = J2534_CAN)"
  using assms by (simp_all add: roles_iff CHANNELS_eq)

section \<open>Steps that keep the roles\<close>

definition follows :: "'d j2534 \<Rightarrow> 'd j2534 \<Rightarrow> bool" where
  "follows s s' \<longleftrightarrow> sound s' \<and> map role_of (jc_channels s') = map role_of (jc_channels s)"

lemma sound_keeps: 
  assumes "sound s" shows "keeps (view_of s) s"
proof -
  let ?cs = "jc_channels s"
  have r: "roles_ok ?cs" and ok: "list_all chan_ok ?cs" using assms by (simp_all add: sound_def table_ok_def)
  have l: "length ?cs = 5" using r by (simp add: roles_iff)
  have "\<exists>j<5. ch_id (?cs ! j) = ch_parent (?cs ! k)" if k: "k < 5" "ch_parent (?cs ! k) \<noteq> 0" for k
  proof (cases "k < 3")
    case True
    then show ?thesis using r k by (simp add: roles_iff physical_role_def)
  next
    case False
    have "chan_ok (?cs ! k)" using ok l k(1) by (simp add: list_all_length)
    then have "ch_id (?cs ! k) \<noteq> 0" using k(2) by (auto simp: chan_ok_def channel_zero_def split: if_splits)
    then have "\<exists>j<3. ch_id (?cs ! j) = ch_parent (?cs ! k) \<and> ch_protocol (?cs ! j) = J2534_CAN"
      using r k(1) False by (simp add: roles_iff)
    then obtain j where "j < 3" "ch_id (?cs ! j) = ch_parent (?cs ! k)" by blast
    then show ?thesis by (intro exI [of _ j]) simp
  qed
  then have "parents_ok (map shape_of ?cs)"
    using l by (simp add: parents_ok_def CHANNELS_eq cong: conj_cong)
  then show ?thesis using ok by (simp add: keeps_def view_of_def)
qed

lemma role_shape:
  assumes "map shape_of cs' = map shape_of cs" shows "map role_of cs' = map role_of cs"
proof -
  have "map role_of cs = map (\<lambda>x. (sp_id x, sp_parent x, sp_protocol x, sp_bus x)) (map shape_of cs)" for cs
    by (simp add: role_of_def)
  then show ?thesis by (simp only: assms)
qed

lemma keeps_follows:
  assumes "sound s" "keeps (view_of s) s'" shows "follows s s'"
proof -
  have "map role_of (jc_channels s') = map role_of (jc_channels s)"
    using assms(2) by (intro role_shape) (simp add: keeps_def view_of_def)
  then show ?thesis using assms roles_same
    by (auto simp: follows_def sound_def table_ok_def keeps_def)
qed

lemma keeps_response: "keeps (view_of s) s' \<Longrightarrow> jc_response s' = jc_response s \<and> jc_next_id s' = jc_next_id s"
  by (simp add: keeps_def view_of_def)

lemma follows_refl: "sound s \<Longrightarrow> follows s s"
  by (simp add: follows_def)

lemma follows_trans: "follows a b \<Longrightarrow> follows b c \<Longrightarrow> follows a c"
  by (simp add: follows_def)

lemma follows_sound: "follows s s' \<Longrightarrow> sound s'"
  by (simp add: follows_def)

lemma follows_role:
  assumes "follows s s'" "k < CHANNELS" "sound s"
  shows "role_of (jc_channels s' ! k) = role_of (jc_channels s ! k)"
proof -
  have "length (jc_channels s) = CHANNELS" "length (jc_channels s') = CHANNELS"
    using assms(1,3) roles_at(1) by (auto simp: follows_def sound_def table_ok_def)
  then have "role_of (jc_channels s' ! k) = map role_of (jc_channels s') ! k"
    "role_of (jc_channels s ! k) = map role_of (jc_channels s) ! k" using assms(2) by simp_all
  then show ?thesis using assms(1) by (simp only: follows_def)
qed

lemma follows_active: "follows s s' \<Longrightarrow> sound s \<Longrightarrow> active k s \<Longrightarrow> active k s'"
  using follows_role [of s s' k] by (auto simp: active_def role_of_def)

lemma active_live: "sound s \<Longrightarrow> active k s \<Longrightarrow> live (view_of s) k"
  using sound_keeps [of s] keeps_shape [of "view_of s" s k] by (simp add: active_def live_def)

lemma active_facts:
  assumes "sound s" "active k s"
  shows "chan s k = Some (jc_channels s ! k)" "live_ok (jc_channels s ! k)" "k < length (jc_channels s)"
  using keeps_live [OF sound_keeps [OF assms(1)] active_live [OF assms]] assms roles_at(1)
  by (auto simp: sound_def table_ok_def active_def)

text \<open>Nothing but the environment, the response or the counter changes.\<close>

lemma sound_other [simp]:
  "sound (s\<lparr>jc_vif := gd\<rparr>) = sound s" "sound (respond f s) = sound s" "sound (fst (new_id s)) = sound s"
  "sound (s\<lparr>jc_next_id := n\<rparr>) = sound s" "sound (s\<lparr>jc_voltage_pin := z\<rparr>) = sound s"
  "sound (s\<lparr>jc_device := e\<rparr>) = sound s" "sound (s\<lparr>jc_last_error := e\<rparr>) = sound s" "sound (s\<lparr>jc_response := r\<rparr>) = sound s"
  by (simp_all add: sound_def respond_def new_id_def Let_def)

lemma channels_other [simp]:
  "jc_channels (respond f s) = jc_channels s" "jc_channels (fst (new_id s)) = jc_channels s"
  "jc_channels (fst (vif_do g s)) = jc_channels s" "jc_channels (vif_upd h s) = jc_channels s"
  "jc_channels (fst (now_us ce s)) = jc_channels s"
  by (simp_all add: respond_def new_id_def vif_do_def vif_upd_def now_us_def Let_def case_prod_beta)

lemma follows_other [simp]:
  "follows s (s'\<lparr>jc_vif := gd\<rparr>) = follows s s'" "follows s (respond f s') = follows s s'"
  "follows s (fst (new_id s')) = follows s s'" "follows s (fst (vif_do g s')) = follows s s'"
  "follows s (vif_upd h s') = follows s s'" "follows s (fst (now_us ce s')) = follows s s'"
  "follows s (s'\<lparr>jc_response := r\<rparr>) = follows s s'"
  by (simp_all add: follows_def sound_def)

lemma follows_upd:
  assumes s: "sound s" and k: "active k s"
    and f: "live_ok (jc_channels s ! k) \<Longrightarrow>
      okay (\<lambda>c'. live_ok c' \<and> role_of c' = role_of (jc_channels s ! k)) (f (jc_channels s ! k))"
  shows "okay (follows s) (upd_opt k f s)"
proof -
  note A = active_facts [OF s k]
  obtain c' where c': "f (jc_channels s ! k) = Some c'" "live_ok c'" "role_of c' = role_of (jc_channels s ! k)"
    using f [OF A(2)] by (auto simp: okay_def)
  have "chan_ok c'" using c'(2,3) k by (simp add: chan_ok_def role_of_def active_def)
  moreover have m: "map role_of ((jc_channels s)[k := c']) = map role_of (jc_channels s)"
    using c'(3) A(3) by (simp add: map_update list_update_same_conv)
  ultimately have "table_ok ((jc_channels s)[k := c'])"
    using s roles_same [OF m] by (auto simp: sound_def table_ok_def list_all_iff dest: set_update_subset_insert [THEN subsetD])
  then show ?thesis using m by (simp add: upd_opt_def A(1) c'(1) follows_def sound_def)
qed

section \<open>Checking a message\<close>

definition fitting :: "channel \<Rightarrow> u32w \<Rightarrow> byte list \<Rightarrow> nat \<Rightarrow> bool \<Rightarrow> bool" where
  "fitting c flags data len periodic \<longleftrightarrow> 0 < len \<and> len \<le> J2534_DATA_MAX \<and>
     (ch_parent c = 0 \<and> ch_bus c = VIF_BUS_CAN \<longrightarrow> 4 \<le> len \<and> len \<le> 12) \<and>
     (ch_parent c \<noteq> 0 \<longrightarrow> 4 \<le> len \<and> can_id_valid data flags = Some True) \<and> (periodic \<longrightarrow> len \<le> 12)"

text \<open>Only the environment moves.\<close>

definition env_step :: "'d j2534 \<Rightarrow> 'd j2534 \<Rightarrow> bool" where
  "env_step s s' \<longleftrightarrow> s' = s\<lparr>jc_vif := jc_vif s'\<rparr>"

lemma env_steps [simp]:
  "env_step s s" "env_step s (s\<lparr>jc_vif := gd\<rparr>)" "env_step s (fst (vif_do f s))" "env_step s (fst (now_us ce s))"
  by (simp_all add: env_step_def vif_do_def now_us_def case_prod_beta)

lemma channels_vif: "jc_channels (s\<lparr>jc_vif := gd\<rparr>) = jc_channels s"
  and response_vif: "jc_response (s\<lparr>jc_vif := gd\<rparr>) = jc_response s"
  by simp_all

lemma env_step_fields:
  "env_step s s' \<Longrightarrow> sound s' = sound s \<and> active k s' = active k s \<and> jc_channels s' = jc_channels s \<and>
     jc_response s' = jc_response s \<and> follows u s' = follows u s"
  unfolding env_step_def by (metis channels_vif sound_other(1) follows_other(1) active_def response_vif)

lemma can_id_okay: "4 \<le> length data \<Longrightarrow> \<exists>b. can_id_valid data flags = Some b"
  using be32_okay [of data] by (auto simp: can_id_valid_def)

lemma validate_can_okay:
  assumes "len \<le> length data" "0 < len" "len \<le> J2534_DATA_MAX" "length (ch_remote c) = 5"
  shows "okay (\<lambda>rc. rc = J2534_OK \<longrightarrow> fitting c flags data len periodic) (validate_can c (Some ph) flags data len periodic)"
proof (cases "len < 4")
  case True
  then show ?thesis by (simp add: validate_can_def Let_def)
next
  case False
  then have "4 \<le> length data" using assms(1) by simp
  then obtain b where b: "can_id_valid data flags = Some b" using can_id_okay by blast
  have head: "\<exists>e. (if len - a \<le> 7 - (a - 4) then Some False
      else if flags \<noteq> ch_remote_flags c then Some True
      else do { head \<leftarrow> load_at data 0 a; remote \<leftarrow> load_at (ch_remote c) 0 a; Some (head \<noteq> remote) }) = Some e"
    if "a = 4 \<or> a = 5" for a
    using that assms(1,4) False by (auto simp: load_at_def)
  show ?thesis
  proof (cases "ch_parent c = 0")
    case True
    then show ?thesis using b False assms(2,3) by (auto simp: validate_can_def Let_def fitting_def)
  next
    case p: False
    obtain a where a: "(if True \<and> flags AND J2534_ADDR \<noteq> 0 then 5 else 4 :: nat) = a" "a = 4 \<or> a = 5" by simp
    obtain e where e: "(if len - a \<le> 7 - (a - 4) then Some False
      else if flags \<noteq> ch_remote_flags c then Some True
      else do { head \<leftarrow> load_at data 0 a; remote \<leftarrow> load_at (ch_remote c) 0 a; Some (head \<noteq> remote) }) = Some e"
      using head [OF a(2)] by blast
    have True: "(ch_parent c \<noteq> 0) = True" using p by simp
    show ?thesis
      unfolding validate_can_def Let_def True a(1) b Option.bind.bind_lunit e
      using p assms(2,3) a(2) by (auto simp: fitting_def b)
  qed
qed

lemma validate_j1850_okay:
  assumes "len \<le> length data" "0 < len" "len \<le> J2534_DATA_MAX" "ch_parent c = 0" "ch_bus c \<noteq> VIF_BUS_CAN"
  shows "okay (\<lambda>(s', rc). env_step s s' \<and> (rc = J2534_OK \<longrightarrow> fitting c flags data len periodic))
    (validate_j1850 ce c flags data len s)"
proof -
  obtain gd rc node where g: "vif_bus_param_get (ce_vif ce) (ce_me ce) VIF_OWNER_LINK (ch_bus c)
      (bus_param_num BUS_P_NODE_ADDRESS) (jc_vif s) = (gd, rc, node)" by (metis surj_pair)
  have node: "rc = 0 \<Longrightarrow> node \<noteq> None"
    using g by (cases "jc_vif s") (auto simp: vif_bus_param_get_def Let_def VIF_ERR_NO_CLAIM_def BUS_ERR_UNSUPPORTED_def
        split: option.splits if_splits prod.splits)
  show ?thesis
    using assms node
    by (auto simp: validate_j1850_def Let_def vif_do_def g [simplified] fitting_def split: option.split)
qed

lemma validate_iso_okay:
  assumes "len \<le> length data" "0 < len"
  shows "\<exists>rc. validate_iso14230 c data len = Some rc"
  using assms by (auto simp: validate_iso14230_def Let_def get_at_def)

lemma validate_okay:
  assumes s: "sound s" and k: "active k s" and len: "len \<le> length data"
  shows "okay (\<lambda>(s', rc). env_step s s' \<and>
      (rc = J2534_OK \<longrightarrow> fitting (jc_channels s ! k) flags data len periodic))
    (validate_message ce k protocol flags data len periodic s)"
proof -
  let ?c = "jc_channels s ! k"
  note A = active_facts [OF s k]
  have r: "roles_ok (jc_channels s)" using s by (simp add: sound_def table_ok_def)
  have bus: "ch_bus ?c = VIF_BUS_CAN \<Longrightarrow> ch_parent ?c = 0 \<Longrightarrow> ch_protocol ?c = J2534_CAN"
    using roles_at(2,3) [OF r, of k] k by (cases "k < 3") (auto simp: active_def physical_role_def)
  obtain p where p: "physical_channel s k = Some p" "live (view_of s) p"
    using physical_exists [OF sound_keeps [OF s] active_live [OF s k]] by blast
  have ph: "Option.bind (physical_channel s k) (chan s) = Some (jc_channels s ! p)"
    using p keeps_live(1) [OF sound_keeps [OF s] p(2)] by simp
  consider (none) "protocol \<noteq> ch_protocol ?c \<or> len = 0 \<or> len > J2534_DATA_MAX"
    | (can) "protocol = ch_protocol ?c" "0 < len" "len \<le> J2534_DATA_MAX" "ch_protocol ?c = J2534_CAN \<or> ch_parent ?c \<noteq> 0"
    | (raw) "protocol = ch_protocol ?c" "0 < len" "len \<le> J2534_DATA_MAX" "ch_protocol ?c \<noteq> J2534_CAN" "ch_parent ?c = 0"
    by fastforce
  then show ?thesis
  proof cases
    case none
    then show ?thesis by (auto simp: validate_message_def A(1))
  next
    case can
    have "length (ch_remote ?c) = 5" using A(2) by (simp add: live_ok_def)
    from validate_can_okay [OF len can(2,3) this, of flags periodic "jc_channels s ! p"]
    have "okay (\<lambda>(s', rc). env_step s s' \<and> (rc = J2534_OK \<longrightarrow> fitting ?c flags data len periodic))
       (do { rc \<leftarrow> validate_can ?c (Some (jc_channels s ! p)) flags data len periodic; Some (s, rc) })"
      by (auto elim!: okay_bind)
    then show ?thesis using can by (auto simp: validate_message_def A(1) ph)
  next
    case raw
    then have b: "ch_bus ?c \<noteq> VIF_BUS_CAN" using bus by blast
    have "okay (\<lambda>rc. rc = J2534_OK \<longrightarrow> fitting ?c flags data len periodic) (validate_kline ?c flags data len periodic)"
      using validate_iso_okay [OF len raw(2), of ?c] raw b by (auto simp: validate_kline_def fitting_def)
    then have kl: "okay (\<lambda>(s', rc). env_step s s' \<and> (rc = J2534_OK \<longrightarrow> fitting ?c flags data len periodic))
       (do { rc \<leftarrow> validate_kline ?c flags data len periodic; Some (s, rc) })"
      by (auto elim!: okay_bind)
    show ?thesis
      using raw validate_j1850_okay [OF len raw(2,3,5) b, of s flags periodic ce] kl
      by (simp add: validate_message_def A(1))
  qed
qed

section \<open>Requests on one channel\<close>

text \<open>A request that answers leaves the table sound.\<close>

definition answers :: "('d j2534 \<times> 'a) option \<Rightarrow> bool" where
  "answers x \<longleftrightarrow> okay (\<lambda>(s, _). sound s) x"

lemma answers_Some [simp]: "answers (Some (s, a)) = sound s"
  by (simp add: answers_def)

lemma answers_bind: "okay Q x \<Longrightarrow> (\<And>y. Q y \<Longrightarrow> answers (f y)) \<Longrightarrow> answers (Option.bind x f)"
  unfolding answers_def by (rule okay_bind)

lemma answers_if: "(b \<Longrightarrow> answers x) \<Longrightarrow> (\<not> b \<Longrightarrow> answers y) \<Longrightarrow> answers (if b then x else y)"
  by simp

definition pb_ok :: "nat \<Rightarrow> pb_array \<Rightarrow> bool" where
  "pb_ok n a \<longleftrightarrow> length (pb_bytes a) = n \<and> pb_size a \<le> n"

lemma pb_load: "pb_ok n a \<Longrightarrow> load_at (pb_bytes a) 0 (pb_size a) = Some (take (pb_size a) (pb_bytes a))"
  by (simp add: pb_ok_def load_at_def)

lemma follows_okay_sound: "okay (follows s) x \<Longrightarrow> okay sound x"
  by (erule okay_mono) (simp add: follows_sound)

subsection \<open>Reading and queueing\<close>

lemma ring_take_fields:
  assumes "ring_take c = Some (c', rc, m)"
  shows "\<exists>h u x. c' = c\<lparr>ch_rx_head := h, ch_rx_used := u, ch_overflow := x\<rparr>"
proof (cases "ch_rx_used c = 0")
  case True
  then have "c' = c\<lparr>ch_rx_head := ch_rx_head c, ch_rx_used := ch_rx_used c, ch_overflow := False\<rparr>"
    using assms by (auto simp: ring_take_def split: if_splits)
  then show ?thesis by blast
next
  case False
  then have "\<exists>h u. c' = c\<lparr>ch_rx_head := h, ch_rx_used := u, ch_overflow := ch_overflow c\<rparr>"
    using assms by (auto simp: ring_take_def Let_def split: Option.bind_splits)
  then show ?thesis by blast
qed

lemma live_take:
  "live_ok c \<Longrightarrow> ring_holds (c\<lparr>ch_rx_head := h, ch_rx_used := u, ch_overflow := x\<rparr>) q \<Longrightarrow>
   live_ok (c\<lparr>ch_rx_head := h, ch_rx_used := u, ch_overflow := x\<rparr>)"
  by (auto simp: live_ok_def tx_fits_def logical_ok_def address_len_def)

lemma role_upd [simp]:
  "role_of (c\<lparr>ch_rx := x1\<rparr>) = role_of c" "role_of (c\<lparr>ch_tx := x2\<rparr>) = role_of c"
  "role_of (c\<lparr>ch_assembly := x3\<rparr>) = role_of c" "role_of (c\<lparr>ch_rx_head := x4\<rparr>) = role_of c"
  "role_of (c\<lparr>ch_rx_used := x5\<rparr>) = role_of c" "role_of (c\<lparr>ch_tx_len := x6\<rparr>) = role_of c"
  "role_of (c\<lparr>ch_overflow := x7\<rparr>) = role_of c" "role_of (c\<lparr>ch_tx_active := x8\<rparr>) = role_of c"
  "role_of (c\<lparr>ch_link_down := x9\<rparr>) = role_of c" "role_of (c\<lparr>ch_filters := x10\<rparr>) = role_of c"
  "role_of (c\<lparr>ch_scheduler := x11\<rparr>) = role_of c" "role_of (c\<lparr>ch_flags := x12\<rparr>) = role_of c"
  "role_of (c\<lparr>ch_rate := x13\<rparr>) = role_of c" "role_of (c\<lparr>ch_echo := x14\<rparr>) = role_of c"
  "role_of (c\<lparr>ch_flow_control_pending := x15\<rparr>) = role_of c" "role_of (c\<lparr>ch_rx_generation := x16\<rparr>) = role_of c"
  "role_of (c\<lparr>ch_config := x17\<rparr>) = role_of c" "role_of (c\<lparr>ch_iso_rx := x18\<rparr>) = role_of c"
  "role_of (c\<lparr>ch_iso_tx := x19\<rparr>) = role_of c" "role_of (c\<lparr>ch_tx_timeout_a_us := x20\<rparr>) = role_of c"
  by (simp_all add: role_of_def)

lemma read_answers:
  assumes s: "sound s" and k: "active k s"
  shows "answers (read_message k s)"
proof -
  let ?c = "jc_channels s ! k"
  note A = active_facts [OF s k]
  obtain q where "ring_holds ?c q" using A(2) by (auto simp: live_ok_def)
  then have "ring_abs ?c (q, ch_overflow ?c)" by (simp add: ring_abs_def)
  from ring_take_abs [OF this] obtain c' rc m q' where
    t: "ring_take ?c = Some (c', rc, m)" "ring_holds c' q'"
    by (metis ring_abs_def surj_pair)
  from ring_take_fields [OF t(1)] obtain h u x where
    f: "c' = ?c\<lparr>ch_rx_head := h, ch_rx_used := u, ch_overflow := x\<rparr>" by blast
  have "live_ok c'" using live_take [OF A(2)] t(2) f by simp
  then have "okay (follows s) (upd k (\<lambda>_. c') s)"
    unfolding upd_def using f by (intro follows_upd [OF s k]) simp
  then show ?thesis
    unfolding read_message_def A(1) Option.bind.bind_lunit t(1) prod.case
    by (rule answers_bind) (auto dest: follows_sound split: option.split)
qed

lemma put32_okay: "p + 4 \<le> length b \<Longrightarrow> \<exists>b'. j2534_put32 b p x = Some b' \<and> length b' = length b"
  by (simp add: put32_store le32_def)

lemma live_store:
  assumes "live_ok c" "length tx = TX_BYTES" "fitting c flags data n False"
  shows "live_ok (c\<lparr>ch_tx := tx, ch_tx_len := MSG_HEADER + n\<rparr>)"
  using assms by (auto simp: live_parts fitting_def TX_BYTES_def)

lemma store_tx_live:
  assumes c: "live_ok c" and m: "pb_ok J2534_DATA_MAX (om_data m)"
    and f: "fitting c flags data (pb_size (om_data m)) False"
  shows "okay (\<lambda>c'. live_ok c' \<and> role_of c' = role_of c) (store_tx m c)"
proof -
  have l: "length (ch_tx c) = TX_BYTES" using c by (simp add: live_ok_def)
  have big: "28 \<le> TX_BYTES" by (simp add: ring_sizes)
  obtain t0 where 0: "store_at (ch_tx c) 0 (replicate MSG_HEADER 0) = Some t0" "length t0 = TX_BYTES"
    using l by (simp add: store_at_def ring_sizes)
  obtain t1 where 1: "j2534_put32 t0 0 (om_protocol m) = Some t1" "length t1 = TX_BYTES"
    using put32_okay [of 0 t0] 0 big by auto
  obtain t2 where 2: "j2534_put32 t1 4 (om_handle m) = Some t2" "length t2 = TX_BYTES"
    using put32_okay [of 4 t1] 1 big by auto
  obtain t3 where 3: "j2534_put32 t2 12 (om_tx_flags m) = Some t3" "length t3 = TX_BYTES"
    using put32_okay [of 12 t2] 2 big by auto
  obtain t4 where 4: "store_at t3 MSG_HEADER (take (pb_size (om_data m)) (pb_bytes (om_data m))) = Some t4" "length t4 = TX_BYTES"
    using 3(2) m by (auto simp: store_at_def pb_ok_def TX_BYTES_def)
  show ?thesis
    unfolding store_tx_def 0(1) 1(1) 2(1) 3(1) Option.bind.bind_lunit pb_load [OF m] 4(1)
    using live_store [OF c 4(2) f] by simp
qed

definition message_ok :: "message option \<Rightarrow> bool" where
  "message_ok mp \<longleftrightarrow> (case mp of None \<Rightarrow> True | Some m \<Rightarrow> pb_ok J2534_DATA_MAX (om_data m))"

lemma queue_answers:
  assumes s: "sound s" and k: "active k s" and m: "message_ok (qu_message r)"
  shows "answers (queue_message ce k r s)"
proof (cases "qu_message r")
  case None
  then show ?thesis using s by (simp add: queue_message_def)
next
  case (Some m)
  have ok: "pb_ok J2534_DATA_MAX (om_data m)" using assms(3) Some by (simp add: message_ok_def)
  have len: "pb_size (om_data m) \<le> length (pb_bytes (om_data m))" using ok by (simp add: pb_ok_def)
  show ?thesis
    unfolding queue_message_def Some option.case
  proof (rule answers_bind [OF validate_okay [OF s k len]], clarify)
    fix s1 rc assume e: "env_step s s1"
      and f: "rc = J2534_OK \<longrightarrow> fitting (jc_channels s ! k) (om_tx_flags m) (pb_bytes (om_data m)) (pb_size (om_data m)) False"
    have s1: "sound s1" "active k s1" "jc_channels s1 = jc_channels s" using env_step_fields [OF e] s k by simp_all
    have st: "okay (follows s1) (upd_opt k (store_tx m) s1)" if "rc = J2534_OK"
      using f that store_tx_live [OF _ ok] s1(3) by (intro follows_upd [OF s1(1,2)]) simp
    show "answers (if rc \<noteq> J2534_OK then Some (s1, rc)
         else do {
           c \<leftarrow> chan s1 k;
           if ch_tx_len c \<noteq> 0 then Some (s1, J2534_FULL)
           else do {
             s \<leftarrow> upd_opt k (store_tx m) s1;
             Some (respond (\<lambda>r. r\<lparr>rp_count := 1\<rparr>) s, J2534_OK)
           }
         })"
      using s1(1) by (auto simp: active_facts(1) [OF s1(1,2)] dest: follows_sound intro!: answers_bind [OF st])
  qed
qed

subsection \<open>Filters\<close>

definition filter_request_ok :: "req_filter \<Rightarrow> bool" where
  "filter_request_ok r \<longleftrightarrow> pb_ok 12 (fi_mask r) \<and> pb_ok 12 (fi_pattern r)"

lemma live_filters:
  "live_ok c \<Longrightarrow> length fs = J2534_FILTER_MAX \<Longrightarrow> list_all filter_ok fs \<Longrightarrow> live_ok (c\<lparr>ch_filters := fs\<rparr>)"
  by (simp add: live_parts)

lemma filter_zero_ok [simp]: "filter_ok filter_zero"
  by (simp add: filter_ok_def filter_zero_def)

lemma new_filter_ok:
  assumes "filter_request_ok r" "pb_size (fi_pattern r) = pb_size (fi_mask r)" "fi_type r = FILTER_PASS \<or> fi_type r = FILTER_BLOCK"
  shows "okay filter_ok (new_filter n r)"
  using assms by (auto simp: new_filter_def filter_request_ok_def pb_ok_def filter_zero_def filter_ok_def)

lemma put_filter:
  assumes s: "sound s" and k: "active k s" and i: "i < J2534_FILTER_MAX" and f: "filter_ok f"
  shows "okay (follows s) (upd_opt k (\<lambda>c. do { fs \<leftarrow> set_at (ch_filters c) i f; Some (c\<lparr>ch_filters := fs\<rparr>) }) s)"
proof (rule follows_upd [OF s k])
  let ?c = "jc_channels s ! k"
  assume c: "live_ok ?c"
  then have l: "length (ch_filters ?c) = J2534_FILTER_MAX" "list_all filter_ok (ch_filters ?c)" by (simp_all add: live_ok_def)
  then have "list_all filter_ok ((ch_filters ?c)[i := f])"
    using f by (auto simp: list_all_iff dest: set_update_subset_insert [THEN subsetD])
  then show "okay (\<lambda>c'. live_ok c' \<and> role_of c' = role_of ?c)
      (do { fs \<leftarrow> set_at (ch_filters ?c) i f; Some (?c\<lparr>ch_filters := fs\<rparr>) })"
    using l i c by (simp add: live_filters)
qed

lemma find_upt: "find P [0..<n] = Some i \<Longrightarrow> i < n \<and> P i"
  by (auto simp: find_Some_iff)

lemma active_new_id [simp]:
  "active k (fst (new_id s)) = active k s" "active k (fst (now_us ce s)) = active k s" "active k (respond f s) = active k s"
  by (simp_all add: active_def)

lemma new_id_E:
  obtains s' n where "new_id s = (s', n)" "s' = fst (new_id s)" "n \<noteq> 0"
  by (auto simp: new_id_def Let_def)

lemma start_filter_answers:
  assumes s: "sound s" and k: "active k s" and r: "filter_request_ok r"
  shows "answers (start_filter k r s)"
proof -
  let ?c = "jc_channels s ! k"
  note A = active_facts [OF s k]
  obtain s1 n where n: "new_id s = (s1, n)" "s1 = fst (new_id s)" using new_id_E .
  have s1: "sound s1" "active k s1" using n(2) s k by simp_all
  have put: "answers (do {
           f \<leftarrow> new_filter n r;
           s \<leftarrow> upd_opt k (\<lambda>c. do { fs \<leftarrow> set_at (ch_filters c) i f; Some (c\<lparr>ch_filters := fs\<rparr>) }) s1;
           Some (respond (\<lambda>r. r\<lparr>rp_id := n\<rparr>) s, J2534_OK) })"
    if "find (\<lambda>i. ft_id (ch_filters ?c ! i) = 0) [0..<J2534_FILTER_MAX] = Some i"
      "pb_size (fi_pattern r) = pb_size (fi_mask r)" "fi_type r = FILTER_PASS \<or> fi_type r = FILTER_BLOCK" for i
    by (rule answers_bind [OF new_filter_ok [OF r that(2,3)]],
      rule answers_bind [OF put_filter [OF s1 conjunct1 [OF find_upt [OF that(1)]]]])
      (auto dest: follows_sound)
  show ?thesis
    unfolding start_filter_def A(1) Option.bind.bind_lunit Let_def n(1) prod.case
    using s put by (auto split: option.split)
qed

lemma stop_filter_answers:
  assumes s: "sound s" and k: "active k s"
  shows "answers (stop_filter k n s)"
  unfolding stop_filter_def active_facts(1) [OF s k] Option.bind.bind_lunit
  using s by (auto split: option.split intro!: answers_bind [OF put_filter [OF s k]] dest: find_upt follows_sound)

subsection \<open>Configuration\<close>

lemma live_config:
  assumes "live_ok c" "valid_config cfg" "addr_len cfg = addr_len (ch_config c)"
  shows "live_ok (c\<lparr>ch_config := cfg, ch_tx_timeout_a_us := t\<rparr>)"
  using assms by (simp add: live_parts)

lemma param_value_bounds:
  assumes "\<not> logical_param_refused param value"
  shows "param = CONFIG_ISOTP_STMIN \<Longrightarrow> (ucast value :: byte) \<le> 0x7f \<or> (0xf1 \<le> (ucast value :: byte) \<and> (ucast value :: byte) \<le> 0xf9)"
    "CONFIG_N_AS_MAX \<le> param \<Longrightarrow> value * 1000 \<noteq> 0 \<and> value * 1000 \<le> INT32_MAX"
proof -
  assume p: "param = CONFIG_ISOTP_STMIN"
  then have "value \<le> 255" "value \<le> 0x7f \<or> (0xf1 \<le> value \<and> value \<le> 0xf9)"
    using assms by (auto simp: logical_param_refused_def logical_params)
  then show "(ucast value :: byte) \<le> 0x7f \<or> (0xf1 \<le> (ucast value :: byte) \<and> (ucast value :: byte) \<le> 0xf9)"
    by (simp add: word_le_nat_alt unsigned_ucast_eq take_bit_nat_eq_self)
next
  assume "CONFIG_N_AS_MAX \<le> param"
  then have v: "value \<noteq> 0" "value \<le> 60000"
    using assms by (auto simp: logical_param_refused_def not_less)
  then have "0 < unat value" "unat value \<le> 60000" by (simp_all add: word_le_nat_alt unat_gt_0)
  moreover have "unat (value * 1000) = unat value * 1000" using calculation by (simp add: unat_word_ariths)
  ultimately show "value * 1000 \<noteq> 0 \<and> value * 1000 \<le> INT32_MAX"
    by (auto simp: word_le_nat_alt INT32_MAX_def simp flip: unat_eq_0)
qed

lemma valid_upd [simp]:
  "valid_config (cfg\<lparr>cfg_block_size := x1\<rparr>) = valid_config cfg" "valid_config (cfg\<lparr>wait_limit := x2\<rparr>) = valid_config cfg"
  "valid_config (cfg\<lparr>pad_value := x3\<rparr>) = valid_config cfg"
  "valid_config cfg \<Longrightarrow> x4 \<le> 0x7f \<or> 0xf1 \<le> x4 \<and> x4 \<le> 0xf9 \<Longrightarrow> valid_config (cfg\<lparr>stmin := x4\<rparr>)"
  "valid_config cfg \<Longrightarrow> x5 \<noteq> 0 \<and> x5 \<le> INT32_MAX \<Longrightarrow> valid_config (cfg\<lparr>timeout_a_us := x5\<rparr>)"
  "valid_config cfg \<Longrightarrow> x5 \<noteq> 0 \<and> x5 \<le> INT32_MAX \<Longrightarrow> valid_config (cfg\<lparr>timeout_bs_us := x5\<rparr>)"
  "valid_config cfg \<Longrightarrow> x5 \<noteq> 0 \<and> x5 \<le> INT32_MAX \<Longrightarrow> valid_config (cfg\<lparr>timeout_cr_us := x5\<rparr>)"
  by (simp_all add: valid_config_def)

definition reconfigured :: "channel \<Rightarrow> channel \<Rightarrow> bool" where
  "reconfigured c c' \<longleftrightarrow> (\<exists>cfg t. c' = c\<lparr>ch_config := cfg, ch_tx_timeout_a_us := t\<rparr> \<and> valid_config cfg \<and>
     extended_address cfg = extended_address (ch_config c))"

lemma reconfigured_intros:
  "valid_config cfg \<Longrightarrow> extended_address cfg = extended_address (ch_config c) \<Longrightarrow> reconfigured c (c\<lparr>ch_config := cfg\<rparr>)"
  "valid_config (ch_config c) \<Longrightarrow> reconfigured c (c\<lparr>ch_tx_timeout_a_us := t\<rparr>)"
  "valid_config (ch_config c) \<Longrightarrow> reconfigured c c"
  unfolding reconfigured_def
  by (rule exI [of _ cfg], rule exI [of _ "ch_tx_timeout_a_us c"], simp)
    (rule exI [of _ "ch_config c"], rule exI [of _ t], simp,
     rule exI [of _ "ch_config c"], rule exI [of _ "ch_tx_timeout_a_us c"], simp)

lemma param_set_config:
  assumes "\<not> logical_param_refused param value" "valid_config (ch_config c)"
  shows "reconfigured c (logical_param_set c param value)"
proof -
  note b = param_value_bounds [OF assms(1)]
  have time: "value * 1000 \<noteq> 0 \<and> value * 1000 \<le> INT32_MAX"
    if "param = CONFIG_N_AR_MAX \<or> param = CONFIG_N_BS_MAX \<or> param = CONFIG_N_CR_MAX"
    using that by (intro b(2)) (auto simp: logical_params)
  show ?thesis
    unfolding logical_param_set_def Let_def
    by (simp only: if_split) (intro conjI impI reconfigured_intros; simp add: assms(2) b(1) time)
qed

lemma rx_reset_fits: "rx_fits rx \<Longrightarrow> rx_fits (iso_rx_reset cfg rx)"
proof -
  assume r: "rx_fits rx"
  then have b: "buffer_ok (rx_buffer rx) ISOTP_MAX_PAYLOAD" by (auto simp: rx_fits_def rx_wf_def)
  show "rx_fits (iso_rx_reset cfg rx)"
  proof (cases "isotp_rx_init cfg (rx_buffer rx) ISOTP_MAX_PAYLOAD")
    case (Inr rx')
    then show ?thesis using rx_wf_init [OF Inr b] r
      by (auto simp: iso_rx_reset_def rx_fits_def isotp_rx_init_def split: if_splits)
  qed (simp add: iso_rx_reset_def r)
qed

lemma live_rx_reset: "live_ok c \<Longrightarrow> live_ok (c\<lparr>ch_iso_rx := iso_rx_reset cfg (ch_iso_rx c)\<rparr>)"
  by (rule live_iso_rx_if) (use rx_reset_fits [of "ch_iso_rx c" cfg] logical_rx_fits [of c] in \<open>simp_all add: rx_fits_def\<close>)

lemma param_set_live:
  assumes "live_ok c" "ch_parent c \<noteq> 0" "\<not> logical_param_refused param value"
  shows "live_ok (let c = logical_param_set c param value in c\<lparr>ch_iso_rx := iso_rx_reset (ch_config c) (ch_iso_rx c)\<rparr>) \<and>
    role_of (let c = logical_param_set c param value in c\<lparr>ch_iso_rx := iso_rx_reset (ch_config c) (ch_iso_rx c)\<rparr>) = role_of c"
proof -
  have "valid_config (ch_config c)" using live_logical [OF assms(1,2)] by (simp add: logical_ok_def)
  from param_set_config [OF assms(3) this, unfolded reconfigured_def] obtain cfg t where
    p: "logical_param_set c param value = c\<lparr>ch_config := cfg, ch_tx_timeout_a_us := t\<rparr>" "valid_config cfg"
    "extended_address cfg = extended_address (ch_config c)" by blast
  have "live_ok (c\<lparr>ch_config := cfg, ch_tx_timeout_a_us := t\<rparr>)"
    using assms(1) p(2,3) by (intro live_config) (simp_all add: addr_len_def)
  from live_rx_reset [OF this, of cfg] show ?thesis using p by (simp add: role_of_def)
qed

lemma keeps_other [simp]: "keeps v (s\<lparr>jc_last_error := e\<rparr>) = keeps v s" "keeps v (s\<lparr>jc_voltage_pin := z\<rparr>) = keeps v s"
  by (simp_all add: keeps_def view_of_def)

lemma keeps_param_set [simp]: "keeps v (fst (param_set ce bus p x s)) = keeps v s"
  by (simp add: param_set_def)

lemma param_set_E:
  assumes "keeps v s" obtains s' rc where "param_set ce bus p x s = (s', rc)" "keeps v s'"
  using assms keeps_param_set [of v ce bus p x s] by (metis prod.collapse)

lemma okay_if: "(b \<Longrightarrow> okay P x) \<Longrightarrow> (\<not> b \<Longrightarrow> okay P y) \<Longrightarrow> okay P (if b then x else y)"
  by simp

text \<open>A parameter changes what the host has set, but neither the roles nor the response.\<close>

definition configured :: "'d j2534 \<Rightarrow> 'd j2534 \<Rightarrow> bool" where
  "configured s s' \<longleftrightarrow> follows s s' \<and> jc_response s' = jc_response s"

lemma configured_step:
  "sound s \<Longrightarrow> env_step s s' \<Longrightarrow> configured s s'"
  "configured a b \<Longrightarrow> configured b c \<Longrightarrow> configured a c"
  using env_step_fields [of s s'] by (auto simp: configured_def follows_def)

lemma configured_upd:
  assumes s: "sound s" and k: "active k s"
    and f: "live_ok (jc_channels s ! k) \<Longrightarrow> live_ok (f (jc_channels s ! k)) \<and> role_of (f (jc_channels s ! k)) = role_of (jc_channels s ! k)"
  shows "okay (configured s) (upd k f s)"
proof -
  have "okay (follows s) (upd k f s)" unfolding upd_def using f by (intro follows_upd [OF s k]) simp
  moreover have "jc_response s' = jc_response s" if "upd k f s = Some s'" for s'
    using that by (auto simp: upd_def upd_opt_def bind_eq_Some_conv)
  ultimately show ?thesis by (auto simp: okay_def configured_def)
qed

lemma configure_logical_okay:
  assumes s: "sound s" and k: "active k s" and p: "ch_parent (jc_channels s ! k) \<noteq> 0"
  shows "okay (\<lambda>(s', _, _). configured s s') (configure_logical k w param value s)"
proof -
  have set: "okay (configured s) (upd k (\<lambda>c. let c = logical_param_set c param value
      in c\<lparr>ch_iso_rx := iso_rx_reset (ch_config c) (ch_iso_rx c)\<rparr>) s)" if "\<not> logical_param_refused param value"
    using param_set_live [OF _ p that] by (intro configured_upd [OF s k]) blast
  have "configured s s" using s by (simp add: configured_def follows_def)
  then show ?thesis
    unfolding configure_logical_def active_facts(1) [OF s k] Option.bind.bind_lunit
    by (auto split: option.split intro!: okay_bind [OF set])
qed

lemma param_get_value:
  "vif_bus_param_get ev me owner bus p gd = (gd', 0, x) \<Longrightarrow> x \<noteq> None"
  by (cases gd) (auto simp: vif_bus_param_get_def Let_def VIF_ERR_NO_CLAIM_def BUS_ERR_UNSUPPORTED_def
      split: option.splits if_splits prod.splits)

lemma configure_okay:
  assumes s: "sound s" and k: "active k s"
  shows "okay (\<lambda>(s', _, _). configured s s') (configure_channel ce k w param value s)"
proof (cases "ch_parent (jc_channels s ! k) = 0")
  case False
  from configure_logical_okay [OF s k this] show ?thesis using False
    by (simp add: configure_channel_def active_facts(1) [OF s k])
next
  case True
  let ?c = "jc_channels s ! k"
  have self: "configured s s" using s by (simp add: configured_def follows_def)
  have upd: "okay (\<lambda>(s', _, _). configured s s') (do { s \<leftarrow> upd k (\<lambda>c. c\<lparr>ch_echo := x\<rparr>) u; Some (s, a, b) })"
    "okay (\<lambda>(s', _, _). configured s s') (do { s \<leftarrow> upd k (\<lambda>c. c\<lparr>ch_rate := x\<rparr>) u; Some (s, a, b) })"
    if u: "env_step s u" for u :: "'a j2534" and x and a :: j2534_status and b :: u32w
  proof -
    have su: "sound u" "active k u" using env_step_fields [OF u] s k by auto
    have t: "configured s y" if "configured u y" for y by (rule configured_step(2) [OF configured_step(1) [OF s u] that])
    show "okay (\<lambda>(s', _, _). configured s s') (do { s \<leftarrow> upd k (\<lambda>c. c\<lparr>ch_echo := x\<rparr>) u; Some (s, a, b) })"
      by (rule okay_bind [OF configured_upd [OF su]]) (simp_all add: t)
    show "okay (\<lambda>(s', _, _). configured s s') (do { s \<leftarrow> upd k (\<lambda>c. c\<lparr>ch_rate := x\<rparr>) u; Some (s, a, b) })"
      by (rule okay_bind [OF configured_upd [OF su]]) (simp_all add: t)
  qed
  obtain s1 rc where p: "param_set ce (ch_bus ?c) param value s = (s1, rc)" by fastforce
  have e1: "env_step s s1" using env_steps(3) p unfolding param_set_def by (metis fst_conv)
  obtain s2 rc2 out where g: "vif_do (vif_bus_param_get (ce_vif ce) (ce_me ce) VIF_OWNER_LINK (ch_bus ?c) param) s =
      (s2, rc2, out)" by (metis surj_pair)
  have e2: "env_step s s2" using env_steps(3) g by (metis fst_conv)
  note c1 = configured_step(1) [OF s e1] and c2 = configured_step(1) [OF s e2]
  have out: "out \<noteq> None" if "rc2 = 0"
    using g that by (auto simp: vif_do_def dest!: param_get_value split: prod.splits)
  have loop: "okay (\<lambda>(s', _, _). configured s s') (do {
          let (s, rc) = (if ch_bus ?c \<noteq> VIF_BUS_CAN then param_set ce (ch_bus ?c) param value s else (s, 0));
          if rc \<noteq> 0 then Some (s, J2534_VALUE, value)
          else do { s \<leftarrow> upd k (\<lambda>c. c\<lparr>ch_echo := value\<rparr>) s; Some (s, J2534_OK, value) }
        })"
    using self p c1 e1 upd by (auto simp: Let_def)
  have other: "okay (\<lambda>(s', _, _). configured s s') (do {
       let (s, rc, out) =
         (if w then (let (s, rc) = param_set ce (ch_bus ?c) param value s in (s, rc, None))
          else vif_do (vif_bus_param_get (ce_vif ce) (ce_me ce) VIF_OWNER_LINK (ch_bus ?c) param) s);
       if rc \<noteq> 0 then Some (s, if rc = BUS_ERR_UNSUPPORTED then J2534_PARAM else J2534_VALUE, value)
       else if \<not> w then do { out \<leftarrow> out; Some (s, J2534_OK, out) }
       else if param = bus_param_num BUS_P_DATA_RATE
       then do { s \<leftarrow> upd k (\<lambda>c. c\<lparr>ch_rate := value\<rparr>) s; Some (s, J2534_OK, value) }
       else Some (s, J2534_OK, value)
     })"
    using p c1 c2 e1 out upd by (cases w; cases "rc2 = 0") (auto simp: Let_def g)
  have np: "(ch_parent ?c \<noteq> 0) = False" using True by simp
  show ?thesis
    unfolding configure_channel_def active_facts(1) [OF s k] Option.bind.bind_lunit np if_False
    by (intro okay_if loop other) (simp_all add: self)
qed

lemma configure_all_answers:
  "sound s \<Longrightarrow> active k s \<Longrightarrow> length (rp_config (jc_response s)) + length vs \<le> 32 \<Longrightarrow>
   answers (configure_all ce k w vs s)"
proof (induction vs arbitrary: s)
  case (Cons pv vs)
  obtain param x where pv: "pv = (param, x)" by fastforce
  note s = Cons.prems(1) and k = Cons.prems(2)
  show ?case
    unfolding pv configure_all.simps
  proof (rule answers_bind [OF configure_okay [OF s k]], clarify)
    fix s1 :: "'a j2534" and rc x assume "configured s s1"
    then have F: "follows s s1" and r: "jc_response s1 = jc_response s" by (simp_all add: configured_def)
    have *: "sound s1" "active k s1" using follows_sound [OF F] follows_active [OF F s k] by auto
    show "answers (if rc \<noteq> J2534_OK then Some (s1, rc)
       else if 32 \<le> length (rp_config (jc_response s1)) then None
       else configure_all ce k w vs (respond (\<lambda>r. r\<lparr>rp_config := rp_config r @ [(param, x)]\<rparr>) s1))"
      using Cons.prems(3) r * by (auto intro!: Cons.IH simp: respond_def active_def)
  qed
qed simp

subsection \<open>Queues and jobs\<close>

lemma live_reset_tx:
  "live_ok c \<Longrightarrow> live_ok (let c = c\<lparr>ch_tx_len := 0, ch_tx_active := False\<rparr>
     in if ch_parent c = 0 then c else c\<lparr>ch_iso_tx := iso_tx_reset (ch_config c) (ch_iso_tx c)\<rparr>)"
  by (auto simp: Let_def logical_ok_def intro!: live_iso_tx live_no_tx tx_wf_reset dest: live_logical)

lemma clear_tx_okay:
  assumes s: "sound s" and k: "active k s"
  shows "okay (follows s) (clear_tx_queue ce k s)"
proof -
  have "okay (keeps (view_of s)) (clear_tx_queue ce k s)"
    unfolding clear_tx_queue_def
    by (rule okay_bind [OF cancel_channel_keeps [OF sound_keeps [OF s] active_live [OF s k]]],
      rule upd_keeps [OF _ active_live [OF s k]]) (simp_all only: live_reset_tx simp_thms, auto simp: Let_def)
  then show ?thesis by (rule okay_mono) (rule keeps_follows [OF s])
qed

lemma live_empty_ring:
  "live_ok c \<Longrightarrow> live_ok (c\<lparr>ch_rx_head := 0, ch_rx_used := 0, ch_overflow := False\<rparr>)"
  by (rule live_take [where q = "[]"]) (auto simp: live_ok_def ring_holds_def ring_view_def)

lemma live_reset_rx:
  assumes "live_ok c"
  shows "live_ok (let c = c\<lparr>ch_rx_head := 0, ch_rx_used := 0, ch_overflow := False\<rparr>
     in if ch_parent c = 0 then c
        else c\<lparr>ch_rx_generation := ch_rx_generation c + 1, ch_flow_control_pending := False,
               ch_iso_rx := iso_rx_reset (ch_config c) (ch_iso_rx c)\<rparr>)"
  using live_empty_ring [OF assms]
    live_rx_reset [of "c\<lparr>ch_rx_head := 0, ch_rx_used := 0, ch_overflow := False,
      ch_rx_generation := ch_rx_generation c + 1, ch_flow_control_pending := False\<rparr>" "ch_config c"]
  by (simp add: Let_def)

lemma clear_rx_okay:
  assumes d: "drivers_ok ce" and s: "sound s" and k: "active k s"
  shows "okay (follows s) (clear_rx_queue ce k s)"
proof -
  note K = sound_keeps [OF s] and L = active_live [OF s k]
  obtain p where p: "physical_channel s k = Some p" "live (view_of s) p" using physical_exists [OF K L] by blast
  have again: "okay (keeps (view_of s)) (do {
     ph \<leftarrow> chan s1 p;
     s \<leftarrow> (if ch_rx_drained ph then Some s1 else poll_rx ce p s1);
     upd k (\<lambda>c. let c = c\<lparr>ch_rx_head := 0, ch_rx_used := 0, ch_overflow := False\<rparr>
       in if ch_parent c = 0 then c
          else c\<lparr>ch_rx_generation := ch_rx_generation c + 1, ch_flow_control_pending := False,
                 ch_iso_rx := iso_rx_reset (ch_config c) (ch_iso_rx c)\<rparr>) s })"
    if s1: "keeps (view_of s) s1" for s1 :: "'a j2534"
    unfolding keeps_live(1) [OF s1 p(2)] Option.bind.bind_lunit
  proof (rule okay_bind)
    show "okay (keeps (view_of s)) (if ch_rx_drained (jc_channels s1 ! p) then Some s1 else poll_rx ce p s1)"
      using s1 poll_rx_keeps [OF d s1 p(2)] by simp
  next
    fix s2 :: "'a j2534" assume "keeps (view_of s) s2"
    then show "okay (keeps (view_of s)) (upd k (\<lambda>c. let c = c\<lparr>ch_rx_head := 0, ch_rx_used := 0, ch_overflow := False\<rparr>
       in if ch_parent c = 0 then c
          else c\<lparr>ch_rx_generation := ch_rx_generation c + 1, ch_flow_control_pending := False,
                 ch_iso_rx := iso_rx_reset (ch_config c) (ch_iso_rx c)\<rparr>) s2)"
      by (rule upd_keeps [OF _ L]) (simp only: live_reset_rx, auto simp: Let_def shape_of_def)
  qed
  have "okay (keeps (view_of s)) (clear_rx_queue ce k s)"
    unfolding clear_rx_queue_def p(1) Option.bind.bind_lunit
    by (rule okay_bind [OF poll_rx_keeps [OF d K p(2)] again])
  then show ?thesis by (rule okay_mono) (rule keeps_follows [OF s])
qed

lemma put_job_okay:
  assumes s: "sound s" and k: "active k s" and j: "j < 20" and w: "job_wf job"
    and f: "job_fits (ch_parent (jc_channels s ! k) = 0 \<and> ch_bus (jc_channels s ! k) = VIF_BUS_CAN)
      (ch_parent (jc_channels s ! k) \<noteq> 0) job"
  shows "okay (follows s) (upd_job k j (\<lambda>_. job) s)"
  unfolding upd_job_def
proof (rule follows_upd [OF s k])
  let ?c = "jc_channels s ! k"
  assume c: "live_ok ?c"
  note sl = live_slots [OF c]
  then have l: "length (ch_scheduler ?c) = 20" using schedule_wf_length by (auto simp: slots_ok_def)
  have "list_all job_wf ((ch_scheduler ?c)[j := job])"
    "list_all (job_fits (ch_parent ?c = 0 \<and> ch_bus ?c = VIF_BUS_CAN) (ch_parent ?c \<noteq> 0)) ((ch_scheduler ?c)[j := job])"
    using sl w f by (auto simp: slots_ok_def schedule_wf_def list_all_iff dest: set_update_subset_insert [THEN subsetD])
  then show "okay (\<lambda>c'. live_ok c' \<and> role_of c' = role_of ?c)
      (do { old \<leftarrow> get_at (ch_scheduler ?c) j; Some (?c\<lparr>ch_scheduler := (ch_scheduler ?c)[j := job]\<rparr>) })"
    using l j c by (simp add: live_scheduler schedule_wf_def J2534_SCHEDULE_SLOTS_def)
qed

lemma job_zero_fits [simp]: "job_wf job_zero" "job_fits r l job_zero"
  by (simp_all add: job_wf_def job_fits_def job_zero_def J2534_SCHEDULE_DATA_MAX_def)

lemma drop_job_okay:
  assumes s: "sound s" and k: "active k s" and j: "j < 20"
  shows "okay (follows s) (drop_job ce k j s)"
proof -
  note K = sound_keeps [OF s] and L = active_live [OF s k]
  obtain p where p: "physical_channel s k = Some p" "live (view_of s) p" using physical_exists [OF K L] by blast
  note A = active_facts [OF s k]
  have l: "get_at (ch_scheduler (jc_channels s ! k)) j = Some (ch_scheduler (jc_channels s ! k) ! j)"
    using live_slots [OF A(2)] schedule_wf_length j by (auto simp: slots_ok_def)
  show ?thesis
    unfolding drop_job_def A(1) l p(1) keeps_live(1) [OF K p(2)] Option.bind.bind_lunit
  proof (rule okay_bind)
    show "okay (follows s) (if pt_kind (ch_pending (jc_channels s ! p)) = TX_SCHEDULED \<and>
        pt_job (ch_pending (jc_channels s ! p)) = sj_id (ch_scheduler (jc_channels s ! k) ! j)
      then discard_pending ce p s else Some s)"
      using okay_mono [OF discard_pending_keeps [OF K p(2)] keeps_follows [OF s]] follows_refl [OF s] by simp
    fix s1 :: "'a j2534" assume F: "follows s s1"
    have "okay (follows s1) (upd_job k j (\<lambda>_. job_zero) s1)"
      using follows_sound [OF F] follows_active [OF F s k] j by (rule put_job_okay) simp_all
    then show "okay (follows s) (upd_job k j (\<lambda>_. job_zero) s1)" by (rule okay_mono) (rule follows_trans [OF F])
  qed
qed

lemma follows_chain: "okay (follows s1) x \<Longrightarrow> follows s s1 \<Longrightarrow> okay (follows s) x"
  by (erule okay_mono) (rule follows_trans)

lemma clear_periodic_okay:
  assumes s: "sound s" and k: "active k s"
  shows "okay (follows s) (clear_periodic ce k s)"
  unfolding clear_periodic_def
proof (rule okay_fold [where I = "follows s", OF follows_refl [OF s]])
  fix s1 :: "'a j2534" and j assume j: "j \<in> set [0..<J2534_SCHEDULE_SLOTS]" and F: "follows s s1"
  note s1 = follows_sound [OF F] follows_active [OF F s k]
  have j': "j < 20" using j by (simp add: J2534_SCHEDULE_SLOTS_def)
  note A = active_facts [OF s1]
  have l: "get_at (ch_scheduler (jc_channels s1 ! k)) j = Some (ch_scheduler (jc_channels s1 ! k) ! j)"
    using live_slots [OF A(2)] schedule_wf_length j' by (auto simp: slots_ok_def)
  show "okay (follows s) (do {
       c \<leftarrow> chan s1 k;
       job \<leftarrow> get_at (ch_scheduler c) j;
       if sj_id job = 0 then Some s1 else drop_job ce k j s1 })"
    using F follows_chain [OF drop_job_okay [OF s1 j'] F] by (simp add: A(1) l)
qed

lemma stop_scheduled_answers:
  assumes s: "sound s" and k: "active k s"
  shows "answers (stop_scheduled ce k n rep s)"
  unfolding stop_scheduled_def active_facts(1) [OF s k] Option.bind.bind_lunit
  using s by (auto split: option.split intro!: answers_bind [OF drop_job_okay [OF s k]] dest: schedule_find_less follows_sound)

subsection \<open>Periodic and repeat messages\<close>

lemma find_mem: "find P xs = Some j \<Longrightarrow> j \<in> set xs \<and> P j"
  by (metis find_Some_iff nth_mem)

lemma allocate_slot: "j2534_schedule_allocate jobs rep = Some j \<Longrightarrow> j < 20"
  unfolding j2534_schedule_allocate_def Let_def by (drule find_mem) (auto simp: J2534_SCHEDULE_SLOTS_def split: if_splits)

definition stored :: "byte list \<Rightarrow> nat \<Rightarrow> byte list" where
  "stored data n = take n data @ drop n (replicate 12 0)"

lemma stored_length: "n \<le> length data \<Longrightarrow> n \<le> 12 \<Longrightarrow> length (stored data n) = 12"
  by (simp add: stored_def)

lemma stored_id:
  assumes "n \<le> length data" "4 \<le> n" "n \<le> 12"
  shows "can_id_valid (stored data n) flags = can_id_valid data flags"
proof -
  have "get_at (stored data n) i = get_at data i" if "i < 4" for i
    using assms that by (simp add: stored_def get_at_def nth_append)
  then show ?thesis by (simp add: can_id_valid_def be32_def)
qed

lemma stored_fits:
  assumes "fitting c flags data n True" "n \<le> length data"
    "sj_message job = \<lparr>sm_flags = flags, sm_handle = h, sm_len = n, sm_data = stored data n\<rparr>" "sj_id job \<noteq> 0"
  shows "job_fits (ch_parent c = 0 \<and> ch_bus c = VIF_BUS_CAN) (ch_parent c \<noteq> 0) job"
  using assms by (auto simp: job_fits_def fitting_def stored_length stored_id)

lemma store_bytes:
  assumes "n \<le> length data" "n \<le> 12"
  shows "load_at data 0 n = Some (take n data)" "store_at (replicate 12 0) 0 (take n data) = Some (stored data n)"
  using assms by (simp_all add: load_at_def store_at_def stored_def)

lemma job_zero_data [simp]: "sm_data (sj_message job_zero) = replicate 12 0" "sj_mask job_zero = replicate 12 0"
  "sj_pattern job_zero = replicate 12 0" "sj_match_len job_zero = 0"
  by (simp_all add: job_zero_def J2534_SCHEDULE_DATA_MAX_def)

lemma put_new_job:
  assumes s: "sound s" and k: "active k s" and j: "j < 20" and w: "job_wf job"
    and f: "job_fits (ch_parent (jc_channels s ! k) = 0 \<and> ch_bus (jc_channels s ! k) = VIF_BUS_CAN)
      (ch_parent (jc_channels s ! k) \<noteq> 0) job"
  shows "okay sound (put_job k j job s)"
  unfolding put_job_def by (rule follows_okay_sound [OF put_job_okay [OF s k j w f]])

lemma start_periodic_answers:
  assumes s: "sound s" and k: "active k s" and m: "message_ok (pr_message r)"
  shows "answers (start_periodic ce k r s)"
proof (cases "pr_message r")
  case None
  then show ?thesis using s by (simp add: start_periodic_def)
next
  case (Some m)
  let ?n = "pb_size (om_data m)" and ?d = "pb_bytes (om_data m)"
  have len: "?n \<le> length ?d" using assms(3) Some by (simp add: message_ok_def pb_ok_def)
  have "answers (do {
           (s, rc) \<leftarrow> validate_message ce k (om_protocol m) (om_tx_flags m) ?d ?n True s;
           if rc \<noteq> J2534_OK then Some (s, rc)
           else do {
             c \<leftarrow> chan s k;
             case j2534_schedule_allocate (ch_scheduler c) False of
               None \<Rightarrow> Some (s, J2534_LIMIT)
             | Some j \<Rightarrow> do {
                 let (s, i) = new_id s;
                 let (s, now) = now_us ce s;
                 bytes \<leftarrow> load_at ?d 0 ?n;
                 data \<leftarrow> store_at (sm_data (sj_message job_zero)) 0 bytes;
                 s \<leftarrow> put_job k j (job_zero\<lparr>sj_id := i, sj_kind := J2534_SCHEDULE_PERIODIC,
                   sj_interval_us := pr_interval_ms r * 1000, sj_due_us := now, sj_active := True,
                   sj_message := \<lparr>sm_flags = om_tx_flags m, sm_handle = om_handle m, sm_len = ?n,
                     sm_data = data\<rparr>\<rparr>) s;
                 Some (respond (\<lambda>r. r\<lparr>rp_id := i\<rparr>) s, J2534_OK)
               }
           }
         })"
  proof (rule answers_bind [OF validate_okay [OF s k len]], clarify)
    fix s1 rc assume e: "env_step s s1"
      and f: "rc = J2534_OK \<longrightarrow> fitting (jc_channels s ! k) (om_tx_flags m) ?d ?n True"
    have s1: "sound s1" "active k s1" "jc_channels s1 = jc_channels s" using env_step_fields [OF e] s k by simp_all
    obtain s2 i where i: "new_id s1 = (s2, i)" "s2 = fst (new_id s1)" "i \<noteq> 0" using new_id_E .
    obtain s3 t where t: "now_us ce s2 = (s3, t)" by fastforce
    have s3: "sound s3" "active k s3" "jc_channels s3 = jc_channels s"
      using s1 i(2) t channels_other(5) [of ce s2] by (auto simp: sound_def active_def)
    let ?job = "job_zero\<lparr>sj_id := i, sj_kind := J2534_SCHEDULE_PERIODIC,
                   sj_interval_us := pr_interval_ms r * 1000, sj_due_us := t, sj_active := True,
                   sj_message := \<lparr>sm_flags = om_tx_flags m, sm_handle = om_handle m, sm_len = ?n,
                     sm_data = stored ?d ?n\<rparr>\<rparr>"
    have put: "okay sound (put_job k j ?job s3)" if "rc = J2534_OK" "j < 20" for j
      using s3 that f len i(3)
      by (intro put_new_job [OF s3(1,2)]) (auto intro!: stored_fits simp: job_wf_def J2534_SCHEDULE_DATA_MAX_def)
    have n: "?n \<le> 12" if "rc = J2534_OK" using f that by (simp add: fitting_def)
    show "answers (if rc \<noteq> J2534_OK then Some (s1, rc)
           else do {
             c \<leftarrow> chan s1 k;
             case j2534_schedule_allocate (ch_scheduler c) False of
               None \<Rightarrow> Some (s1, J2534_LIMIT)
             | Some j \<Rightarrow> do {
                 let (s, i) = new_id s1;
                 let (s, now) = now_us ce s;
                 bytes \<leftarrow> load_at ?d 0 ?n;
                 data \<leftarrow> store_at (sm_data (sj_message job_zero)) 0 bytes;
                 s \<leftarrow> put_job k j (job_zero\<lparr>sj_id := i, sj_kind := J2534_SCHEDULE_PERIODIC,
                   sj_interval_us := pr_interval_ms r * 1000, sj_due_us := now, sj_active := True,
                   sj_message := \<lparr>sm_flags = om_tx_flags m, sm_handle = om_handle m, sm_len = ?n,
                     sm_data = data\<rparr>\<rparr>) s;
                 Some (respond (\<lambda>r. r\<lparr>rp_id := i\<rparr>) s, J2534_OK)
               }
           })"
    proof (cases "rc = J2534_OK")
      case True
      note b = store_bytes [OF len n [OF True]]
      show ?thesis
        unfolding active_facts(1) [OF s1(1,2)] Option.bind.bind_lunit i(1) t Let_def prod.case job_zero_data b
        using s1(1) True by (auto split: option.split intro!: answers_bind [OF put] dest: allocate_slot)
    qed (simp add: s1(1))
  qed
  then show ?thesis using s by (simp add: start_periodic_def Some Let_def)
qed

definition repeat_ok :: "repeat_message \<Rightarrow> bool" where
  "repeat_ok m \<longleftrightarrow> length (rm_data m) = 12 \<and> rm_len m \<le> 12"

definition setup_ok :: "repeat_setup \<Rightarrow> bool" where
  "setup_ok su \<longleftrightarrow> repeat_ok (su_message su) \<and> repeat_ok (su_mask su) \<and> repeat_ok (su_pattern su)"

lemma found_active:
  assumes "sound s" "channel_is_live s (find_channel s i)"
  shows "\<exists>k. find_channel s i = Some k \<and> active k s"
proof -
  obtain k where k: "find_channel s i = Some k" using assms(2) by (cases "find_channel s i") (auto simp: channel_is_live_def)
  have "active k s" using find_channel_live [OF sound_keeps [OF assms(1)] k] k
    by (auto simp: active_def live_def find_channel_def find_Some_iff)
  then show ?thesis using k by blast
qed

lemma found_active': "sound s \<Longrightarrow> find_channel s i = Some k \<Longrightarrow> active k s"
  by (auto simp: active_def find_channel_def find_Some_iff)

lemma repeat_check_okay:
  assumes "ph \<noteq> None" shows "\<exists>rc. repeat_match_check c ph su = Some rc"
  using assms by (auto simp: repeat_match_check_def Let_def)

lemma repeat_job_okay:
  assumes su: "setup_ok su" and len: "rm_len (su_mask su) = rm_len (su_pattern su)" and n: "n \<noteq> 0"
    and f: "fitting c (rm_flags (su_message su)) (rm_data (su_message su)) (rm_len (su_message su)) True"
  shows "okay (\<lambda>job. job_wf job \<and> job_fits (ch_parent c = 0 \<and> ch_bus c = VIF_BUS_CAN) (ch_parent c \<noteq> 0) job)
    (repeat_job su n now)"
proof -
  have m: "rm_len (su_message su) \<le> length (rm_data (su_message su))" "rm_len (su_message su) \<le> 12"
    and k: "rm_len (su_mask su) \<le> length (rm_data (su_mask su))" "rm_len (su_mask su) \<le> 12"
    and p: "rm_len (su_mask su) \<le> length (rm_data (su_pattern su))" "rm_len (su_mask su) \<le> 12"
    using su len by (auto simp: setup_ok_def repeat_ok_def)
  note b = store_bytes [OF m] store_bytes [OF k] store_bytes [OF p]
  show ?thesis
    unfolding repeat_job_def Let_def job_zero_data b Option.bind.bind_lunit okay_Some
    using f m k p n by (auto intro!: stored_fits simp: job_wf_def J2534_SCHEDULE_DATA_MAX_def stored_length)
qed

lemma setup_check_ok: "repeat_setup_check c su = J2534_OK \<Longrightarrow> rm_len (su_mask su) = rm_len (su_pattern su)"
  by (auto simp: repeat_setup_check_def Let_def split: if_splits)

lemma repeat_start_answers:
  assumes s: "sound s" and su: "setup_ok su"
  shows "okay (\<lambda>(s', _, _). sound s') (j2534_core_repeat_start ce i su s)"
proof (cases "channel_is_live s (find_channel s i)")
  case False
  then show ?thesis using s by (simp add: j2534_core_repeat_start_def)
next
  case True
  obtain k where k: "find_channel s i = Some k" "active k s" using found_active [OF s True] by blast
  let ?c = "jc_channels s ! k" and ?m = "su_message su"
  show ?thesis
  proof (cases "repeat_setup_check ?c su = J2534_OK")
    case False
    then show ?thesis using s True by (simp add: j2534_core_repeat_start_def k(1) active_facts(1) [OF s k(2)] Let_def)
  next
    case ok: True
    have len: "rm_len ?m \<le> length (rm_data ?m)" using su by (simp add: setup_ok_def repeat_ok_def)
    have "okay (\<lambda>(s', _, _). sound s') (do {
          (s, rc) \<leftarrow> validate_message ce k (rm_protocol ?m) (rm_flags ?m) (rm_data ?m) (rm_len ?m) True s;
          if rc \<noteq> J2534_OK then Some (s, rc, None)
          else do {
            c \<leftarrow> chan s k;
            rc \<leftarrow> repeat_match_check c (Option.bind (physical_channel s k) (chan s)) su;
            if rc \<noteq> J2534_OK then Some (s, rc, None)
            else case j2534_schedule_allocate (ch_scheduler c) True of
                None \<Rightarrow> Some (s, J2534_LIMIT, None)
              | Some j \<Rightarrow> do {
                  let (s, now) = now_us ce s;
                  let (s, n) = new_id s;
                  job \<leftarrow> repeat_job su n now;
                  s \<leftarrow> put_job k j job s;
                  Some (s, J2534_OK, Some n)
                }
          }
        })"
    proof (rule okay_bind [OF validate_okay [OF s k(2) len]], clarify)
      fix s1 rc assume e: "env_step s s1"
        and f: "rc = J2534_OK \<longrightarrow> fitting ?c (rm_flags ?m) (rm_data ?m) (rm_len ?m) True"
      have s1: "sound s1" "active k s1" "jc_channels s1 = jc_channels s" using env_step_fields [OF e] s k(2) by simp_all
      obtain p where p: "physical_channel s1 k = Some p" "live (view_of s1) p"
        using physical_exists [OF sound_keeps [OF s1(1)] active_live [OF s1(1,2)]] by blast
      have "Option.bind (physical_channel s1 k) (chan s1) \<noteq> None"
        using p keeps_live(1) [OF sound_keeps [OF s1(1)] p(2)] by simp
      from repeat_check_okay [OF this] obtain rc2 where
        c2: "repeat_match_check (jc_channels s1 ! k) (Option.bind (physical_channel s1 k) (chan s1)) su = Some rc2" by blast
      obtain s2 t where t: "now_us ce s1 = (s2, t)" by fastforce
      obtain s3 n where n: "new_id s2 = (s3, n)" "s3 = fst (new_id s2)" "n \<noteq> 0" using new_id_E .
      have s3: "sound s3" "active k s3" "jc_channels s3 = jc_channels s"
        using s1 n(2) t channels_other(5) [of ce s1] by (auto simp: sound_def active_def)
      have put: "okay (\<lambda>(s', _, _). sound s') (do { job \<leftarrow> repeat_job su n t; s \<leftarrow> put_job k j job s3; Some (s, J2534_OK, Some n) })"
        if "rc = J2534_OK" "j < 20" for j
        using that f s3(3)
        by (auto intro!: okay_bind [OF repeat_job_okay [OF su setup_check_ok [OF ok] n(3), of "jc_channels s3 ! k"]]
            okay_bind [OF put_new_job [OF s3(1,2)]])
      show "okay (\<lambda>(s', _, _). sound s') (if rc \<noteq> J2534_OK then Some (s1, rc, None)
          else do {
            c \<leftarrow> chan s1 k;
            rc \<leftarrow> repeat_match_check c (Option.bind (physical_channel s1 k) (chan s1)) su;
            if rc \<noteq> J2534_OK then Some (s1, rc, None)
            else case j2534_schedule_allocate (ch_scheduler c) True of
                None \<Rightarrow> Some (s1, J2534_LIMIT, None)
              | Some j \<Rightarrow> do {
                  let (s, now) = now_us ce s1;
                  let (s, n) = new_id s;
                  job \<leftarrow> repeat_job su n now;
                  s \<leftarrow> put_job k j job s;
                  Some (s, J2534_OK, Some n)
                }
          })"
        unfolding active_facts(1) [OF s1(1,2)] Option.bind.bind_lunit c2 t Let_def prod.case n(1)
        using s1(1) put by (auto split: option.split dest: allocate_slot)
    qed
    then show ?thesis using True ok by (simp add: j2534_core_repeat_start_def k(1) active_facts(1) [OF s k(2)] Let_def)
  qed
qed

definition repeat_request_ok :: "req_repeat \<Rightarrow> bool" where
  "repeat_request_ok r \<longleftrightarrow> (\<forall>m. m \<in> {re_message r, re_mask r, re_pattern r} \<longrightarrow>
     (case m of None \<Rightarrow> True | Some m \<Rightarrow> pb_ok 12 (rw_data m)))"

lemma decode_okay: "pb_ok 12 (rw_data m) \<Longrightarrow> okay repeat_ok (decode_repeat_message m)"
  by (auto simp: decode_repeat_message_def pb_ok_def repeat_ok_def)

lemma start_repeat_answers:
  assumes s: "sound s" and r: "repeat_request_ok r"
  shows "answers (start_repeat ce r s)"
proof (cases "re_message r = None \<or> re_mask r = None \<or> re_pattern r = None")
  case True
  then show ?thesis using s by (auto simp: start_repeat_def split: option.split)
next
  case False
  then obtain m mk pat where m: "re_message r = Some m" "re_mask r = Some mk" "re_pattern r = Some pat" by auto
  have ok: "pb_ok 12 (rw_data m)" "pb_ok 12 (rw_data mk)" "pb_ok 12 (rw_data pat)"
    using r m by (auto simp: repeat_request_ok_def)
  show ?thesis
    unfolding start_repeat_def m prod.case option.case
    by (rule answers_bind [OF decode_okay [OF ok(1)]], rule answers_bind [OF decode_okay [OF ok(2)]],
      rule answers_bind [OF decode_okay [OF ok(3)]], rule answers_bind [OF repeat_start_answers [OF s]])
      (auto simp: setup_ok_def split: option.split)
qed

lemma repeat_stop_answers: "sound s \<Longrightarrow> answers (j2534_core_repeat_stop ce i n s)"
  using found_active [of s i] by (auto simp: j2534_core_repeat_stop_def stop_scheduled_answers)

lemma query_repeat_answers: "sound s \<Longrightarrow> answers (query_repeat i n s)"
  using found_active [of s i]
  by (auto simp: query_repeat_def j2534_core_repeat_query_def active_facts(1) split: option.split)

subsection \<open>Initialisation\<close>

definition init_fits :: "bus_init \<Rightarrow> bool" where
  "init_fits init \<longleftrightarrow> length (bi_key init) = 2 \<and> length (bi_reply init) = BUS_INIT_MSG_MAX"

text \<open>What the rest of the environment promises: an allocation gives the bytes asked for, and a
  driver gives the structure of an initialisation back in its own shape.\<close>

definition env_ok :: "'d core_env \<Rightarrow> bool" where
  "env_ok ce \<longleftrightarrow> drivers_ok ce \<and>
     (\<forall>n d. case ce_alloc ce n d of (d', b) \<Rightarrow> (case b of None \<Rightarrow> True | Some b \<Rightarrow> length b = n)) \<and>
     (\<forall>bus f i init d. ev_ioctl (ce_vif ce) bus = Some f \<longrightarrow> init_fits init \<longrightarrow>
        (case f i (InitArg init) d of (d', rc, arg) \<Rightarrow>
           case arg of InitArg init' \<Rightarrow> init_fits init' | _ \<Rightarrow> False))"

lemma bus_ioctl_fits:
  assumes "env_ok ce" "init_fits init" "bus_ioctl ce bus i (InitArg init) s = (s', rc, arg)"
  shows "\<exists>init'. arg = InitArg init' \<and> init_fits init'"
proof -
  have driver: "case f j (InitArg init) d of (d', rc, arg) \<Rightarrow> (case arg of InitArg init' \<Rightarrow> init_fits init' | _ \<Rightarrow> False)"
    if "ev_ioctl (ce_vif ce) bus = Some f" for f j d
    using assms(1,2) that by (auto simp: env_ok_def)
  have give: "\<exists>init'. a = InitArg init' \<and> init_fits init'"
    if "ev_ioctl (ce_vif ce) bus = Some f" "f j (InitArg init) d = (d', r, a)" for f j d d' r a
    using driver [OF that(1), of j d] that(2) by (cases a) simp_all
  show ?thesis
    using assms(2,3) by (cases "jc_vif s")
      (auto simp: bus_ioctl_def vif_do_def vif_bus_ioctl_def Let_def split: option.splits if_splits prod.splits dest: give)
qed

lemma bus_ioctl_channels [simp]:
  "jc_channels (fst (bus_ioctl ce bus i arg s)) = jc_channels s"
  "jc_response (fst (bus_ioctl ce bus i arg s)) = jc_response s"
  by (simp_all add: bus_ioctl_def vif_do_def case_prod_beta)

lemma param_set_channels [simp]:
  "jc_channels (fst (param_set ce bus p x s)) = jc_channels s"
  "jc_response (fst (param_set ce bus p x s)) = jc_response s"
  by (simp_all add: param_set_def vif_do_def case_prod_beta)

lemma init_zero_fits: "init_fits (init_zero\<lparr>bi_address := a\<rparr>)" "init_fits (init_zero\<lparr>bi_msg_len := n, bi_msg := m\<rparr>)"
  by (simp_all add: init_fits_def init_zero_def)

lemma init_request_okay:
  assumes s: "sound s" and k: "active k s" and d: "pb_ok 255 (io_data r)"
  shows "okay (\<lambda>(s', x). env_step s s' \<and> (\<forall>init. x = Inr init \<longrightarrow> init_fits init)) (init_request ce k r s)"
proof -
  let ?n = "pb_size (io_data r)" and ?d = "pb_bytes (io_data r)" and ?c = "jc_channels s ! k"
  have len: "?n \<le> length ?d" using d by (simp add: pb_ok_def)
  have val: "okay (\<lambda>(s', x). env_step s s' \<and> (\<forall>init. x = Inr init \<longrightarrow> init_fits init)) (do {
       (s, rc) \<leftarrow> validate_message ce k (ch_protocol ?c) 0 ?d ?n False s;
       if rc \<noteq> J2534_OK then Some (s, Inl rc)
       else do {
         bytes \<leftarrow> load_at ?d 0 ?n;
         msg \<leftarrow> store_at (bi_msg init_zero) 0 bytes;
         Some (s, Inr (init_zero\<lparr>bi_msg_len := ?n, bi_msg := msg\<rparr>))
       } })" if "?n \<le> 8"
    by (rule okay_bind [OF validate_okay [OF s k len]])
      (use that d in \<open>auto simp: pb_load init_zero_fits, auto simp: store_at_def init_zero_def BUS_INIT_MSG_MAX_def
        init_fits_def pb_ok_def\<close>)
  have l: "length ?d = 255" using d by (simp add: pb_ok_def)
  show ?thesis
    unfolding init_request_def active_facts(1) [OF s k] Option.bind.bind_lunit Let_def
    by (intro okay_if val) (use l in \<open>auto simp: get_at_def init_zero_fits\<close>)
qed

lemma init_reply_answers:
  assumes s: "sound s" and i: "init_fits init" and r: "length (pb_bytes (rp_data (jc_response s))) = 255"
  shows "answers (init_reply i init s)"
  using assms unfolding init_reply_def Let_def init_fits_def BUS_INIT_MSG_MAX_def by auto

lemma ioctl_init_answers:
  assumes e: "env_ok ce" and s: "sound s" and k: "active k s" and d: "pb_ok 255 (io_data r)"
    and rs: "length (pb_bytes (rp_data (jc_response s))) = 255"
  shows "answers (ioctl_init ce k r s)"
proof -
  let ?c = "jc_channels s ! k"
  have go: "answers (do {
       (s, request) \<leftarrow> init_request ce k r s;
       case request of
         Inl err \<Rightarrow> Some (s, err)
       | Inr init \<Rightarrow> do {
           let (s, rc, arg) = bus_ioctl ce (ch_bus ?c) (io_id r) (InitArg init) s;
           let (s, _) = param_set ce (ch_bus ?c) (bus_param_num BUS_P_PERIODIC_MS) 0 s;
           if rc \<noteq> 0 then Some (s, J2534_INIT)
           else case arg of InitArg init \<Rightarrow> init_reply (io_id r) init s | _ \<Rightarrow> None
         }
     })"
  proof (rule answers_bind [OF init_request_okay [OF s k d]], clarify)
    fix s1 and x :: "j2534_status + bus_init" assume st: "env_step s s1" and x: "\<forall>init. x = Inr init \<longrightarrow> init_fits init"
    have s1: "sound s1" "jc_response s1 = jc_response s" using env_step_fields [OF st] s by simp_all
    show "answers (case x of
         Inl err \<Rightarrow> Some (s1, err)
       | Inr init \<Rightarrow> do {
           let (s, rc, arg) = bus_ioctl ce (ch_bus ?c) (io_id r) (InitArg init) s1;
           let (s, _) = param_set ce (ch_bus ?c) (bus_param_num BUS_P_PERIODIC_MS) 0 s;
           if rc \<noteq> 0 then Some (s, J2534_INIT)
           else case arg of InitArg init \<Rightarrow> init_reply (io_id r) init s | _ \<Rightarrow> None
         })"
    proof (cases x)
      case (Inr init)
      obtain s2 rc arg where b: "bus_ioctl ce (ch_bus ?c) (io_id r) (InitArg init) s1 = (s2, rc, arg)" by (metis surj_pair)
      obtain init' where a: "arg = InitArg init'" "init_fits init'" using bus_ioctl_fits [OF e _ b] x Inr by blast
      obtain s3 z where p: "param_set ce (ch_bus ?c) (bus_param_num BUS_P_PERIODIC_MS) 0 s2 = (s3, z)" by fastforce
      have "sound s3" "jc_response s3 = jc_response s"
        using s1 bus_ioctl_channels [of ce "ch_bus ?c" "io_id r" "InitArg init" s1] b
          param_set_channels [of ce "ch_bus ?c" "bus_param_num BUS_P_PERIODIC_MS" 0 s2] p
        by (auto simp: sound_def simp del: bus_param_num.simps)
      then show ?thesis
        unfolding Inr sum.case b p Let_def prod.case a(1) ioctl_arg.case
        using init_reply_answers [OF _ a(2), of s3] rs by simp
    qed (simp add: s1(1))
  qed
  show ?thesis
    unfolding ioctl_init_def active_facts(1) [OF s k] Option.bind.bind_lunit
    by (intro answers_if go) (simp_all add: s)
qed

lemma funct_answers: "sound s \<Longrightarrow> answers (Some (funct_addresses ce bus i bs s))"
proof (induction bs arbitrary: s)
  case (Cons b bs)
  obtain s1 rc arg where b: "bus_ioctl ce bus i (ByteArg b) s = (s1, rc, arg)" by (metis surj_pair)
  have "sound s1" using Cons.prems bus_ioctl_channels [of ce bus i "ByteArg b" s] b by (simp add: sound_def)
  then show ?case using Cons.IH [of s1] by (simp add: b)
qed simp

lemma bus_on_answers:
  assumes d: "drivers_ok ce" and s: "sound s" and k: "active k s"
  shows "answers (bus_on ce k s)"
proof -
  note K = sound_keeps [OF s] and L = active_live [OF s k]
  have on: "answers (do {
       let (s, rc, _) = bus_ioctl ce (ch_bus (jc_channels s ! k)) BUS_IOCTL_BUS_ON NoArg s1;
       if rc \<noteq> 0 then Some (s, J2534_INIT)
       else do { s \<leftarrow> upd k (\<lambda>c. c\<lparr>ch_link_down := False\<rparr>) s; Some (s, J2534_OK) } })"
    if "keeps (view_of s) s1" for s1 :: "'a j2534"
  proof -
    obtain s2 rc arg where b: "bus_ioctl ce (ch_bus (jc_channels s ! k)) BUS_IOCTL_BUS_ON NoArg s1 = (s2, rc, arg)"
      by (metis surj_pair)
    have F: "follows s s1" by (rule keeps_follows [OF s that])
    have c: "jc_channels s2 = jc_channels s1"
      using bus_ioctl_channels [of ce "ch_bus (jc_channels s ! k)" BUS_IOCTL_BUS_ON NoArg s1] b by simp
    have s2: "sound s2" "active k s2"
      using follows_sound [OF F] follows_active [OF F s k] c by (simp_all add: sound_def active_def)
    have "okay (follows s2) (upd k (\<lambda>c. c\<lparr>ch_link_down := False\<rparr>) s2)"
      unfolding upd_def by (rule follows_upd [OF s2]) simp
    then show ?thesis using s2(1) by (auto simp: b Let_def intro!: answers_bind dest: follows_sound)
  qed
  show ?thesis
    unfolding bus_on_def active_facts(1) [OF s k] Option.bind.bind_lunit
    using s answers_bind [OF poll_rx_keeps [OF d K L] on] by simp
qed

lemma done_answers: "okay (follows s) x \<Longrightarrow> answers (map_option (\<lambda>s. (s, J2534_OK)) x)"
  by (auto simp: answers_def okay_def follows_sound)

definition ioctl_ok :: "req_ioctl \<Rightarrow> bool" where
  "ioctl_ok r \<longleftrightarrow> pb_ok 255 (io_data r) \<and> length (io_config r) \<le> 32"

lemma ioctl_answers:
  assumes e: "env_ok ce" and s: "sound s" and k: "active k s" and r: "ioctl_ok r"
    and rs: "jc_response s = response_zero"
  shows "answers (ioctl_request ce k r s)"
proof -
  have d: "pb_ok 255 (io_data r)" "length (io_config r) \<le> 32" using r by (simp_all add: ioctl_ok_def)
  have dr: "drivers_ok ce" using e by (simp add: env_ok_def)
  have r0: "length (pb_bytes (rp_data (jc_response s))) = 255" "rp_config (jc_response s) = []"
    by (simp_all add: rs response_zero_def pb_zero_def)
  have filters: "okay (follows s) (upd k (\<lambda>c. c\<lparr>ch_filters := replicate J2534_FILTER_MAX filter_zero\<rparr>) s)"
    unfolding upd_def by (rule follows_upd [OF s k]) (simp add: live_filters list_all_iff)
  have one: "sound (fst (bus_ioctl ce bus i arg s))" for bus i arg using s by (simp add: sound_def)
  have cfg: "answers (configure_all ce k w (io_config r) s)" for w
    by (rule configure_all_answers [OF s k]) (simp add: r0 d)
  note parts = cfg ioctl_init_answers [OF e s k d(1) r0(1)] bus_on_answers [OF dr s k]
    done_answers [OF clear_tx_okay [OF s k]] done_answers [OF clear_rx_okay [OF dr s k]]
    done_answers [OF clear_periodic_okay [OF s k]] done_answers [OF filters]
  show ?thesis
    unfolding ioctl_request_def active_facts(1) [OF s k] Option.bind.bind_lunit Let_def pb_load [OF d(1)]
    apply (intro answers_if parts)
    apply (simp_all only: answers_Some s funct_answers)
    apply (simp add: case_prod_beta one)
    done
qed

subsection \<open>A fast initialisation\<close>

lemma init_sent_fits: "init_fits (init_zero\<lparr>bi_raw_response := a, bi_no_response := b, bi_msg_len := n, bi_msg := m,
    bi_tx_flags := f\<rparr>)"
  by (simp add: init_fits_def init_zero_def)

lemma send_byte_keeps:
  assumes s: "keeps v s" and k: "live v k"
  shows "okay (\<lambda>(s', _). keeps v s') (send_byte_message ce k s)"
proof -
  obtain flags where flags: "j2534_u32 (ch_tx (jc_channels s ! k)) 12 = Some flags"
    using tx_words [OF keeps_live(2) [OF s k], of 12] by (auto simp: MSG_HEADER_def)
  show ?thesis
    unfolding send_byte_message_def keeps_live(1) [OF s k] Option.bind.bind_lunit flags Let_def okay_Some
    using s by (simp add: case_prod_beta)
qed

lemma settle_keeps:
  assumes s: "keeps v s" and k: "live v k"
  shows "okay (\<lambda>(s', _). keeps v s') (fast_init_settle ce k s)"
proof -
  let ?c = "jc_channels s ! k"
  have first: "okay (\<lambda>(s', _). keeps v s') (if pt_kind (ch_pending ?c) = TX_NONE then Some (s, 0)
        else do {
          let (s, rc) = vif_do (vif_bus_tx_wait (ce_vif ce) (ce_me ce) VIF_OWNER_LINK (ch_bus ?c)) s;
          if rc \<noteq> 0 then Some (s, rc) else do { s \<leftarrow> collect_bus_tx ce k s; Some (s, 0) }
        })"
  proof -
    obtain s1 rc where w: "vif_do (vif_bus_tx_wait (ce_vif ce) (ce_me ce) VIF_OWNER_LINK (ch_bus ?c)) s = (s1, rc)"
      "keeps v s1" using vif_do_E [OF s] .
    show ?thesis using s w k by (auto simp: Let_def intro!: okay_bind [OF collect_keeps])
  qed
  have rest: "okay (\<lambda>(s', _). keeps v s') (if rc \<noteq> 0 then Some (s1, bus_error rc)
     else do {
       c \<leftarrow> chan s1 k;
       if ch_tx_len c = 0 then Some (s1, J2534_OK)
       else do {
         (s, rc) \<leftarrow> send_byte_message ce k s1;
         s \<leftarrow> tx_done ce k (rc = 0) s;
         Some (s, bus_error rc)
       }
     })" if s1: "keeps v s1" for s1 :: "'a j2534" and rc
  proof -
    have "okay (\<lambda>(s', _). keeps v s') (do {
         (s, rc) \<leftarrow> send_byte_message ce k s1; s \<leftarrow> tx_done ce k (rc = 0) s; Some (s, bus_error rc) })"
      by (rule okay_bind [OF send_byte_keeps [OF s1 k]]) (auto intro!: okay_bind [OF tx_done_keeps] simp: k)
    then show ?thesis using s1 by (simp add: keeps_live(1) [OF s1 k])
  qed
  show ?thesis
    unfolding fast_init_settle_def keeps_live(1) [OF s k] Option.bind.bind_lunit
    by (rule okay_bind [OF first]) (use rest in auto)
qed

lemma fast_init_answers:
  assumes e: "env_ok ce" and s: "sound s" and k: "active k s" and d: "pb_ok BUS_INIT_MSG_MAX (fa_data r)"
  shows "answers (fast_init ce k r s)"
proof -
  let ?c = "jc_channels s ! k" and ?d = "take (pb_size (fa_data r)) (pb_bytes (fa_data r))"
  let ?sum = "if ch_flags ?c AND J2534_CHECKSUM_DISABLED = 0 then 1 else 0 :: nat"
  note K = sound_keeps [OF s] and L = active_live [OF s k]
  obtain m where m: "store_at (bi_msg init_zero) 0 ?d = Some m"
    using d by (simp add: pb_ok_def init_zero_def store_at_def)
  let ?init = "init_zero\<lparr>bi_raw_response := True, bi_no_response := fa_no_response r,
           bi_msg_len := pb_size (fa_data r), bi_msg := m,
           bi_tx_flags := (if fa_tx_flags r AND J2534_WAIT_P3 \<noteq> 0 then BUS_TX_WAIT_P3_MIN_ONLY else 0)\<rparr>"
  have go: "answers (do {
         let (s, rc, arg) = bus_ioctl ce (ch_bus ?c) BUS_IOCTL_FAST_INIT (InitArg ?init) s1;
         if rc \<noteq> 0 then Some (s, bus_error rc)
         else if fa_no_response r then Some (s, J2534_OK)
         else case arg of
             InitArg init \<Rightarrow>
               if bi_reply_len init \<le> ?sum \<or> bi_reply_len init > BUS_INIT_MSG_MAX then Some (s, J2534_INIT)
               else do {
                 c \<leftarrow> chan s k;
                 let n = bi_reply_len init - ?sum;
                 reply \<leftarrow> load_at (bi_reply init) 0 n;
                 bytes \<leftarrow> store_at (pb_bytes (om_data message_zero)) 0 reply;
                 Some (respond (\<lambda>r. r\<lparr>rp_message := Some (message_zero\<lparr>om_protocol := ch_protocol c,
                   om_timestamp_us := bi_reply_timestamp_us init, om_extra_data_index := of_nat n,
                   om_data := \<lparr>pb_size = n, pb_bytes = bytes\<rparr>\<rparr>)\<rparr>) s, J2534_OK)
               }
           | _ \<Rightarrow> None })"
    if s1: "keeps (view_of s) s1" for s1 :: "'a j2534"
  proof -
    obtain s2 rc arg where b: "bus_ioctl ce (ch_bus ?c) BUS_IOCTL_FAST_INIT (InitArg ?init) s1 = (s2, rc, arg)"
      by (metis surj_pair)
    obtain init where a: "arg = InitArg init" "init_fits init" using bus_ioctl_fits [OF e init_sent_fits b] by blast
    have c: "jc_channels s2 = jc_channels s1"
      using bus_ioctl_channels [of ce "ch_bus ?c" BUS_IOCTL_FAST_INIT "InitArg ?init" s1] b by simp
    have F: "follows s s1" by (rule keeps_follows [OF s s1])
    have s2: "sound s2" "active k s2"
      using follows_sound [OF F] follows_active [OF F s k] c by (simp_all add: sound_def active_def)
    have "\<exists>bytes. load_at (bi_reply init) 0 (bi_reply_len init - ?sum) = Some (take (bi_reply_len init - ?sum) (bi_reply init)) \<and>
        store_at (pb_bytes (om_data message_zero)) 0 (take (bi_reply_len init - ?sum) (bi_reply init)) = Some bytes"
      if "bi_reply_len init \<le> BUS_INIT_MSG_MAX"
      using that a(2) by (simp add: init_fits_def load_at_def store_at_def message_zero_def pb_zero_def BUS_INIT_MSG_MAX_def
        J2534_DATA_MAX_def)
    then show ?thesis
      unfolding b a(1) Let_def prod.case ioctl_arg.case active_facts(1) [OF s2] Option.bind.bind_lunit
      using s2(1) by (intro answers_if) (auto simp: not_less)
  qed
  show ?thesis
    unfolding fast_init_def active_facts(1) [OF s k] Option.bind.bind_lunit Let_def [of "if _ then 1 else (0 :: nat)"]
      pb_load [OF d] m
    apply (intro answers_if)
      apply (simp_all only: answers_Some s)
    apply (rule answers_bind [OF settle_keeps [OF K L]])
    apply (simp only: split_paired_all prod.case)
    apply (intro answers_if)
     apply (simp_all only: answers_Some follows_sound [OF keeps_follows [OF s]])
    apply (simp only: Let_def [of ?init] go)
    done
qed

lemma pin_sound [simp]: "sound (fst (vif_pin pin m mv s)) = sound s"
  by (simp add: vif_pin_def sound_def)

lemma plan_sound:
  assumes "sound s"
  shows "sound (fst (case plan of
            Inl err \<Rightarrow> (s, err)
          | Inr (m, mv) \<Rightarrow>
              let (s, err) = vif_pin pin m mv s in
              if err \<noteq> ESP_OK then (s, J2534_PIN_IN_USE)
              else (if m = VIF_PIN_VOLTAGE then s\<lparr>jc_voltage_pin := z\<rparr> else s, J2534_OK)))"
proof (cases plan)
  case (Inr a)
  obtain m mv where a: "a = (m, mv)" by fastforce
  obtain s1 err where v: "vif_pin pin m mv s = (s1, err)" by fastforce
  have "sound s1" using pin_sound [of pin m mv s] assms v by simp
  then show ?thesis by (simp add: Inr a v)
qed (simp add: assms)

lemma sound_fst_if: "(b \<Longrightarrow> sound (fst x)) \<Longrightarrow> (\<not> b \<Longrightarrow> sound (fst y)) \<Longrightarrow> sound (fst (if b then x else y))"
  by simp

lemma voltage_answers:
  assumes "sound s" shows "answers (Some (set_programming_voltage r s))"
proof -
  obtain s1 err where v: "vif_pin (uint (vo_pin r)) VIF_PIN_OFF 0 s = (s1, err)" by fastforce
  have s1: "sound s1" using pin_sound [of "uint (vo_pin r)" VIF_PIN_OFF 0 s] assms v by simp
  have "sound (fst (set_programming_voltage r s))"
    unfolding set_programming_voltage_def Let_def v
    by (intro sound_fst_if; (rule plan_sound [OF assms, unfolded Let_def] | simp add: assms s1)?)
  then show ?thesis by (simp add: answers_def case_prod_beta)
qed

lemma read_voltage_answers: "sound s \<Longrightarrow> answers (Some (read_voltage ce r s))"
  by (simp add: read_voltage_def Let_def case_prod_beta sound_def vif_do_def)

lemma readable_okay:
  "sound s \<Longrightarrow> list_all (\<lambda>i. channel_is_live s (find_channel s i)) is \<Longrightarrow> length out + length is \<le> CHANNELS \<Longrightarrow>
   \<exists>out'. readable_channels s is out = Some out'"
proof (induction "is" arbitrary: out)
  case (Cons i "is")
  obtain k where k: "find_channel s i = Some k" "active k s" using found_active [of s i] Cons.prems(1,2) by auto
  show ?case
    using Cons.IH [of out] Cons.IH [of "out @ [ch_id (jc_channels s ! k)]"] Cons.prems
    by (simp add: k(1) active_facts(1) [OF Cons.prems(1) k(2)])
qed simp

lemma select_answers:
  assumes "sound s" "length (se_channels r) \<le> CHANNELS" "jc_response s = response_zero"
  shows "answers (select_channels r s)"
  using readable_okay [OF assms(1), of "se_channels r" "[]"] assms
  by (auto simp: select_channels_def response_zero_def)

end
