(* ===== verification/J2534Safe.thy ===== *)
theory J2534Safe
  imports J2534Table
begin

text \<open>
The J2534 core as a whole never faults: connecting, disconnecting, dispatch, the device, and the
  sequences of calls of a host. The properties: safety over every sequence of requests and polls,
  what polling leaves alone, what a disconnect frees, and that a queued message reaches the bus.
\<close>

section \<open>Channels come and go\<close>

lemma chan_zero_ok [simp]: "chan_ok channel_zero" "physical_role channel_zero" "ch_id channel_zero = 0" "ch_parent channel_zero = 0"
  by (simp_all add: chan_ok_def channel_zero_def physical_role_def J2534_CAN_def)

text \<open>Clearing a slot together with the channels that name it.\<close>

lemma table_release:
  assumes t: "table_ok cs" and k: "k < 5" and l: "length cs' = 5"
    and cs': "\<And>j. j < 5 \<Longrightarrow> cs' ! j = (if j = k \<or> (i \<noteq> 0 \<and> ch_parent (cs ! j) = i) then channel_zero else cs ! j)"
    and i: "k < 3 \<Longrightarrow> i = ch_id (cs ! k)"
  shows "table_ok cs'"
proof -
  have r: "roles_ok cs" and ok: "list_all chan_ok cs" using t by (simp_all add: table_ok_def)
  have lc: "length cs = 5" using r by (simp add: roles_iff)
  have "chan_ok (cs' ! j)" if "j < 5" for j
    using ok lc that by (simp add: cs' list_all_length)
  then have "list_all chan_ok cs'" using l by (simp add: list_all_length)
  moreover have "roles_ok cs'"
    unfolding roles_iff
  proof (intro conjI allI impI)
    show "length cs' = 5" by (rule l)
    show "physical_role (cs' ! j)" if "j < 3" for j
      using roles_at(2) [OF r that] that by (simp add: cs')
    fix j assume j: "3 \<le> j" "j < 5" "ch_id (cs' ! j) \<noteq> 0"
    then have same: "cs' ! j = cs ! j" "j \<noteq> k" "i = 0 \<or> ch_parent (cs ! j) \<noteq> i" by (auto simp: cs' split: if_splits)
    with roles_at(3) [OF r, of j] j have R: "ch_parent (cs ! j) \<noteq> 0 \<and> ch_protocol (cs ! j) = J2534_ISOTP \<and>
       ch_bus (cs ! j) = VIF_BUS_CAN" "\<exists>w<3. ch_id (cs ! w) = ch_parent (cs ! j) \<and> ch_protocol (cs ! w) = J2534_CAN"
      by (simp_all add: CHANNELS_eq)
    show "ch_parent (cs' ! j) \<noteq> 0" "ch_protocol (cs' ! j) = J2534_ISOTP" "ch_bus (cs' ! j) = VIF_BUS_CAN"
      using R(1) same(1) by simp_all
    obtain w where w: "w < 3" "ch_id (cs ! w) = ch_parent (cs ! j)" "ch_protocol (cs ! w) = J2534_CAN" using R(2) by blast
    have "ch_parent (cs ! w) = 0" using roles_at(2) [OF r w(1)] by (simp add: physical_role_def)
    moreover have "w \<noteq> k" using i w R(1) same(3) by auto
    ultimately have "cs' ! w = cs ! w" using w(1) by (simp add: cs')
    then show "\<exists>w<3. ch_id (cs' ! w) = ch_parent (cs' ! j) \<and> ch_protocol (cs' ! w) = J2534_CAN"
      using w same(1) by (intro exI [of _ w]) simp
  qed
  ultimately show ?thesis by (simp add: table_ok_def)
qed

lemma table_put_physical:
  assumes "table_ok cs" "k < 3" "cs ! k = channel_zero" "chan_ok c" "physical_role c"
  shows "table_ok (cs[k := c])"
proof -
  have r: "roles_ok cs" using assms(1) by (simp add: table_ok_def)
  have w: "\<exists>w<3. ch_id (cs[k := c] ! w) = p \<and> ch_protocol (cs[k := c] ! w) = J2534_CAN"
    if "\<exists>w<3. ch_id (cs ! w) = p \<and> ch_protocol (cs ! w) = J2534_CAN" "p \<noteq> 0" for p
    using that assms(3) by (metis chan_zero_ok(3) nth_list_update_neq)
  have "roles_ok (cs[k := c])"
    using r assms(2,5) w unfolding roles_iff by (auto simp: nth_list_update)
  then show ?thesis using assms(1,4) by (auto simp: table_ok_def list_all_iff dest: set_update_subset_insert [THEN subsetD])
qed

lemma table_put_logical:
  assumes "table_ok cs" "3 \<le> k \<and> k < 5" "chan_ok c" "ch_parent c \<noteq> 0" "ch_protocol c = J2534_ISOTP" "ch_bus c = VIF_BUS_CAN"
    "j < 3" "ch_id (cs ! j) = ch_parent c" "ch_protocol (cs ! j) = J2534_CAN"
  shows "table_ok (cs[k := c])"
proof -
  have r: "roles_ok cs" using assms(1) by (simp add: table_ok_def)
  have n: "cs[k := c] ! w = cs ! w" if "w < 3" for w using that assms(2) by simp
  have "roles_ok (cs[k := c])"
    using r assms(2) assms(4-9) unfolding roles_iff by (auto simp: nth_list_update n cong: conj_cong)
  then show ?thesis using assms(1,3) by (auto simp: table_ok_def list_all_iff dest: set_update_subset_insert [THEN subsetD])
qed

lemma sound_length: "sound s \<Longrightarrow> length (jc_channels s) = 5"
  by (simp add: sound_def table_ok_def roles_iff)

lemma release_channel_eq:
  "k < length (jc_channels s) \<Longrightarrow>
   release_channel k s = Some (s\<lparr>jc_channels := (jc_channels s)[k := channel_zero]\<rparr>)"
  by (simp add: release_channel_def upd_def upd_opt_def chan_def)

lemma release_loop:
  assumes "length (jc_channels s) = 5" "set xs \<subseteq> {..<5}" "i \<noteq> 0"
  shows "\<exists>s'. fold_opt (\<lambda>s j. do { o' \<leftarrow> chan s j; if ch_parent o' = i then release_channel j s else Some s }) s xs = Some s' \<and>
    length (jc_channels s') = 5 \<and>
    (\<forall>j<5. jc_channels s' ! j = (if j \<in> set xs \<and> ch_parent (jc_channels s ! j) = i then channel_zero else jc_channels s ! j))"
  using assms(1,2)
proof (induction xs arbitrary: s)
  case (Cons x xs)
  define s1 where "s1 = (if ch_parent (jc_channels s ! x) = i
    then s\<lparr>jc_channels := (jc_channels s)[x := channel_zero]\<rparr> else s)"
  have x: "x < 5" using Cons.prems(2) by simp
  have step: "(do { o' \<leftarrow> chan s x; if ch_parent o' = i then release_channel x s else Some s }) = Some s1"
    using x Cons.prems(1) by (simp add: s1_def chan_def release_channel_eq)
  have l: "length (jc_channels s1) = 5" using Cons.prems(1) by (simp add: s1_def)
  obtain s' where s': "fold_opt (\<lambda>s j. do { o' \<leftarrow> chan s j; if ch_parent o' = i then release_channel j s else Some s }) s1 xs = Some s'"
    "length (jc_channels s') = 5"
    "\<forall>j<5. jc_channels s' ! j = (if j \<in> set xs \<and> ch_parent (jc_channels s1 ! j) = i then channel_zero else jc_channels s1 ! j)"
    using Cons.IH [OF l] Cons.prems(2) by auto
  have "jc_channels s' ! j = (if j \<in> set (x # xs) \<and> ch_parent (jc_channels s ! j) = i then channel_zero else jc_channels s ! j)"
    if "j < 5" for j
    using s'(3) that assms(3) Cons.prems(1) x by (auto simp: s1_def nth_list_update)
  then show ?case using s'(1,2) step by auto
qed simp

text \<open>The channels a disconnect frees: a physical channel takes its logical ones with it.\<close>

definition freed :: "'d j2534 \<Rightarrow> nat \<Rightarrow> nat \<Rightarrow> bool" where
  "freed s k j \<longleftrightarrow> j = k \<or>
     (ch_parent (jc_channels s ! k) = 0 \<and> ch_parent (jc_channels s ! j) = ch_id (jc_channels s ! k))"

lemma disconnect_okay:
  assumes s: "sound s" and k: "active k s"
  shows "okay (\<lambda>(s', rc). sound s' \<and> (rc = J2534_OK \<longrightarrow> (\<forall>j<5. if freed s k j then jc_channels s' ! j = channel_zero
      else role_of (jc_channels s' ! j) = role_of (jc_channels s ! j)))) (disconnect_channel ce k s)"
  unfolding disconnect_channel_def
proof (rule okay_bind [OF cancel_channel_keeps [OF sound_keeps [OF s] active_live [OF s k]]])
  let ?P = "\<lambda>s' :: 'a j2534. \<forall>j<5. if freed s k j then jc_channels s' ! j = channel_zero
      else role_of (jc_channels s' ! j) = role_of (jc_channels s ! j)"
  fix s1 :: "'a j2534" assume "keeps (view_of s) s1"
  then have F: "follows s s1" by (rule keeps_follows [OF s])
  note s1 = follows_sound [OF F] follows_active [OF F s k]
  have t: "table_ok (jc_channels s1)" using s1(1) by (simp add: sound_def)
  have l: "length (jc_channels s1) = 5" by (rule sound_length [OF s1(1)])
  have k5: "k < 5" "ch_id (jc_channels s1 ! k) \<noteq> 0" using s1(2) by (simp_all add: active_def CHANNELS_eq)
  have role: "role_of (jc_channels s1 ! j) = role_of (jc_channels s ! j)" if "j < 5" for j
    using follows_role [OF F _ s, of j] that by (simp add: CHANNELS_eq)
  then have fr: "freed s k j = freed s1 k j" if "j < 5" for j
    using that k5(1) unfolding freed_def role_of_def by (metis prod.inject)
  let ?c = "jc_channels s1 ! k"
  have c: "chan s1 k = Some ?c" using l k5 by (simp add: chan_def)
  show "okay (\<lambda>(s', rc). sound s' \<and> (rc = J2534_OK \<longrightarrow> ?P s')) (do {
     c \<leftarrow> chan s1 k;
     if ch_parent c \<noteq> 0 then do { s \<leftarrow> release_channel k s1; Some (s, J2534_OK) }
     else
       let (s, err) = vif_do (vif_bus_close (ce_vif ce) (ce_me ce) VIF_OWNER_LINK (ch_bus c)) s1
       in if err \<noteq> ESP_OK then Some (s, J2534_FAILED)
          else do {
            s \<leftarrow> fold_opt (\<lambda>s i. do {
                o' \<leftarrow> chan s i;
                if ch_parent o' = ch_id c then release_channel i s else Some s
              }) s all_indices;
            s \<leftarrow> release_channel k s;
            Some (s, J2534_OK)
          } })"
  proof (cases "ch_parent ?c = 0")
    case False
    have k3: "\<not> k < 3"
      using roles_at(2) [of "jc_channels s1" k] t False by (auto simp: table_ok_def physical_role_def)
    have "table_ok ((jc_channels s1)[k := channel_zero])"
      using t k5(1) by (rule table_release [where i = 0]) (use l k3 in \<open>auto simp: nth_list_update\<close>)
    moreover have "freed s k j = (j = k)" if "j < 5" for j
      using fr [OF that] False by (simp add: freed_def)
    ultimately show ?thesis using False l k5 role
      by (simp add: c release_channel_eq sound_def nth_list_update)
  next
    case True
    obtain s2 err where v: "vif_do (vif_bus_close (ce_vif ce) (ce_me ce) VIF_OWNER_LINK (ch_bus ?c)) s1 = (s2, err)"
      by fastforce
    have s2: "jc_channels s2 = jc_channels s1"
      using channels_other(3) [of "vif_bus_close (ce_vif ce) (ce_me ce) VIF_OWNER_LINK (ch_bus ?c)" s1] v by simp
    obtain s3 where s3: "fold_opt (\<lambda>s i. do {
                o' \<leftarrow> chan s i;
                if ch_parent o' = ch_id ?c then release_channel i s else Some s }) s2 all_indices = Some s3"
      "length (jc_channels s3) = 5"
      "\<forall>j<5. jc_channels s3 ! j = (if j \<in> set all_indices \<and> ch_parent (jc_channels s2 ! j) = ch_id ?c
         then channel_zero else jc_channels s2 ! j)"
      using release_loop [of s2 all_indices "ch_id ?c"] l s2 k5 by (auto simp: all_indices_def CHANNELS_eq subset_iff)
    let ?cs = "(jc_channels s3)[k := channel_zero]"
    have cs: "?cs ! j = (if j = k \<or> ch_parent (jc_channels s1 ! j) = ch_id ?c then channel_zero else jc_channels s1 ! j)"
      if "j < 5" for j
      using that s3(2,3) s2 k5(1) by (simp add: nth_list_update all_indices_def CHANNELS_eq)
    have "table_ok ?cs"
      using t k5(1) by (rule table_release [where i = "ch_id ?c"]) (use s3(2) k5 cs in simp_all)
    moreover have "freed s k j = (j = k \<or> ch_parent (jc_channels s1 ! j) = ch_id ?c)" if "j < 5" for j
      using fr [OF that] True by (simp add: freed_def)
    moreover have "jc_channels s3 ! j = (if ch_parent (jc_channels s1 ! j) = ch_id ?c then channel_zero
        else jc_channels s1 ! j)" if "j < 5" for j
      using that s3(3) s2 by (simp add: all_indices_def CHANNELS_eq)
    ultimately show ?thesis using True s2 s3(2) k5(1) s1(1) role cs
      by (simp add: c v s3(1) release_channel_eq sound_def)
  qed
qed

lemma disconnect_answers: "sound s \<Longrightarrow> active k s \<Longrightarrow> answers (disconnect_channel ce k s)"
  unfolding answers_def by (drule (1) disconnect_okay) (erule okay_mono, auto)

definition fresh :: "u32w \<Rightarrow> byte list \<Rightarrow> byte list \<Rightarrow> byte list \<Rightarrow> channel" where
  "fresh n rx tx a = channel_zero\<lparr>ch_rx := rx, ch_tx := tx, ch_assembly := a, ch_id := n\<rparr>"

lemma alloc_block_len:
  assumes "env_ok ce" "alloc_block ce n s = (s', b)"
  shows "(\<forall>x. b = Some x \<longrightarrow> length x = n) \<and> env_step s s'"
proof -
  obtain d x where "ce_alloc ce n (snd (jc_vif s)) = (d, x)" by fastforce
  moreover have "case ce_alloc ce n (snd (jc_vif s)) of (d', b) \<Rightarrow> (case b of None \<Rightarrow> True | Some b \<Rightarrow> length b = n)"
    using assms(1) by (simp add: env_ok_def)
  ultimately show ?thesis using assms(2) by (auto simp: alloc_block_def env_step_def)
qed

definition allocated :: "bool \<Rightarrow> 'd j2534 \<Rightarrow> 'd j2534 \<Rightarrow> nat \<Rightarrow> bool" where
  "allocated logical s s' k \<longleftrightarrow> (if logical then 3 \<le> k \<and> k < 5 else k < 3) \<and> jc_channels s ! k = channel_zero \<and>
     (\<exists>n rx tx a. n \<noteq> 0 \<and> length rx = RX_BYTES \<and> length tx = TX_BYTES \<and>
       (logical \<longrightarrow> length a = ISOTP_MAX_PAYLOAD + 5) \<and>
       jc_channels s' = (jc_channels s)[k := fresh n rx tx a])"

lemma allocate_okay:
  assumes e: "env_ok ce" and s: "sound s"
  shows "okay (\<lambda>(s', ko). case ko of None \<Rightarrow> sound s' | Some k \<Rightarrow> allocated logical s s' k) (allocate_channel ce logical s)"
proof (cases "find (\<lambda>i. ch_id (jc_channels s ! i) = 0) (if logical then logical_indices else physical_indices)")
  case None
  then show ?thesis using s by (simp add: allocate_channel_def)
next
  case (Some k)
  have k: "if logical then 3 \<le> k \<and> k < 5 else k < 3" and id0: "ch_id (jc_channels s ! k) = 0"
    using find_mem [OF Some]
    by (auto simp: logical_indices_def physical_indices_def CHANNELS_eq J2534_PHYSICAL_MAX_def split: if_splits)
  then have k5: "k < 5" by (auto split: if_splits)
  have l: "length (jc_channels s) = 5" by (rule sound_length [OF s])
  have zero: "jc_channels s ! k = channel_zero"
    using s id0 k5 l by (auto simp: sound_def table_ok_def list_all_length chan_ok_def)
  obtain s1 rx where 1: "alloc_block ce RX_BYTES s = (s1, rx)" by fastforce
  obtain s2 tx where 2: "alloc_block ce TX_BYTES s1 = (s2, tx)" by fastforce
  obtain s3 a where 3: "(if logical then alloc_block ce (ISOTP_MAX_PAYLOAD + 5) s2 else (s2, Some [])) = (s3, a)" by fastforce
  have e1: "env_step s s1" "\<forall>x. rx = Some x \<longrightarrow> length x = RX_BYTES" using alloc_block_len [OF e 1] by auto
  have e2: "env_step s1 s2" "\<forall>x. tx = Some x \<longrightarrow> length x = TX_BYTES" using alloc_block_len [OF e 2] by auto
  have e3: "env_step s2 s3" "\<forall>x. a = Some x \<longrightarrow> logical \<longrightarrow> length x = ISOTP_MAX_PAYLOAD + 5"
    using alloc_block_len [OF e] 3 by (cases logical; auto)+
  have c: "jc_channels s3 = jc_channels s"
    using env_step_fields [OF e1(1)] env_step_fields [OF e2(1)] env_step_fields [OF e3(1)] by simp
  obtain s4 n where n: "new_id s3 = (s4, n)" "s4 = fst (new_id s3)" "n \<noteq> 0" using new_id_E .
  have c4: "jc_channels s4 = jc_channels s" using c n(2) by simp
  have no: "okay (\<lambda>(s', ko). case ko of None \<Rightarrow> sound s' | Some k \<Rightarrow> allocated logical s s' k)
      (do { s \<leftarrow> release_channel k s3; Some (s, None) })"
  proof -
    have "(jc_channels s)[k := channel_zero] = jc_channels s" by (simp add: zero [symmetric])
    then show ?thesis using s c l k5 by (simp add: release_channel_eq sound_def)
  qed
  have yes: "okay (\<lambda>(s', ko). case ko of None \<Rightarrow> sound s' | Some k \<Rightarrow> allocated logical s s' k) (do {
        let (s, n) = new_id s3;
        s \<leftarrow> upd k (\<lambda>c. c\<lparr>ch_rx := rx', ch_tx := tx', ch_assembly := a', ch_id := n\<rparr>) s;
        Some (s, Some k) })" if "rx = Some rx'" "tx = Some tx'" "a = Some a'" for rx' tx' a'
  proof -
    have "allocated logical s (s4\<lparr>jc_channels := (jc_channels s)[k := fresh n rx' tx' a']\<rparr>) k"
      unfolding allocated_def using k zero n(3) that e1(2) e2(2) e3(2)
      by (intro conjI exI [of _ n] exI [of _ rx'] exI [of _ tx'] exI [of _ a']) simp_all
    then show ?thesis using l k5 by (simp add: n(1) upd_def upd_opt_def chan_def c4 zero fresh_def)
  qed
  show ?thesis
    unfolding allocate_channel_def Some option.case Let_def 1 2 3 prod.case
    using no yes by (auto simp: Let_def split: option.split)
qed

lemma fresh_live:
  assumes "length rx = RX_BYTES" "length tx = TX_BYTES"
  shows "live_ok ((fresh n rx tx a)\<lparr>ch_bus := b, ch_protocol := p, ch_flags := f, ch_rate := r\<rparr>)"
  using assms
  by (auto simp: fresh_def channel_zero_def live_ok_def ring_holds_def ring_view_def tx_fits_def list_all_iff
      schedule_wf_def intro!: exI [of _ "[]"])

lemma parent_zero: "ch_parent (fresh n rx tx a) = 0" "ch_id (fresh n rx tx a) = n"
  by (simp_all add: fresh_def)

lemma connect_plan_bus:
  "connect_plan proto flags rate = Inr (bus, allowed, pins) \<Longrightarrow> (bus = VIF_BUS_CAN) = (proto = J2534_CAN)"
  by (auto simp: connect_plan_def Let_def split: if_splits)

lemma env_step_trans: "env_step a b \<Longrightarrow> env_step b c \<Longrightarrow> env_step a c"
  by (cases a; cases b; cases c) (simp add: env_step_def)

lemma param_set_env: "param_set ce bus p x s = (s', rc) \<Longrightarrow> env_step s s'"
  unfolding param_set_def by (metis env_steps(3) fst_conv)

lemma param_chain_env: "env_step s (fst (param_chain ce bus ps s))"
proof (induction ce bus ps s rule: param_chain.induct)
  case (2 ce bus p v ps s)
  obtain s1 rc where p: "param_set ce bus (bus_param_num p) v s = (s1, rc)" by fastforce
  then have 1: "env_step s s1" using env_steps(3) unfolding param_set_def by (metis fst_conv)
  show ?case
  proof (cases "rc = 0")
    case True
    then have "env_step s1 (fst (param_chain ce bus ps s1))" using 2 p by simp
    from env_step_trans [OF 1 this] show ?thesis using p True by simp
  qed (use 1 p in simp)
qed (simp add: env_step_def)

lemma open_answers:
  assumes t: "table_ok cs0" and k: "k < 3" and z: "cs0 ! k = channel_zero" and s: "sound s"
    and c: "jc_channels s = cs0[k := c]" and act: "active k s"
  shows "answers (open_channel ce k s)"
proof -
  let ?c = "jc_channels s ! k"
  have l: "length cs0 = 5" using t by (simp add: table_ok_def roles_iff)
  have undo: "cs0[k := channel_zero] = cs0" by (simp add: z [symmetric])
  obtain s1 err where 1: "vif_do (vif_bus_open (ce_vif ce) (ce_me ce) VIF_OWNER_LINK (ch_bus ?c)
       (Some \<lparr>bc_bitrate = unat (ch_rate ?c), bc_manual_recovery = True\<rparr>)) s = (s1, err)" by fastforce
  then have e1: "env_step s s1" using env_steps(3) by (metis fst_conv)
  have c1: "jc_channels s1 = cs0[k := c]" "sound s1" "active k s1" using env_step_fields [OF e1] c s act by auto
  obtain s2 err2 where 2: "vif_do (vif_bus_close (ce_vif ce) (ce_me ce) VIF_OWNER_LINK (ch_bus ?c)) s1 = (s2, err2)" by fastforce
  then have e2: "env_step s1 s2" using env_steps(3) by (metis fst_conv)
  have c2: "jc_channels s2 = cs0[k := c]" using env_step_fields [OF e2] c1 by auto
  obtain s3 rc where 3: "(if ch_bus ?c = VIF_BUS_KLINE
      then param_chain ce (ch_bus ?c) (kline_params (ch_protocol ?c) (ch_flags ?c) (ch_rate ?c)) s1 else (s1, 0)) = (s3, rc)"
    by fastforce
  then have e3: "env_step s1 s3" using param_chain_env [of s1 ce "ch_bus ?c"] by (auto split: if_splits) (metis fst_conv)+
  have c3: "sound s3" "active k s3" using env_step_fields [OF e3] c1 by auto
  obtain s4 z4 where 4: "(if ch_bus ?c \<noteq> VIF_BUS_CAN then param_set ce (ch_bus ?c) (bus_param_num BUS_P_DUPLICATE_MS) 0 s3
      else (s3, 0)) = (s4, z4)" by fastforce
  then have "env_step s3 s4" by (auto split: if_splits dest: param_set_env simp del: bus_param_num.simps)
  then have c4: "sound s4" "active k s4" using env_step_fields c3 by auto
  have fail: "answers (do { s \<leftarrow> release_channel k s2; Some (s, J2534_CONFLICT) })"
    using l k t by (simp add: release_channel_eq c2 sound_def undo)
  have disc: "answers (do { (s, _) \<leftarrow> disconnect_channel ce k s4; Some (s, J2534_VALUE) })"
    by (rule answers_bind [OF disconnect_answers [OF c4, unfolded answers_def]]) auto
  show ?thesis
    unfolding open_channel_def active_facts(1) [OF s act] Option.bind.bind_lunit Let_def 1 2 3 4 prod.case
    by (intro answers_if fail disc) (simp add: c4)
qed

lemma connect_answers:
  assumes e: "env_ok ce" and s: "sound s"
  shows "answers (connect_channel ce r s)"
proof -
  have go: "answers (do {
              (s, k) \<leftarrow> allocate_channel ce False s;
              case k of
                None \<Rightarrow> Some (s, J2534_LIMIT)
              | Some k \<Rightarrow> do {
                  s \<leftarrow> upd k (\<lambda>c. c\<lparr>ch_bus := bus, ch_protocol := cn_protocol r, ch_flags := cn_flags r,
                    ch_rate := cn_baudrate r\<rparr>) s;
                  open_channel ce k s
                } })"
    if plan: "connect_plan (cn_protocol r) (cn_flags r) (cn_baudrate r) = Inr (bus, allowed, pins)" for bus allowed pins
  proof (rule answers_bind [OF allocate_okay [OF e s]], simp only: split_paired_all prod.case)
    fix s1 :: "'a j2534" and ko
    assume al: "case ko of None \<Rightarrow> sound s1 | Some k \<Rightarrow> allocated False s s1 k"
    show "answers (case ko of
                None \<Rightarrow> Some (s1, J2534_LIMIT)
              | Some k \<Rightarrow> do {
                  s \<leftarrow> upd k (\<lambda>c. c\<lparr>ch_bus := bus, ch_protocol := cn_protocol r, ch_flags := cn_flags r,
                    ch_rate := cn_baudrate r\<rparr>) s1;
                  open_channel ce k s })"
    proof (cases ko)
      case (Some k)
      obtain n rx tx a where k: "k < 3" "jc_channels s ! k = channel_zero" "n \<noteq> 0" "length rx = RX_BYTES"
        "length tx = TX_BYTES" "jc_channels s1 = (jc_channels s)[k := fresh n rx tx a]"
        using al Some by (auto simp: allocated_def)
      have t: "table_ok (jc_channels s)" using s by (simp add: sound_def)
      have l: "length (jc_channels s) = 5" by (rule sound_length [OF s])
      let ?c = "(fresh n rx tx a)\<lparr>ch_bus := bus, ch_protocol := cn_protocol r, ch_flags := cn_flags r, ch_rate := cn_baudrate r\<rparr>"
      have c: "chan_ok ?c" "physical_role ?c"
        using fresh_live [OF k(4,5), where n = n and a = a and b = bus and p = "cn_protocol r" and f = "cn_flags r" and r = "cn_baudrate r"] k(3) connect_plan_bus [OF plan]
        by (simp_all add: chan_ok_def parent_zero physical_role_def)
      let ?s = "s1\<lparr>jc_channels := (jc_channels s)[k := ?c]\<rparr>"
      have u: "upd k (\<lambda>c. c\<lparr>ch_bus := bus, ch_protocol := cn_protocol r, ch_flags := cn_flags r,
                    ch_rate := cn_baudrate r\<rparr>) s1 = Some ?s"
        using k l by (simp add: upd_def upd_opt_def chan_def)
      have "sound ?s" using table_put_physical [OF t k(1,2) c] by (simp add: sound_def)
      moreover have "active k ?s" using k l by (simp add: active_def CHANNELS_eq parent_zero)
      ultimately have "answers (open_channel ce k ?s)"
        by (intro open_answers [OF t k(1,2), where c = ?c]) simp_all
      then show ?thesis by (simp add: Some u)
    qed (use al in simp)
  qed
  show ?thesis
    unfolding connect_channel_def
    by (intro answers_if) (auto simp: s split: sum.split intro!: answers_if go)
qed

subsection \<open>Logical channels\<close>

definition logical_request_ok :: "req_logical_connect \<Rightarrow> bool" where
  "logical_request_ok r \<longleftrightarrow> pb_ok 5 (lc_local_address r) \<and> pb_ok 5 (lc_remote_address r)"

lemma taken_okay:
  assumes s: "sound s" and r: "pb_ok 5 (lc_local_address r)" and p: "p \<noteq> 0"
  shows "set is \<subseteq> {3..<5} \<Longrightarrow> address_taken s p r is \<noteq> None"
proof (induction "is")
  case (Cons i "is")
  have i: "i < CHANNELS" using Cons.prems by (simp add: CHANNELS_eq)
  note K = sound_keeps [OF s]
  have "length (ch_local (jc_channels s ! i)) = 5" if "ch_parent (jc_channels s ! i) = p"
    using keeps_parent [OF K i] keeps_live(2) [OF K] that p by (auto simp: live_ok_def)
  then show ?case using Cons r by (auto simp: keeps_chan(1) [OF K i] load_at_def pb_ok_def)
qed simp

lemma descriptor_okay:
  assumes "logical_request_ok r"
  shows "okay (\<lambda>b. b \<longrightarrow> can_id_valid (pb_bytes (lc_local_address r)) (lc_local_flags r) = Some True \<and>
      can_id_valid (pb_bytes (lc_remote_address r)) (lc_remote_flags r) = Some True) (logical_descriptor_ok ph r)"
proof -
  obtain x y where "can_id_valid (pb_bytes (lc_local_address r)) (lc_local_flags r) = Some x"
    "can_id_valid (pb_bytes (lc_remote_address r)) (lc_remote_flags r) = Some y"
    using can_id_okay [of "pb_bytes (lc_local_address r)" "lc_local_flags r"]
      can_id_okay [of "pb_bytes (lc_remote_address r)" "lc_remote_flags r"] assms
    by (auto simp: logical_request_ok_def pb_ok_def)
  then show ?thesis by (simp add: logical_descriptor_ok_def Let_def)
qed

lemma valid_default: "valid_id t \<Longrightarrow> valid_id r \<Longrightarrow> valid_config ((isotp_config_default t r)\<lparr>extended_address := a,
    rx_address := b, tx_address := c, pad := d\<rparr>)"
  by (simp add: valid_config_def isotp_config_default_def INT32_MAX_def)

lemma frame_id_valid:
  assumes "can_id_valid data flags = Some True" "be32 data = Some i"
  shows "valid_id (frame_id i flags)"
  using assms by (intro valid_frame_id) (simp add: can_id_valid_def)

lemma logical_setup_okay:
  assumes r: "logical_request_ok r" and len: "length rx = RX_BYTES" "length tx = TX_BYTES" "length a = ISOTP_MAX_PAYLOAD + 5"
    and v: "can_id_valid (pb_bytes (lc_local_address r)) (lc_local_flags r) = Some True"
      "can_id_valid (pb_bytes (lc_remote_address r)) (lc_remote_flags r) = Some True"
    and ph: "ch_id ph \<noteq> 0" and n: "n \<noteq> 0"
  shows "okay (\<lambda>c. chan_ok c \<and> role_of c = (n, ch_id ph, J2534_ISOTP, ch_bus ph)) (logical_setup ph r (fresh n rx tx a))"
proof -
  let ?L = "pb_bytes (lc_local_address r)" and ?R = "pb_bytes (lc_remote_address r)"
  let ?lf = "lc_local_flags r" and ?rf = "lc_remote_flags r"
  have l: "length ?L = 5" "length ?R = 5" using r by (simp_all add: logical_request_ok_def pb_ok_def)
  obtain li where li: "be32 ?L = Some li" using be32_okay [of ?L] l by auto
  obtain ri where ri: "be32 ?R = Some ri" using be32_okay [of ?R] l by auto
  let ?cfg = "(isotp_config_default (frame_id ri ?rf) (frame_id li ?lf))\<lparr>
       extended_address := (?lf AND J2534_ADDR \<noteq> 0), rx_address := ?L ! 4, tx_address := ?R ! 4,
       pad := (?rf AND J2534_PAD \<noteq> 0)\<rparr>"
  have cfg: "valid_config ?cfg" using frame_id_valid [OF v(2) ri] frame_id_valid [OF v(1) li] by (rule valid_default)
  let ?c = "(fresh n rx tx a)\<lparr>ch_parent := ch_id ph, ch_bus := ch_bus ph, ch_protocol := J2534_ISOTP,
       ch_flags := lc_flags r, ch_local_flags := ?lf, ch_remote_flags := ?rf,
       ch_tx_timeout_a_us := 1000000, ch_local := ?L, ch_remote := ?R, ch_config := ?cfg,
       ch_legacy_channel := lc_legacy_channel r\<rparr>"
  let ?al = "address_len ?c"
  let ?buf = "take ISOTP_MAX_PAYLOAD (drop ?al a)"
  have al: "?al \<le> 5" by (rule address_len_le)
  have bl: "length ?buf = ISOTP_MAX_PAYLOAD" "length (take ?al a) = ?al" using al len(3) by simp_all
  obtain rxm where rxm: "isotp_rx_init ?cfg (Some ?buf) ISOTP_MAX_PAYLOAD = Inr rxm"
    using cfg by (simp add: isotp_rx_init_def)
  have fits: "rx_fits rxm" using rx_wf_init [OF rxm] rxm cfg bl(1) by (auto simp: rx_fits_def isotp_rx_init_def)
  obtain txm where txm: "isotp_tx_init ?cfg = Inr txm" using cfg by (simp add: isotp_tx_init_def)
  have res: "logical_setup ph r (fresh n rx tx a) = Some (?c\<lparr>ch_iso_rx := rxm, ch_assembly := take ?al a, ch_iso_tx := txm\<rparr>)"
    using l li ri rxm txm by (simp add: logical_setup_def Let_def iso_tx_reset_def fresh_def)
  have base: "live_ok ((fresh n rx tx (take ?al a))\<lparr>ch_bus := ch_bus ph, ch_protocol := J2534_ISOTP, ch_flags := lc_flags r, ch_rate := 0\<rparr>)"
    using len(1,2) by (rule fresh_live)
  have "live_ok (?c\<lparr>ch_iso_rx := rxm, ch_assembly := take ?al a, ch_iso_tx := txm\<rparr>)"
    using base fits cfg bl(2) tx_wf_init [OF txm] l ph
    by (simp add: live_parts rx_fits_def fresh_def channel_zero_def list_all_iff job_fits_def job_zero_def J2534_SCHEDULE_DATA_MAX_def)
  then show ?thesis using n by (simp add: res chan_ok_def parent_zero role_of_def)
qed

lemma logical_connect_answers:
  assumes e: "env_ok ce" and s: "sound s" and p: "active p s" and r: "logical_request_ok r"
  shows "answers (logical_connect ce p r s)"
proof (cases "ch_protocol (jc_channels s ! p) = J2534_CAN")
  case False
  then show ?thesis using s by (simp add: logical_connect_def active_facts(1) [OF s p])
next
  case can: True
  let ?ph = "jc_channels s ! p"
  have t: "table_ok (jc_channels s)" using s by (simp add: sound_def)
  then have roles: "roles_ok (jc_channels s)" by (simp add: table_ok_def)
  have l: "length (jc_channels s) = 5" by (rule sound_length [OF s])
  have id: "ch_id ?ph \<noteq> 0" "p < 5" using p by (simp_all add: active_def CHANNELS_eq)
  have p3: "p < 3" using roles_at(3) [OF roles, of p] id can
    by (force simp: CHANNELS_eq J2534_CAN_def J2534_ISOTP_def not_less)
  have bus: "ch_bus ?ph = VIF_BUS_CAN" using roles_at(2) [OF roles p3] can by (simp add: physical_role_def)
  have go: "answers (do {
           (s, k) \<leftarrow> allocate_channel ce True s;
           case k of
             None \<Rightarrow> Some (s, J2534_LIMIT)
           | Some k \<Rightarrow> do {
               s \<leftarrow> upd_opt k (logical_setup ?ph r) s;
               c \<leftarrow> chan s k;
               Some (respond (\<lambda>r. r\<lparr>rp_id := ch_id c\<rparr>) s, J2534_OK)
             } })"
    if v: "can_id_valid (pb_bytes (lc_local_address r)) (lc_local_flags r) = Some True"
      "can_id_valid (pb_bytes (lc_remote_address r)) (lc_remote_flags r) = Some True"
  proof (rule answers_bind [OF allocate_okay [OF e s]], simp only: split_paired_all prod.case)
    fix s1 :: "'a j2534" and ko
    assume al: "case ko of None \<Rightarrow> sound s1 | Some k \<Rightarrow> allocated True s s1 k"
    show "answers (case ko of
             None \<Rightarrow> Some (s1, J2534_LIMIT)
           | Some k \<Rightarrow> do {
               s \<leftarrow> upd_opt k (logical_setup ?ph r) s1;
               c \<leftarrow> chan s k;
               Some (respond (\<lambda>r. r\<lparr>rp_id := ch_id c\<rparr>) s, J2534_OK)
             })"
    proof (cases ko)
      case (Some k)
      obtain n rx tx a where k: "3 \<le> k \<and> k < 5" "n \<noteq> 0" "length rx = RX_BYTES"
        "length tx = TX_BYTES" "length a = ISOTP_MAX_PAYLOAD + 5" "jc_channels s1 = (jc_channels s)[k := fresh n rx tx a]"
        using al Some by (auto simp: allocated_def)
      obtain c where c: "logical_setup ?ph r (fresh n rx tx a) = Some c" "chan_ok c"
        "role_of c = (n, ch_id ?ph, J2534_ISOTP, ch_bus ?ph)"
        using logical_setup_okay [OF r k(3-5) v id(1) k(2)] by (auto simp: okay_def)
      have "table_ok ((jc_channels s)[k := c])"
        by (rule table_put_logical [OF t k(1) c(2) _ _ _ p3]) (use c(3) id bus can in \<open>auto simp: role_of_def\<close>)
      then show ?thesis using k l c by (simp add: Some upd_opt_def chan_def sound_def)
    qed (use al in simp)
  qed
  have taken: "\<exists>b. address_taken s (ch_id ?ph) r logical_indices = Some b"
    using taken_okay [OF s, of r "ch_id ?ph" logical_indices] r id
    by (auto simp: logical_request_ok_def logical_indices_def CHANNELS_eq J2534_PHYSICAL_MAX_def)
  have desc: "answers (do {
       descriptor \<leftarrow> logical_descriptor_ok ?ph r;
       if \<not> descriptor then Some (s, J2534_DESCRIPTOR)
       else do {
         taken \<leftarrow> address_taken s (ch_id ?ph) r logical_indices;
         if taken then Some (s, J2534_NOT_UNIQUE)
         else do {
           (s, k) \<leftarrow> allocate_channel ce True s;
           case k of
             None \<Rightarrow> Some (s, J2534_LIMIT)
           | Some k \<Rightarrow> do {
               s \<leftarrow> upd_opt k (logical_setup ?ph r) s;
               c \<leftarrow> chan s k;
               Some (respond (\<lambda>r. r\<lparr>rp_id := ch_id c\<rparr>) s, J2534_OK)
             }
         }
       } })"
  proof (rule answers_bind [OF descriptor_okay [OF r]])
    obtain b where b: "address_taken s (ch_id ?ph) r logical_indices = Some b" using taken by blast
    fix descriptor assume d: "descriptor \<longrightarrow> can_id_valid (pb_bytes (lc_local_address r)) (lc_local_flags r) = Some True \<and>
      can_id_valid (pb_bytes (lc_remote_address r)) (lc_remote_flags r) = Some True"
    show "answers (if \<not> descriptor then Some (s, J2534_DESCRIPTOR)
       else do {
         taken \<leftarrow> address_taken s (ch_id ?ph) r logical_indices;
         if taken then Some (s, J2534_NOT_UNIQUE)
         else do {
           (s, k) \<leftarrow> allocate_channel ce True s;
           case k of
             None \<Rightarrow> Some (s, J2534_LIMIT)
           | Some k \<Rightarrow> do {
               s \<leftarrow> upd_opt k (logical_setup ?ph r) s;
               c \<leftarrow> chan s k;
               Some (respond (\<lambda>r. r\<lparr>rp_id := ch_id c\<rparr>) s, J2534_OK)
             }
         }
       })"
      unfolding b Option.bind.bind_lunit
      by (intro answers_if go) (use d s in auto)
  qed
  show ?thesis
    unfolding logical_connect_def active_facts(1) [OF s p] Option.bind.bind_lunit
    by (intro answers_if desc) (simp_all add: s)
qed

section \<open>The device\<close>

lemma table_zero: "table_ok (replicate 5 channel_zero)"
proof -
  have "replicate 5 channel_zero ! k = channel_zero" if "k < 5" for k using that by simp
  then show ?thesis
    by (auto simp: table_ok_def list_all_iff roles_iff)
qed

lemma release_all:
  assumes "length (jc_channels s) = 5"
  shows "fold_opt (\<lambda>s k. release_channel k s) s all_indices = Some (s\<lparr>jc_channels := replicate 5 channel_zero\<rparr>)"
proof -
  obtain a b c d e where cs: "jc_channels s = [a, b, c, d, e]"
    using assms by (auto simp: numeral_eq_Suc length_Suc_conv)
  have i: "all_indices = [0, 1, 2, 3, 4]" by (simp add: all_indices_def CHANNELS_eq upt_rec)
  show ?thesis unfolding i by (simp add: release_channel_eq cs numeral_eq_Suc)
qed

lemma close_answers:
  assumes "sound s" shows "answers (close_device ce i s)"
proof -
  let ?s = "(vif_upd (\<lambda>(g, d). (vif_pin_release_all VIF_OWNER_LINK g, d)) s)\<lparr>jc_voltage_pin := -1\<rparr>"
  obtain s1 err where r: "release_all_buses ce ?s = (s1, err)" by fastforce
  then have "env_step ?s s1" using env_steps(3) [of ?s] unfolding release_all_buses_def by (metis fst_conv)
  then have c: "jc_channels s1 = jc_channels s" using env_step_fields [of ?s s1] by simp
  have "sound s1" using assms c by (simp add: sound_def)
  then show ?thesis
    unfolding close_device_def Let_def r prod.case
    using assms by (simp add: release_all sound_length sound_def table_zero)
qed

lemma open_device_answers:
  assumes "sound s" shows "answers (Some (open_device ce s))"
proof -
  obtain s1 err where r: "release_all_buses ce s = (s1, err)" by fastforce
  then have "env_step s s1" using env_steps(3) [of s] unfolding release_all_buses_def by (metis fst_conv)
  then have "sound s1" using env_step_fields [of s s1] assms by simp
  then show ?thesis using assms by (simp add: open_device_def r new_id_def Let_def)
qed

section \<open>Dispatch\<close>

text \<open>What the decoder guarantees: sizes and counts within the limits of \<open>opendiag.options\<close>.\<close>

fun command_ok :: "command \<Rightarrow> bool" where
  "command_ok (CmdQueue r) = message_ok (qu_message r)"
| "command_ok (CmdStartPeriodic r) = message_ok (pr_message r)"
| "command_ok (CmdStartRepeat r) = repeat_request_ok r"
| "command_ok (CmdStartFilter r) = filter_request_ok r"
| "command_ok (CmdFastInit r) = pb_ok BUS_INIT_MSG_MAX (fa_data r)"
| "command_ok (CmdIoctl r) = ioctl_ok r"
| "command_ok (CmdLogicalConnect r) = logical_request_ok r"
| "command_ok (CmdSelect r) = (length (se_channels r) \<le> CHANNELS)"
| "command_ok _ = True"

lemma dispatch_live_answers:
  assumes e: "env_ok ce" and s: "sound s" and k: "active k s" and c: "command_ok cmd" and r: "jc_response s = response_zero"
  shows "answers (dispatch_live ce k cmd s)"
  using c
  by (cases cmd) (simp_all add: s read_answers [OF s k] queue_answers [OF s k] start_periodic_answers [OF s k]
    stop_scheduled_answers [OF s k] start_repeat_answers [OF s] query_repeat_answers [OF s] repeat_stop_answers [OF s]
    start_filter_answers [OF s k] stop_filter_answers [OF s k] fast_init_answers [OF e s k] ioctl_answers [OF e s k _ r]
    logical_connect_answers [OF e s k])

lemma dispatch_disconnect_answers: "sound s \<Longrightarrow> active k s \<Longrightarrow> answers (dispatch_disconnect ce k l s)"
  by (simp add: dispatch_disconnect_def active_facts(1) disconnect_answers)

lemma dispatch_channel_answers:
  assumes e: "env_ok ce" and s: "sound s" and c: "command_ok cmd" and r: "jc_response s = response_zero"
  shows "answers (dispatch_channel_request ce cmd s)"
proof (cases "command_channel cmd")
  case None
  then show ?thesis using s by (simp add: dispatch_channel_request_def)
next
  case (Some i)
  show ?thesis
  proof (cases "find_channel s i")
    case None
    then show ?thesis using s Some by (simp add: dispatch_channel_request_def)
  next
    case k: (Some k)
    note a = found_active' [OF s k]
    have "answers (if \<not> channel_is_live s (Some k) then Some (s, J2534_CHANNEL) else dispatch_live ce k cmd s)"
      using s dispatch_live_answers [OF e s a c r] by simp
    then show ?thesis
      unfolding dispatch_channel_request_def Some option.case k
      by (cases cmd) (simp_all only: command.case dispatch_disconnect_answers [OF s a])
  qed
qed

lemma dispatch_answers:
  assumes e: "env_ok ce" and s: "sound s" and c: "command_ok cmd" and r: "jc_response s = response_zero"
  shows "answers (dispatch_request ce cmd s)"
proof -
  note D = dispatch_channel_answers [OF e s _ r]
  have plain: "answers (Some (reply_text t s))" "answers (Some (read_capabilities s))" for t
    using s by (simp_all add: reply_text_def read_capabilities_def)
  show ?thesis
    unfolding dispatch_request_def using c
    by (cases cmd) (simp_all only: command.case if_split answers_Some s plain D open_device_answers close_answers
      connect_answers [OF e s] voltage_answers read_voltage_answers select_answers [OF s _ r] command_ok.simps simp_thms)
qed

definition codec_ok :: "codec \<Rightarrow> bool" where
  "codec_ok cd \<longleftrightarrow> (\<forall>input. case cd_decode cd input of None \<Rightarrow> True | Some c \<Rightarrow> command_ok c)"

lemma run_command_sound:
  assumes e: "env_ok ce" and s: "sound s" and c: "\<And>c. cmd = Some c \<Longrightarrow> command_ok c"
  shows "okay sound (run_command ce cmd op s)"
proof -
  let ?s = "s\<lparr>jc_response := response_zero\<rparr>"
  have "answers (case cmd of
         None \<Rightarrow> Some (?s, J2534_MSG)
       | Some c \<Rightarrow> if command_tag c \<noteq> unat op + 1 then Some (?s, J2534_MSG) else dispatch_request ce c ?s)"
    using s c dispatch_answers [OF e, of ?s] by (auto split: option.split)
  then show ?thesis
    unfolding run_command_def Let_def answers_def by (rule okay_bind) auto
qed

lemma request_sound:
  assumes "env_ok ce" "codec_ok cd" "sound s"
  shows "okay (\<lambda>(s', _). sound s') (j2534_core_request ce cd op input s)"
  unfolding j2534_core_request_def
proof (rule okay_bind [OF run_command_sound [OF assms(1,3)]])
  fix c assume "cd_decode cd input = Some c"
  then show "command_ok c" using assms(2) [unfolded codec_ok_def, THEN spec, of input] by simp
qed simp

lemma poll_sound:
  assumes "env_ok ce" "sound s" shows "okay sound (j2534_core_poll ce s)"
proof -
  have "drivers_ok ce" using assms(1) by (simp add: env_ok_def)
  from poll_keeps [OF this sound_keeps [OF assms(2)]] show ?thesis
    by (rule okay_mono) (rule follows_sound [OF keeps_follows [OF assms(2)]])
qed

lemma stop_sound:
  assumes "length (jc_channels s) = 5" shows "okay sound (j2534_core_stop ce s)"
proof -
  have "okay (\<lambda>s. length (jc_channels s) = 5) (fold_opt (\<lambda>s p. do {
         c \<leftarrow> chan s p;
         Some (if ch_id c = 0 then s else bus_cancel ce (ch_bus c) s) }) s physical_indices)"
    by (rule okay_fold) (auto simp: assms chan_def physical_indices_def J2534_PHYSICAL_MAX_def bus_cancel_def)
  then show ?thesis
    unfolding j2534_core_stop_def by (rule okay_bind) (simp add: release_all sound_def table_zero)
qed

lemma start_sound: "length (jc_channels s) = 5 \<Longrightarrow> okay sound (j2534_core_start ce s)"
  unfolding j2534_core_start_def by (rule okay_bind [OF stop_sound]) simp_all

section \<open>The core as a safe machine\<close>

datatype core_call = CoreStart | CoreStop | CoreRequest byte "byte list" | CorePoll

fun core_step :: "'d core_env \<Rightarrow> codec \<Rightarrow> 'd j2534 \<Rightarrow> core_call \<Rightarrow> ('d j2534 \<times> byte list) option" where
  "core_step ce cd s CoreStart = map_option (\<lambda>s. (s, [])) (j2534_core_start ce s)"
| "core_step ce cd s CoreStop = map_option (\<lambda>s. (s, [])) (j2534_core_stop ce s)"
| "core_step ce cd s (CoreRequest op input) = j2534_core_request ce cd op input s"
| "core_step ce cd s CorePoll = map_option (\<lambda>s. (s, [])) (j2534_core_poll ce s)"

lemma core_step_sound:
  assumes "env_ok ce" "codec_ok cd" "sound s"
  shows "\<exists>s' out. core_step ce cd s c = Some (s', out) \<and> sound s'"
proof (cases c)
  case CoreStart
  then show ?thesis using start_sound [OF sound_length [OF assms(3)], of ce] by (auto simp: okay_def)
next
  case CoreStop
  then show ?thesis using stop_sound [OF sound_length [OF assms(3)], of ce] by (auto simp: okay_def)
next
  case (CoreRequest op input)
  then show ?thesis using request_sound [OF assms, of op input] by (auto simp: okay_def)
next
  case CorePoll
  then show ?thesis using poll_sound [OF assms(1,3)] by (auto simp: okay_def)
qed

interpretation corem: safe_machine "core_step ce cd" "\<lambda>s. env_ok ce \<and> codec_ok cd \<and> sound s" "\<lambda>_. True" for ce cd
  by unfold_locales (use core_step_sound in blast)

text \<open>C2: After \<open>j2534_core_start\<close>, no sequence of requests, polls, stops and restarts makes the J2534
  core read or write outside one of its buffers or through a null pointer, whatever bytes the
  host sends, whatever the buses deliver and whichever allocations fail. At every moment the
  table of channels is consistent: every physical slot has no parent and speaks CAN exactly when
  its bus is the CAN bus, every logical channel in use is an ISO 15765 channel on the CAN bus whose
  parent identifier is that of a connected CAN channel, and every buffer has its size. Assumed
  are drivers that report records within the buffer they got, an allocator that gives the size
  asked for, and a decoder that keeps to the limits of \<open>opendiag.options\<close>.\<close>

theorem j2534_core_never_faults:
  assumes "env_ok ce" "codec_ok cd" "length (jc_channels s) = CHANNELS"
  shows "\<exists>s' outs. run_calls (core_step ce cd) s (CoreStart # calls) = Some (s', outs) \<and>
    table_ok (jc_channels s') \<and> length outs = Suc (length calls)"
proof -
  obtain s1 where s1: "j2534_core_start ce s = Some s1" "sound s1"
    using start_sound [of s ce] assms(3) by (auto simp: okay_def CHANNELS_eq)
  then obtain s' outs where "run_calls (core_step ce cd) s1 calls = Some (s', outs)" "sound s'" "length outs = length calls"
    using corem.run_safe [of ce cd s1 calls] assms by (auto simp: list_all_iff)
  then show ?thesis using s1(1) by (auto simp: sound_def)
qed

section \<open>Service leaves the table alone\<close>

text \<open>C5: Serving the buses, \<open>j2534_core_poll\<close>, never faults and never changes what the host has set up:
  every channel keeps its identifier, parent, protocol, bus and connect flags, its rate and local echo,
  all its filters, its transport parameters, flags and addresses, and each scheduled message with its
  kind, interval, contents and match rule, whatever its progress; the device, the next identifier
  and the response of a request in progress stay as they were, and the table of channels stays
  consistent.\<close>

theorem j2534_poll_keeps_table:
  assumes "env_ok ce" "table_ok (jc_channels s)"
  shows "\<exists>s'. j2534_core_poll ce s = Some s' \<and> view_of s' = view_of s \<and> table_ok (jc_channels s')"
proof -
  have d: "drivers_ok ce" and s: "sound s" using assms by (simp_all add: env_ok_def sound_def)
  obtain s' where s': "j2534_core_poll ce s = Some s'" "keeps (view_of s) s'"
    using poll_keeps [OF d sound_keeps [OF s]] by (auto simp: okay_def)
  then show ?thesis using follows_sound [OF keeps_follows [OF s s'(2)]] by (simp add: sound_def keeps_def)
qed

section \<open>Disconnecting\<close>

lemma role_zero: "role_of channel_zero = (0, 0, 0, VIF_BUS_NONE)"
  by (simp add: role_of_def channel_zero_def)


section \<open>A queued message reaches the bus as it was given\<close>

lemma store_tx_result:
  assumes "length (ch_tx c) = TX_BYTES" "pb_ok J2534_DATA_MAX (om_data m)"
  shows "\<exists>tx. store_tx m c = Some (c\<lparr>ch_tx := tx, ch_tx_len := MSG_HEADER + pb_size (om_data m)\<rparr>) \<and>
    length tx = TX_BYTES \<and> take (pb_size (om_data m)) (drop MSG_HEADER tx) = take (pb_size (om_data m)) (pb_bytes (om_data m)) \<and>
    j2534_u32 tx 4 = Some (om_handle m) \<and> j2534_u32 tx 12 = Some (om_tx_flags m)"
proof -
  let ?n = "pb_size (om_data m)" and ?d = "take (pb_size (om_data m)) (pb_bytes (om_data m))"
  have n: "?n \<le> J2534_DATA_MAX" "length ?d = ?n" using assms(2) by (simp_all add: pb_ok_def)
  define rest where "rest = drop 28 (ch_tx c)"
  have rest: "length rest = J2534_DATA_MAX" using assms(1) by (simp add: rest_def ring_sizes)
  let ?z = "replicate 28 (0 :: byte)"
  have 0: "store_at (ch_tx c) 0 (replicate MSG_HEADER 0) = Some (?z @ rest)"
    using assms(1) by (simp add: ring_sizes rest_def)
  have le: "length (le32 v) = 4" for v by (simp add: le32_def)
  have 1: "j2534_put32 (?z @ rest) 0 (om_protocol m) = Some (le32 (om_protocol m) @ replicate 24 0 @ rest)"
    by (subst put32_store) simp_all
  have 2: "j2534_put32 (le32 (om_protocol m) @ replicate 24 0 @ rest) 4 (om_handle m) =
      Some (le32 (om_protocol m) @ le32 (om_handle m) @ replicate 20 0 @ rest)"
    by (subst put32_store) (simp_all add: le)
  have 3: "j2534_put32 (le32 (om_protocol m) @ le32 (om_handle m) @ replicate 20 0 @ rest) 12 (om_tx_flags m) =
      Some (le32 (om_protocol m) @ le32 (om_handle m) @ replicate 4 0 @ le32 (om_tx_flags m) @ replicate 12 0 @ rest)"
    by (subst put32_store) (simp_all add: le)
  let ?h = "le32 (om_protocol m) @ le32 (om_handle m) @ replicate 4 0 @ le32 (om_tx_flags m) @ replicate 12 0"
  have 4: "store_at (?h @ rest) MSG_HEADER ?d = Some (?h @ ?d @ drop ?n rest)"
    using n rest by (simp add: MSG_HEADER_def le)
  have "store_tx m c = Some (c\<lparr>ch_tx := ?h @ ?d @ drop ?n rest, ch_tx_len := MSG_HEADER + ?n\<rparr>)"
    using 4 unfolding store_tx_def 0 1 2 3 Option.bind.bind_lunit pb_load [OF assms(2)] by simp
  moreover have "j2534_u32 (?h @ ?d @ drop ?n rest) 4 = Some (om_handle m)"
    using j2534_u32_at [of "le32 (om_protocol m)" 4 "om_handle m"] by (simp add: le)
  moreover have "j2534_u32 (?h @ ?d @ drop ?n rest) 12 = Some (om_tx_flags m)"
    using j2534_u32_at [of "le32 (om_protocol m) @ le32 (om_handle m) @ replicate 4 0" 12 "om_tx_flags m"] by (simp add: le)
  ultimately show ?thesis using n rest
    by (intro exI [of _ "?h @ ?d @ drop ?n rest"]) (simp add: MSG_HEADER_def TX_BYTES_def le)
qed

text \<open>What a message of a raw channel means on its bus: identifier and payload.\<close>

definition on_bus :: "vif_bus \<Rightarrow> message \<Rightarrow> (u32w \<times> byte list) option" where
  "on_bus bus m =
     (let data = take (pb_size (om_data m)) (pb_bytes (om_data m)) in
      if bus = VIF_BUS_CAN then map_option (\<lambda>i. (frame_id i (om_tx_flags m), drop 4 data)) (be32 data)
      else Some (0, data))"

lemma be32_take: "take 4 a = take 4 b \<Longrightarrow> 4 \<le> length a \<Longrightarrow> 4 \<le> length b \<Longrightarrow> be32 a = be32 b"
proof -
  assume t: "take 4 a = take 4 b" and l: "4 \<le> length a" "4 \<le> length b"
  have "get_at a i = get_at b i" if "i < 4" for i
    using arg_cong [OF t, of "\<lambda>x. x ! i"] that l by (simp add: get_at_def)
  then show ?thesis by (simp add: be32_def)
qed

lemma raw_message_stored:
  assumes d: "length tx = TX_BYTES" "take n (drop MSG_HEADER tx) = take n (pb_bytes (om_data m))" "pb_ok J2534_DATA_MAX (om_data m)"
    and n: "n = pb_size (om_data m)" "bus = VIF_BUS_CAN \<longrightarrow> 4 \<le> n"
  shows "\<exists>msg. raw_message bus (drop MSG_HEADER tx) n (om_tx_flags m) = Some msg \<and>
    on_bus bus m = Some (bm_id msg, take (bm_len msg) (bm_data msg)) \<and> bm_len msg \<le> length (bm_data msg)"
proof -
  let ?a = "drop MSG_HEADER tx" and ?b = "pb_bytes (om_data m)"
  have l: "length ?a = J2534_DATA_MAX" "length ?b = J2534_DATA_MAX" "n \<le> J2534_DATA_MAX"
    using d(1,3) n(1) by (simp_all add: TX_BYTES_def pb_ok_def)
  have small: "n < 65536" using l(3) by (simp add: J2534_DATA_MAX_def)
  show ?thesis
  proof (cases "bus = VIF_BUS_CAN")
    case False
    then show ?thesis using l small d(2) n(1) by (simp add: raw_message_def on_bus_def Let_def bus_msg_tx_def)
  next
    case True
    then have n4: "4 \<le> n" using n(2) by simp
    have "take 4 ?a = take 4 (take n ?a)" using n4 by (simp add: take_take min_def)
    also have "\<dots> = take 4 (take n ?b)" by (simp add: d(2))
    finally have same: "be32 ?a = be32 (take n ?b)" using l n4 by (intro be32_take) auto
    obtain i where i: "be32 ?a = Some i" using be32_okay [of ?a] l n4 by auto
    have cut: "take (n - 4) (drop 4 ?a) = drop 4 (take n ?b)"
      using arg_cong [OF d(2), of "drop 4"] n4 by (simp add: drop_take)
    let ?msg = "bus_msg_tx (drop 4 ?a) (n - 4) (frame_id i (om_tx_flags m))"
    have "raw_message bus ?a n (om_tx_flags m) = Some ?msg"
      using True n4 small i by (simp add: raw_message_def)
    moreover have "on_bus bus m = Some (frame_id i (om_tx_flags m), drop 4 (take n ?b))"
      unfolding on_bus_def Let_def n(1) [symmetric] same [symmetric] i using True by simp
    moreover have "bm_id ?msg = frame_id i (om_tx_flags m)" "bm_len ?msg = n - 4" "bm_data ?msg = drop 4 ?a"
      using small by (simp_all add: bus_msg_tx_def)
    ultimately show ?thesis using cut l by (intro exI [of _ ?msg]) simp
  qed
qed

text \<open>The flags a driver gets: the host's wish to wait for P3, and on CAN that the frame is on the bus.\<close>

definition wait_flags :: "vif_bus \<Rightarrow> u32w \<Rightarrow> u32w" where
  "wait_flags bus flags =
     (if flags AND J2534_WAIT_P3 \<noteq> 0 then BUS_TX_WAIT_P3_MIN_ONLY else 0) OR (if bus = VIF_BUS_CAN then BUS_TX_WAIT_DONE else 0)"

text \<open>What a poll does with the buffer of a raw channel.\<close>

lemma poll_raw:
  assumes "chan s k = Some c" "ch_parent c = 0" "ch_tx_len c \<noteq> 0" "j2534_u32 (ch_tx c) 12 = Some flags"
    "raw_message (ch_bus c) (drop MSG_HEADER (ch_tx c)) (sub32 (ch_tx_len c) MSG_HEADER) flags = Some msg"
    "bm_len msg \<le> length (bm_data msg)" "ch_bus c = VIF_BUS_CAN \<Longrightarrow> bm_len msg \<le> 8"
  shows "\<exists>p. pt_kind p = TX_MESSAGE \<and> pt_channel p = ch_id c \<and>
    (case vif_do (vif_bus_submit (ce_vif ce) (ce_me ce) VIF_OWNER_LINK (ch_bus c) msg (wait_flags (ch_bus c) flags) (ch_rx_sequence c))
        (s\<lparr>jc_channels := (jc_channels s)[k := c\<lparr>ch_pending := p\<rparr>]\<rparr>) of
       (s1, code) \<Rightarrow> code = 0 \<longrightarrow> poll_tx ce k s = Some s1)"
proof -
  have k: "jc_channels s ! k = c" "k < length (jc_channels s)" using assms(1) by (auto simp: chan_def get_at_def split: if_splits)
  then have ph: "physical_channel s k = Some k" using assms(2) by (simp add: physical_channel_def)
  let ?p0 = "pending_zero\<lparr>pt_kind := TX_MESSAGE, pt_channel := ch_id c, pt_rx_generation := ch_rx_generation c\<rparr>"
  show ?thesis
  proof (cases "ch_bus c = VIF_BUS_CAN")
    case True
    obtain data where d: "store_at (can_data frame_zero) 0 (take (bm_len msg) (bm_data msg)) = Some data"
      using assms(6,7) True by (simp add: frame_zero_def)
    show ?thesis
      using assms d ph k True
      by (intro exI [of _ "?p0\<lparr>pt_frame := \<lparr>can_id = bm_id msg, can_dlc = u8 (bm_len msg), can_data = data\<rparr>\<rparr>"])
        (simp add: poll_tx_def submit_bus_tx_def Let_def wait_flags_def upd_def upd_opt_def pending_zero_def case_prod_beta)
  next
    case False
    then show ?thesis
      using assms ph k
      by (intro exI [of _ ?p0]) (simp add: poll_tx_def submit_bus_tx_def Let_def wait_flags_def upd_def upd_opt_def pending_zero_def case_prod_beta)
  qed
qed

text \<open>C4: Queueing a message on a raw channel and polling it gives the bus exactly what the host
  asked for: the poll calls \<open>vif_bus_submit\<close> for the bus of the channel, on CAN with the identifier of the
  first four bytes, its extended flag and the remaining bytes as the payload, on the other buses with
  all bytes, with the flags of the message and the receive sequence of the channel; the channel
  remembers the transmission as its own, and the handle and flags the confirmation needs are in the
  header. A request that is refused leaves every channel as it was. In no case is anything read
  outside the buffers.\<close>

theorem j2534_queue_reaches_bus:
  assumes "table_ok (jc_channels s)" "active k s" "ch_parent (jc_channels s ! k) = 0"
    "qu_message r = Some m" "pb_ok J2534_DATA_MAX (om_data m)"
  shows "\<exists>s' rc. queue_message ce k r s = Some (s', rc) \<and>
    (if rc \<noteq> J2534_OK then jc_channels s' = jc_channels s
     else \<exists>msg p. on_bus (ch_bus (jc_channels s ! k)) m = Some (bm_id msg, take (bm_len msg) (bm_data msg)) \<and>
       bm_len msg \<le> length (bm_data msg) \<and> pt_kind p = TX_MESSAGE \<and> pt_channel p = ch_id (jc_channels s ! k) \<and>
       (case vif_do (vif_bus_submit (ce_vif ce) (ce_me ce) VIF_OWNER_LINK (ch_bus (jc_channels s ! k)) msg
             (wait_flags (ch_bus (jc_channels s ! k)) (om_tx_flags m)) (ch_rx_sequence (jc_channels s ! k)))
           (s'\<lparr>jc_channels := (jc_channels s')[k := (jc_channels s' ! k)\<lparr>ch_pending := p\<rparr>]\<rparr>) of
          (s1, code) \<Rightarrow> code = 0 \<longrightarrow> poll_tx ce k s' = Some s1) \<and>
       j2534_u32 (ch_tx (jc_channels s' ! k)) 4 = Some (om_handle m) \<and>
       j2534_u32 (ch_tx (jc_channels s' ! k)) 12 = Some (om_tx_flags m))"
proof -
  let ?c = "jc_channels s ! k" and ?n = "pb_size (om_data m)"
  have s: "sound s" using assms(1) by (simp add: sound_def)
  note A = active_facts [OF s assms(2)]
  have len: "?n \<le> length (pb_bytes (om_data m))" using assms(5) by (simp add: pb_ok_def)
  obtain s1 rc where v: "validate_message ce k (om_protocol m) (om_tx_flags m) (pb_bytes (om_data m)) ?n False s = Some (s1, rc)"
    "env_step s s1" "rc = J2534_OK \<longrightarrow> fitting ?c (om_tx_flags m) (pb_bytes (om_data m)) ?n False"
    using validate_okay [OF s assms(2) len, of "om_tx_flags m" False ce "om_protocol m"] by (auto simp: okay_def)
  have c1: "jc_channels s1 = jc_channels s" using env_step_fields [OF v(2)] by simp
  have cs1: "chan s1 k = Some ?c" using A(1) c1 by (simp add: chan_def)
  have l: "length (ch_tx ?c) = TX_BYTES" using A(2) by (simp add: live_ok_def)
  obtain tx where tx: "store_tx m ?c = Some (?c\<lparr>ch_tx := tx, ch_tx_len := MSG_HEADER + ?n\<rparr>)" "length tx = TX_BYTES"
    "take ?n (drop MSG_HEADER tx) = take ?n (pb_bytes (om_data m))"
    "j2534_u32 tx 4 = Some (om_handle m)" "j2534_u32 tx 12 = Some (om_tx_flags m)"
    using store_tx_result [OF l assms(5)] by blast
  have sub: "sub32 (MSG_HEADER + ?n) MSG_HEADER = ?n" using assms(5) by (simp add: pb_ok_def ring_sizes)
  show ?thesis
  proof (cases "rc = J2534_OK \<and> ch_tx_len ?c = 0")
    case False
    then show ?thesis using c1 by (auto simp: queue_message_def assms(4) v(1) cs1)
  next
    case True
    let ?c' = "?c\<lparr>ch_tx := tx, ch_tx_len := MSG_HEADER + ?n\<rparr>"
    define s2 where "s2 = respond (\<lambda>r. r\<lparr>rp_count := 1\<rparr>) (s1\<lparr>jc_channels := (jc_channels s1)[k := ?c']\<rparr>)"
    have fit: "fitting ?c (om_tx_flags m) (pb_bytes (om_data m)) ?n False" using True v(3) by simp
    then have "ch_bus ?c = VIF_BUS_CAN \<longrightarrow> 4 \<le> ?n" using assms(3) by (auto simp: fitting_def)
    from raw_message_stored [OF tx(2,3) assms(5) refl this] obtain msg where
      msg: "raw_message (ch_bus ?c) (drop MSG_HEADER tx) ?n (om_tx_flags m) = Some msg"
      "on_bus (ch_bus ?c) m = Some (bm_id msg, take (bm_len msg) (bm_data msg))" "bm_len msg \<le> length (bm_data msg)" by blast
    have k: "k < length (jc_channels s)" using A(3) .
    have eight: "bm_len msg \<le> 8" if b: "ch_bus ?c = VIF_BUS_CAN"
    proof -
      have "4 \<le> ?n" "?n \<le> 12" using fit assms(3) b by (auto simp: fitting_def)
      with msg(1) b show ?thesis by (auto simp: raw_message_def bus_msg_tx_def bind_eq_Some_conv)
    qed
    have at: "jc_channels s2 ! k = ?c'" using k c1 by (simp add: s2_def respond_def)
    have ch: "chan s2 k = Some ?c'" using k c1 by (simp add: s2_def chan_def respond_def)
    obtain p where p: "pt_kind p = TX_MESSAGE" "pt_channel p = ch_id ?c"
      "case vif_do (vif_bus_submit (ce_vif ce) (ce_me ce) VIF_OWNER_LINK (ch_bus ?c) msg (wait_flags (ch_bus ?c) (om_tx_flags m)) (ch_rx_sequence ?c))
         (s2\<lparr>jc_channels := (jc_channels s2)[k := ?c'\<lparr>ch_pending := p\<rparr>]\<rparr>) of (s1, code) \<Rightarrow> code = 0 \<longrightarrow> poll_tx ce k s2 = Some s1"
      using poll_raw [OF ch, of "om_tx_flags m" msg ce] assms(3) tx(5) msg(1,3) eight sub by (auto simp: ring_sizes)
    have q: "queue_message ce k r s = Some (s2, rc)"
      using True k by (simp add: queue_message_def assms(4) v(1) cs1 upd_opt_def tx(1) c1 s2_def)
    show ?thesis
      using True p msg(2,3) tx(4,5) by (intro exI [of _ s2] exI [of _ rc] conjI q) (auto simp: at intro!: exI [of _ msg] exI [of _ p])
  qed
qed

section \<open>Witnesses\<close>

text \<open>A quiet interface, and a decoder that knows three requests.\<close>

definition sample_core :: "nat core_env" where
  "sample_core = \<lparr>ce_vif = quiet_env, ce_me = 1, ce_now = (\<lambda>d. (d, of_nat d)),
     ce_alloc = (\<lambda>n d. (d, Some (replicate n 0))), ce_vbatt_mv = (\<lambda>d. (d, 12000)), ce_hs_vsense_mv = (\<lambda>d. (d, 0)),
     ce_version = ''1''\<rparr>"

definition sample_codec :: codec where
  "sample_codec = \<lparr>cd_decode = (\<lambda>input. if input = [1] then Some CmdOpen
       else if input = [2] then Some (CmdConnect \<lparr>cn_device = 1, cn_protocol = J2534_CAN, cn_flags = 0,
         cn_baudrate = 500000, cn_connector = 1, cn_pins = [6, 14]\<rparr>)
       else if input = [3] then Some (CmdRead 2) else None),
     cd_encode = (\<lambda>r. Some [ucast (rp_status r)])\<rparr>"

definition core_off :: "nat j2534" where
  "core_off = \<lparr>jc_channels = replicate CHANNELS channel_zero, jc_device = 0, jc_next_id = 0, jc_last_error = 0,
     jc_voltage_pin = -1, jc_response = response_zero, jc_vif = (vif_start, 0)\<rparr>"

lemma sample_ok: "env_ok sample_core" "codec_ok sample_codec"
  by (simp_all add: env_ok_def drivers_ok_def sample_core_def quiet_env_def codec_ok_def sample_codec_def)

lemma j2534_core_never_faults_witness:
  "\<exists>s' outs. run_calls (core_step sample_core sample_codec) core_off
     [CoreStart, CoreRequest 1 [1], CoreRequest 3 [2], CorePoll, CoreRequest 5 [3], CoreRequest 0 [9], CoreStop] =
       Some (s', outs) \<and> table_ok (jc_channels s') \<and> length outs = 7"
proof -
  have l: "length (jc_channels core_off) = CHANNELS" by (simp add: core_off_def)
  show ?thesis
    using j2534_core_never_faults [OF sample_ok l, of
        "[CoreRequest 1 [1], CoreRequest 3 [2], CorePoll, CoreRequest 5 [3], CoreRequest 0 [9], CoreStop]"]
    by (simp add: eval_nat_numeral del: run_calls.simps)
qed

text \<open>A connected CAN channel, and a logical channel on it.\<close>

definition can_channel :: channel where
  "can_channel = (fresh 7 (replicate RX_BYTES 0) (replicate TX_BYTES 0) [])\<lparr>ch_bus := VIF_BUS_CAN, ch_protocol := J2534_CAN,
     ch_flags := 0, ch_rate := 500000\<rparr>"

definition sample_logical :: req_logical_connect where
  "sample_logical = \<lparr>lc_physical = 7, lc_protocol = J2534_ISOTP, lc_flags = 0, lc_local_flags = 0, lc_remote_flags = 0,
     lc_local_address = \<lparr>pb_size = 4, pb_bytes = [0, 0, 7, 0xe8, 0]\<rparr>,
     lc_remote_address = \<lparr>pb_size = 4, pb_bytes = [0, 0, 7, 0xe0, 0]\<rparr>, lc_legacy_channel = False\<rparr>"

definition core_on :: "nat j2534" where
  "core_on = core_off\<lparr>jc_channels := (replicate CHANNELS channel_zero)[0 := can_channel,
     3 := the (logical_setup can_channel sample_logical (fresh 8 (replicate RX_BYTES 0) (replicate TX_BYTES 0)
       (replicate (ISOTP_MAX_PAYLOAD + 5) 0)))], jc_device := 1, jc_next_id := 8\<rparr>"

lemma core_on_ok: "table_ok (jc_channels core_on)" "active 0 core_on" "ch_parent (jc_channels core_on ! 0) = 0"
proof -
  have c: "live_ok can_channel" unfolding can_channel_def by (rule fresh_live) simp_all
  then have "chan_ok can_channel" "physical_role can_channel"
    by (simp_all add: chan_ok_def can_channel_def fresh_def physical_role_def channel_zero_def)
  from table_put_physical [OF table_zero _ _ this, of 0]
  have t: "table_ok ((replicate 5 channel_zero)[0 := can_channel])" by simp
  have v: "can_id_valid (pb_bytes (lc_local_address sample_logical)) (lc_local_flags sample_logical) = Some True"
    "can_id_valid (pb_bytes (lc_remote_address sample_logical)) (lc_remote_flags sample_logical) = Some True"
    by code_simp+
  have id: "ch_id can_channel = 7" "ch_bus can_channel = VIF_BUS_CAN" "ch_protocol can_channel = J2534_CAN" "ch_parent can_channel = 0"
    by (simp_all add: can_channel_def fresh_def)
  obtain c where c: "logical_setup can_channel sample_logical (fresh 8 (replicate RX_BYTES 0) (replicate TX_BYTES 0)
       (replicate (ISOTP_MAX_PAYLOAD + 5) 0)) = Some c" "chan_ok c" "role_of c = (8, 7, J2534_ISOTP, VIF_BUS_CAN)"
    using logical_setup_okay [of sample_logical "replicate RX_BYTES 0" "replicate TX_BYTES 0"
        "replicate (ISOTP_MAX_PAYLOAD + 5) 0" can_channel 8] v id
    by (auto simp: okay_def sample_logical_def logical_request_ok_def pb_ok_def)
  have "table_ok ((replicate 5 channel_zero)[0 := can_channel, 3 := c])"
    by (rule table_put_logical [OF t, where j = 0]) (use c id in \<open>auto simp: role_of_def\<close>)
  then show "table_ok (jc_channels core_on)" by (simp add: core_on_def c(1) CHANNELS_eq)
  show "active 0 core_on" "ch_parent (jc_channels core_on ! 0) = 0"
    by (simp_all add: core_on_def active_def CHANNELS_eq id)
qed

lemma j2534_poll_keeps_table_witness:
  "\<exists>s'. j2534_core_poll sample_core core_on = Some s' \<and> view_of s' = view_of core_on \<and> table_ok (jc_channels s')"
  by (rule j2534_poll_keeps_table [OF sample_ok(1) core_on_ok(1)])


definition sample_message :: message where
  "sample_message = message_zero\<lparr>om_protocol := J2534_CAN, om_handle := 5,
     om_data := \<lparr>pb_size = 6, pb_bytes = [0, 0, 7, 0xdf, 0x3e, 0x80] @ replicate 4122 0\<rparr>\<rparr>"

lemma j2534_queue_reaches_bus_witness:
  "\<exists>s' rc. queue_message sample_core 0 \<lparr>qu_channel = 7, qu_message = Some sample_message\<rparr> core_on = Some (s', rc) \<and>
    (if rc \<noteq> J2534_OK then jc_channels s' = jc_channels core_on
     else \<exists>msg p. on_bus VIF_BUS_CAN sample_message = Some (bm_id msg, take (bm_len msg) (bm_data msg)) \<and>
       bm_len msg \<le> length (bm_data msg) \<and> pt_kind p = TX_MESSAGE \<and> pt_channel p = ch_id (jc_channels core_on ! 0) \<and>
       (case vif_do (vif_bus_submit (ce_vif sample_core) (ce_me sample_core) VIF_OWNER_LINK VIF_BUS_CAN msg
             (wait_flags VIF_BUS_CAN 0) (ch_rx_sequence (jc_channels core_on ! 0)))
           (s'\<lparr>jc_channels := (jc_channels s')[0 := (jc_channels s' ! 0)\<lparr>ch_pending := p\<rparr>]\<rparr>) of
          (s1, code) \<Rightarrow> code = 0 \<longrightarrow> poll_tx sample_core 0 s' = Some s1) \<and>
       j2534_u32 (ch_tx (jc_channels s' ! 0)) 4 = Some 5 \<and>
       j2534_u32 (ch_tx (jc_channels s' ! 0)) 12 = Some 0)"
proof -
  have b: "ch_bus (jc_channels core_on ! 0) = VIF_BUS_CAN" by (simp add: core_on_def can_channel_def CHANNELS_eq)
  have m: "om_handle sample_message = 5" "om_tx_flags sample_message = 0" "pb_ok J2534_DATA_MAX (om_data sample_message)"
    by (simp_all add: sample_message_def message_zero_def pb_ok_def J2534_DATA_MAX_def)
  have "qu_message \<lparr>qu_channel = 7, qu_message = Some sample_message\<rparr> = Some sample_message" by simp
  from j2534_queue_reaches_bus [OF core_on_ok this m(3), of sample_core] show ?thesis
    unfolding m b .
qed

end
