(* ===== verification/VifSafe.thy ===== *)
theory VifSafe
  imports Vif
begin

text \<open>
  The two owners of \<open>main/vif.c\<close> as interleaved threads, with the transmit workers of the drivers and
  the readers of the statistics. One step is one critical section of an operation of \<open>Vif\<close> or one
  call of a driver between two of them; the link, the shell, the workers and any other task move in
  any order. The lemmas: the claims keep the owners out of each other's drivers and the workers in
  the drivers of claimed groups, and the pin drivers never contend with each other or with the L line.
\<close>

section \<open>Two owners, interleaved\<close>

text \<open>
  Where an owner's thread stands. In \<open>VStats\<close> it reads or resets the counters of a driver. A constructor ending in \<open>Down\<close>, \<open>Up\<close> or \<open>Cleanup\<close>, and \<open>VTransfer\<close>
  and \<open>VSetOnly\<close>, is inside a driver; the others stand before a critical section.
\<close>

datatype vif_pc =
    VIdle
  | VOpenDown vif_bus nat vif_bus
  | VOpenClaim vif_bus nat
  | VOpenUp vif_bus
  | VOpenCleanup vif_bus esp_err
  | VOpenEnd vif_bus esp_err esp_err
  | VCloseDown vif_res vif_bus
  | VCloseEnd vif_res esp_err
  | VRelease "vif_res list" esp_err "bool option"
  | VReleaseDown vif_res vif_bus "vif_res list" esp_err "bool option"
  | VReleaseEnd vif_res esp_err "vif_res list" esp_err "bool option"
  | VServicePins esp_err bool
  | VServiceEnd esp_err bool
  | VTransfer vif_bus
  | VSetOnly bool bool
  | VStats vif_bus
  | VCalClaimed
  | VCalibrating
  | VCalDone

fun in_driver :: "vif_pc \<Rightarrow> vif_res option" where
  "in_driver (VOpenDown bus rate old) = bus_group old"
| "in_driver (VOpenUp bus) = bus_group bus"
| "in_driver (VOpenCleanup bus err) = bus_group bus"
| "in_driver (VCloseDown grp held) = bus_group held"
| "in_driver (VReleaseDown grp held grps res why) = bus_group held"
| "in_driver (VTransfer bus) = bus_group bus"
| "in_driver (VSetOnly en was) = Some VIF_RES_KLINE"
| "in_driver _ = None"

text \<open>\<open>vs_sending\<close>: the worker of a group is inside the driver.\<close>

record vif_sys =
  vs_vif :: vif
  vs_pc :: "vif_owner \<Rightarrow> vif_pc"
  vs_sending :: "vif_res \<Rightarrow> bool"

abbreviation goto :: "vif_sys \<Rightarrow> vif_owner \<Rightarrow> vif \<Rightarrow> vif_pc \<Rightarrow> vif_sys" where
  "goto s ow g pc \<equiv> s\<lparr>vs_vif := g, vs_pc := (vs_pc s)(ow := pc)\<rparr>"

text \<open>
  Taking a driver down may or may not have closed its worker; it succeeds only when there is none
  left, and the worker has left the driver before it is closed.
\<close>

abbreviation taken_down :: "bool \<Rightarrow> vif_bus \<Rightarrow> esp_err \<Rightarrow> vif_sys \<Rightarrow> bool" where
  "taken_down b bus err s \<equiv> (if b then \<forall>grp. bus_group bus = Some grp \<longrightarrow> \<not> vs_sending s grp else err \<noteq> ESP_OK)"

abbreviation worker_gone :: "bool \<Rightarrow> vif_bus \<Rightarrow> vif \<Rightarrow> vif" where
  "worker_gone b bus g \<equiv>
     (case bus_group bus of None \<Rightarrow> g
      | Some grp \<Rightarrow> if b then upd_claim grp (\<lambda>c. c\<lparr>cl_tx_worker := False\<rparr>) g else g)"

text \<open>
  One step of the system. \<open>ow\<close> is the owner whose thread moves, \<open>me\<close> that thread's task; the last
  rules are what the workers and other tasks may do at any time. Whatever a driver returns is
  arbitrary.
\<close>

inductive vif_step :: "vif_sys \<Rightarrow> vif_sys \<Rightarrow> bool" where
  open_call: "vs_pc s ow = VIdle \<Longrightarrow> v_task (vs_vif s) ow = Some me \<Longrightarrow>
    open_reserve me ow bus (vs_vif s) = (g, Inr old) \<Longrightarrow>
    vif_step s (goto s ow g (if old = VIF_BUS_NONE then VOpenClaim bus rate else VOpenDown bus rate old))"
| open_down: "vs_pc s ow = VOpenDown bus rate old \<Longrightarrow> taken_down b old err s \<Longrightarrow>
    vif_step s (goto s ow (worker_gone b old (vs_vif s)) (if err = ESP_OK then VOpenClaim bus rate else VIdle))"
| open_claims: "vs_pc s ow = VOpenClaim bus rate \<Longrightarrow> bus_group bus = Some grp \<Longrightarrow>
    vif_step s (goto s ow (open_claim ow bus rate grp (vs_vif s)) (VOpenUp bus))"
| open_up: "vs_pc s ow = VOpenUp bus \<Longrightarrow>
    vif_step s (goto s ow (vs_vif s) (if err = ESP_OK then VOpenEnd bus err ESP_OK else VOpenCleanup bus err))"
| open_cleanup: "vs_pc s ow = VOpenCleanup bus err \<Longrightarrow> taken_down b bus err' s \<Longrightarrow>
    vif_step s (goto s ow (worker_gone b bus (vs_vif s)) (VOpenEnd bus err err'))"
| open_end: "vs_pc s ow = VOpenEnd bus err err' \<Longrightarrow> bus_group bus = Some grp \<Longrightarrow>
    vif_step s (goto s ow (open_finish grp err err' (vs_vif s)) VIdle)"
| close_call: "vs_pc s ow = VIdle \<Longrightarrow> v_task (vs_vif s) ow = Some me \<Longrightarrow>
    close_begin me ow bus (vs_vif s) = (g, Inr held) \<Longrightarrow> bus_group bus = Some grp \<Longrightarrow>
    vif_step s (goto s ow g (VCloseDown grp held))"
| close_down: "vs_pc s ow = VCloseDown grp held \<Longrightarrow> taken_down b held err s \<Longrightarrow>
    vif_step s (goto s ow (worker_gone b held (vs_vif s)) (VCloseEnd grp err))"
| close_end: "vs_pc s ow = VCloseEnd grp err \<Longrightarrow>
    vif_step s (goto s ow (close_finish grp err (vs_vif s)) VIdle)"
| release_call: "vs_pc s ow = VIdle \<Longrightarrow> vif_step s (goto s ow (vs_vif s) (VRelease all_res ESP_OK None))"
| service_call: "vs_pc s ow = VIdle \<Longrightarrow> v_task (vs_vif s) ow = Some me \<Longrightarrow>
    service_take me ow (vs_vif s) = (g, Some (recover, release)) \<Longrightarrow>
    vif_step s (goto s ow g (VRelease all_res ESP_OK (Some recover)))"
| release_skip: "vs_pc s ow = VRelease (grp # grps) res why \<Longrightarrow>
    release_begin ow grp (vs_vif s) = (g, None) \<Longrightarrow> vif_step s (goto s ow g (VRelease grps res why))"
| release_take: "vs_pc s ow = VRelease (grp # grps) res why \<Longrightarrow>
    release_begin ow grp (vs_vif s) = (g, Some held) \<Longrightarrow>
    vif_step s (goto s ow g (VReleaseDown grp held grps res why))"
| release_down: "vs_pc s ow = VReleaseDown grp held grps res why \<Longrightarrow> taken_down b held err s \<Longrightarrow>
    vif_step s (goto s ow (worker_gone b held (vs_vif s)) (VReleaseEnd grp err grps res why))"
| release_end: "vs_pc s ow = VReleaseEnd grp err grps res why \<Longrightarrow>
    vif_step s (goto s ow (close_finish grp err (vs_vif s))
      (VRelease grps (if err = ESP_OK then res else err) why))"
| release_done: "vs_pc s ow = VRelease [] res why \<Longrightarrow>
    vif_step s (goto s ow (vs_vif s) (case why of None \<Rightarrow> VIdle | Some recover \<Rightarrow> VServicePins res recover))"
| service_pins: "vs_pc s ow = VServicePins res recover \<Longrightarrow>
    vif_step s (goto s ow (vif_pin_release_all ow (vs_vif s)) (VServiceEnd res recover))"
| service_end: "vs_pc s ow = VServiceEnd res recover \<Longrightarrow>
    vif_step s (goto s ow (if res \<noteq> ESP_OK then service_put_back ow recover (vs_vif s) else vs_vif s) VIdle)"
| transfer_call: "vs_pc s ow = VIdle \<Longrightarrow> v_task (vs_vif s) ow = Some me \<Longrightarrow>
    bus_owned_by me ow bus (vs_vif s) \<Longrightarrow> vif_step s (goto s ow (vs_vif s) (VTransfer bus))"
| transfer_worker: "vs_pc s ow = VTransfer bus \<Longrightarrow> bus_group bus = Some grp \<Longrightarrow>
    vif_step s (goto s ow (upd_claim grp (\<lambda>c. c\<lparr>cl_tx_worker := True\<rparr>) (vs_vif s)) (VTransfer bus))"
| transfer_end: "vs_pc s ow = VTransfer bus \<Longrightarrow> vif_step s (goto s ow (vs_vif s) VIdle)"
| set_only_call: "vs_pc s ow = VIdle \<Longrightarrow> v_task (vs_vif s) ow = Some me \<Longrightarrow>
    bus_owned_by me ow VIF_BUS_KLINE (vs_vif s) \<Longrightarrow> set_only_reserve en (vs_vif s) = (g, Some was) \<Longrightarrow>
    vif_step s (goto s ow g (VSetOnly en was))"
| set_only_end: "vs_pc s ow = VSetOnly en was \<Longrightarrow>
    vif_step s (goto s ow (set_only_finish en was rc (vs_vif s)) VIdle)"
| calibrate_call: "vs_pc s VIF_OWNER_SHELL = VIdle \<Longrightarrow>
    pins_claim_for_calibration VIF_OWNER_SHELL (vs_vif s) = (g, ESP_OK) \<Longrightarrow>
    vif_step s (goto s VIF_OWNER_SHELL g VCalClaimed)"
| calibrate_begin: "vs_pc s VIF_OWNER_SHELL = VCalClaimed \<Longrightarrow>
    vif_step s (goto s VIF_OWNER_SHELL
      ((vs_vif s)\<lparr>v_board := board_calibrate_begin (v_board (vs_vif s))\<rparr>) VCalibrating)"
| calibrate_end: "vs_pc s VIF_OWNER_SHELL = VCalibrating \<Longrightarrow>
    vif_step s (goto s VIF_OWNER_SHELL
      ((vs_vif s)\<lparr>v_board := board_calibrate_end (v_board (vs_vif s))\<rparr>) VCalDone)"
| calibrate_drop: "vs_pc s VIF_OWNER_SHELL = VCalDone \<Longrightarrow>
    vif_step s (goto s VIF_OWNER_SHELL (pins_drop_after_calibration VIF_OWNER_SHELL (vs_vif s)) VIdle)"
| pin_set: "ow = VIF_OWNER_LINK \<or> vs_pc s ow = VIdle \<Longrightarrow>
    vif_step s (s\<lparr>vs_vif := fst (vif_pin_set ow pin m mv (vs_vif s))\<rparr>)"
| pin_release: "ow = VIF_OWNER_LINK \<or> vs_pc s ow = VIdle \<Longrightarrow>
    vif_step s (s\<lparr>vs_vif := vif_pin_release_all ow (vs_vif s)\<rparr>)"
| release_request: "vif_step s (s\<lparr>vs_vif :=
    (vs_vif s)\<lparr>v_release_req := (v_release_req (vs_vif s))(ow := True)\<rparr>\<rparr>)"
| recover_request: "vif_step s (s\<lparr>vs_vif := vif_recover_all (vs_vif s)\<rparr>)"
| stats_call: "vs_pc s ow = VIdle \<Longrightarrow> vif_step s (goto s ow (vs_vif s) (VStats bus))"
| stats_end: "vs_pc s ow = VStats bus \<Longrightarrow> vif_step s (goto s ow (vs_vif s) VIdle)"
| worker_sends: "cl_tx_worker (v_claim (vs_vif s) grp) \<Longrightarrow> vif_step s (s\<lparr>vs_sending := (vs_sending s)(grp := True)\<rparr>)"
| worker_leaves: "vif_step s (s\<lparr>vs_sending := (vs_sending s)(grp := False)\<rparr>)"

text \<open>From \<open>vif_init\<close> on a board with only its own drivers, once both tasks are known.\<close>

definition board_wf :: "board \<Rightarrow> bool" where
  "board_wf b \<longleftrightarrow> (\<forall>p. bd_hs b p \<longrightarrow> high_side p) \<and> (\<forall>p. bd_ls b p \<longrightarrow> low_side p)"

inductive vif_reach :: "vif_sys \<Rightarrow> bool" where
  start: "board_wf (v_board g) \<Longrightarrow>
    vif_reach \<lparr>vs_vif = (vif_init g)\<lparr>v_task := tasks\<rparr>, vs_pc = (\<lambda>_. VIdle), vs_sending = (\<lambda>_. False)\<rparr>"
| step: "vif_reach s \<Longrightarrow> vif_step s s' \<Longrightarrow> vif_reach s'"

section \<open>Claims\<close>

text \<open>The group an owner's thread has reserved at each point, and what it knows of the claim.\<close>

fun claim_held :: "vif_owner \<Rightarrow> vif \<Rightarrow> vif_pc \<Rightarrow> bool" where
  "claim_held ow g (VOpenDown bus rate old) \<longleftrightarrow> bus_group old = bus_group bus \<and>
     (\<exists>r. bus_group bus = Some r \<and> holds ow r g)"
| "claim_held ow g (VOpenClaim bus rate) \<longleftrightarrow> (\<exists>r. bus_group bus = Some r \<and> holds ow r g)"
| "claim_held ow g (VOpenUp bus) \<longleftrightarrow> (\<exists>r. bus_group bus = Some r \<and> holds ow r g \<and> cl_bus (v_claim g r) = bus)"
| "claim_held ow g (VOpenCleanup bus err) \<longleftrightarrow>
     (\<exists>r. bus_group bus = Some r \<and> holds ow r g \<and> cl_bus (v_claim g r) = bus)"
| "claim_held ow g (VOpenEnd bus err err') \<longleftrightarrow>
     (\<exists>r. bus_group bus = Some r \<and> holds ow r g \<and> cl_bus (v_claim g r) = bus)"
| "claim_held ow g (VCloseDown grp held) \<longleftrightarrow> holds ow grp g \<and> bus_group held = Some grp"
| "claim_held ow g (VCloseEnd grp err) \<longleftrightarrow> holds ow grp g"
| "claim_held ow g (VReleaseDown grp held grps res why) \<longleftrightarrow> holds ow grp g \<and> bus_group held = Some grp"
| "claim_held ow g (VReleaseEnd grp err grps res why) \<longleftrightarrow> holds ow grp g"
| "claim_held ow g (VTransfer bus) \<longleftrightarrow>
     (\<exists>r. bus_group bus = Some r \<and> holds ow r g \<and> cl_bus (v_claim g r) = bus \<and> cl_open (v_claim g r))"
| "claim_held ow g (VSetOnly en was) \<longleftrightarrow> holds ow VIF_RES_KLINE g \<and>
     cl_bus (v_claim g VIF_RES_KLINE) = VIF_BUS_KLINE \<and> cl_open (v_claim g VIF_RES_KLINE)"
| "claim_held ow g _ \<longleftrightarrow> True"

definition claims_inv :: "vif_sys \<Rightarrow> bool" where
  "claims_inv s \<longleftrightarrow> claims_wf (vs_vif s) \<and> (\<forall>ow. claim_held ow (vs_vif s) (vs_pc s ow))"

lemma in_driver_held: "claim_held ow g pc \<Longrightarrow> in_driver pc = Some r \<Longrightarrow> holds ow r g"
  by (cases pc) auto

text \<open>An owner keeps what it has reserved when the claims it holds stay as they are.\<close>

definition claims_kept :: "vif_owner \<Rightarrow> vif \<Rightarrow> vif \<Rightarrow> bool" where
  "claims_kept ow g g' \<longleftrightarrow> (\<forall>r. holds ow r g \<longrightarrow> holds ow r g' \<and>
     cl_bus (v_claim g' r) = cl_bus (v_claim g r) \<and> cl_open (v_claim g' r) = cl_open (v_claim g r))"

lemma claim_held_kept: "claim_held ow g pc \<Longrightarrow> claims_kept ow g g' \<Longrightarrow> claim_held ow g' pc"
  by (cases pc) (auto simp: claims_kept_def)

lemma claims_inv_move:
  assumes "claims_inv s" "claims_wf g'" "claim_held ow g' pc"
    and "\<And>ow'. ow' \<noteq> ow \<Longrightarrow> claims_kept ow' (vs_vif s) g'"
  shows "claims_inv (goto s ow g' pc)"
  using assms claim_held_kept [of _ "vs_vif s" _ g'] unfolding claims_inv_def by auto

lemma claims_inv_goto:
  assumes "claims_inv s" "claim_held ow (vs_vif s) pc"
  shows "claims_inv (s\<lparr>vs_pc := (vs_pc s)(ow := pc)\<rparr>)"
  using assms by (auto simp: claims_inv_def)

lemma claims_inv_same:
  assumes "claims_inv s" "v_claim g' = v_claim (vs_vif s)"
  shows "claims_inv (s\<lparr>vs_vif := g'\<rparr>)"
proof -
  have "claims_kept ow (vs_vif s) g'" for ow using assms(2) by (auto simp: claims_kept_def holds_def)
  moreover have "claims_wf g'" using assms by (simp add: claims_inv_def claims_wf_def)
  ultimately show ?thesis
    using assms(1) claim_held_kept [of _ "vs_vif s" _ g'] unfolding claims_inv_def by auto
qed


text \<open>What each critical section does to the claims.\<close>

lemma upd_kept:
  assumes "holds ow grp g" "ow' \<noteq> ow"
  shows "claims_kept ow' g (upd_claim grp f g)"
  using assms by (auto simp: claims_kept_def holds_def)

lemma upd_wf:
  "claims_wf g \<Longrightarrow> cl_bus (f (v_claim g grp)) \<in> {VIF_BUS_NONE, cl_bus (v_claim g grp)} \<or>
     bus_group (cl_bus (f (v_claim g grp))) = Some grp \<Longrightarrow> claims_wf (upd_claim grp f g)"
  by (auto simp: claims_wf_def)

lemma open_reserve_claims:
  assumes "open_reserve me ow bus g = (g', Inr old)" "claims_wf g"
  shows "claims_wf g' \<and> (\<exists>r. bus_group bus = Some r \<and> holds ow r g') \<and>
    (old \<noteq> VIF_BUS_NONE \<longrightarrow> bus_group old = bus_group bus) \<and> (\<forall>ow'. ow' \<noteq> ow \<longrightarrow> claims_kept ow' g g')"
  using assms
  by (auto simp: open_reserve_def Let_def claims_wf_def holds_def claims_kept_def bus_group_def
      split: option.splits if_splits)

lemma open_claim_claims:
  assumes "holds ow grp g" "bus_group bus = Some grp" "claims_wf g"
  shows "claims_wf (open_claim ow bus rate grp g) \<and> holds ow grp (open_claim ow bus rate grp g) \<and>
    cl_bus (v_claim (open_claim ow bus rate grp g) grp) = bus \<and>
    (\<forall>ow'. ow' \<noteq> ow \<longrightarrow> claims_kept ow' g (open_claim ow bus rate grp g))"
  using assms by (auto simp: open_claim_def claims_wf_def holds_def claims_kept_def bus_group_def)

lemma open_finish_claims:
  assumes "holds ow grp g" "claims_wf g"
  shows "claims_wf (open_finish grp err err' g) \<and> (\<forall>ow'. ow' \<noteq> ow \<longrightarrow> claims_kept ow' g (open_finish grp err err' g))"
  using assms by (auto simp: open_finish_def claims_wf_def holds_def claims_kept_def)

lemma close_begin_claims:
  assumes "close_begin me ow bus g = (g', Inr held)" "claims_wf g" "bus_group bus = Some grp"
  shows "claims_wf g' \<and> holds ow grp g' \<and> bus_group held = Some grp \<and>
    (\<forall>ow'. ow' \<noteq> ow \<longrightarrow> claims_kept ow' g g')"
  using assms by (auto simp: close_begin_def claims_wf_def holds_def claims_kept_def split: if_splits)

lemma close_finish_claims:
  assumes "holds ow grp g" "claims_wf g"
  shows "claims_wf (close_finish grp err g) \<and> (\<forall>ow'. ow' \<noteq> ow \<longrightarrow> claims_kept ow' g (close_finish grp err g))"
  using assms by (auto simp: close_finish_def claims_wf_def holds_def claims_kept_def)

lemma release_begin_claims:
  assumes "release_begin ow grp g = (g', Some held)" "claims_wf g"
  shows "claims_wf g' \<and> holds ow grp g' \<and> bus_group held = Some grp \<and>
    (\<forall>ow'. ow' \<noteq> ow \<longrightarrow> claims_kept ow' g g')"
  using assms by (auto simp: release_begin_def claims_wf_def holds_def claims_kept_def split: if_splits)

lemma worker_gone_claims:
  assumes "claims_wf g"
  shows "claims_wf (worker_gone b bus g) \<and> claims_kept ow' g (worker_gone b bus g)"
  using assms by (auto simp: claims_wf_def holds_def claims_kept_def split: option.split)

lemma set_only_claims:
  assumes "claims_wf g"
  shows "set_only_reserve en g = (g', Some was) \<Longrightarrow> claims_wf g' \<and> claims_kept ow' g g'"
    "claims_wf (set_only_finish en was rc g) \<and> claims_kept ow' g (set_only_finish en was rc g)"
  using assms by (auto simp: set_only_reserve_def set_only_finish_def Let_def claims_wf_def holds_def
      claims_kept_def split: if_splits)

lemma pin_functions_claims:
  "v_claim (fst (vif_pin_set ow pin m mv g)) = v_claim g"
  "pins_claim_for_calibration ow g = (g', err) \<Longrightarrow> v_claim g' = v_claim g"
  "v_claim (pins_drop_after_calibration ow g) = v_claim g"
  by (auto simp: vif_pin_set_def pins_claim_for_calibration_def pins_drop_after_calibration_def Let_def
      led_refresh_locked_def hs_release_locked_def ls_release_locked_def
      split: vif_pin_mode.splits if_splits)

lemma service_claims:
  "service_take me ow g = (g', t) \<Longrightarrow> v_claim g' = v_claim g"
  "v_claim (service_put_back ow recover g) = v_claim g"
  by (auto simp: service_take_def service_put_back_def split: if_splits)

lemma same_claims:
  "v_claim g' = v_claim g \<Longrightarrow> claims_wf g \<Longrightarrow> claims_wf g' \<and> claims_kept ow g g'"
  by (auto simp: claims_wf_def claims_kept_def holds_def)

lemma claims_inv_step:
  assumes "vif_step s s'" "claims_inv s"
  shows "claims_inv s'"
proof -
  have wf: "claims_wf (vs_vif s)" and held: "\<And>ow. claim_held ow (vs_vif s) (vs_pc s ow)"
    using assms(2) by (auto simp: claims_inv_def)
  from assms(1) show ?thesis
  proof cases
    case (open_call ow me bus g old rate)
    then show ?thesis
      using open_reserve_claims [OF open_call(4) wf]
      by (auto intro!: claims_inv_move [OF assms(2)])
  next
    case (open_down ow bus rate old b err)
    have "claims_kept ow (vs_vif s) (worker_gone b old (vs_vif s))" using worker_gone_claims [OF wf] by blast
    with held [of ow] open_down(2) show ?thesis unfolding open_down(1)
      using worker_gone_claims [OF wf, of b old]
      by (intro claims_inv_move [OF assms(2)]) (auto simp: claims_kept_def)
  next
    case (open_claims ow bus rate grp)
    then show ?thesis
      using open_claim_claims [of ow grp "vs_vif s" bus rate] held [of ow] wf
      by (auto intro!: claims_inv_move [OF assms(2)])
  next
    case (open_up ow bus err)
    then show ?thesis using held [of ow] wf same_claims [of "vs_vif s" "vs_vif s"]
      by (auto intro!: claims_inv_goto [OF assms(2)] claims_inv_move [OF assms(2)])
  next
    case (open_cleanup ow bus err b err')
    have "claims_kept ow (vs_vif s) (worker_gone b bus (vs_vif s))" using worker_gone_claims [OF wf] by blast
    with held [of ow] open_cleanup(2) show ?thesis unfolding open_cleanup(1)
      using worker_gone_claims [OF wf, of b bus]
      by (intro claims_inv_move [OF assms(2)]) (auto simp: claims_kept_def)
  next
    case (open_end ow bus err err' grp)
    then show ?thesis
      using open_finish_claims [of ow grp "vs_vif s" err err'] held [of ow] wf
      by (auto intro!: claims_inv_move [OF assms(2)])
  next
    case (close_call ow me bus g held grp)
    then show ?thesis
      using close_begin_claims [OF close_call(4) wf close_call(5)]
      by (auto intro!: claims_inv_move [OF assms(2)])
  next
    case (close_down ow grp hb b err)
    have "claims_kept ow (vs_vif s) (worker_gone b hb (vs_vif s))" using worker_gone_claims [OF wf] by blast
    with held [of ow] close_down(2) show ?thesis unfolding close_down(1)
      using worker_gone_claims [OF wf, of b hb]
      by (intro claims_inv_move [OF assms(2)]) (auto simp: claims_kept_def)
  next
    case (close_end ow grp err)
    then show ?thesis
      using close_finish_claims [of ow grp "vs_vif s" err] held [of ow] wf
      by (auto intro!: claims_inv_move [OF assms(2)])
  next
    case (release_call ow)
    then show ?thesis using wf same_claims [of "vs_vif s" "vs_vif s"]
      by (auto intro!: claims_inv_goto [OF assms(2)] claims_inv_move [OF assms(2)])
  next
    case (service_call ow me g recover release)
    then show ?thesis using wf same_claims [OF service_claims(1) [OF service_call(4)] wf]
      by (auto intro!: claims_inv_move [OF assms(2)])
  next
    case (release_skip ow grp grps res why g)
    then have "g = vs_vif s" by (auto simp: release_begin_def split: if_splits)
    with release_skip show ?thesis using wf same_claims [of "vs_vif s" "vs_vif s"]
      by (auto intro!: claims_inv_goto [OF assms(2)] claims_inv_move [OF assms(2)])
  next
    case (release_take ow grp grps res why g hb)
    then show ?thesis
      using release_begin_claims [OF release_take(3) wf]
      by (auto intro!: claims_inv_move [OF assms(2)])
  next
    case (release_down ow grp hb grps res why b err)
    have "claims_kept ow (vs_vif s) (worker_gone b hb (vs_vif s))" using worker_gone_claims [OF wf] by blast
    with held [of ow] release_down(2) show ?thesis unfolding release_down(1)
      using worker_gone_claims [OF wf, of b hb]
      by (intro claims_inv_move [OF assms(2)]) (auto simp: claims_kept_def)
  next
    case (release_end ow grp err grps res why)
    then show ?thesis
      using close_finish_claims [of ow grp "vs_vif s" err] held [of ow] wf
      by (auto intro!: claims_inv_move [OF assms(2)])
  next
    case (release_done ow res why)
    then show ?thesis using wf same_claims [of "vs_vif s" "vs_vif s"]
      by (auto intro!: claims_inv_goto [OF assms(2)] claims_inv_move [OF assms(2)] split: option.split)
  next
    case (service_pins ow res recover)
    then show ?thesis using wf same_claims [of "vif_pin_release_all ow (vs_vif s)" "vs_vif s"]
      by (auto intro!: claims_inv_move [OF assms(2)])
  next
    case (service_end ow res recover)
    then show ?thesis
      using wf same_claims [of "service_put_back ow recover (vs_vif s)" "vs_vif s"]
        same_claims [of "vs_vif s" "vs_vif s"] service_claims(2)
      by (auto intro!: claims_inv_goto [OF assms(2)] claims_inv_move [OF assms(2)])
  next
    case (transfer_call ow me bus)
    then show ?thesis using wf same_claims [of "vs_vif s" "vs_vif s"]
      by (auto intro!: claims_inv_goto [OF assms(2)] claims_inv_move [OF assms(2)]
          simp: bus_owned_by_def holds_def bus_group_def split: option.splits)
  next
    case (transfer_worker ow bus grp)
    have "claims_kept ow' (vs_vif s) (upd_claim grp (\<lambda>c. c\<lparr>cl_tx_worker := True\<rparr>) (vs_vif s))" for ow'
      by (auto simp: claims_kept_def holds_def)
    moreover have "claims_wf (upd_claim grp (\<lambda>c. c\<lparr>cl_tx_worker := True\<rparr>) (vs_vif s))"
      using wf by (intro upd_wf) auto
    ultimately show ?thesis unfolding transfer_worker(1)
      using held [of ow] transfer_worker(2,3)
      by (intro claims_inv_move [OF assms(2)]) (auto intro: claim_held_kept simp: holds_def)
  next
    case (transfer_end ow bus)
    then show ?thesis using wf same_claims [of "vs_vif s" "vs_vif s"]
      by (auto intro!: claims_inv_goto [OF assms(2)] claims_inv_move [OF assms(2)])
  next
    case (set_only_call ow me en g was)
    have k: "claims_kept ow (vs_vif s) g" "claims_wf g" "\<And>ow'. claims_kept ow' (vs_vif s) g"
      using set_only_claims(1) [OF wf set_only_call(5)] by auto
    moreover have "claim_held ow (vs_vif s) (VSetOnly en was)"
      using set_only_call(4) by (auto simp: bus_owned_by_def holds_def bus_group_def)
    ultimately show ?thesis unfolding set_only_call(1)
      by (intro claims_inv_move [OF assms(2)]) (auto intro: claim_held_kept simp del: claim_held.simps)
  next
    case (set_only_end ow en was rc)
    then show ?thesis using set_only_claims(2) [OF wf]
      by (auto intro!: claims_inv_move [OF assms(2)])
  next
    case (calibrate_call g)
    then show ?thesis using same_claims [OF pin_functions_claims(2) [OF calibrate_call(3)] wf]
      by (auto intro!: claims_inv_move [OF assms(2)])
  next
    case calibrate_begin
    then show ?thesis
      using same_claims [of "(vs_vif s)\<lparr>v_board := board_calibrate_begin (v_board (vs_vif s))\<rparr>" "vs_vif s"] wf
      by (auto intro!: claims_inv_move [OF assms(2)])
  next
    case calibrate_end
    then show ?thesis
      using same_claims [of "(vs_vif s)\<lparr>v_board := board_calibrate_end (v_board (vs_vif s))\<rparr>" "vs_vif s"] wf
      by (auto intro!: claims_inv_move [OF assms(2)])
  next
    case calibrate_drop
    then show ?thesis
      using same_claims [OF pin_functions_claims(3) wf, of VIF_OWNER_SHELL]
      by (auto intro!: claims_inv_move [OF assms(2)])
  next
    case (pin_set ow pin m mv)
    then show ?thesis using claims_inv_same [OF assms(2) pin_functions_claims(1)] by simp
  next
    case (pin_release ow)
    then show ?thesis using claims_inv_same [OF assms(2), of "vif_pin_release_all ow (vs_vif s)"] by simp
  next
    case (release_request ow)
    then show ?thesis using claims_inv_same [OF assms(2)] by simp
  next
    case recover_request
    then show ?thesis using claims_inv_same [OF assms(2), of "vif_recover_all (vs_vif s)"]
      by (simp add: vif_recover_all_def)
  next
    case (stats_call ow bus)
    then show ?thesis using wf same_claims [of "vs_vif s" "vs_vif s"]
      by (auto intro!: claims_inv_goto [OF assms(2)] claims_inv_move [OF assms(2)])
  next
    case (stats_end ow bus)
    then show ?thesis using wf same_claims [of "vs_vif s" "vs_vif s"]
      by (auto intro!: claims_inv_goto [OF assms(2)] claims_inv_move [OF assms(2)])
  qed (use assms(2) in \<open>simp_all add: claims_inv_def\<close>)
qed

lemma claims_inv_reach: "vif_reach s \<Longrightarrow> claims_inv s"
proof (induction rule: vif_reach.induct)
  case (start g tasks)
  then show ?case by (simp add: claims_inv_def claims_wf_def vif_init_def Let_def)
next
  case (step s s')
  then show ?case using claims_inv_step by blast
qed

subsection \<open>The workers\<close>

text \<open>The group whose driver an owner has just taken down without an error.\<close>

fun joined :: "vif_pc \<Rightarrow> vif_res option" where
  "joined (VOpenEnd bus err err') = (if err \<noteq> ESP_OK \<and> err' = ESP_OK then bus_group bus else None)"
| "joined (VCloseEnd grp err) = (if err = ESP_OK then Some grp else None)"
| "joined (VReleaseEnd grp err grps res why) = (if err = ESP_OK then Some grp else None)"
| "joined _ = None"

definition workers_inv :: "vif_sys \<Rightarrow> bool" where
  "workers_inv s \<longleftrightarrow>
     (\<forall>r. vs_sending s r \<longrightarrow> cl_tx_worker (v_claim (vs_vif s) r)) \<and>
     (\<forall>r. cl_tx_worker (v_claim (vs_vif s) r) \<longrightarrow> cl_bus (v_claim (vs_vif s) r) \<noteq> VIF_BUS_NONE) \<and>
     (\<forall>ow r. joined (vs_pc s ow) = Some r \<longrightarrow> \<not> cl_tx_worker (v_claim (vs_vif s) r))"

text \<open>No step but one makes a worker, and a step that ends one finds it outside the driver.\<close>

definition fewer_workers :: "vif_sys \<Rightarrow> vif \<Rightarrow> bool" where
  "fewer_workers s g \<longleftrightarrow>
     (\<forall>r. cl_tx_worker (v_claim g r) \<longrightarrow> cl_tx_worker (v_claim (vs_vif s) r) \<and>
        (cl_bus (v_claim (vs_vif s) r) \<noteq> VIF_BUS_NONE \<longrightarrow> cl_bus (v_claim g r) \<noteq> VIF_BUS_NONE)) \<and>
     (\<forall>r. vs_sending s r \<longrightarrow> cl_tx_worker (v_claim (vs_vif s) r) \<longrightarrow> cl_tx_worker (v_claim g r))"

lemma workers_move:
  assumes "workers_inv s" "fewer_workers s g" "\<And>r. joined pc = Some r \<Longrightarrow> \<not> cl_tx_worker (v_claim g r)"
  shows "workers_inv (goto s ow g pc)"
  using assms unfolding workers_inv_def fewer_workers_def by (auto split: if_splits)

lemma workers_goto:
  assumes "workers_inv s" "\<And>r. joined pc = Some r \<Longrightarrow> \<not> cl_tx_worker (v_claim (vs_vif s) r)"
  shows "workers_inv (s\<lparr>vs_pc := (vs_pc s)(ow := pc)\<rparr>)"
  using assms unfolding workers_inv_def by auto

lemma workers_same:
  assumes "workers_inv s" "v_claim g = v_claim (vs_vif s)"
  shows "workers_inv (s\<lparr>vs_vif := g\<rparr>)"
  using assms by (simp add: workers_inv_def)

lemma fewer_same: "v_claim g = v_claim (vs_vif s) \<Longrightarrow> fewer_workers s g"
  by (simp add: fewer_workers_def)

lemma fewer_gone:
  assumes "taken_down b bus err s"
  shows "fewer_workers s (worker_gone b bus (vs_vif s))"
    "b \<Longrightarrow> bus_group bus = Some r \<Longrightarrow> \<not> cl_tx_worker (v_claim (worker_gone b bus (vs_vif s)) r)"
  using assms by (auto simp: fewer_workers_def split: option.split if_splits)

lemma fewer_sections:
  "open_reserve me ow bus (vs_vif s) = (g, x) \<Longrightarrow> fewer_workers s g"
  "bus_group bus = Some grp \<Longrightarrow> fewer_workers s (open_claim ow bus rate grp (vs_vif s))"
  "close_begin me ow bus (vs_vif s) = (g, y) \<Longrightarrow> fewer_workers s g"
  "release_begin ow grp (vs_vif s) = (g, z) \<Longrightarrow> fewer_workers s g"
  "set_only_reserve en (vs_vif s) = (g, t) \<Longrightarrow> fewer_workers s g"
  "fewer_workers s (set_only_finish en was rc (vs_vif s))"
  "(err \<noteq> ESP_OK \<and> err' = ESP_OK \<Longrightarrow> \<not> cl_tx_worker (v_claim (vs_vif s) grp)) \<Longrightarrow>
     fewer_workers s (open_finish grp err err' (vs_vif s))"
  "(err = ESP_OK \<Longrightarrow> \<not> cl_tx_worker (v_claim (vs_vif s) grp)) \<Longrightarrow> fewer_workers s (close_finish grp err (vs_vif s))"
  by (auto simp: fewer_workers_def open_reserve_def open_claim_def close_begin_def release_begin_def set_only_reserve_def
      set_only_finish_def open_finish_def close_finish_def claim_zero_def bus_group_def Let_def split: option.splits if_splits)

lemma workers_inv_step:
  assumes "vif_step s s'" "workers_inv s" "claims_inv s"
  shows "workers_inv s'"
proof -
  note move = workers_move [OF assms(2)] and same = workers_same [OF assms(2)]
  note go = workers_goto [OF assms(2)]
  have joined: "\<not> cl_tx_worker (v_claim (vs_vif s) r)" if "joined (vs_pc s ow) = Some r" for ow r
    using assms(2) that by (auto simp: workers_inv_def)
  from assms(1) show ?thesis
  proof cases
    case (open_call ow me bus g old rate)
    then show ?thesis using fewer_sections(1) [OF open_call(4)] by (auto intro!: move)
  next
    case (open_down ow bus rate old b err)
    then show ?thesis unfolding open_down(1) using fewer_gone(1) [OF open_down(3)] by (intro move) (auto split: if_splits)
  next
    case (open_claims ow bus rate grp)
    then show ?thesis unfolding open_claims(1) using fewer_sections(2) [OF open_claims(3)] by (intro move) auto
  next
    case (open_up ow bus err)
    then show ?thesis unfolding open_up(1) by (intro move fewer_same) (auto split: if_splits)
  next
    case (open_cleanup ow bus err b err')
    show ?thesis unfolding open_cleanup(1)
    proof (rule move [OF fewer_gone(1) [OF open_cleanup(3)]])
      fix r assume "joined (VOpenEnd bus err err') = Some r"
      then have "err' = ESP_OK" "bus_group bus = Some r" by (auto split: if_splits)
      moreover have b using open_cleanup(3) \<open>err' = ESP_OK\<close> by (auto split: if_splits)
      ultimately show "\<not> cl_tx_worker (v_claim (worker_gone b bus (vs_vif s)) r)"
        using fewer_gone(2) [OF open_cleanup(3)] by blast
    qed
  next
    case (open_end ow bus err err' grp)
    have "\<not> cl_tx_worker (v_claim (vs_vif s) grp)" if "err \<noteq> ESP_OK \<and> err' = ESP_OK"
      using joined [of ow grp] open_end(2,3) that by simp
    then show ?thesis unfolding open_end(1) by (intro move fewer_sections(7)) auto
  next
    case (close_call ow me bus g held grp)
    then show ?thesis using fewer_sections(3) [OF close_call(4)] by (auto intro!: move)
  next
    case (close_down ow grp hb b err)
    have h: "bus_group hb = Some grp" using assms(3) close_down(2) by (auto simp: claims_inv_def dest!: spec [of _ ow])
    show ?thesis unfolding close_down(1)
      using fewer_gone [OF close_down(3)] h close_down(3) by (intro move) (auto split: if_splits)
  next
    case (close_end ow grp err)
    have "\<not> cl_tx_worker (v_claim (vs_vif s) grp)" if "err = ESP_OK" using joined [of ow grp] close_end(2) that by simp
    then show ?thesis unfolding close_end(1) by (intro move fewer_sections(8)) auto
  next
    case (service_call ow me g recover release)
    then show ?thesis using fewer_same [OF service_claims(1) [OF service_call(4)]] by (auto intro!: move)
  next
    case (release_skip ow grp grps res why g)
    then show ?thesis using fewer_sections(4) [OF release_skip(3)] by (auto intro!: move)
  next
    case (release_take ow grp grps res why g hb)
    then show ?thesis using fewer_sections(4) [OF release_take(3)] by (auto intro!: move)
  next
    case (release_down ow grp hb grps res why b err)
    have h: "bus_group hb = Some grp" using assms(3) release_down(2) by (auto simp: claims_inv_def dest!: spec [of _ ow])
    show ?thesis unfolding release_down(1)
      using fewer_gone [OF release_down(3)] h release_down(3) by (intro move) (auto split: if_splits)
  next
    case (release_end ow grp err grps res why)
    have "\<not> cl_tx_worker (v_claim (vs_vif s) grp)" if "err = ESP_OK" using joined [of ow grp] release_end(2) that by simp
    then show ?thesis unfolding release_end(1) by (intro move fewer_sections(8)) auto
  next
    case (release_done ow res why)
    then show ?thesis unfolding release_done(1) by (intro move fewer_same) (auto split: option.splits)
  next
    case (service_pins ow res recover)
    then show ?thesis unfolding service_pins(1) by (intro move fewer_same) auto
  next
    case (service_end ow res recover)
    then show ?thesis unfolding service_end(1) using service_claims(2) by (intro move fewer_same) auto
  next
    case (transfer_worker ow bus grp)
    have h: "holds ow grp (vs_vif s)" "bus_group bus = Some grp" and held: "\<And>ow. claim_held ow (vs_vif s) (vs_pc s ow)"
      using assms(3) transfer_worker(2,3) by (auto simp: claims_inv_def dest: spec [of _ ow])
    have "joined (vs_pc s ow') \<noteq> Some grp" for ow'
    proof
      assume j: "joined (vs_pc s ow') = Some grp"
      then have "holds ow' grp (vs_vif s)" using held [of ow'] by (cases "vs_pc s ow'") (auto split: if_splits)
      then have "ow' = ow" using h(1) by (simp add: holds_def)
      with j transfer_worker(2) show False by simp
    qed
    then show ?thesis unfolding transfer_worker(1) using assms(2) h(1) by (auto simp: workers_inv_def holds_def)
  next
    case (set_only_call ow me en g was)
    then show ?thesis using fewer_sections(5) [OF set_only_call(5)] by (auto intro!: move)
  next
    case (set_only_end ow en was rc)
    then show ?thesis unfolding set_only_end(1) by (intro move fewer_sections(6)) auto
  next
    case (calibrate_call g)
    then show ?thesis using fewer_same [OF pin_functions_claims(2) [OF calibrate_call(3)]] by (auto intro!: move)
  next
    case calibrate_drop
    then show ?thesis unfolding calibrate_drop(1) by (intro move fewer_same pin_functions_claims(3)) auto
  next
    case (pin_set ow pin m mv)
    then show ?thesis using same [OF pin_functions_claims(1)] by simp
  next
    case recover_request
    then show ?thesis using same [of "vif_recover_all (vs_vif s)"] by (simp add: vif_recover_all_def)
  next
    case (worker_sends grp)
    then show ?thesis using assms(2) by (auto simp: workers_inv_def)
  next
    case (worker_leaves grp)
    then show ?thesis using assms(2) by (auto simp: workers_inv_def)
  qed (auto intro!: move go same fewer_same)
qed

lemma workers_inv_reach: "vif_reach s \<Longrightarrow> workers_inv s"
proof (induction rule: vif_reach.induct)
  case (start g tasks)
  then show ?case by (simp add: workers_inv_def vif_init_def claim_zero_def Let_def)
next
  case (step s s')
  then show ?case using workers_inv_step claims_inv_reach by blast
qed


section \<open>Pins\<close>

abbreviation reserved :: "vif \<Rightarrow> bool" where
  "reserved g \<equiv> cl_l_line_reserved (v_claim g VIF_RES_KLINE)"

fun calibrating :: "vif_pc \<Rightarrow> bool" where
  "calibrating VCalClaimed = True"
| "calibrating VCalibrating = True"
| "calibrating VCalDone = True"
| "calibrating _ = False"

fun set_only :: "vif_pc \<Rightarrow> (bool \<times> bool) option" where
  "set_only (VSetOnly en was) = Some (en, was)"
| "set_only _ = None"

definition pins_ok :: "vif \<Rightarrow> bool" where
  "pins_ok g \<longleftrightarrow> (\<forall>p. bd_hs (v_board g) p \<longrightarrow> p = v_hs_pin g \<and> p \<noteq> -1) \<and>
     (\<forall>p. bd_ls (v_board g) p \<longrightarrow> p = v_ls_pin g \<and> p \<noteq> -1) \<and> (bd_boost (v_board g) \<longrightarrow> v_hs_pin g \<noteq> -1) \<and>
     (v_hs_pin g = -1 \<or> high_side (v_hs_pin g)) \<and> (v_ls_pin g = -1 \<or> low_side (v_ls_pin g)) \<and>
     \<not> (reserved g \<and> v_ls_pin g = 15) \<and>
     (v_pins_calibrating g \<longrightarrow> v_hs_pin g = 12 \<and> v_hs_owner g = VIF_OWNER_SHELL \<and> \<not> reserved g)"

definition pins_inv :: "vif_sys \<Rightarrow> bool" where
  "pins_inv s \<longleftrightarrow> pins_ok (vs_vif s) \<and> \<not> calibrating (vs_pc s VIF_OWNER_LINK) \<and>
     v_pins_calibrating (vs_vif s) = calibrating (vs_pc s VIF_OWNER_SHELL) \<and>
     (vs_pc s VIF_OWNER_SHELL = VCalDone \<longrightarrow>
       (\<forall>p. \<not> bd_hs (v_board (vs_vif s)) p) \<and> \<not> bd_boost (v_board (vs_vif s))) \<and>
     (\<forall>ow en was. set_only (vs_pc s ow) = Some (en, was) \<longrightarrow> reserved (vs_vif s) = (was \<or> en))"

definition pins_same :: "vif \<Rightarrow> vif \<Rightarrow> bool" where
  "pins_same g g' \<longleftrightarrow> v_hs_pin g' = v_hs_pin g \<and> v_ls_pin g' = v_ls_pin g \<and> v_hs_owner g' = v_hs_owner g \<and>
     v_ls_owner g' = v_ls_owner g \<and> v_pins_calibrating g' = v_pins_calibrating g \<and> v_board g' = v_board g \<and>
     (reserved g' \<longrightarrow> reserved g)"

text \<open>Steps that only touch claims of the moving owner.\<close>

lemma pins_inv_claims:
  assumes "pins_inv s" "claims_inv s" "pins_same (vs_vif s) g'"
    and "\<And>ow'. ow' \<noteq> ow \<Longrightarrow> holds ow' VIF_RES_KLINE (vs_vif s) \<Longrightarrow> reserved g' = reserved (vs_vif s)"
    and "set_only pc = None" "\<not> calibrating pc" "\<not> calibrating (vs_pc s ow)"
  shows "pins_inv (goto s ow g' pc)"
proof -
  have hold: "holds ow' VIF_RES_KLINE (vs_vif s)" if "set_only (vs_pc s ow') = Some (en, was)" for ow' en was
  proof -
    have "vs_pc s ow' = VSetOnly en was" using that by (cases "vs_pc s ow'") auto
    moreover have "claim_held ow' (vs_vif s) (vs_pc s ow')" using assms(2) by (simp add: claims_inv_def)
    ultimately show ?thesis by simp
  qed
  have "set_only (((vs_pc s)(ow := pc)) ow') = Some (en, was) \<Longrightarrow> reserved g' = (was \<or> en)" for ow' en was
  proof (cases "ow' = ow")
    case True
    then show "set_only (((vs_pc s)(ow := pc)) ow') = Some (en, was) \<Longrightarrow> reserved g' = (was \<or> en)"
      using assms(5) by simp
  next
    case False
    assume so: "set_only (((vs_pc s)(ow := pc)) ow') = Some (en, was)"
    with False have so: "set_only (vs_pc s ow') = Some (en, was)" by simp
    from assms(1) so have "reserved (vs_vif s) = (was \<or> en)" unfolding pins_inv_def by blast
    with assms(4) [OF False hold [OF so]] show ?thesis by simp
  qed
  moreover have "pins_ok g'" using assms(1,3) by (auto simp: pins_inv_def pins_ok_def pins_same_def)
  moreover have "\<not> calibrating (((vs_pc s)(ow := pc)) VIF_OWNER_LINK)"
    using assms(1,6) by (simp add: pins_inv_def)
  moreover have "v_pins_calibrating g' = calibrating (((vs_pc s)(ow := pc)) VIF_OWNER_SHELL)"
    using assms(1,3,6,7) by (auto simp: pins_inv_def pins_same_def)
  moreover have "(((vs_pc s)(ow := pc)) VIF_OWNER_SHELL = VCalDone \<longrightarrow>
      (\<forall>p. \<not> bd_hs (v_board g') p) \<and> \<not> bd_boost (v_board g'))"
    using assms(1,3,6) by (auto simp: pins_inv_def pins_same_def)
  ultimately show ?thesis unfolding pins_inv_def by simp
qed

text \<open>Steps that change pins and leave the claims.\<close>

definition pins_step :: "vif \<Rightarrow> vif \<Rightarrow> bool" where
  "pins_step g g' \<longleftrightarrow> pins_ok g' \<and> v_claim g' = v_claim g \<and> v_pins_calibrating g' = v_pins_calibrating g \<and>
     (v_pins_calibrating g \<longrightarrow> bd_hs (v_board g') = bd_hs (v_board g) \<and> bd_boost (v_board g') = bd_boost (v_board g))"

lemma pins_step_refl: "pins_ok g \<Longrightarrow> pins_step g g"
  by (simp add: pins_step_def)

lemma pins_step_trans: "pins_step g g' \<Longrightarrow> pins_step g' g'' \<Longrightarrow> pins_step g g''"
  by (auto simp: pins_step_def)

lemma pins_step_ok: "pins_step g g' \<Longrightarrow> pins_ok g'"
  by (simp add: pins_step_def)

lemma led_step: "pins_ok g \<Longrightarrow> pins_step g (led_refresh_locked g)"
  by (simp add: pins_step_def pins_ok_def led_refresh_locked_def)

lemma pins_okD:
  assumes "pins_ok g"
  shows "bd_hs (v_board g) p \<Longrightarrow> p = v_hs_pin g \<and> p \<noteq> -1" "bd_ls (v_board g) q \<Longrightarrow> q = v_ls_pin g \<and> q \<noteq> -1"
    "bd_boost (v_board g) \<Longrightarrow> v_hs_pin g \<noteq> -1" "v_hs_pin g = -1 \<or> high_side (v_hs_pin g)"
    "v_ls_pin g = -1 \<or> low_side (v_ls_pin g)" "reserved g \<Longrightarrow> v_ls_pin g \<noteq> 15"
    "v_pins_calibrating g \<Longrightarrow> v_hs_pin g = 12 \<and> v_hs_owner g = VIF_OWNER_SHELL \<and> \<not> reserved g"
  using assms unfolding pins_ok_def by blast+

lemma pins_okI:
  assumes "\<And>p. bd_hs (v_board g) p \<Longrightarrow> p = v_hs_pin g \<and> p \<noteq> -1" "\<And>q. bd_ls (v_board g) q \<Longrightarrow> q = v_ls_pin g \<and> q \<noteq> -1"
    "bd_boost (v_board g) \<Longrightarrow> v_hs_pin g \<noteq> -1" "v_hs_pin g = -1 \<or> high_side (v_hs_pin g)"
    "v_ls_pin g = -1 \<or> low_side (v_ls_pin g)" "reserved g \<Longrightarrow> v_ls_pin g \<noteq> 15"
    "v_pins_calibrating g \<Longrightarrow> v_hs_pin g = 12 \<and> v_hs_owner g = VIF_OWNER_SHELL \<and> \<not> reserved g"
  shows "pins_ok g"
  using assms unfolding pins_ok_def by blast

lemma pins_not_minus [simp]: "\<not> high_side (-1)" "\<not> low_side (-1)"
  by (auto simp: high_side_def low_side_def)

lemma hs_release_step:
  assumes "pins_ok g" "\<not> v_pins_calibrating g"
  shows "pins_step g (hs_release_locked g)"
proof (cases "v_hs_pin g = -1")
  case True
  then show ?thesis using assms by (simp add: hs_release_locked_def pins_step_refl)
next
  case False
  note d = pins_okD [OF assms(1)]
  have "pins_ok (hs_release_locked g)"
    by (rule pins_okI) (use d False assms(2) in \<open>auto simp: hs_release_locked_def board_set_hs_state_def
      board_set_hs_boost_en_def board_set_hs_voltage_def split: if_splits\<close>)
  with False assms(2) show ?thesis by (simp add: pins_step_def hs_release_locked_def)
qed

lemma ls_release_step:
  assumes "pins_ok g"
  shows "pins_step g (ls_release_locked g)"
proof (cases "v_ls_pin g = -1")
  case True
  then show ?thesis using assms by (simp add: ls_release_locked_def pins_step_refl)
next
  case False
  note d = pins_okD [OF assms(1)]
  have "pins_ok (ls_release_locked g)"
    by (rule pins_okI) (use d False in \<open>auto simp: ls_release_locked_def board_set_ls_state_def split: if_splits\<close>)
  with False show ?thesis by (simp add: pins_step_def ls_release_locked_def board_set_ls_state_def)
qed

lemma hs_take_step:
  assumes "pins_ok g" "\<not> v_pins_calibrating g" "high_side pin" "v_hs_pin g = -1 \<or> v_hs_pin g = pin"
    "g' = g\<lparr>v_board := board_set_hs_state pin True (board_set_hs_boost_en True
      (board_set_hs_voltage mv (v_board g))), v_hs_pin := pin, v_hs_owner := ow\<rparr>"
  shows "pins_step g g'"
proof -
  have p: "pin \<noteq> -1" using assms(3) by (auto simp: high_side_def)
  note d = pins_okD [OF assms(1)]
  have h: "bd_hs (v_board g) q \<Longrightarrow> q = pin" for q
    using d(1) [of q] assms(4) by auto
  have "pins_ok g'"
    by (rule pins_okI) (use d(2,3,5,6,7) h p assms(2,3) in \<open>auto simp: assms(5) board_set_hs_state_def
      board_set_hs_boost_en_def board_set_hs_voltage_def split: if_splits\<close>)
  with assms(2) show ?thesis by (simp add: pins_step_def assms(5))
qed

lemma ls_take_step:
  assumes "pins_ok g" "low_side pin" "v_ls_pin g = -1 \<or> v_ls_pin g = pin" "\<not> reserved g"
    "g' = g\<lparr>v_board := board_set_ls_state pin True (v_board g), v_ls_pin := pin, v_ls_owner := ow\<rparr>"
  shows "pins_step g g'"
proof -
  note d = pins_okD [OF assms(1)]
  have h: "bd_ls (v_board g) q \<Longrightarrow> q = pin" for q
    using d(2) [of q] assms(3) by auto
  have "pins_ok g'"
    by (rule pins_okI) (use d h assms(2,4) in \<open>auto simp: assms(5) board_set_ls_state_def split: if_splits\<close>)
  then show ?thesis by (simp add: pins_step_def assms(5) board_set_ls_state_def)
qed

lemma pin_off_step:
  assumes "pins_ok g" "v_hs_pin g = pin \<Longrightarrow> v_hs_owner g = ow" "v_pins_calibrating g \<Longrightarrow> ow = VIF_OWNER_LINK"
  shows "pins_step g (led_refresh_locked
    (let g = (if v_hs_pin g = pin then hs_release_locked g else g)
     in if v_ls_pin g = pin then ls_release_locked g else g))"
proof -
  have "\<not> v_pins_calibrating g" if "v_hs_pin g = pin"
    using assms(2) [OF that] assms(3) pins_okD(7) [OF assms(1)] by auto
  then have h: "pins_step g (if v_hs_pin g = pin then hs_release_locked g else g)"
    using hs_release_step pins_step_refl assms(1) by simp
  let ?h = "if v_hs_pin g = pin then hs_release_locked g else g"
  have l: "pins_step ?h (if v_ls_pin ?h = pin then ls_release_locked ?h else ?h)"
    using ls_release_step pins_step_refl pins_step_ok [OF h] by simp
  note pins_step_trans [OF h l]
  from pins_step_trans [OF this led_step [OF pins_step_ok [OF this]]] show ?thesis by (simp add: Let_def)
qed

lemma pin_set_outcomes:
  "fst (vif_pin_set ow pin VIF_PIN_OFF mv g) = g \<or>
    ((v_hs_pin g = pin \<longrightarrow> v_hs_owner g = ow) \<and> fst (vif_pin_set ow pin VIF_PIN_OFF mv g) = led_refresh_locked
      (let g = (if v_hs_pin g = pin then hs_release_locked g else g)
       in if v_ls_pin g = pin then ls_release_locked g else g))"
  "fst (vif_pin_set ow pin VIF_PIN_VOLTAGE mv g) = g \<or>
    (high_side pin \<and> (v_hs_pin g = -1 \<or> (v_hs_pin g = pin \<and> v_hs_owner g = ow)) \<and>
     fst (vif_pin_set ow pin VIF_PIN_VOLTAGE mv g) = led_refresh_locked (g\<lparr>v_board := board_set_hs_state pin True
       (board_set_hs_boost_en True (board_set_hs_voltage mv (v_board g))), v_hs_pin := pin, v_hs_owner := ow\<rparr>))"
  "fst (vif_pin_set ow pin VIF_PIN_GROUND mv g) = g \<or>
    (low_side pin \<and> (v_ls_pin g = -1 \<or> v_ls_pin g = pin) \<and> \<not> (pin = 15 \<and> reserved g) \<and>
     fst (vif_pin_set ow pin VIF_PIN_GROUND mv g) = led_refresh_locked
       (g\<lparr>v_board := board_set_ls_state pin True (v_board g), v_ls_pin := pin, v_ls_owner := ow\<rparr>))"
  unfolding vif_pin_set_def Let_def by simp_all

lemma pin_set_step:
  assumes "pins_ok g" "v_pins_calibrating g \<Longrightarrow> ow = VIF_OWNER_LINK"
  shows "pins_step g (fst (vif_pin_set ow pin m mv g))"
proof -
  have led: "pins_step g (led_refresh_locked g')" if "pins_step g g'" for g'
    using pins_step_trans [OF that led_step [OF pins_step_ok [OF that]]] .
  note stay = pins_step_refl [OF assms(1)]
  show ?thesis
  proof (cases m)
    case VIF_PIN_OFF
    from pin_set_outcomes(1) [of ow pin mv g] show ?thesis unfolding VIF_PIN_OFF
    proof (elim disjE conjE)
      assume own: "v_hs_pin g = pin \<longrightarrow> v_hs_owner g = ow"
        and eq: "fst (vif_pin_set ow pin VIF_PIN_OFF mv g) = led_refresh_locked
          (let g = (if v_hs_pin g = pin then hs_release_locked g else g)
           in if v_ls_pin g = pin then ls_release_locked g else g)"
      show "pins_step g (fst (vif_pin_set ow pin VIF_PIN_OFF mv g))"
        unfolding eq by (rule pin_off_step [OF assms(1) _ assms(2)]) (use own in simp)
    qed (simp add: stay)
  next
    case VIF_PIN_VOLTAGE
    from pin_set_outcomes(2) [of ow pin mv g] show ?thesis unfolding VIF_PIN_VOLTAGE
    proof (elim disjE)
      let ?g = "g\<lparr>v_board := board_set_hs_state pin True (board_set_hs_boost_en True
        (board_set_hs_voltage mv (v_board g))), v_hs_pin := pin, v_hs_owner := ow\<rparr>"
      assume h: "high_side pin \<and> (v_hs_pin g = -1 \<or> (v_hs_pin g = pin \<and> v_hs_owner g = ow)) \<and>
        fst (vif_pin_set ow pin VIF_PIN_VOLTAGE mv g) = led_refresh_locked ?g"
      then have "\<not> v_pins_calibrating g" using assms(2) pins_okD(7) [OF assms(1)] by auto
      then have "pins_step g ?g" using h by (intro hs_take_step [OF assms(1) _ _ _ refl]) auto
      then show "pins_step g (fst (vif_pin_set ow pin VIF_PIN_VOLTAGE mv g))" using h led by metis
    qed (simp add: stay)
  next
    case VIF_PIN_GROUND
    from pin_set_outcomes(3) [of ow pin mv g] show ?thesis unfolding VIF_PIN_GROUND
    proof (elim disjE)
      let ?g = "g\<lparr>v_board := board_set_ls_state pin True (v_board g), v_ls_pin := pin, v_ls_owner := ow\<rparr>"
      assume h: "low_side pin \<and> (v_ls_pin g = -1 \<or> v_ls_pin g = pin) \<and> \<not> (pin = 15 \<and> reserved g) \<and>
        fst (vif_pin_set ow pin VIF_PIN_GROUND mv g) = led_refresh_locked ?g"
      then have "pins_step g ?g" by (intro ls_take_step [OF assms(1) _ _ _ refl]) (auto simp: low_side_def)
      then show "pins_step g (fst (vif_pin_set ow pin VIF_PIN_GROUND mv g))" using h led by metis
    qed (simp add: stay)
  qed
qed

lemma pin_release_step:
  assumes "pins_ok g" "v_pins_calibrating g \<Longrightarrow> ow = VIF_OWNER_LINK"
  shows "pins_step g (vif_pin_release_all ow g)"
proof -
  let ?h = "if v_hs_pin g \<noteq> -1 \<and> v_hs_owner g = ow then hs_release_locked g else g"
  have "\<not> v_pins_calibrating g" if "v_hs_owner g = ow"
    using that assms(2) pins_okD(7) [OF assms(1)] by auto
  then have h: "pins_step g ?h" using hs_release_step pins_step_refl assms(1) by auto
  have l: "pins_step ?h (if v_ls_pin ?h \<noteq> -1 \<and> v_ls_owner ?h = ow then ls_release_locked ?h else ?h)"
    using ls_release_step pins_step_refl pins_step_ok [OF h] by simp
  note pins_step_trans [OF h l]
  from pins_step_trans [OF this led_step [OF pins_step_ok [OF this]]] show ?thesis
    by (simp add: vif_pin_release_all_def Let_def)
qed

lemma pins_inv_pins:
  assumes "pins_inv s" "pins_step (vs_vif s) g'"
  shows "pins_inv (s\<lparr>vs_vif := g'\<rparr>)"
proof -
  have c: "v_claim g' = v_claim (vs_vif s)" "v_pins_calibrating g' = v_pins_calibrating (vs_vif s)"
    "v_pins_calibrating (vs_vif s) \<Longrightarrow> bd_hs (v_board g') = bd_hs (v_board (vs_vif s)) \<and>
      bd_boost (v_board g') = bd_boost (v_board (vs_vif s))"
    using assms(2) by (auto simp: pins_step_def)
  have "vs_pc s VIF_OWNER_SHELL = VCalDone \<Longrightarrow> v_pins_calibrating (vs_vif s)"
    using assms(1) by (simp add: pins_inv_def)
  with assms c show ?thesis unfolding pins_inv_def by (auto simp: pins_step_ok)
qed

lemma pins_same_refl: "pins_same g g"
  by (simp add: pins_same_def)

lemma pins_inv_move:
  assumes "pins_inv s" "claims_inv s" "set_only pc = None" "\<not> calibrating pc" "\<not> calibrating (vs_pc s ow)"
  shows "pins_inv (goto s ow (vs_vif s) pc)"
  using assms by (intro pins_inv_claims) (auto simp: pins_same_refl)

lemma pins_inv_goto:
  assumes "pins_inv s" "claims_inv s" "set_only pc = None" "\<not> calibrating pc" "\<not> calibrating (vs_pc s ow)"
  shows "pins_inv (s\<lparr>vs_pc := (vs_pc s)(ow := pc)\<rparr>)"
  using pins_inv_move [OF assms] by simp

lemma pins_inv_free:
  assumes "pins_inv s" "claims_inv s" "pins_same (vs_vif s) g'" "reserved g' = reserved (vs_vif s)"
    "set_only pc = None" "\<not> calibrating pc" "\<not> calibrating (vs_pc s ow)"
  shows "pins_inv (goto s ow g' pc)"
  using assms by (intro pins_inv_claims) auto

lemma pins_inv_upd:
  assumes "pins_inv s" "claims_inv s" "holds ow grp (vs_vif s)"
    "cl_l_line_reserved (f (v_claim (vs_vif s) grp)) \<Longrightarrow> cl_l_line_reserved (v_claim (vs_vif s) grp)"
    "set_only pc = None" "\<not> calibrating pc" "\<not> calibrating (vs_pc s ow)"
  shows "pins_inv (goto s ow (upd_claim grp f (vs_vif s)) pc)"
  using assms by (intro pins_inv_claims) (auto simp: pins_same_def holds_def)

text \<open>The sections that leave the pins and the reservation of the L line alone.\<close>

lemma reserve_pins:
  "open_reserve me ow bus g = (g', r) \<Longrightarrow> pins_same g g' \<and> reserved g' = reserved g"
  "close_begin me ow bus g = (g', r') \<Longrightarrow> pins_same g g' \<and> reserved g' = reserved g"
  "release_begin ow grp g = (g', r'') \<Longrightarrow> pins_same g g' \<and> reserved g' = reserved g"
  by (auto simp: open_reserve_def close_begin_def release_begin_def pins_same_def Let_def
      split: option.splits if_splits)

lemma service_pins_same:
  "service_take me ow g = (g', t) \<Longrightarrow> pins_same g g' \<and> reserved g' = reserved g"
  "pins_same g (service_put_back ow recover g) \<and> reserved (service_put_back ow recover g) = reserved g"
  by (auto simp: service_take_def service_put_back_def pins_same_def split: if_splits)

lemma worker_pins:
  "pins_same g (worker_gone b bus g) \<and> reserved (worker_gone b bus g) = reserved g"
  by (auto simp: pins_same_def split: option.split)

lemma set_only_reserve_step:
  assumes "pins_inv s" "claims_inv s" "holds ow VIF_RES_KLINE (vs_vif s)" "vs_pc s ow = VIdle"
    "set_only_reserve en (vs_vif s) = (g', Some was)"
  shows "pins_inv (goto s ow g' (VSetOnly en was))"
proof -
  let ?g = "vs_vif s"
  have was: "was = reserved ?g" and ok: "en \<Longrightarrow> v_ls_pin ?g \<noteq> 15 \<and> \<not> v_pins_calibrating ?g"
    and g': "g' = upd_claim VIF_RES_KLINE (\<lambda>c. c\<lparr>cl_l_line_reserved := was \<or> en\<rparr>) ?g"
    using assms(5) by (auto simp: set_only_reserve_def Let_def split: if_splits)
  have "set_only (vs_pc s ow') = None" if "ow' \<noteq> ow" for ow'
  proof (rule ccontr)
    assume "set_only (vs_pc s ow') \<noteq> None"
    then obtain e w where "vs_pc s ow' = VSetOnly e w" by (cases "vs_pc s ow'") auto
    moreover have "claim_held ow' ?g (vs_pc s ow')" using assms(2) by (simp add: claims_inv_def)
    ultimately show False using assms(3) that by (simp add: holds_def)
  qed
  moreover have "pins_ok g'" using assms(1) ok was unfolding pins_inv_def g' pins_ok_def by auto
  ultimately show ?thesis using assms(1,4) unfolding pins_inv_def g' by auto
qed

lemma calibrate_claim_step:
  assumes "pins_inv s" "vs_pc s VIF_OWNER_SHELL = VIdle"
    "pins_claim_for_calibration VIF_OWNER_SHELL (vs_vif s) = (g', ESP_OK)"
  shows "pins_inv (goto s VIF_OWNER_SHELL g' VCalClaimed)"
proof -
  let ?g = "vs_vif s"
  let ?r = "ls_release_locked (hs_release_locked ?g)"
  have free: "\<not> reserved ?g" "\<not> v_pins_calibrating ?g" and ok: "pins_ok ?g"
    and g': "g' = led_refresh_locked (?r\<lparr>v_hs_owner := VIF_OWNER_SHELL, v_hs_pin := 12, v_pins_calibrating := True\<rparr>)"
    using assms(1,3) by (auto simp: pins_claim_for_calibration_def Let_def ESP_OK_def ESP_ERR_INVALID_STATE_def
        pins_inv_def split: if_splits)
  have r: "pins_step ?g ?r"
    using hs_release_step [OF ok free(2)] ls_release_step pins_step_ok pins_step_trans by blast
  have r1: "v_hs_pin ?r = -1" "v_claim ?r = v_claim ?g"
    by (auto simp: hs_release_locked_def ls_release_locked_def)
  have none: "\<not> bd_hs (v_board ?r) p" "\<not> bd_boost (v_board ?r)" for p
    using pins_okD(1,3) [OF pins_step_ok [OF r]] r1(1) by force+
  have "pins_ok (?r\<lparr>v_hs_owner := VIF_OWNER_SHELL, v_hs_pin := 12, v_pins_calibrating := True\<rparr>)"
    by (rule pins_okI) (use pins_okD [OF pins_step_ok [OF r]] none free r1 in \<open>auto simp: high_side_def\<close>)
  then have "pins_ok g'" unfolding g' using led_step pins_step_ok by blast
  moreover have "v_pins_calibrating g'" "v_claim g' = v_claim ?g"
    unfolding g' led_refresh_locked_def using r1 by simp_all
  ultimately show ?thesis using assms(1,2) unfolding pins_inv_def by auto
qed

lemma calibrate_board_step:
  assumes "pins_inv s" "vs_pc s VIF_OWNER_SHELL = VCalClaimed \<or> vs_pc s VIF_OWNER_SHELL = VCalibrating"
    and "b' = board_calibrate_begin (v_board (vs_vif s)) \<and> pc = VCalibrating \<or>
      b' = board_calibrate_end (v_board (vs_vif s)) \<and> pc = VCalDone"
  shows "pins_inv (goto s VIF_OWNER_SHELL ((vs_vif s)\<lparr>v_board := b'\<rparr>) pc)"
proof -
  let ?g = "vs_vif s"
  have ok: "pins_ok ?g" and cal: "v_pins_calibrating ?g" using assms(1,2) by (auto simp: pins_inv_def)
  note d = pins_okD [OF ok]
  have hs: "v_hs_pin ?g = 12" using d(7) [OF cal] by simp
  have hs': "bd_hs (v_board ?g) p \<Longrightarrow> p = 12" for p using d(1) [of p] hs by auto
  have ls: "\<forall>q. bd_ls (v_board ?g) q \<longrightarrow> q = v_ls_pin ?g \<and> q \<noteq> -1" using d(2) by blast
  have "pins_ok (?g\<lparr>v_board := b'\<rparr>)"
    by (rule pins_okI) (use assms(3) d(3-) hs hs' ls in \<open>auto simp: board_calibrate_begin_def board_calibrate_end_def
      board_hs_ls_reset_state_def board_set_hs_state_def board_set_hs_boost_en_def split: if_splits\<close>)
  moreover have "pc = VCalDone \<Longrightarrow> b' = board_hs_ls_reset_state (v_board ?g)"
    using assms(3) by (auto simp: board_calibrate_end_def)
  then have "pc = VCalDone \<Longrightarrow> (\<forall>p. \<not> bd_hs b' p) \<and> \<not> bd_boost b'"
    using hs' by (auto simp: board_hs_ls_reset_state_def)
  moreover have "calibrating pc" "set_only pc = None" using assms(3) by auto
  ultimately show ?thesis using assms(1) cal unfolding pins_inv_def by auto
qed

lemma calibrate_drop_step:
  assumes "pins_inv s" "vs_pc s VIF_OWNER_SHELL = VCalDone"
  shows "pins_inv (goto s VIF_OWNER_SHELL (pins_drop_after_calibration VIF_OWNER_SHELL (vs_vif s)) VIdle)"
proof -
  let ?g = "vs_vif s"
  have ok: "pins_ok ?g" and cal: "v_pins_calibrating ?g"
    and off: "\<And>p. \<not> bd_hs (v_board ?g) p" "\<not> bd_boost (v_board ?g)"
    using assms by (auto simp: pins_inv_def)
  note d = pins_okD [OF ok]
  have eq: "pins_drop_after_calibration VIF_OWNER_SHELL ?g =
      led_refresh_locked (?g\<lparr>v_pins_calibrating := False, v_hs_pin := -1\<rparr>)"
    using d(7) [OF cal] by (simp add: pins_drop_after_calibration_def Let_def)
  have "pins_ok (?g\<lparr>v_pins_calibrating := False, v_hs_pin := -1\<rparr>)"
    by (rule pins_okI) (use d off in auto)
  then have "pins_ok (pins_drop_after_calibration VIF_OWNER_SHELL ?g)"
    unfolding eq using led_step pins_step_ok by blast
  moreover have "\<not> v_pins_calibrating (pins_drop_after_calibration VIF_OWNER_SHELL ?g)"
    "v_claim (pins_drop_after_calibration VIF_OWNER_SHELL ?g) = v_claim ?g"
    unfolding eq led_refresh_locked_def by simp_all
  ultimately show ?thesis using assms unfolding pins_inv_def by auto
qed

lemma pins_inv_step:
  assumes "vif_step s s'" "pins_inv s" "claims_inv s"
  shows "pins_inv s'"
proof -
  have held: "claim_held ow (vs_vif s) (vs_pc s ow)" for ow using assms(3) by (simp add: claims_inv_def)
  have ok: "pins_ok (vs_vif s)" using assms(2) by (simp add: pins_inv_def)
  have link: "ow = VIF_OWNER_LINK" if "v_pins_calibrating (vs_vif s)" "\<not> calibrating (vs_pc s ow)" for ow
    using assms(2) that by (cases ow) (auto simp: pins_inv_def)
  note move = pins_inv_move [OF assms(2,3)]
  note free = pins_inv_free [OF assms(2,3)]
  note upd = pins_inv_upd [OF assms(2,3)]
  from assms(1) show ?thesis
  proof cases
    case (open_call ow me bus g old rate)
    then show ?thesis using reserve_pins(1) [OF open_call(4)] by (auto intro!: free)
  next
    case (open_down ow bus rate old b err)
    then show ?thesis unfolding open_down(1) using worker_pins [of "vs_vif s" b old] by (intro free) auto
  next
    case (open_claims ow bus rate grp)
    then show ?thesis unfolding open_claims(1) open_claim_def using held [of ow] by (intro upd) auto
  next
    case (open_up ow bus err)
    then show ?thesis unfolding open_up(1) by (intro move) auto
  next
    case (open_cleanup ow bus err b err')
    then show ?thesis unfolding open_cleanup(1) using worker_pins [of "vs_vif s" b bus] by (intro free) auto
  next
    case (open_end ow bus err err' grp)
    then have h: "holds ow grp (vs_vif s)" using held [of ow] by simp
    show ?thesis unfolding open_end(1) open_finish_def
      using h open_end(2) by (auto intro!: upd pins_inv_goto [OF assms(2,3)] simp: claim_zero_def)
  next
    case (close_call ow me bus g held grp)
    then show ?thesis using reserve_pins(2) [OF close_call(4)] by (auto intro!: free)
  next
    case (close_down ow grp hb b err)
    then show ?thesis unfolding close_down(1) using worker_pins [of "vs_vif s" b hb] by (intro free) auto
  next
    case (close_end ow grp err)
    then have h: "holds ow grp (vs_vif s)" using held [of ow] by simp
    show ?thesis unfolding close_end(1) close_finish_def
      using h close_end(2) by (auto intro!: upd pins_inv_goto [OF assms(2,3)] simp: claim_zero_def)
  next
    case (release_call ow)
    then show ?thesis unfolding release_call(1) by (intro move) auto
  next
    case (service_call ow me g recover release)
    then show ?thesis using service_pins_same(1) [OF service_call(4)] by (auto intro!: free)
  next
    case (release_skip ow grp grps res why g)
    then show ?thesis using reserve_pins(3) [OF release_skip(3)] by (auto intro!: free)
  next
    case (release_take ow grp grps res why g hb)
    then show ?thesis using reserve_pins(3) [OF release_take(3)] by (auto intro!: free)
  next
    case (release_down ow grp hb grps res why b err)
    then show ?thesis unfolding release_down(1) using worker_pins [of "vs_vif s" b hb] by (intro free) auto
  next
    case (release_end ow grp err grps res why)
    then have h: "holds ow grp (vs_vif s)" using held [of ow] by simp
    show ?thesis unfolding release_end(1) close_finish_def
      using h release_end(2) by (auto intro!: upd pins_inv_goto [OF assms(2,3)] simp: claim_zero_def)
  next
    case (release_done ow res why)
    then show ?thesis unfolding release_done(1) by (intro move) (auto split: option.split)
  next
    case (service_pins ow res recover)
    let ?g = "vif_pin_release_all ow (vs_vif s)"
    have "pins_inv (s\<lparr>vs_vif := ?g\<rparr>)"
      by (intro pins_inv_pins [OF assms(2)] pin_release_step [OF ok]) (use link service_pins in auto)
    moreover have "claims_inv (s\<lparr>vs_vif := ?g\<rparr>)" by (rule claims_inv_same [OF assms(3)]) simp
    ultimately have "pins_inv (goto (s\<lparr>vs_vif := ?g\<rparr>) ow ?g (VServiceEnd res recover))"
      using pins_inv_move [of "s\<lparr>vs_vif := ?g\<rparr>" "VServiceEnd res recover" ow] service_pins by simp
    then show ?thesis unfolding service_pins(1) by simp
  next
    case (service_end ow res recover)
    then show ?thesis using service_pins_same(2) [of "vs_vif s" ow recover]
      by (auto intro!: free pins_inv_goto [OF assms(2,3)])
  next
    case (transfer_call ow me bus)
    then show ?thesis unfolding transfer_call(1) by (intro move) auto
  next
    case (transfer_worker ow bus grp)
    then show ?thesis unfolding transfer_worker(1) using held [of ow] by (intro upd) auto
  next
    case (transfer_end ow bus)
    then show ?thesis unfolding transfer_end(1) by (intro move) auto
  next
    case (set_only_call ow me en g was)
    then have "holds ow VIF_RES_KLINE (vs_vif s)" by (auto simp: bus_owned_by_def holds_def bus_group_def)
    then show ?thesis unfolding set_only_call(1) using set_only_call
      by (intro set_only_reserve_step [OF assms(2,3)]) auto
  next
    case (set_only_end ow en was rc)
    have "set_only (vs_pc s ow) = Some (en, was)" using set_only_end(2) by simp
    then have "reserved (vs_vif s) = (was \<or> en)" using assms(2) unfolding pins_inv_def by blast
    then show ?thesis unfolding set_only_end(1) set_only_finish_def using held [of ow] set_only_end(2)
      by (intro upd) (auto split: if_splits)
  next
    case (calibrate_call g)
    then show ?thesis using calibrate_claim_step [OF assms(2)] by simp
  next
    case calibrate_begin
    then show ?thesis using calibrate_board_step [OF assms(2)] by simp
  next
    case calibrate_end
    then show ?thesis using calibrate_board_step [OF assms(2)] by simp
  next
    case calibrate_drop
    then show ?thesis using calibrate_drop_step [OF assms(2)] by simp
  next
    case (pin_set ow pin m mv)
    have "\<not> calibrating (vs_pc s ow)" using pin_set(2) assms(2) by (auto simp: pins_inv_def)
    then show ?thesis unfolding pin_set(1)
      by (intro pins_inv_pins [OF assms(2)] pin_set_step [OF ok]) (use link in auto)
  next
    case (pin_release ow)
    have "\<not> calibrating (vs_pc s ow)" using pin_release(2) assms(2) by (auto simp: pins_inv_def)
    then show ?thesis unfolding pin_release(1)
      by (intro pins_inv_pins [OF assms(2)] pin_release_step [OF ok]) (use link in auto)
  next
    case (release_request ow)
    have "pins_step (vs_vif s) ((vs_vif s)\<lparr>v_release_req := (v_release_req (vs_vif s))(ow := True)\<rparr>)"
      using ok by (simp add: pins_step_def pins_ok_def)
    from pins_inv_pins [OF assms(2) this] show ?thesis unfolding release_request(1) .
  next
    case recover_request
    have "pins_step (vs_vif s) (vif_recover_all (vs_vif s))"
      using ok by (simp add: pins_step_def pins_ok_def vif_recover_all_def)
    from pins_inv_pins [OF assms(2) this] show ?thesis unfolding recover_request(1) .
  next
    case (stats_call ow bus)
    then show ?thesis unfolding stats_call(1) by (intro move) auto
  next
    case (stats_end ow bus)
    then show ?thesis unfolding stats_end(1) by (intro move) auto
  qed (use assms(2) in \<open>simp_all add: pins_inv_def\<close>)
qed

lemma pins_inv_reach: "vif_reach s \<Longrightarrow> pins_inv s"
proof (induction rule: vif_reach.induct)
  case (start g tasks)
  have "pins_ok ((vif_init g)\<lparr>v_task := tasks\<rparr>)"
    by (rule pins_okI) (use start in \<open>auto simp: vif_init_def Let_def claim_zero_def board_wf_def
      board_hs_ls_reset_state_def high_side_def low_side_def split: if_splits\<close>)
  then show ?case by (simp add: pins_inv_def vif_init_def Let_def)
next
  case (step s s')
  then show ?case using pins_inv_step claims_inv_reach by blast
qed

text \<open>C12: The pin drivers never fight each other or the L line: in every interleaving of the two
  owners' pin requests, bus operations, L line reservations and calibration, at most one high side
  pin is driven and it is the booked one, likewise the low side; the boost converter is on only with
  a high side pin booked; pin 15 is never grounded while the L line is reserved; and during a
  calibration the high side is booked for the shell, no high side pin but 12 is driven, and the L
  line is not reserved. Nothing is said of pin 15 in a calibration: the link may ground it, and the
  end of the calibration may switch a booked ground off (\<open>vif_calibration_loses_ground\<close>).\<close>

theorem vif_pins_safe:
  assumes "vif_reach s"
  defines "g \<equiv> vs_vif s"
  shows "(\<forall>p. bd_hs (v_board g) p \<longrightarrow> p = v_hs_pin g) \<and> (\<forall>p. bd_ls (v_board g) p \<longrightarrow> p = v_ls_pin g) \<and>
    (bd_boost (v_board g) \<longrightarrow> v_hs_pin g \<noteq> -1) \<and>
    \<not> (bd_ls (v_board g) 15 \<and> cl_l_line_reserved (v_claim g VIF_RES_KLINE)) \<and>
    (calibrating (vs_pc s VIF_OWNER_SHELL) \<longrightarrow> v_hs_pin g = 12 \<and> v_hs_owner g = VIF_OWNER_SHELL \<and>
      \<not> cl_l_line_reserved (v_claim g VIF_RES_KLINE))"
proof -
  have i: "pins_ok g" "v_pins_calibrating g = calibrating (vs_pc s VIF_OWNER_SHELL)"
    using pins_inv_reach [OF assms(1)] by (simp_all add: pins_inv_def g_def)
  note d = pins_okD [OF i(1)]
  have "\<not> (bd_ls (v_board g) 15 \<and> reserved g)" using d(2) [of 15] d(6) by auto
  then show ?thesis using d(1,2,3,7) i(2) by auto
qed

text \<open>The shell calibrating; and while it waits for a person, the link grounding pin 15.\<close>

definition cal_g0 :: vif where "cal_g0 = (vif_init vif_start)\<lparr>v_task := (\<lambda>_. Some 1)\<rparr>"
definition cal_g1 :: vif where "cal_g1 = fst (pins_claim_for_calibration VIF_OWNER_SHELL cal_g0)"
definition cal_g2 :: vif where "cal_g2 = cal_g1\<lparr>v_board := board_calibrate_begin (v_board cal_g1)\<rparr>"
definition cal_g3 :: vif where "cal_g3 = fst (vif_pin_set VIF_OWNER_LINK 15 VIF_PIN_GROUND 0 cal_g2)"
definition cal_g4 :: vif where "cal_g4 = cal_g3\<lparr>v_board := board_calibrate_end (v_board cal_g3)\<rparr>"
definition cal_g5 :: vif where "cal_g5 = pins_drop_after_calibration VIF_OWNER_SHELL cal_g4"

lemma cal_g0_simps [simp]:
  "v_hs_pin cal_g0 = -1" "v_ls_pin cal_g0 = -1" "\<not> v_pins_calibrating cal_g0" "v_claim cal_g0 = (\<lambda>_. claim_zero)"
  by (simp_all add: cal_g0_def vif_init_def Let_def)

lemma cal_claim: "pins_claim_for_calibration VIF_OWNER_SHELL cal_g0 = (cal_g1, ESP_OK)"
  by (simp add: cal_g1_def pins_claim_for_calibration_def claim_zero_def)

lemma cal_g1_simps [simp]:
  "v_hs_pin cal_g1 = 12" "v_ls_pin cal_g1 = -1" "v_hs_owner cal_g1 = VIF_OWNER_SHELL"
  "v_claim cal_g1 = (\<lambda>_. claim_zero)"
  by (simp_all add: cal_g1_def pins_claim_for_calibration_def claim_zero_def hs_release_locked_def
      ls_release_locked_def led_refresh_locked_def Let_def)

lemma cal_g2_simps [simp]:
  "v_hs_pin cal_g2 = 12" "v_ls_pin cal_g2 = -1" "v_hs_owner cal_g2 = VIF_OWNER_SHELL"
  "v_claim cal_g2 = (\<lambda>_. claim_zero)" "bd_hs (v_board cal_g2) 12"
  by (simp_all add: cal_g2_def board_calibrate_begin_def board_set_hs_state_def)

lemma cal_ground:
  "vif_pin_set VIF_OWNER_LINK 15 VIF_PIN_GROUND 0 cal_g2 = (cal_g3, ESP_OK)"
  by (simp add: cal_g3_def vif_pin_set_def claim_zero_def low_side_def)

lemma cal_g3_simps [simp]:
  "v_hs_pin cal_g3 = 12" "v_ls_pin cal_g3 = 15" "v_hs_owner cal_g3 = VIF_OWNER_SHELL"
  "bd_hs (v_board cal_g3) 12" "bd_ls (v_board cal_g3) 15"
  by (simp_all add: cal_g3_def vif_pin_set_def claim_zero_def low_side_def led_refresh_locked_def
      board_set_ls_state_def)

lemma cal_g5_simps [simp]:
  "v_ls_pin cal_g5 = 15" "bd_led_live (v_board cal_g5)" "\<not> bd_ls (v_board cal_g5) 15"
  by (simp_all add: cal_g5_def cal_g4_def pins_drop_after_calibration_def Let_def led_refresh_locked_def
      board_calibrate_end_def board_hs_ls_reset_state_def)

definition cal_sys :: "vif \<Rightarrow> vif_pc \<Rightarrow> vif_sys" where
  "cal_sys g pc = \<lparr>vs_vif = g, vs_pc = (\<lambda>_. VIdle)(VIF_OWNER_SHELL := pc), vs_sending = (\<lambda>_. False)\<rparr>"

lemma cal_move: "goto (cal_sys g pc) VIF_OWNER_SHELL g' pc' = cal_sys g' pc'"
  by (simp add: cal_sys_def)

lemma calibration_reach:
  "vif_reach (cal_sys cal_g2 VCalibrating)" "vif_reach (cal_sys cal_g3 VCalibrating)"
  "vif_reach (cal_sys cal_g5 VIdle)"
proof -
  have sys: "vs_vif (cal_sys g pc) = g" "vs_pc (cal_sys g pc) VIF_OWNER_SHELL = pc" for g pc
    by (simp_all add: cal_sys_def)
  have r0: "vif_reach (cal_sys cal_g0 VIdle)"
    using vif_reach.start [of vif_start "\<lambda>_. Some 1"]
    by (simp add: cal_sys_def cal_g0_def vif_start_def board_off_def board_wf_def fun_upd_def)
  have "vif_step (cal_sys cal_g0 VIdle) (cal_sys cal_g1 VCalClaimed)"
    using vif_step.calibrate_call [of "cal_sys cal_g0 VIdle" cal_g1] by (simp only: sys cal_claim cal_move)
  with r0 have r1: "vif_reach (cal_sys cal_g1 VCalClaimed)" by (rule vif_reach.step)
  have "vif_step (cal_sys cal_g1 VCalClaimed) (cal_sys cal_g2 VCalibrating)"
    using vif_step.calibrate_begin [of "cal_sys cal_g1 VCalClaimed"] by (simp only: sys cal_move cal_g2_def)
  with r1 show r2: "vif_reach (cal_sys cal_g2 VCalibrating)" by (rule vif_reach.step)
  have "vif_step (cal_sys cal_g2 VCalibrating) (cal_sys cal_g3 VCalibrating)"
    using vif_step.pin_set [of VIF_OWNER_LINK "cal_sys cal_g2 VCalibrating" 15 VIF_PIN_GROUND 0]
    by (simp add: cal_sys_def cal_ground)
  with r2 show r3: "vif_reach (cal_sys cal_g3 VCalibrating)" by (rule vif_reach.step)
  have "vif_step (cal_sys cal_g3 VCalibrating) (cal_sys cal_g4 VCalDone)"
    using vif_step.calibrate_end [of "cal_sys cal_g3 VCalibrating"] by (simp only: sys cal_move cal_g4_def)
  with r3 have r4: "vif_reach (cal_sys cal_g4 VCalDone)" by (rule vif_reach.step)
  have "vif_step (cal_sys cal_g4 VCalDone) (cal_sys cal_g5 VIdle)"
    using vif_step.calibrate_drop [of "cal_sys cal_g4 VCalDone"] by (simp only: sys cal_move cal_g5_def)
  with r4 show "vif_reach (cal_sys cal_g5 VIdle)" by (rule vif_reach.step)
qed

lemma vif_pins_safe_witness:
  "\<exists>s. vif_reach s \<and> bd_hs (v_board (vs_vif s)) 12 \<and> bd_ls (v_board (vs_vif s)) 15 \<and>
    v_hs_pin (vs_vif s) = 12 \<and> v_ls_pin (vs_vif s) = 15"
proof -
  let ?s = "cal_sys cal_g3 VCalibrating"
  have d: "bd_hs (v_board (vs_vif ?s)) 12" "bd_ls (v_board (vs_vif ?s)) 15" by (simp_all add: cal_sys_def)
  then have "v_hs_pin (vs_vif ?s) = 12" "v_ls_pin (vs_vif ?s) = 15"
    using vif_pins_safe [OF calibration_reach(2)] by metis+
  with calibration_reach(2) d show ?thesis by blast
qed

text \<open>
  What a calibration does to a ground the link asks for while it runs: the request is accepted,
  the reset at the end of the calibration switches the driver off, and the books keep it.
\<close>

lemma vif_calibration_loses_ground:
  "\<exists>s g. vif_reach s \<and> vs_pc s VIF_OWNER_SHELL = VCalibrating \<and>
     vif_pin_set VIF_OWNER_LINK 15 VIF_PIN_GROUND 0 (vs_vif s) = (g, ESP_OK) \<and> bd_ls (v_board g) 15 \<and>
     (\<exists>s'. vif_reach s' \<and> vs_pc s' = (\<lambda>_. VIdle) \<and> v_ls_pin (vs_vif s') = 15 \<and>
       bd_led_live (v_board (vs_vif s')) \<and> \<not> bd_ls (v_board (vs_vif s')) 15)"
  by (rule exI [of _ "cal_sys cal_g2 VCalibrating"], rule exI [of _ cal_g3], intro conjI
      exI [of _ "cal_sys cal_g5 VIdle"])
    (use calibration_reach cal_ground in \<open>simp_all add: cal_sys_def fun_upd_def\<close>)

end
