(* ===== verification/CommPort.thy ===== *)
theory CommPort
  imports Vif
begin

text \<open>
  The transport ports of \<open>main/comm_iface.c\<close>: a table of at most four ports, each with the operations
  of its transport, a ring buffer of received bytes and a mute flag. The ring buffer is that of
  ESP-IDF, a parameter here: \<open>ring_ops\<close> is its interface, \<open>ring_ok\<close> what its documentation says of a
  byte buffer. The operations of a transport act on a state of their own, \<open>'d\<close>. The lock is not a
  field; each operation holds it for one section and calls the transport after it.
  The lemmas: bytes come out as they went in and the count of unread bytes is exact, the drain at
  the end of a client returns and leaves nothing, and a write is reported as done exactly if the
  transport took all of it.
\<close>

section \<open>Ports\<close>

definition ESP_ERR_NOT_FOUND :: esp_err where "ESP_ERR_NOT_FOUND = 0x105"

definition COMM_MAX_PORTS :: nat where "COMM_MAX_PORTS = 4"
definition COMM_NAME_LEN :: nat where "COMM_NAME_LEN = 8"
definition COMM_INVALID_PORT_ID :: nat where "COMM_INVALID_PORT_ID = 0xFF"

text \<open>The byte buffer of ESP-IDF: create, send without waiting, receive up to a number of bytes within
  a time, return the item received.\<close>

record 'r ring_ops =
  rg_create :: "nat \<Rightarrow> 'r option"
  rg_send :: "byte list \<Rightarrow> 'r \<Rightarrow> 'r \<times> bool"
  rg_receive :: "nat \<Rightarrow> nat \<Rightarrow> 'r \<Rightarrow> 'r \<times> byte list option"
  rg_return :: "'r \<Rightarrow> 'r"

record 'd port_ops =
  po_write :: "(byte list \<Rightarrow> 'd \<Rightarrow> 'd \<times> int) option"
  po_flush :: "('d \<Rightarrow> 'd) option"
  po_is_connected :: "('d \<Rightarrow> 'd \<times> bool) option"

record ('r, 'd) comm_port =
  pt_active :: bool
  pt_name :: string
  pt_ops :: "'d port_ops"
  pt_rx_stream :: "'r option"
  pt_rx_dropped :: u32w
  pt_rx_discarded :: u32w
  pt_rx_pending :: nat
  pt_muted :: bool

definition port_zero :: "('r, 'd) comm_port" where
  "port_zero = \<lparr>pt_active = False, pt_name = [],
     pt_ops = \<lparr>po_write = None, po_flush = None, po_is_connected = None\<rparr>, pt_rx_stream = None,
     pt_rx_dropped = 0, pt_rx_discarded = 0, pt_rx_pending = 0, pt_muted = False\<rparr>"

record ('r, 'd) comm =
  cm_initialized :: bool
  cm_ports :: "('r, 'd) comm_port list"

definition port_valid :: "('r, 'd) comm \<Rightarrow> nat \<Rightarrow> bool" where
  "port_valid g i \<longleftrightarrow> i < COMM_MAX_PORTS \<and> pt_active (cm_ports g ! i)"

definition upd_port :: "nat \<Rightarrow> (('r, 'd) comm_port \<Rightarrow> ('r, 'd) comm_port) \<Rightarrow> ('r, 'd) comm \<Rightarrow> ('r, 'd) comm" where
  "upd_port i f g = g\<lparr>cm_ports := (cm_ports g)[i := f (cm_ports g ! i)]\<rparr>"

text \<open>\<open>strncpy\<close> of at most seven characters; \<open>None\<close> is a null pointer.\<close>

definition copy_name :: "string option \<Rightarrow> string" where
  "copy_name src = take (COMM_NAME_LEN - 1) (case src of None \<Rightarrow> ''?'' | Some s \<Rightarrow> s)"

text \<open>The flag says whether the mutex could be created.\<close>

definition comm_iface_init :: "bool \<Rightarrow> ('r, 'd) comm \<Rightarrow> ('r, 'd) comm \<times> esp_err" where
  "comm_iface_init created g =
     (if cm_initialized g then (g, ESP_OK)
      else if \<not> created then (g, ESP_ERR_NO_MEM)
      else (g\<lparr>cm_ports := replicate COMM_MAX_PORTS port_zero, cm_initialized := True\<rparr>, ESP_OK))"

definition comm_port_register ::
  "'r ring_ops \<Rightarrow> string option \<Rightarrow> 'd port_ops option \<Rightarrow> nat \<Rightarrow> ('r, 'd) comm \<Rightarrow> ('r, 'd) comm \<times> nat" where
  "comm_port_register rg name ops rx_buf_size g = (case ops of
       None \<Rightarrow> (g, COMM_INVALID_PORT_ID)
     | Some ops \<Rightarrow>
         if \<not> cm_initialized g \<or> po_write ops = None \<or> rx_buf_size = 0 then (g, COMM_INVALID_PORT_ID)
         else (case rg_create rg rx_buf_size of
           None \<Rightarrow> (g, COMM_INVALID_PORT_ID)
         | Some stream \<Rightarrow> (case find (\<lambda>i. \<not> pt_active (cm_ports g ! i)) [0..<COMM_MAX_PORTS] of
             None \<Rightarrow> (g, COMM_INVALID_PORT_ID)
           | Some i \<Rightarrow> (upd_port i (\<lambda>p. p\<lparr>pt_active := True, pt_ops := ops, pt_rx_stream := Some stream,
               pt_rx_dropped := 0, pt_rx_discarded := 0, pt_rx_pending := 0, pt_muted := False,
               pt_name := copy_name name\<rparr>) g, i))))"

section \<open>Receiving\<close>

text \<open>A null pointer \<open>data\<close> is \<open>None\<close>; the result \<open>None\<close> is the assertion of the ring buffer on a null handle.\<close>

definition comm_port_rx ::
  "'r ring_ops \<Rightarrow> nat \<Rightarrow> byte list option \<Rightarrow> ('r, 'd) comm \<Rightarrow> (('r, 'd) comm \<times> esp_err) option" where
  "comm_port_rx rg i data g =
     (if \<not> cm_initialized g then Some (g, ESP_ERR_INVALID_STATE)
      else case data of
        None \<Rightarrow> Some (g, ESP_ERR_INVALID_ARG)
      | Some data \<Rightarrow>
        if data = [] \<or> \<not> port_valid g i then Some (g, ESP_ERR_INVALID_ARG)
        else do {
          stream \<leftarrow> pt_rx_stream (cm_ports g ! i);
          let (stream, sent) = rg_send rg data stream;
          Some (upd_port i (\<lambda>p. if sent
              then p\<lparr>pt_rx_stream := Some stream, pt_rx_pending := pt_rx_pending p + length data\<rparr>
              else p\<lparr>pt_rx_stream := Some stream, pt_rx_dropped := pt_rx_dropped p + 1\<rparr>) g, ESP_OK)
        })"

text \<open>The bytes read, none when the wait was in vain; \<open>None\<close> is an item longer than the caller's buffer.\<close>

definition comm_port_read ::
  "'r ring_ops \<Rightarrow> nat \<Rightarrow> nat \<Rightarrow> nat \<Rightarrow> ('r, 'd) comm \<Rightarrow> (('r, 'd) comm \<times> byte list) option" where
  "comm_port_read rg i len timeout g =
     (if \<not> cm_initialized g \<or> len = 0 then Some (g, [])
      else case (if port_valid g i then pt_rx_stream (cm_ports g ! i) else None) of
        None \<Rightarrow> Some (g, [])
      | Some stream \<Rightarrow>
          (case rg_receive rg len timeout stream of
             (stream, None) \<Rightarrow> Some (upd_port i (\<lambda>p. p\<lparr>pt_rx_stream := Some stream\<rparr>) g, [])
           | (stream, Some item) \<Rightarrow>
               if length item > len then None
               else Some (upd_port i (\<lambda>p. p\<lparr>pt_rx_stream := Some (rg_return rg stream),
                   pt_rx_pending := pt_rx_pending p - min (length item) (pt_rx_pending p)\<rparr>) g, item)))"

definition comm_port_rx_pending :: "nat \<Rightarrow> ('r, 'd) comm \<Rightarrow> nat" where
  "comm_port_rx_pending i g =
     (if \<not> cm_initialized g then 0 else if port_valid g i then pt_rx_pending (cm_ports g ! i) else 0)"

definition comm_port_rx_dropped :: "nat \<Rightarrow> ('r, 'd) comm \<Rightarrow> u32w" where
  "comm_port_rx_dropped i g =
     (if \<not> cm_initialized g then 0 else if port_valid g i then pt_rx_dropped (cm_ports g ! i) else 0)"

section \<open>A client leaves\<close>

definition SIZE_MAX :: nat where "SIZE_MAX = 0xFFFFFFFF"

text \<open>The loop that throws away what nobody has read; \<open>None\<close> would be a loop that does not end.\<close>

partial_function (option) rx_stream_drain :: "'r ring_ops \<Rightarrow> u32w \<Rightarrow> 'r \<Rightarrow> ('r \<times> u32w) option" where
  "rx_stream_drain rg dropped stream =
     (case rg_receive rg SIZE_MAX 0 stream of
        (stream, None) \<Rightarrow> Some (stream, dropped)
      | (stream, Some item) \<Rightarrow> rx_stream_drain rg (dropped + of_nat (length item)) (rg_return rg stream))"

definition comm_port_client_gone :: "'r ring_ops \<Rightarrow> nat \<Rightarrow> ('r, 'd) comm \<Rightarrow> ('r, 'd) comm option" where
  "comm_port_client_gone rg i g =
     (if \<not> cm_initialized g \<or> \<not> port_valid g i then Some g
      else do {
        stream \<leftarrow> pt_rx_stream (cm_ports g ! i);
        (stream, dropped) \<leftarrow> rx_stream_drain rg 0 stream;
        Some (upd_port i (\<lambda>p. p\<lparr>pt_rx_stream := Some stream, pt_rx_discarded := pt_rx_discarded p + dropped,
          pt_rx_pending := 0, pt_muted := True\<rparr>) g)
      })"

definition comm_port_client_ready :: "nat \<Rightarrow> ('r, 'd) comm \<Rightarrow> ('r, 'd) comm" where
  "comm_port_client_ready i g =
     (if cm_initialized g \<and> port_valid g i then upd_port i (\<lambda>p. p\<lparr>pt_muted := False\<rparr>) g else g)"

section \<open>Writing\<close>

text \<open>The rest is tried once more after a flush. A transport that reports more than it was given
  leaves nothing to try again, as in the code.\<close>

definition port_write_all :: "(byte list \<Rightarrow> 'd \<Rightarrow> 'd \<times> int) \<Rightarrow> ('d \<Rightarrow> 'd) option \<Rightarrow> byte list \<Rightarrow> 'd \<Rightarrow> 'd \<times> bool" where
  "port_write_all wr flush data d =
     (let (d, written) = wr data d
      in if written \<le> 0 then (d, False)
         else case flush of
           Some fl \<Rightarrow>
             if nat written < length data then
               (let (d, more) = wr (drop (nat written) data) (fl d);
                    written = (if more > 0 then written + more else written)
                in (d, \<not> nat written < length data))
             else (d, True)
         | None \<Rightarrow> (d, \<not> nat written < length data))"

definition comm_port_write ::
  "nat \<Rightarrow> byte list option \<Rightarrow> ('r, 'd) comm \<Rightarrow> 'd \<Rightarrow> ('d \<times> esp_err) option" where
  "comm_port_write i data g d = (case data of
       None \<Rightarrow> Some (d, ESP_ERR_INVALID_ARG)
     | Some data \<Rightarrow>
         if \<not> cm_initialized g \<or> data = [] \<or> \<not> port_valid g i then Some (d, ESP_ERR_INVALID_ARG)
         else let p = cm_ports g ! i; ops = pt_ops p
           in if pt_muted p then Some (d, ESP_ERR_NOT_FOUND)
              else let (d, up) = (case po_is_connected ops of None \<Rightarrow> (d, True) | Some f \<Rightarrow> f d)
                in if \<not> up then Some (d, ESP_ERR_NOT_FOUND)
                   else do {
                     wr \<leftarrow> po_write ops;
                     let (d, all) = port_write_all wr (po_flush ops) data d;
                     Some (d, if all then ESP_OK else ESP_FAIL)
                   })"

definition comm_port_flush :: "nat \<Rightarrow> ('r, 'd) comm \<Rightarrow> 'd \<Rightarrow> 'd" where
  "comm_port_flush i g d =
     (if cm_initialized g \<and> port_valid g i
      then (case po_flush (pt_ops (cm_ports g ! i)) of None \<Rightarrow> d | Some fl \<Rightarrow> fl d)
      else d)"

section \<open>What the ring buffer promises\<close>

text \<open>\<open>content\<close> is what the buffer holds and \<open>held\<close> whether an item is out: an accepted send is appended
  and a refused one changes nothing, a receive hands out a front part when there is one and no
  item is out, and a byte buffer hands out one item at a time.\<close>

definition ring_ok :: "'r ring_ops \<Rightarrow> ('r \<Rightarrow> byte list) \<Rightarrow> ('r \<Rightarrow> bool) \<Rightarrow> bool" where
  "ring_ok rg content held \<longleftrightarrow>
     (\<forall>n r. rg_create rg n = Some r \<longrightarrow> content r = [] \<and> \<not> held r) \<and>
     (\<forall>bs r. content (fst (rg_send rg bs r)) = content r @ (if snd (rg_send rg bs r) then bs else []) \<and>
        held (fst (rg_send rg bs r)) = held r) \<and>
     (\<forall>n t r. case rg_receive rg n t r of
         (r', None) \<Rightarrow> (held r \<or> content r = [] \<or> n = 0) \<and> content r' = content r \<and> held r' = held r
       | (r', Some item) \<Rightarrow> \<not> held r \<and> item \<noteq> [] \<and> length item \<le> n \<and> content r = item @ content r') \<and>
     (\<forall>r. content (rg_return rg r) = content r \<and> \<not> held (rg_return rg r))"

lemma ring_receive:
  assumes "ring_ok rg content held" "rg_receive rg n t r = (r', res)"
  shows "case res of
      None \<Rightarrow> (held r \<or> content r = [] \<or> n = 0) \<and> content r' = content r \<and> held r' = held r
    | Some item \<Rightarrow> \<not> held r \<and> item \<noteq> [] \<and> length item \<le> n \<and> content r = item @ content r'"
  using assms unfolding ring_ok_def by (metis (no_types, lifting) old.prod.case)

lemma ring_return:
  "ring_ok rg content held \<Longrightarrow> content (rg_return rg r) = content r"
  "ring_ok rg content held \<Longrightarrow> \<not> held (rg_return rg r)"
  by (simp_all add: ring_ok_def)

lemma ring_send:
  assumes "ring_ok rg content held" "rg_send rg bs r = (r', sent)"
  shows "content r' = content r @ (if sent then bs else [])" "held r' = held r"
  using assms unfolding ring_ok_def by (metis fst_conv snd_conv)+

definition comm_ok :: "('r, 'd) comm \<Rightarrow> bool" where
  "comm_ok g \<longleftrightarrow> cm_initialized g \<and> length (cm_ports g) = COMM_MAX_PORTS \<and>
     (\<forall>p \<in> set (cm_ports g). pt_active p \<longrightarrow> pt_rx_stream p \<noteq> None \<and> po_write (pt_ops p) \<noteq> None)"

abbreviation unread :: "('r \<Rightarrow> byte list) \<Rightarrow> ('r, 'd) comm \<Rightarrow> nat \<Rightarrow> byte list" where
  "unread content g i \<equiv> (case pt_rx_stream (cm_ports g ! i) of None \<Rightarrow> [] | Some r \<Rightarrow> content r)"

abbreviation rests :: "('r \<Rightarrow> bool) \<Rightarrow> ('r, 'd) comm \<Rightarrow> nat \<Rightarrow> bool" where
  "rests held g i \<equiv> (case pt_rx_stream (cm_ports g ! i) of None \<Rightarrow> True | Some r \<Rightarrow> \<not> held r)"

lemma comm_port_parts:
  assumes "comm_ok g" "port_valid g i"
  obtains r wr where "cm_initialized g" "i < length (cm_ports g)" "pt_rx_stream (cm_ports g ! i) = Some r"
    "po_write (pt_ops (cm_ports g ! i)) = Some wr"
proof -
  have "i < length (cm_ports g)" "pt_active (cm_ports g ! i)" using assms by (auto simp: comm_ok_def port_valid_def)
  moreover have "cm_ports g ! i \<in> set (cm_ports g)" using calculation(1) by simp
  ultimately show ?thesis using assms(1) that by (auto simp: comm_ok_def)
qed

lemma upd_port_ok:
  assumes "comm_ok g" "i < length (cm_ports g)" "pt_active (f (cm_ports g ! i)) = pt_active (cm_ports g ! i)"
    "pt_ops (f (cm_ports g ! i)) = pt_ops (cm_ports g ! i)" "pt_rx_stream (f (cm_ports g ! i)) \<noteq> None"
  shows "comm_ok (upd_port i f g)" "port_valid (upd_port i f g) j = port_valid g j"
proof -
  have at: "cm_ports g ! i \<in> set (cm_ports g)" using assms(2) by simp
  show "comm_ok (upd_port i f g)"
    using assms at set_update_subset_insert [of "cm_ports g" i "f (cm_ports g ! i)"]
    unfolding comm_ok_def upd_port_def by (auto dest!: set_update_subset_insert [THEN subsetD])
  show "port_valid (upd_port i f g) j = port_valid g j"
    using assms(1,2,3) by (cases "j = i") (simp_all add: port_valid_def upd_port_def comm_ok_def)
qed

lemma upd_port_at [simp]:
  "i < length (cm_ports g) \<Longrightarrow> cm_ports (upd_port i f g) ! i = f (cm_ports g ! i)"
  "j \<noteq> i \<Longrightarrow> cm_ports (upd_port i f g) ! j = cm_ports g ! j"
  "length (cm_ports (upd_port i f g)) = length (cm_ports g)"
  "cm_initialized (upd_port i f g) = cm_initialized g"
  by (simp_all add: upd_port_def)

section \<open>The end of a client\<close>

lemma drain_returns:
  assumes "ring_ok rg content held" "\<not> held r"
  shows "\<exists>r'. rx_stream_drain rg dropped r = Some (r', dropped + of_nat (length (content r))) \<and>
    content r' = [] \<and> \<not> held r'"
  using assms(2)
proof (induction "length (content r)" arbitrary: r dropped rule: less_induct)
  case less
  obtain r1 res where rec: "rg_receive rg SIZE_MAX 0 r = (r1, res)" by fastforce
  note R = ring_receive [OF assms(1) rec]
  show ?case
  proof (cases res)
    case None
    then show ?thesis using R less.prems rec
      by (subst rx_stream_drain.simps) (auto simp: SIZE_MAX_def)
  next
    case (Some item)
    let ?r = "rg_return rg r1"
    have c: "content r = item @ content ?r" "item \<noteq> []" using R Some by (auto simp: ring_return(1) [OF assms(1)])
    have "length (content ?r) < length (content r)" using c by simp
    from less.hyps [OF this ring_return(2) [OF assms(1)], of "dropped + of_nat (length item)"]
    show ?thesis using c Some rec by (subst rx_stream_drain.simps) (auto simp: algebra_simps)
  qed
qed

lemma muted_write:
  "pt_muted (cm_ports g ! i) \<Longrightarrow> comm_port_write i data g d = Some (d, ESP_ERR_NOT_FOUND) \<or>
     comm_port_write i data g d = Some (d, ESP_ERR_INVALID_ARG)"
  by (cases data) (auto simp: comm_port_write_def Let_def)

lemma client_gone_effect:
  assumes "ring_ok rg content held" "comm_ok g" "port_valid g i" "rests held g i"
  shows "\<exists>g'. comm_port_client_gone rg i g = Some g' \<and> comm_ok g' \<and> port_valid g' = port_valid g \<and>
    unread content g' i = [] \<and> rests held g' i \<and> pt_rx_pending (cm_ports g' ! i) = 0 \<and> pt_muted (cm_ports g' ! i) \<and>
    pt_rx_discarded (cm_ports g' ! i) = pt_rx_discarded (cm_ports g ! i) + of_nat (length (unread content g i)) \<and>
    (\<forall>j. j \<noteq> i \<longrightarrow> cm_ports g' ! j = cm_ports g ! j)"
proof -
  obtain r wr where P: "cm_initialized g" "i < length (cm_ports g)" "pt_rx_stream (cm_ports g ! i) = Some r"
    using comm_port_parts [OF assms(2,3)] by blast
  obtain r' where D: "rx_stream_drain rg 0 r = Some (r', of_nat (length (content r)))" "content r' = []" "\<not> held r'"
    using drain_returns [OF assms(1), of r 0] assms(4) P(3) by auto
  define f :: "('a, 'b) comm_port \<Rightarrow> ('a, 'b) comm_port" where "f = (\<lambda>p. p\<lparr>pt_rx_stream := Some r',
    pt_rx_discarded := pt_rx_discarded p + of_nat (length (content r)), pt_rx_pending := 0, pt_muted := True\<rparr>)"
  have ok: "comm_ok (upd_port i f g)" "port_valid (upd_port i f g) = port_valid g"
    using upd_port_ok [OF assms(2) P(2), of f] P(3) by (simp_all add: f_def fun_eq_iff)
  have at: "cm_ports (upd_port i f g) ! i = f (cm_ports g ! i)" using P(2) by simp
  have g': "comm_port_client_gone rg i g = Some (upd_port i f g)"
    using P D assms(3) by (simp add: comm_port_client_gone_def f_def)
  have fs: "pt_rx_stream (f p) = Some r'" "pt_rx_pending (f p) = 0" "pt_muted (f p)"
      "pt_rx_discarded (f p) = pt_rx_discarded p + of_nat (length (content r))" for p
    by (simp_all add: f_def)
  show ?thesis
    by (intro exI [of _ "upd_port i f g"] conjI g' ok allI impI upd_port_at(2)) (simp_all add: at fs P D)
qed

lemma client_ready_effect:
  assumes "comm_ok g" "port_valid g i"
  shows "comm_ok (comm_port_client_ready i g)" "port_valid (comm_port_client_ready i g) = port_valid g"
    "pt_rx_stream (cm_ports (comm_port_client_ready i g) ! j) = pt_rx_stream (cm_ports g ! j)"
    "pt_muted (cm_ports (comm_port_client_ready i g) ! j) = (j \<noteq> i \<and> pt_muted (cm_ports g ! j))"
proof -
  let ?f = "\<lambda>p. p\<lparr>pt_muted := False\<rparr>"
  obtain r wr where P: "cm_initialized g" "i < length (cm_ports g)" "pt_rx_stream (cm_ports g ! i) = Some r"
    using comm_port_parts [OF assms] by blast
  have eq: "comm_port_client_ready i g = upd_port i ?f g" using P(1) assms(2) by (simp add: comm_port_client_ready_def)
  show "comm_ok (comm_port_client_ready i g)" "port_valid (comm_port_client_ready i g) = port_valid g"
    using upd_port_ok [OF assms(1) P(2), of ?f] P(3) by (simp_all add: eq fun_eq_iff)
  show "pt_rx_stream (cm_ports (comm_port_client_ready i g) ! j) = pt_rx_stream (cm_ports g ! j)"
    "pt_muted (cm_ports (comm_port_client_ready i g) ! j) = (j \<noteq> i \<and> pt_muted (cm_ports g ! j))"
    using P(2) by (cases "j = i"; simp add: eq)+
qed

text \<open>When the client of a port goes away, the loop that empties the receive buffer returns, for
  every ring buffer that behaves as documented and has no item out. Afterwards nothing the client
  sent can be read, the bytes are counted as discarded, no other port changed, and until the port
  is made ready again no write reaches the transport.\<close>

theorem comm_client_gone_drains:
  assumes "ring_ok rg content held" "comm_ok g" "port_valid g i" "rests held g i"
  shows "\<exists>g'. comm_port_client_gone rg i g = Some g' \<and> comm_ok g' \<and> unread content g' i = [] \<and>
    rests held g' i \<and> comm_port_rx_pending i g' = 0 \<and>
    pt_rx_discarded (cm_ports g' ! i) = pt_rx_discarded (cm_ports g ! i) + of_nat (length (unread content g i)) \<and>
    list_all (\<lambda>j. j = i \<or> cm_ports g' ! j = cm_ports g ! j) [0..<COMM_MAX_PORTS] \<and>
    (comm_port_write i data g' d = Some (d, ESP_ERR_NOT_FOUND) \<or>
     comm_port_write i data g' d = Some (d, ESP_ERR_INVALID_ARG))"
proof -
  obtain g' where "comm_port_client_gone rg i g = Some g'" "comm_ok g'" "unread content g' i = []" "rests held g' i"
    "pt_rx_pending (cm_ports g' ! i) = 0" and m: "pt_muted (cm_ports g' ! i)"
    and "pt_rx_discarded (cm_ports g' ! i) = pt_rx_discarded (cm_ports g ! i) + of_nat (length (unread content g i))"
    and o: "\<forall>j. j \<noteq> i \<longrightarrow> cm_ports g' ! j = cm_ports g ! j"
    using client_gone_effect [OF assms] by blast
  moreover have "comm_port_rx_pending i g' = 0" using calculation by (simp add: comm_port_rx_pending_def)
  moreover have "list_all (\<lambda>j. j = i \<or> cm_ports g' ! j = cm_ports g ! j) [0..<COMM_MAX_PORTS]"
    unfolding list_all_iff using o by blast
  ultimately show ?thesis using muted_write [OF m] by blast
qed

section \<open>Bytes in, bytes out\<close>

text \<open>What a transport and the reader do to one port, with the bytes taken in and the bytes read.\<close>

datatype port_call = PortRx "byte list" | PortRead nat nat

fun port_step ::
  "'r ring_ops \<Rightarrow> nat \<Rightarrow> ('r, 'd) comm \<Rightarrow> port_call \<Rightarrow> (('r, 'd) comm \<times> byte list \<times> byte list) option" where
  "port_step rg i g (PortRx data) = do {
     (g', rc) \<leftarrow> comm_port_rx rg i (Some data) g;
     Some (g', if comm_port_rx_dropped i g' = comm_port_rx_dropped i g \<and> rc = ESP_OK then data else [], [])
   }"
| "port_step rg i g (PortRead len t) = do {
     (g', bs) \<leftarrow> comm_port_read rg i len t g;
     Some (g', [], bs)
   }"

definition port_good :: "'r ring_ops \<Rightarrow> ('r \<Rightarrow> byte list) \<Rightarrow> ('r \<Rightarrow> bool) \<Rightarrow> nat \<Rightarrow> ('r, 'd) comm \<Rightarrow> bool" where
  "port_good rg content held i g \<longleftrightarrow> comm_ok g \<and> port_valid g i \<and> rests held g i \<and>
     comm_port_rx_pending i g = length (unread content g i)"

lemma port_step_flow:
  assumes "ring_ok rg content held" "port_good rg content held i g"
  shows "\<exists>g' a b. port_step rg i g c = Some (g', a, b) \<and> port_good rg content held i g' \<and>
    b @ unread content g' i = unread content g i @ a"
proof -
  have ok: "comm_ok g" "port_valid g i" using assms(2) by (simp_all add: port_good_def)
  obtain r where P: "cm_initialized g" "i < length (cm_ports g)" "pt_rx_stream (cm_ports g ! i) = Some r"
    using comm_port_parts [OF ok] by blast
  have G: "\<not> held r" "pt_rx_pending (cm_ports g ! i) = length (content r)"
    using assms(2) P by (auto simp: port_good_def comm_port_rx_pending_def)
  have good: "port_good rg content held i (upd_port i f g)"
    if "pt_active (f (cm_ports g ! i)) = pt_active (cm_ports g ! i)" "pt_ops (f (cm_ports g ! i)) = pt_ops (cm_ports g ! i)"
      "pt_rx_stream (f (cm_ports g ! i)) = Some r'" "\<not> held r'" "pt_rx_pending (f (cm_ports g ! i)) = length (content r')" for f r'
    using upd_port_ok [OF ok(1) P(2), of f] that ok P by (simp add: port_good_def comm_port_rx_pending_def)
  show ?thesis
  proof (cases c)
    case (PortRx data)
    obtain r' sent where s: "rg_send rg data r = (r', sent)" by fastforce
    note S = ring_send [OF assms(1) s]
    let ?f = "\<lambda>p. if sent then p\<lparr>pt_rx_stream := Some r', pt_rx_pending := pt_rx_pending p + length data\<rparr>
              else p\<lparr>pt_rx_stream := Some r', pt_rx_dropped := pt_rx_dropped p + 1\<rparr>"
    have "port_good rg content held i (upd_port i ?f g)"
      using S G by (intro good) auto
    moreover have "port_valid (upd_port i ?f g) i" using calculation by (simp add: port_good_def)
    ultimately show ?thesis
      using assms(2) PortRx P ok s S
      by (auto simp: comm_port_rx_def comm_port_rx_dropped_def ESP_OK_def ESP_ERR_INVALID_ARG_def)
  next
    case (PortRead len t)
    obtain r' res where s: "rg_receive rg len t r = (r', res)" by fastforce
    note R = ring_receive [OF assms(1) s]
    show ?thesis
    proof (cases res)
      case None
      then have "port_good rg content held i (upd_port i (\<lambda>p. p\<lparr>pt_rx_stream := Some r'\<rparr>) g)"
        using R G by (intro good [of _ r']) auto
      then show ?thesis
        using assms(2) PortRead P ok s R None by (auto simp: comm_port_read_def)
    next
      case (Some item)
      then have "port_good rg content held i (upd_port i (\<lambda>p. p\<lparr>pt_rx_stream := Some (rg_return rg r'),
          pt_rx_pending := pt_rx_pending p - min (length item) (pt_rx_pending p)\<rparr>) g)"
        using R G ring_return [OF assms(1), of r'] by (intro good [of _ "rg_return rg r'"]) auto
      then show ?thesis
        using assms(2) PortRead P ok s R Some ring_return [OF assms(1), of r'] by (auto simp: comm_port_read_def)
    qed
  qed
qed

lemma read_length: "comm_port_read rg i n t g = Some (g', bs) \<Longrightarrow> length bs \<le> n"
  unfolding comm_port_read_def by (auto split: if_splits option.splits prod.splits)

lemma port_step_shape:
  assumes "port_step rg i g c = Some (g', a, b)"
  shows "case c of PortRx data \<Rightarrow> b = [] \<and> (a = data \<or> a = []) | PortRead n t \<Rightarrow> a = [] \<and> length b \<le> n"
proof (cases c)
  case (PortRx data)
  then show ?thesis using assms by (auto elim!: bind_eq_SomeE split: if_splits)
next
  case (PortRead n t)
  then show ?thesis using assms read_length by (auto elim!: bind_eq_SomeE)
qed

interpretation portm: safe_machine "port_step rg i"
  "\<lambda>g. ring_ok rg content held \<and> port_good rg content held i g" "\<lambda>_. True" for rg content held i
  by unfold_locales (use port_step_flow in fastforce)

text \<open>Whatever a transport delivers to a port and however its reader cuts its reads, no call
  faults, every chunk is taken whole or dropped whole, the bytes read are the bytes taken in, in
  the same order and without a loss, and the count of unread bytes is exact after every call.\<close>

theorem comm_port_fifo:
  assumes "ring_ok rg content held" "port_good rg content held i g"
  shows "\<exists>g' io. run_calls (port_step rg i) g calls = Some (g', io) \<and> port_good rg content held i g' \<and>
    concat (map snd io) @ unread content g' i = unread content g i @ concat (map fst io) \<and>
    list_all2 (\<lambda>c (a, b). case c of PortRx data \<Rightarrow> b = [] \<and> (a = data \<or> a = []) |
      PortRead n t \<Rightarrow> a = [] \<and> length b \<le> n) calls io"
  using assms(2)
proof (induction calls arbitrary: g)
  case (Cons c calls)
  obtain g1 a b where s: "port_step rg i g c = Some (g1, a, b)" "port_good rg content held i g1"
    "b @ unread content g1 i = unread content g i @ a"
    using port_step_flow [OF assms(1) Cons.prems] by blast
  obtain g' io where r: "run_calls (port_step rg i) g1 calls = Some (g', io)" "port_good rg content held i g'"
    "concat (map snd io) @ unread content g' i = unread content g1 i @ concat (map fst io)"
    "list_all2 (\<lambda>c (a, b). case c of PortRx data \<Rightarrow> b = [] \<and> (a = data \<or> a = []) |
      PortRead n t \<Rightarrow> a = [] \<and> length b \<le> n) calls io"
    using Cons.IH [OF s(2)] by (elim exE conjE)
  have "case c of PortRx data \<Rightarrow> b = [] \<and> (a = data \<or> a = []) | PortRead n t \<Rightarrow> a = [] \<and> length b \<le> n"
    using port_step_shape [OF s(1)] .
  moreover have "concat (map snd ((a, b) # io)) @ unread content g' i =
      unread content g i @ concat (map fst ((a, b) # io))"
  proof -
    have "b @ (unread content g1 i @ concat (map fst io)) = (unread content g i @ a) @ concat (map fst io)"
      by (simp only: s(3) [symmetric] append_assoc)
    then show ?thesis by (simp only: list.map concat.simps append_assoc fst_conv snd_conv r(3))
  qed
  ultimately show ?case using s(1) r(1,2,4) by (intro exI [of _ g'] exI [of _ "(a, b) # io"]) simp
qed simp

text \<open>A ring buffer of eight bytes, with a flag for the item that is out.\<close>

definition ring8 :: "(byte list \<times> bool) ring_ops" where
  "ring8 = \<lparr>rg_create = (\<lambda>n. Some ([], False)),
     rg_send = (\<lambda>bs (c, h). if length c + length bs \<le> 8 then ((c @ bs, h), True) else ((c, h), False)),
     rg_receive = (\<lambda>n t (c, h). if h \<or> c = [] \<or> n = 0 then ((c, h), None) else ((drop n c, True), Some (take n c))),
     rg_return = (\<lambda>(c, h). (c, False))\<rparr>"

lemma ring8_ok: "ring_ok ring8 fst snd"
  unfolding ring_ok_def ring8_def by (clarsimp split: prod.splits if_splits)

text \<open>A transport that puts at most four bytes on its wire at a time.\<close>

definition wire4 :: "byte list port_ops" where
  "wire4 = \<lparr>po_write = Some (\<lambda>bs d. (d @ take 4 bs, int (length (take 4 bs)))), po_flush = Some (\<lambda>d. d),
     po_is_connected = Some (\<lambda>d. (d, True))\<rparr>"

definition comm_sample :: "(byte list \<times> bool, byte list) comm" where
  "comm_sample = fst (comm_port_register ring8 (Some ''usb'') (Some wire4) 512
     (fst (comm_iface_init True \<lparr>cm_initialized = False, cm_ports = []\<rparr>)))"

lemma comm_sample_ports: "comm_sample = \<lparr>cm_initialized = True, cm_ports =
    [port_zero\<lparr>pt_active := True, pt_ops := wire4, pt_rx_stream := Some ([], False), pt_name := ''usb''\<rparr>,
     port_zero, port_zero, port_zero]\<rparr>"
  by (simp add: comm_sample_def comm_port_register_def comm_iface_init_def wire4_def ring8_def port_zero_def
      COMM_MAX_PORTS_def upd_port_def copy_name_def COMM_NAME_LEN_def eval_nat_numeral upt_rec)

lemma comm_sample_good: "comm_ok comm_sample" "port_valid comm_sample 0"
    "port_good ring8 fst snd 0 comm_sample"
  by (auto simp: comm_sample_ports comm_ok_def port_valid_def port_good_def COMM_MAX_PORTS_def port_zero_def
      wire4_def comm_port_rx_pending_def intro: exI [of _ "False"])

lemma comm_sample_unread: "unread fst comm_sample 0 = []"
  by (simp add: comm_sample_ports)

lemma comm_sample_rests: "rests snd comm_sample 0"
  by (simp add: comm_sample_ports)

lemma comm_client_gone_drains_witness:
  "\<exists>g'. comm_port_client_gone ring8 0 comm_sample = Some g' \<and> comm_ok g'"
  using comm_client_gone_drains [OF ring8_ok comm_sample_good(1,2) comm_sample_rests, where d = "[]" and data = None]
  by blast

lemma comm_port_fifo_witness:
  "\<exists>g' io. run_calls (port_step ring8 0) comm_sample
     [PortRx [1, 2, 3], PortRead 2 0, PortRx [4, 5, 6, 7, 8, 9, 10, 11], PortRx [4], PortRead 9 0] = Some (g', io) \<and>
     concat (map snd io) @ unread fst g' 0 = concat (map fst io)"
  using comm_port_fifo [OF ring8_ok comm_sample_good(3), of "[PortRx [1, 2, 3], PortRead 2 0,
    PortRx [4, 5, 6, 7, 8, 9, 10, 11], PortRx [4], PortRead 9 0]"] comm_sample_unread
  by (elim exE conjE) (intro exI conjI, assumption, simp only: append_Nil)

section \<open>What a write reports\<close>

text \<open>What a transport promises: it takes a front part of what it is given and says how much, and a flush
  or a question sends nothing. \<open>wire\<close> is what it has taken.\<close>

definition transport_ok :: "('d \<Rightarrow> byte list) \<Rightarrow> 'd port_ops \<Rightarrow> bool" where
  "transport_ok wire ops \<longleftrightarrow>
     (\<forall>wr bs d. po_write ops = Some wr \<longrightarrow>
        snd (wr bs d) \<le> int (length bs) \<and> wire (fst (wr bs d)) = wire d @ take (nat (snd (wr bs d))) bs) \<and>
     (\<forall>fl d. po_flush ops = Some fl \<longrightarrow> wire (fl d) = wire d) \<and>
     (\<forall>f d. po_is_connected ops = Some f \<longrightarrow> wire (fst (f d)) = wire d)"

lemma write_all_reports:
  assumes "transport_ok wire ops" "po_write ops = Some wr" "port_write_all wr (po_flush ops) bs d = (d', all)" "bs \<noteq> []"
  shows "\<exists>k \<le> length bs. wire d' = wire d @ take k bs \<and> (all \<longleftrightarrow> k = length bs)"
proof -
  have W: "snd (wr bs d) \<le> int (length bs)" "wire (fst (wr bs d)) = wire d @ take (nat (snd (wr bs d))) bs" for bs d
    using assms(1,2) by (auto simp: transport_ok_def)
  obtain d1 n where w1: "wr bs d = (d1, n)" by fastforce
  note W1 = W [of bs d, unfolded w1 fst_conv snd_conv]
  show ?thesis
  proof (cases "n \<le> 0")
    case True
    then show ?thesis using assms(3,4) w1 W1 by (intro exI [of _ 0]) (auto simp: port_write_all_def)
  next
    case n: False
    show ?thesis
    proof (cases "po_flush ops = None \<or> \<not> nat n < length bs")
      case True
      then show ?thesis using assms(3) w1 W1 n
        by (intro exI [of _ "nat n"]) (auto simp: port_write_all_def split: option.splits if_splits)
    next
      case False
      then obtain fl where fl: "po_flush ops = Some fl" "nat n < length bs" by auto
      obtain d2 m where w2: "wr (drop (nat n) bs) (fl d1) = (d2, m)" by fastforce
      note W2 = W [of "drop (nat n) bs" "fl d1", unfolded w2 fst_conv snd_conv]
      have "wire (fl d1) = wire d1" using assms(1) fl by (auto simp: transport_ok_def)
      then have wire: "wire d2 = wire d @ take (nat n + nat m) bs" using W1 W2 by (simp add: take_add)
      have "d' = d2" "all = (\<not> nat (if m > 0 then n + m else n) < length bs)"
        using assms(3) w1 w2 fl n by (auto simp: port_write_all_def)
      then show ?thesis using wire W2(1) n fl(2)
        by (intro exI [of _ "nat n + nat m"]) (auto simp: nat_add_distrib)
    qed
  qed
qed

text \<open>A write to a port puts a front part of the data on the wire of the transport and nothing
  else. It reports success exactly when that was all of it, also when the transport takes the data in
  two goes. To a port without a client, or whose client has gone, nothing is written and the error
  says so.\<close>

theorem comm_write_reports:
  assumes "comm_ok g" "port_valid g i" "transport_ok wire (pt_ops (cm_ports g ! i))" "bs \<noteq> []"
  shows "\<exists>d' rc k. comm_port_write i (Some bs) g d = Some (d', rc) \<and> wire d' = wire d @ take k bs \<and> k \<le> length bs \<and>
    (rc = ESP_OK \<longleftrightarrow> k = length bs) \<and> (rc = ESP_ERR_NOT_FOUND \<longrightarrow> k = 0) \<and>
    (pt_muted (cm_ports g ! i) \<or> (\<exists>f. po_is_connected (pt_ops (cm_ports g ! i)) = Some f \<and> \<not> snd (f d)) \<longleftrightarrow>
      rc = ESP_ERR_NOT_FOUND)"
proof -
  let ?p = "cm_ports g ! i"
  obtain r wr where P: "cm_initialized g" "po_write (pt_ops ?p) = Some wr"
    using comm_port_parts [OF assms(1,2)] by blast
  note codes = ESP_OK_def ESP_ERR_NOT_FOUND_def ESP_FAIL_def
  obtain d1 up where c: "(case po_is_connected (pt_ops ?p) of None \<Rightarrow> (d, True) | Some f \<Rightarrow> f d) = (d1, up)"
    by fastforce
  then have same: "wire d1 = wire d" using assms(3) by (auto simp: transport_ok_def split: option.splits) (metis fst_conv)
  have up: "(\<exists>f. po_is_connected (pt_ops ?p) = Some f \<and> \<not> snd (f d)) \<longleftrightarrow> \<not> up"
    using c by (auto split: option.splits)
  consider "pt_muted ?p" | "\<not> pt_muted ?p" "\<not> up" | "\<not> pt_muted ?p" "up" by blast
  then show ?thesis
  proof cases
    case 3
    obtain d2 all where w: "port_write_all wr (po_flush (pt_ops ?p)) bs d1 = (d2, all)" by fastforce
    obtain k where "k \<le> length bs" "wire d2 = wire d @ take k bs" "all \<longleftrightarrow> k = length bs"
      using write_all_reports [OF assms(3) P(2) w assms(4)] same by auto
    then show ?thesis using 3 P c w up assms(2,4)
      by (intro exI [of _ d2] exI [of _ "if all then ESP_OK else ESP_FAIL"] exI [of _ k])
         (simp add: comm_port_write_def Let_def codes)
  next
    case 1
    then show ?thesis using P assms(2,4)
      by (intro exI [of _ d] exI [of _ ESP_ERR_NOT_FOUND] exI [of _ 0]) (simp add: comm_port_write_def Let_def codes)
  next
    case 2
    then show ?thesis using P c up same assms(2,4)
      by (intro exI [of _ d1] exI [of _ ESP_ERR_NOT_FOUND] exI [of _ 0]) (simp add: comm_port_write_def Let_def codes)
  qed
qed

lemma wire4_ok: "transport_ok (\<lambda>d. d) wire4"
  by (auto simp: transport_ok_def wire4_def min_def)

lemma comm_write_reports_witness:
  "\<exists>d' rc k. comm_port_write 0 (Some [1, 2, 3, 4, 5, 6]) comm_sample [9] = Some (d', rc) \<and> d' = [9] @ take k [1, 2, 3, 4, 5, 6] \<and>
     (rc = ESP_OK \<longleftrightarrow> k = length [1, 2, 3, 4, 5, 6 :: byte])"
proof -
  have "transport_ok (\<lambda>d. d) (pt_ops (cm_ports comm_sample ! 0))" using wire4_ok by (simp add: comm_sample_ports)
  then show ?thesis
    using comm_write_reports [OF comm_sample_good(1,2), of "\<lambda>d. d" "[1, 2, 3, 4, 5, 6]" "[9]"] by blast
qed

end
