(* ===== verification/VifLink.thy ===== *)
theory VifLink
  imports CommPort
begin

text \<open>
  The data link of \<open>main/vif.c\<close>: the table of front-ends, the grammar the link task runs and how it
  is replaced, and the transport port it speaks on. A front-end is a constant structure; a pointer
  to one is its number, and \<open>fes\<close> gives the structure. Its callbacks act on the whole state, the
  record \<open>world\<close>. The link task calls \<open>link_pass\<close> over and over; everything else here may run on
  other tasks between two passes.
  The lemmas: replacing a grammar stops it before its claims go and starts the next one with none
  left, and a replacement that cannot finish stays requested.
\<close>

section \<open>Front-ends\<close>

definition VIF_MAX_FRONTENDS :: nat where "VIF_MAX_FRONTENDS = 4"
definition VIF_IDLE_WAIT_MS :: nat where "VIF_IDLE_WAIT_MS = 50"
definition VIF_POLL_WAIT_MS :: nat where "VIF_POLL_WAIT_MS = 2"

record 'w frontend =
  fe_name :: "string option"
  fe_start :: "('w \<Rightarrow> 'w \<times> bool) option"
  fe_feed :: "(byte list \<Rightarrow> 'w \<Rightarrow> 'w) option"
  fe_poll :: "('w \<Rightarrow> 'w) option"
  fe_stop :: "('w \<Rightarrow> 'w) option"
  fe_poll_interval_ms :: nat

record ('r, 'd) world =
  lw_vif :: vif
  lw_env :: 'd
  lw_comm :: "('r, 'd) comm"
  lw_frontends :: "nat list"
  lw_inited :: bool
  lw_port :: nat
  lw_fe :: "nat option"
  lw_fe_next :: "nat option"
  lw_fe_switch :: bool
  lw_fe_default :: "nat option"

type_synonym ('r, 'd) frontends = "nat \<Rightarrow> ('r, 'd) world frontend"

definition name_of :: "('r, 'd) frontends \<Rightarrow> nat \<Rightarrow> string" where
  "name_of fes i = (case fe_name (fes i) of None \<Rightarrow> [] | Some n \<Rightarrow> n)"

text \<open>The loop over the registered ones ends early at the same structure or the same name.\<close>

fun register_scan :: "('r, 'd) frontends \<Rightarrow> nat \<Rightarrow> nat list \<Rightarrow> esp_err option" where
  "register_scan fes fe [] = None"
| "register_scan fes fe (f # fs) =
     (if f = fe then Some ESP_OK
      else if strcasecmp_eq (name_of fes f) (name_of fes fe) then Some ESP_ERR_INVALID_STATE
      else register_scan fes fe fs)"

definition vif_frontend_register ::
  "('r, 'd) frontends \<Rightarrow> nat option \<Rightarrow> ('r, 'd) world \<Rightarrow> ('r, 'd) world \<times> esp_err" where
  "vif_frontend_register fes fe w = (case fe of
       None \<Rightarrow> (w, ESP_ERR_INVALID_ARG)
     | Some fe \<Rightarrow>
         if fe_name (fes fe) = None then (w, ESP_ERR_INVALID_ARG)
         else (case register_scan fes fe (lw_frontends w) of
           Some err \<Rightarrow> (w, err)
         | None \<Rightarrow>
             if length (lw_frontends w) = VIF_MAX_FRONTENDS then (w, ESP_ERR_NO_MEM)
             else (w\<lparr>lw_frontends := lw_frontends w @ [fe]\<rparr>, ESP_OK)))"

definition vif_frontend_find :: "('r, 'd) frontends \<Rightarrow> string option \<Rightarrow> ('r, 'd) world \<Rightarrow> nat option" where
  "vif_frontend_find fes name w = (case name of
       None \<Rightarrow> None
     | Some name \<Rightarrow> find (\<lambda>f. strcasecmp_eq (name_of fes f) name) (lw_frontends w))"

definition vif_frontend_at :: "nat \<Rightarrow> ('r, 'd) world \<Rightarrow> nat option" where
  "vif_frontend_at idx w = (if idx < length (lw_frontends w) then Some (lw_frontends w ! idx) else None)"

section \<open>The link\<close>

definition frontend_start :: "('r, 'd) frontends \<Rightarrow> nat \<Rightarrow> ('r, 'd) world \<Rightarrow> ('r, 'd) world \<times> bool" where
  "frontend_start fes fe w =
     (let (w, ok) = (case fe_start (fes fe) of None \<Rightarrow> (w, True) | Some f \<Rightarrow> f w)
      in if \<not> ok then (w, False)
         else
           let w = w\<lparr>lw_fe := Some fe\<rparr>
           in (w\<lparr>lw_comm := comm_port_client_ready (lw_port w) (lw_comm w)\<rparr>, True))"

definition release_link_buses :: "'d vif_env \<Rightarrow> nat \<Rightarrow> ('r, 'd) world \<Rightarrow> ('r, 'd) world \<times> esp_err" where
  "release_link_buses ev me w =
     (let ((g, d), err) = vif_bus_release_all ev me VIF_OWNER_LINK (lw_vif w, lw_env w)
      in (w\<lparr>lw_vif := g, lw_env := d\<rparr>, err))"

definition link_apply_frontend ::
  "('r, 'd) frontends \<Rightarrow> 'd vif_env \<Rightarrow> nat \<Rightarrow> nat option \<Rightarrow> ('r, 'd) world \<Rightarrow> ('r, 'd) world \<times> bool" where
  "link_apply_frontend fes ev me fe w =
     (let prev = lw_fe w;
          w = (case prev of None \<Rightarrow> w | Some p \<Rightarrow> (case fe_stop (fes p) of None \<Rightarrow> w | Some f \<Rightarrow> f w));
          w = w\<lparr>lw_fe := None\<rparr>;
          w = w\<lparr>lw_vif := vif_pin_release_all VIF_OWNER_LINK (lw_vif w)\<rparr>;
          (w, err) = release_link_buses ev me w
      in if err \<noteq> ESP_OK then (w, False)
         else case fe of
           None \<Rightarrow> (w, True)
         | Some fe \<Rightarrow>
             (let (w, ok) = frontend_start fes fe w
              in if ok then (w, True)
                 else case prev of
                   None \<Rightarrow> (w, True)
                 | Some p \<Rightarrow> (fst (frontend_start fes p w), True)))"

definition vif_link_set_frontend :: "nat option \<Rightarrow> ('r, 'd) world \<Rightarrow> ('r, 'd) world" where
  "vif_link_set_frontend fe w = w\<lparr>lw_fe_next := fe, lw_fe_switch := True\<rparr>"

text \<open>\<open>vif_owner_service\<close> for the link, with the default grammar put back after a recovery.\<close>

definition link_owner_service :: "'d vif_env \<Rightarrow> nat \<Rightarrow> ('r, 'd) world \<Rightarrow> ('r, 'd) world \<times> bool" where
  "link_owner_service ev me w =
     (let ((g, d), did, recovered) = vif_owner_service ev me VIF_OWNER_LINK (lw_vif w, lw_env w);
          w = w\<lparr>lw_vif := g, lw_env := d\<rparr>
      in (if recovered then vif_link_set_frontend (lw_fe_default w) w else w, did))"

definition vif_link_service ::
  "('r, 'd) frontends \<Rightarrow> 'd vif_env \<Rightarrow> nat \<Rightarrow> ('r, 'd) world \<Rightarrow> ('r, 'd) world \<times> bool" where
  "vif_link_service fes ev me w =
     (if \<not> on_owner_thread me VIF_OWNER_LINK (lw_vif w) then (w, False)
      else
        let (w, did) = link_owner_service ev me w
        in if \<not> lw_fe_switch w then (w, did)
           else
             let nxt = lw_fe_next w;
                 (w, ok) = link_apply_frontend fes ev me nxt (w\<lparr>lw_fe_switch := False\<rparr>);
                 w = (if \<not> ok \<and> \<not> lw_fe_switch w then vif_link_set_frontend nxt w else w)
             in (w, True))"

definition link_retry_pending :: "('r, 'd) world \<Rightarrow> bool" where
  "link_retry_pending w \<longleftrightarrow> lw_fe_switch w \<or> v_release_req (lw_vif w) VIF_OWNER_LINK \<or>
     v_recover_req (lw_vif w) VIF_OWNER_LINK"

text \<open>\<open>CONFIG_FREERTOS_HZ\<close> is 1000, so a millisecond is a tick.\<close>

definition wait_ticks :: "nat \<Rightarrow> nat" where "wait_ticks ms = (if ms = 0 then 1 else ms)"

text \<open>One pass of the loop of the link task; \<open>None\<close> is a fault of the port.\<close>

definition link_pass ::
  "('r, 'd) frontends \<Rightarrow> 'r ring_ops \<Rightarrow> 'd vif_env \<Rightarrow> nat \<Rightarrow> ('r, 'd) world \<Rightarrow> ('r, 'd) world option" where
  "link_pass fes rg ev me w =
     (let (w, _) = vif_link_service fes ev me w in
      case lw_fe w of
        None \<Rightarrow> Some w
      | Some i \<Rightarrow>
          if lw_port w = COMM_INVALID_PORT_ID then Some w
          else
            let fe = fes i;
                interval = (if fe_poll fe = None then VIF_IDLE_WAIT_MS
                   else if fe_poll_interval_ms fe \<noteq> 0 then fe_poll_interval_ms fe else VIF_POLL_WAIT_MS)
            in do {
              (g, bs) \<leftarrow> comm_port_read rg (lw_port w) 64 (wait_ticks interval) (lw_comm w);
              let w = w\<lparr>lw_comm := g\<rparr>;
              let w = (case fe_feed fe of None \<Rightarrow> w | Some f \<Rightarrow> if bs \<noteq> [] then f bs w else w);
              let w = (case fe_poll fe of None \<Rightarrow> w | Some f \<Rightarrow> if link_retry_pending w then w else f w);
              Some w
            })"

text \<open>\<open>task\<close> is the task FreeRTOS created, none when it could not.\<close>

definition vif_link_start :: "nat option \<Rightarrow> nat option \<Rightarrow> ('r, 'd) world \<Rightarrow> ('r, 'd) world \<times> esp_err" where
  "vif_link_start task default_fe w =
     (if \<not> lw_inited w then (w, ESP_ERR_INVALID_STATE)
      else if default_fe = None then (w, ESP_ERR_INVALID_ARG)
      else if v_task (lw_vif w) VIF_OWNER_LINK \<noteq> None then (w, ESP_OK)
      else
        let w = vif_link_set_frontend default_fe (w\<lparr>lw_fe_default := default_fe\<rparr>)
        in case task of
          None \<Rightarrow> (w, ESP_FAIL)
        | Some t \<Rightarrow> (w\<lparr>lw_vif := (lw_vif w)\<lparr>v_task := (v_task (lw_vif w))(VIF_OWNER_LINK := Some t)\<rparr>\<rparr>, ESP_OK))"

definition vif_link_port :: "('r, 'd) world \<Rightarrow> nat" where "vif_link_port w = lw_port w"

definition vif_link_set_port :: "nat \<Rightarrow> ('r, 'd) world \<Rightarrow> ('r, 'd) world" where
  "vif_link_set_port port w =
     (let w = w\<lparr>lw_port := port\<rparr>
      in if port = COMM_INVALID_PORT_ID then w
         else w\<lparr>lw_comm := comm_port_client_ready port (lw_comm w)\<rparr>)"

definition vif_link_read :: "'r ring_ops \<Rightarrow> nat \<Rightarrow> nat \<Rightarrow> ('r, 'd) world \<Rightarrow> (('r, 'd) world \<times> byte list) option" where
  "vif_link_read rg len wait w = do {
     (g, bs) \<leftarrow> comm_port_read rg (lw_port w) len wait (lw_comm w);
     Some (w\<lparr>lw_comm := g\<rparr>, bs)
   }"

definition vif_link_write :: "byte list \<Rightarrow> ('r, 'd) world \<Rightarrow> ('r, 'd) world option" where
  "vif_link_write bs w = do {
     (d, rc) \<leftarrow> comm_port_write (lw_port w) (Some bs) (lw_comm w) (lw_env w);
     Some (w\<lparr>lw_env := d\<rparr>)
   }"

definition vif_link_flush :: "('r, 'd) world \<Rightarrow> ('r, 'd) world" where
  "vif_link_flush w = w\<lparr>lw_env := comm_port_flush (lw_port w) (lw_comm w) (lw_env w)\<rparr>"

definition vif_link_frontend_name :: "('r, 'd) frontends \<Rightarrow> ('r, 'd) world \<Rightarrow> string option" where
  "vif_link_frontend_name fes w = (case lw_fe w of None \<Rightarrow> None | Some i \<Rightarrow> fe_name (fes i))"

definition vif_link_default_frontend :: "('r, 'd) world \<Rightarrow> nat option" where
  "vif_link_default_frontend w = lw_fe_default w"

definition vif_link_down :: "'r ring_ops \<Rightarrow> ('r, 'd) world \<Rightarrow> ('r, 'd) world option" where
  "vif_link_down rg w = (case lw_fe_default w of
       None \<Rightarrow> Some w
     | Some want \<Rightarrow> do {
         g \<leftarrow> comm_port_client_gone rg (lw_port w) (lw_comm w);
         Some (vif_link_set_frontend (Some want) (w\<lparr>lw_comm := g\<rparr>))
       })"

section \<open>Replacing a grammar\<close>

text \<open>No claim and no pin is left of the grammar before.\<close>

definition link_clean :: "('r, 'd) world \<Rightarrow> bool" where
  "link_clean w \<longleftrightarrow> (\<forall>r. \<not> holds VIF_OWNER_LINK r (lw_vif w)) \<and>
     (v_hs_pin (lw_vif w) = -1 \<or> v_hs_owner (lw_vif w) \<noteq> VIF_OWNER_LINK) \<and>
     (v_ls_pin (lw_vif w) = -1 \<or> v_ls_owner (lw_vif w) \<noteq> VIF_OWNER_LINK)"

text \<open>What the link relies on in the callbacks of a front-end: \<open>stop\<close> does not unbind the link task,
  and a \<open>start\<close> that refuses takes nothing.\<close>

definition frontends_ok :: "('r, 'd) frontends \<Rightarrow> bool" where
  "frontends_ok fes \<longleftrightarrow>
     (\<forall>i f w. fe_stop (fes i) = Some f \<longrightarrow> v_task (lw_vif (f w)) = v_task (lw_vif w)) \<and>
     (\<forall>i f w. fe_start (fes i) = Some f \<longrightarrow> \<not> snd (f w) \<longrightarrow> link_clean w \<longrightarrow> lw_fe w = None \<longrightarrow>
        link_clean (fst (f w)) \<and> lw_fe (fst (f w)) = None)"

lemma frontend_start_runs:
  "frontend_start fes i w = (w', True) \<Longrightarrow> lw_fe w' = Some i"
  by (auto simp: frontend_start_def split: prod.splits option.splits if_splits)

lemma frontend_start_refused:
  assumes "frontends_ok fes" "frontend_start fes i w = (w', False)" "link_clean w" "lw_fe w = None"
  shows "link_clean w' \<and> lw_fe w' = None"
proof -
  obtain f where f: "fe_start (fes i) = Some f" "f w = (w', False)"
    using assms(2) by (auto simp: frontend_start_def Let_def split: prod.splits option.splits if_splits)
  have "link_clean (fst (f w)) \<and> lw_fe (fst (f w)) = None"
    using assms(1) [unfolded frontends_ok_def, THEN conjunct2, rule_format, of i f w] assms(3,4) f by simp
  then show ?thesis using f(2) by simp
qed

lemma release_pins_same:
  assumes "vif_bus_release_all ev me o' (g, d) = ((g', d'), err)"
  shows "v_hs_pin g' = v_hs_pin g \<and> v_hs_owner g' = v_hs_owner g \<and> v_ls_pin g' = v_ls_pin g \<and> v_ls_owner g' = v_ls_owner g"
proof -
  have "\<lbrakk>release_loop ev o' grps (g, d) res = ((g', d'), err)\<rbrakk> \<Longrightarrow>
      v_hs_pin g' = v_hs_pin g \<and> v_hs_owner g' = v_hs_owner g \<and> v_ls_pin g' = v_ls_pin g \<and> v_ls_owner g' = v_ls_owner g"
    for grps res
  proof (induction grps arbitrary: g d res)
    case (Cons grp grps)
    then show ?case
      by (force simp: release_begin_def close_finish_def bus_driver_down_def Let_def
          split: if_splits option.splits prod.splits)
  qed simp
  then show ?thesis using assms by (auto simp: vif_bus_release_all_def split: if_splits)
qed

lemma release_all_task:
  assumes "vif_bus_release_all ev me o' (g, d) = ((g', d'), err)"
  shows "v_task g' = v_task g"
proof (cases "on_owner_thread me o' g")
  case False
  then show ?thesis using assms by (auto simp: vif_bus_release_all_def)
next
  case True
  then show ?thesis
    using assms release_loop_effect [of ev o' all_res g d ESP_OK g' d' err]
    by (simp add: vif_bus_release_all_def all_res_def)
qed

lemma owner_service_task:
  assumes "vif_owner_service ev me o' (g, d) = ((g', d'), x, y)"
  shows "v_task g' = v_task g"
proof -
  obtain g1 r where t: "service_take me o' g = (g1, r)" by fastforce
  have task: "v_task g1 = v_task g" using t by (auto simp: service_take_def Let_def split: if_splits)
  show ?thesis
  proof (cases r)
    case None
    then show ?thesis using assms t task by (simp add: vif_owner_service_def)
  next
    case (Some rr)
    obtain g2 d2 err where rel: "vif_bus_release_all ev me o' (g1, d) = ((g2, d2), err)" by (metis prod.exhaust)
    then show ?thesis using assms t task Some release_all_task [OF rel]
      by (auto simp: vif_owner_service_def service_put_back_def Let_def split: if_splits prod.splits)
  qed
qed

text \<open>The state in which the next grammar would start, and whether the drivers closed.\<close>

definition torn_down :: "('r, 'd) frontends \<Rightarrow> 'd vif_env \<Rightarrow> nat \<Rightarrow> ('r, 'd) world \<Rightarrow> ('r, 'd) world \<times> esp_err" where
  "torn_down fes ev me w =
     (let w = (case lw_fe w of None \<Rightarrow> w | Some p \<Rightarrow> (case fe_stop (fes p) of None \<Rightarrow> w | Some f \<Rightarrow> f w));
          w = w\<lparr>lw_fe := None\<rparr>
      in release_link_buses ev me (w\<lparr>lw_vif := vif_pin_release_all VIF_OWNER_LINK (lw_vif w)\<rparr>))"

lemma torn_down_effect:
  assumes "frontends_ok fes" "on_owner_thread me VIF_OWNER_LINK (lw_vif w)" "torn_down fes ev me w = (w', err)"
  shows "lw_fe w' = None \<and> (err = ESP_OK \<longrightarrow> link_clean w')"
proof -
  define ws where "ws = (case lw_fe w of None \<Rightarrow> w | Some p \<Rightarrow> (case fe_stop (fes p) of None \<Rightarrow> w | Some f \<Rightarrow> f w))"
  let ?g = "vif_pin_release_all VIF_OWNER_LINK (lw_vif ws)"
  have task: "v_task (lw_vif ws) = v_task (lw_vif w)"
    using assms(1) by (auto simp: ws_def frontends_ok_def split: option.splits)
  obtain g' d' where r: "vif_bus_release_all ev me VIF_OWNER_LINK (?g, lw_env ws) = ((g', d'), err)"
    "w' = ws\<lparr>lw_fe := None, lw_vif := g', lw_env := d'\<rparr>"
    using assms(3) by (auto simp: torn_down_def release_link_buses_def Let_def ws_def [symmetric] split: prod.splits)
  have on: "on_owner_thread me VIF_OWNER_LINK ?g" using assms(2) task by (simp add: on_owner_thread_def)
  have clean: "link_clean w'" if "err = ESP_OK"
    using release_all_effect [OF r(1) [unfolded that] on] release_pins_same [OF r(1)]
      pin_release_pins [of VIF_OWNER_LINK "lw_vif ws"] r(2) by (simp add: link_clean_def)
  show ?thesis using r(2) clean by simp
qed

lemma link_apply_torn_down:
  "link_apply_frontend fes ev me fe w = (case torn_down fes ev me w of (w1, err) \<Rightarrow>
     if err \<noteq> ESP_OK then (w1, False)
     else case fe of None \<Rightarrow> (w1, True) | Some i \<Rightarrow>
       (case frontend_start fes i w1 of (w2, True) \<Rightarrow> (w2, True)
        | (w2, False) \<Rightarrow> (case lw_fe w of None \<Rightarrow> (w2, True) | Some p \<Rightarrow> (fst (frontend_start fes p w2), True))))"
  by (simp add: link_apply_frontend_def torn_down_def Let_def split: prod.splits option.splits bool.splits)

text \<open>The outcome of a replacement: nothing runs, or \<open>i\<close> does and started in a clean state.\<close>

definition started_clean :: "('r, 'd) frontends \<Rightarrow> nat \<Rightarrow> ('r, 'd) world \<Rightarrow> bool" where
  "started_clean fes i w' \<longleftrightarrow> (\<exists>w. link_clean w \<and> lw_fe w = None \<and> frontend_start fes i w = (w', True))"

lemma link_apply_effect:
  assumes "frontends_ok fes" "on_owner_thread me VIF_OWNER_LINK (lw_vif w)"
    "link_apply_frontend fes ev me fe w = (w', ok)"
  shows "if ok then lw_fe w' = None \<and> link_clean w' \<or>
      (\<exists>i. (fe = Some i \<or> fe \<noteq> None \<and> lw_fe w = Some i) \<and> lw_fe w' = Some i \<and> started_clean fes i w')
    else lw_fe w' = None"
proof -
  obtain w1 err where td: "torn_down fes ev me w = (w1, err)" by fastforce
  note T = torn_down_effect [OF assms(1,2) td]
  note app = assms(3) [unfolded link_apply_torn_down td prod.case]
  show ?thesis
  proof (cases "err = ESP_OK \<and> fe \<noteq> None")
    case False
    then show ?thesis using T app by (auto split: option.splits if_splits)
  next
    case True
    then obtain i where fe: "fe = Some i" by auto
    obtain w2 s where st: "frontend_start fes i w1 = (w2, s)" by fastforce
    show ?thesis
    proof (cases s)
      case s: True
      then show ?thesis using app True T st fe frontend_start_runs [of fes i w1 w2]
        by (auto simp: started_clean_def)
    next
      case s: False
      then have R: "link_clean w2" "lw_fe w2 = None"
        using frontend_start_refused [OF assms(1), of i w1 w2] st T True by auto
      show ?thesis
      proof (cases "lw_fe w")
        case None
        then show ?thesis using app True st s fe R by auto
      next
        case (Some p)
        obtain w3 s3 where st3: "frontend_start fes p w2 = (w3, s3)" by fastforce
        have "w' = w3" "ok" using app True st s fe Some st3 by auto
        then show ?thesis
          using st3 R frontend_start_runs [of fes p w2 w3] frontend_start_refused [OF assms(1), of p w2 w3] Some fe
          by (cases s3) (auto simp: started_clean_def)
      qed
    qed
  qed
qed

text \<open>A requested change of grammar on the link is carried out or stays requested. Afterwards
  either no grammar runs and the change is still pending, because a driver did not close; or no
  grammar runs and the link has no claim and no pin; or one runs, the requested one, the default
  one after a recovery, or the one before, and it was started when the one before had stopped and
  the link had no claim and no pin.\<close>

theorem vif_link_switch:
  assumes "frontends_ok fes" "on_owner_thread me VIF_OWNER_LINK (lw_vif w)" "lw_fe_switch w"
    and "vif_link_service fes ev me w = (w', did)"
  shows "did \<and> (lw_fe w' = None \<and> lw_fe_switch w' \<or> lw_fe w' = None \<and> link_clean w' \<or>
     (\<exists>i. Some i \<in> {lw_fe_next w, lw_fe_default w, lw_fe w} \<and> lw_fe w' = Some i \<and> started_clean fes i w'))"
proof -
  obtain w1 b where own: "link_owner_service ev me w = (w1, b)" by fastforce
  have W1: "lw_fe_switch w1" "lw_fe_next w1 \<in> {lw_fe_next w, lw_fe_default w}" "lw_fe w1 = lw_fe w"
    "v_task (lw_vif w1) = v_task (lw_vif w)"
  proof -
    obtain g d x y where s: "vif_owner_service ev me VIF_OWNER_LINK (lw_vif w, lw_env w) = ((g, d), x, y)"
      by (metis prod.exhaust)
    have w1: "w1 = (if y then vif_link_set_frontend (lw_fe_default w) (w\<lparr>lw_vif := g, lw_env := d\<rparr>)
        else w\<lparr>lw_vif := g, lw_env := d\<rparr>)"
      using own s by (auto simp: link_owner_service_def Let_def)
    show "lw_fe_switch w1" "lw_fe_next w1 \<in> {lw_fe_next w, lw_fe_default w}" "lw_fe w1 = lw_fe w"
      using assms(3) by (auto simp: w1 vif_link_set_frontend_def)
    show "v_task (lw_vif w1) = v_task (lw_vif w)"
      using owner_service_task [OF s] by (simp add: w1 vif_link_set_frontend_def)
  qed
  obtain w2 ok where app: "link_apply_frontend fes ev me (lw_fe_next w1) (w1\<lparr>lw_fe_switch := False\<rparr>) = (w2, ok)"
    by fastforce
  have on: "on_owner_thread me VIF_OWNER_LINK (lw_vif (w1\<lparr>lw_fe_switch := False\<rparr>))"
    using assms(2) W1(4) by (simp add: on_owner_thread_def)
  have fe1: "lw_fe (w1\<lparr>lw_fe_switch := False\<rparr>) = lw_fe w" using W1(3) by simp
  have res: "did" "w' = (if \<not> ok \<and> \<not> lw_fe_switch w2 then vif_link_set_frontend (lw_fe_next w1) w2 else w2)"
    using assms(2,4) own W1(1) app by (simp_all add: vif_link_service_def Let_def)
  have E: "if ok then lw_fe w2 = None \<and> link_clean w2 \<or>
      (\<exists>i. (lw_fe_next w1 = Some i \<or> lw_fe_next w1 \<noteq> None \<and> lw_fe w = Some i) \<and> lw_fe w2 = Some i \<and> started_clean fes i w2)
    else lw_fe w2 = None"
    using link_apply_effect [OF assms(1) on app] unfolding fe1 .
  show ?thesis
  proof (cases ok)
    case False
    then show ?thesis using res E by (auto simp: vif_link_set_frontend_def)
  next
    case True
    then have "w' = w2" using res by simp
    moreover have "Some i \<in> {lw_fe_next w, lw_fe_default w, lw_fe w}" if "lw_fe_next w1 = Some i \<or> lw_fe w = Some i" for i
      using that W1(2) by auto
    ultimately show ?thesis using res(1) E True by auto
  qed
qed

text \<open>Two front-ends, of which the second refuses to start, over \<open>quiet_env\<close>, whose CAN driver does not close.\<close>

definition two_frontends :: "(byte list \<times> bool, nat) frontends" where
  "two_frontends i = \<lparr>fe_name = Some (if i = 0 then ''elm327'' else ''slcan''),
     fe_start = (if i = 0 then None else Some (\<lambda>w. (w, False))), fe_feed = None, fe_poll = None,
     fe_stop = Some (\<lambda>w. w), fe_poll_interval_ms = 0\<rparr>"

definition link_idle :: "(byte list \<times> bool, nat) world" where
  "link_idle = \<lparr>lw_vif = vif_start\<lparr>v_task := (\<lambda>_. Some 1)\<rparr>, lw_env = 0,
     lw_comm = \<lparr>cm_initialized = False, cm_ports = []\<rparr>, lw_frontends = [0, 1], lw_inited = True,
     lw_port = COMM_INVALID_PORT_ID, lw_fe = Some 0, lw_fe_next = Some 1, lw_fe_switch = True,
     lw_fe_default = Some 0\<rparr>"

lemma two_frontends_ok: "frontends_ok two_frontends"
  by (auto simp: frontends_ok_def two_frontends_def split: if_splits)

lemma vif_link_switch_witness:
  "\<exists>w' did. vif_link_service two_frontends quiet_env 1 link_idle = (w', did) \<and> did \<and>
     (lw_fe w' = None \<or> lw_fe w' = Some 0 \<or> lw_fe w' = Some 1)"
proof -
  obtain w' did where r: "vif_link_service two_frontends quiet_env 1 link_idle = (w', did)" by fastforce
  have "on_owner_thread 1 VIF_OWNER_LINK (lw_vif link_idle)" "lw_fe_switch link_idle"
    by (simp_all add: link_idle_def on_owner_thread_def)
  from vif_link_switch [OF two_frontends_ok this r] r show ?thesis by (auto simp: link_idle_def)
qed

end
