(* ===== verification/LinkArbiter.thy ===== *)
theory LinkArbiter
  imports VifLink
begin

text \<open>
  Which transport has the data link, \<open>main/main.c\<close> and \<open>main/link.h\<close>: the port of the USB or the BLE
  client, taken by the first to connect and handed on when that one leaves, or set by hand.
  The lemmas: over any sequence of connections and orders the code takes the decisions of the small
  machine \<open>arbiter\<close>, and a client that leaves takes its unread input with it.
\<close>

section \<open>Which transport has the link\<close>

datatype link_transport = LINK_NONE | LINK_USB | LINK_BLE

text \<open>The two ports as registered, and what the transports say of their clients.\<close>

record 'd transports =
  tr_port_usb :: nat
  tr_port_ble :: nat
  tr_connected :: "link_transport \<Rightarrow> 'd \<Rightarrow> bool"

definition link_try_bind :: "nat \<Rightarrow> ('r, 'd) world \<Rightarrow> ('r, 'd) world" where
  "link_try_bind port w =
     (let held = vif_link_port w
      in if held = port \<or> held \<noteq> COMM_INVALID_PORT_ID then w else vif_link_set_port port w)"

definition link_offer_elsewhere :: "'d transports \<Rightarrow> nat \<Rightarrow> ('r, 'd) world \<Rightarrow> ('r, 'd) world" where
  "link_offer_elsewhere tr just_freed w =
     (if just_freed \<noteq> tr_port_usb tr \<and> tr_connected tr LINK_USB (lw_env w) then link_try_bind (tr_port_usb tr) w
      else if just_freed \<noteq> tr_port_ble tr \<and> tr_connected tr LINK_BLE (lw_env w) then link_try_bind (tr_port_ble tr) w
      else w)"

definition link_hand_back :: "'r ring_ops \<Rightarrow> 'd transports \<Rightarrow> nat \<Rightarrow> ('r, 'd) world \<Rightarrow> ('r, 'd) world option" where
  "link_hand_back rg tr port w = do {
     w \<leftarrow> vif_link_down rg w;
     Some (link_offer_elsewhere tr port (vif_link_set_port COMM_INVALID_PORT_ID w))
   }"

definition link_release :: "'r ring_ops \<Rightarrow> 'd transports \<Rightarrow> nat \<Rightarrow> ('r, 'd) world \<Rightarrow> ('r, 'd) world option" where
  "link_release rg tr port w = (if vif_link_port w \<noteq> port then Some w else link_hand_back rg tr port w)"

definition transport_port :: "'d transports \<Rightarrow> link_transport \<Rightarrow> nat" where
  "transport_port tr t = (case t of LINK_USB \<Rightarrow> tr_port_usb tr | LINK_BLE \<Rightarrow> tr_port_ble tr
     | LINK_NONE \<Rightarrow> COMM_INVALID_PORT_ID)"

definition link_holder :: "'d transports \<Rightarrow> ('r, 'd) world \<Rightarrow> link_transport" where
  "link_holder tr w =
     (let held = vif_link_port w
      in if held = COMM_INVALID_PORT_ID then LINK_NONE else if held = tr_port_ble tr then LINK_BLE else LINK_USB)"

definition link_transport_name :: "link_transport \<Rightarrow> string" where
  "link_transport_name t = (case t of LINK_USB \<Rightarrow> ''usb'' | LINK_BLE \<Rightarrow> ''ble'' | LINK_NONE \<Rightarrow> ''none'')"

definition link_transport_connected :: "'d transports \<Rightarrow> link_transport \<Rightarrow> 'd \<Rightarrow> bool" where
  "link_transport_connected tr t d = (t \<noteq> LINK_NONE \<and> tr_connected tr t d)"

definition link_set :: "'r ring_ops \<Rightarrow> 'd transports \<Rightarrow> link_transport \<Rightarrow> ('r, 'd) world \<Rightarrow> ('r, 'd) world option" where
  "link_set rg tr t w =
     (let want = transport_port tr t; held = vif_link_port w in
      if held = want then Some w
      else do {
        w \<leftarrow> (if held \<noteq> COMM_INVALID_PORT_ID
           then Option.bind (vif_link_down rg w) (\<lambda>w. Some (vif_link_set_port COMM_INVALID_PORT_ID w))
           else Some w);
        Some (if want \<noteq> COMM_INVALID_PORT_ID then vif_link_set_port want w else link_offer_elsewhere tr held w)
      })"

text \<open>The callbacks of the two transports.\<close>

definition usb_line_state_changed :: "'r ring_ops \<Rightarrow> 'd transports \<Rightarrow> bool \<Rightarrow> ('r, 'd) world \<Rightarrow> ('r, 'd) world option" where
  "usb_line_state_changed rg tr connected w =
     (if connected then Some (link_try_bind (tr_port_usb tr) w) else link_release rg tr (tr_port_usb tr) w)"

definition ble_conn_changed :: "'r ring_ops \<Rightarrow> 'd transports \<Rightarrow> bool \<Rightarrow> ('r, 'd) world \<Rightarrow> ('r, 'd) world option" where
  "ble_conn_changed rg tr connected w =
     (if connected then Some (link_try_bind (tr_port_ble tr) w) else link_release rg tr (tr_port_ble tr) w)"

text \<open>What \<open>links_setup\<close> does after the link has started.\<close>

definition links_bind :: "'d transports \<Rightarrow> ('r, 'd) world \<Rightarrow> ('r, 'd) world" where
  "links_bind tr w =
     (if tr_connected tr LINK_USB (lw_env w) then link_try_bind (tr_port_usb tr) w
      else if tr_connected tr LINK_BLE (lw_env w) then link_try_bind (tr_port_ble tr) w
      else w)"


section \<open>The rule\<close>

text \<open>Who has the link and who is connected. The first to connect has the link until it leaves; then the
  other one gets it, if it is there. An order by hand wins over both.\<close>

datatype link_event = UsbLine bool | BleConn bool | LinkSet link_transport

type_synonym arb_state = "link_transport \<times> (link_transport \<Rightarrow> bool)"

definition first_connected :: "(link_transport \<Rightarrow> bool) \<Rightarrow> link_transport \<Rightarrow> link_transport" where
  "first_connected conn freed =
     (if freed \<noteq> LINK_USB \<and> conn LINK_USB then LINK_USB
      else if freed \<noteq> LINK_BLE \<and> conn LINK_BLE then LINK_BLE else LINK_NONE)"

definition arb_edge :: "link_transport \<Rightarrow> bool \<Rightarrow> arb_state \<Rightarrow> arb_state" where
  "arb_edge t c = (\<lambda>(h, conn).
     (if c then (if h = LINK_NONE then t else h)
      else if h = t then first_connected (conn(t := c)) t else h, conn(t := c)))"

fun arbiter :: "arb_state \<Rightarrow> link_event \<Rightarrow> arb_state \<times> link_transport" where
  "arbiter a (UsbLine c) = (let a = arb_edge LINK_USB c a in (a, fst a))"
| "arbiter a (BleConn c) = (let a = arb_edge LINK_BLE c a in (a, fst a))"
| "arbiter (h, conn) (LinkSet t) =
     (let h = (if h = t then h else if t \<noteq> LINK_NONE then t else first_connected conn h) in ((h, conn), h))"

text \<open>The same events on the code. \<open>upd\<close> is the transport noting that its client came or went, which it
  has done when it calls back.\<close>

fun link_handle ::
  "'r ring_ops \<Rightarrow> 'd transports \<Rightarrow> (link_transport \<Rightarrow> bool \<Rightarrow> 'd \<Rightarrow> 'd) \<Rightarrow> ('r, 'd) world \<Rightarrow> link_event \<Rightarrow>
     (('r, 'd) world \<times> link_transport) option" where
  "link_handle rg tr upd w (UsbLine c) = do {
     w \<leftarrow> usb_line_state_changed rg tr c (w\<lparr>lw_env := upd LINK_USB c (lw_env w)\<rparr>);
     Some (w, link_holder tr w)
   }"
| "link_handle rg tr upd w (BleConn c) = do {
     w \<leftarrow> ble_conn_changed rg tr c (w\<lparr>lw_env := upd LINK_BLE c (lw_env w)\<rparr>);
     Some (w, link_holder tr w)
   }"
| "link_handle rg tr upd w (LinkSet t) = do {
     w \<leftarrow> link_set rg tr t w;
     Some (w, link_holder tr w)
   }"

definition status_ok :: "'d transports \<Rightarrow> (link_transport \<Rightarrow> bool \<Rightarrow> 'd \<Rightarrow> 'd) \<Rightarrow> bool" where
  "status_ok tr upd \<longleftrightarrow> (\<forall>t t' c d. tr_connected tr t (upd t' c d) = (if t = t' then c else tr_connected tr t d))"

text \<open>Both ports are registered and the link is on one of them or on none.\<close>

definition ports_ok :: "('r \<Rightarrow> bool) \<Rightarrow> 'd transports \<Rightarrow> ('r, 'd) world \<Rightarrow> bool" where
  "ports_ok held tr w \<longleftrightarrow> comm_ok (lw_comm w) \<and> tr_port_usb tr \<noteq> tr_port_ble tr \<and>
     port_valid (lw_comm w) (tr_port_usb tr) \<and> port_valid (lw_comm w) (tr_port_ble tr) \<and>
     rests held (lw_comm w) (tr_port_usb tr) \<and> rests held (lw_comm w) (tr_port_ble tr) \<and>
     lw_port w \<in> {tr_port_usb tr, tr_port_ble tr, COMM_INVALID_PORT_ID}"

abbreviation arb_of :: "'d transports \<Rightarrow> ('r, 'd) world \<Rightarrow> arb_state" where
  "arb_of tr w \<equiv> (link_holder tr w, \<lambda>t. tr_connected tr t (lw_env w))"

lemma port_valid_real: "port_valid g i \<Longrightarrow> i \<noteq> COMM_INVALID_PORT_ID"
  by (simp add: port_valid_def COMM_MAX_PORTS_def COMM_INVALID_PORT_ID_def)

lemma set_port_ok:
  assumes "ports_ok held tr w" "p \<in> {tr_port_usb tr, tr_port_ble tr, COMM_INVALID_PORT_ID}"
  shows "ports_ok held tr (vif_link_set_port p w)" "lw_port (vif_link_set_port p w) = p"
    "lw_env (vif_link_set_port p w) = lw_env w"
proof -
  show "lw_port (vif_link_set_port p w) = p" "lw_env (vif_link_set_port p w) = lw_env w"
    by (simp_all add: vif_link_set_port_def Let_def)
  show "ports_ok held tr (vif_link_set_port p w)"
  proof (cases "p = COMM_INVALID_PORT_ID")
    case True
    then show ?thesis using assms(1) by (simp add: ports_ok_def vif_link_set_port_def Let_def)
  next
    case False
    then have "comm_ok (lw_comm w)" "port_valid (lw_comm w) p" using assms by (auto simp: ports_ok_def)
    from client_ready_effect [OF this] show ?thesis
      using assms False by (simp add: ports_ok_def vif_link_set_port_def Let_def)
  qed
qed

lemma link_down_ok:
  assumes "ring_ok rg content held" "ports_ok held tr w" "lw_port w \<noteq> COMM_INVALID_PORT_ID"
  shows "\<exists>w'. vif_link_down rg w = Some w' \<and> ports_ok held tr w' \<and> lw_port w' = lw_port w \<and> lw_env w' = lw_env w"
proof (cases "lw_fe_default w")
  case None
  then show ?thesis using assms(2) by (simp add: vif_link_down_def)
next
  case (Some want)
  have p: "lw_port w \<in> {tr_port_usb tr, tr_port_ble tr}" "comm_ok (lw_comm w)"
    using assms(2,3) by (auto simp: ports_ok_def)
  have "port_valid (lw_comm w) (lw_port w)" "rests held (lw_comm w) (lw_port w)"
    using assms(2) p(1) by (auto simp: ports_ok_def)
  from client_gone_effect [OF assms(1) p(2) this]
  obtain g where g: "comm_port_client_gone rg (lw_port w) (lw_comm w) = Some g" "comm_ok g"
    "port_valid g = port_valid (lw_comm w)" "rests held g (lw_port w)"
    "\<forall>j. j \<noteq> lw_port w \<longrightarrow> cm_ports g ! j = cm_ports (lw_comm w) ! j" by blast
  have "rests held g j" if "rests held (lw_comm w) j" for j using g(4,5) that by (cases "j = lw_port w") auto
  then have "ports_ok held tr (vif_link_set_frontend (Some want) (w\<lparr>lw_comm := g\<rparr>))"
    using assms(2) g(2,3) by (simp add: ports_ok_def vif_link_set_frontend_def)
  then show ?thesis using Some g(1) by (simp add: vif_link_down_def vif_link_set_frontend_def)
qed

lemma holder_port:
  assumes "ports_ok held tr w"
  shows "lw_port w = transport_port tr (link_holder tr w)"
    "transport_port tr t = transport_port tr t' \<longleftrightarrow> t = t'"
    "transport_port tr t \<in> {tr_port_usb tr, tr_port_ble tr, COMM_INVALID_PORT_ID}"
    "transport_port tr t = COMM_INVALID_PORT_ID \<longleftrightarrow> t = LINK_NONE"
    "link_holder tr w = t \<longleftrightarrow> lw_port w = transport_port tr t"
proof -
  have d: "tr_port_usb tr \<noteq> tr_port_ble tr" "tr_port_usb tr \<noteq> COMM_INVALID_PORT_ID" "tr_port_ble tr \<noteq> COMM_INVALID_PORT_ID"
    using assms port_valid_real [of "lw_comm w"] by (auto simp: ports_ok_def)
  show at: "lw_port w = transport_port tr (link_holder tr w)"
    using assms d by (auto simp: link_holder_def vif_link_port_def transport_port_def ports_ok_def Let_def)
  show inj: "transport_port tr t = transport_port tr t' \<longleftrightarrow> t = t'"
    using d by (cases t; cases t') (simp_all add: transport_port_def)
  show "transport_port tr t \<in> {tr_port_usb tr, tr_port_ble tr, COMM_INVALID_PORT_ID}"
    "transport_port tr t = COMM_INVALID_PORT_ID \<longleftrightarrow> t = LINK_NONE"
    using d by (cases t; simp add: transport_port_def)+
  show "link_holder tr w = t \<longleftrightarrow> lw_port w = transport_port tr t"
    using d at by (cases "link_holder tr w"; cases t) (simp_all add: transport_port_def)
qed

lemma try_bind_rule:
  assumes "ports_ok held tr w" and w'_def: "w' = link_try_bind (transport_port tr t) w"
  shows "ports_ok held tr w'" "link_holder tr w' = (if link_holder tr w = LINK_NONE then t else link_holder tr w)"
    "lw_env w' = lw_env w"
proof -
  note H = holder_port [OF assms(1)]
  note S = set_port_ok [OF assms(1) H(3) [of t]]
  show "ports_ok held tr w'" "lw_env w' = lw_env w"
    using assms(1) S by (simp_all add: w'_def link_try_bind_def Let_def)
  show "link_holder tr w' = (if link_holder tr w = LINK_NONE then t else link_holder tr w)"
  proof (cases "lw_port w = COMM_INVALID_PORT_ID")
    case True
    then have "link_holder tr w = LINK_NONE" by (simp add: link_holder_def vif_link_port_def)
    moreover have "link_holder tr (vif_link_set_port (transport_port tr t) w) = t"
      using holder_port(5) [OF S(1)] S(2) by simp
    ultimately show ?thesis using True H(4) [of t]
      by (cases "t = LINK_NONE") (simp_all add: w'_def link_try_bind_def vif_link_port_def Let_def)
  next
    case False
    then have "link_holder tr w \<noteq> LINK_NONE" using H(1,4) by metis
    then show ?thesis using False by (simp add: w'_def link_try_bind_def vif_link_port_def Let_def)
  qed
qed

lemma offer_rule:
  assumes "ports_ok held tr w" "link_holder tr w = LINK_NONE"
    and w'_def: "w' = link_offer_elsewhere tr (transport_port tr t) w"
  shows "ports_ok held tr w'" "link_holder tr w' = first_connected (\<lambda>t. tr_connected tr t (lw_env w)) t"
    "lw_env w' = lw_env w"
proof -
  have p: "transport_port tr t \<noteq> tr_port_usb tr \<longleftrightarrow> t \<noteq> LINK_USB" "transport_port tr t \<noteq> tr_port_ble tr \<longleftrightarrow> t \<noteq> LINK_BLE"
    using holder_port(2) [OF assms(1), of t LINK_USB] holder_port(2) [OF assms(1), of t LINK_BLE]
    by (simp_all add: transport_port_def)
  note U = try_bind_rule [OF assms(1), of _ LINK_USB, OF refl] and B = try_bind_rule [OF assms(1), of _ LINK_BLE, OF refl]
  have names: "transport_port tr LINK_USB = tr_port_usb tr" "transport_port tr LINK_BLE = tr_port_ble tr"
    by (simp_all add: transport_port_def)
  note U' = U [unfolded names] and B' = B [unfolded names]
  show "ports_ok held tr w'" "lw_env w' = lw_env w"
    using assms(1) U' B' by (simp_all add: w'_def link_offer_elsewhere_def)
  show "link_holder tr w' = first_connected (\<lambda>t. tr_connected tr t (lw_env w)) t"
    using U' B' assms(2) p by (cases t) (simp_all add: w'_def link_offer_elsewhere_def first_connected_def)
qed

lemma hand_over_rule:
  assumes "ring_ok rg content held" "ports_ok held tr w" "lw_port w \<noteq> COMM_INVALID_PORT_ID"
  obtains w1 where "vif_link_down rg w = Some w1" "ports_ok held tr (vif_link_set_port COMM_INVALID_PORT_ID w1)"
    "link_holder tr (vif_link_set_port COMM_INVALID_PORT_ID w1) = LINK_NONE"
    "lw_env (vif_link_set_port COMM_INVALID_PORT_ID w1) = lw_env w"
    "ports_ok held tr w1"
proof -
  obtain w1 where w1: "vif_link_down rg w = Some w1" "ports_ok held tr w1" "lw_env w1 = lw_env w"
    using link_down_ok [OF assms] by blast
  note S = set_port_ok [OF w1(2), of COMM_INVALID_PORT_ID]
  have "link_holder tr (vif_link_set_port COMM_INVALID_PORT_ID w1) = LINK_NONE"
    using S(2) by (simp add: link_holder_def vif_link_port_def Let_def)
  then show ?thesis using that w1 S by simp
qed

lemma edge_rule:
  assumes "ring_ok rg content held" "status_ok tr upd" "ports_ok held tr w" "t \<noteq> LINK_NONE"
  shows "\<exists>w'. (if c then Some (link_try_bind (transport_port tr t) (w\<lparr>lw_env := upd t c (lw_env w)\<rparr>))
      else link_release rg tr (transport_port tr t) (w\<lparr>lw_env := upd t c (lw_env w)\<rparr>)) = Some w' \<and>
    ports_ok held tr w' \<and> arb_of tr w' = arb_edge t c (arb_of tr w)"
proof -
  let ?w = "w\<lparr>lw_env := upd t c (lw_env w)\<rparr>"
  have ok: "ports_ok held tr ?w" using assms(3) by (simp add: ports_ok_def)
  have h: "link_holder tr ?w = link_holder tr w" by (simp add: link_holder_def vif_link_port_def)
  have conn: "(\<lambda>t'. tr_connected tr t' (upd t c (lw_env w))) = (\<lambda>t'. tr_connected tr t' (lw_env w))(t := c)"
    using assms(2) by (auto simp: status_ok_def)
  show ?thesis
  proof (cases c)
    case True
    then show ?thesis using try_bind_rule [OF ok refl, of t] h conn by (simp add: arb_edge_def)
  next
    case c: False
    show ?thesis
    proof (cases "link_holder tr w = t")
      case False
      then have "vif_link_port ?w \<noteq> transport_port tr t"
        using holder_port(5) [OF ok, of t] h by (simp add: vif_link_port_def)
      then show ?thesis using c ok h conn False by (simp add: link_release_def arb_edge_def)
    next
      case True
      then have at: "vif_link_port ?w = transport_port tr t" "lw_port ?w \<noteq> COMM_INVALID_PORT_ID"
        using holder_port(1,4) [OF ok] h assms(4) by (auto simp: vif_link_port_def)
      obtain w1 where w1: "vif_link_down rg ?w = Some w1" "ports_ok held tr (vif_link_set_port COMM_INVALID_PORT_ID w1)"
        "link_holder tr (vif_link_set_port COMM_INVALID_PORT_ID w1) = LINK_NONE"
        "lw_env (vif_link_set_port COMM_INVALID_PORT_ID w1) = lw_env ?w"
        using hand_over_rule [OF assms(1) ok at(2)] by blast
      note O = offer_rule [OF w1(2,3) refl, of t]
      show ?thesis using c at True w1 O conn by (simp add: link_release_def link_hand_back_def arb_edge_def)
    qed
  qed
qed

lemma set_rule:
  assumes "ring_ok rg content held" "ports_ok held tr w"
  shows "\<exists>w'. link_set rg tr t w = Some w' \<and> ports_ok held tr w' \<and>
    arb_of tr w' = fst (arbiter (arb_of tr w) (LinkSet t))"
proof (cases "link_holder tr w = t")
  case True
  then have "vif_link_port w = transport_port tr t" using holder_port(1) [OF assms(2)] by (simp add: vif_link_port_def)
  then show ?thesis using assms(2) True by (simp add: link_set_def)
next
  case False
  note H = holder_port [OF assms(2)]
  let ?h = "link_holder tr w"
  have ne: "lw_port w \<noteq> transport_port tr t" using H(5) False by simp
  obtain w1 where w1: "(if lw_port w \<noteq> COMM_INVALID_PORT_ID
      then Option.bind (vif_link_down rg w) (\<lambda>w. Some (vif_link_set_port COMM_INVALID_PORT_ID w)) else Some w) = Some w1"
    "ports_ok held tr w1" "link_holder tr w1 = LINK_NONE" "lw_env w1 = lw_env w"
  proof (cases "lw_port w = COMM_INVALID_PORT_ID")
    case True
    then show ?thesis using that [of w] assms(2) by (simp add: link_holder_def vif_link_port_def)
  next
    case False
    from hand_over_rule [OF assms False] show ?thesis using that False by force
  qed
  note S = set_port_ok [OF w1(2) holder_port(3) [OF w1(2)], of t]
  have hold: "link_holder tr (vif_link_set_port (transport_port tr t) w1) = t"
    using holder_port(5) [OF S(1)] S(2) by simp
  have eq: "link_set rg tr t w = Some (if transport_port tr t \<noteq> COMM_INVALID_PORT_ID
      then vif_link_set_port (transport_port tr t) w1 else link_offer_elsewhere tr (lw_port w) w1)"
    using w1(1) ne by (simp add: link_set_def vif_link_port_def Let_def)
  show ?thesis
    using eq S hold offer_rule [OF w1(2,3) refl, of ?h] H(1) holder_port(4) [OF w1(2)] w1(4) False by (cases "t = LINK_NONE") (simp_all add: Let_def)
qed

interpretation arb: simulation "link_handle rg tr upd" arbiter
  "\<lambda>w a. ring_ok rg content held \<and> status_ok tr upd \<and> ports_ok held tr w \<and> a = arb_of tr w" "\<lambda>_. True"
  for rg tr upd content held
proof unfold_locales
  fix w :: "('a, 'b) world" and a e
  assume A: "ring_ok rg content held \<and> status_ok tr upd \<and> ports_ok held tr w \<and> a = arb_of tr w"
  note edge = edge_rule [of rg content held tr upd w]
  show "\<exists>w'. link_handle rg tr upd w e = Some (w', snd (arbiter a e)) \<and>
      ring_ok rg content held \<and> status_ok tr upd \<and> ports_ok held tr w' \<and> fst (arbiter a e) = arb_of tr w'"
  proof (cases e)
    case (UsbLine c)
    then show ?thesis using A edge [of LINK_USB c]
      by (auto simp: usb_line_state_changed_def transport_port_def Let_def split: if_splits) (metis fst_conv)+
  next
    case (BleConn c)
    then show ?thesis using A edge [of LINK_BLE c]
      by (auto simp: ble_conn_changed_def transport_port_def Let_def split: if_splits) (metis fst_conv)+
  next
    case (LinkSet t)
    then show ?thesis using A set_rule [of rg content held tr w t] by (auto simp: Let_def)
  qed
qed

text \<open>The link is free only while nobody is connected, and otherwise the holder is.\<close>

fun consistent :: "arb_state \<Rightarrow> bool" where
  "consistent (h, conn) \<longleftrightarrow> (if h = LINK_NONE then \<not> conn LINK_USB \<and> \<not> conn LINK_BLE else conn h)"

lemma arb_edge_consistent: "t \<noteq> LINK_NONE \<Longrightarrow> consistent a \<Longrightarrow> consistent (arb_edge t c a)"
  by (cases a; cases t) (auto simp: arb_edge_def first_connected_def split: if_splits)

lemma arbiter_edges_consistent:
  "list_all (\<lambda>e. case e of LinkSet t \<Rightarrow> False | _ \<Rightarrow> True) es \<Longrightarrow> consistent a \<Longrightarrow> consistent (fst (run_spec arbiter a es))"
proof (induction es arbitrary: a)
  case (Cons e es)
  then have "consistent (fst (arbiter a e))"
    by (cases e; cases a) (simp_all add: Let_def arb_edge_consistent del: consistent.simps)
  with Cons show ?case by (simp add: case_prod_beta)
qed simp

text \<open>C14: Over any sequence of clients connecting and leaving on USB and BLE and of orders by hand, the
  code never faults and after every event gives the link to the transport the rule names: the
  first to connect keeps it until it leaves, then the other one gets it if it is connected, and an
  order by hand wins. Without such orders the link is free only while nobody is connected, and the
  transport that has it is connected.\<close>

theorem link_first_connected:
  assumes "ring_ok rg content held" "status_ok tr upd" "ports_ok held tr w"
  shows "\<exists>w'. run_calls (link_handle rg tr upd) w es = Some (w', snd (run_spec arbiter (arb_of tr w) es)) \<and>
    ports_ok held tr w' \<and> arb_of tr w' = fst (run_spec arbiter (arb_of tr w) es) \<and>
    (consistent (arb_of tr w) \<longrightarrow> list_all (\<lambda>e. case e of LinkSet t \<Rightarrow> False | _ \<Rightarrow> True) es \<longrightarrow> consistent (arb_of tr w'))"
proof -
  obtain w' where "run_calls (link_handle rg tr upd) w es = Some (w', snd (run_spec arbiter (arb_of tr w) es))"
    "ports_ok held tr w'" "fst (run_spec arbiter (arb_of tr w) es) = arb_of tr w'"
    using arb.run_simulates [of rg content held tr upd w "arb_of tr w" es] assms by (auto simp: list.pred_True)
  then show ?thesis using arbiter_edges_consistent [of es "arb_of tr w"] by (intro exI [of _ w']) simp
qed

text \<open>When the client that has the link leaves, what it sent and nobody read is thrown away and its
  port stays mute, and the default grammar is asked for. If the other transport has a client, its
  port gets the link and may be written to at once, while the grammar of the client that left is
  still the one installed.\<close>

theorem link_handed_over:
  assumes "ring_ok rg content held" "ports_ok held tr w" "link_holder tr w = t" "t \<noteq> LINK_NONE"
    and "lw_fe_default w = Some dflt"
  shows "\<exists>w'. link_release rg tr (transport_port tr t) w = Some w' \<and>
    unread content (lw_comm w') (transport_port tr t) = [] \<and> pt_muted (cm_ports (lw_comm w') ! transport_port tr t) \<and>
    lw_fe_switch w' \<and> lw_fe_next w' = Some dflt \<and> lw_fe w' = lw_fe w \<and>
    (let n = first_connected (\<lambda>t. tr_connected tr t (lw_env w)) t in
      link_holder tr w' = n \<and> (n = LINK_NONE \<or> \<not> pt_muted (cm_ports (lw_comm w') ! transport_port tr n)))"
proof -
  let ?p = "transport_port tr t" and ?n = "first_connected (\<lambda>t. tr_connected tr t (lw_env w)) t"
  note H = holder_port [OF assms(2)]
  have p: "lw_port w = ?p" "?p \<in> {tr_port_usb tr, tr_port_ble tr}"
    using H(1) assms(3,4) by (cases t; simp add: transport_port_def)+
  then have ok: "comm_ok (lw_comm w)" "port_valid (lw_comm w) ?p" "rests held (lw_comm w) ?p"
    using assms(2) by (auto simp: ports_ok_def)
  obtain g where g: "comm_port_client_gone rg ?p (lw_comm w) = Some g" "comm_ok g"
    "port_valid g = port_valid (lw_comm w)" "unread content g ?p = []" "pt_muted (cm_ports g ! ?p)"
    using client_gone_effect [OF assms(1) ok] by blast
  define w1 where "w1 = w\<lparr>lw_comm := g, lw_fe_next := Some dflt, lw_fe_switch := True, lw_port := COMM_INVALID_PORT_ID\<rparr>"
  define w' where "w' = (if ?n = LINK_NONE then w1 else vif_link_set_port (transport_port tr ?n) w1)"
  have d: "vif_link_down rg w = Some (w\<lparr>lw_comm := g, lw_fe_next := Some dflt, lw_fe_switch := True\<rparr>)"
    using assms(5) g(1) p by (simp add: vif_link_down_def vif_link_set_frontend_def)
  have pn: "?p \<noteq> tr_port_usb tr \<longleftrightarrow> t \<noteq> LINK_USB" "?p \<noteq> tr_port_ble tr \<longleftrightarrow> t \<noteq> LINK_BLE"
    using H(2) [of t LINK_USB] H(2) [of t LINK_BLE] by (simp_all add: transport_port_def)
  have real: "tr_port_usb tr \<noteq> COMM_INVALID_PORT_ID" "tr_port_ble tr \<noteq> COMM_INVALID_PORT_ID"
    using H(4) [of LINK_USB] H(4) [of LINK_BLE] by (simp_all add: transport_port_def)
  have off: "link_offer_elsewhere tr ?p w1 = w'"
    using pn real by (auto simp: link_offer_elsewhere_def w'_def link_try_bind_def vif_link_port_def w1_def
        first_connected_def transport_port_def Let_def)
  have run: "link_release rg tr ?p w = Some w'"
    using d p(1) off by (simp add: link_release_def link_hand_back_def vif_link_port_def vif_link_set_port_def w1_def Let_def)
  show ?thesis
  proof (cases "?n = LINK_NONE")
    case True
    then show ?thesis using run g by (simp add: w'_def w1_def link_holder_def vif_link_port_def Let_def)
  next
    case False
    have n: "?n \<noteq> t" using assms(4) by (cases t) (auto simp: first_connected_def)
    have v: "port_valid g (transport_port tr ?n)" using False assms(2) g(3)
      by (cases ?n) (auto simp: transport_port_def ports_ok_def)
    note R = client_ready_effect [OF g(2) v]
    have c: "lw_comm w' = comm_port_client_ready (transport_port tr ?n) g" "lw_port w' = transport_port tr ?n"
      "lw_fe_switch w'" "lw_fe_next w' = Some dflt" "lw_fe w' = lw_fe w"
      using False H(4) [of ?n] by (simp_all add: w'_def w1_def vif_link_set_port_def Let_def)
    have ub: "tr_port_usb tr \<noteq> tr_port_ble tr" using assms(2) by (simp add: ports_ok_def)
    have "link_holder tr w' = ?n" using c(2) ub real False
      by (cases ?n) (auto simp: link_holder_def vif_link_port_def transport_port_def Let_def)
    moreover have "?p \<noteq> transport_port tr ?n" using H(2) n by metis
    ultimately show ?thesis using run g(4,5) c R(3,4) False by (simp add: Let_def)
  qed
qed

text \<open>Both ports registered, the USB client on the link and a BLE client waiting.\<close>

definition port8 :: "(byte list \<times> bool, link_transport \<Rightarrow> bool) comm_port" where
  "port8 = port_zero\<lparr>pt_active := True, pt_rx_stream := Some ([1, 2], False),
     pt_ops := \<lparr>po_write = Some (\<lambda>bs d. (d, int (length bs))), po_flush = None, po_is_connected = None\<rparr>\<rparr>"

definition ports01 :: "(link_transport \<Rightarrow> bool) transports" where
  "ports01 = \<lparr>tr_port_usb = 0, tr_port_ble = 1, tr_connected = (\<lambda>t d. d t)\<rparr>"

definition link_busy :: "(byte list \<times> bool, link_transport \<Rightarrow> bool) world" where
  "link_busy = \<lparr>lw_vif = vif_start, lw_env = (\<lambda>t. t \<noteq> LINK_NONE),
     lw_comm = \<lparr>cm_initialized = True, cm_ports = [port8, port8, port_zero, port_zero]\<rparr>,
     lw_frontends = [0], lw_inited = True, lw_port = 0, lw_fe = Some 0, lw_fe_next = None,
     lw_fe_switch = False, lw_fe_default = Some 0\<rparr>"

lemma link_busy_ok:
  "status_ok ports01 (\<lambda>t c d. d(t := c))" "ports_ok snd ports01 link_busy" "link_holder ports01 link_busy = LINK_USB"
  "consistent (arb_of ports01 link_busy)"
  by (auto simp: status_ok_def ports01_def ports_ok_def link_busy_def comm_ok_def port_valid_def port8_def port_zero_def
      COMM_MAX_PORTS_def COMM_INVALID_PORT_ID_def link_holder_def vif_link_port_def)

lemma link_first_connected_witness:
  "\<exists>w'. run_calls (link_handle ring8 ports01 (\<lambda>t c d. d(t := c))) link_busy
     [BleConn True, UsbLine False, UsbLine True, BleConn False, LinkSet LINK_BLE] =
     Some (w', [LINK_USB, LINK_BLE, LINK_BLE, LINK_USB, LINK_BLE])"
proof -
  let ?es = "[BleConn True, UsbLine False, UsbLine True, BleConn False, LinkSet LINK_BLE]"
  have "snd (run_spec arbiter (arb_of ports01 link_busy) ?es) = [LINK_USB, LINK_BLE, LINK_BLE, LINK_USB, LINK_BLE]"
    by (simp add: link_busy_def ports01_def link_holder_def vif_link_port_def COMM_INVALID_PORT_ID_def
        arb_edge_def first_connected_def Let_def)
  then show ?thesis using link_first_connected [OF ring8_ok link_busy_ok(1,2), of ?es] by auto
qed

lemma link_handed_over_witness:
  "\<exists>w'. link_release ring8 ports01 0 link_busy = Some w' \<and> link_holder ports01 w' = LINK_BLE \<and> lw_fe w' = Some 0 \<and>
     pt_muted (cm_ports (lw_comm w') ! 0) \<and> \<not> pt_muted (cm_ports (lw_comm w') ! 1)"
proof -
  have d: "lw_fe_default link_busy = Some 0" "lw_fe link_busy = Some 0"
    "first_connected (\<lambda>t. tr_connected ports01 t (lw_env link_busy)) LINK_USB = LINK_BLE"
    "transport_port ports01 LINK_USB = 0" "transport_port ports01 LINK_BLE = 1"
    by (simp_all add: link_busy_def ports01_def first_connected_def transport_port_def)
  from link_handed_over [OF ring8_ok link_busy_ok(2,3) _ d(1)] show ?thesis
    by (simp add: d Let_def) blast
qed

end
