(* ===== verification/VifCtrl.thy ===== *)
theory VifCtrl
  imports VifLink
begin

text \<open>
  The control commands of \<open>main/vif_ctrl.c\<close>, by which the console and the Bluetooth control
  characteristic change the grammar of the link without writing into its data. A command is a block
  of bytes, not terminated; the answer is the text before the terminator in a buffer of \<open>cap\<close> bytes.
  \<open>ctrl_env\<close> is what the commands use outside: the front-end structures, the drivers, the task that
  asks, the version of the build and the names ESP-IDF gives to errors. \<open>None\<close> is the null pointer
  of a link without a default grammar.
  The lemmas: an answer fits its buffer, and one for a buffer of the documented size is whole; and a
  command to change the grammar is carried out however it is spelled.
\<close>

section \<open>The code\<close>

definition CTRL_CMD_MAX :: nat where "CTRL_CMD_MAX = 48"
definition VIF_CTRL_REPLY_MAX :: nat where "VIF_CTRL_REPLY_MAX = 128"
definition MODE_LIST_MAX :: nat where "MODE_LIST_MAX = 64"
definition OPENDIAG_PRODUCT :: string where "OPENDIAG_PRODUCT = ''OpenDiag''"
definition OPENDIAG_HARDWARE :: string where "OPENDIAG_HARDWARE = ''rev1''"

record ('r, 'd) ctrl_env =
  ct_fes :: "('r, 'd) frontends"
  ct_vif :: "'d vif_env"
  ct_me :: nat
  ct_version :: string
  ct_err_name :: "esp_err \<Rightarrow> string"

definition reply :: "nat \<Rightarrow> string \<Rightarrow> string" where "reply cap s = take (cap - 1) s"

text \<open>\<open>snprintf\<close> at \<open>dst + pos\<close>, with \<open>pos\<close> the length of what is there; the flag is the \<open>break\<close>.\<close>

definition put :: "nat \<Rightarrow> string \<Rightarrow> string \<Rightarrow> string \<times> bool" where
  "put cap dst s = (dst @ take (cap - length dst - 1) s, length s \<ge> cap - length dst)"

text \<open>\<open>toupper\<close> in the C locale.\<close>

definition to_upper :: "char \<Rightarrow> char" where
  "to_upper c = (if 97 \<le> (of_char c :: nat) \<and> (of_char c :: nat) \<le> 122 then char_of ((of_char c :: nat) - 32) else c)"

abbreviation ctrl_trailing :: "char \<Rightarrow> bool" where
  "ctrl_trailing c \<equiv> c = CHR 0x0D \<or> c = CHR 0x0A \<or> c = CHR '' '' \<or> c = CHR 0x00"

text \<open>The memory of \<open>buf\<close>, terminator excluded; a null pointer or a command of no use is \<open>None\<close>.\<close>

definition normalise :: "string option \<Rightarrow> nat \<Rightarrow> string option" where
  "normalise cmd cap = (case cmd of
       None \<Rightarrow> None
     | Some cmd \<Rightarrow>
         let cmd = rev (dropWhile ctrl_trailing (rev cmd));
             cmd = dropWhile (\<lambda>c. c = CHR '' '') cmd
         in if cmd = [] \<or> length cmd \<ge> cap then None else Some (map to_upper cmd))"

fun mode_loop :: "('r, 'd) frontends \<Rightarrow> nat \<Rightarrow> nat list \<Rightarrow> string \<Rightarrow> string" where
  "mode_loop fes cap [] dst = dst"
| "mode_loop fes cap (f # fs) dst =
     (let (dst, full) = put cap dst ((if dst \<noteq> [] then '','' else []) @ name_of fes f)
      in if full then dst else mode_loop fes cap fs dst)"

definition mode_list :: "('r, 'd) frontends \<Rightarrow> nat \<Rightarrow> ('r, 'd) world \<Rightarrow> string" where
  "mode_list fes cap w = mode_loop fes cap (lw_frontends w) []"

definition link_mode :: "('r, 'd) ctrl_env \<Rightarrow> ('r, 'd) world \<Rightarrow> string" where
  "link_mode en w = (case vif_link_frontend_name (ct_fes en) w of None \<Rightarrow> ''-'' | Some n \<Rightarrow> n)"

definition cmd_id :: "('r, 'd) ctrl_env \<Rightarrow> nat \<Rightarrow> ('r, 'd) world \<Rightarrow> string" where
  "cmd_id en cap w = reply cap (OPENDIAG_PRODUCT @ '' '' @ OPENDIAG_HARDWARE @ '' fw='' @ ct_version en @ '' link='' @
     vif_owner_name VIF_OWNER_LINK @ '' mode='' @ link_mode en w @ '' modes='' @ mode_list (ct_fes en) MODE_LIST_MAX w)"

definition cmd_mode_set :: "('r, 'd) ctrl_env \<Rightarrow> string \<Rightarrow> nat \<Rightarrow> ('r, 'd) world \<Rightarrow> ('r, 'd) world \<times> string \<times> bool" where
  "cmd_mode_set en name cap w = (case vif_frontend_find (ct_fes en) (Some name) w of
       None \<Rightarrow> (w, reply cap (''ERR no mode '' @ [CHR 0x27] @ name @ [CHR 0x27] @ ''; have '' @ mode_list (ct_fes en) MODE_LIST_MAX w), False)
     | Some fe \<Rightarrow> (vif_link_set_frontend (Some fe) w, reply cap (''MODE '' @ name_of (ct_fes en) fe), True))"

text \<open>\<open>%PRIu32\<close>.\<close>

fun dec_of :: "nat \<Rightarrow> string" where
  "dec_of n = (if n < 10 then [char_of (48 + n)] else dec_of (n div 10) @ [char_of (48 + n mod 10)])"

declare dec_of.simps [simp del]

fun bus_loop_text :: "nat \<Rightarrow> (vif_bus \<times> nat \<times> vif_owner) list \<Rightarrow> string \<Rightarrow> string" where
  "bus_loop_text cap [] out = out"
| "bus_loop_text cap ((bus, bitrate, owner) # cs) out =
     (if length out \<ge> cap then out
      else if bus = VIF_BUS_NONE then bus_loop_text cap cs out
      else
        let (out, full) = put cap out ('' '' @ vif_bus_name bus) in
        if full then out
        else
          let (out, full) = (if bitrate \<noteq> 0 then put cap out (''@'' @ dec_of bitrate) else (out, False)) in
          if full then out
          else
            let (out, full) = put cap out (''/'' @ vif_owner_name owner) in
            if full then out else bus_loop_text cap cs out)"

text \<open>\<open>pos\<close> is 3 after the first word even when less of it fits, and nothing follows then.\<close>

definition cmd_bus :: "nat \<Rightarrow> ('r, 'd) world \<Rightarrow> string" where
  "cmd_bus cap w = (if cap \<le> 3 then take (cap - 1) ''BUS'' else bus_loop_text cap (vif_bus_info (lw_vif w)) ''BUS'')"

definition cmd_reset :: "('r, 'd) ctrl_env \<Rightarrow> nat \<Rightarrow> ('r, 'd) world \<Rightarrow> (('r, 'd) world \<times> string \<times> bool) option" where
  "cmd_reset en cap w =
     (let fe = vif_link_default_frontend w;
          (w, err) = release_link_buses (ct_vif en) (ct_me en) w;
          w = w\<lparr>lw_vif := vif_pin_release_all VIF_OWNER_LINK (lw_vif w)\<rparr>
      in if err \<noteq> ESP_OK then Some (w, reply cap (''ERR bus close failed: '' @ ct_err_name en err), False)
         else do {
           let w = vif_link_set_frontend fe w;
           fe \<leftarrow> fe;
           Some (w, reply cap (''RESET '' @ name_of (ct_fes en) fe), True)
         })"

text \<open>A command with a zero byte in it ends there for \<open>strcmp\<close>, \<open>strncmp\<close> and \<open>%s\<close>.\<close>

definition vif_ctrl_exec ::
  "('r, 'd) ctrl_env \<Rightarrow> string option \<Rightarrow> nat \<Rightarrow> ('r, 'd) world \<Rightarrow> (('r, 'd) world \<times> string \<times> bool) option" where
  "vif_ctrl_exec en cmd cap w =
     (if cap = 0 then Some (w, [], False)
      else case normalise cmd CTRL_CMD_MAX of
        None \<Rightarrow> Some (w, reply cap ''ERR empty'', False)
      | Some buf \<Rightarrow>
          let buf = takeWhile (\<lambda>c. c \<noteq> CHR 0x00) buf in
          if buf = ''ID'' then Some (w, cmd_id en cap w, True)
          else if buf = ''MODE'' then Some (w, reply cap (''MODE '' @ link_mode en w), True)
          else if take 5 buf = ''MODE='' then Some (cmd_mode_set en (drop 5 buf) cap w)
          else if buf = ''BUS'' then Some (w, cmd_bus cap w, True)
          else if buf = ''RESET'' then cmd_reset en cap w
          else Some (w, reply cap (''ERR unknown '' @ [CHR 0x27] @ buf @ [CHR 0x27]), False))"

section \<open>Answers fit\<close>

lemma reply_fits: "length (reply cap s) \<le> cap - 1"
  by (simp add: reply_def)

lemma reply_whole: "length s < cap \<Longrightarrow> reply cap s = s"
  by (simp add: reply_def)

lemma put_fits: "length dst < cap \<Longrightarrow> length (fst (put cap dst s)) < cap"
  by (auto simp: put_def)

lemma put_whole: "length dst + length s < cap \<Longrightarrow> put cap dst s = (dst @ s, False)"
  by (simp add: put_def)

lemma bus_loop_fits: "length out < cap \<Longrightarrow> length (bus_loop_text cap cs out) < cap"
proof (induction cs arbitrary: out)
  case (Cons c cs)
  obtain bus bitrate owner where c: "c = (bus, bitrate, owner)" by (cases c)
  obtain o1 f1 where 1: "put cap out ('' '' @ vif_bus_name bus) = (o1, f1)" by (cases "put cap out ('' '' @ vif_bus_name bus)")
  obtain o2 f2 where 2: "(if bitrate \<noteq> 0 then put cap o1 (''@'' @ dec_of bitrate) else (o1, False)) = (o2, f2)"
    by (cases "if bitrate \<noteq> 0 then put cap o1 (''@'' @ dec_of bitrate) else (o1, False)")
  obtain o3 f3 where 3: "put cap o2 (''/'' @ vif_owner_name owner) = (o3, f3)" by (cases "put cap o2 (''/'' @ vif_owner_name owner)")
  have "length o1 < cap" using put_fits [OF Cons.prems, of "'' '' @ vif_bus_name bus"] 1 by simp
  moreover from this have "length o2 < cap" using put_fits [of o1 cap "''@'' @ dec_of bitrate"] 2 by (auto split: if_splits)
  moreover from this have "length o3 < cap" using put_fits [of o2 cap "''/'' @ vif_owner_name owner"] 3 by simp
  ultimately show ?case using Cons.IH [of out] Cons.IH [of o3] Cons.prems 1 2 3 unfolding c by (simp add: Let_def)
qed simp

lemma dec_of_length: "n < 10 ^ Suc k \<Longrightarrow> length (dec_of n) \<le> Suc k"
proof (induction k arbitrary: n)
  case 0
  then show ?case by (simp add: dec_of.simps [of n])
next
  case (Suc k)
  then have "n div 10 < 10 ^ Suc k" by (simp add: less_mult_imp_div_less)
  from Suc.IH [OF this] show ?case by (simp add: dec_of.simps [of n])
qed

text \<open>The list without the bounds.\<close>

definition bus_text :: "vif_bus \<times> nat \<times> vif_owner \<Rightarrow> string" where
  "bus_text = (\<lambda>(bus, bitrate, owner). if bus = VIF_BUS_NONE then [] else
     '' '' @ vif_bus_name bus @ (if bitrate \<noteq> 0 then ''@'' @ dec_of bitrate else []) @ ''/'' @ vif_owner_name owner)"

lemma bus_text_length: "fst (snd c) < 2 ^ 32 \<Longrightarrow> length (bus_text c) \<le> 27"
  using dec_of_length [of "fst (snd c)" 9]
  by (cases c) (auto simp: bus_text_def vif_bus_name_def vif_owner_name_def split: vif_bus.splits vif_owner.splits)

lemma bus_loop_whole:
  assumes "\<forall>c \<in> set cs. fst (snd c) < 2 ^ 32" "length out + 27 * length cs < cap"
  shows "bus_loop_text cap cs out = out @ concat (map bus_text cs)"
  using assms
proof (induction cs arbitrary: out)
  case (Cons c cs)
  obtain bus bitrate owner where c: "c = (bus, bitrate, owner)" by (cases c)
  have len: "length (bus_text c) \<le> 27" using bus_text_length [of c] Cons.prems(1) by simp
  have "bus_loop_text cap (c # cs) out = bus_loop_text cap cs (out @ bus_text c)"
  proof (cases "bus = VIF_BUS_NONE")
    case True
    then show ?thesis using Cons.prems(2) by (simp add: c bus_text_def)
  next
    case False
    then have l: "2 + length (vif_bus_name bus) + (if bitrate \<noteq> 0 then 1 + length (dec_of bitrate) else 0) +
        length (vif_owner_name owner) \<le> 27" using len by (simp add: c bus_text_def split: if_splits)
    have 1: "put cap out ('' '' @ vif_bus_name bus) = (out @ '' '' @ vif_bus_name bus, False)"
      by (rule put_whole) (use l Cons.prems(2) in simp)
    let ?o1 = "out @ '' '' @ vif_bus_name bus"
    let ?o2 = "?o1 @ (if bitrate \<noteq> 0 then ''@'' @ dec_of bitrate else [])"
    have 2: "(if bitrate \<noteq> 0 then put cap ?o1 (''@'' @ dec_of bitrate) else (?o1, False)) = (?o2, False)"
      using put_whole [of ?o1 "''@'' @ dec_of bitrate" cap] l Cons.prems(2) by (simp split: if_splits)
    have 3: "put cap ?o2 (''/'' @ vif_owner_name owner) = (?o2 @ ''/'' @ vif_owner_name owner, False)"
      by (rule put_whole) (use l Cons.prems(2) in \<open>simp split: if_splits\<close>)
    show ?thesis using False Cons.prems(2) unfolding c bus_loop_text.simps 1 Let_def prod.case 2 3 by (simp add: bus_text_def)
  qed
  then show ?case using Cons.IH [of "out @ bus_text c"] Cons.prems len by simp
qed simp

lemma mode_loop_length: "length (mode_loop fes cap fs dst) \<le> max (length dst) (cap - 1)"
proof (induction fs arbitrary: dst)
  case (Cons f fs)
  obtain d x where d: "put cap dst ((if dst \<noteq> [] then '','' else []) @ name_of fes f) = (d, x)"
    by (cases "put cap dst ((if dst \<noteq> [] then '','' else []) @ name_of fes f)")
  then have "length d \<le> max (length dst) (cap - 1)" by (auto simp: put_def)
  then show ?case using Cons.IH [of d] d by (auto simp: Let_def)
qed simp

lemma mode_loop_names:
  "\<forall>f \<in> set fs. length (name_of fes f) \<le> 8 \<Longrightarrow> length (mode_loop fes cap fs dst) \<le> length dst + 9 * length fs"
proof (induction fs arbitrary: dst)
  case (Cons f fs)
  obtain d x where d: "put cap dst ((if dst \<noteq> [] then '','' else []) @ name_of fes f) = (d, x)"
    by (cases "put cap dst ((if dst \<noteq> [] then '','' else []) @ name_of fes f)")
  have "length d \<le> length dst + 9" using d Cons.prems by (auto simp: put_def min_def split: if_splits)
  then show ?case using Cons.IH [of d] Cons.prems d by (auto simp: Let_def)
qed simp

lemma normalise_length: "normalise cmd cap = Some buf \<Longrightarrow> length buf < cap"
  by (auto simp: normalise_def Let_def split: option.splits if_splits)

text \<open>What the bounds of the answers rest on: short names, few grammars, a version and error names of
  ESP-IDF, and bit rates of 32 bits.\<close>

definition ctrl_small :: "('r, 'd) ctrl_env \<Rightarrow> ('r, 'd) world \<Rightarrow> bool" where
  "ctrl_small en w \<longleftrightarrow> (\<forall>f. length (name_of (ct_fes en) f) \<le> 8) \<and> length (lw_frontends w) \<le> VIF_MAX_FRONTENDS \<and>
     length (ct_version en) \<le> 31 \<and> (\<forall>e. length (ct_err_name en e) \<le> 64) \<and>
     (\<forall>c \<in> set (vif_bus_info (lw_vif w)). fst (snd c) < 2 ^ 32)"

lemma reply_grows: "length s < cap \<Longrightarrow> reply (cap + n) s = reply cap s"
  by (simp add: reply_whole)

lemma exec_whole:
  assumes "ctrl_small en w"
  shows "vif_ctrl_exec en cmd (VIF_CTRL_REPLY_MAX + n) w = vif_ctrl_exec en cmd VIF_CTRL_REPLY_MAX w"
proof -
  let ?cap = "VIF_CTRL_REPLY_MAX"
  have modes: "length (mode_list (ct_fes en) MODE_LIST_MAX w) \<le> 36"
    using mode_loop_names [of "lw_frontends w" "ct_fes en" MODE_LIST_MAX "[]"] assms
    by (simp add: mode_list_def ctrl_small_def VIF_MAX_FRONTENDS_def)
  have mode: "length (link_mode en w) \<le> 8"
    using assms by (auto simp: link_mode_def vif_link_frontend_name_def ctrl_small_def name_of_def split: option.splits)
  have id: "cmd_id en (?cap + n) w = cmd_id en ?cap w" unfolding cmd_id_def
    by (rule reply_grows) (use modes mode assms in \<open>simp add: ctrl_small_def VIF_CTRL_REPLY_MAX_def OPENDIAG_PRODUCT_def
      OPENDIAG_HARDWARE_def vif_owner_name_def\<close>)
  have "bus_loop_text c (vif_bus_info (lw_vif w)) ''BUS'' = ''BUS'' @ concat (map bus_text (vif_bus_info (lw_vif w)))"
    if "?cap \<le> c" for c
    by (rule bus_loop_whole) (use assms that in \<open>auto simp: ctrl_small_def vif_bus_info_def VIF_CTRL_REPLY_MAX_def\<close>)
  then have bus: "cmd_bus (?cap + n) w = cmd_bus ?cap w" by (simp add: cmd_bus_def VIF_CTRL_REPLY_MAX_def)
  have set: "cmd_mode_set en nm (?cap + n) w = cmd_mode_set en nm ?cap w" if "length nm \<le> 42" for nm
  proof (cases "vif_frontend_find (ct_fes en) (Some nm) w")
    case None
    have "reply (?cap + n) (''ERR no mode '' @ [CHR 0x27] @ nm @ [CHR 0x27] @ ''; have '' @ mode_list (ct_fes en) MODE_LIST_MAX w) =
        reply ?cap (''ERR no mode '' @ [CHR 0x27] @ nm @ [CHR 0x27] @ ''; have '' @ mode_list (ct_fes en) MODE_LIST_MAX w)"
      by (rule reply_grows) (use that modes in \<open>simp add: VIF_CTRL_REPLY_MAX_def\<close>)
    then show ?thesis by (simp only: cmd_mode_set_def None option.case)
  next
    case (Some f)
    have "length (name_of (ct_fes en) f) \<le> 8" using assms by (simp add: ctrl_small_def)
    then have "reply (?cap + n) (''MODE '' @ name_of (ct_fes en) f) = reply ?cap (''MODE '' @ name_of (ct_fes en) f)"
      by (intro reply_grows) (simp add: VIF_CTRL_REPLY_MAX_def)
    then show ?thesis by (simp only: cmd_mode_set_def Some option.case)
  qed
  have err: "reply (?cap + n) (''ERR bus close failed: '' @ ct_err_name en x) = reply ?cap (''ERR bus close failed: '' @ ct_err_name en x)" for x
  proof (rule reply_grows)
    have "length (ct_err_name en x) \<le> 64" using assms by (simp add: ctrl_small_def)
    then show "length (''ERR bus close failed: '' @ ct_err_name en x) < ?cap" by (simp add: VIF_CTRL_REPLY_MAX_def)
  qed
  have named: "reply (?cap + n) (''RESET '' @ name_of (ct_fes en) f) = reply ?cap (''RESET '' @ name_of (ct_fes en) f)" for f
  proof (rule reply_grows)
    have "length (name_of (ct_fes en) f) \<le> 8" using assms by (simp add: ctrl_small_def)
    then show "length (''RESET '' @ name_of (ct_fes en) f) < ?cap" by (simp add: VIF_CTRL_REPLY_MAX_def)
  qed
  have reset: "cmd_reset en (?cap + n) w = cmd_reset en ?cap w" unfolding cmd_reset_def err named ..
  have current: "reply (?cap + n) (''MODE '' @ link_mode en w) = reply ?cap (''MODE '' @ link_mode en w)"
    by (rule reply_grows) (use mode in \<open>simp add: VIF_CTRL_REPLY_MAX_def\<close>)
  have empty: "reply (?cap + n) ''ERR empty'' = reply ?cap ''ERR empty''"
    by (rule reply_grows) (simp add: VIF_CTRL_REPLY_MAX_def)
  show ?thesis
  proof (cases "normalise cmd CTRL_CMD_MAX")
    case None
    then show ?thesis using empty by (simp add: vif_ctrl_exec_def VIF_CTRL_REPLY_MAX_def)
  next
    case (Some buf)
    let ?buf = "takeWhile (\<lambda>c. c \<noteq> CHR 0x00) buf"
    have len: "length ?buf < 48" using normalise_length [OF Some] length_takeWhile_le [of "\<lambda>c. c \<noteq> CHR 0x00" buf]
      by (simp add: CTRL_CMD_MAX_def)
    then have unknown: "reply (?cap + n) (''ERR unknown '' @ [CHR 0x27] @ ?buf @ [CHR 0x27]) =
        reply ?cap (''ERR unknown '' @ [CHR 0x27] @ ?buf @ [CHR 0x27])"
      by (intro reply_grows) (simp add: VIF_CTRL_REPLY_MAX_def)
    have "length (drop 5 ?buf) \<le> 42" using len by simp
    note set = set [OF this]
    have "?cap + n \<noteq> 0" "?cap \<noteq> 0" by (simp_all add: VIF_CTRL_REPLY_MAX_def)
    then show ?thesis by (simp only: vif_ctrl_exec_def Some Let_def option.case id bus set reset current unknown if_False)
  qed
qed

text \<open>An answer of the control plane always fits its buffer, terminator included. With a buffer of the
  documented size, and as many grammars, with names as long, as the firmware has room for, it is the
  whole answer: a larger buffer would hold the same text, and the command would do the same.\<close>

theorem ctrl_answer_fits:
  assumes "vif_ctrl_exec en cmd cap w = Some (w', out, ok)" "0 < cap"
  shows "length out < cap \<and>
    (cap = VIF_CTRL_REPLY_MAX \<and> ctrl_small en w \<longrightarrow> vif_ctrl_exec en cmd (cap + n) w = Some (w', out, ok))"
proof -
  have r: "length (reply cap s) < cap" for s using reply_fits [of cap s] assms(2) by simp
  have id: "length (cmd_id en cap w) < cap" unfolding cmd_id_def by (rule r)
  have bus: "length (cmd_bus cap w) < cap" using assms(2) bus_loop_fits [of "''BUS''" cap] by (simp add: cmd_bus_def)
  have mode: "length (fst (snd (cmd_mode_set en nm cap w))) < cap" for nm using r by (simp add: cmd_mode_set_def split: option.split)
  have reset: "length out < cap" if "cmd_reset en cap w = Some (w', out, ok)"
    using that r by (auto simp: cmd_reset_def Let_def bind_eq_Some_conv split: if_splits prod.splits)
  have "length out < cap"
  proof (cases "normalise cmd CTRL_CMD_MAX")
    case None
    then show ?thesis using assms r by (auto simp: vif_ctrl_exec_def)
  next
    case (Some buf)
    show ?thesis using assms reset r id bus mode [of "drop 5 (takeWhile (\<lambda>c. c \<noteq> CHR 0x00) buf)"]
      by (auto simp: vif_ctrl_exec_def Some Let_def split: if_splits)
  qed
  moreover have "vif_ctrl_exec en cmd (cap + n) w = Some (w', out, ok)" if "cap = VIF_CTRL_REPLY_MAX" "ctrl_small en w"
    using exec_whole [OF that(2)] assms(1) that(1) by simp
  ultimately show ?thesis by blast
qed

section \<open>Changing the grammar\<close>

lemma lower_upper: "to_lower (to_upper c) = to_lower c"
proof (cases "97 \<le> (of_char c :: nat) \<and> (of_char c :: nat) \<le> 122")
  case True
  define n where "n = (of_char c :: nat)"
  have n: "97 \<le> n" "n \<le> 122" using True by (simp_all add: n_def)
  have c: "c = char_of n" by (simp add: n_def)
  have o: "of_char (char_of (n - 32) :: char) = n - 32" "of_char (char_of n :: char) = n"
    using n by (simp_all add: of_char_of)
  have "65 \<le> n - 32 \<and> n - 32 \<le> 90 \<and> n - 32 + 32 = n" using n by arith
  then show ?thesis using n o unfolding c to_upper_def to_lower_def Let_def by simp
next
  case False
  then have "to_upper c = c" unfolding to_upper_def by (rule if_not_P)
  then show ?thesis by simp
qed

lemma upper_trailing: "ctrl_trailing (to_upper c) \<longleftrightarrow> ctrl_trailing c" "to_upper c = CHR 0x00 \<longleftrightarrow> c = CHR 0x00"
    "to_upper c = CHR '' '' \<longleftrightarrow> c = CHR '' ''"
  by (auto simp: to_upper_def dest: arg_cong [where f = "of_char :: char \<Rightarrow> nat"])

lemma upper_idem: "to_upper (to_upper c) = to_upper c"
  by (auto simp: to_upper_def of_char_of)

lemma trim_behind:
  assumes "\<forall>x \<in> set behind. P x" "c \<noteq> []" "\<not> P (last c)"
  shows "rev (dropWhile P (rev (a @ c @ behind))) = a @ c"
proof -
  have "dropWhile P (rev behind @ rev c @ rev a) = dropWhile P (rev c @ rev a)"
    by (rule dropWhile_append2) (use assms(1) in simp)
  also have "\<dots> = rev c @ rev a" using assms(2,3) by (cases c rule: rev_cases) simp_all
  finally show ?thesis by simp
qed

lemma trim_before:
  assumes "c \<noteq> []" "hd c \<noteq> x"
  shows "dropWhile (\<lambda>c. c = x) (replicate k x @ c) = c"
proof -
  have "dropWhile (\<lambda>c. c = x) (replicate k x @ c) = dropWhile (\<lambda>c. c = x) c" by (rule dropWhile_append2) simp
  then show ?thesis using assms by (cases c) simp_all
qed

text \<open>A command to change the grammar of the link is carried out however it is spelled: in upper or lower
  case, with blanks before it and blanks and line ends behind it, as long as it fits 48 bytes with its
  terminator. It asks for the registered grammar of that name, changes nothing else, and answers with
  the name the grammar was registered by.\<close>

theorem ctrl_mode_selects:
  assumes "vif_frontend_find (ct_fes en) (Some n) w = Some f" "n \<noteq> []" "\<not> ctrl_trailing (last n)" "CHR 0x00 \<notin> set n"
    "map to_upper c = map to_upper (''MODE='' @ n)" "\<forall>x \<in> set behind. ctrl_trailing x" "length c < CTRL_CMD_MAX" "0 < cap"
  shows "vif_ctrl_exec en (Some (replicate blanks (CHR '' '') @ c @ behind)) cap w =
    Some (vif_link_set_frontend (Some f) w, reply cap (''MODE '' @ name_of (ct_fes en) f), True)"
proof -
  let ?up = "map to_upper (''MODE='' @ n)"
  have c: "c \<noteq> []" using assms(5) by auto
  have "to_upper (last c) = last (map to_upper c)" using c by (simp add: last_map)
  also have "\<dots> = to_upper (last n)" unfolding assms(5) using assms(2) by (simp add: last_map)
  finally have "to_upper (last c) = to_upper (last n)" .
  with upper_trailing(1) [of "last c"] upper_trailing(1) [of "last n"] assms(3) have l: "\<not> ctrl_trailing (last c)" by simp
  have "to_upper (hd c) = to_upper (CHR ''M'')" using c assms(5) by (cases c) simp_all
  moreover have "to_upper (CHR ''M'') \<noteq> CHR '' ''" by code_simp
  ultimately have h: "hd c \<noteq> CHR '' ''" using upper_trailing(3) [of "hd c"] by simp
  have behind: "rev (dropWhile ctrl_trailing (rev (replicate blanks (CHR '' '') @ c @ behind))) = replicate blanks (CHR '' '') @ c"
    by (rule trim_behind [OF assms(6) c l])
  have front: "dropWhile (\<lambda>c. c = CHR '' '') (replicate blanks (CHR '' '') @ c) = c"
    by (rule trim_before [OF c h])
  have norm: "normalise (Some (replicate blanks (CHR '' '') @ c @ behind)) CTRL_CMD_MAX = Some ?up"
    unfolding normalise_def option.case Let_def behind front using c assms(5,7) by simp
  have zero: "takeWhile (\<lambda>c. c \<noteq> CHR 0x00) ?up = ?up"
    using assms(4) upper_trailing(2) by (auto simp: takeWhile_eq_all_conv)
  have up: "?up = ''MODE='' @ map to_upper n" unfolding map_append by (rule arg_cong [where f = "\<lambda>x. x @ _"]) code_simp
  have find: "vif_frontend_find (ct_fes en) (Some (map to_upper n)) w = Some f"
    using assms(1) by (simp add: vif_frontend_find_def strcasecmp_eq_def comp_def lower_upper)
  show ?thesis unfolding vif_ctrl_exec_def norm option.case Let_def zero unfolding up
    using assms(8) find by (simp add: cmd_mode_set_def)
qed

text \<open>The console's line for the second grammar, in lower case.\<close>

definition ctrl_sample :: "(byte list \<times> bool, nat) ctrl_env" where
  "ctrl_sample = \<lparr>ct_fes = two_frontends, ct_vif = quiet_env, ct_me = 1, ct_version = ''1.0'', ct_err_name = (\<lambda>_. ''ESP_FAIL'')\<rparr>"

lemma ctrl_mode_selects_witness:
  "\<exists>w'. vif_ctrl_exec ctrl_sample (Some ('' mode=slcan'' @ [CHR 0x0D, CHR 0x0A])) 128 link_idle = Some (w', ''MODE slcan'', True) \<and>
     lw_fe_next w' = Some 1 \<and> lw_fe_switch w'"
proof -
  have find: "vif_frontend_find (ct_fes ctrl_sample) (Some ''slcan'') link_idle = Some 1" by code_simp
  have "map to_upper ''mode=slcan'' = map to_upper (''MODE='' @ ''slcan'')" by code_simp
  from ctrl_mode_selects [OF find _ _ _ this, of "[CHR 0x0D, CHR 0x0A]" 128 1]
  have r: "vif_ctrl_exec ctrl_sample (Some ('' mode=slcan'' @ [CHR 0x0D, CHR 0x0A])) 128 link_idle =
      Some (vif_link_set_frontend (Some 1) link_idle, reply 128 (''MODE '' @ name_of (ct_fes ctrl_sample) 1), True)"
    by (simp add: CTRL_CMD_MAX_def)
  moreover have "reply 128 (''MODE '' @ name_of (ct_fes ctrl_sample) 1) = ''MODE slcan''" by code_simp
  ultimately show ?thesis by (simp add: vif_link_set_frontend_def)
qed

lemma ctrl_answer_fits_witness:
  "\<exists>out. vif_ctrl_exec ctrl_sample (Some ''id'') 128 link_idle = Some (link_idle, out, True) \<and>
     vif_ctrl_exec ctrl_sample (Some ''id'') (128 + 64) link_idle = Some (link_idle, out, True) \<and> length out < 128"
proof -
  have "normalise (Some ''id'') CTRL_CMD_MAX = Some ''ID''" by code_simp
  then obtain out where r: "vif_ctrl_exec ctrl_sample (Some ''id'') VIF_CTRL_REPLY_MAX link_idle = Some (link_idle, out, True)"
    by (simp add: vif_ctrl_exec_def VIF_CTRL_REPLY_MAX_def)
  have small: "ctrl_small ctrl_sample link_idle"
    by (auto simp: ctrl_small_def ctrl_sample_def name_of_def two_frontends_def link_idle_def VIF_MAX_FRONTENDS_def vif_bus_info_def
        vif_start_def claim_zero_def)
  show ?thesis using ctrl_answer_fits [OF r, of 64] r small by (auto simp: VIF_CTRL_REPLY_MAX_def)
qed

end
