(* ===== verification/Slcan.thy ===== *)
theory Slcan
  imports Vif IsoTp
begin

text \<open>
The LAWICEL serial CAN grammar of \<open>main/slcan.c\<close>, with the hexadecimal parsers of
  \<open>main/utility.c\<close> and the frame calls of \<open>main/can_xfer.h\<close>. The static context is the record
  \<open>slcan\<close>, whose buffers are lists of their fixed sizes and whose last two fields stand for the
  vehicle interface of \<open>Vif\<close> and for what was handed to the link. A C \<open>char\<close> is a HOL \<open>char\<close>.
  \<open>None\<close> is a read or write outside a buffer.
  The lemmas: one answer per command line however the input is cut, a received frame printed and
  parsed is the same frame, and a poll loses nothing.
\<close>

section \<open>Hexadecimal\<close>

abbreviation NUL :: char where "NUL \<equiv> CHR 0x00"
abbreviation CR :: char where "CR \<equiv> CHR 0x0D"
abbreviation BEL :: char where "BEL \<equiv> CHR 0x07"

definition hexval :: string where "hexval = ''0123456789ABCDEF''"

definition hex_char_to_int :: "char \<Rightarrow> int" where
  "hex_char_to_int c =
     (let n = (of_char c :: int) in
      if 48 \<le> n \<and> n \<le> 57 then n - 48
      else if 97 \<le> n \<and> n \<le> 102 then n - 97 + 10
      else if 65 \<le> n \<and> n \<le> 70 then n - 65 + 10
      else -1)"

text \<open>
  The parsers read \<open>hex_str[i]\<close>; a read outside the memory the pointer leads to is \<open>None\<close>. Inside,
  \<open>None\<close> is the return value -1. The loops are by recursion on the characters left.
\<close>

fun u8_array_loop :: "string \<Rightarrow> nat \<Rightarrow> nat \<Rightarrow> byte list \<Rightarrow> nat \<Rightarrow> (int \<times> byte list) option" where
  "u8_array_loop hex_str i (Suc (Suc len)) output_array byte_count = do {
     c \<leftarrow> get_at hex_str i;
     if hex_char_to_int c < 0 then Some (-1, output_array)
     else do {
       d \<leftarrow> get_at hex_str (i + 1);
       if hex_char_to_int d < 0 then Some (-1, output_array)
       else do {
         output_array \<leftarrow> set_at output_array byte_count
           (push_bit 4 (word_of_int (hex_char_to_int c)) OR word_of_int (hex_char_to_int d));
         u8_array_loop hex_str (i + 2) len output_array (byte_count + 1)
       }
     }
   }"
| "u8_array_loop hex_str i len output_array byte_count = Some (int byte_count, output_array)"

definition hex_string_to_u8_array :: "string \<Rightarrow> nat \<Rightarrow> byte list \<Rightarrow> (int \<times> byte list) option" where
  "hex_string_to_u8_array hex_str len output_array =
     (if len div 2 > length output_array then Some (-2, output_array)
      else u8_array_loop hex_str 0 len output_array 0)"

fun u32_be_loop :: "string \<Rightarrow> nat \<Rightarrow> nat \<Rightarrow> u32w \<Rightarrow> u32w option option" where
  "u32_be_loop hex_str i 0 val = Some (Some val)"
| "u32_be_loop hex_str i (Suc len) val = do {
     c \<leftarrow> get_at hex_str i;
     if hex_char_to_int c < 0 then Some None
     else u32_be_loop hex_str (i + 1) len (push_bit 4 val OR word_of_int (hex_char_to_int c))
   }"

definition hex_string_to_u32_be :: "string \<Rightarrow> nat \<Rightarrow> u32w option option" where
  "hex_string_to_u32_be hex_str len = (if len > 8 then Some None else u32_be_loop hex_str 0 len 0)"

text \<open>\<open>strlen\<close> faults in memory without a terminator.\<close>

definition strlen :: "string \<Rightarrow> nat option" where
  "strlen s = (if NUL \<in> set s then Some (length (takeWhile (\<lambda>c. c \<noteq> NUL) s)) else None)"

section \<open>Frames\<close>

definition can_frame_send :: "'d vif_env \<Rightarrow> nat \<Rightarrow> can_frame \<Rightarrow> vif \<times> 'd \<Rightarrow> (vif \<times> 'd) \<times> int" where
  "can_frame_send ev me f = vif_bus_send ev me VIF_OWNER_LINK VIF_BUS_CAN
     (Some (bus_msg_tx (can_data f) (can_dlc f) (can_id f))) 0"

definition BUS_ERR_TX_ABORTED :: int where "BUS_ERR_TX_ABORTED = -12"

definition can_frame_send_confirmed ::
  "'d vif_env \<Rightarrow> nat \<Rightarrow> can_frame \<Rightarrow> vif \<times> 'd \<Rightarrow> (vif \<times> 'd) \<times> int" where
  "can_frame_send_confirmed ev me f gd =
     (let (gd, ret) = vif_bus_send ev me VIF_OWNER_LINK VIF_BUS_CAN
            (Some (bus_msg_tx (can_data f) (can_dlc f) (can_id f))) BUS_TX_WAIT_DONE gd;
          gd = (if ret = BUS_ERR_TX_ABORTED then fst (vif_bus_close ev me VIF_OWNER_LINK VIF_BUS_CAN gd) else gd)
      in (gd, ret))"

text \<open>The frame's eight bytes are zeroed and then the driver's to write.\<close>

definition can_frame_recv :: "'d vif_env \<Rightarrow> nat \<Rightarrow> nat \<Rightarrow> vif \<times> 'd \<Rightarrow> (vif \<times> 'd) \<times> int \<times> can_frame option" where
  "can_frame_recv ev me wait gd =
     (case vif_bus_recv ev me VIF_OWNER_LINK VIF_BUS_CAN 8 wait gd of
        (gd, rc, None) \<Rightarrow> (gd, rc, None)
      | (gd, rc, Some msg) \<Rightarrow>
          if rc < 0 then (gd, rc, None)
          else (gd, 0, Some \<lparr>can_id = bm_id msg, can_dlc = u8 (bm_len msg),
            can_data = take 8 (bm_data msg @ replicate 8 0)\<rparr>))"

section \<open>State and output\<close>

definition SLCAN_CMD_MAX :: nat where "SLCAN_CMD_MAX = 32"
definition SLCAN_RX_BURST :: nat where "SLCAN_RX_BURST = 32"
definition SLCAN_LINE_MAX :: nat where "SLCAN_LINE_MAX = 27"
definition SLCAN_TX_BUF :: nat where "SLCAN_TX_BUF = 512"

datatype link_op = LinkWrite string | LinkFlush

record 'd slcan =
  sl_bitrate :: nat
  sl_cmdbuf :: string
  sl_cmdidx :: nat
  sl_discard :: bool
  sl_txbuf :: string
  sl_txlen :: nat
  sl_vif :: "vif \<times> 'd"
  sl_link :: "link_op list"

definition slcan_flush :: "'d slcan \<Rightarrow> 'd slcan option" where
  "slcan_flush c = do {
     c \<leftarrow> (if sl_txlen c \<noteq> 0 then do {
         s \<leftarrow> load_at (sl_txbuf c) 0 (sl_txlen c);
         Some (c\<lparr>sl_link := sl_link c @ [LinkWrite s], sl_txlen := 0\<rparr>)
       } else Some c);
     Some (c\<lparr>sl_link := sl_link c @ [LinkFlush]\<rparr>)
   }"

definition slcan_write :: "string \<Rightarrow> 'd slcan \<Rightarrow> 'd slcan option" where
  "slcan_write s c =
     (if length s > SLCAN_TX_BUF then Some c
      else do {
        c \<leftarrow> (if length s > sub32 SLCAN_TX_BUF (sl_txlen c) then slcan_flush c else Some c);
        buf \<leftarrow> store_at (sl_txbuf c) (sl_txlen c) s;
        Some (c\<lparr>sl_txbuf := buf, sl_txlen := sl_txlen c + length s\<rparr>)
      })"

definition slcan_ack :: "'d slcan \<Rightarrow> 'd slcan option" where "slcan_ack = slcan_write [CR]"
definition slcan_nack :: "'d slcan \<Rightarrow> 'd slcan option" where "slcan_nack = slcan_write [BEL]"
definition slcan_reply_str :: "string \<Rightarrow> 'd slcan \<Rightarrow> 'd slcan option" where "slcan_reply_str s = slcan_write s"

section \<open>Commands\<close>

definition slcan_is_open :: "'d slcan \<Rightarrow> bool" where
  "slcan_is_open c = vif_bus_is_open VIF_OWNER_LINK VIF_BUS_CAN (fst (sl_vif c))"

definition slcan_bitrate :: "char \<Rightarrow> nat" where
  "slcan_bitrate digit =
     (if digit = CHR ''2'' then 50000 else if digit = CHR ''4'' then 125000
      else if digit = CHR ''5'' then 250000 else if digit = CHR ''6'' then 500000
      else if digit = CHR ''8'' then 1000000 else 0)"

definition slcan_parse_frame :: "string \<Rightarrow> bool \<Rightarrow> bool \<Rightarrow> can_frame option option" where
  "slcan_parse_frame buf rtr ext =
     (let id_len = (if ext then 8 else 3) in do {
        len \<leftarrow> strlen buf;
        if len < id_len + 2 then Some None
        else do {
          i \<leftarrow> hex_string_to_u32_be (drop 1 buf) id_len;
          case i of
            None \<Rightarrow> Some None
          | Some i \<Rightarrow> do {
              c \<leftarrow> get_at buf (1 + id_len);
              let dlc = hex_char_to_int c in
              if dlc < 0 \<or> dlc > 8 then Some None
              else
                let i = (if ext then (i AND CAN_EFF_MASK) OR CAN_EFF_FLAG else i AND CAN_SFF_MASK);
                    i = (if rtr then i OR CAN_RTR_FLAG else i);
                    f = \<lparr>can_id = i, can_dlc = nat dlc, can_data = replicate 8 0\<rparr>;
                    payload = drop (2 + id_len) buf
                in if rtr then Some (Some f)
                   else do {
                     plen \<leftarrow> strlen payload;
                     if plen < nat dlc * 2 then Some None
                     else do {
                       (rc, bytes) \<leftarrow> hex_string_to_u8_array payload (nat dlc * 2) (can_data f);
                       if rc \<noteq> dlc then Some None else Some (Some (f\<lparr>can_data := bytes\<rparr>))
                     }
                   }
            }
        }
      })"

definition slcan_send_frame :: "'d vif_env \<Rightarrow> nat \<Rightarrow> string \<Rightarrow> bool \<Rightarrow> bool \<Rightarrow> 'd slcan \<Rightarrow> 'd slcan option" where
  "slcan_send_frame ev me buf rtr ext c =
     (if \<not> slcan_is_open c then slcan_nack c
      else do {
        frame \<leftarrow> slcan_parse_frame buf rtr ext;
        case frame of
          None \<Rightarrow> slcan_nack c
        | Some frame \<Rightarrow>
            let (gd, rc) = can_frame_send ev me frame (sl_vif c);
                c = c\<lparr>sl_vif := gd\<rparr>
            in if rc \<noteq> 0 then slcan_nack c else slcan_ack c
      })"

definition slcan_open_bus :: "'d vif_env \<Rightarrow> nat \<Rightarrow> 'd slcan \<Rightarrow> 'd slcan option" where
  "slcan_open_bus ev me c =
     (if slcan_is_open c then slcan_ack c
      else
        let (gd, err) = vif_bus_open ev me VIF_OWNER_LINK VIF_BUS_CAN (Some \<lparr>bc_bitrate = sl_bitrate c, bc_manual_recovery = False\<rparr>) (sl_vif c);
            c = c\<lparr>sl_vif := gd\<rparr>
        in if err \<noteq> ESP_OK then slcan_nack c else slcan_ack c)"

definition slcan_close_bus :: "'d vif_env \<Rightarrow> nat \<Rightarrow> 'd slcan \<Rightarrow> 'd slcan option" where
  "slcan_close_bus ev me c =
     (if vif_bus_current VIF_OWNER_LINK VIF_BUS_CAN (fst (sl_vif c)) = VIF_BUS_CAN
      then
        let (gd, err) = vif_bus_close ev me VIF_OWNER_LINK VIF_BUS_CAN (sl_vif c);
            c = c\<lparr>sl_vif := gd\<rparr>
        in if err \<noteq> ESP_OK then slcan_nack c else slcan_ack c
      else slcan_ack c)"

definition slcan_parse_command :: "'d vif_env \<Rightarrow> nat \<Rightarrow> string \<Rightarrow> 'd slcan \<Rightarrow> 'd slcan option" where
  "slcan_parse_command ev me buf c = do {
     cmd \<leftarrow> get_at buf 0;
     if cmd = CHR ''O'' then slcan_open_bus ev me c
     else if cmd = CHR ''C'' then slcan_close_bus ev me c
     else if cmd = CHR ''t'' then slcan_send_frame ev me buf False False c
     else if cmd = CHR ''T'' then slcan_send_frame ev me buf False True c
     else if cmd = CHR ''r'' then slcan_send_frame ev me buf True False c
     else if cmd = CHR ''R'' then slcan_send_frame ev me buf True True c
     else if cmd = CHR ''S'' then do {
       digit \<leftarrow> get_at buf 1;
       let rate = slcan_bitrate digit in
       if rate = 0 then slcan_nack c
       else
         let c = c\<lparr>sl_bitrate := rate\<rparr> in
         if slcan_is_open c
         then
           let (gd, err) = vif_bus_open ev me VIF_OWNER_LINK VIF_BUS_CAN (Some \<lparr>bc_bitrate = rate, bc_manual_recovery = False\<rparr>) (sl_vif c);
               c = c\<lparr>sl_vif := gd\<rparr>
           in if err \<noteq> ESP_OK then slcan_nack c else slcan_ack c
         else slcan_ack c
     }
     else if cmd = CHR ''M'' \<or> cmd = CHR ''m'' then slcan_ack c
     else if cmd = CHR ''F'' then Option.bind (slcan_reply_str ''F00'' c) slcan_ack
     else if cmd = CHR ''V'' then Option.bind (slcan_reply_str ''V-082021'' c) slcan_ack
     else if cmd = CHR ''N'' then Option.bind (slcan_reply_str ''N2208'' c) slcan_ack
     else slcan_nack c
   }"

section \<open>Received frames and the front-end\<close>

definition hex_digit :: "nat \<Rightarrow> char" where "hex_digit n = hexval ! (n mod 16)"

text \<open>\<open>buf[pos++] = c\<close> appends to the line.\<close>

definition slcan_line :: "can_frame \<Rightarrow> string" where
  "slcan_line f =
     (let i = can_id f; rtr = (i AND CAN_RTR_FLAG \<noteq> 0);
          line = (if i AND CAN_EFF_FLAG \<noteq> 0
            then (if rtr then CHR ''R'' else CHR ''T'') #
              map (\<lambda>shift. hex_digit (unat (drop_bit shift (i AND CAN_EFF_MASK) AND 0xf)))
                [28, 24, 20, 16, 12, 8, 4, 0]
            else (if rtr then CHR ''r'' else CHR ''t'') #
              map (\<lambda>shift. hex_digit (unat (drop_bit shift (i AND CAN_SFF_MASK) AND 0xf))) [8, 4, 0]);
          line = line @ [hex_digit (can_dlc f mod 16)];
          line = (if \<not> rtr
            then line @ concat (map (\<lambda>i. [hex_digit (unat (drop_bit 4 (can_data f ! i))),
              hex_digit (unat (can_data f ! i AND 0xf))]) [0..<min (can_dlc f) 8])
            else line)
      in line @ [CR])"

definition slcan_print_frame :: "can_frame \<Rightarrow> 'd slcan \<Rightarrow> 'd slcan option" where
  "slcan_print_frame f c =
     (if length (slcan_line f) > SLCAN_LINE_MAX then None else slcan_write (slcan_line f) c)"

definition slcan_fe_start :: "'d slcan \<Rightarrow> 'd slcan" where
  "slcan_fe_start c = c\<lparr>sl_bitrate := 500000, sl_cmdbuf := replicate SLCAN_CMD_MAX NUL, sl_cmdidx := 0,
     sl_discard := False, sl_txbuf := replicate SLCAN_TX_BUF NUL, sl_txlen := 0\<rparr>"

definition feed_char :: "'d vif_env \<Rightarrow> nat \<Rightarrow> 'd slcan \<Rightarrow> char \<Rightarrow> 'd slcan option" where
  "feed_char ev me c val =
     (if val = CR then do {
        c \<leftarrow> (if sl_discard c then slcan_nack (c\<lparr>sl_discard := False\<rparr>)
           else if sl_cmdidx c > 0 then do {
             buf \<leftarrow> set_at (sl_cmdbuf c) (sl_cmdidx c) NUL;
             slcan_parse_command ev me buf (c\<lparr>sl_cmdbuf := buf\<rparr>)
           } else Some c);
        slcan_flush (c\<lparr>sl_cmdidx := 0\<rparr>)
      }
      else if sl_discard c then Some c
      else do {
        buf \<leftarrow> set_at (sl_cmdbuf c) (sl_cmdidx c) val;
        let c = c\<lparr>sl_cmdbuf := buf, sl_cmdidx := sl_cmdidx c + 1\<rparr> in
        if sl_cmdidx c = SLCAN_CMD_MAX - 1 then Some (c\<lparr>sl_discard := True, sl_cmdidx := 0\<rparr>)
        else Some c
      })"

definition slcan_fe_feed :: "'d vif_env \<Rightarrow> nat \<Rightarrow> 'd slcan \<Rightarrow> string \<Rightarrow> 'd slcan option" where
  "slcan_fe_feed ev me = fold_opt (feed_char ev me)"

fun poll_loop :: "'d vif_env \<Rightarrow> nat \<Rightarrow> nat \<Rightarrow> nat \<Rightarrow> 'd slcan \<Rightarrow> ('d slcan \<times> nat) option" where
  "poll_loop ev me 0 forwarded c = Some (c, forwarded)"
| "poll_loop ev me (Suc n) forwarded c = (case can_frame_recv ev me 0 (sl_vif c) of
       (gd, rc, Some frame) \<Rightarrow>
         if rc = 0 then do {
           c \<leftarrow> slcan_print_frame frame (c\<lparr>sl_vif := gd\<rparr>);
           poll_loop ev me n (forwarded + 1) c
         } else Some (c\<lparr>sl_vif := gd\<rparr>, forwarded)
     | (gd, rc, None) \<Rightarrow> Some (c\<lparr>sl_vif := gd\<rparr>, forwarded))"

definition slcan_fe_poll :: "'d vif_env \<Rightarrow> nat \<Rightarrow> 'd slcan \<Rightarrow> 'd slcan option" where
  "slcan_fe_poll ev me c =
     (if \<not> slcan_is_open c then Some c
      else do {
        (c, forwarded) \<leftarrow> poll_loop ev me SLCAN_RX_BURST 0 c;
        if forwarded > 0 then slcan_flush c else Some c
      })"

definition slcan_fe_stop :: "'d slcan \<Rightarrow> 'd slcan option" where "slcan_fe_stop = slcan_flush"

section \<open>Output\<close>

text \<open>Everything said so far, sent or still composed.\<close>

definition written :: "link_op list \<Rightarrow> string" where
  "written ops = concat (map (\<lambda>x. case x of LinkWrite s \<Rightarrow> s | LinkFlush \<Rightarrow> []) ops)"

lemma written_simps [simp]:
  "written [] = []" "written (xs @ ys) = written xs @ written ys"
  "written (LinkWrite s # xs) = s @ written xs" "written (LinkFlush # xs) = written xs"
  by (simp_all add: written_def)

definition said :: "'d slcan \<Rightarrow> string" where
  "said c = written (sl_link c) @ take (sl_txlen c) (sl_txbuf c)"

definition tx_ok :: "'d slcan \<Rightarrow> bool" where
  "tx_ok c \<longleftrightarrow> length (sl_txbuf c) = SLCAN_TX_BUF \<and> sl_txlen c \<le> SLCAN_TX_BUF"

text \<open>\<open>says c s c'\<close>: only the output side of the state changes, and what is added is \<open>s\<close>.\<close>

definition says :: "'d slcan \<Rightarrow> string \<Rightarrow> 'd slcan \<Rightarrow> bool" where
  "says c s c' \<longleftrightarrow> tx_ok c' \<and> said c' = said c @ s \<and> sl_bitrate c' = sl_bitrate c \<and> sl_vif c' = sl_vif c \<and>
     sl_cmdbuf c' = sl_cmdbuf c \<and> sl_cmdidx c' = sl_cmdidx c \<and> sl_discard c' = sl_discard c"

lemma says_refl: "tx_ok c \<Longrightarrow> says c [] c"
  by (simp add: says_def)

lemma says_trans: "says c s c' \<Longrightarrow> says c' t c'' \<Longrightarrow> says c (s @ t) c''"
  by (simp add: says_def)

lemma says_tx_ok: "says c s c' \<Longrightarrow> tx_ok c'"
  by (simp add: says_def)

lemma flush_says:
  assumes "tx_ok c"
  shows "\<exists>c'. slcan_flush c = Some c' \<and> says c [] c' \<and> sl_txlen c' = 0"
  using assms by (auto simp: slcan_flush_def tx_ok_def says_def said_def SLCAN_TX_BUF_def)

lemma write_says:
  assumes "tx_ok c" "length s \<le> SLCAN_TX_BUF"
  shows "\<exists>c'. slcan_write s c = Some c' \<and> says c s c'"
proof -
  obtain c1 where c1: "(if length s > sub32 SLCAN_TX_BUF (sl_txlen c) then slcan_flush c else Some c) = Some c1"
    "says c [] c1" "length s + sl_txlen c1 \<le> SLCAN_TX_BUF"
  proof (cases "length s > sub32 SLCAN_TX_BUF (sl_txlen c)")
    case True
    with flush_says [OF assms(1)] assms(2) that show ?thesis by auto
  next
    case False
    with assms have "length s + sl_txlen c \<le> SLCAN_TX_BUF" unfolding tx_ok_def SLCAN_TX_BUF_def
      by (auto simp: not_less le_diff_conv2)
    with False that says_refl [OF assms(1)] show ?thesis by auto
  qed
  have len: "length (sl_txbuf c1) = SLCAN_TX_BUF" using says_tx_ok [OF c1(2)] by (simp add: tx_ok_def)
  let ?buf = "take (sl_txlen c1) (sl_txbuf c1) @ s @ drop (sl_txlen c1 + length s) (sl_txbuf c1)"
  have "slcan_write s c = Some (c1\<lparr>sl_txbuf := ?buf, sl_txlen := sl_txlen c1 + length s\<rparr>)"
    using assms(2) c1(1,3) len by (simp add: slcan_write_def)
  moreover have "says c1 s (c1\<lparr>sl_txbuf := ?buf, sl_txlen := sl_txlen c1 + length s\<rparr>)"
    using c1(3) len by (simp add: says_def tx_ok_def said_def)
  ultimately show ?thesis using says_trans [OF c1(2)] by force
qed

lemma short_replies: "length s \<le> 10 \<Longrightarrow> length s \<le> SLCAN_TX_BUF"
  by (simp add: SLCAN_TX_BUF_def)

lemma ack_says: "tx_ok c \<Longrightarrow> \<exists>c'. slcan_ack c = Some c' \<and> says c [CR] c'"
  and nack_says: "tx_ok c \<Longrightarrow> \<exists>c'. slcan_nack c = Some c' \<and> says c [BEL] c'"
  by (auto simp: slcan_ack_def slcan_nack_def SLCAN_TX_BUF_def intro!: write_says)

lemma reply_ack_says:
  assumes "tx_ok c" "length s \<le> 10"
  shows "\<exists>c'. Option.bind (slcan_reply_str s c) slcan_ack = Some c' \<and> says c (s @ [CR]) c'"
proof -
  obtain c1 where c1: "slcan_reply_str s c = Some c1" "says c s c1"
    using write_says [OF assms(1) short_replies [OF assms(2)]] by (auto simp: slcan_reply_str_def)
  obtain c2 where "slcan_ack c1 = Some c2" "says c1 [CR] c2" using ack_says [OF says_tx_ok [OF c1(2)]] by auto
  with c1 says_trans show ?thesis by fastforce
qed

section \<open>Parsing reads only the command\<close>

lemma u32_loop_append: "i + n \<le> length s \<Longrightarrow> u32_be_loop (s @ t) i n v = u32_be_loop s i n v"
  by (induction n arbitrary: i v) (auto simp: nth_append)

lemma u32_loop_defined: "i + n \<le> length s \<Longrightarrow> \<exists>r. u32_be_loop s i n v = Some r"
  by (induction n arbitrary: i v) auto

lemma u8_loop_append: "i + n \<le> length s \<Longrightarrow> u8_array_loop (s @ t) i n out k = u8_array_loop s i n out k"
  by (induction n arbitrary: i out k rule: induct_nat_012) (simp_all add: nth_append)

lemma u8_loop_defined:
  "i + n \<le> length s \<Longrightarrow> k + n div 2 \<le> length out \<Longrightarrow> \<exists>rc bs. u8_array_loop s i n out k = Some (rc, bs)"
  by (induction n arbitrary: i out k rule: induct_nat_012) simp_all

lemma strlen_Cons [simp]: "strlen (a # s) = (if a = NUL then Some 0 else map_option Suc (strlen s))"
  by (simp add: strlen_def)

lemma strlen_Nil [simp]: "strlen [] = None"
  by (simp add: strlen_def)

lemma strlen_le: "strlen s = Some n \<Longrightarrow> n < length s"
  by (induction s arbitrary: n) (auto split: if_splits)

lemma strlen_append: "strlen s = Some n \<Longrightarrow> strlen (s @ t) = Some n"
  by (induction s arbitrary: n) (auto split: if_splits)

lemma strlen_drop: "strlen s = Some n \<Longrightarrow> k \<le> n \<Longrightarrow> strlen (drop k s) = Some (n - k)"
proof (induction s arbitrary: n k)
  case Nil
  then show ?case by simp
next
  case (Cons a s)
  then show ?case by (cases k) (auto split: if_splits)
qed

lemma strlen_nul: "\<exists>n. strlen (s @ NUL # t) = Some n"
  by (induction s) auto

lemma u32_be_read:
  assumes "n \<le> length s" "n \<le> 8"
  shows "\<exists>r. hex_string_to_u32_be s n = Some r \<and> hex_string_to_u32_be (s @ t) n = Some r"
proof -
  have "u32_be_loop (s @ t) 0 n 0 = u32_be_loop s 0 n 0" using assms(1) by (intro u32_loop_append) simp
  moreover have "\<exists>r. u32_be_loop s 0 n 0 = Some r" using assms(1) by (intro u32_loop_defined) simp
  ultimately show ?thesis using assms(2) by (simp add: hex_string_to_u32_be_def)
qed

lemma u8_array_read:
  assumes "n \<le> length s" "n div 2 \<le> length out"
  shows "\<exists>rc bs. hex_string_to_u8_array s n out = Some (rc, bs) \<and> hex_string_to_u8_array (s @ t) n out = Some (rc, bs)"
proof -
  have "u8_array_loop (s @ t) 0 n out 0 = u8_array_loop s 0 n out 0" using assms(1) by (intro u8_loop_append) simp
  moreover have "\<exists>rc bs. u8_array_loop s 0 n out 0 = Some (rc, bs)" using assms by (intro u8_loop_defined) simp_all
  ultimately show ?thesis using assms(2) by (auto simp: hex_string_to_u8_array_def)
qed

text \<open>Parsing never reads past the terminator, whatever lies behind it.\<close>

lemma parse_frame_read:
  "\<exists>r. slcan_parse_frame (s @ [NUL]) rtr ext = Some r \<and> slcan_parse_frame (s @ NUL # t) rtr ext = Some r"
proof -
  define b where "b = s @ [NUL]"
  define w where "w = (if ext then 8 else 3 :: nat)"
  have full: "s @ NUL # t = b @ t" by (simp add: b_def)
  obtain n where n: "strlen b = Some n" using strlen_nul [of s "[]"] by (auto simp: b_def)
  note n' = strlen_append [OF n, of t]
  have "\<exists>r. slcan_parse_frame b rtr ext = Some r \<and> slcan_parse_frame (b @ t) rtr ext = Some r"
  proof (cases "n < w + 2")
    case True
    then show ?thesis unfolding slcan_parse_frame_def Let_def w_def [symmetric] n n' by simp
  next
    case False
    then have lw: "2 + w < length b" "w \<le> 8" using strlen_le [OF n] by (auto simp: w_def)
    then have d: "drop 1 (b @ t) = drop 1 b @ t" "drop (2 + w) (b @ t) = drop (2 + w) b @ t" by simp_all
    have w1: "w \<le> length (drop 1 b)" using lw(1) by simp
    obtain i where i: "hex_string_to_u32_be (drop 1 b) w = Some i" "hex_string_to_u32_be (drop 1 b @ t) w = Some i"
      using u32_be_read [OF w1 lw(2), of t] by blast
    have c: "get_at b (1 + w) = Some (b ! (1 + w))" "get_at (b @ t) (1 + w) = Some (b ! (1 + w))"
      using lw by (simp_all add: nth_append)
    have p: "strlen (drop (2 + w) b) = Some (n - (2 + w))" "strlen (drop (2 + w) b @ t) = Some (n - (2 + w))"
      using strlen_drop [OF n, of "2 + w"] strlen_append False by auto
    define dlc where "dlc = hex_char_to_int (b ! (1 + w))"
    define f :: can_frame where "f = \<lparr>can_id = (let i = (if ext then (the i AND CAN_EFF_MASK) OR CAN_EFF_FLAG
        else the i AND CAN_SFF_MASK) in if rtr then i OR CAN_RTR_FLAG else i),
      can_dlc = nat dlc, can_data = replicate 8 0\<rparr>"
    define rest where "rest = (\<lambda>payload. do {
        plen \<leftarrow> strlen payload;
        if plen < nat dlc * 2 then Some None
        else do {
          (rc, bytes) \<leftarrow> hex_string_to_u8_array payload (nat dlc * 2) (can_data f);
          if rc \<noteq> dlc then Some None else Some (Some (f\<lparr>can_data := bytes\<rparr>))
        }
      })"
    have eqs: "slcan_parse_frame b rtr ext = (case i of None \<Rightarrow> Some None
        | Some _ \<Rightarrow> if dlc < 0 \<or> dlc > 8 then Some None else if rtr then Some (Some f) else rest (drop (2 + w) b))"
      "slcan_parse_frame (b @ t) rtr ext = (case i of None \<Rightarrow> Some None
        | Some _ \<Rightarrow> if dlc < 0 \<or> dlc > 8 then Some None else if rtr then Some (Some f)
            else rest (drop (2 + w) b @ t))"
      unfolding slcan_parse_frame_def Let_def w_def [symmetric] n n' d i Option.bind.bind_lunit if_not_P [OF False]
      by (cases i; simp only: option.case c Option.bind.bind_lunit dlc_def [symmetric] f_def rest_def Let_def
          option.sel can_frame.select_convs)+
    have tail: "\<exists>r. rest (drop (2 + w) b) = Some r \<and> rest (drop (2 + w) b @ t) = Some r" if "\<not> (dlc < 0 \<or> dlc > 8)"
    proof (cases "n - (2 + w) < nat dlc * 2")
      case True
      then show ?thesis unfolding rest_def p by simp
    next
      case enough: False
      have l1: "nat dlc * 2 \<le> length (drop (2 + w) b)" using enough strlen_le [OF p(1)] by simp
      have "nat dlc \<le> 8" unfolding nat_le_iff using that by linarith
      then have l2: "nat dlc * 2 div 2 \<le> length (replicate 8 (0::byte))" by simp
      from u8_array_read [OF l1 l2, of t] obtain rc bs where a:
        "hex_string_to_u8_array (drop (2 + w) b) (nat dlc * 2) (replicate 8 0) = Some (rc, bs)"
        "hex_string_to_u8_array (drop (2 + w) b @ t) (nat dlc * 2) (replicate 8 0) = Some (rc, bs)"
        by blast
      have df: "can_data f = replicate 8 0" by (simp only: f_def can_frame.select_convs)
      show ?thesis unfolding rest_def p Option.bind.bind_lunit if_not_P [OF enough] df a case_prod_conv by simp
    qed
    show ?thesis
    proof (cases i)
      case None
      then show ?thesis unfolding eqs by simp
    next
      case (Some v)
      show ?thesis
      proof (cases "dlc < 0 \<or> dlc > 8")
        case True
        show ?thesis unfolding eqs Some option.case if_P [OF True] by simp
      next
        case False
        show ?thesis unfolding eqs Some option.case if_not_P [OF False] using tail [OF False] by simp
      qed
    qed
  qed
  then show ?thesis by (simp only: full b_def [symmetric])
qed

section \<open>One reply per command\<close>

text \<open>
  The reference: what a line does to the bit rate and the bus, and the answer, without buffers.
  \<open>w\<close> is the pair of the two.
\<close>

definition reply_frame ::
  "'d vif_env \<Rightarrow> nat \<Rightarrow> string \<Rightarrow> bool \<Rightarrow> bool \<Rightarrow> vif \<times> 'd \<Rightarrow> (vif \<times> 'd) \<times> string" where
  "reply_frame ev me line rtr ext gd =
     (if \<not> vif_bus_is_open VIF_OWNER_LINK VIF_BUS_CAN (fst gd) then (gd, [BEL])
      else case slcan_parse_frame (line @ [NUL]) rtr ext of
          Some (Some f) \<Rightarrow> (let (gd, rc) = can_frame_send ev me f gd in (gd, if rc = 0 then [CR] else [BEL]))
        | _ \<Rightarrow> (gd, [BEL]))"

definition reply_open :: "'d vif_env \<Rightarrow> nat \<Rightarrow> nat \<Rightarrow> vif \<times> 'd \<Rightarrow> (vif \<times> 'd) \<times> string" where
  "reply_open ev me rate gd =
     (let (gd, err) = vif_bus_open ev me VIF_OWNER_LINK VIF_BUS_CAN (Some \<lparr>bc_bitrate = rate, bc_manual_recovery = False\<rparr>) gd
      in (gd, if err = ESP_OK then [CR] else [BEL]))"

definition reply_close :: "'d vif_env \<Rightarrow> nat \<Rightarrow> vif \<times> 'd \<Rightarrow> (vif \<times> 'd) \<times> string" where
  "reply_close ev me gd =
     (if vif_bus_current VIF_OWNER_LINK VIF_BUS_CAN (fst gd) \<noteq> VIF_BUS_CAN then (gd, [CR])
      else let (gd, err) = vif_bus_close ev me VIF_OWNER_LINK VIF_BUS_CAN gd
        in (gd, if err = ESP_OK then [CR] else [BEL]))"

definition slcan_reply ::
  "'d vif_env \<Rightarrow> nat \<Rightarrow> string \<Rightarrow> nat \<times> (vif \<times> 'd) \<Rightarrow> (nat \<times> (vif \<times> 'd)) \<times> string" where
  "slcan_reply ev me line w =
     (let (rate, gd) = w; cmd = line ! 0; up = vif_bus_is_open VIF_OWNER_LINK VIF_BUS_CAN (fst gd) in
      if cmd = CHR ''O'' then
        (if up then (w, [CR]) else let (gd, r) = reply_open ev me rate gd in ((rate, gd), r))
      else if cmd = CHR ''C'' then (let (gd, r) = reply_close ev me gd in ((rate, gd), r))
      else if cmd = CHR ''t'' then (let (gd, r) = reply_frame ev me line False False gd in ((rate, gd), r))
      else if cmd = CHR ''T'' then (let (gd, r) = reply_frame ev me line False True gd in ((rate, gd), r))
      else if cmd = CHR ''r'' then (let (gd, r) = reply_frame ev me line True False gd in ((rate, gd), r))
      else if cmd = CHR ''R'' then (let (gd, r) = reply_frame ev me line True True gd in ((rate, gd), r))
      else if cmd = CHR ''S'' then
        (let new = (if length line > 1 then slcan_bitrate (line ! 1) else 0) in
         if new = 0 then (w, [BEL])
         else if up then (let (gd, r) = reply_open ev me new gd in ((new, gd), r))
         else ((new, gd), [CR]))
      else if cmd = CHR ''M'' \<or> cmd = CHR ''m'' then (w, [CR])
      else if cmd = CHR ''F'' then (w, ''F00'' @ [CR])
      else if cmd = CHR ''V'' then (w, ''V-082021'' @ [CR])
      else if cmd = CHR ''N'' then (w, ''N2208'' @ [CR])
      else (w, [BEL]))"

definition with_world :: "'d slcan \<Rightarrow> nat \<times> (vif \<times> 'd) \<Rightarrow> 'd slcan" where
  "with_world c w = c\<lparr>sl_bitrate := fst w, sl_vif := snd w\<rparr>"

lemma with_world_simps [simp]:
  "tx_ok (with_world c w) = tx_ok c" "said (with_world c w) = said c"
  "sl_bitrate (with_world c w) = fst w" "sl_vif (with_world c w) = snd w"
  "sl_cmdbuf (with_world c w) = sl_cmdbuf c" "sl_cmdidx (with_world c w) = sl_cmdidx c"
  "sl_discard (with_world c w) = sl_discard c" "with_world c (sl_bitrate c, sl_vif c) = c"
  by (simp_all add: with_world_def tx_ok_def said_def)

text \<open>\<open>answers\<close>: the state moves to \<open>w\<close> and says \<open>r\<close>.\<close>

definition answers :: "'d slcan \<Rightarrow> (nat \<times> (vif \<times> 'd)) \<times> string \<Rightarrow> 'd slcan option \<Rightarrow> bool" where
  "answers c wr res \<longleftrightarrow> (\<exists>c'. res = Some c' \<and> says (with_world c (fst wr)) (snd wr) c')"

lemma answers_ack:
  "tx_ok c \<Longrightarrow> answers c ((r, gd), [CR]) (slcan_ack (c\<lparr>sl_bitrate := r, sl_vif := gd\<rparr>))"
  "tx_ok c \<Longrightarrow> answers c ((r, gd), [BEL]) (slcan_nack (c\<lparr>sl_bitrate := r, sl_vif := gd\<rparr>))"
  using ack_says [of "with_world c (r, gd)"] nack_says [of "with_world c (r, gd)"]
  by (simp_all add: answers_def with_world_def tx_ok_def)

lemma answers_vif:
  assumes "tx_ok c"
  shows "answers c ((sl_bitrate c, gd), [CR]) (slcan_ack (c\<lparr>sl_vif := gd\<rparr>))"
    "answers c ((sl_bitrate c, gd), [BEL]) (slcan_nack (c\<lparr>sl_vif := gd\<rparr>))"
    "answers c ((sl_bitrate c, sl_vif c), [CR]) (slcan_ack c)"
    "answers c ((sl_bitrate c, sl_vif c), [BEL]) (slcan_nack c)"
    "answers c ((r, sl_vif c), [CR]) (slcan_ack (c\<lparr>sl_bitrate := r\<rparr>))"
  using answers_ack [OF assms, of "sl_bitrate c" gd] answers_ack [OF assms, of "sl_bitrate c" "sl_vif c"]
    answers_ack(1) [OF assms, of r "sl_vif c"] by simp_all

lemma send_frame_answers:
  assumes "tx_ok c"
  shows "answers c (let (gd, r) = reply_frame ev me line rtr ext (sl_vif c) in ((sl_bitrate c, gd), r))
    (slcan_send_frame ev me (line @ NUL # t) rtr ext c)"
proof -
  obtain r where r: "slcan_parse_frame (line @ [NUL]) rtr ext = Some r"
    "slcan_parse_frame (line @ NUL # t) rtr ext = Some r" using parse_frame_read [of line rtr ext t] by blast
  show ?thesis using answers_vif [OF assms]
    by (auto simp: slcan_send_frame_def reply_frame_def slcan_is_open_def r Let_def split: option.split prod.split)
qed

lemma open_close_answers:
  assumes "tx_ok c"
  shows "answers c (if slcan_is_open c then ((sl_bitrate c, sl_vif c), [CR])
      else let (gd, r) = reply_open ev me (sl_bitrate c) (sl_vif c) in ((sl_bitrate c, gd), r)) (slcan_open_bus ev me c)"
    "answers c (let (gd, r) = reply_close ev me (sl_vif c) in ((sl_bitrate c, gd), r)) (slcan_close_bus ev me c)"
  using answers_vif [OF assms]
  by (auto simp: slcan_open_bus_def slcan_close_bus_def reply_open_def reply_close_def Let_def split: prod.split)

lemma rate_answers:
  assumes "tx_ok c"
  shows "answers c (let (gd, r) = reply_open ev me new (sl_vif c) in ((new, gd), r))
    (let (gd, err) = vif_bus_open ev me VIF_OWNER_LINK VIF_BUS_CAN (Some \<lparr>bc_bitrate = new, bc_manual_recovery = False\<rparr>) (sl_vif c);
         c' = c\<lparr>sl_bitrate := new, sl_vif := gd\<rparr>
     in if err \<noteq> ESP_OK then slcan_nack c' else slcan_ack c')"
  using answers_ack [OF assms, of new] by (auto simp: reply_open_def Let_def split: prod.split)

lemma text_answers:
  assumes "tx_ok c" "length s \<le> 10"
  shows "answers c ((sl_bitrate c, sl_vif c), s @ [CR]) (Option.bind (slcan_reply_str s c) slcan_ack)"
  using reply_ack_says [OF assms] by (simp add: answers_def)

lemma answers_cond:
  "(P \<Longrightarrow> answers c x u) \<Longrightarrow> (\<not> P \<Longrightarrow> answers c y v) \<Longrightarrow>
   answers c (if P then x else y) (if P then u else v)"
  by simp

lemma command_answers:
  assumes "tx_ok c" "line \<noteq> []"
  shows "answers c (slcan_reply ev me line (sl_bitrate c, sl_vif c)) (slcan_parse_command ev me (line @ NUL # t) c)"
proof -
  have 0: "get_at (line @ NUL # t) 0 = Some (line ! 0)" using assms(2) by (simp add: get_at_def nth_append)
  have 1: "get_at (line @ NUL # t) 1 = Some (if length line > 1 then line ! 1 else NUL)"
    using assms(2) by (cases line) (auto simp: get_at_def nth_append Suc_le_eq nth_Cons')
  have bit: "slcan_bitrate NUL = 0" by (simp add: slcan_bitrate_def)
  have up: "slcan_is_open (c\<lparr>sl_bitrate := x\<rparr>) = slcan_is_open c" for x by (simp add: slcan_is_open_def)
  have pick: "slcan_bitrate (if length line > 1 then line ! 1 else NUL) =
      (if length line > 1 then slcan_bitrate (line ! 1) else 0)" by (simp add: bit)
  define new where "new = (if length line > 1 then slcan_bitrate (line ! 1) else 0)"
  note a = answers_vif [OF assms(1)] and f = send_frame_answers [OF assms(1)]
    and o' = open_close_answers [OF assms(1)] and t = text_answers [OF assms(1)] and s = rate_answers [OF assms(1)]
  have S: "answers c (if new = 0 then ((sl_bitrate c, sl_vif c), [BEL])
      else if slcan_is_open c then (let (gd, r) = reply_open ev me new (sl_vif c) in ((new, gd), r))
      else ((new, sl_vif c), [CR]))
    (if new = 0 then slcan_nack c
     else let c = c\<lparr>sl_bitrate := new\<rparr> in
       if slcan_is_open c
       then let (gd, err) = vif_bus_open ev me VIF_OWNER_LINK VIF_BUS_CAN (Some \<lparr>bc_bitrate = new, bc_manual_recovery = False\<rparr>) (sl_vif c);
              c = c\<lparr>sl_vif := gd\<rparr>
          in if err \<noteq> ESP_OK then slcan_nack c else slcan_ack c
       else slcan_ack c)"
    using a s [of ev me new] by (simp add: up Let_def)
  show ?thesis
    unfolding slcan_parse_command_def slcan_reply_def 0 Option.bind.bind_lunit Let_def case_prod_conv
      slcan_is_open_def [symmetric] 1 pick
    unfolding new_def [symmetric]
    by (intro answers_cond a f [unfolded Let_def] o'(2) [unfolded Let_def] o'(1) [unfolded Let_def] t
        S [unfolded Let_def]) simp_all
qed

lemma reply_frame_one: "length (filter (\<lambda>x. x = CR \<or> x = BEL) (snd (reply_frame ev me line rtr ext gd))) = 1"
  by (auto simp: reply_frame_def Let_def split: option.split prod.split)

lemma reply_open_one: "length (filter (\<lambda>x. x = CR \<or> x = BEL) (snd (reply_open ev me rate gd))) = 1"
  "length (filter (\<lambda>x. x = CR \<or> x = BEL) (snd (reply_close ev me gd))) = 1"
  by (auto simp: reply_open_def reply_close_def Let_def split: prod.split)

lemma slcan_reply_one: "length (filter (\<lambda>x. x = CR \<or> x = BEL) (snd (slcan_reply ev me line w))) = 1"
proof -
  define one where "one = (\<lambda>z :: (nat \<times> (vif \<times> 'a)) \<times> string. length (filter (\<lambda>x. x = CR \<or> x = BEL) (snd z)) = 1)"
  have if': "one (if P then x else y)" if "P \<Longrightarrow> one x" "\<not> P \<Longrightarrow> one y" for P x y using that by simp
  have ends: "one (v, [CR])" "one (v, [BEL])" "one (v, ''F00'' @ [CR])" "one (v, ''V-082021'' @ [CR])"
    "one (v, ''N2208'' @ [CR])" for v by (simp_all add: one_def)
  have frame: "one (case reply_frame ev me line rtr ext gd of (gd, r) \<Rightarrow> ((rate, gd), r))" for rtr ext gd rate
    using reply_frame_one [of ev me line rtr ext gd] by (cases "reply_frame ev me line rtr ext gd") (simp add: one_def)
  have bus: "one (case reply_open ev me new gd of (gd, r) \<Rightarrow> ((rate, gd), r))"
    "one (case reply_close ev me gd of (gd, r) \<Rightarrow> ((rate, gd), r))" for new gd rate
    using reply_open_one(1) [of ev me new gd] reply_open_one(2) [of ev me gd]
    by (cases "reply_open ev me new gd"; cases "reply_close ev me gd"; simp add: one_def)+
  obtain rate gd where w: "w = (rate, gd)" by (rule prod.exhaust)
  have "one (slcan_reply ev me line w)"
    unfolding slcan_reply_def w Let_def case_prod_conv by (intro if' ends frame bus)
  then show ?thesis by (simp add: one_def)
qed

text \<open>The lines of the input, and the one not ended.\<close>

fun split_cr :: "string \<Rightarrow> string \<Rightarrow> string list \<times> string" where
  "split_cr acc [] = ([], acc)"
| "split_cr acc (x # xs) =
     (if x = CR then let (ls, r) = split_cr [] xs in (acc # ls, r) else split_cr (acc @ [x]) xs)"

definition line_reply ::
  "'d vif_env \<Rightarrow> nat \<Rightarrow> string \<Rightarrow> nat \<times> (vif \<times> 'd) \<Rightarrow> (nat \<times> (vif \<times> 'd)) \<times> string" where
  "line_reply ev me line w =
     (if line = [] then (w, []) else if length line \<ge> SLCAN_CMD_MAX - 1 then (w, [BEL])
      else slcan_reply ev me line w)"

fun lines_reply ::
  "'d vif_env \<Rightarrow> nat \<Rightarrow> string list \<Rightarrow> nat \<times> (vif \<times> 'd) \<Rightarrow> (nat \<times> (vif \<times> 'd)) \<times> string" where
  "lines_reply ev me [] w = (w, [])"
| "lines_reply ev me (l # ls) w =
     (let (w, r) = line_reply ev me l w; (w, rs) = lines_reply ev me ls w in (w, r @ rs))"

lemma lines_reply_count:
  "length (filter (\<lambda>x. x = CR \<or> x = BEL) (snd (lines_reply ev me ls w))) = length (filter (\<lambda>l. l \<noteq> []) ls)"
proof (induction ls arbitrary: w)
  case Nil
  then show ?case by simp
next
  case (Cons l ls)
  obtain w1 r where r: "line_reply ev me l w = (w1, r)" by fastforce
  have "length (filter (\<lambda>x. x = CR \<or> x = BEL) r) = (if l = [] then 0 else 1)"
    using r slcan_reply_one [of ev me l w] by (auto simp: line_reply_def split: if_splits)
  moreover obtain w2 rs where "lines_reply ev me ls w1 = (w2, rs)" by fastforce
  ultimately show ?case using r Cons [of w1] by simp
qed

text \<open>\<open>feed_inv c p\<close>: the unfinished line is \<open>p\<close>, kept or being dropped, and all is flushed.\<close>

definition feed_inv :: "'d slcan \<Rightarrow> string \<Rightarrow> bool" where
  "feed_inv c p \<longleftrightarrow> tx_ok c \<and> sl_txlen c = 0 \<and> length (sl_cmdbuf c) = SLCAN_CMD_MAX \<and>
     (if length p \<ge> SLCAN_CMD_MAX - 1 then sl_discard c \<and> sl_cmdidx c = 0
      else \<not> sl_discard c \<and> sl_cmdidx c = length p \<and> take (length p) (sl_cmdbuf c) = p)"

lemma said_flushed: "sl_txlen c = 0 \<Longrightarrow> said c = written (sl_link c)"
  by (simp add: said_def)

lemma feed_kept:
  assumes "feed_inv c p" "x \<noteq> CR"
  shows "\<exists>c'. feed_char ev me c x = Some c' \<and> feed_inv c' (p @ [x]) \<and> sl_link c' = sl_link c \<and>
    sl_bitrate c' = sl_bitrate c \<and> sl_vif c' = sl_vif c"
proof (cases "length p \<ge> SLCAN_CMD_MAX - 1")
  case True
  with assms show ?thesis by (auto simp: feed_char_def feed_inv_def)
next
  case False
  with assms have p: "tx_ok c" "sl_txlen c = 0" "length (sl_cmdbuf c) = 32" "\<not> sl_discard c"
    "sl_cmdidx c = length p" "take (length p) (sl_cmdbuf c) = p" "length p < 31"
    by (auto simp: feed_inv_def SLCAN_CMD_MAX_def)
  have "take (length p + 1) ((sl_cmdbuf c)[length p := x]) = p @ [x]"
    using p by (simp add: take_Suc_conv_app_nth)
  then show ?thesis
    using p assms(2) by (cases "length p = 30") (simp_all add: feed_char_def feed_inv_def SLCAN_CMD_MAX_def tx_ok_def)
qed

lemma feed_end:
  assumes "feed_inv c p"
  shows "\<exists>c'. feed_char ev me c CR = Some c' \<and> feed_inv c' [] \<and>
    (let (w, r) = line_reply ev me p (sl_bitrate c, sl_vif c)
     in (sl_bitrate c', sl_vif c') = w \<and> written (sl_link c') = written (sl_link c) @ r)"
proof -
  have ok: "tx_ok c" "sl_txlen c = 0" "length (sl_cmdbuf c) = 32" using assms
    by (auto simp: feed_inv_def SLCAN_CMD_MAX_def)
  define wr where "wr = line_reply ev me p (sl_bitrate c, sl_vif c)"
  obtain c1 c0 where c1: "(if sl_discard c then slcan_nack (c\<lparr>sl_discard := False\<rparr>)
        else if sl_cmdidx c > 0 then do {
          buf \<leftarrow> set_at (sl_cmdbuf c) (sl_cmdidx c) NUL;
          slcan_parse_command ev me buf (c\<lparr>sl_cmdbuf := buf\<rparr>)
        } else Some c) = Some c1"
    and c0: "says (with_world c0 (fst wr)) (snd wr) c1" "said c0 = said c" "length (sl_cmdbuf c0) = 32" "\<not> sl_discard c0"
  proof (cases "length p \<ge> SLCAN_CMD_MAX - 1")
    case True
    then have "sl_discard c" "wr = ((sl_bitrate c, sl_vif c), [BEL])"
      using assms by (auto simp: feed_inv_def wr_def line_reply_def SLCAN_CMD_MAX_def)
    moreover obtain c1 where "slcan_nack (c\<lparr>sl_discard := False\<rparr>) = Some c1" "says (c\<lparr>sl_discard := False\<rparr>) [BEL] c1"
      using nack_says [of "c\<lparr>sl_discard := False\<rparr>"] ok by (auto simp: tx_ok_def)
    moreover have "with_world (c\<lparr>sl_discard := False\<rparr>) (sl_bitrate c, sl_vif c) = c\<lparr>sl_discard := False\<rparr>"
      by (simp add: with_world_def)
    ultimately show ?thesis using that [of c1 "c\<lparr>sl_discard := False\<rparr>"] ok by (simp add: said_def)
  next
    case False
    then have p: "\<not> sl_discard c" "sl_cmdidx c = length p" "take (length p) (sl_cmdbuf c) = p" "length p < 31"
      using assms by (auto simp: feed_inv_def SLCAN_CMD_MAX_def)
    show ?thesis
    proof (cases "p = []")
      case True
      then show ?thesis using that [of c c] p ok says_refl [OF ok(1)] by (simp add: wr_def line_reply_def)
    next
      case line: False
      let ?buf = "(sl_cmdbuf c)[length p := NUL]"
      let ?c = "c\<lparr>sl_cmdbuf := ?buf\<rparr>"
      have "?buf = p @ NUL # drop (Suc (length p)) (sl_cmdbuf c)"
        using p ok by (simp add: upd_conv_take_nth_drop)
      moreover have "tx_ok ?c" using ok by (simp add: tx_ok_def)
      ultimately obtain c1 where "slcan_parse_command ev me ?buf ?c = Some c1"
        "says (with_world ?c (fst (slcan_reply ev me p (sl_bitrate c, sl_vif c))))
          (snd (slcan_reply ev me p (sl_bitrate c, sl_vif c))) c1"
        using command_answers [of ?c p ev me "drop (Suc (length p)) (sl_cmdbuf c)"] line
        by (auto simp: answers_def)
      moreover have "wr = slcan_reply ev me p (sl_bitrate c, sl_vif c)"
        using line p(4) by (simp add: wr_def line_reply_def SLCAN_CMD_MAX_def)
      ultimately show ?thesis using that [of c1 ?c] p ok line by (simp add: said_def)
    qed
  qed
  have ok1: "tx_ok (c1\<lparr>sl_cmdidx := 0\<rparr>)" using says_tx_ok [OF c0(1)] by (simp add: tx_ok_def)
  obtain c2 where c2: "slcan_flush (c1\<lparr>sl_cmdidx := 0\<rparr>) = Some c2" "says (c1\<lparr>sl_cmdidx := 0\<rparr>) [] c2" "sl_txlen c2 = 0"
    using flush_says [OF ok1] by blast
  have "feed_char ev me c CR = Some c2" using c1 c2(1) by (simp add: feed_char_def)
  moreover have "feed_inv c2 []"
    using c2 c0 by (auto simp: feed_inv_def says_def SLCAN_CMD_MAX_def)
  moreover have "written (sl_link c2) = written (sl_link c) @ snd wr"
  proof -
    have "said (c1\<lparr>sl_cmdidx := 0\<rparr>) = said c1" by (simp add: said_def)
    then have "said c2 = said c @ snd wr" using c2(2) c0(1,2) by (simp add: says_def)
    then show ?thesis by (simp only: said_flushed [OF c2(3)] said_flushed [OF ok(2)])
  qed
  moreover have "(sl_bitrate c2, sl_vif c2) = fst wr" using c2 c0 by (simp add: says_def)
  ultimately show ?thesis by (auto simp: wr_def split: prod.split)
qed

lemma feed_lines:
  assumes "feed_inv c p"
  shows "\<exists>c'. slcan_fe_feed ev me c xs = Some c' \<and> feed_inv c' (snd (split_cr p xs)) \<and>
    (let (w, r) = lines_reply ev me (fst (split_cr p xs)) (sl_bitrate c, sl_vif c)
     in (sl_bitrate c', sl_vif c') = w \<and> written (sl_link c') = written (sl_link c) @ r)"
  using assms
proof (induction xs arbitrary: c p)
  case Nil
  then show ?case by (simp add: slcan_fe_feed_def)
next
  case (Cons x xs)
  show ?case
  proof (cases "x = CR")
    case True
    obtain w r where wr: "line_reply ev me p (sl_bitrate c, sl_vif c) = (w, r)" by fastforce
    obtain c1 where c1: "feed_char ev me c CR = Some c1" "feed_inv c1 []" "(sl_bitrate c1, sl_vif c1) = w"
      "written (sl_link c1) = written (sl_link c) @ r"
      using feed_end [OF Cons.prems, of ev me] wr by auto
    obtain c' where c': "slcan_fe_feed ev me c1 xs = Some c'" "feed_inv c' (snd (split_cr [] xs))"
      "let (w, r) = lines_reply ev me (fst (split_cr [] xs)) w
       in (sl_bitrate c', sl_vif c') = w \<and> written (sl_link c') = written (sl_link c1) @ r"
      using Cons.IH [OF c1(2)] c1(3) by blast
    show ?thesis using True c1 c' wr by (auto simp: slcan_fe_feed_def split: prod.splits)
  next
    case False
    obtain c1 where c1: "feed_char ev me c x = Some c1" "feed_inv c1 (p @ [x])" "sl_link c1 = sl_link c"
      "sl_bitrate c1 = sl_bitrate c" "sl_vif c1 = sl_vif c"
      using feed_kept [OF Cons.prems False, of ev me] by auto
    from Cons.IH [OF c1(2)] c1 False show ?thesis by (simp add: slcan_fe_feed_def)
  qed
qed

lemma feed_chunks: "fold_opt (slcan_fe_feed ev me) c chunks = slcan_fe_feed ev me c (concat chunks)"
  by (induction chunks arbitrary: c) (simp_all add: slcan_fe_feed_def fold_opt_append)

text \<open>C15: Every command line gets exactly one answer, however the bytes are cut into reads: fed any
  bytes from the start, the front-end neither overruns its buffers nor faults, does to the bus
  exactly what its complete lines ask, in order, and has sent the answers of those lines and
  nothing else. Each non-empty line adds one terminator, carriage return or bell; a line longer
  than the buffer is answered once, with the bell, and does nothing.\<close>

theorem slcan_feed_answers:
  "\<exists>c'. fold_opt (slcan_fe_feed ev me) (slcan_fe_start c) chunks = Some c' \<and>
    ((sl_bitrate c', sl_vif c'), written (sl_link c')) =
      (let (w, r) = lines_reply ev me (fst (split_cr [] (concat chunks))) (500000, sl_vif c)
       in (w, written (sl_link c) @ r)) \<and>
    sl_txlen c' = 0 \<and>
    length (filter (\<lambda>x. x = CR \<or> x = BEL) (written (sl_link c'))) =
      length (filter (\<lambda>x. x = CR \<or> x = BEL) (written (sl_link c))) +
      length (filter (\<lambda>l. l \<noteq> []) (fst (split_cr [] (concat chunks))))"
proof -
  let ?ls = "fst (split_cr [] (concat chunks))"
  have "feed_inv (slcan_fe_start c) []"
    by (simp add: feed_inv_def slcan_fe_start_def tx_ok_def SLCAN_CMD_MAX_def)
  from feed_lines [OF this, of ev me "concat chunks"] obtain c' where
    c': "slcan_fe_feed ev me (slcan_fe_start c) (concat chunks) = Some c'" "feed_inv c' (snd (split_cr [] (concat chunks)))"
    "let (w, r) = lines_reply ev me ?ls (sl_bitrate (slcan_fe_start c), sl_vif (slcan_fe_start c))
     in (sl_bitrate c', sl_vif c') = w \<and> written (sl_link c') = written (sl_link (slcan_fe_start c)) @ r"
    by blast
  obtain w r where wr: "lines_reply ev me ?ls (500000, sl_vif c) = (w, r)" by fastforce
  have start: "sl_bitrate (slcan_fe_start c) = 500000" "sl_vif (slcan_fe_start c) = sl_vif c"
    "sl_link (slcan_fe_start c) = sl_link c" by (simp_all add: slcan_fe_start_def)
  have "fold_opt (slcan_fe_feed ev me) (slcan_fe_start c) chunks = Some c'" "sl_txlen c' = 0"
    "(sl_bitrate c', sl_vif c') = w" "written (sl_link c') = written (sl_link c) @ r"
    using c' wr by (simp_all add: feed_chunks feed_inv_def start)
  then show ?thesis using lines_reply_count [of ev me ?ls "(500000, sl_vif c)"] wr by simp
qed

section \<open>Frames survive printing and parsing\<close>

lemma hex_digit_value: "n < 16 \<Longrightarrow> hex_char_to_int (hex_digit n) = int n"
proof -
  have "\<forall>n \<in> set [0..<16]. hex_char_to_int (hex_digit n) = int n"
    by (simp add: upt_rec hex_digit_def hexval_def hex_char_to_int_def)
  then show "n < 16 \<Longrightarrow> hex_char_to_int (hex_digit n) = int n" by simp
qed

lemma hex_digit_nul: "hex_digit n \<noteq> NUL"
proof -
  have "\<forall>n \<in> set [0..<16]. hexval ! n \<noteq> NUL" by (simp add: upt_rec hexval_def)
  then show ?thesis by (simp add: hex_digit_def)
qed

lemma hex_digit_int: "hex_char_to_int (hex_digit n) = int (n mod 16)"
  using hex_digit_value [of "n mod 16"] by (simp add: hex_digit_def)

text \<open>One digit of an identifier joins the part already read.\<close>

lemma nibble_join:
  "push_bit 4 (drop_bit (4 + k) (x :: u32w)) OR (drop_bit k x AND 0xf) = drop_bit k x"
proof (rule bit_word_eqI)
  fix n assume "n < LENGTH(32)"
  have "bit (0xf :: u32w) n \<longleftrightarrow> n < 4" using bit_mask_iff [of 4 n, where ?'a = u32w] \<open>n < LENGTH(32)\<close>
    by (simp add: mask_eq_exp_minus_1)
  then show "bit (push_bit 4 (drop_bit (4 + k) x) OR (drop_bit k x AND 0xf)) n = bit (drop_bit k x) n"
    using \<open>n < LENGTH(32)\<close> by (auto simp: bit_simps algebra_simps)
qed

lemma u32_loop_digits:
  assumes "\<And>j. j < n \<Longrightarrow> i + j < length s \<and> s ! (i + j) = hex_digit (unat (drop_bit (4 * (n - 1 - j)) x AND 0xf))"
  shows "u32_be_loop s i n (drop_bit (4 * n) x) = Some (Some x)"
  using assms
proof (induction n arbitrary: i)
  case 0
  then show ?case by simp
next
  case (Suc n)
  have d: "i < length s" "s ! i = hex_digit (unat (drop_bit (4 * n) x AND 0xf))" using Suc.prems [of 0] by simp_all
  have v: "hex_char_to_int (s ! i) = int (unat (drop_bit (4 * n) x AND 0xf))"
    using d(2) by (simp add: hex_digit_int unat_masks)
  have "push_bit 4 (drop_bit (4 * Suc n) x) OR word_of_int (hex_char_to_int (s ! i)) = drop_bit (4 * n) x"
    unfolding v using nibble_join [of "4 * n" x] by simp
  moreover have "u32_be_loop s (Suc i) n (drop_bit (4 * n) x) = Some (Some x)"
    using Suc.prems [of "Suc _"] by (intro Suc.IH) simp
  ultimately show ?case using d(1) v by simp
qed

lemma byte_join: "push_bit 4 (word_of_int (int (unat (drop_bit 4 (b :: byte))))) OR word_of_int (int (unat (b AND 0xf))) = b"
proof -
  have "push_bit 4 (drop_bit 4 b) OR (b AND mask 4) = b"
    by (rule bit_word_eqI) (auto simp: bit_simps)
  then show ?thesis by (simp add: mask_eq_exp_minus_1)
qed

definition hex_bytes :: "byte list \<Rightarrow> string" where
  "hex_bytes bs = concat (map (\<lambda>b. [hex_digit (unat (drop_bit 4 b)), hex_digit (unat (b AND 0xf))]) bs)"

lemma drop4_small: "unat (drop_bit 4 (b :: byte)) < 16"
  using unat_byte_less [of b] by (simp add: drop_bit_eq_div unat_div div_less_iff_less_mult)

lemma u8_loop_digits:
  assumes "length bs + k \<le> length out"
  shows "u8_array_loop (pre @ hex_bytes bs @ t) (length pre) (2 * length bs) out k =
    Some (int (k + length bs), take k out @ bs @ drop (k + length bs) out)"
  using assms
proof (induction bs arbitrary: pre out k)
  case Nil
  then show ?case by (simp add: hex_bytes_def)
next
  case (Cons b bs)
  let ?h = "hex_digit (unat (drop_bit 4 b))" and ?l = "hex_digit (unat (b AND 0xf))"
  have s: "pre @ hex_bytes (b # bs) @ t = (pre @ [?h, ?l]) @ hex_bytes bs @ t" by (simp add: hex_bytes_def)
  have v: "hex_char_to_int ?h = int (unat (drop_bit 4 b))" "hex_char_to_int ?l = int (unat (b AND 0xf))"
    using drop4_small [of b] by (simp_all add: hex_digit_int unat_masks)
  have at: "get_at (pre @ hex_bytes (b # bs) @ t) (length pre) = Some ?h"
    "get_at (pre @ hex_bytes (b # bs) @ t) (length pre + 1) = Some ?l"
    by (simp_all add: hex_bytes_def get_at_def nth_append)
  have st: "set_at out k b = Some (out[k := b])" using Cons.prems by simp
  have ih: "u8_array_loop (pre @ hex_bytes (b # bs) @ t) (length pre + 2) (2 * length bs) (out[k := b]) (k + 1) =
    Some (int (k + 1 + length bs), take (k + 1) (out[k := b]) @ bs @ drop (k + 1 + length bs) (out[k := b]))"
    using Cons.IH [of "k + 1" "out[k := b]" "pre @ [?h, ?l]"] Cons.prems s by simp
  have "take (k + 1) (out[k := b]) = take k out @ [b]" using Cons.prems by (simp add: take_Suc_conv_app_nth)
  moreover have "drop (k + 1 + length bs) (out[k := b]) = drop (k + length (b # bs)) out" by simp
  moreover have "2 * length (b # bs) = Suc (Suc (2 * length bs))" by simp
  ultimately show ?case unfolding \<open>2 * length (b # bs) = _\<close> u8_array_loop.simps at Option.bind.bind_lunit v
    using ih st byte_join [of b] by simp
qed

lemma strlen_no_nul: "NUL \<notin> set s \<Longrightarrow> strlen (s @ NUL # t) = Some (length s)"
  by (induction s) auto

lemma hex_bytes_chars: "NUL \<notin> set (hex_bytes bs)" "length (hex_bytes bs) = 2 * length bs"
  by (induction bs) (auto simp: hex_bytes_def hex_digit_nul [symmetric])

definition id_digits :: "nat \<Rightarrow> u32w \<Rightarrow> string" where
  "id_digits n x = map (\<lambda>j. hex_digit (unat (drop_bit (4 * (n - 1 - j)) x AND 0xf))) [0..<n]"

lemma id_digits_chars: "NUL \<notin> set (id_digits n x)" "length (id_digits n x) = n"
  by (auto simp: id_digits_def hex_digit_nul [symmetric])

lemma parse_printed:
  assumes n: "n = (if ext then 8 else 3)" and x: "drop_bit (4 * n) x = 0" and c: "c \<noteq> NUL" and dlc: "dlc \<le> 8"
    and bs: "length bs = (if rtr then 0 else dlc)"
  shows "slcan_parse_frame (c # id_digits n x @ hex_digit dlc # hex_bytes bs @ NUL # t) rtr ext = Some (Some
    \<lparr>can_id = (let i = (if ext then (x AND CAN_EFF_MASK) OR CAN_EFF_FLAG else x AND CAN_SFF_MASK)
       in if rtr then i OR CAN_RTR_FLAG else i), can_dlc = dlc, can_data = bs @ replicate (8 - length bs) 0\<rparr>)"
proof -
  define buf where "buf = c # id_digits n x @ hex_digit dlc # hex_bytes bs @ NUL # t"
  have len: "strlen buf = Some (2 + n + 2 * length bs)"
    using strlen_no_nul [of "c # id_digits n x @ hex_digit dlc # hex_bytes bs" t] c
    by (simp add: buf_def id_digits_chars hex_bytes_chars hex_digit_nul [symmetric])
  have "u32_be_loop (drop 1 buf) 0 n (drop_bit (4 * n) x) = Some (Some x)"
    by (rule u32_loop_digits) (auto simp: buf_def id_digits_chars nth_append, simp add: id_digits_def)
  then have i: "hex_string_to_u32_be (drop 1 buf) n = Some (Some x)"
    using x n by (simp add: hex_string_to_u32_be_def)
  have at: "get_at buf (1 + n) = Some (hex_digit dlc)" "hex_char_to_int (hex_digit dlc) = int dlc"
    using dlc by (simp_all add: buf_def get_at_def nth_append id_digits_chars hex_digit_value)
  have pay: "drop (2 + n) buf = hex_bytes bs @ NUL # t"
    by (simp add: buf_def id_digits_chars)
  have plen: "strlen (hex_bytes bs @ NUL # t) = Some (2 * length bs)"
    using strlen_no_nul hex_bytes_chars by metis
  have a: "hex_string_to_u8_array (hex_bytes bs @ NUL # t) (2 * length bs) (replicate 8 0) =
      Some (int (length bs), bs @ replicate (8 - length bs) 0)" if "\<not> rtr"
    using u8_loop_digits [of bs 0 "replicate 8 0" "[]" "NUL # t"] bs dlc that
    by (simp add: hex_string_to_u8_array_def)
  have short: "\<not> 2 + n + 2 * length bs < n + 2" by simp
  have ok: "\<not> (int dlc < 0 \<or> 8 < int dlc)" using dlc by simp
  show ?thesis unfolding buf_def [symmetric]
    unfolding slcan_parse_frame_def Let_def n [symmetric] len Option.bind.bind_lunit if_not_P [OF short] i
      option.case at if_not_P [OF ok] pay plen
    using a bs by (cases rtr) (simp_all add: mult.commute)
qed

text \<open>Frames as the driver hands them over: unused data is zero, the identifier fits its format.\<close>

definition line_frame :: "can_frame \<Rightarrow> bool" where
  "line_frame f \<longleftrightarrow> length (can_data f) = 8 \<and> can_dlc f \<le> 8 \<and>
     drop (if can_id f AND CAN_RTR_FLAG \<noteq> 0 then 0 else can_dlc f) (can_data f) =
       replicate (8 - (if can_id f AND CAN_RTR_FLAG \<noteq> 0 then 0 else can_dlc f)) 0 \<and>
     can_id f = (let i = (if can_id f AND CAN_EFF_FLAG \<noteq> 0 then (can_id f AND CAN_EFF_MASK) OR CAN_EFF_FLAG
         else can_id f AND CAN_SFF_MASK)
       in if can_id f AND CAN_RTR_FLAG \<noteq> 0 then i OR CAN_RTR_FLAG else i)"

lemma shifts_digits:
  "map (\<lambda>shift. hex_digit (unat (drop_bit shift x AND 0xf))) [28, 24, 20, 16, 12, 8, 4, 0] = id_digits 8 x"
  "map (\<lambda>shift. hex_digit (unat (drop_bit shift x AND 0xf))) [8, 4, 0] = id_digits 3 x"
  by (simp_all add: id_digits_def upt_conv_Cons)

lemma data_digits:
  assumes "n \<le> length d"
  shows "concat (map (\<lambda>i. [hex_digit (unat (drop_bit 4 (d ! i))), hex_digit (unat (d ! i AND 0xf))]) [0..<n]) =
    hex_bytes (take n d)"
proof -
  have "take n d = map ((!) d) [0..<n]" using assms by (intro nth_equalityI) auto
  then show ?thesis by (simp add: hex_bytes_def comp_def)
qed

definition line_letter :: "can_frame \<Rightarrow> char" where
  "line_letter f = (if can_id f AND CAN_EFF_FLAG \<noteq> 0
     then (if can_id f AND CAN_RTR_FLAG \<noteq> 0 then CHR ''R'' else CHR ''T'')
     else (if can_id f AND CAN_RTR_FLAG \<noteq> 0 then CHR ''r'' else CHR ''t''))"

lemma slcan_line_form:
  assumes "length (can_data f) = 8"
  shows "slcan_line f = line_letter f #
    (if can_id f AND CAN_EFF_FLAG \<noteq> 0 then id_digits 8 (can_id f AND CAN_EFF_MASK)
     else id_digits 3 (can_id f AND CAN_SFF_MASK)) @
    hex_digit (can_dlc f mod 16) #
    hex_bytes (if can_id f AND CAN_RTR_FLAG \<noteq> 0 then [] else take (min (can_dlc f) 8) (can_data f)) @ [CR]"
  unfolding slcan_line_def Let_def shifts_digits line_letter_def
  using data_digits [of "min (can_dlc f) 8" "can_data f"] assms
  by (simp add: hex_bytes_def)

lemma slcan_line_length: "length (can_data f) = 8 \<Longrightarrow> length (slcan_line f) \<le> SLCAN_LINE_MAX"
  by (auto simp: slcan_line_form id_digits_chars hex_bytes_chars SLCAN_LINE_MAX_def)

lemma masked_id:
  "drop_bit 32 (x :: u32w) = 0" "drop_bit 12 (x AND CAN_SFF_MASK) = 0"
proof -
  show "drop_bit 32 x = 0" by (rule bit_word_eqI) (simp add: bit_simps)
  have m: "CAN_SFF_MASK = mask 11" by (simp add: CAN_SFF_MASK_def mask_eq_exp_minus_1)
  show "drop_bit 12 (x AND CAN_SFF_MASK) = 0" unfolding m by (rule bit_word_eqI) (auto simp: bit_simps)
qed

lemma parse_line:
  assumes "line_frame f"
  shows "slcan_parse_frame (butlast (slcan_line f) @ NUL # t) (can_id f AND CAN_RTR_FLAG \<noteq> 0)
    (can_id f AND CAN_EFF_FLAG \<noteq> 0) = Some (Some f)"
proof -
  define rtr where "rtr = (can_id f AND CAN_RTR_FLAG \<noteq> 0)"
  define ext where "ext = (can_id f AND CAN_EFF_FLAG \<noteq> 0)"
  define n :: nat where "n = (if ext then 8 else 3)"
  define x where "x = can_id f AND (if ext then CAN_EFF_MASK else CAN_SFF_MASK)"
  define bs where "bs = (if rtr then [] else take (can_dlc f) (can_data f))"
  have f: "length (can_data f) = 8" "can_dlc f \<le> 8"
    "drop (if rtr then 0 else can_dlc f) (can_data f) = replicate (8 - (if rtr then 0 else can_dlc f)) 0"
    "can_id f = (let i = (if ext then (can_id f AND CAN_EFF_MASK) OR CAN_EFF_FLAG else can_id f AND CAN_SFF_MASK)
      in if rtr then i OR CAN_RTR_FLAG else i)"
    using assms unfolding line_frame_def rtr_def ext_def by blast+
  have "slcan_line f = line_letter f # id_digits n x @ hex_digit (can_dlc f) # hex_bytes bs @ [CR]"
    using slcan_line_form [OF f(1)] f(2) by (auto simp: rtr_def ext_def n_def x_def bs_def)
  then have line: "butlast (slcan_line f) @ NUL # t =
      line_letter f # id_digits n x @ hex_digit (can_dlc f) # hex_bytes bs @ NUL # t"
    by (simp add: butlast_append)
  have len: "length bs = (if rtr then 0 else can_dlc f)" using f by (simp add: bs_def)
  have "drop_bit (4 * n) x = 0" using masked_id by (simp add: n_def x_def)
  moreover have "line_letter f \<noteq> NUL" by (simp add: line_letter_def)
  ultimately have "slcan_parse_frame (butlast (slcan_line f) @ NUL # t) rtr ext = Some (Some
    \<lparr>can_id = (let i = (if ext then (x AND CAN_EFF_MASK) OR CAN_EFF_FLAG else x AND CAN_SFF_MASK)
       in if rtr then i OR CAN_RTR_FLAG else i), can_dlc = can_dlc f,
     can_data = bs @ replicate (8 - length bs) 0\<rparr>)"
    unfolding line using parse_printed [OF n_def _ _ f(2) len] by blast
  moreover have "bs @ replicate (8 - length bs) 0 = can_data f"
    using f(1,3) len append_take_drop_id [of "can_dlc f" "can_data f"] by (cases rtr) (auto simp: bs_def)
  moreover have "(let i = (if ext then (x AND CAN_EFF_MASK) OR CAN_EFF_FLAG else x AND CAN_SFF_MASK)
       in if rtr then i OR CAN_RTR_FLAG else i) = can_id f"
    using f(4) [symmetric] by (cases ext) (simp_all add: x_def and.assoc)
  ultimately show ?thesis by (simp add: rtr_def ext_def)
qed

text \<open>C16: What the adapter prints for a received frame is the command that sends the same frame: on
  an open channel the printed line, without its carriage return, hands the driver exactly that
  frame, identifier, format, remote flag, length and data, and is answered by what the driver
  says. The line fits the line buffer and, as a command, the command buffer.\<close>

theorem slcan_frame_roundtrip:
  assumes "line_frame f" "vif_bus_is_open VIF_OWNER_LINK VIF_BUS_CAN (fst gd)"
  shows "slcan_reply ev me (butlast (slcan_line f)) (rate, gd) =
      (let (gd, rc) = can_frame_send ev me f gd in ((rate, gd), if rc = 0 then [CR] else [BEL])) \<and>
    length (slcan_line f) \<le> SLCAN_LINE_MAX \<and> length (butlast (slcan_line f)) < SLCAN_CMD_MAX - 1"
proof -
  have len: "length (slcan_line f) \<le> SLCAN_LINE_MAX"
    using assms(1) by (intro slcan_line_length) (simp add: line_frame_def)
  have "\<exists>t. slcan_line f = line_letter f # t @ [CR]"
    using slcan_line_form [of f] assms(1) by (auto simp: line_frame_def)
  then have l: "butlast (slcan_line f) ! 0 = line_letter f" by (auto simp: butlast_append)
  have "reply_frame ev me (butlast (slcan_line f)) (can_id f AND CAN_RTR_FLAG \<noteq> 0)
      (can_id f AND CAN_EFF_FLAG \<noteq> 0) gd =
    (let (gd, rc) = can_frame_send ev me f gd in (gd, if rc = 0 then [CR] else [BEL]))"
    using parse_line [OF assms(1), of "[]"] assms(2) by (simp add: reply_frame_def)
  then have "slcan_reply ev me (butlast (slcan_line f)) (rate, gd) =
      (let (gd, rc) = can_frame_send ev me f gd in ((rate, gd), if rc = 0 then [CR] else [BEL]))"
    unfolding slcan_reply_def l line_letter_def Let_def
    by (cases "can_id f AND CAN_EFF_FLAG \<noteq> 0"; cases "can_id f AND CAN_RTR_FLAG \<noteq> 0")
      (simp_all split: prod.split)
  then show ?thesis using len by (simp add: SLCAN_LINE_MAX_def SLCAN_CMD_MAX_def)
qed

text \<open>An extended frame on an open channel.\<close>

lemma slcan_frame_roundtrip_witness:
  "slcan_reply quiet_env 1 (butlast (slcan_line \<lparr>can_id = 0x98DAF110, can_dlc = 3, can_data = [2, 1, 0x0C, 0, 0, 0, 0, 0]\<rparr>))
    (500000, (vif_stuck, 0)) = ((500000, (vif_stuck, 0)), [CR])"
proof -
  let ?f = "\<lparr>can_id = 0x98DAF110, can_dlc = 3, can_data = [2, 1, 0x0C, 0, 0, 0, 0, 0]\<rparr>"
  have r: "replicate 5 (0 :: byte) = [0, 0, 0, 0, 0]" by (simp add: eval_nat_numeral)
  have f: "line_frame ?f"
    by (simp add: line_frame_def CAN_EFF_FLAG_def CAN_RTR_FLAG_def CAN_EFF_MASK_def Let_def r)
  have up: "vif_bus_is_open VIF_OWNER_LINK VIF_BUS_CAN (fst (vif_stuck, 0 :: nat))"
    by (simp add: vif_bus_is_open_def bus_group_def vif_stuck_def vif_start_def claim_zero_def)
  have "can_frame_send quiet_env 1 ?f (vif_stuck, 0) = ((vif_stuck, 0), 0)"
    by (simp add: can_frame_send_def vif_bus_send_def bus_group_def bus_owned_by_def on_owner_thread_def
        vif_stuck_def vif_start_def claim_zero_def quiet_env_def)
  with slcan_frame_roundtrip [OF f up, of quiet_env 1 500000] show ?thesis by simp
qed

section \<open>Forwarding received frames\<close>

text \<open>The frames a poll takes from the driver, and the vehicle interface after it.\<close>

fun received :: "'d vif_env \<Rightarrow> nat \<Rightarrow> nat \<Rightarrow> vif \<times> 'd \<Rightarrow> (vif \<times> 'd) \<times> can_frame list" where
  "received ev me 0 gd = (gd, [])"
| "received ev me (Suc n) gd = (case can_frame_recv ev me 0 gd of
       (gd, rc, Some f) \<Rightarrow> if rc = 0 then (let (gd, fs) = received ev me n gd in (gd, f # fs)) else (gd, [])
     | (gd, rc, None) \<Rightarrow> (gd, []))"

lemma recv_data: "can_frame_recv ev me t gd = (gd', rc, Some f) \<Longrightarrow> length (can_data f) = 8"
  by (auto simp: can_frame_recv_def split: prod.splits option.splits if_splits)

lemma poll_loop_says:
  assumes "tx_ok c"
  shows "\<exists>c' gd. poll_loop ev me n k c = Some (c', k + length (snd (received ev me n (sl_vif c)))) \<and>
    says (c\<lparr>sl_vif := fst (received ev me n (sl_vif c))\<rparr>)
      (concat (map slcan_line (snd (received ev me n (sl_vif c))))) c' \<and>
    (snd (received ev me n (sl_vif c)) = [] \<longrightarrow> c' = c\<lparr>sl_vif := fst (received ev me n (sl_vif c))\<rparr>)"
  using assms
proof (induction n arbitrary: k c)
  case 0
  then show ?case by (simp add: says_refl)
next
  case (Suc n)
  obtain gd rc fo where r: "can_frame_recv ev me 0 (sl_vif c) = (gd, rc, fo)" by (rule prod_cases3)
  have ok: "tx_ok (c\<lparr>sl_vif := v\<rparr>)" for v using Suc.prems by (simp add: tx_ok_def)
  show ?case
  proof (cases "\<exists>f. fo = Some f \<and> rc = 0")
    case False
    then show ?thesis using r says_refl [OF ok] by (cases fo) auto
  next
    case True
    then obtain f where f: "fo = Some f" "rc = 0" by auto
    have len: "length (slcan_line f) \<le> SLCAN_LINE_MAX" using r f recv_data slcan_line_length by blast
    then obtain c1 where c1: "slcan_print_frame f (c\<lparr>sl_vif := gd\<rparr>) = Some c1"
      "says (c\<lparr>sl_vif := gd\<rparr>) (slcan_line f) c1"
      using write_says [OF ok [of gd], of "slcan_line f"]
      by (auto simp: slcan_print_frame_def SLCAN_LINE_MAX_def SLCAN_TX_BUF_def)
    have v: "sl_vif c1 = gd" using c1(2) by (simp add: says_def)
    obtain c' where c': "poll_loop ev me n (k + 1) c1 = Some (c', k + 1 + length (snd (received ev me n gd)))"
      "says (c1\<lparr>sl_vif := fst (received ev me n gd)\<rparr>) (concat (map slcan_line (snd (received ev me n gd)))) c'"
      using Suc.IH [OF says_tx_ok [OF c1(2)], of "k + 1"] v by fastforce
    have "says (c\<lparr>sl_vif := fst (received ev me n gd)\<rparr>)
      (slcan_line f @ concat (map slcan_line (snd (received ev me n gd)))) c'"
      using c1(2) c'(2) by (simp add: says_def said_def)
    with r f c1 c' show ?thesis by (auto split: prod.split)
  qed
qed

text \<open>C38: Polling an open channel sends the client one line for every frame the driver hands over, at
  most a burst of 32, in order and none lost or cut, although the lines of a burst do not fit the
  512 byte transmit buffer; they are flushed to the link when there is anything to say, and a
  channel that is not open is left alone.\<close>

theorem slcan_poll_forwards:
  fixes ev :: "'d vif_env" and me :: nat and c :: "'d slcan"
  assumes "tx_ok c" "sl_txlen c = 0"
  defines "burst \<equiv> received ev me SLCAN_RX_BURST (sl_vif c)"
  shows "\<exists>c'. slcan_fe_poll ev me c = Some c' \<and> tx_ok c' \<and> sl_txlen c' = 0 \<and>
    (if slcan_is_open c
     then sl_vif c' = fst burst \<and> written (sl_link c') = written (sl_link c) @ concat (map slcan_line (snd burst))
     else c' = c)"
proof (cases "slcan_is_open c")
  case False
  then show ?thesis using assms by (simp add: slcan_fe_poll_def)
next
  case True
  obtain c1 where c1: "poll_loop ev me SLCAN_RX_BURST 0 c = Some (c1, length (snd burst))"
    "says (c\<lparr>sl_vif := fst burst\<rparr>) (concat (map slcan_line (snd burst))) c1"
    using poll_loop_says [OF assms(1), of ev me SLCAN_RX_BURST 0] by (auto simp: burst_def)
  have said: "said c1 = written (sl_link c) @ concat (map slcan_line (snd burst))" "sl_vif c1 = fst burst" "tx_ok c1"
    using c1(2) assms(2) by (simp_all add: says_def said_def)
  show ?thesis
  proof (cases "snd burst = []")
    case empty: True
    have "poll_loop ev me SLCAN_RX_BURST 0 c = Some (c\<lparr>sl_vif := fst burst\<rparr>, 0)"
      using poll_loop_says [OF assms(1), of ev me SLCAN_RX_BURST 0] empty by (auto simp: burst_def)
    then show ?thesis using True assms empty by (simp add: slcan_fe_poll_def tx_ok_def)
  next
    case False
    obtain c2 where c2: "slcan_flush c1 = Some c2" "says c1 [] c2" "sl_txlen c2 = 0"
      using flush_says [OF said(3)] by blast
    have "written (sl_link c2) = said c1" "sl_vif c2 = sl_vif c1" "tx_ok c2"
      using c2 said_flushed [OF c2(3)] by (simp_all add: says_def)
    with True False c1(1) c2 said show ?thesis by (simp add: slcan_fe_poll_def)
  qed
qed

lemma slcan_poll_forwards_witness:
  "\<exists>c'. slcan_fe_poll quiet_env 1 (slcan_fe_start \<lparr>sl_bitrate = 0, sl_cmdbuf = [], sl_cmdidx = 0, sl_discard = False,
     sl_txbuf = [], sl_txlen = 0, sl_vif = (vif_stuck, 0), sl_link = []\<rparr>) = Some c' \<and> written (sl_link c') = []"
proof -
  let ?c = "slcan_fe_start \<lparr>sl_bitrate = 0, sl_cmdbuf = [], sl_cmdidx = 0, sl_discard = False,
     sl_txbuf = [], sl_txlen = 0, sl_vif = (vif_stuck, 0 :: nat), sl_link = []\<rparr>"
  have c: "tx_ok ?c" "sl_txlen ?c = 0" "sl_link ?c = []" "sl_vif ?c = (vif_stuck, 0)"
    by (simp_all add: slcan_fe_start_def tx_ok_def)
  have r: "received quiet_env 1 SLCAN_RX_BURST (vif_stuck, 0) = ((vif_stuck, 0), [])"
    by (simp add: SLCAN_RX_BURST_def numeral_eq_Suc can_frame_recv_def vif_bus_recv_def bus_group_def bus_owned_by_def
        on_owner_thread_def vif_stuck_def vif_start_def claim_zero_def quiet_env_def)
  show ?thesis using slcan_poll_forwards [OF c(1,2), of quiet_env 1] c r by (auto split: if_splits)
qed

end
