(* ===== verification/Timing.thy ===== *)
theory Timing
  imports Prelude
begin

text \<open>
The two small pieces that depend on the clock alone: the millisecond timer of \<open>main/timer.c\<close>,
  with the 32-bit arithmetic of the target, and the front panel button of \<open>main/button.c\<close>, one
  call of \<open>button_step\<close> per input.
\<close>

section \<open>The timer\<close>

text \<open>\<open>unsigned long\<close> and \<open>TickType_t\<close> have 32 bits on the target.\<close>

definition configTICK_RATE_HZ :: u32w where "configTICK_RATE_HZ = 1000"

record timer =
  start_ms :: u32w
  timeout_ms :: u32w

definition Timer_init :: "timer \<Rightarrow> timer" where
  "Timer_init t = t\<lparr>start_ms := 0, timeout_ms := 0\<rparr>"

text \<open>\<open>(xTaskGetTickCount() * 1000) / configTICK_RATE_HZ\<close>, where \<open>tick\<close> is the count read.\<close>

definition timer_now_ms :: "u32w \<Rightarrow> u32w" where
  "timer_now_ms tick = (tick * 1000) div configTICK_RATE_HZ"

definition Timer_start :: "u32w \<Rightarrow> u32w \<Rightarrow> timer \<Rightarrow> timer" where
  "Timer_start tick ms t = t\<lparr>timeout_ms := ms, start_ms := timer_now_ms tick\<rparr>"

definition Timer_elapsed_ms :: "u32w \<Rightarrow> timer \<Rightarrow> u32w" where
  "Timer_elapsed_ms tick t = timer_now_ms tick - start_ms t"

definition Timer_is_expired :: "u32w \<Rightarrow> timer \<Rightarrow> bool" where
  "Timer_is_expired tick t \<longleftrightarrow> timer_now_ms tick - start_ms t \<ge> timeout_ms t"

definition Timer_remaining_ms :: "u32w \<Rightarrow> timer \<Rightarrow> u32w" where
  "Timer_remaining_ms tick t =
     (let elapsed_ms = timer_now_ms tick - start_ms t in
      if elapsed_ms \<ge> timeout_ms t then 0 else timeout_ms t - elapsed_ms)"

text \<open>The product wraps: the millisecond clock is a saw tooth.\<close>

lemma timer_now: "unat (timer_now_ms tick) = (unat tick * 1000) mod 4294967296 div 1000"
  by (simp add: timer_now_ms_def configTICK_RATE_HZ_def unat_div unat_word_ariths(2))

lemma timer_now_before: "unat tick < 4294968 \<Longrightarrow> unat (timer_now_ms tick) = unat tick"
  by (simp add: timer_now)

lemma timer_now_at_wrap: "timer_now_ms 4294968 = 0"
  by (simp add: timer_now_ms_def configTICK_RATE_HZ_def)

text \<open>C39: A timer counts milliseconds exactly until tick 4294968, about 71 minutes after the start of
  the firmware: elapsed, expired and remaining are those of the difference of the ticks. At that
  tick the product in the conversion wraps and the millisecond clock falls back to 0, so every
  timer started before, however recently, and with any timeout up to 49 days, has expired and
  reports an elapsed time of more than 49 days.\<close>

theorem timer_exact_until_wrap:
  assumes "1 \<le> unat t0" "unat t0 < 4294968" "unat ms \<le> 4290672328"
  shows "(t0 \<le> t \<and> unat t < 4294968 \<longrightarrow>
      Timer_elapsed_ms t (Timer_start t0 ms x) = t - t0 \<and>
      Timer_is_expired t (Timer_start t0 ms x) = (unat ms \<le> unat t - unat t0) \<and>
      unat (Timer_remaining_ms t (Timer_start t0 ms x)) = unat ms - (unat t - unat t0)) \<and>
    Timer_is_expired 4294968 (Timer_start t0 ms x) \<and> Timer_remaining_ms 4294968 (Timer_start t0 ms x) = 0 \<and>
    unat (Timer_elapsed_ms 4294968 (Timer_start t0 ms x)) \<ge> 4290672328"
proof -
  have n0: "timer_now_ms t0 = t0" using timer_now_before [OF assms(2)] by (simp only: word_unat_eq_iff)
  have "Timer_elapsed_ms t (Timer_start t0 ms x) = t - t0 \<and>
      Timer_is_expired t (Timer_start t0 ms x) = (unat ms \<le> unat t - unat t0) \<and>
      unat (Timer_remaining_ms t (Timer_start t0 ms x)) = unat ms - (unat t - unat t0)"
    if "t0 \<le> t" "unat t < 4294968"
  proof -
    have n: "timer_now_ms t = t" using timer_now_before [OF that(2)] by (simp only: word_unat_eq_iff)
    have d: "unat (t - t0) = unat t - unat t0" using that(1) by (simp add: unat_sub)
    have r: "unat (ms - (t - t0)) = unat ms - (unat t - unat t0)" if "\<not> ms \<le> t - t0"
      using that d by (simp add: unat_sub)
    show ?thesis using d r
      by (auto simp: Timer_elapsed_ms_def Timer_is_expired_def Timer_remaining_ms_def Timer_start_def n n0 Let_def
          word_le_nat_alt)
  qed
  moreover have e: "unat (0 - t0) = 4294967296 - unat t0"
    using assms(1) unat_sub_if' [of 0 t0] by (auto simp: word_le_nat_alt)
  have "unat ms \<le> unat (- t0)" "4290672328 \<le> unat (- t0)" using e assms(2,3) by simp_all
  ultimately show ?thesis
    by (auto simp: Timer_elapsed_ms_def Timer_is_expired_def Timer_remaining_ms_def Timer_start_def n0
        timer_now_at_wrap word_le_nat_alt Let_def)
qed

definition timer_zero :: timer where "timer_zero = \<lparr>start_ms = 0, timeout_ms = 0\<rparr>"

lemma timer_exact_until_wrap_witness:
  "Timer_remaining_ms 4294967 (Timer_start 4294900 1000 timer_zero) = 933 \<and>
    Timer_is_expired 4294968 (Timer_start 4294900 1000 timer_zero)"
proof -
  have "unat (Timer_remaining_ms 4294967 (Timer_start 4294900 1000 timer_zero)) = 933"
    using timer_exact_until_wrap [of 4294900 1000 4294967 timer_zero] by simp
  then have "Timer_remaining_ms 4294967 (Timer_start 4294900 1000 timer_zero) = 933" by (simp only: word_unat_eq_iff) simp
  then show ?thesis using timer_exact_until_wrap [of 4294900 1000 4294967 timer_zero] by simp
qed

section \<open>The front panel button\<close>

definition BUTTON_HOLD_MS :: nat where "BUTTON_HOLD_MS = 2000"
definition BUTTON_LONG_HOLD_MS :: nat where "BUTTON_LONG_HOLD_MS = 10000"
definition BUTTON_CLICK_MIN_MS :: nat where "BUTTON_CLICK_MIN_MS = 100"

text \<open>\<open>g_press_start_us\<close> and the two flags, and whether each callback is registered.\<close>

record button =
  bt_press_start_us :: int
  bt_fired :: bool
  bt_fired_long :: bool
  bt_on_click :: bool
  bt_on_hold :: bool
  bt_on_long_hold :: bool

datatype button_call = Click | Hold | LongHold

text \<open>
  What one call of \<open>button_step\<close> meets: the clock when it starts, whether an edge ends its wait
  and the clock then, and the level once the contact has settled. The clock does not run backwards.
\<close>

record button_input =
  bi_now_us :: int
  bi_edge :: bool
  bi_edge_us :: int
  bi_down :: bool

definition elapsed_ms :: "int \<Rightarrow> int \<Rightarrow> nat" where
  "elapsed_ms now start = u32 (nat ((now - start) div 1000))"

definition button_step :: "button_input \<Rightarrow> button \<Rightarrow> button \<times> button_call list" where
  "button_step i b =
     (if bt_press_start_us b < 0 then
        if \<not> bi_down i then (b, [])
        else (b\<lparr>bt_press_start_us := bi_edge_us i, bt_fired := False, bt_fired_long := False\<rparr>, [])
      else
        let both = bt_fired b \<and> bt_fired_long b;
            elapsed = elapsed_ms (bi_now_us i) (bt_press_start_us b);
            released = both \<or> bi_edge i;
            elapsed = (if \<not> both \<and> released then elapsed_ms (bi_edge_us i) (bt_press_start_us b) else elapsed)
        in if released then
             if bi_down i then (b, [])
             else (b\<lparr>bt_press_start_us := -1\<rparr>,
               if \<not> bt_fired b \<and> elapsed \<ge> BUTTON_CLICK_MIN_MS \<and> bt_on_click b then [Click] else [])
           else if \<not> bt_fired b then (b\<lparr>bt_fired := True\<rparr>, if bt_on_hold b then [Hold] else [])
           else (b\<lparr>bt_fired_long := True\<rparr>, if bt_on_long_hold b then [LongHold] else []))"

text \<open>The calls of a run, one list per press; the last is the press still going on.\<close>

fun button_run :: "button_input list \<Rightarrow> button \<Rightarrow> button_call list \<Rightarrow> button \<times> button_call list list" where
  "button_run [] b cur = (b, [cur])"
| "button_run (i # is') b cur =
     (let (b', calls) = button_step i b in
      if bt_press_start_us b' < 0 \<and> \<not> bt_press_start_us b < 0
      then (let (b'', rest) = button_run is' b' [] in (b'', (cur @ calls) # rest))
      else button_run is' b' (cur @ calls))"

text \<open>What has been called so far in the press that is going on.\<close>

definition press_calls :: "button \<Rightarrow> button_call list" where
  "press_calls b =
     (if bt_press_start_us b < 0 then []
      else (if bt_fired b then (if bt_on_hold b then [Hold] else []) @
        (if bt_fired_long b \<and> bt_on_long_hold b then [LongHold] else []) else []))"

definition button_ok :: "button \<Rightarrow> bool" where
  "button_ok b \<longleftrightarrow> bt_press_start_us b < 0 \<or> (bt_fired_long b \<longrightarrow> bt_fired b)"

lemma button_step_calls:
  assumes "button_ok b" "0 \<le> bi_edge_us i" "button_step i b = (b', calls)"
  shows "button_ok b' \<and>
    (if bt_press_start_us b' < 0 \<and> \<not> bt_press_start_us b < 0
     then press_calls b @ calls \<in> {[], [Click], [Hold], [LongHold], [Hold, LongHold]}
     else press_calls b' = press_calls b @ calls)"
  using assms by (auto simp: button_step_def Let_def button_ok_def press_calls_def split: if_splits)

lemma press_calls_shape: "press_calls b \<in> {[], [Click], [Hold], [LongHold], [Hold, LongHold]}"
  by (auto simp: press_calls_def)

text \<open>One press of the button means one thing: over any run of the button task, with any bouncing
  of the contact, the calls of a press are none, a single click, or a hold that a long hold may
  follow once; a click is never followed or preceded by a hold, and no hold is repeated. (A hold
  or long hold is missing from the list when nobody registered for it.)\<close>

theorem button_press_calls:
  assumes "bt_press_start_us b < 0" "list_all (\<lambda>i. 0 \<le> bi_edge_us i) ins"
  shows "set (snd (button_run ins b [])) \<subseteq> {[], [Click], [Hold], [LongHold], [Hold, LongHold]}"
proof -
  have "set (snd (button_run ins b (press_calls b))) \<subseteq> {[], [Click], [Hold], [LongHold], [Hold, LongHold]}"
    if "button_ok b" for b
    using assms(2) that
  proof (induction ins arbitrary: b)
    case Nil
    then show ?case using press_calls_shape by simp
  next
    case (Cons i ins)
    obtain b' calls where s: "button_step i b = (b', calls)" by fastforce
    note st = button_step_calls [OF Cons.prems(2) _ s]
    have ok: "button_ok b'" using st Cons.prems(1) by simp
    have ih: "set (snd (button_run ins b' (press_calls b'))) \<subseteq> {[], [Click], [Hold], [LongHold], [Hold, LongHold]}"
      using Cons.IH [OF _ ok] Cons.prems(1) by simp
    show ?case
    proof (cases "bt_press_start_us b' < 0 \<and> \<not> bt_press_start_us b < 0")
      case True
      then have "press_calls b' = []" by (simp add: press_calls_def)
      with True s st ih Cons.prems(1) show ?thesis by (auto split: prod.splits)
    next
      case False
      with s st ih Cons.prems(1) show ?thesis by (auto split: prod.splits)
    qed
  qed
  from this [of b] assms(1) show ?thesis by (simp add: button_ok_def press_calls_def)
qed

text \<open>Pressed at 1 s, held past 3 s and 11 s, released at 12 s; then a click of 150 ms.\<close>

lemma button_press_calls_witness:
  "snd (button_run
     [\<lparr>bi_now_us = 0, bi_edge = True, bi_edge_us = 1000000, bi_down = True\<rparr>,
      \<lparr>bi_now_us = 1000000, bi_edge = False, bi_edge_us = 0, bi_down = True\<rparr>,
      \<lparr>bi_now_us = 3000000, bi_edge = False, bi_edge_us = 0, bi_down = True\<rparr>,
      \<lparr>bi_now_us = 11000000, bi_edge = True, bi_edge_us = 12000000, bi_down = False\<rparr>,
      \<lparr>bi_now_us = 13000000, bi_edge = True, bi_edge_us = 13000000, bi_down = True\<rparr>,
      \<lparr>bi_now_us = 13000000, bi_edge = True, bi_edge_us = 13150000, bi_down = False\<rparr>]
     \<lparr>bt_press_start_us = -1, bt_fired = False, bt_fired_long = False, bt_on_click = True, bt_on_hold = True,
       bt_on_long_hold = True\<rparr> []) = [[Hold, LongHold], [Click], []] \<and>
   [Click] \<in> {[], [Click], [Hold], [LongHold], [Hold, LongHold]}"
proof -
  let ?ins = "[\<lparr>bi_now_us = 0, bi_edge = True, bi_edge_us = 1000000, bi_down = True\<rparr>,
      \<lparr>bi_now_us = 1000000, bi_edge = False, bi_edge_us = 0, bi_down = True\<rparr>,
      \<lparr>bi_now_us = 3000000, bi_edge = False, bi_edge_us = 0, bi_down = True\<rparr>,
      \<lparr>bi_now_us = 11000000, bi_edge = True, bi_edge_us = 12000000, bi_down = False\<rparr>,
      \<lparr>bi_now_us = 13000000, bi_edge = True, bi_edge_us = 13000000, bi_down = True\<rparr>,
      \<lparr>bi_now_us = 13000000, bi_edge = True, bi_edge_us = 13150000, bi_down = False\<rparr>]"
  let ?b = "\<lparr>bt_press_start_us = -1, bt_fired = False, bt_fired_long = False, bt_on_click = True,
    bt_on_hold = True, bt_on_long_hold = True\<rparr>"
  have r: "snd (button_run ?ins ?b []) = [[Hold, LongHold], [Click], []]"
    by (simp add: button_step_def Let_def elapsed_ms_def BUTTON_CLICK_MIN_MS_def)
  have "set (snd (button_run ?ins ?b [])) \<subseteq> {[], [Click], [Hold], [LongHold], [Hold, LongHold]}"
    by (rule button_press_calls) simp_all
  with r show ?thesis by auto
qed

end
