(* ===== verification/ElmState.thy ===== *)
theory ElmState
  imports Slcan KlineCodec Timing
begin

text \<open>
  State, output and protocol selection of the ELM327 grammar, \<open>main/elm327_at.c\<close>. The static context
  is the record \<open>elm\<close>, with the vehicle interface and what was handed to the link behind it as in
  \<open>Slcan\<close>. \<open>elm_env\<close> is what the grammar calls outside it: the drivers, the two clocks, a wait, a byte
  read from the link and thrown away, the table of front-ends, and two texts, the battery voltage
  (printed in floating point) and the version of the build. \<open>None\<close> is an access outside a buffer.
  The lemmas: text reaches the output whole and in order, with a line feed after every carriage
  return when the client asked for them.
\<close>

section \<open>The record\<close>

definition ELM327_TX_BUF :: nat where "ELM327_TX_BUF = 512"
definition DEFAULT_TIMEOUT_MS :: nat where "DEFAULT_TIMEOUT_MS = 200"
definition ELM327_TIMING_SAMPLES :: nat where "ELM327_TIMING_SAMPLES = 16"
definition ELM_IDENTIFY :: string where "ELM_IDENTIFY = ''ELM327 v2.3''"
definition ELM327_TESTER_ADDRESS :: byte where "ELM327_TESTER_ADDRESS = 0xF1"
definition J1850_FRAME_CAP :: nat where "J1850_FRAME_CAP = 15"
definition KLINE_FRAME_CAP :: nat where "KLINE_FRAME_CAP = 64"
definition ELM327_BUS_CAP :: nat where "ELM327_BUS_CAP = 64"
definition ELM_LINE_MAX :: nat where "ELM_LINE_MAX = 32"

definition J1850_VPW_DUPLICATE_MS :: nat where "J1850_VPW_DUPLICATE_MS = 20"
definition J1850_PWM_DUPLICATE_MS :: nat where "J1850_PWM_DUPLICATE_MS = 5"

record elm_line =
  ln_cmdbuf :: string
  ln_lastcmd :: string
  ln_cmdidx :: nat
  ln_overflow :: bool
  ln_reset_discard :: bool

datatype elm_ifr_mode = ELM327_IFR_OFF | ELM327_IFR_AUTO | ELM327_IFR_ON

text \<open>Times are milliseconds; an \<open>int\<close> or \<open>uint32_t\<close> of the code that stays small is a \<open>nat\<close>.\<close>

record elm_settings =
  st_timeout :: nat
  st_echo :: bool
  st_show_header :: bool
  st_linefeed :: bool
  st_protocol :: nat
  st_auto_search :: bool
  st_auto_fallback :: bool
  st_std_search_order :: bool
  st_can_auto_format :: bool
  st_can_show_dlc :: bool
  st_header_id :: u32w
  st_hex_spacing :: bool
  st_responses :: bool
  st_adaptive :: nat
  st_tester_address :: byte
  st_auto_receive :: bool
  st_recv_address :: byte
  st_filter_tx :: bool
  st_tx_filter :: byte
  st_ifr_mode :: elm_ifr_mode
  st_ifr_from_source :: bool
  st_iso_init_address :: byte
  st_key_word_check :: bool
  st_iso_baud :: nat
  st_wakeup_ms :: nat
  st_wakeup_msg :: "byte list"
  st_wakeup_len :: nat

text \<open>The sample -1 is \<open>None\<close>.\<close>

record elm_watch =
  rw_active :: bool
  rw_sent_us :: int
  rw_deadline_ms :: nat
  rw_latency_ms :: nat
  rw_sample :: "nat option"
  rw_request :: "byte list"
  rw_request_len :: nat

record elm_timing =
  tm_estimate_ms :: nat
  tm_samples :: "nat list"
  tm_count :: nat
  tm_next :: nat
  tm_last_exchange_us :: int
  tm_window_ms :: nat
  tm_incomplete :: bool
  tm_watch :: elm_watch

definition watch_zero :: elm_watch where
  "watch_zero = \<lparr>rw_active = False, rw_sent_us = 0, rw_deadline_ms = 0, rw_latency_ms = 0,
     rw_sample = Some 0, rw_request = replicate 8 0, rw_request_len = 0\<rparr>"

definition timing_zero :: elm_timing where
  "timing_zero = \<lparr>tm_estimate_ms = 0, tm_samples = replicate ELM327_TIMING_SAMPLES 0, tm_count = 0, tm_next = 0,
     tm_last_exchange_us = 0, tm_window_ms = 0, tm_incomplete = False, tm_watch = watch_zero\<rparr>"

record 'd elm =
  em_tx_buf :: string
  em_tx_len :: nat
  em_settings :: elm_settings
  em_line :: elm_line
  em_timing :: elm_timing
  em_search_first :: nat
  em_in_search :: bool
  em_vif :: "vif \<times> 'd"
  em_link :: "link_op list"
  em_fe_next :: "nat option"

record 'd elm_env =
  en_vif :: "'d vif_env"
  en_me :: nat
  en_time_us :: "'d \<Rightarrow> 'd \<times> int"
  en_tick :: "'d \<Rightarrow> 'd \<times> u32w"
  en_delay :: "nat \<Rightarrow> 'd \<Rightarrow> 'd"
  en_link_read :: "nat \<Rightarrow> 'd \<Rightarrow> 'd"
  en_frontend_find :: "string \<Rightarrow> nat option"
  en_vbatt :: "'d \<Rightarrow> 'd \<times> string"
  en_version :: string

abbreviation sett :: "'d elm \<Rightarrow> elm_settings" where "sett \<equiv> em_settings"

definition upd_set :: "(elm_settings \<Rightarrow> elm_settings) \<Rightarrow> 'd elm \<Rightarrow> 'd elm" where
  "upd_set f e = e\<lparr>em_settings := f (em_settings e)\<rparr>"

definition upd_timing :: "(elm_timing \<Rightarrow> elm_timing) \<Rightarrow> 'd elm \<Rightarrow> 'd elm" where
  "upd_timing f e = e\<lparr>em_timing := f (em_timing e)\<rparr>"

definition upd_watch :: "(elm_watch \<Rightarrow> elm_watch) \<Rightarrow> 'd elm \<Rightarrow> 'd elm" where
  "upd_watch f = upd_timing (\<lambda>t. t\<lparr>tm_watch := f (tm_watch t)\<rparr>)"

definition upd_line :: "(elm_line \<Rightarrow> elm_line) \<Rightarrow> 'd elm \<Rightarrow> 'd elm" where
  "upd_line f e = e\<lparr>em_line := f (em_line e)\<rparr>"

text \<open>A call of the vehicle interface, and of the rest of the environment.\<close>

definition on_vif :: "(vif \<times> 'd \<Rightarrow> (vif \<times> 'd) \<times> 'a) \<Rightarrow> 'd elm \<Rightarrow> 'd elm \<times> 'a" where
  "on_vif f e = (let (gd, r) = f (em_vif e) in (e\<lparr>em_vif := gd\<rparr>, r))"

definition on_env :: "('d \<Rightarrow> 'd \<times> 'a) \<Rightarrow> 'd elm \<Rightarrow> 'd elm \<times> 'a" where
  "on_env f = on_vif (\<lambda>(g, d). let (d, r) = f d in ((g, d), r))"

definition link_release_buses :: "'d elm_env \<Rightarrow> 'd elm \<Rightarrow> 'd elm \<times> esp_err" where
  "link_release_buses en = on_vif (vif_bus_release_all (en_vif en) (en_me en) VIF_OWNER_LINK)"

definition param_set :: "'d elm_env \<Rightarrow> vif_bus \<Rightarrow> bus_param \<Rightarrow> nat \<Rightarrow> 'd elm \<Rightarrow> 'd elm" where
  "param_set en bus p v e =
     fst (on_vif (vif_bus_param_set (en_vif en) (en_me en) VIF_OWNER_LINK bus (bus_param_num p) (of_nat v)) e)"

definition link_ioctl :: "'d elm_env \<Rightarrow> vif_bus \<Rightarrow> u32w \<Rightarrow> ioctl_arg \<Rightarrow> 'd elm \<Rightarrow> 'd elm \<times> int \<times> ioctl_arg" where
  "link_ioctl en bus i arg = on_vif (vif_bus_ioctl (en_vif en) (en_me en) VIF_OWNER_LINK bus (unat i) arg)"

definition bus_up :: "vif_bus \<Rightarrow> 'd elm \<Rightarrow> bool" where
  "bus_up bus e = vif_bus_is_open VIF_OWNER_LINK bus (fst (em_vif e))"

section \<open>Output\<close>

definition elm327_uart_flush :: "'d elm \<Rightarrow> 'd elm option" where
  "elm327_uart_flush e = do {
     e \<leftarrow> (if em_tx_len e \<noteq> 0 then do {
         s \<leftarrow> load_at (em_tx_buf e) 0 (em_tx_len e);
         Some (e\<lparr>em_link := em_link e @ [LinkWrite s], em_tx_len := 0\<rparr>)
       } else Some e);
     Some (e\<lparr>em_link := em_link e @ [LinkFlush]\<rparr>)
   }"

definition elm327_uart_send_bytes :: "string \<Rightarrow> 'd elm \<Rightarrow> 'd elm option" where
  "elm327_uart_send_bytes s e =
     (if length s > ELM327_TX_BUF then Some e
      else do {
        e \<leftarrow> (if length s > sub32 ELM327_TX_BUF (em_tx_len e) then elm327_uart_flush e else Some e);
        buf \<leftarrow> store_at (em_tx_buf e) (em_tx_len e) s;
        Some (e\<lparr>em_tx_buf := buf, em_tx_len := em_tx_len e + length s\<rparr>)
      })"

abbreviation LF :: char where "LF \<equiv> CHR 0x0A"

text \<open>The loop over the text: \<open>seg\<close> is what lies between \<open>start\<close> and the position.\<close>

fun send_text_loop :: "string \<Rightarrow> string \<Rightarrow> 'd elm \<Rightarrow> 'd elm option" where
  "send_text_loop seg [] e = (if seg \<noteq> [] then elm327_uart_send_bytes seg e else Some e)"
| "send_text_loop seg (c # s) e =
     (if c \<noteq> CR then send_text_loop (seg @ [c]) s e
      else do {
        e \<leftarrow> elm327_uart_send_bytes (seg @ [c]) e;
        e \<leftarrow> elm327_uart_send_bytes [LF] e;
        send_text_loop [] s e
      })"

definition elm327_uart_send_text :: "string \<Rightarrow> 'd elm \<Rightarrow> 'd elm option" where
  "elm327_uart_send_text s e =
     (if \<not> st_linefeed (sett e) then elm327_uart_send_bytes s e else send_text_loop [] s e)"

definition elm327_send_string :: "string \<Rightarrow> 'd elm \<Rightarrow> 'd elm option" where
  "elm327_send_string s e = elm327_uart_send_text s e"

abbreviation OK :: "'d elm \<Rightarrow> 'd elm option" where "OK \<equiv> elm327_send_string (''OK'' @ [CR])"
abbreviation WHAT :: "'d elm \<Rightarrow> 'd elm option" where "WHAT \<equiv> elm327_send_string (''?'' @ [CR])"

text \<open>\<open>%X\<close>, \<open>%02X\<close>, \<open>%03X\<close> and \<open>%08X\<close>.\<close>

fun hex_of :: "nat \<Rightarrow> string" where
  "hex_of n = (if n < 16 then [hex_digit n] else hex_of (n div 16) @ [hex_digit n])"

declare hex_of.simps [simp del]

definition hex_pad :: "nat \<Rightarrow> nat \<Rightarrow> string" where
  "hex_pad w n = replicate (w - length (hex_of n)) (CHR ''0'') @ hex_of n"

section \<open>Defaults\<close>

definition settings_default :: "elm_settings \<Rightarrow> elm_settings" where
  "settings_default s = s\<lparr>st_timeout := DEFAULT_TIMEOUT_MS, st_echo := True, st_show_header := False,
     st_linefeed := False, st_protocol := 0, st_auto_search := False, st_auto_fallback := False,
     st_std_search_order := False, st_can_auto_format := True, st_can_show_dlc := False, st_header_id := 0,
     st_hex_spacing := True, st_responses := True, st_adaptive := 1, st_tester_address := ELM327_TESTER_ADDRESS,
     st_auto_receive := True, st_recv_address := 0, st_filter_tx := False, st_tx_filter := 0,
     st_ifr_mode := ELM327_IFR_AUTO, st_ifr_from_source := False, st_iso_init_address := KLINE_INIT_ADDR_OBD,
     st_key_word_check := True, st_iso_baud := KLINE_BAUD_DEFAULT, st_wakeup_ms := 0x92 * 20, st_wakeup_len := 0\<rparr>"

definition elm327_load_defaults :: "'d elm \<Rightarrow> 'd elm" where
  "elm327_load_defaults e =
     (upd_set settings_default e)\<lparr>em_timing := timing_zero, em_search_first := 0\<rparr>"

definition settings_zero :: elm_settings where
  "settings_zero = \<lparr>st_timeout = 0, st_echo = False, st_show_header = False, st_linefeed = False, st_protocol = 0,
     st_auto_search = False, st_auto_fallback = False, st_std_search_order = False, st_can_auto_format = False,
     st_can_show_dlc = False, st_header_id = 0, st_hex_spacing = False, st_responses = False, st_adaptive = 0,
     st_tester_address = 0, st_auto_receive = False, st_recv_address = 0, st_filter_tx = False, st_tx_filter = 0,
     st_ifr_mode = ELM327_IFR_OFF, st_ifr_from_source = False, st_iso_init_address = 0, st_key_word_check = False,
     st_iso_baud = 0, st_wakeup_ms = 0, st_wakeup_msg = replicate BUS_PERIODIC_MAX 0, st_wakeup_len = 0\<rparr>"

definition line_zero :: elm_line where
  "line_zero = \<lparr>ln_cmdbuf = replicate ELM_LINE_MAX NUL, ln_lastcmd = replicate ELM_LINE_MAX NUL, ln_cmdidx = 0,
     ln_overflow = False, ln_reset_discard = False\<rparr>"

text \<open>\<open>memset\<close> of the context, then the defaults.\<close>

definition elm327_fe_start :: "'d elm \<Rightarrow> 'd elm \<times> bool" where
  "elm327_fe_start e =
     (elm327_load_defaults (e\<lparr>em_tx_buf := replicate ELM327_TX_BUF NUL, em_tx_len := 0, em_settings := settings_zero,
        em_line := line_zero, em_timing := timing_zero, em_search_first := 0, em_in_search := False\<rparr>), True)"

section \<open>Protocols\<close>

definition ELM327_PROTO_AUTO :: nat where "ELM327_PROTO_AUTO = 0"
definition ELM327_PROTO_J1850_PWM :: nat where "ELM327_PROTO_J1850_PWM = 1"
definition ELM327_PROTO_J1850_VPW :: nat where "ELM327_PROTO_J1850_VPW = 2"
definition ELM327_PROTO_ISO9141 :: nat where "ELM327_PROTO_ISO9141 = 3"
definition ELM327_PROTO_ISO14230_KWP_5BAUD :: nat where "ELM327_PROTO_ISO14230_KWP_5BAUD = 4"
definition ELM327_PROTO_ISO14230_KWP_FAST :: nat where "ELM327_PROTO_ISO14230_KWP_FAST = 5"
definition ELM327_PROTO_CAN_11BIT_500K :: nat where "ELM327_PROTO_CAN_11BIT_500K = 6"
definition ELM327_PROTO_CAN_29BIT_500K :: nat where "ELM327_PROTO_CAN_29BIT_500K = 7"
definition ELM327_PROTO_CAN_11BIT_250K :: nat where "ELM327_PROTO_CAN_11BIT_250K = 8"
definition ELM327_PROTO_CAN_29BIT_250K :: nat where "ELM327_PROTO_CAN_29BIT_250K = 9"
definition ELM327_PROTO_CAN_SAE_J1939 :: nat where "ELM327_PROTO_CAN_SAE_J1939 = 10"
definition ELM327_PROTO_CAN_USER1 :: nat where "ELM327_PROTO_CAN_USER1 = 11"
definition ELM327_PROTO_CAN_USER2 :: nat where "ELM327_PROTO_CAN_USER2 = 12"

lemmas proto_defs = ELM327_PROTO_AUTO_def ELM327_PROTO_J1850_PWM_def ELM327_PROTO_J1850_VPW_def
  ELM327_PROTO_ISO9141_def ELM327_PROTO_ISO14230_KWP_5BAUD_def ELM327_PROTO_ISO14230_KWP_FAST_def
  ELM327_PROTO_CAN_11BIT_500K_def ELM327_PROTO_CAN_29BIT_500K_def ELM327_PROTO_CAN_11BIT_250K_def
  ELM327_PROTO_CAN_29BIT_250K_def ELM327_PROTO_CAN_SAE_J1939_def ELM327_PROTO_CAN_USER1_def
  ELM327_PROTO_CAN_USER2_def

text \<open>The bus, its bit rate and the request header.\<close>

definition elm327_bus_for_protocol :: "nat \<Rightarrow> vif_bus \<times> nat \<times> u32w" where
  "elm327_bus_for_protocol p =
     (if p = ELM327_PROTO_J1850_PWM then (VIF_BUS_J1850_PWM, 0, 0x616af1)
      else if p = ELM327_PROTO_J1850_VPW then (VIF_BUS_J1850_VPW, 0, 0x686af1)
      else if p = ELM327_PROTO_ISO9141 then (VIF_BUS_KLINE, 0, 0x686af1)
      else if p = ELM327_PROTO_ISO14230_KWP_5BAUD \<or> p = ELM327_PROTO_ISO14230_KWP_FAST
        then (VIF_BUS_KLINE, 0, 0xc233f1)
      else if p = ELM327_PROTO_CAN_11BIT_250K then (VIF_BUS_CAN, 250000, 0x7DF)
      else if p = ELM327_PROTO_CAN_11BIT_500K then (VIF_BUS_CAN, 500000, 0x7DF)
      else if p = ELM327_PROTO_CAN_29BIT_250K then (VIF_BUS_CAN, 250000, 0x18DB33F1)
      else if p = ELM327_PROTO_CAN_29BIT_500K then (VIF_BUS_CAN, 500000, 0x18DB33F1)
      else (VIF_BUS_NONE, 0, 0))"

definition elm327_bus :: "'d elm \<Rightarrow> vif_bus" where
  "elm327_bus e = fst (elm327_bus_for_protocol (st_protocol (sett e)))"

definition elm327_apply_bus_policy :: "'d elm_env \<Rightarrow> vif_bus \<Rightarrow> nat \<Rightarrow> 'd elm \<Rightarrow> 'd elm" where
  "elm327_apply_bus_policy en bus p e =
     (let e = param_set en bus BUS_P_TX_RETRIES 1 e;
          e = param_set en bus BUS_P_PERIODIC_QUIET 1 e;
          e = param_set en bus BUS_P_DUPLICATE_MS
            (if p = ELM327_PROTO_J1850_VPW then J1850_VPW_DUPLICATE_MS
             else if p = ELM327_PROTO_J1850_PWM then J1850_PWM_DUPLICATE_MS else 0) e;
          e = param_set en bus BUS_P_LOOPBACK 0 e
      in if p = ELM327_PROTO_J1850_PWM
         then param_set en bus BUS_P_IFR_ENABLED (if st_ifr_mode (sett e) \<noteq> ELM327_IFR_OFF then 1 else 0) e
         else e)"

definition open_bus :: "'d elm_env \<Rightarrow> vif_bus \<Rightarrow> nat \<Rightarrow> 'd elm \<Rightarrow> 'd elm \<times> esp_err" where
  "open_bus en bus bitrate = on_vif (vif_bus_open (en_vif en) (en_me en) VIF_OWNER_LINK bus
     (Some \<lparr>bc_bitrate = bitrate, bc_manual_recovery = False\<rparr>))"

definition elm327_set_protocol :: "'d elm_env \<Rightarrow> nat \<Rightarrow> 'd elm \<Rightarrow> 'd elm \<times> int" where
  "elm327_set_protocol en proto e =
     (let e = (if proto = ELM327_PROTO_AUTO then upd_set (\<lambda>s. s\<lparr>st_auto_fallback := False\<rparr>) e else e);
          (bus, bitrate, header_id) = elm327_bus_for_protocol proto
      in if st_protocol (sett e) = proto \<and> (bus = VIF_BUS_NONE \<or> bus_up bus e) then (e, 0)
         else
           let e = (if st_protocol (sett e) = ELM327_PROTO_AUTO
                 then upd_set (\<lambda>s. s\<lparr>st_auto_search := False\<rparr>) e else e)
           in if bus = VIF_BUS_NONE then
                (if proto = ELM327_PROTO_AUTO
                 then (upd_set (\<lambda>s. s\<lparr>st_protocol := proto\<rparr>) (e\<lparr>em_search_first := st_protocol (sett e)\<rparr>), 0)
                 else
                   let (e, err) = link_release_buses en e
                   in if err \<noteq> ESP_OK then (e, -1)
                      else (upd_set (\<lambda>s. s\<lparr>st_protocol := proto\<rparr>) (e\<lparr>em_search_first := 0\<rparr>), 0))
              else if bus \<noteq> VIF_BUS_CAN \<and> bus_up bus e
                then (upd_set (\<lambda>s. s\<lparr>st_header_id := header_id, st_protocol := proto\<rparr>) e, 0)
              else
                let (e, err) = link_release_buses en (e\<lparr>em_timing := timing_zero\<rparr>)
                in if err \<noteq> ESP_OK then (e, -1)
                   else
                     let (e, err) = open_bus en bus bitrate e
                     in if err \<noteq> ESP_OK then (upd_set (\<lambda>s. s\<lparr>st_protocol := ELM327_PROTO_AUTO\<rparr>) e, -1)
                        else
                          let e = elm327_apply_bus_policy en bus proto e
                          in (upd_set (\<lambda>s. s\<lparr>st_header_id := header_id, st_protocol := proto\<rparr>)
                               (e\<lparr>em_timing := timing_zero\<rparr>), 0))"

definition elm327_reset :: "'d elm_env \<Rightarrow> 'd elm \<Rightarrow> 'd elm \<times> esp_err" where
  "elm327_reset en e =
     (let (e, err) = link_release_buses en e;
          (e, _) = on_vif (\<lambda>(g, d). ((vif_pin_release_all VIF_OWNER_LINK g, d), ())) e
      in if err \<noteq> ESP_OK then (e, err)
         else (elm327_load_defaults (fst (elm327_set_protocol en ELM327_PROTO_AUTO e)), ESP_OK))"

definition elm327_protocol_name :: "nat \<Rightarrow> string" where
  "elm327_protocol_name p =
     (if p = ELM327_PROTO_AUTO then ''AUTO''
      else if p = ELM327_PROTO_J1850_PWM then ''SAE J1850 PWM''
      else if p = ELM327_PROTO_J1850_VPW then ''SAE J1850 VPW''
      else if p = ELM327_PROTO_ISO9141 then ''ISO 9141-2''
      else if p = ELM327_PROTO_ISO14230_KWP_5BAUD then ''ISO 14230-4 (KWP 5BAUD)''
      else if p = ELM327_PROTO_ISO14230_KWP_FAST then ''ISO 14230-4 (KWP FAST)''
      else if p = ELM327_PROTO_CAN_11BIT_500K then ''ISO 15765-4 (CAN 11/500)''
      else if p = ELM327_PROTO_CAN_29BIT_500K then ''ISO 15765-4 (CAN 29/500)''
      else if p = ELM327_PROTO_CAN_11BIT_250K then ''ISO 15765-4 (CAN 11/250)''
      else if p = ELM327_PROTO_CAN_29BIT_250K then ''ISO 15765-4 (CAN 29/250)''
      else if p = ELM327_PROTO_CAN_SAE_J1939 then ''SAE J1939 (CAN 29/250)''
      else if p = ELM327_PROTO_CAN_USER1 then ''USER1 (CAN 11/125)''
      else if p = ELM327_PROTO_CAN_USER2 then ''USER2 (CAN 11/50)''
      else ''UNKNOWN'')"

section \<open>Arguments of commands\<close>

text \<open>A C string is the characters before its terminator; \<open>arg @ [NUL]\<close> is its memory.\<close>

definition VOLTAGE_PIN_OFF :: u32w where "VOLTAGE_PIN_OFF = 0xffffffff"
definition VOLTAGE_SHORT_TO_GROUND :: u32w where "VOLTAGE_SHORT_TO_GROUND = 0xfffffffe"

definition at_set_programing_voltage :: "string \<Rightarrow> 'd elm \<Rightarrow> ('d elm \<times> int) option" where
  "at_set_programing_voltage arg e = do {
     c \<leftarrow> get_at (arg @ [NUL]) 0;
     let pin = hex_char_to_int c in
     if pin < 0 then Some (e, -1)
     else do {
       v \<leftarrow> hex_string_to_u32_be (drop 1 (arg @ [NUL])) 8;
       case v of
         None \<Rightarrow> Some (e, -2)
       | Some voltage \<Rightarrow>
           let mode = (if voltage = VOLTAGE_PIN_OFF then VIF_PIN_OFF
                 else if voltage = VOLTAGE_SHORT_TO_GROUND then VIF_PIN_GROUND else VIF_PIN_VOLTAGE);
               (e, err) = on_vif (\<lambda>(g, d). let (g, err) = vif_pin_set VIF_OWNER_LINK pin mode (unat voltage) g
                 in ((g, d), err)) e
           in Some (e, if err \<noteq> ESP_OK then -3 else 0)
     }
   }"

definition at_parse_byte :: "string \<Rightarrow> byte option" where
  "at_parse_byte arg =
     (if length arg \<noteq> 2 then None
      else let hi = hex_char_to_int (arg ! 0); lo = hex_char_to_int (arg ! 1)
        in if hi < 0 \<or> lo < 0 then None
           else Some (push_bit 4 (word_of_int hi) OR word_of_int lo))"

definition at_set_header :: "string \<Rightarrow> 'd elm \<Rightarrow> ('d elm \<times> int) option" where
  "at_set_header arg e =
     (let len = length arg in
      if len \<noteq> 3 \<and> len \<noteq> 6 \<and> len \<noteq> 8 then Some (e, -1)
      else do {
        i \<leftarrow> hex_string_to_u32_be (arg @ [NUL]) len;
        case i of
          None \<Rightarrow> Some (e, -2)
        | Some i \<Rightarrow> Some (upd_set (\<lambda>s. s\<lparr>st_header_id := i\<rparr>) e, 0)
      })"

definition elm327_apply_pwm_ifr :: "'d elm_env \<Rightarrow> byte \<Rightarrow> 'd elm \<Rightarrow> 'd elm" where
  "elm327_apply_pwm_ifr en header_source e =
     (if elm327_bus e \<noteq> VIF_BUS_J1850_PWM then e
      else
        let source = (if st_ifr_from_source (sett e) then st_tester_address (sett e) else header_source);
            e = param_set en VIF_BUS_J1850_PWM BUS_P_IFR_BYTE (unat source) e
        in param_set en VIF_BUS_J1850_PWM BUS_P_IFR_ENABLED (if st_ifr_mode (sett e) \<noteq> ELM327_IFR_OFF then 1 else 0) e)"

definition at_set_ifr :: "'d elm_env \<Rightarrow> string \<Rightarrow> 'd elm \<Rightarrow> 'd elm \<times> int" where
  "at_set_ifr en arg e =
     (let apply_ifr = (\<lambda>e. (elm327_apply_pwm_ifr en (ucast (st_header_id (sett e))) e, 0)) in
      if arg = ''H'' then apply_ifr (upd_set (\<lambda>s. s\<lparr>st_ifr_from_source := False\<rparr>) e)
      else if arg = ''S'' then apply_ifr (upd_set (\<lambda>s. s\<lparr>st_ifr_from_source := True\<rparr>) e)
      else if arg = ''0'' \<or> arg = ''4'' then apply_ifr (upd_set (\<lambda>s. s\<lparr>st_ifr_mode := ELM327_IFR_OFF\<rparr>) e)
      else if arg = ''1'' \<or> arg = ''5'' then apply_ifr (upd_set (\<lambda>s. s\<lparr>st_ifr_mode := ELM327_IFR_AUTO\<rparr>) e)
      else if arg = ''2'' \<or> arg = ''6'' then apply_ifr (upd_set (\<lambda>s. s\<lparr>st_ifr_mode := ELM327_IFR_ON\<rparr>) e)
      else (e, -1))"

definition elm327_protocol_is_auto :: "'d elm \<Rightarrow> bool" where
  "elm327_protocol_is_auto e \<longleftrightarrow> st_auto_search (sett e) \<or> st_auto_fallback (sett e)"

definition elm327_parse_proto_arg :: "string \<Rightarrow> (nat \<times> bool) option" where
  "elm327_parse_proto_arg arg =
     (if length arg = 1 then
        (if hex_char_to_int (arg ! 0) < 0 then None else Some (nat (hex_char_to_int (arg ! 0)), False))
      else if length arg \<noteq> 2 then None
      else if arg ! 0 \<noteq> CHR ''A'' \<and> arg ! 1 \<noteq> CHR ''A'' then
        (if arg = ''00'' then Some (ELM327_PROTO_AUTO, False) else None)
      else
        let digit = hex_char_to_int (if arg ! 0 = CHR ''A'' then arg ! 1 else arg ! 0)
        in if digit < 0 then None else Some (nat digit, True))"

definition elm327_select_protocol_cmd :: "'d elm_env \<Rightarrow> string \<Rightarrow> 'd elm \<Rightarrow> 'd elm option" where
  "elm327_select_protocol_cmd en arg e = (case elm327_parse_proto_arg arg of
       None \<Rightarrow> WHAT e
     | Some (proto, fallback) \<Rightarrow>
         if proto > ELM327_PROTO_CAN_USER2 then WHAT e
         else
           let (e, rc) = elm327_set_protocol en proto e
           in if rc \<noteq> 0 then WHAT e
              else OK (upd_set (\<lambda>s. s\<lparr>st_auto_fallback := (fallback \<and> proto \<noteq> ELM327_PROTO_AUTO)\<rparr>) e))"

section \<open>What reaches the output\<close>

definition elm_said :: "'d elm \<Rightarrow> string" where
  "elm_said e = written (em_link e) @ take (em_tx_len e) (em_tx_buf e)"

definition elm_tx_ok :: "'d elm \<Rightarrow> bool" where
  "elm_tx_ok e \<longleftrightarrow> length (em_tx_buf e) = ELM327_TX_BUF \<and> em_tx_len e \<le> ELM327_TX_BUF"

text \<open>Nothing but the output changed, and \<open>s\<close> was added to it.\<close>

definition elm_says :: "'d elm \<Rightarrow> string \<Rightarrow> 'd elm \<Rightarrow> bool" where
  "elm_says e s e' \<longleftrightarrow> elm_tx_ok e' \<and> elm_said e' = elm_said e @ s \<and>
     (\<exists>b n l. e' = e\<lparr>em_tx_buf := b, em_tx_len := n, em_link := l\<rparr>)"

lemma elm_says_refl: "elm_tx_ok e \<Longrightarrow> elm_says e [] e"
  unfolding elm_says_def by (intro conjI exI [of _ "em_tx_buf e"] exI [of _ "em_tx_len e"] exI [of _ "em_link e"]) simp_all

lemma elm_says_trans:
  assumes "elm_says e s e'" "elm_says e' t e''"
  shows "elm_says e (s @ t) e''"
proof -
  obtain b n l where 1: "e' = e\<lparr>em_tx_buf := b, em_tx_len := n, em_link := l\<rparr>" "elm_said e' = elm_said e @ s"
    using assms(1) by (auto simp only: elm_says_def)
  obtain b' n' l' where 2: "e'' = e'\<lparr>em_tx_buf := b', em_tx_len := n', em_link := l'\<rparr>" "elm_tx_ok e''"
    "elm_said e'' = elm_said e' @ t" using assms(2) by (auto simp only: elm_says_def)
  have "e'' = e\<lparr>em_tx_buf := b', em_tx_len := n', em_link := l'\<rparr>" using 1(1) 2(1) by simp
  then show ?thesis using 1(2) 2(2,3) unfolding elm_says_def by (metis append_assoc)
qed

lemma elm_says_ok: "elm_says e s e' \<Longrightarrow> elm_tx_ok e'"
  by (simp add: elm_says_def)

lemma elm_says_same: "elm_says e s e' \<Longrightarrow> sett e' = sett e \<and> em_line e' = em_line e \<and> em_timing e' = em_timing e \<and>
    em_vif e' = em_vif e \<and> em_in_search e' = em_in_search e \<and> em_search_first e' = em_search_first e"
  by (auto simp: elm_says_def)

lemma elm_flush_says:
  assumes "elm_tx_ok e"
  shows "\<exists>e'. elm327_uart_flush e = Some e' \<and> elm_says e [] e' \<and> em_tx_len e' = 0"
proof (cases "em_tx_len e = 0")
  case True
  then have "elm327_uart_flush e = Some (e\<lparr>em_link := em_link e @ [LinkFlush]\<rparr>)" by (simp add: elm327_uart_flush_def)
  moreover have "elm_says e [] (e\<lparr>em_link := em_link e @ [LinkFlush]\<rparr>)"
    unfolding elm_says_def
    by (intro conjI exI [of _ "em_tx_buf e"] exI [of _ "em_tx_len e"] exI [of _ "em_link e @ [LinkFlush]"])
       (use assms in \<open>simp_all add: elm_tx_ok_def elm_said_def\<close>)
  ultimately show ?thesis using True by simp
next
  case False
  let ?s = "take (em_tx_len e) (em_tx_buf e)"
  let ?e = "e\<lparr>em_link := (em_link e @ [LinkWrite ?s]) @ [LinkFlush], em_tx_len := 0\<rparr>"
  have "elm327_uart_flush e = Some ?e" using assms False by (simp add: elm327_uart_flush_def elm_tx_ok_def)
  moreover have "elm_says e [] ?e"
    unfolding elm_says_def
    by (intro conjI exI [of _ "em_tx_buf e"] exI [of _ 0] exI [of _ "em_link ?e"])
       (use assms in \<open>simp_all add: elm_tx_ok_def elm_said_def\<close>)
  ultimately show ?thesis by (intro exI [of _ ?e]) simp
qed

lemma send_bytes_says:
  assumes "elm_tx_ok e" "length s \<le> ELM327_TX_BUF"
  shows "\<exists>e'. elm327_uart_send_bytes s e = Some e' \<and> elm_says e s e'"
proof -
  obtain e1 where e1: "(if length s > sub32 ELM327_TX_BUF (em_tx_len e) then elm327_uart_flush e else Some e) = Some e1"
    "elm_says e [] e1" "length s + em_tx_len e1 \<le> ELM327_TX_BUF"
  proof (cases "length s > sub32 ELM327_TX_BUF (em_tx_len e)")
    case True
    with elm_flush_says [OF assms(1)] assms(2) that show ?thesis by auto
  next
    case False
    with assms have "length s + em_tx_len e \<le> ELM327_TX_BUF" unfolding elm_tx_ok_def ELM327_TX_BUF_def
      by (auto simp: not_less le_diff_conv2)
    with False that elm_says_refl [OF assms(1)] show ?thesis by auto
  qed
  have len: "length (em_tx_buf e1) = ELM327_TX_BUF" using elm_says_ok [OF e1(2)] by (simp add: elm_tx_ok_def)
  let ?buf = "take (em_tx_len e1) (em_tx_buf e1) @ s @ drop (em_tx_len e1 + length s) (em_tx_buf e1)"
  let ?e = "e1\<lparr>em_tx_buf := ?buf, em_tx_len := em_tx_len e1 + length s\<rparr>"
  have "elm327_uart_send_bytes s e = Some ?e"
    using assms(2) e1(1,3) len by (simp add: elm327_uart_send_bytes_def)
  moreover have "elm_says e1 s ?e"
    unfolding elm_says_def
    by (intro conjI exI [of _ ?buf] exI [of _ "em_tx_len e1 + length s"] exI [of _ "em_link e1"])
       (use e1(3) len in \<open>simp_all add: elm_tx_ok_def elm_said_def\<close>)
  ultimately show ?thesis using elm_says_trans [OF e1(2)] by (metis append_Nil)
qed

text \<open>A line feed after every carriage return, when the client asked for it.\<close>

definition eol :: "'d elm \<Rightarrow> string \<Rightarrow> string" where
  "eol e s = (if st_linefeed (sett e) then concat (map (\<lambda>c. if c = CR then [CR, LF] else [c]) s) else s)"

lemma eol_append [simp]: "eol e (s @ t) = eol e s @ eol e t"
  by (simp add: eol_def)

lemma eol_same: "elm_says e s e' \<Longrightarrow> eol e' t = eol e t"
  using elm_says_same [of e s e'] by (simp add: eol_def)

lemma send_text_loop_says:
  assumes "elm_tx_ok e" "length seg + length s \<le> ELM327_TX_BUF"
  shows "\<exists>e'. send_text_loop seg s e = Some e' \<and> elm_says e (seg @ concat (map (\<lambda>c. if c = CR then [CR, LF] else [c]) s)) e'"
  using assms
proof (induction s arbitrary: seg e)
  case Nil
  then show ?case using send_bytes_says [OF Nil.prems(1), of seg] elm_says_refl [OF Nil.prems(1)]
    by (cases "seg = []") auto
next
  case (Cons c s)
  show ?case
  proof (cases "c = CR")
    case False
    then show ?thesis using Cons.IH [OF Cons.prems(1), of "seg @ [c]"] Cons.prems(2) by simp
  next
    case True
    obtain e1 where e1: "elm327_uart_send_bytes (seg @ [c]) e = Some e1" "elm_says e (seg @ [c]) e1"
      using send_bytes_says [OF Cons.prems(1), of "seg @ [c]"] Cons.prems(2) by auto
    obtain e2 where e2: "elm327_uart_send_bytes [LF] e1 = Some e2" "elm_says e1 [LF] e2"
      using send_bytes_says [OF elm_says_ok [OF e1(2)], of "[LF]"] by (auto simp: ELM327_TX_BUF_def)
    obtain e3 where e3: "send_text_loop [] s e2 = Some e3"
      "elm_says e2 ([] @ concat (map (\<lambda>c. if c = CR then [CR, LF] else [c]) s)) e3"
      using Cons.IH [OF elm_says_ok [OF e2(2)], of "[]"] Cons.prems(2) by auto
    have "elm_says e ((seg @ [c]) @ [LF] @ concat (map (\<lambda>c. if c = CR then [CR, LF] else [c]) s)) e3"
      using elm_says_trans [OF e1(2) elm_says_trans [OF e2(2) e3(2)]] by simp
    then show ?thesis using True e1(1) e2(1) e3(1) by simp
  qed
qed

lemma send_text_says:
  assumes "elm_tx_ok e" "length s \<le> ELM327_TX_BUF"
  shows "\<exists>e'. elm327_uart_send_text s e = Some e' \<and> elm_says e (eol e s) e'"
  using send_text_loop_says [OF assms(1), of "[]" s] send_bytes_says [OF assms] assms(2)
  by (simp add: elm327_uart_send_text_def eol_def)

lemma send_string_says:
  "elm_tx_ok e \<Longrightarrow> length s \<le> ELM327_TX_BUF \<Longrightarrow> \<exists>e'. elm327_send_string s e = Some e' \<and> elm_says e (eol e s) e'"
  unfolding elm327_send_string_def by (rule send_text_says)

end
