(* ===== verification/ElmTiming.thy ===== *)
theory ElmTiming
  imports ElmState
begin

text \<open>
  How long the ELM327 grammar waits for replies, \<open>main/elm327_at.c\<close> from \<open>elm327_timeout_limit\<close> to
  \<open>elm327_timing_finish\<close>: the window a client sets with AT ST, and the shorter one learned from the
  replies of the vehicle. A \<open>uint32_t\<close> is a \<open>nat\<close>, truncated where a sum of measured times could wrap;
  a division by zero or an index outside the sixteen samples is \<open>None\<close>.
  The lemmas: no sequence of exchanges divides by zero or leaves the samples, the window never
  exceeds what the client allowed, and the estimate moves towards what the samples call for without
  passing it.
\<close>

section \<open>The code\<close>

definition ELM327_SEARCH_MIN_MS :: nat where "ELM327_SEARCH_MIN_MS = 200"
definition ELM327_RESPONSE_PENDING_MS :: nat where "ELM327_RESPONSE_PENDING_MS = 3000"
definition ELM327_ADAPTIVE_MIN_AT1_MS :: nat where "ELM327_ADAPTIVE_MIN_AT1_MS = 30"
definition ELM327_ADAPTIVE_MIN_AT2_MS :: nat where "ELM327_ADAPTIVE_MIN_AT2_MS = 20"
definition ELM327_ADAPTIVE_IDLE_START_MS :: nat where "ELM327_ADAPTIVE_IDLE_START_MS = 1000"
definition ELM327_ADAPTIVE_IDLE_FULL_MS :: nat where "ELM327_ADAPTIVE_IDLE_FULL_MS = 5000"

definition time_us :: "'d elm_env \<Rightarrow> 'd elm \<Rightarrow> 'd elm \<times> int" where
  "time_us en = on_env (en_time_us en)"

definition elm327_timeout_limit :: "'d elm \<Rightarrow> nat" where
  "elm327_timeout_limit e =
     (if em_in_search e \<and> st_timeout (sett e) < ELM327_SEARCH_MIN_MS then ELM327_SEARCH_MIN_MS
      else st_timeout (sett e))"

definition elm327_reply_window :: "'d elm_env \<Rightarrow> 'd elm \<Rightarrow> 'd elm \<times> nat" where
  "elm327_reply_window en e =
     (let limit = elm327_timeout_limit e; window = tm_estimate_ms (em_timing e) in
      if st_adaptive (sett e) = 0 \<or> window = 0 \<or> em_in_search e then (e, limit)
      else
        let window = min window limit in
        if tm_last_exchange_us (em_timing e) = 0 then (e, window)
        else
          let (e, now) = time_us en e;
              idle_ms = (now - tm_last_exchange_us (em_timing e)) div 1000
          in if idle_ms \<ge> int ELM327_ADAPTIVE_IDLE_FULL_MS then (e, limit)
             else if idle_ms > int ELM327_ADAPTIVE_IDLE_START_MS
             then (e, window + (limit - window) * nat (idle_ms - int ELM327_ADAPTIVE_IDLE_START_MS) div
               (ELM327_ADAPTIVE_IDLE_FULL_MS - ELM327_ADAPTIVE_IDLE_START_MS))
             else (e, window))"

definition elm327_latency_margin :: "'d elm \<Rightarrow> nat \<Rightarrow> nat" where
  "elm327_latency_margin e latency_ms =
     (let limit = elm327_timeout_limit e;
          aggressive = (st_adaptive (sett e) = 2);
          minimum = (if aggressive then ELM327_ADAPTIVE_MIN_AT2_MS else ELM327_ADAPTIVE_MIN_AT1_MS);
          target = (if latency_ms < limit
            then let divisor = (if aggressive then 4 else 2) in latency_ms + (latency_ms + divisor - 1) div divisor
            else limit)
      in min (max target minimum) limit)"

definition elm327_timing_target :: "'d elm \<Rightarrow> nat option" where
  "elm327_timing_target e = do {
     samples \<leftarrow> load_at (tm_samples (em_timing e)) 0 (tm_count (em_timing e));
     if tm_count (em_timing e) = 0 then None
     else
       let n = tm_count (em_timing e);
           peak = fold max samples 0;
           mean = (sum_list samples + n - 1) div n;
           deviation = (sum_list (map (\<lambda>x. if x > mean then x - mean else mean - x) samples) + n - 1) div n;
           target = mean + 4 + deviation * (if st_adaptive (sett e) = 2 then 2 else 4);
           target = max target (elm327_latency_margin e peak)
       in Some (min target (elm327_timeout_limit e))
   }"

definition elm327_timing_update :: "bool \<Rightarrow> 'd elm \<Rightarrow> 'd elm option" where
  "elm327_timing_update allow_shrink e = do {
     target \<leftarrow> elm327_timing_target e;
     let est = tm_estimate_ms (em_timing e) in
     Some (if est = 0 \<or> target > est then upd_timing (\<lambda>t. t\<lparr>tm_estimate_ms := u16 target\<rparr>) e
       else if allow_shrink then upd_timing (\<lambda>t. t\<lparr>tm_estimate_ms := est - (est - target + 7) div 8\<rparr>) e
       else e)
   }"

definition elm327_collection_window :: "'d elm \<Rightarrow> nat" where
  "elm327_collection_window e =
     (let window = tm_window_ms (em_timing e) in
      if st_adaptive (sett e) \<noteq> 0
      then max window (elm327_latency_margin e (rw_latency_ms (tm_watch (em_timing e)))) else window)"

definition elm327_timing_begin :: "'d elm_env \<Rightarrow> byte list \<Rightarrow> nat \<Rightarrow> int \<Rightarrow> 'd elm \<Rightarrow> 'd elm option" where
  "elm327_timing_begin en request len num_frame e =
     (let (e, window) = elm327_reply_window en e;
          (e, now) = time_us en (upd_timing (\<lambda>t. t\<lparr>tm_window_ms := window, tm_incomplete := False\<rparr>) e);
          limit = elm327_timeout_limit e;
          active = (st_adaptive (sett e) \<noteq> 0 \<and> st_responses (sett e) \<and> num_frame \<noteq> 0);
          watch = watch_zero\<lparr>rw_sent_us := now, rw_deadline_ms := limit, rw_sample := None, rw_active := active\<rparr>
      in if len \<le> length (rw_request watch) then do {
           bs \<leftarrow> load_at request 0 len;
           buf \<leftarrow> store_at (rw_request watch) 0 bs;
           Some (upd_watch (\<lambda>_. watch\<lparr>rw_request_len := len, rw_request := buf\<rparr>) e)
         } else Some (upd_watch (\<lambda>_. watch) e))"

definition elm327_timing_reply :: "nat \<Rightarrow> bool \<Rightarrow> 'd elm \<Rightarrow> 'd elm" where
  "elm327_timing_reply latency_ms pending e =
     (let wait_ms = (if pending \<and> elm327_bus e = VIF_BUS_CAN then ELM327_RESPONSE_PENDING_MS
            else elm327_timeout_limit e);
          latency_ms = (if latency_ms = 0 then 1 else latency_ms);
          e = upd_watch (\<lambda>w. w\<lparr>rw_latency_ms := max latency_ms (rw_latency_ms w)\<rparr>) e;
          deadline_ms = u32 (latency_ms + wait_ms)
      in upd_watch (\<lambda>w. w\<lparr>rw_deadline_ms := max deadline_ms (rw_deadline_ms w)\<rparr>) e)"

definition elm327_record_latency :: "bool \<Rightarrow> 'd elm \<Rightarrow> 'd elm option" where
  "elm327_record_latency allow_shrink e =
     (let limit = elm327_timeout_limit e;
          latency_ms = rw_latency_ms (tm_watch (em_timing e));
          (e, sample) = (case rw_sample (tm_watch (em_timing e)) of
              Some i \<Rightarrow> (e, i)
            | None \<Rightarrow>
                let i = tm_next (em_timing e);
                    e = upd_watch (\<lambda>w. w\<lparr>rw_sample := Some i\<rparr>) e;
                    e = upd_timing (\<lambda>t. t\<lparr>tm_next := (tm_next t + 1) mod ELM327_TIMING_SAMPLES,
                      tm_count := (if tm_count t < ELM327_TIMING_SAMPLES then tm_count t + 1 else tm_count t)\<rparr>) e
                in (e, i))
      in do {
        samples \<leftarrow> set_at (tm_samples (em_timing e)) sample (u16 (min latency_ms limit));
        elm327_timing_update allow_shrink (upd_timing (\<lambda>t. t\<lparr>tm_samples := samples\<rparr>) e)
      })"

definition elm327_timing_backoff :: "'d elm \<Rightarrow> 'd elm" where
  "elm327_timing_backoff e =
     (let wider = min (tm_window_ms (em_timing e) * 2) (elm327_timeout_limit e)
      in if wider > tm_estimate_ms (em_timing e)
         then upd_timing (\<lambda>t. t\<lparr>tm_estimate_ms := u16 wider\<rparr>) e else e)"

definition elm327_timing_finish :: "'d elm_env \<Rightarrow> 'd elm \<Rightarrow> 'd elm option" where
  "elm327_timing_finish en e =
     (if st_adaptive (sett e) = 0 then Some e
      else
        let (e, now) = time_us en e;
            e = upd_timing (\<lambda>t. t\<lparr>tm_last_exchange_us := now\<rparr>) e;
            heard = (rw_latency_ms (tm_watch (em_timing e)) \<noteq> 0)
        in do {
          e \<leftarrow> (if heard then elm327_record_latency True e else Some e);
          Some (if \<not> heard \<or> tm_incomplete (em_timing e) then elm327_timing_backoff e else e)
        })"

section \<open>The estimate and its target\<close>

lemma upd_timing_fields [simp]:
  "sett (upd_timing f e) = sett e" "em_timing (upd_timing f e) = f (em_timing e)"
  "em_in_search (upd_timing f e) = em_in_search e" "em_vif (upd_timing f e) = em_vif e"
  "em_line (upd_timing f e) = em_line e" "em_tx_buf (upd_timing f e) = em_tx_buf e"
  "em_tx_len (upd_timing f e) = em_tx_len e" "em_link (upd_timing f e) = em_link e"
  by (simp_all add: upd_timing_def)

lemma upd_watch_fields [simp]:
  "sett (upd_watch f e) = sett e" "em_timing (upd_watch f e) = (em_timing e)\<lparr>tm_watch := f (tm_watch (em_timing e))\<rparr>"
  "em_in_search (upd_watch f e) = em_in_search e"
  by (simp_all add: upd_watch_def)

lemma limit_upd [simp]:
  "elm327_timeout_limit (upd_timing f e) = elm327_timeout_limit e"
  "elm327_timeout_limit (upd_watch g e) = elm327_timeout_limit e"
  by (simp_all add: elm327_timeout_limit_def)

lemma time_us_fields [simp]:
  "time_us en e = (e', now) \<Longrightarrow> em_timing e' = em_timing e \<and> sett e' = sett e \<and> em_in_search e' = em_in_search e"
  by (auto simp: time_us_def on_env_def on_vif_def split: prod.splits)

lemma limit_time_us: "time_us en e = (e', now) \<Longrightarrow> elm327_timeout_limit e' = elm327_timeout_limit e"
  using time_us_fields [of en e e' now] by (simp add: elm327_timeout_limit_def)

text \<open>What an ST value or a search allows fits sixteen bits, and the window a client set is at least 4.\<close>

definition timing_ok :: "'d elm \<Rightarrow> bool" where
  "timing_ok e \<longleftrightarrow>
     (let t = em_timing e in
      st_timeout (sett e) \<in> {4..1020} \<and>
      length (tm_samples t) = ELM327_TIMING_SAMPLES \<and> tm_count t \<le> ELM327_TIMING_SAMPLES \<and>
      tm_next t < ELM327_TIMING_SAMPLES \<and> tm_estimate_ms t \<le> 1020 \<and>
      (case rw_sample (tm_watch t) of None \<Rightarrow> True | Some i \<Rightarrow> i < ELM327_TIMING_SAMPLES))"

lemma limit_range: "timing_ok e \<Longrightarrow> elm327_timeout_limit e \<in> {4..1020}"
  by (auto simp: timing_ok_def elm327_timeout_limit_def ELM327_SEARCH_MIN_MS_def Let_def)

lemma margin_le: "elm327_latency_margin e x \<le> elm327_timeout_limit e"
  by (simp add: elm327_latency_margin_def Let_def)

lemma interpolate_le:
  "(w :: nat) \<le> l \<Longrightarrow> i \<le> d \<Longrightarrow> 0 < d \<Longrightarrow> w + (l - w) * i div d \<le> l"
proof -
  assume a: "w \<le> l" "i \<le> d" "0 < d"
  have "(l - w) * i div d \<le> (l - w) * d div d" using a by (intro div_le_mono mult_le_mono2)
  then show ?thesis using a by simp
qed

lemma reply_window_le:
  assumes "elm327_reply_window en e = (e', w)"
  shows "w \<le> elm327_timeout_limit e" "em_timing e' = em_timing e \<and> sett e' = sett e \<and> em_in_search e' = em_in_search e"
proof -
  obtain e1 now where t: "time_us en e = (e1, now)" by fastforce
  note same = time_us_fields [OF t]
  show "em_timing e' = em_timing e \<and> sett e' = sett e \<and> em_in_search e' = em_in_search e"
    using assms t same by (auto simp: elm327_reply_window_def Let_def split: if_splits)
  show "w \<le> elm327_timeout_limit e"
    using assms t same by (auto simp: elm327_reply_window_def Let_def ELM327_ADAPTIVE_IDLE_FULL_MS_def
        ELM327_ADAPTIVE_IDLE_START_MS_def nat_le_iff intro!: interpolate_le split: if_splits)
qed

lemma target_exists:
  assumes "timing_ok e" "0 < tm_count (em_timing e)"
  obtains target where "elm327_timing_target e = Some target" "target \<le> elm327_timeout_limit e"
proof -
  have "0 + tm_count (em_timing e) \<le> length (tm_samples (em_timing e))"
    using assms(1) by (simp add: timing_ok_def Let_def)
  note load = load_at_Some [OF this]
  have n: "(tm_count (em_timing e) = 0) = False" using assms(2) by simp
  have "\<exists>x. elm327_timing_target e = Some (min x (elm327_timeout_limit e))"
    unfolding elm327_timing_target_def Let_def load Option.bind.bind_lunit n if_False by (rule exI, rule refl)
  then show ?thesis using that by auto
qed

lemma update_estimate:
  assumes "timing_ok e" "0 < tm_count (em_timing e)"
  shows "\<exists>target est. elm327_timing_target e = Some target \<and>
    elm327_timing_update shrink e = Some (upd_timing (\<lambda>t. t\<lparr>tm_estimate_ms := est\<rparr>) e) \<and>
    target \<le> elm327_timeout_limit e \<and> target \<le> est \<and>
    est \<le> max target (tm_estimate_ms (em_timing e)) \<and>
    (shrink \<and> target < tm_estimate_ms (em_timing e) \<longrightarrow> est < tm_estimate_ms (em_timing e))"
proof -
  obtain target where t: "elm327_timing_target e = Some target" "target \<le> elm327_timeout_limit e"
    using target_exists [OF assms] .
  have small: "u16 target = target" using limit_range [OF assms(1)] t(2) by simp
  let ?e = "tm_estimate_ms (em_timing e)"
  define est where "est = (if ?e = 0 \<or> target > ?e then target else if shrink then ?e - (?e - target + 7) div 8 else ?e)"
  have same: "e = upd_timing (\<lambda>t. t\<lparr>tm_estimate_ms := ?e\<rparr>) e" by (simp add: upd_timing_def)
  have upd: "elm327_timing_update shrink e = Some (upd_timing (\<lambda>t. t\<lparr>tm_estimate_ms := est\<rparr>) e)"
    using t(1) small same by (auto simp: elm327_timing_update_def est_def Let_def)
  have "target \<le> est" "est \<le> max target ?e" "shrink \<and> target < ?e \<longrightarrow> est < ?e"
    by (auto simp: est_def) 
  then show ?thesis using t upd by blast
qed

section \<open>Any sequence of exchanges\<close>

text \<open>What happens to the timing between a transmission and the next one.\<close>

datatype timing_call =
    TimingBegin "byte list" int | TimingReply nat bool | TimingRecord bool | TimingFinish | TimingCollect

fun timing_step :: "'d elm_env \<Rightarrow> 'd elm \<Rightarrow> timing_call \<Rightarrow> ('d elm \<times> nat) option" where
  "timing_step en e (TimingBegin req n) = do {
     e \<leftarrow> elm327_timing_begin en req (length req) n e;
     Some (e, tm_window_ms (em_timing e))
   }"
| "timing_step en e (TimingReply l p) = Some (elm327_timing_reply l p e, 0)"
| "timing_step en e (TimingRecord shrink) = do {
     e \<leftarrow> elm327_record_latency shrink e;
     Some (e, 0)
   }"
| "timing_step en e TimingFinish = do {
     e \<leftarrow> elm327_timing_finish en e;
     Some (e, 0)
   }"
| "timing_step en e TimingCollect = Some (e, elm327_collection_window e)"

definition timing_inv :: "nat \<Rightarrow> 'd elm \<Rightarrow> bool" where
  "timing_inv limit e \<longleftrightarrow> timing_ok e \<and> elm327_timeout_limit e = limit \<and> tm_window_ms (em_timing e) \<le> limit \<and>
     (rw_sample (tm_watch (em_timing e)) = None \<or> 0 < tm_count (em_timing e))"

lemma record_ok:
  assumes "timing_inv l e"
  shows "\<exists>e'. elm327_record_latency shrink e = Some e' \<and> timing_inv l e'"
proof -
  note ok = assms [unfolded timing_inv_def, THEN conjunct1]
  define i where "i = (case rw_sample (tm_watch (em_timing e)) of Some i \<Rightarrow> i | None \<Rightarrow> tm_next (em_timing e))"
  define e1 where "e1 = (case rw_sample (tm_watch (em_timing e)) of Some i \<Rightarrow> e | None \<Rightarrow>
      upd_timing (\<lambda>t. t\<lparr>tm_next := (tm_next t + 1) mod ELM327_TIMING_SAMPLES,
        tm_count := (if tm_count t < ELM327_TIMING_SAMPLES then tm_count t + 1 else tm_count t)\<rparr>)
        (upd_watch (\<lambda>w. w\<lparr>rw_sample := Some (tm_next (em_timing e))\<rparr>) e))"
  define v where "v = u16 (min (rw_latency_ms (tm_watch (em_timing e))) (elm327_timeout_limit e))"
  have i: "i < length (tm_samples (em_timing e1))" "tm_samples (em_timing e1) = tm_samples (em_timing e)"
    using ok by (auto simp: i_def e1_def timing_ok_def Let_def split: option.splits)
  define e2 where "e2 = upd_timing (\<lambda>t. t\<lparr>tm_samples := (tm_samples (em_timing e1))[i := v]\<rparr>) e1"
  have rec: "elm327_record_latency shrink e = elm327_timing_update shrink e2"
    using i by (simp add: elm327_record_latency_def e2_def e1_def i_def v_def Let_def split: option.splits)
  have inv1: "timing_inv l e1" "0 < tm_count (em_timing e1)"
    using assms by (auto simp: timing_inv_def e1_def timing_ok_def ELM327_TIMING_SAMPLES_def Let_def split: option.splits)
  have inv2: "timing_inv l e2" "0 < tm_count (em_timing e2)"
    using inv1 by (simp_all add: timing_inv_def e2_def timing_ok_def Let_def)
  have ok2: "timing_ok e2" "elm327_timeout_limit e2 \<le> 1020"
    using inv2(1) limit_range [of e2] by (simp_all add: timing_inv_def)
  obtain target est where u: "elm327_timing_update shrink e2 = Some (upd_timing (\<lambda>t. t\<lparr>tm_estimate_ms := est\<rparr>) e2)"
      "est \<le> max target (tm_estimate_ms (em_timing e2))" "target \<le> elm327_timeout_limit e2"
    using update_estimate [OF ok2(1) inv2(2), of shrink] by blast
  have "tm_estimate_ms (em_timing e2) \<le> 1020" using ok2(1) by (simp add: timing_ok_def Let_def)
  then have "est \<le> 1020" using u(2,3) ok2(2) by (auto simp: le_max_iff_disj)
  then show ?thesis using rec u(1) inv2 by (simp add: timing_inv_def timing_ok_def Let_def)
qed

lemma begin_ok:
  assumes "timing_ok e"
  shows "\<exists>e'. elm327_timing_begin en req (length req) n e = Some e' \<and> timing_inv (elm327_timeout_limit e) e'"
proof -
  obtain e1 w where r: "elm327_reply_window en e = (e1, w)" by fastforce
  note R = reply_window_le [OF r]
  let ?e2 = "upd_timing (\<lambda>t. t\<lparr>tm_window_ms := w, tm_incomplete := False\<rparr>) e1"
  obtain e3 now where t: "time_us en ?e2 = (e3, now)" by fastforce
  note T = time_us_fields [OF t]
  define W where "W = watch_zero\<lparr>rw_sent_us := now, rw_deadline_ms := elm327_timeout_limit e3, rw_sample := None,
    rw_active := (st_adaptive (sett e3) \<noteq> 0 \<and> st_responses (sett e3) \<and> n \<noteq> 0)\<rparr>"
  have none: "rw_sample (W\<lparr>rw_request_len := k, rw_request := b\<rparr>) = None" "rw_sample W = None" for k b by (simp_all add: W_def)
  have inv: "timing_inv (elm327_timeout_limit e) (upd_watch (\<lambda>_. W') e3)" if "rw_sample W' = None" for W'
    using assms R T that by (simp add: timing_inv_def timing_ok_def elm327_timeout_limit_def Let_def)
  have "\<exists>W'. rw_sample W' = None \<and> elm327_timing_begin en req (length req) n e = Some (upd_watch (\<lambda>_. W') e3)"
  proof (cases "length req \<le> 8")
    case True
    then show ?thesis
      using r t by (intro exI [of _ "W\<lparr>rw_request_len := length req, rw_request := req @ drop (length req) (replicate 8 0)\<rparr>"])
        (simp add: elm327_timing_begin_def W_def watch_zero_def Let_def)
  next
    case False
    then show ?thesis
      using r t by (intro exI [of _ W]) (simp add: elm327_timing_begin_def W_def watch_zero_def Let_def)
  qed
  then show ?thesis using inv by blast
qed

lemma reply_ok: "timing_inv l e \<Longrightarrow> timing_inv l (elm327_timing_reply x p e)"
  by (simp add: elm327_timing_reply_def timing_inv_def timing_ok_def Let_def)

lemma finish_ok:
  assumes "timing_inv l e"
  shows "\<exists>e'. elm327_timing_finish en e = Some e' \<and> timing_inv l e'"
proof (cases "st_adaptive (sett e) = 0")
  case True
  then show ?thesis using assms by (simp add: elm327_timing_finish_def)
next
  case False
  obtain e1 now where t: "time_us en e = (e1, now)" by fastforce
  let ?e = "upd_timing (\<lambda>t. t\<lparr>tm_last_exchange_us := now\<rparr>) e1"
  have inv: "timing_inv l ?e"
    using assms time_us_fields [OF t] limit_time_us [OF t] by (simp add: timing_inv_def timing_ok_def Let_def)
  have wider: "timing_inv l (elm327_timing_backoff e')" if "timing_inv l e'" for e' :: "'a elm"
  proof -
    have "elm327_timeout_limit e' \<le> 1020" using that limit_range [of e'] by (simp add: timing_inv_def)
    then show ?thesis
      using that by (auto simp: elm327_timing_backoff_def timing_inv_def timing_ok_def Let_def)
  qed
  obtain e2 where e2: "(if rw_latency_ms (tm_watch (em_timing ?e)) \<noteq> 0 then elm327_record_latency True ?e else Some ?e) = Some e2"
    "timing_inv l e2" using record_ok [OF inv, of True] inv by (cases "rw_latency_ms (tm_watch (em_timing ?e)) \<noteq> 0") auto
  have "elm327_timing_finish en e = Some (if \<not> rw_latency_ms (tm_watch (em_timing ?e)) \<noteq> 0 \<or> tm_incomplete (em_timing e2)
      then elm327_timing_backoff e2 else e2)"
    using False t e2(1) by (simp add: elm327_timing_finish_def Let_def)
  then show ?thesis using e2(2) wider by auto
qed

lemma collection_le: "timing_inv l e \<Longrightarrow> elm327_collection_window e \<le> l"
  using margin_le [of e] by (simp add: elm327_collection_window_def timing_inv_def Let_def)

interpretation timing: safe_machine "timing_step en" "timing_inv l" "\<lambda>_. True" for en l
proof unfold_locales
  fix e :: "'a elm" and c
  assume inv: "timing_inv l e"
  then have ok: "timing_ok e" and l: "elm327_timeout_limit e = l" by (simp_all add: timing_inv_def)
  show "\<exists>e' r. timing_step en e c = Some (e', r) \<and> timing_inv l e'"
  proof (cases c)
    case (TimingBegin req n)
    then show ?thesis using begin_ok [OF ok, of en req n] l by auto
  next
    case (TimingRecord shrink)
    then show ?thesis using record_ok [OF inv, of shrink] by auto
  next
    case TimingFinish
    then show ?thesis using finish_ok [OF inv, of en] by auto
  qed (use inv reply_ok [OF inv] in simp_all)
qed


lemma margin_upd [simp]: "elm327_latency_margin (upd_timing f e) = elm327_latency_margin e"
  by (rule ext) (simp add: elm327_latency_margin_def)

lemma target_same:
  "elm327_timing_target (upd_timing (\<lambda>t. t\<lparr>tm_estimate_ms := x\<rparr>) e) = elm327_timing_target e"
proof -
  have "tm_samples (t\<lparr>tm_estimate_ms := x\<rparr>) = tm_samples t" "tm_count (t\<lparr>tm_estimate_ms := x\<rparr>) = tm_count t" for t :: elm_timing
    by simp_all
  then show ?thesis by (simp only: elm327_timing_target_def upd_timing_fields margin_upd limit_upd)
qed

lemma shrink_reaches:
  assumes "timing_ok e" "0 < tm_count (em_timing e)" "elm327_timing_target e = Some target"
    "tm_estimate_ms (em_timing e) - target \<le> length xs" "xs \<noteq> []"
  shows "\<exists>e'. fold_opt (\<lambda>e x. elm327_timing_update True e) e xs = Some e' \<and> tm_estimate_ms (em_timing e') = target"
  using assms
proof (induction xs arbitrary: e)
  case (Cons x xs)
  obtain est where u: "elm327_timing_update True e = Some (upd_timing (\<lambda>t. t\<lparr>tm_estimate_ms := est\<rparr>) e)"
    "target \<le> elm327_timeout_limit e" "target \<le> est" "est \<le> max target (tm_estimate_ms (em_timing e))"
    "target < tm_estimate_ms (em_timing e) \<longrightarrow> est < tm_estimate_ms (em_timing e)"
    using update_estimate [OF Cons.prems(1,2), of True] Cons.prems(3) by auto
  let ?e = "upd_timing (\<lambda>t. t\<lparr>tm_estimate_ms := est\<rparr>) e"
  have lim: "elm327_timeout_limit e \<le> 1020" using limit_range [OF Cons.prems(1)] by simp
  have old: "tm_estimate_ms (em_timing e) \<le> 1020" using Cons.prems(1) by (simp add: timing_ok_def Let_def)
  have "est \<le> 1020" using u(2,4) lim old by (auto simp: le_max_iff_disj)
  then have ok: "timing_ok ?e" "0 < tm_count (em_timing ?e)" "elm327_timing_target ?e = Some target"
    using Cons.prems(1-3) by (simp_all add: timing_ok_def target_same Let_def)
  have d: "tm_estimate_ms (em_timing ?e) - target \<le> length xs"
    using u(3-5) Cons.prems(4) by (cases "target < tm_estimate_ms (em_timing e)") (auto simp: le_max_iff_disj)
  show ?case
  proof (cases "xs = []")
    case True
    then show ?thesis using u(1,3) d by simp
  next
    case False
    from Cons.IH [OF ok d False] u(1) show ?thesis by simp
  qed
qed simp

text \<open>The learned window follows what the samples call for. A recorded sample raises it to the target
  at once; when replies get faster it shrinks by an eighth of the distance, rounded up, so it never
  passes the target and reaches it after at most as many exchanges as there are milliseconds
  between them. The target never exceeds what the client allowed.\<close>

theorem elm_estimate_follows:
  assumes "timing_ok e" "0 < tm_count (em_timing e)"
  shows "\<exists>target. elm327_timing_target e = Some target \<and> target \<le> elm327_timeout_limit e \<and>
    (\<exists>e'. elm327_timing_update shrink e = Some e' \<and> target \<le> tm_estimate_ms (em_timing e') \<and>
      tm_estimate_ms (em_timing e') \<le> max target (tm_estimate_ms (em_timing e))) \<and>
    (\<forall>xs. xs \<noteq> [] \<and> tm_estimate_ms (em_timing e) - target \<le> length xs \<longrightarrow>
      (\<exists>e'. fold_opt (\<lambda>e x. elm327_timing_update True e) e xs = Some e' \<and> tm_estimate_ms (em_timing e') = target))"
proof -
  obtain target est where u: "elm327_timing_target e = Some target" "target \<le> elm327_timeout_limit e"
    "elm327_timing_update shrink e = Some (upd_timing (\<lambda>t. t\<lparr>tm_estimate_ms := est\<rparr>) e)"
    "target \<le> est" "est \<le> max target (tm_estimate_ms (em_timing e))"
    using update_estimate [OF assms, of shrink] by blast
  show ?thesis using u shrink_reaches [OF assms u(1)] by (intro exI [of _ target]) auto
qed

text \<open>The grammar as it starts, on a clock that stands still.\<close>

definition elm_blank :: "nat elm" where
  "elm_blank = fst (elm327_fe_start \<lparr>em_tx_buf = [], em_tx_len = 0, em_settings = settings_zero, em_line = line_zero,
     em_timing = timing_zero, em_search_first = 0, em_in_search = False, em_vif = (vif_start, 0), em_link = [],
     em_fe_next = None\<rparr>)"

definition still_env :: "nat elm_env" where
  "still_env = \<lparr>en_vif = quiet_env, en_me = 1, en_time_us = (\<lambda>d. (d, 7)), en_tick = (\<lambda>d. (d, 7)),
     en_delay = (\<lambda>_ d. d), en_link_read = (\<lambda>_ d. d), en_frontend_find = (\<lambda>_. None), en_vbatt = (\<lambda>d. (d, ''12.0V'')),
     en_version = ''1''\<rparr>"

lemma elm_blank_ok: "timing_ok elm_blank" "elm327_timeout_limit elm_blank = 200"
  by (simp_all add: elm_blank_def elm327_fe_start_def elm327_load_defaults_def upd_set_def settings_default_def
      timing_ok_def timing_zero_def watch_zero_def ELM327_TIMING_SAMPLES_def DEFAULT_TIMEOUT_MS_def
      elm327_timeout_limit_def)


text \<open>An exchange answered after 100 ms, four times over, and then after 20 ms.\<close>

definition elm_learned :: "nat elm" where
  "elm_learned = upd_timing (\<lambda>t. t\<lparr>tm_samples := [100, 100, 100, 100, 20] @ replicate 11 0, tm_count := 5, tm_next := 5,
     tm_estimate_ms := 190\<rparr>) elm_blank"

lemma elm_estimate_follows_witness:
  "\<exists>target e'. elm327_timing_target elm_learned = Some target \<and>
     fold_opt (\<lambda>e x. elm327_timing_update True e) elm_learned [1..<200] = Some e' \<and> tm_estimate_ms (em_timing e') = target"
proof -
  have ok: "timing_ok elm_learned" "0 < tm_count (em_timing elm_learned)" "tm_estimate_ms (em_timing elm_learned) = 190"
    using elm_blank_ok(1) by (simp_all add: elm_learned_def timing_ok_def ELM327_TIMING_SAMPLES_def Let_def)
  obtain target where "elm327_timing_target elm_learned = Some target"
    "\<forall>xs. xs \<noteq> [] \<and> tm_estimate_ms (em_timing elm_learned) - target \<le> length xs \<longrightarrow>
      (\<exists>e'. fold_opt (\<lambda>e x. elm327_timing_update True e) elm_learned (xs :: nat list) = Some e' \<and> tm_estimate_ms (em_timing e') = target)"
    using elm_estimate_follows [OF ok(1,2), where 'b = nat] by blast
  moreover have "[1..<200] \<noteq> [] \<and> tm_estimate_ms (em_timing elm_learned) - target \<le> length [1..<200]" using ok(3) by simp
  ultimately show ?thesis by blast
qed

end
