(* ===== verification/ElmFrames.thy ===== *)
theory ElmFrames
  imports ElmTiming
begin

text \<open>
  Frames of the ELM327 grammar, \<open>main/elm327_at.c\<close>: how a received frame is printed, which frames are
  replies to the request in flight, how a request is put behind its header, and the replies that
  arrive after the prompt. A frame is a list of bytes and the length the driver reported; what a
  driver left unwritten in a buffer is zero. \<open>None\<close> is an access outside a frame or outside the line
  that is composed.
  The lemmas: every line fits the buffer it is composed in, and a request is exactly its data behind
  the header that the grammar itself would strip.
\<close>

section \<open>Printing\<close>

definition space :: "'d elm \<Rightarrow> string" where
  "space e = (if st_hex_spacing (sett e) then '' '' else [])"

definition elm327_append_hex :: "'d elm \<Rightarrow> string \<Rightarrow> byte list \<Rightarrow> nat \<Rightarrow> string option" where
  "elm327_append_hex e p data len = do {
     bs \<leftarrow> load_at data 0 len;
     Some (p @ concat (map (\<lambda>b. hex_pad 2 (unat b) @ space e) bs))
   }"

definition elm327_print_can_frame :: "u32w \<Rightarrow> nat \<Rightarrow> byte list \<Rightarrow> 'd elm \<Rightarrow> 'd elm option" where
  "elm327_print_can_frame i dlc data e =
     (let dlc = min dlc 8 in do {
        (e, line) \<leftarrow>
          (if st_can_auto_format (sett e) \<and> \<not> st_show_header (sett e) \<and> dlc \<ge> 1 then do {
             b \<leftarrow> get_at data 0;
             let kind = unat b div 16; low = unat b mod 16 in
             if kind = 0 then do {
               line \<leftarrow> elm327_append_hex e [] (drop 1 data) (min low (dlc - 1));
               Some (e, line)
             }
             else if kind = 1 \<and> dlc \<ge> 2 then do {
               b1 \<leftarrow> get_at data 1;
               e \<leftarrow> elm327_send_string (take 7 (hex_pad 3 (low * 256 + unat b1) @ [CR])) e;
               line \<leftarrow> elm327_append_hex e (''0:'' @ space e) (drop 2 data) (dlc - 2);
               Some (e, line)
             }
             else if kind = 2 then do {
               line \<leftarrow> elm327_append_hex e (hex_of low @ '':'' @ space e) (drop 1 data) (dlc - 1);
               Some (e, line)
             }
             else do {
               line \<leftarrow> elm327_append_hex e [] data dlc;
               Some (e, line)
             }
           }
           else do {
             line \<leftarrow> elm327_append_hex e
               (if st_show_header (sett e) then
                  (if i AND CAN_EFF_FLAG \<noteq> 0 then hex_pad 8 (unat (i AND CAN_EFF_MASK))
                   else hex_pad 3 (unat (i AND CAN_SFF_MASK))) @ space e @
                  (if st_can_show_dlc (sett e) then hex_of dlc @ space e else [])
                else []) data dlc;
             Some (e, line)
           });
        if length line + 2 > 48 then None else elm327_send_string (line @ [CR]) e
      })"

section \<open>Which bus, which frames\<close>

definition elm327_can_is_11bit :: "'d elm \<Rightarrow> bool" where
  "elm327_can_is_11bit e \<longleftrightarrow> st_protocol (sett e) = ELM327_PROTO_CAN_11BIT_250K \<or>
     st_protocol (sett e) = ELM327_PROTO_CAN_11BIT_500K"

definition ELM327_CAN_PRIORITY_MASK :: u32w where "ELM327_CAN_PRIORITY_MASK = 0x1C000000"

definition elm327_can_reply_id_ok :: "'d elm \<Rightarrow> u32w \<Rightarrow> bool" where
  "elm327_can_reply_id_ok e i =
     (let extended = (i AND CAN_EFF_FLAG \<noteq> 0) in
      if i AND CAN_RTR_FLAG \<noteq> 0 then False
      else if elm327_can_is_11bit e then \<not> extended \<and> i AND 0x7F8 = 0x7E8
      else extended \<and> (i AND CAN_EFF_MASK) AND 0x03FFFF00 = 0x00DAF100)"

definition elm327_can_flow_control_id :: "'d elm \<Rightarrow> u32w \<Rightarrow> u32w" where
  "elm327_can_flow_control_id e reply_id =
     (if elm327_can_is_11bit e then (reply_id AND CAN_SFF_MASK) - 8
      else 0x18DA0000 OR push_bit 8 (reply_id AND 0xFF) OR 0xF1 OR CAN_EFF_FLAG)"

definition ELM_HDR_H_BIT :: byte where "ELM_HDR_H_BIT = 0x10"

definition elm327_is_kwp :: "'d elm \<Rightarrow> bool" where
  "elm327_is_kwp e \<longleftrightarrow> st_protocol (sett e) = ELM327_PROTO_ISO14230_KWP_5BAUD \<or>
     st_protocol (sett e) = ELM327_PROTO_ISO14230_KWP_FAST"

definition elm327_is_kline :: "'d elm \<Rightarrow> bool" where
  "elm327_is_kline e \<longleftrightarrow> st_protocol (sett e) = ELM327_PROTO_ISO9141 \<or> elm327_is_kwp e"

definition elm327_is_j1850 :: "nat \<Rightarrow> bool" where
  "elm327_is_j1850 p \<longleftrightarrow> p = ELM327_PROTO_J1850_PWM \<or> p = ELM327_PROTO_J1850_VPW"

definition elm327_header_len :: "'d elm \<Rightarrow> byte list \<Rightarrow> nat \<Rightarrow> nat option" where
  "elm327_header_len e frame len =
     (if len \<ge> 1 \<and> elm327_is_j1850 (st_protocol (sett e)) then do {
        b \<leftarrow> get_at frame 0;
        Some (if b AND ELM_HDR_H_BIT \<noteq> 0 then 1 else 3)
      }
      else if len \<ge> 1 \<and> elm327_is_kwp e then do {
        b \<leftarrow> get_at frame 0;
        let hdr = kline_header_len b in
        Some (if b AND 0x3F = 0 \<and> len > hdr then hdr + 1 else hdr)
      }
      else Some 3)"

definition elm327_frame_has_addresses :: "'d elm \<Rightarrow> byte list \<Rightarrow> nat \<Rightarrow> bool option" where
  "elm327_frame_has_addresses e frame len =
     (if len < 4 then Some False
      else if elm327_is_j1850 (st_protocol (sett e)) then do {
        b \<leftarrow> get_at frame 0;
        Some (b AND ELM_HDR_H_BIT = 0)
      }
      else if elm327_is_kwp e then do {
        b \<leftarrow> get_at frame 0;
        Some (kline_addr_mode b = KLINE_ADDR_PHYSICAL \<or> kline_addr_mode b = KLINE_ADDR_FUNCTIONAL)
      }
      else Some True)"

definition elm327_frame_is_addressed_to_us :: "'d elm \<Rightarrow> byte list \<Rightarrow> nat \<Rightarrow> bool option" where
  "elm327_frame_is_addressed_to_us e frame len = do {
     has \<leftarrow> elm327_frame_has_addresses e frame len;
     if \<not> has then Some True
     else do {
       fmt \<leftarrow> get_at frame 0;
       target \<leftarrow> get_at frame 1;
       source \<leftarrow> get_at frame 2;
       let s = sett e;
           req_target = ucast (drop_bit 8 (st_header_id s)) :: byte;
           req_source = ucast (st_header_id s) :: byte
       in Some (if st_filter_tx s \<and> source \<noteq> st_tx_filter s then False
         else if \<not> st_auto_receive s then target = st_recv_address s
         else if elm327_is_kline e \<and> kline_is_carb_fmt fmt \<and> target = KLINE_CARB_TESTER_ADDR then True
         else target = req_source \<or> target = st_tester_address s \<or> target = req_target OR 1)
     }
   }"

section \<open>Late replies\<close>

datatype elm_reply_kind = ELM327_REPLY_NONE | ELM327_REPLY_NORMAL | ELM327_REPLY_PENDING

text \<open>What is in a buffer of \<open>cap\<close> zeroed bytes after a receive.\<close>

definition rx_buffer :: "nat \<Rightarrow> bus_msg \<Rightarrow> byte list" where
  "rx_buffer cap msg = take cap (bm_data msg @ replicate cap 0)"

definition reply_prefix :: "byte \<Rightarrow> nat" where
  "reply_prefix service =
     (if service = 0x01 \<or> service = 0x09 \<or> service = 0x21 then 2
      else if service = 0x02 \<or> service = 0x22 then 3 else 1)"

text \<open>The data behind the headers against the request.\<close>

definition reply_kind_of :: "byte list \<Rightarrow> nat \<Rightarrow> byte list \<Rightarrow> nat \<Rightarrow> elm_reply_kind option" where
  "reply_kind_of data len request request_len = do {
     d0 \<leftarrow> get_at data 0;
     r0 \<leftarrow> get_at request 0;
     if len = 3 \<and> d0 = 0x7F then do {
       d1 \<leftarrow> get_at data 1;
       d2 \<leftarrow> get_at data 2;
       Some (if d1 \<noteq> r0 then ELM327_REPLY_NONE else if d2 = 0x78 then ELM327_REPLY_PENDING else ELM327_REPLY_NORMAL)
     }
     else if unat d0 \<noteq> unat r0 + 0x40 then Some ELM327_REPLY_NONE
     else let n = reply_prefix r0 in
       if request_len < n \<or> len < n then Some ELM327_REPLY_NONE
       else do {
         a \<leftarrow> load_at data 1 (n - 1);
         b \<leftarrow> load_at request 1 (n - 1);
         Some (if a \<noteq> b then ELM327_REPLY_NONE else ELM327_REPLY_NORMAL)
       }
   }"

definition elm327_late_reply_kind :: "'d elm \<Rightarrow> bus_msg \<Rightarrow> elm_reply_kind option" where
  "elm327_late_reply_kind e msg =
     (let data = rx_buffer ELM327_BUS_CAP msg; len = bm_len msg;
          request = rw_request (tm_watch (em_timing e)); request_len = rw_request_len (tm_watch (em_timing e))
      in if len = 0 \<or> request_len = 0 \<or>
            bm_status msg AND (BUS_RX_TX_MSG_TYPE OR BUS_RX_PERIODIC_REPLY OR BUS_RX_BAD_CHECKSUM OR
              BUS_RX_BUFFER_OVERFLOW OR BUS_RX_BREAK OR BUS_RX_START_OF_MSG OR BUS_RX_DUPLICATE OR
              BUS_RX_LINK_DOWN) \<noteq> 0
         then Some ELM327_REPLY_NONE
         else if elm327_bus e = VIF_BUS_CAN then
           (if \<not> st_can_auto_format (sett e) \<or> len > 8 \<or> \<not> elm327_can_reply_id_ok e (bm_id msg)
            then Some ELM327_REPLY_NONE
            else
              let m = (if elm327_can_is_11bit e then CAN_SFF_MASK
                    else CAN_EFF_MASK AND NOT ELM327_CAN_PRIORITY_MASK);
                  all = (if elm327_can_is_11bit e then 0x7DF else 0x18DB33F1)
              in if (st_header_id (sett e) XOR all) AND m \<noteq> 0 \<and>
                    (elm327_can_flow_control_id e (bm_id msg) XOR st_header_id (sett e)) AND m \<noteq> 0
                 then Some ELM327_REPLY_NONE
                 else do {
                   b0 \<leftarrow> get_at data 0;
                   b1 \<leftarrow> get_at data 1;
                   if unat b0 div 16 = 0 \<and> b0 \<noteq> 0 \<and> unat b0 < len
                   then reply_kind_of (drop 1 data) (unat b0) request request_len
                   else if unat b0 div 16 = 1 \<and> len \<ge> 3 \<and> (unat b0 mod 16) * 256 + unat b1 > 7
                   then reply_kind_of (drop 2 data) (len - 2) request request_len
                   else Some ELM327_REPLY_NONE
                 })
         else do {
           us \<leftarrow> elm327_frame_is_addressed_to_us e data len;
           if \<not> us then Some ELM327_REPLY_NONE
           else do {
             header \<leftarrow> elm327_header_len e data len;
             if len \<le> header + 1 then Some ELM327_REPLY_NONE
             else reply_kind_of (drop header data) (len - (header + 1)) request request_len
           }
         })"

definition link_recv :: "'d elm_env \<Rightarrow> nat \<Rightarrow> nat \<Rightarrow> 'd elm \<Rightarrow> 'd elm \<times> int \<times> bus_msg option" where
  "link_recv en cap wait e =
     on_vif (vif_bus_recv (en_vif en) (en_me en) VIF_OWNER_LINK (elm327_bus e) cap wait) e"

fun observe_loop :: "'d elm_env \<Rightarrow> nat \<Rightarrow> 'd elm \<Rightarrow> 'd elm option" where
  "observe_loop en 0 e = Some e"
| "observe_loop en (Suc n) e = (case link_recv en ELM327_BUS_CAP 0 e of
       (e, rc, Some msg) \<Rightarrow>
         if rc \<le> 0 then Some e
         else
           let watch = tm_watch (em_timing e);
               elapsed_us = unat (bm_timestamp_us msg - word_of_int (rw_sent_us watch));
               latency_ms = elapsed_us div 1000 + (if elapsed_us mod 1000 \<noteq> 0 then 1 else 0)
           in if latency_ms = 0 \<or> latency_ms > rw_deadline_ms watch then observe_loop en n e
              else do {
                kind \<leftarrow> elm327_late_reply_kind e msg;
                if kind = ELM327_REPLY_NONE then observe_loop en n e
                else do {
                  e \<leftarrow> elm327_record_latency False (elm327_timing_reply latency_ms (kind = ELM327_REPLY_PENDING) e);
                  observe_loop en n e
                }
              }
     | (e, rc, None) \<Rightarrow> Some e)"

definition elm327_observe_late_replies :: "'d elm_env \<Rightarrow> 'd elm \<Rightarrow> 'd elm option" where
  "elm327_observe_late_replies en e =
     (if \<not> rw_active (tm_watch (em_timing e)) then Some e
      else
        let (e, now) = time_us en e in
        if now - rw_sent_us (tm_watch (em_timing e)) > 0xFFFFFFFF
        then Some (upd_watch (\<lambda>w. w\<lparr>rw_active := False\<rparr>) e)
        else do {
          e \<leftarrow> observe_loop en 16 e;
          let (e, now) = time_us en e; watch = tm_watch (em_timing e) in
          Some (if now - rw_sent_us watch \<ge> int (rw_deadline_ms watch) * 1000
            then upd_watch (\<lambda>w. w\<lparr>rw_active := False\<rparr>) e else e)
        })"

section \<open>The byte buses\<close>

definition elm327_print_j1850_kline_frame :: "byte list \<Rightarrow> nat \<Rightarrow> 'd elm \<Rightarrow> 'd elm option" where
  "elm327_print_j1850_kline_frame data len e = do {
     hdr \<leftarrow> elm327_header_len e data len;
     let (data, len) = (if \<not> st_show_header (sett e) \<and> len > hdr + 1 then (drop hdr data, len - (hdr + 1)) else (data, len));
     line \<leftarrow> elm327_append_hex e [] data len;
     if length line + 2 > KLINE_FRAME_CAP * 3 + 2 then None else elm327_send_string (line @ [CR]) e
   }"

definition J1850_SETTLE_MS :: nat where "J1850_SETTLE_MS = 20"
definition J1850_SETTLE_CAP_MS :: nat where "J1850_SETTLE_CAP_MS = 100"

definition tick :: "'d elm_env \<Rightarrow> 'd elm \<Rightarrow> 'd elm \<times> u32w" where "tick en = on_env (en_tick en)"

definition timer_from :: "'d elm_env \<Rightarrow> nat \<Rightarrow> 'd elm \<Rightarrow> 'd elm \<times> timer" where
  "timer_from en ms e = (let (e, t) = tick en e in (e, Timer_start t (of_nat ms) timer_zero))"

partial_function (option) settle_loop :: "'d elm_env \<Rightarrow> timer \<Rightarrow> nat \<Rightarrow> nat \<Rightarrow> 'd elm \<Rightarrow> 'd elm option" where
  "settle_loop en limit cap settle_ms e = (case tick en e of (e, t) \<Rightarrow>
     if Timer_is_expired t limit then Some e
     else case link_recv en cap settle_ms e of (e, rc, _) \<Rightarrow>
       if rc \<le> 0 then Some e else settle_loop en limit cap settle_ms e)"

definition elm327_bus_settle :: "'d elm_env \<Rightarrow> nat \<Rightarrow> nat \<Rightarrow> nat \<Rightarrow> 'd elm \<Rightarrow> 'd elm option" where
  "elm327_bus_settle en cap settle_ms quiet_ms e =
     (if settle_ms = 0 \<or> quiet_ms \<ge> settle_ms then Some e
      else
        let (e, limit) = timer_from en J1850_SETTLE_CAP_MS e
        in settle_loop en limit (if cap > 32 then 32 else cap) settle_ms e)"

text \<open>The request on the wire, empty when it does not fit.\<close>

definition elm327_build_bus_request :: "'d elm \<Rightarrow> byte list \<Rightarrow> nat \<Rightarrow> nat \<Rightarrow> byte list option" where
  "elm327_build_bus_request e data len cap =
     (let i = st_header_id (sett e); fmt = ucast (drop_bit 16 i) :: byte;
          target = ucast (drop_bit 8 i) :: byte; source = ucast i :: byte
      in if len = 0 \<or> len > 0x3F then Some []
         else if \<not> elm327_is_kwp e then
           (if len + 3 > cap then Some []
            else do {
              bs \<leftarrow> load_at data 0 len;
              Some ([fmt, target, source] @ bs)
            })
         else if len + 4 > cap then Some []
         else do {
           bs \<leftarrow> load_at data 0 len;
           Some ((if fmt AND 0x3F \<noteq> 0
             then [(fmt AND 0xC0) OR (of_nat len AND 0x3F), target, source]
             else [fmt AND 0xC0, target, source, of_nat len]) @ bs)
         })"

section \<open>What is printed\<close>

lemma hex_of_length: "n < 16 ^ Suc k \<Longrightarrow> length (hex_of n) \<le> Suc k"
proof (induction k arbitrary: n)
  case (Suc k)
  show ?case
  proof (cases "n < 16")
    case True
    then show ?thesis by (subst hex_of.simps) simp
  next
    case False
    have "n div 16 < 16 ^ Suc k" using Suc.prems by (simp add: less_mult_imp_div_less)
    from Suc.IH [OF this] show ?thesis using False by (subst hex_of.simps) simp
  qed
qed (subst hex_of.simps, simp)

lemma hex_pad_length: "n < 16 ^ Suc k \<Longrightarrow> length (hex_pad (Suc k) n) = Suc k"
  unfolding hex_pad_def length_append length_replicate by (drule hex_of_length) simp

lemma hex_digit_mod: "hex_digit (n mod 16) = hex_digit n"
  by (simp add: hex_digit_def)

lemma hex_pad_byte: "hex_pad 2 (unat b) = hex_bytes [b]"
proof -
  have b: "unat (drop_bit 4 b) = unat b div 16" by (simp add: drop_bit_eq_div unat_div)
  have small: "unat b div 16 < 16" using unat_byte_less [of b] by (simp add: less_mult_imp_div_less)
  have zero: "hex_digit 0 = CHR ''0''" by (simp add: hex_digit_def hexval_def)
  show ?thesis
  proof (cases "unat b < 16")
    case True
    then show ?thesis using zero by (simp add: hex_pad_def hex_bytes_def b unat_masks hex_of.simps [of "unat b"])
  next
    case False
    then show ?thesis using small
      by (simp add: hex_pad_def hex_bytes_def b unat_masks hex_of.simps [of "unat b"] hex_of.simps [of "unat b div 16"] hex_digit_mod)
  qed
qed

definition hex_text :: "string \<Rightarrow> byte list \<Rightarrow> string" where
  "hex_text sp bs = concat (map (\<lambda>b. hex_bytes [b] @ sp) bs)"

lemma append_hex_text: "len \<le> length data \<Longrightarrow> elm327_append_hex e p data len = Some (p @ hex_text (space e) (take len data))"
  by (simp add: elm327_append_hex_def hex_text_def hex_pad_byte)

lemma space_length: "length (space e) \<le> 1" "filter (\<lambda>c. c \<noteq> CHR '' '') (space e) = []"
  by (simp_all add: space_def)

lemma hex_text_length: "length (hex_text sp bs) = (2 + length sp) * length bs"
  by (induction bs) (simp_all add: hex_text_def hex_bytes_def)

lemma hex_text_fits: "length (hex_text (space e) bs) \<le> 3 * length bs"
  using space_length(1) [of e] by (simp add: hex_text_length)

lemma hex_digit_not_space: "hex_digit n \<noteq> CHR '' ''"
proof -
  have "hex_char_to_int (CHR '' '') \<noteq> int (n mod 16)" by (simp add: hex_char_to_int_def)
  then show ?thesis using hex_digit_int [of n] by metis
qed

lemma hex_text_digits: "filter (\<lambda>c. c \<noteq> CHR '' '') (hex_text (space e) bs) = hex_bytes bs"
  using space_length(2) [of e] by (induction bs) (simp_all add: hex_text_def hex_bytes_def hex_digit_not_space)

lemma hex_text_typed:
  assumes "length bs \<le> n"
  shows "hex_string_to_u8_array (filter (\<lambda>c. c \<noteq> CHR '' '') (hex_text (space e) bs) @ t) (2 * length bs) (replicate n 0) =
    Some (int (length bs), bs @ replicate (n - length bs) 0)"
  using u8_loop_digits [of bs 0 "replicate n 0" "[]" t] assms
  by (simp add: hex_text_digits hex_string_to_u8_array_def)

text \<open>What the client is shown of a frame: text before it, a prefix, and bytes. With formatting on and
  headers off these are the payload of a single frame, the total length and the first six bytes of a
  longer message, or a sequence number and the next seven; otherwise the frame as received.\<close>

definition can_header :: "'d elm \<Rightarrow> u32w \<Rightarrow> nat \<Rightarrow> string" where
  "can_header e i dlc =
     (if st_show_header (sett e)
      then (if i AND CAN_EFF_FLAG \<noteq> 0 then hex_pad 8 (unat (i AND CAN_EFF_MASK)) else hex_pad 3 (unat (i AND CAN_SFF_MASK))) @
        space e @ (if st_can_show_dlc (sett e) then hex_digit dlc # space e else [])
      else [])"

fun can_shown :: "'d elm \<Rightarrow> u32w \<Rightarrow> byte list \<Rightarrow> string \<times> string \<times> byte list" where
  "can_shown e i [] = ([], can_header e i 0, [])"
| "can_shown e i (b # bs) =
     (if st_show_header (sett e) \<or> \<not> st_can_auto_format (sett e) then ([], can_header e i (Suc (length bs)), b # bs)
      else if b < 0x10 then ([], [], take (unat b) bs)
      else if b < 0x20 \<and> bs \<noteq> []
        then (hex_pad 3 (unat b mod 16 * 256 + unat (hd bs)) @ [CR], ''0:'' @ space e, tl bs)
      else if 0x20 \<le> b \<and> b < 0x30 then ([], hex_digit (unat b) # '':'' @ space e, bs)
      else ([], [], b # bs))"

lemma can_header_length: "length (can_header e i dlc) \<le> 11"
proof -
  have m: "CAN_EFF_MASK = mask 29" "CAN_SFF_MASK = mask 11"
    by (simp_all add: mask_eq_exp_minus_1 CAN_EFF_MASK_def CAN_SFF_MASK_def)
  have "unat (i AND CAN_EFF_MASK) < 4294967296" "unat (i AND CAN_SFF_MASK) < 4096"
    unfolding m unat_and_mask by (simp_all add: less_le_trans [OF mod_less_divisor])
  then have l: "length (hex_pad 8 (unat (i AND CAN_EFF_MASK))) = 8" "length (hex_pad 3 (unat (i AND CAN_SFF_MASK))) = 3"
    using hex_pad_length [of _ 7, simplified] hex_pad_length [of _ 2, simplified] by auto
  define A where "A = (if i AND CAN_EFF_FLAG \<noteq> 0 then hex_pad 8 (unat (i AND CAN_EFF_MASK)) else hex_pad 3 (unat (i AND CAN_SFF_MASK)))"
  define B where "B = (if st_can_show_dlc (sett e) then hex_digit dlc # space e else [])"
  have "length A \<le> 8" "length B \<le> 2" using l space_length(1) [of e] by (simp_all add: A_def B_def)
  moreover have "can_header e i dlc = (if st_show_header (sett e) then A @ space e @ B else [])"
    by (simp only: can_header_def A_def B_def)
  ultimately show ?thesis using space_length(1) [of e] by simp
qed

lemma byte_nibble:
  "unat (b :: byte) div 16 = 0 \<longleftrightarrow> b < 0x10" "unat b div 16 = 1 \<longleftrightarrow> 0x10 \<le> b \<and> b < 0x20"
  "unat b div 16 = 2 \<longleftrightarrow> 0x20 \<le> b \<and> b < 0x30"
  by (auto simp: word_less_nat_alt word_le_nat_alt)

lemma print_line:
  assumes "elm_tx_ok e" "length line \<le> 46"
  shows "\<exists>e'. (if length line + 2 > 48 then None else elm327_send_string (line @ [CR]) e) = Some e' \<and>
    elm_says e (eol e (line @ [CR])) e'"
  using assms send_string_says [OF assms(1), of "line @ [CR]"] by (auto simp: ELM327_TX_BUF_def)

text \<open>Every received CAN frame is printed in the form the client's settings call for: with formatting
  on and headers off the payload of a single frame without its padding, the total length and then
  numbered segments of a longer message, otherwise the frame as received behind its identifier. No
  line overruns the buffer it is composed in, nothing but the output changes, and the bytes shown,
  typed back without the spaces, are parsed as those bytes.\<close>

theorem elm_can_frame_printed:
  assumes "elm_tx_ok e" "length data = 8"
  shows "\<exists>e'. elm327_print_can_frame i dlc data e = Some e' \<and>
    (case can_shown e i (take (min dlc 8) data) of (before, prefix, bytes) \<Rightarrow>
       elm_says e (eol e (before @ prefix @ hex_text (space e) bytes @ [CR])) e' \<and> length bytes \<le> 8 \<and>
       hex_string_to_u8_array (filter (\<lambda>c. c \<noteq> CHR '' '') (hex_text (space e) bytes) @ [NUL]) (2 * length bytes) (replicate 8 0) =
         Some (int (length bytes), bytes @ replicate (8 - length bytes) 0))"
proof -
  define n where "n = min dlc 8"
  have n: "n \<le> 8" by (simp add: n_def)
  let ?f = "take n data"
  have len: "length ?f = n" using assms(2) n by simp
  have fits: "length (p @ hex_text (space e) bs) \<le> 46" if "length p \<le> 11" "length bs \<le> 8" for p bs
    using that hex_text_fits [of e bs] by simp
  have line: "\<exists>e''. (if length l + 2 > 48 then None else elm327_send_string (l @ [CR]) e') = Some e'' \<and>
      elm_says e' (eol e (l @ [CR])) e''"
    if "l = p @ hex_text (space e) bs" "length p \<le> 11" "length bs \<le> 8" "elm_says e s e'" for l p bs s e'
    using print_line [OF elm_says_ok [OF that(4)], of l] fits [OF that(2,3)] that(1) eol_same [OF that(4)] by simp
  note line0 = line [OF refl _ _ elm_says_refl [OF assms(1)]]
  note typed = hex_text_typed [where n = 8 and t = "[NUL]" and e = e]
  let ?goal = "\<lambda>before prefix bytes. \<exists>e'. elm327_print_can_frame i dlc data e = Some e' \<and>
      elm_says e (eol e (before @ prefix @ hex_text (space e) bytes @ [CR])) e'"
  have goal: ?thesis if "can_shown e i ?f = (before, prefix, bytes)" "length bytes \<le> 8" "?goal before prefix bytes"
    for before prefix bytes
    using that typed [OF that(2)] by (simp add: n_def [symmetric])
  have simple: "?goal [] prefix bytes"
    if "length prefix \<le> 11" "length bytes \<le> 8"
      "elm327_print_can_frame i dlc data e = (let l = prefix @ hex_text (space e) bytes in
        if length l + 2 > 48 then None else elm327_send_string (l @ [CR]) e)" for prefix bytes
    using line0 [OF that(1,2)] that(3) by (simp add: Let_def)
  obtain b rest where data: "data = b # rest" "length rest = 7" using assms(2) by (cases data) auto
  show ?thesis
  proof (cases "st_can_auto_format (sett e) \<and> \<not> st_show_header (sett e) \<and> n \<ge> 1")
    case False
    then have F: "(st_can_auto_format (sett e) \<and> \<not> st_show_header (sett e) \<and> n \<ge> 1) = False" by simp
    have sh: "can_shown e i ?f = ([], can_header e i n, ?f)"
      using False len by (cases ?f) (auto simp: can_header_def)
    have one: "hex_of n = [hex_digit n]" using n by (simp add: hex_of.simps)
    have app: "elm327_append_hex e p data n = Some (p @ hex_text (space e) ?f)" for p
      using append_hex_text [of n data e p] n assms(2) by simp
    have hdr: "(if st_show_header (sett e) then
                  (if i AND CAN_EFF_FLAG \<noteq> 0 then hex_pad 8 (unat (i AND CAN_EFF_MASK))
                   else hex_pad 3 (unat (i AND CAN_SFF_MASK))) @ space e @
                  (if st_can_show_dlc (sett e) then hex_of n @ space e else [])
                else []) = can_header e i n"
      by (simp only: can_header_def one append_Cons append_Nil)
    have "elm327_print_can_frame i dlc data e = (let l = can_header e i n @ hex_text (space e) ?f in
        if length l + 2 > 48 then None else elm327_send_string (l @ [CR]) e)"
      unfolding elm327_print_can_frame_def Let_def n_def [symmetric] F if_False hdr app
      by (simp only: Option.bind.bind_lunit prod.case)
    then have "?goal [] (can_header e i n) ?f" using n len by (intro simple can_header_length) simp_all
    then show ?thesis using n len by (intro goal [OF sh]) simp_all
  next
    case True
    then have T: "(st_can_auto_format (sett e) \<and> \<not> st_show_header (sett e) \<and> n \<ge> 1) = True" by simp
    define bs where "bs = take (n - 1) rest"
    have f: "?f = b # bs" using True by (simp add: bs_def data take_Cons')
    have lb: "length bs = n - 1" using data(2) n by (simp add: bs_def)
    have b0: "get_at data 0 = Some b" "drop 1 data = rest" by (simp_all add: data)
    have app: "elm327_append_hex e' p rest m = Some (p @ hex_text (space e') (take m bs))" if "m \<le> n - 1" for e' p m
      using append_hex_text [of m rest e' p] that data(2) n by (simp add: bs_def min_absorb1)
    define k where "k = unat b div 16"
    note code = elm327_print_can_frame_def Let_def n_def [symmetric] T if_True b0 Option.bind.bind_lunit prod.case k_def [symmetric]
    have whole: "?goal [] [] ?f" if "(k = 0) = False" "(k = 1 \<and> n \<ge> 2) = False" "(k = 2) = False"
    proof -
      have a: "elm327_append_hex e [] data n = Some ([] @ hex_text (space e) ?f)"
        using append_hex_text [of n data e "[]"] n assms(2) by simp
      have "elm327_print_can_frame i dlc data e = (let l = [] @ hex_text (space e) ?f in
          if length l + 2 > 48 then None else elm327_send_string (l @ [CR]) e)"
        unfolding code that if_False a by (simp only: Option.bind.bind_lunit prod.case)
      then show ?thesis using n len by (intro simple) simp_all
    qed
    consider "k = 0" | "k = 1" "n \<ge> 2" | "k = 2" | "k = 1" "n = 1" | "k > 2" using True by linarith
    then show ?thesis
    proof cases
      case 1
      have low: "unat b mod 16 = unat b" "b < 0x10" using 1 byte_nibble(1) [of b] by (simp_all add: k_def)
      have sh: "can_shown e i ?f = ([], [], take (unat b) bs)" using True f low by simp
      have k1: "(k = 0) = True" using 1 by simp
      have "take (min (unat b) (n - 1)) bs = take (unat b) bs" using lb by (simp add: min_def)
      then have a: "elm327_append_hex e [] rest (min (unat b) (n - 1)) = Some ([] @ hex_text (space e) (take (unat b) bs))"
        using app [of "min (unat b) (n - 1)" e "[]"] by simp
      have "elm327_print_can_frame i dlc data e = (let l = [] @ hex_text (space e) (take (unat b) bs) in
          if length l + 2 > 48 then None else elm327_send_string (l @ [CR]) e)"
        unfolding code low(1) k1 a by (simp only: Option.bind.bind_lunit prod.case if_True)
      then have "?goal [] [] (take (unat b) bs)" using lb n by (intro simple) simp_all
      then show ?thesis using lb n by (intro goal [OF sh]) simp_all
    next
      case 2
      then have k: "(k = 0) = False" "(k = 1 \<and> n \<ge> 2) = True" by simp_all
      obtain b1 rest' where r: "rest = b1 # rest'" "length rest' = 6" using data(2) by (cases rest) auto
      define bs' where "bs' = take (n - 2) rest'"
      have "n - 1 = Suc (n - 2)" using 2 by simp
      then have bs: "bs = b1 # bs'" "length bs' = n - 2" using r n by (simp_all only: bs_def bs'_def take_Suc_Cons) simp
      have at: "get_at data 1 = Some b1" "drop 2 data = rest'" by (simp_all add: data r)
      define l3 where "l3 = hex_pad 3 (unat b mod 16 * 256 + unat b1)"
      have l3: "length l3 = 3" "take 7 (l3 @ [CR]) = l3 @ [CR]"
      proof -
        have "unat b mod 16 < 16" by simp
        then have "unat b mod 16 * 256 + unat b1 < 4096" using unat_byte_less [of b1] by linarith
        then show "length l3 = 3" using hex_pad_length [of _ 2, simplified] by (simp add: l3_def)
        then show "take 7 (l3 @ [CR]) = l3 @ [CR]" by simp
      qed
      obtain e1 where e1: "elm327_send_string (l3 @ [CR]) e = Some e1" "elm_says e (eol e (l3 @ [CR])) e1"
        using send_string_says [OF assms(1), of "l3 @ [CR]"] l3(1) by (auto simp: ELM327_TX_BUF_def)
      have sp: "space e1 = space e" using elm_says_same [OF e1(2)] by (simp add: space_def)
      have nib: "0x10 \<le> b" "b < 0x20" using 2 byte_nibble(2) [of b] by (simp_all add: k_def)
      then have sh: "can_shown e i ?f = (l3 @ [CR], ''0:'' @ space e, bs')"
        using True f bs(1) by (auto simp: word_less_nat_alt word_le_nat_alt l3_def)
      have a: "elm327_append_hex e1 p rest' (n - 2) = Some (p @ hex_text (space e) bs')" for p
        using append_hex_text [of "n - 2" rest' e1 p] r(2) n sp by (simp add: bs'_def)
      let ?l = "(''0:'' @ space e) @ hex_text (space e) bs'"
      have run: "elm327_print_can_frame i dlc data e =
          (if length ?l + 2 > 48 then None else elm327_send_string (?l @ [CR]) e1)"
        unfolding code k if_False at l3_def [symmetric] l3(2) e1(1) a sp
        by (simp only: Option.bind.bind_lunit prod.case append_assoc if_True)
      have lens: "length (''0:'' @ space e) \<le> 11" "length bs' \<le> 8" using space_length(1) [of e] bs(2) n by simp_all
      obtain e2 where e2: "elm327_print_can_frame i dlc data e = Some e2" "elm_says e1 (eol e (?l @ [CR])) e2"
        using line [OF refl lens e1(2)] unfolding run by blast
      have split: "eol e ((l3 @ [CR]) @ (''0:'' @ space e) @ hex_text (space e) bs' @ [CR]) = eol e (l3 @ [CR]) @ eol e (?l @ [CR])"
        by (simp only: eol_append append_assoc)
      have "elm_says e (eol e ((l3 @ [CR]) @ (''0:'' @ space e) @ hex_text (space e) bs' @ [CR])) e2"
        unfolding split by (rule elm_says_trans [OF e1(2) e2(2)])
      then show ?thesis using e2(1) bs(2) n by (intro goal [OF sh]) auto
    next
      case 3
      then have k: "(k = 0) = False" "(k = 1 \<and> n \<ge> 2) = False" "(k = 2) = True" by simp_all
      have one: "hex_of (unat b mod 16) = [hex_digit (unat b)]" by (simp add: hex_of.simps hex_digit_mod)
      have "0x20 \<le> b \<and> b < 0x30" using 3 byte_nibble(3) [of b] by (simp add: k_def)
      then have sh: "can_shown e i ?f = ([], hex_digit (unat b) # '':'' @ space e, bs)"
        using True f by (auto simp: word_less_nat_alt word_le_nat_alt)
      have a: "elm327_append_hex e p rest (n - 1) = Some (p @ hex_text (space e) bs)" for p
        using app [of "n - 1" e p] lb by simp
      have "elm327_print_can_frame i dlc data e = (let l = (hex_digit (unat b) # '':'' @ space e) @ hex_text (space e) bs in
          if length l + 2 > 48 then None else elm327_send_string (l @ [CR]) e)"
        unfolding code k if_False one a by (simp only: Option.bind.bind_lunit prod.case append_Cons append_Nil if_True)
      then have "?goal [] (hex_digit (unat b) # '':'' @ space e) bs" using lb n space_length(1) [of e] by (intro simple) simp_all
      then show ?thesis using lb n by (intro goal [OF sh]) simp_all
    next
      case 4
      then have "bs = []" using lb by simp
      then have sh: "can_shown e i ?f = ([], [], ?f)" using True f 4 byte_nibble [of b] by (auto simp: k_def)
      have k: "(k = 0) = False" "(k = 1 \<and> n \<ge> 2) = False" "(k = 2) = False" using 4 by simp_all
      show ?thesis using whole [OF k] n len by (intro goal [OF sh]) simp_all
    next
      case 5
      have sh: "can_shown e i ?f = ([], [], ?f)" using True f 5 byte_nibble [of b] by (auto simp: k_def)
      have k: "(k = 0) = False" "(k = 1 \<and> n \<ge> 2) = False" "(k = 2) = False" using 5 by simp_all
      show ?thesis using whole [OF k] n len by (intro goal [OF sh]) simp_all
    qed
  qed
qed

lemma elm_blank_tx: "elm_tx_ok elm_blank" "st_linefeed (sett elm_blank) = False" "st_hex_spacing (sett elm_blank) = True"
    "st_can_auto_format (sett elm_blank) = True" "st_show_header (sett elm_blank) = False"
  by (simp_all add: elm_blank_def elm327_fe_start_def elm327_load_defaults_def upd_set_def settings_default_def elm_tx_ok_def)

lemma elm_can_frame_printed_witness:
  "\<exists>e'. elm327_print_can_frame 0x7E8 8 [0x03, 0x41, 0x0C, 0x1A, 0, 0, 0, 0] elm_blank = Some e' \<and>
     elm_said e' = elm_said elm_blank @ ''41 0C 1A '' @ [CR]"
proof -
  let ?d = "[0x03, 0x41, 0x0C, 0x1A, 0, 0, 0, 0] :: byte list"
  have sh: "can_shown elm_blank 0x7E8 (take (min 8 8) ?d) = ([], [], [0x41, 0x0C, 0x1A])"
    by (simp add: elm_blank_tx)
  have "hex_text '' '' [0x41, 0x0C, 0x1A] = ''41 0C 1A ''" by code_simp
  then have tx: "hex_text (space elm_blank) [0x41, 0x0C, 0x1A] = ''41 0C 1A ''" by (simp add: space_def elm_blank_tx)
  have l: "length ?d = 8" by simp
  from elm_can_frame_printed [OF elm_blank_tx(1) l, of "0x7E8" 8] obtain e' where
    "elm327_print_can_frame 0x7E8 8 ?d elm_blank = Some e'"
    "elm_says elm_blank (eol elm_blank ([] @ [] @ hex_text (space elm_blank) [0x41, 0x0C, 0x1A] @ [CR])) e'"
    unfolding sh prod.case by blast
  then show ?thesis by (auto simp: elm_says_def tx eol_def elm_blank_tx)
qed

section \<open>Requests\<close>

text \<open>The format byte a KWP request gets: the address mode of the header, and the length unless the
  header asks for a length byte of its own.\<close>

lemma kwp_format_byte:
  assumes "0 < n" "n \<le> 0x3F"
  shows "((f :: byte) AND 0xC0 OR (of_nat n AND 0x3F)) AND 0x3F = of_nat n"
    "kline_addr_mode (f AND 0xC0 OR (of_nat n AND 0x3F)) = kline_addr_mode f"
    "(f AND 0xC0) AND 0x3F = 0" "kline_addr_mode (f AND 0xC0) = kline_addr_mode f"
proof -
  have m: "(0x3F :: byte) = mask 6" "(0x03 :: byte) = mask 2" by (simp_all add: mask_eq_exp_minus_1)
  have small: "(of_nat n AND 0x3F :: byte) = of_nat n"
    unfolding m by (subst word_unat_eq_iff) (use assms in \<open>simp add: unat_and_mask unat_of_nat\<close>)
  have c: "(0xC0 :: byte) AND 0x3F = 0" "drop_bit 6 (0x3F :: byte) = 0" "drop_bit 6 (0xC0 :: byte) = 3" by (simp_all add: drop_bit_eq_div)
  show f0: "(f AND 0xC0) AND 0x3F = 0" by (simp only: and.assoc c) simp
  show "(f AND 0xC0 OR (of_nat n AND 0x3F)) AND 0x3F = of_nat n"
    by (simp only: bit.conj_disj_distrib2 f0 and.assoc and.idem small) simp
  have d: "drop_bit 6 (f AND 0xC0) AND 0x03 = drop_bit 6 f AND 0x03"
    by (simp only: drop_bit_and c and.assoc and.idem)
  have e: "drop_bit 6 (f AND 0xC0 OR (of_nat n AND 0x3F)) AND 0x03 = drop_bit 6 f AND 0x03"
    by (simp only: drop_bit_or drop_bit_and c) (simp add: and.assoc)
  show "kline_addr_mode (f AND 0xC0 OR (of_nat n AND 0x3F)) = kline_addr_mode f" "kline_addr_mode (f AND 0xC0) = kline_addr_mode f"
    unfolding kline_addr_mode_def d e by simp_all
qed

lemma build_shape:
  assumes "elm327_build_bus_request e data (length data) cap = Some out" "out \<noteq> []"
  obtains h where "out = h @ data" "length out \<le> cap" "0 < length data" "length data \<le> 0x3F"
    "\<not> elm327_is_kwp e \<longrightarrow> length h = 3"
    "elm327_is_kwp e \<longrightarrow> (length h = 3 \<and> h ! 0 AND 0x3F = of_nat (length data) \<or>
       length h = 4 \<and> h ! 0 AND 0x3F = 0 \<and> h ! 3 = of_nat (length data))"
proof -
  define f where "f = (ucast (drop_bit 16 (st_header_id (sett e))) :: byte)"
  have len: "0 < length data" "length data \<le> 0x3F"
    using assms by (auto simp: elm327_build_bus_request_def Let_def split: if_splits)
  note F = kwp_format_byte [OF len, of f]
  show ?thesis
    using assms len F that
    by (auto simp: elm327_build_bus_request_def Let_def f_def [symmetric] split: if_splits)
qed

lemma header_len_kwp:
  assumes "elm327_is_kwp e" "\<not> elm327_is_j1850 (st_protocol (sett e))" "get_at m 0 = Some f" "kline_addr_mode f \<noteq> KLINE_ADDR_NONE"
  shows "elm327_header_len e m (Suc n) = Some (if f AND 0x3F = 0 \<and> 3 \<le> n then 4 else 3)"
proof -
  have "kline_header_len f = 3" using assms(4) by (cases "kline_addr_mode f") simp_all
  then show ?thesis using assms(1-3) by (simp add: elm327_header_len_def del: kline_header_len.simps)
qed

lemma msg_len_kwp:
  assumes "m ! 0 = f" "kline_addr_mode f \<noteq> KLINE_ADDR_NONE" "\<not> kline_is_carb_fmt f" "m \<noteq> []"
  shows "f AND 0x3F \<noteq> 0 \<Longrightarrow> kline_msg_len (Some m) = 3 + unat (f AND 0x3F) + 1"
    "f AND 0x3F = 0 \<Longrightarrow> m ! 3 = l \<Longrightarrow> l \<noteq> 0 \<Longrightarrow> 4 \<le> length m \<Longrightarrow> kline_msg_len (Some m) = 4 + unat l + 1"
  using assms by (auto simp: Let_def unat_eq_0 Suc_le_eq)

text \<open>A request that fits a byte bus is the client's data behind a header, and the header is exactly what
  the grammar strips from a message: that message, with any checksum behind it, is printed as the
  data with headers off. A KWP message announces its own length, as the length rule of the K-Line
  codec reads it. (A J1850 header of one byte and a KWP format without addresses are shorter than
  what AT SH sends.)\<close>

theorem elm_request_stripped:
  assumes "elm_tx_ok e" "elm327_build_bus_request e data (length data) cap = Some out" "out \<noteq> []" "cap < KLINE_FRAME_CAP"
    and "\<not> st_show_header (sett e)"
    and "\<not> (elm327_is_j1850 (st_protocol (sett e)) \<and> out ! 0 AND ELM_HDR_H_BIT \<noteq> 0)"
    and "\<not> (elm327_is_kwp e \<and> kline_addr_mode (out ! 0) = KLINE_ADDR_NONE)"
  shows "\<exists>e'. elm327_print_j1850_kline_frame (out @ [c]) (length out + 1) e = Some e' \<and>
    elm_says e (eol e (hex_text (space e) data @ [CR])) e' \<and> length out \<le> cap \<and>
    (if elm327_is_kwp e \<and> \<not> kline_is_carb_fmt (out ! 0)
     then kline_msg_len (Some (out @ [c])) = length out + 1 else drop 3 out = data \<or> elm327_is_kwp e)"
proof -
  obtain h where h: "out = h @ data" "length out \<le> cap" "0 < length data" "length data \<le> 0x3F"
    "\<not> elm327_is_kwp e \<longrightarrow> length h = 3"
    "elm327_is_kwp e \<longrightarrow> (length h = 3 \<and> h ! 0 AND 0x3F = of_nat (length data) \<or>
       length h = 4 \<and> h ! 0 AND 0x3F = 0 \<and> h ! 3 = of_nat (length data))"
    using build_shape [OF assms(2,3)] by metis
  have nj: "\<not> elm327_is_j1850 (st_protocol (sett e))" if "elm327_is_kwp e"
    using that by (auto simp: elm327_is_kwp_def elm327_is_j1850_def proto_defs)
  have hne: "h \<noteq> []" using h(5,6) by auto
  then have first: "out ! 0 = h ! 0" "get_at (out @ [c]) 0 = Some (h ! 0)" using h(1) by (auto simp: get_at_def nth_append)
  have un: "unat (of_nat (length data) :: byte) = length data" using h(4) by (simp add: unat_of_nat)
  have nz: "(of_nat (length data) :: byte) \<noteq> 0" using un h(3) by (metis unat_0 less_numeral_extra(3))
  have hl: "elm327_header_len e (out @ [c]) (length out + 1) = Some (length h)"
  proof (cases "elm327_is_kwp e")
    case True
    have "kline_addr_mode (h ! 0) \<noteq> KLINE_ADDR_NONE" using assms(7) True first(1) by simp
    from header_len_kwp [OF True nj [OF True] first(2) this, of "length out"] h(6) True nz h(1,3) show ?thesis by auto
  next
    case False
    then show ?thesis using first assms(6) h(5) by (auto simp: elm327_header_len_def)
  qed
  have print: "elm327_print_j1850_kline_frame (out @ [c]) (length out + 1) e =
      (if length (hex_text (space e) data) + 2 > KLINE_FRAME_CAP * 3 + 2 then None
       else elm327_send_string (hex_text (space e) data @ [CR]) e)"
    using hl assms(5) h(1,3) append_hex_text [of "length data" "data @ [c]" e "[]"]
    by (simp add: elm327_print_j1850_kline_frame_def)
  have "length (hex_text (space e) data) \<le> 192" using hex_text_fits [of e data] h(4) by simp
  then obtain e' where "elm327_print_j1850_kline_frame (out @ [c]) (length out + 1) e = Some e'"
    "elm_says e (eol e (hex_text (space e) data @ [CR])) e'"
    using print send_string_says [OF assms(1), of "hex_text (space e) data @ [CR]"]
    by (auto simp: KLINE_FRAME_CAP_def ELM327_TX_BUF_def)
  moreover have "kline_msg_len (Some (out @ [c])) = length out + 1" if "elm327_is_kwp e" "\<not> kline_is_carb_fmt (out ! 0)"
  proof -
    have m: "kline_addr_mode (h ! 0) \<noteq> KLINE_ADDR_NONE" using assms(7) that(1) first(1) by simp
    have o0: "(out @ [c]) ! 0 = h ! 0" using first(2) by (simp add: get_at_def split: if_splits)
    from h(6) that(1) consider "length h = 3" "h ! 0 AND 0x3F = of_nat (length data)"
      | "length h = 4" "h ! 0 AND 0x3F = 0" "h ! 3 = of_nat (length data)" by blast
    then show ?thesis
    proof cases
      case 1
      then show ?thesis
        using msg_len_kwp(1) [OF o0 m] that(2) first(1) un nz h(1,3) by simp
    next
      case 2
      have "(out @ [c]) ! 3 = h ! 3" using 2(1) h(1) by (simp add: nth_append)
      then show ?thesis using msg_len_kwp(2) [OF o0 m, of "of_nat (length data)"] that(2) first(1) un nz 2 h(1,3) by simp
    qed
  qed
  moreover have "drop 3 out = data \<or> elm327_is_kwp e" using h(1,5) by auto
  ultimately show ?thesis using h(2) by auto
qed

text \<open>The OBD request 01 0C as a KWP message.\<close>

definition elm_kwp :: "nat elm" where
  "elm_kwp = upd_set (\<lambda>s. s\<lparr>st_protocol := ELM327_PROTO_ISO14230_KWP_FAST, st_header_id := 0xc233f1\<rparr>) elm_blank"

lemma elm_request_stripped_witness:
  "elm327_build_bus_request elm_kwp [0x01, 0x0C] 2 63 = Some [0xC2, 0x33, 0xF1, 0x01, 0x0C] \<and>
   kline_msg_len (Some [0xC2, 0x33, 0xF1, 0x01, 0x0C, 0xF3]) = 6 \<and>
   (\<exists>e'. elm327_print_j1850_kline_frame [0xC2, 0x33, 0xF1, 0x01, 0x0C, 0xF3] 6 elm_kwp = Some e')"
proof -
  have b: "elm327_build_bus_request elm_kwp [0x01, 0x0C] (length [0x01, 0x0C :: byte]) 63 = Some [0xC2, 0x33, 0xF1, 0x01, 0x0C]"
    by (simp add: elm327_build_bus_request_def elm_kwp_def upd_set_def elm327_is_kwp_def drop_bit_eq_div)
  have e: "elm_tx_ok elm_kwp" "\<not> st_show_header (sett elm_kwp)" "\<not> elm327_is_j1850 (st_protocol (sett elm_kwp))"
    "elm327_is_kwp elm_kwp"
    using elm_blank_tx by (simp_all add: elm_kwp_def upd_set_def elm_tx_ok_def elm327_is_j1850_def elm327_is_kwp_def proto_defs)
  have m: "kline_addr_mode ([0xC2, 0x33, 0xF1, 0x01, 0x0C] ! 0) = KLINE_ADDR_FUNCTIONAL"
    "\<not> kline_is_carb_fmt ([0xC2, 0x33, 0xF1, 0x01, 0x0C] ! 0)"
    by (simp_all add: kline_is_carb_fmt_def kline_addr_mode_def drop_bit_eq_div)
  show ?thesis
    using elm_request_stripped [OF e(1) b _ _ e(2), of "0xF3"] b e(3,4) m
    by (auto simp: KLINE_FRAME_CAP_def eval_nat_numeral simp del: kline_msg_len.simps)
qed

end
