(* ===== verification/ElmXfer.thy ===== *)
theory ElmXfer
  imports ElmFrames
begin

text \<open>
  Exchanges of the ELM327 grammar, \<open>main/elm327_at.c\<close>: a request and its replies on CAN and on the byte
  buses, the initialisation of the K-Line, and the search for the protocol of the vehicle. Each
  exchange is a loop whose length depends on the clock and the drivers, so it is a partial function;
  \<open>None\<close> is a fault or a loop that does not end. One pass of a loop is a definition of its own, which
  returns the next state of the loop or the result (\<open>Inl\<close>).
  The lemmas: the search tries protocols in its order, each at most once, and stops at the first
  that answers.
\<close>

section \<open>CAN\<close>

partial_function (option) read_all_can :: "'d elm_env \<Rightarrow> 'd elm \<Rightarrow> 'd elm option" where
  "read_all_can en e = (case on_vif (can_frame_recv (en_vif en) (en_me en) 0) e of
     (e, rc, _) \<Rightarrow> if rc \<noteq> 0 then Some e else read_all_can en e)"

definition rx_zero :: isotp_rx where
  "rx_zero = \<lparr>rx_config = \<lparr>tx_id = 0, rx_id = 0, rx_mask = 0, extended_address = False, tx_address = 0, rx_address = 0,
       functional = False, pad = False, pad_value = 0, cfg_block_size = 0, stmin = 0, wait_limit = 0, timeout_a_us = 0,
       timeout_bs_us = 0, timeout_cr_us = 0\<rparr>, rx_buffer = None, rx_capacity = 0, rx_state = ISOTP_RX_IDLE,
     rx_deadline = 0, rx_total = 0, rx_offset = 0, rx_sequence = 0, rx_block_count = 0, rx_flow_status = 0,
     rx_padding_error = False\<rparr>"

record can_exchange =
  cx_streams :: "isotp_rx list"
  cx_counter :: nat
  cx_pending :: bool
  cx_timer :: timer

text \<open>What does not change during an exchange: the identifier sent, the address mask, whether it went to
  every ECU, the frame count hint, and the clock of the request.\<close>

record can_request =
  cq_tx_id :: u32w
  cq_mask :: u32w
  cq_multicast :: bool
  cq_num_frame :: int
  cq_since :: timer

definition elapsed_us :: "u32w \<Rightarrow> timer \<Rightarrow> u32w" where
  "elapsed_us t since = Timer_elapsed_ms t since * 1000"

text \<open>The streams in progress: their time-outs, and the earliest deadline of the wait.\<close>

fun scan_streams :: "u32w \<Rightarrow> isotp_rx list \<Rightarrow> u32w \<Rightarrow> bool \<Rightarrow> (isotp_rx list \<times> u32w \<times> bool) option" where
  "scan_streams now [] wait_us active = Some ([], wait_us, active)"
| "scan_streams now (s # ss) wait_us active = (case isotp_rx_check_timeout s now of (s, r) \<Rightarrow>
     if isotp_code r < 0 then None
     else if rx_state s = ISOTP_RX_IDLE
       then map_option (\<lambda>(ss, x). (s # ss, x)) (scan_streams now ss wait_us active)
     else
       let left = rx_deadline s - now;
           wait_us = (if \<not> active \<and> wait_us = 0 then left else if left < wait_us then left else wait_us)
       in map_option (\<lambda>(ss, x). (s # ss, x)) (scan_streams now ss wait_us True))"

definition stream_of :: "isotp_rx list \<Rightarrow> u32w \<Rightarrow> u32w \<Rightarrow> nat option" where
  "stream_of streams i m =
     find (\<lambda>k. rx_state (streams ! k) \<noteq> ISOTP_RX_IDLE \<and> (rx_id (rx_config (streams ! k)) XOR i) AND m = 0)
       (rev [0..<length streams])"

definition free_stream :: "isotp_rx list \<Rightarrow> nat option" where
  "free_stream streams = find (\<lambda>k. rx_state (streams ! k) = ISOTP_RX_IDLE) [0..<length streams]"

text \<open>After a segment was taken: flow control, the line printed, the learned timing, and whether the
  exchange is over.\<close>

definition can_segment ::
  "'d elm_env \<Rightarrow> can_request \<Rightarrow> can_exchange \<Rightarrow> nat \<Rightarrow> can_frame \<Rightarrow> isotp_rx \<Rightarrow> isotp_segment \<Rightarrow> u32w \<Rightarrow> 'd elm \<Rightarrow>
     ('d elm \<times> (int + can_exchange)) option" where
  "can_segment en rq cx k rx stream segment now e = do {
     e \<leftarrow> (if seg_replaced segment then WHAT e else Some e);
     (e, stream, ok) \<leftarrow> (case isotp_rx_flow_control stream now of (stream, fc, r) \<Rightarrow>
       if isotp_code r < 0 then Some (e, stream, False)
       else if r = ISOTP_FRAME then do {
         fc \<leftarrow> fc;
         let (e, sent) = on_vif (can_frame_send_confirmed (en_vif en) (en_me en) fc) e;
             (e, t) = tick en e;
             (stream, r) = isotp_rx_confirm stream (sent = 0) (elapsed_us t (cq_since rq))
         in Some (e, stream, \<not> isotp_code r < 0)
       }
       else Some (e, stream, True));
     if \<not> ok then Some (e, Inl (-2))
     else do {
       let dlc = (if st_can_auto_format (sett e) \<and> \<not> st_show_header (sett e) \<and> \<not> seg_started segment
             then u8 (1 + length (seg_data segment)) else can_dlc rx);
       e \<leftarrow> elm327_print_can_frame (can_id rx) dlc (can_data rx) e;
       let (e, t) = tick en e;
           pending = (seg_started segment \<and> seg_complete segment \<and> length (seg_data segment) = 3 \<and>
             seg_data segment ! 0 = 0x7F \<and> seg_data segment ! 2 = 0x78);
           e = elm327_timing_reply (unat (Timer_elapsed_ms t (cq_since rq))) pending e;
           cx = cx\<lparr>cx_streams := (cx_streams cx)[k := stream], cx_counter := u32 (cx_counter cx + 1)\<rparr>
       in if pending then
            (let (e, timer) = timer_from en ELM327_RESPONSE_PENDING_MS e
             in Some (e, Inr (cx\<lparr>cx_timer := timer, cx_pending := True\<rparr>)))
          else if cq_num_frame rq > 0 \<and> int (cx_counter cx) \<ge> cq_num_frame rq then Some (e, Inl 0)
          else if \<not> cq_multicast rq \<and> seg_complete segment then Some (e, Inl 0)
          else if \<not> cx_pending cx then
            (let (e, timer) = timer_from en (elm327_collection_window e) e in Some (e, Inr (cx\<lparr>cx_timer := timer\<rparr>)))
          else Some (e, Inr cx)
     }
   }"

text \<open>A frame with an identifier the request could be answered on.\<close>

definition can_received ::
  "'d elm_env \<Rightarrow> can_request \<Rightarrow> can_exchange \<Rightarrow> can_frame \<Rightarrow> 'd elm \<Rightarrow> ('d elm \<times> (int + can_exchange)) option" where
  "can_received en rq cx rx e =
     (let (e, t) = tick en e;
          now = elapsed_us t (cq_since rq)
      in if \<not> cq_multicast rq \<and> (elm327_can_flow_control_id e (can_id rx) XOR cq_tx_id rq) AND cq_mask rq \<noteq> 0
         then Some (e, Inr cx)
         else do {
           b \<leftarrow> get_at (can_data rx) 0;
           if \<not> st_can_auto_format (sett e) \<and> can_dlc rx \<ge> 3 \<and> unat b div 16 = 3 then do {
             e \<leftarrow> elm327_print_can_frame (can_id rx) (can_dlc rx) (can_data rx) e;
             Some (e, Inl 0)
           }
           else case (case stream_of (cx_streams cx) (can_id rx) (cq_mask rq) of
                Some k \<Rightarrow> Some (k, cx_streams cx ! k)
              | None \<Rightarrow> (case free_stream (cx_streams cx) of
                  None \<Rightarrow> None
                | Some k \<Rightarrow>
                    let config = (isotp_config_default (elm327_can_flow_control_id e (can_id rx)) (can_id rx))
                          \<lparr>rx_mask := cq_mask rq\<rparr>
                    in Some (k, case isotp_rx_init config None ISOTP_MAX_PAYLOAD of
                         Inl _ \<Rightarrow> cx_streams cx ! k | Inr s \<Rightarrow> s))) of
             None \<Rightarrow> Some (e, Inl (-2))
           | Some (k, stream) \<Rightarrow> do {
               (stream, segment, r) \<leftarrow> isotp_rx_feed stream (Some rx) now;
               if isotp_code r < 0 then Some (e, Inl (-2))
               else if r = ISOTP_IGNORED then Some (e, Inr (cx\<lparr>cx_streams := (cx_streams cx)[k := stream]\<rparr>))
               else can_segment en rq cx k rx stream segment now e
             }
         })"

definition can_step ::
  "'d elm_env \<Rightarrow> can_request \<Rightarrow> can_exchange \<Rightarrow> 'd elm \<Rightarrow> ('d elm \<times> (int + can_exchange)) option" where
  "can_step en rq cx e =
     (let (e, t) = tick en e;
          now = elapsed_us t (cq_since rq);
          (e, t) = tick en e;
          wait_us = Timer_remaining_ms t (cx_timer cx) * 1000
      in case scan_streams now (cx_streams cx) wait_us False of
           None \<Rightarrow> Some (e, Inl (-2))
         | Some (streams, wait_us, active) \<Rightarrow>
             let cx = cx\<lparr>cx_streams := streams\<rparr>;
                 (e, over) = (if active then (e, False) else (let (e, t) = tick en e in (e, Timer_is_expired t (cx_timer cx))))
             in if over then
                  Some (upd_timing (\<lambda>t. t\<lparr>tm_incomplete := (cq_num_frame rq > 0 \<and> int (cx_counter cx) < cq_num_frame rq)\<rparr>) e,
                    Inl (if cx_counter cx \<noteq> 0 then 0 else -1))
                else
                  let ticks = unat ((wait_us + 999) div 1000)
                  in case on_vif (can_frame_recv (en_vif en) (en_me en) (if ticks \<noteq> 0 then ticks else 1)) e of
                       (e, rc, Some rx) \<Rightarrow>
                         if rc \<noteq> 0 \<or> can_dlc rx = 0 \<or> can_dlc rx > 8 \<or> \<not> elm327_can_reply_id_ok e (can_id rx)
                         then Some (e, Inr cx) else can_received en rq cx rx e
                     | (e, rc, None) \<Rightarrow> Some (e, Inr cx))"

partial_function (option) can_loop ::
  "'d elm_env \<Rightarrow> can_request \<Rightarrow> can_exchange \<Rightarrow> 'd elm \<Rightarrow> ('d elm \<times> int) option" where
  "can_loop en rq cx e = do {
     (e, r) \<leftarrow> can_step en rq cx e;
     (case r of Inl rc \<Rightarrow> Some (e, rc) | Inr cx \<Rightarrow> can_loop en rq cx e)
   }"

text \<open>The frame to send; the outer \<open>None\<close> is a fault, the inner one a request that does not fit.\<close>

definition can_request_frame :: "u32w \<Rightarrow> bool \<Rightarrow> byte list \<Rightarrow> nat \<Rightarrow> 'd elm \<Rightarrow> can_frame option option" where
  "can_request_frame cid multicast frame len e =
     (let j1939 = (st_protocol (sett e) = ELM327_PROTO_CAN_SAE_J1939);
          dlc8 = (\<lambda>f. if j1939 then f else f\<lparr>can_dlc := 8\<rparr>)
      in if st_can_auto_format (sett e) then
           (if len > 7 then Some None
            else
              let config = (isotp_config_default cid cid)\<lparr>functional := multicast, pad := \<not> j1939\<rparr>
              in case isotp_tx_init config of
                   Inl _ \<Rightarrow> Some None
                 | Inr tx \<Rightarrow> (case isotp_tx_start tx (Some frame) len 0 of (tx, r) \<Rightarrow>
                     if isotp_code r < 0 then Some None
                     else do {
                       (tx, f, r) \<leftarrow> isotp_tx_next tx 0;
                       Some (if r \<noteq> ISOTP_FRAME then None else map_option dlc8 f)
                     }))
         else if len > 8 then Some None
         else do {
           bs \<leftarrow> load_at frame 0 len;
           data \<leftarrow> store_at (replicate 8 0) 0 bs;
           Some (Some (dlc8 \<lparr>can_id = cid, can_dlc = len, can_data = data\<rparr>))
         })"

definition elm327_can_protocol_xfer ::
  "'d elm_env \<Rightarrow> byte list \<Rightarrow> nat \<Rightarrow> int \<Rightarrow> 'd elm \<Rightarrow> ('d elm \<times> int) option" where
  "elm327_can_protocol_xfer en frame len num_frame e =
     (let (e, err) = (if bus_up VIF_BUS_CAN e then (e, ESP_OK)
            else
              let (e, err) = open_bus en VIF_BUS_CAN (fst (snd (elm327_bus_for_protocol (st_protocol (sett e))))) e
              in (if err \<noteq> ESP_OK then e else elm327_apply_bus_policy en VIF_BUS_CAN (st_protocol (sett e)) e, err));
          cid = st_header_id (sett e);
          address_mask = (if elm327_can_is_11bit e then 0xFFFFFFFF else NOT ELM327_CAN_PRIORITY_MASK);
          multicast = (if elm327_can_is_11bit e then cid = 0x7DF else cid AND address_mask = 0x00DB33F1);
          cid = (if st_protocol (sett e) \<in> {ELM327_PROTO_CAN_29BIT_250K, ELM327_PROTO_CAN_29BIT_500K, ELM327_PROTO_CAN_SAE_J1939}
            then cid OR CAN_EFF_FLAG else cid)
      in if err \<noteq> ESP_OK then Some (e, -2)
         else do {
           f \<leftarrow> can_request_frame cid multicast frame len e;
           case f of
             None \<Rightarrow> Some (e, -2)
           | Some f \<Rightarrow> do {
               e \<leftarrow> read_all_can en e;
               let (e, rc) = on_vif (can_frame_send (en_vif en) (en_me en) f) e;
               if rc \<noteq> 0 then Some (e, -2)
               else do {
                 e \<leftarrow> elm327_timing_begin en frame len num_frame e;
                 if num_frame = 0 \<or> \<not> st_responses (sett e) then Some (e, 0)
                 else
                   let (e, since) = timer_from en 0 e;
                       (e, timer) = timer_from en (tm_window_ms (em_timing e)) e
                   in can_loop en \<lparr>cq_tx_id = can_id f, cq_mask = address_mask, cq_multicast = multicast,
                          cq_num_frame = num_frame, cq_since = since\<rparr>
                        \<lparr>cx_streams = replicate 8 rx_zero, cx_counter = 0, cx_pending = False, cx_timer = timer\<rparr> e
               }
             }
         })"

section \<open>K-Line sessions\<close>

datatype kline_init_mode = KLINE_INIT_NONE | KLINE_INIT_5BAUD | KLINE_INIT_FAST

definition elm327_kline_init_mode :: "'d elm \<Rightarrow> kline_init_mode" where
  "elm327_kline_init_mode e =
     (let p = st_protocol (sett e) in
      if p = ELM327_PROTO_ISO9141 \<or> p = ELM327_PROTO_ISO14230_KWP_5BAUD then KLINE_INIT_5BAUD
      else if p = ELM327_PROTO_ISO14230_KWP_FAST then KLINE_INIT_FAST else KLINE_INIT_NONE)"

text \<open>Whether a session is up, and what it negotiated. A driver that reports success and fills nothing in
  would leave the structure undefined: a fault.\<close>

definition elm327_kline_link :: "'d elm_env \<Rightarrow> 'd elm \<Rightarrow> ('d elm \<times> bool \<times> bus_link option) option" where
  "elm327_kline_link en e = (case link_ioctl en VIF_BUS_KLINE BUS_IOCTL_GET_LINK NoArg e of
       (e, rc, arg) \<Rightarrow>
         if rc \<noteq> 0 then Some (e, False, None)
         else case arg of LinkArg l \<Rightarrow> Some (e, bl_connected l, Some l) | _ \<Rightarrow> None)"

definition elm327_kline_init_args :: "kline_init_mode \<Rightarrow> 'd elm \<Rightarrow> bus_init" where
  "elm327_kline_init_args mode e =
     (let io = \<lparr>bi_address = st_iso_init_address (sett e), bi_msg = replicate 260 0, bi_msg_len = 0,
            bi_raw_response = False, bi_no_response = False, bi_tx_flags = 0, bi_key = [0, 0],
            bi_reply = replicate 260 0, bi_reply_len = 0, bi_reply_timestamp_us = 0\<rparr>
      in if mode \<noteq> KLINE_INIT_FAST then io
         else io\<lparr>bi_msg := [0xC1, st_iso_init_address (sett e), st_tester_address (sett e), KLINE_SVC_START_COMM] @
                replicate 256 0, bi_msg_len := 4\<rparr>)"

definition elm327_kline_apply_wakeup :: "'d elm_env \<Rightarrow> 'd elm \<Rightarrow> 'd elm" where
  "elm327_kline_apply_wakeup en e =
     (let e = (if st_wakeup_len (sett e) \<noteq> 0
            then fst (link_ioctl en VIF_BUS_KLINE BUS_IOCTL_SET_PERIODIC
              (MsgArg (bus_msg_tx (st_wakeup_msg (sett e)) (st_wakeup_len (sett e)) 0)) e)
            else e)
      in param_set en VIF_BUS_KLINE BUS_P_PERIODIC_MS (st_wakeup_ms (sett e)) e)"

definition elm327_kline_init :: "'d elm_env \<Rightarrow> kline_init_mode \<Rightarrow> 'd elm \<Rightarrow> ('d elm \<times> int) option" where
  "elm327_kline_init en mode e =
     (let io = elm327_kline_init_args mode e;
          e = param_set en VIF_BUS_KLINE BUS_P_DATA_RATE
            (if mode = KLINE_INIT_FAST then KLINE_BAUD_DEFAULT else st_iso_baud (sett e)) e
      in do {
        e \<leftarrow> (if \<not> em_in_search e then do {
            e \<leftarrow> elm327_send_string ''BUS INIT: '' e;
            e \<leftarrow> (if mode = KLINE_INIT_5BAUD then elm327_send_string ''...'' e else Some e);
            elm327_uart_flush e
          } else Some e);
        let (e, rc, arg) = link_ioctl en VIF_BUS_KLINE
              (if mode = KLINE_INIT_FAST then BUS_IOCTL_FAST_INIT else BUS_IOCTL_FIVE_BAUD_INIT) (InitArg io) e;
        let io = (case arg of InitArg io \<Rightarrow> io | _ \<Rightarrow> io);
        rc \<leftarrow> (if rc = 0 \<and> st_key_word_check (sett e) then do {
            k0 \<leftarrow> get_at (bi_key io) 0;
            k1 \<leftarrow> get_at (bi_key io) 1;
            Some (if fst (kline_decode_keybytes k0 k1) then 0 else -1)
          } else Some rc);
        if rc \<noteq> 0 then do {
          e \<leftarrow> (if \<not> em_in_search e then elm327_send_string (''ERROR'' @ [CR]) e else Some e);
          Some (e, -1)
        }
        else do {
          let e = elm327_kline_apply_wakeup en e;
          e \<leftarrow> (if \<not> em_in_search e then OK e else Some e);
          Some (e, 0)
        }
      })"

definition elm327_kline_reconcile :: "'d elm_env \<Rightarrow> 'd elm \<Rightarrow> 'd elm option" where
  "elm327_kline_reconcile en e =
     (if st_protocol (sett e) \<noteq> ELM327_PROTO_ISO9141 \<and> st_protocol (sett e) \<noteq> ELM327_PROTO_ISO14230_KWP_5BAUD
      then Some e
      else do {
        (e, up, l) \<leftarrow> elm327_kline_link en e;
        if \<not> up then Some e
        else do {
          l \<leftarrow> l;
          let want = (if bl_variant l = 2 then Some ELM327_PROTO_ISO14230_KWP_5BAUD
                else if bl_variant l = 1 then Some ELM327_PROTO_ISO9141 else None);
          case want of
            None \<Rightarrow> Some e
          | Some want \<Rightarrow> Some (if want = st_protocol (sett e) then e else fst (elm327_set_protocol en want e))
        }
      })"

definition elm327_kline_ensure_link :: "'d elm_env \<Rightarrow> 'd elm \<Rightarrow> ('d elm \<times> int) option" where
  "elm327_kline_ensure_link en e = do {
     (e, up, _) \<leftarrow> elm327_kline_link en e;
     if up then Some (e, 0)
     else
       let mode = elm327_kline_init_mode e in
       if mode = KLINE_INIT_NONE then Some (e, -1)
       else do {
         (e, rc) \<leftarrow> elm327_kline_init en mode e;
         if rc \<noteq> 0 then Some (e, -1)
         else do {
           e \<leftarrow> elm327_kline_reconcile en e;
           Some (e, 0)
         }
       }
   }"

section \<open>The byte buses\<close>

partial_function (option) drain_bus :: "'d elm_env \<Rightarrow> nat \<Rightarrow> 'd elm \<Rightarrow> 'd elm option" where
  "drain_bus en cap e = (case link_recv en cap 0 e of (e, rc, _) \<Rightarrow> if rc > 0 then drain_bus en cap e else Some e)"

text \<open>One pass of the loop that prints replies: the frame counter, an \<open>uint8_t\<close>, and the window.\<close>

definition bus_step ::
  "'d elm_env \<Rightarrow> nat \<Rightarrow> int \<Rightarrow> timer \<Rightarrow> nat \<times> nat \<times> timer \<Rightarrow> 'd elm \<Rightarrow> ('d elm \<times> (bool + nat \<times> nat \<times> timer)) option" where
  "bus_step en cap num_frame since = (\<lambda>(counter, window, timer) e.
     (let (e, t) = tick en e in
      if Timer_is_expired t timer then Some (e, Inl False)
      else
        let (e, t) = tick en e in
        case link_recv en cap (unat (Timer_remaining_ms t timer)) e of
          (e, rc, None) \<Rightarrow> Some (e, Inr (counter, window, timer))
        | (e, rc, Some msg) \<Rightarrow>
            if rc \<le> 0 \<or> bm_status msg AND (BUS_RX_TX_MSG_TYPE OR BUS_RX_PERIODIC_REPLY) \<noteq> 0
            then Some (e, Inr (counter, window, timer))
            else do {
              us \<leftarrow> elm327_frame_is_addressed_to_us e (rx_buffer cap msg) (nat rc);
              if \<not> us then Some (e, Inr (counter, window, timer))
              else do {
                e \<leftarrow> elm327_print_j1850_kline_frame (rx_buffer cap msg) (nat rc) e;
                let counter = u8 (counter + 1);
                    (e, t) = tick en e;
                    e = elm327_timing_reply (unat (Timer_elapsed_ms t since)) False e;
                    window = elm327_collection_window e;
                    (e, timer) = timer_from en window e
                in Some (e, if num_frame > 0 \<and> int counter \<ge> num_frame then Inl True else Inr (counter, window, timer))
              }
            }))"

text \<open>The frame counter and the window at the end, and whether the hint was met.\<close>

partial_function (option) bus_loop ::
  "'d elm_env \<Rightarrow> nat \<Rightarrow> int \<Rightarrow> timer \<Rightarrow> nat \<times> nat \<times> timer \<Rightarrow> 'd elm \<Rightarrow> ('d elm \<times> nat \<times> nat \<times> bool) option" where
  "bus_loop en cap num_frame since s e = do {
     (e, r) \<leftarrow> bus_step en cap num_frame since s e;
     (case r of Inl met \<Rightarrow> Some (e, fst s, fst (snd s), met) | Inr s \<Rightarrow> bus_loop en cap num_frame since s e)
   }"

definition elm327_bus_xfer ::
  "'d elm_env \<Rightarrow> byte list \<Rightarrow> nat \<Rightarrow> int \<Rightarrow> nat \<Rightarrow> bool \<Rightarrow> nat \<Rightarrow> 'd elm \<Rightarrow> ('d elm \<times> int) option" where
  "elm327_bus_xfer en frame len num_frame cap drain_first settle_ms e =
     (let cap = min cap ELM327_BUS_CAP in do {
        e \<leftarrow> (if drain_first then drain_bus en cap e else Some e);
        tx \<leftarrow> elm327_build_bus_request e frame len cap;
        if tx = [] then Some (e, -2)
        else do {
          source \<leftarrow> get_at (tx @ replicate (ELM327_BUS_CAP - length tx) 0) 2;
          let e = elm327_apply_pwm_ifr en source e;
          let flags = (if elm327_bus e = VIF_BUS_KLINE then BUS_TX_CLEAR_RX_QUEUE else 0);
          let (e, rc) = on_vif (vif_bus_send (en_vif en) (en_me en) VIF_OWNER_LINK (elm327_bus e)
                (Some (bus_msg_tx (tx @ replicate (ELM327_BUS_CAP - length tx) 0) (length tx) 0)) flags) e;
          if rc \<noteq> 0 then Some (e, -2)
          else do {
            e \<leftarrow> elm327_timing_begin en frame len num_frame e;
            if num_frame = 0 \<or> \<not> st_responses (sett e) then do {
              e \<leftarrow> elm327_bus_settle en cap settle_ms 0 e;
              Some (e, 0)
            }
            else do {
              let window = tm_window_ms (em_timing e);
              let (e, since) = timer_from en 0 e;
              let (e, timer) = timer_from en window e;
              (e, counter, window, met) \<leftarrow> bus_loop en cap num_frame since (0, window, timer) e;
              if met then do {
                e \<leftarrow> elm327_bus_settle en cap settle_ms 0 e;
                Some (e, 0)
              }
              else do {
                e \<leftarrow> elm327_bus_settle en cap settle_ms window
                  (upd_timing (\<lambda>t. t\<lparr>tm_incomplete := (num_frame > 0 \<and> int counter < num_frame)\<rparr>) e);
                Some (e, if counter = 0 then -1 else 0)
              }
            }
          }
        }
      })"

definition elm327_j1850_pwm_xfer :: "'d elm_env \<Rightarrow> byte list \<Rightarrow> nat \<Rightarrow> int \<Rightarrow> 'd elm \<Rightarrow> ('d elm \<times> int) option" where
  "elm327_j1850_pwm_xfer en frame len num_frame = elm327_bus_xfer en frame len num_frame J1850_FRAME_CAP True J1850_SETTLE_MS"

definition elm327_j1850_vpw_xfer :: "'d elm_env \<Rightarrow> byte list \<Rightarrow> nat \<Rightarrow> int \<Rightarrow> 'd elm \<Rightarrow> ('d elm \<times> int) option" where
  "elm327_j1850_vpw_xfer en frame len num_frame = elm327_bus_xfer en frame len num_frame J1850_FRAME_CAP True J1850_SETTLE_MS"

definition elm327_kline_xfer :: "'d elm_env \<Rightarrow> byte list \<Rightarrow> nat \<Rightarrow> int \<Rightarrow> 'd elm \<Rightarrow> ('d elm \<times> int) option" where
  "elm327_kline_xfer en frame len num_frame e = do {
     (e, rc) \<leftarrow> elm327_kline_ensure_link en e;
     if rc \<noteq> 0 then Some (e, -3) else elm327_bus_xfer en frame len num_frame KLINE_FRAME_CAP False 0 e
   }"

section \<open>The search\<close>

definition elm327_try_protocol :: "'d elm_env \<Rightarrow> nat \<Rightarrow> byte list \<Rightarrow> nat \<Rightarrow> int \<Rightarrow> 'd elm \<Rightarrow> ('d elm \<times> int) option" where
  "elm327_try_protocol en proto frame len num_frame e =
     (let (e, rc) = elm327_set_protocol en proto e in
      if rc \<noteq> 0 then Some (e, -2)
      else if proto = ELM327_PROTO_ISO9141 \<or> proto = ELM327_PROTO_ISO14230_KWP_5BAUD \<or> proto = ELM327_PROTO_ISO14230_KWP_FAST
        then elm327_kline_xfer en frame len num_frame e
      else if proto = ELM327_PROTO_J1850_PWM then elm327_j1850_pwm_xfer en frame len num_frame e
      else if proto = ELM327_PROTO_J1850_VPW then elm327_j1850_vpw_xfer en frame len num_frame e
      else elm327_can_protocol_xfer en frame len num_frame e)"

definition J1850_CROSS_MODULATION_MS :: nat where "J1850_CROSS_MODULATION_MS = 750"

definition elm327_search_attempt ::
  "'d elm_env \<Rightarrow> byte list \<Rightarrow> nat \<Rightarrow> int \<Rightarrow> nat \<Rightarrow> nat \<Rightarrow> 'd elm \<Rightarrow> ('d elm \<times> int) option" where
  "elm327_search_attempt en frame len num_frame proto prev e =
     (let e = (if elm327_is_j1850 proto \<and> elm327_is_j1850 prev \<and> proto \<noteq> prev
            then fst (on_env (\<lambda>d. (en_delay en J1850_CROSS_MODULATION_MS d, ())) e) else e)
      in elm327_try_protocol en proto frame len num_frame e)"

definition order_fast :: "nat list" where
  "order_fast = [ELM327_PROTO_CAN_11BIT_500K, ELM327_PROTO_CAN_29BIT_500K, ELM327_PROTO_CAN_11BIT_250K,
     ELM327_PROTO_CAN_29BIT_250K, ELM327_PROTO_ISO9141, ELM327_PROTO_ISO14230_KWP_FAST, ELM327_PROTO_J1850_PWM,
     ELM327_PROTO_J1850_VPW]"

definition order_std :: "nat list" where
  "order_std = [ELM327_PROTO_J1850_PWM, ELM327_PROTO_J1850_VPW, ELM327_PROTO_ISO9141, ELM327_PROTO_ISO14230_KWP_FAST,
     ELM327_PROTO_CAN_11BIT_500K, ELM327_PROTO_CAN_29BIT_500K, ELM327_PROTO_CAN_11BIT_250K, ELM327_PROTO_CAN_29BIT_250K]"

text \<open>\<open>attempt proto prev\<close> tries a protocol after \<open>prev\<close>; the flag says that one answered.\<close>

fun search_loop ::
  "(nat \<Rightarrow> nat \<Rightarrow> 's \<Rightarrow> ('s \<times> int) option) \<Rightarrow> nat \<Rightarrow> nat \<Rightarrow> nat list \<Rightarrow> nat \<Rightarrow> int \<Rightarrow> 's \<Rightarrow> ('s \<times> int \<times> bool) option" where
  "search_loop attempt first skip [] prev ret e = Some (e, ret, False)"
| "search_loop attempt first skip (p # ps) prev ret e =
     (if p = first \<or> p = skip then search_loop attempt first skip ps prev ret e
      else do {
        (e, ret) \<leftarrow> attempt p prev e;
        if ret \<ge> 0 then Some (e, 0, True) else search_loop attempt first skip ps p ret e
      })"

definition elm327_search_protocol_xfer ::
  "'d elm_env \<Rightarrow> byte list \<Rightarrow> nat \<Rightarrow> int \<Rightarrow> nat \<Rightarrow> 'd elm \<Rightarrow> ('d elm \<times> int) option" where
  "elm327_search_protocol_xfer en frame len num_frame skip e =
     (let attempt = elm327_search_attempt en frame len num_frame;
          order = (if st_std_search_order (sett e) then order_std else order_fast);
          first = em_search_first e;
          e = e\<lparr>em_in_search := True\<rparr>
      in do {
        (e, prev, ret, found) \<leftarrow> (if first \<noteq> ELM327_PROTO_AUTO then do {
            (e, ret) \<leftarrow> attempt first skip e;
            Some (if ret \<ge> 0 then (e, first, 0, True) else (e, first, ret, False))
          } else Some (e, skip, -1, False));
        (e, ret, found) \<leftarrow> (if found then Some (e, ret, True) else search_loop attempt first skip order prev ret e);
        let e = e\<lparr>em_in_search := False\<rparr>;
        if found then Some (upd_set (\<lambda>s. s\<lparr>st_auto_search := True\<rparr>) (e\<lparr>em_search_first := 0\<rparr>), ret)
        else
          let e = fst (elm327_set_protocol en ELM327_PROTO_AUTO e);
              e = fst (link_release_buses en (e\<lparr>em_search_first := 0\<rparr>))
          in Some (upd_set (\<lambda>s. s\<lparr>st_auto_search := False\<rparr>) e, ret)
      })"

section \<open>In which order\<close>

text \<open>The protocols a search tries: what AT SP 0 left to be confirmed first, then the list, without the one
  just tried. \<open>first_success\<close> tries a list in order, each protocol once, up to the first that answers.\<close>

definition candidates :: "nat \<Rightarrow> nat \<Rightarrow> bool \<Rightarrow> nat list" where
  "candidates first skip std =
     (if first \<noteq> ELM327_PROTO_AUTO then [first] else []) @
     filter (\<lambda>p. p \<noteq> first \<and> p \<noteq> skip) (if std then order_std else order_fast)"

fun first_success ::
  "(nat \<Rightarrow> nat \<Rightarrow> 's \<Rightarrow> ('s \<times> int) option) \<Rightarrow> nat list \<Rightarrow> nat \<Rightarrow> int \<Rightarrow> 's \<Rightarrow> ('s \<times> int \<times> bool) option" where
  "first_success attempt [] prev ret e = Some (e, ret, False)"
| "first_success attempt (p # ps) prev ret e = do {
     (e, ret) \<leftarrow> attempt p prev e;
     if ret \<ge> 0 then Some (e, 0, True) else first_success attempt ps p ret e
   }"

lemma search_loop_filter:
  "search_loop attempt first skip ps prev ret e =
     first_success attempt (filter (\<lambda>p. p \<noteq> first \<and> p \<noteq> skip) ps) prev ret e"
proof (induction ps arbitrary: prev ret e)
  case Nil
  then show ?case by simp
next
  case (Cons p ps)
  then show ?case by (cases "attempt p prev e") auto
qed

lemma first_success_code: "first_success attempt ps prev ret e = Some (e', rc, found) \<Longrightarrow> ret < 0 \<Longrightarrow> found \<longleftrightarrow> 0 \<le> rc"
proof (induction ps arbitrary: prev ret e)
  case Nil
  then show ?case by auto
next
  case (Cons p ps)
  obtain e1 r where a: "attempt p prev e = Some (e1, r)" using Cons.prems(1) by (cases "attempt p prev e") auto
  show ?case
  proof (cases "0 \<le> r")
    case True
    then show ?thesis using Cons.prems(1) a by auto
  next
    case False
    then show ?thesis using Cons.IH [of p r e1] Cons.prems(1) a by simp
  qed
qed

lemma candidates_distinct: "distinct (candidates first skip std)"
  by (auto simp: candidates_def order_std_def order_fast_def proto_defs)

lemma set_auto: "st_protocol (sett (fst (elm327_set_protocol en ELM327_PROTO_AUTO e))) = ELM327_PROTO_AUTO"
  by (auto simp: elm327_set_protocol_def elm327_bus_for_protocol_def proto_defs upd_set_def Let_def)

lemma release_keeps: "sett (fst (link_release_buses en e)) = sett e"
    "em_in_search (fst (link_release_buses en e)) = em_in_search e"
    "em_search_first (fst (link_release_buses en e)) = em_search_first e"
  by (simp_all add: link_release_buses_def on_vif_def split_beta)

lemma set_auto_search: "em_in_search (fst (elm327_set_protocol en ELM327_PROTO_AUTO e)) = em_in_search e"
  by (auto simp: elm327_set_protocol_def elm327_bus_for_protocol_def proto_defs upd_set_def Let_def)

definition search_end :: "'d elm_env \<Rightarrow> 'd elm \<times> int \<times> bool \<Rightarrow> 'd elm \<times> int" where
  "search_end en = (\<lambda>(e, ret, found). (let e = e\<lparr>em_in_search := False\<rparr> in
     if found then (upd_set (\<lambda>s. s\<lparr>st_auto_search := True\<rparr>) (e\<lparr>em_search_first := 0\<rparr>), ret)
     else
       let e = fst (elm327_set_protocol en ELM327_PROTO_AUTO e);
           e = fst (link_release_buses en (e\<lparr>em_search_first := 0\<rparr>))
       in (upd_set (\<lambda>s. s\<lparr>st_auto_search := False\<rparr>) e, ret)))"

lemma search_code:
  "elm327_search_protocol_xfer en frame len n skip e = map_option (search_end en)
     (first_success (elm327_search_attempt en frame len n) (candidates (em_search_first e) skip (st_std_search_order (sett e)))
       skip (-1) (e\<lparr>em_in_search := True\<rparr>))"
proof -
  define att where "att = elm327_search_attempt en frame len n"
  define order where "order = (if st_std_search_order (sett e) then order_std else order_fast)"
  define first where "first = em_search_first e"
  have fin: "(case x of (e, ret, found) \<Rightarrow> let e = e\<lparr>em_in_search := False\<rparr> in
        if found then Some (upd_set (\<lambda>s. s\<lparr>st_auto_search := True\<rparr>) (e\<lparr>em_search_first := 0\<rparr>), ret)
        else
          let e = fst (elm327_set_protocol en ELM327_PROTO_AUTO e);
              e = fst (link_release_buses en (e\<lparr>em_search_first := 0\<rparr>))
          in Some (upd_set (\<lambda>s. s\<lparr>st_auto_search := False\<rparr>) e, ret)) = Some (search_end en x)" for x
    by (cases x) (simp add: search_end_def Let_def)
  have bind_map: "Option.bind x (\<lambda>y. Some (search_end en y)) = map_option (search_end en) x" for x
    by (cases x) simp_all
  show ?thesis
  proof (cases "first = ELM327_PROTO_AUTO")
    case True
    then show ?thesis
      unfolding elm327_search_protocol_xfer_def fin bind_map
      by (simp add: Let_def att_def [symmetric] order_def [symmetric] first_def [symmetric] search_loop_filter candidates_def)
  next
    case False
    then show ?thesis
      unfolding elm327_search_protocol_xfer_def fin bind_map
      by (cases "att first skip (e\<lparr>em_in_search := True\<rparr>)")
         (auto simp: Let_def att_def [symmetric] order_def [symmetric] first_def [symmetric] search_loop_filter candidates_def)
  qed
qed

text \<open>A search tries the protocols of its list in order, the standard's or the fast one, ahead of them
  the one AT SP 0 left to be confirmed, never the one that has just failed and none twice, and stops
  at the first that answers. A search that finds nothing leaves the protocol unknown, so the next
  request searches again; one that finds the protocol marks it as found automatically.\<close>

theorem elm_search_order:
  assumes "elm327_search_protocol_xfer en frame len n skip e = Some (e', rc)"
  shows "\<exists>e1 found. let cs = candidates (em_search_first e) skip (st_std_search_order (sett e)) in
    first_success (elm327_search_attempt en frame len n) cs skip (-1) (e\<lparr>em_in_search := True\<rparr>) = Some (e1, rc, found) \<and>
    distinct cs \<and> (found \<longleftrightarrow> 0 \<le> rc) \<and> \<not> em_in_search e' \<and> em_search_first e' = 0 \<and>
    st_auto_search (sett e') = found \<and>
    (if found then em_vif e' = em_vif e1 \<and> st_protocol (sett e') = st_protocol (sett e1)
     else st_protocol (sett e') = ELM327_PROTO_AUTO)"
proof -
  obtain e1 ret found where r: "first_success (elm327_search_attempt en frame len n)
      (candidates (em_search_first e) skip (st_std_search_order (sett e))) skip (-1) (e\<lparr>em_in_search := True\<rparr>) =
      Some (e1, ret, found)" "search_end en (e1, ret, found) = (e', rc)"
    using assms unfolding search_code by auto
  have f: "found \<longleftrightarrow> 0 \<le> ret" using first_success_code [OF r(1)] by simp
  have "rc = ret" "\<not> em_in_search e'" "em_search_first e' = 0" "st_auto_search (sett e') = found"
    "if found then em_vif e' = em_vif e1 \<and> st_protocol (sett e') = st_protocol (sett e1)
     else st_protocol (sett e') = ELM327_PROTO_AUTO"
    using r(2) by (auto simp: search_end_def Let_def upd_set_def release_keeps set_auto set_auto_search split: if_splits)
  then show ?thesis
    using r(1) f candidates_distinct [of "em_search_first e" skip "st_std_search_order (sett e)"]
    by (intro exI [of _ e1] exI [of _ found]) simp
qed

lemma first_success_fails:
  assumes "\<And>p prev e. p \<in> set ps \<Longrightarrow> I e \<Longrightarrow> \<exists>e'. attempt p prev e = Some (e', -2) \<and> I e'" "I e"
  shows "\<exists>e' rc. first_success attempt ps prev ret e = Some (e', rc, False)"
  using assms
proof (induction ps arbitrary: prev ret e)
  case Nil
  then show ?case by simp
next
  case (Cons p ps)
  obtain e1 where e1: "attempt p prev e = Some (e1, -2)" "I e1" using Cons.prems(1) [of p e prev] Cons.prems(2) by auto
  show ?case using Cons.IH [of e1 p "-2"] Cons.prems(1) e1 by auto
qed

text \<open>Nothing can be opened from a task that does not own the link: the search runs through its list and
  gives up.\<close>

definition elm_alien :: "'d elm \<Rightarrow> bool" where
  "elm_alien e \<longleftrightarrow> v_task (fst (em_vif e)) VIF_OWNER_LINK = None \<and> v_claim (fst (em_vif e)) = (\<lambda>_. claim_zero)"

lemma alien_set_protocol:
  assumes "elm_alien e" "p \<in> set order_fast"
  shows "\<exists>e'. elm327_set_protocol en p e = (e', -1) \<and> elm_alien e'"
proof -
  obtain g d where g: "em_vif e = (g, d)" by (cases "em_vif e")
  obtain bus bitrate h where b: "elm327_bus_for_protocol p = (bus, bitrate, h)" "bus \<noteq> VIF_BUS_NONE" "p \<noteq> ELM327_PROTO_AUTO"
    "\<exists>grp. bus_group bus = Some grp"
    using assms(2) by (auto simp: order_fast_def elm327_bus_for_protocol_def proto_defs bus_group_def)
  then show ?thesis using assms(1) g
    by (auto simp: elm327_set_protocol_def elm_alien_def bus_up_def vif_bus_is_open_def claim_zero_def open_bus_def
        link_release_buses_def on_vif_def vif_bus_release_all_def on_owner_thread_def vif_bus_open_def open_reserve_def
        upd_set_def Let_def ESP_OK_def ESP_ERR_INVALID_STATE_def)
qed

lemma alien_attempt:
  assumes "elm_alien e" "p \<in> set order_fast"
  shows "\<exists>e'. elm327_search_attempt en frame len n p prev e = Some (e', -2) \<and> elm_alien e'"
proof -
  let ?e = "if elm327_is_j1850 p \<and> elm327_is_j1850 prev \<and> p \<noteq> prev
    then fst (on_env (\<lambda>d. (en_delay en J1850_CROSS_MODULATION_MS d, ())) e) else e"
  have "elm_alien ?e" using assms(1) by (simp add: elm_alien_def on_env_def on_vif_def split_beta)
  from alien_set_protocol [OF this assms(2), of en] show ?thesis
    by (auto simp: elm327_search_attempt_def elm327_try_protocol_def)
qed

lemma elm_search_order_witness:
  "\<exists>e' rc. elm327_search_protocol_xfer still_env [1, 0] 2 (-1) 0 elm_blank = Some (e', rc) \<and> rc < 0 \<and>
     \<not> em_in_search e' \<and> em_search_first e' = 0 \<and> st_protocol (sett e') = ELM327_PROTO_AUTO"
proof -
  have blank: "em_search_first elm_blank = 0" "st_std_search_order (sett elm_blank) = False" "elm_alien elm_blank"
    "elm_alien (elm_blank\<lparr>em_in_search := True\<rparr>)"
    by (simp_all add: elm_blank_def elm327_fe_start_def elm327_load_defaults_def upd_set_def settings_default_def
        elm_alien_def vif_start_def)
  have cs: "candidates 0 0 False = order_fast" by (simp add: candidates_def order_fast_def proto_defs)
  obtain e1 r where r: "first_success (elm327_search_attempt still_env [1, 0] 2 (-1)) order_fast 0 (-1)
      (elm_blank\<lparr>em_in_search := True\<rparr>) = Some (e1, r, False)"
    using first_success_fails [where ps = order_fast and I = elm_alien and attempt = "elm327_search_attempt still_env [1, 0] 2 (-1)"
        and prev = 0 and ret = "-1", OF _ blank(4)] alien_attempt by blast
  have "\<exists>e' rc. elm327_search_protocol_xfer still_env [1, 0] 2 (-1) 0 elm_blank = Some (e', rc)"
    using r cs blank by (simp add: search_code Let_def)
  then obtain e' rc where x: "elm327_search_protocol_xfer still_env [1, 0] 2 (-1) 0 elm_blank = Some (e', rc)" by blast
  show ?thesis using elm_search_order [OF x] x r blank cs by (auto simp: Let_def)
qed

end
