(* ===== verification/ElmAt.thy ===== *)
theory ElmAt
  imports ElmXfer
begin

text \<open>
  The commands and the line assembler of the ELM327 grammar, \<open>main/elm327_at.c\<close>: the AT commands one
  by one, the dispatch of a line to a command or to a vehicle request, and the bytes of the client
  that make up a line. A command is a C string; \<open>cmd @ [NUL]\<close> is its memory. The log, and the trace
  of the Bluetooth port, are left out.
\<close>

section \<open>AT commands\<close>

text \<open>The wait of AT Z, which throws away what the client sends meanwhile.\<close>

partial_function (option) drain_link :: "'d elm_env \<Rightarrow> timer \<Rightarrow> 'd elm \<Rightarrow> 'd elm option" where
  "drain_link en timer e = (case tick en e of (e, t) \<Rightarrow>
     if Timer_is_expired t timer then Some e
     else drain_link en timer (fst (on_env (\<lambda>d. (en_link_read en 100 d, ())) e)))"

definition ATZ_WAIT_MS :: nat where "ATZ_WAIT_MS = 1000"

abbreviation ERROR :: "'d elm \<Rightarrow> 'd elm option" where "ERROR \<equiv> elm327_send_string (''ERROR'' @ [CR])"
abbreviation BANNER :: string where "BANNER \<equiv> [CR, CR] @ ELM_IDENTIFY @ [CR]"

definition at_frontend :: "'d elm_env \<Rightarrow> string \<Rightarrow> 'd elm \<Rightarrow> 'd elm option" where
  "at_frontend en name e = (case en_frontend_find en name of
       None \<Rightarrow> WHAT e
     | Some fe \<Rightarrow> do {
         e \<leftarrow> OK e;
         Some (upd_line (\<lambda>l. l\<lparr>ln_reset_discard := True\<rparr>) (e\<lparr>em_fe_next := Some fe\<rparr>))
       })"

definition at_reset_all :: "'d elm_env \<Rightarrow> 'd elm \<Rightarrow> 'd elm option" where
  "at_reset_all en e =
     (let (e, err) = elm327_reset en e in
      if err \<noteq> ESP_OK then ERROR e
      else
        let (e, timer) = timer_from en ATZ_WAIT_MS (upd_line (\<lambda>l. l\<lparr>ln_reset_discard := True\<rparr>) e)
        in do {
          e \<leftarrow> drain_link en timer e;
          elm327_send_string BANNER e
        })"

definition at_reset_to :: "'d elm_env \<Rightarrow> string \<Rightarrow> 'd elm \<Rightarrow> 'd elm option" where
  "at_reset_to en reply e =
     (let (e, err) = elm327_reset en e in
      if err \<noteq> ESP_OK then ERROR e else elm327_send_string reply e)"

text \<open>Commands whose argument is one byte in hexadecimal.\<close>

definition at_byte :: "string \<Rightarrow> (byte \<Rightarrow> 'd elm \<Rightarrow> 'd elm) \<Rightarrow> 'd elm \<Rightarrow> 'd elm option" where
  "at_byte arg f e = (case at_parse_byte arg of None \<Rightarrow> WHAT e | Some v \<Rightarrow> OK (f v e))"

definition at_set_timeout :: "byte \<Rightarrow> 'd elm \<Rightarrow> 'd elm" where
  "at_set_timeout v = upd_set (\<lambda>s. s\<lparr>st_timeout := (if v \<noteq> 0 then unat v * 4 else DEFAULT_TIMEOUT_MS)\<rparr>)"

definition at_set_wakeup :: "'d elm_env \<Rightarrow> byte \<Rightarrow> 'd elm \<Rightarrow> 'd elm" where
  "at_set_wakeup en v e =
     (if v \<noteq> 0 then elm327_kline_apply_wakeup en (upd_set (\<lambda>s. s\<lparr>st_wakeup_ms := unat v * 20\<rparr>) e)
      else param_set en (elm327_bus e) BUS_P_PERIODIC_MS 0 e)"

text \<open>\<open>snprintf\<close> into \<open>pn\<close>, \<open>dp\<close>, \<open>voltstr\<close>.\<close>

definition at_protocol_number :: "'d elm \<Rightarrow> string" where
  "at_protocol_number e =
     take 5 ((if elm327_protocol_is_auto e then ''A'' else []) @ hex_of (st_protocol (sett e)) @ [CR])"

definition at_describe_protocol :: "'d elm \<Rightarrow> string" where
  "at_describe_protocol e =
     take 39 ((if elm327_protocol_is_auto e then ''AUTO, '' else []) @ elm327_protocol_name (st_protocol (sett e)) @ [CR])"

definition at_voltage :: "'d elm_env \<Rightarrow> 'd elm \<Rightarrow> 'd elm option" where
  "at_voltage en e = (let (e, v) = on_env (en_vbatt en) e in elm327_send_string (take 7 (v @ [CR])) e)"

definition OPENDIAG_NAME :: string where "OPENDIAG_NAME = ''Maximus64'' @ '' '' @ ''OpenDiag''"

definition at_product :: "'d elm_env \<Rightarrow> 'd elm \<Rightarrow> 'd elm option" where
  "at_product en e = do {
     e \<leftarrow> elm327_send_string (OPENDIAG_NAME @ '' ('') e;
     e \<leftarrow> elm327_send_string (en_version en) e;
     elm327_send_string ('')'' @ [CR]) e
   }"

definition at_protocol_close :: "'d elm_env \<Rightarrow> 'd elm \<Rightarrow> 'd elm option" where
  "at_protocol_close en e =
     (let e = (if elm327_is_kline e then fst (link_ioctl en VIF_BUS_KLINE BUS_IOCTL_STOP_COMM NoArg e) else e);
          (e, err) = link_release_buses en e
      in if err \<noteq> ESP_OK then ERROR e
         else OK ((fst (elm327_set_protocol en ELM327_PROTO_AUTO e))\<lparr>em_search_first := 0\<rparr>))"

definition at_key_words :: "'d elm_env \<Rightarrow> 'd elm \<Rightarrow> 'd elm option" where
  "at_key_words en e =
     (if \<not> elm327_is_kline e then WHAT e
      else do {
        (e, up, l) \<leftarrow> elm327_kline_link en e;
        if \<not> up then WHAT e
        else do {
          l \<leftarrow> l;
          k0 \<leftarrow> get_at (bl_key l) 0;
          k1 \<leftarrow> get_at (bl_key l) 1;
          elm327_send_string (take 15 (hex_pad 2 (unat k0) @ '' '' @ hex_pad 2 (unat k1) @ [CR])) e
        }
      })"

definition at_iso_baud :: "'d elm_env \<Rightarrow> string \<Rightarrow> 'd elm \<Rightarrow> 'd elm option" where
  "at_iso_baud en arg e =
     (let baud = (if arg = ''10'' then 10400 else if arg = ''12'' then 12500 else if arg = ''15'' then 15625
            else if arg = ''48'' then 4800 else if arg = ''96'' then 9600 else 0)
      in if baud = 0 then WHAT e
         else
           let e = upd_set (\<lambda>s. s\<lparr>st_iso_baud := baud\<rparr>) e
           in OK (if elm327_is_kline e then param_set en VIF_BUS_KLINE BUS_P_DATA_RATE baud e else e))"

definition at_wakeup_message :: "'d elm_env \<Rightarrow> string \<Rightarrow> 'd elm \<Rightarrow> 'd elm option" where
  "at_wakeup_message en arg e = do {
     (n, msg) \<leftarrow> (if length arg \<noteq> 0 \<and> length arg mod 2 = 0
       then hex_string_to_u8_array (arg @ [NUL]) (length arg) (replicate BUS_PERIODIC_MAX 0)
       else Some (-1, []));
     if n \<le> 0 then WHAT e
     else do {
       stored \<leftarrow> store_at (st_wakeup_msg (sett e)) 0 (take (nat n) msg);
       OK (elm327_kline_apply_wakeup en (upd_set (\<lambda>s. s\<lparr>st_wakeup_msg := stored, st_wakeup_len := nat n\<rparr>) e))
     }
   }"

definition at_slow_init :: "'d elm_env \<Rightarrow> 'd elm \<Rightarrow> 'd elm option" where
  "at_slow_init en e =
     (if st_protocol (sett e) \<noteq> ELM327_PROTO_ISO9141 \<and> st_protocol (sett e) \<noteq> ELM327_PROTO_ISO14230_KWP_5BAUD then WHAT e
      else do {
        (e, rc) \<leftarrow> elm327_kline_init en KLINE_INIT_5BAUD e;
        if rc = 0 then elm327_kline_reconcile en e else Some e
      })"

definition at_fast_init :: "'d elm_env \<Rightarrow> 'd elm \<Rightarrow> 'd elm option" where
  "at_fast_init en e =
     (if st_protocol (sett e) \<noteq> ELM327_PROTO_ISO14230_KWP_FAST then WHAT e
      else map_option fst (elm327_kline_init en KLINE_INIT_FAST e))"

definition at_bypass_init :: "'d elm_env \<Rightarrow> 'd elm \<Rightarrow> 'd elm option" where
  "at_bypass_init en e =
     (if \<not> elm327_is_kline e then WHAT e
      else
        let e = fst (link_ioctl en VIF_BUS_KLINE BUS_IOCTL_ASSUME_LINK (ByteArg (if elm327_is_kwp e then 2 else 1)) e)
        in OK (elm327_kline_apply_wakeup en e))"

definition at_is_active :: "'d elm_env \<Rightarrow> 'd elm \<Rightarrow> 'd elm option" where
  "at_is_active en e = do {
     (e, active) \<leftarrow> (if elm327_is_kline e then map_option (\<lambda>(e, up, _). (e, up)) (elm327_kline_link en e)
       else Some (e, bus_up (elm327_bus e) e));
     elm327_send_string ((if active then ''Y'' else ''N'') @ [CR]) e
   }"

text \<open>The chain of comparisons, in its order; a prefix is matched after the commands it would hide.\<close>

definition elm327_at_command_handler :: "'d elm_env \<Rightarrow> string \<Rightarrow> 'd elm \<Rightarrow> 'd elm option" where
  "elm327_at_command_handler en cmd e =
     (if cmd = ''VIFPASSTHRU'' then at_frontend en ''j2534'' e
      else if cmd = ''VIFSLCAN'' then at_frontend en ''slcan'' e
      else if cmd = ''Z'' then at_reset_all en e
      else if cmd = ''D'' then at_reset_to en (''OK'' @ [CR]) e
      else if cmd = ''D0'' \<or> cmd = ''D1'' then OK (upd_set (\<lambda>s. s\<lparr>st_can_show_dlc := (cmd ! 1 = CHR ''1'')\<rparr>) e)
      else if take 2 cmd = ''SP'' \<or> take 2 cmd = ''TP'' then elm327_select_protocol_cmd en (drop 2 cmd) e
      else if take 2 cmd = ''ST'' then at_byte (drop 2 cmd) at_set_timeout e
      else if cmd = ''SS'' then OK (upd_set (\<lambda>s. s\<lparr>st_std_search_order := True\<rparr>) e)
      else if cmd = ''DPN'' then elm327_send_string (at_protocol_number e) e
      else if cmd = ''DP'' then elm327_send_string (at_describe_protocol e) e
      else if cmd = ''E0'' then OK (upd_set (\<lambda>s. s\<lparr>st_echo := False\<rparr>) e)
      else if cmd = ''E1'' then OK (upd_set (\<lambda>s. s\<lparr>st_echo := True\<rparr>) e)
      else if cmd = ''S0'' then OK (upd_set (\<lambda>s. s\<lparr>st_hex_spacing := False\<rparr>) e)
      else if cmd = ''S1'' then OK (upd_set (\<lambda>s. s\<lparr>st_hex_spacing := True\<rparr>) e)
      else if cmd = ''H0'' then OK (upd_set (\<lambda>s. s\<lparr>st_show_header := False\<rparr>) e)
      else if cmd = ''H1'' then OK (upd_set (\<lambda>s. s\<lparr>st_show_header := True\<rparr>) e)
      else if cmd = ''I'' then elm327_send_string (ELM_IDENTIFY @ [CR]) e
      else if cmd = ''L0'' then OK (upd_set (\<lambda>s. s\<lparr>st_linefeed := False\<rparr>) e)
      else if cmd = ''L1'' then OK (upd_set (\<lambda>s. s\<lparr>st_linefeed := True\<rparr>) e)
      else if cmd = ''M0'' then OK e
      else if cmd = ''M1'' then OK e
      else if cmd = ''CAF0'' then OK (upd_set (\<lambda>s. s\<lparr>st_can_auto_format := False\<rparr>) e)
      else if cmd = ''CAF1'' then OK (upd_set (\<lambda>s. s\<lparr>st_can_auto_format := True\<rparr>) e)
      else if cmd = ''RV'' then at_voltage en e
      else if take 5 cmd = ''PROGV'' then do {
        (e, rc) \<leftarrow> at_set_programing_voltage (drop 5 cmd) e;
        if rc \<noteq> 0 then WHAT e else OK e
      }
      else if take 2 cmd = ''SH'' then do {
        (e, rc) \<leftarrow> at_set_header (drop 2 cmd) e;
        if rc \<noteq> 0 then WHAT e else OK e
      }
      else if cmd = ''@1'' then at_product en e
      else if cmd = ''R0'' then OK (upd_set (\<lambda>s. s\<lparr>st_responses := False\<rparr>) e)
      else if cmd = ''R1'' then OK (upd_set (\<lambda>s. s\<lparr>st_responses := True\<rparr>) e)
      else if cmd = ''AT0'' \<or> cmd = ''AT1'' \<or> cmd = ''AT2'' then
        OK ((upd_set (\<lambda>s. s\<lparr>st_adaptive := (of_char (cmd ! 2) - 48)\<rparr>) e)\<lparr>em_timing := timing_zero\<rparr>)
      else if cmd = ''AR'' then OK (upd_set (\<lambda>s. s\<lparr>st_auto_receive := True\<rparr>) e)
      else if take 2 cmd = ''RA'' \<or> take 2 cmd = ''SR'' then
        at_byte (drop 2 cmd) (\<lambda>v. upd_set (\<lambda>s. s\<lparr>st_recv_address := v, st_auto_receive := False\<rparr>)) e
      else if take 2 cmd = ''TA'' then at_byte (drop 2 cmd) (\<lambda>v. upd_set (\<lambda>s. s\<lparr>st_tester_address := v\<rparr>)) e
      else if cmd = ''FT'' then OK (upd_set (\<lambda>s. s\<lparr>st_filter_tx := False\<rparr>) e)
      else if take 2 cmd = ''FT'' then
        at_byte (drop 2 cmd) (\<lambda>v. upd_set (\<lambda>s. s\<lparr>st_tx_filter := v, st_filter_tx := True\<rparr>)) e
      else if take 3 cmd = ''IFR'' then (let (e, rc) = at_set_ifr en (drop 3 cmd) e in if rc \<noteq> 0 then WHAT e else OK e)
      else if cmd = ''WS'' then at_reset_to en BANNER e
      else if cmd = ''PC'' then at_protocol_close en e
      else if take 3 cmd = ''IIA'' then at_byte (drop 3 cmd) (\<lambda>v. upd_set (\<lambda>s. s\<lparr>st_iso_init_address := v\<rparr>)) e
      else if cmd = ''KW'' then at_key_words en e
      else if cmd = ''KW0'' \<or> cmd = ''KW1'' then OK (upd_set (\<lambda>s. s\<lparr>st_key_word_check := (cmd ! 2 = CHR ''1'')\<rparr>) e)
      else if take 2 cmd = ''IB'' then at_iso_baud en (drop 2 cmd) e
      else if take 2 cmd = ''SW'' then at_byte (drop 2 cmd) (at_set_wakeup en) e
      else if take 2 cmd = ''WM'' then at_wakeup_message en (drop 2 cmd) e
      else if cmd = ''SI'' then at_slow_init en e
      else if cmd = ''FI'' then at_fast_init en e
      else if cmd = ''BI'' then at_bypass_init en e
      else if cmd = ''IA'' then at_is_active en e
      else if cmd = ''AL'' \<or> cmd = ''NL'' then OK e
      else WHAT e)"

section \<open>Lines\<close>

text \<open>Which exchange a request goes to, and the result -2 without one.\<close>

definition elm327_exchange :: "'d elm_env \<Rightarrow> byte list \<Rightarrow> nat \<Rightarrow> int \<Rightarrow> 'd elm \<Rightarrow> ('d elm \<times> int) option" where
  "elm327_exchange en frame len num_frame e =
     (let p = st_protocol (sett e) in
      if p = 0 then do {
        e \<leftarrow> elm327_send_string (''SEARCHING...'' @ [CR]) e;
        elm327_search_protocol_xfer en frame len num_frame ELM327_PROTO_AUTO e
      }
      else if p = ELM327_PROTO_J1850_PWM then elm327_j1850_pwm_xfer en frame len num_frame e
      else if p = ELM327_PROTO_J1850_VPW then elm327_j1850_vpw_xfer en frame len num_frame e
      else if elm327_is_kline e then elm327_kline_xfer en frame len num_frame e
      else if p \<in> {ELM327_PROTO_CAN_29BIT_500K, ELM327_PROTO_CAN_29BIT_250K, ELM327_PROTO_CAN_11BIT_500K,
           ELM327_PROTO_CAN_11BIT_250K} then elm327_can_protocol_xfer en frame len num_frame e
      else Some (e, -2))"

text \<open>The other protocols, once, when AT SP A named one that does not answer.\<close>

definition elm327_fall_back :: "'d elm_env \<Rightarrow> byte list \<Rightarrow> nat \<Rightarrow> int \<Rightarrow> 'd elm \<times> int \<Rightarrow> ('d elm \<times> int) option" where
  "elm327_fall_back en frame len num_frame = (\<lambda>(e, rc).
     if rc < 0 \<and> rc \<noteq> -3 \<and> st_auto_fallback (sett e) then do {
       let tried = st_protocol (sett e);
       e \<leftarrow> elm327_send_string (''SEARCHING...'' @ [CR])
         ((upd_set (\<lambda>s. s\<lparr>st_auto_fallback := False\<rparr>) e)\<lparr>em_search_first := 0\<rparr>);
       elm327_search_protocol_xfer en frame len num_frame tried e
     }
     else Some (e, rc))"

definition elm327_request :: "'d elm_env \<Rightarrow> byte list \<Rightarrow> nat \<Rightarrow> int \<Rightarrow> 'd elm \<Rightarrow> 'd elm option" where
  "elm327_request en frame len num_frame e = do {
     (e, rc) \<leftarrow> elm327_exchange en frame len num_frame e;
     (e, rc) \<leftarrow> elm327_fall_back en frame len num_frame (e, rc);
     e \<leftarrow> (if st_responses (sett e) \<and> num_frame \<noteq> 0 \<and> (rc = 0 \<or> rc = -1) then elm327_timing_finish en e
       else Some (upd_watch (\<lambda>w. w\<lparr>rw_active := False\<rparr>) e));
     if rc = -1 then elm327_send_string (''NO DATA'' @ [CR]) e
     else if rc = -3 then Some e
     else if rc < 0 then WHAT e
     else Some e
   }"

definition elm327_prompt :: "'d elm \<Rightarrow> 'd elm option" where
  "elm327_prompt e = do {
     e \<leftarrow> elm327_send_string [CR, CHR ''>''] e;
     elm327_uart_flush e
   }"

definition elm327_parse_request :: "'d elm_env \<Rightarrow> string \<Rightarrow> 'd elm \<Rightarrow> 'd elm option" where
  "elm327_parse_request en cmd e =
     (let num_frame = (if odd (length cmd) then hex_char_to_int (cmd ! (length cmd - 1)) else -1);
          len = (if odd (length cmd) then length cmd - 1 else length cmd)
      in if len > 8 * 2 then WHAT e
         else do {
           (frame_len, frame) \<leftarrow> hex_string_to_u8_array (cmd @ [NUL]) len (replicate 8 0);
           if frame_len \<le> 0 then WHAT e else elm327_request en frame (nat frame_len) num_frame e
         })"

definition elm327_parse_command :: "'d elm_env \<Rightarrow> string \<Rightarrow> 'd elm \<Rightarrow> 'd elm option" where
  "elm327_parse_command en cmd e = do {
     e \<leftarrow> elm327_observe_late_replies en e;
     let e = upd_watch (\<lambda>w. w\<lparr>rw_active := False\<rparr>) e;
     e \<leftarrow> (if take 2 cmd = ''AT'' then elm327_at_command_handler en (drop 2 cmd) e else elm327_parse_request en cmd e);
     elm327_prompt e
   }"

text \<open>What is stripped, and the fold to upper case.\<close>

definition elm_skipped :: "char \<Rightarrow> bool" where
  "elm_skipped c \<longleftrightarrow> c = CHR '' '' \<or> c = LF \<or> c = CHR 0x09 \<or> c = NUL"

definition elm_upper :: "char \<Rightarrow> char" where
  "elm_upper c = (if 97 \<le> (of_char c :: nat) \<and> (of_char c :: nat) \<le> 122 then char_of ((of_char c :: nat) - 0x20) else c)"

text \<open>The C string a buffer holds; without a terminator, reading it is a fault.\<close>

definition c_string :: "string \<Rightarrow> string option" where
  "c_string buf = (if NUL \<in> set buf then Some (takeWhile (\<lambda>c. c \<noteq> NUL) buf) else None)"

definition elm327_line :: "'d elm_env \<Rightarrow> 'd elm \<Rightarrow> 'd elm option" where
  "elm327_line en e = do {
     e \<leftarrow> (if ln_overflow (em_line e) then do {
         e \<leftarrow> elm327_send_string ([CHR ''?'', CR, CR, CHR ''>'']) e;
         elm327_uart_flush e
       }
       else if ln_cmdidx (em_line e) = 0 then do {
         cmd \<leftarrow> c_string (ln_lastcmd (em_line e));
         elm327_parse_command en cmd e
       }
       else do {
         cmd \<leftarrow> c_string (ln_cmdbuf (em_line e));
         e \<leftarrow> elm327_parse_command en cmd e;
         bs \<leftarrow> load_at (ln_cmdbuf (em_line e)) 0 (ln_cmdidx (em_line e) + 1);
         buf \<leftarrow> store_at (ln_lastcmd (em_line e)) 0 bs;
         Some (upd_line (\<lambda>l. l\<lparr>ln_lastcmd := buf\<rparr>) e)
       });
     Some (upd_line (\<lambda>l. l\<lparr>ln_cmdidx := 0, ln_overflow := False\<rparr>) e)
   }"

definition elm327_feed_byte :: "'d elm_env \<Rightarrow> 'd elm \<Rightarrow> char \<Rightarrow> 'd elm option" where
  "elm327_feed_byte en e val = do {
     e \<leftarrow> (if st_echo (sett e) then elm327_uart_send_text [val] e else Some e);
     if elm_skipped val then Some e
     else do {
       let val = elm_upper val;
       buf \<leftarrow> set_at (ln_cmdbuf (em_line e)) (ln_cmdidx (em_line e)) val;
       if val = CR then do {
         buf \<leftarrow> set_at buf (ln_cmdidx (em_line e)) NUL;
         elm327_line en (upd_line (\<lambda>l. l\<lparr>ln_cmdbuf := buf\<rparr>) e)
       }
       else
         let i = ln_cmdidx (em_line e) + 1
         in Some (if i = ELM_LINE_MAX - 1
              then upd_line (\<lambda>l. l\<lparr>ln_cmdbuf := buf, ln_cmdidx := 0, ln_overflow := True\<rparr>) e
              else upd_line (\<lambda>l. l\<lparr>ln_cmdbuf := buf, ln_cmdidx := i\<rparr>) e)
     }
   }"

section \<open>The front-end\<close>

fun elm327_fe_feed :: "'d elm_env \<Rightarrow> 'd elm \<Rightarrow> string \<Rightarrow> 'd elm option" where
  "elm327_fe_feed en e [] = Some e"
| "elm327_fe_feed en e (c # cs) = do {
     e \<leftarrow> elm327_feed_byte en e c;
     if ln_reset_discard (em_line e)
     then Some (upd_line (\<lambda>l. l\<lparr>ln_reset_discard := False, ln_cmdidx := 0, ln_overflow := False\<rparr>) e)
     else elm327_fe_feed en e cs
   }"

definition elm327_fe_stop :: "'d elm_env \<Rightarrow> 'd elm \<Rightarrow> 'd elm option" where
  "elm327_fe_stop en e = do {
     e \<leftarrow> elm327_uart_flush (upd_watch (\<lambda>w. w\<lparr>rw_active := False\<rparr>) e);
     Some (if elm327_is_kline e then fst (link_ioctl en VIF_BUS_KLINE BUS_IOCTL_STOP_COMM NoArg e) else e)
   }"

definition elm327_fe_poll :: "'d elm_env \<Rightarrow> 'd elm \<Rightarrow> 'd elm option" where
  "elm327_fe_poll en e = elm327_observe_late_replies en e"

end
