(* ===== verification/ElmKept.thy ===== *)
theory ElmKept
  imports ElmAt
begin

text \<open>
  What the ELM327 grammar keeps, whatever the client sends and the vehicle answers: the lines it is
  assembling and the output it has given. \<open>elm_kept e0 e\<close> says so of two states, and \<open>keeps\<close> of the
  result of an operation; the rules for the constructs the operations are written with, and one lemma
  per operation, are the collection \<open>kept\<close>, so that the proof for an operation is its definition and
  the collection. The properties: a line is assembled, echoed and answered, and answered by a prompt.
\<close>

named_theorems kept "what an operation keeps of the output and of the line"

section \<open>The calculus\<close>

definition elm_kept :: "'d elm \<Rightarrow> 'd elm \<Rightarrow> bool" where
  "elm_kept e0 e \<longleftrightarrow> (elm_tx_ok e0 \<longrightarrow> elm_tx_ok e \<and> (\<exists>s. elm_said e = elm_said e0 @ s)) \<and>
     (\<exists>b. em_line e = (em_line e0)\<lparr>ln_reset_discard := b\<rparr>)"

definition keeps :: "('x \<Rightarrow> 'd elm) \<Rightarrow> 'd elm \<Rightarrow> 'x option \<Rightarrow> bool" where
  "keeps g e0 m \<longleftrightarrow> (\<forall>x. m = Some x \<longrightarrow> elm_kept e0 (g x))"

lemma kept_refl: "elm_kept e e"
  by (auto simp: elm_kept_def intro: exI [of _ "ln_reset_discard (em_line e)"])

lemma kept_trans: "elm_kept e0 e1 \<Longrightarrow> elm_kept e1 e2 \<Longrightarrow> elm_kept e0 e2"
  by (auto simp: elm_kept_def)

lemma kept_same:
  assumes "elm_kept e0 e" "em_tx_buf e' = em_tx_buf e" "em_tx_len e' = em_tx_len e" "em_link e' = em_link e"
    "em_line e' = em_line e"
  shows "elm_kept e0 e'"
  using assms by (simp add: elm_kept_def elm_tx_ok_def elm_said_def)

text \<open>A bind takes what its first part keeps to the rest; the rule depends on what is bound.\<close>

lemma keeps_none [kept]: "keeps g e0 None"
  by (simp add: keeps_def)

lemma keeps_some [kept]: "elm_kept e0 e \<Longrightarrow> keeps id e0 (Some e)" "elm_kept e0 e \<Longrightarrow> keeps fst e0 (Some (e, y))"
    "elm_kept e0 (fst p) \<Longrightarrow> keeps fst e0 (Some p)"
  by (simp_all add: keeps_def)

lemma keeps_bind:
  fixes m :: "'d elm option"
  shows "keeps id e0 m \<Longrightarrow> (\<And>x. elm_kept e0 x \<Longrightarrow> keeps h e0 (f x)) \<Longrightarrow> keeps h e0 (Option.bind m f)"
  by (cases m) (auto simp: keeps_def)

lemma keeps_bind_pair:
  fixes m :: "('d elm \<times> 'y) option"
  shows "keeps fst e0 m \<Longrightarrow> (\<And>x. elm_kept e0 (fst x) \<Longrightarrow> keeps h e0 (f x)) \<Longrightarrow> keeps h e0 (Option.bind m f)"
  by (cases m) (auto simp: keeps_def)

lemma keeps_bind_pure: "(\<And>x. keeps h e0 (f x)) \<Longrightarrow> keeps h e0 (Option.bind m f)"
  by (cases m) (auto simp: keeps_def)

lemma keeps_case:
  fixes p :: "'d elm \<times> 'y"
  shows "elm_kept e0 (fst p) \<Longrightarrow> (\<And>a b. elm_kept e0 a \<Longrightarrow> keeps h e0 (f a b)) \<Longrightarrow> keeps h e0 (case p of (a, b) \<Rightarrow> f a b)"
  by (cases p) simp

lemma keeps_case_pure: "(\<And>a b. keeps h e0 (f a b)) \<Longrightarrow> keeps h e0 (case p of (a, b) \<Rightarrow> f a b)"
  by (cases p) simp

lemma keeps_let:
  fixes x :: "'d elm"
  shows "elm_kept e0 x \<Longrightarrow> (\<And>y. elm_kept e0 y \<Longrightarrow> keeps h e0 (f y)) \<Longrightarrow> keeps h e0 (Let x f)"
  by simp

lemma keeps_let_pure: "keeps h e0 (f x) \<Longrightarrow> keeps h e0 (Let x f)"
  by simp

lemma keeps_if: "(c \<Longrightarrow> keeps h e0 a) \<Longrightarrow> (\<not> c \<Longrightarrow> keeps h e0 b) \<Longrightarrow> keeps h e0 (if c then a else b)"
  by simp

lemma keeps_option: "keeps h e0 a \<Longrightarrow> (\<And>y. x = Some y \<Longrightarrow> keeps h e0 (f y)) \<Longrightarrow>
    keeps h e0 (case x of None \<Rightarrow> a | Some y \<Rightarrow> f y)"
  by (cases x) simp_all

lemma keeps_sum: "(\<And>y. keeps h e0 (f y)) \<Longrightarrow> (\<And>y. keeps h e0 (g y)) \<Longrightarrow>
    keeps h e0 (case x of Inl y \<Rightarrow> f y | Inr y \<Rightarrow> g y)"
  by (cases x) simp_all

lemma keeps_map_fst: "keeps fst e0 m \<Longrightarrow> keeps id e0 (map_option fst m)"
  by (cases m) (simp_all add: keeps_def)

lemma keeps_map_pair: "keeps fst e0 m \<Longrightarrow> keeps fst e0 (map_option (\<lambda>(e, y). (e, f y)) m)"
  by (cases m) (auto simp: keeps_def)

lemmas keeps_rules [kept] = keeps_bind keeps_bind_pair keeps_bind_pure keeps_case keeps_case_pure keeps_let keeps_let_pure
  keeps_if keeps_option keeps_sum keeps_map_fst keeps_map_pair

text \<open>The same for operations that cannot fail.\<close>

lemma kept_pair: "elm_kept e0 e \<Longrightarrow> elm_kept e0 (fst (e, y))"
  by simp

lemma kept_case:
  fixes p :: "'d elm \<times> 'y"
  shows "elm_kept e0 (fst p) \<Longrightarrow> (\<And>a b. elm_kept e0 a \<Longrightarrow> elm_kept e0 (f a b)) \<Longrightarrow> elm_kept e0 (case p of (a, b) \<Rightarrow> f a b)"
    and "elm_kept e0 (fst p) \<Longrightarrow> (\<And>a b. elm_kept e0 a \<Longrightarrow> elm_kept e0 (fst (g a b))) \<Longrightarrow>
      elm_kept e0 (fst (case p of (a, b) \<Rightarrow> g a b))"
  by (cases p, simp)+

lemma kept_case_pure:
    "(\<And>a b. elm_kept e0 (f a b)) \<Longrightarrow> elm_kept e0 (case p of (a, b) \<Rightarrow> f a b)"
    "(\<And>a b. elm_kept e0 (fst (g a b))) \<Longrightarrow> elm_kept e0 (fst (case p of (a, b) \<Rightarrow> g a b))"
  by (cases p, simp)+

lemma kept_if: "(c \<Longrightarrow> elm_kept e0 a) \<Longrightarrow> (\<not> c \<Longrightarrow> elm_kept e0 b) \<Longrightarrow> elm_kept e0 (if c then a else b)"
    "(c \<Longrightarrow> elm_kept e0 (fst p)) \<Longrightarrow> (\<not> c \<Longrightarrow> elm_kept e0 (fst q)) \<Longrightarrow> elm_kept e0 (fst (if c then p else q))"
  by simp_all

lemma kept_let:
  fixes x :: "'d elm"
  shows "elm_kept e0 x \<Longrightarrow> (\<And>y. elm_kept e0 y \<Longrightarrow> elm_kept e0 (f y)) \<Longrightarrow> elm_kept e0 (Let x f)"
    and "elm_kept e0 x \<Longrightarrow> (\<And>y. elm_kept e0 y \<Longrightarrow> elm_kept e0 (fst (g y))) \<Longrightarrow> elm_kept e0 (fst (Let x g))"
  by simp_all

lemma kept_let_pure: "elm_kept e0 (f x) \<Longrightarrow> elm_kept e0 (Let x f)" "elm_kept e0 (fst (g x)) \<Longrightarrow> elm_kept e0 (fst (Let x g))"
  by simp_all

lemma kept_option:
    "elm_kept e0 (fst a) \<Longrightarrow> (\<And>y. elm_kept e0 (fst (f y))) \<Longrightarrow> elm_kept e0 (fst (case x of None \<Rightarrow> a | Some y \<Rightarrow> f y))"
  by (cases x) simp_all

lemmas kept_rules [kept] = kept_pair kept_case kept_case_pure kept_if kept_let kept_let_pure kept_option

section \<open>The operations\<close>

lemma kept_fields [kept]:
  assumes "elm_kept e0 e"
  shows "elm_kept e0 (upd_set f e)" "elm_kept e0 (upd_timing t e)" "elm_kept e0 (upd_watch w e)"
    "elm_kept e0 (fst (on_vif v e))" "elm_kept e0 (e\<lparr>em_timing := tm\<rparr>)" "elm_kept e0 (e\<lparr>em_search_first := n\<rparr>)"
    "elm_kept e0 (e\<lparr>em_in_search := s\<rparr>)" "elm_kept e0 (e\<lparr>em_fe_next := fe\<rparr>)"
  by (rule kept_same [OF assms]; simp add: upd_set_def upd_watch_def on_vif_def split_beta)+

lemma kept_discard [kept]: "elm_kept e0 e \<Longrightarrow> elm_kept e0 (upd_line (\<lambda>l. l\<lparr>ln_reset_discard := b\<rparr>) e)"
  by (auto simp: elm_kept_def upd_line_def elm_tx_ok_def elm_said_def)

lemma kept_says:
  assumes "elm_kept e0 e" "em_line e' = em_line e" "elm_tx_ok e \<Longrightarrow> \<exists>s. elm_says e s e'"
  shows "elm_kept e0 e'"
  using assms by (auto simp: elm_kept_def elm_says_def)

lemma kept_flush [kept]:
  assumes "elm_kept e0 e"
  shows "keeps id e0 (elm327_uart_flush e)"
  unfolding keeps_def
proof (intro allI impI)
  fix e' assume r: "elm327_uart_flush e = Some e'"
  have "em_line e' = em_line e" using r by (auto simp: elm327_uart_flush_def bind_eq_Some_conv split: if_splits)
  moreover have "elm_tx_ok e \<Longrightarrow> \<exists>s. elm_says e s e'" using elm_flush_says [of e] r by auto
  ultimately show "elm_kept e0 (id e')" using kept_says [OF assms] by simp
qed

lemma kept_send_bytes [kept]:
  assumes "elm_kept e0 e"
  shows "keeps id e0 (elm327_uart_send_bytes s e)"
  unfolding keeps_def
proof (intro allI impI)
  fix e' assume r: "elm327_uart_send_bytes s e = Some e'"
  show "elm_kept e0 (id e')"
  proof (cases "length s > ELM327_TX_BUF")
    case True
    then show ?thesis using r assms by (simp add: elm327_uart_send_bytes_def)
  next
    case False
    have "em_line e' = em_line e"
      using r False by (auto simp: elm327_uart_send_bytes_def elm327_uart_flush_def bind_eq_Some_conv split: if_splits)
    moreover have "elm_tx_ok e \<Longrightarrow> \<exists>s. elm_says e s e'" using send_bytes_says [of e s] r False by auto
    ultimately show ?thesis using kept_says [OF assms] by simp
  qed
qed

lemma kept_send_loop: "elm_kept e0 e \<Longrightarrow> keeps id e0 (send_text_loop seg s e)"
proof (induction s arbitrary: seg e)
  case Nil
  then show ?case unfolding send_text_loop.simps by (intro kept | assumption)+
next
  case (Cons c s)
  show ?case unfolding send_text_loop.simps by (intro kept Cons.IH Cons.prems) simp_all
qed

lemma kept_send_text [kept]: "elm_kept e0 e \<Longrightarrow> keeps id e0 (elm327_uart_send_text s e)"
  unfolding elm327_uart_send_text_def by (intro kept kept_send_loop | assumption)+

lemma kept_send_string [kept]: "elm_kept e0 e \<Longrightarrow> keeps id e0 (elm327_send_string s e)"
  unfolding elm327_send_string_def by (rule kept_send_text)

lemma kept_calls [kept]:
  assumes "elm_kept e0 e"
  shows "elm_kept e0 (fst (on_env f e))" "elm_kept e0 (fst (link_release_buses en e))" "elm_kept e0 (param_set en bus p v e)"
    "elm_kept e0 (fst (link_ioctl en bus i arg e))" "elm_kept e0 (fst (open_bus en bus r e))"
    "elm_kept e0 (fst (time_us en e))" "elm_kept e0 (fst (tick en e))" "elm_kept e0 (fst (link_recv en cap w e))"
  unfolding on_env_def link_release_buses_def param_set_def link_ioctl_def open_bus_def time_us_def tick_def link_recv_def
  by (rule kept_fields(4) [OF assms])+

lemma kept_timer [kept]: "elm_kept e0 e \<Longrightarrow> elm_kept e0 (fst (timer_from en ms e))"
  unfolding timer_from_def by (intro kept | assumption)+

lemma kept_policy [kept]: "elm_kept e0 e \<Longrightarrow> elm_kept e0 (elm327_apply_bus_policy en bus p e)"
  unfolding elm327_apply_bus_policy_def by (intro kept | assumption)+

lemma kept_set_protocol [kept]: "elm_kept e0 e \<Longrightarrow> elm_kept e0 (fst (elm327_set_protocol en p e))"
  unfolding elm327_set_protocol_def by (intro kept | assumption)+

lemma kept_defaults [kept]: "elm_kept e0 e \<Longrightarrow> elm_kept e0 (elm327_load_defaults e)"
  unfolding elm327_load_defaults_def by (rule kept_same [of e0 e]) (simp_all add: upd_set_def)

lemma kept_reset [kept]: "elm_kept e0 e \<Longrightarrow> elm_kept e0 (fst (elm327_reset en e))"
  unfolding elm327_reset_def by (intro kept | assumption)+

lemma kept_pwm_ifr [kept]: "elm_kept e0 e \<Longrightarrow> elm_kept e0 (elm327_apply_pwm_ifr en b e)"
  unfolding elm327_apply_pwm_ifr_def by (intro kept | assumption)+

text \<open>Timing and frames.\<close>

lemma kept_reply_window [kept]: "elm_kept e0 e \<Longrightarrow> elm_kept e0 (fst (elm327_reply_window en e))"
  unfolding elm327_reply_window_def by (intro kept | assumption)+

lemma kept_timing_update [kept]: "elm_kept e0 e \<Longrightarrow> keeps id e0 (elm327_timing_update b e)"
  unfolding elm327_timing_update_def by (intro kept | assumption)+

lemma kept_timing_begin [kept]: "elm_kept e0 e \<Longrightarrow> keeps id e0 (elm327_timing_begin en request len n e)"
  unfolding elm327_timing_begin_def by (intro kept | assumption)+

lemma kept_timing_reply [kept]: "elm_kept e0 e \<Longrightarrow> elm_kept e0 (elm327_timing_reply l p e)"
  unfolding elm327_timing_reply_def by (intro kept | assumption)+

lemma kept_record_latency [kept]: "elm_kept e0 e \<Longrightarrow> keeps id e0 (elm327_record_latency b e)"
  unfolding elm327_record_latency_def by (intro kept | assumption)+

lemma kept_timing_backoff [kept]: "elm_kept e0 e \<Longrightarrow> elm_kept e0 (elm327_timing_backoff e)"
  unfolding elm327_timing_backoff_def by (intro kept | assumption)+

lemma kept_timing_finish [kept]: "elm_kept e0 e \<Longrightarrow> keeps id e0 (elm327_timing_finish en e)"
  unfolding elm327_timing_finish_def by (intro kept | assumption)+

lemma kept_print_can_frame [kept]: "elm_kept e0 e \<Longrightarrow> keeps id e0 (elm327_print_can_frame i dlc data e)"
  unfolding elm327_print_can_frame_def by (intro kept | assumption)+

lemma kept_print_bus_frame [kept]: "elm_kept e0 e \<Longrightarrow> keeps id e0 (elm327_print_j1850_kline_frame data len e)"
  unfolding elm327_print_j1850_kline_frame_def by (intro kept | assumption)+

lemma kept_observe_loop [kept]: "elm_kept e0 e \<Longrightarrow> keeps id e0 (observe_loop en n e)"
proof (induction n arbitrary: e)
  case 0
  then show ?case by (simp add: keeps_def)
next
  case (Suc n)
  show ?case unfolding observe_loop.simps using Suc.prems by (intro kept Suc.IH | assumption)+
qed

lemma kept_observe [kept]: "elm_kept e0 e \<Longrightarrow> keeps id e0 (elm327_observe_late_replies en e)"
  unfolding elm327_observe_late_replies_def by (intro kept | assumption)+

text \<open>Exchanges. A loop keeps what one pass of it keeps.\<close>

lemma keeps_idD: "keeps id e0 m \<Longrightarrow> m = Some x \<Longrightarrow> elm_kept e0 x"
  and keeps_fstD: "keeps fst e0 m' \<Longrightarrow> m' = Some y \<Longrightarrow> elm_kept e0 (fst y)"
  by (simp_all add: keeps_def)

lemma keeps_map_option:
  assumes "keeps fst e0 m" "\<And>x. elm_kept e0 (fst x) \<Longrightarrow> elm_kept e0 (fst (f x))"
  shows "keeps fst e0 (map_option f m)"
  using assms by (cases m) (simp_all add: keeps_def)

lemma keeps_step: "(\<And>x. m = Some x \<Longrightarrow> elm_kept e0 (g x)) \<Longrightarrow> keeps g e0 m"
  by (simp add: keeps_def)

lemma kept_settle_loop [kept]:
  assumes "elm_kept e0 e"
  shows "keeps id e0 (settle_loop en limit cap settle_ms e)"
proof (rule keeps_step)
  fix x assume "settle_loop en limit cap settle_ms e = Some x"
  then have "elm_kept e x"
  proof (rule settle_loop.raw_induct [where P = "\<lambda>en limit cap settle_ms e x. elm_kept e x", rotated], goal_cases)
    case (1 f en limit cap settle_ms e x)
    have f: "keeps id e0 (f en' limit' cap' settle_ms' e')" if "elm_kept e0 e'" for e0 en' limit' cap' settle_ms' e'
      using kept_trans [OF that] 1(1) by (simp add: keeps_def)
    show ?case by (rule keeps_idD [OF _ 1(2)]) (intro kept f | rule kept_refl | assumption)+
  qed
  from kept_trans [OF assms this] show "elm_kept e0 (id x)" by simp
qed

lemma kept_bus_settle [kept]: "elm_kept e0 e \<Longrightarrow> keeps id e0 (elm327_bus_settle en cap settle quiet e)"
  unfolding elm327_bus_settle_def by (intro kept | assumption)+

lemma kept_read_all_can [kept]:
  assumes "elm_kept e0 e"
  shows "keeps id e0 (read_all_can en e)"
proof (rule keeps_step)
  fix x assume "read_all_can en e = Some x"
  then have "elm_kept e x"
  proof (rule read_all_can.raw_induct [where P = "\<lambda>en e x. elm_kept e x", rotated], goal_cases)
    case (1 f en e x)
    have f: "keeps id e0 (f en' e')" if "elm_kept e0 e'" for e0 en' e'
      using kept_trans [OF that] 1(1) by (simp add: keeps_def)
    show ?case by (rule keeps_idD [OF _ 1(2)]) (intro kept f | rule kept_refl | assumption)+
  qed
  from kept_trans [OF assms this] show "elm_kept e0 (id x)" by simp
qed

lemma kept_can_segment [kept]: "elm_kept e0 e \<Longrightarrow> keeps fst e0 (can_segment en rq cx k rx stream segment now e)"
  unfolding can_segment_def by (intro kept | assumption)+

lemma kept_can_received [kept]: "elm_kept e0 e \<Longrightarrow> keeps fst e0 (can_received en rq cx rx e)"
  unfolding can_received_def by (intro kept | assumption)+

lemma kept_can_step [kept]: "elm_kept e0 e \<Longrightarrow> keeps fst e0 (can_step en rq cx e)"
  unfolding can_step_def by (intro kept | assumption)+

lemma kept_can_loop [kept]:
  assumes "elm_kept e0 e"
  shows "keeps fst e0 (can_loop en rq cx e)"
proof (rule keeps_step)
  fix x assume "can_loop en rq cx e = Some x"
  then have "elm_kept e (fst x)"
  proof (rule can_loop.raw_induct [where P = "\<lambda>en rq cx e x. elm_kept e (fst x)", rotated], goal_cases)
    case (1 f en rq cx e x)
    have f: "keeps fst e0 (f en' rq' cx' e')" if "elm_kept e0 e'" for e0 en' rq' cx' e'
      using kept_trans [OF that] 1(1) by (simp add: keeps_def)
    show ?case by (rule keeps_fstD [OF _ 1(2)]) (intro kept f | rule kept_refl | assumption)+
  qed
  from kept_trans [OF assms this] show "elm_kept e0 (fst x)" by simp
qed

lemma kept_can_xfer [kept]: "elm_kept e0 e \<Longrightarrow> keeps fst e0 (elm327_can_protocol_xfer en frame len n e)"
  unfolding elm327_can_protocol_xfer_def by (intro kept | assumption)+

lemma keeps_link_arg: "(\<And>l. keeps h e0 (f l)) \<Longrightarrow> keeps h e0 (case arg of LinkArg l \<Rightarrow> f l | _ \<Rightarrow> None)"
  by (cases arg) (simp_all add: keeps_def)

lemma kept_kline_link [kept]: "elm_kept e0 e \<Longrightarrow> keeps fst e0 (elm327_kline_link en e)"
  unfolding elm327_kline_link_def by (intro kept keeps_link_arg | assumption)+

lemma kept_wakeup [kept]: "elm_kept e0 e \<Longrightarrow> elm_kept e0 (elm327_kline_apply_wakeup en e)"
  unfolding elm327_kline_apply_wakeup_def by (intro kept | assumption)+

lemma kept_kline_init [kept]: "elm_kept e0 e \<Longrightarrow> keeps fst e0 (elm327_kline_init en mode e)"
  unfolding elm327_kline_init_def by (intro kept | assumption)+

lemma kept_reconcile [kept]: "elm_kept e0 e \<Longrightarrow> keeps id e0 (elm327_kline_reconcile en e)"
  unfolding elm327_kline_reconcile_def by (intro kept | assumption)+

lemma kept_ensure_link [kept]: "elm_kept e0 e \<Longrightarrow> keeps fst e0 (elm327_kline_ensure_link en e)"
  unfolding elm327_kline_ensure_link_def by (intro kept | assumption)+

lemma kept_drain_bus [kept]:
  assumes "elm_kept e0 e"
  shows "keeps id e0 (drain_bus en cap e)"
proof (rule keeps_step)
  fix x assume "drain_bus en cap e = Some x"
  then have "elm_kept e x"
  proof (rule drain_bus.raw_induct [where P = "\<lambda>en cap e x. elm_kept e x", rotated], goal_cases)
    case (1 f en cap e x)
    have f: "keeps id e0 (f en' cap' e')" if "elm_kept e0 e'" for e0 en' cap' e'
      using kept_trans [OF that] 1(1) by (simp add: keeps_def)
    show ?case by (rule keeps_idD [OF _ 1(2)]) (intro kept f | rule kept_refl | assumption)+
  qed
  from kept_trans [OF assms this] show "elm_kept e0 (id x)" by simp
qed

lemma kept_bus_step [kept]: "elm_kept e0 e \<Longrightarrow> keeps fst e0 (bus_step en cap n since s e)"
  by (cases s) (simp only: bus_step_def prod.case, (intro kept | assumption)+)

lemma kept_bus_loop [kept]:
  assumes "elm_kept e0 e"
  shows "keeps fst e0 (bus_loop en cap num_frame since s e)"
proof (rule keeps_step)
  fix x assume "bus_loop en cap num_frame since s e = Some x"
  then have "elm_kept e (fst x)"
  proof (rule bus_loop.raw_induct [where P = "\<lambda>en cap num_frame since s e x. elm_kept e (fst x)", rotated], goal_cases)
    case (1 f en cap num_frame since s e x)
    have f: "keeps fst e0 (f en' cap' num_frame' since' s' e')" if "elm_kept e0 e'" for e0 en' cap' num_frame' since' s' e'
      using kept_trans [OF that] 1(1) by (simp add: keeps_def)
    show ?case by (rule keeps_fstD [OF _ 1(2)]) (intro kept f | rule kept_refl | assumption)+
  qed
  from kept_trans [OF assms this] show "elm_kept e0 (fst x)" by simp
qed

lemma kept_bus_xfer [kept]: "elm_kept e0 e \<Longrightarrow> keeps fst e0 (elm327_bus_xfer en frame len n cap d settle e)"
  unfolding elm327_bus_xfer_def by (intro kept | assumption)+

lemma kept_pwm_xfer [kept]: "elm_kept e0 e \<Longrightarrow> keeps fst e0 (elm327_j1850_pwm_xfer en frame len n e)"
  unfolding elm327_j1850_pwm_xfer_def by (intro kept | assumption)+

lemma kept_vpw_xfer [kept]: "elm_kept e0 e \<Longrightarrow> keeps fst e0 (elm327_j1850_vpw_xfer en frame len n e)"
  unfolding elm327_j1850_vpw_xfer_def by (intro kept | assumption)+

lemma kept_kline_xfer [kept]: "elm_kept e0 e \<Longrightarrow> keeps fst e0 (elm327_kline_xfer en frame len n e)"
  unfolding elm327_kline_xfer_def by (intro kept | assumption)+

lemma kept_try_protocol [kept]: "elm_kept e0 e \<Longrightarrow> keeps fst e0 (elm327_try_protocol en p frame len n e)"
  unfolding elm327_try_protocol_def by (intro kept | assumption)+

lemma kept_search_attempt [kept]: "elm_kept e0 e \<Longrightarrow> keeps fst e0 (elm327_search_attempt en frame len n p prev e)"
  unfolding elm327_search_attempt_def by (intro kept | assumption)+

lemma kept_first_success [kept]:
  assumes "elm_kept e0 e" "\<And>p prev e. elm_kept e0 e \<Longrightarrow> keeps fst e0 (attempt p prev e)"
  shows "keeps fst e0 (first_success attempt ps prev ret e)"
  using assms(1)
proof (induction ps arbitrary: prev ret e)
  case Nil
  then show ?case by (simp add: keeps_def)
next
  case (Cons p ps)
  show ?case unfolding first_success.simps using Cons.prems by (intro kept assms(2) Cons.IH | assumption)+
qed

lemma kept_search_end [kept]: "elm_kept e0 (fst x) \<Longrightarrow> elm_kept e0 (fst (search_end en x))"
  unfolding search_end_def by (cases x) (simp only: prod.case fst_conv, (intro kept | assumption)+)

lemma kept_search [kept]:
  assumes "elm_kept e0 e"
  shows "keeps fst e0 (elm327_search_protocol_xfer en frame len n skip e)"
proof -
  have "keeps fst e0 (first_success (elm327_search_attempt en frame len n)
      (candidates (em_search_first e) skip (st_std_search_order (sett e))) skip (-1) (e\<lparr>em_in_search := True\<rparr>))"
    by (intro kept assms)
  then show ?thesis unfolding search_code by (rule keeps_map_option) (rule kept_search_end)
qed

text \<open>Commands.\<close>

lemma kept_at_frontend [kept]: "elm_kept e0 e \<Longrightarrow> keeps id e0 (at_frontend en name e)"
  unfolding at_frontend_def by (intro kept | assumption)+

lemma kept_drain_link [kept]:
  assumes "elm_kept e0 e"
  shows "keeps id e0 (drain_link en timer e)"
proof (rule keeps_step)
  fix x assume "drain_link en timer e = Some x"
  then have "elm_kept e x"
  proof (rule drain_link.raw_induct [where P = "\<lambda>en timer e x. elm_kept e x", rotated], goal_cases)
    case (1 f en timer e x)
    have f: "keeps id e0 (f en' timer' e')" if "elm_kept e0 e'" for e0 en' timer' e'
      using kept_trans [OF that] 1(1) by (simp add: keeps_def)
    show ?case by (rule keeps_idD [OF _ 1(2)]) (intro kept f | rule kept_refl | assumption)+
  qed
  from kept_trans [OF assms this] show "elm_kept e0 (id x)" by simp
qed

lemma kept_at_reset_all [kept]: "elm_kept e0 e \<Longrightarrow> keeps id e0 (at_reset_all en e)"
  unfolding at_reset_all_def by (intro kept | assumption)+

lemma kept_at_reset_to [kept]: "elm_kept e0 e \<Longrightarrow> keeps id e0 (at_reset_to en reply e)"
  unfolding at_reset_to_def by (intro kept | assumption)+

lemma kept_at_byte [kept]:
  "elm_kept e0 e \<Longrightarrow> (\<And>v. elm_kept e0 (f v e)) \<Longrightarrow> keeps id e0 (at_byte arg f e)"
  unfolding at_byte_def by (intro kept | assumption)+

lemma kept_at_set_timeout [kept]: "elm_kept e0 e \<Longrightarrow> elm_kept e0 (at_set_timeout v e)"
  unfolding at_set_timeout_def by (intro kept | assumption)+

lemma kept_at_set_wakeup [kept]: "elm_kept e0 e \<Longrightarrow> elm_kept e0 (at_set_wakeup en v e)"
  unfolding at_set_wakeup_def by (intro kept | assumption)+

lemma kept_at_voltage [kept]: "elm_kept e0 e \<Longrightarrow> keeps id e0 (at_voltage en e)"
  unfolding at_voltage_def by (intro kept | assumption)+

lemma kept_at_product [kept]: "elm_kept e0 e \<Longrightarrow> keeps id e0 (at_product en e)"
  unfolding at_product_def by (intro kept | assumption)+

lemma kept_at_protocol_close [kept]: "elm_kept e0 e \<Longrightarrow> keeps id e0 (at_protocol_close en e)"
  unfolding at_protocol_close_def by (intro kept | assumption)+

lemma kept_at_key_words [kept]: "elm_kept e0 e \<Longrightarrow> keeps id e0 (at_key_words en e)"
  unfolding at_key_words_def by (intro kept | assumption)+

lemma kept_at_iso_baud [kept]: "elm_kept e0 e \<Longrightarrow> keeps id e0 (at_iso_baud en arg e)"
  unfolding at_iso_baud_def by (intro kept | assumption)+

lemma kept_at_wakeup_message [kept]: "elm_kept e0 e \<Longrightarrow> keeps id e0 (at_wakeup_message en arg e)"
  unfolding at_wakeup_message_def by (intro kept | assumption)+

lemma kept_at_slow_init [kept]: "elm_kept e0 e \<Longrightarrow> keeps id e0 (at_slow_init en e)"
  unfolding at_slow_init_def by (intro kept | assumption)+

lemma kept_at_fast_init [kept]: "elm_kept e0 e \<Longrightarrow> keeps id e0 (at_fast_init en e)"
  unfolding at_fast_init_def by (intro kept | assumption)+

lemma kept_at_bypass_init [kept]: "elm_kept e0 e \<Longrightarrow> keeps id e0 (at_bypass_init en e)"
  unfolding at_bypass_init_def by (intro kept | assumption)+

lemma keeps_map_triple: "keeps fst e0 m \<Longrightarrow> keeps fst e0 (map_option (\<lambda>(e, y, z). (e, f y z)) m)"
  by (rule keeps_map_option) auto

lemma kept_at_is_active [kept]: "elm_kept e0 e \<Longrightarrow> keeps id e0 (at_is_active en e)"
  unfolding at_is_active_def by (intro kept keeps_map_triple | assumption)+

lemma kept_at_select [kept]: "elm_kept e0 e \<Longrightarrow> keeps id e0 (elm327_select_protocol_cmd en arg e)"
  unfolding elm327_select_protocol_cmd_def by (intro kept | assumption)+

lemma kept_at_progv [kept]: "elm_kept e0 e \<Longrightarrow> keeps fst e0 (at_set_programing_voltage arg e)"
  unfolding at_set_programing_voltage_def by (intro kept | assumption)+

lemma kept_at_header [kept]: "elm_kept e0 e \<Longrightarrow> keeps fst e0 (at_set_header arg e)"
  unfolding at_set_header_def by (intro kept | assumption)+

lemma kept_at_ifr [kept]: "elm_kept e0 e \<Longrightarrow> elm_kept e0 (fst (at_set_ifr en arg e))"
  unfolding at_set_ifr_def by (intro kept | assumption)+

lemma kept_at_command [kept]: "elm_kept e0 e \<Longrightarrow> keeps id e0 (elm327_at_command_handler en cmd e)"
  unfolding elm327_at_command_handler_def by (intro kept | assumption)+

lemma kept_exchange [kept]: "elm_kept e0 e \<Longrightarrow> keeps fst e0 (elm327_exchange en frame len n e)"
  unfolding elm327_exchange_def by (intro kept | assumption)+

lemma kept_fall_back [kept]: "elm_kept e0 (fst p) \<Longrightarrow> keeps fst e0 (elm327_fall_back en frame len n p)"
  by (cases p) (simp only: elm327_fall_back_def prod.case fst_conv, (intro kept | assumption)+)

lemma kept_request [kept]: "elm_kept e0 e \<Longrightarrow> keeps id e0 (elm327_request en frame len n e)"
  unfolding elm327_request_def by (intro kept | assumption)+

lemma kept_prompt [kept]: "elm_kept e0 e \<Longrightarrow> keeps id e0 (elm327_prompt e)"
  unfolding elm327_prompt_def by (intro kept | assumption)+

lemma kept_parse_request [kept]: "elm_kept e0 e \<Longrightarrow> keeps id e0 (elm327_parse_request en cmd e)"
  unfolding elm327_parse_request_def by (intro kept | assumption)+

lemma kept_parse_command [kept]: "elm_kept e0 e \<Longrightarrow> keeps id e0 (elm327_parse_command en cmd e)"
  unfolding elm327_parse_command_def by (intro kept | assumption)+

section \<open>Lines\<close>

text \<open>What is left of the bytes of a line, and what is echoed of them.\<close>

definition clean :: "string \<Rightarrow> string" where
  "clean bs = map elm_upper (filter (\<lambda>c. \<not> elm_skipped c) bs)"

definition echoed :: "'d elm \<Rightarrow> string \<Rightarrow> string" where
  "echoed e s = (if st_echo (sett e) then eol e s else [])"

definition line_ready :: "'d elm \<Rightarrow> bool" where
  "line_ready e \<longleftrightarrow> elm_tx_ok e \<and> ln_cmdidx (em_line e) = 0 \<and> \<not> ln_overflow (em_line e) \<and>
     length (ln_cmdbuf (em_line e)) = ELM_LINE_MAX \<and> length (ln_lastcmd (em_line e)) = ELM_LINE_MAX \<and>
     NUL \<in> set (ln_lastcmd (em_line e))"

definition line_holds :: "elm_line \<Rightarrow> string \<Rightarrow> elm_line \<Rightarrow> bool" where
  "line_holds l0 cs l \<longleftrightarrow> length (ln_cmdbuf l) = ELM_LINE_MAX \<and> ln_lastcmd l = ln_lastcmd l0 \<and>
     (if length cs < ELM_LINE_MAX - 1
      then \<not> ln_overflow l \<and> ln_cmdidx l = length cs \<and> take (length cs) (ln_cmdbuf l) = cs
      else ln_overflow l \<and> ln_cmdidx l < ELM_LINE_MAX - 1)"

definition assembled :: "'d elm \<Rightarrow> string \<Rightarrow> 'd elm \<Rightarrow> bool" where
  "assembled e bs e1 \<longleftrightarrow> elm_tx_ok e1 \<and> elm_said e1 = elm_said e @ echoed e bs \<and> line_holds (em_line e) (clean bs) (em_line e1) \<and>
     sett e1 = sett e \<and> em_timing e1 = em_timing e \<and> em_vif e1 = em_vif e \<and> em_search_first e1 = em_search_first e"

lemma echo_byte:
  assumes "elm_tx_ok e"
  shows "\<exists>e'. (if st_echo (sett e) then elm327_uart_send_text [c] e else Some e) = Some e' \<and> elm_says e (echoed e [c]) e'"
  using send_text_says [OF assms, of "[c]"] elm_says_refl [OF assms]
  by (auto simp: echoed_def ELM327_TX_BUF_def)

lemma echoed_append: "echoed e (s @ t) = echoed e s @ echoed e t"
  by (simp add: echoed_def)

lemma echoed_same: "sett e' = sett e \<Longrightarrow> echoed e' s = echoed e s"
  by (simp add: echoed_def eol_def)

lemma upper_cr: "elm_upper c = CR \<longleftrightarrow> c = CR"
  by (cases "97 \<le> (of_char c :: nat) \<and> (of_char c :: nat) \<le> 122")
     (auto simp: elm_upper_def dest: arg_cong [where f = "of_char :: char \<Rightarrow> nat"])

lemma feed_char_assembles:
  assumes "assembled e bs e1" "c \<noteq> CR"
  shows "\<exists>e2. elm327_feed_byte en e1 c = Some e2 \<and> assembled e (bs @ [c]) e2"
proof -
  have ok: "elm_tx_ok e1" and said: "elm_said e1 = elm_said e @ echoed e bs"
    and holds: "line_holds (em_line e) (clean bs) (em_line e1)" and same: "sett e1 = sett e"
    using assms(1) by (simp_all add: assembled_def)
  obtain e2 where e2: "(if st_echo (sett e1) then elm327_uart_send_text [c] e1 else Some e1) = Some e2"
    "elm_says e1 (echoed e1 [c]) e2" using echo_byte [OF ok] by blast
  have base: "elm_tx_ok e2" "elm_said e2 = elm_said e @ echoed e (bs @ [c])" "em_line e2 = em_line e1" "sett e2 = sett e"
    "em_timing e2 = em_timing e" "em_vif e2 = em_vif e" "em_search_first e2 = em_search_first e"
    using elm_says_same [OF e2(2)] e2(2) said assms(1) echoed_same [OF same, of "[c]"]
    by (auto simp: elm_says_def assembled_def echoed_append)
  show ?thesis
  proof (cases "elm_skipped c")
    case True
    then have "clean (bs @ [c]) = clean bs" by (simp add: clean_def)
    then show ?thesis using e2(1) True base holds by (simp add: elm327_feed_byte_def assembled_def)
  next
    case False
    let ?cs = "clean bs" and ?l = "em_line e1"
    have cs: "clean (bs @ [c]) = ?cs @ [elm_upper c]" using False by (simp add: clean_def)
    have i: "ln_cmdidx ?l < ELM_LINE_MAX - 1" and len: "length (ln_cmdbuf ?l) = ELM_LINE_MAX"
      using holds by (auto simp: line_holds_def split: if_splits)
    define buf where "buf = (ln_cmdbuf ?l)[ln_cmdidx ?l := elm_upper c]"
    define l where "l = (if ln_cmdidx ?l + 1 = ELM_LINE_MAX - 1
      then ?l\<lparr>ln_cmdbuf := buf, ln_cmdidx := 0, ln_overflow := True\<rparr> else ?l\<lparr>ln_cmdbuf := buf, ln_cmdidx := ln_cmdidx ?l + 1\<rparr>)"
    have r: "elm327_feed_byte en e1 c = Some (e2\<lparr>em_line := l\<rparr>)"
      using e2(1) False assms(2) i len base(3)
      by (simp add: elm327_feed_byte_def upper_cr set_at_def buf_def l_def upd_line_def)
    have "line_holds (em_line e) (clean (bs @ [c])) l"
      using holds i len unfolding cs line_holds_def l_def buf_def
      by (auto simp: ELM_LINE_MAX_def take_Suc_conv_app_nth nth_append split: if_splits)
    then show ?thesis using base unfolding r by (simp add: assembled_def elm_tx_ok_def elm_said_def)
  qed
qed

lemma feed_assembles:
  assumes "line_ready e" "CR \<notin> set bs"
  shows "\<exists>e1. fold_opt (elm327_feed_byte en) e bs = Some e1 \<and> assembled e bs e1"
  using assms(2)
proof (induction bs rule: rev_induct)
  case Nil
  then show ?case using assms(1) by (simp add: assembled_def line_ready_def line_holds_def clean_def echoed_def eol_def ELM_LINE_MAX_def)
next
  case (snoc c bs)
  then obtain e1 where "fold_opt (elm327_feed_byte en) e bs = Some e1" "assembled e bs e1" by auto
  moreover have "c \<noteq> CR" using snoc.prems by auto
  ultimately show ?case using feed_char_assembles [of e bs e1 c en] by (simp add: fold_opt_append)
qed

text \<open>A line ends with the prompt, flushed.\<close>

lemma prompt_says:
  assumes "elm_tx_ok e"
  shows "\<exists>e'. elm327_prompt e = Some e' \<and> elm_says e (eol e' [CR, CHR ''>'']) e' \<and> em_tx_len e' = 0"
proof -
  obtain e1 where e1: "elm327_send_string [CR, CHR ''>''] e = Some e1" "elm_says e (eol e [CR, CHR ''>'']) e1"
    using send_string_says [OF assms, of "[CR, CHR ''>'']"] by (auto simp: ELM327_TX_BUF_def)
  obtain e2 where e2: "elm327_uart_flush e1 = Some e2" "elm_says e1 [] e2" "em_tx_len e2 = 0"
    using elm_flush_says [OF elm_says_ok [OF e1(2)]] by blast
  have "elm_says e (eol e [CR, CHR ''>'']) e2" using elm_says_trans [OF e1(2) e2(2)] by simp
  then show ?thesis using e1(1) e2(1,3) eol_same [of e "eol e [CR, CHR ''>'']" e2] by (simp add: elm327_prompt_def)
qed

lemma elm_command_answers:
  assumes "elm327_parse_command en cmd e = Some e'" "elm_tx_ok e"
  shows "elm_tx_ok e' \<and> (\<exists>answer. elm_said e' = elm_said e @ answer @ eol e' [CR, CHR ''>'']) \<and> em_tx_len e' = 0 \<and>
    (\<exists>b. em_line e' = (em_line e)\<lparr>ln_reset_discard := b\<rparr>)"
proof -
  let ?clear = "upd_watch (\<lambda>w. w\<lparr>rw_active := False\<rparr>)"
  let ?run = "\<lambda>e. if take 2 cmd = ''AT'' then elm327_at_command_handler en (drop 2 cmd) e else elm327_parse_request en cmd e"
  obtain e0 where e0: "elm327_observe_late_replies en e = Some e0" "Option.bind (?run (?clear e0)) elm327_prompt = Some e'"
    using assms(1) unfolding elm327_parse_command_def Let_def by (rule bind_eq_SomeE)
  obtain e1 where e1: "?run (?clear e0) = Some e1" "elm327_prompt e1 = Some e'" using e0(2) by (rule bind_eq_SomeE)
  have "elm_kept e e0" by (rule keeps_idD [OF _ e0(1)]) (intro kept_observe kept_refl)
  then have "keeps id e (?run (?clear e0))" by (intro kept | assumption)+
  then have k: "elm_kept e e1" using e1(1) by (rule keeps_idD)
  then obtain a where a: "elm_tx_ok e1" "elm_said e1 = elm_said e @ a" using assms(2) by (auto simp: elm_kept_def)
  then have "elm_says e1 (eol e' [CR, CHR ''>'']) e' \<and> em_tx_len e' = 0" using prompt_says [of e1] e1(2) by auto
  then show ?thesis using a k elm_says_same [of e1 "eol e' [CR, CHR ''>'']" e'] by (auto simp: elm_says_def elm_kept_def)
qed

lemma c_string_clean: "c_string (clean bs @ NUL # rest) = Some (clean bs)"
proof -
  have "NUL \<notin> set (clean bs)" unfolding clean_def
    by (auto simp: elm_upper_def elm_skipped_def dest: arg_cong [where f = "of_char :: char \<Rightarrow> nat"])
  then show ?thesis by (auto simp: c_string_def takeWhile_tail takeWhile_eq_all_conv)
qed

lemma cr_dispatches:
  assumes "assembled e bs e1"
  shows "\<exists>e2 rest. elm327_feed_byte en e1 CR = elm327_line en e2 \<and> elm_tx_ok e2 \<and>
    elm_said e2 = elm_said e @ echoed e (bs @ [CR]) \<and>
    length (ln_cmdbuf (em_line e2)) = ELM_LINE_MAX \<and> ln_lastcmd (em_line e2) = ln_lastcmd (em_line e) \<and>
    (if length (clean bs) < ELM_LINE_MAX - 1
     then \<not> ln_overflow (em_line e2) \<and> ln_cmdidx (em_line e2) = length (clean bs) \<and>
       ln_cmdbuf (em_line e2) = clean bs @ NUL # rest
     else ln_overflow (em_line e2)) \<and>
    sett e2 = sett e \<and> em_timing e2 = em_timing e \<and> em_vif e2 = em_vif e"
proof -
  have ok: "elm_tx_ok e1" and said: "elm_said e1 = elm_said e @ echoed e bs" and same: "sett e1 = sett e"
    and holds: "line_holds (em_line e) (clean bs) (em_line e1)"
    using assms by (simp_all add: assembled_def)
  obtain e2 where e2: "(if st_echo (sett e1) then elm327_uart_send_text [CR] e1 else Some e1) = Some e2"
    "elm_says e1 (echoed e1 [CR]) e2" using echo_byte [OF ok] by blast
  have base: "elm_tx_ok e2" "elm_said e2 = elm_said e @ echoed e (bs @ [CR])" "em_line e2 = em_line e1" "sett e2 = sett e"
    "em_timing e2 = em_timing e" "em_vif e2 = em_vif e"
    using elm_says_same [OF e2(2)] e2(2) said assms(1) echoed_same [OF same, of "[CR]"]
    by (auto simp: elm_says_def assembled_def echoed_append)
  let ?l = "em_line e1"
  have i: "ln_cmdidx ?l < ELM_LINE_MAX - 1" and len: "length (ln_cmdbuf ?l) = ELM_LINE_MAX"
    using holds by (auto simp: line_holds_def split: if_splits)
  let ?buf = "(ln_cmdbuf ?l)[ln_cmdidx ?l := NUL]"
  let ?e = "upd_line (\<lambda>l. l\<lparr>ln_cmdbuf := ?buf\<rparr>) e2"
  have up: "elm_upper CR = CR" "\<not> elm_skipped CR" by (simp_all add: upper_cr elm_skipped_def)
  have r: "elm327_feed_byte en e1 CR = elm327_line en ?e"
    using e2(1) i len base(3) up by (simp add: elm327_feed_byte_def)
  have buf: "?buf = take (ln_cmdidx ?l) (ln_cmdbuf ?l) @ NUL # drop (Suc (ln_cmdidx ?l)) (ln_cmdbuf ?l)"
    using i len by (simp add: upd_conv_take_nth_drop)
  have "elm_tx_ok ?e \<and> elm_said ?e = elm_said e @ echoed e (bs @ [CR]) \<and>
    length (ln_cmdbuf (em_line ?e)) = ELM_LINE_MAX \<and> ln_lastcmd (em_line ?e) = ln_lastcmd (em_line e) \<and>
    (if length (clean bs) < ELM_LINE_MAX - 1
     then \<not> ln_overflow (em_line ?e) \<and> ln_cmdidx (em_line ?e) = length (clean bs) \<and>
       ln_cmdbuf (em_line ?e) = clean bs @ NUL # drop (Suc (ln_cmdidx ?l)) (ln_cmdbuf ?l)
     else ln_overflow (em_line ?e)) \<and>
    sett ?e = sett e \<and> em_timing ?e = em_timing e \<and> em_vif ?e = em_vif e"
    using base holds len buf unfolding line_holds_def
    by (auto simp: upd_line_def elm_tx_ok_def elm_said_def split: if_splits)
  with r show ?thesis by blast
qed

lemma overflow_answers:
  assumes "elm_tx_ok e"
  shows "\<exists>e1 e'. elm327_send_string [CHR ''?'', CR, CR, CHR ''>''] e = Some e1 \<and> elm327_uart_flush e1 = Some e' \<and>
    elm_says e (eol e' [CHR ''?'', CR] @ eol e' [CR, CHR ''>'']) e' \<and> em_tx_len e' = 0"
proof -
  let ?s = "[CHR ''?'', CR, CR, CHR ''>'']"
  obtain e1 where e1: "elm327_send_string ?s e = Some e1" "elm_says e (eol e ?s) e1"
    using send_string_says [OF assms, of ?s] by (auto simp: ELM327_TX_BUF_def)
  obtain e2 where e2: "elm327_uart_flush e1 = Some e2" "elm_says e1 [] e2" "em_tx_len e2 = 0"
    using elm_flush_says [OF elm_says_ok [OF e1(2)]] by blast
  have says: "elm_says e (eol e ?s) e2" using elm_says_trans [OF e1(2) e2(2)] by simp
  then have "eol e ?s = eol e2 [CHR ''?'', CR] @ eol e2 [CR, CHR ''>'']"
    using eol_same [OF says, of "[CHR ''?'', CR]"] eol_same [OF says, of "[CR, CHR ''>'']"]
    by (simp add: eol_def)
  then show ?thesis using e1(1) e2 says by simp
qed

text \<open>The assembler starts over.\<close>

definition line_next :: "'d elm \<Rightarrow> 'd elm" where
  "line_next = upd_line (\<lambda>l. l\<lparr>ln_cmdidx := 0, ln_overflow := False\<rparr>)"

lemma upd_line_fields:
  "elm_tx_ok (upd_line f x) = elm_tx_ok x" "elm_said (upd_line f x) = elm_said x" "eol (upd_line f x) s = eol x s"
  "sett (upd_line f x) = sett x" "em_timing (upd_line f x) = em_timing x" "em_vif (upd_line f x) = em_vif x"
  "em_tx_len (upd_line f x) = em_tx_len x" "em_line (upd_line f x) = f (em_line x)"
  by (simp_all add: upd_line_def elm_tx_ok_def elm_said_def eol_def)

lemma line_again:
  assumes "elm327_line en e = Some e'" "\<not> ln_overflow (em_line e)" "ln_cmdidx (em_line e) = 0"
  shows "\<exists>cmd e3. c_string (ln_lastcmd (em_line e)) = Some cmd \<and> elm327_parse_command en cmd e = Some e3 \<and> e' = line_next e3"
  using assms by (auto simp: elm327_line_def line_next_def bind_eq_Some_conv)

lemma line_fresh:
  assumes "\<not> ln_overflow (em_line e)" "ln_cmdidx (em_line e) = length (clean bs)" "clean bs \<noteq> []"
    "ln_cmdbuf (em_line e) = clean bs @ NUL # rest" "elm_tx_ok e" "length (clean bs) < length (ln_lastcmd (em_line e))"
  shows "elm327_line en e = map_option
    (\<lambda>e3. line_next (upd_line (\<lambda>l. l\<lparr>ln_lastcmd := clean bs @ NUL # drop (Suc (length (clean bs))) (ln_lastcmd (em_line e))\<rparr>) e3))
    (elm327_parse_command en (clean bs) e)"
proof (cases "elm327_parse_command en (clean bs) e")
  case None
  then show ?thesis using assms c_string_clean by (simp add: elm327_line_def)
next
  case (Some e3)
  obtain b where l: "em_line e3 = (em_line e)\<lparr>ln_reset_discard := b\<rparr>" using elm_command_answers [OF Some assms(5)] by blast
  have "load_at (ln_cmdbuf (em_line e3)) 0 (ln_cmdidx (em_line e3) + 1) = Some (clean bs @ [NUL])"
    using l assms(2,4) by (simp add: load_at_def)
  moreover have "store_at (ln_lastcmd (em_line e3)) 0 (clean bs @ [NUL]) =
      Some (clean bs @ NUL # drop (Suc (length (clean bs))) (ln_lastcmd (em_line e)))"
    using l assms(6) by (simp add: store_at_def)
  ultimately show ?thesis using assms(1-4) c_string_clean Some by (simp add: elm327_line_def line_next_def)
qed

text \<open>A line of the client, whatever its bytes and wherever they fall into the 32 byte buffer, is
  assembled, echoed byte for byte when echo is on, and answered. What is executed is the line without
  its blanks and in upper case, or, when nothing is left of it, the last command again; a line of
  more than 30 characters is refused as a whole. Everything said is kept, in order, and ends with
  exactly the prompt, all of it handed to the link; the command just executed is then the last
  command, and the assembler is ready for the next line.\<close>

theorem elm_line_answered:
  assumes "line_ready e" "CR \<notin> set bs" "fold_opt (elm327_feed_byte en) e (bs @ [CR]) = Some e'"
  shows "line_ready e' \<and> em_tx_len e' = 0 \<and>
    (\<exists>answer. elm_said e' = elm_said e @ echoed e (bs @ [CR]) @ answer @ eol e' [CR, CHR ''>''] \<and>
      (if length (clean bs) > 30
       then answer = eol e' [CHR ''?'', CR] \<and> ln_lastcmd (em_line e') = ln_lastcmd (em_line e) \<and> em_vif e' = em_vif e
       else \<exists>cmd e1 e2. c_string (ln_lastcmd (em_line e')) = Some cmd \<and>
         (if clean bs = [] then c_string (ln_lastcmd (em_line e)) = Some cmd else cmd = clean bs) \<and>
         elm_said e1 = elm_said e @ echoed e (bs @ [CR]) \<and> sett e1 = sett e \<and> em_timing e1 = em_timing e \<and>
         em_vif e1 = em_vif e \<and> elm327_parse_command en cmd e1 = Some e2 \<and>
         sett e' = sett e2 \<and> em_timing e' = em_timing e2 \<and> em_vif e' = em_vif e2 \<and> elm_said e' = elm_said e2))"
proof -
  let ?cs = "clean bs" and ?said = "elm_said e @ echoed e (bs @ [CR])"
  obtain e1 where e1: "fold_opt (elm327_feed_byte en) e bs = Some e1" "assembled e bs e1"
    using feed_assembles [OF assms(1,2)] by blast
  obtain e2 rest where e2: "elm327_feed_byte en e1 CR = elm327_line en e2" "elm_tx_ok e2" "elm_said e2 = ?said"
    "length (ln_cmdbuf (em_line e2)) = ELM_LINE_MAX" "ln_lastcmd (em_line e2) = ln_lastcmd (em_line e)"
    "if length ?cs < ELM_LINE_MAX - 1
     then \<not> ln_overflow (em_line e2) \<and> ln_cmdidx (em_line e2) = length ?cs \<and> ln_cmdbuf (em_line e2) = ?cs @ NUL # rest
     else ln_overflow (em_line e2)"
    "sett e2 = sett e" "em_timing e2 = em_timing e" "em_vif e2 = em_vif e"
    using cr_dispatches [OF e1(2)] by blast
  have run: "elm327_line en e2 = Some e'" using assms(3) e1(1) e2(1) by (simp add: fold_opt_append)
  have last: "length (ln_lastcmd (em_line e)) = ELM_LINE_MAX" "NUL \<in> set (ln_lastcmd (em_line e))"
    using assms(1) by (simp_all add: line_ready_def)
  note up = upd_line_fields line_next_def
  show ?thesis
  proof (cases "length ?cs > 30")
    case True
    then obtain e3 where e3: "elm_says e2 (eol e3 [CHR ''?'', CR] @ eol e3 [CR, CHR ''>'']) e3" "em_tx_len e3 = 0" "e' = line_next e3"
      using overflow_answers [OF e2(2)] run e2(6) by (auto simp: elm327_line_def line_next_def ELM_LINE_MAX_def)
    have l: "em_line e3 = em_line e2" "sett e3 = sett e2" "em_timing e3 = em_timing e2" "em_vif e3 = em_vif e2"
      "elm_tx_ok e3" "elm_said e3 = elm_said e2 @ eol e3 [CHR ''?'', CR] @ eol e3 [CR, CHR ''>'']"
      using elm_says_same [OF e3(1)] e3(1) by (auto simp only: elm_says_def)
    show ?thesis
      using True e2(3-5,7-9) last l e3(2) unfolding e3(3) line_ready_def by (simp add: up)
  next
    case False
    then have fits: "length ?cs < ELM_LINE_MAX - 1" by (simp add: ELM_LINE_MAX_def)
    obtain cmd e3 where e3: "elm327_parse_command en cmd e2 = Some e3"
        "if ?cs = [] then c_string (ln_lastcmd (em_line e)) = Some cmd else cmd = ?cs"
        "e' = line_next (if ?cs = [] then e3 else
           upd_line (\<lambda>l. l\<lparr>ln_lastcmd := ?cs @ NUL # drop (Suc (length ?cs)) (ln_lastcmd (em_line e))\<rparr>) e3)"
      using line_again [OF run] line_fresh [of e2 bs rest en] run e2(2,5,6) fits last(1)
      by (cases "?cs = []"; cases "elm327_parse_command en ?cs e2") (auto simp: ELM_LINE_MAX_def)
    note ans = elm_command_answers [OF e3(1) e2(2)]
    have ready: "line_ready e'" using ans e2(4,5) last fits unfolding e3(3) line_ready_def by (auto simp: up)
    have c: "c_string (ln_lastcmd (em_line e')) = Some cmd"
      using ans e2(5) e3(2) unfolding e3(3) by (auto simp: up c_string_clean split: if_splits)
    obtain answer where said: "elm_said e' = ?said @ answer @ eol e' [CR, CHR ''>'']" "em_tx_len e' = 0"
      using ans e2(3) unfolding e3(3) by (auto simp: up)
    have same: "sett e' = sett e3" "em_timing e' = em_timing e3" "em_vif e' = em_vif e3" "elm_said e' = elm_said e3"
      unfolding e3(3) by (simp_all add: up)
    show ?thesis unfolding if_not_P [OF False]
      by (intro conjI exI [of _ answer] exI [of _ cmd] exI [of _ e2] exI [of _ e3])
         (use ready said c e3(1,2) e2(3,7-9) same in simp_all)
  qed
qed

text \<open>The echo is switched off.\<close>

lemma echo_off_runs:
  assumes "elm_tx_ok e" "\<not> rw_active (tm_watch (em_timing e))"
  shows "\<exists>e'. elm327_parse_command en ''ATE0'' e = Some e' \<and> \<not> st_echo (sett e')"
proof -
  let ?e = "upd_set (\<lambda>s. s\<lparr>st_echo := False\<rparr>) (upd_watch (\<lambda>w. w\<lparr>rw_active := False\<rparr>) e)"
  have "elm_tx_ok ?e" using assms(1) by (simp add: elm_tx_ok_def upd_set_def upd_watch_def upd_timing_def)
  then obtain e1 where e1: "OK ?e = Some e1" "elm_says ?e (eol ?e (''OK'' @ [CR])) e1"
    using send_string_says [of ?e "''OK'' @ [CR]"] by (auto simp: ELM327_TX_BUF_def)
  obtain e2 where e2: "elm327_prompt e1 = Some e2" "elm_says e1 (eol e2 [CR, CHR ''>'']) e2"
    using prompt_says [OF elm_says_ok [OF e1(2)]] by blast
  have "elm327_parse_command en ''ATE0'' e = Some e2"
    using assms(2) e1(1) e2(1) by (simp add: elm327_parse_command_def elm327_observe_late_replies_def elm327_at_command_handler_def)
  moreover have "\<not> st_echo (sett e2)" using elm_says_same [OF e1(2)] elm_says_same [OF e2(2)] by (simp add: upd_set_def)
  ultimately show ?thesis by blast
qed

lemma elm_line_answered_witness:
  "\<exists>e' answer. fold_opt (elm327_feed_byte still_env) elm_blank (''at e0'' @ [CR]) = Some e' \<and> line_ready e' \<and>
     c_string (ln_lastcmd (em_line e')) = Some ''ATE0'' \<and> elm_said e' = (''at e0'' @ [CR]) @ answer @ eol e' [CR, CHR ''>'']"
proof -
  have blank: "sett elm_blank = settings_default settings_zero" "em_line elm_blank = line_zero"
      "em_tx_buf elm_blank = replicate ELM327_TX_BUF NUL" "em_tx_len elm_blank = 0" "em_timing elm_blank = timing_zero"
      "em_link elm_blank = []"
    by (simp_all add: elm_blank_def elm327_fe_start_def elm327_load_defaults_def upd_set_def)
  then have ready: "line_ready elm_blank"
    by (simp add: line_ready_def line_zero_def elm_tx_ok_def ELM_LINE_MAX_def)
  define bs where "bs = ''at e0''"
  have cs: "clean bs = ''ATE0''" unfolding bs_def by code_simp
  have no_cr: "CR \<notin> set bs" by (simp add: bs_def)
  obtain e1 where e1: "fold_opt (elm327_feed_byte still_env) elm_blank bs = Some e1" "assembled elm_blank bs e1"
    using feed_assembles [OF ready no_cr] by blast
  obtain e2 rest where e2: "elm327_feed_byte still_env e1 CR = elm327_line still_env e2" "elm_tx_ok e2"
    "ln_lastcmd (em_line e2) = ln_lastcmd (em_line elm_blank)" "\<not> ln_overflow (em_line e2)" "ln_cmdidx (em_line e2) = length ''ATE0''"
    "ln_cmdbuf (em_line e2) = ''ATE0'' @ NUL # rest" "em_timing e2 = em_timing elm_blank"
    using cr_dispatches [OF e1(2), of still_env] by (auto simp: cs ELM_LINE_MAX_def)
  obtain e3 where e3: "elm327_parse_command still_env ''ATE0'' e2 = Some e3" "\<not> st_echo (sett e3)"
    using echo_off_runs [OF e2(2)] e2(7) blank(5) by (auto simp: timing_zero_def watch_zero_def)
  have "\<exists>e'. elm327_line still_env e2 = Some e'"
    using line_fresh [of e2 bs rest still_env] e2 e3(1) blank(2) cs by (simp add: line_zero_def ELM_LINE_MAX_def)
  then obtain e' where e': "fold_opt (elm327_feed_byte still_env) elm_blank (bs @ [CR]) = Some e'"
    using e1(1) e2(1) by (auto simp: fold_opt_append)
  have short: "\<not> length (clean bs) > 30" unfolding cs by simp
  have "echoed elm_blank (bs @ [CR]) = bs @ [CR]" "elm_said elm_blank = []"
    by (simp_all add: echoed_def eol_def blank settings_default_def elm_said_def written_def)
  then show ?thesis using elm_line_answered [OF ready no_cr e'] e' unfolding if_not_P [OF short] unfolding bs_def [symmetric] by (auto simp: cs)
qed

section \<open>Reset\<close>

lemma set_auto_vif: "em_vif (fst (elm327_set_protocol en ELM327_PROTO_AUTO e)) = em_vif e"
  by (auto simp: elm327_set_protocol_def elm327_bus_for_protocol_def proto_defs upd_set_def Let_def)

lemma set_auto_settings: "settings_default (sett (fst (elm327_set_protocol en ELM327_PROTO_AUTO e))) = settings_default (sett e)"
  by (auto simp: elm327_set_protocol_def elm327_bus_for_protocol_def proto_defs upd_set_def Let_def settings_default_def)

lemma defaults_fixed: "settings_default s = (settings_default settings_zero)\<lparr>st_wakeup_msg := st_wakeup_msg s\<rparr>"
  by (simp add: settings_default_def settings_zero_def)

text \<open>AT Z, AT D and AT WS restore the state of a start whatever came before: every setting has its
  default (of the wakeup message only the bytes stay, their number is 0), nothing learned of the
  vehicle's timing and no protocol to confirm is left, and the link holds no bus and no programming
  pin. When a bus refuses to close, the settings and what was learned stay as they were.\<close>

theorem elm_reset_complete:
  assumes "elm327_reset en e = (e', err)" "on_owner_thread (en_me en) VIF_OWNER_LINK (fst (em_vif e))"
  shows "if err = ESP_OK
    then sett e' = (settings_default settings_zero)\<lparr>st_wakeup_msg := st_wakeup_msg (sett e)\<rparr> \<and>
      em_timing e' = timing_zero \<and> em_search_first e' = 0 \<and> (\<forall>r. \<not> holds VIF_OWNER_LINK r (fst (em_vif e'))) \<and>
      (v_hs_pin (fst (em_vif e')) = -1 \<or> v_hs_owner (fst (em_vif e')) \<noteq> VIF_OWNER_LINK) \<and>
      (v_ls_pin (fst (em_vif e')) = -1 \<or> v_ls_owner (fst (em_vif e')) \<noteq> VIF_OWNER_LINK)
    else sett e' = sett e \<and> em_timing e' = em_timing e \<and> em_search_first e' = em_search_first e"
proof -
  obtain g d where v: "em_vif e = (g, d)" by (cases "em_vif e")
  obtain g1 d1 err1 where r: "vif_bus_release_all (en_vif en) (en_me en) VIF_OWNER_LINK (g, d) = ((g1, d1), err1)"
    by (metis prod.exhaust)
  let ?g = "vif_pin_release_all VIF_OWNER_LINK g1"
  let ?e = "e\<lparr>em_vif := (?g, d1)\<rparr>"
  have out: "(e', err) = (if err1 \<noteq> ESP_OK then (?e, err1)
      else (elm327_load_defaults (fst (elm327_set_protocol en ELM327_PROTO_AUTO ?e)), ESP_OK))"
    using assms(1) v r by (simp add: elm327_reset_def link_release_buses_def on_vif_def)
  show ?thesis
  proof (cases "err1 = ESP_OK")
    case False
    then show ?thesis using out by simp
  next
    case True
    have "\<not> holds VIF_OWNER_LINK x g1" for x
      by (rule release_all_effect [OF r [unfolded True]]) (use assms(2) v in simp)
    then have "\<not> holds VIF_OWNER_LINK x ?g" for x by (simp add: holds_def)
    then show ?thesis
      using out True pin_release_pins [of VIF_OWNER_LINK g1] set_auto_settings [of en ?e] defaults_fixed [of "sett e"]
      by (simp add: elm327_load_defaults_def upd_set_def set_auto_vif)
  qed
qed

lemma elm_reset_complete_witness:
  "\<exists>e'. elm327_reset still_env (elm_blank\<lparr>em_vif := (vif_start\<lparr>v_task := (\<lambda>_. Some 1), v_ls_pin := 15\<rparr>, 0),
       em_search_first := 6\<rparr>) = (e', ESP_OK) \<and>
     st_timeout (sett e') = 200 \<and> em_search_first e' = 0 \<and> v_ls_pin (fst (em_vif e')) = -1"
proof -
  let ?g = "vif_start\<lparr>v_task := (\<lambda>_. Some 1), v_ls_pin := 15\<rparr>"
  let ?e = "elm_blank\<lparr>em_vif := (?g, 0), em_search_first := 6\<rparr>"
  have thread: "on_owner_thread (en_me still_env) VIF_OWNER_LINK (fst (em_vif ?e))"
    by (simp add: on_owner_thread_def still_env_def)
  have "vif_bus_release_all (en_vif still_env) (en_me still_env) VIF_OWNER_LINK (?g, 0) = ((?g, 0), ESP_OK)"
    by (simp add: vif_bus_release_all_def on_owner_thread_def still_env_def all_res_def release_begin_def vif_start_def claim_zero_def)
  then have run: "\<exists>e'. elm327_reset still_env ?e = (e', ESP_OK) \<and> v_ls_owner (fst (em_vif e')) = VIF_OWNER_LINK"
    by (simp add: elm327_reset_def link_release_buses_def on_vif_def elm327_load_defaults_def upd_set_def set_auto_vif
        vif_pin_release_all_def led_refresh_locked_def hs_release_locked_def ls_release_locked_def Let_def vif_start_def)
  then obtain e' where e': "elm327_reset still_env ?e = (e', ESP_OK)" "v_ls_owner (fst (em_vif e')) = VIF_OWNER_LINK" by blast
  show ?thesis using elm_reset_complete [OF e'(1) thread] e'
    by (auto simp: settings_default_def DEFAULT_TIMEOUT_MS_def)
qed

end
