(* ===== verification/J1850Guard.thy ===== *)
theory J1850Guard
  imports Prelude
begin

text \<open>
The shutdown of the J1850 interrupt callbacks, \<open>main/j1850_lifecycle.c\<close>: every atomic access of
  the guard is a step, and any number of callbacks interleave with the task that stops the driver.
\<close>

section \<open>The callback guard\<close>

record guard =
  gd_stopping :: bool
  gd_active :: u32w

text \<open>
  The threads of the system are the callbacks, numbered, each of which may run many times, and
  the task that stops and starts the driver. A step is one atomic access of the guard.
  \<open>CbCounted\<close> stands between the increment and the load of \<open>stopping\<close>, \<open>CbRefused\<close> before the
  decrement that follows a set flag.
\<close>

datatype cb_pc = CbIdle | CbCounted | CbRefused | CbInside

datatype stop_pc = StRunning | StWaiting | StStopped | StTimedOut

record guard_sys =
  gs_guard :: guard
  gs_cb :: "nat \<Rightarrow> cb_pc"
  gs_stop :: stop_pc

text \<open>\<open>j1850_callback_enter\<close>, \<open>j1850_callback_exit\<close>, \<open>j1850_callbacks_start\<close> and the accesses of
  \<open>j1850_callbacks_stop\<close>.\<close>

definition callback_count :: "guard \<Rightarrow> guard" where
  "callback_count g = g\<lparr>gd_active := gd_active g + 1\<rparr>"

definition callback_check :: "guard \<Rightarrow> cb_pc" where
  "callback_check g = (if gd_stopping g then CbRefused else CbInside)"

definition j1850_callback_exit :: "guard \<Rightarrow> guard" where
  "j1850_callback_exit g = g\<lparr>gd_active := gd_active g - 1\<rparr>"

definition j1850_callbacks_start :: "guard \<Rightarrow> guard" where
  "j1850_callbacks_start g = g\<lparr>gd_stopping := False\<rparr>"

definition callbacks_stop_begin :: "guard \<Rightarrow> guard" where
  "callbacks_stop_begin g = g\<lparr>gd_stopping := True\<rparr>"

definition callbacks_stop_poll :: "guard \<Rightarrow> bool \<Rightarrow> stop_pc" where
  "callbacks_stop_poll g late = (if gd_active g = 0 then StStopped else if late then StTimedOut else StWaiting)"

text \<open>\<open>N\<close> bounds the callbacks that can be registered.\<close>

inductive guard_step :: "nat \<Rightarrow> guard_sys \<Rightarrow> guard_sys \<Rightarrow> bool" for N :: nat where
  count: "gs_cb s i = CbIdle \<Longrightarrow> i < N \<Longrightarrow>
    guard_step N s (s\<lparr>gs_guard := callback_count (gs_guard s), gs_cb := (gs_cb s)(i := CbCounted)\<rparr>)"
| check: "gs_cb s i = CbCounted \<Longrightarrow>
    guard_step N s (s\<lparr>gs_cb := (gs_cb s)(i := callback_check (gs_guard s))\<rparr>)"
| leave: "gs_cb s i = CbRefused \<or> gs_cb s i = CbInside \<Longrightarrow>
    guard_step N s (s\<lparr>gs_guard := j1850_callback_exit (gs_guard s), gs_cb := (gs_cb s)(i := CbIdle)\<rparr>)"
| stop: "gs_stop s = StRunning \<or> gs_stop s = StTimedOut \<Longrightarrow>
    guard_step N s (s\<lparr>gs_guard := callbacks_stop_begin (gs_guard s), gs_stop := StWaiting\<rparr>)"
| poll: "gs_stop s = StWaiting \<Longrightarrow>
    guard_step N s (s\<lparr>gs_stop := callbacks_stop_poll (gs_guard s) late\<rparr>)"
| start: "gs_stop s = StStopped \<or> gs_stop s = StTimedOut \<Longrightarrow>
    guard_step N s (s\<lparr>gs_guard := j1850_callbacks_start (gs_guard s), gs_stop := StRunning\<rparr>)"

inductive guard_reach :: "nat \<Rightarrow> guard_sys \<Rightarrow> bool" for N :: nat where
  initial: "guard_reach N \<lparr>gs_guard = \<lparr>gd_stopping = False, gd_active = 0\<rparr>, gs_cb = (\<lambda>_. CbIdle), gs_stop = StRunning\<rparr>"
| step: "guard_reach N s \<Longrightarrow> guard_step N s s' \<Longrightarrow> guard_reach N s'"

definition busy :: "guard_sys \<Rightarrow> nat set" where
  "busy s = {i. gs_cb s i \<noteq> CbIdle}"

definition guard_inv :: "nat \<Rightarrow> guard_sys \<Rightarrow> bool" where
  "guard_inv N s \<longleftrightarrow> busy s \<subseteq> {..<N} \<and> unat (gd_active (gs_guard s)) = card (busy s) \<and>
     (gs_stop s \<noteq> StRunning \<longrightarrow> gd_stopping (gs_guard s)) \<and>
     (gs_stop s = StStopped \<longrightarrow> (\<forall>i. gs_cb s i \<noteq> CbInside))"

lemma busy_finite: "busy s \<subseteq> {..<N :: nat} \<Longrightarrow> finite (busy s)"
  using finite_subset [OF _ finite_lessThan] by blast

lemma count_step:
  assumes "guard_inv N s" "N < 2 ^ 32" "gs_cb s i = CbIdle" "i < N"
  shows "guard_inv N (s\<lparr>gs_guard := callback_count (gs_guard s), gs_cb := (gs_cb s)(i := CbCounted)\<rparr>)"
proof -
  let ?s = "s\<lparr>gs_guard := callback_count (gs_guard s), gs_cb := (gs_cb s)(i := CbCounted)\<rparr>"
  have b: "busy ?s = insert i (busy s)" "i \<notin> busy s" using assms(3) by (auto simp: busy_def)
  have sub: "busy ?s \<subseteq> {..<N}" using assms(1,4) b by (auto simp: guard_inv_def)
  have "card (busy ?s) \<le> N" using card_mono [OF _ sub] by simp
  moreover have "card (busy ?s) = card (busy s) + 1"
    using b busy_finite [of s N] assms(1) by (simp add: guard_inv_def)
  ultimately have "unat (gd_active (gs_guard s) + 1) = card (busy ?s)"
    using assms(1,2) by (simp add: guard_inv_def unat_word_ariths(1))
  with assms(1) sub show ?thesis by (auto simp: guard_inv_def callback_count_def)
qed

lemma leave_step:
  assumes "guard_inv N s" "gs_cb s i \<noteq> CbIdle"
  shows "guard_inv N (s\<lparr>gs_guard := j1850_callback_exit (gs_guard s), gs_cb := (gs_cb s)(i := CbIdle)\<rparr>)"
proof -
  let ?s = "s\<lparr>gs_guard := j1850_callback_exit (gs_guard s), gs_cb := (gs_cb s)(i := CbIdle)\<rparr>"
  have b: "busy ?s = busy s - {i}" "i \<in> busy s" using assms(2) by (auto simp: busy_def)
  have fin: "finite (busy s)" using busy_finite assms(1) by (auto simp: guard_inv_def)
  then have c: "card (busy ?s) = card (busy s) - 1" "0 < card (busy s)" using b by (auto simp: card_gt_0_iff)
  then have "unat (gd_active (gs_guard s) - 1) = card (busy ?s)"
    using assms(1) by (simp add: guard_inv_def unat_sub word_le_nat_alt)
  with assms(1) b show ?thesis by (auto simp: guard_inv_def j1850_callback_exit_def)
qed

lemma guard_inv_step:
  assumes "guard_step N s s'" "guard_inv N s" "N < 2 ^ 32"
  shows "guard_inv N s'"
  using assms(1)
proof cases
  case (count i)
  then show ?thesis using count_step [OF assms(2,3)] by simp
next
  case (check i)
  have "busy s' = busy s" using check by (auto simp: busy_def callback_check_def)
  with assms(2) check show ?thesis by (auto simp: guard_inv_def callback_check_def)
next
  case (leave i)
  then have "gs_cb s i \<noteq> CbIdle" by auto
  from leave_step [OF assms(2) this] leave show ?thesis by simp
next
  case stop
  then show ?thesis using assms(2) by (simp add: guard_inv_def busy_def callbacks_stop_begin_def)
next
  case (poll late)
  show ?thesis
  proof (cases "gd_active (gs_guard s) = 0")
    case True
    then have "card (busy s) = 0" using assms(2) by (simp add: guard_inv_def)
    then have "busy s = {}" using busy_finite assms(2) by (auto simp: guard_inv_def)
    then have "\<forall>i. gs_cb s i = CbIdle" by (auto simp: busy_def)
    with True poll assms(2) show ?thesis by (simp add: guard_inv_def busy_def callbacks_stop_poll_def)
  next
    case False
    with poll assms(2) show ?thesis by (auto simp: guard_inv_def busy_def callbacks_stop_poll_def)
  qed
next
  case start
  then show ?thesis using assms(2) by (simp add: guard_inv_def busy_def j1850_callbacks_start_def)
qed

lemma guard_inv_reach: "guard_reach N s \<Longrightarrow> N < 2 ^ 32 \<Longrightarrow> guard_inv N s"
proof (induction rule: guard_reach.induct)
  case initial
  then show ?case by (simp add: guard_inv_def busy_def)
next
  case (step s s')
  then show ?case using guard_inv_step by blast
qed

text \<open>C40: Once \<open>j1850_callbacks_stop\<close> has returned success, and until the driver is started again, no
  interrupt callback is inside the driver, so its memory can be freed: in every interleaving of any
  number of callbacks (fewer than the counter can hold) with stopping, timing out and starting, a
  callback admitted before is waited for and a later one is refused, and \<open>active\<close> counts exactly
  the callbacks between their increment and decrement.\<close>

theorem j1850_stop_excludes_callbacks:
  assumes "guard_reach N s" "N < 2 ^ 32"
  shows "(gs_stop s = StStopped \<longrightarrow> (\<forall>i. gs_cb s i \<noteq> CbInside)) \<and>
    unat (gd_active (gs_guard s)) = card {i. gs_cb s i \<noteq> CbIdle}"
  using guard_inv_reach [OF assms] by (simp add: guard_inv_def busy_def)

lemma j1850_stop_excludes_callbacks_witness:
  "\<exists>s. guard_reach 3 s \<and> gs_stop s = StStopped \<and> gs_cb s 2 = CbCounted \<and> gs_cb s 2 \<noteq> CbInside"
proof -
  let ?s0 = "\<lparr>gs_guard = \<lparr>gd_stopping = False, gd_active = 0\<rparr>, gs_cb = (\<lambda>_. CbIdle), gs_stop = StRunning\<rparr>"
  let ?s1 = "?s0\<lparr>gs_guard := callbacks_stop_begin (gs_guard ?s0), gs_stop := StWaiting\<rparr>"
  let ?s2 = "?s1\<lparr>gs_stop := StStopped\<rparr>"
  let ?s3 = "?s2\<lparr>gs_guard := callback_count (gs_guard ?s2), gs_cb := (gs_cb ?s2)(2 := CbCounted)\<rparr>"
  have r1: "guard_reach 3 ?s1" using guard_reach.initial guard_step.stop [of ?s0 3] by (auto intro: guard_reach.step)
  have "guard_step 3 ?s1 ?s2" using guard_step.poll [of ?s1 3 False]
    by (simp add: callbacks_stop_poll_def callbacks_stop_begin_def)
  with r1 have r2: "guard_reach 3 ?s2" by (rule guard_reach.step)
  have "guard_step 3 ?s2 ?s3" by (rule guard_step.count) simp_all
  with r2 have r3: "guard_reach 3 ?s3" by (rule guard_reach.step)
  have "gs_stop ?s3 = StStopped" by simp
  with j1850_stop_excludes_callbacks [OF r3] have "gs_cb ?s3 2 \<noteq> CbInside" by simp
  with r3 show ?thesis by (intro exI [of _ ?s3]) simp
qed

end
