(* ===== verification/KlineState.thy ===== *)
theory KlineState
  imports Vif KlineCodec
begin

text \<open>
  The state and the parameters of the K-Line driver \<open>main/kline.c\<close>. The static structure is the record
  \<open>kline\<close>; a buffer with a length is the list of its bytes, a queue the list of its items. \<open>kenv\<close> is
  what the driver uses of ESP-IDF and FreeRTOS: the clock, the UART, the queue set, the pins, the
  delays and the edge capture, each a function on a state of its own; the client may cancel its
  transmission whenever the worker looks at it (\<open>kn_cancel\<close>). A tick of FreeRTOS is a millisecond.
  The lemmas: a parameter is read back as it was accepted, alone, and stays in its range.
\<close>

section \<open>State\<close>

definition BUS_ERR_TX_FAILED :: int where "BUS_ERR_TX_FAILED = -5"
definition BUS_ERR_ECHO :: int where "BUS_ERR_ECHO = -6"
definition BUS_TX_NO_CHECKSUM :: u32w where "BUS_TX_NO_CHECKSUM = 1"
definition BUS_PARITY_NONE :: nat where "BUS_PARITY_NONE = 0"
definition BUS_PARITY_ODD :: nat where "BUS_PARITY_ODD = 1"
definition BUS_PARITY_EVEN :: nat where "BUS_PARITY_EVEN = 2"
definition BUS_DATA_BITS_8 :: nat where "BUS_DATA_BITS_8 = 0"
definition BUS_DATA_BITS_7 :: nat where "BUS_DATA_BITS_7 = 1"
definition BUS_FIVE_BAUD_STD_INIT :: nat where "BUS_FIVE_BAUD_STD_INIT = 0"
definition BUS_FIVE_BAUD_INV_KB2 :: nat where "BUS_FIVE_BAUD_INV_KB2 = 1"
definition BUS_FIVE_BAUD_INV_ADDR :: nat where "BUS_FIVE_BAUD_INV_ADDR = 2"
definition BUS_FIVE_BAUD_9141_STD :: nat where "BUS_FIVE_BAUD_9141_STD = 3"
definition BUS_KLINE_FRAME_DISCOVERY :: nat where "BUS_KLINE_FRAME_DISCOVERY = 0"
definition BUS_KLINE_FRAME_ISO9141 :: nat where "BUS_KLINE_FRAME_ISO9141 = 1"
definition BUS_KLINE_FRAME_ISO14230 :: nat where "BUS_KLINE_FRAME_ISO14230 = 2"
definition KLINE_CARB_MAX_MSG :: nat where "KLINE_CARB_MAX_MSG = 11"
definition KLINE_RX_QUEUE :: nat where "KLINE_RX_QUEUE = 8"
definition KLINE_SYNC_CAPTURE_MAX :: nat where "KLINE_SYNC_CAPTURE_MAX = 32"
definition KLINE_5BAUD_BIT_MS :: nat where "KLINE_5BAUD_BIT_MS = 200"
definition KLINE_WINDOW_SLACK_MS :: nat where "KLINE_WINDOW_SLACK_MS = 50"
definition KLINE_FAST_RESP_MS :: nat where "KLINE_FAST_RESP_MS = 300"
definition KLINE_PERIODIC_QUIET_MS :: nat where "KLINE_PERIODIC_QUIET_MS = 60"
definition KLINE_SVC_START_COMM_RESP :: byte where "KLINE_SVC_START_COMM_RESP = 0xC1"
definition KLINE_SVC_STOP_COMM :: byte where "KLINE_SVC_STOP_COMM = 0x82"
definition KLINE_UART_TIMEOUT_MS :: nat where "KLINE_UART_TIMEOUT_MS = 100"

definition P_TO_US :: "nat \<Rightarrow> int" where "P_TO_US v = int v * 500"
definition W_TO_US :: "nat \<Rightarrow> int" where "W_TO_US v = int v * 1000"
definition P_FROM_MS :: "nat \<Rightarrow> nat" where "P_FROM_MS ms = ms * 2"

record kline_frame =
  kf_data :: "byte list"
  kf_status :: u32w
  kf_start_us :: int
  kf_end_us :: int
  kf_sequence :: u32w

datatype kline_cmd = CMD_TX | CMD_FIVE_BAUD | CMD_FAST_INIT | CMD_STOP_COMM

record kline_cfg =
  kc_baud :: nat
  kc_p1_max :: nat
  kc_p2_max :: nat
  kc_p3_min :: nat
  kc_p4_min :: nat
  kc_w0_min :: nat
  kc_w1_max :: nat
  kc_w2_max :: nat
  kc_w3_max :: nat
  kc_w4_min :: nat
  kc_w4_max :: nat
  kc_w5_min :: nat
  kc_tidle :: nat
  kc_tinil :: nat
  kc_twup :: nat
  kc_parity :: nat
  kc_data_bits :: nat
  kc_five_baud_mod :: nat
  kc_loopback :: bool
  kc_checksum_rx :: bool
  kc_checksum_tx :: bool
  kc_k_line_only :: bool
  kc_frame_mode :: nat
  kc_tx_retries :: nat
  kc_periodic_ms :: nat
  kc_periodic_quiet :: bool
  kc_timing_from_keybytes :: bool
  kc_periodic :: "byte list"

text \<open>\<open>len\<close> is the length of the message.\<close>

record kline_tx =
  kt_data :: "byte list"
  kt_sent :: nat
  kt_echoed :: nat
  kt_announced :: nat
  kt_failed :: bool

text \<open>Counters of 32 bits; the \<open>last\<close> ones are microseconds.\<close>

record kline_stats =
  ks_rx_msgs :: u32w
  ks_rx_bytes :: u32w
  ks_rx_bad_checksum :: u32w
  ks_rx_short :: u32w
  ks_rx_too_long :: u32w
  ks_rx_dropped :: u32w
  ks_rx_overrun :: u32w
  ks_rx_frame_err :: u32w
  ks_rx_break :: u32w
  ks_rx_suppressed :: u32w
  ks_tx_msgs :: u32w
  ks_tx_bytes :: u32w
  ks_tx_retries :: u32w
  ks_tx_echo_ok :: u32w
  ks_tx_echo_bad :: u32w
  ks_tx_echo_missing :: u32w
  ks_periodic_sent :: u32w
  ks_init_attempts :: u32w
  ks_init_ok :: u32w
  ks_init_no_sync :: u32w
  ks_init_no_keys :: u32w
  ks_init_bad_keys :: u32w
  ks_init_no_addr :: u32w
  ks_last_p1_max_us :: u32w
  ks_last_p2_us :: u32w
  ks_last_w1_us :: u32w
  ks_last_w2_us :: u32w
  ks_last_w3_us :: u32w
  ks_last_w4_us :: u32w

text \<open>A pointer to an object of FreeRTOS is whether there is one.\<close>

datatype kline_obj = OBJ_SET | OBJ_CMD_Q | OBJ_RX_Q | OBJ_CMD_DONE | OBJ_EXITED | OBJ_API_LOCK | OBJ_DATA_LOCK | OBJ_TASK

record 'd kline =
  k_started :: bool
  k_uart_installed :: bool
  k_stop_requested :: bool
  k_objs :: "kline_obj \<Rightarrow> bool"
  k_cmd_q :: "kline_cmd option"
  k_rx_q :: "kline_frame list"
  k_pending_inits :: nat
  k_command_pending :: bool
  k_command_timed_out :: bool
  k_uart_tx_unresolved :: bool
  k_cmd :: kline_cmd
  k_req :: "byte list"
  k_req_flags :: u32w
  k_control :: "bus_tx_control option"
  k_active :: bool
  k_rx_epoch :: bus_rx_epoch
  k_req_init :: bus_init
  k_result :: int
  k_cfg :: kline_cfg
  k_tx :: "kline_tx option"
  k_active_baud :: nat
  k_link :: bus_link
  k_keys :: kline_keybytes_t
  k_last_bus_us :: int
  k_tx_end_us :: int
  k_p2_pending :: bool
  k_tx_answered :: bool
  k_suppress_until_us :: int
  k_pending_status :: u32w
  k_uart_pending :: "byte list"
  k_uart_pending_us :: int
  k_asm :: "byte list"
  k_asm_start_us :: int
  k_asm_last_us :: int
  k_rx_invalid :: bool
  k_rx_invalid_last_us :: int
  k_stats :: kline_stats
  k_env :: 'd

datatype uart_event_type = UART_DATA | UART_FIFO_OVF | UART_BUFFER_FULL | UART_BREAK | UART_FRAME_ERR | UART_PARITY_ERR | UART_OTHER

text \<open>What the queue set names: the event of the UART, if there still is one, or the command queue.\<close>

datatype kline_member = UartQueue "(uart_event_type \<times> nat) option" | CommandQueue

definition ESP_ERR_TIMEOUT :: esp_err where "ESP_ERR_TIMEOUT = 0x107"

datatype kline_pin = PIN_KLINE_TX | PIN_LS_OBD_15 | PIN_KLINE_nSILENT

record 'd kenv =
  kn_now :: "'d \<Rightarrow> 'd \<times> int"
  kn_read :: "nat \<Rightarrow> nat \<Rightarrow> 'd \<Rightarrow> 'd \<times> byte list"
  kn_write :: "byte \<Rightarrow> 'd \<Rightarrow> 'd \<times> bool"
  kn_tx_done :: "nat \<Rightarrow> 'd \<Rightarrow> 'd \<times> bool"
  kn_flush :: "'d \<Rightarrow> 'd"
  kn_select :: "nat \<Rightarrow> 'd \<Rightarrow> 'd \<times> kline_member option"
  kn_task_delay :: "nat \<Rightarrow> 'd \<Rightarrow> 'd"
  kn_delay_us :: "nat \<Rightarrow> 'd \<Rightarrow> 'd"
  kn_set_baudrate :: "nat \<Rightarrow> 'd \<Rightarrow> 'd \<times> esp_err"
  kn_set_word_length :: "nat \<Rightarrow> 'd \<Rightarrow> 'd \<times> esp_err"
  kn_set_parity :: "nat \<Rightarrow> 'd \<Rightarrow> 'd \<times> esp_err"
  kn_pin_to_gpio :: "'d \<Rightarrow> 'd"
  kn_pin_to_uart :: "'d \<Rightarrow> 'd"
  kn_set_level :: "kline_pin \<Rightarrow> bool \<Rightarrow> 'd \<Rightarrow> 'd"
  kn_capture_start :: "'d \<Rightarrow> 'd \<times> esp_err"
  kn_capture_stop :: "'d \<Rightarrow> 'd"
  kn_edges :: "'d \<Rightarrow> 'd \<times> u32w list"
  kn_notify_take :: "nat \<Rightarrow> 'd \<Rightarrow> 'd"
  kn_cancel :: "'d \<Rightarrow> 'd \<times> bool"
  kn_done_in_time :: "nat option \<Rightarrow> 'd \<Rightarrow> 'd \<times> bool"
  kn_uart_install :: "'d \<Rightarrow> 'd \<times> esp_err"
  kn_uart_config :: "'d \<Rightarrow> 'd \<times> esp_err"
  kn_uart_threshold :: "'d \<Rightarrow> 'd \<times> esp_err"
  kn_uart_timeout :: "'d \<Rightarrow> 'd \<times> esp_err"
  kn_uart_delete :: "'d \<Rightarrow> 'd \<times> esp_err"
  kn_create :: "kline_obj \<Rightarrow> 'd \<Rightarrow> 'd \<times> bool"
  kn_add_to_set :: "'d \<Rightarrow> 'd \<times> bool"
  kn_exits :: "nat \<Rightarrow> 'd \<Rightarrow> 'd \<times> bool"

text \<open>
  A line on which nothing happens, with a clock that runs while the driver waits; every other call
  succeeds. It is an instance of the environment for concrete runs.
\<close>

definition silent_line :: "int kenv" where
  "silent_line =
     \<lparr>kn_now = (\<lambda>t. (t, t)), kn_read = (\<lambda>n w t. (t + int w * 1000, [])), kn_write = (\<lambda>b t. (t, True)),
      kn_tx_done = (\<lambda>w t. (t, True)), kn_flush = (\<lambda>t. t), kn_select = (\<lambda>w t. (t + int w * 1000, None)),
      kn_task_delay = (\<lambda>w t. t + int w * 1000), kn_delay_us = (\<lambda>w t. t + int w), kn_set_baudrate = (\<lambda>b t. (t, ESP_OK)),
      kn_set_word_length = (\<lambda>b t. (t, ESP_OK)), kn_set_parity = (\<lambda>b t. (t, ESP_OK)), kn_pin_to_gpio = (\<lambda>t. t),
      kn_pin_to_uart = (\<lambda>t. t), kn_set_level = (\<lambda>p l t. t), kn_capture_start = (\<lambda>t. (t, ESP_OK)),
      kn_capture_stop = (\<lambda>t. t), kn_edges = (\<lambda>t. (t, [])), kn_notify_take = (\<lambda>w t. t + int w * 1000),
      kn_cancel = (\<lambda>t. (t, False)), kn_done_in_time = (\<lambda>w t. (t, True)), kn_uart_install = (\<lambda>t. (t, ESP_OK)),
      kn_uart_config = (\<lambda>t. (t, ESP_OK)), kn_uart_threshold = (\<lambda>t. (t, ESP_OK)), kn_uart_timeout = (\<lambda>t. (t, ESP_OK)),
      kn_uart_delete = (\<lambda>t. (t, ESP_OK)), kn_create = (\<lambda>ob t. (t, True)), kn_add_to_set = (\<lambda>t. (t, True)),
      kn_exits = (\<lambda>w t. (t, True))\<rparr>"

section \<open>Access\<close>

text \<open>A call of the environment, and the updates the operations are made of.\<close>

definition on_kenv :: "('d \<Rightarrow> 'd \<times> 'a) \<Rightarrow> 'd kline \<Rightarrow> 'd kline \<times> 'a" where
  "on_kenv f g = (let (d, r) = f (k_env g) in (g\<lparr>k_env := d\<rparr>, r))"

definition do_kenv :: "('d \<Rightarrow> 'd) \<Rightarrow> 'd kline \<Rightarrow> 'd kline" where
  "do_kenv f g = g\<lparr>k_env := f (k_env g)\<rparr>"

definition upd_cfg :: "(kline_cfg \<Rightarrow> kline_cfg) \<Rightarrow> 'd kline \<Rightarrow> 'd kline" where
  "upd_cfg f g = g\<lparr>k_cfg := f (k_cfg g)\<rparr>"

definition upd_stats :: "(kline_stats \<Rightarrow> kline_stats) \<Rightarrow> 'd kline \<Rightarrow> 'd kline" where
  "upd_stats f g = g\<lparr>k_stats := f (k_stats g)\<rparr>"

definition upd_link :: "(bus_link \<Rightarrow> bus_link) \<Rightarrow> 'd kline \<Rightarrow> 'd kline" where
  "upd_link f g = g\<lparr>k_link := f (k_link g)\<rparr>"

definition kline_now :: "'d kenv \<Rightarrow> 'd kline \<Rightarrow> 'd kline \<times> int" where
  "kline_now en = on_kenv (kn_now en)"

definition command_blocked :: "'d kline \<Rightarrow> bool" where
  "command_blocked g \<longleftrightarrow> k_command_timed_out g \<or> k_uart_tx_unresolved g"

definition byte_time_at_baud :: "'d kline \<Rightarrow> nat \<Rightarrow> nat" where
  "byte_time_at_baud g baud =
     (let bits = 1 + (if kc_data_bits (k_cfg g) = BUS_DATA_BITS_7 then 7 else 8) + 1;
          baud = (if baud = 0 then KLINE_BAUD_DEFAULT else baud);
          bits = (if kc_parity (k_cfg g) \<noteq> BUS_PARITY_NONE then bits + 1 else bits)
      in (bits * 1000000 + baud - 1) div baud)"

definition span_us :: "int \<Rightarrow> int \<Rightarrow> nat \<Rightarrow> u32w" where
  "span_us from_us to bt = (let d = to - from_us - int bt in if d > 0 then word_of_int d else 0)"

definition delay_until_us :: "'d kenv \<Rightarrow> int \<Rightarrow> 'd kline \<Rightarrow> 'd kline" where
  "delay_until_us en deadline g =
     (let (g, now) = kline_now en g; left = deadline - now in
      if left \<le> 0 then g
      else
        let (g, left) = (if left > 2000 then
              (let g = do_kenv (kn_task_delay en (nat ((left - 1000) div 1000))) g;
                   (g, now) = kline_now en g
               in (g, deadline - now))
            else (g, left))
        in if left > 0 then do_kenv (kn_delay_us en (nat left)) g else g)"

section \<open>The first state\<close>

definition link_zero :: bus_link where
  "link_zero = \<lparr>bl_connected = False, bl_variant = 0, bl_key = [0, 0], bl_key_code = 0, bl_address = 0, bl_baud = 0,
     bl_w1_us = 0, bl_w2_us = 0, bl_w3_us = 0, bl_w4_us = 0\<rparr>"

definition keys_zero :: kline_keybytes_t where
  "keys_zero = (keybytes_raw 0 0)\<lparr>parity_ok := False\<rparr>"

definition bus_init_zero :: bus_init where
  "bus_init_zero = \<lparr>bi_address = 0, bi_msg = [], bi_msg_len = 0, bi_raw_response = False, bi_no_response = False, bi_tx_flags = 0,
     bi_key = [0, 0], bi_reply = [], bi_reply_len = 0, bi_reply_timestamp_us = 0\<rparr>"

definition kline_stats_zero :: kline_stats where
  "kline_stats_zero =
     \<lparr>ks_rx_msgs = 0, ks_rx_bytes = 0, ks_rx_bad_checksum = 0, ks_rx_short = 0, ks_rx_too_long = 0, ks_rx_dropped = 0,
      ks_rx_overrun = 0, ks_rx_frame_err = 0, ks_rx_break = 0, ks_rx_suppressed = 0, ks_tx_msgs = 0, ks_tx_bytes = 0,
      ks_tx_retries = 0, ks_tx_echo_ok = 0, ks_tx_echo_bad = 0, ks_tx_echo_missing = 0, ks_periodic_sent = 0,
      ks_init_attempts = 0, ks_init_ok = 0, ks_init_no_sync = 0, ks_init_no_keys = 0, ks_init_bad_keys = 0,
      ks_init_no_addr = 0, ks_last_p1_max_us = 0, ks_last_p2_us = 0, ks_last_w1_us = 0, ks_last_w2_us = 0,
      ks_last_w3_us = 0, ks_last_w4_us = 0\<rparr>"

definition kline_cfg_zero :: kline_cfg where
  "kline_cfg_zero =
     \<lparr>kc_baud = 0, kc_p1_max = 0, kc_p2_max = 0, kc_p3_min = 0, kc_p4_min = 0, kc_w0_min = 0, kc_w1_max = 0, kc_w2_max = 0,
      kc_w3_max = 0, kc_w4_min = 0, kc_w4_max = 0, kc_w5_min = 0, kc_tidle = 0, kc_tinil = 0, kc_twup = 0, kc_parity = 0,
      kc_data_bits = 0, kc_five_baud_mod = 0, kc_loopback = False, kc_checksum_rx = False, kc_checksum_tx = False,
      kc_k_line_only = False, kc_frame_mode = 0, kc_tx_retries = 0, kc_periodic_ms = 0, kc_periodic_quiet = False,
      kc_timing_from_keybytes = False, kc_periodic = []\<rparr>"

text \<open>The static object before the first call; nothing is read from a request or a command before it is written.\<close>

definition kline_zero :: "'d \<Rightarrow> 'd kline" where
  "kline_zero d =
     \<lparr>k_started = False, k_uart_installed = False, k_stop_requested = False, k_objs = (\<lambda>_. False), k_cmd_q = None,
      k_rx_q = [], k_pending_inits = 0, k_command_pending = False, k_command_timed_out = False,
      k_uart_tx_unresolved = False, k_cmd = CMD_TX, k_req = [], k_req_flags = 0, k_control = None, k_active = False,
      k_rx_epoch = \<lparr>ep_sequence = 0, ep_lost = 0\<rparr>, k_req_init = bus_init_zero, k_result = 0, k_cfg = kline_cfg_zero,
      k_tx = None, k_active_baud = 0, k_link = link_zero, k_keys = keys_zero, k_last_bus_us = 0, k_tx_end_us = 0,
      k_p2_pending = False, k_tx_answered = False, k_suppress_until_us = 0, k_pending_status = 0, k_uart_pending = [],
      k_uart_pending_us = 0, k_asm = [], k_asm_start_us = 0, k_asm_last_us = 0, k_rx_invalid = False,
      k_rx_invalid_last_us = 0, k_stats = kline_stats_zero, k_env = d\<rparr>"

section \<open>Parameters\<close>

definition cfg_defaults :: kline_cfg where
  "cfg_defaults =
     \<lparr>kc_baud = KLINE_BAUD_DEFAULT, kc_p1_max = 40, kc_p2_max = 100, kc_p3_min = 110, kc_p4_min = 10,
      kc_w0_min = 300, kc_w1_max = 300, kc_w2_max = 20, kc_w3_max = 20, kc_w4_min = 25, kc_w4_max = 50,
      kc_w5_min = 300, kc_tidle = 300, kc_tinil = 25, kc_twup = 50, kc_parity = BUS_PARITY_NONE,
      kc_data_bits = BUS_DATA_BITS_8, kc_five_baud_mod = BUS_FIVE_BAUD_STD_INIT, kc_loopback = False,
      kc_checksum_rx = True, kc_checksum_tx = True, kc_k_line_only = True,
      kc_frame_mode = BUS_KLINE_FRAME_DISCOVERY, kc_tx_retries = 0, kc_periodic_ms = 0,
      kc_periodic_quiet = True, kc_timing_from_keybytes = False, kc_periodic = []\<rparr>"

text \<open>A pointer to a field is its selector with its update.\<close>

record 'a slot =
  sl_get :: "kline_cfg \<Rightarrow> 'a"
  sl_put :: "'a \<Rightarrow> kline_cfg \<Rightarrow> kline_cfg"

text \<open>The limits and the field.\<close>

fun cfg_slot :: "bus_param \<Rightarrow> (nat \<times> nat \<times> nat slot) option" where
  "cfg_slot BUS_P_DATA_RATE = Some (KLINE_BAUD_MIN, KLINE_BAUD_HW_MAX, \<lparr>sl_get = kc_baud, sl_put = \<lambda>v c. c\<lparr>kc_baud := v\<rparr>\<rparr>)"
| "cfg_slot BUS_P_P1_MAX = Some (1, 0xFFFF, \<lparr>sl_get = kc_p1_max, sl_put = \<lambda>v c. c\<lparr>kc_p1_max := v\<rparr>\<rparr>)"
| "cfg_slot BUS_P_P2_MAX = Some (0, 0xFFFF, \<lparr>sl_get = kc_p2_max, sl_put = \<lambda>v c. c\<lparr>kc_p2_max := v\<rparr>\<rparr>)"
| "cfg_slot BUS_P_P3_MIN = Some (0, 0xFFFF, \<lparr>sl_get = kc_p3_min, sl_put = \<lambda>v c. c\<lparr>kc_p3_min := v\<rparr>\<rparr>)"
| "cfg_slot BUS_P_P4_MIN = Some (0, 0xFFFF, \<lparr>sl_get = kc_p4_min, sl_put = \<lambda>v c. c\<lparr>kc_p4_min := v\<rparr>\<rparr>)"
| "cfg_slot BUS_P_W0_MIN = Some (0, 0xFFFF, \<lparr>sl_get = kc_w0_min, sl_put = \<lambda>v c. c\<lparr>kc_w0_min := v\<rparr>\<rparr>)"
| "cfg_slot BUS_P_W1_MAX = Some (0, 0xFFFF, \<lparr>sl_get = kc_w1_max, sl_put = \<lambda>v c. c\<lparr>kc_w1_max := v\<rparr>\<rparr>)"
| "cfg_slot BUS_P_W2_MAX = Some (0, 0xFFFF, \<lparr>sl_get = kc_w2_max, sl_put = \<lambda>v c. c\<lparr>kc_w2_max := v\<rparr>\<rparr>)"
| "cfg_slot BUS_P_W3_MAX = Some (0, 0xFFFF, \<lparr>sl_get = kc_w3_max, sl_put = \<lambda>v c. c\<lparr>kc_w3_max := v\<rparr>\<rparr>)"
| "cfg_slot BUS_P_W4_MIN = Some (0, 0xFFFF, \<lparr>sl_get = kc_w4_min, sl_put = \<lambda>v c. c\<lparr>kc_w4_min := v\<rparr>\<rparr>)"
| "cfg_slot BUS_P_W4_MAX = Some (0, 0xFFFF, \<lparr>sl_get = kc_w4_max, sl_put = \<lambda>v c. c\<lparr>kc_w4_max := v\<rparr>\<rparr>)"
| "cfg_slot BUS_P_W5_MIN = Some (0, 0xFFFF, \<lparr>sl_get = kc_w5_min, sl_put = \<lambda>v c. c\<lparr>kc_w5_min := v\<rparr>\<rparr>)"
| "cfg_slot BUS_P_TIDLE = Some (0, 0xFFFF, \<lparr>sl_get = kc_tidle, sl_put = \<lambda>v c. c\<lparr>kc_tidle := v\<rparr>\<rparr>)"
| "cfg_slot BUS_P_TINIL = Some (0, 0xFFFF, \<lparr>sl_get = kc_tinil, sl_put = \<lambda>v c. c\<lparr>kc_tinil := v\<rparr>\<rparr>)"
| "cfg_slot BUS_P_TWUP = Some (0, 0xFFFF, \<lparr>sl_get = kc_twup, sl_put = \<lambda>v c. c\<lparr>kc_twup := v\<rparr>\<rparr>)"
| "cfg_slot BUS_P_PARITY = Some (0, BUS_PARITY_EVEN, \<lparr>sl_get = kc_parity, sl_put = \<lambda>v c. c\<lparr>kc_parity := v\<rparr>\<rparr>)"
| "cfg_slot BUS_P_DATA_BITS = Some (0, BUS_DATA_BITS_7, \<lparr>sl_get = kc_data_bits, sl_put = \<lambda>v c. c\<lparr>kc_data_bits := v\<rparr>\<rparr>)"
| "cfg_slot BUS_P_FIVE_BAUD_MOD = Some (0, BUS_FIVE_BAUD_9141_STD, \<lparr>sl_get = kc_five_baud_mod, sl_put = \<lambda>v c. c\<lparr>kc_five_baud_mod := v\<rparr>\<rparr>)"
| "cfg_slot BUS_P_TX_RETRIES = Some (0, 8, \<lparr>sl_get = kc_tx_retries, sl_put = \<lambda>v c. c\<lparr>kc_tx_retries := v\<rparr>\<rparr>)"
| "cfg_slot BUS_P_KLINE_FRAME_MODE = Some (0, BUS_KLINE_FRAME_ISO14230, \<lparr>sl_get = kc_frame_mode, sl_put = \<lambda>v c. c\<lparr>kc_frame_mode := v\<rparr>\<rparr>)"
| "cfg_slot BUS_P_PERIODIC_MS = Some (0, 0xFFFFFF, \<lparr>sl_get = kc_periodic_ms, sl_put = \<lambda>v c. c\<lparr>kc_periodic_ms := v\<rparr>\<rparr>)"
| "cfg_slot _ = None"

fun cfg_flag :: "bus_param \<Rightarrow> bool slot option" where
  "cfg_flag BUS_P_LOOPBACK = Some \<lparr>sl_get = kc_loopback, sl_put = \<lambda>v c. c\<lparr>kc_loopback := v\<rparr>\<rparr>"
| "cfg_flag BUS_P_CHECKSUM_RX = Some \<lparr>sl_get = kc_checksum_rx, sl_put = \<lambda>v c. c\<lparr>kc_checksum_rx := v\<rparr>\<rparr>"
| "cfg_flag BUS_P_CHECKSUM_TX = Some \<lparr>sl_get = kc_checksum_tx, sl_put = \<lambda>v c. c\<lparr>kc_checksum_tx := v\<rparr>\<rparr>"
| "cfg_flag BUS_P_K_LINE_ONLY = Some \<lparr>sl_get = kc_k_line_only, sl_put = \<lambda>v c. c\<lparr>kc_k_line_only := v\<rparr>\<rparr>"
| "cfg_flag BUS_P_PERIODIC_QUIET = Some \<lparr>sl_get = kc_periodic_quiet, sl_put = \<lambda>v c. c\<lparr>kc_periodic_quiet := v\<rparr>\<rparr>"
| "cfg_flag BUS_P_TIMING_FROM_KEYBYTES = Some \<lparr>sl_get = kc_timing_from_keybytes, sl_put = \<lambda>v c. c\<lparr>kc_timing_from_keybytes := v\<rparr>\<rparr>"
| "cfg_flag _ = None"

definition apply_line_cfg :: "'d kenv \<Rightarrow> 'd kline \<Rightarrow> 'd kline \<times> esp_err" where
  "apply_line_cfg en g =
     (let bits = (if kc_data_bits (k_cfg g) = BUS_DATA_BITS_7 then 7 else 8);
          par = (if kc_parity (k_cfg g) = BUS_PARITY_ODD then BUS_PARITY_ODD
            else if kc_parity (k_cfg g) = BUS_PARITY_EVEN then BUS_PARITY_EVEN else BUS_PARITY_NONE);
          (g, err) = on_kenv (kn_set_baudrate en (k_active_baud g)) g
      in if err \<noteq> ESP_OK then (g, err)
         else
           let (g, err) = on_kenv (kn_set_word_length en bits) g
           in if err \<noteq> ESP_OK then (g, err) else on_kenv (kn_set_parity en par) g)"

definition kline_set_param :: "'d kenv \<Rightarrow> bus_param \<Rightarrow> nat \<Rightarrow> 'd kline \<Rightarrow> 'd kline \<times> int" where
  "kline_set_param en p v g =
     (if \<not> k_started g then (g, BUS_ERR_NOT_READY)
      else if command_blocked g then (g, BUS_ERR_BUS_BUSY)
      else case cfg_flag p of
        Some s \<Rightarrow>
          if p = BUS_P_K_LINE_ONLY \<and> sl_get s (k_cfg g) \<noteq> (v \<noteq> 0) then
            if k_pending_inits g \<noteq> 0 then (g, BUS_ERR_BUS_BUSY)
            else (upd_cfg (sl_put s (v \<noteq> 0)) (do_kenv (kn_set_level en PIN_LS_OBD_15 False) g), 0)
          else (upd_cfg (sl_put s (v \<noteq> 0)) g, 0)
      | None \<Rightarrow> (case cfg_slot p of
          None \<Rightarrow> (g, BUS_ERR_UNSUPPORTED)
        | Some (lo, hi, s) \<Rightarrow>
            if v < lo \<or> hi < v then (g, BUS_ERR_BAD_ARG)
            else
              let g = upd_cfg (sl_put s v) g in
              if p = BUS_P_DATA_RATE \<or> p = BUS_P_PARITY \<or> p = BUS_P_DATA_BITS then
                let g = (if p = BUS_P_DATA_RATE then g\<lparr>k_active_baud := v\<rparr> else g);
                    (g, err) = apply_line_cfg en g
                in (g, if err \<noteq> ESP_OK then BUS_ERR_BAD_ARG else 0)
              else (g, 0)))"

text \<open>An error, or the value read.\<close>

definition kline_get_param :: "bus_param \<Rightarrow> 'd kline \<Rightarrow> int + nat" where
  "kline_get_param p g =
     (if \<not> k_started g then Inl BUS_ERR_NOT_READY
      else case cfg_flag p of
        Some s \<Rightarrow> Inr (if sl_get s (k_cfg g) then 1 else 0)
      | None \<Rightarrow> (case cfg_slot p of
          Some (_, _, s) \<Rightarrow> Inr (sl_get s (k_cfg g))
        | None \<Rightarrow> Inl BUS_ERR_UNSUPPORTED))"

section \<open>The parameter table\<close>

text \<open>Two fields are independent, and each holds what was put there.\<close>

fun_cases slotE: "cfg_slot p = Some x"
fun_cases flagE: "cfg_flag p = Some x"

lemma slot_put [simp]:
  "cfg_slot p = Some (lo, hi, s) \<Longrightarrow> sl_get s (sl_put s v c) = v"
  by (erule slotE) auto

lemma flag_put [simp]:
  "cfg_flag p = Some s \<Longrightarrow> sl_get s (sl_put s v c) = v"
  by (erule flagE) auto

lemma slot_not_flag: "cfg_slot p = Some x \<Longrightarrow> cfg_flag p = None"
  by (erule slotE) auto

lemma slot_slot:
  "cfg_slot p = Some (lo, hi, s) \<Longrightarrow> cfg_slot q = Some (lo', hi', s') \<Longrightarrow> q \<noteq> p \<Longrightarrow> sl_get s' (sl_put s v c) = sl_get s' c"
  by (erule slotE; erule slotE; simp; elim conjE; hypsubst; simp)

lemma slot_flag:
  "cfg_slot p = Some (lo, hi, s) \<Longrightarrow> cfg_flag q = Some s' \<Longrightarrow> sl_get s' (sl_put s v c) = sl_get s' c"
  by (erule slotE; erule flagE; simp; elim conjE; hypsubst; simp)

lemma flag_slot:
  "cfg_flag p = Some s \<Longrightarrow> cfg_slot q = Some (lo', hi', s') \<Longrightarrow> sl_get s' (sl_put s v c) = sl_get s' c"
  by (erule slotE; erule flagE; simp; elim conjE; hypsubst; simp)

lemma flag_flag:
  "cfg_flag p = Some s \<Longrightarrow> cfg_flag q = Some s' \<Longrightarrow> q \<noteq> p \<Longrightarrow> sl_get s' (sl_put s v c) = sl_get s' c"
  by (erule flagE; erule flagE; simp; elim conjE; hypsubst; simp)


lemmas slot_other = slot_slot slot_flag flag_slot flag_flag

definition cfg_valid :: "kline_cfg \<Rightarrow> bool" where
  "cfg_valid c \<longleftrightarrow> (\<forall>p lo hi s. cfg_slot p = Some (lo, hi, s) \<longrightarrow> lo \<le> sl_get s c \<and> sl_get s c \<le> hi)"

lemma cfg_valid_defaults: "cfg_valid cfg_defaults"
  unfolding cfg_valid_def cfg_defaults_def
  by (auto elim!: slotE simp: KLINE_BAUD_MIN_def KLINE_BAUD_HW_MAX_def KLINE_BAUD_DEFAULT_def BUS_PARITY_NONE_def
      BUS_PARITY_EVEN_def BUS_DATA_BITS_8_def BUS_DATA_BITS_7_def BUS_FIVE_BAUD_STD_INIT_def BUS_FIVE_BAUD_9141_STD_def
      BUS_KLINE_FRAME_DISCOVERY_def BUS_KLINE_FRAME_ISO14230_def)

lemma cfg_valid_slot:
  assumes "cfg_valid c" "cfg_slot p = Some (lo, hi, s)" "lo \<le> v" "v \<le> hi"
  shows "cfg_valid (sl_put s v c)"
  using assms unfolding cfg_valid_def by (metis slot_put slot_slot option.inject prod.inject)

lemma cfg_valid_flag:
  assumes "cfg_valid c" "cfg_flag p = Some s"
  shows "cfg_valid (sl_put s v c)"
  using assms unfolding cfg_valid_def by (metis flag_slot)

lemma on_kenv_eq: "on_kenv f g = (g\<lparr>k_env := fst (f (k_env g))\<rparr>, snd (f (k_env g)))"
  by (simp add: on_kenv_def case_prod_beta)

lemma kenv_fields [simp]:
  "k_cfg (fst (on_kenv f g)) = k_cfg g" "k_started (fst (on_kenv f g)) = k_started g"
  "k_cfg (do_kenv h g) = k_cfg g" "k_started (do_kenv h g) = k_started g"
  "k_cfg (upd_cfg u g) = u (k_cfg g)" "k_started (upd_cfg u g) = k_started g"
  by (simp_all add: on_kenv_eq do_kenv_def upd_cfg_def)

lemma apply_line_fields [simp]:
  "k_cfg (fst (apply_line_cfg en g)) = k_cfg g" "k_started (fst (apply_line_cfg en g)) = k_started g"
  by (simp_all add: apply_line_cfg_def on_kenv_eq Let_def)

text \<open>What a call of \<open>kline_set_param\<close> does to the configuration.\<close>

lemma set_param_cases:
  assumes "kline_set_param en p v g = (g', rc)"
  obtains (refused) "g' = g" "rc \<noteq> 0"
  | (flag) s where "cfg_flag p = Some s" "k_cfg g' = sl_put s (v \<noteq> 0) (k_cfg g)" "k_started g'" "k_started g"
  | (slot) lo hi s where "cfg_slot p = Some (lo, hi, s)" "lo \<le> v" "v \<le> hi" "k_cfg g' = sl_put s v (k_cfg g)" "k_started g'" "k_started g"
proof (cases "\<not> k_started g \<or> command_blocked g \<or> (cfg_flag p = None \<and> cfg_slot p = None)")
  case True
  with assms have "g' = g \<and> rc \<noteq> 0"
    by (auto simp: kline_set_param_def BUS_ERR_NOT_READY_def BUS_ERR_BUS_BUSY_def BUS_ERR_UNSUPPORTED_def split: if_splits)
  then show ?thesis using refused by blast
next
  case False
  then have up: "k_started g" "\<not> command_blocked g" by auto
  show ?thesis
  proof (cases "cfg_flag p")
    case (Some s)
    with assms up have "(g' = g \<and> rc \<noteq> 0) \<or> (k_cfg g' = sl_put s (v \<noteq> 0) (k_cfg g) \<and> k_started g')"
      by (auto simp: kline_set_param_def BUS_ERR_BUS_BUSY_def split: if_splits)
    then show ?thesis using refused flag [OF Some] up by blast
  next
    case None
    with False obtain lo hi s where s: "cfg_slot p = Some (lo, hi, s)" by (auto simp: prod_eq_iff)
    have line: "k_cfg g2 = k_cfg g1 \<and> k_started g2 = k_started g1" if "apply_line_cfg en g1 = (g2, e)" for g1 g2 e
      using apply_line_fields [of en g1] that by simp_all
    from assms up s None have "(g' = g \<and> rc \<noteq> 0) \<or> (lo \<le> v \<and> v \<le> hi \<and> k_cfg g' = sl_put s v (k_cfg g) \<and> k_started g')"
      by (auto simp: kline_set_param_def BUS_ERR_BAD_ARG_def Let_def split: if_splits prod.splits dest!: line)
    then show ?thesis using refused slot [OF s] up by blast
  qed
qed

text \<open>The parameters of the K-Line driver are a table. A value that is accepted is read back, and no other
  parameter changes, whatever the result; a value outside the limits of its parameter changes nothing;
  and every parameter stays within its limits.
\<close>
theorem kline_params_table:
  assumes "kline_set_param en p v g = (g', rc)" and "cfg_valid (k_cfg g)"
  shows "cfg_valid (k_cfg g') \<and>
    (rc = 0 \<longrightarrow> kline_get_param p g' = Inr (if cfg_flag p = None then v else if v \<noteq> 0 then 1 else 0)) \<and>
    (\<forall>q. q \<noteq> p \<longrightarrow> kline_get_param q g' = kline_get_param q g) \<and>
    (\<forall>lo hi s. cfg_slot p = Some (lo, hi, s) \<and> (v < lo \<or> hi < v) \<longrightarrow> rc \<noteq> 0 \<and> g' = g)"
  using assms(1)
proof (cases rule: set_param_cases)
  case refused
  then show ?thesis using assms by simp
next
  case (flag s)
  have "kline_get_param q g' = kline_get_param q g" if "q \<noteq> p" for q
    using flag that flag_flag [OF flag(1), of q] flag_slot [OF flag(1), of q]
    by (auto simp: kline_get_param_def split: option.split)
  moreover have "cfg_slot p = None" using slot_not_flag [of p] flag(1) by (cases "cfg_slot p") auto
  ultimately show ?thesis
    using flag cfg_valid_flag [OF assms(2) flag(1)] by (simp add: kline_get_param_def)
next
  case (slot lo hi s)
  have "kline_get_param q g' = kline_get_param q g" if "q \<noteq> p" for q
    using slot that slot_slot [OF slot(1), of q] slot_flag [OF slot(1), of q]
    by (auto simp: kline_get_param_def split: option.split)
  then show ?thesis
    using slot cfg_valid_slot [OF assms(2) slot(1-3)] slot_not_flag [OF slot(1)] by (auto simp: kline_get_param_def)
qed

lemma kline_params_table_witness:
  "\<exists>g'. kline_set_param silent_line BUS_P_P1_MAX 30 ((kline_zero 0)\<lparr>k_started := True, k_cfg := cfg_defaults\<rparr>) = (g', 0) \<and>
     kline_get_param BUS_P_P1_MAX g' = Inr 30 \<and> kline_get_param BUS_P_P2_MAX g' = Inr 100"
proof -
  let ?g = "(kline_zero 0)\<lparr>k_started := True, k_cfg := cfg_defaults\<rparr> :: int kline"
  have s: "kline_set_param silent_line BUS_P_P1_MAX 30 ?g = (upd_cfg (\<lambda>c. c\<lparr>kc_p1_max := 30\<rparr>) ?g, 0)"
    by (simp add: kline_set_param_def command_blocked_def kline_zero_def)
  have "kline_get_param BUS_P_P2_MAX ?g = Inr 100" by (simp add: kline_get_param_def cfg_defaults_def)
  with kline_params_table [OF s] cfg_valid_defaults s show ?thesis by simp
qed

end
