(* ===== verification/KlineRx.thy ===== *)
theory KlineRx
  imports KlineState
begin

text \<open>
  What the K-Line driver receives (\<open>main/kline.c\<close>): the events of the UART, the bytes, the framer and
  the delivery of messages. A loop that ends with the line or the clock is a partial function, and
  \<open>None\<close> is one that does not end. What reception keeps is in \<open>KlineKept\<close>, that it returns in \<open>KlineReturn\<close>,
  what the framer takes off the line in \<open>KlineWire\<close>.
\<close>

section \<open>The line\<close>

definition rx_discard :: "'d kenv \<Rightarrow> 'd kline \<Rightarrow> 'd kline" where
  "rx_discard en g = (do_kenv (kn_flush en) g)\<lparr>k_uart_pending := [], k_asm := [], k_rx_invalid := False\<rparr>"

text \<open>Whether a byte is there.\<close>

definition uart_fill :: "'d kenv \<Rightarrow> nat \<Rightarrow> 'd kline \<Rightarrow> 'd kline \<times> bool" where
  "uart_fill en wait g =
     (if k_uart_pending g \<noteq> [] then (g, True)
      else
        let (g, bs) = on_kenv (kn_read en 64 0) g; bs = take 64 bs;
            (g, bs) = (if bs = [] \<and> wait \<noteq> 0 then (let (g, bs) = on_kenv (kn_read en 1 wait) g in (g, take 1 bs)) else (g, bs))
        in if bs = [] then (g, False)
           else (let (g, now) = kline_now en g in (g\<lparr>k_uart_pending := bs, k_uart_pending_us := now\<rparr>, True)))"

section \<open>Events\<close>

text \<open>The loop of \<open>tx_read_echo\<close>; each round counts one echoed byte, so \<open>limit - echoed\<close> rounds are enough.\<close>

fun read_echo_loop :: "'d kenv \<Rightarrow> nat \<Rightarrow> 'd kline \<Rightarrow> 'd kline" where
  "read_echo_loop en 0 g = g"
| "read_echo_loop en (Suc n) g = (case k_tx g of
       None \<Rightarrow> g
     | Some tx \<Rightarrow>
         if kt_failed tx then g
         else
           let (g, any) = uart_fill en 0 g in
           if \<not> any then g
           else
             let b = hd (k_uart_pending g);
                 g = g\<lparr>k_uart_pending := tl (k_uart_pending g), k_last_bus_us := k_uart_pending_us g\<rparr>
             in if b \<noteq> kt_data tx ! kt_echoed tx
                then upd_stats (\<lambda>s. s\<lparr>ks_tx_echo_bad := ks_tx_echo_bad s + 1\<rparr>) (g\<lparr>k_tx := Some (tx\<lparr>kt_failed := True\<rparr>)\<rparr>)
                else read_echo_loop en n
                  (upd_stats (\<lambda>s. s\<lparr>ks_tx_echo_ok := ks_tx_echo_ok s + 1\<rparr>) (g\<lparr>k_tx := Some (tx\<lparr>kt_echoed := kt_echoed tx + 1\<rparr>)\<rparr>)))"

definition tx_read_echo :: "'d kenv \<Rightarrow> nat \<Rightarrow> 'd kline \<Rightarrow> 'd kline" where
  "tx_read_echo en limit g = (case k_tx g of None \<Rightarrow> g | Some tx \<Rightarrow> read_echo_loop en (limit - kt_echoed tx) g)"

definition rx_fault :: "'d kenv \<Rightarrow> 'd kline \<Rightarrow> 'd kline" where
  "rx_fault en g =
     (let g = (case k_tx g of None \<Rightarrow> g
            | Some tx \<Rightarrow> if kt_echoed tx < length (kt_data tx) then g\<lparr>k_tx := Some (tx\<lparr>kt_failed := True\<rparr>)\<rparr> else g);
          (g, now) = kline_now en (g\<lparr>k_asm := [], k_rx_invalid := True\<rparr>)
      in g\<lparr>k_rx_invalid_last_us := now\<rparr>)"

definition uart_event :: "'d kenv \<Rightarrow> uart_event_type \<Rightarrow> nat \<Rightarrow> 'd kline \<Rightarrow> 'd kline" where
  "uart_event en ty n g =
     (if ty = UART_DATA then (case k_tx g of
          None \<Rightarrow> g
        | Some tx \<Rightarrow>
            let remaining = length (kt_data tx) - kt_announced tx;
                tx = tx\<lparr>kt_announced := kt_announced tx + (if n < remaining then n else remaining)\<rparr>
            in tx_read_echo en (if kt_announced tx < kt_sent tx then kt_announced tx else kt_sent tx) (g\<lparr>k_tx := Some tx\<rparr>))
      else if ty = UART_FIFO_OVF \<or> ty = UART_BUFFER_FULL then
        (let (ep, s) = bus_rx_next (k_rx_epoch g);
             g = upd_stats (\<lambda>st. st\<lparr>ks_rx_overrun := ks_rx_overrun st + 1\<rparr>) g;
             g = g\<lparr>k_rx_epoch := bus_rx_lost ep s, k_pending_status := k_pending_status g OR BUS_RX_BUFFER_OVERFLOW\<rparr>
         in rx_fault en (rx_discard en g))
      else if ty = UART_BREAK then
        (upd_stats (\<lambda>st. st\<lparr>ks_rx_break := ks_rx_break st + 1\<rparr>) g)\<lparr>k_pending_status := k_pending_status g OR BUS_RX_BREAK\<rparr>
      else if ty = UART_FRAME_ERR \<or> ty = UART_PARITY_ERR then
        rx_fault en (upd_stats (\<lambda>st. st\<lparr>ks_rx_frame_err := ks_rx_frame_err st + 1\<rparr>) g)
      else g)"

definition receive_event :: "'d kenv \<Rightarrow> nat \<Rightarrow> 'd kline \<Rightarrow> 'd kline \<times> bool" where
  "receive_event en wait g = (case on_kenv (kn_select en wait) g of
       (g, None) \<Rightarrow> (g, False)
     | (g, Some (UartQueue None)) \<Rightarrow> (g, True)
     | (g, Some (UartQueue (Some (ty, n)))) \<Rightarrow> (uart_event en ty n g, True)
     | (g, Some CommandQueue) \<Rightarrow> (case k_cmd_q g of
          None \<Rightarrow> (g, True)
        | Some c \<Rightarrow> (g\<lparr>k_cmd_q := None, k_cmd := c, k_command_pending := True\<rparr>, True)))"

partial_function (option) uart_events :: "'d kenv \<Rightarrow> 'd kline \<Rightarrow> 'd kline option" where
  "uart_events en g = (case receive_event en 0 g of (g, got) \<Rightarrow> if got then uart_events en g else Some g)"

definition uart_receive :: "'d kenv \<Rightarrow> nat \<Rightarrow> 'd kline \<Rightarrow> ('d kline \<times> bool) option" where
  "uart_receive en wait g = do {
     g \<leftarrow> uart_events en g;
     let g = fst (uart_fill en wait g);
     g \<leftarrow> uart_events en g;
     Some (g, k_uart_pending g \<noteq> [])
   }"

section \<open>Framing\<close>

definition asm_push :: "byte \<Rightarrow> int \<Rightarrow> 'd kline \<Rightarrow> 'd kline" where
  "asm_push b t g =
     (let g = (if k_asm g = [] then g\<lparr>k_asm_start_us := t\<rparr>
            else
              let gap = word_of_int (t - k_asm_last_us g)
              in if gap > ks_last_p1_max_us (k_stats g) then upd_stats (\<lambda>s. s\<lparr>ks_last_p1_max_us := gap\<rparr>) g else g);
          g = (if length (k_asm g) < KLINE_MAX_MSG then g\<lparr>k_asm := k_asm g @ [b]\<rparr>
            else (upd_stats (\<lambda>s. s\<lparr>ks_rx_too_long := ks_rx_too_long s + 1\<rparr>) g)\<lparr>k_asm := [b], k_asm_start_us := t\<rparr>)
      in g\<lparr>k_asm_last_us := t\<rparr>)"

text \<open>Whether the length or the \<open>CARB\<close> limit ends the message: the two jumps to \<open>validate\<close>.\<close>

definition asm_ended :: "kline_cfg \<Rightarrow> byte list \<Rightarrow> bool" where
  "asm_ended c buf \<longleftrightarrow> kc_frame_mode c \<noteq> BUS_KLINE_FRAME_ISO9141 \<and>
     (let want = kline_msg_len (Some buf) in
      want \<noteq> 0 \<and> length buf = want \<and>
        (kc_frame_mode c = BUS_KLINE_FRAME_ISO14230 \<or> kc_checksum_rx c \<and> kline_frame_ok (Some buf)) \<or>
      kc_frame_mode c = BUS_KLINE_FRAME_DISCOVERY \<and> kc_checksum_rx c \<and> kline_is_carb_fmt (buf ! 0) \<and>
        length buf = KLINE_CARB_MAX_MSG \<and> kline_frame_ok (Some buf))"

definition asm_minimum :: "kline_cfg \<Rightarrow> nat" where
  "asm_minimum c = (if kc_frame_mode c = BUS_KLINE_FRAME_ISO9141 then (if kc_checksum_rx c then 2 else 1) else KLINE_MIN_MSG)"

definition asm_checksum_ok :: "kline_cfg \<Rightarrow> byte list \<Rightarrow> bool" where
  "asm_checksum_ok c buf \<longleftrightarrow>
     (if kc_frame_mode c = BUS_KLINE_FRAME_ISO9141
      then 2 \<le> length buf \<and> kline_checksum (take (length buf - 1) buf) = buf ! (length buf - 1)
      else kline_frame_ok (Some buf))"

definition asm_complete :: "bool \<Rightarrow> 'd kline \<Rightarrow> 'd kline \<times> kline_frame option" where
  "asm_complete gap_elapsed g =
     (if k_asm g = [] then (g, None)
      else
        let buf = k_asm g; c = k_cfg g; ended = asm_ended c buf in
        if \<not> ended \<and> \<not> gap_elapsed then (g, None)
        else if \<not> ended \<and> length buf < asm_minimum c then
          ((upd_stats (\<lambda>s. s\<lparr>ks_rx_short := ks_rx_short s + 1\<rparr>) g)\<lparr>k_asm := []\<rparr>, None)
        else
          let bad = (kc_checksum_rx c \<or> kc_frame_mode c = BUS_KLINE_FRAME_DISCOVERY) \<and> \<not> asm_checksum_ok c buf;
              g = (if bad then upd_stats (\<lambda>s. s\<lparr>ks_rx_bad_checksum := ks_rx_bad_checksum s + 1\<rparr>) g else g)
          in if bad \<and> kc_checksum_rx c then (g\<lparr>k_asm := []\<rparr>, None)
             else (g\<lparr>k_asm := []\<rparr>,
               Some \<lparr>kf_data = buf, kf_status = (if bad then BUS_RX_BAD_CHECKSUM else 0), kf_start_us = k_asm_start_us g,
                 kf_end_us = k_asm_last_us g, kf_sequence = 0\<rparr>))"

text \<open>The body of the loop of \<open>rx_drain\<close>: one byte, and the message it completes.\<close>

definition rx_byte :: "'d kline \<Rightarrow> 'd kline \<times> kline_frame option" where
  "rx_byte g =
     (let b = hd (k_uart_pending g); t = k_uart_pending_us g;
          g = g\<lparr>k_uart_pending := tl (k_uart_pending g)\<rparr>;
          g = (upd_stats (\<lambda>s. s\<lparr>ks_rx_bytes := ks_rx_bytes s + 1\<rparr>) g)\<lparr>k_last_bus_us := t\<rparr>
      in if k_rx_invalid g then
           let gap = (t - k_rx_invalid_last_us g \<ge> P_TO_US (kc_p1_max (k_cfg g)));
               g = (if t > k_rx_invalid_last_us g then g\<lparr>k_rx_invalid_last_us := t\<rparr> else g)
           in if \<not> gap then (g, None)
              else asm_complete False (asm_push b t (g\<lparr>k_rx_invalid := False\<rparr>))
         else asm_complete False (asm_push b t g))"

partial_function (option) rx_drain_loop :: "'d kenv \<Rightarrow> 'd kline \<Rightarrow> ('d kline \<times> kline_frame option) option" where
  "rx_drain_loop en g = do {
     (g, any) \<leftarrow> uart_receive en 0 g;
     if \<not> any then Some (g, None)
     else case rx_byte g of
         (g, Some f) \<Rightarrow> Some (g, Some f)
       | (g, None) \<Rightarrow> rx_drain_loop en g
   }"

definition rx_drain :: "'d kenv \<Rightarrow> 'd kline \<Rightarrow> ('d kline \<times> kline_frame option) option" where
  "rx_drain en g = (if k_uart_tx_unresolved g then Some (rx_discard en g, None) else rx_drain_loop en g)"

text \<open>The results 1, 0 and -1 of \<open>rx_service\<close>.\<close>

datatype rx_outcome = RxFrame kline_frame | RxDeadline | RxCommand

text \<open>One round of its loop: an outcome, or the state to go on with.\<close>

definition ticks_until :: "int \<Rightarrow> int \<Rightarrow> nat" where
  "ticks_until now wake = (let t = nat ((wake - now + 999) div 1000) in if t = 0 then 1 else t)"

definition rx_round :: "'d kenv \<Rightarrow> int \<Rightarrow> bool \<Rightarrow> 'd kline \<Rightarrow> ('d kline \<times> rx_outcome option) option" where
  "rx_round en deadline allow_command g = do {
     (g, fo) \<leftarrow> rx_drain en g;
     case fo of Some f \<Rightarrow> Some (g, Some (RxFrame f))
     | None \<Rightarrow>
         if allow_command \<and> k_command_pending g then Some (g, Some RxCommand)
         else
           let (g, now) = kline_now en g;
               gap_at = (if k_asm g \<noteq> [] then k_asm_last_us g + P_TO_US (kc_p1_max (k_cfg g)) else 0);
               wake = (if k_asm g \<noteq> [] \<and> gap_at < deadline then gap_at else deadline)
           in if now \<ge> wake then
                let (g, fo) = (if gap_at \<noteq> 0 \<and> now \<ge> gap_at then asm_complete True g else (g, None)) in
                case fo of Some f \<Rightarrow> Some (g, Some (RxFrame f))
                | None \<Rightarrow> Some (g, if now \<ge> deadline then Some RxDeadline else None)
              else Some (fst (receive_event en (ticks_until now wake) g), None)
   }"

partial_function (option) rx_service :: "'d kenv \<Rightarrow> int \<Rightarrow> bool \<Rightarrow> 'd kline \<Rightarrow> ('d kline \<times> rx_outcome) option" where
  "rx_service en deadline allow_command g = do {
     (g, r) \<leftarrow> rx_round en deadline allow_command g;
     case r of Some r \<Rightarrow> Some (g, r) | None \<Rightarrow> rx_service en deadline allow_command g
   }"

partial_function (option) rx_raw_byte :: "'d kenv \<Rightarrow> int \<Rightarrow> 'd kline \<Rightarrow> ('d kline \<times> byte option) option" where
  "rx_raw_byte en deadline g = (case kline_now en g of (g, now) \<Rightarrow>
     if deadline - now \<le> 0 then Some (g, None)
     else do {
       (g, any) \<leftarrow> uart_receive en (ticks_until now deadline) g;
       if any then Some (g\<lparr>k_uart_pending := tl (k_uart_pending g), k_last_bus_us := k_uart_pending_us g\<rparr>, Some (hd (k_uart_pending g)))
       else rx_raw_byte en deadline g
     })"

definition kline_wait_frame :: "'d kenv \<Rightarrow> int \<Rightarrow> 'd kline \<Rightarrow> ('d kline \<times> kline_frame option) option" where
  "kline_wait_frame en deadline g = do {
     (g, r) \<leftarrow> rx_service en deadline False g;
     Some (g, case r of RxFrame f \<Rightarrow> Some f | _ \<Rightarrow> None)
   }"

section \<open>Delivery\<close>

text \<open>What is put in the queue, or counted as lost and whether the next message says so.\<close>

definition queue_frame :: "bool \<Rightarrow> kline_frame \<Rightarrow> 'd kline \<Rightarrow> 'd kline \<times> bool" where
  "queue_frame announce f g =
     (let (ep, s) = bus_rx_next (k_rx_epoch g); f = f\<lparr>kf_sequence := s\<rparr>
      in if length (k_rx_q g) < KLINE_RX_QUEUE then (g\<lparr>k_rx_epoch := ep, k_rx_q := k_rx_q g @ [f]\<rparr>, True)
         else
           let g = upd_stats (\<lambda>st. st\<lparr>ks_rx_dropped := ks_rx_dropped st + 1\<rparr>) (g\<lparr>k_rx_epoch := bus_rx_lost ep s\<rparr>)
           in (if announce then g\<lparr>k_pending_status := k_pending_status g OR BUS_RX_BUFFER_OVERFLOW\<rparr> else g, False))"

definition publish :: "'d kenv \<Rightarrow> kline_frame \<Rightarrow> 'd kline \<Rightarrow> 'd kline" where
  "publish en f g =
     (let g = (if k_p2_pending g
            then (upd_stats (\<lambda>s. s\<lparr>ks_last_p2_us := word_of_int (kf_start_us f - k_tx_end_us g)\<rparr>) g)\<lparr>k_p2_pending := False\<rparr>
            else g);
          f = f\<lparr>kf_status := kf_status f OR k_pending_status g\<rparr>;
          (g, now) = kline_now en (g\<lparr>k_tx_answered := True, k_pending_status := 0\<rparr>);
          late = (now < k_suppress_until_us g);
          g = (if late then upd_stats (\<lambda>s. s\<lparr>ks_rx_suppressed := ks_rx_suppressed s + 1\<rparr>) g else g)
      in if late \<and> kc_periodic_quiet (k_cfg g) then g
         else
           let f = (if late then f\<lparr>kf_status := kf_status f OR BUS_RX_PERIODIC_REPLY\<rparr> else f);
               (g, queued) = queue_frame True f g
           in if queued then upd_stats (\<lambda>s. s\<lparr>ks_rx_msgs := ks_rx_msgs s + 1\<rparr>) g else g)"

definition publish_loopback :: "byte list \<Rightarrow> 'd kline \<Rightarrow> 'd kline" where
  "publish_loopback buf g =
     (if \<not> kc_loopback (k_cfg g) \<or> KLINE_MAX_MSG < length buf then g
      else fst (queue_frame False
             \<lparr>kf_data = buf, kf_status = BUS_RX_TX_MSG_TYPE, kf_start_us = k_tx_end_us g, kf_end_us = k_tx_end_us g, kf_sequence = 0\<rparr> g))"

text \<open>The result and the message; the queue is the one at the end of the wait, \<open>cap\<close> is the room in the message.\<close>

definition kline_rx :: "'d kenv \<Rightarrow> nat \<Rightarrow> bus_msg option \<Rightarrow> 'd kline \<Rightarrow> 'd kline \<times> bus_msg option \<times> int" where
  "kline_rx en cap mo g =
     (case mo of None \<Rightarrow> (g, None, BUS_ERR_BAD_ARG)
      | Some m \<Rightarrow>
          if \<not> k_started g then (g, Some m, BUS_ERR_NOT_READY)
          else case k_rx_q g of
            [] \<Rightarrow>
              let (ep, m, lost) = bus_rx_take_loss (k_rx_epoch g) m; g = g\<lparr>k_rx_epoch := ep\<rparr> in
              if lost then (let (g, now) = kline_now en g in (g, Some (m\<lparr>bm_timestamp_us := word_of_int now\<rparr>), 0))
              else (g, Some m, BUS_ERR_TIMEOUT)
          | f # q \<Rightarrow>
              let g = g\<lparr>k_rx_q := q\<rparr> in
              if cap < length (kf_data f) then (g, Some m, BUS_ERR_NO_SPACE)
              else (g, Some (m\<lparr>bm_data := kf_data f, bm_len := length (kf_data f), bm_status := kf_status f,
                     bm_timestamp_us := word_of_int (kf_end_us f), bm_sequence := kf_sequence f\<rparr>), int (length (kf_data f))))"

end
