(* ===== verification/KlineTx.thy ===== *)
theory KlineTx
  imports KlineRx
begin

text \<open>
  What the K-Line driver sends (\<open>main/kline.c\<close>): the quiet time before a request, the bytes with their
  echoes, the retransmissions and the periodic message. Every function returns \<open>None\<close> when the line
  never lets it end. \<open>client_step\<close> is the client's chance to cancel its transmission, at each place
  where the worker looks at its control block. That a transmission which reports success was echoed
  whole is proved in \<open>KlineWire\<close>.
\<close>

section \<open>The quiet time\<close>

definition active_control :: "'d kline \<Rightarrow> bus_tx_control option" where
  "active_control g = (if k_active g then k_control g else None)"

definition client_step :: "'d kenv \<Rightarrow> 'd kline \<Rightarrow> 'd kline" where
  "client_step en g =
     (let (g, c) = on_kenv (kn_cancel en) g
      in if c then g\<lparr>k_control := map_option (fst \<circ> bus_tx_cancel) (k_control g)\<rparr> else g)"

text \<open>The end of the quiet time owed, not before the gap that ends a message already begun.\<close>

definition quiet_until :: "bool \<Rightarrow> 'd kline \<Rightarrow> int" where
  "quiet_until p3_only g =
     (let owed = (if k_tx_answered g \<or> p3_only then P_TO_US (kc_p3_min (k_cfg g)) else P_TO_US (kc_p2_max (k_cfg g)));
          deadline = k_last_bus_us g + owed
      in if k_asm g \<noteq> [] then max deadline (k_asm_last_us g + P_TO_US (kc_p1_max (k_cfg g))) else deadline)"

definition reply_pending :: "'d kline \<Rightarrow> bool" where
  "reply_pending g =
     (case active_control g of None \<Rightarrow> False
      | Some c \<Rightarrow> ct_check_rx c \<and> bus_rx_sequence (k_rx_epoch g) \<noteq> ct_rx_sequence c)"

text \<open>One round: the result, or the state to go on with.\<close>

definition quiet_round :: "'d kenv \<Rightarrow> bool \<Rightarrow> 'd kline \<Rightarrow> ('d kline \<times> int option) option" where
  "quiet_round en p3_only g =
     (let g = client_step en g in
      if bus_tx_cancelled (active_control g) then Some (g, Some BUS_ERR_CANCELLED)
      else do {
        (g, fo) \<leftarrow> rx_drain en g;
        case fo of Some f \<Rightarrow> Some (publish en f g, None)
        | None \<Rightarrow>
            if reply_pending g then Some (g, Some BUS_ERR_RX_PENDING)
            else
              let deadline = quiet_until p3_only g; (g, now) = kline_now en g in
              if now \<ge> deadline \<and> k_asm g = [] then Some (g, Some 0)
              else do {
                let deadline = (if active_control g \<noteq> None \<and> deadline > now + 5000 then now + 5000 else deadline);
                (g, r) \<leftarrow> rx_service en deadline False g;
                Some (case r of RxFrame f \<Rightarrow> publish en f g | _ \<Rightarrow> g, None)
              }
      })"

partial_function (option) wait_before_tx :: "'d kenv \<Rightarrow> bool \<Rightarrow> 'd kline \<Rightarrow> ('d kline \<times> int) option" where
  "wait_before_tx en p3_only g = do {
     (g, r) \<leftarrow> quiet_round en p3_only g;
     case r of Some rc \<Rightarrow> Some (g, rc) | None \<Rightarrow> wait_before_tx en p3_only g
   }"

section \<open>The echo\<close>

definition echo_result :: "'d kline \<Rightarrow> int" where
  "echo_result g = (case k_tx g of None \<Rightarrow> 0 | Some tx \<Rightarrow> if kt_failed tx then BUS_ERR_ECHO else 0)"

definition echo_missing :: "'d kline \<Rightarrow> nat" where
  "echo_missing g = (case k_tx g of None \<Rightarrow> 0 | Some tx \<Rightarrow> kt_sent tx - kt_echoed tx)"

definition tx_collect_echo :: "'d kenv \<Rightarrow> nat \<Rightarrow> 'd kline \<Rightarrow> ('d kline \<times> int) option" where
  "tx_collect_echo en wait g = do {
     g \<leftarrow> uart_events en g;
     g \<leftarrow> (case k_tx g of None \<Rightarrow> Some g
       | Some tx \<Rightarrow>
           if \<not> kt_failed tx \<and> kt_echoed tx < kt_sent tx then do {
             let g = fst (uart_fill en wait g);
             g \<leftarrow> uart_events en g;
             Some (case k_tx g of None \<Rightarrow> g | Some tx \<Rightarrow> tx_read_echo en (kt_sent tx) g)
           } else Some g);
     Some (g, echo_result g)
   }"

partial_function (option) tx_finish_loop :: "'d kenv \<Rightarrow> int \<Rightarrow> 'd kline \<Rightarrow> ('d kline \<times> int) option" where
  "tx_finish_loop en deadline g = do {
     (g, rc) \<leftarrow> tx_collect_echo en 0 g;
     if rc \<noteq> 0 \<or> echo_missing g = 0 then Some (g, rc)
     else case kline_now en g of (g, now) \<Rightarrow>
       if deadline - now \<le> 0 then
         Some (upd_stats (\<lambda>s. s\<lparr>ks_tx_echo_missing := ks_tx_echo_missing s + of_nat (echo_missing g)\<rparr>) g, BUS_ERR_ECHO)
       else do {
         (g, rc) \<leftarrow> tx_collect_echo en (ticks_until now deadline) g;
         if rc \<noteq> 0 then Some (g, rc) else tx_finish_loop en deadline g
       }
   }"

definition tx_finish_echo :: "'d kenv \<Rightarrow> 'd kline \<Rightarrow> ('d kline \<times> int) option" where
  "tx_finish_echo en g = tx_finish_loop en (k_tx_end_us g + W_TO_US KLINE_UART_TIMEOUT_MS) g"

section \<open>One message\<close>

definition byte_sent :: "int \<Rightarrow> 'd kline \<Rightarrow> 'd kline" where
  "byte_sent now g =
     upd_stats (\<lambda>s. s\<lparr>ks_tx_bytes := ks_tx_bytes s + 1\<rparr>)
       (g\<lparr>k_tx_end_us := now, k_last_bus_us := now, k_tx := map_option (\<lambda>tx. tx\<lparr>kt_sent := kt_sent tx + 1\<rparr>) (k_tx g)\<rparr>)"

text \<open>The loop over the bytes; \<open>True\<close> is the return from inside it, with the transmitter stuck.\<close>

fun tx_bytes :: "'d kenv \<Rightarrow> byte list \<Rightarrow> 'd kline \<Rightarrow> ('d kline \<times> bool \<times> int) option" where
  "tx_bytes en [] g = Some (g, False, 0)"
| "tx_bytes en (b # bs) g = do {
     (g, rc) \<leftarrow> tx_collect_echo en 0 g;
     if rc \<noteq> 0 then Some (g, False, rc)
     else case on_kenv (kn_write en b) g of (g, ok) \<Rightarrow>
       if \<not> ok then Some (g, False, BUS_ERR_TX_FAILED)
       else case on_kenv (kn_tx_done en KLINE_UART_TIMEOUT_MS) g of (g, sent) \<Rightarrow>
         if \<not> sent then Some (g\<lparr>k_uart_tx_unresolved := True, k_tx := None\<rparr>, True, BUS_ERR_TX_FAILED)
         else
           let (g, now) = kline_now en g;
               g = byte_sent now g;
               g = (if bs \<noteq> [] then delay_until_us en (k_tx_end_us g + P_TO_US (kc_p4_min (k_cfg g))) g else g)
           in tx_bytes en bs g
   }"

definition tx_start :: "byte list \<Rightarrow> 'd kline \<Rightarrow> 'd kline" where
  "tx_start buf g =
     g\<lparr>k_pending_status := 0,
       k_tx := Some \<lparr>kt_data = buf, kt_sent = 0, kt_echoed = 0, kt_announced = 0, kt_failed = False\<rparr>\<rparr>"

text \<open>From the first byte on.\<close>

definition tx_drive :: "'d kenv \<Rightarrow> byte list \<Rightarrow> 'd kline \<Rightarrow> ('d kline \<times> int) option" where
  "tx_drive en buf g = do {
     (g, stuck, rc) \<leftarrow> tx_bytes en buf (tx_start buf g);
     if stuck then Some (g, rc)
     else do {
       let g = (if k_active g then g\<lparr>k_control := map_option (\<lambda>c. bus_tx_end c (word_of_int (k_tx_end_us g))) (k_control g)\<rparr> else g);
       (g, rc) \<leftarrow> (if rc = 0 then tx_finish_echo en g else Some (g, rc));
       let g = g\<lparr>k_tx := None\<rparr>;
       let g = (if rc \<noteq> 0 then rx_discard en g else g);
       Some (g\<lparr>k_p2_pending := (rc = 0), k_tx_answered := False\<rparr>, rc)
     }
   }"

definition tx_once :: "'d kenv \<Rightarrow> byte list \<Rightarrow> bool \<Rightarrow> u32w \<Rightarrow> 'd kline \<Rightarrow> ('d kline \<times> int) option" where
  "tx_once en buf wait flags g =
     (if k_uart_tx_unresolved g then Some (g, BUS_ERR_NOT_READY)
      else do {
        (g, rc) \<leftarrow> (if wait then wait_before_tx en (flags AND BUS_TX_WAIT_P3_MIN_ONLY \<noteq> 0) g else Some (g, 0));
        if rc \<noteq> 0 then Some (g, rc)
        else do {
          let (g, now) = kline_now en (client_step en g);
          let (c, rc) = bus_tx_admit (active_control g) (bus_rx_sequence (k_rx_epoch g)) (word_of_int now);
          let g = (if k_active g then g\<lparr>k_control := c\<rparr> else g);
          if rc \<noteq> 0 then Some (g, rc)
          else do {
            let g = (if flags AND BUS_TX_CLEAR_RX_QUEUE \<noteq> 0 then g\<lparr>k_rx_q := []\<rparr> else g);
            g \<leftarrow> uart_events en g;
            tx_drive en buf (rx_discard en g)
          }
        }
      })"

fun tx_retry :: "'d kenv \<Rightarrow> byte list \<Rightarrow> u32w \<Rightarrow> nat \<Rightarrow> 'd kline \<times> int \<Rightarrow> ('d kline \<times> int) option" where
  "tx_retry en buf flags 0 (g, rc) = Some (g, rc)"
| "tx_retry en buf flags (Suc n) (g, rc) =
     (if rc \<noteq> BUS_ERR_ECHO then Some (g, rc)
      else do {
        let g = upd_stats (\<lambda>s. s\<lparr>ks_tx_retries := ks_tx_retries s + 1\<rparr>) g;
        let g = delay_until_us en (k_last_bus_us g + P_TO_US (kc_p2_max (k_cfg g))) g;
        r \<leftarrow> tx_once en buf True flags g;
        tx_retry en buf flags n r
      })"

definition tx_message :: "'d kenv \<Rightarrow> byte list \<Rightarrow> bool \<Rightarrow> u32w \<Rightarrow> 'd kline \<Rightarrow> ('d kline \<times> int) option" where
  "tx_message en buf wait flags g = do {
     r \<leftarrow> tx_once en buf wait flags g;
     (g, rc) \<leftarrow> tx_retry en buf flags (kc_tx_retries (k_cfg g)) r;
     let g = (if rc = 0 \<or> rc = BUS_ERR_ECHO then upd_stats (\<lambda>s. s\<lparr>ks_tx_msgs := ks_tx_msgs s + 1\<rparr>) g else g);
     Some (if rc = 0 then publish_loopback buf g else g, rc)
   }"

definition frame_for_tx :: "kline_cfg \<Rightarrow> byte list \<Rightarrow> u32w \<Rightarrow> byte list option" where
  "frame_for_tx c data flags =
     (let add = (kc_checksum_tx c \<and> flags AND BUS_TX_NO_CHECKSUM = 0)
      in if data = [] \<or> KLINE_MAX_MSG < length data + (if add then 1 else 0) then None
         else Some (if add then data @ [kline_checksum data] else data))"

section \<open>Periodic messages\<close>

definition periodic_due :: "int \<Rightarrow> 'd kline \<Rightarrow> bool" where
  "periodic_due now g \<longleftrightarrow> \<not> command_blocked g \<and> kc_periodic_ms (k_cfg g) \<noteq> 0 \<and> kc_periodic (k_cfg g) \<noteq> [] \<and>
     now - k_last_bus_us g \<ge> int (kc_periodic_ms (k_cfg g)) * 1000"

definition send_periodic :: "'d kenv \<Rightarrow> 'd kline \<Rightarrow> 'd kline option" where
  "send_periodic en g = (case frame_for_tx (k_cfg g) (kc_periodic (k_cfg g)) 0 of
       None \<Rightarrow> Some g
     | Some buf \<Rightarrow> do {
         (g, rc) \<leftarrow> tx_message en buf True 0 g;
         let g = upd_stats (\<lambda>s. s\<lparr>ks_periodic_sent := ks_periodic_sent s + 1\<rparr>) g;
         let (g, now) = kline_now en g;
         Some (g\<lparr>k_suppress_until_us := now + P_TO_US (kc_p2_max (k_cfg g)) + W_TO_US KLINE_PERIODIC_QUIET_MS\<rparr>)
       })"

end
