(* ===== verification/KlineInit.thy ===== *)
theory KlineInit
  imports KlineTx
begin

text \<open>
  The initialisation of a K-Line session (\<open>main/kline.c\<close>): the five baud address word with the rate of
  the sync byte and the key bytes, the wake up pattern with \<open>StartCommunication\<close>, what a session adopts,
  and its end. The interrupt that records the edges of the sync byte is the environment's
  (\<open>kn_edges\<close>). When a session exists is proved in \<open>KlineSafe\<close>.
\<close>

section \<open>Pins\<close>

definition init_set_level :: "'d kenv \<Rightarrow> bool \<Rightarrow> 'd kline \<Rightarrow> 'd kline" where
  "init_set_level en high g =
     (let g = do_kenv (kn_set_level en PIN_KLINE_TX high) g
      in if kc_k_line_only (k_cfg g) then g else do_kenv (kn_set_level en PIN_LS_OBD_15 (\<not> high)) g)"

definition send_level :: "'d kenv \<Rightarrow> bool \<Rightarrow> 'd kline \<Rightarrow> 'd kline" where
  "send_level en high g = do_kenv (kn_task_delay en KLINE_5BAUD_BIT_MS) (init_set_level en high g)"

definition send_5baud_address :: "'d kenv \<Rightarrow> byte \<Rightarrow> 'd kline \<Rightarrow> 'd kline" where
  "send_5baud_address en addr g =
     (let g = do_kenv (kn_pin_to_gpio en) g;
          g = send_level en False g;
          g = fold (\<lambda>i. send_level en (drop_bit i addr AND 1 \<noteq> 0)) [0..<8] g;
          g = send_level en True g
      in do_kenv (kn_pin_to_uart en) g)"

definition init_idle_us :: "kline_cfg \<Rightarrow> int" where
  "init_idle_us c = W_TO_US (if kc_w0_min c > kc_w5_min c then kc_w0_min c else kc_w5_min c)"

section \<open>The rate of the sync byte\<close>

definition sync_time64 :: "u32w \<Rightarrow> int \<Rightarrow> int" where
  "sync_time64 stamp near_us = near_us + sint (stamp - word_of_int near_us)"

text \<open>The windows of ten edges from \<open>next\<close> on: the rate and the start of the first that is one, or where to go on.\<close>

function sync_scan :: "int \<Rightarrow> int \<Rightarrow> u32w list \<Rightarrow> nat \<Rightarrow> nat + (nat \<times> int)" where
  "sync_scan addr_end start_deadline captured n =
     (if n + KLINE_SYNC_EDGE_COUNT \<le> length captured then
        let edges = take KLINE_SYNC_EDGE_COUNT (drop n captured);
            start = sync_time64 (edges ! 0) addr_end;
            baud = (if even n \<and> start \<le> start_deadline then kline_sync_baud_from_edges (Some edges) else 0)
        in if baud \<noteq> 0 then Inr (baud, start) else sync_scan addr_end start_deadline captured (n + 1)
      else Inl n)"
  by pat_completeness auto
termination
  by (relation "measure (\<lambda>(_, _, captured, n). length captured - n)") (auto simp: KLINE_SYNC_EDGE_COUNT_def)

declare sync_scan.simps [simp del]

partial_function (option) sync_loop ::
  "'d kenv \<Rightarrow> int \<Rightarrow> int \<Rightarrow> int \<Rightarrow> nat \<Rightarrow> 'd kline \<Rightarrow> ('d kline \<times> (nat \<times> int) option) option" where
  "sync_loop en addr_end start_deadline capture_deadline n g = (case on_kenv (kn_edges en) g of (g, edges) \<Rightarrow>
     case sync_scan addr_end start_deadline (take KLINE_SYNC_CAPTURE_MAX edges) n of
       Inr r \<Rightarrow> Some (do_kenv (kn_capture_stop en) g, Some r)
     | Inl n \<Rightarrow>
         if KLINE_SYNC_CAPTURE_MAX \<le> length edges then Some (do_kenv (kn_capture_stop en) g, None)
         else case kline_now en g of (g, now) \<Rightarrow>
           if now \<ge> capture_deadline then Some (do_kenv (kn_capture_stop en) g, None)
           else case kline_now en g of (g, now) \<Rightarrow>
             sync_loop en addr_end start_deadline capture_deadline n
               (do_kenv (kn_notify_take en (ticks_until 0 (max (capture_deadline - now) 1))) g))"

definition detect_sync_baud :: "'d kenv \<Rightarrow> int \<Rightarrow> nat \<Rightarrow> 'd kline \<Rightarrow> ('d kline \<times> (nat \<times> int) option) option" where
  "detect_sync_baud en addr_end slack_ms g =
     (let start_deadline = addr_end + W_TO_US (kc_w1_max (k_cfg g) + slack_ms);
          capture_deadline = start_deadline + int ((10000000 + KLINE_BAUD_MIN - 1) div KLINE_BAUD_MIN);
          (g, err) = on_kenv (kn_capture_start en) g
      in if err \<noteq> ESP_OK then Some (g, None)
         else sync_loop en addr_end start_deadline capture_deadline 0 g)"

section \<open>The five baud initialisation\<close>

definition kline_variant_num :: "kline_variant_t \<Rightarrow> byte" where
  "kline_variant_num v = (case v of KLINE_VARIANT_UNKNOWN \<Rightarrow> 0 | KLINE_VARIANT_ISO9141 \<Rightarrow> 1 | KLINE_VARIANT_KWP \<Rightarrow> 2)"

definition kline_variant_of :: "byte \<Rightarrow> kline_variant_t" where
  "kline_variant_of b = (if b = 1 then KLINE_VARIANT_ISO9141 else if b = 2 then KLINE_VARIANT_KWP else KLINE_VARIANT_UNKNOWN)"

text \<open>Up to the sync byte: the rate adopted, its end and the time of a character; or the error.\<close>

definition five_baud_sync :: "'d kenv \<Rightarrow> byte \<Rightarrow> 'd kline \<Rightarrow> ('d kline \<times> (int \<times> nat) option) option" where
  "five_baud_sync en addr g =
     (let g = g\<lparr>k_active_baud := kc_baud (k_cfg g)\<rparr>; (g, err) = apply_line_cfg en g in
      if err \<noteq> ESP_OK then Some (g, None)
      else do {
        let g = rx_discard en (delay_until_us en (k_last_bus_us g + init_idle_us (k_cfg g)) g);
        let (g, addr_end) = kline_now en (send_5baud_address en addr g);
        (g, sync) \<leftarrow> detect_sync_baud en addr_end KLINE_WINDOW_SLACK_MS (rx_discard en g);
        case sync of
          None \<Rightarrow> Some (upd_stats (\<lambda>s. s\<lparr>ks_init_no_sync := ks_init_no_sync s + 1\<rparr>) g, None)
        | Some (baud, sync_start) \<Rightarrow> do {
            let configured = k_active_baud g;
            let bt = byte_time_at_baud g baud;
            let sync_at = sync_start + int bt;
            let (g, err) = apply_line_cfg en ((delay_until_us en sync_at g)\<lparr>k_active_baud := baud\<rparr>);
            if err \<noteq> ESP_OK then
              Some (upd_stats (\<lambda>s. s\<lparr>ks_init_no_sync := ks_init_no_sync s + 1\<rparr>)
                (fst (apply_line_cfg en (g\<lparr>k_active_baud := configured\<rparr>))), None)
            else
              Some (upd_stats (\<lambda>s. s\<lparr>ks_last_w1_us := span_us addr_end sync_at bt\<rparr>) (rx_discard en g), Some (sync_at, bt))
          }
      })"

definition no_keys :: "'d kline \<Rightarrow> 'd kline" where
  "no_keys g = upd_stats (\<lambda>s. s\<lparr>ks_init_no_keys := ks_init_no_keys s + 1\<rparr>) g"

definition bad_keys :: "'d kline \<Rightarrow> 'd kline" where
  "bad_keys g = upd_stats (\<lambda>s. s\<lparr>ks_init_bad_keys := ks_init_bad_keys s + 1\<rparr>) g"

text \<open>The two key bytes and when the second arrived.\<close>

definition five_baud_keys :: "'d kenv \<Rightarrow> int \<Rightarrow> nat \<Rightarrow> 'd kline \<Rightarrow> ('d kline \<times> (byte \<times> byte \<times> int) option) option" where
  "five_baud_keys en sync_at bt g = do {
     (g, b1) \<leftarrow> rx_raw_byte en (sync_at + W_TO_US (kc_w2_max (k_cfg g) + KLINE_WINDOW_SLACK_MS)) g;
     case b1 of None \<Rightarrow> Some (no_keys g, None)
     | Some b1 \<Rightarrow> do {
         let (g, kb1_at) = kline_now en g;
         let g = upd_stats (\<lambda>s. s\<lparr>ks_last_w2_us := span_us sync_at kb1_at bt\<rparr>) g;
         (g, b2) \<leftarrow> rx_raw_byte en (kb1_at + W_TO_US (kc_w3_max (k_cfg g) + KLINE_WINDOW_SLACK_MS)) g;
         case b2 of None \<Rightarrow> Some (no_keys g, None)
         | Some b2 \<Rightarrow>
             let (g, kb2_at) = kline_now en g
             in Some (upd_stats (\<lambda>s. s\<lparr>ks_last_w3_us := span_us kb1_at kb2_at bt\<rparr>) g, Some (b1, b2, kb2_at))
       }
   }"

definition five_baud_address :: "'d kenv \<Rightarrow> byte \<Rightarrow> int \<Rightarrow> nat \<Rightarrow> 'd kline \<Rightarrow> 'd kline option" where
  "five_baud_address en addr kb2_at bt g =
     (if kc_five_baud_mod (k_cfg g) = BUS_FIVE_BAUD_STD_INIT \<or> kc_five_baud_mod (k_cfg g) = BUS_FIVE_BAUD_INV_ADDR then do {
        let from_us = (if kc_five_baud_mod (k_cfg g) = BUS_FIVE_BAUD_STD_INIT then k_tx_end_us g else kb2_at);
        (g, b) \<leftarrow> rx_raw_byte en (from_us + W_TO_US (kc_w4_max (k_cfg g) + KLINE_WINDOW_SLACK_MS)) g;
        let no_addr = upd_stats (\<lambda>s. s\<lparr>ks_init_no_addr := ks_init_no_addr s + 1\<rparr>);
        case b of None \<Rightarrow> Some (no_addr g)
        | Some b \<Rightarrow>
            let (g, now) = kline_now en g; g = upd_stats (\<lambda>s. s\<lparr>ks_last_w4_us := span_us from_us now bt\<rparr>) g
            in Some (if NOT b \<noteq> addr then no_addr g else g)
      } else Some g)"

definition init_5baud :: "'d kenv \<Rightarrow> bus_init \<Rightarrow> 'd kline \<Rightarrow> ('d kline \<times> int) option" where
  "init_5baud en i g = do {
     (g, sync) \<leftarrow> five_baud_sync en (bi_address i) g;
     case sync of None \<Rightarrow> Some (g, BUS_ERR_INIT)
     | Some (sync_at, bt) \<Rightarrow> do {
         (g, ks) \<leftarrow> five_baud_keys en sync_at bt g;
         case ks of None \<Rightarrow> Some (g, BUS_ERR_INIT)
         | Some (b1, b2, kb2_at) \<Rightarrow> do {
             let (known, keys) = kline_decode_keybytes b1 b2;
             let g = (if known then g else bad_keys g);
             (g, rc) \<leftarrow> (if kc_five_baud_mod (k_cfg g) = BUS_FIVE_BAUD_STD_INIT \<or> kc_five_baud_mod (k_cfg g) = BUS_FIVE_BAUD_INV_KB2
                then tx_once en [NOT b2] False 0 (delay_until_us en (kb2_at + W_TO_US (kc_w4_min (k_cfg g))) g)
                else Some (g, 0));
             if rc \<noteq> 0 then Some (g, rc)
             else do {
               g \<leftarrow> five_baud_address en (bi_address i) kb2_at bt g;
               Some (upd_link (\<lambda>l. l\<lparr>bl_variant := kline_variant_num (variant keys), bl_key := [b1, b2],
                 bl_key_code := unat (kb_code keys), bl_address := bi_address i,
                 bl_w1_us := ks_last_w1_us (k_stats g), bl_w2_us := ks_last_w2_us (k_stats g),
                 bl_w3_us := ks_last_w3_us (k_stats g), bl_w4_us := ks_last_w4_us (k_stats g)\<rparr>) (g\<lparr>k_keys := keys\<rparr>), 0)
             }
           }
       }
   }"

section \<open>The fast initialisation\<close>

definition wake_up :: "'d kenv \<Rightarrow> 'd kline \<Rightarrow> 'd kline" where
  "wake_up en g =
     (let (g, t0) = kline_now en (do_kenv (kn_pin_to_gpio en) g);
          g = delay_until_us en (t0 + W_TO_US (kc_tinil (k_cfg g))) (init_set_level en False g);
          g = delay_until_us en (t0 + W_TO_US (kc_twup (k_cfg g))) (init_set_level en True g)
      in (rx_discard en (do_kenv (kn_pin_to_uart en) g))\<lparr>k_pending_status := 0\<rparr>)"

text \<open>A reply that has begun is read to its end.\<close>

partial_function (option) reply_loop :: "'d kenv \<Rightarrow> 'd kline \<times> kline_frame option \<Rightarrow> ('d kline \<times> kline_frame option) option" where
  "reply_loop en r = (case r of
       (g, Some f) \<Rightarrow> Some (g, Some f)
     | (g, None) \<Rightarrow> if k_asm g = [] then Some (g, None)
         else do { r \<leftarrow> kline_wait_frame en (k_asm_last_us g + P_TO_US (kc_p1_max (k_cfg g))) g; reply_loop en r })"

text \<open>What the answer to \<open>StartCommunication\<close> establishes.\<close>

definition fast_keys :: "bus_init \<Rightarrow> byte list \<Rightarrow> 'd kline \<Rightarrow> 'd kline \<times> int" where
  "fast_keys io buf g =
     (let hdr = kline_header_len (buf ! 0);
          hdr = (if buf ! 0 AND 0x3F = 0 \<and> length buf > hdr then hdr + 1 else hdr)
      in if length buf < hdr + 4 \<or> buf ! hdr \<noteq> KLINE_SVC_START_COMM_RESP then (bad_keys g, BUS_ERR_INIT)
         else
           let (known, keys) = kline_decode_keybytes (buf ! (hdr + 1)) (buf ! (hdr + 2));
               g = (if known then g else bad_keys g)
           in (upd_link (\<lambda>l. l\<lparr>bl_variant := kline_variant_num KLINE_VARIANT_KWP, bl_key := [kb1 keys, kb2 keys],
                 bl_key_code := unat (kb_code keys), bl_address := bi_address io\<rparr>) (g\<lparr>k_keys := keys\<rparr>), 0))"

definition fast_request :: "'d kenv \<Rightarrow> bus_init \<Rightarrow> 'd kline \<Rightarrow> ('d kline \<times> int) option" where
  "fast_request en io g =
     (case frame_for_tx (k_cfg g) (take (bi_msg_len io) (bi_msg io)) (bi_tx_flags io) of
        None \<Rightarrow> Some (g, 0)
      | Some buf \<Rightarrow> do {
          (g, rc) \<leftarrow> (if bi_raw_response io then tx_once en buf False (bi_tx_flags io) g
             else tx_message en buf False (bi_tx_flags io) g);
          Some (if rc = 0 \<and> bi_raw_response io then upd_stats (\<lambda>s. s\<lparr>ks_tx_msgs := ks_tx_msgs s + 1\<rparr>) g else g, rc)
        })"

definition fast_reply :: "'d kenv \<Rightarrow> bus_init \<Rightarrow> 'd kline \<Rightarrow> ('d kline \<times> bus_init \<times> int) option" where
  "fast_reply en io g = do {
     let (g, from_us) = (if bi_msg_len io \<noteq> 0 then (g, k_tx_end_us g) else kline_now en g);
     let deadline = from_us + (if bi_raw_response io then P_TO_US (kc_p2_max (k_cfg g)) else W_TO_US KLINE_FAST_RESP_MS);
     r \<leftarrow> kline_wait_frame en deadline g;
     (g, fo) \<leftarrow> reply_loop en r;
     case fo of None \<Rightarrow> Some (no_keys g, io, BUS_ERR_INIT)
     | Some f \<Rightarrow>
         if BUS_INIT_MSG_MAX < length (kf_data f) then Some (g, io, BUS_ERR_NO_SPACE)
         else
           let io = io\<lparr>bi_reply := kf_data f, bi_reply_len := length (kf_data f), bi_reply_timestamp_us := word_of_int (kf_end_us f)\<rparr>
           in if bi_raw_response io then Some (g, io, 0)
              else (case fast_keys io (kf_data f) g of (g, rc) \<Rightarrow> Some (g, io, rc))
   }"

definition init_fast :: "'d kenv \<Rightarrow> bus_init \<Rightarrow> 'd kline \<Rightarrow> ('d kline \<times> bus_init \<times> int) option" where
  "init_fast en io g =
     (if BUS_INIT_MSG_MAX < bi_msg_len io \<or>
         bi_msg_len io \<noteq> 0 \<and> frame_for_tx (k_cfg g) (take (bi_msg_len io) (bi_msg io)) (bi_tx_flags io) = None
      then Some (g, io, BUS_ERR_BAD_ARG)
      else
        let g = g\<lparr>k_active_baud := kc_baud (k_cfg g)\<rparr>; (g, err) = apply_line_cfg en g in
        if err \<noteq> ESP_OK then Some (g, io, BUS_ERR_INIT)
        else do {
          let g = rx_discard en (delay_until_us en (k_last_bus_us g + W_TO_US (kc_tidle (k_cfg g))) g);
          let io = io\<lparr>bi_reply_len := 0\<rparr>;
          (g, rc) \<leftarrow> (if bi_msg_len io \<noteq> 0 then fast_request en io (wake_up en g) else Some (wake_up en g, 0));
          if rc \<noteq> 0 then Some (g, io, rc)
          else
            let g = upd_link (\<lambda>l. l\<lparr>bl_address := bi_address io\<rparr>) g in
            if bi_no_response io \<or> \<not> bi_raw_response io \<and> bi_msg_len io = 0 then Some (g, io, 0)
            else fast_reply en io g
        })"

section \<open>The session\<close>

definition timing_of_keys :: "kline_keybytes_t \<Rightarrow> kline_cfg \<Rightarrow> kline_cfg" where
  "timing_of_keys keys c =
     (if kc_timing_from_keybytes c \<and> variant keys = KLINE_VARIANT_KWP then
        let t = (if extended_timing keys then kline_timing_extended else kline_timing_normal)
        in c\<lparr>kc_p1_max := P_FROM_MS (p1_max t), kc_p2_max := P_FROM_MS (p2_max t),
             kc_p3_min := P_FROM_MS (p3_min t), kc_p4_min := P_FROM_MS (p4_min t)\<rparr>
      else c)"

definition default_periodic :: "kline_variant_t \<Rightarrow> kline_cfg \<Rightarrow> kline_cfg" where
  "default_periodic v c = (case kline_default_wakeup v BUS_PERIODIC_MAX of
       (Some m, n) \<Rightarrow> c\<lparr>kc_periodic := m\<rparr> | (None, _) \<Rightarrow> c)"

definition link_established :: "'d kline \<Rightarrow> 'd kline" where
  "link_established g =
     (let keys = k_keys g;
          g = upd_link (\<lambda>l. l\<lparr>bl_connected := True, bl_baud := k_active_baud g, bl_key := [kb1 keys, kb2 keys]\<rparr>) g;
          g = upd_cfg (timing_of_keys keys) g;
          g = (if kc_periodic (k_cfg g) = [] then upd_cfg (default_periodic (kline_variant_of (bl_variant (k_link g)))) g else g)
      in upd_stats (\<lambda>s. s\<lparr>ks_init_ok := ks_init_ok s + 1\<rparr>) g)"

definition do_init :: "'d kenv \<Rightarrow> kline_cmd \<Rightarrow> bus_init \<Rightarrow> 'd kline \<Rightarrow> ('d kline \<times> bus_init \<times> int) option" where
  "do_init en which io g =
     (if k_uart_tx_unresolved g then Some (g, io, BUS_ERR_NOT_READY)
      else do {
        let g = upd_stats (\<lambda>s. s\<lparr>ks_init_attempts := ks_init_attempts s + 1\<rparr>) g;
        let g = g\<lparr>k_link := link_zero, k_keys := keys_zero\<rparr>;
        (g, io, rc) \<leftarrow> (if which = CMD_FIVE_BAUD then do { (g, rc) \<leftarrow> init_5baud en io g; Some (g, io, rc) } else init_fast en io g);
        if rc \<noteq> 0 then (let (g, now) = kline_now en g in Some (rx_discard en (g\<lparr>k_last_bus_us := now\<rparr>), io, rc))
        else
          let io = io\<lparr>bi_key := bl_key (k_link g)\<rparr>;
              g = link_established g;
              g = (if which \<noteq> CMD_FAST_INIT \<or> \<not> bi_raw_response io then rx_discard en g else g)
          in Some (g\<lparr>k_pending_status := 0\<rparr>, io, 0)
      })"

definition stop_message :: "byte \<Rightarrow> byte list" where
  "stop_message addr =
     (let m = [0xC1, if addr \<noteq> 0 then addr else KLINE_INIT_ADDR_OBD, 0xF1, KLINE_SVC_STOP_COMM] in m @ [kline_checksum m])"

definition do_stop_comm :: "'d kenv \<Rightarrow> 'd kline \<Rightarrow> ('d kline \<times> int) option" where
  "do_stop_comm en g =
     (if \<not> bl_connected (k_link g) then Some (g, 0)
      else do {
        g \<leftarrow> (if bl_variant (k_link g) = kline_variant_num KLINE_VARIANT_KWP then do {
            (g, rc) \<leftarrow> tx_message en (stop_message (bl_address (k_link g))) True 0 g;
            let (g, now) = kline_now en g;
            Some (g\<lparr>k_suppress_until_us := now + P_TO_US (kc_p2_max (k_cfg g))\<rparr>)
          } else Some g);
        Some (g\<lparr>k_link := link_zero, k_keys := keys_zero\<rparr>, 0)
      })"

end
