(* ===== verification/KlineTask.thy ===== *)
theory KlineTask
  imports KlineInit
begin

text \<open>
  The task of the K-Line driver and its interface (\<open>main/kline.c\<close>). A command runs while its caller
  waits: \<open>run_cmd\<close> queues it, lets the task work until it has answered or the caller's time is over, and
  finishes; a command given up stays with the task. Only one caller is inside, the lock's holder.
  That what the driver owns stays consistent in every sequence of its calls is proved in \<open>KlineSafe\<close>.
\<close>

section \<open>The task\<close>

datatype task_pass = PassExited | PassIdle | PassCommand

definition task_deadline :: "int \<Rightarrow> 'd kline \<Rightarrow> int" where
  "task_deadline now g =
     (let deadline = now + 200000 in
      if \<not> command_blocked g \<and> kc_periodic_ms (k_cfg g) \<noteq> 0 \<and> kc_periodic (k_cfg g) \<noteq> []
      then min deadline (k_last_bus_us g + int (kc_periodic_ms (k_cfg g)) * 1000) else deadline)"

definition kline_command :: "'d kenv \<Rightarrow> 'd kline \<Rightarrow> 'd kline option" where
  "kline_command en g =
     (let g = g\<lparr>k_command_pending := False\<rparr>; c = k_cmd g in
      if c = CMD_TX then do {
        (g, rc) \<leftarrow> tx_message en (k_req g) True (k_req_flags g) (g\<lparr>k_active := True\<rparr>);
        Some (g\<lparr>k_result := rc, k_active := False\<rparr>)
      }
      else if c = CMD_STOP_COMM then do { (g, rc) \<leftarrow> do_stop_comm en g; Some (g\<lparr>k_result := rc\<rparr>) }
      else do {
        (g, io, rc) \<leftarrow> do_init en c (k_req_init g) g;
        Some (g\<lparr>k_req_init := io, k_result := rc, k_pending_inits := k_pending_inits g - 1\<rparr>)
      })"

text \<open>One pass of the task's loop.\<close>

definition kline_task_pass :: "'d kenv \<Rightarrow> 'd kline \<Rightarrow> ('d kline \<times> task_pass) option" where
  "kline_task_pass en g =
     (if k_stop_requested g then do { (g, rc) \<leftarrow> do_stop_comm en g; Some (g, PassExited) }
      else do {
        let (g, now) = kline_now en g;
        g \<leftarrow> (if periodic_due now g then send_periodic en g else Some g);
        let (g, now) = kline_now en g;
        (g, r) \<leftarrow> rx_service en (task_deadline now g) True g;
        case r of
          RxFrame f \<Rightarrow> Some (publish en f g, PassIdle)
        | RxDeadline \<Rightarrow> Some (g, PassIdle)
        | RxCommand \<Rightarrow> do { g \<leftarrow> kline_command en g; Some (g, PassCommand) }
      })"

partial_function (option) task_until :: "'d kenv \<Rightarrow> task_pass \<Rightarrow> 'd kline \<Rightarrow> 'd kline option" where
  "task_until en what g = do {
     (g, p) \<leftarrow> kline_task_pass en g;
     if p = what \<or> p = PassExited then Some g else task_until en what g
   }"

section \<open>Commands\<close>

definition initializing :: "kline_cmd \<Rightarrow> bool" where
  "initializing c \<longleftrightarrow> c = CMD_FIVE_BAUD \<or> c = CMD_FAST_INIT"

text \<open>Up to the wait for the task, with the error that ends it there.\<close>

definition run_cmd_begin :: "kline_cmd \<Rightarrow> 'd kline \<Rightarrow> 'd kline \<times> int" where
  "run_cmd_begin c g =
     (if command_blocked g then (g, BUS_ERR_NOT_READY)
      else if k_cmd_q g \<noteq> None then (g, BUS_ERR_NOT_READY)
      else (g\<lparr>k_cmd_q := Some c, k_pending_inits := k_pending_inits g + (if initializing c then 1 else 0)\<rparr>, 0))"

definition run_cmd :: "'d kenv \<Rightarrow> kline_cmd \<Rightarrow> nat option \<Rightarrow> 'd kline \<Rightarrow> ('d kline \<times> int) option" where
  "run_cmd en c wait g = (case run_cmd_begin c g of (g, rc) \<Rightarrow>
     if rc \<noteq> 0 then Some (g, rc)
     else case on_kenv (kn_done_in_time en wait) g of (g, in_time) \<Rightarrow>
       if in_time then do { g \<leftarrow> task_until en PassCommand g; Some (g, k_result g) }
       else Some (g\<lparr>k_command_timed_out := True\<rparr>, BUS_ERR_TIMEOUT))"

section \<open>Opening and closing\<close>

definition delete_obj :: "kline_obj \<Rightarrow> 'd kline \<Rightarrow> 'd kline" where
  "delete_obj ob g = g\<lparr>k_objs := (k_objs g)(ob := False)\<rparr>"

definition kline_release :: "'d kenv \<Rightarrow> 'd kline \<Rightarrow> 'd kline \<times> esp_err" where
  "kline_release en g =
     (let g = (if kc_k_line_only (k_cfg g) then g else do_kenv (kn_set_level en PIN_LS_OBD_15 False) g);
          g = do_kenv (kn_set_level en PIN_KLINE_nSILENT False) g;
          (g, err) = (if k_uart_installed g then
              (case on_kenv (kn_uart_delete en) g of (g, err) \<Rightarrow>
                 (if err = ESP_OK then g\<lparr>k_uart_installed := False\<rparr> else g, err))
            else (g, ESP_OK))
      in if err \<noteq> ESP_OK then (g, err)
         else
           let g = delete_obj OBJ_EXITED (delete_obj OBJ_CMD_DONE (delete_obj OBJ_RX_Q (delete_obj OBJ_CMD_Q (delete_obj OBJ_SET g))))
           in (g\<lparr>k_cmd_q := None, k_rx_q := [], k_link := link_zero\<rparr>, ESP_OK))"

definition create_obj :: "'d kenv \<Rightarrow> kline_obj \<Rightarrow> 'd kline \<Rightarrow> 'd kline" where
  "create_obj en ob g = (let (g, ok) = on_kenv (kn_create en ob) g in g\<lparr>k_objs := (k_objs g)(ob := ok)\<rparr>)"

definition create_lock :: "'d kenv \<Rightarrow> kline_obj \<Rightarrow> 'd kline \<Rightarrow> 'd kline" where
  "create_lock en ob g = (if k_objs g ob then g else create_obj en ob g)"

definition open_reset :: "'d kline \<Rightarrow> 'd kline" where
  "open_reset g =
     g\<lparr>k_stop_requested := False, k_cfg := cfg_defaults, k_pending_inits := 0, k_command_pending := False,
       k_command_timed_out := False, k_uart_tx_unresolved := False, k_active_baud := kc_baud cfg_defaults,
       k_tx := None, k_asm := [], k_rx_invalid := False, k_suppress_until_us := 0, k_pending_status := 0,
       k_tx_answered := True, k_rx_epoch := \<lparr>ep_sequence = 0, ep_lost = 0\<rparr>, k_control := None, k_active := False,
       k_link := link_zero, k_keys := keys_zero\<rparr>"

definition queues_made :: "'d kline \<Rightarrow> bool" where
  "queues_made g \<longleftrightarrow> (\<forall>ob \<in> {OBJ_CMD_Q, OBJ_RX_Q, OBJ_CMD_DONE, OBJ_EXITED, OBJ_SET}. k_objs g ob)"

text \<open>The steps between the reset of the state and the start of the task; the first error ends them.\<close>

definition open_uart :: "'d kenv \<Rightarrow> 'd kline \<Rightarrow> 'd kline \<times> esp_err" where
  "open_uart en g =
     (let (g, err) = on_kenv (kn_uart_install en) g in
      if err \<noteq> ESP_OK then (g, err)
      else
        let (g, err) = on_kenv (kn_uart_config en) (g\<lparr>k_uart_installed := True\<rparr>) in
        if err \<noteq> ESP_OK then (g, err)
        else
          let (g, err) = on_kenv (kn_uart_threshold en) (do_kenv (kn_pin_to_uart en) g) in
          if err \<noteq> ESP_OK then (g, err) else on_kenv (kn_uart_timeout en) g)"

definition open_queues :: "'d kenv \<Rightarrow> 'd kline \<Rightarrow> 'd kline \<times> esp_err" where
  "open_queues en g =
     (let g = create_obj en OBJ_SET (create_obj en OBJ_EXITED (create_obj en OBJ_CMD_DONE
            (create_obj en OBJ_RX_Q (create_obj en OBJ_CMD_Q g)))) in
      if \<not> queues_made g then (g, ESP_ERR_NO_MEM)
      else
        let (g, ok) = on_kenv (kn_add_to_set en) g in
        if \<not> ok then (g, ESP_FAIL)
        else
          let (g, ok) = on_kenv (kn_add_to_set en) g in if \<not> ok then (g, ESP_FAIL) else (g, ESP_OK))"

definition open_start :: "'d kenv \<Rightarrow> 'd kline \<Rightarrow> 'd kline \<times> esp_err" where
  "open_start en g =
     (let (g, now) = kline_now en (do_kenv (kn_set_level en PIN_KLINE_nSILENT True) g);
          g = create_obj en OBJ_TASK (g\<lparr>k_last_bus_us := now\<rparr>)
      in if \<not> k_objs g OBJ_TASK then (g, ESP_ERR_NO_MEM) else (g\<lparr>k_started := True\<rparr>, ESP_OK))"

definition kline_open :: "'d kenv \<Rightarrow> 'd kline \<Rightarrow> 'd kline \<times> esp_err" where
  "kline_open en g =
     (if k_started g then (g, ESP_OK)
      else
        let g = create_lock en OBJ_DATA_LOCK (create_lock en OBJ_API_LOCK g) in
        if \<not> k_objs g OBJ_API_LOCK \<or> \<not> k_objs g OBJ_DATA_LOCK then (g, ESP_ERR_NO_MEM)
        else if k_objs g OBJ_TASK \<or> k_uart_installed g then (g, ESP_ERR_INVALID_STATE)
        else
          let (g, err) = open_uart en (open_reset g);
              (g, err) = (if err = ESP_OK then open_queues en g else (g, err));
              (g, err) = (if err = ESP_OK then open_start en g else (g, err))
          in if err \<noteq> ESP_OK then (fst (kline_release en g), err) else (g, ESP_OK))"

definition kline_close :: "'d kenv \<Rightarrow> 'd kline \<Rightarrow> ('d kline \<times> esp_err) option" where
  "kline_close en g =
     (if \<not> k_objs g OBJ_API_LOCK then Some (g, ESP_OK)
      else
        let g = g\<lparr>k_started := False\<rparr> in
        if \<not> k_objs g OBJ_TASK then Some (kline_release en g)
        else case on_kenv (kn_exits en 4000) (g\<lparr>k_stop_requested := True\<rparr>) of (g, exits) \<Rightarrow>
          if \<not> exits then Some (g, ESP_ERR_TIMEOUT)
          else do {
            g \<leftarrow> task_until en PassExited g;
            Some (kline_release en (delete_obj OBJ_TASK g))
          })"

section \<open>Requests\<close>

definition kline_tx_controlled ::
  "'d kenv \<Rightarrow> byte list option \<Rightarrow> u32w \<Rightarrow> bus_tx_control option \<Rightarrow> 'd kline \<Rightarrow> ('d kline \<times> int) option" where
  "kline_tx_controlled en data flags control g =
     (case data of None \<Rightarrow> Some (g, BUS_ERR_BAD_ARG)
      | Some data \<Rightarrow>
          if data = [] then Some (g, BUS_ERR_BAD_ARG)
          else if \<not> k_started g then Some (g, BUS_ERR_NOT_READY)
          else if command_blocked g then Some (g, BUS_ERR_NOT_READY)
          else case frame_for_tx (k_cfg g) data flags of
            None \<Rightarrow> Some (g, BUS_ERR_TOO_LONG)
          | Some buf \<Rightarrow>
              run_cmd en CMD_TX (case control of None \<Rightarrow> Some 3000 | Some _ \<Rightarrow> None)
                (g\<lparr>k_req := buf, k_req_flags := flags, k_control := control\<rparr>))"

definition kline_send :: "'d kenv \<Rightarrow> byte list option \<Rightarrow> u32w \<Rightarrow> 'd kline \<Rightarrow> ('d kline \<times> int) option" where
  "kline_send en data flags g = kline_tx_controlled en data flags None g"

definition kline_ioctl_init :: "'d kenv \<Rightarrow> kline_cmd \<Rightarrow> ioctl_arg \<Rightarrow> 'd kline \<Rightarrow> ('d kline \<times> int \<times> ioctl_arg) option" where
  "kline_ioctl_init en c arg g =
     (let io = (case arg of InitArg io \<Rightarrow> io | _ \<Rightarrow> bus_init_zero);
          io = (if bi_address io = 0 then io\<lparr>bi_address := KLINE_INIT_ADDR_OBD\<rparr> else io)
      in if command_blocked g then Some (g, BUS_ERR_NOT_READY, arg)
         else do {
           (g, rc) \<leftarrow> run_cmd en c (Some 8000) (g\<lparr>k_req_init := io\<rparr>);
           Some (g, rc, case arg of InitArg _ \<Rightarrow> if k_command_timed_out g then arg else InitArg (k_req_init g) | _ \<Rightarrow> arg)
         })"

definition assume_link :: "kline_variant_t \<Rightarrow> 'd kline \<Rightarrow> 'd kline" where
  "assume_link v g =
     (let g = g\<lparr>k_keys := keys_zero\<lparr>variant := v\<rparr>,
            k_link := link_zero\<lparr>bl_variant := kline_variant_num v, bl_address := KLINE_INIT_ADDR_OBD, bl_baud := k_active_baud g,
              bl_connected := True\<rparr>\<rparr>
      in upd_cfg (default_periodic v) g)"

definition set_periodic :: "ioctl_arg \<Rightarrow> 'd kline \<Rightarrow> 'd kline \<times> int" where
  "set_periodic arg g =
     (case arg of MsgArg m \<Rightarrow>
        if bm_len m = 0 then (upd_cfg (default_periodic (kline_variant_of (bl_variant (k_link g)))) g, 0)
        else if BUS_PERIODIC_MAX < bm_len m then (g, BUS_ERR_TOO_LONG)
        else (upd_cfg (\<lambda>c. c\<lparr>kc_periodic := take (bm_len m) (bm_data m)\<rparr>) g, 0)
      | _ \<Rightarrow> (upd_cfg (default_periodic (kline_variant_of (bl_variant (k_link g)))) g, 0))"

definition kline_ioctl :: "'d kenv \<Rightarrow> u32w \<Rightarrow> ioctl_arg \<Rightarrow> 'd kline \<Rightarrow> ('d kline \<times> int \<times> ioctl_arg) option" where
  "kline_ioctl en i arg g =
     (if \<not> k_started g then Some (g, BUS_ERR_NOT_READY, arg)
      else if i \<noteq> BUS_IOCTL_GET_LINK \<and> command_blocked g then Some (g, BUS_ERR_NOT_READY, arg)
      else if i \<noteq> BUS_IOCTL_GET_LINK \<and> k_pending_inits g \<noteq> 0 then Some (g, BUS_ERR_BUS_BUSY, arg)
      else if i = BUS_IOCTL_FIVE_BAUD_INIT then kline_ioctl_init en CMD_FIVE_BAUD arg g
      else if i = BUS_IOCTL_FAST_INIT then kline_ioctl_init en CMD_FAST_INIT arg g
      else if i = BUS_IOCTL_STOP_COMM then do { (g, rc) \<leftarrow> run_cmd en CMD_STOP_COMM (Some 2000) g; Some (g, rc, arg) }
      else if i = BUS_IOCTL_GET_LINK then
        Some (g, if arg = NoArg then (BUS_ERR_BAD_ARG, arg) else (0, LinkArg (k_link g)))
      else if i = BUS_IOCTL_ASSUME_LINK then
        Some (assume_link (case arg of ByteArg b \<Rightarrow> kline_variant_of b | _ \<Rightarrow> KLINE_VARIANT_UNKNOWN) g, 0, arg)
      else if i = BUS_IOCTL_SET_PERIODIC then (let (g, rc) = set_periodic arg g in Some (g, rc, arg))
      else if i = BUS_IOCTL_CLEAR_PERIODIC then Some (upd_cfg (\<lambda>c. c\<lparr>kc_periodic_ms := 0\<rparr>) g, 0, arg)
      else if i = BUS_IOCTL_CLEAR_RX_QUEUE then Some (g\<lparr>k_rx_q := []\<rparr>, 0, arg)
      else if i = BUS_IOCTL_CLEAR_TX_QUEUE then Some (g, 0, arg)
      else Some (g, BUS_ERR_UNSUPPORTED, arg))"

definition kline_get_stats :: "'d kline \<Rightarrow> kline_stats" where
  "kline_get_stats g = k_stats g"

definition kline_reset_stats :: "'d kline \<Rightarrow> 'd kline" where
  "kline_reset_stats g = g\<lparr>k_stats := kline_stats_zero\<rparr>"

end
