(* ===== verification/KlineKept.thy ===== *)
theory KlineKept
  imports KlineTask
begin

text \<open>
  What the worker of the K-Line driver keeps. \<open>core\<close> is the state that receiving and sending leave
  alone, \<open>buffers\<close> the sizes of everything it fills, and \<open>kept g0 g\<close> says that from \<open>g0\<close> to \<open>g\<close> the first
  is the same and the second not lost. The locales \<open>listening\<close> and \<open>reception\<close> carry any property
  of the elementary steps through the loops that look at events and that receive; \<open>held\<close>, which adds that the message being sent
  is the same, is its instance here, and one lemma per operation of the sender rests on it.
\<close>

section \<open>What the worker keeps\<close>

definition core :: "'d kline \<Rightarrow> _" where
  "core g = ((k_started g, k_uart_installed g, k_stop_requested g, k_objs g, k_pending_inits g, k_command_timed_out g),
     (k_req g, k_req_flags g, k_active g, k_req_init g, k_result g, k_cfg g), (k_link g, k_keys g))"

definition frame_wf :: "kline_frame \<Rightarrow> bool" where
  "frame_wf f \<longleftrightarrow> 0 < length (kf_data f) \<and> length (kf_data f) \<le> KLINE_MAX_MSG"

definition buffers :: "'d kline \<Rightarrow> bool" where
  "buffers g \<longleftrightarrow> length (k_asm g) \<le> KLINE_MAX_MSG \<and> length (k_uart_pending g) \<le> 64 \<and>
     length (k_rx_q g) \<le> KLINE_RX_QUEUE \<and> list_all (\<lambda>f. length (kf_data f) \<le> KLINE_MAX_MSG) (k_rx_q g) \<and>
     (case k_tx g of None \<Rightarrow> True | Some tx \<Rightarrow> kt_echoed tx \<le> kt_sent tx \<and> kt_sent tx \<le> length (kt_data tx))"

definition kept :: "'d kline \<Rightarrow> 'd kline \<Rightarrow> bool" where
  "kept g0 g \<longleftrightarrow> core g = core g0 \<and> (buffers g0 \<longrightarrow> buffers g)"

lemma kept_self [simp]: "kept g g" by (simp add: kept_def)

lemma kept_chain [trans]: "kept a b \<Longrightarrow> kept b c \<Longrightarrow> kept a c" by (auto simp: kept_def)

named_theorems worker \<open>what each operation of the worker keeps\<close>

lemma kept_env [worker]:
  "kept g (g\<lparr>k_env := d\<rparr>)" "kept g (fst (on_kenv f g))" "kept g (do_kenv h g)" "kept g (fst (kline_now en g))"
  "kept g (upd_stats u g)" "kept g (rx_discard en g)" "kept g (delay_until_us en t g)"
  by (simp_all add: kept_def core_def buffers_def on_kenv_eq do_kenv_def kline_now_def upd_stats_def rx_discard_def
      delay_until_us_def Let_def)

lemma kept_fill [worker]: "kept g (fst (uart_fill en w g))"
  by (auto simp: kept_def core_def buffers_def uart_fill_def on_kenv_eq kline_now_def Let_def)

lemma kept_echo:
  assumes "case k_tx g of None \<Rightarrow> True | Some tx \<Rightarrow> kt_echoed tx + n \<le> kt_sent tx"
  shows "kept g (read_echo_loop en n g)"
  using assms
proof (induction n arbitrary: g)
  case (Suc n)
  show ?case
  proof (cases "k_tx g")
    case (Some tx)
    obtain g1 any where f: "uart_fill en 0 g = (g1, any)" by fastforce
    have k: "kept g g1" "k_tx g1 = Some tx"
      using kept_fill [of g en 0] f Some by (auto simp: uart_fill_def on_kenv_eq kline_now_def Let_def split: if_splits)
    let ?g2 = "g1\<lparr>k_uart_pending := tl (k_uart_pending g1), k_last_bus_us := k_uart_pending_us g1\<rparr>"
    let ?bad = "upd_stats (\<lambda>s. s\<lparr>ks_tx_echo_bad := ks_tx_echo_bad s + 1\<rparr>) (?g2\<lparr>k_tx := Some (tx\<lparr>kt_failed := True\<rparr>)\<rparr>)"
    let ?ok = "upd_stats (\<lambda>s. s\<lparr>ks_tx_echo_ok := ks_tx_echo_ok s + 1\<rparr>) (?g2\<lparr>k_tx := Some (tx\<lparr>kt_echoed := kt_echoed tx + 1\<rparr>)\<rparr>)"
    have b: "kept g1 ?bad" "kept g1 ?ok"
      using Suc.prems k(2) Some by (auto simp: kept_def core_def buffers_def upd_stats_def)
    have "kept ?ok (read_echo_loop en n ?ok)"
      using Suc.prems Some by (intro Suc.IH) (simp add: upd_stats_def)
    then have "kept g (read_echo_loop en n ?ok)" using k(1) b(2) kept_chain by blast
    then show ?thesis using k(1) kept_chain [OF k(1) b(1)] by (simp add: Some f Let_def)
  qed simp
qed simp

lemma kept_read_echo [worker]:
  assumes "case k_tx g of None \<Rightarrow> True | Some tx \<Rightarrow> limit \<le> kt_sent tx"
  shows "kept g (tx_read_echo en limit g)"
proof (cases "k_tx g")
  case (Some tx)
  show ?thesis
  proof (cases "kt_echoed tx \<le> kt_sent tx")
    case True
    show ?thesis
    proof (cases "limit \<le> kt_echoed tx")
      case False
      with True assms Some have "kept g (read_echo_loop en (limit - kt_echoed tx) g)" by (intro kept_echo) simp
      then show ?thesis by (simp add: tx_read_echo_def Some)
    qed (simp add: tx_read_echo_def Some)
  next
    case False
    with assms Some show ?thesis by (simp add: tx_read_echo_def)
  qed
qed (simp add: tx_read_echo_def)

lemma kept_fault [worker]: "kept g (rx_fault en g)"
  by (auto simp: kept_def core_def buffers_def rx_fault_def on_kenv_eq kline_now_def Let_def split: option.split)

lemma kept_event [worker]: "kept g (uart_event en ty n g)"
proof -
  have data: "kept g (tx_read_echo en (if kt_announced tx' < kt_sent tx' then kt_announced tx' else kt_sent tx') (g\<lparr>k_tx := Some tx'\<rparr>))"
    if "k_tx g = Some tx" "tx' = tx\<lparr>kt_announced := m\<rparr>" for tx tx' m
  proof (rule kept_chain)
    show "kept g (g\<lparr>k_tx := Some tx'\<rparr>)" using that by (simp add: kept_def core_def buffers_def)
    show "kept (g\<lparr>k_tx := Some tx'\<rparr>) (tx_read_echo en (if kt_announced tx' < kt_sent tx' then kt_announced tx' else kt_sent tx') (g\<lparr>k_tx := Some tx'\<rparr>))"
      by (rule kept_read_echo) simp
  qed
  have flags: "kept g (g\<lparr>k_rx_epoch := ep, k_pending_status := st\<rparr>)" "kept g (g\<lparr>k_pending_status := st\<rparr>)" for g :: "'a kline" and ep st
    by (simp_all add: kept_def core_def buffers_def)
  have ovf: "kept g (rx_fault en (rx_discard en ((upd_stats u g)\<lparr>k_rx_epoch := ep, k_pending_status := st\<rparr>)))" for u ep st
    by (rule kept_chain [OF kept_chain [OF kept_chain [OF kept_env(5) flags(1)] kept_env(6)] kept_fault])
  have brk: "kept g ((upd_stats u g)\<lparr>k_pending_status := st\<rparr>)" for u st by (rule kept_chain [OF kept_env(5) flags(2)])
  have err: "kept g (rx_fault en (upd_stats u g))" for u by (rule kept_chain [OF kept_env(5) kept_fault])
  show ?thesis
  proof (cases "k_tx g")
    case None
    then show ?thesis
      using ovf brk err by (simp add: uart_event_def Let_def case_prod_beta)
  next
    case (Some tx)
    then show ?thesis
      using ovf brk err data [OF Some refl] by (simp add: uart_event_def Let_def case_prod_beta)
  qed
qed

lemma kept_receive_event [worker]: "kept g (fst (receive_event en w g))"
proof -
  have c: "kept g (g\<lparr>k_cmd_q := q, k_cmd := c, k_command_pending := p\<rparr>)" for g :: "'a kline" and q c p
    by (simp add: kept_def core_def buffers_def)
  show ?thesis
    unfolding receive_event_def on_kenv_eq
    by (auto intro: kept_env(1) kept_chain [OF kept_env(1) kept_event] kept_chain [OF kept_env(1) c] split: option.split kline_member.split prod.split)
qed

text \<open>What is being sent and how far the sender is; only the sender changes it.\<close>

definition txd :: "'d kline \<Rightarrow> (byte list \<times> nat) option" where
  "txd g = map_option (\<lambda>tx. (kt_data tx, kt_sent tx)) (k_tx g)"

lemma txd_simps [simp]:
  "txd (fst (kline_now en g)) = txd g" "txd (fst (on_kenv f g)) = txd g" "txd (do_kenv h g) = txd g" "txd (upd_stats u g) = txd g"
  "txd (rx_discard en g) = txd g" "txd (delay_until_us en t g) = txd g" "txd (fst (uart_fill en w g)) = txd g"
  by (simp_all add: txd_def kline_now_def on_kenv_eq do_kenv_def upd_stats_def rx_discard_def delay_until_us_def uart_fill_def Let_def)

lemma txd_echo: "txd (read_echo_loop en n g) = txd g"
proof (induction n arbitrary: g)
  case (Suc n)
  show ?case
  proof (cases "k_tx g")
    case (Some tx)
    obtain g1 any where f: "uart_fill en 0 g = (g1, any)" by fastforce
    have k: "k_tx g1 = Some tx" "txd g1 = txd g"
      using txd_simps(7) [of en 0 g] f Some by (auto simp: uart_fill_def on_kenv_eq kline_now_def Let_def split: if_splits)
    then show ?thesis by (simp add: Some f Let_def Suc.IH upd_stats_def) (simp add: txd_def Some)
  qed simp
qed simp

lemma txd_read_echo [simp]: "txd (tx_read_echo en limit g) = txd g"
  by (simp add: tx_read_echo_def txd_echo split: option.split)

lemma txd_fault [simp]: "txd (rx_fault en g) = txd g"
proof -
  have "txd (fst (kline_now en (g2\<lparr>k_asm := [], k_rx_invalid := True\<rparr>))\<lparr>k_rx_invalid_last_us := t\<rparr>) = txd g2" for g2 :: "'a kline" and t
    by (simp add: txd_def kline_now_def on_kenv_eq)
  then show ?thesis by (simp add: rx_fault_def Let_def case_prod_beta split: option.split) (simp add: txd_def)
qed

lemma txd_event [simp]: "txd (uart_event en ty n g) = txd g"
proof -
  have u: "txd (g\<lparr>k_rx_epoch := ep, k_pending_status := st\<rparr>) = txd g" "txd (g\<lparr>k_pending_status := st\<rparr>) = txd g"
    "txd (g\<lparr>k_rx_epoch := ep\<rparr>) = txd g" for g :: "'a kline" and ep st
    by (simp_all add: txd_def)
  have a: "txd (g\<lparr>k_tx := Some (tx\<lparr>kt_announced := m\<rparr>)\<rparr>) = txd g" if "k_tx g = Some tx" for tx m
    using that by (simp add: txd_def)
  show ?thesis
    by (cases "k_tx g") (simp_all add: uart_event_def Let_def case_prod_beta u a)
qed

lemma txd_receive_event [simp]: "txd (fst (receive_event en w g)) = txd g"
  unfolding receive_event_def on_kenv_eq
  by (auto split: option.split kline_member.split prod.split) (simp_all add: txd_def)

definition held :: "'d kline \<Rightarrow> 'd kline \<Rightarrow> bool" where
  "held g0 g \<longleftrightarrow> kept g0 g \<and> txd g = txd g0"

section \<open>Reception\<close>

text \<open>
  What holds before and after every elementary step of reception holds before and after its loops,
  and what holds of every framed message holds of every message they return. Looking at the events
  and taking bytes off the UART is a part of its own: it also happens while a message is sent.
\<close>

locale listening =
  fixes en :: "'d kenv" and I :: "'d kline \<Rightarrow> bool"
  assumes now: "I g \<Longrightarrow> I (fst (kline_now en g))"
    and event: "I g \<Longrightarrow> I (fst (receive_event en w g))"
    and fill: "I g \<Longrightarrow> I (fst (uart_fill en w g))"
begin

lemma events_any: "uart_events e g = Some x \<Longrightarrow> e = en \<longrightarrow> I g \<longrightarrow> I x"
proof (rule uart_events.raw_induct [where P = "\<lambda>e g x. e = en \<longrightarrow> I g \<longrightarrow> I x", rotated], assumption, goal_cases)
  case (1 loop e g x)
  show ?case
  proof (intro impI)
    assume en: "e = en" and pre: "I g"
    note IH = 1(2) [rule_format] and body = 1(3) [unfolded en]
    show "I x" using body IH event [OF pre, of 0] by (auto split: prod.splits if_splits)
  qed
qed

lemmas events = events_any [rule_format, OF _ refl]

lemma receive:
  assumes "uart_receive en w g = Some (g', any)" "I g"
  shows "I g' \<and> (any \<longrightarrow> k_uart_pending g' \<noteq> [])"
  using assms events fill by (auto simp: uart_receive_def bind_eq_Some_conv)

end

locale reception = listening +
  fixes Q :: "kline_frame \<Rightarrow> bool"
  assumes discard: "I g \<Longrightarrow> I (rx_discard en g)"
    and framed: "I g \<Longrightarrow> k_uart_pending g \<noteq> [] \<Longrightarrow> rx_byte g = (g', fo) \<Longrightarrow> I g' \<and> pred_option Q fo"
    and raw: "I g \<Longrightarrow> k_uart_pending g \<noteq> [] \<Longrightarrow>
      I (g\<lparr>k_uart_pending := tl (k_uart_pending g), k_last_bus_us := k_uart_pending_us g\<rparr>)"
    and gap: "I g \<Longrightarrow> asm_complete True g = (g', fo) \<Longrightarrow> I g' \<and> pred_option Q fo"
begin

lemma drain_any: "rx_drain_loop e g = Some x \<Longrightarrow> e = en \<longrightarrow> I g \<longrightarrow> I (fst x) \<and> pred_option Q (snd x)"
proof (rule rx_drain_loop.raw_induct [where P = "\<lambda>e g x. e = en \<longrightarrow> I g \<longrightarrow> I (fst x) \<and> pred_option Q (snd x)", rotated],
    assumption, goal_cases)
  case (1 loop e g x)
  show ?case
  proof (intro impI)
    assume en: "e = en" and pre: "I g"
    note IH = 1(2) [rule_format] and body = 1(3) [unfolded en]
    from body obtain g1 any where r: "uart_receive en 0 g = Some (g1, any)"
      by (auto simp: bind_eq_Some_conv)
    have i: "I g1" "any \<Longrightarrow> k_uart_pending g1 \<noteq> []" using receive [OF r pre] by auto
    show "I (fst x) \<and> pred_option Q (snd x)"
    proof (cases any)
      case True
      obtain g2 fo where b: "rx_byte g1 = (g2, fo)" by fastforce
      have q: "I g2" "pred_option Q fo" using framed [OF i(1) i(2) [OF True] b] by auto
      show ?thesis using body IH r True b q by (cases fo) (auto simp: bind_eq_Some_conv)
    qed (use body r i in \<open>auto simp: bind_eq_Some_conv\<close>)
  qed
qed

lemmas drain_loop = drain_any [rule_format, OF _ refl]

lemma drain: "rx_drain en g = Some (g', fo) \<Longrightarrow> I g \<Longrightarrow> I g' \<and> pred_option Q fo"
  using drain_loop [of g "(g', fo)"] discard by (auto simp: rx_drain_def split: if_splits)

lemma round:
  assumes "rx_round en deadline cmd g = Some (g', r)" "I g"
  shows "I g' \<and> (\<forall>f. r = Some (RxFrame f) \<longrightarrow> Q f)"
proof -
  from assms(1) obtain g1 fo where d: "rx_drain en g = Some (g1, fo)" by (auto simp: rx_round_def bind_eq_Some_conv)
  have i: "I g1" "pred_option Q fo" using drain [OF d assms(2)] by auto
  obtain g2 t where n: "kline_now en g1 = (g2, t)" by fastforce
  have i2: "I g2" using now [OF i(1)] n by simp
  obtain g3 fo3 where c: "asm_complete True g2 = (g3, fo3)" by fastforce
  have i3: "I g3" "pred_option Q fo3" using gap [OF i2 c] by auto
  show ?thesis
    using assms(1) d i n i2 c i3 event [OF i2]
    by (auto simp: rx_round_def bind_eq_Some_conv Let_def split: option.splits if_splits prod.splits)
qed

lemma service_any:
  "rx_service e deadline cmd g = Some x \<Longrightarrow> e = en \<longrightarrow> I g \<longrightarrow> I (fst x) \<and> (\<forall>f. snd x = RxFrame f \<longrightarrow> Q f)"
proof (rule rx_service.raw_induct [where P = "\<lambda>e deadline cmd g x. e = en \<longrightarrow> I g \<longrightarrow> I (fst x) \<and> (\<forall>f. snd x = RxFrame f \<longrightarrow> Q f)",
      rotated], assumption, goal_cases)
  case (1 loop e deadline cmd g x)
  show ?case
  proof (intro impI)
    assume en: "e = en" and pre: "I g"
    note IH = 1(2) [rule_format] and body = 1(3) [unfolded en]
    from body obtain g1 r where r: "rx_round en deadline cmd g = Some (g1, r)" by (auto simp: bind_eq_Some_conv)
    show "I (fst x) \<and> (\<forall>f. snd x = RxFrame f \<longrightarrow> Q f)"
      using body IH r round [OF r pre] by (auto simp: bind_eq_Some_conv split: option.splits)
  qed
qed

lemmas service = service_any [rule_format, OF _ refl]

lemma awaited:
  assumes "kline_wait_frame en deadline g = Some (g', fo)" "I g"
  shows "I g' \<and> pred_option Q fo"
proof -
  from assms(1) obtain r where s: "rx_service en deadline False g = Some (g', r)"
    and fo: "fo = (case r of RxFrame f \<Rightarrow> Some f | _ \<Rightarrow> None)"
    by (auto simp: kline_wait_frame_def bind_eq_Some_conv)
  show ?thesis using service [OF s assms(2)] fo by (auto split: rx_outcome.splits)
qed

lemma raw_any: "rx_raw_byte e deadline g = Some x \<Longrightarrow> e = en \<longrightarrow> I g \<longrightarrow> I (fst x)"
proof (rule rx_raw_byte.raw_induct [where P = "\<lambda>e deadline g x. e = en \<longrightarrow> I g \<longrightarrow> I (fst x)", rotated],
    assumption, goal_cases)
  case (1 loop e deadline g x)
  show ?case
  proof (intro impI)
    assume en: "e = en" and pre: "I g"
    note IH = 1(2) [rule_format] and body = 1(3) [unfolded en]
    obtain g1 t where n: "kline_now en g = (g1, t)" by fastforce
    have i1: "I g1" using now [OF pre] n by simp
    show "I (fst x)"
    proof (cases "deadline - t \<le> 0")
      case False
      with body n obtain g2 any where r: "uart_receive en (ticks_until t deadline) g1 = Some (g2, any)"
        by (auto simp: bind_eq_Some_conv)
      show ?thesis using body IH n r False receive [OF r i1] raw [of g2]
        by (cases any) (auto simp: bind_eq_Some_conv)
    qed (use body n i1 in auto)
  qed
qed

lemmas raw_byte = raw_any [rule_format, OF _ refl]

lemma reply_any:
  "reply_loop e x = Some y \<Longrightarrow> e = en \<longrightarrow> I (fst x) \<and> pred_option Q (snd x) \<longrightarrow> I (fst y) \<and> pred_option Q (snd y)"
proof (rule reply_loop.raw_induct [where P = "\<lambda>e x y. e = en \<longrightarrow> I (fst x) \<and> pred_option Q (snd x) \<longrightarrow> I (fst y) \<and> pred_option Q (snd y)",
      rotated], assumption, goal_cases)
  case (1 loop e x y)
  show ?case
  proof (intro impI)
    assume en: "e = en" and pre: "I (fst x) \<and> pred_option Q (snd x)"
    note IH = 1(2) [rule_format] and body = 1(3) [unfolded en]
    obtain g fo where x: "x = (g, fo)" by fastforce
    show "I (fst y) \<and> pred_option Q (snd y)"
    proof (cases "fo = None \<and> k_asm g \<noteq> []")
      case True
      with body x obtain g2 fo2 where w: "kline_wait_frame en (k_asm_last_us g + P_TO_US (kc_p1_max (k_cfg g))) g = Some (g2, fo2)"
        and l: "loop en (g2, fo2) = Some y" by (auto simp: bind_eq_Some_conv)
      show ?thesis using IH [OF l refl] awaited [OF w] pre x by simp
    qed (use body pre x in \<open>auto split: option.splits if_splits\<close>)
  qed
qed

lemmas replied = reply_any [rule_format, OF _ refl]

end

text \<open>The quiet time before a request also publishes what arrives, and the client may cancel meanwhile.\<close>

locale quiet_line = reception +
  assumes client: "I g \<Longrightarrow> I (client_step en g)"
    and published: "I g \<Longrightarrow> Q f \<Longrightarrow> I (publish en f g)"
begin

lemma quiet:
  assumes "quiet_round en p g = Some (g', r)" "I g"
  shows "I g'"
proof (cases "bus_tx_cancelled (active_control (client_step en g))")
  case True
  with assms client show ?thesis by (auto simp: quiet_round_def Let_def)
next
  case False
  with assms obtain g1 fo where d: "rx_drain en (client_step en g) = Some (g1, fo)"
    by (auto simp: quiet_round_def bind_eq_Some_conv)
  have k1: "I g1" "pred_option Q fo" using drain [OF d client [OF assms(2)]] by auto
  obtain g2 t where n: "kline_now en g1 = (g2, t)" by fastforce
  have k2: "I g2" using now [OF k1(1)] n by simp
  have s: "I (case r of RxFrame f \<Rightarrow> publish en f g3 | _ \<Rightarrow> g3)" if "rx_service en deadline False g2 = Some (g3, r)" for deadline g3 r
    using service [OF that k2] published by (cases r) auto
  show ?thesis
  proof (cases fo)
    case None
    show ?thesis
      using assms False d None n k1(1) k2 s
      by (auto simp: quiet_round_def bind_eq_Some_conv Let_def split: if_splits)
  next
    case (Some f)
    then show ?thesis using assms False d k1 published by (auto simp: quiet_round_def)
  qed
qed

lemma waited_any: "wait_before_tx e p g = Some x \<Longrightarrow> e = en \<longrightarrow> I g \<longrightarrow> I (fst x)"
proof (rule wait_before_tx.raw_induct [where P = "\<lambda>e p g x. e = en \<longrightarrow> I g \<longrightarrow> I (fst x)", rotated], assumption, goal_cases)
  case (1 loop e p g x)
  show ?case
  proof (intro impI)
    assume en: "e = en" and pre: "I g"
    note IH = 1(2) [rule_format] and body = 1(3) [unfolded en]
    from body obtain g1 r where q: "quiet_round en p g = Some (g1, r)" by (auto simp: bind_eq_Some_conv)
    show "I (fst x)" using IH [of en p g1 x] body q quiet [OF q pre] by (auto simp: bind_eq_Some_conv split: option.splits)
  qed
qed

lemmas waited = waited_any [rule_format, OF _ refl]

end

section \<open>The worker's operations\<close>

lemma kept_push: "kept g (asm_push b t g)"
  by (auto simp: kept_def core_def buffers_def asm_push_def upd_stats_def Let_def KLINE_MAX_MSG_def)

lemma asm_complete_shape:
  assumes "asm_complete e g = (g', fo)"
  obtains u a where "g' = (upd_stats u g)\<lparr>k_asm := a\<rparr>" "a = [] \<or> a = k_asm g" "\<And>f. fo = Some f \<Longrightarrow> kf_data f = k_asm g \<and> k_asm g \<noteq> []"
proof -
  have id: "g = (upd_stats id g)\<lparr>k_asm := k_asm g\<rparr>" "g\<lparr>k_asm := []\<rparr> = (upd_stats id g)\<lparr>k_asm := []\<rparr>" by (simp_all add: upd_stats_def)
  note step = assms [unfolded asm_complete_def Let_def]
  show ?thesis
  proof (cases "k_asm g = []")
    case True
    with step show ?thesis using that [where u = id and a = "k_asm g"] id(1) by simp
  next
    case ne: False
    let ?over = "asm_ended (k_cfg g) (k_asm g)"
    consider (more) "\<not> ?over" "\<not> e" | (short) "\<not> ?over" "e" "length (k_asm g) < asm_minimum (k_cfg g)"
      | (whole) "\<not> (\<not> ?over \<and> \<not> e)" "\<not> (\<not> ?over \<and> length (k_asm g) < asm_minimum (k_cfg g))" by blast
    then show ?thesis
    proof cases
      case more
      with step ne show ?thesis using that [where u = id and a = "k_asm g"] id(1) by simp
    next
      case short
      with step ne show ?thesis by (intro that [OF _ disjI1 [OF refl]]) auto
    next
      case whole
      let ?bad = "(kc_checksum_rx (k_cfg g) \<or> kc_frame_mode (k_cfg g) = BUS_KLINE_FRAME_DISCOVERY) \<and> \<not> asm_checksum_ok (k_cfg g) (k_asm g)"
      have g': "g' = (if ?bad then upd_stats (\<lambda>s. s\<lparr>ks_rx_bad_checksum := ks_rx_bad_checksum s + 1\<rparr>) g else g)\<lparr>k_asm := []\<rparr>"
        and fo: "\<And>f. fo = Some f \<Longrightarrow> kf_data f = k_asm g"
        using step by (simp_all only: ne whole if_False simp_thms split: if_splits) auto
      show ?thesis
      proof (cases ?bad)
        case True
        with g' fo ne show ?thesis by (intro that [OF _ disjI1 [OF refl]]) auto
      next
        case False
        with g' id(2) have "g' = (upd_stats id g)\<lparr>k_asm := []\<rparr>" by auto
        with fo ne show ?thesis by (intro that [OF _ disjI1 [OF refl]]) auto
      qed
    qed
  qed
qed

lemma kept_complete:
  assumes "asm_complete e g = (g', fo)"
  shows "kept g g' \<and> (buffers g \<longrightarrow> pred_option frame_wf fo)"
  using assms
proof (cases rule: asm_complete_shape)
  case (1 u a)
  have "kept g g'" using 1(2) by (auto simp: 1(1) kept_def core_def buffers_def upd_stats_def)
  then show ?thesis using 1(3) by (cases fo) (auto simp: frame_wf_def buffers_def)
qed

lemma kept_byte:
  assumes "rx_byte g = (g', fo)"
  shows "kept g g' \<and> (buffers g \<longrightarrow> pred_option frame_wf fo)"
proof -
  let ?g = "(upd_stats (\<lambda>s. s\<lparr>ks_rx_bytes := ks_rx_bytes s + 1\<rparr>) (g\<lparr>k_uart_pending := tl (k_uart_pending g)\<rparr>))\<lparr>k_last_bus_us := k_uart_pending_us g\<rparr>"
  have a: "kept g (?g\<lparr>k_rx_invalid_last_us := t, k_rx_invalid := b\<rparr>)" "kept g ?g" "kept g (?g\<lparr>k_rx_invalid_last_us := t\<rparr>)"
    "kept g (?g\<lparr>k_rx_invalid := b\<rparr>)" for t b
    by (auto simp: kept_def core_def buffers_def upd_stats_def)
  have c: "kept g g2 \<and> (buffers g \<longrightarrow> pred_option frame_wf fo2)"
    if "kept g g1" "asm_complete False (asm_push c t g1) = (g2, fo2)" for c t g1 g2 fo2
    using kept_chain [OF that(1) kept_push [of g1 c t]] kept_complete [OF that(2)] by (auto simp: kept_def)
  show ?thesis using assms a by (auto simp: rx_byte_def Let_def split: if_splits dest!: c [rotated])
qed

lemma txd_complete: "asm_complete e g = (g', fo) \<Longrightarrow> txd g' = txd g"
  by (erule asm_complete_shape) (simp add: txd_def upd_stats_def)

lemma txd_push [simp]: "txd (asm_push b t g) = txd g"
  by (simp add: asm_push_def Let_def txd_def upd_stats_def)

lemma txd_byte: "rx_byte g = (g', fo) \<Longrightarrow> txd g' = txd g"
  by (auto simp: rx_byte_def Let_def split: if_splits dest!: txd_complete) (simp_all add: txd_def upd_stats_def)

lemma held_refl [simp]: "held g g" by (simp add: held_def)

lemma held_trans [trans]: "held a b \<Longrightarrow> held b c \<Longrightarrow> held a c" by (auto simp: held_def intro: kept_chain)

lemma kept_queue:
  assumes "buffers g \<longrightarrow> length (kf_data f) \<le> KLINE_MAX_MSG"
  shows "kept g (fst (queue_frame a f g))"
  using assms by (auto simp: queue_frame_def case_prod_beta Let_def kept_def core_def buffers_def upd_stats_def frame_wf_def)

lemma kept_publish:
  assumes "buffers g \<longrightarrow> frame_wf f"
  shows "kept g (publish en f g)"
proof -
  have q: "kept g (fst (queue_frame True f' g1))" "kept g (upd_stats u (fst (queue_frame True f' g1)))"
    if "kept g g1" "kf_data f' = kf_data f" for f' g1 u
  proof -
    show q: "kept g (fst (queue_frame True f' g1))"
    proof -
      have "core (fst (queue_frame True f' g1)) = core g1"
        by (simp add: queue_frame_def case_prod_beta Let_def core_def upd_stats_def)
      moreover have "buffers g \<Longrightarrow> kept g1 (fst (queue_frame True f' g1))"
        using that assms by (intro kept_queue) (simp add: frame_wf_def)
      ultimately show ?thesis using that(1) by (auto simp: kept_def)
    qed
    show "kept g (upd_stats u (fst (queue_frame True f' g1)))" using kept_chain [OF q kept_env(5)] .
  qed
  have p: "kept g (g1\<lparr>k_tx_answered := True, k_pending_status := 0\<rparr>)" "kept g (g1\<lparr>k_p2_pending := False\<rparr>)" if "kept g g1" for g1
    using that by (auto simp: kept_def core_def buffers_def)
  show ?thesis
    unfolding publish_def Let_def case_prod_beta
    by (auto intro!: q p kept_self simp: kline_now_def intro: kept_chain [OF p(1) kept_env(2)] kept_chain [OF kept_chain [OF p(1) kept_env(2)] kept_env(5)] kept_env(5))
qed

lemma core_simps [simp]:
  "core (upd_stats u g) = core g" "core (fst (kline_now en g)) = core g" "core (fst (queue_frame a f g)) = core g"
  "core (g\<lparr>k_p2_pending := b\<rparr>) = core g" "core (g\<lparr>k_tx_answered := c, k_pending_status := st\<rparr>) = core g"
  by (simp_all add: core_def upd_stats_def kline_now_def on_kenv_eq queue_frame_def Let_def case_prod_beta)

lemma core_publish: "core (publish en f g) = core g"
  by (simp add: publish_def Let_def case_prod_beta)

lemma kept_publish_from:
  assumes "kept g0 g" "buffers g0 \<longrightarrow> frame_wf f"
  shows "kept g0 (publish en f g)"
  using assms kept_publish [of g f en] by (auto simp: kept_def core_publish)

lemma txd_deliver [simp]:
  "txd (fst (queue_frame a f g)) = txd g" "txd (g\<lparr>k_p2_pending := b\<rparr>) = txd g" "txd (g\<lparr>k_tx_answered := c, k_pending_status := st\<rparr>) = txd g"
  by (simp_all add: txd_def upd_stats_def queue_frame_def Let_def case_prod_beta)

lemma txd_publish [simp]: "txd (publish en f g) = txd g"
  by (simp add: publish_def Let_def case_prod_beta)

lemma held_publish:
  assumes "held g0 g" "buffers g0 \<longrightarrow> frame_wf f"
  shows "held g0 (publish en f g)"
  using assms kept_publish_from [of g0 g f en] by (simp add: held_def)

section \<open>Transmission\<close>

lemma held_now: "kline_now en g = (g', t) \<Longrightarrow> held g g'"
  using kept_env(4) [of g en] txd_simps(1) [of en g] by (auto simp: held_def)

lemma held_client [simp]: "held g (client_step en g)"
  by (simp add: client_step_def on_kenv_eq held_def kept_def core_def buffers_def txd_def)

interpretation held: reception en "held g0" "\<lambda>f. buffers g0 \<longrightarrow> frame_wf f" for en :: "'d kenv" and g0 :: "'d kline"
proof
  fix g g' :: "'d kline" and fo w
  assume h: "held g0 g"
  then have k: "kept g0 g" and x: "txd g = txd g0" by (simp_all add: held_def)
  show "held g0 (fst (kline_now en g))" using kept_chain [OF k kept_env(4)] x by (simp add: held_def)
  show "held g0 (fst (receive_event en w g))" using kept_chain [OF k kept_receive_event] x by (simp add: held_def)
  show "held g0 (fst (uart_fill en w g))" using kept_chain [OF k kept_fill] x by (simp add: held_def)
  show "held g0 (rx_discard en g)" using kept_chain [OF k kept_env(6)] x by (simp add: held_def)
  have "kept g (g\<lparr>k_uart_pending := tl (k_uart_pending g), k_last_bus_us := k_uart_pending_us g\<rparr>)"
    by (auto simp: kept_def core_def buffers_def)
  then show "held g0 (g\<lparr>k_uart_pending := tl (k_uart_pending g), k_last_bus_us := k_uart_pending_us g\<rparr>)"
    using kept_chain [OF k] x by (simp add: held_def txd_def)
  show "held g0 g' \<and> pred_option (\<lambda>f. buffers g0 \<longrightarrow> frame_wf f) fo" if "rx_byte g = (g', fo)"
    using kept_byte [OF that] txd_byte [OF that] h by (cases fo) (auto simp: held_def kept_def)
  show "held g0 g' \<and> pred_option (\<lambda>f. buffers g0 \<longrightarrow> frame_wf f) fo" if "asm_complete True g = (g', fo)"
    using kept_complete [OF that] txd_complete [OF that] h by (cases fo) (auto simp: held_def kept_def)
qed

interpretation held: quiet_line en "held g0" "\<lambda>f. buffers g0 \<longrightarrow> frame_wf f" for en :: "'d kenv" and g0 :: "'d kline"
  by unfold_locales (auto intro: held_trans [OF _ held_client] held_publish)

lemma held_collect:
  assumes "tx_collect_echo en w g = Some (g', rc)"
  shows "held g g'"
proof -
  from assms obtain g1 where e: "uart_events en g = Some g1" by (auto simp: tx_collect_echo_def bind_eq_Some_conv)
  have k1: "held g g1" by (rule held.events [OF e]) simp
  have read: "held g (case k_tx g3 of None \<Rightarrow> g3 | Some tx \<Rightarrow> tx_read_echo en (kt_sent tx) g3)"
    if "uart_events en (fst (uart_fill en w g1)) = Some g3" for g3
  proof -
    have h: "held g g3" by (rule held.events [OF that]) (use k1 kept_chain [OF _ kept_fill] in \<open>auto simp: held_def\<close>)
    show ?thesis
    proof (cases "k_tx g3")
      case (Some tx)
      then have "kept g3 (tx_read_echo en (kt_sent tx) g3)" by (intro kept_read_echo) simp
      with h Some show ?thesis by (auto simp: held_def intro: kept_chain)
    qed (use h in simp)
  qed
  show ?thesis
    using assms e k1 read by (auto simp: tx_collect_echo_def bind_eq_Some_conv split: option.splits if_splits)
qed

lemma held_finish: "tx_finish_loop en deadline g = Some x \<Longrightarrow> held g (fst x)"
proof (rule tx_finish_loop.raw_induct [where P = "\<lambda>en deadline g x. held g (fst x)", rotated], assumption, goal_cases)
  case (1 loop en deadline g x)
  from 1(3) obtain g1 rc where c: "tx_collect_echo en 0 g = Some (g1, rc)" by (auto simp: bind_eq_Some_conv)
  have k1: "held g g1" by (rule held_collect [OF c])
  obtain g2 t where n: "kline_now en g1 = (g2, t)" by fastforce
  have k2: "held g g2" by (rule held_trans [OF k1 held_now [OF n]])
  show ?case
  proof (cases "rc \<noteq> 0 \<or> echo_missing g1 = 0 \<or> deadline - t \<le> 0")
    case True
    have "held g (upd_stats u g2)" for u using k2 kept_chain [OF _ kept_env(5)] by (auto simp: held_def)
    with True 1(3) c n k1 show ?thesis by (auto simp: bind_eq_Some_conv split: if_splits)
  next
    case False
    with 1(3) c n obtain g3 rc3 where c3: "tx_collect_echo en (ticks_until t deadline) g2 = Some (g3, rc3)"
      and r: "x = (g3, rc3) \<or> loop en deadline g3 = Some x" by (auto simp: bind_eq_Some_conv split: if_splits)
    have "held g g3" by (rule held_trans [OF k2 held_collect [OF c3]])
    then show ?thesis using r 1(2) [of en deadline g3 x] held_trans by auto
  qed
qed

lemma kept_byte_sent:
  assumes "txd g = Some (buf, n)" "n < length buf"
  shows "kept g (byte_sent t g)" "txd (byte_sent t g) = Some (buf, Suc n)"
  using assms by (auto simp: txd_def byte_sent_def kept_def core_def buffers_def upd_stats_def)

lemma held_delay: "held g (delay_until_us en t g)"
  using kept_env(7) by (simp add: held_def)

text \<open>Where the loop over the bytes is: \<open>n\<close> of them are out, \<open>bs\<close> are to come.\<close>

lemma tx_bytes_kept:
  assumes "tx_bytes en bs g = Some (g', stuck, rc)" "txd g = Some (buf, n)" "n + length bs = length buf"
  shows "kept g g' \<and> (rc = 0 \<longrightarrow> \<not> stuck \<and> txd g' = Some (buf, length buf))"
  using assms
proof (induction bs arbitrary: g n)
  case (Cons b bs)
  from Cons.prems(1) obtain g1 rc1 where c: "tx_collect_echo en 0 g = Some (g1, rc1)" by (auto simp: bind_eq_Some_conv)
  have h1: "held g g1" by (rule held_collect [OF c])
  obtain g2 ok where w: "on_kenv (kn_write en b) g1 = (g2, ok)" by fastforce
  obtain g3 snt where d: "on_kenv (kn_tx_done en KLINE_UART_TIMEOUT_MS) g2 = (g3, snt)" by fastforce
  obtain g4 t where n: "kline_now en g3 = (g4, t)" by fastforce
  have h: "held g g2" "held g g3" "held g g4"
    using h1 w d n kept_env(2) [of g1 "kn_write en b"] kept_env(2) [of g2 "kn_tx_done en KLINE_UART_TIMEOUT_MS"] held_now [OF n]
      txd_simps(2) [of "kn_write en b" g1] txd_simps(2) [of "kn_tx_done en KLINE_UART_TIMEOUT_MS" g2]
    by (auto simp: held_def intro: kept_chain)
  let ?g5 = "byte_sent t g4"
  let ?g6 = "if bs \<noteq> [] then delay_until_us en (k_tx_end_us ?g5 + P_TO_US (kc_p4_min (k_cfg ?g5))) ?g5 else ?g5"
  have x4: "txd g4 = Some (buf, n)" using h(3) Cons.prems(2) by (simp add: held_def)
  have "n < length buf" using Cons.prems(3) by simp
  note s = kept_byte_sent [OF x4 this, of t]
  have k5: "kept g ?g5" using h(3) kept_chain [OF _ s(1)] by (simp add: held_def)
  have k6: "kept g ?g6" "txd ?g6 = Some (buf, Suc n)"
    using k5 s(2) kept_chain [OF k5 kept_env(7)] by auto
  have stuck: "kept g (g3\<lparr>k_uart_tx_unresolved := True, k_tx := None\<rparr>)"
    using h(2) by (auto simp: held_def kept_def core_def buffers_def)
  show ?case
  proof (cases "rc1 = 0 \<and> ok \<and> snt")
    case True
    with Cons.prems(1) c w d n have "tx_bytes en bs ?g6 = Some (g', stuck, rc)" by (simp add: Let_def)
    from Cons.IH [OF this k6(2)] Cons.prems(3) kept_chain [OF k6(1)] show ?thesis by auto
  next
    case False
    with Cons.prems(1) c w d h1 h(1) stuck show ?thesis
      by (auto simp: held_def BUS_ERR_TX_FAILED_def split: if_splits)
  qed
qed simp

lemma kept_start: "kept g (tx_start buf g)" "txd (tx_start buf g) = Some (buf, 0)"
  by (simp_all add: tx_start_def kept_def core_def buffers_def txd_def)

lemma kept_tx_drive:
  assumes "tx_drive en buf g = Some (g', rc)"
  shows "kept g g'"
proof -
  from assms obtain g1 stuck rc1 where b: "tx_bytes en buf (tx_start buf g) = Some (g1, stuck, rc1)"
    by (auto simp: tx_drive_def bind_eq_Some_conv)
  have k1: "kept g g1"
    using tx_bytes_kept [OF b kept_start(2)] kept_chain [OF kept_start(1)] by auto
  let ?g2 = "if k_active g1 then g1\<lparr>k_control := map_option (\<lambda>c. bus_tx_end c (word_of_int (k_tx_end_us g1))) (k_control g1)\<rparr> else g1"
  have k2: "kept g ?g2" using k1 by (auto simp: kept_def core_def buffers_def)
  have fin: "kept g (g3\<lparr>k_tx := None, k_p2_pending := p, k_tx_answered := q\<rparr>)"
    "kept g ((rx_discard en (g3\<lparr>k_tx := None\<rparr>))\<lparr>k_p2_pending := p, k_tx_answered := q\<rparr>)" if "kept g g3" for g3 p q
    using that by (auto simp: kept_def core_def buffers_def rx_discard_def do_kenv_def)
  have "kept g g3" if "tx_finish_echo en ?g2 = Some (g3, rc3)" for g3 rc3
    using held_finish [of en _ ?g2 "(g3, rc3)"] that k2 by (auto simp: tx_finish_echo_def held_def intro: kept_chain)
  with assms b k1 k2 fin show ?thesis
    by (cases "stuck"; cases "rc1 = 0") (auto simp: tx_drive_def bind_eq_Some_conv Let_def split: if_splits)
qed

lemma kept_tx_once:
  assumes "tx_once en buf wait flags g = Some (g', rc)"
  shows "kept g g'"
proof (cases "k_uart_tx_unresolved g")
  case False
  from assms False obtain g1 rc1 where w: "(if wait then wait_before_tx en (flags AND BUS_TX_WAIT_P3_MIN_ONLY \<noteq> 0) g else Some (g, 0)) = Some (g1, rc1)"
    by (auto simp: tx_once_def bind_eq_Some_conv split: if_splits)
  have k1: "kept g g1" using w held.waited [of en _ g "(g1, rc1)" g] by (auto simp: held_def split: if_splits)
  obtain g2 t where n: "kline_now en (client_step en g1) = (g2, t)" by fastforce
  have k2: "kept g g2" using held_trans [OF held_client held_now [OF n]] kept_chain [OF k1] by (simp add: held_def)
  obtain c rc2 where a: "bus_tx_admit (active_control g2) (bus_rx_sequence (k_rx_epoch g2)) (word_of_int t) = (c, rc2)" by fastforce
  let ?g3 = "if k_active g2 then g2\<lparr>k_control := c\<rparr> else g2"
  let ?g4 = "if flags AND BUS_TX_CLEAR_RX_QUEUE \<noteq> 0 then ?g3\<lparr>k_rx_q := []\<rparr> else ?g3"
  have k3: "kept g ?g3" and k4: "kept g ?g4" using k2 by (auto simp: kept_def core_def buffers_def)
  have "kept g g'" if "uart_events en ?g4 = Some g5" "tx_drive en buf (rx_discard en g5) = Some (g', rc)" for g5
  proof -
    have "held ?g4 g5" by (rule held.events [OF that(1)]) simp
    then have "kept g (rx_discard en g5)" using kept_chain [OF kept_chain [OF k4] kept_env(6)] by (simp add: held_def)
    then show ?thesis using kept_tx_drive [OF that(2)] kept_chain by blast
  qed
  with assms False w n a k1 k3 show ?thesis
    by (cases "rc1 = 0"; cases "rc2 = 0") (auto simp: tx_once_def bind_eq_Some_conv Let_def)
qed (use assms in \<open>simp add: tx_once_def\<close>)

lemma kept_tx_retry: "tx_retry en buf flags n (g, rc) = Some (g', rc') \<Longrightarrow> kept g g'"
proof (induction n arbitrary: g rc)
  case (Suc n)
  show ?case
  proof (cases "rc = BUS_ERR_ECHO")
    case True
    let ?g1 = "upd_stats (\<lambda>s. s\<lparr>ks_tx_retries := ks_tx_retries s + 1\<rparr>) g"
    let ?g2 = "delay_until_us en (k_last_bus_us ?g1 + P_TO_US (kc_p2_max (k_cfg ?g1))) ?g1"
    from Suc.prems True obtain g3 rc3 where o: "tx_once en buf True flags ?g2 = Some (g3, rc3)"
      and r: "tx_retry en buf flags n (g3, rc3) = Some (g', rc')" by (auto simp: bind_eq_Some_conv Let_def)
    show ?thesis
      by (rule kept_chain [OF kept_chain [OF kept_chain [OF kept_env(5) kept_env(7)] kept_tx_once [OF o]] Suc.IH [OF r]])
  qed (use Suc.prems in simp)
qed simp

lemma kept_tx_message:
  assumes "tx_message en buf wait flags g = Some (g', rc)" "length buf \<le> KLINE_MAX_MSG"
  shows "kept g g'"
proof -
  from assms(1) obtain g1 rc1 g2 where o: "tx_once en buf wait flags g = Some (g1, rc1)"
    and r: "tx_retry en buf flags (kc_tx_retries (k_cfg g)) (g1, rc1) = Some (g2, rc)"
    and e: "g' = (let x = (if rc = 0 \<or> rc = BUS_ERR_ECHO then upd_stats (\<lambda>s. s\<lparr>ks_tx_msgs := ks_tx_msgs s + 1\<rparr>) g2 else g2)
               in if rc = 0 then publish_loopback buf x else x)"
    by (auto simp: tx_message_def bind_eq_Some_conv Let_def)
  have k: "kept g g2" by (rule kept_chain [OF kept_tx_once [OF o] kept_tx_retry [OF r]])
  have l: "kept x (publish_loopback buf x)" for x :: "'a kline"
    unfolding publish_loopback_def using assms(2) by (auto intro!: kept_queue)
  show ?thesis
    unfolding e Let_def by (auto intro: k kept_chain [OF k kept_env(5)] kept_chain [OF kept_chain [OF k kept_env(5)] l] kept_chain [OF k l])
qed

lemma frame_for_tx_length: "frame_for_tx c d flags = Some buf \<Longrightarrow> length buf \<le> KLINE_MAX_MSG"
  by (auto simp: frame_for_tx_def Let_def split: if_splits)

lemma kept_send_periodic:
  assumes "send_periodic en g = Some g'"
  shows "kept g g'"
proof (cases "frame_for_tx (k_cfg g) (kc_periodic (k_cfg g)) 0")
  case (Some buf)
  with assms obtain g1 rc where m: "tx_message en buf True 0 g = Some (g1, rc)" 
    and e: "g' = (let (g2, now) = kline_now en (upd_stats (\<lambda>s. s\<lparr>ks_periodic_sent := ks_periodic_sent s + 1\<rparr>) g1)
       in g2\<lparr>k_suppress_until_us := now + P_TO_US (kc_p2_max (k_cfg g2)) + W_TO_US KLINE_PERIODIC_QUIET_MS\<rparr>)"
    by (auto simp: send_periodic_def bind_eq_Some_conv case_prod_beta Let_def)
  have s: "kept x (x\<lparr>k_suppress_until_us := t\<rparr>)" for x :: "'a kline" and t by (simp add: kept_def core_def buffers_def)
  have k: "kept g g1" using kept_tx_message [OF m] frame_for_tx_length [OF Some] by simp
  show ?thesis
    unfolding e Let_def case_prod_beta by (rule kept_chain [OF kept_chain [OF kept_chain [OF k kept_env(5)] kept_env(4)] s])
qed (use assms in \<open>simp add: send_periodic_def\<close>)

end
