(* ===== verification/KlineSafe.thy ===== *)
theory KlineSafe
  imports KlineKept
begin

text \<open>
  The sessions and the calls of the K-Line driver. \<open>basis\<close> is what an initialisation leaves alone until it has
  succeeded; a session exists after \<open>do_init\<close> exactly when it did (\<open>kline_session\<close>). \<open>kline_reach\<close> are
  the states of the driver under any sequence of calls and any environment; in all of them every
  buffer has its size, the task has what it uses, and the parameters are in their limits.
\<close>

section \<open>Initialisation\<close>

definition basis :: "'d kline \<Rightarrow> 'd kline \<Rightarrow> bool" where
  "basis g0 g \<longleftrightarrow> fst (core g) = fst (core g0) \<and> fst (snd (core g)) = fst (snd (core g0)) \<and>
     bl_connected (k_link g) = bl_connected (k_link g0) \<and> (buffers g0 \<longrightarrow> buffers g)"

lemma basis_trans [trans]: "basis a b \<Longrightarrow> basis b c \<Longrightarrow> basis a c" by (auto simp: basis_def)

lemma kept_basis: "kept g g' \<Longrightarrow> basis g g'" by (auto simp: kept_def basis_def core_def)

lemma kept_apply: "kept g (fst (apply_line_cfg en g))"
  by (simp add: apply_line_cfg_def on_kenv_eq Let_def kept_def core_def buffers_def)

lemma kept_level: "kept g (send_level en b g)" "kept g (init_set_level en b g)"
  by (simp_all add: send_level_def init_set_level_def do_kenv_def Let_def kept_def core_def buffers_def)

lemma kept_levels: "kept g (fold (\<lambda>i. send_level en (f i)) xs g)"
proof (induction xs arbitrary: g)
  case (Cons i xs)
  show ?case using kept_chain [OF kept_level(1) Cons] by simp
qed simp

lemma kept_address: "kept g (send_5baud_address en addr g)"
  unfolding send_5baud_address_def Let_def
  by (rule kept_chain [OF kept_chain [OF kept_chain [OF kept_chain [OF kept_env(3) kept_level(1)] kept_levels] kept_level(1)] kept_env(3)])

lemma kept_wake_up: "kept g (wake_up en g)"
proof -
  have p: "kept x (x\<lparr>k_pending_status := 0\<rparr>)" for x :: "'a kline" by (simp add: kept_def core_def buffers_def)
  show ?thesis
    unfolding wake_up_def Let_def case_prod_beta
    by (rule kept_chain [OF kept_chain [OF kept_chain [OF kept_chain [OF kept_chain [OF kept_chain [OF kept_chain [OF kept_chain
      [OF kept_env(3) kept_env(4)] kept_level(2)] kept_env(7)] kept_level(2)] kept_env(7)] kept_env(3)] kept_env(6)] p])
qed

lemma kept_sync_loop: "sync_loop en a s c n g = Some x \<Longrightarrow> kept g (fst x)"
proof (rule sync_loop.raw_induct [where P = "\<lambda>en a s c n g x. kept g (fst x)", rotated], assumption, goal_cases)
  case (1 loop en a s c n g x)
  have e: "kept g (g\<lparr>k_env := d\<rparr>)" for d by (rule kept_env(1))
  show ?case
    using 1(3) kept_chain [OF e 1(2)] e
    by (auto simp: on_kenv_eq kline_now_def do_kenv_def split: sum.splits if_splits)
qed

lemma kept_detect:
  assumes "detect_sync_baud en a ms g = Some (g', r)"
  shows "kept g g'"
proof -
  obtain g1 err where c: "on_kenv (kn_capture_start en) g = (g1, err)" by fastforce
  have k: "kept g g1" using kept_env(2) [of g "kn_capture_start en"] c by simp
  have "kept g g'" if "sync_loop en x y z n g1 = Some (g', r)" for x y z n
    using kept_chain [OF k kept_sync_loop [OF that]] by simp
  with assms c k show ?thesis by (auto simp: detect_sync_baud_def Let_def split: if_splits)
qed

lemma kept_sync:
  assumes "five_baud_sync en addr g = Some (g', r)"
  shows "kept g g'"
proof -
  have b: "kept x (x\<lparr>k_active_baud := v\<rparr>)" for x :: "'a kline" and v by (simp add: kept_def core_def buffers_def)
  obtain g1 err where a: "apply_line_cfg en (g\<lparr>k_active_baud := kc_baud (k_cfg g)\<rparr>) = (g1, err)" by fastforce
  have k1: "kept g g1" using kept_chain [OF b kept_apply] a by (metis fst_conv)
  show ?thesis
  proof (cases "err = ESP_OK")
    case True
    let ?g2 = "rx_discard en (delay_until_us en (k_last_bus_us g1 + init_idle_us (k_cfg g1)) g1)"
    obtain g3 t where n: "kline_now en (send_5baud_address en addr ?g2) = (g3, t)" by fastforce
    have k3: "kept g (rx_discard en g3)"
      using kept_chain [OF kept_chain [OF kept_chain [OF kept_chain [OF k1 kept_env(7)] kept_env(6)] kept_address] kept_env(4)] n kept_chain [OF _ kept_env(6)]
      by (metis fst_conv)
    from assms a True n obtain g4 sync where d: "detect_sync_baud en t KLINE_WINDOW_SLACK_MS (rx_discard en g3) = Some (g4, sync)"
      by (auto simp: five_baud_sync_def Let_def bind_eq_Some_conv)
    have k4: "kept g g4" by (rule kept_chain [OF k3 kept_detect [OF d]])
    have k5: "kept g (fst (apply_line_cfg en ((delay_until_us en s g4)\<lparr>k_active_baud := v\<rparr>)))" for s v
      by (rule kept_chain [OF kept_chain [OF kept_chain [OF k4 kept_env(7)] b] kept_apply])
    have k6: "kept g (upd_stats u (fst (apply_line_cfg en (x\<lparr>k_active_baud := w\<rparr>))))" if "kept g x" for x u w
      by (rule kept_chain [OF kept_chain [OF kept_chain [OF that b] kept_apply] kept_env(5)])
    show ?thesis
      using assms a True n d k4 kept_chain [OF k4 kept_env(5)] k6 [OF k5] kept_chain [OF kept_chain [OF k5 kept_env(6)] kept_env(5)]
      by (auto simp: five_baud_sync_def Let_def case_prod_beta split: option.splits if_splits)
  next
    case False
    with assms a k1 show ?thesis by (simp add: five_baud_sync_def Let_def)
  qed
qed

lemma kept_raw_byte: "rx_raw_byte en deadline g = Some (g', b) \<Longrightarrow> kept g g'"
  using held.raw_byte [of en deadline g "(g', b)" g] by (simp add: held_def)

lemma kept_stat: "kept g (no_keys g)" "kept g (bad_keys g)"
  by (simp_all add: no_keys_def bad_keys_def kept_env(5))

lemma kept_keys:
  assumes "five_baud_keys en s bt g = Some (g', r)"
  shows "kept g g'"
proof -
  from assms obtain g1 b1 where r1: "rx_raw_byte en (s + W_TO_US (kc_w2_max (k_cfg g) + KLINE_WINDOW_SLACK_MS)) g = Some (g1, b1)"
    by (auto simp: five_baud_keys_def bind_eq_Some_conv)
  have k1: "kept g g1" by (rule kept_raw_byte [OF r1])
  show ?thesis
  proof (cases b1)
    case (Some b)
    obtain g2 t where n: "kline_now en g1 = (g2, t)" by fastforce
    let ?g3 = "upd_stats (\<lambda>st. st\<lparr>ks_last_w2_us := span_us s t bt\<rparr>) g2"
    have k3: "kept g ?g3" using kept_chain [OF kept_chain [OF k1 kept_env(4) [of g1 en]] kept_env(5)] n by simp
    from assms r1 Some n obtain g4 b2 where r2: "rx_raw_byte en (t + W_TO_US (kc_w3_max (k_cfg ?g3) + KLINE_WINDOW_SLACK_MS)) ?g3 = Some (g4, b2)"
      by (auto simp: five_baud_keys_def bind_eq_Some_conv Let_def)
    have k4: "kept g g4" by (rule kept_chain [OF k3 kept_raw_byte [OF r2]])
    have k5: "kept g (upd_stats u (fst (kline_now en g4)))" for u by (rule kept_chain [OF kept_chain [OF k4 kept_env(4)] kept_env(5)])
    show ?thesis
      using assms r1 Some n r2 kept_chain [OF k4 kept_stat(1)] k5
      by (auto simp: five_baud_keys_def Let_def case_prod_beta split: option.splits)
  qed (use assms r1 kept_chain [OF k1 kept_stat(1)] in \<open>auto simp: five_baud_keys_def\<close>)
qed

lemma kept_inverted:
  assumes "five_baud_address en addr t bt g = Some g'"
  shows "kept g g'"
proof (cases "kc_five_baud_mod (k_cfg g) = BUS_FIVE_BAUD_STD_INIT \<or> kc_five_baud_mod (k_cfg g) = BUS_FIVE_BAUD_INV_ADDR")
  case True
  let ?from = "if kc_five_baud_mod (k_cfg g) = BUS_FIVE_BAUD_STD_INIT then k_tx_end_us g else t"
  from assms True obtain g1 b where r: "rx_raw_byte en (?from + W_TO_US (kc_w4_max (k_cfg g) + KLINE_WINDOW_SLACK_MS)) g = Some (g1, b)"
    by (auto simp: five_baud_address_def bind_eq_Some_conv Let_def)
  have k: "kept g g1" by (rule kept_raw_byte [OF r])
  have u: "kept g (upd_stats u g1)" "kept g (upd_stats u (fst (kline_now en g1)))" "kept g (upd_stats u' (upd_stats u (fst (kline_now en g1))))" for u u'
    using kept_chain [OF k kept_env(5)] kept_chain [OF kept_chain [OF k kept_env(4)] kept_env(5)]
      kept_chain [OF kept_chain [OF kept_chain [OF k kept_env(4)] kept_env(5)] kept_env(5)] by auto
  show ?thesis
    using assms True r u by (auto simp: five_baud_address_def Let_def case_prod_beta split: option.splits if_splits)
qed (use assms in \<open>simp add: five_baud_address_def\<close>)

text \<open>What both initialisations leave when they succeed: the two key bytes in both places.\<close>

definition same_keys :: "'d kline \<Rightarrow> bool" where
  "same_keys g \<longleftrightarrow> bl_key (k_link g) = [kb1 (k_keys g), kb2 (k_keys g)]"

lemma decoded_bytes: "kb1 (snd (kline_decode_keybytes a b)) = a" "kb2 (snd (kline_decode_keybytes a b)) = b"
  by (simp_all add: kline_decode_keybytes_def keybytes_raw_def Let_def)

lemma basis_5baud:
  assumes "init_5baud en i g = Some (g', rc)"
  shows "basis g g' \<and> (rc = 0 \<longrightarrow> same_keys g')"
proof -
  from assms obtain g1 sync where s: "five_baud_sync en (bi_address i) g = Some (g1, sync)"
    by (auto simp: init_5baud_def bind_eq_Some_conv)
  have k1: "kept g g1" by (rule kept_sync [OF s])
  show ?thesis
  proof (cases sync)
    case None
    with assms s k1 show ?thesis by (auto simp: init_5baud_def BUS_ERR_INIT_def kept_basis)
  next
    case (Some x)
    then obtain sync_at bt where sync: "sync = Some (sync_at, bt)" by (cases x) simp
    from assms s sync obtain g2 ks where q: "five_baud_keys en sync_at bt g1 = Some (g2, ks)"
      by (auto simp: init_5baud_def bind_eq_Some_conv)
    have k2: "kept g g2" by (rule kept_chain [OF k1 kept_keys [OF q]])
    show ?thesis
    proof (cases ks)
      case None
      with assms s sync q k2 show ?thesis by (auto simp: init_5baud_def BUS_ERR_INIT_def kept_basis)
    next
      case (Some y)
      then obtain b1 b2 t where ks: "ks = Some (b1, b2, t)" by (cases y) simp
      obtain known keys where dk: "kline_decode_keybytes b1 b2 = (known, keys)" by fastforce
      let ?g3 = "if known then g2 else bad_keys g2"
      have k3: "kept g ?g3" using k2 kept_chain [OF k2 kept_stat(2)] by simp
      let ?m = "kc_five_baud_mod (k_cfg ?g3) = BUS_FIVE_BAUD_STD_INIT \<or> kc_five_baud_mod (k_cfg ?g3) = BUS_FIVE_BAUD_INV_KB2"
      from assms s sync q ks dk obtain g4 rc4 where
        o: "(if ?m then tx_once en [NOT b2] False 0 (delay_until_us en (t + W_TO_US (kc_w4_min (k_cfg ?g3))) ?g3) else Some (?g3, 0)) = Some (g4, rc4)"
        and r: "(if rc4 \<noteq> 0 then Some (g4, rc4) else five_baud_address en (bi_address i) t bt g4 \<bind>
           (\<lambda>g. Some (upd_link (\<lambda>l. l\<lparr>bl_variant := kline_variant_num (variant keys), bl_key := [b1, b2],
                 bl_key_code := unat (kb_code keys), bl_address := bi_address i,
                 bl_w1_us := ks_last_w1_us (k_stats g), bl_w2_us := ks_last_w2_us (k_stats g),
                 bl_w3_us := ks_last_w3_us (k_stats g), bl_w4_us := ks_last_w4_us (k_stats g)\<rparr>) (g\<lparr>k_keys := keys\<rparr>), 0))) = Some (g', rc)"
        by (auto simp: init_5baud_def bind_eq_Some_conv Let_def)
      have k4: "kept g g4"
        using o k3 kept_chain [OF kept_chain [OF k3 kept_env(7)] kept_tx_once] by (auto split: if_splits)
      show ?thesis
      proof (cases "rc4 = 0")
        case True
        with r obtain g5 where a: "five_baud_address en (bi_address i) t bt g4 = Some g5"
          and e: "g' = upd_link (\<lambda>l. l\<lparr>bl_variant := kline_variant_num (variant keys), bl_key := [b1, b2],
                 bl_key_code := unat (kb_code keys), bl_address := bi_address i,
                 bl_w1_us := ks_last_w1_us (k_stats g5), bl_w2_us := ks_last_w2_us (k_stats g5),
                 bl_w3_us := ks_last_w3_us (k_stats g5), bl_w4_us := ks_last_w4_us (k_stats g5)\<rparr>) (g5\<lparr>k_keys := keys\<rparr>)"
          by (auto simp: bind_eq_Some_conv)
        have "basis g g5" by (rule kept_basis [OF kept_chain [OF k4 kept_inverted [OF a]]])
        moreover have "basis g5 g'" by (simp add: e basis_def core_def buffers_def upd_link_def)
        moreover have "same_keys g'" using decoded_bytes [of b1 b2] dk by (simp add: e same_keys_def upd_link_def)
        ultimately show ?thesis using basis_trans by blast
      qed (use r k4 in \<open>auto simp: kept_basis\<close>)
    qed
  qed
qed

lemma kept_for_request:
  assumes "fast_request en io g = Some (g', rc)"
  shows "kept g g'"
proof (cases "frame_for_tx (k_cfg g) (take (bi_msg_len io) (bi_msg io)) (bi_tx_flags io)")
  case (Some buf)
  from assms Some obtain g1 rc1 where o: "(if bi_raw_response io then tx_once en buf False (bi_tx_flags io) g
             else tx_message en buf False (bi_tx_flags io) g) = Some (g1, rc1)"
    and e: "g' = (if rc1 = 0 \<and> bi_raw_response io then upd_stats (\<lambda>s. s\<lparr>ks_tx_msgs := ks_tx_msgs s + 1\<rparr>) g1 else g1)"
    by (auto simp: fast_request_def bind_eq_Some_conv)
  have k: "kept g g1" using o kept_tx_once kept_tx_message frame_for_tx_length [OF Some] by (metis (full_types))
  then show ?thesis unfolding e using kept_chain [OF k kept_env(5)] by simp
qed (use assms in \<open>simp add: fast_request_def\<close>)

lemma basis_fast_keys:
  assumes "fast_keys io buf g = (g', rc)"
  shows "basis g g' \<and> (rc = 0 \<longrightarrow> same_keys g')"
proof -
  have s: "basis g (bad_keys g)" by (rule kept_basis [OF kept_stat(2)])
  have l: "basis x (upd_link (\<lambda>l. l\<lparr>bl_variant := v, bl_key := k, bl_key_code := c, bl_address := a\<rparr>) (x\<lparr>k_keys := y\<rparr>))"
    for x :: "'a kline" and v k c a y by (simp add: basis_def core_def buffers_def upd_link_def)
  show ?thesis
    using assms s l basis_trans [OF s l]
    by (auto simp: fast_keys_def Let_def case_prod_beta BUS_ERR_INIT_def same_keys_def upd_link_def split: if_splits)
qed

lemma basis_reply:
  assumes "fast_reply en io g = Some (g', io', rc)" "same_keys g"
  shows "basis g g' \<and> (rc = 0 \<longrightarrow> same_keys g')"
proof -
  obtain g1 t where n: "(if bi_msg_len io \<noteq> 0 then (g, k_tx_end_us g) else kline_now en g) = (g1, t)" by fastforce
  have k1: "kept g g1" using n kept_env(4) [of g en] by (auto split: if_splits)
  let ?dl = "t + (if bi_raw_response io then P_TO_US (kc_p2_max (k_cfg g1)) else W_TO_US KLINE_FAST_RESP_MS)"
  from assms(1) n obtain r g2 fo where w: "kline_wait_frame en ?dl g1 = Some r" and l: "reply_loop en r = Some (g2, fo)"
    and rest: "(case fo of None \<Rightarrow> Some (no_keys g2, io, BUS_ERR_INIT)
     | Some f \<Rightarrow>
         if BUS_INIT_MSG_MAX < length (kf_data f) then Some (g2, io, BUS_ERR_NO_SPACE)
         else
           let io = io\<lparr>bi_reply := kf_data f, bi_reply_len := length (kf_data f), bi_reply_timestamp_us := word_of_int (kf_end_us f)\<rparr>
           in if bi_raw_response io then Some (g2, io, 0)
              else (case fast_keys io (kf_data f) g2 of (g, rc) \<Rightarrow> Some (g, io, rc))) = Some (g', io', rc)"
    by (auto simp: fast_reply_def bind_eq_Some_conv Let_def)
  have "held g1 (fst r) \<and> pred_option (\<lambda>f. buffers g1 \<longrightarrow> frame_wf f) (snd r)"
    using held.awaited [of en ?dl g1 "fst r" "snd r" g1] w by simp
  then have "held g1 g2" using held.replied [OF l, of g1] by simp
  then have k2: "kept g g2" using k1 kept_chain by (auto simp: held_def)
  have sk: "same_keys g2" using k2 assms(2) by (simp add: kept_def core_def same_keys_def)
  show ?thesis
  proof (cases fo)
    case None
    with rest kept_chain [OF k2 kept_stat(1)] show ?thesis by (auto simp: BUS_ERR_INIT_def kept_basis)
  next
    case (Some f)
    obtain g3 rc3 where fk: "fast_keys (io\<lparr>bi_reply := kf_data f, bi_reply_len := length (kf_data f), bi_reply_timestamp_us := word_of_int (kf_end_us f)\<rparr>)
      (kf_data f) g2 = (g3, rc3)" by fastforce
    show ?thesis
      using rest Some fk kept_basis [OF k2] sk basis_trans [OF kept_basis [OF k2]] basis_fast_keys [OF fk]
      by (auto simp: Let_def BUS_ERR_NO_SPACE_def split: if_splits)
  qed
qed

lemma basis_fast:
  assumes "init_fast en io g = Some (g', io', rc)" "same_keys g"
  shows "basis g g' \<and> (rc = 0 \<longrightarrow> same_keys g')"
proof -
  have b: "kept x (x\<lparr>k_active_baud := v\<rparr>)" for x :: "'a kline" and v by (simp add: kept_def core_def buffers_def)
  obtain g1 err where a: "apply_line_cfg en (g\<lparr>k_active_baud := kc_baud (k_cfg g)\<rparr>) = (g1, err)" by fastforce
  have k1: "kept g g1" using kept_chain [OF b kept_apply] a by (metis fst_conv)
  let ?bad = "BUS_INIT_MSG_MAX < bi_msg_len io \<or> bi_msg_len io \<noteq> 0 \<and> frame_for_tx (k_cfg g) (take (bi_msg_len io) (bi_msg io)) (bi_tx_flags io) = None"
  show ?thesis
  proof (cases "?bad \<or> err \<noteq> ESP_OK")
    case True
    with assms a kept_basis [OF k1] kept_basis [OF kept_self [of g]] show ?thesis
      by (auto simp: init_fast_def Let_def BUS_ERR_BAD_ARG_def BUS_ERR_INIT_def split: if_splits)
  next
    case False
    let ?g2 = "wake_up en (rx_discard en (delay_until_us en (k_last_bus_us g1 + W_TO_US (kc_tidle (k_cfg g1))) g1))"
    let ?io = "io\<lparr>bi_reply_len := 0\<rparr>"
    have k2: "kept g ?g2" by (rule kept_chain [OF kept_chain [OF kept_chain [OF k1 kept_env(7)] kept_env(6)] kept_wake_up])
    from assms(1) False a obtain g3 rc3 where q: "(if bi_msg_len ?io \<noteq> 0 then fast_request en ?io ?g2 else Some (?g2, 0)) = Some (g3, rc3)"
      and rest: "(if rc3 \<noteq> 0 then Some (g3, ?io, rc3) else
         let g = upd_link (\<lambda>l. l\<lparr>bl_address := bi_address ?io\<rparr>) g3 in
            if bi_no_response ?io \<or> \<not> bi_raw_response ?io \<and> bi_msg_len ?io = 0 then Some (g, ?io, 0)
            else fast_reply en ?io g) = Some (g', io', rc)"
      by (auto simp: init_fast_def Let_def bind_eq_Some_conv)
    have k3: "kept g g3" using q k2 kept_chain [OF k2 kept_for_request [of en ?io ?g2 g3 rc3]] by (simp split: if_splits)
    let ?g4 = "upd_link (\<lambda>l. l\<lparr>bl_address := bi_address ?io\<rparr>) g3"
    have b4: "basis g ?g4"
      by (rule basis_trans [OF kept_basis [OF k3]]) (simp add: basis_def core_def buffers_def upd_link_def)
    have s4: "same_keys ?g4" using k3 assms(2) by (simp add: kept_def core_def same_keys_def upd_link_def)
    show ?thesis
      using rest k3 b4 s4 basis_reply [OF _ s4] basis_trans [OF b4]
      by (auto simp: Let_def kept_basis split: if_splits)
  qed
qed

section \<open>The session\<close>

text \<open>The configuration without its periodic message, and the timers that key bytes may set.\<close>

definition cfg_rest :: "kline_cfg \<Rightarrow> kline_cfg" where
  "cfg_rest c = c\<lparr>kc_periodic := []\<rparr>"

lemma default_periodic_cfg: "cfg_rest (default_periodic v c) = cfg_rest c" "0 < length (kc_periodic (default_periodic v c))"
  "length (kc_periodic (default_periodic v c)) \<le> BUS_PERIODIC_MAX"
  by (simp_all add: default_periodic_def kline_default_wakeup_def Let_def BUS_PERIODIC_MAX_def cfg_rest_def)

lemma timing_cfg: "\<not> kc_timing_from_keybytes c \<Longrightarrow> timing_of_keys k c = c" "kc_periodic (timing_of_keys k c) = kc_periodic c"
  by (simp_all add: timing_of_keys_def Let_def)

lemma link_established_link:
  "k_link (link_established g) = (k_link g)\<lparr>bl_connected := True, bl_baud := k_active_baud g, bl_key := [kb1 (k_keys g), kb2 (k_keys g)]\<rparr>"
  "k_active_baud (link_established g) = k_active_baud g"
  by (simp_all add: link_established_def Let_def upd_link_def upd_cfg_def upd_stats_def)

lemma link_established_cfg:
  "k_cfg (link_established g) =
     (let c = timing_of_keys (k_keys g) (k_cfg g)
      in if kc_periodic c = [] then default_periodic (kline_variant_of (bl_variant (k_link g))) c else c)"
  by (simp add: link_established_def Let_def upd_link_def upd_cfg_def upd_stats_def)

lemma link_established_rest:
  "(k_started (link_established g), k_uart_installed (link_established g), k_objs (link_established g), k_req (link_established g)) =
     (k_started g, k_uart_installed g, k_objs g, k_req g)"
  "buffers (link_established g) = buffers g"
  by (simp_all add: link_established_def Let_def upd_link_def upd_cfg_def upd_stats_def buffers_def)

text \<open>The state the attempt starts from.\<close>

definition attempt :: "'d kline \<Rightarrow> 'd kline" where
  "attempt g = (upd_stats (\<lambda>s. s\<lparr>ks_init_attempts := ks_init_attempts s + 1\<rparr>) g)\<lparr>k_link := link_zero, k_keys := keys_zero\<rparr>"

lemma attempt_simps [simp]:
  "same_keys (attempt g)" "bl_connected (k_link (attempt g)) = False" "buffers (attempt g) = buffers g" "k_cfg (attempt g) = k_cfg g"
  "fst (core (attempt g)) = fst (core g)" "fst (snd (core (attempt g))) = fst (snd (core g))"
  by (simp_all add: attempt_def same_keys_def link_zero_def keys_zero_def keybytes_raw_def upd_stats_def buffers_def core_def)

lemma do_init_cases:
  assumes "do_init en which io g = Some (g', io', rc)"
  obtains (stuck) "k_uart_tx_unresolved g" "g' = g" "io' = io" "rc = BUS_ERR_NOT_READY"
  | (failed) g1 t where "basis (attempt g) g1" "rc \<noteq> 0" "g' = rx_discard en ((fst (kline_now en g1))\<lparr>k_last_bus_us := t\<rparr>)"
  | (made) g1 d where "basis (attempt g) g1" "same_keys g1" "rc = 0" "bi_key io' = bl_key (k_link g1)"
      "g' = (if d then rx_discard en (link_established g1) else link_established g1)\<lparr>k_pending_status := 0\<rparr>"
proof (cases "k_uart_tx_unresolved g")
  case True
  then have "g' = g \<and> io' = io \<and> rc = BUS_ERR_NOT_READY" using assms by (auto simp: do_init_def)
  then show ?thesis using stuck True by blast
next
  case False
  have at: "(upd_stats (\<lambda>s. s\<lparr>ks_init_attempts := ks_init_attempts s + 1\<rparr>) g)\<lparr>k_link := link_zero, k_keys := keys_zero\<rparr> = attempt g"
    by (simp add: attempt_def)
  from assms False obtain g1 io1 rc1 where
    i: "(if which = CMD_FIVE_BAUD then init_5baud en io (attempt g) \<bind> (\<lambda>(g, rc). Some (g, io, rc)) else init_fast en io (attempt g)) = Some (g1, io1, rc1)"
    and rest: "(if rc1 \<noteq> 0 then (let (g, now) = kline_now en g1 in Some (rx_discard en (g\<lparr>k_last_bus_us := now\<rparr>), io1, rc1))
        else
          let io = io1\<lparr>bi_key := bl_key (k_link g1)\<rparr>;
              g = link_established g1;
              g = (if which \<noteq> CMD_FAST_INIT \<or> \<not> bi_raw_response io then rx_discard en g else g)
          in Some (g\<lparr>k_pending_status := 0\<rparr>, io, 0)) = Some (g', io', rc)"
    unfolding do_init_def at Let_def by (auto simp: bind_eq_Some_conv)
  have b: "basis (attempt g) g1 \<and> (rc1 = 0 \<longrightarrow> same_keys g1)"
    using i by (auto simp: bind_eq_Some_conv split: if_splits dest!: basis_5baud dest: basis_fast)
  show ?thesis
  proof (cases "rc1 = 0")
    case True
    with rest b show ?thesis
      using made [of g1 "which \<noteq> CMD_FAST_INIT \<or> \<not> bi_raw_response io1"] by (auto simp: Let_def)
  next
    case False
    with rest b show ?thesis using failed [of g1 "snd (kline_now en g1)"] by (auto simp: Let_def case_prod_beta)
  qed
qed

text \<open>The K-Line driver has a session after an initialisation exactly when it succeeded. A session has the
  rate of the line and the key bytes the caller is told, and a message that holds it open; and without
  leave to take the timing from the key bytes, an initialisation, successful or not, changes no
  parameter.
\<close>
theorem kline_session:
  assumes "do_init en which io g = Some (g', io', rc)" and "\<not> k_uart_tx_unresolved g"
  shows "(bl_connected (k_link g') \<longleftrightarrow> rc = 0) \<and>
    (rc = 0 \<longrightarrow> bl_baud (k_link g') = k_active_baud g' \<and> bl_key (k_link g') = bi_key io' \<and> kc_periodic (k_cfg g') \<noteq> []) \<and>
    (rc \<noteq> 0 \<or> \<not> kc_timing_from_keybytes (k_cfg g) \<longrightarrow> cfg_rest (k_cfg g') = cfg_rest (k_cfg g))"
  using assms(1)
proof (cases rule: do_init_cases)
  case stuck
  then show ?thesis using assms(2) by simp
next
  case (failed g1 t)
  have "k_link g' = k_link g1" "k_cfg g' = k_cfg g1"
    by (simp_all add: failed(3) rx_discard_def do_kenv_def kline_now_def on_kenv_eq)
  moreover have "\<not> bl_connected (k_link g1)" "k_cfg g1 = k_cfg g"
    using failed(1) by (auto simp: basis_def attempt_def core_def link_zero_def upd_stats_def)
  ultimately show ?thesis using failed(2) by simp
next
  case (made g1 d)
  have l: "k_link g' = k_link (link_established g1)" "k_cfg g' = k_cfg (link_established g1)" "k_active_baud g' = k_active_baud g1"
    by (simp_all add: made(5) rx_discard_def do_kenv_def link_established_link)
  have c: "k_cfg g1 = k_cfg g" using made(1) by (auto simp: basis_def attempt_def core_def upd_stats_def)
  have "kc_periodic (k_cfg g') \<noteq> []"
    using default_periodic_cfg(2) by (auto simp: l(2) link_established_cfg Let_def)
  moreover have "\<not> kc_timing_from_keybytes (k_cfg g) \<Longrightarrow> cfg_rest (k_cfg g') = cfg_rest (k_cfg g)"
    by (simp add: l(2) link_established_cfg Let_def c timing_cfg default_periodic_cfg(1))
  moreover have "bl_key (k_link g1) = [kb1 (k_keys g1), kb2 (k_keys g1)]" using made(2) by (simp add: same_keys_def)
  ultimately show ?thesis using made(3,4) by (simp add: l link_established_link)
qed

text \<open>A pulse without a request on a line that stays silent.\<close>

lemma silent_pulse: "\<exists>g' io'. do_init silent_line CMD_FAST_INIT bus_init_zero (kline_zero d) = Some (g', io', 0)"
proof -
  have "snd (apply_line_cfg silent_line g) = ESP_OK" for g
    by (simp add: apply_line_cfg_def on_kenv_eq Let_def silent_line_def)
  then show ?thesis
    by (simp add: do_init_def init_fast_def Let_def case_prod_beta bus_init_zero_def BUS_INIT_MSG_MAX_def kline_zero_def)
qed

lemma kline_session_witness:
  "\<exists>g' io'. do_init silent_line CMD_FAST_INIT bus_init_zero (kline_zero 0) = Some (g', io', 0) \<and> bl_connected (k_link g')"
proof -
  obtain g' io' where i: "do_init silent_line CMD_FAST_INIT bus_init_zero (kline_zero 0) = Some (g', io', 0)"
    using silent_pulse by blast
  have "\<not> k_uart_tx_unresolved (kline_zero (0::int))" by (simp add: kline_zero_def)
  from kline_session [OF i this] i show ?thesis by simp
qed

section \<open>Every call\<close>

text \<open>
  The sizes of everything the driver fills; that the task, as long as there is one, has the UART and the
  queues it uses, that a started driver has its task, and that its parameters are in their limits.
\<close>

definition driver_ok :: "'d kline \<Rightarrow> bool" where
  "driver_ok g \<longleftrightarrow> buffers g \<and> length (k_req g) \<le> KLINE_MAX_MSG \<and> length (kc_periodic (k_cfg g)) \<le> BUS_PERIODIC_MAX \<and>
     (k_objs g OBJ_TASK \<longrightarrow> k_uart_installed g \<and> queues_made g) \<and>
     (k_started g \<longrightarrow> k_objs g OBJ_TASK) \<and> (k_objs g OBJ_TASK \<longrightarrow> cfg_valid (k_cfg g))"

lemma driver_ok_kept: "kept g g' \<Longrightarrow> driver_ok g \<Longrightarrow> driver_ok g'"
  by (auto simp: kept_def core_def driver_ok_def queues_made_def)

lemma driver_ok_simps [simp]:
  "driver_ok (g\<lparr>k_result := r\<rparr>) = driver_ok g" "driver_ok (g\<lparr>k_active := a\<rparr>) = driver_ok g"
  "driver_ok (g\<lparr>k_req_init := i\<rparr>) = driver_ok g" "driver_ok (g\<lparr>k_pending_inits := n\<rparr>) = driver_ok g"
  "driver_ok (g\<lparr>k_command_pending := b\<rparr>) = driver_ok g" "driver_ok (g\<lparr>k_suppress_until_us := u\<rparr>) = driver_ok g"
  "driver_ok (g\<lparr>k_link := l\<rparr>) = driver_ok g" "driver_ok (g\<lparr>k_keys := k\<rparr>) = driver_ok g"
  "driver_ok (g\<lparr>k_cmd_q := q\<rparr>) = driver_ok g" "driver_ok (g\<lparr>k_command_timed_out := t\<rparr>) = driver_ok g"
  "driver_ok (g\<lparr>k_req_flags := f\<rparr>) = driver_ok g" "driver_ok (g\<lparr>k_control := c\<rparr>) = driver_ok g"
  "driver_ok (g\<lparr>k_stop_requested := s\<rparr>) = driver_ok g" "driver_ok (g\<lparr>k_pending_status := p\<rparr>) = driver_ok g"
  "driver_ok (g\<lparr>k_stats := st\<rparr>) = driver_ok g" "driver_ok (g\<lparr>k_env := d\<rparr>) = driver_ok g"
  "driver_ok (g\<lparr>k_rx_epoch := ep\<rparr>) = driver_ok g" "driver_ok (g\<lparr>k_active_baud := bd\<rparr>) = driver_ok g"
  by (simp_all add: driver_ok_def buffers_def queues_made_def)

lemma cfg_valid_p:
  assumes "cfg_valid c" "v \<le> 0xFFFF"
  shows "0 < v \<Longrightarrow> cfg_valid (c\<lparr>kc_p1_max := v\<rparr>)" "cfg_valid (c\<lparr>kc_p2_max := v\<rparr>)" "cfg_valid (c\<lparr>kc_p3_min := v\<rparr>)" "cfg_valid (c\<lparr>kc_p4_min := v\<rparr>)"
  using assms cfg_valid_slot [OF assms(1) cfg_slot.simps(2)] cfg_valid_slot [OF assms(1) cfg_slot.simps(3)]
    cfg_valid_slot [OF assms(1) cfg_slot.simps(4)] cfg_valid_slot [OF assms(1) cfg_slot.simps(5)] by simp_all

lemma cfg_valid_timing: "cfg_valid c \<Longrightarrow> cfg_valid (timing_of_keys k c)"
  by (simp add: timing_of_keys_def Let_def kline_timing_normal_def kline_timing_extended_def P_FROM_MS_def cfg_valid_p)

lemma cfg_valid_periodic: "cfg_valid (default_periodic v c) = cfg_valid c"
proof -
  have "sl_get s (default_periodic v c) = sl_get s c" if "cfg_slot p = Some (lo, hi, s)" for p lo hi s
    using that by (erule_tac slotE) (auto simp: default_periodic_def kline_default_wakeup_def BUS_PERIODIC_MAX_def)
  then show ?thesis by (auto simp: cfg_valid_def)
qed

lemma driver_ok_established:
  assumes "driver_ok g"
  shows "driver_ok (link_established g)"
proof -
  have "cfg_valid (k_cfg (link_established g))" if "k_objs g OBJ_TASK"
    using assms that by (auto simp: link_established_cfg Let_def cfg_valid_periodic driver_ok_def intro: cfg_valid_timing)
  moreover have "length (kc_periodic (k_cfg (link_established g))) \<le> BUS_PERIODIC_MAX"
    using assms by (auto simp: link_established_cfg Let_def driver_ok_def timing_cfg default_periodic_cfg(3))
  ultimately show ?thesis
    using assms link_established_rest [of g] by (auto simp: driver_ok_def queues_made_def)
qed

lemma driver_ok_init:
  assumes "do_init en which io g = Some (g', io', rc)" "driver_ok g"
  shows "driver_ok g'"
  using assms(1)
proof (cases rule: do_init_cases)
  case stuck
  then show ?thesis using assms(2) by simp
next
  case (failed g1 t)
  have "driver_ok g1" using failed(1) assms(2) by (auto simp: basis_def core_def driver_ok_def queues_made_def attempt_def upd_stats_def buffers_def)
  then have "driver_ok ((fst (kline_now en g1))\<lparr>k_last_bus_us := t\<rparr>)"
    by (simp add: kline_now_def on_kenv_eq driver_ok_def buffers_def queues_made_def)
  then show ?thesis unfolding failed(3) by (rule driver_ok_kept [OF kept_env(6)])
next
  case (made g1 d)
  have "driver_ok g1" using made(1) assms(2) by (auto simp: basis_def core_def driver_ok_def queues_made_def attempt_def upd_stats_def buffers_def)
  then have e: "driver_ok (link_established g1)" by (rule driver_ok_established)
  show ?thesis unfolding made(5) using e driver_ok_kept [OF kept_env(6) e] by simp
qed

lemma driver_ok_stop:
  assumes "do_stop_comm en g = Some (g', rc)" "driver_ok g"
  shows "driver_ok g'"
proof -
  have m: "driver_ok g1" if "tx_message en (stop_message a) True 0 g = Some (g1, r)" for a g1 r
    by (rule driver_ok_kept [OF kept_tx_message [OF that] assms(2)]) (simp add: stop_message_def KLINE_MAX_MSG_def Let_def)
  have n: "driver_ok (fst (kline_now en g1))" if "driver_ok g1" for g1 by (rule driver_ok_kept [OF kept_env(4) that])
  show ?thesis
    using assms m n by (auto simp: do_stop_comm_def bind_eq_Some_conv Let_def case_prod_beta split: if_splits)
qed

lemma started_init: "do_init en which io g = Some (g', io', rc) \<Longrightarrow> k_started g' = k_started g"
proof (erule do_init_cases)
  fix g1 t assume "basis (attempt g) g1" "g' = rx_discard en ((fst (kline_now en g1))\<lparr>k_last_bus_us := t\<rparr>)"
  then show ?thesis by (auto simp: basis_def core_def attempt_def upd_stats_def rx_discard_def do_kenv_def kline_now_def on_kenv_eq)
next
  fix g1 d
  assume "basis (attempt g) g1"
    "g' = (if d then rx_discard en (link_established g1) else link_established g1)\<lparr>k_pending_status := 0\<rparr>"
  then show ?thesis
    using link_established_rest(1) [of g1] by (auto simp: basis_def core_def attempt_def upd_stats_def rx_discard_def do_kenv_def)
qed simp

lemma started_stop:
  assumes "do_stop_comm en g = Some (g', rc)"
  shows "k_started g' = k_started g"
proof -
  have "k_started g1 = k_started g" if "tx_message en (stop_message a) True 0 g = Some (g1, r)" for a g1 r
    using kept_tx_message [OF that] by (simp add: stop_message_def KLINE_MAX_MSG_def Let_def kept_def core_def)
  then show ?thesis
    using assms by (auto simp: do_stop_comm_def bind_eq_Some_conv Let_def kline_now_def on_kenv_eq split: if_splits)
qed

text \<open>The task keeps the invariant, and it neither starts nor stops the driver.\<close>

definition works :: "'d kline \<Rightarrow> 'd kline \<Rightarrow> bool" where
  "works g g' \<longleftrightarrow> k_started g' = k_started g \<and> (driver_ok g \<longrightarrow> driver_ok g')"

lemma works_trans: "works a b \<Longrightarrow> works b c \<Longrightarrow> works a c" by (simp add: works_def)

lemma works_kept: "kept g g' \<Longrightarrow> works g g'"
  using driver_ok_kept by (auto simp: works_def kept_def core_def)

lemma works_init: "do_init en which io g = Some (g', io', rc) \<Longrightarrow> works g g'"
  by (auto simp: works_def dest: started_init driver_ok_init)

lemma works_stop: "do_stop_comm en g = Some (g', rc) \<Longrightarrow> works g g'"
  by (auto simp: works_def dest: started_stop driver_ok_stop)

lemma works_command:
  assumes "kline_command en g = Some g'" "driver_ok g"
  shows "works g g'"
proof -
  let ?g = "g\<lparr>k_command_pending := False\<rparr>"
  have "works g g1" if "tx_message en (k_req ?g) True (k_req_flags ?g) (?g\<lparr>k_active := True\<rparr>) = Some (g1, rc)" for g1 rc
    using works_kept [OF kept_tx_message [OF that]] assms(2)
    by (auto simp: works_def driver_ok_def buffers_def queues_made_def)
  note tx = this
  have stop: "works g g1" if "do_stop_comm en ?g = Some (g1, rc)" for g1 rc using works_stop [OF that] by (simp add: works_def)
  have init: "works g g1" if "do_init en c i ?g = Some (g1, io, rc)" for c i g1 io rc using works_init [OF that] by (simp add: works_def)
  have upd: "works g (g1\<lparr>k_result := r, k_active := a\<rparr>)" "works g (g1\<lparr>k_result := r\<rparr>)"
    "works g (g1\<lparr>k_req_init := i, k_result := r, k_pending_inits := n\<rparr>)" if "works g g1" for g1 r a i n
    using that by (simp_all add: works_def)
  show ?thesis
  proof (cases "k_cmd g")
    case CMD_TX
    with assms(1) obtain g1 rc where m: "tx_message en (k_req ?g) True (k_req_flags ?g) (?g\<lparr>k_active := True\<rparr>) = Some (g1, rc)"
      and e: "g' = g1\<lparr>k_result := rc, k_active := False\<rparr>" by (auto simp: kline_command_def bind_eq_Some_conv Let_def)
    show ?thesis unfolding e by (rule upd(1) [OF tx [OF m]])
  next
    case CMD_STOP_COMM
    with assms(1) obtain g1 rc where m: "do_stop_comm en ?g = Some (g1, rc)" and e: "g' = g1\<lparr>k_result := rc\<rparr>"
      by (auto simp: kline_command_def bind_eq_Some_conv Let_def)
    show ?thesis unfolding e by (rule upd(2) [OF stop [OF m]])
  next
    case CMD_FIVE_BAUD
    with assms(1) obtain g1 io rc where m: "do_init en CMD_FIVE_BAUD (k_req_init ?g) ?g = Some (g1, io, rc)"
      and e: "g' = g1\<lparr>k_req_init := io, k_result := rc, k_pending_inits := k_pending_inits g1 - 1\<rparr>"
      by (auto simp: kline_command_def bind_eq_Some_conv Let_def)
    show ?thesis unfolding e by (rule upd(3) [OF init [OF m]])
  next
    case CMD_FAST_INIT
    with assms(1) obtain g1 io rc where m: "do_init en CMD_FAST_INIT (k_req_init ?g) ?g = Some (g1, io, rc)"
      and e: "g' = g1\<lparr>k_req_init := io, k_result := rc, k_pending_inits := k_pending_inits g1 - 1\<rparr>"
      by (auto simp: kline_command_def bind_eq_Some_conv Let_def)
    show ?thesis unfolding e by (rule upd(3) [OF init [OF m]])
  qed
qed

lemma works_pass:
  assumes "kline_task_pass en g = Some (g', p)" "driver_ok g"
  shows "works g g'"
proof (cases "k_stop_requested g")
  case True
  with assms works_stop show ?thesis by (auto simp: kline_task_pass_def bind_eq_Some_conv)
next
  case False
  obtain g1 t1 where n1: "kline_now en g = (g1, t1)" by fastforce
  from assms(1) False n1 obtain g2 where s: "(if periodic_due t1 g1 then send_periodic en g1 else Some g1) = Some g2"
    by (auto simp: kline_task_pass_def bind_eq_Some_conv)
  obtain g3 t3 where n3: "kline_now en g2 = (g3, t3)" by fastforce
  have k1: "kept g g1" using kept_env(4) [of g en] n1 by simp
  have k2: "kept g g2" using s k1 kept_chain [OF k1 kept_send_periodic] by (auto split: if_splits)
  have k3: "kept g g3" using kept_chain [OF k2 kept_env(4) [of g2 en]] n3 by simp
  from assms(1) False n1 s n3 obtain g4 r where v: "rx_service en (task_deadline t3 g3) True g3 = Some (g4, r)"
    and rest: "(case r of RxFrame f \<Rightarrow> Some (publish en f g4, PassIdle) | RxDeadline \<Rightarrow> Some (g4, PassIdle)
        | RxCommand \<Rightarrow> kline_command en g4 \<bind> (\<lambda>g. Some (g, PassCommand))) = Some (g', p)"
    by (auto simp: kline_task_pass_def bind_eq_Some_conv)
  have h: "held g3 g4" "\<And>f. r = RxFrame f \<Longrightarrow> buffers g3 \<longrightarrow> frame_wf f"
    using held.service [OF v, of g3] by auto
  have w: "works g g4" using works_kept [OF kept_chain [OF k3]] h(1) by (simp add: held_def)
  show ?thesis
  proof (cases r)
    case (RxFrame f)
    have "kept g3 (publish en f g4)" using h RxFrame kept_publish_from by (auto simp: held_def)
    with rest RxFrame works_kept [OF kept_chain [OF k3]] show ?thesis by simp
  next
    case RxCommand
    with rest obtain g5 where c: "kline_command en g4 = Some g5" "g' = g5" by (auto simp: bind_eq_Some_conv)
    have "driver_ok g4" using w assms(2) by (simp add: works_def)
    then show ?thesis using works_trans [OF w works_command [OF c(1)]] c(2) by simp
  qed (use rest w in simp)
qed

lemma works_until: "task_until en w g = Some x \<Longrightarrow> driver_ok g \<longrightarrow> works g x"
proof (rule task_until.raw_induct [where P = "\<lambda>en w g x. driver_ok g \<longrightarrow> works g x", rotated], assumption, goal_cases)
  case (1 loop en w g x)
  from 1(3) obtain g1 p where t: "kline_task_pass en g = Some (g1, p)" by (auto simp: bind_eq_Some_conv)
  show ?case
    using 1(2) [of en w g1 x] 1(3) t works_pass [OF t] works_trans by (auto simp: bind_eq_Some_conv works_def split: if_splits)
qed

lemma driver_ok_run:
  assumes "run_cmd en c wait g = Some (g', rc)" "driver_ok g"
  shows "driver_ok g'"
proof -
  obtain g1 rc1 where b: "run_cmd_begin c g = (g1, rc1)" by fastforce
  have o1: "driver_ok g1" using b assms(2) by (auto simp: run_cmd_begin_def split: if_splits)
  obtain g2 t where d: "on_kenv (kn_done_in_time en wait) g1 = (g2, t)" by fastforce
  have o2: "driver_ok g2" using driver_ok_kept [OF kept_env(2) o1, of "kn_done_in_time en wait"] d by simp
  show ?thesis
  proof (cases "rc1 = 0")
    case True
    show ?thesis
    proof (cases t)
      case yes: True
      from assms(1) b d True yes obtain g3 where u: "task_until en PassCommand g2 = Some g3" "g' = g3"
        by (auto simp: run_cmd_def bind_eq_Some_conv)
      show ?thesis using works_until [OF u(1)] o2 u(2) by (simp add: works_def)
    qed (use assms(1) b d True o2 in \<open>auto simp: run_cmd_def\<close>)
  qed (use assms(1) b o1 in \<open>simp add: run_cmd_def\<close>)
qed

text \<open>Released, the driver has no queue; \<open>unopened\<close> is the driver before its task exists.\<close>

definition unopened :: "'d kline \<Rightarrow> bool" where
  "unopened g \<longleftrightarrow> buffers g \<and> length (k_req g) \<le> KLINE_MAX_MSG \<and> length (kc_periodic (k_cfg g)) \<le> BUS_PERIODIC_MAX \<and>
     \<not> k_objs g OBJ_TASK \<and> \<not> k_started g"

lemma unopened_ok: "unopened g \<Longrightarrow> driver_ok g"
  by (simp add: unopened_def driver_ok_def)

lemma unopened_kept: "kept g g' \<Longrightarrow> unopened g \<Longrightarrow> unopened g'"
  by (auto simp: kept_def core_def unopened_def)

lemma unopened_release:
  assumes "unopened g"
  shows "unopened (fst (kline_release en g))"
proof -
  define g2 where "g2 = do_kenv (kn_set_level en PIN_KLINE_nSILENT False)
    (if kc_k_line_only (k_cfg g) then g else do_kenv (kn_set_level en PIN_LS_OBD_15 False) g)"
  have o: "unopened g2" using assms by (auto simp: g2_def unopened_def buffers_def do_kenv_def)
  obtain g3 err where d: "on_kenv (kn_uart_delete en) g2 = (g3, err)" by fastforce
  have o3: "unopened g3" using unopened_kept [OF kept_env(2) o, of "kn_uart_delete en"] d by simp
  have u: "unopened (g\<lparr>k_uart_installed := b\<rparr>)" if "unopened g" for g :: "'a kline" and b
    using that by (simp add: unopened_def buffers_def)
  have q: "unopened ((delete_obj OBJ_EXITED (delete_obj OBJ_CMD_DONE (delete_obj OBJ_RX_Q (delete_obj OBJ_CMD_Q (delete_obj OBJ_SET g)))))
      \<lparr>k_cmd_q := None, k_rx_q := [], k_link := link_zero\<rparr>)" if "unopened g" for g :: "'a kline"
    using that by (simp add: unopened_def buffers_def delete_obj_def)
  have r: "kline_release en g = (let (g, err) = (if k_uart_installed g2 then (if err = ESP_OK then g3\<lparr>k_uart_installed := False\<rparr> else g3, err) else (g2, ESP_OK))
      in if err \<noteq> ESP_OK then (g, err)
         else ((delete_obj OBJ_EXITED (delete_obj OBJ_CMD_DONE (delete_obj OBJ_RX_Q (delete_obj OBJ_CMD_Q (delete_obj OBJ_SET g)))))
           \<lparr>k_cmd_q := None, k_rx_q := [], k_link := link_zero\<rparr>, ESP_OK))"
    by (simp only: kline_release_def Let_def d [unfolded g2_def] g2_def prod.case)
  show ?thesis
  proof (cases "k_uart_installed g2")
    case True
    then show ?thesis using q [OF u [OF o3]] o3 by (cases "err = ESP_OK") (simp_all add: r)
  next
    case False
    then show ?thesis using q [OF o] by (simp add: r)
  qed
qed

lemma unopened_create: "ob \<noteq> OBJ_TASK \<Longrightarrow> unopened g \<Longrightarrow> unopened (create_obj en ob g)"
  by (simp add: create_obj_def on_kenv_eq unopened_def buffers_def)

lemma unopened_reset: "unopened g \<Longrightarrow> unopened (open_reset g)"
  by (simp add: open_reset_def unopened_def buffers_def cfg_defaults_def)

lemma unopened_uart: "unopened g \<Longrightarrow> unopened (fst (open_uart en g))"
  by (simp add: open_uart_def on_kenv_eq do_kenv_def Let_def unopened_def buffers_def)

lemma uart_open: "snd (open_uart en g) = ESP_OK \<Longrightarrow> k_uart_installed (fst (open_uart en g))" "k_cfg (fst (open_uart en g)) = k_cfg g"
  by (simp_all add: open_uart_def on_kenv_eq do_kenv_def Let_def split: if_splits)

lemma unopened_queues:
  assumes "unopened g"
  shows "unopened (fst (open_queues en g))" "snd (open_queues en g) = ESP_OK \<Longrightarrow> queues_made (fst (open_queues en g))"
    "k_uart_installed (fst (open_queues en g)) = k_uart_installed g" "k_cfg (fst (open_queues en g)) = k_cfg g"
proof -
  let ?g = "create_obj en OBJ_SET (create_obj en OBJ_EXITED (create_obj en OBJ_CMD_DONE (create_obj en OBJ_RX_Q (create_obj en OBJ_CMD_Q g))))"
  have o: "unopened ?g" using assms by (simp add: unopened_create)
  have e: "unopened (?g\<lparr>k_env := d\<rparr>)" for d by (rule unopened_kept [OF kept_env(1) o])
  show "unopened (fst (open_queues en g))"
    using o e by (simp add: open_queues_def on_kenv_eq Let_def)
  show "snd (open_queues en g) = ESP_OK \<Longrightarrow> queues_made (fst (open_queues en g))"
    by (auto simp: open_queues_def on_kenv_eq Let_def ESP_OK_def ESP_ERR_NO_MEM_def ESP_FAIL_def queues_made_def split: if_splits)
  show "k_uart_installed (fst (open_queues en g)) = k_uart_installed g" "k_cfg (fst (open_queues en g)) = k_cfg g"
    by (simp_all add: open_queues_def on_kenv_eq Let_def create_obj_def)
qed

lemma driver_ok_open:
  assumes "driver_ok g"
  shows "driver_ok (fst (kline_open en g))"
proof (cases "k_started g")
  case False
  let ?g1 = "create_lock en OBJ_DATA_LOCK (create_lock en OBJ_API_LOCK g)"
  have l: "driver_ok (create_lock en ob g)" "k_started (create_lock en ob g) = k_started g"
    if "driver_ok g" "ob \<in> {OBJ_API_LOCK, OBJ_DATA_LOCK}" for g :: "'a kline" and ob
    using that by (auto simp: create_lock_def create_obj_def on_kenv_eq driver_ok_def queues_made_def buffers_def)
  have o1: "driver_ok ?g1" "\<not> k_started ?g1" using l assms False by simp_all
  show ?thesis
  proof (cases "\<not> k_objs ?g1 OBJ_API_LOCK \<or> \<not> k_objs ?g1 OBJ_DATA_LOCK \<or> k_objs ?g1 OBJ_TASK \<or> k_uart_installed ?g1")
    case True
    then show ?thesis using False o1 by (auto simp: kline_open_def Let_def)
  next
    case fresh: False
    have r: "unopened (open_reset ?g1)" "k_cfg (open_reset ?g1) = cfg_defaults"
      using unopened_reset [of ?g1] o1 fresh by (simp_all add: unopened_def driver_ok_def open_reset_def)
    obtain g2 e2 where u: "open_uart en (open_reset ?g1) = (g2, e2)" by fastforce
    have o2: "unopened g2" "e2 = ESP_OK \<Longrightarrow> k_uart_installed g2" "k_cfg g2 = cfg_defaults"
      using unopened_uart [OF r(1), of en] uart_open [of en "open_reset ?g1"] u r(2) by simp_all
    obtain g3 e3 where q: "(if e2 = ESP_OK then open_queues en g2 else (g2, e2)) = (g3, e3)" by fastforce
    have o3: "unopened g3" using q o2(1) unopened_queues(1) [OF o2(1), of en] by (auto split: if_splits)
    have made: "k_uart_installed g3 \<and> queues_made g3 \<and> k_cfg g3 = cfg_defaults" if "e3 = ESP_OK"
      using q o2 that unopened_queues(2-4) [OF o2(1), of en] by (auto split: if_splits)
    show ?thesis
    proof (cases "e3 = ESP_OK \<and> snd (open_start en g3) = ESP_OK")
      case True
      have "driver_ok (fst (open_start en g3))"
        using True made o3 cfg_valid_defaults
        by (auto simp: open_start_def create_obj_def on_kenv_eq do_kenv_def kline_now_def Let_def unopened_def driver_ok_def
            queues_made_def buffers_def ESP_OK_def ESP_ERR_NO_MEM_def split: if_splits)
      moreover obtain g4 e4 where s: "open_start en g3 = (g4, e4)" by fastforce
      ultimately show ?thesis using True False fresh by (simp add: kline_open_def Let_def u q)
    next
      case ns: False
      have "unopened (fst (open_start en g3))" if "snd (open_start en g3) \<noteq> ESP_OK"
        using that o3 by (auto simp: open_start_def create_obj_def on_kenv_eq do_kenv_def kline_now_def Let_def unopened_def buffers_def split: if_splits)
      moreover obtain g4 e4 where s: "open_start en g3 = (g4, e4)" by fastforce
      ultimately have r4: "unopened g4" if "e3 = ESP_OK" using ns that by simp
      show ?thesis
      proof (cases "e3 = ESP_OK")
        case True
        then show ?thesis using ns False fresh s unopened_ok [OF unopened_release [OF r4]] by (simp add: kline_open_def Let_def u q)
      next
        case e3: False
        then show ?thesis using False fresh unopened_ok [OF unopened_release [OF o3]] by (simp add: kline_open_def Let_def u q)
      qed
    qed
  qed
qed (use assms in \<open>simp add: kline_open_def\<close>)

lemma driver_ok_close:
  assumes "kline_close en g = Some (g', err)" "driver_ok g"
  shows "driver_ok g'"
proof -
  let ?g1 = "g\<lparr>k_started := False\<rparr>"
  have o1: "driver_ok ?g1" using assms(2) by (simp add: driver_ok_def buffers_def queues_made_def)
  obtain g2 ex where x: "on_kenv (kn_exits en 4000) (?g1\<lparr>k_stop_requested := True\<rparr>) = (g2, ex)" by fastforce
  have o2: "driver_ok g2" "\<not> k_started g2"
    using driver_ok_kept [OF kept_env(2), of "?g1\<lparr>k_stop_requested := True\<rparr>" "kn_exits en 4000"] x o1 by (auto simp: on_kenv_eq)
  have none: "driver_ok (fst (kline_release en ?g1))" if "\<not> k_objs g OBJ_TASK"
    using that o1 by (intro unopened_ok unopened_release) (simp add: unopened_def driver_ok_def)
  have exited: "driver_ok (fst (kline_release en (delete_obj OBJ_TASK g3)))" if "task_until en PassExited g2 = Some g3" for g3
  proof -
    have "driver_ok g3" "\<not> k_started g3"
      using works_until [OF that] o2 by (auto simp: works_def)
    then show ?thesis by (intro unopened_ok unopened_release) (simp add: unopened_def driver_ok_def delete_obj_def buffers_def)
  qed
  show ?thesis
  proof (cases "k_objs g OBJ_API_LOCK \<and> k_objs g OBJ_TASK")
    case True
    show ?thesis
    proof (cases ex)
      case yes: True
      from assms(1) True x yes obtain g3 where "task_until en PassExited g2 = Some g3" "kline_release en (delete_obj OBJ_TASK g3) = (g', err)"
        by (auto simp: kline_close_def Let_def bind_eq_Some_conv)
      then show ?thesis using exited by fastforce
    qed (use assms(1) True x o2(1) in \<open>simp add: kline_close_def Let_def\<close>)
  next
    case False
    show ?thesis
    proof (cases "k_objs g OBJ_API_LOCK")
      case True
      with assms(1) False have "kline_release en ?g1 = (g', err)" by (simp add: kline_close_def Let_def)
      then show ?thesis using none False True by fastforce
    qed (use assms in \<open>simp add: kline_close_def\<close>)
  qed
qed

lemma driver_ok_ioctl:
  assumes "kline_ioctl en i arg g = Some (g', rc, arg')" "driver_ok g"
  shows "driver_ok g'"
proof -
  have init: "driver_ok g1" if "kline_ioctl_init en c arg g = Some (g1, r, a)" for c g1 r a
  proof -
    let ?io = "let io = (case arg of InitArg io \<Rightarrow> io | _ \<Rightarrow> bus_init_zero)
      in if bi_address io = 0 then io\<lparr>bi_address := KLINE_INIT_ADDR_OBD\<rparr> else io"
    from that consider "g1 = g" | rc where "run_cmd en c (Some 8000) (g\<lparr>k_req_init := ?io\<rparr>) = Some (g1, rc)"
      by (auto simp: kline_ioctl_init_def Let_def bind_eq_Some_conv split: if_splits)
    then show ?thesis using assms(2) by cases (auto dest!: driver_ok_run)
  qed
  have per: "driver_ok (upd_cfg (default_periodic v) g1)" if "driver_ok g1" for v and g1 :: "'a kline"
    using that default_periodic_cfg(3) by (simp add: driver_ok_def upd_cfg_def buffers_def queues_made_def cfg_valid_periodic)
  have keep: "sl_get s (c\<lparr>kc_periodic := m\<rparr>) = sl_get s c" if "cfg_slot p = Some (lo, hi, s)" for p lo hi s c m
    using that by (erule_tac slotE) auto
  have mess: "driver_ok (upd_cfg (\<lambda>c. c\<lparr>kc_periodic := take n m\<rparr>) g)" if "n \<le> BUS_PERIODIC_MAX" for n m
    using assms(2) that keep by (auto simp: driver_ok_def upd_cfg_def buffers_def queues_made_def cfg_valid_def)
  have zero: "driver_ok (upd_cfg (\<lambda>c. c\<lparr>kc_periodic_ms := 0\<rparr>) g)"
  proof -
    have "cfg_valid (k_cfg g) \<Longrightarrow> cfg_valid ((k_cfg g)\<lparr>kc_periodic_ms := 0\<rparr>)"
      by (frule cfg_valid_slot [where v = 0, OF _ cfg_slot.simps(21)]) simp_all
    then show ?thesis using assms(2) by (simp add: driver_ok_def upd_cfg_def buffers_def queues_made_def)
  qed
  have sper: "driver_ok (fst (set_periodic arg g))" using assms(2) per mess by (auto simp: set_periodic_def split: ioctl_arg.split)
  have alink: "driver_ok (assume_link v g)" for v using assms(2) per by (simp add: assume_link_def Let_def)
  have q: "driver_ok (g\<lparr>k_rx_q := []\<rparr>)" using assms(2) by (simp add: driver_ok_def buffers_def queues_made_def)
  show ?thesis
    using assms(1) unfolding kline_ioctl_def
    using assms(2) init zero sper alink q driver_ok_run
    by (simp add: case_prod_beta bind_eq_Some_conv split: if_split_asm) auto
qed

text \<open>
  The states of the driver. Between any two calls the environment does what it likes, and the task runs
  a pass whenever there is a task.
\<close>

inductive kline_reach :: "'d kenv \<Rightarrow> 'd kline \<Rightarrow> bool" for en where
  reset: "kline_reach en (kline_zero d)"
| outside: "kline_reach en g \<Longrightarrow> kline_reach en (g\<lparr>k_env := d\<rparr>)"
| opened: "kline_reach en g \<Longrightarrow> kline_reach en (fst (kline_open en g))"
| closed: "kline_reach en g \<Longrightarrow> kline_close en g = Some (g', err) \<Longrightarrow> kline_reach en g'"
| sent: "kline_reach en g \<Longrightarrow> kline_tx_controlled en data flags control g = Some (g', rc) \<Longrightarrow> kline_reach en g'"
| received: "kline_reach en g \<Longrightarrow> kline_reach en (fst (kline_rx en cap m g))"
| parameter: "kline_reach en g \<Longrightarrow> kline_reach en (fst (kline_set_param en p v g))"
| request: "kline_reach en g \<Longrightarrow> kline_ioctl en i arg g = Some (g', rc, arg') \<Longrightarrow> kline_reach en g'"
| counters: "kline_reach en g \<Longrightarrow> kline_reach en (kline_reset_stats g)"
| pass: "kline_reach en g \<Longrightarrow> k_objs g OBJ_TASK \<Longrightarrow> kline_task_pass en g = Some (g', p) \<Longrightarrow> kline_reach en g'"

definition outline :: "'d kline \<Rightarrow> _" where
  "outline g = (k_objs g, k_uart_installed g, k_req g, buffers g, k_started g)"

lemma outline_simps [simp]:
  "outline (upd_cfg u g) = outline g" "outline (do_kenv f g) = outline g" "outline (g\<lparr>k_active_baud := v\<rparr>) = outline g"
  "outline (fst (apply_line_cfg en g)) = outline g"
  by (simp_all add: outline_def upd_cfg_def do_kenv_def buffers_def apply_line_cfg_def on_kenv_eq Let_def)

lemma set_param_outline: "outline (fst (kline_set_param en p v g)) = outline g"
  by (simp add: kline_set_param_def Let_def case_prod_beta split: option.split)

lemma put_periodic:
  "cfg_slot p = Some (lo, hi, s) \<Longrightarrow> kc_periodic (sl_put s v c) = kc_periodic c"
  by (erule slotE) auto

lemma flag_periodic: "cfg_flag p = Some s \<Longrightarrow> kc_periodic (sl_put s b c) = kc_periodic c"
  by (erule flagE) auto

lemma driver_ok_param: "driver_ok g \<Longrightarrow> driver_ok (fst (kline_set_param en p v g))"
proof -
  assume ok: "driver_ok g"
  obtain g' rc where s: "kline_set_param en p v g = (g', rc)" by fastforce
  have per: "kc_periodic (k_cfg g') = kc_periodic (k_cfg g)"
    using s by (cases rule: set_param_cases) (auto simp: put_periodic flag_periodic)
  have rest: "k_objs g' = k_objs g \<and> k_uart_installed g' = k_uart_installed g \<and> k_req g' = k_req g \<and> (buffers g' = buffers g) \<and>
    k_started g' = k_started g \<and> kc_periodic (k_cfg g') = kc_periodic (k_cfg g)"
    using set_param_outline [of en p v g] s per by (simp add: outline_def)
  have "cfg_valid (k_cfg g')" if "k_objs g OBJ_TASK"
    using s
  proof (cases rule: set_param_cases)
    case refused then show ?thesis using ok that by (simp add: driver_ok_def)
  next
    case (flag s') then show ?thesis using ok that by (simp add: driver_ok_def cfg_valid_flag)
  next
    case (slot lo hi s') then show ?thesis using ok that by (simp add: driver_ok_def cfg_valid_slot)
  qed
  with ok rest s show ?thesis by (simp add: driver_ok_def queues_made_def)
qed

lemma driver_ok_sent:
  assumes "kline_tx_controlled en data flags control g = Some (g', rc)" "driver_ok g"
  shows "driver_ok g'"
proof -
  have r: "driver_ok (g\<lparr>k_req := buf, k_req_flags := flags, k_control := control\<rparr>)" if "frame_for_tx c d f = Some buf" for buf c d f
    using assms(2) frame_for_tx_length [OF that] by (simp add: driver_ok_def buffers_def queues_made_def)
  show ?thesis
    using assms r driver_ok_run by (fastforce simp: kline_tx_controlled_def split: option.splits if_splits)
qed

lemma driver_ok_rx: "driver_ok g \<Longrightarrow> driver_ok (fst (kline_rx en cap m g))"
proof -
  assume ok: "driver_ok g"
  have q: "driver_ok (g\<lparr>k_rx_q := q\<rparr>)" if "k_rx_q g = f # q" for f q
    using ok that by (simp add: driver_ok_def buffers_def queues_made_def)
  show ?thesis
    using ok q by (simp add: kline_rx_def Let_def case_prod_beta kline_now_def on_kenv_eq split: option.split list.split)
qed

text \<open>C11: Whatever is called in whatever order, and whatever the UART, the clock and the vehicle do, the K-Line
  driver stays inside its buffers: the assembly, the batch of received bytes, the queue and its
  messages, the request, the message that holds the session and the echo that is compared. Its task,
  while it exists, has its UART and its queues, a started driver has its task, and the parameters the
  task works with are within their limits.
\<close>
theorem kline_driver_safe:
  assumes "kline_reach en g"
  shows "driver_ok g"
  using assms
proof induction
  case (reset d)
  show ?case by (simp add: kline_zero_def driver_ok_def buffers_def kline_cfg_zero_def)
next
  case (counters g)
  then show ?case by (simp add: kline_reset_stats_def)
qed (auto intro: driver_ok_open driver_ok_close driver_ok_sent driver_ok_rx driver_ok_param driver_ok_ioctl simp: works_def dest: works_pass)

lemma kline_driver_safe_witness:
  "k_started (fst (kline_open silent_line (kline_zero 0))) \<and> driver_ok (fst (kline_open silent_line (kline_zero 0)))"
proof -
  have "k_started (fst (kline_open silent_line (kline_zero 0)))"
    by (simp add: kline_open_def create_lock_def create_obj_def on_kenv_eq kline_zero_def silent_line_def Let_def open_uart_def
        open_queues_def open_start_def open_reset_def queues_made_def do_kenv_def kline_now_def)
  then show ?thesis using kline_driver_safe [OF kline_reach.opened [OF kline_reach.reset]] by simp
qed

end
