(* ===== verification/KlineWire.thy ===== *)
theory KlineWire
  imports KlineSafe
begin

text \<open>
  What crosses the line of the K-Line driver. \<open>recorded\<close> puts a record of the bytes sent and received
  beside any environment, and \<open>sending\<close> relates it to the message while it is sent: a transmission
  succeeds only when its bytes went out and came back. A message with a length is received exactly,
  with the bytes behind it left for the next (\<open>kline_frame_roundtrip\<close>).
\<close>

section \<open>The echo\<close>

text \<open>What happens on the line: a byte handed to the UART, bytes taken off it, its buffer emptied.\<close>

datatype line_event = Sent byte | Got "byte list" | Flushed

definition sent_bytes :: "line_event list \<Rightarrow> byte list" where
  "sent_bytes t = concat (map (\<lambda>e. case e of Sent b \<Rightarrow> [b] | _ \<Rightarrow> []) t)"

definition got_bytes :: "line_event list \<Rightarrow> byte list" where
  "got_bytes t = concat (map (\<lambda>e. case e of Got bs \<Rightarrow> bs | _ \<Rightarrow> []) t)"

lemma line_bytes [simp]:
  "sent_bytes [] = []" "got_bytes [] = []"
  "sent_bytes (t @ u) = sent_bytes t @ sent_bytes u" "got_bytes (t @ u) = got_bytes t @ got_bytes u"
  "sent_bytes (Sent b # t) = b # sent_bytes t" "sent_bytes (Got bs # t) = sent_bytes t" "sent_bytes (Flushed # t) = sent_bytes t"
  "got_bytes (Sent b # t) = got_bytes t" "got_bytes (Got bs # t) = bs @ got_bytes t" "got_bytes (Flushed # t) = got_bytes t"
  by (simp_all add: sent_bytes_def got_bytes_def)

text \<open>
  Any environment, with a record of what happens on the line beside it. \<open>uart_read_bytes\<close> returns at most
  the bytes asked for.
\<close>

definition beside :: "('d \<Rightarrow> 'd \<times> 'a) \<Rightarrow> 'd \<times> line_event list \<Rightarrow> ('d \<times> line_event list) \<times> 'a" where
  "beside f x = (case f (fst x) of (d, r) \<Rightarrow> ((d, snd x), r))"

definition recorded :: "'d kenv \<Rightarrow> ('d \<times> line_event list) kenv" where
  "recorded en =
     \<lparr>kn_now = beside (kn_now en),
      kn_read = (\<lambda>n w (d, t). case kn_read en n w d of (d, bs) \<Rightarrow> ((d, t @ [Got (take n bs)]), take n bs)),
      kn_write = (\<lambda>b (d, t). case kn_write en b d of (d, ok) \<Rightarrow> ((d, if ok then t @ [Sent b] else t), ok)),
      kn_tx_done = (\<lambda>w. beside (kn_tx_done en w)), kn_flush = (\<lambda>(d, t). (kn_flush en d, t @ [Flushed])),
      kn_select = (\<lambda>w. beside (kn_select en w)), kn_task_delay = (\<lambda>w. map_prod (kn_task_delay en w) id),
      kn_delay_us = (\<lambda>w. map_prod (kn_delay_us en w) id), kn_set_baudrate = (\<lambda>b. beside (kn_set_baudrate en b)),
      kn_set_word_length = (\<lambda>b. beside (kn_set_word_length en b)), kn_set_parity = (\<lambda>b. beside (kn_set_parity en b)),
      kn_pin_to_gpio = map_prod (kn_pin_to_gpio en) id, kn_pin_to_uart = map_prod (kn_pin_to_uart en) id,
      kn_set_level = (\<lambda>p l. map_prod (kn_set_level en p l) id), kn_capture_start = beside (kn_capture_start en),
      kn_capture_stop = map_prod (kn_capture_stop en) id, kn_edges = beside (kn_edges en),
      kn_notify_take = (\<lambda>w. map_prod (kn_notify_take en w) id), kn_cancel = beside (kn_cancel en),
      kn_done_in_time = (\<lambda>w. beside (kn_done_in_time en w)), kn_uart_install = beside (kn_uart_install en),
      kn_uart_config = beside (kn_uart_config en), kn_uart_threshold = beside (kn_uart_threshold en),
      kn_uart_timeout = beside (kn_uart_timeout en), kn_uart_delete = beside (kn_uart_delete en),
      kn_create = (\<lambda>ob. beside (kn_create en ob)), kn_add_to_set = beside (kn_add_to_set en),
      kn_exits = (\<lambda>w. beside (kn_exits en w))\<rparr>"

lemma recorded_calls [simp]:
  "kn_now (recorded en) = beside (kn_now en)" "kn_tx_done (recorded en) w = beside (kn_tx_done en w)"
  "kn_select (recorded en) w = beside (kn_select en w)" "kn_cancel (recorded en) = beside (kn_cancel en)"
  "kn_flush (recorded en) x = (kn_flush en (fst x), snd x @ [Flushed])"
  "kn_read (recorded en) n w x = ((fst (kn_read en n w (fst x)), snd x @ [Got (take n (snd (kn_read en n w (fst x))))]),
     take n (snd (kn_read en n w (fst x))))"
  "kn_write (recorded en) b x = ((fst (kn_write en b (fst x)), if snd (kn_write en b (fst x)) then snd x @ [Sent b] else snd x),
     snd (kn_write en b (fst x)))"
  "kn_delay_us (recorded en) w = map_prod (kn_delay_us en w) id" "kn_task_delay (recorded en) w = map_prod (kn_task_delay en w) id"
  by (simp_all add: recorded_def case_prod_beta)

lemma beside_snd [simp]: "snd (fst (beside f x)) = snd x"
  by (simp add: beside_def case_prod_beta)

definition trace :: "('d \<times> line_event list) kline \<Rightarrow> line_event list" where
  "trace g = snd (k_env g)"

text \<open>What the sending of a message looks at: the message, the record, the bytes taken and not yet used.\<close>

definition wire :: "('d \<times> line_event list) kline \<Rightarrow> kline_tx option \<times> line_event list \<times> byte list" where
  "wire g = (k_tx g, trace g, k_uart_pending g)"

lemma wire_simps [simp]:
  "wire (fst (kline_now (recorded en) g)) = wire g" "wire (delay_until_us (recorded en) t g) = wire g"
  "wire (fst (on_kenv (kn_tx_done (recorded en) w) g)) = wire g" "wire (fst (on_kenv (kn_select (recorded en) w) g)) = wire g"
  "wire (upd_stats u g) = wire g" "wire (g\<lparr>k_pending_status := st\<rparr>) = wire g" "wire (g\<lparr>k_rx_epoch := ep\<rparr>) = wire g"
  "wire (g\<lparr>k_cmd_q := q, k_cmd := c, k_command_pending := pn\<rparr>) = wire g" "wire (g\<lparr>k_rx_q := rq\<rparr>) = wire g"
  "wire (g\<lparr>k_control := co\<rparr>) = wire g" "wire (client_step (recorded en) g) = wire g"
  by (simp_all add: wire_def trace_def kline_now_def on_kenv_eq do_kenv_def delay_until_us_def upd_stats_def client_step_def Let_def)

lemma wire_discard [simp]: "wire (rx_discard (recorded en) g) = (k_tx g, trace g @ [Flushed], [])"
  by (simp add: wire_def trace_def rx_discard_def do_kenv_def)

lemma wire_fill:
  "\<exists>t. wire (fst (uart_fill (recorded en) w g)) = (k_tx g, trace g @ t, k_uart_pending g @ got_bytes t) \<and> sent_bytes t = [] \<and>
    (snd (uart_fill (recorded en) w g) \<longleftrightarrow> k_uart_pending (fst (uart_fill (recorded en) w g)) \<noteq> [])"
proof (cases "k_uart_pending g = []")
  case False
  then show ?thesis by (intro exI [of _ "[]"]) (simp add: uart_fill_def wire_def)
next
  case True
  let ?b1 = "take 64 (snd (kn_read en 64 0 (fst (k_env g))))"
  let ?b2 = "take 1 (snd (kn_read en 1 w (fst (kn_read en 64 0 (fst (k_env g))))))"
  show ?thesis
  proof (cases "?b1 = [] \<and> w \<noteq> 0")
    case False
    then show ?thesis using True
      by (intro exI [of _ "[Got ?b1]"]) (auto simp: uart_fill_def on_kenv_eq Let_def kline_now_def wire_def trace_def)
  next
    case b: True
    then show ?thesis using True
      by (intro exI [of _ "[Got ?b1, Got ?b2]"]) (auto simp: uart_fill_def on_kenv_eq Let_def kline_now_def wire_def trace_def)
  qed
qed

text \<open>
  While a message is sent, from the record \<open>T\<close> on: what has gone out is what was sent of it, and what has come in
  begins with what was taken for its echo; the rest is the bytes not yet used, unless the echo is
  complete or known to be bad.
\<close>

definition sending :: "line_event list \<Rightarrow> ('d \<times> line_event list) kline \<Rightarrow> bool" where
  "sending T g \<longleftrightarrow> (\<exists>tx t rest. k_tx g = Some tx \<and> trace g = T @ t \<and>
     kt_sent tx \<le> length (kt_data tx) \<and> kt_echoed tx \<le> length (kt_data tx) \<and>
     sent_bytes t = take (kt_sent tx) (kt_data tx) \<and> got_bytes t = take (kt_echoed tx) (kt_data tx) @ rest \<and>
     (kt_failed tx \<or> kt_echoed tx = length (kt_data tx) \<or> rest = k_uart_pending g))"

lemma sendingI:
  "k_tx g = Some tx \<Longrightarrow> trace g = T @ t \<Longrightarrow> kt_sent tx \<le> length (kt_data tx) \<Longrightarrow> kt_echoed tx \<le> length (kt_data tx) \<Longrightarrow>
   sent_bytes t = take (kt_sent tx) (kt_data tx) \<Longrightarrow> got_bytes t = take (kt_echoed tx) (kt_data tx) @ rest \<Longrightarrow>
   kt_failed tx \<or> kt_echoed tx = length (kt_data tx) \<or> rest = k_uart_pending g \<Longrightarrow> sending T g"
  by (auto simp: sending_def)

lemma sendingE:
  assumes "sending T g"
  obtains tx t rest where "k_tx g = Some tx" "trace g = T @ t" "kt_sent tx \<le> length (kt_data tx)" "kt_echoed tx \<le> length (kt_data tx)"
    "sent_bytes t = take (kt_sent tx) (kt_data tx)" "got_bytes t = take (kt_echoed tx) (kt_data tx) @ rest"
    "kt_failed tx \<or> kt_echoed tx = length (kt_data tx) \<or> rest = k_uart_pending g"
  using assms by (auto simp: sending_def)

lemma sending_wire: "wire g' = wire g \<Longrightarrow> sending T g \<Longrightarrow> sending T g'"
  by (simp add: sending_def wire_def)

lemma sending_fill: "sending T g \<Longrightarrow> sending T (fst (uart_fill (recorded en) w g))"
proof -
  assume "sending T g"
  then obtain tx t rest where s: "k_tx g = Some tx" "trace g = T @ t" "kt_sent tx \<le> length (kt_data tx)" "kt_echoed tx \<le> length (kt_data tx)"
    "sent_bytes t = take (kt_sent tx) (kt_data tx)" "got_bytes t = take (kt_echoed tx) (kt_data tx) @ rest"
    "kt_failed tx \<or> kt_echoed tx = length (kt_data tx) \<or> rest = k_uart_pending g" by (rule sendingE)
  obtain u where "wire (fst (uart_fill (recorded en) w g)) = (k_tx g, trace g @ u, k_uart_pending g @ got_bytes u)" "sent_bytes u = []"
    using wire_fill [of en w g] by blast
  then show ?thesis using s
    by (intro sendingI [where t = "t @ u" and rest = "rest @ got_bytes u" and tx = tx]) (auto simp: wire_def)
qed

text \<open>One byte compared with the message.\<close>

lemma sending_compare:
  assumes "sending T g" "k_tx g = Some tx" "\<not> kt_failed tx" "kt_echoed tx < length (kt_data tx)" "k_uart_pending g \<noteq> []"
  defines "g' \<equiv> g\<lparr>k_uart_pending := tl (k_uart_pending g), k_last_bus_us := k_uart_pending_us g\<rparr>"
  shows "sending T (g'\<lparr>k_tx := Some (tx\<lparr>kt_failed := True\<rparr>)\<rparr>)"
    and "hd (k_uart_pending g) = kt_data tx ! kt_echoed tx \<Longrightarrow> sending T (g'\<lparr>k_tx := Some (tx\<lparr>kt_echoed := kt_echoed tx + 1\<rparr>)\<rparr>)"
proof -
  obtain t where s: "trace g = T @ t" "kt_sent tx \<le> length (kt_data tx)" "sent_bytes t = take (kt_sent tx) (kt_data tx)"
    "got_bytes t = take (kt_echoed tx) (kt_data tx) @ k_uart_pending g"
    using assms(1-4) by (auto simp: sending_def)
  have tr: "trace (g'\<lparr>k_tx := x\<rparr>) = trace g" "k_uart_pending (g'\<lparr>k_tx := x\<rparr>) = tl (k_uart_pending g)" for x
    by (simp_all add: g'_def trace_def)
  show "sending T (g'\<lparr>k_tx := Some (tx\<lparr>kt_failed := True\<rparr>)\<rparr>)"
    using s assms(4) tr by (intro sendingI [where t = t and rest = "k_uart_pending g" and tx = "tx\<lparr>kt_failed := True\<rparr>"]) simp_all
  assume e: "hd (k_uart_pending g) = kt_data tx ! kt_echoed tx"
  have "kt_data tx ! kt_echoed tx # tl (k_uart_pending g) = k_uart_pending g" using e assms(5) by (metis list.collapse)
  then have "take (kt_echoed tx + 1) (kt_data tx) @ tl (k_uart_pending g) = take (kt_echoed tx) (kt_data tx) @ k_uart_pending g"
    using assms(4) by (simp add: take_Suc_conv_app_nth)
  then show "sending T (g'\<lparr>k_tx := Some (tx\<lparr>kt_echoed := kt_echoed tx + 1\<rparr>)\<rparr>)"
    using s assms(4) tr
    by (intro sendingI [where t = t and rest = "tl (k_uart_pending g)" and tx = "tx\<lparr>kt_echoed := kt_echoed tx + 1\<rparr>"]) simp_all
qed

lemma sending_loop:
  "sending T g \<Longrightarrow> k_tx g = Some tx \<Longrightarrow> n \<le> length (kt_data tx) - kt_echoed tx \<Longrightarrow> sending T (read_echo_loop (recorded en) n g)"
proof (induction n arbitrary: g tx)
  case (Suc n)
  obtain g1 any where f: "uart_fill (recorded en) 0 g = (g1, any)" by fastforce
  have g1: "sending T g1" "k_tx g1 = Some tx" "any \<longleftrightarrow> k_uart_pending g1 \<noteq> []"
    using sending_fill [OF Suc.prems(1), of en 0] wire_fill [of en 0 g] f Suc.prems(2) by (auto simp: wire_def)
  show ?case
  proof (cases "kt_failed tx \<or> \<not> any")
    case True
    then show ?thesis using Suc.prems f g1 by auto
  next
    case False
    let ?g2 = "g1\<lparr>k_uart_pending := tl (k_uart_pending g1), k_last_bus_us := k_uart_pending_us g1\<rparr>"
    have l: "\<not> kt_failed tx" "kt_echoed tx < length (kt_data tx)" "k_uart_pending g1 \<noteq> []" using False g1(3) Suc.prems(3) by auto
    note c = sending_compare [OF g1(1,2) l]
    show ?thesis
    proof (cases "hd (k_uart_pending g1) = kt_data tx ! kt_echoed tx")
      case True
      let ?g3 = "upd_stats (\<lambda>s. s\<lparr>ks_tx_echo_ok := ks_tx_echo_ok s + 1\<rparr>) (?g2\<lparr>k_tx := Some (tx\<lparr>kt_echoed := kt_echoed tx + 1\<rparr>)\<rparr>)"
      have "sending T ?g3" by (rule sending_wire [OF _ c(2) [OF True]]) simp
      moreover have "k_tx ?g3 = Some (tx\<lparr>kt_echoed := kt_echoed tx + 1\<rparr>)" by (simp add: upd_stats_def)
      ultimately have "sending T (read_echo_loop (recorded en) n ?g3)"
        by (rule Suc.IH) (use Suc.prems(3) in simp)
      then show ?thesis using Suc.prems(2) False f True by (simp add: Let_def)
    next
      case bad: False
      have "sending T (upd_stats (\<lambda>s. s\<lparr>ks_tx_echo_bad := ks_tx_echo_bad s + 1\<rparr>) (?g2\<lparr>k_tx := Some (tx\<lparr>kt_failed := True\<rparr>)\<rparr>))"
        by (rule sending_wire [OF _ c(1)]) simp
      then show ?thesis using Suc.prems(2) False f bad by (simp add: Let_def)
    qed
  qed
qed simp

lemma sending_read:
  "sending T g \<Longrightarrow> k_tx g = Some tx \<Longrightarrow> limit \<le> length (kt_data tx) \<Longrightarrow> sending T (tx_read_echo (recorded en) limit g)"
  by (auto simp: tx_read_echo_def intro: sending_loop)

lemma sending_fault:
  assumes "k_tx g = Some tx" "trace g = T @ t" "kt_sent tx \<le> length (kt_data tx)" "kt_echoed tx \<le> length (kt_data tx)"
    "sent_bytes t = take (kt_sent tx) (kt_data tx)" "got_bytes t = take (kt_echoed tx) (kt_data tx) @ rest"
  shows "sending T (rx_fault (recorded en) g)"
proof -
  let ?tx = "if kt_echoed tx < length (kt_data tx) then tx\<lparr>kt_failed := True\<rparr> else tx"
  have "k_tx (rx_fault (recorded en) g) = Some ?tx" "trace (rx_fault (recorded en) g) = T @ t"
    using assms(1,2) by (simp_all add: rx_fault_def Let_def kline_now_def on_kenv_eq trace_def)
  then show ?thesis using assms by (intro sendingI [where tx = ?tx and t = t and rest = rest]) auto
qed

lemma sending_event: "sending T g \<Longrightarrow> sending T (uart_event (recorded en) ty n g)"
proof -
  assume c: "sending T g"
  then obtain tx t rest where s: "k_tx g = Some tx" "trace g = T @ t" "kt_sent tx \<le> length (kt_data tx)" "kt_echoed tx \<le> length (kt_data tx)"
    "sent_bytes t = take (kt_sent tx) (kt_data tx)" "got_bytes t = take (kt_echoed tx) (kt_data tx) @ rest"
    "kt_failed tx \<or> kt_echoed tx = length (kt_data tx) \<or> rest = k_uart_pending g" by (rule sendingE)
  show ?thesis
  proof (cases "ty = UART_DATA")
    case True
    have "sending T (tx_read_echo (recorded en) m (g\<lparr>k_tx := Some (tx\<lparr>kt_announced := a\<rparr>)\<rparr>))" if "m \<le> kt_sent tx" for m a
    proof -
      have "sending T (g\<lparr>k_tx := Some (tx\<lparr>kt_announced := a\<rparr>)\<rparr>)"
        using s by (intro sendingI [where t = t and rest = rest and tx = "tx\<lparr>kt_announced := a\<rparr>"]) (simp_all add: trace_def)
      then show ?thesis
        using le_trans [OF that s(3)] by (intro sending_read [where tx = "tx\<lparr>kt_announced := a\<rparr>"]) simp_all
    qed
    then show ?thesis using True s(1) by (simp add: uart_event_def Let_def)
  next
    case False
    have over: "sending T (rx_fault (recorded en) (rx_discard (recorded en) g2))" if "wire g2 = wire g" for g2
    proof (rule sending_fault)
      have "k_tx g2 = Some tx" "trace g2 = T @ t" using that s(1,2) by (simp_all add: wire_def)
      then have "wire (rx_discard (recorded en) g2) = (Some tx, T @ t @ [Flushed], [])" by simp
      then show "k_tx (rx_discard (recorded en) g2) = Some tx" "trace (rx_discard (recorded en) g2) = T @ t @ [Flushed]"
        by (simp_all add: wire_def)
    qed (use s in simp_all)
    have fault: "sending T (rx_fault (recorded en) g2)" if "wire g2 = wire g" for g2
      using that s by (intro sending_fault) (simp_all add: wire_def)
    have same: "sending T g2" if "wire g2 = wire g" for g2 using sending_wire [OF that c] .
    show ?thesis
      using False by (auto simp: uart_event_def Let_def case_prod_beta intro: over fault same)
  qed
qed

interpretation echo: listening "recorded en" "sending T" for en :: "'d kenv" and T
proof
  fix g :: "('d \<times> line_event list) kline" and w
  assume c: "sending T g"
  have k: "sending T x" if "wire x = wire g" for x using sending_wire [OF that c] .
  show "sending T (fst (kline_now (recorded en) g))" by (rule k) simp
  show "sending T (fst (uart_fill (recorded en) w g))" by (rule sending_fill [OF c])
  obtain g1 x where e: "on_kenv (kn_select (recorded en) w) g = (g1, x)" by fastforce
  have w1: "wire g1 = wire g" using wire_simps(4) [of en w g] e by simp
  then show "sending T (fst (receive_event (recorded en) w g))"
    unfolding receive_event_def e
    by (auto intro!: k sending_event split: option.split kline_member.split)
qed

lemma sending_collect:
  assumes "tx_collect_echo (recorded en) w g = Some (g', rc)" "sending T g"
  shows "sending T g' \<and> (rc = 0 \<longrightarrow> echo_result g' = 0)"
proof -
  from assms(1) obtain g1 where e: "uart_events (recorded en) g = Some g1" by (auto simp: tx_collect_echo_def bind_eq_Some_conv)
  have c1: "sending T g1" by (rule echo.events [OF e assms(2)])
  have read: "sending T (case k_tx g3 of None \<Rightarrow> g3 | Some tx \<Rightarrow> tx_read_echo (recorded en) (kt_sent tx) g3)"
    if "uart_events (recorded en) (fst (uart_fill (recorded en) w g1)) = Some g3" for g3
  proof -
    have "sending T g3" by (rule echo.events [OF that echo.fill [OF c1]])
    then show ?thesis by (auto elim!: sendingE intro: sending_read sendingI split: option.split)
  qed
  show ?thesis
    using assms(1) e c1 read by (auto simp: tx_collect_echo_def bind_eq_Some_conv split: option.splits if_splits)
qed

lemma sending_finish:
  "tx_finish_loop e deadline g = Some x \<Longrightarrow> e = recorded en \<longrightarrow> sending T g \<longrightarrow>
    sending T (fst x) \<and> (snd x = 0 \<longrightarrow> echo_result (fst x) = 0 \<and> echo_missing (fst x) = 0)"
proof (rule tx_finish_loop.raw_induct [where P = "\<lambda>e deadline g x. e = recorded en \<longrightarrow> sending T g \<longrightarrow>
    sending T (fst x) \<and> (snd x = 0 \<longrightarrow> echo_result (fst x) = 0 \<and> echo_missing (fst x) = 0)", rotated], assumption, goal_cases)
  case (1 loop e deadline g x)
  show ?case
  proof (intro impI)
    assume en: "e = recorded en" and c: "sending T g"
    note IH = 1(2) [rule_format] and body = 1(3) [unfolded en]
    from body obtain g1 rc where co: "tx_collect_echo (recorded en) 0 g = Some (g1, rc)" by (auto simp: bind_eq_Some_conv)
    have c1: "sending T g1" "rc = 0 \<Longrightarrow> echo_result g1 = 0" using sending_collect [OF co c] by auto
    obtain g2 t where n: "kline_now (recorded en) g1 = (g2, t)" by fastforce
    have c2: "sending T g2" using echo.now [OF c1(1), of en] n by simp
    show "sending T (fst x) \<and> (snd x = 0 \<longrightarrow> echo_result (fst x) = 0 \<and> echo_missing (fst x) = 0)"
    proof (cases "rc \<noteq> 0 \<or> echo_missing g1 = 0 \<or> deadline - t \<le> 0")
      case True
      have "sending T (upd_stats u g2)" for u by (rule sending_wire [OF _ c2]) simp
      with True body co n c1 show ?thesis by (auto simp: bind_eq_Some_conv BUS_ERR_ECHO_def split: if_splits)
    next
      case False
      with body co n obtain g3 rc3 where c3: "tx_collect_echo (recorded en) (ticks_until t deadline) g2 = Some (g3, rc3)"
        and r: "x = (g3, rc3) \<and> rc3 \<noteq> 0 \<or> loop (recorded en) deadline g3 = Some x" by (auto simp: bind_eq_Some_conv split: if_splits)
      have "sending T g3" using sending_collect [OF c3 c2] by simp
      then show ?thesis using r IH [of "recorded en" deadline g3 x] by auto
    qed
  qed
qed

lemma sending_byte_sent:
  assumes "sending T g" "k_tx g = Some tx" "kt_data tx ! kt_sent tx = b" "kt_sent tx < length (kt_data tx)"
    and "k_tx g' = k_tx g" "trace g' = trace g @ [Sent b]" "k_uart_pending g' = k_uart_pending g"
  shows "sending T (byte_sent now g')"
proof -
  obtain t rest where s: "trace g = T @ t" "kt_echoed tx \<le> length (kt_data tx)"
    "sent_bytes t = take (kt_sent tx) (kt_data tx)" "got_bytes t = take (kt_echoed tx) (kt_data tx) @ rest"
    "kt_failed tx \<or> kt_echoed tx = length (kt_data tx) \<or> rest = k_uart_pending g"
    using assms(1,2) by (auto simp: sending_def)
  show ?thesis
    using s assms(2-7)
    by (intro sendingI [where tx = "tx\<lparr>kt_sent := kt_sent tx + 1\<rparr>" and t = "t @ [Sent b]" and rest = rest])
      (auto simp: byte_sent_def upd_stats_def trace_def take_Suc_conv_app_nth)
qed

lemma sending_bytes:
  assumes "tx_bytes (recorded en) bs g = Some (g', stuck, rc)" "sending T g" "rc = 0"
    and "txd g = Some (buf, n)" "drop n buf = bs"
  shows "sending T g'"
  using assms
proof (induction bs arbitrary: g n)
  case (Cons x bs)
  from Cons.prems(1) obtain g1 rc1 where c: "tx_collect_echo (recorded en) 0 g = Some (g1, rc1)" by (auto simp: bind_eq_Some_conv)
  have c1: "sending T g1" using sending_collect [OF c Cons.prems(2)] by simp
  have x1: "txd g1 = Some (buf, n)" using held_collect [OF c] Cons.prems(4) by (simp add: held_def)
  obtain g2 ok where w: "on_kenv (kn_write (recorded en) x) g1 = (g2, ok)" by fastforce
  obtain g3 snt where d: "on_kenv (kn_tx_done (recorded en) KLINE_UART_TIMEOUT_MS) g2 = (g3, snt)" by fastforce
  obtain g4 t where m: "kline_now (recorded en) g3 = (g4, t)" by fastforce
  have ok: "ok" "snt" using Cons.prems(1,3) c w d by (auto simp: BUS_ERR_TX_FAILED_def split: if_splits)
  have "wire g4 = wire g2"
    using wire_simps(3) [of en KLINE_UART_TIMEOUT_MS g2] wire_simps(1) [of en g3] d m by simp
  moreover have "wire g2 = (k_tx g1, trace g1 @ [Sent x], k_uart_pending g1)"
    using w ok(1) by (auto simp: on_kenv_eq wire_def trace_def)
  ultimately have w4: "k_tx g4 = k_tx g1" "trace g4 = trace g1 @ [Sent x]" "k_uart_pending g4 = k_uart_pending g1"
    by (simp_all add: wire_def)
  obtain tx where tx: "k_tx g1 = Some tx" "kt_data tx = buf" "kt_sent tx = n" using x1 by (auto simp: txd_def)
  have nb: "n < length buf" "buf ! n = x" "drop (Suc n) buf = bs"
    using Cons.prems(5) by (metis drop_all list.distinct(1) not_less) (use Cons.prems(5) in \<open>auto simp: nth_via_drop drop_Suc drop_tl\<close>)
  have c5: "sending T (byte_sent t g4)" using sending_byte_sent [OF c1 tx(1) _ _ w4] tx nb by simp
  have x5: "txd (byte_sent t g4) = Some (buf, Suc n)" using w4(1) tx by (simp add: txd_def byte_sent_def upd_stats_def)
  let ?g6 = "if bs \<noteq> [] then delay_until_us (recorded en) (k_tx_end_us (byte_sent t g4) + P_TO_US (kc_p4_min (k_cfg (byte_sent t g4)))) (byte_sent t g4)
    else byte_sent t g4"
  have "sending T (delay_until_us (recorded en) u (byte_sent t g4))" for u by (rule sending_wire [OF _ c5]) simp
  then have c6: "sending T ?g6" "txd ?g6 = Some (buf, Suc n)" using c5 x5 by simp_all
  have "tx_bytes (recorded en) bs ?g6 = Some (g', stuck, rc)"
    using Cons.prems(1,3) c w d m ok by (auto simp: Let_def split: if_splits)
  from Cons.IH [OF this c6(1) Cons.prems(3) c6(2) nb(3)] show ?case .
qed simp

text \<open>Nothing is being sent.\<close>

definition silent :: "line_event list \<Rightarrow> ('d \<times> line_event list) kline \<Rightarrow> bool" where
  "silent T g \<longleftrightarrow> k_tx g = None \<and> (\<exists>t. trace g = T @ t \<and> sent_bytes t = [])"

lemma silent_wire: "wire g' = wire g \<Longrightarrow> silent T g \<Longrightarrow> silent T g'"
  by (simp add: silent_def wire_def)

lemma silent_extended: "fst (wire g') = k_tx g \<Longrightarrow> fst (snd (wire g')) = trace g @ t \<Longrightarrow> sent_bytes t = [] \<Longrightarrow> silent T g \<Longrightarrow> silent T g'"
  by (auto simp: silent_def wire_def)

lemma silent_discard [simp]: "silent T g \<Longrightarrow> silent T (rx_discard (recorded en) g)"
  by (rule silent_extended [of _ g "[Flushed]"]) simp_all

lemma silent_fault: "silent T g \<Longrightarrow> silent T (rx_fault (recorded en) g)"
  by (auto simp: silent_def rx_fault_def Let_def kline_now_def on_kenv_eq trace_def)

lemma silent_event: "silent T g \<Longrightarrow> silent T (uart_event (recorded en) ty n g)"
proof -
  assume q: "silent T g"
  then have tx: "k_tx g = None" by (simp add: silent_def)
  have k: "silent T x" if "wire x = wire g" for x using silent_wire [OF that q] .
  have fault: "silent T (rx_fault (recorded en) g2)" if "wire g2 = wire g" for g2 by (rule silent_fault [OF k [OF that]])
  have over: "silent T (rx_fault (recorded en) (rx_discard (recorded en) g2))" if "wire g2 = wire g" for g2
    by (rule silent_fault [OF silent_discard [OF k [OF that]]])
  show ?thesis
    by (auto simp: uart_event_def Let_def case_prod_beta tx intro: over fault k)
qed

lemma wire_publish [simp]: "wire (publish (recorded en) f g) = wire g"
proof -
  have "wire (fst (queue_frame a f g)) = wire g" "wire (g\<lparr>k_p2_pending := x\<rparr>) = wire g"
    "wire (g\<lparr>k_tx_answered := c, k_pending_status := st\<rparr>) = wire g"
    for a f x c st and g :: "('a \<times> line_event list) kline"
    by (simp_all add: wire_def trace_def upd_stats_def queue_frame_def Let_def case_prod_beta)
  then show ?thesis by (simp add: publish_def Let_def case_prod_beta)
qed

lemma silent_complete: "asm_complete e g = (g', fo) \<Longrightarrow> wire g' = wire g"
  by (auto simp: asm_complete_def Let_def wire_def trace_def upd_stats_def split: if_splits)

lemma silent_byte: "rx_byte g = (g', fo) \<Longrightarrow> k_tx g' = k_tx g \<and> trace g' = trace g"
  by (auto simp: rx_byte_def Let_def split: if_splits dest!: silent_complete)
    (auto simp: wire_def trace_def upd_stats_def asm_push_def Let_def)

interpretation silent: quiet_line "recorded en" "silent T" "\<lambda>_. True" for en :: "'d kenv" and T
proof
  fix g g' :: "('d \<times> line_event list) kline" and fo w f
  assume q: "silent T g"
  have k: "silent T x" if "wire x = wire g" for x using silent_wire [OF that q] .
  show "silent T (fst (kline_now (recorded en) g))" "silent T (client_step (recorded en) g)" "silent T (publish (recorded en) f g)"
    by (rule k, simp)+
  show "silent T (rx_discard (recorded en) g)" using q by simp
  show "silent T (g\<lparr>k_uart_pending := tl (k_uart_pending g), k_last_bus_us := k_uart_pending_us g\<rparr>)"
    using q by (simp add: silent_def trace_def)
  show "silent T (fst (uart_fill (recorded en) n g))" for n
  proof -
    obtain t where "wire (fst (uart_fill (recorded en) n g)) = (k_tx g, trace g @ t, k_uart_pending g @ got_bytes t)" "sent_bytes t = []"
      using wire_fill [of en n g] by blast
    then show ?thesis by (intro silent_extended [OF _ _ _ q, of _ t]) simp_all
  qed
  show "silent T (fst (receive_event (recorded en) n g))" for n
  proof -
    obtain g1 x where e: "on_kenv (kn_select (recorded en) n) g = (g1, x)" by fastforce
    have "wire g1 = wire g" using wire_simps(4) [of en n g] e by simp
    then show ?thesis
      unfolding receive_event_def e
      by (auto intro!: k silent_event split: option.split kline_member.split)
  qed
  show "silent T g' \<and> pred_option (\<lambda>_. True) fo" if "rx_byte g = (g', fo)"
    using silent_byte [OF that] q by (cases fo) (simp_all add: silent_def)
  show "silent T g' \<and> pred_option (\<lambda>_. True) fo" if "asm_complete True g = (g', fo)"
    using k [OF silent_complete [OF that]] by (cases fo) simp_all
qed

lemma drive_echoed:
  assumes "tx_drive (recorded en) buf g = Some (g', 0)" "k_uart_pending g = []" "buffers g"
  shows "k_tx g' = None \<and> (\<exists>t rest. trace g' = trace g @ t \<and> sent_bytes t = buf \<and> got_bytes t = buf @ rest)"
proof -
  let ?T = "trace g"
  from assms(1) obtain g1 stuck rc1 where d: "tx_bytes (recorded en) buf (tx_start buf g) = Some (g1, stuck, rc1)"
    by (auto simp: tx_drive_def bind_eq_Some_conv)
  let ?g2 = "if k_active g1 then g1\<lparr>k_control := map_option (\<lambda>c. bus_tx_end c (word_of_int (k_tx_end_us g1))) (k_control g1)\<rparr> else g1"
  have rc1: "rc1 = 0" and ns: "\<not> stuck"
  proof -
    show r: "rc1 = 0" using assms(1) d by (auto simp: tx_drive_def bind_eq_Some_conv Let_def split: if_splits)
    show "\<not> stuck" using tx_bytes_kept [OF d kept_start(2)] r by simp
  qed
  from assms(1) d rc1 ns obtain g3 where f: "tx_finish_echo (recorded en) ?g2 = Some (g3, 0)"
    and e: "g' = (g3\<lparr>k_tx := None\<rparr>)\<lparr>k_p2_pending := True, k_tx_answered := False\<rparr>"
    by (auto simp: tx_drive_def bind_eq_Some_conv Let_def)
  have x1: "txd g1 = Some (buf, length buf)" using tx_bytes_kept [OF d kept_start(2)] rc1 by auto
  have "sending ?T (tx_start buf g)"
    using assms(2) by (intro sendingI [where t = "[]" and rest = "[]" and
        tx = "\<lparr>kt_data = buf, kt_sent = 0, kt_echoed = 0, kt_announced = 0, kt_failed = False\<rparr>"])
      (simp_all add: tx_start_def trace_def)
  from sending_bytes [OF d this rc1 kept_start(2)] have c1: "sending ?T g1" by simp
  have c2: "sending ?T ?g2" by (rule sending_wire [OF _ c1]) simp
  have x2: "txd ?g2 = Some (buf, length buf)" using x1 by (simp add: txd_def)
  have x3: "txd g3 = Some (buf, length buf)"
    using held_finish [of _ _ ?g2 "(g3, 0)"] f x2 by (simp add: tx_finish_echo_def held_def)
  have c3: "sending ?T g3" "echo_missing g3 = 0"
    using sending_finish [of _ _ ?g2 "(g3, 0)" en ?T] f c2 by (simp_all add: tx_finish_echo_def)
  from c3(1) obtain tx t rest where tx: "k_tx g3 = Some tx" "trace g3 = ?T @ t" "kt_echoed tx \<le> length (kt_data tx)"
    "sent_bytes t = take (kt_sent tx) (kt_data tx)" "got_bytes t = take (kt_echoed tx) (kt_data tx) @ rest" by (rule sendingE)
  have "kt_sent tx = length buf" "kt_data tx = buf" "kt_echoed tx = length buf"
    using x3 c3(2) tx(1,3) by (auto simp: txd_def echo_missing_def)
  then have "trace g' = ?T @ t \<and> sent_bytes t = buf \<and> got_bytes t = buf @ rest" using tx by (simp add: e trace_def)
  then show ?thesis by (auto simp: e)
qed

text \<open>C10: The K-Line driver reports a transmission as successful only when the message went out and came back.
  In the record of what crossed the UART in any environment, nothing was sent before the receive buffer was
  emptied for the transmission; after it exactly the bytes of the message were sent, and what was received
  from then on begins with exactly these bytes.\<close>

theorem kline_echo_proves:
  assumes "tx_once (recorded en) buf wait flags g = Some (g', 0)" and "buffers g" and "k_tx g = None"
  shows "k_tx g' = None \<and> (\<exists>t u rest. snd (k_env g') = snd (k_env g) @ t @ [Flushed] @ u \<and>
    sent_bytes t = [] \<and> sent_bytes u = buf \<and> got_bytes u = buf @ rest)"
proof -
  let ?e = "recorded en" and ?T = "trace g"
  have q0: "silent ?T g" using assms(3) by (simp add: silent_def)
  from assms(1) have u: "\<not> k_uart_tx_unresolved g" by (auto simp: tx_once_def BUS_ERR_NOT_READY_def)
  from assms(1) u obtain g1 rc1 where w: "(if wait then wait_before_tx ?e (flags AND BUS_TX_WAIT_P3_MIN_ONLY \<noteq> 0) g else Some (g, 0)) = Some (g1, rc1)"
    by (auto simp: tx_once_def bind_eq_Some_conv)
  have h1: "held g g1" "silent ?T g1"
    using w held.waited [of ?e _ g "(g1, rc1)" g] silent.waited [of en _ g "(g1, rc1)" ?T] q0 by (auto split: if_splits)
  obtain g2 t where n: "kline_now ?e (client_step ?e g1) = (g2, t)" by fastforce
  obtain c rc2 where ad: "bus_tx_admit (active_control g2) (bus_rx_sequence (k_rx_epoch g2)) (word_of_int t) = (c, rc2)" by fastforce
  let ?g3 = "if k_active g2 then g2\<lparr>k_control := c\<rparr> else g2"
  let ?g4 = "if flags AND BUS_TX_CLEAR_RX_QUEUE \<noteq> 0 then ?g3\<lparr>k_rx_q := []\<rparr> else ?g3"
  have rc: "rc1 = 0" "rc2 = 0" using assms(1) u w n ad by (auto simp: tx_once_def Let_def split: if_splits)
  with assms(1) u w n ad obtain g5 where ev: "uart_events ?e ?g4 = Some g5" and d: "tx_drive ?e buf (rx_discard ?e g5) = Some (g', 0)"
    by (auto simp: tx_once_def bind_eq_Some_conv Let_def)
  have h2: "held g g2" "silent ?T g2"
    using held_trans [OF h1(1) held_trans [OF held_client held_now [OF n]]] silent.now [OF silent.client [OF h1(2)], of en en] n by simp_all
  have b4: "buffers ?g4" using h2(1) assms(2) by (auto simp: held_def kept_def buffers_def)
  have q4: "silent ?T ?g4" by (rule silent_wire [OF _ h2(2)]) simp
  have b5: "buffers (rx_discard ?e g5)"
    using kept_env(6) [of g5 ?e] held.events [OF ev, of ?g4] b4 by (auto simp: held_def kept_def)
  obtain v where v: "trace g5 = ?T @ v" "sent_bytes v = []" using silent.events [OF ev q4] by (auto simp: silent_def)
  have "trace (rx_discard ?e g5) = trace g5 @ [Flushed]" "k_uart_pending (rx_discard ?e g5) = []"
    using wire_discard [of en g5] by (simp_all add: wire_def)
  with drive_echoed [OF d _ b5] v show ?thesis unfolding trace_def by fastforce
qed

text \<open>A line with nothing on it but the echo: the clock, and the bytes that wait to be read.\<close>

definition echo_line :: "(int \<times> byte list) kenv" where
  "echo_line =
     \<lparr>kn_now = (\<lambda>d. (d, fst d)), kn_read = (\<lambda>n w (t, q). ((t + int w * 1000, drop n q), take n q)),
      kn_write = (\<lambda>b (t, q). ((t, q @ [b]), True)), kn_tx_done = (\<lambda>w (t, q). ((t + 1, q), True)),
      kn_flush = (\<lambda>(t, q). (t, [])), kn_select = (\<lambda>w (t, q). ((t + int w * 1000, q), None)),
      kn_task_delay = (\<lambda>w (t, q). (t + int w * 1000, q)), kn_delay_us = (\<lambda>w (t, q). (t + int w, q)),
      kn_set_baudrate = (\<lambda>b d. (d, ESP_OK)), kn_set_word_length = (\<lambda>b d. (d, ESP_OK)), kn_set_parity = (\<lambda>b d. (d, ESP_OK)),
      kn_pin_to_gpio = (\<lambda>d. d), kn_pin_to_uart = (\<lambda>d. d), kn_set_level = (\<lambda>p l d. d), kn_capture_start = (\<lambda>d. (d, ESP_OK)),
      kn_capture_stop = (\<lambda>d. d), kn_edges = (\<lambda>d. (d, [])), kn_notify_take = (\<lambda>w (t, q). (t + int w * 1000, q)),
      kn_cancel = (\<lambda>d. (d, False)), kn_done_in_time = (\<lambda>w d. (d, True)), kn_uart_install = (\<lambda>d. (d, ESP_OK)),
      kn_uart_config = (\<lambda>d. (d, ESP_OK)), kn_uart_threshold = (\<lambda>d. (d, ESP_OK)), kn_uart_timeout = (\<lambda>d. (d, ESP_OK)),
      kn_uart_delete = (\<lambda>d. (d, ESP_OK)), kn_create = (\<lambda>ob d. (d, True)), kn_add_to_set = (\<lambda>d. (d, True)),
      kn_exits = (\<lambda>w d. (d, True))\<rparr>"

lemma echo_line_calls [simp]:
  "kn_now echo_line d = (d, fst d)" "kn_read echo_line n w d = ((fst d + int w * 1000, drop n (snd d)), take n (snd d))"
  "kn_write echo_line b d = ((fst d, snd d @ [b]), True)" "kn_tx_done echo_line w d = ((fst d + 1, snd d), True)"
  "kn_flush echo_line d = (fst d, [])" "kn_select echo_line w d = ((fst d + int w * 1000, snd d), None)" "kn_cancel echo_line d = (d, False)"
  by (simp_all add: echo_line_def case_prod_beta)

lemma echo_line_events: "uart_events (recorded echo_line) g = Some g"
  by (subst uart_events.simps) (simp add: receive_event_def on_kenv_eq beside_def)

lemma fill_tx [simp]: "k_tx (fst (uart_fill en w g)) = k_tx g"
  by (simp add: uart_fill_def on_kenv_eq kline_now_def Let_def)

lemma echo_line_collect:
  "tx_collect_echo (recorded echo_line) 0 g = (case k_tx g of None \<Rightarrow> Some (g, 0)
     | Some tx \<Rightarrow> let g' = (if \<not> kt_failed tx \<and> kt_echoed tx < kt_sent tx
         then tx_read_echo (recorded echo_line) (kt_sent tx) (fst (uart_fill (recorded echo_line) 0 g)) else g)
       in Some (g', echo_result g'))"
  by (cases "k_tx g") (simp_all add: tx_collect_echo_def echo_line_events Let_def echo_result_def)

lemma echo_line_one: "\<exists>g'. tx_once (recorded echo_line) [0x55] False 0 (kline_zero ((0, []), [])) = Some (g', 0)"
  by (simp add: tx_once_def kline_zero_def client_step_def on_kenv_eq kline_now_def active_control_def bus_tx_admit_def echo_line_events
      tx_drive_def tx_start_def rx_discard_def do_kenv_def echo_line_collect echo_result_def byte_sent_def upd_stats_def Let_def beside_def
      tx_finish_echo_def tx_finish_loop.simps uart_fill_def tx_read_echo_def echo_missing_def numeral_eq_Suc)

lemma kline_echo_proves_witness:
  "\<exists>g' rest. tx_once (recorded echo_line) [0x55] False 0 (kline_zero ((0, []), [])) = Some (g', 0) \<and>
     sent_bytes (snd (k_env g')) = [0x55] \<and> k_tx g' = None"
proof -
  obtain g' where o: "tx_once (recorded echo_line) [0x55] False 0 (kline_zero ((0, []), [])) = Some (g', 0)" using echo_line_one by blast
  have "buffers (kline_zero ((0 :: int, [] :: byte list), [] :: line_event list))"
    "k_tx (kline_zero ((0 :: int, [] :: byte list), [] :: line_event list)) = None"
    by (simp_all add: kline_zero_def buffers_def)
  from kline_echo_proves [OF o this] have "k_tx g' = None" "sent_bytes (snd (k_env g')) = [0x55]"
    by (auto simp: kline_zero_def)
  with o show ?thesis by blast
qed

section \<open>Framing\<close>

text \<open>The queue set is empty: no event and no command is waiting.\<close>

definition no_events :: "'d kenv \<Rightarrow> bool" where
  "no_events en \<longleftrightarrow> (\<forall>d. kn_select en 0 d = (d, None))"

lemma no_events_receive:
  assumes "no_events en" "k_uart_pending g \<noteq> []"
  shows "uart_receive en 0 g = Some (g, True)"
proof -
  have "uart_events en g = Some g"
    using assms(1) by (subst uart_events.simps) (simp add: receive_event_def on_kenv_eq no_events_def)
  with assms(2) show ?thesis by (simp add: uart_receive_def uart_fill_def)
qed

text \<open>A prefix of a message whose header gives its length is not yet a message.\<close>

lemma asm_open:
  assumes "kline_msg_len (Some (p @ q)) = length (p @ q)" "p \<noteq> []" "q \<noteq> []"
  shows "\<not> asm_ended c p"
proof -
  obtain b p' where p: "p = b # p'" using assms(2) by (cases p) auto
  have carb: "\<not> kline_is_carb_fmt (p ! 0)" using assms by (auto simp: p split: if_splits)
  have "kline_msg_len (Some p) \<noteq> 0 \<Longrightarrow> kline_msg_len (Some p) = length (p @ q)"
    using kline_msg_len_stable [of p q] assms(1) by simp
  then have "length p = kline_msg_len (Some p) \<Longrightarrow> q = []" using assms(2) by auto
  then show ?thesis using carb assms(3) by (auto simp: asm_ended_def Let_def simp del: kline_msg_len.simps)
qed

lemma asm_whole:
  assumes "kline_msg_len (Some m) = length m" "m \<noteq> []" "kline_frame_ok (Some m)" "kc_checksum_rx c" "kc_frame_mode c \<noteq> BUS_KLINE_FRAME_ISO9141"
  shows "asm_ended c m" "asm_checksum_ok c m"
  using assms by (simp_all add: asm_ended_def asm_checksum_ok_def Let_def del: kline_msg_len.simps kline_frame_ok.simps)

lemma asm_push_fields:
  "k_cfg (asm_push b t g) = k_cfg g" "k_uart_pending (asm_push b t g) = k_uart_pending g"
  "length (k_asm g) < KLINE_MAX_MSG \<Longrightarrow> k_asm (asm_push b t g) = k_asm g @ [b]"
  "k_rx_invalid (asm_push b t g) = k_rx_invalid g"
  by (simp_all add: asm_push_def Let_def upd_stats_def)

lemma rx_drain_message:
  assumes "no_events en" "kline_msg_len (Some (p @ q)) = length (p @ q)" "kline_frame_ok (Some (p @ q))" "q \<noteq> []"
    and "k_uart_pending g = q @ rest" "k_asm g = p" "\<not> k_rx_invalid g"
    and "kc_checksum_rx (k_cfg g)" "kc_frame_mode (k_cfg g) \<noteq> BUS_KLINE_FRAME_ISO9141"
  shows "\<exists>g' f. rx_drain_loop en g = Some (g', Some f) \<and> kf_data f = p @ q \<and> kf_status f = 0 \<and>
    k_uart_pending g' = rest \<and> k_asm g' = []"
  using assms
proof (induction q arbitrary: p g)
  case C: (Cons b q)
  have r: "uart_receive en 0 g = Some (g, True)" by (rule no_events_receive [OF C.prems(1)]) (simp add: C.prems)
  let ?g1 = "(upd_stats (\<lambda>s. s\<lparr>ks_rx_bytes := ks_rx_bytes s + 1\<rparr>) (g\<lparr>k_uart_pending := q @ rest\<rparr>))\<lparr>k_last_bus_us := k_uart_pending_us g\<rparr>"
  let ?g2 = "asm_push b (k_uart_pending_us g) ?g1"
  have g1: "k_asm ?g1 = p" "k_cfg ?g1 = k_cfg g" "k_uart_pending ?g1 = q @ rest" "\<not> k_rx_invalid ?g1"
    using C.prems by (simp_all add: upd_stats_def)
  have len: "length p < KLINE_MAX_MSG" using C.prems(3) by (simp split: if_splits)
  have g2: "k_asm ?g2 = p @ [b]" "k_cfg ?g2 = k_cfg g" "k_uart_pending ?g2 = q @ rest" "\<not> k_rx_invalid ?g2"
    using g1 len asm_push_fields(3) [of ?g1 b "k_uart_pending_us g"] by (simp_all add: asm_push_fields)
  have byte: "rx_byte g = asm_complete False ?g2"
    using C.prems(5,7) by (simp add: rx_byte_def Let_def upd_stats_def)
  show ?case
  proof (cases q)
    case Nil
    note w = asm_whole [OF _ _ _ C.prems(8,9), of "p @ [b]"]
    have "asm_ended (k_cfg g) (p @ [b])" "asm_checksum_ok (k_cfg g) (p @ [b])" using w C.prems(2,3) Nil by simp_all
    then have "\<exists>f. asm_complete False ?g2 = (?g2\<lparr>k_asm := []\<rparr>, Some f) \<and> kf_data f = p @ [b] \<and> kf_status f = 0"
      by (simp add: asm_complete_def Let_def g2(1,2))
    then show ?thesis using r byte g2(3) Nil by (subst rx_drain_loop.simps) auto
  next
    case (Cons c q')
    have "\<not> asm_ended (k_cfg g) (p @ [b])"
      using asm_open [of "p @ [b]" q] C.prems(2) Cons by simp
    then have "asm_complete False ?g2 = (?g2, None)" by (simp add: asm_complete_def Let_def g2(1,2))
    then have "rx_drain_loop en g = rx_drain_loop en ?g2" using r byte by (subst rx_drain_loop.simps) simp
    then show ?thesis using C.IH [of "p @ [b]" ?g2] C.prems g2 Cons by simp
  qed
qed simp

lemma framed_ok:
  assumes "frame_for_tx c d flags = Some m" "kc_checksum_tx c" "flags AND BUS_TX_NO_CHECKSUM = 0" "kline_msg_len (Some m) = length m"
  shows "m = d @ [kline_checksum d]" "kline_frame_ok (Some m)" "m \<noteq> []"
proof -
  have m: "m = d @ [kline_checksum d]" "length m \<le> KLINE_MAX_MSG"
    using assms(1-3) by (auto simp: frame_for_tx_def Let_def split: if_splits)
  then show "m = d @ [kline_checksum d]" "m \<noteq> []" by simp_all
  have "KLINE_MIN_MSG \<le> length m" using kline_msg_len_stable [of m "[]"] assms(4) m(1) by simp
  with m show "kline_frame_ok (Some m)"
    using kline_frame_ok_snoc [of d "kline_checksum d"] by (simp add: KLINE_MIN_MSG_def KLINE_MAX_MSG_def del: kline_frame_ok.simps)
qed

text \<open>What one K-Line driver frames, another receives: a request whose header gives its length, closed with
  its checksum and arriving in one batch with whatever follows, is taken off the line whole and without
  a flag, with exactly the bytes behind it left for the next message.
\<close>
theorem kline_frame_roundtrip:
  assumes "frame_for_tx c d flags = Some m" and "kc_checksum_tx c" and "flags AND BUS_TX_NO_CHECKSUM = 0"
    and "kline_msg_len (Some m) = length m"
    and "no_events en" and "k_uart_pending g = m @ rest" and "k_asm g = []" and "\<not> k_rx_invalid g" and "\<not> k_uart_tx_unresolved g"
    and "kc_checksum_rx (k_cfg g)" and "kc_frame_mode (k_cfg g) \<noteq> BUS_KLINE_FRAME_ISO9141"
  shows "\<exists>g' f. rx_drain en g = Some (g', Some f) \<and> kf_data f = d @ [kline_checksum d] \<and> kf_status f = 0 \<and>
    k_uart_pending g' = rest \<and> k_asm g' = []"
proof -
  note m = framed_ok [OF assms(1-4)]
  show ?thesis
    using rx_drain_message [of en "[]" m g rest] assms(4-11) m by (simp add: rx_drain_def del: kline_msg_len.simps kline_frame_ok.simps)
qed

lemma kline_frame_roundtrip_witness:
  "\<exists>g' f. rx_drain silent_line ((kline_zero 0)\<lparr>k_cfg := cfg_defaults, k_uart_pending := [0xC1, 0x33, 0xF1, 0x81, 0x66, 0x80]\<rparr>) = Some (g', Some f) \<and>
     kf_data f = [0xC1, 0x33, 0xF1, 0x81, 0x66] \<and> k_uart_pending g' = [0x80]"
proof -
  let ?d = "[0xC1, 0x33, 0xF1, 0x81] :: byte list"
  let ?g = "(kline_zero 0)\<lparr>k_cfg := cfg_defaults, k_uart_pending := [0xC1, 0x33, 0xF1, 0x81, 0x66, 0x80]\<rparr> :: int kline"
  have sum: "kline_checksum ?d = 0x66" by (simp add: kline_checksum_def kline_sum_step_def)
  have f: "frame_for_tx cfg_defaults ?d 0 = Some (?d @ [0x66])"
    using sum by (simp add: frame_for_tx_def cfg_defaults_def KLINE_MAX_MSG_def)
  have l: "kline_msg_len (Some (?d @ [0x66])) = length (?d @ [0x66])"
    by (simp add: kline_is_carb_fmt_def kline_addr_mode_def drop_bit_eq_div)
  have c: "kc_checksum_tx cfg_defaults" "kc_checksum_rx cfg_defaults" "kc_frame_mode cfg_defaults \<noteq> BUS_KLINE_FRAME_ISO9141"
    by (simp_all add: cfg_defaults_def BUS_KLINE_FRAME_ISO9141_def BUS_KLINE_FRAME_DISCOVERY_def)
  have n: "no_events silent_line" by (simp add: no_events_def silent_line_def)
  have p: "k_uart_pending ?g = (?d @ [0x66]) @ [0x80]" by simp
  have z: "k_asm ?g = []" "\<not> k_rx_invalid ?g" "\<not> k_uart_tx_unresolved ?g" by (simp_all add: kline_zero_def)
  have k: "kc_checksum_rx (k_cfg ?g)" "kc_frame_mode (k_cfg ?g) \<noteq> BUS_KLINE_FRAME_ISO9141" using c(2,3) by simp_all
  have w: "(0 :: u32w) AND BUS_TX_NO_CHECKSUM = 0" by simp
  from kline_frame_roundtrip [OF f c(1) w l n p z k] sum show ?thesis by auto
qed

end
