(* ===== verification/KlineReturn.thy ===== *)
theory KlineReturn
  imports KlineKept
begin

text \<open>
  Reception of the K-Line driver returns. \<open>progress\<close> holds from step to step: the traffic, which is
  finite, shrinks, or the clock runs, or the assembly is dropped; and the times the driver has noted are
  times of the clock (\<open>timed\<close>), so that the gap it waits for is never mistaken for no gap.
\<close>

section \<open>Reception returns\<close>

text \<open>
  What FreeRTOS and the line give: \<open>m\<close> bounds the events and bytes still to come, \<open>clk\<close> is the clock. A
  wait of at least a tick in which nothing happens takes time.
\<close>

definition finite_line :: "'d kenv \<Rightarrow> ('d \<Rightarrow> nat) \<Rightarrow> ('d \<Rightarrow> int) \<Rightarrow> bool" where
  "finite_line en m clk \<longleftrightarrow>
     (\<forall>d d' t. kn_now en d = (d', t) \<longrightarrow> m d' \<le> m d \<and> clk d \<le> t \<and> t \<le> clk d') \<and>
     (\<forall>n w d d' bs. kn_read en n w d = (d', bs) \<longrightarrow> m d' + length bs \<le> m d \<and> clk d \<le> clk d') \<and>
     (\<forall>d. m (kn_flush en d) \<le> m d \<and> clk d \<le> clk (kn_flush en d)) \<and>
     (\<forall>w d d' x. kn_select en w d = (d', Some x) \<longrightarrow> m d' < m d \<and> clk d \<le> clk d') \<and>
     (\<forall>w d d'. kn_select en w d = (d', None) \<longrightarrow> m d' \<le> m d \<and> clk d + (if w = 0 then 0 else 1) \<le> clk d')"

definition traffic :: "('d \<Rightarrow> nat) \<Rightarrow> 'd kline \<Rightarrow> nat" where
  "traffic m g = m (k_env g) + length (k_uart_pending g)"

text \<open>The clock runs since before the driver, and the times noted with bytes are times of the clock.\<close>

definition timed :: "('d \<Rightarrow> int) \<Rightarrow> 'd kline \<Rightarrow> bool" where
  "timed clk g \<longleftrightarrow> 0 < clk (k_env g) \<and> (k_uart_pending g \<noteq> [] \<longrightarrow> 0 < k_uart_pending_us g) \<and>
     (k_asm g \<noteq> [] \<longrightarrow> 0 < k_asm_last_us g)"

definition progress :: "('d \<Rightarrow> nat) \<Rightarrow> ('d \<Rightarrow> int) \<Rightarrow> 'd kline \<Rightarrow> 'd kline \<Rightarrow> bool" where
  "progress m clk g0 g \<longleftrightarrow> clk (k_env g0) \<le> clk (k_env g) \<and> (timed clk g0 \<longrightarrow> timed clk g) \<and>
     (traffic m g < traffic m g0 \<or> traffic m g = traffic m g0 \<and> length (k_asm g) \<le> length (k_asm g0))"

lemma progress_refl [simp]: "progress m clk g g" by (simp add: progress_def)

lemma progress_trans: "progress m clk a b \<Longrightarrow> progress m clk b c \<Longrightarrow> progress m clk a c"
  by (auto simp: progress_def)

lemma progress_now:
  assumes "finite_line en m clk"
  shows "progress m clk g (fst (kline_now en g))"
  using assms unfolding finite_line_def
  by (cases "kn_now en (k_env g)") (fastforce simp: kline_now_def on_kenv_eq progress_def traffic_def timed_def)

lemma progress_fill:
  assumes "finite_line en m clk"
  shows "progress m clk g (fst (uart_fill en w g))"
proof -
  have rd: "m (fst (kn_read en n w d)) + length (snd (kn_read en n w d)) \<le> m d \<and> clk d \<le> clk (fst (kn_read en n w d))" for n w d
    using assms unfolding finite_line_def by (metis prod.collapse)
  have nw: "m (fst (kn_now en d)) \<le> m d \<and> clk d \<le> snd (kn_now en d) \<and> clk d \<le> clk (fst (kn_now en d))" for d
    using assms unfolding finite_line_def by (metis prod.collapse order_trans)
  note facts = rd [of 64 0 "k_env g"] rd [of 1 w "fst (kn_read en 64 0 (k_env g))"]
    nw [of "fst (kn_read en 64 0 (k_env g))"] nw [of "fst (kn_read en 1 w (fst (kn_read en 64 0 (k_env g))))"]
  show ?thesis
    using facts by (auto simp: uart_fill_def on_kenv_eq kline_now_def Let_def progress_def traffic_def timed_def)
qed

lemma progress_discard:
  assumes "finite_line en m clk"
  shows "progress m clk g (rx_discard en g)"
proof -
  have "m (kn_flush en d) \<le> m d \<and> clk d \<le> clk (kn_flush en d)" for d using assms by (simp add: finite_line_def)
  from this [of "k_env g"] show ?thesis by (auto simp: rx_discard_def do_kenv_def progress_def traffic_def timed_def)
qed

lemma progress_take: "k_uart_pending g \<noteq> [] \<Longrightarrow> k_uart_pending g' = tl (k_uart_pending g) \<Longrightarrow> k_env g' = k_env g \<Longrightarrow>
    k_uart_pending_us g' = k_uart_pending_us g \<Longrightarrow> (k_asm g' \<noteq> [] \<Longrightarrow> timed clk g \<Longrightarrow> 0 < k_asm_last_us g') \<Longrightarrow>
    progress m clk g g' \<and> traffic m g' < traffic m g"
  by (auto simp: progress_def traffic_def timed_def neq_Nil_conv)

lemma progress_loop:
  assumes "finite_line en m clk"
  shows "progress m clk g (read_echo_loop en n g)"
proof (induction n arbitrary: g)
  case (Suc n)
  obtain g1 any where f: "uart_fill en 0 g = (g1, any)" by fastforce
  have p1: "progress m clk g g1" using progress_fill [OF assms, of g 0] f by simp
  have ne: "any \<Longrightarrow> k_uart_pending g1 \<noteq> []"
    using f by (auto simp: uart_fill_def on_kenv_eq kline_now_def Let_def split: if_splits)
  show ?case
  proof (cases "k_tx g")
    case (Some tx)
    let ?g2 = "g1\<lparr>k_uart_pending := tl (k_uart_pending g1), k_last_bus_us := k_uart_pending_us g1\<rparr>"
    have p2: "progress m clk g x" if any "k_uart_pending x = tl (k_uart_pending g1)" "k_env x = k_env g1" "k_uart_pending_us x = k_uart_pending_us g1"
      "k_asm x = k_asm g1" "k_asm_last_us x = k_asm_last_us g1" for x
      using progress_trans [OF p1] progress_take [OF ne [OF that(1)] that(2-4), of clk m] that(5,6) by (simp add: timed_def)
    show ?thesis
      using p1 p2 progress_trans [OF p2 Suc.IH] by (simp add: Some f Let_def upd_stats_def)
  qed simp
qed simp

lemma progress_read: "finite_line en m clk \<Longrightarrow> progress m clk g (tx_read_echo en limit g)"
  by (simp add: tx_read_echo_def progress_loop split: option.split)

lemma progress_fields:
  "k_env g' = k_env g \<Longrightarrow> k_uart_pending g' = k_uart_pending g \<Longrightarrow> k_uart_pending_us g' = k_uart_pending_us g \<Longrightarrow>
    k_asm g' = k_asm g \<Longrightarrow> k_asm_last_us g' = k_asm_last_us g \<Longrightarrow> progress m clk g g'"
  by (simp add: progress_def traffic_def timed_def)

lemma progress_fault:
  assumes "finite_line en m clk"
  shows "progress m clk g (rx_fault en g)"
proof -
  have "progress m clk g (fst (kline_now en (x\<lparr>k_asm := [], k_rx_invalid := True\<rparr>))\<lparr>k_rx_invalid_last_us := t\<rparr>)"
    if "k_env x = k_env g" "k_uart_pending x = k_uart_pending g" "k_uart_pending_us x = k_uart_pending_us g" for x t
  proof (rule progress_trans [OF progress_trans [OF _ progress_now [OF assms]] progress_fields])
    show "progress m clk g (x\<lparr>k_asm := [], k_rx_invalid := True\<rparr>)"
      using that by (simp add: progress_def traffic_def timed_def)
  qed simp_all
  then show ?thesis by (simp add: rx_fault_def Let_def case_prod_beta split: option.split)
qed

lemma progress_event:
  assumes "finite_line en m clk"
  shows "progress m clk g (uart_event en ty n g)"
proof -
  have ovf: "progress m clk g (rx_fault en (rx_discard en x))" if "k_env x = k_env g" "k_uart_pending x = k_uart_pending g" "k_asm x = k_asm g" "k_uart_pending_us x = k_uart_pending_us g" "k_asm_last_us x = k_asm_last_us g" for x
    by (rule progress_trans [OF progress_trans [OF progress_fields progress_discard [OF assms]] progress_fault [OF assms]]) (simp_all add: that)
  have err: "progress m clk g (rx_fault en x)" if "k_env x = k_env g" "k_uart_pending x = k_uart_pending g" "k_asm x = k_asm g" "k_uart_pending_us x = k_uart_pending_us g" "k_asm_last_us x = k_asm_last_us g" for x
    by (rule progress_trans [OF progress_fields progress_fault [OF assms]]) (simp_all add: that)
  have brk: "progress m clk g x" if "k_env x = k_env g" "k_uart_pending x = k_uart_pending g" "k_asm x = k_asm g" "k_uart_pending_us x = k_uart_pending_us g" "k_asm_last_us x = k_asm_last_us g" for x
    by (rule progress_fields) (simp_all add: that)
  have data: "progress m clk g (tx_read_echo en l (g\<lparr>k_tx := x\<rparr>))" for l x
    by (rule progress_trans [OF progress_fields progress_read [OF assms]]) simp_all
  show ?thesis
    by (cases "k_tx g") (simp_all add: uart_event_def Let_def case_prod_beta ovf err brk data upd_stats_def)
qed

text \<open>A member of the queue set uses up traffic; without one the line is untouched and time passes.\<close>

lemma select_event:
  assumes "finite_line en m clk" "receive_event en w g = (g', True)"
  shows "progress m clk g g' \<and> traffic m g' < traffic m g"
proof -
  obtain d x where s: "kn_select en w (k_env g) = (d, Some x)"
    using assms(2) by (cases "kn_select en w (k_env g)"; cases "snd (kn_select en w (k_env g))") (auto simp: receive_event_def on_kenv_eq)
  have "m d < m (k_env g)" "clk (k_env g) \<le> clk d" using assms(1) s unfolding finite_line_def by blast+
  then have p: "progress m clk g y \<and> traffic m y < traffic m g" if "progress m clk (g\<lparr>k_env := d\<rparr>) y" for y
    using that by (auto simp: progress_def traffic_def timed_def)
  show ?thesis
    using assms(2) s p [OF progress_event [OF assms(1)]] p [OF progress_fields]
    by (auto simp: receive_event_def on_kenv_eq split: kline_member.splits option.splits)
qed

lemma select_none:
  assumes "finite_line en m clk" "receive_event en w g = (g', False)"
  shows "g' = g\<lparr>k_env := k_env g'\<rparr> \<and> progress m clk g g' \<and> clk (k_env g) + (if w = 0 then 0 else 1) \<le> clk (k_env g')"
proof -
  obtain d where s: "kn_select en w (k_env g) = (d, None)" "g' = g\<lparr>k_env := d\<rparr>"
    using assms(2) by (cases "kn_select en w (k_env g)"; cases "snd (kn_select en w (k_env g))")
      (auto simp: receive_event_def on_kenv_eq split: option.splits kline_member.splits)
  then have "m d \<le> m (k_env g)" "clk (k_env g) + (if w = 0 then 0 else 1) \<le> clk d"
    using assms(1) unfolding finite_line_def by blast+
  then show ?thesis using s(2) by (auto simp: progress_def traffic_def timed_def split: if_splits)
qed

text \<open>A byte taken off the line is traffic used up; a gap leaves nothing in the assembly.\<close>

lemma complete_fields:
  assumes "asm_complete e g = (g', fo)"
  shows "k_env g' = k_env g" "k_uart_pending g' = k_uart_pending g" "k_uart_pending_us g' = k_uart_pending_us g"
    "k_asm g' = [] \<or> \<not> e \<and> g' = g" "k_asm_last_us g' = k_asm_last_us g" "k_command_pending g' = k_command_pending g"
  using assms by (auto simp: asm_complete_def Let_def upd_stats_def split: if_splits)

lemma push_fields:
  "k_env (asm_push b t g) = k_env g" "k_uart_pending (asm_push b t g) = k_uart_pending g"
  "k_uart_pending_us (asm_push b t g) = k_uart_pending_us g" "k_asm_last_us (asm_push b t g) = t"
  by (simp_all add: asm_push_def Let_def upd_stats_def)

lemma take_byte:
  assumes "k_uart_pending g \<noteq> []" "rx_byte g = (g', fo)"
  shows "progress m clk g g' \<and> traffic m g' < traffic m g"
proof -
  define h where "h = (upd_stats (\<lambda>s. s\<lparr>ks_rx_bytes := ks_rx_bytes s + 1\<rparr>) (g\<lparr>k_uart_pending := tl (k_uart_pending g)\<rparr>))
    \<lparr>k_last_bus_us := k_uart_pending_us g\<rparr>"
  have h: "k_env h = k_env g" "k_uart_pending h = tl (k_uart_pending g)" "k_uart_pending_us h = k_uart_pending_us g"
    "k_asm h = k_asm g" "k_asm_last_us h = k_asm_last_us g"
    by (simp_all add: h_def upd_stats_def)
  have push: "progress m clk g g1 \<and> traffic m g1 < traffic m g"
    if c: "asm_complete False (asm_push (hd (k_uart_pending g)) (k_uart_pending_us g) h') = (g1, fo1)"
      and h': "k_env h' = k_env h" "k_uart_pending h' = k_uart_pending h" "k_uart_pending_us h' = k_uart_pending_us h" for h' g1 fo1
    using complete_fields(1-3,5) [OF c] h' h
    by (intro progress_take [OF assms(1)]) (use assms(1) in \<open>simp_all add: push_fields timed_def\<close>)
  have rest: "progress m clk g g1 \<and> traffic m g1 < traffic m g"
    if "g1 = h \<or> g1 = h\<lparr>k_rx_invalid_last_us := t\<rparr>" for g1 t
    using that h by (intro progress_take [OF assms(1)]) (auto simp: timed_def)
  let ?h = "if k_uart_pending_us g > k_rx_invalid_last_us h then h\<lparr>k_rx_invalid_last_us := k_uart_pending_us g\<rparr> else h"
  have split: "rx_byte g = (if k_rx_invalid h then
      if \<not> k_uart_pending_us g - k_rx_invalid_last_us h \<ge> P_TO_US (kc_p1_max (k_cfg h)) then (?h, None)
      else asm_complete False (asm_push (hd (k_uart_pending g)) (k_uart_pending_us g) (?h\<lparr>k_rx_invalid := False\<rparr>))
    else asm_complete False (asm_push (hd (k_uart_pending g)) (k_uart_pending_us g) h))"
    by (simp only: rx_byte_def Let_def h_def)
  show ?thesis
  proof (cases "k_rx_invalid h")
    case True
    show ?thesis
    proof (cases "k_uart_pending_us g - k_rx_invalid_last_us h \<ge> P_TO_US (kc_p1_max (k_cfg h))")
      case True
      with split assms(2) \<open>k_rx_invalid h\<close> show ?thesis by (intro push [of "?h\<lparr>k_rx_invalid := False\<rparr>" g' fo]) simp_all
    next
      case False
      with split assms(2) \<open>k_rx_invalid h\<close> have "g' = ?h" by simp
      then show ?thesis by (intro rest [of g' "k_uart_pending_us g"]) simp
    qed
  qed (use split assms(2) in \<open>intro push [of h g' fo]; simp\<close>)
qed

lemma progress_gap:
  assumes "asm_complete True g = (g', fo)"
  shows "progress m clk g g'"
  using complete_fields [OF assms] by (auto simp: progress_def traffic_def timed_def)

text \<open>On a finite line, progress is a property that reception carries.\<close>

lemma reception_progress:
  assumes "finite_line en m clk"
  shows "reception en (progress m clk g0) (\<lambda>_. True)"
proof
  fix g g' fo w
  assume p: "progress m clk g0 g"
  note step = progress_trans [OF p]
  show "progress m clk g0 (fst (kline_now en g))" by (rule step [OF progress_now [OF assms]])
  show "progress m clk g0 (fst (receive_event en w g))"
  proof (cases "receive_event en w g")
    case (Pair g1 got)
    then show ?thesis using step select_event [OF assms] select_none [OF assms] by (cases got) auto
  qed
  show "progress m clk g0 (fst (uart_fill en w g))" by (rule step [OF progress_fill [OF assms]])
  show "progress m clk g0 (rx_discard en g)" by (rule step [OF progress_discard [OF assms]])
  show "progress m clk g0 g' \<and> pred_option (\<lambda>_. True) fo" if "k_uart_pending g \<noteq> []" "rx_byte g = (g', fo)"
    using step take_byte [OF that] by (cases fo) auto
  show "progress m clk g0 (g\<lparr>k_uart_pending := tl (k_uart_pending g), k_last_bus_us := k_uart_pending_us g\<rparr>)"
    if "k_uart_pending g \<noteq> []"
    by (rule step [OF conjunct1 [OF progress_take [OF that]]]) (simp_all add: timed_def)
  show "progress m clk g0 g' \<and> pred_option (\<lambda>_. True) fo" if "asm_complete True g = (g', fo)"
    using step progress_gap [OF that] by (cases fo) auto
qed

lemma events_return:
  assumes "finite_line en m clk"
  shows "\<exists>g'. uart_events en g = Some g'"
proof (induction "traffic m g" arbitrary: g rule: less_induct)
  case less
  obtain g1 got where r: "receive_event en 0 g = (g1, got)" by fastforce
  show ?case
    using less select_event [OF assms, of 0 g g1] r by (subst uart_events.simps) auto
qed

lemma receive_returns:
  assumes "finite_line en m clk"
  shows "\<exists>g' any. uart_receive en w g = Some (g', any) \<and> progress m clk g g' \<and> (any \<longrightarrow> k_uart_pending g' \<noteq> [])"
proof -
  obtain g1 where a: "uart_events en g = Some g1" using events_return [OF assms] by blast
  obtain g2 where b: "uart_events en (fst (uart_fill en w g1)) = Some g2" using events_return [OF assms] by blast
  have "uart_receive en w g = Some (g2, k_uart_pending g2 \<noteq> [])" using a b by (simp add: uart_receive_def)
  then show ?thesis using listening.receive [OF reception.axioms(1) [OF reception_progress [OF assms, of g]], of w g g2] by auto
qed

lemma rx_drain_returns:
  assumes "finite_line en m clk"
  shows "\<exists>x. rx_drain_loop en g = Some x"
proof (induction "traffic m g" arbitrary: g rule: less_induct)
  case less
  obtain g1 any where r: "uart_receive en 0 g = Some (g1, any)" "progress m clk g g1" "any \<longrightarrow> k_uart_pending g1 \<noteq> []"
    using receive_returns [OF assms] by blast
  obtain g2 fo where b: "rx_byte g1 = (g2, fo)" by fastforce
  have t: "any \<Longrightarrow> traffic m g2 < traffic m g"
    using take_byte [OF _ b, where m = m and clk = clk] r(2,3) by (auto simp: progress_def)
  show ?case using r(1) b less [OF t] by (subst rx_drain_loop.simps) (auto split: option.split)
qed

definition order :: "('d \<Rightarrow> nat) \<Rightarrow> ('d \<Rightarrow> int) \<Rightarrow> int \<Rightarrow> ('d kline \<times> 'd kline) set" where
  "order m clk deadline =
     inv_image (less_than <*lex*> less_than <*lex*> less_than) (\<lambda>g. (traffic m g, nat (deadline - clk (k_env g)), length (k_asm g)))"

lemma wf_order: "wf (order m clk deadline)"
  by (simp add: order_def wf_lex_prod)

text \<open>A round ends the service, or brings it nearer to its end.\<close>

lemma order_progress:
  assumes "progress m clk a b" "(c, b) \<in> order m clk deadline"
  shows "(c, a) \<in> order m clk deadline"
  using assms by (auto simp: order_def progress_def)

lemma round_returns:
  assumes "finite_line en m clk" "timed clk g"
  shows "\<exists>g' r. rx_round en deadline cmd g = Some (g', r) \<and> progress m clk g g' \<and>
    (r = None \<longrightarrow> (g', g) \<in> order m clk deadline) \<and> (r = Some RxDeadline \<longrightarrow> deadline \<le> clk (k_env g')) \<and>
    (r = Some RxCommand \<longrightarrow> cmd \<and> k_command_pending g')"
proof -
  note rp = reception_progress [OF assms(1), of g]
  obtain g1 fo where d: "rx_drain en g = Some (g1, fo)"
    using rx_drain_returns [OF assms(1), of g] by (cases "k_uart_tx_unresolved g") (auto simp: rx_drain_def)
  have p1: "progress m clk g g1" using reception.drain [OF rp d] by simp
  obtain g2 t where n: "kline_now en g1 = (g2, t)" by fastforce
  have p2: "progress m clk g g2" using listening.now [OF reception.axioms(1) [OF rp] p1] n by simp
  have t: "clk (k_env g1) \<le> t" "t \<le> clk (k_env g2)" "k_asm g2 = k_asm g1" "k_asm_last_us g2 = k_asm_last_us g1" "k_cfg g2 = k_cfg g1"
    using n assms(1) unfolding finite_line_def
    by (cases "kn_now en (k_env g1)"; fastforce simp: kline_now_def on_kenv_eq)+
  obtain g3 fo3 where c: "asm_complete True g2 = (g3, fo3)" by fastforce
  have p3: "progress m clk g g3" using reception.gap [OF rp p2 c] by simp
  let ?gap = "k_asm_last_us g2 + P_TO_US (kc_p1_max (k_cfg g2))"
  have ti: "timed clk g2" using p2 assms(2) by (simp add: progress_def)
  have nz: "k_asm g2 \<noteq> [] \<Longrightarrow> ?gap \<noteq> 0" using ti by (simp add: timed_def P_TO_US_def)
  have drop: "(g3, g) \<in> order m clk deadline" if "k_asm g2 \<noteq> []"
    using complete_fields [OF c] that p2 by (intro order_progress [OF p2]) (auto simp: order_def traffic_def)
  have p12: "progress m clk g1 g2" using progress_now [OF assms(1), of g1] n by simp
  have wait: "(fst (receive_event en w g2), g) \<in> order m clk deadline" if "t < deadline" "0 < w" for w
  proof (cases "receive_event en w g2")
    case (Pair g4 got)
    show ?thesis
    proof (cases got)
      case True
      then have "(g4, g2) \<in> order m clk deadline" using Pair select_event [OF assms(1), of w g2 g4] by (simp add: order_def)
      with order_progress [OF p2] Pair show ?thesis by simp
    next
      case False
      then have s: "progress m clk g2 g4" "clk (k_env g2) < clk (k_env g4)"
        using Pair that select_none [OF assms(1), of w g2 g4] by auto
      have "progress m clk g1 g4" by (rule progress_trans [OF p12 s(1)])
      moreover have "clk (k_env g1) < clk (k_env g4)" "clk (k_env g1) < deadline"
        using p12 s(2) t(1) that(1) by (auto simp: progress_def)
      ultimately have "(g4, g1) \<in> order m clk deadline" by (auto simp: order_def progress_def)
      with order_progress [OF p1] Pair show ?thesis by simp
    qed
  qed
  have pe: "progress m clk g (fst (receive_event en w g2))" for w by (rule listening.event [OF reception.axioms(1) [OF rp] p2])
  have le: "clk (k_env g2) \<le> clk (k_env g3)" using complete_fields [OF c] by simp
  show ?thesis
  proof (cases fo)
    case (Some f)
    then show ?thesis using d p1 by (simp add: rx_round_def)
  next
    case None
    show ?thesis
    proof (cases "cmd \<and> k_command_pending g1")
      case True
      then show ?thesis using d None p1 by (simp add: rx_round_def)
    next
      case False
      let ?wake = "if k_asm g2 \<noteq> [] \<and> ?gap < deadline then ?gap else deadline"
      let ?at = "if k_asm g2 \<noteq> [] then ?gap else 0"
      have r: "rx_round en deadline cmd g =
          (if t \<ge> ?wake then
             case (if ?at \<noteq> 0 \<and> t \<ge> ?at then (g3, fo3) else (g2, None)) of
               (g5, Some f) \<Rightarrow> Some (g5, Some (RxFrame f))
             | (g5, None) \<Rightarrow> Some (g5, if t \<ge> deadline then Some RxDeadline else None)
           else Some (fst (receive_event en (ticks_until t ?wake) g2), None))"
        using d None False n c t(3-5) by (auto simp: rx_round_def Let_def split: option.split)
      show ?thesis
      proof (cases "t \<ge> ?wake")
        case True
        then show ?thesis using r nz drop p2 p3 t(2) le by (cases fo3) (auto split: if_splits)
      next
        case False
        moreover have "0 < ticks_until t ?wake" by (simp add: ticks_until_def Let_def)
        moreover have "t < deadline" using False by (auto split: if_splits)
        ultimately show ?thesis using r pe wait by simp
      qed
    qed
  qed
qed

text \<open>The receive service of the K-Line driver always returns, when the line carries finitely many bytes and
  events and the clock runs while the driver waits: with a message, at the deadline and not before it,
  or, where it may, because a command is waiting.
\<close>
theorem kline_reception_returns:
  assumes "finite_line en m clk" and "timed clk g"
  shows "\<exists>g' r. rx_service en deadline cmd g = Some (g', r) \<and> timed clk g' \<and>
    (r = RxDeadline \<longrightarrow> deadline \<le> clk (k_env g')) \<and> (r = RxCommand \<longrightarrow> cmd \<and> k_command_pending g')"
  using assms(2)
proof (induction g rule: wf_induct_rule [OF wf_order [of m clk deadline]])
  case (1 g)
  obtain g1 r where d: "rx_round en deadline cmd g = Some (g1, r)" "progress m clk g g1" "r = None \<longrightarrow> (g1, g) \<in> order m clk deadline"
      "r = Some RxDeadline \<longrightarrow> deadline \<le> clk (k_env g1)" "r = Some RxCommand \<longrightarrow> cmd \<and> k_command_pending g1"
    using round_returns [OF assms(1) 1(2)] by blast
  have ti: "timed clk g1" using d(2) 1(2) by (simp add: progress_def)
  show ?case
  proof (cases r)
    case None
    then show ?thesis using d 1(1) [of g1] ti by (subst rx_service.simps) simp
  next
    case (Some x)
    then show ?thesis using d ti by (subst rx_service.simps) simp
  qed
qed

lemma kline_reception_returns_witness:
  "\<exists>g' r. rx_service silent_line 5000 True ((kline_zero 1)\<lparr>k_cfg := cfg_defaults, k_uart_pending := [0xC1, 0x33], k_uart_pending_us := 1\<rparr>) =
     Some (g', r)"
proof -
  let ?g = "(kline_zero 1)\<lparr>k_cfg := cfg_defaults, k_uart_pending := [0xC1, 0x33], k_uart_pending_us := 1\<rparr> :: int kline"
  have l: "finite_line silent_line (\<lambda>_. 0) (\<lambda>t. t)" by (auto simp: finite_line_def silent_line_def)
  have t: "timed (\<lambda>t. t) ?g" by (simp add: timed_def kline_zero_def)
  from kline_reception_returns [OF l t] show ?thesis by blast
qed

end
