(* ===== verification/Spec2Isabelle.thy ===== *)
theory Spec2Isabelle
  imports IsoTpLink KlineCodec PwmCodec BusWorker J2534Scheduler J2534Wire J2534Safe VifSafe LinkArbiter VifCtrl Slcan
    ElmKept Timing J1850Guard KlineWire KlineReturn
begin

text \<open>
  A model of the protocol core of the diagnostic adapter firmware, the C code under \<open>main/\<close>.

  \<^bold>\<open>The program.\<close> The adapter connects a client (a PC over USB, a phone over BLE) to the four
  buses of a vehicle. A transport (\<open>usb_cdc.c\<close>, \<open>ble_uart.c\<close>) is a port of \<open>comm_iface.c\<close>; \<open>main.c\<close> decides
  which of the two has the link, and the link task of \<open>vif.c\<close> feeds the bytes of its client to a
  front-end grammar (\<open>elm327_at.c\<close>, \<open>slcan.c\<close>, the J2534 link \<open>j2534_wire.c\<close> with its core \<open>j2534.c\<close>),
  which the client, or the control commands of \<open>vif_ctrl.c\<close>, can change. A grammar uses the vehicle
  interface (\<open>vif.c\<close>) to claim wiring, drive connector pins and exchange messages. Below it every
  bus driver (\<open>can_bus.c\<close>, \<open>kline.c\<close>, \<open>j1850_vpw.c\<close>, \<open>j1850_pwm.c\<close>) publishes one table of operations;
  transmissions may run on a worker task (\<open>bus_tx_worker.c\<close>). The decisions of the drivers are in
  codecs without hardware (\<open>kline_codec.c\<close>, \<open>j1850_vpw_codec.c\<close>, \<open>j1850_pwm_codec.c\<close>, \<open>isotp.c\<close>). The
  codecs, the K-Line driver, the interface, the link, the three grammars and the J2534 service are
  what this development models.

  \<^bold>\<open>Conventions\<close> (theory \<open>Prelude\<close>). Words where the C relies on width, bits or wrap-around, \<open>nat\<close>
  for lengths and offsets, truncated where they are stored in a narrower object; arrays are lists,
  and an operation that computes its own indices returns an option whose \<open>None\<close> is an access
  outside an array. Errors are return values or a sum. Code that runs on several tasks is a step
  relation whose steps are the atomic accesses or the critical sections; a lock is not a field.
  The interfaces are locales: \<open>safe_machine\<close>, a component driven by calls that keeps an invariant
  and never faults (interpreted by both ISO-TP machines, the PWM stream, the transmit control, the
  scheduler, the link protocol, the J2534 core and the adaptive timing of the ELM327 grammar),
  \<open>simulation\<close>, a machine that answers every call like an abstract one (the receive ring of a J2534
  channel, the arbitration of the link), \<open>check_code\<close>, a byte-wise check that notices every change
  of one byte (the K-Line sum, the J1850 CRC and the CRC-32 of the link), and \<open>listening\<close>, \<open>reception\<close>
  and \<open>quiet_line\<close>, what every elementary step of the K-Line worker keeps and its loops therefore keep.

  \<^bold>\<open>Components\<close>, in the order of the imports.
  \<^item> \<open>IsoTp\<close> and \<open>IsoTpLink\<close>: \<open>isotp.c\<close>. Receiver and sender of ISO 15765-2, function by function; a
    sender and a receiver connected by a bus deliver every payload whole, neither faults on any
    frames, wait frames, separation times and time-outs behave as configured. \<open>link_run\<close> has as
    fuel the payload length, and each round sends at least one byte.
  \<^item> \<open>KlineCodec\<close>: \<open>kline_codec.c\<close>. Checksums, message lengths, key bytes, timing codes and the
    measurement of the synchronisation byte.
  \<^item> \<open>KlineState\<close>, \<open>KlineRx\<close>, \<open>KlineTx\<close>, \<open>KlineInit\<close>, \<open>KlineTask\<close>: the driver \<open>kline.c\<close>. Its state and parameters;
    events, bytes and the framer; the quiet time, the transmission with its echo and its retries; the
    five baud and the fast initialisation; the task and the operations of the table. The UART, the
    clock, the queues and the vehicle are the environment \<open>kenv\<close>; a loop that ends with the line or
    the clock is a partial function.
  \<^item> \<open>KlineKept\<close>, \<open>KlineSafe\<close>, \<open>KlineWire\<close>, \<open>KlineReturn\<close>: what the worker keeps, the buffers, objects and
    parameters in every sequence of calls and the sessions, the echo and the framing of messages, and
    that reception returns.
  \<^item> \<open>J1850Common\<close>, \<open>VpwCodec\<close>, \<open>PwmCodec\<close>: \<open>j1850_common.c\<close>, \<open>j1850_vpw_codec.c\<close>, \<open>j1850_pwm_codec.c\<close>. The
    CRC and the header bits; symbols to pulses and back, the tolerance of the decoders in the
    windows of the standard, their totality on any pulses, and the in-frame response and stream logic of PWM.
  \<^item> \<open>BusTx\<close> and \<open>BusWorker\<close>: \<open>bus.c\<close>, \<open>bus_tx.c\<close>, \<open>bus_tx_worker.c\<close>. Parameter names, cancellation
    against admission, receive epochs, and the worker task interleaved with its client, each operation
    both as a function and as the sequence of its accesses to what the two share.
  \<^item> \<open>J2534Scheduler\<close> and \<open>J2534Wire\<close>: \<open>j2534_scheduler.c\<close>, \<open>j2534_wire.c\<close>. Periodic and repeat jobs across
    the wrap of the clock; the fragmented request and response protocol against its specification
    (\<open>j2534_wire_exchange\<close>), on any bytes, and on damaged frames. The core that answers is a
    parameter of \<open>J2534Wire\<close>.
  \<^item> \<open>J2534Common\<close>, \<open>J2534Channel\<close>, \<open>J2534Core\<close>, \<open>J2534Requests\<close>: \<open>j2534.c\<close> and \<open>j2534.h\<close>. The record of a
    channel with its receive ring and filters; the service of the buses, \<open>j2534_core_poll\<close>, from a
    received record to the queues of the channels and from the queues, the schedule and the
    transport protocol to one transmission per bus; every request of the host down to
    \<open>j2534_core_request\<close>. The table of channels is a list, a pointer to a channel an index, and a
    freed channel \<open>channel_zero\<close>. The drivers, the clock, \<open>malloc\<close> and the voltage readings are the
    environment \<open>core_env\<close>, the protocol buffer library the record \<open>codec\<close>. The loop of \<open>poll_rx\<close>
    has the code's own bound, 32 records.
  \<^item> \<open>J2534Service\<close>, \<open>J2534Table\<close>, \<open>J2534Safe\<close>: what the core keeps. \<open>keeps\<close> says that service leaves
    what the host set up alone, flags, filters, parameters and scheduled messages included, \<open>table_ok\<close> that buffers have their sizes and logical channels their
    parents, \<open>answers\<close> that a request in progress does not fault and ends in such a table; from these
    the safety of every sequence of calls (\<open>corem\<close>), disconnection, and the path of a queued message
    to the bus.
  \<^item> \<open>Vif\<close> and \<open>VifSafe\<close>: \<open>vif.c\<close> and the pin functions of \<open>board.c\<close>. Claims, pins, calibration,
    requests; \<open>Vif\<close> has each critical section as a function and the operations composed of them,
    with the drivers as a parameter (\<open>vif_env\<close>); \<open>VifSafe\<close> interleaves the two owners and the transmit
    workers section by section, with drivers that return anything. The statistics calls ask for no
    claim and are not excluded from a driver.
  \<^item> \<open>CommPort\<close>: \<open>comm_iface.c\<close>. The ports, with the ring buffer of ESP-IDF as a parameter: what a client
    sends is read in order, and when it goes away its port is drained and muted.
  \<^item> \<open>VifLink\<close>, \<open>LinkArbiter\<close>, \<open>VifCtrl\<close>: the link task and the table of front-ends in \<open>vif.c\<close>, the transports
    in \<open>main.c\<close>, \<open>vif_ctrl.c\<close>. One pass of the link task is a function; a front-end is its callbacks. A
    change of grammar is carried out or stays requested, and which transport has the link follows
    a three-line rule (\<open>link_first_connected\<close>).
  \<^item> \<open>Slcan\<close>: \<open>slcan.c\<close>, \<open>utility.c\<close>, \<open>can_xfer.h\<close>. The serial CAN grammar over \<open>Vif\<close> against a reference
    without buffers, frames printed and parsed, forwarding. The loop bound of a poll is the code's
    own 32.
  \<^item> \<open>ElmState\<close>, \<open>ElmTiming\<close>, \<open>ElmFrames\<close>, \<open>ElmXfer\<close>, \<open>ElmAt\<close>, \<open>ElmKept\<close>: \<open>elm327_at.c\<close>. State, output and
    protocol selection; the adaptive timing; the frames as the client sees them and replies that
    come late; the exchanges, the K-Line initialisation and the search; the AT commands and the
    line assembler; and what all of it keeps. Loops that end with the clock or the vehicle are
    partial functions, with one pass of a loop as a function of its own; \<open>kept\<close> is the collection
    of rules that carries the output and the line through every command. The loop that observes
    late replies has the code's own bound, 16.
  \<^item> \<open>Timing\<close> and \<open>J1850Guard\<close>: \<open>timer.c\<close>, \<open>button.c\<close>, \<open>j1850_lifecycle.c\<close>.

  \<^bold>\<open>Not modelled.\<close> The CAN driver and the J1850 drivers around their codecs (RMT, TWAI, timers,
  interrupts); the interrupt that records the edges of the K-Line sync byte; the hardware side of \<open>board.c\<close>;
  the transports \<open>ble_uart.c\<close> and \<open>usb_cdc.c\<close>, which are callbacks of third-party stacks; the console
  \<open>shell.c\<close>, which prints; floating point calibration; the generated protocol buffer code; the host
  driver under \<open>j2534_driver/\<close>, a separate program in C++. Mutexes, ring buffers and queues of
  FreeRTOS appear only through what their callers rely on. Tasks that run between two passes of the
  link task are modelled as calls between them, not instruction by instruction.

  \<^bold>\<open>What the model showed.\<close> The millisecond clock of \<open>timer.c\<close> wraps every 71.6 minutes
  (\<open>timer_exact_until_wrap\<close>); a pin grounded by the link during a calibration is switched off while
  the books keep it (\<open>vif_calibration_loses_ground\<close>); one parameter has no name although the header
  of \<open>bus_param_at\<close> promises every one (\<open>bus_params_dictionary\<close>); a J2534 fast initialisation whose
  reply does not fit is reported as a general failure, because \<open>init_reply\<close> leaves a size the
  encoder refuses; a change of grammar that is refused after its teardown failed once leaves the
  link without any (\<open>link_apply_frontend\<close>); a port is made ready for the next client while the
  grammar of the last one is still installed (\<open>vif_link_set_port\<close>); the ELM327 grammar counts replies
  in a byte, so 256 of them are none (\<open>bus_step\<close>), and takes a stray last character of a request for
  no reply count (\<open>elm327_parse_request\<close>); the RESET of the control plane never reports a bus that
  does not close, because it is never called on the task of the link (\<open>cmd_reset\<close>).
\<close>

end
